(* ===== verification/Prelude.thy ===== *)
theory Prelude
  imports Main "HOL-Library.Word"
begin

text \<open>
  Shared vocabulary of the development: bytes and byte slices as the Go code writes them
  (\<open>in[a:b]\<close>), results that carry an error, and the generic lemmas on lists and results that
  the components' proofs use.
\<close>

unbundle bit_operations_syntax

type_synonym byte = "8 word"

named_theorems slice_simps \<open>evaluation and composition of slices\<close>

subsection \<open>Slices\<close>

text \<open>\<open>gslice xs a b\<close> is Go's \<open>xs[a:b]\<close> for \<open>a \<le> b \<le> len(xs)\<close>.\<close>

definition gslice :: "'a list \<Rightarrow> nat \<Rightarrow> nat \<Rightarrow> 'a list" where
  "gslice xs a b = take (b - a) (drop a xs)"

lemma length_slice [simp, slice_simps]: "b \<le> length xs \<Longrightarrow> length (gslice xs a b) = b - a"
  by (simp add: gslice_def)

lemma slice_empty [simp, slice_simps]: "b \<le> a \<Longrightarrow> gslice xs a b = []"
  by (simp add: gslice_def)

lemma slice_append_slice [slice_simps]:
  assumes "a \<le> b" "b \<le> c"
  shows "gslice xs a b @ gslice xs b c = gslice xs a c"
proof -
  have "take (b - a) (drop a xs) @ take (c - b) (drop (b - a) (drop a xs))
      = take ((b - a) + (c - b)) (drop a xs)"
    by (simp only: take_add)
  with assms show ?thesis by (simp add: gslice_def)
qed

lemma nth_slice [simp, slice_simps]:
  "b \<le> length xs \<Longrightarrow> i < b - a \<Longrightarrow> gslice xs a b ! i = xs ! (a + i)"
  by (simp add: gslice_def)

lemma slice_Suc [slice_simps]:
  "a < b \<Longrightarrow> a < length xs \<Longrightarrow> gslice xs a b = xs ! a # gslice xs (Suc a) b"
  by (simp add: gslice_def Cons_nth_drop_Suc [symmetric] take_Cons')

lemma slice_hd [slice_simps]:
  "a < b \<Longrightarrow> b \<le> length xs \<Longrightarrow> hd (gslice xs a b) = xs ! a"
  by (simp add: slice_Suc)

lemma slice_all [simp, slice_simps]: "gslice xs 0 (length xs) = xs"
  by (simp add: gslice_def)

lemma slice_append_mid [slice_simps]:
  "gslice (xs @ ys @ zs) (length xs) (length xs + length ys) = ys"
  by (simp add: gslice_def)

lemma slice_append_left [slice_simps]:
  "b \<le> length xs \<Longrightarrow> gslice (xs @ ys) a b = gslice xs a b"
  by (simp add: gslice_def)

lemma slice_append_right [slice_simps]:
  "gslice (xs @ ys) (length xs + a) (length xs + b) = gslice ys a b"
  by (simp add: gslice_def)

lemma slice_eq_Nil_iff: "b \<le> length xs \<Longrightarrow> gslice xs a b = [] \<longleftrightarrow> b \<le> a"
  by (metis diff_is_0_eq length_0_conv length_slice)

lemma split_at_slice:
  assumes "a \<le> b" "b \<le> length xs"
  shows "xs = take a xs @ gslice xs a b @ drop b xs"
  using assms by (simp add: gslice_def) (metis append_take_drop_id drop_drop le_add_diff_inverse2)

subsection \<open>Results\<close>

lemma case_sum_Inr_iff:
  "(case r of Inl e \<Rightarrow> Inl e | Inr x \<Rightarrow> f x) = Inr y \<longleftrightarrow> (\<exists>x. r = Inr x \<and> f x = Inr y)"
  by (cases r) auto

lemma case_sum_Inl_iff:
  "(case r of Inl e \<Rightarrow> Inl e | Inr x \<Rightarrow> f x) = Inl d \<longleftrightarrow> r = Inl d \<or> (\<exists>x. r = Inr x \<and> f x = Inl d)"
  by (cases r) auto

lemmas result_iffs = case_sum_Inr_iff case_sum_Inl_iff

text \<open>A result passed on to the next step, and a step run over a list with a state until it fails.\<close>

definition bindSum :: "'e + 'a \<Rightarrow> ('a \<Rightarrow> 'e + 'b) \<Rightarrow> 'e + 'b" where
  "bindSum r f = (case r of Inl e \<Rightarrow> Inl e | Inr x \<Rightarrow> f x)"

lemma bindSum_simps [simp]: "bindSum (Inl e) f = Inl e" "bindSum (Inr x) f = f x"
  by (simp_all add: bindSum_def)

lemma bindSum_Inr: "bindSum r f = Inr y \<longleftrightarrow> (\<exists>x. r = Inr x \<and> f x = Inr y)"
  by (cases r) auto

fun foldSum :: "('x \<Rightarrow> 's \<Rightarrow> 'e + 's) \<Rightarrow> 'x list \<Rightarrow> 's \<Rightarrow> 'e + 's" where
  "foldSum f [] s = Inr s"
| "foldSum f (x # xs) s = (case f x s of Inl e \<Rightarrow> Inl e | Inr s' \<Rightarrow> foldSum f xs s')"

lemma foldSum_cong [fundef_cong]:
  assumes "xs = ys" "s = t" "\<And>x u. x \<in> set ys \<Longrightarrow> f x u = g x u"
  shows "foldSum f xs s = foldSum g ys t"
  unfolding assms(1,2) using assms(3) by (induction ys arbitrary: t) (auto split: sum.split)

lemma foldSum_append:
  "foldSum f (xs @ ys) s = (case foldSum f xs s of Inl e \<Rightarrow> Inl e | Inr t \<Rightarrow> foldSum f ys t)"
  by (induction xs arbitrary: s) (auto split: sum.split)

text \<open>Two runs whose steps correspond correspond.\<close>

lemma foldSum_map:
  assumes "\<And>x u. x \<in> set xs \<Longrightarrow> g x (h u) = map_sum id h (f x u)"
  shows "foldSum g xs (h s) = map_sum id h (foldSum f xs s)"
  using assms by (induction xs arbitrary: s) (auto split: sum.split)

text \<open>A property every step keeps holds at the end.\<close>

lemma foldSum_invariant:
  assumes "foldSum f xs s = Inr t" "P s" "\<And>x u v. x \<in> set xs \<Longrightarrow> P u \<Longrightarrow> f x u = Inr v \<Longrightarrow> P v"
  shows "P t"
  using assms
proof (induction xs arbitrary: s)
  case (Cons x xs)
  then obtain u where "f x s = Inr u" "foldSum f xs u = Inr t" by (auto split: sum.splits)
  with Cons show ?case by (metis list.set_intros)
qed simp

subsection \<open>Bytes\<close>

text \<open>A closed property of bytes can be checked on all 256 of them.\<close>

lemma unat_byte: "unat (b :: byte) < 256"
  using unsigned_less [of b] by simp

lemma all_bytes:
  assumes "list_all (\<lambda>n. P (word_of_nat n)) [0..<256]"
  shows "P (b :: byte)"
proof -
  have "unat b \<in> set [0..<256]" using unat_byte by simp
  with assms have "P (word_of_nat (unat b))" unfolding list_all_iff by blast
  then show ?thesis by simp
qed

end
