(* ===== verification/Ber.thy ===== *)
theory Ber
  imports Prelude
begin

text \<open>
  \<^verbatim>\<open>internal/pdfcore/ber.go\<close>: the normalizer that rewrites one top-level BER element into its
  DER form. The three-pass walker (\<open>berCheck\<close>, \<open>berRecord\<close>, \<open>berEmit\<close>) is modelled with the
  state of \<open>berNormalizer\<close> passed explicitly; an error ends the whole call, so the state of a
  failed walk is dropped, as \<open>normalizeBER\<close> does. Offsets and lengths are \<open>nat\<close>: every length
  is bounded by the input, which fits a Go \<open>int\<close>.
\<close>

section \<open>Data\<close>

definition maxBERDepth :: nat where
  "maxBERDepth = 64"

text \<open>
  The errors, one constructor per message. \<open>BerPanic\<close> stands for a Go index panic: the emitting
  pass reads its records with \<open>n.lens[n.nextLen]\<close> and \<open>n.unused[n.nextUnused]\<close>, which panics
  when the record is missing.
\<close>

datatype berError =
    BerTruncated nat nat nat
  | BerUnsupportedTag nat
  | BerIndefinitePrimitive nat
  | BerUnsupportedLength nat
  | BerNoEndOfContents nat
  | BerMalformedEOC nat
  | BerTooDeep nat
  | BerSegmentType nat
  | BerBitSegment nat
  | BerPanic

datatype berPass = BerCheck | BerRecord | BerEmit

record berNormalizer =
  inBytes :: "byte list"
  lens :: "nat list"
  unused :: "byte list"
  nextLen :: nat
  nextUnused :: nat
  outBytes :: "byte list"
  passOf :: berPass
  isBer :: bool

record berHeader =
  tagEnd :: nat
  hdrEnd :: nat
  constructed :: bool
  indefinite :: bool
  hdrLength :: nat

record berTail =
  tailOffset :: nat
  tailCount :: nat

record bitState =
  bsSeen :: bool
  bsLastOff :: nat
  bsLastUnused :: byte

section \<open>Lengths\<close>

text \<open>The loop of \<open>berLenSize\<close>: one octet per base-256 digit.\<close>

fun lenOctets :: "nat \<Rightarrow> nat \<Rightarrow> nat" where
  "lenOctets n sz = (if n > 0 then lenOctets (n div 256) (sz + 1) else sz)"

declare lenOctets.simps [simp del]

definition berLenSize :: "nat \<Rightarrow> nat" where
  "berLenSize n = (if n < 128 then 1 else lenOctets n 1)"

definition appendBERLength :: "byte list \<Rightarrow> nat \<Rightarrow> byte list" where
  "appendBERLength out n =
     (if n < 128 then out @ [of_nat n]
      else let k = berLenSize n - 1
           in (out @ [0x80 OR of_nat k]) @ map (\<lambda>i. of_nat (n div 256 ^ i)) (rev [0..<k]))"

definition isBERStringTag :: "byte \<Rightarrow> bool" where
  "isBERStringTag t \<longleftrightarrow>
     t \<in> set [3, 4, 7, 12, 18, 19, 20, 21, 22, 23, 24, 25, 26, 27, 28, 30]"

section \<open>Headers\<close>

text \<open>
  The loop over the octets of a high tag number: \<open>p\<close> is the next octet, \<open>i\<close> the octets read,
  \<open>num\<close> the value so far (at most 35 bits, so Go's \<open>int64\<close> never wraps).
\<close>

function highTag :: "byte list \<Rightarrow> nat \<Rightarrow> nat \<Rightarrow> nat \<Rightarrow> nat \<Rightarrow> nat \<Rightarrow> berError + nat" where
  "highTag bs off limit p i num =
     (if i \<ge> 5 then Inl (BerUnsupportedTag off)
      else if p \<ge> limit then Inl (BerTruncated off (p - off + 1) limit)
      else let c = bs ! p in
        if i = 0 \<and> c = 0x80 then Inl (BerUnsupportedTag off)
        else let num' = num * 128 + unat (c AND 0x7f) in
          if c AND 0x80 = 0 then
            (if num' < 31 \<or> num' > 2147483647 then Inl (BerUnsupportedTag off) else Inr (p + 1))
          else highTag bs off limit (p + 1) (i + 1) num')"
  by pat_completeness auto
termination
  by (relation "measure (\<lambda>(bs, off, limit, p, i, num). 5 - i)") auto

declare highTag.simps [simp del]

definition tagOctets :: "byte list \<Rightarrow> nat \<Rightarrow> nat \<Rightarrow> berError + nat" where
  "tagOctets bs off limit =
     (if bs ! off AND 0x1f = 0x1f then highTag bs off limit (off + 1) 0 0 else Inr (off + 1))"

definition beValue :: "byte list \<Rightarrow> nat" where
  "beValue cs = foldl (\<lambda>v c. v * 256 + unat c) 0 cs"

text \<open>The length octets at \<open>p\<close>, the \<open>switch\<close> of \<open>header\<close>.\<close>

definition lengthOctets ::
    "berNormalizer \<Rightarrow> nat \<Rightarrow> nat \<Rightarrow> nat \<Rightarrow> bool \<Rightarrow> berError + (berHeader \<times> berNormalizer)" where
  "lengthOctets n off limit p constr =
     (if p \<ge> limit then Inl (BerTruncated off (p - off + 1) limit)
      else let l = inBytes n ! p;
               hdr = \<lambda>q indef len. \<lparr>tagEnd = p, hdrEnd = q, constructed = constr,
                        indefinite = indef, hdrLength = len\<rparr>;
               fits = \<lambda>q len m. (if len > limit - q then Inl (BerTruncated off (q - off + len) limit)
                        else Inr (hdr q False len, m))
        in if l < 0x80 then fits (p + 1) (unat l) n
           else if l = 0x80 then
             (if \<not> constr then Inl (BerIndefinitePrimitive off)
              else Inr (hdr (p + 1) True 0, n\<lparr>isBer := True\<rparr>))
           else if l = 0xff then Inl (BerUnsupportedLength off)
           else let k = unat (l AND 0x7f) in
             if k > 4 then Inl (BerUnsupportedLength off)
             else if p + 1 + k > limit then Inl (BerTruncated off (p + 1 + k - off) limit)
             else let v = beValue (gslice (inBytes n) (p + 1) (p + 1 + k)); q = p + 1 + k in
               if v > limit - q then Inl (BerTruncated off (q - off + v) limit)
               else fits q v (if k \<noteq> berLenSize v - 1 then n\<lparr>isBer := True\<rparr> else n))"

definition header ::
    "berNormalizer \<Rightarrow> nat \<Rightarrow> nat \<Rightarrow> berError + (berHeader \<times> berNormalizer)" where
  "header n off limit =
     (if off \<ge> limit then Inl (BerTruncated off 1 limit)
      else case tagOctets (inBytes n) off limit of
        Inl e \<Rightarrow> Inl e
      | Inr p \<Rightarrow> lengthOctets n off limit p (inBytes n ! off AND 0x20 \<noteq> 0))"

text \<open>\<open>step\<close>: \<open>Some end\<close> when the content is over, \<open>None\<close> when a child starts at \<open>p\<close>.\<close>

definition berStep ::
    "berNormalizer \<Rightarrow> nat \<Rightarrow> nat \<Rightarrow> nat \<Rightarrow> bool \<Rightarrow> berError + nat option" where
  "berStep n off p limit indef =
     (if p \<ge> limit then
        (if indef then Inl (BerNoEndOfContents off) else Inr (Some p))
      else if inBytes n ! p \<noteq> 0 then Inr None
      else if p + 1 \<ge> limit then Inl (BerTruncated p 2 limit)
      else if inBytes n ! (p + 1) \<noteq> 0 \<or> \<not> indef then Inl (BerMalformedEOC p)
      else Inr (Some (p + 2)))"

subsection \<open>What a header says\<close>

lemma highTag_bounds:
  "highTag bs off limit p i num = Inr q \<Longrightarrow> p < q \<and> q \<le> limit"
proof (induction bs off limit p i num rule: highTag.induct)
  case (1 bs off limit p i num)
  from "1.prems" show ?case
    by (subst (asm) highTag.simps) (auto simp: Let_def split: if_splits dest: "1.IH" [OF _ _ refl _ refl])
qed

lemma tagOctets_bounds:
  "tagOctets bs off limit = Inr q \<Longrightarrow> off < limit \<Longrightarrow> off < q \<and> q \<le> limit"
  by (auto simp: tagOctets_def split: if_splits dest: highTag_bounds)

lemma lengthOctets_facts:
  assumes "lengthOctets n off limit p constr = Inr (h, n')"
  shows "tagEnd h = p \<and> p < hdrEnd h \<and> hdrEnd h \<le> limit \<and> constructed h = constr
    \<and> (\<not> indefinite h \<longrightarrow> hdrEnd h + hdrLength h \<le> limit)
    \<and> (indefinite h \<longrightarrow> constr)"
  using assms by (auto simp: lengthOctets_def Let_def split: if_splits)

lemma lengthOctets_state:
  assumes "lengthOctets n off limit p constr = Inr (h, n')"
  shows "n' = n\<lparr>isBer := isBer n'\<rparr>"
  using assms by (auto simp: lengthOctets_def Let_def split: if_splits)

lemma header_facts:
  assumes "header n off limit = Inr (h, n')"
  shows "off < limit" "off < tagEnd h" "tagEnd h < hdrEnd h" "hdrEnd h \<le> limit"
    "\<not> indefinite h \<Longrightarrow> hdrEnd h + hdrLength h \<le> limit"
    "constructed h \<longleftrightarrow> inBytes n ! off AND 0x20 \<noteq> 0" "indefinite h \<Longrightarrow> constructed h"
proof -
  from assms obtain p where *: "off < limit" "tagOctets (inBytes n) off limit = Inr p"
    "lengthOctets n off limit p (inBytes n ! off AND 0x20 \<noteq> 0) = Inr (h, n')"
    by (auto simp: header_def result_iffs split: if_splits)
  with tagOctets_bounds [OF *(2) *(1)] lengthOctets_facts [OF *(3)]
  show "off < limit" "off < tagEnd h" "tagEnd h < hdrEnd h" "hdrEnd h \<le> limit"
    "\<not> indefinite h \<Longrightarrow> hdrEnd h + hdrLength h \<le> limit"
    "constructed h \<longleftrightarrow> inBytes n ! off AND 0x20 \<noteq> 0" "indefinite h \<Longrightarrow> constructed h"
    by auto
qed

lemma berStep_facts:
  "berStep n off p limit indef = Inr (Some e) \<Longrightarrow> p \<le> e"
  "berStep n off p limit indef = Inr (Some e) \<Longrightarrow> p \<le> limit \<Longrightarrow> e \<le> limit"
  "berStep n off p limit indef = Inr None \<Longrightarrow> p < limit \<and> inBytes n ! p \<noteq> 0"
  by (auto simp: berStep_def split: if_splits)

section \<open>Elements and segments\<close>

text \<open>
  The records a constructed element reads (emitting pass) or reserves (recording pass) before
  its content, with the slots \<open>lenIdx\<close> and \<open>unusedIdx\<close> (\<open>None\<close> for Go's \<open>-1\<close>).
\<close>

definition enterConstructed ::
    "berNormalizer \<Rightarrow> byte list \<Rightarrow> byte \<Rightarrow> bool \<Rightarrow> bool
      \<Rightarrow> berError + (berNormalizer \<times> nat option \<times> nat option)" where
  "enterConstructed n tag base str bitString =
     (case passOf n of
        BerEmit \<Rightarrow>
          (let out1 = outBytes n @ (if str then [base] else tag) in
           if nextLen n \<ge> length (lens n) then Inl BerPanic
           else let out2 = appendBERLength out1 (lens n ! nextLen n) in
             if bitString then
               (if nextUnused n \<ge> length (unused n) then Inl BerPanic
                else Inr (n\<lparr>outBytes := out2 @ [unused n ! nextUnused n],
                            nextLen := nextLen n + 1, nextUnused := nextUnused n + 1\<rparr>, None, None))
             else Inr (n\<lparr>outBytes := out2, nextLen := nextLen n + 1\<rparr>, None, None))
      | BerRecord \<Rightarrow>
          (if bitString then
             Inr (n\<lparr>lens := lens n @ [0], unused := unused n @ [0]\<rparr>,
                  Some (length (lens n)), Some (length (unused n)))
           else Inr (n\<lparr>lens := lens n @ [0]\<rparr>, Some (length (lens n)), None))
      | BerCheck \<Rightarrow> Inr (n, None, None))"

definition leaveConstructed ::
    "berNormalizer \<Rightarrow> nat option \<Rightarrow> nat option \<Rightarrow> nat \<Rightarrow> byte \<Rightarrow> berNormalizer" where
  "leaveConstructed n lenIdx unusedIdx contentLen lastUnused =
     (let n1 = (case lenIdx of None \<Rightarrow> n | Some i \<Rightarrow> n\<lparr>lens := (lens n)[i := contentLen]\<rparr>)
      in case unusedIdx of None \<Rightarrow> n1 | Some i \<Rightarrow> n1\<lparr>unused := (unused n1)[i := lastUnused]\<rparr>)"

text \<open>The primitive branch of \<open>element\<close>.\<close>

definition primElement :: "berNormalizer \<Rightarrow> nat \<Rightarrow> berHeader \<Rightarrow> nat \<times> nat \<times> berNormalizer" where
  "primElement n off h =
     (let tag = gslice (inBytes n) off (tagEnd h);
          content = gslice (inBytes n) (hdrEnd h) (hdrEnd h + hdrLength h)
      in (hdrEnd h + hdrLength h,
          length tag + berLenSize (length content) + length content,
          if passOf n = BerEmit
          then n\<lparr>outBytes := appendBERLength (outBytes n @ tag) (length content) @ content\<rparr>
          else n))"

text \<open>The primitive branch of \<open>segment\<close>: the content bytes, the bit state and the output.\<close>

definition primSegment ::
    "berNormalizer \<Rightarrow> nat \<Rightarrow> berHeader \<Rightarrow> byte \<Rightarrow> bitState
      \<Rightarrow> berError + (nat \<times> nat \<times> bitState \<times> berNormalizer)" where
  "primSegment n off h base bs =
     (let c = gslice (inBytes n) (hdrEnd h) (hdrEnd h + hdrLength h);
          emit = (\<lambda>c. if passOf n = BerEmit then n\<lparr>outBytes := outBytes n @ c\<rparr> else n)
      in if base = 3 then
           (if c = [] \<or> c ! 0 > 7 \<or> (length c = 1 \<and> c ! 0 \<noteq> 0) then Inl (BerBitSegment off)
            else if bsSeen bs \<and> bsLastUnused bs \<noteq> 0 then Inl (BerBitSegment (bsLastOff bs))
            else Inr (hdrEnd h + hdrLength h, length (tl c),
                      \<lparr>bsSeen = True, bsLastOff = off, bsLastUnused = c ! 0\<rparr>, emit (tl c)))
         else Inr (hdrEnd h + hdrLength h, length c, bs, emit c))"

definition childLimitOf :: "berHeader \<Rightarrow> nat \<Rightarrow> nat" where
  "childLimitOf h limit = (if indefinite h then limit else hdrEnd h + hdrLength h)"

text \<open>
  \<open>element\<close> and \<open>segment\<close> with their loops over the content. \<open>elemLoop\<close> is the \<open>for\<close> of
  \<open>element\<close>, which visits segments when the element is a constructed string and elements
  otherwise; \<open>segLoop\<close> is the \<open>for\<close> of \<open>segment\<close>. Every call moves the offset forward, which is
  what makes the recursion end: the offsets returned by a nested call are used for the next one,
  so the termination proof first shows that a call that returns has made progress.
\<close>

function (domintros)
    element :: "berNormalizer \<Rightarrow> nat \<Rightarrow> nat \<Rightarrow> nat \<Rightarrow> berError + (nat \<times> nat \<times> berNormalizer)"
and elemLoop :: "berNormalizer \<Rightarrow> nat \<Rightarrow> nat \<Rightarrow> nat \<Rightarrow> bool \<Rightarrow> nat \<Rightarrow> bool \<Rightarrow> byte \<Rightarrow> nat
      \<Rightarrow> bitState \<Rightarrow> berError + (nat \<times> nat \<times> bitState \<times> berNormalizer)"
and segment :: "berNormalizer \<Rightarrow> nat \<Rightarrow> nat \<Rightarrow> nat \<Rightarrow> nat \<Rightarrow> byte \<Rightarrow> bitState
      \<Rightarrow> berError + (nat \<times> nat \<times> bitState \<times> berNormalizer)"
and segLoop :: "berNormalizer \<Rightarrow> nat \<Rightarrow> nat \<Rightarrow> nat \<Rightarrow> bool \<Rightarrow> nat \<Rightarrow> byte \<Rightarrow> nat
      \<Rightarrow> bitState \<Rightarrow> berError + (nat \<times> nat \<times> bitState \<times> berNormalizer)"
where
  "element n off limit depth =
     (if off < limit \<and> inBytes n ! off = 0 then Inl (BerMalformedEOC off)
      else if depth > maxBERDepth then Inl (BerTooDeep off)
      else case header n off limit of
        Inl e \<Rightarrow> Inl e
      | Inr (h, n1) \<Rightarrow>
          if \<not> constructed h then Inr (primElement n1 off h)
          else
            let tag = gslice (inBytes n1) off (tagEnd h);
                base = tag ! 0 AND NOT 0x20;
                str = (length tag = 1 \<and> tag ! 0 AND 0xc0 = 0 \<and> isBERStringTag base);
                bitString = (str \<and> base = 3)
            in (case enterConstructed (if str then n1\<lparr>isBer := True\<rparr> else n1) tag base str bitString of
                 Inl e \<Rightarrow> Inl e
               | Inr (n2, lenIdx, unusedIdx) \<Rightarrow>
                   (case elemLoop n2 off (hdrEnd h) (childLimitOf h limit) (indefinite h) depth
                           str base (if bitString then 1 else 0)
                           \<lparr>bsSeen = False, bsLastOff = 0, bsLastUnused = 0\<rparr> of
                      Inl e \<Rightarrow> Inl e
                    | Inr (e, contentLen, bs, n3) \<Rightarrow>
                        Inr (e, length tag + berLenSize contentLen + contentLen,
                             leaveConstructed n3 lenIdx unusedIdx contentLen (bsLastUnused bs)))))"
| "elemLoop n off p limit indef depth str base contentLen bs =
     (case berStep n off p limit indef of
        Inl e \<Rightarrow> Inl e
      | Inr (Some e) \<Rightarrow> Inr (e, contentLen, bs, n)
      | Inr None \<Rightarrow>
          if str then
            (case segment n off p limit (depth + 1) base bs of
               Inl e \<Rightarrow> Inl e
             | Inr (e, l, bs', n') \<Rightarrow>
                 elemLoop n' off e limit indef depth str base (contentLen + l) bs')
          else
            (case element n p limit (depth + 1) of
               Inl e \<Rightarrow> Inl e
             | Inr (e, l, n') \<Rightarrow>
                 elemLoop n' off e limit indef depth str base (contentLen + l) bs))"
| "segment n parentOff off limit depth base bs =
     (if depth > maxBERDepth then Inl (BerTooDeep off)
      else let segBase = inBytes n ! off AND NOT 0x20 in
        if segBase \<noteq> base \<and> (base = 3 \<or> base = 4 \<or> segBase \<noteq> 4) then Inl (BerSegmentType parentOff)
        else case header n off limit of
          Inl e \<Rightarrow> Inl e
        | Inr (h, n1) \<Rightarrow>
            if \<not> constructed h then primSegment n1 off h base bs
            else segLoop n1 off (hdrEnd h) (childLimitOf h limit) (indefinite h) depth segBase 0 bs)"
| "segLoop n off p limit indef depth segBase contentLen bs =
     (case berStep n off p limit indef of
        Inl e \<Rightarrow> Inl e
      | Inr (Some e) \<Rightarrow> Inr (e, contentLen, bs, n)
      | Inr None \<Rightarrow>
          (case segment n off p limit (depth + 1) segBase bs of
             Inl e \<Rightarrow> Inl e
           | Inr (e, l, bs', n') \<Rightarrow>
               segLoop n' off e limit indef depth segBase (contentLen + l) bs'))"
  by pat_completeness auto

lemma berStep_cases:
  "berStep n off p limit indef = Inr r \<Longrightarrow> p \<le> limit \<Longrightarrow>
    (case r of None \<Rightarrow> p < limit | Some e \<Rightarrow> p \<le> e \<and> e \<le> limit)"
  by (auto simp: berStep_def split: if_splits)

lemma header_measure:
  assumes "header n off limit = Inr (h, n')"
  shows "2 * (childLimitOf h limit - hdrEnd h) + 1 < 2 * (limit - off)"
  using header_facts [OF assms] by (auto simp: childLimitOf_def)

lemma primElement_end: "primElement n off h = (hdrEnd h + hdrLength h, snd (primElement n off h))"
  by (simp add: primElement_def Let_def)

text \<open>Progress of every call on its domain, the fact behind termination.\<close>

lemma berWalk_progress:
 "element_elemLoop_segment_segLoop_dom (Inl (Inl (n, off, limit, depth))) \<Longrightarrow>
   (\<forall>e l n'. element n off limit depth = Inr (e, l, n') \<longrightarrow> off < e \<and> e \<le> limit)"
 "element_elemLoop_segment_segLoop_dom (Inl (Inr (m, moff, p, mlimit, indef, mdepth, str, base, cl, bs))) \<Longrightarrow>
   p \<le> mlimit \<longrightarrow> (\<forall>e l b n'. elemLoop m moff p mlimit indef mdepth str base cl bs = Inr (e, l, b, n') \<longrightarrow> p \<le> e \<and> e \<le> mlimit)"
 "element_elemLoop_segment_segLoop_dom (Inr (Inl (k, poff, koff, klimit, kdepth, kbase, kbs))) \<Longrightarrow>
   (\<forall>e l b n'. segment k poff koff klimit kdepth kbase kbs = Inr (e, l, b, n') \<longrightarrow> koff < e \<and> e \<le> klimit)"
 "element_elemLoop_segment_segLoop_dom (Inr (Inr (q, qoff, qp, qlimit, qindef, qdepth, qbase, qcl, qbs))) \<Longrightarrow>
   qp \<le> qlimit \<longrightarrow> (\<forall>e l b n'. segLoop q qoff qp qlimit qindef qdepth qbase qcl qbs = Inr (e, l, b, n') \<longrightarrow> qp \<le> e \<and> e \<le> qlimit)"
proof (induct rule: element_elemLoop_segment_segLoop.pinduct)
  case (1 n off limit depth)
  show ?case
  proof (intro allI impI)
    fix e l n' assume r: "element n off limit depth = Inr (e, l, n')"
    then obtain h n1 where h: "header n off limit = Inr (h, n1)" and
      d: "\<not> (off < limit \<and> inBytes n ! off = 0)" "\<not> maxBERDepth < depth"
      by (subst (asm) element.psimps [OF 1(1)]) (auto simp: case_sum_Inr_iff split: if_splits)
    note hf = header_facts [OF h]
    show "off < e \<and> e \<le> limit"
    proof (cases "constructed h")
      case False
      with r h d hf show ?thesis
        by (subst (asm) element.psimps [OF 1(1)]) (auto simp: primElement_def Let_def split: if_splits)
    next
      case True
      let ?tag = "gslice (inBytes n1) off (tagEnd h)"
      let ?base = "?tag ! 0 AND NOT 32"
      let ?str = "length ?tag = 1 \<and> ?tag ! 0 AND 192 = 0 \<and> isBERStringTag ?base"
      let ?bit = "?str \<and> ?base = 3"
      from True r h d obtain n2 li ui bs n3 cl where
        en: "enterConstructed (if ?str then n1\<lparr>isBer := True\<rparr> else n1) ?tag ?base ?str ?bit = Inr (n2, li, ui)"
        and lp: "elemLoop n2 off (hdrEnd h) (childLimitOf h limit) (indefinite h) depth ?str ?base
             (if ?bit then 1 else 0) \<lparr>bsSeen = False, bsLastOff = 0, bsLastUnused = 0\<rparr> = Inr (e, cl, bs, n3)"
        by (subst (asm) element.psimps [OF 1(1)]) (auto simp: case_sum_Inr_iff Let_def)
      have "hdrEnd h \<le> childLimitOf h limit" "childLimitOf h limit \<le> limit"
        using hf by (auto simp: childLimitOf_def)
      with 1(2) [OF d h refl _ refl refl refl refl en refl refl] True lp hf show ?thesis by fastforce
    qed
  qed
next
  case (2 n off p limit indef depth str base cl bs)
  show ?case
  proof (intro impI allI)
    fix e l b n'
    assume p: "p \<le> limit" and r: "elemLoop n off p limit indef depth str base cl bs = Inr (e, l, b, n')"
    then obtain st where st: "berStep n off p limit indef = Inr st"
      by (subst (asm) elemLoop.psimps [OF 2(1)]) (auto simp: case_sum_Inr_iff)
    note sf = berStep_cases [OF st p]
    consider (fin) e' where "st = Some e'"
      | (str) e1 l1 b1 n1 where "st = None" str "segment n off p limit (depth + 1) base bs = Inr (e1, l1, b1, n1)"
          "elemLoop n1 off e1 limit indef depth str base (cl + l1) b1 = Inr (e, l, b, n')"
      | (elem) e1 l1 n1 where "st = None" "\<not> str" "element n p limit (depth + 1) = Inr (e1, l1, n1)"
          "elemLoop n1 off e1 limit indef depth str base (cl + l1) bs = Inr (e, l, b, n')"
      using r st by (subst (asm) elemLoop.psimps [OF 2(1)]) (auto simp: case_sum_Inr_iff split: option.splits if_splits)
    then show "p \<le> e \<and> e \<le> limit"
    proof cases
      case fin
      with r st sf show ?thesis by (subst (asm) elemLoop.psimps [OF 2(1)]) auto
    next
      case str
      from 2(2) [OF st str(1,2)] str(3) have e1: "p < e1" "e1 \<le> limit" by auto
      with 2(3) [OF st str(1,2,3) refl refl refl] str(4) show ?thesis by fastforce
    next
      case elem
      from 2(4) [OF st elem(1,2)] elem(3) have e1: "p < e1" "e1 \<le> limit" by auto
      with 2(5) [OF st elem(1,2,3) refl refl] elem(4) show ?thesis by fastforce
    qed
  qed
next
  case (3 n poff off limit depth base bs)
  show ?case
  proof (intro impI allI)
    fix e l b n'
    assume r: "segment n poff off limit depth base bs = Inr (e, l, b, n')"
    let ?sb = "inBytes n ! off AND NOT 32"
    from r obtain h n1 where h: "header n off limit = Inr (h, n1)" and
      d: "\<not> maxBERDepth < depth" "\<not> (?sb \<noteq> base \<and> (base = 3 \<or> base = 4 \<or> ?sb \<noteq> 4))"
      by (subst (asm) segment.psimps [OF 3(1)]) (auto simp: case_sum_Inr_iff Let_def split: if_splits)
    note hf = header_facts [OF h]
    show "off < e \<and> e \<le> limit"
    proof (cases "constructed h")
      case False
      with r h d hf show ?thesis
        by (subst (asm) segment.psimps [OF 3(1)]) (auto simp: primSegment_def Let_def split: if_splits)
    next
      case True
      have cl: "hdrEnd h \<le> childLimitOf h limit" "childLimitOf h limit \<le> limit"
        using hf by (auto simp: childLimitOf_def)
      from True r h d have "segLoop n1 off (hdrEnd h) (childLimitOf h limit) (indefinite h) depth ?sb 0 bs = Inr (e, l, b, n')"
        by (subst (asm) segment.psimps [OF 3(1)]) (auto simp: Let_def split: if_splits)
      with 3(2) [OF d(1) refl d(2) h refl] True cl hf show ?thesis by fastforce
    qed
  qed
next
  case (4 n off p limit indef depth sb cl bs)
  show ?case
  proof (intro impI allI)
    fix e l b n'
    assume p: "p \<le> limit" and r: "segLoop n off p limit indef depth sb cl bs = Inr (e, l, b, n')"
    then obtain st where st: "berStep n off p limit indef = Inr st"
      by (subst (asm) segLoop.psimps [OF 4(1)]) (auto simp: case_sum_Inr_iff)
    note sf = berStep_cases [OF st p]
    consider (fin) e' where "st = Some e'"
      | (seg) e1 l1 b1 n1 where "st = None" "segment n off p limit (depth + 1) sb bs = Inr (e1, l1, b1, n1)"
          "segLoop n1 off e1 limit indef depth sb (cl + l1) b1 = Inr (e, l, b, n')"
      using r st by (subst (asm) segLoop.psimps [OF 4(1)]) (auto simp: case_sum_Inr_iff split: option.splits)
    then show "p \<le> e \<and> e \<le> limit"
    proof cases
      case fin
      with r st sf show ?thesis by (subst (asm) segLoop.psimps [OF 4(1)]) auto
    next
      case seg
      from 4(2) [OF st seg(1)] seg(2) have e1: "p < e1" "e1 \<le> limit" by auto
      with 4(3) [OF st seg(1,2) refl refl refl] seg(3) show ?thesis by fastforce
    qed
  qed
qed

lemma berWalk_total: "All element_elemLoop_segment_segLoop_dom"
proof (relation "measure (\<lambda>x. case x of
      Inl (Inl (n, off, limit, depth)) \<Rightarrow> 2 * (limit - off)
    | Inl (Inr (n, off, p, limit, indef, depth, str, base, cl, bs)) \<Rightarrow> 2 * (limit - p) + 1
    | Inr (Inl (n, poff, off, limit, depth, base, bs)) \<Rightarrow> 2 * (limit - off)
    | Inr (Inr (n, off, p, limit, indef, depth, sb, cl, bs)) \<Rightarrow> 2 * (limit - p) + 1)", goal_cases)
  case 1 show ?case by simp
qed (auto dest!: header_measure berStep_facts(3) berWalk_progress)

termination element
  by (rule berWalk_total)

declare element.simps [simp del] elemLoop.simps [simp del]
  segment.simps [simp del] segLoop.simps [simp del]

lemmas berWalk_induct = element_elemLoop_segment_segLoop.induct

text \<open>Progress and bounds of every call that returns.\<close>

lemma element_bounds: "element n off limit depth = Inr (e, l, n') \<Longrightarrow> off < e \<and> e \<le> limit"
  using berWalk_progress(1) berWalk_total by blast

lemma elemLoop_bounds:
  "elemLoop n off p limit indef depth str base cl bs = Inr (e, l, b, n') \<Longrightarrow> p \<le> limit
    \<Longrightarrow> p \<le> e \<and> e \<le> limit"
  using berWalk_progress(2) berWalk_total by blast

lemma segment_bounds:
  "segment n poff off limit depth base bs = Inr (e, l, b, n') \<Longrightarrow> off < e \<and> e \<le> limit"
  using berWalk_progress(3) berWalk_total by blast

lemma segLoop_bounds:
  "segLoop n off p limit indef depth base cl bs = Inr (e, l, b, n') \<Longrightarrow> p \<le> limit
    \<Longrightarrow> p \<le> e \<and> e \<le> limit"
  using berWalk_progress(4) berWalk_total by blast

section \<open>The top level\<close>

definition newNormalizer :: "byte list \<Rightarrow> berNormalizer" where
  "newNormalizer inp = \<lparr>inBytes = inp, lens = [], unused = [], nextLen = 0, nextUnused = 0,
     outBytes = [], passOf = BerCheck, isBer = False\<rparr>"

text \<open>The bytes after the element, through the last non-zero one.\<close>

fun lastNonZero :: "byte list \<Rightarrow> nat \<Rightarrow> nat \<Rightarrow> nat option" where
  "lastNonZero inp e 0 = None"
| "lastNonZero inp e (Suc i) =
     (if i < e then None else if inp ! i \<noteq> 0 then Some i else lastNonZero inp e i)"

definition berTailOf :: "byte list \<Rightarrow> nat \<Rightarrow> berTail" where
  "berTailOf inp e =
     (case lastNonZero inp e (length inp) of
        None \<Rightarrow> \<lparr>tailOffset = 0, tailCount = 0\<rparr>
      | Some i \<Rightarrow> \<lparr>tailOffset = e, tailCount = i - e + 1\<rparr>)"

definition normalizeBER :: "byte list \<Rightarrow> berError + (byte list \<times> bool \<times> nat \<times> berTail)" where
  "normalizeBER inp =
     (case element (newNormalizer inp) 0 (length inp) 1 of
        Inl e \<Rightarrow> Inl e
      | Inr (fin, _, n) \<Rightarrow>
          let tail = berTailOf inp fin in
          if \<not> isBer n then Inr (take fin inp, False, fin, tail)
          else (case element (n\<lparr>passOf := BerRecord\<rparr>) 0 (length inp) 1 of
              Inl e \<Rightarrow> Inl e
            | Inr (_, outLen, n2) \<Rightarrow>
                (case element (n2\<lparr>outBytes := [], passOf := BerEmit\<rparr>) 0 (length inp) 1 of
                   Inl e \<Rightarrow> Inl e
                 | Inr (_, _, n3) \<Rightarrow> Inr (outBytes n3, True, fin, tail))))"

end
