(* ===== verification/BerSpec.thy ===== *)
theory BerSpec
  imports Ber
begin

text \<open>
  What the three passes of \<^verbatim>\<open>ber.go\<close> compute. A BER encoding is read as a tree
  (\<open>berElem\<close>, a grammar as an inductive relation over the input), the tree has one DER encoding
  (\<open>derBytes\<close>), and each pass is shown to have exactly the effect its purpose asks for on that
  tree: the checking pass only detects BER forms, the recording pass appends the tree's records,
  the emitting pass appends its encoding.
\<close>

section \<open>Trees and their DER encoding\<close>

datatype derNode =
    DPrim "byte list" "byte list"
  | DCons "byte list" "derNode list"
  | DFlat byte "byte list"

fun derTag :: "derNode \<Rightarrow> byte list" where
  "derTag (DPrim tag c) = tag"
| "derTag (DCons tag ks) = tag"
| "derTag (DFlat base c) = [base]"

definition derLength :: "nat \<Rightarrow> byte list" where
  "derLength n = appendBERLength [] n"

fun derBytes :: "derNode \<Rightarrow> byte list" where
  "derBytes (DPrim tag c) = tag @ derLength (length c) @ c"
| "derBytes (DCons tag ks) =
     (let c = concat (map derBytes ks) in tag @ derLength (length c) @ c)"
| "derBytes (DFlat base c) = base # derLength (length c) @ c"

definition derKids :: "derNode list \<Rightarrow> byte list" where
  "derKids ks = concat (map derBytes ks)"

fun recLens :: "derNode \<Rightarrow> nat list" where
  "recLens (DPrim tag c) = []"
| "recLens (DCons tag ks) = length (concat (map derBytes ks)) # concat (map recLens ks)"
| "recLens (DFlat base c) = [length c]"

fun recUnused :: "derNode \<Rightarrow> byte list" where
  "recUnused (DPrim tag c) = []"
| "recUnused (DCons tag ks) = concat (map recUnused ks)"
| "recUnused (DFlat base c) = (if base = 3 then [hd c] else [])"

section \<open>The grammar\<close>

definition hdrOf :: "byte list \<Rightarrow> nat \<Rightarrow> nat \<Rightarrow> berError + (berHeader \<times> bool)" where
  "hdrOf inp off limit =
     (case header (newNormalizer inp) off limit of Inl e \<Rightarrow> Inl e | Inr (h, n) \<Rightarrow> Inr (h, isBer n))"

abbreviation stepOf :: "byte list \<Rightarrow> nat \<Rightarrow> nat \<Rightarrow> nat \<Rightarrow> bool \<Rightarrow> berError + nat option" where
  "stepOf inp \<equiv> berStep (newNormalizer inp)"

definition strTag :: "byte list \<Rightarrow> bool" where
  "strTag tag \<longleftrightarrow> length tag = 1 \<and> tag ! 0 AND 0xc0 = 0 \<and> isBERStringTag (tag ! 0 AND NOT 0x20)"

definition initBits :: bitState where
  "initBits = \<lparr>bsSeen = False, bsLastOff = 0, bsLastUnused = 0\<rparr>"

inductive berSeg :: "byte list \<Rightarrow> nat \<Rightarrow> nat \<Rightarrow> nat \<Rightarrow> nat \<Rightarrow> byte \<Rightarrow> bitState
    \<Rightarrow> nat \<Rightarrow> byte list \<Rightarrow> bitState \<Rightarrow> bool"
  and berSegs :: "byte list \<Rightarrow> nat \<Rightarrow> nat \<Rightarrow> nat \<Rightarrow> bool \<Rightarrow> nat \<Rightarrow> byte \<Rightarrow> bitState
    \<Rightarrow> nat \<Rightarrow> byte list \<Rightarrow> bitState \<Rightarrow> bool"
  for inp :: "byte list"
where
  segPrim: "depth \<le> maxBERDepth \<Longrightarrow> sb = inp ! off AND NOT 0x20 \<Longrightarrow>
      \<not> (sb \<noteq> base \<and> (base = 3 \<or> base = 4 \<or> sb \<noteq> 4)) \<Longrightarrow>
      hdrOf inp off limit = Inr (h, b) \<Longrightarrow> \<not> constructed h \<Longrightarrow>
      c = gslice inp (hdrEnd h) (hdrEnd h + hdrLength h) \<Longrightarrow>
      base = 3 \<Longrightarrow> c \<noteq> [] \<Longrightarrow> c ! 0 \<le> 7 \<Longrightarrow> \<not> (length c = 1 \<and> c ! 0 \<noteq> 0) \<Longrightarrow>
      \<not> (bsSeen bs \<and> bsLastUnused bs \<noteq> 0) \<Longrightarrow>
      berSeg inp poff off limit depth base bs (hdrEnd h + hdrLength h) (tl c)
        \<lparr>bsSeen = True, bsLastOff = off, bsLastUnused = c ! 0\<rparr>"
| segPrimOther: "depth \<le> maxBERDepth \<Longrightarrow> sb = inp ! off AND NOT 0x20 \<Longrightarrow>
      \<not> (sb \<noteq> base \<and> (base = 3 \<or> base = 4 \<or> sb \<noteq> 4)) \<Longrightarrow>
      hdrOf inp off limit = Inr (h, b) \<Longrightarrow> \<not> constructed h \<Longrightarrow> base \<noteq> 3 \<Longrightarrow>
      berSeg inp poff off limit depth base bs (hdrEnd h + hdrLength h)
        (gslice inp (hdrEnd h) (hdrEnd h + hdrLength h)) bs"
| segCons: "depth \<le> maxBERDepth \<Longrightarrow> sb = inp ! off AND NOT 0x20 \<Longrightarrow>
      \<not> (sb \<noteq> base \<and> (base = 3 \<or> base = 4 \<or> sb \<noteq> 4)) \<Longrightarrow>
      hdrOf inp off limit = Inr (h, b) \<Longrightarrow> constructed h \<Longrightarrow>
      berSegs inp off (hdrEnd h) (childLimitOf h limit) (indefinite h) depth sb bs e c bs' \<Longrightarrow>
      berSeg inp poff off limit depth base bs e c bs'"
| segsDone: "stepOf inp off p limit indef = Inr (Some e) \<Longrightarrow>
      berSegs inp off p limit indef depth base bs e [] bs"
| segsMore: "stepOf inp off p limit indef = Inr None \<Longrightarrow>
      berSeg inp off p limit (depth + 1) base bs e1 c1 bs1 \<Longrightarrow>
      berSegs inp off e1 limit indef depth base bs1 e c bs2 \<Longrightarrow>
      berSegs inp off p limit indef depth base bs e (c1 @ c) bs2"

inductive berElem :: "byte list \<Rightarrow> nat \<Rightarrow> nat \<Rightarrow> nat \<Rightarrow> nat \<Rightarrow> derNode \<Rightarrow> bool \<Rightarrow> bool"
  and berElems :: "byte list \<Rightarrow> nat \<Rightarrow> nat \<Rightarrow> nat \<Rightarrow> bool \<Rightarrow> nat
    \<Rightarrow> nat \<Rightarrow> derNode list \<Rightarrow> bool \<Rightarrow> bool"
  for inp :: "byte list"
where
  elemPrim: "depth \<le> maxBERDepth \<Longrightarrow> inp ! off \<noteq> 0 \<Longrightarrow> hdrOf inp off limit = Inr (h, b) \<Longrightarrow>
      \<not> constructed h \<Longrightarrow>
      berElem inp off limit depth (hdrEnd h + hdrLength h)
        (DPrim (gslice inp off (tagEnd h)) (gslice inp (hdrEnd h) (hdrEnd h + hdrLength h))) b"
| elemCons: "depth \<le> maxBERDepth \<Longrightarrow> inp ! off \<noteq> 0 \<Longrightarrow> hdrOf inp off limit = Inr (h, b) \<Longrightarrow>
      constructed h \<Longrightarrow> tag = gslice inp off (tagEnd h) \<Longrightarrow> \<not> strTag tag \<Longrightarrow>
      berElems inp off (hdrEnd h) (childLimitOf h limit) (indefinite h) depth e ks b' \<Longrightarrow>
      berElem inp off limit depth e (DCons tag ks) (b \<or> b')"
| elemFlat: "depth \<le> maxBERDepth \<Longrightarrow> inp ! off \<noteq> 0 \<Longrightarrow> hdrOf inp off limit = Inr (h, b) \<Longrightarrow>
      constructed h \<Longrightarrow> strTag (gslice inp off (tagEnd h)) \<Longrightarrow>
      base = gslice inp off (tagEnd h) ! 0 AND NOT 0x20 \<Longrightarrow>
      berSegs inp off (hdrEnd h) (childLimitOf h limit) (indefinite h) depth base initBits e c bs \<Longrightarrow>
      berElem inp off limit depth e (DFlat base (if base = 3 then bsLastUnused bs # c else c)) True"
| elemsDone: "stepOf inp off p limit indef = Inr (Some e) \<Longrightarrow>
      berElems inp off p limit indef depth e [] False"
| elemsMore: "stepOf inp off p limit indef = Inr None \<Longrightarrow>
      berElem inp p limit (depth + 1) e1 t b \<Longrightarrow>
      berElems inp off e1 limit indef depth e ks b' \<Longrightarrow>
      berElems inp off p limit indef depth e (t # ks) (b \<or> b')"

section \<open>The effect of a pass\<close>

definition applyPass ::
    "berNormalizer \<Rightarrow> nat list \<Rightarrow> byte list \<Rightarrow> byte list \<Rightarrow> bool \<Rightarrow> berNormalizer" where
  "applyPass n L U out b =
     (case passOf n of
        BerCheck \<Rightarrow> n\<lparr>isBer := isBer n \<or> b\<rparr>
      | BerRecord \<Rightarrow> n\<lparr>lens := lens n @ L, unused := unused n @ U, isBer := isBer n \<or> b\<rparr>
      | BerEmit \<Rightarrow> n\<lparr>outBytes := outBytes n @ out, nextLen := nextLen n + length L,
                     nextUnused := nextUnused n + length U, isBer := isBer n \<or> b\<rparr>)"

text \<open>The emitting pass needs the records of what it is about to visit.\<close>

definition passReady :: "berNormalizer \<Rightarrow> nat list \<Rightarrow> byte list \<Rightarrow> bool" where
  "passReady n L U \<longleftrightarrow> (passOf n = BerEmit \<longrightarrow>
     take (length L) (drop (nextLen n) (lens n)) = L \<and>
     take (length U) (drop (nextUnused n) (unused n)) = U)"

lemma applyPass_simps [simp]:
  "inBytes (applyPass n L U out b) = inBytes n"
  "passOf (applyPass n L U out b) = passOf n"
  "isBer (applyPass n L U out b) = (isBer n \<or> b)"
  by (simp_all add: applyPass_def split: berPass.splits)

lemma applyPass_append [simp]:
  "applyPass (applyPass n L1 U1 out1 b1) L2 U2 out2 b2
    = applyPass n (L1 @ L2) (U1 @ U2) (out1 @ out2) (b1 \<or> b2)"
  by (simp add: applyPass_def disj_assoc split: berPass.splits)

lemma applyPass_isBer:
  "applyPass (n\<lparr>isBer := isBer n \<or> b\<rparr>) L U out b' = applyPass n L U out (b \<or> b')"
  "applyPass (n\<lparr>isBer := True\<rparr>) L U out b' = applyPass n L U out True"
  by (simp_all add: applyPass_def disj_assoc split: berPass.splits)

lemma applyPass_none [simp]: "applyPass n [] [] [] False = n"
  by (simp add: applyPass_def split: berPass.splits)

lemma take_append_splitD:
  assumes "take (length xs + length ys) zs = xs @ ys"
  shows "take (length xs) zs = xs \<and> take (length ys) (drop (length xs) zs) = ys"
proof -
  have "length (take (length xs + length ys) zs) = length xs + length ys"
    using assms by simp
  then have "length xs + length ys \<le> length zs" by simp
  then have "length (take (length xs) zs) = length xs" by simp
  then show ?thesis using assms by (simp add: take_add)
qed

lemma passReady_appendD:
  assumes "passReady n (L1 @ L2) (U1 @ U2)"
  shows "passReady n L1 U1" "passReady (applyPass n L1 U1 out b) L2 U2"
  using assms take_append_splitD [of L1 L2 "drop (nextLen n) (lens n)"]
    take_append_splitD [of U1 U2 "drop (nextUnused n) (unused n)"]
  by (cases "passOf n"; auto simp: passReady_def applyPass_def add.commute)+

section \<open>Every pass follows the grammar\<close>

lemma appendBERLength_derLength: "appendBERLength out n = out @ derLength n"
  by (simp add: appendBERLength_def derLength_def Let_def)

lemma lenOctets_shift: "lenOctets n (sz + k) = sz + lenOctets n k"
proof (induction n arbitrary: k rule: less_induct)
  case (less n)
  show ?case
  proof (cases "n > 0")
    case True
    with less.IH [of "n div 256" "k + 1"] show ?thesis
      by (simp add: lenOctets.simps [of n])
  qed (simp add: lenOctets.simps)
qed

lemma lenOctets_add: "lenOctets n sz = sz + lenOctets n 0"
  using lenOctets_shift [of n sz 0] by simp

lemma isBer_update_id [simp]: "isBer n \<Longrightarrow> n\<lparr>isBer := True\<rparr> = n"
  by simp

lemma length_derLength [simp]: "length (derLength n) = berLenSize n"
proof -
  have "\<not> n < 128 \<Longrightarrow> berLenSize n \<ge> 1"
    using lenOctets_add [of n 1] by (simp add: berLenSize_def)
  then show ?thesis by (auto simp: derLength_def appendBERLength_def Let_def berLenSize_def)
qed

lemma header_hdrOf:
  "header n off limit = (case hdrOf (inBytes n) off limit of
     Inl e \<Rightarrow> Inl e | Inr (h, b) \<Rightarrow> Inr (h, n\<lparr>isBer := isBer n \<or> b\<rparr>))"
  by (simp add: hdrOf_def header_def lengthOctets_def newNormalizer_def Let_def split: sum.splits)

lemma berStep_stepOf: "berStep n = stepOf (inBytes n)"
  by (intro ext) (simp add: berStep_def newNormalizer_def)

lemma elemLoop_string:
  "elemLoop n off p limit indef depth True base cl bs = segLoop n off p limit indef depth base cl bs"
proof (induction "limit - p" arbitrary: n p cl bs rule: less_induct)
  case less
  have "elemLoop n' off e limit indef depth True base cl' bs'
      = segLoop n' off e limit indef depth base cl' bs'"
    if "segment n off p limit (depth + 1) base bs = Inr (e, l, bs', n')" for e l bs' n' cl'
    using less.hyps [of e] segment_bounds [OF that] by auto
  then show ?case
    by (subst elemLoop.simps, subst segLoop.simps) (auto split: sum.splits option.splits)
qed

text \<open>Segments: every pass returns the same offset and content length, and only emits bytes.\<close>

lemma seg_complete:
  "berSeg inp poff off limit depth base bs e c bs' \<Longrightarrow> inBytes n = inp \<Longrightarrow> isBer n \<Longrightarrow>
     segment n poff off limit depth base bs = Inr (e, length c, bs', applyPass n [] [] c True)"
  "berSegs inp soff p slimit indef sdepth sbase sbs se sc sbs' \<Longrightarrow> inBytes m = inp \<Longrightarrow> isBer m \<Longrightarrow>
     segLoop m soff p slimit indef sdepth sbase cl sbs
       = Inr (se, cl + length sc, sbs', applyPass m [] [] sc True)"
proof (induction arbitrary: n and m cl rule: berSeg_berSegs.inducts)
  case (segPrim depth sb off base limit h b c bs poff)
  then show ?case
    by (subst segment.simps)
       (auto simp: header_hdrOf primSegment_def Let_def applyPass_def split: berPass.splits)
next
  case (segPrimOther depth sb off base limit h b poff bs)
  then show ?case
    by (subst segment.simps)
       (auto simp: header_hdrOf primSegment_def Let_def applyPass_def split: berPass.splits)
next
  case (segCons depth sb off base limit h b bs e c bs' poff)
  then show ?case
    by (subst segment.simps) (auto simp: header_hdrOf Let_def)
next
  case (segsDone off p limit indef e depth base bs)
  then show ?case
    by (subst segLoop.simps) (simp add: berStep_stepOf [of m] applyPass_def split: berPass.splits)
next
  case (segsMore off p limit indef depth base bs e1 c1 bs1 e c bs2)
  then show ?case
    by (subst segLoop.simps) (simp add: berStep_stepOf [of m])
qed

text \<open>
  The frame a constructed element puts around its content: what \<open>enterConstructed\<close> reserves or
  reads, the content's own effect, and what \<open>leaveConstructed\<close> fills in add up to one \<open>applyPass\<close>.
\<close>

lemma take_Cons_drop:
  assumes "take (Suc k) (drop i zs) = x # xs"
  shows "i < length zs" "zs ! i = x"
proof -
  from assms have "drop i zs \<noteq> []" by auto
  then show i: "i < length zs" by simp
  with assms show "zs ! i = x" by (simp add: Cons_nth_drop_Suc [symmetric])
qed

lemma constructed_pass:
  assumes ready: "passReady n (x # L) (U0 @ U)" and U0: "U0 = (if bitS then [y] else [])"
  obtains n2 li ui where
    "enterConstructed n tag base str bitS = Inr (n2, li, ui)"
    "inBytes n2 = inBytes n" "isBer n2 = isBer n" "passOf n2 = passOf n" "passReady n2 L U"
    "\<And>out b. leaveConstructed (applyPass n2 L U out b) li ui x y
       = applyPass n (x # L) (U0 @ U) ((if str then [base] else tag) @ derLength x @ U0 @ out) b"
proof (cases "passOf n")
  case BerCheck
  show ?thesis
    by (rule that [of n None None])
       (use BerCheck in \<open>auto simp: enterConstructed_def leaveConstructed_def passReady_def applyPass_def\<close>)
next
  case BerRecord
  show ?thesis
    by (rule that [of "n\<lparr>lens := lens n @ [0], unused := unused n @ (if bitS then [0] else [])\<rparr>"
          "Some (length (lens n))" "if bitS then Some (length (unused n)) else None"])
       (use BerRecord U0 in \<open>auto simp: enterConstructed_def leaveConstructed_def passReady_def
          applyPass_def list_update_append Let_def\<close>)
next
  case BerEmit
  let ?pre = "(if str then [base] else tag) @ derLength x @ U0"
  have hd: "nextLen n < length (lens n)" "lens n ! nextLen n = x"
    using ready BerEmit take_Cons_drop [of "length L" "nextLen n" "lens n" x L]
    by (auto simp: passReady_def)
  have un: "bitS \<Longrightarrow> nextUnused n < length (unused n) \<and> unused n ! nextUnused n = y"
    using ready BerEmit U0 take_Cons_drop [of "length U" "nextUnused n" "unused n" y U]
    by (auto simp: passReady_def)
  have "passReady (applyPass n [x] U0 ?pre False) L U"
    using passReady_appendD(2) [of n "[x]" L U0 U] ready by simp
  then show ?thesis
    by (intro that [of "applyPass n [x] U0 ?pre False" None None])
       (use BerEmit U0 hd un in \<open>auto simp: enterConstructed_def leaveConstructed_def Let_def
          appendBERLength_derLength applyPass_def\<close>)
qed

lemma element_constructed:
  assumes "depth \<le> maxBERDepth" "inBytes n ! off \<noteq> 0" "header n off limit = Inr (h, n1)"
    "constructed h" "inBytes n1 = inBytes n"
    and tag: "tag = gslice (inBytes n) off (tagEnd h)" and base: "base = tag ! 0 AND NOT 0x20"
  shows "element n off limit depth =
    (case enterConstructed (if strTag tag then n1\<lparr>isBer := True\<rparr> else n1) tag base (strTag tag)
        (strTag tag \<and> base = 3) of
      Inl e \<Rightarrow> Inl e
    | Inr (n2, li, ui) \<Rightarrow>
       (case elemLoop n2 off (hdrEnd h) (childLimitOf h limit) (indefinite h) depth (strTag tag) base
           (if strTag tag \<and> base = 3 then 1 else 0) initBits of
          Inl e \<Rightarrow> Inl e
        | Inr (e, cl, bs, n3) \<Rightarrow>
            Inr (e, length tag + berLenSize cl + cl, leaveConstructed n3 li ui cl (bsLastUnused bs))))"
  using assms(1-4)
  unfolding element.simps [of n off limit depth] tag base strTag_def initBits_def Let_def
  by (simp only: sum.case prod.case assms(5) conj_assoc not_less [symmetric] if_False not_True_eq_False
      simp_thms)

lemma derBytes_kids: "concat (map derBytes ks) = derKids ks"
  by (simp add: derKids_def)

lemma elem_complete:
  "berElem inp off limit depth e t b \<Longrightarrow> inBytes n = inp \<Longrightarrow>
     passReady n (recLens t) (recUnused t) \<Longrightarrow>
     element n off limit depth
       = Inr (e, length (derBytes t), applyPass n (recLens t) (recUnused t) (derBytes t) b)"
  "berElems inp soff p slimit indef sdepth se ks sb \<Longrightarrow> inBytes m = inp \<Longrightarrow>
     passReady m (concat (map recLens ks)) (concat (map recUnused ks)) \<Longrightarrow>
     elemLoop m soff p slimit indef sdepth False base cl bs
       = Inr (se, cl + length (derKids ks), bs,
           applyPass m (concat (map recLens ks)) (concat (map recUnused ks)) (derKids ks) sb)"
proof (induction arbitrary: n and m cl base bs rule: berElem_berElems.inducts)
  case (elemPrim depth off limit h b)
  then show ?case
    by (subst element.simps)
       (auto simp: header_hdrOf primElement_def Let_def applyPass_def appendBERLength_derLength
         split: berPass.splits)
next
  case (elemCons depth off limit h b tag e ks b')
  let ?n = "n\<lparr>isBer := isBer n \<or> b\<rparr>"
  have "passReady ?n (length (derKids ks) # concat (map recLens ks)) ([] @ concat (map recUnused ks))"
    using elemCons.prems(2) by (simp add: derBytes_kids passReady_def)
  then obtain n2 li ui where f:
    "enterConstructed ?n tag (tag ! 0 AND NOT 0x20) False False = Inr (n2, li, ui)"
    "inBytes n2 = inBytes ?n" "isBer n2 = isBer ?n" "passOf n2 = passOf ?n"
    "passReady n2 (concat (map recLens ks)) (concat (map recUnused ks))"
    "\<And>out b. leaveConstructed (applyPass n2 (concat (map recLens ks)) (concat (map recUnused ks)) out b)
         li ui (length (derKids ks)) (bsLastUnused initBits)
       = applyPass ?n (length (derKids ks) # concat (map recLens ks)) ([] @ concat (map recUnused ks))
           ((if False then [tag ! 0 AND NOT 0x20] else tag) @ derLength (length (derKids ks)) @ [] @ out) b"
    by (rule constructed_pass [where bitS = False and str = False and y = "bsLastUnused initBits"]) auto
  have lp: "elemLoop n2 off (hdrEnd h) (childLimitOf h limit) (indefinite h) depth False
      (tag ! 0 AND NOT 0x20) 0 initBits = Inr (e, 0 + length (derKids ks), initBits,
        applyPass n2 (concat (map recLens ks)) (concat (map recUnused ks)) (derKids ks) b')"
    using elemCons f by simp
  have nz: "inBytes n ! off \<noteq> 0" and tag: "tag = gslice (inBytes n) off (tagEnd h)"
    and hh: "header n off limit = Inr (h, ?n)" and same: "inBytes ?n = inBytes n"
    using elemCons by (simp_all add: header_hdrOf)
  have "element n off limit depth = Inr (e, length tag + berLenSize (length (derKids ks)) + length (derKids ks),
      leaveConstructed (applyPass n2 (concat (map recLens ks)) (concat (map recUnused ks)) (derKids ks) b')
        li ui (length (derKids ks)) (bsLastUnused initBits))"
    using \<open>\<not> strTag tag\<close> f(1) lp
    by (simp only: element_constructed [OF \<open>depth \<le> maxBERDepth\<close> nz hh \<open>constructed h\<close> same tag refl]) simp
  then show ?case
    unfolding f(6) by (simp add: derBytes_kids applyPass_isBer Let_def)
next
  case (elemFlat depth off limit h b base e c bs)
  let ?n = "n\<lparr>isBer := True\<rparr>" and ?tag = "gslice inp off (tagEnd h)"
  let ?U = "if base = 3 then [bsLastUnused bs] else []"
  have "passReady ?n (length (?U @ c) # []) (?U @ [])"
    using elemFlat.prems(2) by (auto simp: passReady_def split: if_splits)
  then obtain n2 li ui where f:
    "enterConstructed ?n ?tag base True (base = 3) = Inr (n2, li, ui)"
    "inBytes n2 = inBytes ?n" "isBer n2 = isBer ?n" "passOf n2 = passOf ?n"
    "passReady n2 [] []"
    "\<And>out b. leaveConstructed (applyPass n2 [] [] out b) li ui (length (?U @ c)) (bsLastUnused bs)
       = applyPass ?n (length (?U @ c) # []) (?U @ [])
           ((if True then [base] else ?tag) @ derLength (length (?U @ c)) @ ?U @ out) b"
    by (rule constructed_pass [where bitS = "base = 3" and str = True and y = "bsLastUnused bs"]) auto
  have lp: "elemLoop n2 off (hdrEnd h) (childLimitOf h limit) (indefinite h) depth True
      base (if base = 3 then 1 else 0) initBits
      = Inr (e, (if base = 3 then 1 else 0) + length c, bs, applyPass n2 [] [] c True)"
    using elemFlat f by (simp add: elemLoop_string seg_complete(2))
  let ?n1 = "n\<lparr>isBer := isBer n \<or> b\<rparr>"
  have nz: "inBytes n ! off \<noteq> 0" and tag: "?tag = gslice (inBytes n) off (tagEnd h)"
    and hh: "header n off limit = Inr (h, ?n1)" and same: "inBytes ?n1 = inBytes n"
    using elemFlat by (simp_all add: header_hdrOf)
  have len: "length (?U @ c) = (if base = 3 then 1 else 0) + length c" by simp
  have one: "length ?tag = 1" using \<open>strTag ?tag\<close> by (simp add: strTag_def)
  have "element n off limit depth = Inr (e, length ?tag + berLenSize (length (?U @ c)) + length (?U @ c),
      leaveConstructed (applyPass n2 [] [] c True) li ui (length (?U @ c)) (bsLastUnused bs))"
    using \<open>strTag ?tag\<close> f(1) lp unfolding len
    by (simp only: element_constructed [OF \<open>depth \<le> maxBERDepth\<close> nz hh \<open>constructed h\<close> same tag \<open>base = ?tag ! 0 AND NOT 0x20\<close>]) simp
  then show ?case
    unfolding f(6) using one by (auto simp: applyPass_isBer)
next
  case (elemsDone off p limit indef e depth)
  then show ?case
    by (subst elemLoop.simps) (simp add: berStep_stepOf [of m] derKids_def)
next
  case (elemsMore off p limit indef depth e1 t b e ks b')
  from elemsMore.prems(2) have r: "passReady m (recLens t) (recUnused t)"
    "passReady (applyPass m (recLens t) (recUnused t) (derBytes t) b)
       (concat (map recLens ks)) (concat (map recUnused ks))"
    using passReady_appendD [of m "recLens t" _ "recUnused t"] by auto
  from elemsMore r show ?case
    by (subst elemLoop.simps) (simp add: berStep_stepOf [of m] derKids_def)
qed
text \<open>The soundness half: a call that returns has read a tree of the grammar.\<close>

lemma header_inBytes: "header n off limit = Inr (h, n') \<Longrightarrow> inBytes n' = inBytes n \<and> passOf n' = passOf n"
  by (auto simp: header_hdrOf split: sum.splits)

lemma header_hdrOfD: "header n off limit = Inr (h, n') \<Longrightarrow> \<exists>b. hdrOf (inBytes n) off limit = Inr (h, b)"
  by (auto simp: header_hdrOf split: sum.splits)

lemma enterConstructed_inBytes:
  "enterConstructed n tag base str bitS = Inr (n', li, ui) \<Longrightarrow> inBytes n' = inBytes n \<and> passOf n' = passOf n"
  by (auto simp: enterConstructed_def Let_def split: berPass.splits if_splits)

lemma leaveConstructed_inBytes [simp]:
  "inBytes (leaveConstructed n li ui cl u) = inBytes n"
  "passOf (leaveConstructed n li ui cl u) = passOf n"
  by (simp_all add: leaveConstructed_def Let_def split: option.splits)

lemma primSegment_sound:
  assumes "primSegment n1 off h base bs = Inr (e, l, bs', n')" and h: "header n off limit = Inr (h, n1)"
    and "\<not> constructed h" "\<not> maxBERDepth < depth"
    and "\<not> (inBytes n ! off AND NOT 0x20 \<noteq> base \<and> (base = 3 \<or> base = 4 \<or> inBytes n ! off AND NOT 0x20 \<noteq> 4))"
  shows "(\<exists>c. berSeg (inBytes n) poff off limit depth base bs e c bs') \<and> inBytes n' = inBytes n \<and> passOf n' = passOf n"
proof (cases "base = 3")
  case True
  then show ?thesis
    using assms header_hdrOfD [OF h] header_inBytes [OF h]
    by (auto simp: primSegment_def Let_def not_less split: if_splits intro!: exI berSeg_berSegs.segPrim)
next
  case False
  then show ?thesis
    using assms header_hdrOfD [OF h] header_inBytes [OF h]
    by (auto simp: primSegment_def Let_def not_less split: if_splits
        intro!: exI berSeg_berSegs.segPrimOther)
qed

lemma berWalk_sound:
 "element n off limit depth = Inr (e, l, n') \<Longrightarrow>
    (\<exists>t b. berElem (inBytes n) off limit depth e t b) \<and> inBytes n' = inBytes n \<and> passOf n' = passOf n"
 "elemLoop m moff p mlimit indef mdepth str base cl bs = Inr (me, ml, mbs, m') \<Longrightarrow>
    (if str then \<exists>c. berSegs (inBytes m) moff p mlimit indef mdepth base bs me c mbs
     else \<exists>ks b. berElems (inBytes m) moff p mlimit indef mdepth me ks b) \<and> inBytes m' = inBytes m \<and> passOf m' = passOf m"
 "segment k kpoff koff klimit kdepth kbase kbs = Inr (ke, kl, kbs', k') \<Longrightarrow>
    (\<exists>c. berSeg (inBytes k) kpoff koff klimit kdepth kbase kbs ke c kbs') \<and> inBytes k' = inBytes k \<and> passOf k' = passOf k"
 "segLoop q qoff qp qlimit qindef qdepth qbase qcl qbs = Inr (qe, ql, qbs', q') \<Longrightarrow>
    (\<exists>c. berSegs (inBytes q) qoff qp qlimit qindef qdepth qbase qbs qe c qbs') \<and> inBytes q' = inBytes q \<and> passOf q' = passOf q"
proof (induction n off limit depth and m moff p mlimit indef mdepth str base cl bs
    and k kpoff koff klimit kdepth kbase kbs and q qoff qp qlimit qindef qdepth qbase qcl qbs
    arbitrary: e l n' and me ml mbs m' and ke kl kbs' k' and qe ql qbs' q'
    rule: berWalk_induct)
  case (1 n off limit depth)
  from "1.prems" obtain h n1 where h: "header n off limit = Inr (h, n1)" and
    d: "\<not> (off < limit \<and> inBytes n ! off = 0)" "\<not> maxBERDepth < depth"
    by (subst (asm) element.simps) (auto simp: case_sum_Inr_iff split: if_splits)
  have nz: "inBytes n ! off \<noteq> 0" using d header_facts(1) [OF h] by blast
  obtain b where hb: "hdrOf (inBytes n) off limit = Inr (h, b)" using header_hdrOfD [OF h] ..
  note hi = header_inBytes [OF h]
  show ?case
  proof (cases "constructed h")
    case False
    with "1.prems" h d nz hb hi show ?thesis
      by (subst (asm) element.simps)
         (auto simp: primElement_def Let_def not_less intro!: exI berElem_berElems.elemPrim)
  next
    case True
    let ?tag = "gslice (inBytes n1) off (tagEnd h)"
    let ?base = "?tag ! 0 AND NOT 0x20"
    let ?str = "length ?tag = 1 \<and> ?tag ! 0 AND 0xc0 = 0 \<and> isBERStringTag ?base"
    let ?bit = "?str \<and> ?base = 3"
    have tg: "?tag = gslice (inBytes n) off (tagEnd h)" using hi by simp
    from True "1.prems" h d obtain n2 li ui bs n3 cl where
      en: "enterConstructed (if ?str then n1\<lparr>isBer := True\<rparr> else n1) ?tag ?base ?str ?bit = Inr (n2, li, ui)"
      and lp: "elemLoop n2 off (hdrEnd h) (childLimitOf h limit) (indefinite h) depth ?str ?base
           (if ?bit then 1 else 0) \<lparr>bsSeen = False, bsLastOff = 0, bsLastUnused = 0\<rparr> = Inr (e, cl, bs, n3)"
      and n': "n' = leaveConstructed n3 li ui cl (bsLastUnused bs)"
      by (subst (asm) element.simps) (auto simp: case_sum_Inr_iff Let_def)
    from enterConstructed_inBytes [OF en] hi have n2: "inBytes n2 = inBytes n" "passOf n2 = passOf n" by (simp_all split: if_splits)
    have str: "?str = strTag ?tag" by (simp add: strTag_def)
    have nc: "\<not> \<not> constructed h" using True by simp
    note "1.IH" [OF d h refl nc refl refl refl refl en refl refl lp]
    then have IH: "if strTag ?tag then \<exists>c. berSegs (inBytes n) off (hdrEnd h) (childLimitOf h limit) (indefinite h) depth ?base initBits e c bs
      else \<exists>ks b. berElems (inBytes n) off (hdrEnd h) (childLimitOf h limit) (indefinite h) depth e ks b"
      and n3: "inBytes n3 = inBytes n \<and> passOf n3 = passOf n"
      unfolding str initBits_def n2 by blast+
    show ?thesis
    proof (cases "strTag ?tag")
      case str: True
      with IH obtain c where
        "berSegs (inBytes n) off (hdrEnd h) (childLimitOf h limit) (indefinite h) depth ?base initBits e c bs"
        by auto
      with elemFlat [OF _ nz hb True _ _ this] d str tg n3 n' show ?thesis by (auto simp: not_less)
    next
      case nstr: False
      with IH obtain ks b' where
        "berElems (inBytes n) off (hdrEnd h) (childLimitOf h limit) (indefinite h) depth e ks b'"
        by auto
      with elemCons [OF _ nz hb True tg _ this] d nstr n3 n' show ?thesis by (auto simp: not_less)
    qed
  qed
next
  case (2 n off p limit indef depth str base cl bs)
  from "2.prems" obtain st where st: "berStep n off p limit indef = Inr st"
    by (subst (asm) elemLoop.simps) (auto simp: case_sum_Inr_iff)
  then have sto: "stepOf (inBytes n) off p limit indef = Inr st" by (simp add: berStep_stepOf [of n])
  consider (fin) e' where "st = Some e'"
    | (str) e1 l1 b1 n1 where "st = None" str "segment n off p limit (depth + 1) base bs = Inr (e1, l1, b1, n1)"
        "elemLoop n1 off e1 limit indef depth str base (cl + l1) b1 = Inr (me, ml, mbs, m')"
    | (elem) e1 l1 n1 where "st = None" "\<not> str" "element n p limit (depth + 1) = Inr (e1, l1, n1)"
        "elemLoop n1 off e1 limit indef depth str base (cl + l1) bs = Inr (me, ml, mbs, m')"
    using "2.prems" st by (subst (asm) elemLoop.simps) (auto simp: case_sum_Inr_iff split: option.splits if_splits)
  then show ?case
  proof cases
    case fin
    with "2.prems" st sto show ?thesis
      by (subst (asm) elemLoop.simps) (auto intro!: exI berSeg_berSegs.segsDone berElem_berElems.elemsDone)
  next
    case str
    from "2.IH"(1) [OF st str(1,2,3)] "2.IH"(2) [OF st str(1,2,3) refl refl refl str(4)] str(1,2) sto
    show ?thesis by simp (blast intro: berSeg_berSegs.segsMore [unfolded Suc_eq_plus1 [symmetric]])
  next
    case elem
    from "2.IH"(3) [OF st elem(1,2,3)] "2.IH"(4) [OF st elem(1,2,3) refl refl elem(4)] elem(1,2) sto
    show ?thesis by simp (blast intro: berElem_berElems.elemsMore [unfolded Suc_eq_plus1 [symmetric]])
  qed
next
  case (3 n poff off limit depth base bs)
  let ?sb = "inBytes n ! off AND NOT 0x20"
  from "3.prems" obtain h n1 where h: "header n off limit = Inr (h, n1)" and
    d: "\<not> maxBERDepth < depth" "\<not> (?sb \<noteq> base \<and> (base = 3 \<or> base = 4 \<or> ?sb \<noteq> 4))"
    by (subst (asm) segment.simps) (auto simp: case_sum_Inr_iff Let_def split: if_splits)
  obtain b where hb: "hdrOf (inBytes n) off limit = Inr (h, b)" using header_hdrOfD [OF h] ..
  note hi = header_inBytes [OF h]
  show ?case
  proof (cases "constructed h")
    case False
    with "3.prems" h d have "primSegment n1 off h base bs = Inr (ke, kl, kbs', k')"
      by (subst (asm) segment.simps) (auto simp: Let_def split: if_splits)
    from primSegment_sound [OF this h False d] show ?thesis .
  next
    case True
    from True "3.prems" h d have
      "segLoop n1 off (hdrEnd h) (childLimitOf h limit) (indefinite h) depth ?sb 0 bs = Inr (ke, kl, kbs', k')"
      by (subst (asm) segment.simps) (auto simp: Let_def split: if_splits)
    note IH = "3.IH" [OF d(1) refl d(2) h refl _ this]
    with True hi obtain c where
      "berSegs (inBytes n) off (hdrEnd h) (childLimitOf h limit) (indefinite h) depth ?sb bs ke c kbs'"
      by auto
    from berSeg_berSegs.segCons [OF _ refl d(2) hb True this] d(1) True hi IH
    show ?thesis by (auto simp: not_less)
  qed
next
  case (4 n off p limit indef depth sb cl bs)
  from "4.prems" obtain st where st: "berStep n off p limit indef = Inr st"
    by (subst (asm) segLoop.simps) (auto simp: case_sum_Inr_iff)
  then have sto: "stepOf (inBytes n) off p limit indef = Inr st" by (simp add: berStep_stepOf [of n])
  consider (fin) e' where "st = Some e'"
    | (seg) e1 l1 b1 n1 where "st = None" "segment n off p limit (depth + 1) sb bs = Inr (e1, l1, b1, n1)"
        "segLoop n1 off e1 limit indef depth sb (cl + l1) b1 = Inr (qe, ql, qbs', q')"
    using "4.prems" st by (subst (asm) segLoop.simps) (auto simp: case_sum_Inr_iff split: option.splits)
  then show ?case
  proof cases
    case fin
    with "4.prems" st sto show ?thesis
      by (subst (asm) segLoop.simps) (auto intro!: exI berSeg_berSegs.segsDone)
  next
    case seg
    from "4.IH"(1) [OF st seg(1,2)] "4.IH"(2) [OF st seg(1,2) refl refl refl seg(3)] seg(1) sto
    show ?thesis by simp (blast intro: berSeg_berSegs.segsMore [unfolded Suc_eq_plus1 [symmetric]])
  qed
qed

end
