(* ===== verification/BerRoundtrip.thy ===== *)
theory BerRoundtrip
  imports BerSpec
begin

text \<open>
  Theorems on \<open>normalizeBER\<close>. Reading back what the emitting pass of \<^verbatim>\<open>ber.go\<close> writes. A well-formed tree's DER encoding is
  accepted, needs no rewriting, and is read as the same tree with flattened strings now plain
  primitives; a BER-free input is the encoding of its own tree.
\<close>

section \<open>Length octets\<close>

lemma beValue_Cons: "beValue (c # cs) = unat c * 256 ^ length cs + beValue cs"
proof -
  have "foldl (\<lambda>v c. v * 256 + unat c) a cs = a * 256 ^ length cs + foldl (\<lambda>v c. v * 256 + unat c) 0 cs"
    for a :: nat and cs :: "byte list"
  proof (induction cs arbitrary: a)
    case (Cons x xs)
    show ?case
      using Cons.IH [of "a * 256 + unat x"] Cons.IH [of "unat x"] by (simp add: algebra_simps)
  qed simp
  from this [of "unat c" cs] show ?thesis by (simp add: beValue_def)
qed

lemma beValue_Nil [simp]: "beValue [] = 0"
  by (simp add: beValue_def)

definition beDigits :: "nat \<Rightarrow> nat \<Rightarrow> byte list" where
  "beDigits k n = map (\<lambda>i. of_nat (n div 256 ^ i)) (rev [0..<k])"

lemma length_beDigits [simp]: "length (beDigits k n) = k"
  by (simp add: beDigits_def)

lemma beDigits_Suc: "beDigits (Suc k) n = of_nat (n div 256 ^ k) # beDigits k n"
  by (simp add: beDigits_def)

lemma unat_byte_of_nat: "unat (word_of_nat n :: byte) = n mod 256"
  by (simp add: unat_of_nat)

lemma beValue_beDigits: "beValue (beDigits k n) = n mod 256 ^ k"
proof (induction k)
  case (Suc k)
  have "n mod 256 ^ Suc k = 256 ^ k * (n div 256 ^ k mod 256) + n mod 256 ^ k"
    using mod_mult2_eq [of n "256 ^ k" 256] by (simp add: mult.commute)
  then show ?case
    by (simp add: beDigits_Suc beValue_Cons unat_byte_of_nat Suc mult.commute)
qed (simp add: beDigits_def)

lemma beValue_bound: "beValue cs < 256 ^ length cs"
proof (induction cs)
  case (Cons c cs)
  have "unat c < 256" by (rule unat_byte)
  then have "unat c * 256 ^ length cs + beValue cs < unat c * 256 ^ length cs + 256 ^ length cs"
    using Cons by simp
  also have "\<dots> = (unat c + 1) * 256 ^ length cs" by simp
  also have "\<dots> \<le> 256 * 256 ^ length cs"
    using \<open>unat c < 256\<close> by (intro mult_right_mono) auto
  finally show ?case by (simp add: beValue_Cons)
qed simp

lemma beDigits_add:
  "beDigits k (a * 256 ^ k + v) = beDigits k v"
proof -
  have "word_of_nat ((a * 256 ^ k + v) div 256 ^ i) = (word_of_nat (v div 256 ^ i) :: byte)"
    if "i < k" for i
  proof -
    obtain d where k: "k = Suc (i + d)" using \<open>i < k\<close> less_iff_Suc_add by auto
    have "(a * 256 ^ k + v) div 256 ^ i = (a * 256 ^ Suc d * 256 ^ i + v) div 256 ^ i"
      by (simp add: k power_add mult_ac)
    also have "\<dots> = 256 * (a * 256 ^ d) + v div 256 ^ i" by simp
    finally have "(a * 256 ^ k + v) div 256 ^ i mod 256 = v div 256 ^ i mod 256"
      by (simp only: mod_mult_self4)
    then show ?thesis by (metis unat_byte_of_nat word_unat_eq_iff)
  qed
  then show ?thesis by (simp add: beDigits_def)
qed

lemma beDigits_beValue: "beDigits (length cs) (beValue cs) = cs"
proof (induction cs)
  case (Cons c cs)
  have "(unat c * 256 ^ length cs + beValue cs) div 256 ^ length cs = unat c"
    using beValue_bound [of cs] by simp
  then show ?case using Cons
    by (simp add: beValue_Cons beDigits_Suc beDigits_add)
qed (simp add: beDigits_def)

lemma lenOctets_bound: "n < 256 ^ lenOctets n 0"
proof (induction n rule: less_induct)
  case (less n)
  show ?case
  proof (cases "n > 0")
    case True
    have "lenOctets n 0 = Suc (lenOctets (n div 256) 0)"
      using True lenOctets_add [of "n div 256" 1] by (simp add: lenOctets.simps [of n])
    moreover have "n div 256 < 256 ^ lenOctets (n div 256) 0" using less True by simp
    ultimately show ?thesis by (simp add: less_mult_imp_div_less div_less_iff_less_mult mult.commute)
  qed (simp add: lenOctets.simps)
qed

lemma lenOctets_least: "n < 256 ^ k \<Longrightarrow> lenOctets n 0 \<le> k"
proof (induction n arbitrary: k rule: less_induct)
  case (less n)
  show ?case
  proof (cases "n > 0")
    case True
    then obtain k' where k: "k = Suc k'" using less.prems by (cases k) auto
    have "n div 256 < 256 ^ k'" using less.prems k by (simp add: less_mult_imp_div_less mult.commute)
    then have "lenOctets (n div 256) 0 \<le> k'" using less.IH True by simp
    then show ?thesis
      using True k lenOctets_add [of "n div 256" 1] by (simp add: lenOctets.simps [of n])
  qed (simp add: lenOctets.simps)
qed

lemma berLenSize_long:
  assumes "\<not> n < 128"
  shows "berLenSize n = Suc (lenOctets n 0)" "0 < lenOctets n 0"
proof -
  show "berLenSize n = Suc (lenOctets n 0)"
    using assms lenOctets_add [of n 1] by (simp add: berLenSize_def)
  show "0 < lenOctets n 0"
    using assms lenOctets_bound [of n] by (cases "lenOctets n 0") auto
qed

lemma derLength_short: "n < 128 \<Longrightarrow> derLength n = [of_nat n]"
  by (simp add: derLength_def appendBERLength_def)

lemma derLength_long:
  "\<not> n < 128 \<Longrightarrow> derLength n = (0x80 OR of_nat (lenOctets n 0)) # beDigits (lenOctets n 0) n"
  by (simp add: derLength_def appendBERLength_def Let_def berLenSize_long beDigits_def)

lemma gslice_at:
  assumes "gslice xs p (p + length ys) = ys" "p + length ys \<le> length xs" "i < length ys"
  shows "xs ! (p + i) = ys ! i"
  using assms nth_slice [of "p + length ys" xs i p] by simp

lemma gslice_sub:
  assumes "gslice xs p (p + length ys) = ys" "p + length ys \<le> length xs" "i + k \<le> length ys"
  shows "gslice xs (p + i) (p + i + k) = gslice ys i (i + k)"
  using assms by (intro nth_equalityI) (auto simp: gslice_at [OF assms(1,2)] add.assoc)

text \<open>A minimal length is read back, and marks nothing as BER.\<close>

lemma lengthOctets_derLength:
  assumes sl: "gslice (inBytes m) p (p + berLenSize n) = derLength n"
    and fits: "p + berLenSize n + n \<le> limit" "limit \<le> length (inBytes m)" and n: "n < 2 ^ 32"
  shows "lengthOctets m off limit p constr = Inr (\<lparr>tagEnd = p, hdrEnd = p + berLenSize n,
      constructed = constr, indefinite = False, hdrLength = n\<rparr>, m)"
proof (cases "n < 128")
  case True
  then have len: "berLenSize n = 1" by (simp add: berLenSize_def)
  have b: "inBytes m ! p = of_nat n"
    using gslice_at [of "inBytes m" p "derLength n" 0] sl fits len True
    by (simp add: derLength_short)
  have "unat (word_of_nat n :: byte) = n" using True by (simp add: unat_byte_of_nat)
  with True b len fits show ?thesis
    by (auto simp: lengthOctets_def Let_def word_less_nat_alt)
next
  case False
  let ?k = "lenOctets n 0"
  note len = berLenSize_long [OF False]
  have "?k \<le> 4" using n lenOctets_least [of n 4] by simp
  with len(2) have "?k \<in> {1, 2, 3, 4}" by auto
  then have l: "\<not> (0x80 OR word_of_nat ?k :: byte) < 0x80" "(0x80 OR word_of_nat ?k :: byte) \<noteq> 0x80"
    "(0x80 OR word_of_nat ?k :: byte) \<noteq> 0xff" "unat ((0x80 OR word_of_nat ?k :: byte) AND 0x7f) = ?k"
    by (elim insertE; simp)+
  have b: "inBytes m ! p = 0x80 OR of_nat ?k"
    using gslice_at [of "inBytes m" p "derLength n" 0] sl fits len False
    by (simp add: derLength_long)
  have "gslice (inBytes m) (p + 1) (p + 1 + ?k) = beDigits ?k n"
    using gslice_sub [of "inBytes m" p "derLength n" 1 ?k] sl fits len False
    by (simp add: derLength_long gslice_def)
  then have v: "beValue (gslice (inBytes m) (p + 1) (p + 1 + ?k)) = n"
    using lenOctets_bound [of n] by (simp add: beValue_beDigits)
  show ?thesis
    using fits len l \<open>?k \<le> 4\<close> v by (auto simp: lengthOctets_def Let_def b)
qed

lemma long_length_byte:
  "\<not> (l :: byte) < 0x80 \<Longrightarrow> 0x80 OR word_of_nat (unat (l AND 0x7f)) = l"
proof -
  have "\<not> l < 0x80 \<longrightarrow> 0x80 OR word_of_nat (unat (l AND 0x7f)) = l"
    by (rule all_bytes) code_simp
  then show "\<not> l < 0x80 \<Longrightarrow> 0x80 OR word_of_nat (unat (l AND 0x7f)) = l" by simp
qed

lemma lengthOctets_minimal:
  assumes r: "lengthOctets m off limit p constr = Inr (h, m')" "\<not> isBer m'" "limit \<le> length (inBytes m)"
  shows "\<not> indefinite h \<and> gslice (inBytes m) p (hdrEnd h) = derLength (hdrLength h) \<and> hdrLength h < 2 ^ 32"
proof -
  let ?l = "inBytes m ! p"
  have p: "p < limit" using r(1) by (auto simp: lengthOctets_def split: if_splits)
  show ?thesis
  proof (cases "?l < 0x80")
    case True
    then have u: "unat ?l < 128" by (simp add: word_less_nat_alt)
    have "gslice (inBytes m) p (p + 1) = [?l]"
      using p r(3) by (simp add: slice_Suc)
    with True u r p show ?thesis
      by (auto simp: lengthOctets_def Let_def derLength_short split: if_splits)
  next
    case False
    let ?k = "unat (?l AND 0x7f)"
    let ?v = "beValue (gslice (inBytes m) (p + 1) (p + 1 + ?k))"
    have *: "?k \<le> 4" "p + 1 + ?k \<le> limit" "hdrEnd h = p + 1 + ?k" "hdrLength h = ?v" "\<not> indefinite h"
      "?k = berLenSize ?v - 1" "?l \<noteq> 0x80"
      using False p r by (auto simp: lengthOctets_def Let_def split: if_splits)
    have k0: "?k \<noteq> 0"
    proof
      assume k: "?k = 0"
      from long_length_byte [OF False] *(7) show False unfolding k by simp
    qed
    have big: "\<not> ?v < 128" using *(6) k0 by (auto simp: berLenSize_def)
    have dg: "beDigits ?k ?v = gslice (inBytes m) (p + 1) (p + 1 + ?k)"
      using beDigits_beValue [of "gslice (inBytes m) (p + 1) (p + 1 + ?k)"] *(2) r(3) by simp
    have lk: "lenOctets ?v 0 = ?k" using *(6) berLenSize_long [OF big] by simp
    have "derLength ?v = ?l # gslice (inBytes m) (p + 1) (p + 1 + ?k)"
      by (simp only: derLength_long [OF big] lk long_length_byte [OF False] dg)
    moreover have "gslice (inBytes m) p (hdrEnd h) = ?l # gslice (inBytes m) (p + 1) (p + 1 + ?k)"
      using p r(3) *(2,3) by (simp add: slice_Suc)
    moreover have "?v < 256 ^ ?k"
      using beValue_bound [of "gslice (inBytes m) (p + 1) (p + 1 + ?k)"] *(2) r(3) by simp
    then have "?v < 2 ^ 32"
      using *(1) power_increasing [of ?k 4 "256 :: nat"] by simp
    ultimately show ?thesis using * by simp
  qed
qed

section \<open>Headers\<close>

text \<open>A tag is read from its own octets only.\<close>

lemma highTag_local:
  assumes "highTag bs off limit p i num = Inr q" "\<forall>j < q - p. bs' ! (p' + j) = bs ! (p + j)"
    "p' + (q - p) \<le> limit'"
  shows "highTag bs' off' limit' p' i num = Inr (p' + (q - p))"
  using assms
proof (induction bs off limit p i num arbitrary: p' rule: highTag.induct)
  case (1 bs off limit p i num)
  note b = highTag_bounds [OF "1.prems"(1)]
  have c: "bs' ! p' = bs ! p" using "1.prems"(2) b by (metis add.right_neutral zero_less_diff)
  let ?num = "num * 128 + unat (bs ! p AND 0x7f)"
  have g: "\<not> i \<ge> 5" "\<not> p \<ge> limit" "\<not> (i = 0 \<and> bs ! p = 0x80)" "p' < limit'"
    using "1.prems" b by (auto simp: highTag.simps [of bs] Let_def split: if_splits)
  show ?case
  proof (cases "bs ! p AND 0x80 = 0")
    case True
    with "1.prems" g c show ?thesis
      by (auto simp: highTag.simps [of bs] highTag.simps [of bs'] Let_def split: if_splits)
  next
    case False
    with "1.prems"(1) g have r: "highTag bs off limit (p + 1) (i + 1) ?num = Inr q"
      by (simp add: highTag.simps [of bs off limit p] Let_def)
    then have q: "p + 1 < q" using highTag_bounds by blast
    have "highTag bs' off' limit' (p' + 1) (i + 1) ?num = Inr (p' + 1 + (q - (p + 1)))"
    proof (rule "1.IH" [OF g(1-2) refl g(3) refl False r])
      show "\<forall>j < q - (p + 1). bs' ! (p' + 1 + j) = bs ! (p + 1 + j)"
      proof (intro allI impI)
        fix j assume "j < q - (p + 1)"
        then have "Suc j < q - p" by simp
        with "1.prems"(2) have "bs' ! (p' + Suc j) = bs ! (p + Suc j)" by blast
        then show "bs' ! (p' + 1 + j) = bs ! (p + 1 + j)" by simp
      qed
      show "p' + 1 + (q - (p + 1)) \<le> limit'" using "1.prems"(3) q by simp
    qed
    with False g c q show ?thesis
      by (simp add: highTag.simps [of bs' off' limit' p'] Let_def)
  qed
qed

definition tagOk :: "bool \<Rightarrow> byte list \<Rightarrow> bool" where
  "tagOk constr tag \<longleftrightarrow> tag \<noteq> [] \<and> tag ! 0 \<noteq> 0 \<and> (constr \<longleftrightarrow> tag ! 0 AND 0x20 \<noteq> 0)
     \<and> tagOctets tag 0 (length tag) = Inr (length tag)"

lemma tagOctets_local:
  assumes "tagOctets bs off limit = Inr q" "off < limit" "limit \<le> length bs"
    "\<forall>j < q - off. bs' ! (off' + j) = bs ! (off + j)" "off' + (q - off) \<le> limit'"
  shows "tagOctets bs' off' limit' = Inr (off' + (q - off))"
proof -
  have b: "off < q" using tagOctets_bounds [OF assms(1,2)] by simp
  then have c: "bs' ! off' = bs ! off" using assms(4) by (metis add.right_neutral zero_less_diff)
  show ?thesis
  proof (cases "bs ! off AND 0x1f = 0x1f")
    case True
    with assms(1) have r: "highTag bs off limit (off + 1) 0 0 = Inr q" by (simp add: tagOctets_def)
    note q = highTag_bounds [OF this]
    have "highTag bs' off' limit' (off' + 1) 0 0 = Inr (off' + 1 + (q - (off + 1)))"
    proof (rule highTag_local [OF r])
      show "\<forall>j < q - (off + 1). bs' ! (off' + 1 + j) = bs ! (off + 1 + j)"
      proof (intro allI impI)
        fix j assume "j < q - (off + 1)"
        then have "Suc j < q - off" by simp
        with assms(4) have "bs' ! (off' + Suc j) = bs ! (off + Suc j)" by blast
        then show "bs' ! (off' + 1 + j) = bs ! (off + 1 + j)" by simp
      qed
      show "off' + 1 + (q - (off + 1)) \<le> limit'" using assms(5) q by arith
    qed
    moreover have "off' + 1 + (q - (off + 1)) = off' + (q - off)" using q by arith
    ultimately show ?thesis using True c by (simp add: tagOctets_def)
  next
    case False
    with assms c show ?thesis by (auto simp: tagOctets_def)
  qed
qed

lemma hdrOf_split:
  "hdrOf inp off limit =
     (if off \<ge> limit then Inl (BerTruncated off 1 limit)
      else case tagOctets inp off limit of Inl e \<Rightarrow> Inl e
      | Inr p \<Rightarrow> (case lengthOctets (newNormalizer inp) off limit p (inp ! off AND 0x20 \<noteq> 0) of
           Inl e \<Rightarrow> Inl e | Inr (h, n) \<Rightarrow> Inr (h, isBer n)))"
  by (simp add: hdrOf_def header_def newNormalizer_def split: sum.splits)

lemma newNormalizer_simps [simp]:
  "inBytes (newNormalizer inp) = inp" "isBer (newNormalizer inp) = False"
  "passOf (newNormalizer inp) = BerCheck"
  by (simp_all add: newNormalizer_def)

text \<open>What a header without BER forms looks like, and that writing one reads back.\<close>

lemma hdrOf_minimal:
  assumes "hdrOf inp off limit = Inr (h, False)" "limit \<le> length inp"
  shows "\<not> indefinite h"
    "gslice inp off (hdrEnd h) = gslice inp off (tagEnd h) @ derLength (hdrLength h)"
    "hdrLength h < 2 ^ 32"
proof -
  from assms(1) obtain p n where *: "off < limit" "tagOctets inp off limit = Inr p"
    "lengthOctets (newNormalizer inp) off limit p (inp ! off AND 0x20 \<noteq> 0) = Inr (h, n)" "\<not> isBer n"
    by (auto simp: hdrOf_split result_iffs split: if_splits)
  note tb = tagOctets_bounds [OF *(2,1)] and lf = lengthOctets_facts [OF *(3)]
  note m = lengthOctets_minimal [OF *(3,4)]
  then show "\<not> indefinite h" "hdrLength h < 2 ^ 32" using assms(2) by auto
  show "gslice inp off (hdrEnd h) = gslice inp off (tagEnd h) @ derLength (hdrLength h)"
    using m assms(2) lf tb slice_append_slice [of off "tagEnd h" "hdrEnd h" inp] by simp
qed

lemma hdrOf_tag:
  assumes "hdrOf inp off limit = Inr (h, b)" "limit \<le> length inp" "inp ! off \<noteq> 0"
  shows "tagOk (constructed h) (gslice inp off (tagEnd h))"
proof -
  from assms(1) obtain p n where *: "off < limit" "tagOctets inp off limit = Inr p"
    "lengthOctets (newNormalizer inp) off limit p (inp ! off AND 0x20 \<noteq> 0) = Inr (h, n)"
    by (auto simp: hdrOf_split result_iffs split: if_splits)
  note tb = tagOctets_bounds [OF *(2,1)] and lf = lengthOctets_facts [OF *(3)]
  have "tagOctets (gslice inp off p) 0 (p - off) = Inr (0 + (p - off))"
    using tb assms(2) by (intro tagOctets_local [OF *(2,1)]) auto
  moreover have "gslice inp off p ! 0 = inp ! off"
    using tb assms(2) nth_slice [of p inp 0 off] by simp
  ultimately show ?thesis
    using tb lf assms(2,3) slice_eq_Nil_iff [of p inp off] by (simp add: tagOk_def)
qed

lemma hdrOf_facts:
  assumes "hdrOf inp off limit = Inr (h, b)"
  shows "off < limit" "off < tagEnd h" "tagEnd h < hdrEnd h" "hdrEnd h \<le> limit"
    "\<not> indefinite h \<Longrightarrow> hdrEnd h + hdrLength h \<le> limit" "hdrEnd h \<le> childLimitOf h limit"
    "childLimitOf h limit \<le> limit"
proof -
  from assms obtain n where "header (newNormalizer inp) off limit = Inr (h, n)"
    by (auto simp: hdrOf_def split: sum.splits)
  note f = header_facts [OF this]
  from f show "off < limit" "off < tagEnd h" "tagEnd h < hdrEnd h" "hdrEnd h \<le> limit"
    "\<not> indefinite h \<Longrightarrow> hdrEnd h + hdrLength h \<le> limit"
    by auto
  from f show "hdrEnd h \<le> childLimitOf h limit" "childLimitOf h limit \<le> limit"
    by (auto simp: childLimitOf_def)
qed

lemma hdrOf_written:
  assumes t: "tagOk constr tag" and n: "n < 2 ^ 32"
    and sl: "gslice inp off (off + length tag + berLenSize n) = tag @ derLength n"
    and fits: "off + length tag + berLenSize n + n \<le> limit" "limit \<le> length inp"
  shows "hdrOf inp off limit = Inr (\<lparr>tagEnd = off + length tag,
      hdrEnd = off + length tag + berLenSize n, constructed = constr, indefinite = False,
      hdrLength = n\<rparr>, False)"
proof -
  let ?ys = "tag @ derLength n"
  have at: "inp ! (off + i) = ?ys ! i" if "i < length ?ys" for i
    using that sl fits gslice_at [of inp off ?ys i] by (simp add: add.assoc)
  have tag0: "0 < length tag" using t by (simp add: tagOk_def)
  have "tagOctets inp off limit = Inr (off + (length tag - 0))"
    using t fits at tag0
    by (intro tagOctets_local [of tag 0 "length tag"]) (auto simp: tagOk_def nth_append)
  moreover have "gslice inp (off + length tag) (off + length tag + berLenSize n) = derLength n"
    using sl fits gslice_sub [of inp off ?ys "length tag" "berLenSize n"]
    by (simp add: add.assoc gslice_def)
  then have "lengthOctets (newNormalizer inp) off limit (off + length tag) (inp ! off AND 0x20 \<noteq> 0)
    = Inr (\<lparr>tagEnd = off + length tag, hdrEnd = off + length tag + berLenSize n,
        constructed = constr, indefinite = False, hdrLength = n\<rparr>, newNormalizer inp)"
    using t at [of 0] tag0 fits n lengthOctets_derLength [of "newNormalizer inp" "off + length tag" n limit off constr]
    by (simp add: tagOk_def nth_append)
  moreover have "off < limit" using fits(1) tag0 by linarith
  ultimately show ?thesis by (simp add: hdrOf_split)
qed

section \<open>Trees\<close>

text \<open>
  Well-formedness at a nesting depth: tags that read back, lengths in four octets, no constructed
  string tag left, and no nesting past \<open>maxBERDepth\<close>.
\<close>

fun derWf :: "nat \<Rightarrow> derNode \<Rightarrow> bool" where
  "derWf d (DPrim tag c) \<longleftrightarrow> d \<le> maxBERDepth \<and> tagOk False tag"
| "derWf d (DCons tag ks) \<longleftrightarrow>
     d \<le> maxBERDepth \<and> tagOk True tag \<and> \<not> strTag tag \<and> (\<forall>k \<in> set ks. derWf (d + 1) k)"
| "derWf d (DFlat base c) \<longleftrightarrow> d \<le> maxBERDepth \<and> tagOk False [base]"

text \<open>The tree read back: a flattened string is a plain primitive.\<close>

fun derPlain :: "derNode \<Rightarrow> derNode" where
  "derPlain (DPrim tag c) = DPrim tag c"
| "derPlain (DCons tag ks) = DCons tag (map derPlain ks)"
| "derPlain (DFlat base c) = DPrim [base] c"

lemma derBytes_plain [simp]: "derBytes (derPlain t) = derBytes t"
proof (induction t rule: derPlain.induct)
  case (2 tag ks)
  then have "map derBytes (map derPlain ks) = map derBytes ks" by simp
  then show ?case by (simp only: derPlain.simps derBytes.simps)
qed simp_all

lemma derWf_tag: "derWf d t \<Longrightarrow> derTag t \<noteq> [] \<and> derTag t ! 0 \<noteq> 0"
  by (cases t) (auto simp: tagOk_def)

lemma derBytes_hd: "derWf d t \<Longrightarrow> derBytes t \<noteq> [] \<and> derBytes t ! 0 \<noteq> 0"
  by (cases t) (auto simp: tagOk_def nth_append Let_def)

lemma derKids_Cons [simp]: "derKids (k # ks) = derBytes k @ derKids ks"
  and derKids_Nil [simp]: "derKids [] = []"
  by (simp_all add: derKids_def)

lemma length_derKids_member: "k \<in> set ks \<Longrightarrow> length (derBytes k) \<le> length (derKids ks)"
  by (induction ks) auto

lemma isBERStringTag_nonzero: "isBERStringTag b \<Longrightarrow> b \<noteq> 0 \<and> b AND 0x1f \<noteq> 0x1f \<and> b AND 0x20 = 0"
  by (auto simp: isBERStringTag_def)

lemma strTag_base: "strTag tag \<Longrightarrow> tagOk False [tag ! 0 AND NOT 0x20]"
  using isBERStringTag_nonzero [of "tag ! 0 AND NOT 0x20"]
  by (auto simp: strTag_def tagOk_def tagOctets_def)

text \<open>Reading an encoding back, wherever it stands in the input.\<close>

lemma gslice_mid_append:
  assumes "gslice inp a (a + length (xs @ ys)) = xs @ ys" "a + length (xs @ ys) \<le> length inp"
  shows "gslice inp a (a + length xs) = xs"
    "gslice inp (a + length xs) (a + length xs + length ys) = ys"
  using gslice_sub [OF assms, of 0 "length xs"] gslice_sub [OF assms, of "length xs" "length ys"]
  by (simp_all add: gslice_def add.assoc)

lemma read_prim:
  assumes "tagOk False tag" "d \<le> maxBERDepth" "length c < 2 ^ 32"
    and sl: "gslice inp off (off + length (tag @ derLength (length c) @ c)) = tag @ derLength (length c) @ c"
    and fits: "off + length (tag @ derLength (length c) @ c) \<le> limit" "limit \<le> length inp"
  shows "berElem inp off limit d (off + length (tag @ derLength (length c) @ c)) (DPrim tag c) False"
proof -
  let ?q = "off + length tag + berLenSize (length c)"
  have s: "gslice inp off ?q = tag @ derLength (length c)" "gslice inp off (off + length tag) = tag"
    "gslice inp ?q (?q + length c) = c"
    using gslice_mid_append [of inp off "tag @ derLength (length c)" c]
      gslice_mid_append [of inp off tag "derLength (length c) @ c"] sl fits
    by (simp_all add: add.assoc)
  have "hdrOf inp off limit = Inr (\<lparr>tagEnd = off + length tag, hdrEnd = ?q, constructed = False,
      indefinite = False, hdrLength = length c\<rparr>, False)"
    using assms(1,3) s fits by (intro hdrOf_written) auto
  moreover have "inp ! off \<noteq> 0"
    using gslice_at [OF sl, of 0] fits assms(1) by (auto simp: tagOk_def nth_append)
  ultimately show ?thesis
    using elemPrim [of d inp off limit _ False] assms(2) s by (auto simp: add.assoc)
qed

lemma read_back:
  "derWf d t \<Longrightarrow> length (derBytes t) < 2 ^ 32 \<Longrightarrow>
     gslice inp off (off + length (derBytes t)) = derBytes t \<Longrightarrow>
     off + length (derBytes t) \<le> limit \<Longrightarrow> limit \<le> length inp \<Longrightarrow>
     berElem inp off limit d (off + length (derBytes t)) (derPlain t) False"
proof (induction t arbitrary: d off limit)
  case (DPrim tag c)
  then show ?case using read_prim [of tag d c inp off limit] by simp
next
  case (DFlat base c)
  then show ?case using read_prim [of "[base]" d c inp off limit] by simp
next
  case (DCons tag ks)
  let ?c = "derKids ks"
  let ?q = "off + length tag + berLenSize (length ?c)"
  have b: "derBytes (DCons tag ks) = tag @ derLength (length ?c) @ ?c"
    by (simp add: derKids_def Let_def)
  note prems = DCons.prems [unfolded b]
  have wf: "d \<le> maxBERDepth" "tagOk True tag" "\<not> strTag tag" "\<And>k. k \<in> set ks \<Longrightarrow> derWf (d + 1) k"
    using DCons.prems(1) by auto
  have s: "gslice inp off ?q = tag @ derLength (length ?c)" "gslice inp off (off + length tag) = tag"
    "gslice inp ?q (?q + length ?c) = ?c"
    using gslice_mid_append [of inp off "tag @ derLength (length ?c)" ?c]
      gslice_mid_append [of inp off tag "derLength (length ?c) @ ?c"] prems
    by (simp_all add: add.assoc)
  have h: "hdrOf inp off limit = Inr (\<lparr>tagEnd = off + length tag, hdrEnd = ?q, constructed = True,
      indefinite = False, hdrLength = length ?c\<rparr>, False)"
    using wf s prems by (intro hdrOf_written) auto
  have nz: "inp ! off \<noteq> 0"
    using gslice_at [OF prems(3), of 0] prems wf by (auto simp: tagOk_def nth_append)
  have kids: "berElems inp off p (?q + length ?c) False d (?q + length ?c) (map derPlain ks') False"
    if "set ks' \<subseteq> set ks" "p + length (derKids ks') = ?q + length ?c"
      "gslice inp p (p + length (derKids ks')) = derKids ks'" for ks' p
    using that
  proof (induction ks' arbitrary: p)
    case Nil
    then show ?case by (auto intro!: elemsDone simp: berStep_def)
  next
    case (Cons k ks')
    have lim: "?q + length ?c \<le> length inp" using prems by simp
    have sk: "gslice inp p (p + length (derBytes k)) = derBytes k"
      "gslice inp (p + length (derBytes k)) (p + length (derBytes k) + length (derKids ks')) = derKids ks'"
      using gslice_mid_append [of inp p "derBytes k" "derKids ks'"] Cons.prems lim by auto
    have k: "k \<in> set ks" using Cons.prems by simp
    note hk = derBytes_hd [OF wf(4) [OF k]]
    have lk: "length (derBytes k) \<le> length ?c" using length_derKids_member [OF k] .
    have fit: "p + length (derBytes k) \<le> ?q + length ?c" using Cons.prems by simp
    have "0 < length (derBytes k)" using hk by simp
    with fit have "p < ?q + length ?c" by linarith
    then have st: "stepOf inp off p (?q + length ?c) False = Inr None"
      using hk gslice_at [OF sk(1), of 0] fit lim by (auto simp: berStep_def)
    have "berElem inp p (?q + length ?c) (d + 1) (p + length (derBytes k)) (derPlain k) False"
      using DCons.IH [OF k wf(4) [OF k] _ sk(1) fit lim] prems(2) lk by simp
    moreover have "berElems inp off (p + length (derBytes k)) (?q + length ?c) False d (?q + length ?c)
        (map derPlain ks') False"
    proof (rule Cons.IH [OF _ _ sk(2)])
      show "set ks' \<subseteq> set ks" using Cons.prems(1) by simp
      show "p + length (derBytes k) + length (derKids ks') = ?q + length ?c"
        using Cons.prems(2) by simp
    qed
    ultimately show ?case using elemsMore [OF st] by fastforce
  qed
  have "berElems inp off ?q (?q + length ?c) False d (?q + length ?c) (map derPlain ks) False"
    using kids [of ks ?q] s by simp
  with elemCons [OF wf(1) nz h _ _ wf(3), of "?q + length ?c" "map derPlain ks" False] s
  show ?case unfolding b by (simp add: childLimitOf_def add.assoc)
qed

section \<open>From the input to its tree\<close>

lemma berElem_wf:
  "berElem inp off limit d e t b \<Longrightarrow> limit \<le> length inp \<Longrightarrow> derWf d t"
  "berElems inp off p limit indef d e ks b \<Longrightarrow> limit \<le> length inp \<Longrightarrow> \<forall>k \<in> set ks. derWf (d + 1) k"
proof (induction rule: berElem_berElems.inducts)
  case (elemPrim d off limit h b)
  then show ?case using hdrOf_tag [of inp off limit h b] hdrOf_facts [of inp off limit h b] by simp
next
  case (elemCons d off limit h b tag e ks b')
  then show ?case using hdrOf_tag [of inp off limit h b] hdrOf_facts [of inp off limit h b] by simp
next
  case (elemFlat d off limit h b base e c bs)
  then show ?case using strTag_base [of "gslice inp off (tagEnd h)"] by simp
qed simp_all

lemma berSeg_bounds:
  "berSeg inp poff off limit d base bs e c bs' \<Longrightarrow> off < e \<and> e \<le> limit"
  "berSegs inp off p limit indef d base bs e c bs' \<Longrightarrow> p \<le> limit \<longrightarrow> p \<le> e \<and> e \<le> limit"
proof (induction rule: berSeg_berSegs.inducts)
  case (segPrim d sb off base limit h b c bs poff)
  have "\<not> indefinite h"
    using segPrim header_facts(7) by (auto simp: hdrOf_def split: sum.splits)
  with hdrOf_facts [of inp off limit h b] segPrim show ?case by auto
next
  case (segPrimOther d sb off base limit h b poff bs)
  have "\<not> indefinite h"
    using segPrimOther header_facts(7) by (auto simp: hdrOf_def split: sum.splits)
  with hdrOf_facts [of inp off limit h b] segPrimOther show ?case by auto
next
  case (segCons d sb off base limit h b bs e c bs' poff)
  with hdrOf_facts [of inp off limit h b] show ?case by auto
next
  case (segsDone off p limit indef e d base bs)
  then show ?case using berStep_facts by blast
qed auto

text \<open>A BER-free element is its own encoding.\<close>

lemma berElem_der:
  "berElem inp off limit d e t b \<Longrightarrow> limit \<le> length inp \<Longrightarrow>
     off \<le> e \<and> e \<le> limit \<and> (\<not> b \<longrightarrow> gslice inp off e = derBytes t)"
  "berElems inp off p limit indef d e ks b \<Longrightarrow> limit \<le> length inp \<Longrightarrow> p \<le> limit \<Longrightarrow>
     p \<le> e \<and> e \<le> limit \<and> (\<not> b \<longrightarrow> \<not> indef \<longrightarrow> e = limit \<and> gslice inp p e = derKids ks)"
proof (induction rule: berElem_berElems.inducts)
  case (elemPrim d off limit h b)
  note f = hdrOf_facts [OF \<open>hdrOf inp off limit = Inr (h, b)\<close>]
  have ni: "\<not> indefinite h"
    using elemPrim header_facts(7) by (auto simp: hdrOf_def split: sum.splits)
  have "gslice inp off (hdrEnd h + hdrLength h) = gslice inp off (hdrEnd h) @
      gslice inp (hdrEnd h) (hdrEnd h + hdrLength h)"
    using f slice_append_slice [of off "hdrEnd h" "hdrEnd h + hdrLength h" inp] by simp
  with f ni elemPrim hdrOf_minimal [of inp off limit h] show ?case by auto
next
  case (elemCons d off limit h b tag e ks b')
  note f = hdrOf_facts [OF \<open>hdrOf inp off limit = Inr (h, b)\<close>]
  have c: "childLimitOf h limit \<le> length inp" using f(7) elemCons.prems by simp
  have IH: "hdrEnd h \<le> e \<and> e \<le> childLimitOf h limit \<and> (\<not> b' \<longrightarrow> \<not> indefinite h \<longrightarrow>
      e = childLimitOf h limit \<and> gslice inp (hdrEnd h) e = derKids ks)"
    using elemCons c f(6) by blast
  have "gslice inp off e = derBytes (DCons tag ks)" if nb: "\<not> (b \<or> b')"
  proof -
    note m = hdrOf_minimal [of inp off limit h]
    have "\<not> indefinite h" "gslice inp off (hdrEnd h) = tag @ derLength (hdrLength h)"
      using m elemCons nb by auto
    moreover from this have "e = hdrEnd h + hdrLength h" "gslice inp (hdrEnd h) e = derKids ks"
      using IH nb by (auto simp: childLimitOf_def)
    moreover from this have "length (derKids ks) = hdrLength h"
      using f IH elemCons.prems length_slice [of e inp "hdrEnd h"] by simp
    ultimately show ?thesis
      using f IH slice_append_slice [of off "hdrEnd h" e inp] by (simp add: derBytes_kids Let_def)
  qed
  with f IH show ?case by auto
next
  case (elemFlat d off limit h b base e c bs)
  then show ?case
    using hdrOf_facts [of inp off limit h b]
      berSeg_bounds(2) [of inp off "hdrEnd h" "childLimitOf h limit" "indefinite h" d base initBits e c bs]
    by auto
next
  case (elemsDone off p limit indef e d)
  then show ?case by (auto simp: berStep_def split: if_splits)
next
  case (elemsMore off p limit indef d e1 t b e ks b')
  then show ?case using slice_append_slice [of p e1 e inp] by auto
qed

section \<open>The normalizer\<close>

text \<open>One pass from a fresh state, in closed form.\<close>

lemma pass_closed:
  assumes "berElem inp 0 (length inp) 1 e t b" "inBytes n = inp"
    "passReady n (recLens t) (recUnused t)"
  shows "element n 0 (length inp) 1
    = Inr (e, length (derBytes t), applyPass n (recLens t) (recUnused t) (derBytes t) b)"
  using elem_complete(1) [OF assms] .

lemma normalizeBER_tree:
  assumes t: "berElem inp 0 (length inp) 1 e t b"
  shows "normalizeBER inp = Inr (derBytes t, b, e, berTailOf inp e)"
proof (cases b)
  case False
  have "take e inp = derBytes t"
    using berElem_der(1) [OF t] False by (simp add: gslice_def)
  with pass_closed [OF t, of "newNormalizer inp"] False show ?thesis
    by (simp add: normalizeBER_def passReady_def)
next
  case True
  let ?n0 = "applyPass (newNormalizer inp) (recLens t) (recUnused t) (derBytes t) b"
  let ?n1 = "applyPass (?n0\<lparr>passOf := BerRecord\<rparr>) (recLens t) (recUnused t) (derBytes t) b"
  let ?n2 = "?n1\<lparr>outBytes := [], passOf := BerEmit\<rparr>"
  have "passReady ?n2 (recLens t) (recUnused t)"
    by (simp add: passReady_def applyPass_def newNormalizer_def)
  with pass_closed [OF t, of "newNormalizer inp"] pass_closed [OF t, of "?n0\<lparr>passOf := BerRecord\<rparr>"]
    pass_closed [OF t, of ?n2] True
  show ?thesis
    by (simp add: normalizeBER_def passReady_def) (simp add: applyPass_def)
qed

text \<open>The checking pass cannot read a missing record.\<close>

lemma header_no_panic: "header n off limit \<noteq> Inl BerPanic"
proof -
  have "highTag bs off limit p i num \<noteq> Inl BerPanic" for bs p i num
    by (induction bs off limit p i num rule: highTag.induct)
       (subst highTag.simps, auto simp: Let_def)
  then show ?thesis
    by (auto simp: header_def tagOctets_def lengthOctets_def Let_def split: sum.splits)
qed

lemma berStep_no_panic: "berStep n off p limit indef \<noteq> Inl BerPanic"
  by (simp add: berStep_def)

lemma enterConstructed_no_panic:
  "passOf n \<noteq> BerEmit \<Longrightarrow> enterConstructed n tag base str bitS \<noteq> Inl BerPanic"
  by (auto simp: enterConstructed_def split: berPass.splits)

lemma primSegment_no_panic: "primSegment n off h base bs \<noteq> Inl BerPanic"
  by (auto simp: primSegment_def Let_def)

lemma berWalk_no_panic:
 "passOf n \<noteq> BerEmit \<Longrightarrow> element n off limit depth \<noteq> Inl BerPanic"
 "passOf m \<noteq> BerEmit \<Longrightarrow> elemLoop m moff p mlimit indef mdepth str base cl bs \<noteq> Inl BerPanic"
 "passOf k \<noteq> BerEmit \<Longrightarrow> segment k kpoff koff klimit kdepth kbase kbs \<noteq> Inl BerPanic"
 "passOf q \<noteq> BerEmit \<Longrightarrow> segLoop q qoff qp qlimit qindef qdepth qbase qcl qbs \<noteq> Inl BerPanic"
proof (induction n off limit depth and m moff p mlimit indef mdepth str base cl bs
    and k kpoff koff klimit kdepth kbase kbs and q qoff qp qlimit qindef qdepth qbase qcl qbs
    rule: berWalk_induct)
  case (1 n off limit depth)
  show ?case
  proof
    assume p: "element n off limit depth = Inl BerPanic"
    then obtain h n1 where d: "\<not> (off < limit \<and> inBytes n ! off = 0)" "\<not> maxBERDepth < depth"
      and h: "header n off limit = Inr (h, n1)" and nc: "\<not> \<not> constructed h"
      by (subst (asm) element.simps)
         (auto simp: case_sum_Inl_iff header_no_panic Let_def split: if_splits)
    let ?tag = "gslice (inBytes n1) off (tagEnd h)"
    let ?base = "?tag ! 0 AND NOT 0x20"
    let ?str = "length ?tag = 1 \<and> ?tag ! 0 AND 0xc0 = 0 \<and> isBERStringTag ?base"
    let ?bit = "?str \<and> ?base = 3"
    have n1: "passOf (if ?str then n1\<lparr>isBer := True\<rparr> else n1) \<noteq> BerEmit"
      using header_inBytes [OF h] "1.prems" by (cases ?str) simp_all
    from p d h nc obtain n2 li ui where
      en: "enterConstructed (if ?str then n1\<lparr>isBer := True\<rparr> else n1) ?tag ?base ?str ?bit = Inr (n2, li, ui)"
      and lp: "elemLoop n2 off (hdrEnd h) (childLimitOf h limit) (indefinite h) depth ?str ?base
           (if ?bit then 1 else 0) \<lparr>bsSeen = False, bsLastOff = 0, bsLastUnused = 0\<rparr> = Inl BerPanic"
      using enterConstructed_no_panic [OF n1, of ?tag ?base ?str ?bit]
      by (subst (asm) element.simps) (auto simp: case_sum_Inl_iff Let_def)
    have "passOf n2 \<noteq> BerEmit" using enterConstructed_inBytes [OF en] n1 by simp
    from "1.IH" [OF d h refl nc refl refl refl refl en refl refl this] lp show False by blast
  qed
next
  case (2 n off p limit indef depth str base cl bs)
  show ?case
  proof
    assume "elemLoop n off p limit indef depth str base cl bs = Inl BerPanic"
    then obtain st where st: "berStep n off p limit indef = Inr st" "st = None"
      by (subst (asm) elemLoop.simps)
         (auto simp: case_sum_Inl_iff berStep_no_panic split: option.splits)
    with \<open>elemLoop n off p limit indef depth str base cl bs = Inl BerPanic\<close>
    consider (str) e1 l1 b1 n1 where str "segment n off p limit (depth + 1) base bs = Inr (e1, l1, b1, n1)"
        "elemLoop n1 off e1 limit indef depth str base (cl + l1) b1 = Inl BerPanic"
      | (elem) e1 l1 n1 where "\<not> str" "element n p limit (depth + 1) = Inr (e1, l1, n1)"
        "elemLoop n1 off e1 limit indef depth str base (cl + l1) bs = Inl BerPanic"
      using "2.IH"(1) [OF st] "2.IH"(3) [OF st] "2.prems"
      by (subst (asm) elemLoop.simps) (auto simp: case_sum_Inl_iff split: if_splits)
    then show False
    proof cases
      case str
      with "2.IH"(2) [OF st str(1,2) refl refl refl] berWalk_sound(3) [OF str(2)] "2.prems"
      show False by simp
    next
      case elem
      with "2.IH"(4) [OF st elem(1,2) refl refl] berWalk_sound(1) [OF elem(2)] "2.prems"
      show False by simp
    qed
  qed
next
  case (3 n poff off limit depth base bs)
  show ?case
  proof
    assume p: "segment n poff off limit depth base bs = Inl BerPanic"
    let ?sb = "inBytes n ! off AND NOT 0x20"
    from p obtain h n1 where h: "header n off limit = Inr (h, n1)" and
      d: "\<not> maxBERDepth < depth" "\<not> (?sb \<noteq> base \<and> (base = 3 \<or> base = 4 \<or> ?sb \<noteq> 4))"
      by (subst (asm) segment.simps)
         (auto simp: case_sum_Inl_iff header_no_panic Let_def split: if_splits)
    with p have nc: "\<not> \<not> constructed h"
      and lp: "segLoop n1 off (hdrEnd h) (childLimitOf h limit) (indefinite h) depth ?sb 0 bs = Inl BerPanic"
      by (subst (asm) segment.simps; auto simp: Let_def primSegment_no_panic split: if_splits)+
    from "3.IH" [OF d(1) refl d(2) h refl nc] header_inBytes [OF h] "3.prems" lp show False by simp
  qed
next
  case (4 n off p limit indef depth sb cl bs)
  show ?case
  proof
    assume p: "segLoop n off p limit indef depth sb cl bs = Inl BerPanic"
    then obtain st where st: "berStep n off p limit indef = Inr st" "st = None"
      by (subst (asm) segLoop.simps)
         (auto simp: case_sum_Inl_iff berStep_no_panic split: option.splits)
    with p obtain e1 l1 b1 n1 where seg: "segment n off p limit (depth + 1) sb bs = Inr (e1, l1, b1, n1)"
        "segLoop n1 off e1 limit indef depth sb (cl + l1) b1 = Inl BerPanic"
      using "4.IH"(1) [OF st] "4.prems"
      by (subst (asm) segLoop.simps) (auto simp: case_sum_Inl_iff)
    with "4.IH"(2) [OF st seg(1) refl refl refl] berWalk_sound(3) [OF seg(1)] "4.prems"
    show False by simp
  qed
qed

lemma normalize_grammar:
  "normalizeBER inp = Inr (der, b, e, rest) \<longleftrightarrow>
     (\<exists>t. berElem inp 0 (length inp) 1 e t b \<and> der = derBytes t \<and> rest = berTailOf inp e)"
proof
  assume n: "normalizeBER inp = Inr (der, b, e, rest)"
  then obtain fin l n1 where "element (newNormalizer inp) 0 (length inp) 1 = Inr (fin, l, n1)"
    by (auto simp: normalizeBER_def result_iffs)
  from berWalk_sound(1) [OF this] obtain t b' where "berElem inp 0 (length inp) 1 fin t b'" by auto
  with normalizeBER_tree [OF this] n
  show "\<exists>t. berElem inp 0 (length inp) 1 e t b \<and> der = derBytes t \<and> rest = berTailOf inp e" by auto
next
  assume "\<exists>t. berElem inp 0 (length inp) 1 e t b \<and> der = derBytes t \<and> rest = berTailOf inp e"
  then show "normalizeBER inp = Inr (der, b, e, rest)" using normalizeBER_tree by auto
qed

section \<open>Properties\<close>

text \<open>
  Claim C1. The three passes implement the grammar: \<open>normalizeBER\<close> succeeds exactly on the inputs
  whose first element is a BER tree, and then returns that tree's DER encoding, whether any BER
  form was met, the offset after the element, and the description of the bytes after it.
\<close>

theorem ber_normalize_iff:
  "normalizeBER inp = Inr (der, b, e, rest) \<longleftrightarrow>
     (\<exists>t. berElem inp 0 (length inp) 1 e t b \<and> der = derBytes t \<and> rest = berTailOf inp e)"
  by (rule normalize_grammar)

text \<open>
  Claim C2. Once the checking pass has accepted the input, neither the recording nor the emitting
  pass can fail, and no pass ever indexes past the records of \<open>lens\<close> and \<open>unused\<close>: the call's
  error is the checking pass's error, and it is never an index panic.
\<close>

theorem ber_error_iff_check:
  "(\<forall>err. normalizeBER inp = Inl err \<longleftrightarrow> element (newNormalizer inp) 0 (length inp) 1 = Inl err)
    \<and> normalizeBER inp \<noteq> Inl BerPanic"
proof -
  have *: "normalizeBER inp = Inl err \<longleftrightarrow> element (newNormalizer inp) 0 (length inp) 1 = Inl err" for err
  proof (cases "element (newNormalizer inp) 0 (length inp) 1")
    case (Inl e)
    then show ?thesis by (simp add: normalizeBER_def)
  next
    case (Inr r)
    obtain fin l n1 where r: "r = (fin, l, n1)" by (cases r)
    from berWalk_sound(1) [OF Inr [unfolded r]] obtain t b where "berElem inp 0 (length inp) 1 fin t b"
      by auto
    from normalizeBER_tree [OF this] Inr show ?thesis by simp
  qed
  moreover have "element (newNormalizer inp) 0 (length inp) 1 \<noteq> Inl BerPanic"
    by (rule berWalk_no_panic(1)) simp
  ultimately show ?thesis by simp
qed

text \<open>
  Normalizing is idempotent: the DER form of any accepted input is accepted again, needs
  no rewriting, is returned unchanged and ends where it ends, also when \<open>/Contents\<close> zero padding
  follows it. The bound is the four length octets the reader accepts.
\<close>

theorem ber_normalize_idempotent:
  assumes "normalizeBER inp = Inr (der, b, e, rest)" and len: "length der < 2 ^ 32"
  shows "normalizeBER (der @ replicate k 0)
    = Inr (der, False, length der, \<lparr>tailOffset = 0, tailCount = 0\<rparr>)"
proof -
  from assms(1) obtain t where t: "berElem inp 0 (length inp) 1 e t b" and der: "der = derBytes t"
    by (auto simp: normalize_grammar)
  let ?inp = "der @ replicate k (0 :: byte)"
  have wf: "derWf 1 t" using berElem_wf(1) [OF t] by simp
  have "gslice ?inp 0 (length der) = der" by (simp add: gslice_def)
  with read_back [OF wf, of ?inp 0 "length ?inp"] len der
  have "berElem ?inp 0 (length ?inp) 1 (length der) (derPlain t) False" by simp
  from normalizeBER_tree [OF this]
  have r: "normalizeBER ?inp = Inr (der, False, length der, berTailOf ?inp (length der))"
    by (simp add: der)
  have "lastNonZero ?inp (length der) i = None" if "i \<le> length ?inp" for i
    using that by (induction i) (auto simp: nth_append)
  then have "berTailOf ?inp (length der) = \<lparr>tailOffset = 0, tailCount = 0\<rparr>"
    by (simp add: berTailOf_def)
  with r show ?thesis by simp
qed

theorem ber_normalize_idempotent_witness:
  "normalizeBER ([0x30, 5, 4, 3, 1, 2, 3] @ replicate 2 0)
    = Inr ([0x30, 5, 4, 3, 1, 2, 3], False, 7, \<lparr>tailOffset = 0, tailCount = 0\<rparr>)"
proof -
  have "normalizeBER [0x30, 0x80, 0x24, 0x80, 4, 2, 1, 2, 4, 1, 3, 0, 0, 0, 0, 0, 0]
      = Inr ([0x30, 5, 4, 3, 1, 2, 3], True, 15, \<lparr>tailOffset = 0, tailCount = 0\<rparr>)"
    by code_simp
  from ber_normalize_idempotent [OF this, of 2] show ?thesis by simp
qed

text \<open>
  The output buffer has exactly the capacity the recording pass announces: both later
  passes return the checking pass's offset and length, the emitted bytes are that many, and the
  emitting pass has consumed every record.
\<close>

theorem ber_exact_capacity:
  assumes "element (newNormalizer inp) 0 (length inp) 1 = Inr (e, l, n1)"
  shows "\<exists>n2 n3. element (n1\<lparr>passOf := BerRecord\<rparr>) 0 (length inp) 1 = Inr (e, l, n2)
    \<and> element (n2\<lparr>outBytes := [], passOf := BerEmit\<rparr>) 0 (length inp) 1 = Inr (e, l, n3)
    \<and> length (outBytes n3) = l \<and> nextLen n3 = length (lens n3) \<and> nextUnused n3 = length (unused n3)"
proof -
  from berWalk_sound(1) [OF assms] obtain t b where t: "berElem inp 0 (length inp) 1 e t b" by auto
  with pass_closed [OF t, of "newNormalizer inp"] assms
  have l: "l = length (derBytes t)"
    and n1: "n1 = applyPass (newNormalizer inp) (recLens t) (recUnused t) (derBytes t) b"
    by (simp_all add: passReady_def)
  let ?n2 = "applyPass (n1\<lparr>passOf := BerRecord\<rparr>) (recLens t) (recUnused t) (derBytes t) b"
  let ?n2' = "?n2\<lparr>outBytes := [], passOf := BerEmit\<rparr>"
  have "passReady ?n2' (recLens t) (recUnused t)"
    by (simp add: n1 passReady_def applyPass_def newNormalizer_def)
  with pass_closed [OF t, of "n1\<lparr>passOf := BerRecord\<rparr>"] pass_closed [OF t, of ?n2']
  show ?thesis
    by (intro exI [of _ ?n2] exI [of _ "applyPass ?n2' (recLens t) (recUnused t) (derBytes t) b"])
       (simp add: n1 l passReady_def, simp add: applyPass_def newNormalizer_def)
qed

theorem ber_exact_capacity_witness:
  "\<exists>l n1 n2 n3. element (newNormalizer [0x30, 0x80, 4, 0x81, 1, 9, 0, 0]) 0 8 1 = Inr (8, l, n1)
    \<and> element (n1\<lparr>passOf := BerRecord\<rparr>) 0 8 1 = Inr (8, l, n2)
    \<and> element (n2\<lparr>outBytes := [], passOf := BerEmit\<rparr>) 0 8 1 = Inr (8, l, n3)
    \<and> length (outBytes n3) = l \<and> nextLen n3 = length (lens n3) \<and> nextUnused n3 = length (unused n3)"
proof -
  have "\<exists>l n1. element (newNormalizer [0x30, 0x80, 4, 0x81, 1, 9, 0, 0]) 0 8 1 = Inr (8, l, n1)"
    by (rule exI [of _ 5], rule exI) code_simp
  then obtain l n1 where r: "element (newNormalizer [0x30, 0x80, 4, 0x81, 1, 9, 0, 0]) 0 8 1 = Inr (8, l, n1)"
    by blast
  have len: "length [0x30, 0x80, 4, 0x81, 1, 9, 0, 0 :: byte] = 8" by simp
  from ber_exact_capacity [of "[0x30, 0x80, 4, 0x81, 1, 9, 0, 0]", unfolded len, OF r] r
  show ?thesis by blast
qed

text \<open>
  The tail report is right: a count of 0 means only zero bytes follow the element,
  otherwise the reported range starts at the element's end and its last byte is the last non-zero
  byte of the input.
\<close>

theorem ber_tail_spec:
  assumes "normalizeBER inp = Inr (der, b, e, rest)"
  shows "0 < e \<and> e \<le> length inp
    \<and> (tailCount rest = 0 \<longleftrightarrow> (\<forall>i. e \<le> i \<and> i < length inp \<longrightarrow> inp ! i = 0))
    \<and> (tailCount rest \<noteq> 0 \<longrightarrow> tailOffset rest = e \<and> e + tailCount rest \<le> length inp
         \<and> inp ! (e + tailCount rest - 1) \<noteq> 0
         \<and> (\<forall>i. e + tailCount rest \<le> i \<and> i < length inp \<longrightarrow> inp ! i = 0))"
proof -
  have last: "(case lastNonZero xs a n of None \<Rightarrow> \<forall>i. a \<le> i \<and> i < n \<longrightarrow> xs ! i = 0
     | Some j \<Rightarrow> a \<le> j \<and> j < n \<and> xs ! j \<noteq> 0 \<and> (\<forall>i. j < i \<and> i < n \<longrightarrow> xs ! i = 0))"
    for xs a n
    by (induction n) (auto simp: less_Suc_eq split: option.splits)
  from assms obtain t where t: "berElem inp 0 (length inp) 1 e t b" and rest: "rest = berTailOf inp e"
    by (auto simp: normalize_grammar)
  have "element (newNormalizer inp) 0 (length inp) 1
      = Inr (e, length (derBytes t), applyPass (newNormalizer inp) (recLens t) (recUnused t) (derBytes t) b)"
    using pass_closed [OF t, of "newNormalizer inp"] by (simp add: passReady_def)
  from element_bounds [OF this] have "0 < e \<and> e \<le> length inp" .
  with last [where xs = inp and a = e and n = "length inp"] show ?thesis
    by (cases "lastNonZero inp e (length inp)") (auto simp: rest berTailOf_def)
qed

theorem ber_tail_spec_witness:
  "\<exists>rest. normalizeBER [4, 1, 7, 0, 9, 0] = Inr ([4, 1, 7], False, 3, rest)
    \<and> tailCount rest = 2 \<and> tailOffset rest = 3"
proof -
  have n: "normalizeBER [4, 1, 7, 0, 9, 0]
      = Inr ([4, 1, 7], False, 3, \<lparr>tailOffset = 3, tailCount = 2\<rparr>)"
    by code_simp
  from ber_tail_spec [OF n] n show ?thesis by simp
qed

end
