(* ===== verification/Jpeg.thy ===== *)
theory Jpeg
  imports Prelude
begin

text \<open>
  \<^verbatim>\<open>internal/pdfcore/jpegmarkers.go\<close>: the bounded walk over a JPEG marker chain that looks for an
  Adobe APP14 record. Every index the code reads is guarded against \<open>limit\<close>, so \<open>raw ! i\<close> is
  only evaluated in range.
\<close>

section \<open>The walk\<close>

datatype adobeMarker =
    AdobeMarkerNotApplicable
  | AdobeMarkerAbsent
  | AdobeMarkerPresent
  | AdobeMarkerUnparseable
  | AdobeMarkerNotExamined

definition adobeIdentifier :: "byte list" where
  "adobeIdentifier = [0x41, 0x64, 0x6f, 0x62, 0x65]"

definition adobeRecordBytes :: nat where
  "adobeRecordBytes = 12"

definition maxJPEGMarkerSegments :: nat where
  "maxJPEGMarkerSegments = 512"

definition maxJPEGMarkerScanBytes :: nat where
  "maxJPEGMarkerScanBytes = 20 * 1024 * 1024"

text \<open>The padding loop: past every \<open>0xFF\<close> below \<open>limit\<close>.\<close>

function skipFill :: "byte list \<Rightarrow> nat \<Rightarrow> nat \<Rightarrow> nat" where
  "skipFill raw limit i = (if i < limit \<and> raw ! i = 0xFF then skipFill raw limit (i + 1) else i)"
  by pat_completeness auto
termination
  by (relation "measure (\<lambda>(raw, limit, i). limit - i)") auto

declare skipFill.simps [simp del]

definition standaloneMarker :: "byte \<Rightarrow> bool" where
  "standaloneMarker m \<longleftrightarrow> m = 0xD8 \<or> m = 0xD9 \<or> m = 0x01 \<or> (m \<ge> 0xD0 \<and> m \<le> 0xD7)"

definition be16 :: "byte \<Rightarrow> byte \<Rightarrow> nat" where
  "be16 hi lo = unat hi * 256 + unat lo"

text \<open>The \<open>for\<close> loop, with the number of segments it may still visit.\<close>

fun scanSegments :: "byte list \<Rightarrow> nat \<Rightarrow> nat \<Rightarrow> nat \<Rightarrow> adobeMarker \<times> nat" where
  "scanSegments raw limit 0 i = (AdobeMarkerUnparseable, 0)"
| "scanSegments raw limit (Suc left) i =
     (if i \<ge> limit \<or> raw ! i \<noteq> 0xFF then (AdobeMarkerUnparseable, 0)
      else let j = skipFill raw limit i in
        if j \<ge> limit then (AdobeMarkerUnparseable, 0)
        else let marker = raw ! j; k = j + 1 in
          if marker = 0x00 then (AdobeMarkerUnparseable, 0)
          else if standaloneMarker marker then scanSegments raw limit left k
          else if marker = 0xDA then (AdobeMarkerAbsent, 0)
          else if k + 2 > limit then (AdobeMarkerUnparseable, 0)
          else let segLen = be16 (raw ! k) (raw ! (k + 1)) in
            if segLen < 2 then (AdobeMarkerUnparseable, 0)
            else let e = k + segLen in
              if e > limit then (AdobeMarkerUnparseable, 0)
              else let payload = gslice raw (k + 2) e in
                if marker = 0xEE \<and> take (length adobeIdentifier) payload = adobeIdentifier then
                  (if length payload < adobeRecordBytes then (AdobeMarkerUnparseable, 0)
                   else (AdobeMarkerPresent, unat (payload ! (adobeRecordBytes - 1))))
                else scanSegments raw limit left e)"

declare scanSegments.simps(2) [simp del]

lemmas scan_step = scanSegments.simps(2)

definition scanAdobeMarker :: "byte list \<Rightarrow> adobeMarker \<times> nat" where
  "scanAdobeMarker raw =
     (if length raw < 4 \<or> raw ! 0 \<noteq> 0xFF \<or> raw ! 1 \<noteq> 0xD8 then (AdobeMarkerUnparseable, 0)
      else scanSegments raw
             (if length raw > maxJPEGMarkerScanBytes then maxJPEGMarkerScanBytes else length raw)
             maxJPEGMarkerSegments 2)"

section \<open>The chain as a sequence of segments\<close>

text \<open>
  A marker chain as a writer lays it out: fill bytes, a marker and, unless it is standalone, a
  two-byte big-endian length that counts itself, and the payload.
\<close>

datatype jpegSegment =
    Standalone nat byte
  | Sized nat byte "byte list"

fun segmentBytes :: "jpegSegment \<Rightarrow> byte list" where
  "segmentBytes (Standalone fill m) = replicate (Suc fill) 0xFF @ [m]"
| "segmentBytes (Sized fill m payload) =
     replicate (Suc fill) 0xFF @ [m, word_of_nat ((length payload + 2) div 256),
       word_of_nat ((length payload + 2) mod 256)] @ payload"

fun segmentOk :: "jpegSegment \<Rightarrow> bool" where
  "segmentOk (Standalone fill m) \<longleftrightarrow> standaloneMarker m"
| "segmentOk (Sized fill m payload) \<longleftrightarrow>
     m \<noteq> 0 \<and> m \<noteq> 0xFF \<and> m \<noteq> 0xDA \<and> \<not> standaloneMarker m \<and> length payload < 65534"

fun isAdobe :: "jpegSegment \<Rightarrow> bool" where
  "isAdobe (Standalone fill m) \<longleftrightarrow> False"
| "isAdobe (Sized fill m payload) \<longleftrightarrow>
     m = 0xEE \<and> take (length adobeIdentifier) payload = adobeIdentifier"

definition chainBytes :: "jpegSegment list \<Rightarrow> byte list" where
  "chainBytes segs = concat (map segmentBytes segs)"

lemma be16_split:
  "n < 65536 \<Longrightarrow> be16 (word_of_nat (n div 256)) (word_of_nat (n mod 256)) = n"
  by (simp add: be16_def unat_of_nat)

lemma skipFill_run:
  assumes "\<forall>j < n. raw ! (i + j) = 0xFF" "i + n < limit" "raw ! (i + n) \<noteq> 0xFF"
  shows "skipFill raw limit i = i + n"
  using assms
proof (induction n arbitrary: i)
  case 0
  then show ?case by (simp add: skipFill.simps)
next
  case (Suc n)
  have "raw ! i = 0xFF" using Suc.prems(1) by (metis add.right_neutral zero_less_Suc)
  moreover have "\<forall>j < n. raw ! (i + 1 + j) = 0xFF"
    using Suc.prems(1) by (metis Suc_less_eq add.commute add_Suc_right plus_1_eq_Suc)
  then have "skipFill raw limit (i + 1) = i + 1 + n"
    using Suc.prems by (intro Suc.IH) auto
  ultimately show ?case using Suc.prems(2) by (simp add: skipFill.simps [of raw limit i])
qed

text \<open>One written segment, wherever it stands, is read as one step of the walk.\<close>

lemma nth_fill:
  assumes "raw = pre @ replicate (Suc fill) 0xFF @ m # rest"
  shows "raw ! length pre = 0xFF" "\<forall>j < Suc fill. raw ! (length pre + j) = 0xFF"
    "raw ! (length pre + Suc fill) = m"
  using assms by (auto simp: nth_append nth_Cons' simp del: replicate_Suc)

lemma skipFill_fill:
  assumes "raw = pre @ replicate (Suc fill) 0xFF @ m # rest" "m \<noteq> 0xFF" "limit \<le> length raw"
    "length pre + Suc fill < limit"
  shows "skipFill raw limit (length pre) = length pre + Suc fill"
  using assms nth_fill [OF assms(1)] by (intro skipFill_run) auto

lemma scan_standalone:
  assumes "standaloneMarker m" "length pre + length (segmentBytes (Standalone fill m)) \<le> limit"
    "limit \<le> length (pre @ segmentBytes (Standalone fill m) @ rest)"
  shows "scanSegments (pre @ segmentBytes (Standalone fill m) @ rest) limit (Suc left) (length pre)
    = scanSegments (pre @ segmentBytes (Standalone fill m) @ rest) limit left
        (length pre + length (segmentBytes (Standalone fill m)))"
proof -
  let ?raw = "pre @ segmentBytes (Standalone fill m) @ rest"
  have raw: "?raw = pre @ replicate (Suc fill) 0xFF @ m # rest" by simp
  have m: "m \<noteq> 0xFF" "m \<noteq> 0" using assms(1) by (auto simp: standaloneMarker_def)
  have lim: "length pre + Suc fill < limit" using assms(2) by simp
  note n = nth_fill [OF raw] and s = skipFill_fill [OF raw m(1) assms(3) lim]
  show ?thesis
    using n(1,3) s m lim assms(1) by (simp add: scan_step Let_def del: segmentBytes.simps) simp
qed

lemma sized_view:
  fixes payload :: "byte list"
  assumes "raw = pre @ segmentBytes (Sized fill m payload) @ rest" "length payload < 65534"
  defines "k \<equiv> length pre + Suc fill + 1"
  shows "be16 (raw ! k) (raw ! Suc k) = length payload + 2"
    "gslice raw (k + 2) (k + (length payload + 2)) = payload"
proof -
  let ?h = "word_of_nat ((length payload + 2) div 256) :: byte"
  let ?l = "word_of_nat ((length payload + 2) mod 256) :: byte"
  have raw: "raw = (pre @ replicate (Suc fill) 0xFF @ [m]) @ [?h, ?l] @ payload @ rest"
    using assms(1) by simp
  have k: "k = length (pre @ replicate (Suc fill) 0xFF @ [m])" by (simp add: k_def)
  have "raw ! k = ?h" "raw ! Suc k = ?l"
    unfolding raw k by (simp_all add: nth_append del: append_assoc)
  then show "be16 (raw ! k) (raw ! Suc k) = length payload + 2"
    using be16_split [of "length payload + 2"] assms(2) by simp
  let ?A = "pre @ replicate (Suc fill) 0xFF @ [m, ?h, ?l]"
  have raw2: "raw = ?A @ payload @ rest" using assms(1) by simp
  have k2: "k + 2 = length ?A" by (simp add: k_def)
  have "gslice raw (length ?A) (length ?A + length payload) = payload"
    unfolding raw2 by (rule slice_append_mid)
  then show "gslice raw (k + 2) (k + (length payload + 2)) = payload"
    by (simp only: k2 [symmetric]) (simp add: add.commute add.left_commute)
qed

lemma scan_sized:
  assumes ok: "segmentOk (Sized fill m payload)"
    and fits: "length pre + length (segmentBytes (Sized fill m payload)) \<le> limit"
    "limit \<le> length raw"
    and raw: "raw = pre @ segmentBytes (Sized fill m payload) @ rest"
  shows "scanSegments raw limit (Suc left) (length pre) =
    (if isAdobe (Sized fill m payload)
     then (if length payload < adobeRecordBytes then (AdobeMarkerUnparseable, 0)
           else (AdobeMarkerPresent, unat (payload ! (adobeRecordBytes - 1))))
     else scanSegments raw limit left (length pre + length (segmentBytes (Sized fill m payload))))"
proof -
  let ?k = "length pre + Suc fill + 1"
  obtain rest' where raw': "raw = pre @ replicate (Suc fill) 0xFF @ m # rest'" using raw by simp
  have m: "m \<noteq> 0xFF" "m \<noteq> 0" "m \<noteq> 0xDA" "\<not> standaloneMarker m" "length payload < 65534"
    using ok by auto
  have lim: "length pre + Suc fill < limit" "?k + (length payload + 2) \<le> limit"
    using fits(1) by simp_all
  note n = nth_fill [OF raw'] and s = skipFill_fill [OF raw' m(1) fits(2) lim(1)]
  note v = sized_view [OF raw m(5)]
  show ?thesis
    using n(1,3) s m lim v
    by (simp add: scan_step Let_def del: segmentBytes.simps) (simp add: add.assoc)
qed

lemma scan_sos:
  assumes "raw = pre @ replicate (Suc fill) 0xFF @ 0xDA # rest" "limit \<le> length raw"
    "length pre + Suc fill < limit"
  shows "scanSegments raw limit (Suc left) (length pre) = (AdobeMarkerAbsent, 0)"
  using nth_fill [OF assms(1)] skipFill_fill [OF assms(1) _ assms(2,3)] assms(3)
  by (simp add: scan_step Let_def standaloneMarker_def)

text \<open>A run of well-formed segments that are not Adobe records is walked over.\<close>

lemma scan_chain:
  assumes "\<forall>s \<in> set segs. segmentOk s \<and> \<not> isAdobe s"
    "length pre + length (chainBytes segs) \<le> limit" "limit \<le> length raw"
    "raw = pre @ chainBytes segs @ rest"
  shows "scanSegments raw limit (length segs + left) (length pre)
    = scanSegments raw limit left (length pre + length (chainBytes segs))"
  using assms
proof (induction segs arbitrary: pre)
  case Nil
  then show ?case by (simp add: chainBytes_def)
next
  case (Cons s segs)
  let ?pre = "pre @ segmentBytes s" and ?rest = "chainBytes segs @ rest"
  have raw: "raw = pre @ segmentBytes s @ ?rest" and raw2: "raw = ?pre @ chainBytes segs @ rest"
    using Cons.prems(4) by (simp_all add: chainBytes_def)
  have fit: "length pre + length (segmentBytes s) \<le> limit" "length ?pre + length (chainBytes segs) \<le> limit"
    using Cons.prems(2) by (simp_all add: chainBytes_def)
  have "scanSegments raw limit (Suc (length segs + left)) (length pre)
      = scanSegments raw limit (length segs + left) (length ?pre)"
  proof (cases s)
    case (Standalone fill m)
    then show ?thesis
      using scan_standalone [of m pre fill limit ?rest] Cons.prems(1,3) fit raw by simp
  next
    case (Sized fill m payload)
    have ok: "segmentOk (Sized fill m payload)" "\<not> isAdobe (Sized fill m payload)"
      using Cons.prems(1) Sized by (simp_all del: segmentOk.simps isAdobe.simps)
    show ?thesis
      using scan_sized [OF ok(1), of pre limit raw ?rest "length segs + left"] ok(2) Cons.prems(3)
        fit(1) raw unfolding Sized by (simp del: segmentOk.simps isAdobe.simps segmentBytes.simps)
  qed
  also have "\<dots> = scanSegments raw limit left (length ?pre + length (chainBytes segs))"
    using Cons.prems(1,3) fit(2) raw2 by (intro Cons.IH) auto
  finally show ?case by (simp add: chainBytes_def add.assoc)
qed

lemma skipFill_ge: "i \<le> skipFill raw limit i"
proof (induction raw limit i rule: skipFill.induct)
  case (1 raw limit i)
  then show ?case by (cases "i < limit \<and> raw ! i = 0xFF") (auto simp: skipFill.simps [of raw limit i])
qed

section \<open>What an answer says of the bytes\<close>

text \<open>
  The last segment the walk looks at, and its answer: a start-of-scan marker, or an Adobe record
  long enough to hold its transform byte.
\<close>

fun markerAnswer :: "byte list \<Rightarrow> adobeMarker \<times> nat \<Rightarrow> bool" where
  "markerAnswer final (AdobeMarkerAbsent, t) \<longleftrightarrow>
     t = 0 \<and> (\<exists>fill. final = replicate (Suc fill) 0xFF @ [0xDA])"
| "markerAnswer final (AdobeMarkerPresent, t) \<longleftrightarrow>
     (\<exists>fill payload. final = segmentBytes (Sized fill 0xEE payload) \<and> segmentOk (Sized fill 0xEE payload)
        \<and> isAdobe (Sized fill 0xEE payload) \<and> adobeRecordBytes \<le> length payload
        \<and> t = unat (payload ! (adobeRecordBytes - 1)))"
| "markerAnswer final (_, t) \<longleftrightarrow> False"

definition walkedChain :: "byte list \<Rightarrow> jpegSegment list \<Rightarrow> byte list \<Rightarrow> nat \<Rightarrow> nat \<Rightarrow> bool" where
  "walkedChain bs segs final left room \<longleftrightarrow>
     (\<forall>s \<in> set segs. segmentOk s \<and> \<not> isAdobe s) \<and> length segs < left
     \<and> length (chainBytes segs @ final) \<le> room \<and> (\<exists>rest. bs = chainBytes segs @ final @ rest)"

lemma walkedChain_Nil:
  "0 < left \<Longrightarrow> length final \<le> room \<Longrightarrow> bs = final @ rest \<Longrightarrow> walkedChain bs [] final left room"
  by (auto simp: walkedChain_def chainBytes_def)

lemma walkedChain_Cons:
  assumes "segmentOk s" "\<not> isAdobe s" "bs = segmentBytes s @ bs'" "length (segmentBytes s) \<le> room"
    "walkedChain bs' segs final left (room - length (segmentBytes s))"
  shows "walkedChain bs (s # segs) final (Suc left) room"
  using assms by (auto simp: walkedChain_def chainBytes_def)

lemma markerAnswer_Present:
  assumes "isAdobe (Sized fill m payload)" "segmentOk (Sized fill m payload)"
    "\<not> length payload < adobeRecordBytes"
  shows "markerAnswer (segmentBytes (Sized fill m payload))
    (AdobeMarkerPresent, unat (payload ! (adobeRecordBytes - 1)))"
proof -
  have m: "m = 0xEE" using assms(1) by simp
  show ?thesis using assms unfolding m markerAnswer.simps by (intro exI conjI) auto
qed

lemma be16_bytes:
  "word_of_nat (be16 h l div 256) = h" "word_of_nat (be16 h l mod 256) = l" "be16 h l < 65536"
  using unat_byte [of h] unat_byte [of l] by (simp_all add: be16_def)

lemma skipFill_slice:
  "limit \<le> length raw \<Longrightarrow> i \<le> limit \<Longrightarrow>
    gslice raw i (skipFill raw limit i) = replicate (skipFill raw limit i - i) 0xFF
      \<and> skipFill raw limit i \<le> limit"
proof (induction raw limit i rule: skipFill.induct)
  case (1 raw limit i)
  show ?case
  proof (cases "i < limit \<and> raw ! i = 0xFF")
    case True
    with 1 have ih: "gslice raw (i + 1) (skipFill raw limit (i + 1))
        = replicate (skipFill raw limit (i + 1) - (i + 1)) 0xFF" "skipFill raw limit (i + 1) \<le> limit"
      by auto
    have ge: "i + 1 \<le> skipFill raw limit (i + 1)" by (rule skipFill_ge)
    then obtain d where d: "skipFill raw limit (i + 1) = i + 1 + d" using le_Suc_ex by blast
    have "gslice raw i (i + 1 + d) = raw ! i # gslice raw (i + 1) (i + 1 + d)"
      using True 1 by (subst slice_Suc) auto
    with ih True d show ?thesis
      by (simp add: skipFill.simps [of raw limit i] Suc_diff_le replicate_Suc [symmetric]
          del: replicate_Suc)
  next
    case False
    then have eq: "skipFill raw limit i = i" by (subst skipFill.simps) (simp only: if_False)
    with 1 show ?thesis by simp
  qed
qed

lemma drop_slice: "a \<le> b \<Longrightarrow> drop a xs = gslice xs a b @ drop b xs"
  by (simp add: gslice_def) (metis append_take_drop_id drop_drop le_add_diff_inverse2)

lemma skipFill_stop: "skipFill raw limit i < limit \<Longrightarrow> raw ! skipFill raw limit i \<noteq> 0xFF"
proof (induction raw limit i rule: skipFill.induct)
  case (1 raw limit i)
  show ?case
  proof (cases "i < limit \<and> raw ! i = 0xFF")
    case True
    with 1 show ?thesis by (simp add: skipFill.simps [of raw limit i])
  next
    case False
    then have eq: "skipFill raw limit i = i" by (subst skipFill.simps) (simp only: if_False)
    with 1 False show ?thesis by simp
  qed
qed

text \<open>The bytes at the position of a step are those of one segment.\<close>

lemma fill_marker:
  assumes "limit \<le> length raw" "i < limit" "raw ! i = 0xFF" "skipFill raw limit i < limit"
  obtains fill where "skipFill raw limit i = i + Suc fill"
    "drop i raw = replicate (Suc fill) 0xFF @ raw ! skipFill raw limit i # drop (skipFill raw limit i + 1) raw"
proof -
  have "skipFill raw limit i = skipFill raw limit (i + 1)"
    using assms(2,3) by (simp add: skipFill.simps [of raw limit i])
  with skipFill_ge [of "i + 1" raw limit] have "i + 1 \<le> skipFill raw limit i" by simp
  then obtain fill where f: "skipFill raw limit i = i + 1 + fill" using le_Suc_ex by blast
  then have f': "skipFill raw limit i = i + Suc fill" by simp
  have "drop i raw = gslice raw i (i + Suc fill) @ drop (i + Suc fill) raw" by (rule drop_slice) simp
  moreover have "gslice raw i (i + Suc fill) = replicate (Suc fill) 0xFF"
    using skipFill_slice [of limit raw i] assms(1,2) f' by simp
  moreover have "drop (i + Suc fill) raw = raw ! (i + Suc fill) # drop (i + Suc fill + 1) raw"
    using assms(1,4) f' by (simp add: Cons_nth_drop_Suc)
  ultimately show ?thesis using that [OF f'] f' by simp
qed

lemma sized_bytes:
  assumes "drop i raw = replicate (Suc fill) 0xFF @ m # drop k raw" "k + n \<le> length raw"
    "n = be16 (raw ! k) (raw ! (k + 1))" "2 \<le> n"
  shows "drop i raw = segmentBytes (Sized fill m (gslice raw (k + 2) (k + n))) @ drop (k + n) raw"
    "length (gslice raw (k + 2) (k + n)) = n - 2" "n < 65536"
proof -
  show l: "length (gslice raw (k + 2) (k + n)) = n - 2" using assms(2) by simp
  show "n < 65536" using assms(3) be16_bytes(3) by simp
  have "drop k raw = raw ! k # raw ! (k + 1) # drop (k + 2) raw"
    using assms(2,4) by (simp add: Cons_nth_drop_Suc)
  moreover have "drop (k + 2) raw = gslice raw (k + 2) (k + n) @ drop (k + n) raw"
    using assms(4) by (intro drop_slice) simp
  moreover have l2: "length (gslice raw (k + 2) (k + n)) + 2 = n" using l assms(4) by simp
  ultimately show "drop i raw = segmentBytes (Sized fill m (gslice raw (k + 2) (k + n))) @ drop (k + n) raw"
    unfolding segmentBytes.simps l2 assms(1) by (simp add: assms(3) be16_bytes)
qed

lemma scan_decompose:
  assumes "limit \<le> length raw" "i \<le> limit"
    "fst (scanSegments raw limit left i) \<noteq> AdobeMarkerUnparseable"
  shows "\<exists>segs final. walkedChain (drop i raw) segs final left (limit - i)
    \<and> markerAnswer final (scanSegments raw limit left i)"
  using assms
proof (induction left arbitrary: i)
  case (Suc left)
  let ?j = "skipFill raw limit i"
  let ?m = "raw ! ?j" and ?k = "?j + 1"
  let ?n = "be16 (raw ! ?k) (raw ! (?k + 1))"
  let ?e = "?k + ?n"
  let ?p = "gslice raw (?k + 2) ?e"
  have g: "i < limit" "raw ! i = 0xFF" "?j < limit"
    using Suc.prems(3) by (simp_all add: scan_step Let_def split: if_splits)
  obtain fill where f: "?j = i + Suc fill" "drop i raw = replicate (Suc fill) 0xFF @ ?m # drop ?k raw"
    using fill_marker [OF Suc.prems(1) g] by blast
  have ff: "?m \<noteq> 0xFF" by (rule skipFill_stop [OF g(3)])
  have fits: "Suc (Suc fill) \<le> limit - i" using f(1) g(3) by simp
  consider (standalone) "standaloneMarker ?m"
    | (sos) "?m = 0xDA" "\<not> standaloneMarker ?m"
    | (sized) "?m \<noteq> 0" "\<not> standaloneMarker ?m" "?m \<noteq> 0xDA" "\<not> ?k + 2 > limit" "\<not> ?n < 2" "\<not> ?e > limit"
    using Suc.prems(3) g by (auto simp: scan_step Let_def split: if_split_asm)
  then show ?case
  proof cases
    case standalone
    have nz: "?m \<noteq> 0" using Suc.prems(3) g by (auto simp: scan_step Let_def)
    have eq: "scanSegments raw limit (Suc left) i = scanSegments raw limit left ?k"
      using g nz standalone by (simp add: scan_step Let_def)
    obtain segs final where w: "walkedChain (drop ?k raw) segs final left (limit - ?k)"
      "markerAnswer final (scanSegments raw limit left ?k)"
      using Suc.IH [of ?k] Suc.prems(1,3) g(3) eq by auto
    have "walkedChain (drop i raw) (Standalone fill ?m # segs) final (Suc left) (limit - i)"
      using w(1) standalone f fits by (intro walkedChain_Cons [of _ _ "drop ?k raw"]) auto
    with w(2) eq show ?thesis by auto
  next
    case sos
    have "scanSegments raw limit (Suc left) i = (AdobeMarkerAbsent, 0)"
      using g sos by (simp add: scan_step Let_def)
    moreover have "walkedChain (drop i raw) [] (replicate (Suc fill) 0xFF @ [?m]) (Suc left) (limit - i)"
      using f(2) fits by (intro walkedChain_Nil) auto
    ultimately show ?thesis using sos(1) by (intro exI conjI) auto
  next
    case sized
    have fit: "?k + ?n \<le> length raw" "2 \<le> ?n" using sized Suc.prems(1) by auto
    note b = sized_bytes [OF f(2) fit(1) refl fit(2)]
    let ?s = "Sized fill ?m ?p"
    have ok: "segmentOk ?s" using sized ff b(2,3) fit(2) by auto
    have len: "length (segmentBytes ?s) = ?e - i" using b(2) fit(2) f(1) by simp
    have eq: "scanSegments raw limit (Suc left) i =
      (if isAdobe ?s then (if length ?p < adobeRecordBytes then (AdobeMarkerUnparseable, 0)
         else (AdobeMarkerPresent, unat (?p ! (adobeRecordBytes - 1))))
       else scanSegments raw limit left ?e)"
      unfolding scan_step Let_def isAdobe.simps using g sized by (simp only: if_False not_le [symmetric]) simp
    show ?thesis
    proof (cases "isAdobe ?s")
      case True
      with eq Suc.prems(3) have big: "\<not> length ?p < adobeRecordBytes" by auto
      have "walkedChain (drop i raw) [] (segmentBytes ?s) (Suc left) (limit - i)"
        using b(1) len sized f(1) by (intro walkedChain_Nil) auto
      moreover have "markerAnswer (segmentBytes ?s) (scanSegments raw limit (Suc left) i)"
        using eq True big by (simp only: if_True if_False) (rule markerAnswer_Present [OF True ok])
      ultimately show ?thesis by blast
    next
      case False
      with eq have eq': "scanSegments raw limit (Suc left) i = scanSegments raw limit left ?e"
        by (simp only: if_False)
      obtain segs final where w: "walkedChain (drop ?e raw) segs final left (limit - ?e)"
        "markerAnswer final (scanSegments raw limit left ?e)"
        using Suc.IH [of ?e] Suc.prems(1,3) sized eq' by auto
      have "walkedChain (drop i raw) (?s # segs) final (Suc left) (limit - i)"
      proof (rule walkedChain_Cons [OF ok False b(1)])
        have "i \<le> ?e" using f(1) by simp
        then show "length (segmentBytes ?s) \<le> limit - i" unfolding len using sized(6) by linarith
        have "limit - i - (?e - i) = limit - ?e" using \<open>i \<le> ?e\<close> sized(6) by linarith
        then show "walkedChain (drop ?e raw) segs final left (limit - i - length (segmentBytes ?s))"
          unfolding len using w(1) by simp
      qed
      with w(2) eq' show ?thesis by auto
    qed
  qed
qed simp

lemma markerAnswer_elim:
  assumes "markerAnswer final ans"
  obtains (absent) fill where "ans = (AdobeMarkerAbsent, 0)" "final = replicate (Suc fill) 0xFF @ [0xDA]"
  | (present) fill payload where "final = segmentBytes (Sized fill 0xEE payload)"
      "segmentOk (Sized fill 0xEE payload)" "isAdobe (Sized fill 0xEE payload)"
      "adobeRecordBytes \<le> length payload"
      "ans = (AdobeMarkerPresent, unat (payload ! (adobeRecordBytes - 1)))"
proof (cases ans)
  case (Pair k t)
  show thesis
  proof (cases k)
    case AdobeMarkerAbsent
    with assms Pair show thesis by (auto simp del: replicate_Suc intro: absent)
  next
    case AdobeMarkerPresent
    with assms Pair show thesis
      by (auto simp del: segmentBytes.simps segmentOk.simps isAdobe.simps intro: present)
  qed (use assms Pair in simp_all)
qed

lemma scan_final:
  assumes "markerAnswer final ans" "length pre + length final \<le> limit" "limit \<le> length raw"
    "raw = pre @ final @ rest"
  shows "scanSegments raw limit (Suc left) (length pre) = ans"
  using assms(1)
proof (cases rule: markerAnswer_elim)
  case (absent fill)
  with assms(2-4) scan_sos [of raw pre fill rest limit left] show ?thesis by simp
next
  case (present fill payload)
  with scan_sized [OF present(2), of pre limit raw rest left] assms(2-4) show ?thesis
    by (simp del: segmentBytes.simps isAdobe.simps)
qed

lemma scan_walkedChain:
  assumes "walkedChain bs segs final left room" "markerAnswer final ans" "raw = pre @ bs"
    "limit = length pre + room" "limit \<le> length raw"
  shows "scanSegments raw limit left (length pre) = ans"
proof -
  obtain rest where r: "bs = chainBytes segs @ final @ rest" and n: "length segs < left"
    and ok: "\<forall>s \<in> set segs. segmentOk s \<and> \<not> isAdobe s"
    and room: "length (chainBytes segs @ final) \<le> room"
    using assms(1) by (auto simp: walkedChain_def)
  obtain d where d: "left = length segs + Suc d" using less_imp_Suc_add [OF n] by auto
  have "scanSegments raw limit left (length pre)
      = scanSegments raw limit (Suc d) (length pre + length (chainBytes segs))"
    unfolding d
  proof (rule scan_chain [OF ok _ assms(5)])
    show "length pre + length (chainBytes segs) \<le> limit" using room assms(4) by simp
    show "raw = pre @ chainBytes segs @ (final @ rest)" using assms(3) r by simp
  qed
  also have "\<dots> = scanSegments raw limit (Suc d) (length (pre @ chainBytes segs))" by simp
  also have "\<dots> = ans"
  proof (rule scan_final [OF assms(2) _ assms(5)])
    show "length (pre @ chainBytes segs) + length final \<le> limit" using room assms(4) by simp
    show "raw = (pre @ chainBytes segs) @ final @ rest" using assms(3) r by simp
  qed
  finally show ?thesis .
qed

lemma walkedChain_extend:
  "walkedChain bs segs final left room \<Longrightarrow> room \<le> room' \<Longrightarrow> walkedChain (bs @ ys) segs final left room'"
  by (auto simp: walkedChain_def)

lemma markerAnswer_answer: "markerAnswer final ans \<Longrightarrow> fst ans \<noteq> AdobeMarkerUnparseable"
  by (erule markerAnswer_elim) auto

lemma markerAnswer_length: "markerAnswer final ans \<Longrightarrow> 2 \<le> length final"
  by (erule markerAnswer_elim) auto

section \<open>Properties\<close>

lemma scan_answer_iff:
  "(scanAdobeMarker raw = ans \<and> fst ans \<noteq> AdobeMarkerUnparseable) \<longleftrightarrow>
   (\<exists>segs final. raw = [0xFF, 0xD8] @ drop 2 raw
      \<and> walkedChain (drop 2 raw) segs final maxJPEGMarkerSegments
          (min (length raw) maxJPEGMarkerScanBytes - 2)
      \<and> markerAnswer final ans)"
  (is "?L \<longleftrightarrow> ?R")
proof
  let ?limit = "min (length raw) maxJPEGMarkerScanBytes"
  have lim: "(if length raw > maxJPEGMarkerScanBytes then maxJPEGMarkerScanBytes else length raw) = ?limit"
    by (simp add: min_def)
  show ?R if l: ?L
  proof -
    have h: "4 \<le> length raw" "raw ! 0 = 0xFF" "raw ! 1 = 0xD8"
      using l by (auto simp: scanAdobeMarker_def split: if_split_asm)
    then have s: "scanSegments raw ?limit maxJPEGMarkerSegments 2 = ans"
      using l lim by (simp add: scanAdobeMarker_def)
    have "2 \<le> ?limit" using h(1) by (simp add: maxJPEGMarkerScanBytes_def)
    from scan_decompose [OF _ this, of raw maxJPEGMarkerSegments] s l
    obtain segs final where "walkedChain (drop 2 raw) segs final maxJPEGMarkerSegments (?limit - 2)"
      "markerAnswer final ans" by auto
    moreover have "raw = [0xFF, 0xD8] @ drop 2 raw"
      using h by (cases raw; cases "tl raw") (auto simp: numeral_2_eq_2)
    ultimately show ?R by blast
  qed
  show ?L if ?R
  proof -
    from that obtain segs final where r: "raw = [0xFF, 0xD8] @ drop 2 raw"
      and w: "walkedChain (drop 2 raw) segs final maxJPEGMarkerSegments (?limit - 2)"
      and a: "markerAnswer final ans" by blast
    have "2 \<le> length (drop 2 raw)" using w markerAnswer_length [OF a] by (auto simp: walkedChain_def)
    then have len: "4 \<le> length raw" by simp
    have hd: "raw ! 0 = 0xFF" "raw ! 1 = 0xD8" by (subst r, simp)+
    have "scanSegments raw ?limit maxJPEGMarkerSegments (length [0xFF, 0xD8 :: byte]) = ans"
      using w a r len by (intro scan_walkedChain) (auto simp: maxJPEGMarkerScanBytes_def)
    with len hd lim markerAnswer_answer [OF a] show ?L by (simp add: scanAdobeMarker_def numeral_2_eq_2)
  qed
qed

text \<open>
  Claim C3. The scan gives an answer exactly on the byte strings that carry one. It returns
  \<open>Absent\<close> or \<open>Present\<close> with a transform byte if and only if the input is the start-of-image
  marker, a run of fewer than 512 well-formed segments none of which is an Adobe record, and then
  either a start-of-scan marker or an Adobe APP14 record of at least 12 payload bytes whose twelfth
  is the transform, all of it inside the first 20 MiB; whatever follows does not matter.
\<close>

theorem jpeg_answer_iff:
  "(scanAdobeMarker raw = ans \<and> fst ans \<noteq> AdobeMarkerUnparseable) \<longleftrightarrow>
   (\<exists>segs final. raw = [0xFF, 0xD8] @ drop 2 raw
      \<and> walkedChain (drop 2 raw) segs final maxJPEGMarkerSegments
          (min (length raw) maxJPEGMarkerScanBytes - 2)
      \<and> markerAnswer final ans)"
  by (rule scan_answer_iff)

text \<open>
  An answer depends only on the bytes up to it: once the scan has said \<open>Absent\<close> or
  \<open>Present\<close>, any bytes appended to the input (entropy-coded data, trailing garbage, an input that
  outgrows the scan's byte ceiling) leave both the verdict and the transform byte as they are. So
  the verdict on a truncated prefix of a stream, when there is one, is the verdict on the stream.
\<close>

theorem jpeg_prefix_stable:
  assumes "fst (scanAdobeMarker raw) \<noteq> AdobeMarkerUnparseable"
  shows "scanAdobeMarker (raw @ ys) = scanAdobeMarker raw"
proof -
  let ?room = "\<lambda>r. min (length r) maxJPEGMarkerScanBytes - 2" and ?ans = "scanAdobeMarker raw"
  obtain segs final where r: "raw = [0xFF, 0xD8] @ drop 2 raw"
    and w: "walkedChain (drop 2 raw) segs final maxJPEGMarkerSegments (?room raw)"
    and a: "markerAnswer final ?ans"
    using assms scan_answer_iff [of raw ?ans] by blast
  have d: "raw @ ys = [0xFF, 0xD8] @ drop 2 (raw @ ys)" "drop 2 (raw @ ys) = drop 2 raw @ ys"
    by (subst (1 2) r, simp)+
  have "walkedChain (drop 2 (raw @ ys)) segs final maxJPEGMarkerSegments (?room (raw @ ys))"
    unfolding d(2) by (rule walkedChain_extend [OF w]) simp
  with d(1) a scan_answer_iff [of "raw @ ys" ?ans] show ?thesis by blast
qed

lemma jpeg_prefix_stable_witness:
  "scanAdobeMarker ([0xFF, 0xD8, 0xFF, 0xDA] @ [0xFF, 0xEE]) = (AdobeMarkerAbsent, 0)"
proof -
  have a: "scanAdobeMarker [0xFF, 0xD8, 0xFF, 0xDA] = (AdobeMarkerAbsent, 0)"
  proof -
    have n: "(512 :: nat) = Suc 511" and Suc4: "Suc (Suc (Suc (Suc 0))) = 4" by simp_all
    have "scanSegments [0xFF, 0xD8, 0xFF, 0xDA] 4 512 (length [0xFF, 0xD8 :: byte]) = (AdobeMarkerAbsent, 0)"
      unfolding n by (rule scan_sos [where fill = 0 and rest = "[]"]) auto
    then show ?thesis
      by (simp add: scanAdobeMarker_def maxJPEGMarkerScanBytes_def maxJPEGMarkerSegments_def
          numeral_2_eq_2 numeral_3_eq_3 Suc4)
  qed
  with jpeg_prefix_stable [of "[0xFF, 0xD8, 0xFF, 0xDA]" "[0xFF, 0xEE]"] show ?thesis by simp
qed

end
