(* ===== verification/FileWatch.thy ===== *)
theory FileWatch
  imports Prelude
begin

text \<open>
  \<^verbatim>\<open>internal/filewatch/watcher.go\<close>: the settle rule of one tab, the scheduler goroutine with its
  channels and mutex, and the goroutines that call into it. Times and sizes are the code's
  \<open>int64\<close> values, only ever compared for equality; \<open>seq\<close> keeps its width. The two streaks are Go
  \<open>int\<close>s, only compared with 0 and 2.
\<close>

section \<open>Statuses and the settle rule\<close>

record diskStatus =
  dsState :: string
  dsLoadedModTime :: "64 word"
  dsDiskModTime :: "64 word"
  dsDiskSize :: "64 word"

definition DiskStateCurrent :: string where "DiskStateCurrent = ''current''"
definition DiskStateChanged :: string where "DiskStateChanged = ''changed''"
definition DiskStateMissing :: string where "DiskStateMissing = ''missing''"

definition zeroStatus :: diskStatus where
  "zeroStatus = \<lparr>dsState = [], dsLoadedModTime = 0, dsDiskModTime = 0, dsDiskSize = 0\<rparr>"

record watchEvent =
  evTabID :: string
  evSeq :: "64 word"
  evState :: string
  evLoadedModTime :: "64 word"
  evDiskModTime :: "64 word"
  evDiskSize :: "64 word"

record tabState =
  lastReported :: diskStatus
  candidate :: diskStatus
  stateStreak :: nat
  sameStreak :: nat
  resync :: bool
  inFlight :: bool

definition zeroTab :: tabState where
  "zeroTab = \<lparr>lastReported = zeroStatus, candidate = zeroStatus, stateStreak = 0, sameStreak = 0,
     resync = False, inFlight = False\<rparr>"

definition statusEvent :: "diskStatus \<Rightarrow> watchEvent" where
  "statusEvent obs = \<lparr>evTabID = [], evSeq = 0, evState = dsState obs,
     evLoadedModTime = dsLoadedModTime obs, evDiskModTime = dsDiskModTime obs,
     evDiskSize = dsDiskSize obs\<rparr>"

definition settle :: "tabState \<Rightarrow> diskStatus \<Rightarrow> watchEvent option \<times> tabState" where
  "settle ts obs =
     (let ts1 =
        (if stateStreak ts > 0 \<and> dsState obs = dsState (candidate ts) then
           ts\<lparr>stateStreak := stateStreak ts + 1,
              sameStreak := (if obs = candidate ts then sameStreak ts + 1 else 1)\<rparr>
         else ts\<lparr>stateStreak := 1, sameStreak := 1\<rparr>)\<lparr>candidate := obs\<rparr>
      in if stateStreak ts1 < 2 then (None, ts1)
         else let last = lastReported ts1;
                  emit = (resync ts1 \<or> dsState obs \<noteq> dsState last
                    \<or> (dsState obs \<noteq> DiskStateCurrent \<and> sameStreak ts1 \<ge> 2 \<and> obs \<noteq> last))
              in if \<not> emit then (None, ts1)
                 else (Some (statusEvent obs), ts1\<lparr>resync := False, lastReported := obs\<rparr>))"

section \<open>The watcher\<close>

datatype statError = StatDocumentNotFound | StatFailed

type_synonym statAnswer = "statError + diskStatus"

text \<open>
  What the scheduler goroutine is doing: waiting in its \<open>select\<close>, past a receive and about to run
  that case's body, or returned.
\<close>

datatype schedPoint =
    Selecting
  | Woken
  | Ticked
  | Received string statAnswer
  | Returned

text \<open>
  The fields behind the mutex, the channels, the scheduler's locals and the goroutines in flight.
  \<open>wakeSlot\<close> is the one-slot \<open>wake\<close> channel, \<open>signalling\<close> the number of callers past their unlock and
  before their \<open>signal\<close>, \<open>tickArmed\<close> the timer the scheduler last armed, \<open>running\<close> the number of
  \<open>stat\<close> goroutines of each tab, and \<open>emitted\<close> what the emitter was given so far.
\<close>

record watcher =
  focused :: bool
  focusDirty :: bool
  focusGained :: bool
  records :: "string \<Rightarrow> diskStatus option"
  wakeSlot :: bool
  signalling :: nat
  stopClosed :: bool
  started :: bool
  schedAt :: schedPoint
  schedTabs :: "string \<Rightarrow> tabState option"
  schedSeq :: "64 word"
  schedFocused :: bool
  tickArmed :: "nat option"
  running :: "string \<Rightarrow> nat"
  emitted :: "watchEvent list"

definition focusedInterval :: nat where "focusedInterval = 2"
definition unfocusedInterval :: nat where "unfocusedInterval = 10"

definition intervalFor :: "bool \<Rightarrow> nat" where
  "intervalFor foc = (if foc then focusedInterval else unfocusedInterval)"

definition newWatcher :: watcher where
  "newWatcher = \<lparr>focused = True, focusDirty = False, focusGained = False, records = Map.empty,
     wakeSlot = False, signalling = 0, stopClosed = False, started = False, schedAt = Returned,
     schedTabs = Map.empty, schedSeq = 0, schedFocused = True, tickArmed = None,
     running = (\<lambda>_. 0), emitted = []\<rparr>"

text \<open>\<^verbatim>\<open>Start\<close>: the first call launches \<^verbatim>\<open>run\<close>, whose first lines set up its locals.\<close>

definition startWatcher :: "watcher \<Rightarrow> watcher" where
  "startWatcher w =
     (if started w then w
      else w\<lparr>started := True, schedAt := Selecting, schedTabs := Map.empty, schedSeq := 0,
             schedFocused := True, tickArmed := Some (intervalFor True)\<rparr>)"

text \<open>\<^verbatim>\<open>Stop\<close> closes the channel once and then waits for the scheduler to return.\<close>

definition stopWatcher :: "watcher \<Rightarrow> watcher" where
  "stopWatcher w = w\<lparr>stopClosed := True\<rparr>"

definition setFocused :: "bool \<Rightarrow> watcher \<Rightarrow> watcher" where
  "setFocused foc w =
     w\<lparr>focused := foc, focusDirty := True, focusGained := (if foc then True else focusGained w),
       signalling := signalling w + 1\<rparr>"

definition recordReported :: "string \<Rightarrow> diskStatus \<Rightarrow> watcher \<Rightarrow> watcher" where
  "recordReported tab st w =
     w\<lparr>records := (records w)(tab \<mapsto> st), signalling := signalling w + 1\<rparr>"

text \<open>\<^verbatim>\<open>signal\<close>: a send that does nothing when the slot is full.\<close>

definition signalWake :: "watcher \<Rightarrow> watcher" where
  "signalWake w = w\<lparr>signalling := signalling w - 1, wakeSlot := True\<rparr>"

text \<open>
  \<^verbatim>\<open>checkAll\<close> with the tab list its call of \<open>TabIDs\<close> returned. The map is walked in no order, and no
  iteration reads what another wrote.
\<close>

definition reconcileTabs ::
  "string list \<Rightarrow> (string \<Rightarrow> tabState option) \<Rightarrow> string \<Rightarrow> tabState option" where
  "reconcileTabs ids tabs = (\<lambda>t. if t \<in> set ids then
       (case tabs t of None \<Rightarrow> Some (zeroTab\<lparr>lastReported := zeroStatus\<lparr>dsState := DiskStateCurrent\<rparr>\<rparr>)
        | Some ts \<Rightarrow> Some ts)
     else None)"

definition checkAll :: "string list \<Rightarrow> watcher \<Rightarrow> watcher" where
  "checkAll ids w =
     (let tabs = reconcileTabs ids (schedTabs w) in
      w\<lparr>schedTabs := (\<lambda>t. map_option (\<lambda>ts. ts\<lparr>inFlight := True\<rparr>) (tabs t)),
        running := (\<lambda>t. running w t + (case tabs t of None \<Rightarrow> 0 | Some ts \<Rightarrow> if inFlight ts then 0 else 1))\<rparr>)"

definition applyRecord :: "diskStatus \<Rightarrow> tabState option \<Rightarrow> tabState" where
  "applyRecord st old =
     (case old of None \<Rightarrow> zeroTab | Some ts \<Rightarrow> ts)
       \<lparr>lastReported := st, candidate := zeroStatus, stateStreak := 0, sameStreak := 0, resync := True\<rparr>"

definition applyRecords ::
  "(string \<Rightarrow> diskStatus option) \<Rightarrow> (string \<Rightarrow> tabState option) \<Rightarrow> string \<Rightarrow> tabState option" where
  "applyRecords recs tabs = (\<lambda>t. case recs t of None \<Rightarrow> tabs t | Some st \<Rightarrow> Some (applyRecord st (tabs t)))"

definition applyPending :: "string list \<Rightarrow> watcher \<Rightarrow> watcher" where
  "applyPending ids w =
     (let recs = records w; newFocus = focused w; dirty = focusDirty w; gained = focusGained w;
          w1 = w\<lparr>records := Map.empty, focusDirty := False, focusGained := False\<rparr>;
          w2 = w1\<lparr>schedTabs := applyRecords recs (schedTabs w1)\<rparr>;
          w3 = (if dirty \<and> newFocus \<noteq> schedFocused w2
                then w2\<lparr>schedFocused := newFocus, tickArmed := Some (intervalFor newFocus)\<rparr> else w2)
      in if gained then checkAll ids w3 else w3)"

definition handleResult :: "string \<Rightarrow> statAnswer \<Rightarrow> watcher \<Rightarrow> watcher" where
  "handleResult tab r w =
     (case schedTabs w tab of
        None \<Rightarrow> w
      | Some ts0 \<Rightarrow>
          let ts = ts0\<lparr>inFlight := False\<rparr> in
          (case r of
             Inl StatDocumentNotFound \<Rightarrow> w\<lparr>schedTabs := (schedTabs w)(tab := None)\<rparr>
           | Inl StatFailed \<Rightarrow>
               w\<lparr>schedTabs := (schedTabs w)(tab \<mapsto>
                   ts\<lparr>stateStreak := 0, sameStreak := 0, candidate := zeroStatus\<rparr>)\<rparr>
           | Inr st \<Rightarrow>
               (case settle ts st of
                  (None, ts') \<Rightarrow> w\<lparr>schedTabs := (schedTabs w)(tab \<mapsto> ts')\<rparr>
                | (Some ev, ts') \<Rightarrow>
                    w\<lparr>schedTabs := (schedTabs w)(tab \<mapsto> ts'), schedSeq := schedSeq w + 1,
                      emitted := emitted w @ [ev\<lparr>evTabID := tab, evSeq := schedSeq w + 1\<rparr>]\<rparr>)))"

text \<open>
  One step of any goroutine. The scheduler's \<open>select\<close> may take any ready case; a fired timer channel
  stays empty until the next \<open>After\<close>; \<^verbatim>\<open>stat\<close> hands its result over in the \<open>select\<close>, or drops it once
  the scheduler has been told to stop.
\<close>

inductive watchStep :: "watcher \<Rightarrow> watcher \<Rightarrow> bool" where
  ws_start: "watchStep w (startWatcher w)"
| ws_stop: "watchStep w (stopWatcher w)"
| ws_focus: "watchStep w (setFocused foc w)"
| ws_record: "watchStep w (recordReported tab st w)"
| ws_signal: "signalling w > 0 \<Longrightarrow> watchStep w (signalWake w)"
| ws_quit: "schedAt w = Selecting \<Longrightarrow> stopClosed w \<Longrightarrow> watchStep w (w\<lparr>schedAt := Returned\<rparr>)"
| ws_wake: "schedAt w = Selecting \<Longrightarrow> wakeSlot w \<Longrightarrow>
    watchStep w (w\<lparr>wakeSlot := False, schedAt := Woken\<rparr>)"
| ws_tick: "schedAt w = Selecting \<Longrightarrow> tickArmed w \<noteq> None \<Longrightarrow>
    watchStep w (w\<lparr>tickArmed := None, schedAt := Ticked\<rparr>)"
| ws_result: "schedAt w = Selecting \<Longrightarrow> running w tab > 0 \<Longrightarrow>
    watchStep w (w\<lparr>running := (running w)(tab := running w tab - 1), schedAt := Received tab r\<rparr>)"
| ws_drop: "stopClosed w \<Longrightarrow> running w tab > 0 \<Longrightarrow>
    watchStep w (w\<lparr>running := (running w)(tab := running w tab - 1)\<rparr>)"
| ws_woken: "schedAt w = Woken \<Longrightarrow> watchStep w ((applyPending ids w)\<lparr>schedAt := Selecting\<rparr>)"
| ws_ticked: "schedAt w = Ticked \<Longrightarrow> w' = checkAll ids2 (applyPending ids w) \<Longrightarrow>
    watchStep w (w'\<lparr>tickArmed := Some (intervalFor (schedFocused w')), schedAt := Selecting\<rparr>)"
| ws_received: "schedAt w = Received tab r \<Longrightarrow>
    watchStep w ((handleResult tab r (applyPending ids w))\<lparr>schedAt := Selecting\<rparr>)"

inductive watchReach :: "watcher \<Rightarrow> bool" where
  reach_new: "watchReach newWatcher"
| reach_step: "watchReach w \<Longrightarrow> watchStep w w' \<Longrightarrow> watchReach w'"

section \<open>What the settle rule promises\<close>

text \<open>
  The rule as it is meant: the receiver's view, the observation before this one unless something
  came in between, and whether a repeat is owed. Two observations in a row with one state settle it.
\<close>

record settleView =
  svReported :: diskStatus
  svPrevious :: "diskStatus option"
  svOwed :: bool

definition settleSpec :: "settleView \<Rightarrow> diskStatus \<Rightarrow> watchEvent option \<times> settleView" where
  "settleSpec v obs =
     (let news = (case svPrevious v of
          None \<Rightarrow> False
        | Some prev \<Rightarrow> dsState prev = dsState obs \<and>
            (svOwed v \<or> dsState obs \<noteq> dsState (svReported v)
             \<or> (dsState obs \<noteq> DiskStateCurrent \<and> prev = obs \<and> obs \<noteq> svReported v)))
      in (if news then Some (statusEvent obs) else None,
          \<lparr>svReported = (if news then obs else svReported v), svPrevious = Some obs,
           svOwed = (svOwed v \<and> \<not> news)\<rparr>))"

definition viewOf :: "tabState \<Rightarrow> settleView" where
  "viewOf ts = \<lparr>svReported = lastReported ts,
     svPrevious = (if stateStreak ts = 0 then None else Some (candidate ts)), svOwed = resync ts\<rparr>"

definition streaksOk :: "tabState \<Rightarrow> bool" where
  "streaksOk ts \<longleftrightarrow> (0 < stateStreak ts \<longrightarrow> 0 < sameStreak ts)"

lemma settle_streaks: "streaksOk ts \<Longrightarrow> streaksOk (snd (settle ts obs))"
  by (auto simp: settle_def streaksOk_def Let_def)

lemma settle_refines:
  assumes "streaksOk ts"
  shows "fst (settle ts obs) = fst (settleSpec (viewOf ts) obs)"
    "viewOf (snd (settle ts obs)) = snd (settleSpec (viewOf ts) obs)"
proof -
  let ?P = "fst (settle ts obs) = fst (settleSpec (viewOf ts) obs)
    \<and> viewOf (snd (settle ts obs)) = snd (settleSpec (viewOf ts) obs)"
  consider (none) "stateStreak ts = 0"
    | (other) "0 < stateStreak ts" "dsState obs \<noteq> dsState (candidate ts)"
    | (same) "0 < sameStreak ts" "0 < stateStreak ts" "obs = candidate ts"
    | (new) "0 < stateStreak ts" "dsState obs = dsState (candidate ts)" "obs \<noteq> candidate ts"
    using assms by (auto simp: streaksOk_def)
  then have ?P
  proof cases
    case none
    then show ?thesis by (simp add: settle_def settleSpec_def viewOf_def Let_def)
  next
    case other
    then show ?thesis by (simp add: settle_def settleSpec_def viewOf_def Let_def)
  next
    case same
    then show ?thesis by (simp add: settle_def settleSpec_def viewOf_def Let_def)
  next
    case new
    then show ?thesis by (auto simp add: settle_def settleSpec_def viewOf_def Let_def)
  qed
  then show "fst (settle ts obs) = fst (settleSpec (viewOf ts) obs)"
    "viewOf (snd (settle ts obs)) = snd (settleSpec (viewOf ts) obs)" by simp_all
qed

lemma settle_inFlight [simp]: "inFlight (snd (settle ts obs)) = inFlight ts"
  by (auto simp: settle_def Let_def)

lemma settle_observed:
  "candidate (snd (settle ts obs)) = obs" "0 < stateStreak (snd (settle ts obs))"
  "0 < sameStreak (snd (settle ts obs))"
  by (simp_all add: settle_def Let_def)

lemma settle_again:
  assumes "candidate ts = obs" "0 < stateStreak ts" "0 < sameStreak ts"
  shows "dsState (lastReported (snd (settle ts obs))) = dsState obs \<and> \<not> resync (snd (settle ts obs))
    \<and> (dsState obs = DiskStateCurrent \<or> lastReported (snd (settle ts obs)) = obs)"
proof -
  let ?ts' = "snd (settle ts obs)"
  have "streaksOk ts" using assms by (simp add: streaksOk_def)
  note r = settle_refines(2) [OF this, of obs]
  have v: "viewOf ts = \<lparr>svReported = lastReported ts, svPrevious = Some obs, svOwed = resync ts\<rparr>"
    using assms by (simp add: viewOf_def)
  have "dsState (svReported (viewOf ?ts')) = dsState obs \<and> \<not> svOwed (viewOf ?ts')
      \<and> (dsState obs = DiskStateCurrent \<or> svReported (viewOf ?ts') = obs)"
    unfolding r v by (auto simp: settleSpec_def Let_def)
  then show ?thesis by (simp add: viewOf_def)
qed

text \<open>A run of observations of one tab: the statuses told to the receiver, and the state after.\<close>

fun settleRun :: "tabState \<Rightarrow> diskStatus list \<Rightarrow> watchEvent list \<times> tabState" where
  "settleRun ts [] = ([], ts)"
| "settleRun ts (obs # os) =
     (let (ev, ts') = settle ts obs; (evs, ts'') = settleRun ts' os
      in ((case ev of None \<Rightarrow> [] | Some e \<Rightarrow> [e]) @ evs, ts''))"

fun specRun :: "settleView \<Rightarrow> diskStatus list \<Rightarrow> watchEvent list \<times> settleView" where
  "specRun v [] = ([], v)"
| "specRun v (obs # os) =
     (let (ev, v') = settleSpec v obs; (evs, v'') = specRun v' os
      in ((case ev of None \<Rightarrow> [] | Some e \<Rightarrow> [e]) @ evs, v''))"

lemma settleRun_refines:
  "streaksOk ts \<Longrightarrow> fst (settleRun ts os) = fst (specRun (viewOf ts) os)
     \<and> viewOf (snd (settleRun ts os)) = snd (specRun (viewOf ts) os) \<and> streaksOk (snd (settleRun ts os))"
proof (induction os arbitrary: ts)
  case (Cons obs os)
  from Cons.IH [OF settle_streaks [OF Cons.prems, of obs]] settle_refines [OF Cons.prems, of obs]
  show ?case by (simp add: split_beta Let_def)
qed simp

section \<open>Invariants of the scheduler\<close>

definition pendingInput :: "watcher \<Rightarrow> bool" where
  "pendingInput w \<longleftrightarrow> focusDirty w \<or> focusGained w \<or> records w \<noteq> Map.empty"

text \<open>A wakeup is under way: in the channel, about to be sent, or received and not yet acted on.\<close>

definition wakeUnderWay :: "watcher \<Rightarrow> bool" where
  "wakeUnderWay w \<longleftrightarrow> wakeSlot w \<or> 0 < signalling w \<or> schedAt w \<notin> {Selecting, Returned}"

definition statUnderWay :: "watcher \<Rightarrow> string \<Rightarrow> bool" where
  "statUnderWay w tab \<longleftrightarrow> 0 < running w tab \<or> (\<exists>r. schedAt w = Received tab r)"

definition sched_inv :: "watcher \<Rightarrow> bool" where
  "sched_inv w \<longleftrightarrow>
     (pendingInput w \<longrightarrow> wakeUnderWay w) \<and>
     (focusDirty w \<or> focused w = schedFocused w) \<and>
     (schedAt w \<notin> {Returned, Ticked} \<longrightarrow> tickArmed w = Some (intervalFor (schedFocused w)))"

definition tabs_inv :: "watcher \<Rightarrow> bool" where
  "tabs_inv w \<longleftrightarrow> (\<forall>tab ts. schedTabs w tab = Some ts \<longrightarrow>
     streaksOk ts \<and> (inFlight ts \<longrightarrow> stopClosed w \<or> statUnderWay w tab))"

definition seq_inv :: "watcher \<Rightarrow> bool" where
  "seq_inv w \<longleftrightarrow> map evSeq (emitted w) = map word_of_nat [1..<Suc (length (emitted w))]
     \<and> schedSeq w = word_of_nat (length (emitted w))
     \<and> (\<not> started w \<longrightarrow> emitted w = [] \<and> schedAt w = Returned \<and> schedTabs w = Map.empty \<and> schedFocused w)"

text \<open>What the parts of a step leave alone.\<close>

lemma checkAll_frame [simp]:
  "focused (checkAll ids w) = focused w" "focusDirty (checkAll ids w) = focusDirty w"
  "focusGained (checkAll ids w) = focusGained w" "records (checkAll ids w) = records w"
  "wakeSlot (checkAll ids w) = wakeSlot w" "signalling (checkAll ids w) = signalling w"
  "stopClosed (checkAll ids w) = stopClosed w" "started (checkAll ids w) = started w"
  "schedAt (checkAll ids w) = schedAt w" "schedSeq (checkAll ids w) = schedSeq w"
  "schedFocused (checkAll ids w) = schedFocused w" "tickArmed (checkAll ids w) = tickArmed w"
  "emitted (checkAll ids w) = emitted w"
  by (simp_all add: checkAll_def Let_def)

lemma applyPending_frame [simp]:
  "focused (applyPending ids w) = focused w" "\<not> focusDirty (applyPending ids w)"
  "\<not> focusGained (applyPending ids w)" "records (applyPending ids w) = Map.empty"
  "wakeSlot (applyPending ids w) = wakeSlot w" "signalling (applyPending ids w) = signalling w"
  "stopClosed (applyPending ids w) = stopClosed w" "started (applyPending ids w) = started w"
  "schedAt (applyPending ids w) = schedAt w" "schedSeq (applyPending ids w) = schedSeq w"
  "emitted (applyPending ids w) = emitted w"
  "schedFocused (applyPending ids w) = (if focusDirty w then focused w else schedFocused w)"
  "tickArmed (applyPending ids w) = (if focusDirty w \<and> focused w \<noteq> schedFocused w
     then Some (intervalFor (focused w)) else tickArmed w)"
  by (simp_all add: applyPending_def Let_def)

lemma handleResult_frame [simp]:
  "focused (handleResult tab r w) = focused w" "focusDirty (handleResult tab r w) = focusDirty w"
  "focusGained (handleResult tab r w) = focusGained w" "records (handleResult tab r w) = records w"
  "wakeSlot (handleResult tab r w) = wakeSlot w" "signalling (handleResult tab r w) = signalling w"
  "stopClosed (handleResult tab r w) = stopClosed w" "started (handleResult tab r w) = started w"
  "schedAt (handleResult tab r w) = schedAt w" "schedFocused (handleResult tab r w) = schedFocused w"
  "tickArmed (handleResult tab r w) = tickArmed w" "running (handleResult tab r w) = running w"
  by (simp_all add: handleResult_def Let_def split: option.split sum.split statError.split prod.split)

lemmas op_defs = startWatcher_def stopWatcher_def setFocused_def recordReported_def signalWake_def
lemmas inv_defs = sched_inv_def pendingInput_def wakeUnderWay_def

lemma sched_inv_step: "watchStep w w' \<Longrightarrow> sched_inv w \<Longrightarrow> seq_inv w \<Longrightarrow> sched_inv w'"
proof (induction rule: watchStep.induct)
  case (ws_start w)
  then show ?case by (auto simp: inv_defs seq_inv_def op_defs)
next
  case (ws_signal w)
  then show ?case by (auto simp: inv_defs op_defs)
qed (auto simp: inv_defs op_defs)

lemma seq_inv_step: "watchStep w w' \<Longrightarrow> seq_inv w \<Longrightarrow> seq_inv w'"
proof (induction rule: watchStep.induct)
  case (ws_received w tab r ids)
  let ?w = "applyPending ids w"
  have s: "started w" using ws_received by (auto simp: seq_inv_def)
  show ?case
  proof (cases "schedTabs ?w tab")
    case None
    with ws_received s show ?thesis by (simp add: handleResult_def seq_inv_def)
  next
    case (Some ts)
    with ws_received s show ?thesis
      by (auto simp: handleResult_def seq_inv_def Let_def add.commute
          split: sum.split statError.split prod.split option.split)
  qed
qed (auto simp: seq_inv_def op_defs)

lemma streaksOk_inFlight [simp]: "streaksOk (ts\<lparr>inFlight := b\<rparr>) = streaksOk ts"
  by (simp add: streaksOk_def)

lemma streaksOk_zero [simp]: "streaksOk zeroTab"
  "streaksOk (ts\<lparr>stateStreak := 0, sameStreak := 0, candidate := st\<rparr>)" "streaksOk (applyRecord st old)"
  "streaksOk (zeroTab\<lparr>lastReported := st\<rparr>)"
  by (simp_all add: streaksOk_def zeroTab_def applyRecord_def)

lemma tabs_inv_checkAll:
  assumes "tabs_inv w"
  shows "tabs_inv (checkAll ids w)"
  unfolding tabs_inv_def
proof (intro allI impI)
  fix tab ts assume "schedTabs (checkAll ids w) tab = Some ts"
  then obtain ts0 where ts0: "reconcileTabs ids (schedTabs w) tab = Some ts0" "ts = ts0\<lparr>inFlight := True\<rparr>"
    by (auto simp: checkAll_def Let_def)
  show "streaksOk ts \<and> (inFlight ts \<longrightarrow> stopClosed (checkAll ids w) \<or> statUnderWay (checkAll ids w) tab)"
  proof (cases "schedTabs w tab")
    case None
    with ts0 show ?thesis
      by (auto simp: reconcileTabs_def statUnderWay_def checkAll_def Let_def zeroTab_def streaksOk_def
          split: if_split_asm)
  next
    case (Some ts1)
    with ts0 have "ts0 = ts1" by (auto simp: reconcileTabs_def split: if_split_asm)
    with assms Some ts0 show ?thesis
      by (auto simp: tabs_inv_def statUnderWay_def checkAll_def Let_def)
  qed
qed

lemma applyRecord_inFlight:
  "inFlight (applyRecord st old) \<longleftrightarrow> (\<exists>ts. old = Some ts \<and> inFlight ts)"
  by (auto simp: applyRecord_def zeroTab_def split: option.split)

lemma tabs_inv_applyPending:
  assumes "tabs_inv w"
  shows "tabs_inv (applyPending ids w)"
proof -
  let ?tabs = "applyRecords (records w) (schedTabs w)"
  have t: "tabs_inv w'" if "schedTabs w' = ?tabs" "stopClosed w' = stopClosed w" "running w' = running w"
    "schedAt w' = schedAt w" for w'
  proof -
    have u: "statUnderWay w' t = statUnderWay w t" for t by (simp add: statUnderWay_def that)
    show ?thesis
      using assms unfolding tabs_inv_def u that(1,2)
      by (auto simp: applyRecords_def applyRecord_inFlight split: option.split_asm) blast+
  qed
  show ?thesis
    unfolding applyPending_def Let_def by (auto intro!: tabs_inv_checkAll t)
qed

lemma tabs_inv_handleResult:
  assumes "tabs_inv w" "schedAt w = Received tab r"
  shows "tabs_inv ((handleResult tab r w)\<lparr>schedAt := Selecting\<rparr>)"
  unfolding tabs_inv_def
proof (intro allI impI)
  let ?w = "(handleResult tab r w)\<lparr>schedAt := Selecting\<rparr>"
  fix t ts assume "schedTabs ?w t = Some ts"
  then have ts: "schedTabs (handleResult tab r w) t = Some ts" by simp
  show "streaksOk ts \<and> (inFlight ts \<longrightarrow> stopClosed ?w \<or> statUnderWay ?w t)"
  proof (cases "t = tab")
    case False
    then have "schedTabs w t = Some ts"
      using ts by (auto simp: handleResult_def Let_def split: option.split_asm sum.split_asm statError.split_asm prod.split_asm)
    moreover have "statUnderWay ?w t = statUnderWay w t"
      using assms(2) False by (simp add: statUnderWay_def)
    ultimately show ?thesis using assms(1) by (simp add: tabs_inv_def)
  next
    case True
    show ?thesis
    proof (cases "schedTabs w tab")
      case None
      with ts True show ?thesis by (simp add: handleResult_def)
    next
      case (Some ts0)
      then have ok: "streaksOk (ts0\<lparr>inFlight := False\<rparr>)" using assms(1) by (auto simp: tabs_inv_def)
      from ts True Some have "streaksOk ts \<and> \<not> inFlight ts"
        using settle_streaks [OF ok] settle_inFlight [of "ts0\<lparr>inFlight := False\<rparr>"]
        by (auto simp: handleResult_def Let_def split_beta
            split: option.split_asm sum.split_asm statError.split_asm)
      then show ?thesis by simp
    qed
  qed
qed

lemma tabs_inv_frame:
  assumes "tabs_inv w" "schedTabs w' = schedTabs w" "stopClosed w \<longrightarrow> stopClosed w'"
    "\<And>t. statUnderWay w t \<Longrightarrow> stopClosed w' \<or> statUnderWay w' t"
  shows "tabs_inv w'"
  using assms unfolding tabs_inv_def by auto

lemma tabs_inv_step: "watchStep w w' \<Longrightarrow> tabs_inv w \<Longrightarrow> seq_inv w \<Longrightarrow> tabs_inv w'"
proof (induction rule: watchStep.induct)
  case (ws_start w)
  then show ?case by (auto simp: tabs_inv_def seq_inv_def op_defs)
next
  case (ws_received w tab r ids)
  then show ?case by (intro tabs_inv_handleResult tabs_inv_applyPending) simp_all
next
  case (ws_ticked w w1 ids2 ids)
  then have "tabs_inv w1" by (simp add: tabs_inv_checkAll tabs_inv_applyPending)
  with ws_ticked show ?case by (elim tabs_inv_frame) (auto simp: statUnderWay_def)
next
  case (ws_woken w ids)
  from tabs_inv_applyPending [OF ws_woken(2), of ids] ws_woken(1) show ?case
    by (elim tabs_inv_frame) (auto simp: statUnderWay_def)
qed (elim tabs_inv_frame; auto simp: op_defs statUnderWay_def)+

lemma reach_invs: "watchReach w \<Longrightarrow> sched_inv w \<and> tabs_inv w \<and> seq_inv w"
proof (induction rule: watchReach.induct)
  case reach_new
  show ?case by (simp add: inv_defs tabs_inv_def seq_inv_def newWatcher_def)
next
  case (reach_step w w')
  then show ?case by (blast intro: sched_inv_step tabs_inv_step seq_inv_step)
qed

section \<open>Properties\<close>

text \<open>
  Claim C4. No input is lost and no tab gets stuck. In every reachable state of the watcher and its
  goroutines: a focus change or a recorded status that the scheduler has not taken has a wakeup
  under way; the last focus call is the mode the scheduler runs in or is still to be taken; the poll
  timer is armed with that mode's interval whenever the scheduler waits; and a tab marked in flight
  has a stat goroutine that will answer, unless the watcher was stopped.
\<close>

theorem watch_no_lost_input:
  assumes "watchReach w"
  shows "(pendingInput w \<longrightarrow> wakeUnderWay w)
    \<and> (focusDirty w \<or> schedFocused w = focused w)
    \<and> (schedAt w = Selecting \<longrightarrow> tickArmed w = Some (intervalFor (schedFocused w)))
    \<and> (\<forall>tab ts. schedTabs w tab = Some ts \<and> inFlight ts \<longrightarrow> stopClosed w \<or> statUnderWay w tab)"
  using reach_invs [OF assms] by (auto simp: sched_inv_def tabs_inv_def)

lemma reach_focus_lost: "watchReach (setFocused False (startWatcher newWatcher))"
  by (rule reach_step [OF reach_step [OF reach_new ws_start] ws_focus])

lemma watch_no_lost_input_witness:
  "wakeUnderWay (setFocused False (startWatcher newWatcher))
   \<and> tickArmed (setFocused False (startWatcher newWatcher)) = Some 2"
  using watch_no_lost_input [OF reach_focus_lost]
  by (simp add: pendingInput_def setFocused_def startWatcher_def newWatcher_def intervalFor_def
      focusedInterval_def)

text \<open>
  The \<open>Seq\<close> numbers of the events a watcher has emitted are 1, 2, 3, ... in the order of
  emission (as 64-bit integers), over all tabs, so a receiver can order the events by them.
\<close>

theorem watch_seq_numbers:
  assumes "watchReach w"
  shows "map evSeq (emitted w) = map word_of_nat [1..<Suc (length (emitted w))]"
  using reach_invs [OF assms] by (simp add: seq_inv_def)

text \<open>One poll of one tab: the timer fires, a stat is started and its answer handled.\<close>

definition pollStart :: "string list \<Rightarrow> watcher \<Rightarrow> watcher" where
  "pollStart ids w = (let w' = checkAll ids (applyPending ids (w\<lparr>tickArmed := None, schedAt := Ticked\<rparr>)) in
     w'\<lparr>tickArmed := Some (intervalFor (schedFocused w')), schedAt := Selecting\<rparr>)"

definition pollAnswer :: "string \<Rightarrow> statAnswer \<Rightarrow> watcher \<Rightarrow> watcher" where
  "pollAnswer tab r w = (handleResult tab r (applyPending []
     (w\<lparr>running := (running w)(tab := running w tab - 1), schedAt := Received tab r\<rparr>)))\<lparr>schedAt := Selecting\<rparr>"

lemma reach_poll:
  assumes "watchReach w" "schedAt w = Selecting" "tickArmed w \<noteq> None" "running (pollStart ids w) tab > 0"
  shows "watchReach (pollAnswer tab r (pollStart ids w))"
proof -
  let ?arm = "w\<lparr>tickArmed := None, schedAt := Ticked\<rparr>"
  have "watchReach ?arm" by (rule reach_step [OF assms(1) ws_tick [OF assms(2,3)]])
  then have "watchReach (pollStart ids w)"
    unfolding pollStart_def Let_def by (rule reach_step) (rule ws_ticked; simp)
  then have "watchReach ((pollStart ids w)\<lparr>running := (running (pollStart ids w))
      (tab := running (pollStart ids w) tab - 1), schedAt := Received tab r\<rparr>)"
    by (rule reach_step) (rule ws_result; use assms(4) in \<open>simp add: pollStart_def Let_def\<close>)
  then show ?thesis unfolding pollAnswer_def by (rule reach_step) (rule ws_received; simp)
qed

definition polledTab :: "string \<Rightarrow> watcher \<Rightarrow> tabState" where
  "polledTab tab w = (case schedTabs w tab of
       None \<Rightarrow> zeroTab\<lparr>lastReported := zeroStatus\<lparr>dsState := DiskStateCurrent\<rparr>\<rparr>
     | Some ts \<Rightarrow> ts\<lparr>inFlight := False\<rparr>)"

lemma poll_settles:
  assumes "\<not> pendingInput w"
  shows "schedTabs (pollAnswer tab (Inr st) (pollStart [tab] w)) tab = Some (snd (settle (polledTab tab w) st))"
    "emitted (pollAnswer tab (Inr st) (pollStart [tab] w)) = emitted w @ (case fst (settle (polledTab tab w) st) of
       None \<Rightarrow> [] | Some ev \<Rightarrow> [ev\<lparr>evTabID := tab, evSeq := schedSeq w + 1\<rparr>])"
    "\<not> pendingInput (pollAnswer tab (Inr st) (pollStart [tab] w))"
    "schedAt (pollAnswer tab (Inr st) (pollStart [tab] w)) = Selecting"
    "tickArmed (pollAnswer tab (Inr st) (pollStart [tab] w)) \<noteq> None"
proof -
  let ?w1 = "pollStart [tab] w"
  have q: "\<not> focusDirty w" "\<not> focusGained w" "records w = Map.empty"
    using assms by (auto simp: pendingInput_def)
  have n: "applyPending ids v = v\<lparr>records := Map.empty, focusDirty := False, focusGained := False\<rparr>"
    if "\<not> focusDirty v" "\<not> focusGained v" "records v = Map.empty" for ids v
    using that by (simp add: applyPending_def applyRecords_def)
  have w1: "schedTabs ?w1 tab = Some ((polledTab tab w)\<lparr>inFlight := True\<rparr>)" "emitted ?w1 = emitted w"
    "schedSeq ?w1 = schedSeq w" "\<not> focusDirty ?w1" "\<not> focusGained ?w1" "records ?w1 = Map.empty"
    using q by (auto simp: pollStart_def Let_def n checkAll_def reconcileTabs_def polledTab_def
        split: option.split)
  have off: "(polledTab tab w)\<lparr>inFlight := False\<rparr> = polledTab tab w"
    by (simp add: polledTab_def zeroTab_def split: option.split)
  obtain ev ts' where s: "settle (polledTab tab w) st = (ev, ts')" by (cases "settle (polledTab tab w) st")
  show "schedTabs (pollAnswer tab (Inr st) (pollStart [tab] w)) tab = Some (snd (settle (polledTab tab w) st))"
    "emitted (pollAnswer tab (Inr st) (pollStart [tab] w)) = emitted w @ (case fst (settle (polledTab tab w) st) of
       None \<Rightarrow> [] | Some ev \<Rightarrow> [ev\<lparr>evTabID := tab, evSeq := schedSeq w + 1\<rparr>])"
    using w1 s by (cases ev; simp add: pollAnswer_def n handleResult_def off)+
  show "\<not> pendingInput (pollAnswer tab (Inr st) (pollStart [tab] w))"
    "schedAt (pollAnswer tab (Inr st) (pollStart [tab] w)) = Selecting"
    "tickArmed (pollAnswer tab (Inr st) (pollStart [tab] w)) \<noteq> None"
    using w1 by (simp_all add: pollAnswer_def pendingInput_def) (simp add: pollStart_def Let_def)
qed

lemma poll_running:
  assumes "\<not> pendingInput w" "case schedTabs w tab of None \<Rightarrow> True | Some ts \<Rightarrow> \<not> inFlight ts"
  shows "running (pollStart [tab] w) tab > 0"
  using assms by (auto simp: pollStart_def Let_def checkAll_def applyPending_def applyRecords_def
      pendingInput_def reconcileTabs_def zeroTab_def split: option.split_asm)

text \<open>Two polls of one tab that find its file missing.\<close>

definition missingStatus :: diskStatus where
  "missingStatus = zeroStatus\<lparr>dsState := DiskStateMissing\<rparr>"

definition missingOnce :: watcher where
  "missingOnce = pollAnswer ''t'' (Inr missingStatus) (pollStart [''t''] (startWatcher newWatcher))"

definition missingTwice :: watcher where
  "missingTwice = pollAnswer ''t'' (Inr missingStatus) (pollStart [''t''] missingOnce)"

lemma reach_missingTwice: "watchReach missingTwice" "map evState (emitted missingTwice) = [DiskStateMissing]"
proof -
  let ?w0 = "startWatcher newWatcher"
  let ?fresh = "zeroTab\<lparr>lastReported := zeroStatus\<lparr>dsState := DiskStateCurrent\<rparr>\<rparr>"
  have q0: "\<not> pendingInput ?w0" and t0: "schedTabs ?w0 = Map.empty" and e0: "emitted ?w0 = []"
    by (simp_all add: pendingInput_def startWatcher_def newWatcher_def)
  note p1 = poll_settles [OF q0, of "''t''" missingStatus, folded missingOnce_def]
  have "watchReach ?w0" by (rule reach_step [OF reach_new ws_start])
  then have "watchReach missingOnce"
    unfolding missingOnce_def
    by (rule reach_poll) (use poll_running [OF q0] t0 in \<open>simp_all add: startWatcher_def newWatcher_def\<close>)
  then show "watchReach missingTwice"
    unfolding missingTwice_def
    by (rule reach_poll) (use p1 poll_running [OF p1(3), of "''t''"] in \<open>simp_all add: polledTab_def t0 zeroTab_def\<close>)
  have s1: "settle ?fresh missingStatus = (None, ?fresh\<lparr>stateStreak := 1, sameStreak := 1, candidate := missingStatus\<rparr>)"
    by (simp add: settle_def zeroTab_def)
  show "map evState (emitted missingTwice) = [DiskStateMissing]"
    using p1 poll_settles(2) [OF p1(3), of "''t''" missingStatus, folded missingTwice_def]
    by (simp add: polledTab_def t0 e0 s1)
      (simp add: settle_def zeroTab_def missingStatus_def zeroStatus_def statusEvent_def
        DiskStateMissing_def DiskStateCurrent_def)
qed

lemma watch_seq_numbers_witness:
  "map evState (emitted missingTwice) = [DiskStateMissing] \<and> map evSeq (emitted missingTwice) = [1]"
proof -
  have "length (map evState (emitted missingTwice)) = 1" unfolding reach_missingTwice(2) by simp
  then have "length (emitted missingTwice) = 1" by simp
  with watch_seq_numbers [OF reach_missingTwice(1)] reach_missingTwice(2) show ?thesis by simp
qed

text \<open>
  The streak counters implement the settle rule: over any run of observations of one tab,
  \<open>settle\<close> emits exactly the events of the abstract rule, which looks only at the receiver's view,
  the observation before this one and whether a repeat is owed: two observations in a row with one
  state settle it; a settled state is reported when it differs from the view or a repeat is owed;
  within a state that is not current, times are reported when both observations have them and the
  view does not.
\<close>

theorem settle_implements_rule:
  assumes "streaksOk ts"
  shows "fst (settleRun ts os) = fst (specRun (viewOf ts) os)
    \<and> viewOf (snd (settleRun ts os)) = snd (specRun (viewOf ts) os)"
  using settleRun_refines [OF assms] by blast

lemma settle_implements_rule_witness:
  "map evState (fst (specRun (viewOf zeroTab)
     [zeroStatus\<lparr>dsState := ''missing''\<rparr>, zeroStatus\<lparr>dsState := ''missing''\<rparr>])) = [''missing'']"
proof -
  have "streaksOk zeroTab" by simp
  note rule = conjunct1 [OF settle_implements_rule [OF this]]
  show ?thesis
    unfolding rule [symmetric] by (simp add: settle_def zeroTab_def zeroStatus_def statusEvent_def Let_def)
qed

text \<open>
  What reaches the receiver of one tab: the event it last heard, after the events of one more run.
\<close>

definition lastHeard :: "watchEvent \<Rightarrow> watchEvent list \<Rightarrow> watchEvent" where
  "lastHeard prior evs = (if evs = [] then prior else last evs)"

lemma settle_cases:
  obtains (quiet) ts' where "settle ts obs = (None, ts')" "lastReported ts' = lastReported ts"
      "resync ts' = resync ts"
  | (told) ts' where "settle ts obs = (Some (statusEvent obs), ts')" "lastReported ts' = obs" "\<not> resync ts'"
proof -
  let ?t = "(if stateStreak ts > 0 \<and> dsState obs = dsState (candidate ts) then
           ts\<lparr>stateStreak := stateStreak ts + 1,
              sameStreak := (if obs = candidate ts then sameStreak ts + 1 else 1)\<rparr>
         else ts\<lparr>stateStreak := 1, sameStreak := 1\<rparr>)\<lparr>candidate := obs\<rparr>"
  have t: "lastReported ?t = lastReported ts" "resync ?t = resync ts" by simp_all
  have "settle ts obs = (None, ?t)
      \<or> settle ts obs = (Some (statusEvent obs), ?t\<lparr>resync := False, lastReported := obs\<rparr>)"
    unfolding settle_def Let_def by presburger
  then show thesis
  proof
    assume "settle ts obs = (None, ?t)"
    then show thesis using t by (rule quiet)
  next
    assume "settle ts obs = (Some (statusEvent obs), ?t\<lparr>resync := False, lastReported := obs\<rparr>)"
    then show thesis by (rule told) simp_all
  qed
qed

lemma settle_quiet_after_telling:
  "lastReported ts = obs \<Longrightarrow> \<not> resync ts \<Longrightarrow> fst (settle ts obs) = None"
  by (simp add: settle_def Let_def)

text \<open>
  Claim C5. The receiver converges. Take any state of a tab in which the last event the receiver
  heard carries the status noted as reported, or a repeat is owed to it, and feed it two identical
  observations in a row. Then the last event heard carries the observed state, and the observed times
  and size unless the file is current; it is the status noted as reported; no repeat is owed any more,
  and one that was owed has been emitted. At most one event goes out, and it is the observation.
\<close>

theorem settle_converges:
  assumes "resync ts \<or> prior = statusEvent (lastReported ts)"
  shows "let (evs, ts') = settleRun ts [obs, obs]; heard = lastHeard prior evs in
     evState heard = dsState obs
     \<and> (dsState obs = DiskStateCurrent \<or> (evLoadedModTime heard = dsLoadedModTime obs
          \<and> evDiskModTime heard = dsDiskModTime obs \<and> evDiskSize heard = dsDiskSize obs))
     \<and> heard = statusEvent (lastReported ts') \<and> \<not> resync ts' \<and> (resync ts \<longrightarrow> evs \<noteq> [])
     \<and> length evs \<le> 1 \<and> set evs \<subseteq> {statusEvent obs}"
proof -
  obtain e1 t1 where s1: "settle ts obs = (e1, t1)" by (cases "settle ts obs")
  obtain e2 t2 where s2: "settle t1 obs = (e2, t2)" by (cases "settle t1 obs")
  have run: "settleRun ts [obs, obs] = ((case e1 of None \<Rightarrow> [] | Some e \<Rightarrow> [e])
      @ (case e2 of None \<Rightarrow> [] | Some e \<Rightarrow> [e]), t2)"
    by (simp add: s1 s2)
  have c: "dsState (lastReported t2) = dsState obs" "\<not> resync t2"
    "dsState obs = DiskStateCurrent \<or> lastReported t2 = obs"
    using settle_again [OF settle_observed [of ts obs]] s1 s2 by simp_all
  have e: "evState (statusEvent u) = dsState u" "evLoadedModTime (statusEvent u) = dsLoadedModTime u"
    "evDiskModTime (statusEvent u) = dsDiskModTime u" "evDiskSize (statusEvent u) = dsDiskSize u" for u
    by (simp_all add: statusEvent_def)
  show ?thesis
  proof (cases rule: settle_cases [of ts obs])
    case (told u)
    then have u: "e1 = Some (statusEvent obs)" "lastReported t1 = obs" "\<not> resync t1" using s1 by auto
    then have q: "e2 = None" using settle_quiet_after_telling [of t1 obs] s2 by simp
    then have "lastReported t2 = obs" using settle_cases [of t1 obs] s2 u by (metis Pair_inject option.distinct(1))
    then show ?thesis unfolding run Let_def using u(1) q c by (simp add: e lastHeard_def)
  next
    case (quiet u)
    then have u: "e1 = None" "lastReported t1 = lastReported ts" "resync t1 = resync ts" using s1 by auto
    show ?thesis
    proof (cases rule: settle_cases [of t1 obs])
      case (told v)
      then have "e2 = Some (statusEvent obs)" "lastReported t2 = obs" using s2 by auto
      then show ?thesis unfolding run Let_def using u(1) c by (simp add: e lastHeard_def)
    next
      case (quiet v)
      then have v: "e2 = None" "lastReported t2 = lastReported ts" "resync t2 = resync ts" using s2 u by auto
      then have "prior = statusEvent (lastReported t2)" "\<not> resync ts" using assms c(2) by auto
      then show ?thesis unfolding run Let_def using u(1) v(1) c by (auto simp: e lastHeard_def)
    qed
  qed
qed

lemma settle_converges_witness:
  "lastHeard (statusEvent zeroStatus) (fst (settleRun zeroTab
      [zeroStatus\<lparr>dsState := ''missing''\<rparr>, zeroStatus\<lparr>dsState := ''missing''\<rparr>]))
    = statusEvent (zeroStatus\<lparr>dsState := ''missing''\<rparr>)"
proof -
  let ?o = "zeroStatus\<lparr>dsState := ''missing''\<rparr>"
  have p: "resync zeroTab \<or> statusEvent zeroStatus = statusEvent (lastReported zeroTab)"
    by (simp add: zeroTab_def)
  obtain evs ts where r: "settleRun zeroTab [?o, ?o] = (evs, ts)"
    by (cases "settleRun zeroTab [?o, ?o]")
  note h = settle_converges [OF p, of ?o, unfolded r Let_def prod.case]
  have ne: "evs \<noteq> []"
  proof
    assume "evs = []"
    with h have "evState (lastHeard (statusEvent zeroStatus) []) = dsState ?o" by blast
    then show False by (simp add: lastHeard_def statusEvent_def zeroStatus_def)
  qed
  moreover have "set evs \<subseteq> {statusEvent ?o}" using h by blast
  ultimately have "last evs = statusEvent ?o" using last_in_set by blast
  then show ?thesis unfolding r using ne by (simp add: lastHeard_def)
qed

text \<open>
  A file that is being rewritten: every observation says it changed, no two in a row agree, and the
  receiver was told something other than \<open>changed\<close>.
\<close>

fun rewriting :: "diskStatus list \<Rightarrow> bool" where
  "rewriting (o1 # o2 # os) \<longleftrightarrow> dsState o1 = DiskStateChanged \<and> o1 \<noteq> o2 \<and> rewriting (o2 # os)"
| "rewriting [o1] \<longleftrightarrow> dsState o1 = DiskStateChanged"
| "rewriting [] \<longleftrightarrow> True"

lemma spec_rewriting_quiet:
  "rewriting (prev # os) \<Longrightarrow> dsState (svReported v) = DiskStateChanged \<Longrightarrow> \<not> svOwed v
    \<Longrightarrow> svPrevious v = Some prev \<Longrightarrow>
    specRun v os = ([], \<lparr>svReported = svReported v, svPrevious = Some (last (prev # os)), svOwed = False\<rparr>)"
proof (induction os arbitrary: v prev)
  case Nil
  then show ?case by (cases v) simp
next
  case (Cons x os)
  have s: "settleSpec v x = (None, \<lparr>svReported = svReported v, svPrevious = Some x, svOwed = False\<rparr>)"
    using Cons.prems by (cases os) (auto simp: settleSpec_def Let_def)
  have "rewriting (x # os)" using Cons.prems(1) by simp
  from Cons.IH [OF this, of "\<lparr>svReported = svReported v, svPrevious = Some x, svOwed = False\<rparr>"]
  show ?case using s Cons.prems(2) by simp
qed

lemma specRun_append:
  "specRun v (xs @ ys) = (let (e1, v1) = specRun v xs; (e2, v2) = specRun v1 ys in (e1 @ e2, v2))"
  by (induction xs arbitrary: v) (simp_all add: split_beta Let_def)

lemma rewriting_state: "rewriting os \<Longrightarrow> x \<in> set os \<Longrightarrow> dsState x = DiskStateChanged"
  by (induction os rule: rewriting.induct) auto

lemma state_constants [simp]: "DiskStateChanged \<noteq> DiskStateCurrent" "DiskStateCurrent \<noteq> DiskStateChanged"
  by (simp_all add: DiskStateChanged_def DiskStateCurrent_def)

lemma spec_rewrite:
  assumes "rewriting (o1 # o2 # os)" "dsState (svReported v) \<noteq> DiskStateChanged" "\<not> svOwed v"
    "svPrevious v = None \<or> (\<exists>p. svPrevious v = Some p \<and> dsState p \<noteq> DiskStateChanged)"
  shows "specRun v (o1 # o2 # os) = ([statusEvent o2],
    \<lparr>svReported = o2, svPrevious = Some (last (o2 # os)), svOwed = False\<rparr>)"
proof -
  have ch: "dsState o1 = DiskStateChanged" "dsState o2 = DiskStateChanged"
    using assms(1) by (cases os; simp)+
  have s1: "settleSpec v o1 = (None, \<lparr>svReported = svReported v, svPrevious = Some o1, svOwed = False\<rparr>)"
    using assms(3,4) ch by (auto simp: settleSpec_def Let_def)
  have s2: "settleSpec \<lparr>svReported = svReported v, svPrevious = Some o1, svOwed = False\<rparr> o2
      = (Some (statusEvent o2), \<lparr>svReported = o2, svPrevious = Some o2, svOwed = False\<rparr>)"
    using assms(2) ch by (simp add: settleSpec_def)
  have rw: "rewriting (o2 # os)" using assms(1) by simp
  show ?thesis
    using s1 s2 spec_rewriting_quiet [OF rw, of "\<lparr>svReported = o2, svPrevious = Some o2, svOwed = False\<rparr>"] ch
    by simp
qed

lemma spec_rewrite_end:
  assumes "rewriting (o2 # os)" "final = last (o2 # os)"
  shows "fst (specRun \<lparr>svReported = o2, svPrevious = Some final, svOwed = False\<rparr> [final])
    = (if final = o2 then [] else [statusEvent final])"
proof -
  have "dsState o2 = DiskStateChanged" "dsState final = DiskStateChanged"
    using rewriting_state [OF assms(1)] last_in_set [of "o2 # os"] assms(2) by auto
  then show ?thesis by (simp add: settleSpec_def)
qed

text \<open>
  A file being written produces one change event and one refresh when it stops: when every
  observation has other times than the one before, the one event is the second observation, and
  nothing more is emitted until the file stops changing; the first repeated observation is then
  emitted, unless it is the one already reported.
\<close>

theorem rewrite_two_events:
  assumes "rewriting (o1 # o2 # os)" "dsState (lastReported ts) \<noteq> DiskStateChanged" "\<not> resync ts"
    "stateStreak ts = 0 \<or> dsState (candidate ts) \<noteq> DiskStateChanged" "streaksOk ts"
  shows "fst (settleRun ts (o1 # o2 # os)) = [statusEvent o2]
    \<and> fst (settleRun ts ((o1 # o2 # os) @ [last (o2 # os)])) = statusEvent o2 #
      (if last (o2 # os) = o2 then [] else [statusEvent (last (o2 # os))])"
proof -
  note r = conjunct1 [OF settleRun_refines [OF assms(5)]]
  have s: "specRun (viewOf ts) (o1 # o2 # os) = ([statusEvent o2],
      \<lparr>svReported = o2, svPrevious = Some (last (o2 # os)), svOwed = False\<rparr>)"
    by (rule spec_rewrite) (use assms in \<open>auto simp: viewOf_def\<close>)
  have rw: "rewriting (o2 # os)" using assms(1) by simp
  show ?thesis
    unfolding r specRun_append s Let_def prod.case
    using spec_rewrite_end [OF rw refl] by (simp add: split_beta)
qed

lemma rewrite_two_events_witness:
  "length (fst (settleRun (zeroTab\<lparr>lastReported := zeroStatus\<lparr>dsState := DiskStateCurrent\<rparr>\<rparr>)
     [\<lparr>dsState = DiskStateChanged, dsLoadedModTime = 1, dsDiskModTime = 5, dsDiskSize = 10\<rparr>,
      \<lparr>dsState = DiskStateChanged, dsLoadedModTime = 1, dsDiskModTime = 6, dsDiskSize = 20\<rparr>,
      \<lparr>dsState = DiskStateChanged, dsLoadedModTime = 1, dsDiskModTime = 7, dsDiskSize = 30\<rparr>,
      \<lparr>dsState = DiskStateChanged, dsLoadedModTime = 1, dsDiskModTime = 7, dsDiskSize = 30\<rparr>])) = 2"
  using rewrite_two_events [of
      "\<lparr>dsState = DiskStateChanged, dsLoadedModTime = 1, dsDiskModTime = 5, dsDiskSize = 10\<rparr>"
      "\<lparr>dsState = DiskStateChanged, dsLoadedModTime = 1, dsDiskModTime = 6, dsDiskSize = 20\<rparr>"
      "[\<lparr>dsState = DiskStateChanged, dsLoadedModTime = 1, dsDiskModTime = 7, dsDiskSize = 30\<rparr>]"
      "zeroTab\<lparr>lastReported := zeroStatus\<lparr>dsState := DiskStateCurrent\<rparr>\<rparr>"]
  by (simp add: zeroTab_def streaksOk_def del: settleRun.simps)

text \<open>
  A recorded status supersedes a stat in flight: when the scheduler handles a stat's answer
  for a tab whose status was recorded in the meantime, nothing is emitted for it, whatever the answer,
  and the tab (if it is still there) owes the receiver its next settled observation.
\<close>

theorem recorded_supersedes_result:
  assumes "records w tab = Some st"
  shows "emitted (handleResult tab r (applyPending ids w)) = emitted w
    \<and> (case schedTabs (handleResult tab r (applyPending ids w)) tab of None \<Rightarrow> True
       | Some ts \<Rightarrow> resync ts \<and> lastReported ts = st)"
proof -
  let ?w = "applyPending ids w"
  have t: "schedTabs ?w tab = None \<or> (\<exists>ts. schedTabs ?w tab = Some ts \<and> stateStreak ts = 0
      \<and> resync ts \<and> lastReported ts = st)"
    using assms by (auto simp: applyPending_def Let_def checkAll_def reconcileTabs_def applyRecords_def
        applyRecord_def)
  then show ?thesis
  proof (elim disjE exE conjE)
    assume "schedTabs ?w tab = None"
    then show ?thesis by (simp add: handleResult_def)
  next
    fix ts assume ts: "schedTabs ?w tab = Some ts" "stateStreak ts = 0" "resync ts" "lastReported ts = st"
    then have "settle (ts\<lparr>inFlight := False\<rparr>) obs = (None, ts\<lparr>inFlight := False, stateStreak := 1,
        sameStreak := 1, candidate := obs\<rparr>)" for obs
      by (simp add: settle_def)
    with ts show ?thesis
      by (auto simp: handleResult_def Let_def split: sum.split statError.split)
  qed
qed

lemma recorded_supersedes_result_witness:
  "emitted (handleResult ''t1'' (Inr zeroStatus)
     (applyPending [''t1''] (setFocused True (recordReported ''t1'' zeroStatus newWatcher)))) = []"
  using recorded_supersedes_result [of "setFocused True (recordReported ''t1'' zeroStatus newWatcher)"
      "''t1''" zeroStatus "Inr zeroStatus" "[''t1'']"]
  by (simp add: setFocused_def recordReported_def newWatcher_def)

end
