(* ===== verification/PendingOpen.thy ===== *)
theory PendingOpen
  imports Prelude
begin

text \<open>
  \<^verbatim>\<open>internal/pendingopen/queue.go\<close> and its two clients: \<^verbatim>\<open>routeOpenPath\<close> (\<^verbatim>\<open>main.go\<close>), called for
  every file-association open, and \<^verbatim>\<open>ConsumePendingOpenFiles\<close> (\<^verbatim>\<open>pdfservice/service.go\<close>), the
  frontend's drain. Each queue operation holds the queue's mutex throughout, so an execution is a
  sequence of whole operations and every interleaving of the callers is one such sequence.
\<close>

section \<open>The queue\<close>

record openQueue =
  queueReady :: bool
  queuePaths :: "string list"

definition newQueue :: openQueue where
  "newQueue = \<lparr>queueReady = False, queuePaths = []\<rparr>"

definition queueAdd :: "string \<Rightarrow> openQueue \<Rightarrow> bool \<times> openQueue" where
  "queueAdd path q =
     (if queueReady q then (True, q)
      else if list_ex (\<lambda>p. p = path) (queuePaths q) then (False, q)
      else (False, q\<lparr>queuePaths := queuePaths q @ [path]\<rparr>))"

definition queueDrain :: "openQueue \<Rightarrow> string list \<times> openQueue" where
  "queueDrain q = (queuePaths q, q\<lparr>queueReady := True, queuePaths := []\<rparr>)"

section \<open>The clients\<close>

text \<open>
  \<^verbatim>\<open>routeOpenPath\<close> calls \<open>open\<close> itself when the queue says so: the paths it opens are the first
  component. Both clients are written over the queue operations they are given.
\<close>

definition routeOpenPath :: "('p \<Rightarrow> 'q \<Rightarrow> bool \<times> 'q) \<Rightarrow> 'p \<Rightarrow> 'q \<Rightarrow> 'p list \<times> bool \<times> 'q" where
  "routeOpenPath add path q = (let (warm, q') = add path q in
     if warm then ([path], True, q') else ([], False, q'))"

text \<open>\<open>None\<close> is the service with no queue wired.\<close>

fun consumePendingOpenFiles :: "('q \<Rightarrow> 'p list \<times> 'q) \<Rightarrow> 'q option \<Rightarrow> 'p list \<times> 'q option" where
  "consumePendingOpenFiles drain None = ([], None)"
| "consumePendingOpenFiles drain (Some q) = (let (paths, q') = drain q in (paths, Some q'))"

datatype 'p openEvent = OpenRequest 'p | FrontendDrain

text \<open>The paths opened over a sequence of calls, in order: by the warm path or from a drain.\<close>

fun delivered :: "('p \<Rightarrow> 'q \<Rightarrow> bool \<times> 'q) \<Rightarrow> ('q \<Rightarrow> 'p list \<times> 'q) \<Rightarrow> 'p openEvent list \<Rightarrow> 'q \<Rightarrow> 'p list" where
  "delivered add drain [] q = []"
| "delivered add drain (OpenRequest p # es) q =
     (let (opened, _, q') = routeOpenPath add p q in opened @ delivered add drain es q')"
| "delivered add drain (FrontendDrain # es) q =
     (case consumePendingOpenFiles drain (Some q) of
        (paths, Some q') \<Rightarrow> paths @ delivered add drain es q'
      | (paths, None) \<Rightarrow> paths)"

fun requests :: "'p openEvent list \<Rightarrow> 'p list" where
  "requests [] = []"
| "requests (OpenRequest p # es) = p # requests es"
| "requests (FrontendDrain # es) = requests es"

text \<open>The first occurrence of every element, in order.\<close>

definition firstOccurrences :: "'a list \<Rightarrow> 'a list" where
  "firstOccurrences xs = rev (remdups (rev xs))"

lemma firstOccurrences_snoc:
  "firstOccurrences (xs @ [x]) = (if x \<in> set xs then firstOccurrences xs else firstOccurrences xs @ [x])"
  by (simp add: firstOccurrences_def)

lemma firstOccurrences_simps [simp]:
  "firstOccurrences [] = []" "set (firstOccurrences xs) = set xs" "distinct (firstOccurrences xs)"
  by (simp_all add: firstOccurrences_def)

section \<open>The contract\<close>

text \<open>
  What the clients rely on: before the first drain a path is held once, at its first place; a drain
  hands over what is held and turns the queue warm; a warm queue hands every path back and holds
  nothing.
\<close>

locale open_buffer =
  fixes empty :: 'q
    and add :: "'p \<Rightarrow> 'q \<Rightarrow> bool \<times> 'q"
    and drain :: "'q \<Rightarrow> 'p list \<times> 'q"
    and warm :: "'q \<Rightarrow> bool"
    and held :: "'q \<Rightarrow> 'p list"
  assumes empty_cold: "\<not> warm empty" "held empty = []"
    and add_cold: "\<not> warm q \<Longrightarrow> fst (add p q) = False \<and> \<not> warm (snd (add p q))
      \<and> held (snd (add p q)) = (if p \<in> set (held q) then held q else held q @ [p])"
    and add_warm: "warm q \<Longrightarrow> held q = [] \<Longrightarrow> add p q = (True, q)"
    and drain_hands_over: "fst (drain q) = held q" "warm (snd (drain q))" "held (snd (drain q)) = []"
begin

lemma deliver_warm:
  "warm q \<Longrightarrow> held q = [] \<Longrightarrow> delivered add drain es q = requests es"
proof (induction es arbitrary: q rule: requests.induct)
  case (3 es)
  then show ?case using drain_hands_over [of q] by (cases "drain q") simp
qed (simp_all add: routeOpenPath_def add_warm)

lemma deliver_cold:
  assumes "\<not> warm q" "held q = firstOccurrences seen"
  shows "delivered add drain (map OpenRequest ps @ FrontendDrain # es) q
      = firstOccurrences (seen @ ps) @ requests es"
    "delivered add drain (map OpenRequest ps) q = []"
proof -
  have "delivered add drain (map OpenRequest ps @ FrontendDrain # es) q
      = firstOccurrences (seen @ ps) @ requests es \<and> delivered add drain (map OpenRequest ps) q = []"
    using assms
  proof (induction ps arbitrary: q seen)
    case Nil
    then show ?case
      using drain_hands_over [of q] deliver_warm [of "snd (drain q)" es] by (cases "drain q") simp
  next
    case (Cons p ps)
    obtain w q' where a: "add p q = (w, q')" by (cases "add p q")
    have c: "\<not> w" "\<not> warm q'" "held q' = firstOccurrences (seen @ [p])"
      using add_cold [of q p] Cons.prems a by (simp_all add: firstOccurrences_snoc)
    show ?case using Cons.IH [OF c(2,3)] c(1) a by (simp add: routeOpenPath_def)
  qed
  then show "delivered add drain (map OpenRequest ps @ FrontendDrain # es) q
      = firstOccurrences (seen @ ps) @ requests es" "delivered add drain (map OpenRequest ps) q = []"
    by simp_all
qed

lemma exactly_once:
  "delivered add drain (map OpenRequest cold @ FrontendDrain # es) empty
     = firstOccurrences cold @ requests es"
  "delivered add drain (map OpenRequest cold) empty = []"
  using deliver_cold [of empty "[]"] empty_cold by simp_all

end

interpretation pending: open_buffer newQueue queueAdd queueDrain queueReady queuePaths
  by unfold_locales (auto simp: newQueue_def queueAdd_def queueDrain_def list_ex_iff)

section \<open>Properties\<close>

text \<open>
  Claim C6. Every open request is delivered exactly once, whatever the interleaving of requests and
  drains. The requests made before the first drain are delivered by that drain, one time each, in
  the order in which each path was first asked for; every later request is opened on the spot, and no
  later drain delivers anything. Until there is a drain nothing is opened.
\<close>

theorem pending_opens_exactly_once:
  "delivered queueAdd queueDrain (map OpenRequest cold @ FrontendDrain # es) newQueue
     = firstOccurrences cold @ requests es
   \<and> delivered queueAdd queueDrain (map OpenRequest cold) newQueue = []"
  using pending.exactly_once by simp

end
