(* ===== verification/LazyCache.thy ===== *)
theory LazyCache
  imports Prelude
begin

text \<open>
  \<^verbatim>\<open>internal/pdfcore/lazycache.go\<close>: a value built on first use. The mutex covers the build, so
  concurrent callers take turns and a run is a sequence of whole calls. A build is a function of a
  state it may change (the document it reads, the locks and counters it touches).
\<close>

record 'a lazyCache =
  cacheValue :: "'a option"
  cacheBuilt :: bool

definition newCache :: "'a lazyCache" where
  "newCache = \<lparr>cacheValue = None, cacheBuilt = False\<rparr>"

type_synonym ('s, 'e, 'a) build = "'s \<Rightarrow> ('e + 'a) \<times> 's"

text \<open>
  The cell's value is \<open>None\<close> where the code holds the type's zero value, which it never returns
  without an error.
\<close>

definition cacheGet ::
  "'a lazyCache \<Rightarrow> ('s, 'e, 'a) build \<Rightarrow> 's \<Rightarrow> ('e + 'a) \<times> 'a lazyCache \<times> 's" where
  "cacheGet c build s =
     (if cacheBuilt c then (Inr (the (cacheValue c)), c, s)
      else case build s of
        (Inl e, s') \<Rightarrow> (Inl e, c, s')
      | (Inr v, s') \<Rightarrow> (Inr v, c\<lparr>cacheValue := Some v, cacheBuilt := True\<rparr>, s'))"

definition cacheIsBuilt :: "'a lazyCache \<Rightarrow> bool" where
  "cacheIsBuilt c = cacheBuilt c"

text \<open>A run of callers, each with its own build function: the answers they get, and the state.\<close>

fun cacheGets ::
  "'a lazyCache \<Rightarrow> ('s, 'e, 'a) build list \<Rightarrow> 's \<Rightarrow> ('e + 'a) list \<times> 'a lazyCache \<times> 's" where
  "cacheGets c [] s = ([], c, s)"
| "cacheGets c (b # bs) s =
     (let (r, c', s') = cacheGet c b s; (rs, c'', s'') = cacheGets c' bs s' in (r # rs, c'', s''))"

lemma newCache_empty: "\<not> cacheIsBuilt newCache"
  by (simp add: cacheIsBuilt_def newCache_def)

lemma cacheGet_built:
  "cacheIsBuilt c \<Longrightarrow> cacheGet c b s = (Inr (the (cacheValue c)), c, s)"
  by (simp add: cacheGet_def cacheIsBuilt_def)

lemma cacheGets_built:
  "cacheIsBuilt c \<Longrightarrow> cacheGets c bs s = (replicate (length bs) (Inr (the (cacheValue c))), c, s)"
  by (induction bs) (simp_all add: cacheGet_built)

text \<open>The builds that fail before the first one that succeeds, run one after the other.\<close>

fun failedBuilds :: "('s, 'e, 'a) build list \<Rightarrow> 's \<Rightarrow> 'e list \<times> 's" where
  "failedBuilds [] s = ([], s)"
| "failedBuilds (b # bs) s =
     (case b s of (Inl e, s') \<Rightarrow> (let (es, s'') = failedBuilds bs s' in (e # es, s'')) | (Inr v, s') \<Rightarrow> ([], s))"

lemma cacheGets_failed:
  assumes "\<not> cacheIsBuilt c" "failedBuilds bs s = (es, s')" "length es = length bs"
  shows "cacheGets c (bs @ bs') s = (let (rs, c', s'') = cacheGets c bs' s' in (map Inl es @ rs, c', s''))"
  using assms(2,3)
proof (induction bs arbitrary: s es)
  case Nil
  then show ?case by (simp add: split_beta Let_def)
next
  case (Cons b bs)
  obtain e s1 es' where b: "b s = (Inl e, s1)" and f: "failedBuilds bs s1 = (es', s')" "es = e # es'"
    using Cons.prems by (auto split: prod.splits sum.splits)
  have "length es' = length bs" using Cons.prems f(2) by simp
  from Cons.IH [OF f(1) this] show ?case
    using assms(1) b f(2) by (simp add: cacheGet_def cacheIsBuilt_def split_beta Let_def)
qed

text \<open>
  A failed build is not cached and a successful one is built once: callers get their own
  build's error and leave the cell empty as long as builds fail; the first success is what its
  caller and every later caller gets, and no later caller's build runs (the state after the run is
  the state that build left).
\<close>

theorem cache_builds_once:
  assumes "failedBuilds bs s = (es, s1)" "length es = length bs" "b s1 = (Inr v, s2)"
  shows "cacheGets newCache (bs @ b # later) s =
      (map Inl es @ replicate (Suc (length later)) (Inr v), \<lparr>cacheValue = Some v, cacheBuilt = True\<rparr>, s2)"
proof -
  have "cacheGet newCache b s1 = (Inr v, \<lparr>cacheValue = Some v, cacheBuilt = True\<rparr>, s2)"
    using assms(3) by (simp add: cacheGet_def newCache_def)
  then show ?thesis
    using cacheGets_failed [OF newCache_empty assms(1,2), of "b # later"]
    by (simp add: cacheIsBuilt_def cacheGets_built)
qed

text \<open>A build that fails twice and then answers, with a counter of its runs.\<close>

lemma cache_builds_once_witness:
  "cacheGets newCache [\<lambda>n::nat. (Inl ''busy'', n + 1), \<lambda>n. (Inl ''locked'', n + 1),
      \<lambda>n. (Inr n, n + 1), \<lambda>n. (Inr 7, n + 1), \<lambda>n. (Inl ''never run'', n + 1)] 0
    = ([Inl ''busy'', Inl ''locked'', Inr 2, Inr 2, Inr 2], \<lparr>cacheValue = Some 2, cacheBuilt = True\<rparr>, 3)"
  using cache_builds_once [of "[\<lambda>n::nat. (Inl ''busy'', n + 1), \<lambda>n. (Inl ''locked'', n + 1)]" 0
      "[''busy'', ''locked'']" 2 "\<lambda>n. (Inr n, n + 1)" 2 3
      "[\<lambda>n. (Inr 7, n + 1), \<lambda>n. (Inl ''never run'', n + 1)]"]
  by (simp add: numeral_eq_Suc)

end
