(* ===== verification/Paths.thy ===== *)
theory Paths
  imports Prelude
begin

text \<open>
  The part of Go's \<^verbatim>\<open>path/filepath\<close> the program uses, for systems with \<^verbatim>\<open>/\<close> as the separator: the
  lexical cleaning of a path, its base and directory, and joining.
\<close>

section \<open>Components\<close>

definition sep :: char where "sep = CHR ''/''"

fun splitSep :: "string \<Rightarrow> string list" where
  "splitSep [] = [[]]"
| "splitSep (c # cs) =
     (if c = sep then [] # splitSep cs
      else (case splitSep cs of [] \<Rightarrow> [[c]] | p # ps \<Rightarrow> (c # p) # ps))"

fun joinSep :: "string list \<Rightarrow> string" where
  "joinSep [] = []"
| "joinSep [p] = p"
| "joinSep (p # ps) = p @ sep # joinSep ps"

definition dot :: string where "dot = ''.''"
definition dotdot :: string where "dotdot = ''..''"

text \<open>\<open>Clean\<close>'s loop; \<open>acc\<close> holds the components kept so far, last first.\<close>

fun cleanParts :: "bool \<Rightarrow> string list \<Rightarrow> string list \<Rightarrow> string list" where
  "cleanParts rooted acc [] = rev acc"
| "cleanParts rooted acc (x # xs) =
     (if x = [] \<or> x = dot then cleanParts rooted acc xs
      else if x = dotdot then
        (case acc of
           [] \<Rightarrow> if rooted then cleanParts rooted [] xs else cleanParts rooted [dotdot] xs
         | a # as \<Rightarrow> if a = dotdot then cleanParts rooted (dotdot # acc) xs else cleanParts rooted as xs)
      else cleanParts rooted (x # acc) xs)"

definition isAbs :: "string \<Rightarrow> bool" where
  "isAbs p \<longleftrightarrow> (case p of [] \<Rightarrow> False | c # _ \<Rightarrow> c = sep)"

definition pathClean :: "string \<Rightarrow> string" where
  "pathClean p =
     (let out = joinSep (cleanParts (isAbs p) [] (splitSep p)) in
      if isAbs p then sep # out else if out = [] then dot else out)"

definition stripTrailing :: "string \<Rightarrow> string" where
  "stripTrailing p = rev (dropWhile (\<lambda>c. c = sep) (rev p))"

definition pathBase :: "string \<Rightarrow> string" where
  "pathBase p = (if p = [] then dot else
     let q = stripTrailing p; b = last (splitSep q) in if q = [] then [sep] else b)"

text \<open>\<open>Dir\<close>: everything up to and including the last separator, cleaned.\<close>

definition pathDir :: "string \<Rightarrow> string" where
  "pathDir p = pathClean (rev (dropWhile (\<lambda>c. c \<noteq> sep) (rev p)))"

definition pathJoin :: "string list \<Rightarrow> string" where
  "pathJoin ps = (case filter (\<lambda>p. p \<noteq> []) ps of [] \<Rightarrow> [] | qs \<Rightarrow> pathClean (joinSep qs))"

text \<open>\<open>Abs\<close>, with the answer of \<open>Getwd\<close>.\<close>

definition pathAbs :: "string option \<Rightarrow> string \<Rightarrow> string option" where
  "pathAbs cwd p = (if isAbs p then Some (pathClean p)
     else case cwd of None \<Rightarrow> None | Some d \<Rightarrow> Some (pathJoin [d, p]))"

section \<open>Cleaning is a normal form\<close>

definition plainPart :: "string \<Rightarrow> bool" where
  "plainPart x \<longleftrightarrow> x \<noteq> [] \<and> x \<noteq> dot \<and> x \<noteq> dotdot \<and> sep \<notin> set x"

text \<open>The components of a clean path: plain ones, after leading \<open>..\<close>s when it is relative.\<close>

definition cleanList :: "bool \<Rightarrow> string list \<Rightarrow> bool" where
  "cleanList rooted ps \<longleftrightarrow> (\<exists>n qs. ps = replicate n dotdot @ qs \<and> (\<forall>q \<in> set qs. plainPart q) \<and> (rooted \<longrightarrow> n = 0))"

lemma splitSep_ne [simp]: "splitSep p \<noteq> []"
  by (induction p) (auto split: list.split)

lemma splitSep_parts: "x \<in> set (splitSep p) \<Longrightarrow> sep \<notin> set x"
  by (induction p arbitrary: x) (auto split: list.split_asm if_split_asm)

lemma splitSep_nosep [simp]: "sep \<notin> set x \<Longrightarrow> splitSep x = [x]"
  by (induction x) auto

lemma splitSep_append_sep: "sep \<notin> set x \<Longrightarrow> splitSep (x @ sep # r) = x # splitSep r"
  by (induction x) auto

lemma splitSep_joinSep:
  "ps \<noteq> [] \<Longrightarrow> \<forall>p \<in> set ps. sep \<notin> set p \<Longrightarrow> splitSep (joinSep ps) = ps"
  by (induction ps rule: joinSep.induct) (auto simp: splitSep_append_sep)

lemma joinSep_Nil_iff: "\<forall>p \<in> set ps. p \<noteq> [] \<Longrightarrow> joinSep ps = [] \<longleftrightarrow> ps = []"
  by (cases ps rule: joinSep.cases) auto

lemma dotdot_facts [simp]: "dotdot \<noteq> []" "dotdot \<noteq> dot" "dot \<noteq> dotdot" "dot \<noteq> []" "sep \<notin> set dotdot"
  "sep \<notin> set dot"
  by (simp_all add: dotdot_def dot_def sep_def)

lemma cleanList_snoc_plain: "cleanList rooted ps \<Longrightarrow> plainPart x \<Longrightarrow> cleanList rooted (ps @ [x])"
proof -
  assume "cleanList rooted ps" "plainPart x"
  then obtain n qs where "ps = replicate n dotdot @ qs" "\<forall>q \<in> set qs. plainPart q" "rooted \<longrightarrow> n = 0"
    by (auto simp: cleanList_def)
  with \<open>plainPart x\<close> show ?thesis
    unfolding cleanList_def by (intro exI [of _ n] exI [of _ "qs @ [x]"]) auto
qed

lemma cleanList_butlast: "cleanList rooted (ps @ [a]) \<Longrightarrow> a \<noteq> dotdot \<Longrightarrow> cleanList rooted ps"
proof -
  assume "cleanList rooted (ps @ [a])" "a \<noteq> dotdot"
  then obtain n qs where q: "ps @ [a] = replicate n dotdot @ qs" "\<forall>q \<in> set qs. plainPart q" "rooted \<longrightarrow> n = 0"
    by (auto simp: cleanList_def)
  show ?thesis
  proof (cases qs rule: rev_cases)
    case Nil
    with q(1) have "a \<in> set (replicate n dotdot)" by (metis append_Nil2 in_set_conv_decomp)
    with \<open>a \<noteq> dotdot\<close> show ?thesis by simp
  next
    case (snoc qs' y)
    with q have "ps = replicate n dotdot @ qs'" by simp
    with q(2,3) snoc show ?thesis unfolding cleanList_def by auto
  qed
qed

lemma cleanList_snoc_dotdot:
  assumes "cleanList False ps" "ps = [] \<or> last ps = dotdot"
  shows "cleanList False (ps @ [dotdot])"
proof -
  obtain n qs where q: "ps = replicate n dotdot @ qs" "\<forall>q \<in> set qs. plainPart q"
    using assms(1) by (auto simp: cleanList_def)
  have "qs = []"
  proof (rule ccontr)
    assume "qs \<noteq> []"
    with q(1) assms(2) have "last qs = dotdot" by auto
    with q(2) last_in_set [OF \<open>qs \<noteq> []\<close>] show False by (auto simp: plainPart_def)
  qed
  with q have "ps @ [dotdot] = replicate (Suc n) dotdot @ []" by (simp add: replicate_append_same)
  then show ?thesis unfolding cleanList_def by (intro exI [of _ "Suc n"] exI [of _ "[]"]) simp
qed

lemma cleanParts_clean:
  "cleanList rooted (rev acc) \<Longrightarrow> \<forall>x \<in> set xs. sep \<notin> set x \<Longrightarrow> cleanList rooted (cleanParts rooted acc xs)"
proof (induction rooted acc xs rule: cleanParts.induct)
  case (2 rooted acc x xs)
  consider (skip) "x = [] \<or> x = dot" | (up) "x = dotdot" | (plain) "plainPart x"
    using "2.prems"(2) unfolding plainPart_def by auto
  then show ?case
  proof cases
    case skip
    with 2 show ?thesis by auto
  next
    case up
    show ?thesis
    proof (cases acc)
      case Nil
      have "cleanList rooted []" unfolding cleanList_def by simp
      moreover have "cleanList False [dotdot]"
        unfolding cleanList_def by (intro exI [of _ "Suc 0"] exI [of _ "[]"]) simp
      ultimately show ?thesis using up Nil 2 by auto
    next
      case (Cons a as)
      show ?thesis
      proof (cases "a = dotdot")
        case True
        have "\<not> rooted" using "2.prems"(1) Cons True by (auto simp: cleanList_def plainPart_def dest: arg_cong [of _ _ last])
        with True Cons up 2 show ?thesis using cleanList_snoc_dotdot [of "rev acc"] by auto
      next
        case False
        then have "cleanList rooted (rev as)" using "2.prems"(1) Cons cleanList_butlast by auto
        with False Cons up 2 show ?thesis by auto
      qed
    qed
  next
    case plain
    then have "cleanList rooted (rev (x # acc))" using cleanList_snoc_plain [OF "2.prems"(1)] by simp
    with plain 2 show ?thesis by (auto simp: plainPart_def)
  qed
qed simp

lemma cleanParts_id: "cleanList rooted (rev acc @ xs) \<Longrightarrow> cleanParts rooted acc xs = rev acc @ xs"
proof (induction xs arbitrary: acc)
  case (Cons x xs)
  obtain n qs where q: "rev acc @ x # xs = replicate n dotdot @ qs" "\<forall>q \<in> set qs. plainPart q" "rooted \<longrightarrow> n = 0"
    using Cons.prems by (auto simp: cleanList_def)
  have ih: "cleanParts rooted (x # acc) xs = rev acc @ x # xs" using Cons.IH [of "x # acc"] Cons.prems by simp
  have "x \<in> set (replicate n dotdot @ qs)" unfolding q(1) [symmetric] by simp
  then have "x = dotdot \<or> plainPart x" using q(2) by auto
  then show ?case
  proof
    assume "plainPart x"
    with ih show ?thesis by (simp add: plainPart_def)
  next
    assume x: "x = dotdot"
    have len: "length acc < n"
    proof (rule ccontr)
      assume "\<not> length acc < n"
      then have "(replicate n dotdot @ qs) ! length acc \<in> set qs"
        using arg_cong [OF q(1), of length] by (simp add: nth_append)
      moreover have "(replicate n dotdot @ qs) ! length acc = x"
        unfolding q(1) [symmetric] by (simp add: nth_append)
      ultimately show False using q(2) x by (auto simp: plainPart_def)
    qed
    then have r: "\<not> rooted" using q(3) by auto
    have "acc = [] \<or> hd acc = dotdot"
    proof (cases acc)
      case (Cons a as)
      then have "a = (rev acc @ x # xs) ! length as" by (simp add: nth_append)
      also have "\<dots> = dotdot" unfolding q(1) using len Cons by (simp add: nth_append)
      finally show ?thesis using Cons by simp
    qed simp
    with ih x r show ?thesis by (cases acc) auto
  qed
qed simp

lemma cleanList_parts: "cleanList rooted ps \<Longrightarrow> p \<in> set ps \<Longrightarrow> p \<noteq> [] \<and> sep \<notin> set p"
proof -
  assume "cleanList rooted ps" "p \<in> set ps"
  then obtain n qs where q: "ps = replicate n dotdot @ qs" "\<forall>q \<in> set qs. plainPart q"
    unfolding cleanList_def by blast
  then have "p = dotdot \<or> plainPart p" using \<open>p \<in> set ps\<close> by auto
  then show ?thesis by (elim disjE) (simp_all add: plainPart_def)
qed

lemma cleanParts_split: "cleanList (isAbs p) (cleanParts (isAbs p) [] (splitSep p))"
  by (rule cleanParts_clean) (auto simp: cleanList_def splitSep_parts)

lemma isAbs_append: "x \<noteq> [] \<Longrightarrow> isAbs (x @ y) = isAbs x"
  by (cases x) (simp_all add: isAbs_def)

lemma isAbs_nosep: "sep \<notin> set x \<Longrightarrow> \<not> isAbs x"
  by (cases x) (auto simp: isAbs_def)

lemma isAbs_joinSep: "cleanList rooted ps \<Longrightarrow> \<not> isAbs (joinSep ps)"
proof -
  assume c: "cleanList rooted ps"
  show ?thesis
  proof (cases ps rule: joinSep.cases)
    case (3 p q ps')
    with cleanList_parts [OF c, of p] show ?thesis by (simp add: isAbs_append isAbs_nosep)
  next
    case (2 p)
    with cleanList_parts [OF c, of p] show ?thesis by (simp add: isAbs_nosep)
  qed (simp add: isAbs_def)
qed

text \<open>A path is clean when it is written from a clean component list.\<close>

definition cleanPath :: "string \<Rightarrow> bool" where
  "cleanPath p \<longleftrightarrow> (\<exists>ps. cleanList True ps \<and> p = sep # joinSep ps)
     \<or> p = dot \<or> (\<exists>ps. cleanList False ps \<and> ps \<noteq> [] \<and> p = joinSep ps)"

lemma cleanPath_cases:
  assumes "cleanPath p"
  obtains (abs) ps where "isAbs p" "cleanList True ps" "p = sep # joinSep ps"
  | (here) "\<not> isAbs p" "p = dot"
  | (rel) ps where "\<not> isAbs p" "cleanList False ps" "ps \<noteq> []" "p = joinSep ps"
proof -
  have d: "\<not> isAbs dot" by (simp add: isAbs_nosep)
  from assms consider ps where "cleanList True ps" "p = sep # joinSep ps" | "p = dot"
    | ps where "cleanList False ps" "ps \<noteq> []" "p = joinSep ps"
    unfolding cleanPath_def by blast
  then show thesis
  proof cases
    case (1 ps)
    then show thesis by (intro abs) (auto simp: isAbs_def)
  next
    case 2
    with d show thesis by (intro here) auto
  next
    case (3 ps)
    with isAbs_joinSep show thesis by (intro rel) auto
  qed
qed

lemma pathClean_clean: "cleanPath (pathClean p)"
proof -
  let ?ps = "cleanParts (isAbs p) [] (splitSep p)"
  note c = cleanParts_split [of p]
  have n: "joinSep ?ps = [] \<longleftrightarrow> ?ps = []" using cleanList_parts [OF c] by (intro joinSep_Nil_iff) blast
  show ?thesis
  proof (cases "isAbs p")
    case True
    with c show ?thesis by (auto simp: cleanPath_def pathClean_def Let_def)
  next
    case False
    show ?thesis
    proof (cases "?ps = []")
      case True
      with False n show ?thesis by (simp add: cleanPath_def pathClean_def Let_def)
    next
      case ne: False
      then have "pathClean p = joinSep ?ps" using False n by (simp add: pathClean_def Let_def)
      with c False ne show ?thesis unfolding cleanPath_def by auto
    qed
  qed
qed

lemma pathClean_id:
  assumes "cleanPath p"
  shows "pathClean p = p"
  using assms
proof (cases rule: cleanPath_cases)
  case (abs ps)
  show ?thesis
  proof (cases "ps = []")
    case False
    then have "splitSep (joinSep ps) = ps" using cleanList_parts [OF abs(2)] by (intro splitSep_joinSep) auto
    then have "splitSep p = [] # ps" using abs(3) by simp
    then show ?thesis using abs cleanParts_id [of True "[]" ps] by (simp add: pathClean_def)
  qed (use abs in \<open>simp add: pathClean_def\<close>)
next
  case here
  then show ?thesis by (simp add: pathClean_def)
next
  case (rel ps)
  then have "splitSep (joinSep ps) = ps" using cleanList_parts [OF rel(2)] by (intro splitSep_joinSep) auto
  moreover have "joinSep ps \<noteq> []" using rel(3) cleanList_parts [OF rel(2)] joinSep_Nil_iff by blast
  ultimately show ?thesis using rel cleanParts_id [of False "[]" ps] by (simp add: pathClean_def)
qed

lemma pathClean_idem [simp]: "pathClean (pathClean p) = pathClean p"
  by (rule pathClean_id) (rule pathClean_clean)

end
