(* ===== verification/AtomicFile.thy ===== *)
theory AtomicFile
  imports Prelude
begin

text \<open>
  \<^verbatim>\<open>internal/atomicfile/atomicfile.go\<close>: replacing a file through a temp file and a rename. The
  operating system is a parameter: a record of the answers its calls give, and a map of the files it
  holds. The result of a write is its error and every state the file system goes through, so that a
  property can speak of what a reader sees at any moment.
\<close>

section \<open>The file system\<close>

record fileEntry =
  fileData :: "byte list"
  fileModTime :: int
  fileIsDir :: bool

type_synonym fileSystem = "string \<Rightarrow> fileEntry option"

text \<open>
  The answers of one run: \<open>MkdirAll\<close>, the paths \<open>ReadDir\<close> lists and those the pattern matches (with
  those whose \<open>Info\<close> fails), \<open>CreateTemp\<close>, \<open>Write\<close> (on failure, with the bytes that made it to the
  file), \<open>Close\<close>, the numbered \<open>Rename\<close> attempts and the paths \<open>Remove\<close> cannot remove.
\<close>

record 'e writeEnv =
  weMkdir :: "'e option"
  weEntries :: "string list"
  weMatches :: "string \<Rightarrow> bool"
  weInfoFails :: "string \<Rightarrow> bool"
  weTemp :: "'e + string"
  weWrite :: "(nat \<times> 'e) option"
  weClose :: "'e option"
  weRename :: "nat \<Rightarrow> 'e option"
  weRemoveFails :: "string \<Rightarrow> bool"
  weNow :: int

definition StaleTempAge :: int where
  "StaleTempAge = 60 * 60 * 1000 * 1000 * 1000"

definition DefaultAttempts :: "bool \<Rightarrow> nat" where
  "DefaultAttempts windows = (if windows then 5 else 1)"

definition osRemove :: "'e writeEnv \<Rightarrow> string \<Rightarrow> fileSystem \<Rightarrow> fileSystem" where
  "osRemove env p fs = (if weRemoveFails env p then fs else fs(p := None))"

fun removeStaleTemps :: "'e writeEnv \<Rightarrow> string list \<Rightarrow> fileSystem \<Rightarrow> fileSystem" where
  "removeStaleTemps env [] fs = fs"
| "removeStaleTemps env (p # ps) fs =
     removeStaleTemps env ps
       (case fs p of
          None \<Rightarrow> fs
        | Some f \<Rightarrow>
            if \<not> weMatches env p \<or> fileIsDir f then fs
            else if \<not> weInfoFails env p \<and> weNow env - fileModTime f \<ge> StaleTempAge
            then osRemove env p fs else fs)"

text \<open>The rename loop: the number of the attempt that ended it, and its error.\<close>

function renameLoop :: "(nat \<Rightarrow> 'e option) \<Rightarrow> nat \<Rightarrow> nat \<Rightarrow> nat \<times> 'e option" where
  "renameLoop ren attempts i =
     (if ren i = None \<or> i \<ge> attempts then (i, ren i) else renameLoop ren attempts (i + 1))"
  by pat_completeness auto
termination
  by (relation "measure (\<lambda>(ren, attempts, i). attempts - i)") auto

declare renameLoop.simps [simp del]

definition osRename :: "string \<Rightarrow> string \<Rightarrow> fileSystem \<Rightarrow> fileSystem" where
  "osRename old new fs = (fs(new := fs old))(old := None)"

text \<open>
  \<^verbatim>\<open>Writer.Write\<close>, with the states after each effect, first to last. The deferred clean-up closes and
  removes the temp file on every path that did not rename it.
\<close>

definition tempFile :: "byte list \<Rightarrow> 'e writeEnv \<Rightarrow> fileEntry" where
  "tempFile d env = \<lparr>fileData = d, fileModTime = weNow env, fileIsDir = False\<rparr>"

definition atomicWrite ::
  "'e writeEnv \<Rightarrow> bool \<Rightarrow> int \<Rightarrow> string \<Rightarrow> byte list \<Rightarrow> fileSystem \<Rightarrow> 'e option \<times> fileSystem list" where
  "atomicWrite env windows wattempts path data fs =
     (let attempts = (if wattempts \<le> 0 then DefaultAttempts windows else nat wattempts) in
      case weMkdir env of
        Some e \<Rightarrow> (Some e, [fs])
      | None \<Rightarrow>
          let fs1 = removeStaleTemps env (weEntries env) fs in
          case weTemp env of
            Inl e \<Rightarrow> (Some e, [fs, fs1])
          | Inr tmp \<Rightarrow>
              let fs2 = fs1(tmp \<mapsto> tempFile [] env);
                  undo = (\<lambda>e states fs'. (Some e, states @ [fs', osRemove env tmp fs']))
              in case weWrite env of
                   Some (n, e) \<Rightarrow> undo e [fs, fs1, fs2] (fs2(tmp \<mapsto> tempFile (take n data) env))
                 | None \<Rightarrow>
                     let fs3 = fs2(tmp \<mapsto> tempFile data env) in
                     case weClose env of
                       Some e \<Rightarrow> undo e [fs, fs1, fs2] fs3
                     | None \<Rightarrow>
                         (case snd (renameLoop (weRename env) attempts 1) of
                            Some e \<Rightarrow> undo e [fs, fs1, fs2] fs3
                          | None \<Rightarrow> (None, [fs, fs1, fs2, fs3, osRename tmp path fs3])))"

section \<open>Lemmas\<close>

lemma osRemove_other: "q \<noteq> p \<Longrightarrow> osRemove env p fs q = fs q"
  by (simp add: osRemove_def)

lemma removeStaleTemps_keeps:
  assumes "\<not> weMatches env q \<or> weInfoFails env q
    \<or> (case fs q of None \<Rightarrow> True | Some f \<Rightarrow> fileIsDir f \<or> weNow env - fileModTime f < StaleTempAge)"
  shows "removeStaleTemps env ps fs q = fs q"
  using assms
proof (induction env ps fs rule: removeStaleTemps.induct)
  case (2 env p ps fs)
  let ?fs' = "case fs p of None \<Rightarrow> fs | Some f \<Rightarrow> if \<not> weMatches env p \<or> fileIsDir f then fs
    else if \<not> weInfoFails env p \<and> weNow env - fileModTime f \<ge> StaleTempAge then osRemove env p fs else fs"
  have "?fs' q = fs q"
    using 2(2) by (cases "p = q") (auto simp: osRemove_other split: option.split)
  with 2 show ?case by simp
qed simp

text \<open>A file that is neither a matching old temp file nor written to keeps its content.\<close>

definition keptFile :: "'e writeEnv \<Rightarrow> fileSystem \<Rightarrow> string \<Rightarrow> bool" where
  "keptFile env fs q \<longleftrightarrow> \<not> weMatches env q \<or> weInfoFails env q
     \<or> (case fs q of None \<Rightarrow> True | Some f \<Rightarrow> fileIsDir f \<or> weNow env - fileModTime f < StaleTempAge)"

lemmas removeStaleTemps_kept = removeStaleTemps_keeps [folded keptFile_def]

lemma renameLoop_attempts:
  "i \<le> attempts \<Longrightarrow> i \<le> fst (renameLoop ren attempts i) \<and> fst (renameLoop ren attempts i) \<le> attempts"
proof (induction ren attempts i rule: renameLoop.induct)
  case (1 ren attempts i)
  then show ?case
    by (cases "ren i = None \<or> i \<ge> attempts") (auto simp: renameLoop.simps [of ren attempts i])
qed

lemma renameLoop_error:
  "snd (renameLoop ren attempts i) = Some e \<Longrightarrow> \<exists>j. ren j = Some e"
proof (induction ren attempts i rule: renameLoop.induct)
  case (1 ren attempts i)
  then show ?case
    by (cases "ren i = None \<or> i \<ge> attempts") (auto simp: renameLoop.simps [of ren attempts i])
qed

text \<open>Every state of a run, at a path other than the temp file's.\<close>

lemma atomicWrite_states:
  assumes "keptFile env fs q" "\<And>tmp. weTemp env = Inr tmp \<Longrightarrow> tmp \<noteq> q"
    "st \<in> set (snd (atomicWrite env windows n path data fs))"
  shows "st q = fs q \<or> (q = path \<and> fst (atomicWrite env windows n path data fs) = None
    \<and> st q = Some (tempFile data env))"
proof -
  have k: "removeStaleTemps env (weEntries env) fs q = fs q" by (rule removeStaleTemps_kept [OF assms(1)])
  show ?thesis
  proof (cases "weMkdir env")
    case (Some e)
    with assms(3) show ?thesis by (simp add: atomicWrite_def Let_def)
  next
    case None
    show ?thesis
    proof (cases "weTemp env")
      case (Inl e)
      with None assms(3) k show ?thesis by (auto simp: atomicWrite_def Let_def)
    next
      case (Inr tmp)
      then have "q \<noteq> tmp" using assms(2) by blast
      with Inr None assms(3) k show ?thesis
        by (auto simp: atomicWrite_def Let_def osRemove_other osRename_def split: option.splits if_splits)
    qed
  qed
qed

lemma atomicWrite_last:
  "snd (atomicWrite env windows n path data fs) \<noteq> []"
  "hd (snd (atomicWrite env windows n path data fs)) = fs"
  by (auto simp: atomicWrite_def Let_def split: option.splits sum.splits)

lemma write_outcome:
  assumes "keptFile env fs path" "\<And>tmp. weTemp env = Inr tmp \<Longrightarrow> tmp \<noteq> path"
    "atomicWrite env windows n path data fs = (err, states)"
  shows "(\<forall>st \<in> set states. st path = fs path \<or> st path = Some (tempFile data env))
    \<and> (last states) path = (if err = None then Some (tempFile data env) else fs path)"
proof -
  have s: "st path = fs path \<or> (err = None \<and> st path = Some (tempFile data env))" if "st \<in> set states" for st
    using atomicWrite_states [OF assms(1,2), of st windows n path data] assms(3) that by auto
  have "states \<noteq> []" using atomicWrite_last(1) [of env windows n path data fs] assms(3) by simp
  then have l: "last states \<in> set states" by simp
  have ok: "last states path = Some (tempFile data env)" if "err = None"
  proof -
    have "atomicWrite env windows n path data fs = (None, states)" using assms(3) that by simp
    then obtain tmp where "weTemp env = Inr tmp"
      by (cases "weMkdir env"; cases "weTemp env") (auto simp: atomicWrite_def Let_def)
    with assms(2,3) that show ?thesis
      by (auto simp: atomicWrite_def Let_def osRename_def split: option.splits sum.splits)
  qed
  show ?thesis using s l ok by auto
qed

lemmas write_final = conjunct2 [OF write_outcome]

section \<open>Properties\<close>

text \<open>
  Claim C9. A write replaces the file or leaves it alone, and no reader sees anything in between:
  in every state of the run the target holds what it held before or exactly the new data; it holds
  the new data at the end if and only if the write reports success. The target must not itself look
  like a stale temp file, and the temp file is not the target.
\<close>

theorem atomic_write_all_or_nothing:
  assumes "keptFile env fs path" "\<And>tmp. weTemp env = Inr tmp \<Longrightarrow> tmp \<noteq> path"
    "atomicWrite env windows n path data fs = (err, states)"
  shows "(\<forall>st \<in> set states. st path = fs path \<or> st path = Some (tempFile data env))
    \<and> (last states) path = (if err = None then Some (tempFile data env) else fs path)"
  by (rule write_outcome [OF assms])

text \<open>
  A write leaves no temp file behind and touches nothing else: at the end the temp file is
  gone, on success and on every failure (unless the operating system refuses to remove it), and a
  file that is neither the target nor the temp file is as it was, unless it is a stale temp file.
\<close>

theorem atomic_write_cleans_up:
  assumes "atomicWrite env windows n path data fs = (err, states)"
    "weTemp env = Inr tmp" "fs tmp = None" "\<not> weRemoveFails env tmp" "tmp \<noteq> path"
  shows "(last states) tmp = None
    \<and> (\<forall>q. q \<noteq> path \<and> q \<noteq> tmp \<and> keptFile env fs q \<longrightarrow> (last states) q = fs q)"
proof
  have "removeStaleTemps env (weEntries env) fs tmp = fs tmp"
    by (rule removeStaleTemps_kept) (simp add: keptFile_def assms(3))
  then show "(last states) tmp = None"
    using assms by (auto simp: atomicWrite_def Let_def osRemove_def osRename_def split: option.splits)
  have "states \<noteq> []" using atomicWrite_last(1) [of env windows n path data fs] assms(1) by simp
  then have l: "last states \<in> set states" by simp
  show "\<forall>q. q \<noteq> path \<and> q \<noteq> tmp \<and> keptFile env fs q \<longrightarrow> (last states) q = fs q"
    using atomicWrite_states [of env fs _ "last states" windows n path data] assms(1,2) l by auto
qed

definition sampleEnv :: "(nat \<Rightarrow> string option) \<Rightarrow> string writeEnv" where
  "sampleEnv ren = \<lparr>weMkdir = None, weEntries = [''/c/.t-old'', ''/c/f''], weMatches = (\<lambda>p. p = ''/c/.t-old''),
     weInfoFails = (\<lambda>_. False), weTemp = Inr ''/c/.t-1'', weWrite = None, weClose = None,
     weRename = ren, weRemoveFails = (\<lambda>_. False), weNow = 2 * StaleTempAge\<rparr>"

definition sampleFiles :: fileSystem where
  "sampleFiles = [''/c/f'' \<mapsto> \<lparr>fileData = [1], fileModTime = 0, fileIsDir = False\<rparr>,
     ''/c/.t-old'' \<mapsto> \<lparr>fileData = [2], fileModTime = 0, fileIsDir = False\<rparr>]"

text \<open>A rename that fails twice and then succeeds.\<close>

definition thirdTime :: "nat \<Rightarrow> string option" where
  "thirdTime i = (if i < 3 then Some ''sharing violation'' else None)"

lemma atomic_write_all_or_nothing_witness:
  "last (snd (atomicWrite (sampleEnv thirdTime) True 0 ''/c/f'' [9, 9] sampleFiles)) ''/c/f''
     = Some (tempFile [9, 9] (sampleEnv thirdTime))
   \<and> last (snd (atomicWrite (sampleEnv thirdTime) False 0 ''/c/f'' [9, 9] sampleFiles)) ''/c/f''
     = sampleFiles ''/c/f''"
proof -
  have k: "keptFile (sampleEnv thirdTime) sampleFiles ''/c/f''"
    "\<And>tmp. weTemp (sampleEnv thirdTime) = Inr tmp \<Longrightarrow> tmp \<noteq> ''/c/f''"
    by (auto simp: keptFile_def sampleEnv_def)
  have e: "fst (atomicWrite (sampleEnv thirdTime) True 0 ''/c/f'' [9, 9] sampleFiles) = None"
    "fst (atomicWrite (sampleEnv thirdTime) False 0 ''/c/f'' [9, 9] sampleFiles) \<noteq> None"
    by (simp_all add: atomicWrite_def sampleEnv_def DefaultAttempts_def renameLoop.simps thirdTime_def Let_def)
  show ?thesis
    using atomic_write_all_or_nothing [OF k, of True 0 "[9, 9]" None] 
      atomic_write_all_or_nothing [OF k, of False 0 "[9, 9]"] e
    by (cases "atomicWrite (sampleEnv thirdTime) True 0 ''/c/f'' [9, 9] sampleFiles";
        cases "atomicWrite (sampleEnv thirdTime) False 0 ''/c/f'' [9, 9] sampleFiles") auto
qed

lemma atomic_write_cleans_up_witness:
  "last (snd (atomicWrite (sampleEnv thirdTime) False 0 ''/c/f'' [9] sampleFiles)) ''/c/.t-1'' = None"
proof -
  obtain err states where w: "atomicWrite (sampleEnv thirdTime) False 0 ''/c/f'' [9] sampleFiles = (err, states)"
    by (cases "atomicWrite (sampleEnv thirdTime) False 0 ''/c/f'' [9] sampleFiles")
  from atomic_write_cleans_up [OF w, of "''/c/.t-1''"] w show ?thesis
    by (simp add: sampleEnv_def sampleFiles_def)
qed

end
