(* ===== verification/RecentFiles.thy ===== *)
theory RecentFiles
  imports Paths AtomicFile
begin

text \<open>
  \<^verbatim>\<open>internal/recentfiles/recentfiles.go\<close>: the Open Recent list. The operating system's part (the
  working directory, letter-case folding, \<^verbatim>\<open>os.SameFile\<close> on two stats) is a record of parameters; JSON
  coding is a parameter too. An operation that takes the list's mutex more than once is given the
  list it finds each time, so a property about it holds for every interleaving with other callers.
\<close>

definition MaxEntries :: nat where
  "MaxEntries = 10"

record fileWorld =
  fwCwd :: "string option"
  fwIgnoresCase :: bool
  fwEqualFold :: "string \<Rightarrow> string \<Rightarrow> bool"
  fwStatSame :: "string \<Rightarrow> string \<Rightarrow> bool"

text \<open>\<open>normalize\<close>\<close>

definition normalizePath :: "fileWorld \<Rightarrow> string \<Rightarrow> string" where
  "normalizePath w path = (case pathAbs (fwCwd w) path of Some absPath \<Rightarrow> absPath | None \<Rightarrow> pathClean path)"

text \<open>\<open>fwStatSame\<close> says that both stats succeed and name one file.\<close>

definition sameFile :: "fileWorld \<Rightarrow> string \<Rightarrow> string \<Rightarrow> bool" where
  "sameFile w a b =
     (if a = b then True
      else if \<not> fwIgnoresCase w \<or> \<not> fwEqualFold w a b then False
      else fwStatSame w a b)"

fun loadEntries :: "fileWorld \<Rightarrow> string list \<Rightarrow> string list \<Rightarrow> string list" where
  "loadEntries w acc [] = acc"
| "loadEntries w acc (p # ps) =
     (if p = [] \<or> length acc = MaxEntries then loadEntries w acc ps
      else let q = normalizePath w p in
        if list_ex (\<lambda>r. sameFile w r q) acc then loadEntries w acc ps else loadEntries w (acc @ [q]) ps)"

text \<open>\<open>Load\<close>: the file's bytes, if it can be read, and the JSON decoder.\<close>

definition loadList :: "fileWorld \<Rightarrow> (byte list \<Rightarrow> string list option) \<Rightarrow> byte list option \<Rightarrow> string list" where
  "loadList w unmarshal file =
     (case file of None \<Rightarrow> [] | Some data \<Rightarrow>
        case unmarshal data of None \<Rightarrow> [] | Some paths \<Rightarrow> loadEntries w [] paths)"

text \<open>
  \<open>lockSameAs\<close>, given the list found at each pass of its loop: the entries for the same file, and the
  list under the lock it returns with. \<open>None\<close> when the passes end before the loop does.
\<close>

fun lockSameAs ::
  "fileWorld \<Rightarrow> string \<Rightarrow> string list \<Rightarrow> string list \<Rightarrow> string list list \<Rightarrow> (string list \<times> string list) option" where
  "lockSameAs w p same checked [] = None"
| "lockSameAs w p same checked (paths # passes) =
     (let fresh = filter (\<lambda>q. q \<notin> set checked \<and> fwEqualFold w q p) paths in
      if fresh = [] then Some (same, paths)
      else lockSameAs w p (same @ filter (\<lambda>q. sameFile w q p) fresh) (checked @ fresh) passes)"

definition without :: "string list \<Rightarrow> string list \<Rightarrow> string list" where
  "without paths gone = filter (\<lambda>q. q \<notin> set gone) paths"

definition listAdd :: "fileWorld \<Rightarrow> string \<Rightarrow> string list list \<Rightarrow> string list option" where
  "listAdd w path passes =
     (let p = normalizePath w path in
      case lockSameAs w p [p] [p] passes of
        None \<Rightarrow> None
      | Some (same, paths) \<Rightarrow>
          let l = p # without paths same in
          Some (if length l > MaxEntries then take MaxEntries l else l))"

definition listRemove :: "fileWorld \<Rightarrow> string \<Rightarrow> string list list \<Rightarrow> string list option" where
  "listRemove w path passes =
     (let p = normalizePath w path in
      case lockSameAs w p [p] [p] passes of
        None \<Rightarrow> None
      | Some (same, paths) \<Rightarrow> Some (without paths same))"

definition listClear :: "string list \<Rightarrow> string list" where
  "listClear paths = []"

text \<open>\<open>Save\<close>: the list is copied under the mutex and written atomically.\<close>

definition listSave ::
  "(string list \<Rightarrow> byte list) \<Rightarrow> 'e writeEnv \<Rightarrow> bool \<Rightarrow> string \<Rightarrow> string list \<Rightarrow> fileSystem
     \<Rightarrow> 'e option \<times> fileSystem list" where
  "listSave marshal env windows path paths fs = atomicWrite env windows 0 path (marshal paths) fs"

section \<open>What an entry of the list is\<close>

text \<open>What the code relies on of letter-case folding and of \<^verbatim>\<open>os.SameFile\<close>: both are symmetric.\<close>

definition saneWorld :: "fileWorld \<Rightarrow> bool" where
  "saneWorld w \<longleftrightarrow> (\<forall>a b. fwEqualFold w a b = fwEqualFold w b a) \<and> (\<forall>a b. fwStatSame w a b = fwStatSame w b a)
     \<and> (\<forall>d. fwCwd w = Some d \<longrightarrow> isAbs d)"

lemma sameFile_sym: "saneWorld w \<Longrightarrow> sameFile w a b = sameFile w b a"
  unfolding saneWorld_def sameFile_def by metis

lemma sameFile_refl [simp]: "sameFile w p p"
  by (simp add: sameFile_def)

lemma sameFile_fold: "sameFile w q p \<Longrightarrow> q = p \<or> fwEqualFold w q p"
  by (simp add: sameFile_def split: if_split_asm)

text \<open>The list: at most ten normalized entries, no two for one file.\<close>

definition recentList :: "fileWorld \<Rightarrow> string list \<Rightarrow> bool" where
  "recentList w l \<longleftrightarrow> length l \<le> MaxEntries \<and> sorted_wrt (\<lambda>a b. \<not> sameFile w a b) l
     \<and> (\<forall>p \<in> set l. normalizePath w p = p \<and> p \<noteq> [])"

lemma isAbs_pathClean [simp]: "isAbs (pathClean p) = isAbs p"
  using isAbs_joinSep [OF cleanParts_split [of p]]
  by (auto simp: pathClean_def Let_def isAbs_def dot_def sep_def)

lemma pathClean_ne [simp]: "pathClean p \<noteq> []"
  by (simp add: pathClean_def Let_def dot_def)

lemma pathJoin_abs: "isAbs d \<Longrightarrow> \<exists>x. pathJoin [d, p] = pathClean x \<and> isAbs x"
  by (auto simp: pathJoin_def isAbs_def split: list.split_asm)

lemma normalizePath_idem:
  assumes "saneWorld w"
  shows "normalizePath w (normalizePath w p) = normalizePath w p" "normalizePath w p \<noteq> []"
proof -
  have "normalizePath w (normalizePath w p) = normalizePath w p \<and> normalizePath w p \<noteq> []"
  proof (cases "isAbs p")
    case True
    then show ?thesis by (simp add: normalizePath_def pathAbs_def)
  next
    case False
    show ?thesis
    proof (cases "fwCwd w")
      case None
      with False show ?thesis by (simp add: normalizePath_def pathAbs_def)
    next
      case (Some d)
      with assms have "isAbs d" by (simp add: saneWorld_def)
      from pathJoin_abs [OF this, of p] obtain x where "pathJoin [d, p] = pathClean x" "isAbs x" by blast
      with False Some show ?thesis by (simp add: normalizePath_def pathAbs_def)
    qed
  qed
  then show "normalizePath w (normalizePath w p) = normalizePath w p" "normalizePath w p \<noteq> []" by auto
qed

lemma loadEntries_recent:
  "saneWorld w \<Longrightarrow> recentList w acc \<Longrightarrow> recentList w (loadEntries w acc ps)"
proof (induction w acc ps rule: loadEntries.induct)
  case (2 w acc p ps)
  let ?q = "normalizePath w p"
  have "recentList w (acc @ [?q])" if "length acc \<noteq> MaxEntries" "\<not> list_ex (\<lambda>r. sameFile w r ?q) acc"
    using "2.prems"(2) that
    by (auto simp: normalizePath_idem [OF "2.prems"(1)] recentList_def sorted_wrt_append list_ex_iff)
  with 2 show ?case by (auto simp: Let_def)
qed simp

lemma loadEntries_id:
  assumes "recentList w (acc @ ps)"
  shows "loadEntries w acc ps = acc @ ps"
  using assms
proof (induction ps arbitrary: acc)
  case (Cons p ps)
  then have p: "p \<noteq> []" "normalizePath w p = p" "length acc < MaxEntries"
    "\<not> list_ex (\<lambda>r. sameFile w r p) acc"
    by (auto simp: recentList_def sorted_wrt_append list_ex_iff)
  from Cons.IH [of "acc @ [p]"] Cons.prems p show ?case by simp
qed simp

text \<open>
  The loop that stats case variants outside the mutex: when it returns, \<open>same\<close> decides every entry of
  the list that the returned lock guards, whatever the earlier passes found.
\<close>

lemma lockSameAs_decides:
  assumes "lockSameAs w p same checked passes = Some (same', paths)"
    "set same \<subseteq> set checked" "p \<in> set same" "\<forall>q \<in> set checked. q \<in> set same \<longleftrightarrow> sameFile w q p"
  shows "\<forall>q \<in> set paths. q \<in> set same' \<longleftrightarrow> sameFile w q p" "paths \<in> set passes"
proof -
  have "(\<forall>q \<in> set paths. q \<in> set same' \<longleftrightarrow> sameFile w q p) \<and> paths \<in> set passes"
    using assms
  proof (induction w p same checked passes rule: lockSameAs.induct)
    case (2 w p same checked paths0 passes)
    let ?fresh = "filter (\<lambda>q. q \<notin> set checked \<and> fwEqualFold w q p) paths0"
    show ?case
    proof (cases "?fresh = []")
      case True
      then have eq: "same' = same" "paths = paths0" using 2(2) by (auto simp: Let_def)
      have "q \<in> set same \<longleftrightarrow> sameFile w q p" if "q \<in> set paths0" for q
      proof (cases "q \<in> set checked")
        case False
        with True that have "\<not> fwEqualFold w q p" by (auto simp: filter_empty_conv)
        with sameFile_fold [of w q p] False 2(3,4) show ?thesis by auto
      qed (use 2(5) in blast)
      with eq show ?thesis by simp
    next
      case False
      have l: "lockSameAs w p (same @ filter (\<lambda>q. sameFile w q p) ?fresh) (checked @ ?fresh) passes = Some (same', paths)"
        using 2(2) False by (simp add: Let_def)
      have "(\<forall>q \<in> set paths. q \<in> set same' \<longleftrightarrow> sameFile w q p) \<and> paths \<in> set passes"
        by (rule 2(1) [OF refl False l]) (use 2(3-5) in auto)
      then show ?thesis by simp
    qed
  qed simp
  then show "\<forall>q \<in> set paths. q \<in> set same' \<longleftrightarrow> sameFile w q p" "paths \<in> set passes" by auto
qed

lemma lockSameAs_start:
  assumes "lockSameAs w p [p] [p] passes = Some (same, paths)"
  shows "without paths same = filter (\<lambda>q. \<not> sameFile w q p) paths" "paths \<in> set passes"
  using lockSameAs_decides [OF assms] by (auto simp: without_def cong: filter_cong)

text \<open>With the list left alone by others, two passes are enough.\<close>

lemma lockSameAs_alone: "\<exists>same. lockSameAs w p same0 checked [paths, paths] = Some (same, paths)"
proof -
  let ?fresh = "filter (\<lambda>q. q \<notin> set checked \<and> fwEqualFold w q p) paths"
  have "filter (\<lambda>q. q \<notin> set (checked @ ?fresh) \<and> fwEqualFold w q p) paths = []"
    by (auto simp: filter_empty_conv)
  then show ?thesis by (cases "?fresh = []") (simp_all add: Let_def)
qed

lemma take_max: "(if length l > n then take n l else l) = take n l"
  by simp

section \<open>Properties\<close>

text \<open>A volume that ignores case, with one file under two spellings.\<close>

definition macWorld :: fileWorld where
  "macWorld = \<lparr>fwCwd = Some ''/home'', fwIgnoresCase = True,
     fwEqualFold = (\<lambda>a b. {a, b} \<subseteq> {''/A.pdf'', ''/a.pdf''} \<or> a = b),
     fwStatSame = (\<lambda>a b. True)\<rparr>"

lemma macWorld_sane: "saneWorld macWorld"
  by (auto simp: saneWorld_def macWorld_def isAbs_def sep_def)

text \<open>
  \<open>Add\<close> is one atomic move to the front, however its passes interleave with other callers:
  the list it leaves is the normalized path, then the entries of the list it found at its last pass
  that do not name the same file, in their order, cut to ten. The stats made with the mutex released
  cannot make it act on a list it did not check. When no other caller touches the list, two passes are
  enough for it to return.
\<close>

theorem add_moves_to_front:
  assumes "listAdd w path passes = Some l"
  shows "(\<exists>paths \<in> set passes. l = take MaxEntries
      (normalizePath w path # filter (\<lambda>q. \<not> sameFile w q (normalizePath w path)) paths))
    \<and> (\<exists>l'. listAdd w path [paths, paths] = Some l')"
proof -
  let ?p = "normalizePath w path"
  obtain same found where s: "lockSameAs w ?p [?p] [?p] passes = Some (same, found)"
    "l = take MaxEntries (?p # without found same)"
    using assms unfolding listAdd_def Let_def take_max by (auto split: option.split_asm)
  obtain same' where "lockSameAs w ?p [?p] [?p] [paths, paths] = Some (same', paths)"
    using lockSameAs_alone by blast
  then have "\<exists>l'. listAdd w path [paths, paths] = Some l'"
    by (simp add: listAdd_def Let_def del: lockSameAs.simps)
  with s lockSameAs_start [OF s(1)] show ?thesis by auto
qed

text \<open>
  Claim C10. The list stays a list of at most ten distinct files: every operation, under every
  interleaving, keeps the entries normalized and non-empty, at most ten of them, and no two for one
  file; and \<open>Load\<close> gives such a list whatever the file holds.
\<close>

theorem recent_list_invariant:
  assumes "saneWorld w" "\<forall>paths \<in> set passes. recentList w paths"
  shows "(case listAdd w path passes of None \<Rightarrow> True | Some l \<Rightarrow> recentList w l)
    \<and> (case listRemove w path passes of None \<Rightarrow> True | Some l \<Rightarrow> recentList w l)
    \<and> recentList w (loadList w unmarshal file)"
proof (intro conjI)
  let ?p = "normalizePath w path"
  have r: "recentList w (filter (\<lambda>q. \<not> sameFile w q ?p) paths)" if "recentList w paths" for paths
    using that order_trans [OF length_filter_le [of _ paths]] by (simp add: recentList_def sorted_wrt_filter)
  show "case listAdd w path passes of None \<Rightarrow> True | Some l \<Rightarrow> recentList w l"
  proof (cases "listAdd w path passes")
    case (Some l)
    obtain same paths where s: "lockSameAs w ?p [?p] [?p] passes = Some (same, paths)"
      "l = take MaxEntries (?p # without paths same)"
      using Some unfolding listAdd_def Let_def take_max by (auto split: option.split_asm)
    have "recentList w paths" using assms(2) lockSameAs_start(2) [OF s(1)] by blast
    from r [OF this] have f: "recentList w (without paths same)" by (simp add: lockSameAs_start [OF s(1)])
    have "sorted_wrt (\<lambda>a b. \<not> sameFile w a b) (?p # without paths same)"
      using f sameFile_sym [OF assms(1)] by (auto simp add: recentList_def lockSameAs_start(1) [OF s(1)])
    then have sw: "sorted_wrt (\<lambda>a b. \<not> sameFile w a b) (take MaxEntries (?p # without paths same))"
      by (rule sorted_wrt_take)
    have "\<forall>q \<in> set (?p # without paths same). normalizePath w q = q \<and> q \<noteq> []"
      using f by (simp add: recentList_def normalizePath_idem [OF assms(1)])
    with set_take_subset [of MaxEntries "?p # without paths same"]
    have "\<forall>q \<in> set (take MaxEntries (?p # without paths same)). normalizePath w q = q \<and> q \<noteq> []" by blast
    moreover have "length (take MaxEntries (?p # without paths same)) \<le> MaxEntries" by simp
    ultimately have "recentList w (take MaxEntries (?p # without paths same))"
      using sw unfolding recentList_def by blast
    with Some s(2) show ?thesis by simp
  qed simp
  show "case listRemove w path passes of None \<Rightarrow> True | Some l \<Rightarrow> recentList w l"
  proof (cases "listRemove w path passes")
    case (Some l)
    obtain same paths where s: "lockSameAs w ?p [?p] [?p] passes = Some (same, paths)" "l = without paths same"
      using Some unfolding listRemove_def Let_def by (auto split: option.split_asm)
    have "recentList w paths" using assms(2) lockSameAs_start(2) [OF s(1)] by blast
    with r [OF this] Some s(2) show ?thesis by (simp add: lockSameAs_start(1) [OF s(1)])
  qed simp
  have "recentList w []" by (simp add: recentList_def)
  then show "recentList w (loadList w unmarshal file)"
    by (auto simp: loadList_def loadEntries_recent [OF assms(1)] split: option.split)
qed

definition caselessAdd :: "string list" where
  "caselessAdd = [''/x.pdf'', ''/a.pdf'']"

lemma caselessAdd_recent: "recentList macWorld caselessAdd"
  by (simp add: recentList_def caselessAdd_def macWorld_def MaxEntries_def sameFile_def normalizePath_def
      pathAbs_def pathClean_def isAbs_def sep_def dot_def dotdot_def)

lemma recent_list_invariant_witness:
  "recentList macWorld (loadList macWorld (\<lambda>_. Some [''/x.pdf'', [], ''/b/../x.pdf'', ''a'']) (Some []))
   \<and> (case listRemove macWorld ''/A.pdf'' [caselessAdd, caselessAdd] of None \<Rightarrow> True | Some l \<Rightarrow> recentList macWorld l)"
  using recent_list_invariant [OF macWorld_sane, of "[caselessAdd, caselessAdd]" "''/A.pdf''"
      "\<lambda>_. Some [''/x.pdf'', [], ''/b/../x.pdf'', ''a'']" "Some []"] caselessAdd_recent
  by simp

text \<open>
  A saved list loads as it was: after a \<open>Save\<close> that reports success, \<open>Load\<close> of the file
  gives back the same entries in the same order (for a JSON coding that decodes what it encodes).
\<close>

theorem recent_save_load:
  assumes "recentList w l" "unmarshal (marshal l) = Some l"
    "keptFile env fs path" "\<And>tmp. weTemp env = Inr tmp \<Longrightarrow> tmp \<noteq> path"
    "listSave marshal env windows path l fs = (None, states)"
  shows "loadList w unmarshal (map_option fileData (last states path)) = l"
proof -
  have "last states path = Some (tempFile (marshal l) env)"
    using write_final [OF assms(3,4), of windows 0 "marshal l" None states] assms(5)
    by (simp add: listSave_def)
  then show ?thesis
    using loadEntries_id [of w "[]" l] assms(1,2) by (simp add: loadList_def tempFile_def)
qed

lemma add_moves_to_front_witness:
  "listAdd macWorld ''/./A.pdf'' [[''/x.pdf''], [''/x.pdf'', ''/a.pdf''], [''/x.pdf'', ''/a.pdf'']]
     = Some [''/A.pdf'', ''/x.pdf'']"
proof -
  obtain l where l: "listAdd macWorld ''/./A.pdf'' [[''/x.pdf''], [''/x.pdf'', ''/a.pdf''], [''/x.pdf'', ''/a.pdf'']] = Some l"
    "length l = 2"
    by (simp add: listAdd_def macWorld_def normalizePath_def pathAbs_def pathClean_def isAbs_def sep_def
        dot_def sameFile_def without_def MaxEntries_def dotdot_def)
  have "normalizePath macWorld ''/./A.pdf'' = ''/A.pdf''"
    by (simp add: macWorld_def normalizePath_def pathAbs_def pathClean_def isAbs_def sep_def dot_def dotdot_def)
  with add_moves_to_front [OF l(1)] l show ?thesis
    by (auto simp: MaxEntries_def macWorld_def sameFile_def)
qed

lemma recent_save_load_witness:
  "loadList macWorld (\<lambda>d. if d = [1, 2] then Some caselessAdd else None) (map_option fileData
     (last (snd (listSave (\<lambda>_. [1, 2]) (sampleEnv (\<lambda>_. None)) False ''/c/f'' caselessAdd sampleFiles)) ''/c/f''))
   = caselessAdd"
proof -
  have "fst (listSave (\<lambda>_. [1, 2]) (sampleEnv (\<lambda>_. None)) False ''/c/f'' caselessAdd sampleFiles) = None"
    by (simp add: listSave_def atomicWrite_def sampleEnv_def renameLoop.simps Let_def)
  then obtain states where s: "listSave (\<lambda>_. [1, 2]) (sampleEnv (\<lambda>_. None)) False ''/c/f'' caselessAdd sampleFiles = (None, states)"
    by (cases "listSave (\<lambda>_. [1, 2]) (sampleEnv (\<lambda>_. None)) False ''/c/f'' caselessAdd sampleFiles") simp
  have k: "keptFile (sampleEnv (\<lambda>_. None)) sampleFiles ''/c/f''"
    by (simp add: keptFile_def sampleEnv_def)
  have t: "tmp \<noteq> ''/c/f''" if "weTemp (sampleEnv (\<lambda>_. None)) = Inr tmp" for tmp
    using that by (auto simp: sampleEnv_def)
  show ?thesis
    using recent_save_load [where unmarshal = "\<lambda>d. if d = [1, 2] then Some caselessAdd else None",
        OF caselessAdd_recent _ k t s] s by simp
qed

end
