(* ===== verification/RecentFlush.thy ===== *)
theory RecentFlush
  imports Prelude
begin

text \<open>
  \<^verbatim>\<open>recentflush.go\<close>: when the Open Recent list is saved and its menu rebuilt. Every stretch of code
  under the flusher's mutex is one step; the save itself runs between two of them with the mutex
  released. Threads are the timer's goroutines, the callers of \<^verbatim>\<open>SaveNow\<close> and the caller of \<^verbatim>\<open>Close\<close>.
  Time is a count of clock ticks.
\<close>

section \<open>The flusher\<close>

text \<open>
  Where a thread is. \<open>TimerFlush\<close>: the timer fired and \<open>flush(false)\<close> has not locked yet.
  \<open>TimerSave c\<close>, \<open>CallerSave\<close>, \<open>CloserSave\<close>: inside \<open>f.save()\<close>, where \<open>c\<close> counts the changes the list
  had when the save was decided. A caller of \<^verbatim>\<open>SaveNow\<close> carries the number of the save it waits for and
  its own change; the closer carries the changes there were when \<^verbatim>\<open>Close\<close> was called.
\<close>

datatype flushThread =
    TimerFlush
  | TimerSave nat
  | CallerLoop nat nat
  | CallerSave nat nat nat
  | CallerWait nat nat
  | CallerDone nat nat
  | CloserWait nat
  | CloserSave nat nat
  | CloserDone nat

text \<open>
  \<open>rfChanges\<close> counts the changes of the list so far, and \<open>rfSaved\<close> the changes the file on disk has.
\<close>

record flusher =
  rfDelay :: nat
  rfMaxHold :: nat
  rfTimer :: "nat option"
  rfOpens :: "(nat \<times> nat) list"
  rfNextOpen :: nat
  rfDirty :: bool
  rfSaving :: bool
  rfStarted :: nat
  rfFinished :: nat
  rfClosed :: bool
  rfNow :: nat
  rfChanges :: nat
  rfSaved :: nat
  rfThreads :: "nat \<Rightarrow> flushThread option"
  rfQueuedRebuilds :: nat
  rfRebuilds :: nat

definition newRecentFlusher :: "nat \<Rightarrow> nat \<Rightarrow> flusher" where
  "newRecentFlusher delay maxHold = \<lparr>rfDelay = delay, rfMaxHold = maxHold, rfTimer = None, rfOpens = [],
     rfNextOpen = 0, rfDirty = False, rfSaving = False, rfStarted = 0, rfFinished = 0, rfClosed = False,
     rfNow = 0, rfChanges = 0, rfSaved = 0, rfThreads = Map.empty, rfQueuedRebuilds = 0, rfRebuilds = 0\<rparr>"

definition heldUntil :: "flusher \<Rightarrow> nat \<times> bool" where
  "heldUntil f =
     (let newest = fold (\<lambda>(_, start) n. if start > n then start else n) (rfOpens f) 0;
          until = newest + rfMaxHold f
      in (until, rfOpens f \<noteq> [] \<and> rfNow f < until))"

definition rfArm :: "flusher \<Rightarrow> flusher" where
  "rfArm f =
     (if rfClosed f then f
      else let (until, held) = heldUntil f in
        f\<lparr>rfTimer := Some (rfNow f + (if held then until - rfNow f else rfDelay f))\<rparr>)"

definition rfRecord :: "flusher \<Rightarrow> flusher" where
  "rfRecord f = rfArm (f\<lparr>rfDirty := True, rfChanges := rfChanges f + 1\<rparr>)"

definition openStarted :: "flusher \<Rightarrow> flusher" where
  "openStarted f = f\<lparr>rfNextOpen := rfNextOpen f + 1, rfOpens := (rfNextOpen f, rfNow f) # rfOpens f\<rparr>"

definition openEnded :: "nat \<Rightarrow> flusher \<Rightarrow> flusher" where
  "openEnded oid f =
     (let wasHeld = snd (heldUntil f);
          f1 = f\<lparr>rfOpens := filter (\<lambda>(i, _). i \<noteq> oid) (rfOpens f)\<rparr>
      in if rfDirty f1 \<and> wasHeld then rfArm f1 else f1)"

text \<open>\<open>flush\<close> up to the save: whether it goes on to save, and the state it unlocks with.\<close>

definition flushEnter :: "bool \<Rightarrow> flusher \<Rightarrow> bool \<times> flusher" where
  "flushEnter force f =
     (let held = snd (heldUntil f) in
      if rfClosed f \<or> \<not> rfDirty f \<or> rfSaving f \<or> (\<not> force \<and> held) then
        (False, if held \<and> rfDirty f \<and> \<not> rfSaving f \<and> \<not> rfClosed f then rfArm f else f)
      else (True, f\<lparr>rfDirty := False, rfSaving := True, rfStarted := rfStarted f + 1\<rparr>))"

text \<open>\<open>flush\<close> from the end of the save on; \<open>saved\<close> is what the save wrote.\<close>

definition flushLeave :: "nat \<Rightarrow> flusher \<Rightarrow> flusher" where
  "flushLeave saved f =
     (let f1 = f\<lparr>rfSaved := saved, rfSaving := False, rfFinished := rfFinished f + 1\<rparr>;
          f2 = (if rfDirty f1 then rfArm f1 else f1)
      in f2\<lparr>rfQueuedRebuilds := rfQueuedRebuilds f2 + 1\<rparr>)"

definition mainRebuild :: "flusher \<Rightarrow> flusher" where
  "mainRebuild f = f\<lparr>rfQueuedRebuilds := rfQueuedRebuilds f - 1,
     rfRebuilds := (if rfClosed f then rfRebuilds f else rfRebuilds f + 1)\<rparr>"

definition saveNowEnter :: "flusher \<Rightarrow> nat \<times> flusher" where
  "saveNowEnter f = (rfStarted f + 1, f\<lparr>rfDirty := True, rfChanges := rfChanges f + 1\<rparr>)"

definition closeEnter :: "flusher \<Rightarrow> flusher" where
  "closeEnter f = f\<lparr>rfClosed := True, rfTimer := None\<rparr>"

abbreviation setThread :: "nat \<Rightarrow> flushThread \<Rightarrow> flusher \<Rightarrow> flusher" where
  "setThread t th f \<equiv> f\<lparr>rfThreads := (rfThreads f)(t \<mapsto> th)\<rparr>"

inductive flushStep :: "flusher \<Rightarrow> flusher \<Rightarrow> bool" where
  fs_time: "rfNow f \<le> now \<Longrightarrow> flushStep f (f\<lparr>rfNow := now\<rparr>)"
| fs_record: "flushStep f (rfRecord f)"
| fs_open: "flushStep f (openStarted f)"
| fs_opened: "flushStep f (openEnded oid f)"
| fs_fire: "rfTimer f = Some at \<Longrightarrow> at \<le> rfNow f \<Longrightarrow> rfThreads f t = None \<Longrightarrow>
    flushStep f (setThread t TimerFlush (f\<lparr>rfTimer := None\<rparr>))"
| fs_timer_skip: "rfThreads f t = Some TimerFlush \<Longrightarrow> flushEnter False f = (False, f') \<Longrightarrow>
    flushStep f (f'\<lparr>rfThreads := (rfThreads f')(t := None)\<rparr>)"
| fs_timer_save: "rfThreads f t = Some TimerFlush \<Longrightarrow> flushEnter False f = (True, f') \<Longrightarrow>
    flushStep f (setThread t (TimerSave (rfChanges f)) f')"
| fs_timer_saved: "rfThreads f t = Some (TimerSave c) \<Longrightarrow>
    flushStep f (flushLeave c (f\<lparr>rfThreads := (rfThreads f)(t := None)\<rparr>))"
| fs_call: "rfThreads f t = None \<Longrightarrow> saveNowEnter f = (want, f') \<Longrightarrow>
    flushStep f (setThread t (CallerLoop want (rfChanges f')) f')"
| fs_call_skip: "rfThreads f t = Some (CallerLoop want chg) \<Longrightarrow> flushEnter True f = (False, f') \<Longrightarrow>
    flushStep f (setThread t (CallerWait want chg) f')"
| fs_call_save: "rfThreads f t = Some (CallerLoop want chg) \<Longrightarrow> flushEnter True f = (True, f') \<Longrightarrow>
    flushStep f (setThread t (CallerSave want chg (rfChanges f)) f')"
| fs_call_saved: "rfThreads f t = Some (CallerSave want chg c) \<Longrightarrow>
    flushStep f (flushLeave c (setThread t (CallerWait want chg) f))"
| fs_call_again: "rfThreads f t = Some (CallerWait want chg) \<Longrightarrow> \<not> (rfSaving f \<and> rfFinished f < want) \<Longrightarrow>
    \<not> (rfFinished f \<ge> want \<or> rfClosed f) \<Longrightarrow> flushStep f (setThread t (CallerLoop want chg) f)"
| fs_call_done: "rfThreads f t = Some (CallerWait want chg) \<Longrightarrow> \<not> (rfSaving f \<and> rfFinished f < want) \<Longrightarrow>
    rfFinished f \<ge> want \<or> rfClosed f \<Longrightarrow> flushStep f (setThread t (CallerDone want chg) f)"
| fs_close: "\<not> rfClosed f \<Longrightarrow> rfThreads f t = None \<Longrightarrow>
    flushStep f (setThread t (CloserWait (rfChanges f)) (closeEnter f))"
| fs_close_save: "rfThreads f t = Some (CloserWait n) \<Longrightarrow> \<not> rfSaving f \<Longrightarrow> rfDirty f \<Longrightarrow>
    flushStep f (setThread t (CloserSave n (rfChanges f)) (f\<lparr>rfDirty := False\<rparr>))"
| fs_close_clean: "rfThreads f t = Some (CloserWait n) \<Longrightarrow> \<not> rfSaving f \<Longrightarrow> \<not> rfDirty f \<Longrightarrow>
    flushStep f (setThread t (CloserDone n) f)"
| fs_close_saved: "rfThreads f t = Some (CloserSave n c) \<Longrightarrow>
    flushStep f (setThread t (CloserDone n) (f\<lparr>rfSaved := c\<rparr>))"
| fs_rebuild: "0 < rfQueuedRebuilds f \<Longrightarrow> flushStep f (mainRebuild f)"

inductive flushReach :: "nat \<Rightarrow> nat \<Rightarrow> flusher \<Rightarrow> bool" for delay maxHold where
  fr_new: "flushReach delay maxHold (newRecentFlusher delay maxHold)"
| fr_step: "flushReach delay maxHold f \<Longrightarrow> flushStep f f' \<Longrightarrow> flushReach delay maxHold f'"

section \<open>The invariant\<close>

text \<open>What a thread inside a save is writing, and whether it holds \<open>rfSaving\<close>.\<close>

fun threadWrites :: "flushThread \<Rightarrow> nat option" where
  "threadWrites (TimerSave c) = Some c"
| "threadWrites (CallerSave want chg c) = Some c"
| "threadWrites (CloserSave n c) = Some c"
| "threadWrites _ = None"

fun threadFlushes :: "flushThread \<Rightarrow> bool" where
  "threadFlushes (TimerSave c) \<longleftrightarrow> True"
| "threadFlushes (CallerSave want chg c) \<longleftrightarrow> True"
| "threadFlushes _ \<longleftrightarrow> False"

fun threadCloser :: "flushThread \<Rightarrow> nat option" where
  "threadCloser (CloserWait n) = Some n"
| "threadCloser (CloserSave n c) = Some n"
| "threadCloser (CloserDone n) = Some n"
| "threadCloser _ = None"

text \<open>A thread that will run \<open>flush\<close> next.\<close>

fun threadWillFlush :: "flushThread \<Rightarrow> bool" where
  "threadWillFlush TimerFlush \<longleftrightarrow> True"
| "threadWillFlush (CallerLoop want chg) \<longleftrightarrow> True"
| "threadWillFlush _ \<longleftrightarrow> False"

fun threadWants :: "flushThread \<Rightarrow> (nat \<times> nat) option" where
  "threadWants (CallerLoop want chg) = Some (want, chg)"
| "threadWants (CallerSave want chg c) = Some (want, chg)"
| "threadWants (CallerWait want chg) = Some (want, chg)"
| "threadWants _ = None"

definition writing :: "(nat \<Rightarrow> flushThread option) \<Rightarrow> nat \<Rightarrow> nat \<Rightarrow> bool" where
  "writing ths t c \<longleftrightarrow> (\<exists>th. ths t = Some th \<and> threadWrites th = Some c)"

definition flushing :: "(nat \<Rightarrow> flushThread option) \<Rightarrow> nat \<Rightarrow> bool" where
  "flushing ths t \<longleftrightarrow> (\<exists>th. ths t = Some th \<and> threadFlushes th)"

text \<open>At most one save runs, it is known as \<open>rfSaving\<close> unless it is the closer's, and between them the
  file, the running save and \<open>rfDirty\<close> account for every change.\<close>

definition save_inv :: "flusher \<Rightarrow> bool" where
  "save_inv f \<longleftrightarrow>
     (\<forall>t t' c c'. writing (rfThreads f) t c \<and> writing (rfThreads f) t' c' \<longrightarrow> t = t') \<and>
     (rfSaving f \<longleftrightarrow> (\<exists>t. flushing (rfThreads f) t)) \<and>
     rfStarted f = rfFinished f + (if rfSaving f then 1 else 0) \<and>
     rfSaved f \<le> rfChanges f \<and>
     (\<forall>t c. writing (rfThreads f) t c \<longrightarrow> rfSaved f \<le> c \<and> c \<le> rfChanges f) \<and>
     (rfDirty f \<or> rfChanges f = rfSaved f \<or> (\<exists>t. writing (rfThreads f) t (rfChanges f)))"

definition arm_inv :: "flusher \<Rightarrow> bool" where
  "arm_inv f \<longleftrightarrow> (rfDirty f \<and> \<not> rfClosed f \<and> \<not> rfSaving f \<longrightarrow>
     (\<exists>at. rfTimer f = Some at) \<or> (\<exists>t th. rfThreads f t = Some th \<and> threadWillFlush th))"

definition want_inv :: "flusher \<Rightarrow> bool" where
  "want_inv f \<longleftrightarrow> (\<forall>t th want chg. rfThreads f t = Some th \<and> threadWants th = Some (want, chg) \<longrightarrow>
     chg \<le> rfChanges f \<and> want \<le> rfStarted f + 1
     \<and> (want \<le> rfFinished f \<longrightarrow> chg \<le> rfSaved f)
     \<and> (\<forall>t' c. rfSaving f \<and> want \<le> rfStarted f \<and> writing (rfThreads f) t' c \<longrightarrow> chg \<le> c))"

definition closer_inv :: "flusher \<Rightarrow> bool" where
  "closer_inv f \<longleftrightarrow>
     (\<forall>t th. rfThreads f t = Some th \<and> threadCloser th \<noteq> None \<longrightarrow> rfClosed f
        \<and> the (threadCloser th) \<le> rfChanges f \<and> (threadWrites th \<noteq> None \<longrightarrow> \<not> rfSaving f)) \<and>
     (\<forall>t th t' th'. rfThreads f t = Some th \<and> threadCloser th \<noteq> None
        \<and> rfThreads f t' = Some th' \<and> threadCloser th' \<noteq> None \<longrightarrow> t = t') \<and>
     (\<forall>t n c. rfThreads f t = Some (CloserSave n c) \<longrightarrow> n \<le> c)"

definition done_inv :: "flusher \<Rightarrow> bool" where
  "done_inv f \<longleftrightarrow>
     (\<forall>t want chg. rfThreads f t = Some (CallerDone want chg) \<longrightarrow> rfClosed f \<or> chg \<le> rfSaved f) \<and>
     (\<forall>t n. rfThreads f t = Some (CloserDone n) \<longrightarrow> n \<le> rfSaved f)"

section \<open>Every step keeps it\<close>

lemma writing_upd [simp]:
  "writing (ths(t \<mapsto> th)) t' c \<longleftrightarrow> (if t' = t then threadWrites th = Some c else writing ths t' c)"
  "writing (ths(t := None)) t' c \<longleftrightarrow> t' \<noteq> t \<and> writing ths t' c"
  by (auto simp: writing_def)

lemma flushing_upd [simp]:
  "flushing (ths(t \<mapsto> th)) t' \<longleftrightarrow> (if t' = t then threadFlushes th else flushing ths t')"
  "flushing (ths(t := None)) t' \<longleftrightarrow> t' \<noteq> t \<and> flushing ths t'"
  by (auto simp: flushing_def)

lemma flushing_writes: "flushing ths t \<Longrightarrow> \<exists>c. writing ths t c"
  by (auto simp: flushing_def writing_def elim: threadFlushes.elims)

lemma thread_at:
  "ths t = Some th \<Longrightarrow> writing ths t c \<longleftrightarrow> threadWrites th = Some c"
  "ths t = Some th \<Longrightarrow> flushing ths t \<longleftrightarrow> threadFlushes th"
  "ths t = None \<Longrightarrow> \<not> writing ths t c" "ths t = None \<Longrightarrow> \<not> flushing ths t"
  by (auto simp: writing_def flushing_def)

lemma rfArm_frame [simp]:
  "rfThreads (rfArm f) = rfThreads f" "rfSaving (rfArm f) = rfSaving f" "rfDirty (rfArm f) = rfDirty f"
  "rfStarted (rfArm f) = rfStarted f" "rfFinished (rfArm f) = rfFinished f" "rfSaved (rfArm f) = rfSaved f"
  "rfChanges (rfArm f) = rfChanges f" "rfClosed (rfArm f) = rfClosed f"
  "(\<exists>at. rfTimer (rfArm f) = Some at) \<longleftrightarrow> \<not> rfClosed f \<or> (\<exists>at. rfTimer f = Some at)"
  by (simp_all add: rfArm_def split_beta)

lemma openEnded_frame [simp]:
  "rfThreads (openEnded oid f) = rfThreads f" "rfSaving (openEnded oid f) = rfSaving f"
  "rfDirty (openEnded oid f) = rfDirty f" "rfStarted (openEnded oid f) = rfStarted f"
  "rfFinished (openEnded oid f) = rfFinished f" "rfSaved (openEnded oid f) = rfSaved f"
  "rfChanges (openEnded oid f) = rfChanges f" "rfClosed (openEnded oid f) = rfClosed f"
  "\<exists>at. rfTimer f = Some at \<Longrightarrow> \<exists>at. rfTimer (openEnded oid f) = Some at"
  by (simp_all add: openEnded_def Let_def)

lemma flushEnter_no:
  assumes "flushEnter force f = (False, f')"
  shows "f' = f \<or> f' = rfArm f" "rfClosed f \<or> \<not> rfDirty f \<or> rfSaving f \<or> (\<not> force \<and> (\<exists>at. rfTimer f' = Some at))"
  using assms by (auto simp: flushEnter_def Let_def split: if_split_asm)

lemma flushEnter_yes:
  assumes "flushEnter force f = (True, f')"
  shows "f' = f\<lparr>rfDirty := False, rfSaving := True, rfStarted := rfStarted f + 1\<rparr>"
    "\<not> rfClosed f" "rfDirty f" "\<not> rfSaving f"
  using assms by (auto simp: flushEnter_def Let_def split: if_split_asm)

lemma flushLeave_frame [simp]:
  "rfThreads (flushLeave c f) = rfThreads f" "\<not> rfSaving (flushLeave c f)"
  "rfDirty (flushLeave c f) = rfDirty f" "rfStarted (flushLeave c f) = rfStarted f"
  "rfFinished (flushLeave c f) = rfFinished f + 1" "rfSaved (flushLeave c f) = c"
  "rfChanges (flushLeave c f) = rfChanges f" "rfClosed (flushLeave c f) = rfClosed f"
  "rfDirty f \<Longrightarrow> \<not> rfClosed f \<Longrightarrow> \<exists>at. rfTimer (flushLeave c f) = Some at"
  by (simp_all add: flushLeave_def Let_def)

lemmas rf_defs = rfRecord_def openStarted_def saveNowEnter_def closeEnter_def mainRebuild_def

lemma arm_invI:
  "(rfDirty f \<Longrightarrow> \<not> rfClosed f \<Longrightarrow> \<not> rfSaving f \<Longrightarrow>
     (\<exists>at. rfTimer f = Some at) \<or> (\<exists>t th. rfThreads f t = Some th \<and> threadWillFlush th)) \<Longrightarrow> arm_inv f"
  by (simp add: arm_inv_def)

lemma willFlush_upd:
  "threadWillFlush th \<Longrightarrow> \<exists>t' th'. (ths(t \<mapsto> th)) t' = Some th' \<and> threadWillFlush th'"
  "\<exists>t th. ths t = Some th \<and> threadWillFlush th \<Longrightarrow> (\<And>th. ths t = Some th \<Longrightarrow> \<not> threadWillFlush th)
    \<Longrightarrow> \<exists>t' th'. (ths(t := v)) t' = Some th' \<and> threadWillFlush th'"
  by (auto, metis)

lemma arm_inv_thread:
  assumes "arm_inv f" "\<And>th. rfThreads f t = Some th \<Longrightarrow> \<not> threadWillFlush th"
  shows "arm_inv (setThread t th f)"
proof (rule arm_invI)
  assume "rfDirty (setThread t th f)" "\<not> rfClosed (setThread t th f)" "\<not> rfSaving (setThread t th f)"
  then have "(\<exists>at. rfTimer f = Some at) \<or> (\<exists>t th. rfThreads f t = Some th \<and> threadWillFlush th)"
    using assms(1) by (simp add: arm_inv_def)
  with willFlush_upd(2) [of "rfThreads f" t "Some th"] assms(2)
  show "(\<exists>at. rfTimer (setThread t th f) = Some at)
    \<or> (\<exists>t' th'. rfThreads (setThread t th f) t' = Some th' \<and> threadWillFlush th')" by (auto simp del: fun_upd_apply)
qed

lemma arm_inv_step: "flushStep f f' \<Longrightarrow> arm_inv f \<Longrightarrow> arm_inv f'"
proof (induction rule: flushStep.induct)
  case (fs_timer_skip f t f')
  from flushEnter_no [OF fs_timer_skip(2)] show ?case by (intro arm_invI) auto
next
  case (fs_timer_save f t f')
  from flushEnter_yes [OF fs_timer_save(2)] show ?case by (intro arm_invI) auto
next
  case (fs_call_skip f t want chg f')
  from flushEnter_no [OF fs_call_skip(2)] show ?case by (intro arm_invI) auto
next
  case (fs_call_save f t want chg f')
  from flushEnter_yes [OF fs_call_save(2)] show ?case by (intro arm_invI) auto
next
  case (fs_call f t want f')
  show ?case by (rule arm_invI) (auto intro: willFlush_upd)
next
  case (fs_call_done f t want chg)
  then show ?case by (intro arm_inv_thread) auto
next
  case (fs_close_save f t n)
  then show ?case by (intro arm_invI) simp
next
  case (fs_close_clean f t n)
  then show ?case by (intro arm_inv_thread) auto
next
  case (fs_close_saved f t n c)
  then have "arm_inv (setThread t (CloserDone n) f)" by (intro arm_inv_thread) auto
  then show ?case by (simp add: arm_inv_def)
qed (auto simp: arm_inv_def rf_defs intro: willFlush_upd)

text \<open>The fields \<open>save_inv\<close> reads, but for the threads.\<close>

definition sameSaves :: "flusher \<Rightarrow> flusher \<Rightarrow> bool" where
  "sameSaves f f' \<longleftrightarrow> rfSaving f' = rfSaving f \<and> rfStarted f' = rfStarted f \<and> rfFinished f' = rfFinished f
     \<and> rfSaved f' = rfSaved f
     \<and> (rfDirty f' = rfDirty f \<and> rfChanges f' = rfChanges f \<or> rfDirty f' \<and> rfChanges f \<le> rfChanges f')"

definition quietThread :: "flushThread option \<Rightarrow> bool" where
  "quietThread v \<longleftrightarrow> (case v of None \<Rightarrow> True | Some th \<Rightarrow> threadWrites th = None)"

lemma save_inv_same:
  assumes "save_inv f" "sameSaves f f'" "rfThreads f' = rfThreads f"
  shows "save_inv f'"
proof -
  from assms(2) consider "rfDirty f' = rfDirty f \<and> rfChanges f' = rfChanges f"
    | "rfDirty f'" "rfChanges f \<le> rfChanges f'" by (auto simp: sameSaves_def)
  then show ?thesis
  proof cases
    case 1
    with assms show ?thesis by (simp add: save_inv_def sameSaves_def)
  next
    case 2
    have "rfSaved f \<le> c \<and> c \<le> rfChanges f'" if "writing (rfThreads f) t c" for t c
      using assms(1) 2(2) that unfolding save_inv_def by (meson order_trans)
    moreover have "rfSaved f \<le> rfChanges f'" using assms(1) 2(2) by (simp add: save_inv_def)
    ultimately show ?thesis using assms 2(1) by (simp add: save_inv_def sameSaves_def)
  qed
qed

lemma writing_quiet:
  assumes "quietThread (ths t)" "quietThread v"
  shows "writing (ths(t := v)) = writing ths" "flushing (ths(t := v)) = flushing ths"
proof -
  have f: "\<not> threadFlushes th" if "threadWrites th = None" for th using that by (cases th) auto
  show "writing (ths(t := v)) = writing ths" "flushing (ths(t := v)) = flushing ths"
    using assms f by (auto simp: writing_def flushing_def quietThread_def fun_eq_iff split: option.split_asm)
qed

lemma save_inv_thread:
  assumes "save_inv f" "sameSaves f f'" "rfThreads f' = (rfThreads f)(t := v)"
    "quietThread (rfThreads f t)" "quietThread v"
  shows "save_inv f'"
proof -
  have "save_inv (f'\<lparr>rfThreads := rfThreads f\<rparr>)"
    using assms(1,2) by (elim save_inv_same) (simp_all add: sameSaves_def)
  then show ?thesis by (simp add: save_inv_def assms(3) writing_quiet [where ths = "rfThreads f", OF assms(4,5)])
qed

lemma save_inv_enter:
  assumes "save_inv f" "\<not> rfSaving f" "rfDirty f" "quietThread (rfThreads f t)" "threadWrites th = Some (rfChanges f)"
    "threadFlushes th" "\<not> (\<exists>t c. writing (rfThreads f) t c)"
  shows "save_inv (setThread t th (f\<lparr>rfDirty := False, rfSaving := True, rfStarted := rfStarted f + 1\<rparr>))"
  using assms by (auto simp: save_inv_def)

lemma save_inv_leave:
  assumes "save_inv f" "rfThreads f t = Some th" "threadWrites th = Some c" "threadFlushes th"
    "rfThreads f' = (rfThreads f)(t := v)" "quietThread v"
    "rfSaved f' = c" "\<not> rfSaving f'" "rfFinished f' = rfFinished f + 1" "rfStarted f' = rfStarted f"
    "rfDirty f' = rfDirty f" "rfChanges f' = rfChanges f"
  shows "save_inv f'"
proof -
  have w: "writing (rfThreads f) t c" "flushing (rfThreads f) t" using assms(2-4) by (simp_all add: thread_at)
  then have only: "\<And>t' c'. writing (rfThreads f) t' c' \<Longrightarrow> t' = t \<and> c' = c"
    using assms(1,2,3) unfolding save_inv_def by (metis option.inject thread_at(1))
  have none: "\<not> writing (rfThreads f') t' c'" for t' c'
    using only [of t' c'] assms(5,6) by (cases v) (auto simp: quietThread_def writing_def split: if_split_asm)
  then have nof: "\<not> flushing (rfThreads f') t'" for t' using flushing_writes by blast
  have s: "rfSaving f" "rfStarted f = rfFinished f + 1" "rfSaved f \<le> c" "c \<le> rfChanges f"
    using assms(1) w unfolding save_inv_def by auto
  have "rfDirty f \<or> rfChanges f = rfSaved f \<or> rfChanges f = c"
    using assms(1) only unfolding save_inv_def by blast
  with s have "rfDirty f \<or> rfChanges f = c" by auto
  with s none nof show ?thesis unfolding save_inv_def using assms(7-12) by simp
qed

lemma closerD:
  assumes "closer_inv f" "rfThreads f t = Some th" "threadCloser th = Some n"
  shows "rfClosed f" "n \<le> rfChanges f" "threadWrites th = Some c \<Longrightarrow> \<not> rfSaving f"
    "rfThreads f t' = Some th' \<Longrightarrow> threadCloser th' = Some n' \<Longrightarrow> t' = t"
proof -
  have "rfClosed f \<and> the (threadCloser th) \<le> rfChanges f \<and> (threadWrites th \<noteq> None \<longrightarrow> \<not> rfSaving f)"
    using assms unfolding closer_inv_def by blast
  with assms(3) show "rfClosed f" "n \<le> rfChanges f" "threadWrites th = Some c \<Longrightarrow> \<not> rfSaving f" by simp_all
  show "t' = t" if "rfThreads f t' = Some th'" "threadCloser th' = Some n'"
  proof -
    have "threadCloser th' \<noteq> None" "threadCloser th \<noteq> None" using that(2) assms(3) by simp_all
    with assms(1,2) that(1) show ?thesis unfolding closer_inv_def by blast
  qed
qed

lemma not_writing:
  assumes "save_inv f" "closer_inv f" "\<not> rfSaving f" "\<not> rfClosed f \<or> rfThreads f t = Some (CloserWait n)"
  shows "\<not> writing (rfThreads f) t' c"
proof
  assume "writing (rfThreads f) t' c"
  then obtain th where th: "rfThreads f t' = Some th" "threadWrites th = Some c" by (auto simp: writing_def)
  show False
  proof (cases "threadFlushes th")
    case True
    with th assms(1,3) show False by (auto simp: save_inv_def flushing_def)
  next
    case False
    with th obtain m where m: "th = CloserSave m c" by (cases th) auto
    have c: "threadCloser th = Some m" using m by simp
    have w: "rfThreads f t = Some (CloserWait n)" using closerD(1) [OF assms(2) th(1) c] assms(4) by simp
    have "t = t'" by (rule closerD(4) [OF assms(2) th(1) c w]) simp
    with th m w show False by simp
  qed
qed

lemma save_inv_step: "flushStep f f' \<Longrightarrow> save_inv f \<Longrightarrow> closer_inv f \<Longrightarrow> save_inv f'"
proof (induction rule: flushStep.induct)
  case (fs_fire f at t)
  then show ?case by (elim save_inv_thread) (auto simp: sameSaves_def quietThread_def)
next
  case (fs_timer_skip f t f')
  then show ?case using flushEnter_no [OF fs_timer_skip(2)]
    by (elim save_inv_thread) (auto simp: sameSaves_def quietThread_def)
next
  case (fs_timer_save f t f')
  note e = flushEnter_yes [OF fs_timer_save(2)]
  have n: "\<not> (\<exists>t c. writing (rfThreads f) t c)"
    using not_writing [OF fs_timer_save(3,4) e(4)] e(2) by blast
  show ?case unfolding e(1)
    by (rule save_inv_enter) (use fs_timer_save e n in \<open>auto simp: quietThread_def\<close>)
next
  case (fs_timer_saved f t c)
  show ?case by (rule save_inv_leave [OF fs_timer_saved(2,1)]) (auto simp: quietThread_def)
next
  case (fs_call f t want f')
  then show ?case by (elim save_inv_thread) (auto simp: sameSaves_def quietThread_def saveNowEnter_def)
next
  case (fs_call_skip f t want chg f')
  then show ?case using flushEnter_no [OF fs_call_skip(2)]
    by (elim save_inv_thread) (auto simp: sameSaves_def quietThread_def)
next
  case (fs_call_save f t want chg f')
  note e = flushEnter_yes [OF fs_call_save(2)]
  have n: "\<not> (\<exists>t c. writing (rfThreads f) t c)"
    using not_writing [OF fs_call_save(3,4) e(4)] e(2) by blast
  show ?case unfolding e(1)
    by (rule save_inv_enter) (use fs_call_save e n in \<open>auto simp: quietThread_def\<close>)
next
  case (fs_call_saved f t want chg c)
  show ?case by (rule save_inv_leave [OF fs_call_saved(2,1)]) (auto simp: quietThread_def)
next
  case (fs_call_again f t want chg)
  then show ?case by (elim save_inv_thread) (auto simp: sameSaves_def quietThread_def)
next
  case (fs_call_done f t want chg)
  then show ?case by (elim save_inv_thread) (auto simp: sameSaves_def quietThread_def)
next
  case (fs_close f t)
  then show ?case by (elim save_inv_thread) (auto simp: sameSaves_def quietThread_def closeEnter_def)
next
  case (fs_close_save f t n)
  have n: "\<not> writing (rfThreads f) t' c" for t' c
    using not_writing [OF fs_close_save(4,5,2)] fs_close_save(1) by blast
  with fs_close_save show ?case by (auto simp: save_inv_def)
next
  case (fs_close_clean f t n)
  then show ?case by (elim save_inv_thread) (auto simp: sameSaves_def quietThread_def)
next
  case (fs_close_saved f t n c)
  have w: "writing (rfThreads f) t c" using fs_close_saved(1) by (simp add: thread_at)
  have only: "t' = t \<and> c' = c" if "writing (rfThreads f) t' c'" for t' c'
    using fs_close_saved(1,2) w that unfolding save_inv_def by (metis option.inject thread_at(1))
  let ?ths = "(rfThreads f)(t \<mapsto> CloserDone n)"
  have none: "\<not> writing ?ths t' c'" for t' c' using only [of t' c'] by auto
  then have nof: "\<not> flushing ?ths t'" for t' using flushing_writes by blast
  have "\<not> flushing (rfThreads f) t'" for t'
    using flushing_writes [of "rfThreads f" t'] only fs_close_saved(1) by (auto simp: thread_at)
  then have s: "\<not> rfSaving f" "rfSaved f \<le> c" "c \<le> rfChanges f" "rfStarted f = rfFinished f"
    using fs_close_saved(2) w unfolding save_inv_def by auto
  have "rfDirty f \<or> rfChanges f = rfSaved f \<or> rfChanges f = c"
    using fs_close_saved(2) only unfolding save_inv_def by blast
  with s have "rfDirty f \<or> rfChanges f = c" by auto
  with s none nof show ?case unfolding save_inv_def by simp
qed (elim save_inv_same; simp add: sameSaves_def rf_defs)+

text \<open>Steps that leave every closer where it is.\<close>

definition closers :: "(nat \<Rightarrow> flushThread option) \<Rightarrow> nat \<Rightarrow> flushThread option" where
  "closers ths t = (case ths t of None \<Rightarrow> None | Some th \<Rightarrow> if threadCloser th = None then None else Some th)"

lemma closers_upd [simp]:
  "closers (ths(t \<mapsto> th)) = (closers ths)(t := (if threadCloser th = None then None else Some th))"
  "closers (ths(t := None)) = (closers ths)(t := None)"
  by (auto simp: closers_def fun_eq_iff)

lemma closers_at [simp]:
  "ths t = None \<Longrightarrow> closers ths t = None" "ths t = Some th \<Longrightarrow> threadCloser th = None \<Longrightarrow> closers ths t = None"
  by (simp_all add: closers_def)

lemma closer_inv_alt:
  "closer_inv f \<longleftrightarrow>
     (\<forall>t th. closers (rfThreads f) t = Some th \<longrightarrow> rfClosed f \<and> the (threadCloser th) \<le> rfChanges f
        \<and> (threadWrites th \<noteq> None \<longrightarrow> \<not> rfSaving f)) \<and>
     (\<forall>t th t' th'. closers (rfThreads f) t = Some th \<and> closers (rfThreads f) t' = Some th' \<longrightarrow> t = t') \<and>
     (\<forall>t n c. closers (rfThreads f) t = Some (CloserSave n c) \<longrightarrow> n \<le> c)"
proof -
  have c: "closers (rfThreads f) t = Some th \<longleftrightarrow> rfThreads f t = Some th \<and> threadCloser th \<noteq> None" for t th
    by (auto simp: closers_def split: option.split if_split_asm)
  show ?thesis unfolding closer_inv_def c by auto
qed

lemma closer_inv_keep:
  assumes "closer_inv f" "closers (rfThreads f') = closers (rfThreads f)" "rfChanges f \<le> rfChanges f'"
    "rfClosed f' = rfClosed f" "rfClosed f \<and> rfSaving f' \<longrightarrow> rfSaving f"
  shows "closer_inv f'"
  using assms(1) unfolding closer_inv_alt assms(2,4) using assms(3,5) by (meson order_trans)

lemma closer_only:
  assumes "closer_inv f" "closers (rfThreads f) t = Some th" "t' \<noteq> t"
  shows "closers (rfThreads f) t' = None"
  using assms unfolding closer_inv_alt by (cases "closers (rfThreads f) t'") auto

lemma closers_same: "closers ths t = None \<Longrightarrow> (closers ths)(t := None) = closers ths"
  by (simp add: fun_upd_idem)

lemma closer_inv_step: "flushStep f f' \<Longrightarrow> closer_inv f \<Longrightarrow> closer_inv f'"
proof (induction rule: flushStep.induct)
  case (fs_timer_skip f t f')
  then show ?case using flushEnter_no [OF fs_timer_skip(2)]
    by (elim closer_inv_keep) (auto simp: closers_same)
next
  case (fs_timer_save f t f')
  then show ?case using flushEnter_yes [OF fs_timer_save(2)]
    by (elim closer_inv_keep) (auto simp: closers_same)
next
  case (fs_call_skip f t want chg f')
  then show ?case using flushEnter_no [OF fs_call_skip(2)]
    by (elim closer_inv_keep) (auto simp: closers_same)
next
  case (fs_call_save f t want chg f')
  then show ?case using flushEnter_yes [OF fs_call_save(2)]
    by (elim closer_inv_keep) (auto simp: closers_same)
next
  case (fs_call f t want f')
  then show ?case by (elim closer_inv_keep) (auto simp: closers_same saveNowEnter_def)
next
  case (fs_close f t)
  have "closers (rfThreads f) t' = None" for t'
    using fs_close(1,3) unfolding closer_inv_alt by (cases "closers (rfThreads f) t'") auto
  then show ?case by (auto simp: closer_inv_alt closeEnter_def)
next
  case (fs_close_save f t n)
  then have c: "closers (rfThreads f) t = Some (CloserWait n)" by (simp add: closers_def)
  have "rfClosed f" "n \<le> rfChanges f" using fs_close_save c unfolding closer_inv_alt by fastforce+
  moreover note closer_only [OF fs_close_save(4) c]
  ultimately show ?case using fs_close_save(2) by (auto simp: closer_inv_alt split: if_split_asm)
next
  case (fs_close_clean f t n)
  then have c: "closers (rfThreads f) t = Some (CloserWait n)" by (simp add: closers_def)
  have "rfClosed f" "n \<le> rfChanges f" using fs_close_clean c unfolding closer_inv_alt by fastforce+
  moreover note closer_only [OF fs_close_clean(4) c]
  ultimately show ?case by (auto simp: closer_inv_alt split: if_split_asm)
next
  case (fs_close_saved f t n c)
  then have c: "closers (rfThreads f) t = Some (CloserSave n c)" by (simp add: closers_def)
  have "rfClosed f" "n \<le> rfChanges f" using fs_close_saved c unfolding closer_inv_alt by fastforce+
  moreover note closer_only [OF fs_close_saved(2) c]
  ultimately show ?case by (auto simp: closer_inv_alt split: if_split_asm)
qed (elim closer_inv_keep; simp add: rf_defs closers_same)+

text \<open>Waiters: what a change \<open>chg\<close> waiting for save \<open>want\<close> may rely on.\<close>

definition wantOk :: "flusher \<Rightarrow> nat \<Rightarrow> nat \<Rightarrow> bool" where
  "wantOk f want chg \<longleftrightarrow> chg \<le> rfChanges f \<and> want \<le> rfStarted f + 1
     \<and> (want \<le> rfFinished f \<longrightarrow> chg \<le> rfSaved f)
     \<and> (\<forall>t' c. rfSaving f \<and> want \<le> rfStarted f \<and> writing (rfThreads f) t' c \<longrightarrow> chg \<le> c)"

lemma want_inv_alt:
  "want_inv f \<longleftrightarrow> (\<forall>t th want chg. rfThreads f t = Some th \<and> threadWants th = Some (want, chg) \<longrightarrow> wantOk f want chg)"
  by (simp add: want_inv_def wantOk_def)

lemma wantOk_same:
  assumes "wantOk f want chg" "sameSaves f f'" "writing (rfThreads f') = writing (rfThreads f)"
  shows "wantOk f' want chg"
  using assms unfolding wantOk_def sameSaves_def by auto

lemma want_inv_keep:
  assumes "want_inv f" "\<And>want chg. wantOk f want chg \<Longrightarrow> wantOk f' want chg"
    "rfThreads f' = (rfThreads f)(t := v)"
    "\<And>th want chg. v = Some th \<Longrightarrow> threadWants th = Some (want, chg) \<Longrightarrow> wantOk f' want chg"
  shows "want_inv f'"
  using assms(1,2,4) unfolding want_inv_alt assms(3) by (auto split: if_split_asm)

lemma want_inv_same:
  assumes "want_inv f" "sameSaves f f'" "rfThreads f' = rfThreads f"
  shows "want_inv f'"
proof -
  have "wantOk f' want chg" if "wantOk f want chg" for want chg
    by (rule wantOk_same [OF that assms(2)]) (simp add: assms(3))
  with assms(1,3) show ?thesis unfolding want_inv_alt by auto
qed

lemma want_inv_thread:
  assumes "want_inv f" "sameSaves f f'" "rfThreads f' = (rfThreads f)(t := v)"
    "quietThread (rfThreads f t)" "quietThread v"
    "\<And>th want chg. v = Some th \<Longrightarrow> threadWants th = Some (want, chg) \<Longrightarrow> wantOk f want chg"
  shows "want_inv f'"
proof -
  have k: "wantOk f' want chg" if "wantOk f want chg" for want chg
    by (rule wantOk_same [OF that assms(2)])
      (simp add: assms(3) writing_quiet(1) [where ths = "rfThreads f", OF assms(4,5)])
  show ?thesis by (rule want_inv_keep [OF assms(1) k assms(3)]) (use k assms(6) in blast)+
qed

lemma want_at:
  "want_inv f \<Longrightarrow> rfThreads f t = Some th \<Longrightarrow> threadWants th = Some (want, chg) \<Longrightarrow> wantOk f want chg"
  unfolding want_inv_alt by blast

lemma wantOk_enter:
  assumes "wantOk f want chg" "threadWrites th = Some (rfChanges f)" "\<And>t' c. \<not> writing (rfThreads f) t' c"
  shows "wantOk (setThread t th (f\<lparr>rfDirty := False, rfSaving := True, rfStarted := rfStarted f + 1\<rparr>)) want chg"
  using assms by (auto simp: wantOk_def)

lemma wantOk_leave:
  assumes "wantOk f want chg" "writing (rfThreads f) t c" "rfSaving f" "save_inv f"
    "rfSaved f' = c" "\<not> rfSaving f'" "rfFinished f' = rfFinished f + 1" "rfStarted f' = rfStarted f"
    "rfChanges f' = rfChanges f"
  shows "wantOk f' want chg"
proof -
  have "rfStarted f = rfFinished f + 1" using assms(3,4) by (simp add: save_inv_def)
  with assms show ?thesis unfolding wantOk_def by auto
qed

lemma saving_at: "save_inv f \<Longrightarrow> rfThreads f t = Some th \<Longrightarrow> threadFlushes th \<Longrightarrow> rfSaving f"
  unfolding save_inv_def flushing_def by blast

lemma finished_le: "save_inv f \<Longrightarrow> rfFinished f \<le> rfStarted f"
  unfolding save_inv_def by (elim conjE) simp

lemma want_inv_step: "flushStep f f' \<Longrightarrow> want_inv f \<Longrightarrow> save_inv f \<Longrightarrow> closer_inv f \<Longrightarrow> want_inv f'"
proof (induction rule: flushStep.induct)
  case (fs_fire f at t)
  then show ?case by (elim want_inv_thread) (auto simp: sameSaves_def quietThread_def)
next
  case (fs_timer_skip f t f')
  then show ?case using flushEnter_no [OF fs_timer_skip(2)]
    by (elim want_inv_thread) (auto simp: sameSaves_def quietThread_def)
next
  case (fs_timer_save f t f')
  note e = flushEnter_yes [OF fs_timer_save(2)]
  have n: "\<not> writing (rfThreads f) t c" for t c
    using not_writing [OF fs_timer_save(4,5) e(4)] e(2) by blast
  show ?case unfolding e(1)
    by (rule want_inv_keep [OF fs_timer_save(3) wantOk_enter]) (use n in auto)
next
  case (fs_timer_saved f t c)
  have w: "writing (rfThreads f) t c" "rfSaving f"
    using saving_at [OF fs_timer_saved(3,1)] fs_timer_saved(1) by (simp_all add: thread_at)
  show ?case
    by (rule want_inv_keep [OF fs_timer_saved(2) wantOk_leave [OF _ w fs_timer_saved(3)]]) auto
next
  case (fs_call f t want f')
  have "want_inv f'" using fs_call by (elim want_inv_same) (auto simp: sameSaves_def saveNowEnter_def)
  moreover have "wantOk f' want (rfChanges f')"
    using fs_call(2) finished_le [OF fs_call(4)] by (auto simp: wantOk_def saveNowEnter_def)
  ultimately show ?case using fs_call(1,2)
    by (elim want_inv_thread) (auto simp: sameSaves_def quietThread_def saveNowEnter_def)
next
  case (fs_call_skip f t want chg f')
  then show ?case using flushEnter_no [OF fs_call_skip(2)] want_at [OF fs_call_skip(3,1)]
    by (elim want_inv_thread) (auto simp: sameSaves_def quietThread_def)
next
  case (fs_call_save f t want chg f')
  note e = flushEnter_yes [OF fs_call_save(2)]
  have n: "\<not> writing (rfThreads f) t c" for t c
    using not_writing [OF fs_call_save(4,5) e(4)] e(2) by blast
  have k: "wantOk (setThread t (CallerSave want chg (rfChanges f))
      (f\<lparr>rfDirty := False, rfSaving := True, rfStarted := rfStarted f + 1\<rparr>)) want' chg'"
    if "wantOk f want' chg'" for want' chg'
    by (rule wantOk_enter [OF that]) (use n in auto)
  show ?case unfolding e(1)
    by (rule want_inv_keep [OF fs_call_save(3) k]) (use k want_at [OF fs_call_save(3,1)] in auto)
next
  case (fs_call_saved f t want chg c)
  have w: "writing (rfThreads f) t c" "rfSaving f"
    using saving_at [OF fs_call_saved(3,1)] fs_call_saved(1) by (simp_all add: thread_at)
  have k: "wantOk (flushLeave c (setThread t (CallerWait want chg) f)) want' chg'"
    if "wantOk f want' chg'" for want' chg'
    by (rule wantOk_leave [OF that w fs_call_saved(3)]) auto
  show ?case
    by (rule want_inv_keep [OF fs_call_saved(2) k]) (use k want_at [OF fs_call_saved(2,1)] in auto)
next
  case (fs_call_again f t want chg)
  then show ?case using want_at [OF fs_call_again(4,1)]
    by (elim want_inv_thread) (auto simp: sameSaves_def quietThread_def)
next
  case (fs_call_done f t want chg)
  then show ?case by (elim want_inv_thread) (auto simp: sameSaves_def quietThread_def)
next
  case (fs_close f t)
  then show ?case by (elim want_inv_thread) (auto simp: sameSaves_def quietThread_def closeEnter_def)
next
  case (fs_close_save f t n)
  have k: "wantOk (setThread t (CloserSave n (rfChanges f)) (f\<lparr>rfDirty := False\<rparr>)) want chg"
    if "wantOk f want chg" for want chg
    using that fs_close_save(2) by (simp add: wantOk_def)
  show ?case by (rule want_inv_keep [OF fs_close_save(4) k]) auto
next
  case (fs_close_clean f t n)
  then show ?case by (elim want_inv_thread) (auto simp: sameSaves_def quietThread_def)
next
  case (fs_close_saved f t n c)
  have w: "writing (rfThreads f) t c" using fs_close_saved(1) by (simp add: thread_at)
  have ns: "\<not> rfSaving f" using closerD(3) [OF fs_close_saved(4,1)] by simp
  have k: "wantOk (setThread t (CloserDone n) (f\<lparr>rfSaved := c\<rparr>)) want chg" if "wantOk f want chg" for want chg
  proof -
    have "rfSaved f \<le> c" using fs_close_saved(3) w unfolding save_inv_def by blast
    with that ns show ?thesis by (auto simp: wantOk_def)
  qed
  show ?case by (rule want_inv_keep [OF fs_close_saved(2) k]) auto
qed (elim want_inv_same; simp add: sameSaves_def rf_defs)+

lemma done_inv_keep:
  assumes "done_inv f" "rfThreads f' = (rfThreads f)(t := v)" "rfSaved f \<le> rfSaved f'"
    "rfClosed f \<longrightarrow> rfClosed f'"
    "\<And>want chg. v = Some (CallerDone want chg) \<Longrightarrow> rfClosed f' \<or> chg \<le> rfSaved f'"
    "\<And>n. v = Some (CloserDone n) \<Longrightarrow> n \<le> rfSaved f'"
  shows "done_inv f'"
proof -
  have a: "rfClosed f' \<or> chg \<le> rfSaved f'" if "rfThreads f t' = Some (CallerDone want chg)" for t' want chg
    using assms(1,3,4) that unfolding done_inv_def by (meson order_trans)
  have b: "n \<le> rfSaved f'" if "rfThreads f t' = Some (CloserDone n)" for t' n
    using assms(1,3) that unfolding done_inv_def by (meson order_trans)
  show ?thesis
    unfolding done_inv_def assms(2) using a b assms(5,6) by (metis fun_upd_apply)
qed

lemma done_inv_same:
  assumes "done_inv f" "rfThreads f' = rfThreads f" "rfSaved f' = rfSaved f" "rfClosed f' = rfClosed f"
  shows "done_inv f'"
  using assms(1) unfolding done_inv_def assms(2-4) .

lemma saved_le: "save_inv f \<Longrightarrow> rfThreads f t = Some th \<Longrightarrow> threadWrites th = Some c \<Longrightarrow> rfSaved f \<le> c"
  unfolding save_inv_def by (metis thread_at(1))

lemma done_inv_step:
  "flushStep f f' \<Longrightarrow> done_inv f \<Longrightarrow> want_inv f \<Longrightarrow> save_inv f \<Longrightarrow> closer_inv f \<Longrightarrow> done_inv f'"
proof (induction rule: flushStep.induct)
  case (fs_fire f at t)
  then show ?case by (elim done_inv_keep) auto
next
  case (fs_timer_skip f t f')
  then show ?case using flushEnter_no [OF fs_timer_skip(2)] by (elim done_inv_keep) auto
next
  case (fs_timer_save f t f')
  then show ?case using flushEnter_yes [OF fs_timer_save(2)] by (elim done_inv_keep) auto
next
  case (fs_timer_saved f t c)
  then show ?case using saved_le [OF fs_timer_saved(4,1), of c] by (elim done_inv_keep) auto
next
  case (fs_call f t want f')
  then show ?case by (elim done_inv_keep) (auto simp: saveNowEnter_def)
next
  case (fs_call_skip f t want chg f')
  then show ?case using flushEnter_no [OF fs_call_skip(2)] by (elim done_inv_keep) auto
next
  case (fs_call_save f t want chg f')
  then show ?case using flushEnter_yes [OF fs_call_save(2)] by (elim done_inv_keep) auto
next
  case (fs_call_saved f t want chg c)
  then show ?case using saved_le [OF fs_call_saved(4,1), of c] by (elim done_inv_keep) auto
next
  case (fs_call_again f t want chg)
  then show ?case by (elim done_inv_keep) auto
next
  case (fs_call_done f t want chg)
  have "wantOk f want chg" using want_at [OF fs_call_done(5,1)] by simp
  with fs_call_done show ?case by (elim done_inv_keep) (auto simp: wantOk_def)
next
  case (fs_close f t)
  then show ?case by (elim done_inv_keep) (auto simp: closeEnter_def)
next
  case (fs_close_save f t n)
  then show ?case by (elim done_inv_keep) auto
next
  case (fs_close_clean f t n)
  have "\<not> writing (rfThreads f) t' c" for t' c
    using not_writing [OF fs_close_clean(6,7,2)] fs_close_clean(1) by blast
  then have "rfChanges f = rfSaved f" using fs_close_clean(3,6) unfolding save_inv_def by blast
  moreover have "n \<le> rfChanges f" using closerD(2) [OF fs_close_clean(7,1)] by simp
  ultimately show ?case using fs_close_clean by (elim done_inv_keep) auto
next
  case (fs_close_saved f t n c)
  have "n \<le> c" using fs_close_saved(1,5) by (simp add: closer_inv_def)
  then show ?case using fs_close_saved saved_le [OF fs_close_saved(4,1), of c] by (elim done_inv_keep) auto
qed (elim done_inv_same; simp add: rf_defs)+

lemma flush_reach_invs:
  "flushReach delay maxHold f \<Longrightarrow> save_inv f \<and> closer_inv f \<and> arm_inv f \<and> want_inv f \<and> done_inv f"
proof (induction rule: flushReach.induct)
  case fr_new
  show ?case
    by (simp add: save_inv_def closer_inv_def arm_inv_def want_inv_def done_inv_def newRecentFlusher_def
        writing_def flushing_def)
next
  case (fr_step f f')
  then show ?case
    using save_inv_step closer_inv_step arm_inv_step want_inv_step done_inv_step by blast
qed

section \<open>Properties\<close>

text \<open>A run for the witnesses: one call of \<^verbatim>\<open>SaveNow\<close>, from its change to its return.\<close>

definition demoCall :: flusher where
  "demoCall = setThread 0 (CallerLoop 1 1) (snd (saveNowEnter (newRecentFlusher 5 10)))"

definition demoSave :: flusher where
  "demoSave = setThread 0 (CallerSave 1 1 1) (snd (flushEnter True demoCall))"

definition demoDone :: flusher where
  "demoDone = setThread 0 (CallerDone 1 1) (flushLeave 1 (setThread 0 (CallerWait 1 1) demoSave))"

lemmas demo_defs = demoCall_def demoSave_def demoDone_def saveNowEnter_def newRecentFlusher_def
  flushEnter_def flushLeave_def heldUntil_def

lemma demo_reach: "flushReach 5 10 demoCall" "flushReach 5 10 demoSave" "flushReach 5 10 demoDone"
proof -
  let ?new = "newRecentFlusher 5 10"
  have "flushStep ?new (setThread 0 (CallerLoop 1 (rfChanges (snd (saveNowEnter ?new)))) (snd (saveNowEnter ?new)))"
    by (rule fs_call) (simp_all add: newRecentFlusher_def saveNowEnter_def)
  then have "flushStep ?new demoCall" by (simp add: demo_defs)
  with fr_new show c: "flushReach 5 10 demoCall" by (rule fr_step)
  have "flushStep demoCall (setThread 0 (CallerSave 1 1 (rfChanges demoCall)) (snd (flushEnter True demoCall)))"
    by (rule fs_call_save) (simp_all add: demo_defs)
  then have "flushStep demoCall demoSave" by (simp add: demo_defs)
  with c show s: "flushReach 5 10 demoSave" by (rule fr_step)
  let ?saved = "flushLeave 1 (setThread 0 (CallerWait 1 1) demoSave)"
  have "flushStep demoSave ?saved" by (rule fs_call_saved) (simp add: demo_defs)
  with s have r: "flushReach 5 10 ?saved" by (rule fr_step)
  have "flushStep ?saved demoDone" unfolding demoDone_def by (rule fs_call_done) (simp_all add: demo_defs)
  with r show "flushReach 5 10 demoDone" by (rule fr_step)
qed

text \<open>
  Claim C7. No recorded change is forgotten. In every reachable state of the flusher and its threads,
  whatever the order of opens, records, timer firings, \<^verbatim>\<open>SaveNow\<close> calls and saves: if the file on disk
  lacks a change and the flusher was not closed, then a save that has it is running, or the list is
  dirty and another save is running, the timer is armed, or a flush is about to run.
\<close>

theorem flush_forgets_nothing:
  assumes "flushReach delay maxHold f"
  shows "rfSaved f = rfChanges f \<or> rfClosed f \<or> (\<exists>t. writing (rfThreads f) t (rfChanges f))
    \<or> (rfDirty f \<and> (rfSaving f \<or> (\<exists>at. rfTimer f = Some at)
         \<or> (\<exists>t th. rfThreads f t = Some th \<and> threadWillFlush th)))"
  using flush_reach_invs [OF assms] unfolding save_inv_def arm_inv_def by fastforce

lemma flush_forgets_nothing_witness:
  "rfSaved demoCall \<noteq> rfChanges demoCall \<and> rfTimer demoCall = None
   \<and> (\<exists>t th. rfThreads demoCall t = Some th \<and> threadWillFlush th)"
proof -
  have "rfSaved demoCall \<noteq> rfChanges demoCall" "\<not> rfClosed demoCall" "rfTimer demoCall = None" "\<not> rfSaving demoCall"
    "\<not> writing (rfThreads demoCall) t (rfChanges demoCall)" for t
    by (simp_all add: demo_defs writing_def)
  with flush_forgets_nothing [OF demo_reach(1)] show ?thesis by auto
qed

text \<open>
  At most one save runs at a time: no two threads are ever inside the save, the timer's, the
  callers' of \<^verbatim>\<open>SaveNow\<close> and the closer's included, and what a save writes never undoes an earlier one.
\<close>

theorem flush_one_save:
  assumes "flushReach delay maxHold f"
  shows "\<not> (\<exists>t t' c c'. t \<noteq> t' \<and> writing (rfThreads f) t c \<and> writing (rfThreads f) t' c')
    \<and> \<not> (\<exists>t c. writing (rfThreads f) t c \<and> c < rfSaved f)"
  using flush_reach_invs [OF assms] unfolding save_inv_def by (metis not_le)

lemma flush_one_save_witness:
  "writing (rfThreads demoSave) 0 1 \<and> \<not> (\<exists>t c. t \<noteq> 0 \<and> writing (rfThreads demoSave) t c)"
proof -
  have "writing (rfThreads demoSave) 0 1" by (simp add: demo_defs writing_def)
  with flush_one_save [OF demo_reach(2)] show ?thesis by blast
qed

text \<open>
  Claim C8. \<^verbatim>\<open>SaveNow\<close> and \<^verbatim>\<open>Close\<close> keep their word: when a call of \<^verbatim>\<open>SaveNow\<close> has returned, the file on
  disk has the change it was called for, unless the flusher was closed; when \<^verbatim>\<open>Close\<close> has returned, the
  file has every change recorded before it was called.
\<close>

theorem flush_calls_keep_word:
  assumes "flushReach delay maxHold f" "rfThreads f t = Some th"
  shows "case th of CallerDone want chg \<Rightarrow> rfClosed f \<or> chg \<le> rfSaved f
    | CloserDone n \<Rightarrow> n \<le> rfSaved f | _ \<Rightarrow> True"
  using flush_reach_invs [OF assms(1)] assms(2) unfolding done_inv_def by (auto split: flushThread.split)

lemma flush_calls_keep_word_witness: "1 \<le> rfSaved demoDone"
proof -
  have "rfThreads demoDone 0 = Some (CallerDone 1 1)" "\<not> rfClosed demoDone" by (simp_all add: demo_defs)
  with flush_calls_keep_word [OF demo_reach(3), of 0 "CallerDone 1 1"] show ?thesis by simp
qed

end
