(* ===== verification/Strconv.thy ===== *)
theory Strconv
  imports Prelude
begin

text \<open>
  Decimal numbers as Go prints and reads them (\<^verbatim>\<open>%d\<close>, \<^verbatim>\<open>strconv.Atoi\<close>), on 64-bit \<^verbatim>\<open>int\<close>s, and the
  few functions of \<^verbatim>\<open>strings\<close> the components share.
\<close>

section \<open>Printing\<close>

definition digitChar :: "nat \<Rightarrow> char" where
  "digitChar d = char_of (48 + d)"

fun showNat :: "nat \<Rightarrow> string" where
  "showNat n = (if n < 10 then [digitChar n] else showNat (n div 10) @ [digitChar (n mod 10)])"

declare showNat.simps [simp del]

definition showInt :: "int \<Rightarrow> string" where
  "showInt i = (if i < 0 then CHR ''-'' # showNat (nat (- i)) else showNat (nat i))"

section \<open>Reading\<close>

definition isDigit :: "char \<Rightarrow> bool" where
  "isDigit c \<longleftrightarrow> 48 \<le> (of_char c :: nat) \<and> (of_char c :: nat) \<le> 57"

definition digitVal :: "char \<Rightarrow> nat" where
  "digitVal c = of_char c - 48"

definition readDigits :: "string \<Rightarrow> nat option" where
  "readDigits s = (if s = [] \<or> \<not> list_all isDigit s then None
     else Some (foldl (\<lambda>n c. 10 * n + digitVal c) 0 s))"

definition maxInt64 :: int where "maxInt64 = 2 ^ 63 - 1"
definition minInt64 :: int where "minInt64 = - (2 ^ 63)"

definition inInt64 :: "int \<Rightarrow> bool" where
  "inInt64 i \<longleftrightarrow> minInt64 \<le> i \<and> i \<le> maxInt64"

text \<open>
  Sums and products of 64-bit values wrap around, and division rounds towards zero.
\<close>

definition wrap64 :: "int \<Rightarrow> int" where
  "wrap64 i = (i + 2 ^ 63) mod 2 ^ 64 - 2 ^ 63"

definition goDiv :: "int \<Rightarrow> int \<Rightarrow> int" where
  "goDiv a b = (if (0 \<le> a) = (0 < b) then \<bar>a\<bar> div \<bar>b\<bar> else - (\<bar>a\<bar> div \<bar>b\<bar>))"

lemma wrap64_id: "inInt64 i \<Longrightarrow> wrap64 i = i"
  by (simp add: wrap64_def inInt64_def maxInt64_def minInt64_def)

lemma wrap64_in [simp]: "inInt64 (wrap64 i)"
proof -
  have "0 \<le> (i + 2 ^ 63) mod 2 ^ 64" "(i + 2 ^ 63) mod 2 ^ 64 < 2 ^ 64" by simp_all
  then show ?thesis by (simp add: wrap64_def inInt64_def maxInt64_def minInt64_def)
qed

lemma wrap64_nonneg: "0 \<le> i \<Longrightarrow> i \<le> maxInt64 \<Longrightarrow> wrap64 i = i"
  by (rule wrap64_id) (simp add: inInt64_def minInt64_def)

lemma goDiv_nonneg: "0 \<le> a \<Longrightarrow> 0 < b \<Longrightarrow> goDiv a b = a div b"
  by (simp add: goDiv_def)

definition signedDigits :: "string \<Rightarrow> int option" where
  "signedDigits s =
     (case s of [] \<Rightarrow> None
      | c # r \<Rightarrow>
          if c = CHR ''-'' then map_option (\<lambda>n. - int n) (readDigits r)
          else if c = CHR ''+'' then map_option int (readDigits r)
          else map_option int (readDigits s))"

text \<open>\<^verbatim>\<open>strconv.Atoi\<close>: \<open>None\<close> on a syntax error and outside the 64-bit range.\<close>

definition atoi :: "string \<Rightarrow> int option" where
  "atoi s = (case signedDigits s of None \<Rightarrow> None | Some i \<Rightarrow> if inInt64 i then Some i else None)"

section \<open>Round trip\<close>

lemma of_digitChar: "d < 10 \<Longrightarrow> (of_char (digitChar d) :: nat) = 48 + d"
  by (simp add: digitChar_def)

lemma digitChar_digit: "d < 10 \<Longrightarrow> isDigit (digitChar d)" "d < 10 \<Longrightarrow> digitVal (digitChar d) = d"
  by (simp_all add: isDigit_def digitVal_def of_digitChar)

lemma showNat_digits: "list_all isDigit (showNat n)" "showNat n \<noteq> []"
proof -
  have "list_all isDigit (showNat n) \<and> showNat n \<noteq> []"
  proof (induction n rule: showNat.induct)
    case (1 n)
    then show ?case by (cases "n < 10") (simp_all add: showNat.simps [of n] digitChar_digit)
  qed
  then show "list_all isDigit (showNat n)" "showNat n \<noteq> []" by auto
qed

lemma readDigits_showNat [simp]: "readDigits (showNat n) = Some n"
proof -
  have "foldl (\<lambda>n c. 10 * n + digitVal c) 0 (showNat n) = n"
  proof (induction n rule: showNat.induct)
    case (1 n)
    then show ?case by (cases "n < 10") (simp_all add: showNat.simps [of n] digitChar_digit)
  qed
  then show ?thesis using showNat_digits [of n] by (simp add: readDigits_def)
qed

lemma showNat_hd: "isDigit (hd (showNat n))"
  using showNat_digits [of n] by (cases "showNat n") auto

lemma sign_not_digit: "\<not> isDigit (CHR ''-'')" "\<not> isDigit (CHR ''+'')" "\<not> isDigit (CHR '':'')"
  "\<not> isDigit (CHR '' '')" "\<not> isDigit (CHR ''['')" "\<not> isDigit (CHR '']'')" "\<not> isDigit (CHR ''/'')"
  by (simp_all add: isDigit_def)

lemma signedDigits_showInt [simp]: "signedDigits (showInt i) = Some i"
proof (cases "i < 0")
  case True
  then show ?thesis by (simp add: showInt_def signedDigits_def)
next
  case False
  obtain c r where s: "showNat (nat i) = c # r" using showNat_digits(2) by (meson neq_Nil_conv)
  have "isDigit c" using showNat_hd [of "nat i"] s by simp
  then have "c \<noteq> CHR ''-''" "c \<noteq> CHR ''+''" using sign_not_digit by auto
  with False s readDigits_showNat [of "nat i"] show ?thesis
    by (simp add: showInt_def signedDigits_def)
qed

lemma showInt_inject [simp]: "showInt i = showInt j \<longleftrightarrow> i = j"
  using signedDigits_showInt by (metis option.inject)

lemma atoi_showInt: "atoi (showInt i) = (if inInt64 i then Some i else None)"
  by (simp add: atoi_def)

lemma showInt_chars: "c \<in> set (showInt i) \<Longrightarrow> isDigit c \<or> c = CHR ''-''"
  using showNat_digits(1) by (auto simp: showInt_def list_all_iff split: if_split_asm)

lemma showInt_ne [simp]: "showInt i \<noteq> []"
  using showNat_digits(2) by (simp add: showInt_def)

text \<open>A printed number ends at the first character that no number has.\<close>

definition numChar :: "char \<Rightarrow> bool" where
  "numChar c \<longleftrightarrow> isDigit c \<or> c = CHR ''-''"

lemma takeWhile_showInt:
  assumes "r = [] \<or> \<not> numChar (hd r)"
  shows "takeWhile numChar (showInt i @ r) = showInt i" "dropWhile numChar (showInt i @ r) = r"
proof -
  have n: "\<forall>c \<in> set (showInt i). numChar c" using showInt_chars by (auto simp: numChar_def)
  have r: "takeWhile numChar r = []" "dropWhile numChar r = r" using assms by (cases r; auto)+
  show "takeWhile numChar (showInt i @ r) = showInt i" "dropWhile numChar (showInt i @ r) = r"
    using n r by (simp_all add: takeWhile_append2 dropWhile_append2)
qed

lemma showInt_append_inject:
  assumes "showInt i @ r = showInt j @ s" "r = [] \<or> \<not> numChar (hd r)" "s = [] \<or> \<not> numChar (hd s)"
  shows "i = j" "r = s"
  using takeWhile_showInt [OF assms(2), of i] takeWhile_showInt [OF assms(3), of j] assms(1)
  by (metis showInt_inject, metis)

section \<open>Strings\<close>

definition hasPrefix :: "string \<Rightarrow> string \<Rightarrow> bool" where
  "hasPrefix s p \<longleftrightarrow> take (length p) s = p"

lemma hasPrefix_append [simp]: "hasPrefix (p @ s) p"
  by (simp add: hasPrefix_def)

text \<open>The order \<^verbatim>\<open>sort.Strings\<close> and \<^verbatim>\<open>slices.Sort\<close> use: bytes, left to right.\<close>

fun stringLess :: "string \<Rightarrow> string \<Rightarrow> bool" where
  "stringLess s [] \<longleftrightarrow> False"
| "stringLess [] (d # t) \<longleftrightarrow> True"
| "stringLess (c # s) (d # t) \<longleftrightarrow> (of_char c :: nat) < of_char d \<or> (c = d \<and> stringLess s t)"

end
