(* ===== verification/PdfObject.thy ===== *)
theory PdfObject
  imports Complex_Main Strconv "HOL-Library.List_Lexorder" "HOL-Library.Char_ord" "HOL-Library.Product_Lexorder"
begin

text \<open>
  PDF objects as the program handles them (pdfcpu's \<^verbatim>\<open>types.Object\<close> values), and the document they come
  from. The library that parses files is a parameter: a document is the answers its cross-reference
  table gives, and every component that reads through it takes the document as an argument.
\<close>

section \<open>Objects\<close>

text \<open>A finite real is a rational; a malformed file can also give an infinity or no number.\<close>

datatype pdfReal = Finite rat | NotFinite

datatype streamKind = PlainStream | ObjectStream | XRefStream

text \<open>
  \<open>PNull\<close> is Go's \<open>nil\<close> object, which is PDF's null. A dictionary is the list of its entries; the
  program only ever looks a key up or walks the sorted keys.
\<close>

datatype pdfObj =
    PNull
  | PBool bool
  | PInt int
  | PReal pdfReal
  | PName string
  | PString string
  | PHex string
  | PRef int int
  | PArray "pdfObj list"
  | PDict "(string \<times> pdfObj) list"
  | PStream streamKind "(string \<times> pdfObj) list"

type_synonym pdfDict = "(string \<times> pdfObj) list"

definition dictFind :: "pdfDict \<Rightarrow> string \<Rightarrow> pdfObj option" where
  "dictFind d k = map_of d k"

text \<open>Go's \<open>d[k]\<close>: the zero value for an absent key.\<close>

definition dictGet :: "pdfDict \<Rightarrow> string \<Rightarrow> pdfObj" where
  "dictGet d k = (case dictFind d k of None \<Rightarrow> PNull | Some v \<Rightarrow> v)"

text \<open>The keys in the order the program walks them: sorted by their bytes. A Go map has each key once.\<close>

definition dictKeys :: "pdfDict \<Rightarrow> string list" where
  "dictKeys d = sort (remdups (map fst d))"

definition dictLen :: "pdfDict \<Rightarrow> nat" where
  "dictLen d = length (remdups (map fst d))"

lemma set_dictKeys [simp]: "set (dictKeys d) = fst ` set d"
  by (simp add: dictKeys_def)

lemma distinct_dictKeys [simp]: "distinct (dictKeys d)"
  by (simp add: dictKeys_def)

lemma sorted_dictKeys [simp]: "sorted (dictKeys d)"
  by (simp add: dictKeys_def)

lemma length_dictKeys [simp]: "length (dictKeys d) = dictLen d"
  by (simp add: dictKeys_def dictLen_def)

lemma dictKeys_find: "k \<in> set (dictKeys d) \<longleftrightarrow> (\<exists>v. dictFind d k = Some v)"
  using map_of_eq_None_iff [of d k] by (auto simp: dictFind_def)

lemma dictGet_find: "dictFind d k = Some v \<Longrightarrow> dictGet d k = v"
  by (simp add: dictGet_def)

lemma dictGet_mem: "k \<in> set (dictKeys d) \<Longrightarrow> (k, dictGet d k) \<in> set d"
  using dictKeys_find [of k d] map_of_SomeD by (fastforce simp: dictGet_def dictFind_def)

fun asDict :: "pdfObj \<Rightarrow> pdfDict option" where
  "asDict (PDict d) = Some d"
| "asDict (PStream k d) = Some d"
| "asDict _ = None"

text \<open>Go's type assertions \<^verbatim>\<open>v.(IndirectRef)\<close>, \<^verbatim>\<open>v.(Array)\<close> and \<^verbatim>\<open>v.(Integer)\<close>.\<close>

fun asRef :: "pdfObj \<Rightarrow> (int \<times> int) option" where
  "asRef (PRef n g) = Some (n, g)"
| "asRef _ = None"

fun asArray :: "pdfObj \<Rightarrow> pdfObj list option" where
  "asArray (PArray xs) = Some xs"
| "asArray _ = None"

fun asInt :: "pdfObj \<Rightarrow> int option" where
  "asInt (PInt i) = Some i"
| "asInt _ = None"

text \<open>\<^verbatim>\<open>v.(Dict)\<close>: a dictionary that is not a stream's.\<close>

fun plainDict :: "pdfObj \<Rightarrow> pdfDict option" where
  "plainDict (PDict d) = Some d"
| "plainDict _ = None"

lemma asInt_Some [simp]: "asInt v = Some i \<longleftrightarrow> v = PInt i"
  by (cases v) auto

lemma plainDict_Some [simp]: "plainDict v = Some d \<longleftrightarrow> v = PDict d"
  by (cases v) auto

lemma asRef_Some [simp]: "asRef v = Some (n, g) \<longleftrightarrow> v = PRef n g"
  by (cases v) auto

lemma asArray_Some [simp]: "asArray v = Some xs \<longleftrightarrow> v = PArray xs"
  by (cases v) auto

lemma asDict_Some: "asDict v = Some d \<longleftrightarrow> v = PDict d \<or> (\<exists>sk. v = PStream sk d)"
  by (cases v) auto

fun isContainer :: "pdfObj \<Rightarrow> bool" where
  "isContainer (PDict d) \<longleftrightarrow> True"
| "isContainer (PArray xs) \<longleftrightarrow> True"
| "isContainer (PStream k d) \<longleftrightarrow> True"
| "isContainer _ \<longleftrightarrow> False"

fun isRef :: "pdfObj \<Rightarrow> bool" where
  "isRef (PRef n g) \<longleftrightarrow> True"
| "isRef _ \<longleftrightarrow> False"

fun nameOf :: "pdfObj \<Rightarrow> string" where
  "nameOf (PName n) = n"
| "nameOf _ = []"

text \<open>\<^verbatim>\<open>extractTypeName\<close>, and \<^verbatim>\<open>dictTypeName\<close> which tells a missing name from an empty one.\<close>

definition dictTypeName :: "pdfObj \<Rightarrow> string option" where
  "dictTypeName v = (case asDict v of None \<Rightarrow> None
     | Some d \<Rightarrow> (case dictFind d ''Type'' of Some (PName n) \<Rightarrow> Some n | _ \<Rightarrow> None))"

definition extractTypeName :: "pdfObj \<Rightarrow> string" where
  "extractTypeName v = (case asDict v of None \<Rightarrow> []
     | Some d \<Rightarrow> (case dictFind d ''Type'' of Some (PName n) \<Rightarrow> n | _ \<Rightarrow> []))"

text \<open>The name of an object's kind in messages.\<close>

fun typeLabel :: "pdfObj \<Rightarrow> string" where
  "typeLabel PNull = ''null''"
| "typeLabel (PDict d) = ''dictionary''"
| "typeLabel (PStream k d) = (case k of PlainStream \<Rightarrow> ''stream'' | ObjectStream \<Rightarrow> ''types.ObjectStreamDict''
     | XRefStream \<Rightarrow> ''types.XRefStreamDict'')"
| "typeLabel (PArray xs) = ''array''"
| "typeLabel (PInt i) = ''integer''"
| "typeLabel (PReal r) = ''real''"
| "typeLabel (PName n) = ''name''"
| "typeLabel (PString s) = ''string''"
| "typeLabel (PHex s) = ''string''"
| "typeLabel (PBool b) = ''boolean''"
| "typeLabel (PRef n g) = ''reference''"

section \<open>The document\<close>

text \<open>
  What a read through the library comes to: an object, an error, or a panic carrying a text (which
  \<^verbatim>\<open>safeCall\<close> recovers; a Go runtime error is not recovered anywhere and is not modelled).
\<close>

datatype derefAnswer = DObj pdfObj | DErr string | DPanic string

text \<open>
  \<open>xrefNums\<close> lists the object numbers of the cross-reference table; the library answers null for a
  reference to any other number. \<open>docRoot\<close> is the trailer's \<open>/Root\<close> reference, \<open>docCatalog\<close> what the
  library's \<open>Catalog\<close> call answers.
\<close>

record pdfDoc =
  xrefNums :: "int list"
  xrefLookup :: "int \<Rightarrow> int \<Rightarrow> derefAnswer"
  docRoot :: "(int \<times> int) option"
  docCatalog :: derefAnswer

definition lookupRef :: "pdfDoc \<Rightarrow> int \<Rightarrow> int \<Rightarrow> derefAnswer" where
  "lookupRef doc n g = (if n \<in> set (xrefNums doc) then xrefLookup doc n g else DObj PNull)"

text \<open>\<^verbatim>\<open>Dereference\<close>: an object that is not a reference is its own answer.\<close>

fun dereference :: "pdfDoc \<Rightarrow> pdfObj \<Rightarrow> derefAnswer" where
  "dereference doc (PRef n g) = lookupRef doc n g"
| "dereference doc v = DObj v"

text \<open>\<^verbatim>\<open>derefIn\<close>: an error reads as null, a panic passes through.\<close>

definition derefIn :: "pdfDoc \<Rightarrow> pdfObj \<Rightarrow> string + pdfObj" where
  "derefIn doc v = (case dereference doc v of DObj w \<Rightarrow> Inr w | DErr e \<Rightarrow> Inr PNull | DPanic p \<Rightarrow> Inl p)"

text \<open>A dereference under \<^verbatim>\<open>safeCall\<close> whose error is only tested for: null when it fails either way.\<close>

definition safeDeref :: "pdfDoc \<Rightarrow> pdfObj \<Rightarrow> pdfObj" where
  "safeDeref doc v = (case dereference doc v of DObj w \<Rightarrow> w | _ \<Rightarrow> PNull)"

text \<open>A document no read of which panics.\<close>

definition quietDoc :: "pdfDoc \<Rightarrow> bool" where
  "quietDoc doc \<longleftrightarrow> (\<forall>n g p. lookupRef doc n g \<noteq> DPanic p)"

lemma quiet_deref: "quietDoc doc \<Longrightarrow> dereference doc v \<noteq> DPanic p"
  by (cases v) (auto simp: quietDoc_def)

lemma quiet_derefIn: "quietDoc doc \<Longrightarrow> derefIn doc v = Inr (safeDeref doc v)"
  using quiet_deref [of doc v] by (simp add: derefIn_def safeDeref_def split: derefAnswer.split)

text \<open>\<^verbatim>\<open>catalogIndirectRef\<close>\<close>

definition catalogIndirectRef :: "pdfDoc \<Rightarrow> (int \<times> int) option" where
  "catalogIndirectRef doc = docRoot doc"

text \<open>\<^verbatim>\<open>refString\<close>, \<^verbatim>\<open>nodeIDForRef\<close>\<close>

definition refString :: "int \<Rightarrow> int \<Rightarrow> string" where
  "refString n g = showInt n @ '' '' @ showInt g @ '' R''"

definition nodeIDForRef :: "int \<Rightarrow> int \<Rightarrow> string" where
  "nodeIDForRef n g = ''obj:'' @ showInt g @ '':'' @ showInt n"

lemma nodeIDForRef_inject [simp]: "nodeIDForRef n g = nodeIDForRef m h \<longleftrightarrow> n = m \<and> g = h"
proof
  assume a: "nodeIDForRef n g = nodeIDForRef m h"
  then have e: "showInt g @ '':'' @ showInt n = showInt h @ '':'' @ showInt m" by (simp add: nodeIDForRef_def)
  have c: "r = [] \<or> \<not> numChar (hd r)" if "r = '':'' @ s" for r s
    using that by (simp add: numChar_def sign_not_digit)
  have "g = h" by (rule showInt_append_inject(1) [OF e]) (rule c, rule refl)+
  moreover from this e have "showInt n = showInt m" by simp
  ultimately show "n = m \<and> g = h" by simp
qed simp

lemma refString_inject [simp]: "refString n g = refString m h \<longleftrightarrow> n = m \<and> g = h"
proof
  assume a: "refString n g = refString m h"
  then have e: "showInt n @ '' '' @ showInt g @ '' R'' = showInt m @ '' '' @ showInt h @ '' R''"
    by (simp add: refString_def)
  have c: "r = [] \<or> \<not> numChar (hd r)" if "r = '' '' @ s" for r s
    using that by (simp add: numChar_def sign_not_digit)
  have n: "n = m" by (rule showInt_append_inject(1) [OF e]) (rule c, rule refl)+
  with e have e2: "showInt g @ '' R'' = showInt h @ '' R''" by simp
  have "g = h" by (rule showInt_append_inject(1) [OF e2]) (simp_all add: numChar_def sign_not_digit)
  with n show "n = m \<and> g = h" by simp
qed simp

lemma nodeIDForRef_not_root [simp]: "nodeIDForRef n g \<noteq> ''root''"
  by (simp add: nodeIDForRef_def)

section \<open>References inside an object\<close>

text \<open>The references found in an object without following any: through arrays, dictionaries, streams.\<close>

lemma dict_size [termination_simp]: "(k, v) \<in> set d \<Longrightarrow> size v < Suc (size_list (size_prod (\<lambda>_. 0) size) d + n)"
  by (induction d) auto

fun innerRefs :: "pdfObj \<Rightarrow> (int \<times> int) list" where
  "innerRefs (PRef n g) = [(n, g)]"
| "innerRefs (PArray xs) = concat (map innerRefs xs)"
| "innerRefs (PDict d) = concat (map (\<lambda>(k, v). innerRefs v) d)"
| "innerRefs (PStream sk d) = concat (map (\<lambda>(k, v). innerRefs v) d)"
| "innerRefs _ = []"

end
