(* ===== verification/ObjectGraph.thy ===== *)
theory ObjectGraph
  imports PdfObject
begin

text \<open>
  The object graph of a document and the breadth-first walk that finds what the catalog reaches:
  \<^verbatim>\<open>buildReachableSet\<close> and \<^verbatim>\<open>queueRefs\<close> of \<^verbatim>\<open>internal/pdfcore/objectindex.go\<close>. The walk's depth counter
  is carried along by the code and never read, so it is left out.
\<close>

section \<open>Reachability\<close>

text \<open>What a reference leads to: nothing when its read fails.\<close>

definition refContent :: "pdfDoc \<Rightarrow> int \<Rightarrow> int \<Rightarrow> pdfObj" where
  "refContent doc n g = (case lookupRef doc n g of DObj v \<Rightarrow> v | _ \<Rightarrow> PNull)"

inductive docReach :: "pdfDoc \<Rightarrow> pdfObj \<Rightarrow> int \<Rightarrow> int \<Rightarrow> bool" for doc cat where
  reach_inner: "(n, g) \<in> set (innerRefs cat) \<Longrightarrow> docReach doc cat n g"
| reach_ref: "docReach doc cat n g \<Longrightarrow> (m, h) \<in> set (innerRefs (refContent doc n g)) \<Longrightarrow> docReach doc cat m h"

text \<open>
  What the walk over object numbers relies on of the library: a read does not depend on the generation
  written in the reference, the object a number names is not itself a bare reference, and \<open>Catalog\<close>
  answers what \<open>/Root\<close> refers to.
\<close>

definition plainDoc :: "pdfDoc \<Rightarrow> bool" where
  "plainDoc doc \<longleftrightarrow> (\<forall>n g h. lookupRef doc n g = lookupRef doc n h)
     \<and> (\<forall>n g v. lookupRef doc n g = DObj v \<or> docCatalog doc = DObj v \<longrightarrow> \<not> isRef v)
     \<and> (\<forall>n g. docRoot doc = Some (n, g) \<longrightarrow> lookupRef doc n g = docCatalog doc)"

section \<open>The walk\<close>

definition queueRefs ::
  "pdfDoc \<Rightarrow> pdfObj \<Rightarrow> pdfObj list \<Rightarrow> int list \<Rightarrow> string + (pdfObj list \<times> int list)" where
  "queueRefs doc val queue reachable =
     (case val of
        PRef n g \<Rightarrow>
          if n \<in> set reachable then Inr (queue, reachable)
          else (case lookupRef doc n g of
                  DPanic p \<Rightarrow> Inl p
                | DErr e \<Rightarrow> Inr (queue, n # reachable)
                | DObj v \<Rightarrow> if v = PNull then Inr (queue, n # reachable)
                    else Inr (queue @ [v], n # reachable))
      | _ \<Rightarrow> if isContainer val then Inr (queue @ [val], reachable) else Inr (queue, reachable))"

fun queueAll ::
  "pdfDoc \<Rightarrow> pdfObj list \<Rightarrow> pdfObj list \<Rightarrow> int list \<Rightarrow> string + (pdfObj list \<times> int list)" where
  "queueAll doc [] queue reachable = Inr (queue, reachable)"
| "queueAll doc (v # vs) queue reachable =
     (case queueRefs doc v queue reachable of
        Inl p \<Rightarrow> Inl p
      | Inr (queue', reachable') \<Rightarrow> queueAll doc vs queue' reachable')"

fun objWeight :: "pdfObj \<Rightarrow> nat" where
  "objWeight (PArray xs) = 1 + sum_list (map objWeight xs)"
| "objWeight (PDict d) = 1 + sum_list (map (\<lambda>(k, v). objWeight v) d)"
| "objWeight (PStream sk d) = 2 + sum_list (map (\<lambda>(k, v). objWeight v) d)"
| "objWeight _ = 1"

definition queueWeight :: "pdfObj list \<Rightarrow> nat" where
  "queueWeight q = sum_list (map objWeight q)"

definition unseen :: "pdfDoc \<Rightarrow> int list \<Rightarrow> nat" where
  "unseen doc reachable = card (set (xrefNums doc) - set reachable)"

lemma unseen_Cons: "unseen doc (n # r) \<le> unseen doc r"
  "n \<in> set (xrefNums doc) \<Longrightarrow> n \<notin> set r \<Longrightarrow> unseen doc (n # r) < unseen doc r"
proof -
  show "unseen doc (n # r) \<le> unseen doc r" unfolding unseen_def by (rule card_mono) auto
  show "unseen doc (n # r) < unseen doc r" if "n \<in> set (xrefNums doc)" "n \<notin> set r"
    unfolding unseen_def by (rule psubset_card_mono) (use that in auto)
qed

lemma queueRefs_weight:
  assumes "queueRefs doc v q r = Inr (q', r')"
  shows "unseen doc r' < unseen doc r \<or> (unseen doc r' = unseen doc r \<and> queueWeight q' \<le> queueWeight q + objWeight v)"
proof (cases v)
  case (PRef n g)
  show ?thesis
  proof (cases "n \<in> set r \<or> n \<notin> set (xrefNums doc)")
    case True
    with assms PRef have "q' = q \<and> (r' = r \<or> r' = n # r)" 
      by (auto simp: queueRefs_def lookupRef_def split: if_split_asm)
    with unseen_Cons(1) [of doc n r] show ?thesis by (auto simp: le_less)
  next
    case False
    with assms PRef have "r' = n # r" by (auto simp: queueRefs_def split: derefAnswer.split_asm if_split_asm)
    with False unseen_Cons(2) show ?thesis by auto
  qed
qed (use assms in \<open>auto simp: queueRefs_def queueWeight_def\<close>)

lemma queueAll_weight:
  "queueAll doc vs q r = Inr (q', r') \<Longrightarrow>
    unseen doc r' < unseen doc r \<or> (unseen doc r' = unseen doc r
      \<and> queueWeight q' \<le> queueWeight q + sum_list (map objWeight vs))"
proof (induction vs arbitrary: q r)
  case (Cons v vs)
  then obtain q1 r1 where s: "queueRefs doc v q r = Inr (q1, r1)" "queueAll doc vs q1 r1 = Inr (q', r')"
    by (auto split: sum.split_asm)
  from queueRefs_weight [OF s(1)] Cons.IH [OF s(2)] show ?case by auto
qed simp

function reachLoop :: "pdfDoc \<Rightarrow> pdfObj list \<Rightarrow> int list \<Rightarrow> string + int list" where
  "reachLoop doc [] reachable = Inr reachable"
| "reachLoop doc (v # queue) reachable =
     (case v of
        PDict d \<Rightarrow> (case queueAll doc (map snd d) queue reachable of
            Inl p \<Rightarrow> Inl p | Inr (queue', reachable') \<Rightarrow> reachLoop doc queue' reachable')
      | PStream sk d \<Rightarrow> reachLoop doc (queue @ [PDict d]) reachable
      | PArray xs \<Rightarrow> (case queueAll doc xs queue reachable of
            Inl p \<Rightarrow> Inl p | Inr (queue', reachable') \<Rightarrow> reachLoop doc queue' reachable')
      | _ \<Rightarrow> reachLoop doc queue reachable)"
  by pat_completeness auto
termination reachLoop
proof (relation "measures [\<lambda>(doc, q, r). unseen doc r, \<lambda>(doc, q, r). queueWeight q]", goal_cases)
  case 1
  show ?case by simp
qed (auto dest!: queueAll_weight simp: queueWeight_def comp_def case_prod_unfold)

definition buildReachableSet :: "pdfDoc \<Rightarrow> string + int list" where
  "buildReachableSet doc =
     (case docCatalog doc of
        DPanic p \<Rightarrow> Inl p
      | DErr e \<Rightarrow> Inr []
      | DObj c \<Rightarrow>
          if c = PNull then Inr []
          else reachLoop doc [c]
                 (case catalogIndirectRef doc of None \<Rightarrow> [] | Some (n, g) \<Rightarrow> [n]))"

section \<open>What the walk keeps\<close>

text \<open>A reference is covered once its number is marked or it stands inside a queued object.\<close>

definition covered :: "pdfObj list \<Rightarrow> int list \<Rightarrow> int \<times> int \<Rightarrow> bool" where
  "covered q r p \<longleftrightarrow> fst p \<in> set r \<or> (\<exists>v \<in> set q. p \<in> set (innerRefs v))"

definition reachClosed :: "pdfDoc \<Rightarrow> pdfObj list \<Rightarrow> int list \<Rightarrow> bool" where
  "reachClosed doc q r \<longleftrightarrow> (\<forall>n \<in> set r. \<forall>g. \<forall>p \<in> set (innerRefs (refContent doc n g)). covered q r p)"

definition reachSound :: "pdfDoc \<Rightarrow> pdfObj \<Rightarrow> int set \<Rightarrow> pdfObj list \<Rightarrow> int list \<Rightarrow> bool" where
  "reachSound doc cat S q r \<longleftrightarrow> (\<forall>n \<in> set r. n \<in> S \<or> (\<exists>g. docReach doc cat n g))
     \<and> (\<forall>v \<in> set q. \<forall>(n, g) \<in> set (innerRefs v). docReach doc cat n g)"

lemma refContent_gen: "plainDoc doc \<Longrightarrow> refContent doc n g = refContent doc n h"
  unfolding plainDoc_def refContent_def by metis

lemma queueRefs_cases:
  assumes "queueRefs doc v q r = Inr (q', r')"
  obtains (seen) n g where "v = PRef n g" "n \<in> set r" "q' = q" "r' = r"
  | (leaf) n g where "v = PRef n g" "n \<notin> set r" "q' = q" "r' = n # r" "refContent doc n g = PNull"
  | (push) n g where "v = PRef n g" "n \<notin> set r" "q' = q @ [refContent doc n g]" "r' = n # r"
  | (inline) "\<not> isRef v" "isContainer v" "q' = q @ [v]" "r' = r"
  | (skip) "innerRefs v = []" "q' = q" "r' = r"
  using assms
  by (cases v) (auto simp: queueRefs_def refContent_def split: if_split_asm derefAnswer.split_asm)

lemma queueRefs_covers:
  assumes "queueRefs doc v q r = Inr (q', r')"
  shows "p \<in> set (innerRefs v) \<Longrightarrow> covered q' r' p" "covered q r p \<Longrightarrow> covered q' r' p"
  using assms by (auto elim!: queueRefs_cases simp: covered_def)

lemma queueRefs_closed:
  assumes "queueRefs doc v q r = Inr (q', r')" "plainDoc doc" "reachClosed doc (w @ q) r"
  shows "reachClosed doc (w @ q') r'"
proof -
  have cov: "covered (w @ q') r' p" if "covered (w @ q) r p" for p
    using that queueRefs_covers(2) [OF assms(1)] assms(1) by (fastforce elim!: queueRefs_cases simp: covered_def)
  from assms(1) show ?thesis
  proof (cases rule: queueRefs_cases)
    case (leaf n g)
    with refContent_gen [OF assms(2), of n _ g] cov assms(3) show ?thesis by (auto simp: reachClosed_def)
  next
    case (push n g)
    have "covered (w @ q') r' p" if "p \<in> set (innerRefs (refContent doc n h))" for h p
      using that push refContent_gen [OF assms(2), of n h g] by (auto simp: covered_def)
    with push cov assms(3) show ?thesis by (auto simp: reachClosed_def)
  qed (use cov assms(3) in \<open>auto simp: reachClosed_def\<close>)
qed

lemma queueRefs_sound:
  assumes "queueRefs doc v q r = Inr (q', r')" "reachSound doc cat S q r"
    "\<forall>(n, g) \<in> set (innerRefs v). docReach doc cat n g"
  shows "reachSound doc cat S q' r'"
  using assms(1)
proof (cases rule: queueRefs_cases)
  case (push n g)
  with assms(3) have "docReach doc cat n g" by simp
  with push assms(2) reach_ref [OF this] show ?thesis by (auto simp: reachSound_def)
qed (use assms in \<open>auto simp: reachSound_def\<close>)

lemma queueAll_keeps:
  assumes "plainDoc doc"
  shows "queueAll doc vs q r = Inr (q', r') \<Longrightarrow> reachClosed doc (vs @ q) r \<Longrightarrow>
    reachSound doc cat S (vs @ q) r \<Longrightarrow>
    reachClosed doc q' r' \<and> reachSound doc cat S q' r' \<and> (\<forall>p. covered (vs @ q) r p \<longrightarrow> covered q' r' p)"
proof (induction vs arbitrary: q r)
  case (Cons v vs)
  from Cons.prems(1) obtain q1 r1 where s: "queueRefs doc v q r = Inr (q1, r1)" "queueAll doc vs q1 r1 = Inr (q', r')"
    by (auto split: sum.split_asm)
  have cv: "covered (vs @ q1) r1 p" if "covered ((v # vs) @ q) r p" for p
    using that queueRefs_covers [OF s(1), of p] by (auto simp: covered_def)
  have "reachClosed doc ((v # vs) @ q1) r1" 
    by (rule queueRefs_closed [OF s(1) assms Cons.prems(2)])
  moreover have "covered (vs @ q1) r1 p" if "covered ((v # vs) @ q1) r1 p" for p
    using that queueRefs_covers(1) [OF s(1), of p] by (auto simp: covered_def)
  ultimately have c: "reachClosed doc (vs @ q1) r1" by (simp add: reachClosed_def)
  have "reachSound doc cat S q r" "\<forall>(n, g) \<in> set (innerRefs v). docReach doc cat n g"
    using Cons.prems(3) by (auto simp: reachSound_def)
  from queueRefs_sound [OF s(1) this] have "reachSound doc cat S (vs @ q1) r1"
    using Cons.prems(3) by (auto simp: reachSound_def)
  from Cons.IH [OF s(2) c this] cv show ?case by blast
qed simp

lemma inner_dict: "(\<exists>v \<in> set (map snd d). p \<in> set (innerRefs v)) \<longleftrightarrow> p \<in> set (innerRefs (PDict d))"
  by force

lemma covered_append: "covered (u @ q) r p \<longleftrightarrow> (\<exists>v \<in> set u. p \<in> set (innerRefs v)) \<or> covered q r p"
  by (auto simp: covered_def)

lemma covered_unfold:
  "covered (PDict d # q) r p = covered (map snd d @ q) r p"
  "covered (PArray xs # q) r p = covered (xs @ q) r p"
  "covered (PStream sk d # q) r p = covered (q @ [PDict d]) r p"
proof -
  show "covered (PDict d # q) r p = covered (map snd d @ q) r p"
    unfolding covered_append inner_dict by (auto simp: covered_def)
qed (auto simp: covered_def)

lemma reachSound_unfold:
  "reachSound doc cat S (PDict d # q) r = reachSound doc cat S (map snd d @ q) r"
  "reachSound doc cat S (PArray xs # q) r = reachSound doc cat S (xs @ q) r"
  "reachSound doc cat S (PStream sk d # q) r = reachSound doc cat S (q @ [PDict d]) r"
proof -
  have "(\<forall>v \<in> set (map snd d). \<forall>p \<in> set (innerRefs v). Q p) \<longleftrightarrow> (\<forall>p \<in> set (innerRefs (PDict d)). Q p)" for Q
    by force
  then show "reachSound doc cat S (PDict d # q) r = reachSound doc cat S (map snd d @ q) r"
    by (simp only: reachSound_def set_append ball_Un list.set ball_simps)
qed (auto simp: reachSound_def)

lemma reachClosed_unfold:
  "reachClosed doc (PDict d # q) r = reachClosed doc (map snd d @ q) r"
  "reachClosed doc (PArray xs # q) r = reachClosed doc (xs @ q) r"
  "reachClosed doc (PStream sk d # q) r = reachClosed doc (q @ [PDict d]) r"
  by (simp_all only: reachClosed_def covered_unfold)

text \<open>A queue never holds a bare reference: \<open>queueRefs\<close> resolves those it is given.\<close>

definition noRefs :: "pdfObj list \<Rightarrow> bool" where
  "noRefs q \<longleftrightarrow> (\<forall>v \<in> set q. \<not> isRef v)"

lemma queueAll_noRefs:
  "plainDoc doc \<Longrightarrow> queueAll doc vs q r = Inr (q', r') \<Longrightarrow> noRefs q \<Longrightarrow> noRefs q'"
proof (induction vs arbitrary: q r)
  case (Cons v vs)
  from Cons.prems(2) obtain q1 r1 where s: "queueRefs doc v q r = Inr (q1, r1)" "queueAll doc vs q1 r1 = Inr (q', r')"
    by (auto split: sum.split_asm)
  have "\<not> isRef (refContent doc n g)" for n g
    using Cons.prems(1) by (auto simp: plainDoc_def refContent_def split: derefAnswer.split)
  with s(1) Cons.prems(3) have "noRefs q1"
    by (cases rule: queueRefs_cases) (auto simp: noRefs_def)
  with Cons.IH [OF Cons.prems(1) s(2)] show ?case by simp
qed simp

lemma reachLoop_keeps:
  "reachLoop doc q r = Inr r' \<Longrightarrow> plainDoc doc \<Longrightarrow> noRefs q \<Longrightarrow> reachClosed doc q r \<Longrightarrow>
    reachSound doc cat S q r \<Longrightarrow>
    reachClosed doc [] r' \<and> reachSound doc cat S [] r' \<and> (\<forall>p. covered q r p \<longrightarrow> covered [] r' p)"
proof (induction doc q r rule: reachLoop.induct)
  case (2 doc v queue r)
  note IH = "2.IH" and prems = "2.prems"
  from prems(3) have nr: "\<not> isRef v" "noRefs queue" by (simp_all add: noRefs_def)
  show ?case
  proof (cases "isContainer v")
    case False
    with nr have e: "innerRefs v = []" and l: "reachLoop doc queue r = Inr r'"
      using prems(1) by (cases v; simp)+
    have u: "covered (v # queue) r p = covered queue r p" for p by (simp add: covered_def e)
    have a: "reachSound doc cat S queue r" using prems(5) by (simp add: reachSound_def)
    have b: "reachClosed doc queue r" using prems(4) by (simp add: reachClosed_def u)
    note ih = IH(1-8) [OF _ l prems(2) nr(2) b a]
    from False nr(1) show ?thesis unfolding u by - (cases v; (rule ih; assumption | simp))
  next
    case True
    then show ?thesis
    proof (cases v)
    case (PDict d)
    with prems(1) obtain q1 r1 where s: "queueAll doc (map snd d) queue r = Inr (q1, r1)" "reachLoop doc q1 r1 = Inr r'"
      by (auto split: sum.split_asm)
    note keep = queueAll_keeps [OF prems(2) s(1), of cat S] and nr' = queueAll_noRefs [OF prems(2) s(1) nr(2)]
    from prems(4,5) have "reachClosed doc (map snd d @ queue) r" "reachSound doc cat S (map snd d @ queue) r"
      unfolding PDict by (simp_all only: reachSound_unfold reachClosed_unfold)
    note k = keep [OF this]
    from IH(10) [OF PDict s(1) refl s(2) prems(2) nr'] k show ?thesis
      unfolding PDict covered_unfold by blast
  next
    case (PArray xs)
    with prems(1) obtain q1 r1 where s: "queueAll doc xs queue r = Inr (q1, r1)" "reachLoop doc q1 r1 = Inr r'"
      by (auto split: sum.split_asm)
    note keep = queueAll_keeps [OF prems(2) s(1), of cat S] and nr' = queueAll_noRefs [OF prems(2) s(1) nr(2)]
    from prems(4,5) have "reachClosed doc (xs @ queue) r" "reachSound doc cat S (xs @ queue) r"
      unfolding PArray by (simp_all only: reachSound_unfold reachClosed_unfold)
    note k = keep [OF this]
    from IH(9) [OF PArray s(1) refl s(2) prems(2) nr'] k show ?thesis
      unfolding PArray covered_unfold by blast
  next
    case (PStream sk d)
    with prems(1) have s: "reachLoop doc (queue @ [PDict d]) r = Inr r'" by simp
    have "noRefs (queue @ [PDict d])" using nr by (simp add: noRefs_def)
    from IH(11) [OF PStream s prems(2) this] prems(4,5) show ?thesis
      unfolding PStream covered_unfold reachSound_unfold reachClosed_unfold by blast
    qed simp_all
  qed
qed simp

lemma queueRefs_total:
  "\<forall>n g p. lookupRef doc n g \<noteq> DPanic p \<Longrightarrow> \<exists>q' r'. queueRefs doc v q r = Inr (q', r')"
  by (cases v) (auto simp: queueRefs_def split: derefAnswer.split)

lemma queueAll_total:
  "\<forall>n g p. lookupRef doc n g \<noteq> DPanic p \<Longrightarrow> \<exists>q' r'. queueAll doc vs q r = Inr (q', r')"
proof (induction vs arbitrary: q r)
  case (Cons v vs)
  with queueRefs_total [of doc v q r] obtain q1 r1 where "queueRefs doc v q r = Inr (q1, r1)" by blast
  with Cons show ?case by simp
qed simp

lemma reachLoop_total:
  "\<forall>n g p. lookupRef doc n g \<noteq> DPanic p \<Longrightarrow> \<exists>r'. reachLoop doc q r = Inr r'"
proof (induction doc q r rule: reachLoop.induct)
  case (2 doc v queue r)
  note all = queueAll_total [OF "2.prems"]
  show ?case
  proof (cases v)
    case (PDict d)
    with "2.IH"(10) [OF PDict] "2.prems" all [of "map snd d" queue r] show ?thesis by fastforce
  next
    case (PArray xs)
    with "2.IH"(9) [OF PArray] "2.prems" all [of xs queue r] show ?thesis by fastforce
  qed (use "2.IH" "2.prems" in auto)
qed simp

lemma noRefs_Nil_covered: "covered [] r p \<longleftrightarrow> fst p \<in> set r"
  by (simp add: covered_def)

lemma reachLoop_exact:
  assumes "reachLoop doc [c] r0 = Inr r" "plainDoc doc" "\<not> isRef c"
    "\<And>n g. n \<in> set r0 \<Longrightarrow> refContent doc n g = c"
  shows "n \<in> set r \<longleftrightarrow> n \<in> set r0 \<or> (\<exists>g. docReach doc c n g)"
proof -
  have 1: "noRefs [c]" using assms(3) by (simp add: noRefs_def)
  have 2: "reachClosed doc [c] r0" using assms(4) by (simp add: reachClosed_def covered_def)
  have 3: "reachSound doc c (set r0) [c] r0" by (auto simp: reachSound_def intro: reach_inner)
  from reachLoop_keeps [OF assms(1,2) 1 2 3]
  have cl: "reachClosed doc [] r" and so: "reachSound doc c (set r0) [] r"
    and cv: "\<And>p. covered [c] r0 p \<Longrightarrow> fst p \<in> set r" by (auto simp: noRefs_Nil_covered)
  show ?thesis
  proof
    assume "n \<in> set r"
    with so show "n \<in> set r0 \<or> (\<exists>g. docReach doc c n g)" by (simp add: reachSound_def)
  next
    have r: "n \<in> set r" if "docReach doc c n g" for n g
      using that
    proof induction
      case (reach_inner n g)
      with cv [of "(n, g)"] show ?case by (simp add: covered_def)
    next
      case (reach_ref n g m h)
      with cl show ?case by (fastforce simp: reachClosed_def noRefs_Nil_covered)
    qed
    have "n \<in> set r" if "n \<in> set r0" using that cv [of "(n, 0)"] by (simp add: covered_def)
    with r show "n \<in> set r0 \<or> (\<exists>g. docReach doc c n g) \<Longrightarrow> n \<in> set r" by auto
  qed
qed

lemma reachable_exact:
  assumes "plainDoc doc" "docCatalog doc = DObj c" "c \<noteq> PNull"
    "\<forall>n g p. lookupRef doc n g \<noteq> DPanic p"
  shows "\<exists>r. buildReachableSet doc = Inr r \<and>
    (\<forall>n. n \<in> set r \<longleftrightarrow> (\<exists>g. docRoot doc = Some (n, g)) \<or> (\<exists>g. docReach doc c n g))"
proof -
  define r0 where "r0 = (case catalogIndirectRef doc of None \<Rightarrow> [] | Some (n, g) \<Rightarrow> [n])"
  obtain r where r: "reachLoop doc [c] r0 = Inr r" using reachLoop_total [OF assms(4)] by blast
  have b: "buildReachableSet doc = Inr r" using assms(2,3) r by (simp add: buildReachableSet_def r0_def)
  have m: "n \<in> set r0 \<longleftrightarrow> (\<exists>g. docRoot doc = Some (n, g))" for n
    by (cases "docRoot doc") (auto simp: r0_def catalogIndirectRef_def)
  have c: "refContent doc n g = c" if "n \<in> set r0" for n g
  proof -
    from that m obtain h where "docRoot doc = Some (n, h)" by blast
    with assms(1,2) have "refContent doc n h = c" by (auto simp: plainDoc_def refContent_def)
    with refContent_gen [OF assms(1)] show ?thesis by blast
  qed
  have "\<not> isRef c" using assms(1,2) by (auto simp: plainDoc_def)
  from reachLoop_exact [OF r assms(1) this c] m b show ?thesis by auto
qed

section \<open>Properties\<close>

text \<open>
  Claim C11. The walk returns, and the numbers it marks are exactly the catalog's own and those of the
  references found by following the document from its catalog, at any depth and through any cycle.
\<close>

theorem reachable_set_exact:
  assumes "plainDoc doc" "docCatalog doc = DObj c" "c \<noteq> PNull"
    "\<forall>n g p. lookupRef doc n g \<noteq> DPanic p"
  shows "\<exists>r. buildReachableSet doc = Inr r \<and>
    (\<forall>n. n \<in> set r \<longleftrightarrow> (\<exists>g. docRoot doc = Some (n, g)) \<or> (\<exists>g. docReach doc c n g))"
  using assms by (rule reachable_exact)

text \<open>A document with a catalog (1), a page tree (2) whose page (3) points back at it, and an orphan (4).\<close>

definition sampleObjects :: "int \<Rightarrow> pdfObj" where
  "sampleObjects n =
     (if n = 1 then PDict [(''Type'', PName ''Catalog''), (''Pages'', PRef 2 0)]
      else if n = 2 then PDict [(''Type'', PName ''Pages''), (''Kids'', PArray [PRef 3 0]), (''Count'', PInt 1)]
      else if n = 3 then PDict [(''Type'', PName ''Page''), (''Parent'', PRef 2 0)]
      else if n = 4 then PDict [(''Next'', PRef 3 0)]
      else PNull)"

definition sampleDoc :: pdfDoc where
  "sampleDoc = \<lparr> xrefNums = [1, 2, 3, 4], xrefLookup = (\<lambda>n g. DObj (sampleObjects n)),
     docRoot = Some (1, 0), docCatalog = DObj (sampleObjects 1) \<rparr>"

lemma sampleDoc_plain: "plainDoc sampleDoc"
  by (auto simp: plainDoc_def sampleDoc_def lookupRef_def sampleObjects_def)

lemma sampleDoc_no_panic: "\<forall>n g p. lookupRef sampleDoc n g \<noteq> DPanic p"
  by (simp add: lookupRef_def sampleDoc_def)

lemma sampleDoc_catalog: "docCatalog sampleDoc = DObj (sampleObjects 1)" "sampleObjects 1 \<noteq> PNull"
  by (simp_all add: sampleDoc_def sampleObjects_def)

lemma sampleDoc_reach: "docReach sampleDoc (sampleObjects 1) n g \<Longrightarrow> n = 2 \<or> n = 3"
  by (induction rule: docReach.induct)
    (auto simp: sampleDoc_def sampleObjects_def refContent_def lookupRef_def)

theorem reachable_set_exact_witness:
  "\<exists>r. buildReachableSet sampleDoc = Inr r \<and> 1 \<in> set r \<and> 3 \<in> set r \<and> 4 \<notin> set r"
proof -
  from reachable_set_exact [OF sampleDoc_plain sampleDoc_catalog sampleDoc_no_panic]
  obtain r where r: "buildReachableSet sampleDoc = Inr r"
    "\<And>n. n \<in> set r \<longleftrightarrow> (\<exists>g. docRoot sampleDoc = Some (n, g)) \<or> (\<exists>g. docReach sampleDoc (sampleObjects 1) n g)"
    by blast
  have 2: "docReach sampleDoc (sampleObjects 1) 2 0"
    by (rule reach_inner) (simp add: sampleObjects_def)
  have 3: "docReach sampleDoc (sampleObjects 1) 3 0"
    by (rule reach_ref [OF 2]) (simp add: sampleDoc_def sampleObjects_def refContent_def lookupRef_def)
  have "docRoot sampleDoc = Some (1, 0)" by (simp add: sampleDoc_def)
  with r 3 show ?thesis using sampleDoc_reach by fastforce
qed

end
