(* ===== verification/ObjectIndex.thy ===== *)
theory ObjectIndex
  imports ObjectGraph "HOL-Library.Multiset"
begin

text \<open>
  The two views of the cross-reference table: the object index (\<^verbatim>\<open>internal/pdfcore/objectindex.go\<close>)
  and the table itself (\<^verbatim>\<open>internal/pdfcore/xreftable.go\<close>). The library's table is a Go map from object
  numbers to entries that may be nil; it is modelled as the list of its entries in the order Go happens
  to walk them, each number once.
\<close>

section \<open>The cross-reference table\<close>

record xrefSlot =
  slotFree :: bool
  slotCompressed :: bool
  slotGeneration :: "int option"
  slotOffset :: "int option"
  slotObjectStream :: "int option"
  slotObject :: pdfObj

type_synonym xrefTable = "(int \<times> xrefSlot option) list"

definition slotGen :: "xrefSlot \<Rightarrow> int" where
  "slotGen s = (case slotGeneration s of None \<Rightarrow> 0 | Some g \<Rightarrow> g)"

text \<open>The entries both views show: object 0 and nil entries are skipped.\<close>

definition tableRows :: "(int \<Rightarrow> xrefSlot \<Rightarrow> 'r) \<Rightarrow> xrefTable \<Rightarrow> 'r list" where
  "tableRows f table = concat (map (\<lambda>(n, s). case s of None \<Rightarrow> [] | Some e \<Rightarrow> if n = 0 then [] else [f n e]) table)"

section \<open>The object index\<close>

record indexEntry =
  ixObjNum :: int
  ixGen :: int
  ixTypeName :: string
  ixFree :: bool
  ixReachable :: bool
  ixNodeID :: string

definition indexRow :: "int list \<Rightarrow> int \<Rightarrow> xrefSlot \<Rightarrow> indexEntry" where
  "indexRow reachable objNum entry =
     \<lparr> ixObjNum = objNum,
       ixGen = slotGen entry,
       ixTypeName = (if slotFree entry then [] else extractTypeName (slotObject entry)),
       ixFree = slotFree entry,
       ixReachable = (objNum \<in> set reachable \<and> \<not> slotFree entry),
       ixNodeID = (if objNum \<in> set reachable \<and> \<not> slotFree entry
                   then nodeIDForRef objNum (slotGen entry) else []) \<rparr>"

definition buildObjectIndex :: "pdfDoc \<Rightarrow> xrefTable \<Rightarrow> string + indexEntry list" where
  "buildObjectIndex doc table =
     (case buildReachableSet doc of
        Inl p \<Rightarrow> Inl p
      | Inr reachable \<Rightarrow>
          Inr (sort_key (\<lambda>e. (ixObjNum e, ixGen e)) (tableRows (indexRow reachable) table)))"

section \<open>The table view\<close>

datatype xrefStatus = InUse | InObjStm | FreeSlot

record xrefRow =
  xrObjNum :: int
  xrGen :: int
  xrStatus :: xrefStatus
  xrOffset :: int
  xrHostObjStm :: int
  xrNodeID :: string

definition xrefRowOf :: "int \<Rightarrow> xrefSlot \<Rightarrow> xrefRow" where
  "xrefRowOf objNum entry =
     (let gen = slotGen entry in
      if slotFree entry then
        \<lparr> xrObjNum = objNum, xrGen = gen, xrStatus = FreeSlot, xrOffset = -1, xrHostObjStm = 0, xrNodeID = [] \<rparr>
      else if slotCompressed entry then
        \<lparr> xrObjNum = objNum, xrGen = gen, xrStatus = InObjStm, xrOffset = -1,
          xrHostObjStm = (case slotObjectStream entry of None \<Rightarrow> 0 | Some h \<Rightarrow> h),
          xrNodeID = nodeIDForRef objNum gen \<rparr>
      else
        \<lparr> xrObjNum = objNum, xrGen = gen, xrStatus = InUse,
          xrOffset = (case slotOffset entry of None \<Rightarrow> -1 | Some o' \<Rightarrow> o'),
          xrHostObjStm = 0, xrNodeID = nodeIDForRef objNum gen \<rparr>)"

definition buildXRefTable :: "xrefTable \<Rightarrow> xrefRow list" where
  "buildXRefTable table = sort_key (\<lambda>e. (xrObjNum e, xrGen e)) (tableRows xrefRowOf table)"

section \<open>Rows\<close>

definition shownSlots :: "xrefTable \<Rightarrow> (int \<times> xrefSlot) list" where
  "shownSlots table = tableRows Pair table"

lemma tableRows_map: "tableRows f table = map (\<lambda>(n, e). f n e) (shownSlots table)"
  unfolding shownSlots_def tableRows_def
  by (induction table) (auto split: option.split)

lemma shownSlots_mem: "(n, e) \<in> set (shownSlots table) \<longleftrightarrow> n \<noteq> 0 \<and> (n, Some e) \<in> set table"
  unfolding shownSlots_def tableRows_def
  by (induction table) (auto split: option.split)

lemma shownSlots_numbers: "fst ` set (shownSlots table) = {n. n \<noteq> 0 \<and> (\<exists>e. (n, Some e) \<in> set table)}"
proof (rule set_eqI)
  fix n
  have "n \<in> fst ` set (shownSlots table) \<longleftrightarrow> (\<exists>e. (n, e) \<in> set (shownSlots table))" by force
  then show "n \<in> fst ` set (shownSlots table) \<longleftrightarrow> n \<in> {n. n \<noteq> 0 \<and> (\<exists>e. (n, Some e) \<in> set table)}"
    by (simp add: shownSlots_mem)
qed

lemma shownSlots_distinct: "distinct (map fst table) \<Longrightarrow> distinct (map fst (shownSlots table))"
proof (induction table)
  case (Cons x xs)
  obtain n s where x: "x = (n, s)" by fastforce
  have c: "shownSlots (x # xs) = (case s of None \<Rightarrow> [] | Some e \<Rightarrow> if n = 0 then [] else [(n, e)]) @ shownSlots xs"
    by (simp add: shownSlots_def tableRows_def x)
  have "n \<notin> fst ` set (shownSlots xs)" using Cons.prems x by (force simp: shownSlots_mem)
  with Cons c show ?case by (auto simp: x split: option.split)
qed (simp add: shownSlots_def tableRows_def)

text \<open>Both views sort the shown slots by number, so both list them in the same order.\<close>

definition slotOrder :: "int \<times> xrefSlot \<Rightarrow> int \<times> int" where
  "slotOrder x = (fst x, slotGen (snd x))"

lemma sort_key_map:
  assumes "\<And>x. k (f x) = (h x :: 'k :: linorder)"
  shows "sort_key k (map f xs) = map f (sort_key h xs)"
proof -
  have "insort_key k (f a) (map f ys) = map f (insort_key h a ys)" for a ys
    by (induction ys) (simp_all add: assms)
  then show ?thesis by (induction xs) simp_all
qed

lemma sorted_rows:
  assumes "\<And>n e. k (f n e) = (n, slotGen e)"
  shows "sort_key k (tableRows f table) = map (\<lambda>(n, e). f n e) (sort_key slotOrder (shownSlots table))"
proof -
  have "k ((\<lambda>(n, e). f n e) x) = slotOrder x" for x by (cases x) (simp add: assms slotOrder_def)
  from sort_key_map [of k "\<lambda>(n, e). f n e", OF this] show ?thesis by (simp add: tableRows_map)
qed

lemma strict_numbers:
  assumes "distinct (map fst table)"
  shows "sorted_wrt (<) (map fst (sort_key slotOrder (shownSlots table)))" (is "sorted_wrt (<) (map fst ?s)")
proof -
  have "sorted (map slotOrder ?s)" by simp
  then have "sorted (map fst ?s)"
    by (auto simp: sorted_map slotOrder_def less_eq_prod_def elim!: sorted_wrt_mono_rel [rotated])
  moreover have "mset (map fst ?s) = mset (map fst (shownSlots table))" by (simp only: mset_map mset_sort)
  then have "distinct (map fst ?s)"
    using shownSlots_distinct [OF assms] by (metis mset_eq_imp_distinct_iff)
  ultimately show ?thesis by (simp add: strict_sorted_iff)
qed

lemma indexRow_order: "(\<lambda>e. (ixObjNum e, ixGen e)) (indexRow r n e) = (n, slotGen e)"
  by (simp add: indexRow_def)

lemma xrefRow_order: "(\<lambda>e. (xrObjNum e, xrGen e)) (xrefRowOf n e) = (n, slotGen e)"
  by (simp add: xrefRowOf_def Let_def)

lemmas index_rows = sorted_rows [where k = "\<lambda>e. (ixObjNum e, ixGen e)", OF indexRow_order]
  and xref_rows = sorted_rows [where k = "\<lambda>e. (xrObjNum e, xrGen e)", OF xrefRow_order]

section \<open>Properties\<close>

text \<open>
  The index has one row per entry of the table other than object 0, in increasing order of
  object numbers; a row is marked reachable, and carries the node ID it is opened by, exactly when its
  object is in use and reached from the catalog.
\<close>

theorem index_rows_exact:
  assumes "plainDoc doc" "docCatalog doc = DObj c" "c \<noteq> PNull" "\<forall>n g p. lookupRef doc n g \<noteq> DPanic p"
    "distinct (map fst table)"
  shows "\<exists>rows. buildObjectIndex doc table = Inr rows \<and>
    sorted_wrt (<) (map ixObjNum rows) \<and>
    ixObjNum ` set rows = {n. n \<noteq> 0 \<and> (\<exists>e. (n, Some e) \<in> set table)} \<and>
    (\<forall>row \<in> set rows. \<exists>e. (ixObjNum row, Some e) \<in> set table \<and> ixFree row = slotFree e \<and> ixGen row = slotGen e \<and>
      (ixReachable row \<longleftrightarrow> \<not> slotFree e \<and>
        ((\<exists>g. docRoot doc = Some (ixObjNum row, g)) \<or> (\<exists>g. docReach doc c (ixObjNum row) g))) \<and>
      ixNodeID row = (if ixReachable row then nodeIDForRef (ixObjNum row) (ixGen row) else []))"
proof -
  obtain r where r: "buildReachableSet doc = Inr r"
    "\<And>n. n \<in> set r \<longleftrightarrow> (\<exists>g. docRoot doc = Some (n, g)) \<or> (\<exists>g. docReach doc c n g)"
    using reachable_exact [OF assms(1-4)] by blast
  let ?s = "sort_key slotOrder (shownSlots table)"
  let ?rows = "map (\<lambda>(n, e). indexRow r n e) ?s"
  have "buildObjectIndex doc table = Inr ?rows"
    by (simp add: buildObjectIndex_def r(1) index_rows)
  moreover have f: "map ixObjNum ?rows = map fst ?s"
    by (auto simp: indexRow_def)
  moreover have "ixObjNum ` set ?rows = {n. n \<noteq> 0 \<and> (\<exists>e. (n, Some e) \<in> set table)}"
    using arg_cong [OF f, of set] shownSlots_numbers by (simp add: image_image)
  moreover have "sorted_wrt (<) (map ixObjNum ?rows)"
    unfolding f by (rule strict_numbers [OF assms(5)])
  moreover have "\<exists>e. (ixObjNum row, Some e) \<in> set table \<and> ixFree row = slotFree e \<and> ixGen row = slotGen e \<and>
      (ixReachable row \<longleftrightarrow> \<not> slotFree e \<and>
        ((\<exists>g. docRoot doc = Some (ixObjNum row, g)) \<or> (\<exists>g. docReach doc c (ixObjNum row) g))) \<and>
      ixNodeID row = (if ixReachable row then nodeIDForRef (ixObjNum row) (ixGen row) else [])"
    if "row \<in> set ?rows" for row
  proof -
    from that obtain n e where "row = indexRow r n e" "(n, e) \<in> set (shownSlots table)" by auto
    then show ?thesis by (intro exI [of _ e]) (auto simp: indexRow_def shownSlots_mem r(2))
  qed
  ultimately show ?thesis by (intro exI [of _ ?rows] conjI ballI)
qed

definition sampleSlot :: "pdfObj \<Rightarrow> xrefSlot" where
  "sampleSlot v = \<lparr> slotFree = False, slotCompressed = False, slotGeneration = Some 0, slotOffset = Some 9,
     slotObjectStream = None, slotObject = v \<rparr>"

definition sampleTable :: xrefTable where
  "sampleTable = [(4, Some (sampleSlot (sampleObjects 4))), (0, Some ((sampleSlot PNull) \<lparr> slotFree := True \<rparr>)),
     (3, Some (sampleSlot (sampleObjects 3))), (1, Some (sampleSlot (sampleObjects 1))), (7, None),
     (2, Some (sampleSlot (sampleObjects 2)))]"

lemma sampleTable_distinct: "distinct (map fst sampleTable)"
  by (simp add: sampleTable_def)

theorem index_rows_exact_witness:
  "\<exists>rows. buildObjectIndex sampleDoc sampleTable = Inr rows \<and> ixObjNum ` set rows = {1, 2, 3, 4} \<and>
     sorted_wrt (<) (map ixObjNum rows)"
  using index_rows_exact [OF sampleDoc_plain sampleDoc_catalog sampleDoc_no_panic sampleTable_distinct]
  by (fastforce simp: sampleTable_def)

text \<open>
  The table view has one row per entry other than object 0, in the order of the index; a row
  carries a node ID exactly when its entry is in use, and the two views agree on every number,
  generation, free flag and, where the index gives one, node ID.
\<close>

theorem views_agree:
  assumes "distinct (map fst table)" "buildObjectIndex doc table = Inr rows"
  shows "sorted_wrt (<) (map xrObjNum (buildXRefTable table)) \<and>
    list_all2 (\<lambda>i x. ixObjNum i = xrObjNum x \<and> ixGen i = xrGen x \<and> ixFree i = (xrStatus x = FreeSlot) \<and>
      xrNodeID x = (if ixFree i then [] else nodeIDForRef (ixObjNum i) (ixGen i)) \<and>
      (ixReachable i \<longrightarrow> ixNodeID i = xrNodeID x)) rows (buildXRefTable table)"
proof -
  let ?s = "sort_key slotOrder (shownSlots table)"
  have x: "buildXRefTable table = map (\<lambda>(n, e). xrefRowOf n e) ?s"
    by (simp add: buildXRefTable_def xref_rows)
  have f: "map xrObjNum (buildXRefTable table) = map fst ?s"
    by (auto simp: x xrefRowOf_def Let_def)
  from assms(2) obtain r where "rows = map (\<lambda>(n, e). indexRow r n e) ?s"
    by (auto simp: buildObjectIndex_def index_rows split: sum.split_asm)
  moreover have "ixObjNum (indexRow r n e) = xrObjNum (xrefRowOf n e) \<and> ixGen (indexRow r n e) = xrGen (xrefRowOf n e)
    \<and> ixFree (indexRow r n e) = (xrStatus (xrefRowOf n e) = FreeSlot)
    \<and> xrNodeID (xrefRowOf n e) = (if slotFree e then [] else nodeIDForRef n (slotGen e))
    \<and> (ixReachable (indexRow r n e) \<longrightarrow> ixNodeID (indexRow r n e) = xrNodeID (xrefRowOf n e))" for n e
    by (simp add: indexRow_def xrefRowOf_def Let_def)
  ultimately have "list_all2 (\<lambda>i x. ixObjNum i = xrObjNum x \<and> ixGen i = xrGen x \<and> ixFree i = (xrStatus x = FreeSlot) \<and>
      xrNodeID x = (if ixFree i then [] else nodeIDForRef (ixObjNum i) (ixGen i)) \<and>
      (ixReachable i \<longrightarrow> ixNodeID i = xrNodeID x)) rows (buildXRefTable table)"
    by (simp add: x list_all2_conv_all_nth split_beta) (simp add: indexRow_def)
  with strict_numbers [OF assms(1)] f show ?thesis by simp
qed

theorem views_agree_witness:
  "\<exists>rows. buildObjectIndex sampleDoc sampleTable = Inr rows \<and>
    sorted_wrt (<) (map xrObjNum (buildXRefTable sampleTable)) \<and> length rows = length (buildXRefTable sampleTable)"
proof -
  obtain rows where r: "buildObjectIndex sampleDoc sampleTable = Inr rows"
    using reachable_exact [OF sampleDoc_plain sampleDoc_catalog sampleDoc_no_panic]
    by (auto simp: buildObjectIndex_def)
  from views_agree [OF sampleTable_distinct r] r list_all2_lengthD show ?thesis by blast
qed

end
