(* ===== verification/ContentStream.thy ===== *)
theory ContentStream
  imports Main
begin

text \<open>
  Content streams: the tokenizer and the reading of \<open>/Contents\<close> (\<^verbatim>\<open>internal/pdfcore/stream.go\<close>).
  The scanner walks the bytes of a stream by index; here the unread input is the argument and the
  tokens are the value, with the line and column carried along as the code carries them.
\<close>

section \<open>Tokens\<close>

datatype tokenType = CommentTok | StringTok | OperatorTok | NameTok | NumberTok

record token =
  tokType :: tokenType
  tokValue :: string
  tokLine :: nat
  tokCol :: nat

abbreviation cLF :: char where "cLF \<equiv> CHR 0x0A"
abbreviation cCR :: char where "cCR \<equiv> CHR 0x0D"
abbreviation cTAB :: char where "cTAB \<equiv> CHR 0x09"
abbreviation cNUL :: char where "cNUL \<equiv> CHR 0x00"
abbreviation cBSL :: char where "cBSL \<equiv> CHR 0x5C"

section \<open>Byte classes\<close>

definition isBlank :: "char \<Rightarrow> bool" where
  "isBlank c \<longleftrightarrow> c = CHR '' '' \<or> c = cTAB \<or> c = cCR \<or> c = cLF \<or> c = cNUL"

definition isDelimOrWhitespace :: "char \<Rightarrow> bool" where
  "isDelimOrWhitespace b \<longleftrightarrow> isBlank b \<or> b \<in> set ''()<>[]{}/%''"

definition isWSByte :: "char \<Rightarrow> bool" where
  "isWSByte b \<longleftrightarrow> b = CHR '' '' \<or> b = cLF \<or> b = cCR \<or> b = cTAB"

definition isDig :: "char \<Rightarrow> bool" where
  "isDig c \<longleftrightarrow> 48 \<le> (of_char c :: nat) \<and> (of_char c :: nat) \<le> 57"

definition notEOL :: "char \<Rightarrow> bool" where
  "notEOL c \<longleftrightarrow> c \<noteq> cLF \<and> c \<noteq> cCR"

definition startsDig :: "string \<Rightarrow> bool" where
  "startsDig s \<longleftrightarrow> s \<noteq> [] \<and> isDig (hd s)"

definition isNumberStart :: "char \<Rightarrow> string \<Rightarrow> bool" where
  "isNumberStart ch r \<longleftrightarrow>
     isDig ch
     \<or> (ch = CHR ''.'' \<and> startsDig r)
     \<or> ((ch = CHR ''-'' \<or> ch = CHR ''+'') \<and>
         (startsDig r \<or> (r \<noteq> [] \<and> hd r = CHR ''.'' \<and> startsDig (tl r))))"

section \<open>Positions\<close>

text \<open>The inner scans that follow line and column through a value: CR LF is one line end.\<close>

function advance :: "string \<Rightarrow> nat \<Rightarrow> nat \<Rightarrow> nat \<times> nat" where
  "advance [] line col = (line, col)"
| "advance (ch # r) line col =
     (if ch = cLF then advance r (line + 1) 1
      else if ch = cCR then advance (if r \<noteq> [] \<and> hd r = cLF then tl r else r) (line + 1) 1
      else advance r line (col + 1))"
  by pat_completeness auto
termination advance by (relation "measure (\<lambda>(s, _, _). length s)") auto

section \<open>Lexemes\<close>

text \<open>The length of a literal string after its opening parenthesis, at the given nesting depth.\<close>

fun literalLen :: "string \<Rightarrow> nat \<Rightarrow> nat" where
  "literalLen r 0 = 0"
| "literalLen [] (Suc depth) = 0"
| "literalLen (c # r) (Suc depth) =
     (if c = cBSL then (case r of [] \<Rightarrow> 1 | x # r' \<Rightarrow> 2 + literalLen r' (Suc depth))
      else if c = CHR ''('' then 1 + literalLen r (Suc (Suc depth))
      else if c = CHR '')'' then 1 + literalLen r depth
      else 1 + literalLen r (Suc depth))"

definition hexLexeme :: "string \<Rightarrow> string" where
  "hexLexeme r = (let body = takeWhile (\<lambda>c. c \<noteq> CHR ''>'') r in
     if length body < length r then body @ ''>'' else body)"

text \<open>The digits and at most one dot of a number.\<close>

fun numberBody :: "bool \<Rightarrow> string \<Rightarrow> string" where
  "numberBody hasDot [] = []"
| "numberBody hasDot (c # r) =
     (if isDig c then c # numberBody hasDot r
      else if c = CHR ''.'' \<and> \<not> hasDot then c # numberBody True r
      else [])"

definition numberLexeme :: "char \<Rightarrow> string \<Rightarrow> string" where
  "numberLexeme ch r =
     (if ch = CHR ''-'' \<or> ch = CHR ''+'' then ch # numberBody False r else numberBody False (ch # r))"

datatype lexKind = Comment | Literal | DictMark | HexString | NameLex | Bracket | Number | Word | Stray

text \<open>The branch taken at a byte that is not blank, and the value of its token, in the code's order.\<close>

definition lexeme :: "char \<Rightarrow> string \<Rightarrow> lexKind \<times> string" where
  "lexeme ch r =
     (if ch = CHR ''%'' then (Comment, takeWhile notEOL (ch # r))
      else if ch = CHR ''('' then (Literal, ch # take (literalLen r 1) r)
      else if ch = CHR ''<'' \<and> r \<noteq> [] \<and> hd r = CHR ''<'' then (DictMark, ''<<'')
      else if ch = CHR ''>'' \<and> r \<noteq> [] \<and> hd r = CHR ''>'' then (DictMark, ''>>'')
      else if ch = CHR ''<'' then (HexString, ch # hexLexeme r)
      else if ch = CHR ''/'' then (NameLex, ch # takeWhile (\<lambda>c. \<not> isDelimOrWhitespace c) r)
      else if ch = CHR ''['' \<or> ch = CHR '']'' then (Bracket, [ch])
      else if isNumberStart ch r then (Number, numberLexeme ch r)
      else if isDelimOrWhitespace ch then (Stray, [ch])
      else (Word, ch # takeWhile (\<lambda>c. \<not> isDelimOrWhitespace c) r))"

fun lexType :: "lexKind \<Rightarrow> tokenType" where
  "lexType Comment = CommentTok"
| "lexType Literal = StringTok"
| "lexType HexString = StringTok"
| "lexType NameLex = NameTok"
| "lexType Number = NumberTok"
| "lexType DictMark = OperatorTok"
| "lexType Bracket = OperatorTok"
| "lexType Word = OperatorTok"
| "lexType Stray = OperatorTok"

section \<open>Inline images\<close>

text \<open>
  \<open>findEI p s\<close>: how far into \<open>s\<close> the first \<open>EI\<close> between whitespace bytes starts; \<open>p\<close> is the byte before \<open>s\<close>.
\<close>

fun findEI :: "char \<Rightarrow> string \<Rightarrow> nat option" where
  "findEI p [] = None"
| "findEI p [a] = None"
| "findEI p (a # b # r) =
     (if a = CHR ''E'' \<and> b = CHR ''I'' \<and> isWSByte p \<and> (r = [] \<or> isWSByte (hd r)) then Some 0
      else map_option Suc (findEI a (b # r)))"

text \<open>The image data: up to the delimiter before \<open>EI\<close>, which is one byte or a CR LF pair.\<close>

definition imageData :: "string \<Rightarrow> nat \<Rightarrow> string" where
  "imageData s k =
     (let endIdx = k - 1 in
      take (if 0 < endIdx \<and> s ! endIdx = cLF \<and> s ! (endIdx - 1) = cCR then endIdx - 1 else endIdx) s)"

text \<open>The whitespace byte after \<open>ID\<close>: the byte before the data, the data, and its position.\<close>

definition skipAfterID :: "string \<Rightarrow> nat \<Rightarrow> nat \<Rightarrow> char \<times> string \<times> nat \<times> nat" where
  "skipAfterID s line col =
     (case s of
        [] \<Rightarrow> (CHR ''D'', s, line, col)
      | c # r \<Rightarrow>
          if c = cLF then (cLF, r, line + 1, 1)
          else if c = cCR then
            (if r \<noteq> [] \<and> hd r = cLF then (cLF, tl r, line + 1, 1) else (cCR, r, line + 1, 1))
          else if c = CHR '' '' \<or> c = cTAB then (c, r, line, col + 1)
          else (CHR ''D'', s, line, col))"

definition dataToken :: "string \<Rightarrow> nat \<Rightarrow> nat \<Rightarrow> token list" where
  "dataToken s line col = (if s = [] then []
     else [\<lparr> tokType = StringTok, tokValue = s, tokLine = line, tokCol = col \<rparr>])"

section \<open>The tokenizer\<close>

lemma numberBody_len: "length (numberBody b r) \<le> length r"
  by (induction b r rule: numberBody.induct) auto

lemma numberLexeme_hd: "isNumberStart ch r \<Longrightarrow> \<exists>w. numberLexeme ch r = ch # w"
  by (auto simp: numberLexeme_def isNumberStart_def)

lemma if_intro: "(b \<Longrightarrow> P x) \<Longrightarrow> (\<not> b \<Longrightarrow> P y) \<Longrightarrow> P (if b then x else y)"
  by simp

lemma lexeme_hd: "\<exists>w. snd (lexeme ch r) = ch # w"
proof -
  have "notEOL (CHR ''%'')" by (simp add: notEOL_def)
  then show ?thesis unfolding lexeme_def
    by (intro if_intro [where P = "\<lambda>p. \<exists>w. snd p = ch # w"]) (auto intro: numberLexeme_hd)
qed

lemma lexeme_nonempty: "lexeme ch r = (k, v) \<Longrightarrow> \<exists>w. v = ch # w"
  using lexeme_hd [of ch r] by simp

lemma skipAfterID_len: "skipAfterID s l c = (p, s', l', c') \<Longrightarrow> length s' \<le> length s"
  by (auto simp: skipAfterID_def split: list.split_asm if_split_asm)

text \<open>What follows the \<open>ID\<close> operator: the tokens up to \<open>EI\<close>, or the rest of the stream when there is none.\<close>

definition inlineImage :: "string \<Rightarrow> nat \<Rightarrow> nat \<Rightarrow> token list \<times> string \<times> nat \<times> nat" where
  "inlineImage rest line col =
     (case skipAfterID rest line col of (p, body, dline, dcol) \<Rightarrow>
        (case findEI p body of
           None \<Rightarrow> (dataToken body dline dcol, [], dline, dcol)
         | Some k \<Rightarrow>
             (case advance (take k body) dline dcol of (eline, ecol) \<Rightarrow>
                (dataToken (imageData body k) dline dcol
                   @ [\<lparr> tokType = OperatorTok, tokValue = ''EI'', tokLine = eline, tokCol = ecol \<rparr>],
                 drop (k + 2) body, eline, ecol + 2))))"

text \<open>One turn of the scanner's loop at a byte that is not blank: tokens, unread input, position.\<close>

definition scanToken :: "char \<Rightarrow> string \<Rightarrow> nat \<Rightarrow> nat \<Rightarrow> token list \<times> string \<times> nat \<times> nat" where
  "scanToken ch r line col =
     (case lexeme ch r of (kind, val) \<Rightarrow>
        let tok = \<lparr> tokType = lexType kind, tokValue = val, tokLine = line, tokCol = col \<rparr>;
            rest = drop (length val) (ch # r) in
        if kind = Word \<and> val = ''ID'' then
          (case inlineImage rest line (col + 2) of (toks, rest', line', col') \<Rightarrow> (tok # toks, rest', line', col'))
        else if kind = Literal then
          (case advance val line col of (line', col') \<Rightarrow> ([tok], rest, line', col'))
        else ([tok], rest, line, col + length val))"

lemma inlineImage_len: "inlineImage s l c = (ts, s', l', c') \<Longrightarrow> length s' \<le> length s"
  by (auto simp: inlineImage_def dest: skipAfterID_len split: prod.split_asm option.split_asm)

lemma scanToken_len:
  assumes "scanToken ch r line col = (ts, s', l', c')"
  shows "length s' \<le> length r"
proof -
  obtain kind val where lx: "lexeme ch r = (kind, val)" by fastforce
  from lexeme_nonempty [OF lx] have "length (drop (length val) (ch # r)) \<le> length r" by auto
  with assms show ?thesis
    by (auto simp: scanToken_def lx Let_def dest!: inlineImage_len split: prod.split_asm if_split_asm)
qed

function tokenizeFrom :: "string \<Rightarrow> nat \<Rightarrow> nat \<Rightarrow> token list" where
  "tokenizeFrom [] line col = []"
| "tokenizeFrom (ch # r) line col =
     (if isBlank ch then
        (if ch = cLF then tokenizeFrom r (line + 1) 1
         else if ch = cCR then tokenizeFrom (if r \<noteq> [] \<and> hd r = cLF then tl r else r) (line + 1) 1
         else tokenizeFrom r line (col + 1))
      else
        (case scanToken ch r line col of (toks, rest, line', col') \<Rightarrow> toks @ tokenizeFrom rest line' col'))"
  by pat_completeness auto
termination tokenizeFrom
  by (relation "measure (\<lambda>(s, _, _). length s)") (auto dest!: scanToken_len [OF sym])

definition tokenizeContentStream :: "string \<Rightarrow> token list" where
  "tokenizeContentStream raw = tokenizeFrom raw 1 1"

section \<open>What a token list says of the stream\<close>

text \<open>The values stand in the stream in order, with nothing but blank bytes around them.\<close>

fun tiles :: "string \<Rightarrow> string list \<Rightarrow> bool" where
  "tiles s [] \<longleftrightarrow> list_all isBlank s"
| "tiles s (v # vs) \<longleftrightarrow> (\<exists>g rest. s = g @ v @ rest \<and> list_all isBlank g \<and> tiles rest vs)"

text \<open>
  Each token moreover carries the line and column its first byte has when the whole stream before it,
  \<open>before\<close> included, is read from line 1, column 1.
\<close>

fun located :: "string \<Rightarrow> string \<Rightarrow> token list \<Rightarrow> bool" where
  "located before s [] \<longleftrightarrow> list_all isBlank s"
| "located before s (t # ts) \<longleftrightarrow>
     (\<exists>g rest. s = g @ tokValue t @ rest \<and> list_all isBlank g
        \<and> advance (before @ g) 1 1 = (tokLine t, tokCol t)
        \<and> located (before @ g @ tokValue t) rest ts)"

definition hexString :: "token \<Rightarrow> bool" where
  "hexString t \<longleftrightarrow> tokType t = StringTok \<and> take 1 (tokValue t) = ''<''"

definition oneLine :: "string \<Rightarrow> bool" where
  "oneLine s \<longleftrightarrow> list_all notEOL s"

subsection \<open>Composing positions\<close>

definition joinOK :: "string \<Rightarrow> string \<Rightarrow> bool" where
  "joinOK x y \<longleftrightarrow> \<not> (x \<noteq> [] \<and> last x = cCR \<and> y \<noteq> [] \<and> hd y = cLF)"

lemma advance_append:
  "joinOK x y \<Longrightarrow> advance (x @ y) l c = (case advance x l c of (l', c') \<Rightarrow> advance y l' c')"
proof (induction x l c rule: advance.induct)
  case (2 ch r line col)
  show ?case
  proof (cases "ch = cCR")
    case True
    show ?thesis
    proof (cases r)
      case Nil
      with True 2(4) have "y = [] \<or> hd y \<noteq> cLF" by (simp add: joinOK_def)
      with True Nil show ?thesis by (cases y) auto
    next
      case (Cons d r')
      have "joinOK (if r \<noteq> [] \<and> hd r = cLF then tl r else r) y"
        using 2(4) Cons by (auto simp: joinOK_def)
      from 2(2) [OF _ True this] True Cons show ?thesis by auto
    qed
  next
    case False
    have "joinOK r y" using 2(4) by (auto simp: joinOK_def split: if_split_asm)
    with 2(1,3) False show ?thesis by auto
  qed
qed simp

lemma advance_oneLine: "oneLine v \<Longrightarrow> advance v l c = (l, c + length v)"
  by (induction v arbitrary: c) (auto simp: oneLine_def notEOL_def)

subsection \<open>Lexemes are prefixes\<close>

lemma numberBody_prefix: "numberBody b r = take (length (numberBody b r)) r"
  by (induction b r rule: numberBody.induct) auto

lemma takeWhile_take: "takeWhile P r = take (length (takeWhile P r)) r"
  by (metis takeWhile_eq_take)

lemma hexLexeme_prefix: "hexLexeme r = take (length (hexLexeme r)) r"
proof -
  define body where "body = takeWhile (\<lambda>c. c \<noteq> CHR ''>'') r"
  show ?thesis
  proof (cases "length body < length r")
    case True
    then have "r ! length body = CHR ''>''" using nth_length_takeWhile [of "\<lambda>c. c \<noteq> CHR ''>''" r] by (simp add: body_def)
    with True have "take (Suc (length body)) r = take (length body) r @ [CHR ''>'']"
      by (simp add: take_Suc_conv_app_nth)
    with True show ?thesis using takeWhile_take [of _ r] by (simp add: hexLexeme_def Let_def body_def [symmetric])
        (simp add: body_def)
  next
    case False
    then show ?thesis using takeWhile_take [of _ r] by (simp add: hexLexeme_def Let_def body_def)
  qed
qed

lemma take_Cons_len: "w = take (length w) r \<Longrightarrow> ch # w = take (length (ch # w)) (ch # r)"
  by simp

definition lexOK :: "string \<Rightarrow> lexKind \<times> string \<Rightarrow> bool" where
  "lexOK s p \<longleftrightarrow> snd p = take (length (snd p)) s
     \<and> (fst p \<noteq> Literal \<and> fst p \<noteq> HexString \<longrightarrow> oneLine (snd p))
     \<and> (fst p = HexString \<longrightarrow> take 1 (snd p) = ''<'')"

lemma delim_oneLine: "\<not> isDelimOrWhitespace c \<Longrightarrow> notEOL c"
  by (auto simp: isDelimOrWhitespace_def isBlank_def notEOL_def)

lemma takeWhile_oneLine: "(\<And>c. P c \<Longrightarrow> notEOL c) \<Longrightarrow> oneLine (takeWhile P r)"
  by (auto simp: oneLine_def list_all_iff dest: set_takeWhileD)

lemma digit_notEOL: "isDig c \<Longrightarrow> notEOL c"
  by (auto simp: isDig_def notEOL_def)

lemma notEOL_dot [simp]: "notEOL (CHR ''.'')"
  by (simp add: notEOL_def)

lemma numberBody_oneLine: "oneLine (numberBody b r)"
  by (induction b r rule: numberBody.induct) (auto simp: oneLine_def digit_notEOL)

lemma lexeme_ok:
  assumes "\<not> isBlank ch"
  shows "lexOK (ch # r) (lexeme ch r)"
proof -
  have e: "notEOL ch" using assms by (auto simp: isBlank_def notEOL_def)
  have w: "lexOK (ch # r) (k, ch # takeWhile (\<lambda>c. \<not> isDelimOrWhitespace c) r)" if "k \<noteq> HexString" for k
    using that takeWhile_take [of _ r] takeWhile_oneLine [of "\<lambda>c. \<not> isDelimOrWhitespace c" r] delim_oneLine e
    by (simp add: lexOK_def oneLine_def)
  have n: "lexOK (ch # r) (Number, numberLexeme ch r)"
    using numberBody_prefix [of False r] numberBody_prefix [of False "ch # r"] numberBody_oneLine e
    by (simp add: lexOK_def numberLexeme_def oneLine_def)
  have c: "lexOK (ch # r) (Comment, takeWhile notEOL (ch # r))"
    using takeWhile_take [of notEOL "ch # r"] takeWhile_oneLine [of notEOL "ch # r"] by (simp add: lexOK_def)
  have l: "lexOK (ch # r) (Literal, ch # take (literalLen r 1) r)"
    by (simp add: lexOK_def min_def)
  have h: "ch = CHR ''<'' \<Longrightarrow> lexOK (ch # r) (HexString, ch # hexLexeme r)"
    using hexLexeme_prefix [of r] by (simp add: lexOK_def)
  have s: "lexOK (ch # r) (k, [ch])" if "k \<noteq> HexString" for k using that e by (simp add: lexOK_def oneLine_def)
  have d: "lexOK (ch # r) (DictMark, [ch, ch])" if "r \<noteq> [] \<and> hd r = ch" 
    using that e by (cases r) (auto simp: lexOK_def oneLine_def)
  show ?thesis unfolding lexeme_def
    by (intro if_intro [where P = "lexOK (ch # r)"]) (use w n c l h s d in auto)
qed

text \<open>A literal string that ends before the input does ends in its closing parenthesis.\<close>

lemma literalLen_close:
  "literalLen r (Suc d) < length r \<Longrightarrow> 0 < literalLen r (Suc d) \<and> r ! (literalLen r (Suc d) - 1) = CHR '')''"
proof (induction r "Suc d" arbitrary: d rule: literalLen.induct)
  case (3 c r depth)
  consider "c = cBSL" | "c = CHR ''(''" | "c = CHR '')''" "depth = 0" | "c = CHR '')''" "0 < depth"
    | "c \<noteq> cBSL" "c \<noteq> CHR ''(''" "c \<noteq> CHR '')''" by blast
  then show ?case
  proof cases
    case 1
    with 3 show ?thesis by (cases r) (auto simp: nth_Cons split: nat.split)
  next
    case 4
    then obtain d' where d': "depth = Suc d'" using gr0_implies_Suc by blast
    with 3 4 show ?thesis by (auto simp: nth_Cons split: nat.split)
  qed (use 3 in \<open>auto simp: nth_Cons split: nat.split\<close>)
qed simp

lemma literal_close:
  assumes "lexeme ch r = (Literal, v)" "drop (length v) (ch # r) \<noteq> []"
  shows "last v = CHR '')''"
proof -
  have "fst (lexeme ch r) = Literal \<Longrightarrow> lexeme ch r = (Literal, ch # take (literalLen r 1) r)"
    unfolding lexeme_def by (intro if_intro [where P = "\<lambda>p. fst p = Literal \<longrightarrow> p = (Literal, ch # take (literalLen r 1) r)", rule_format]) simp_all
  with assms(1) have v: "v = ch # take (literalLen r 1) r" by simp
  with assms(2) have l: "literalLen r 1 < length r" by (auto simp: min_def split: if_split_asm)
  with literalLen_close [of r 0] have "0 < literalLen r 1" "r ! (literalLen r 1 - 1) = CHR '')''" by simp_all
  moreover from this l have "take (literalLen r 1) r \<noteq> []" by auto
  ultimately show ?thesis using l v by (simp add: last_conv_nth min_def)
qed

subsection \<open>Inline images\<close>

lemma findEI_spec:
  "findEI p s = Some k \<Longrightarrow> k + 2 \<le> length s \<and> drop k s = ''EI'' @ drop (k + 2) s \<and> (0 < k \<longrightarrow> isWSByte (s ! (k - 1)))"
proof (induction p s arbitrary: k rule: findEI.induct)
  case (3 p a b r)
  show ?case
  proof (cases "a = CHR ''E'' \<and> b = CHR ''I'' \<and> isWSByte p \<and> (r = [] \<or> isWSByte (hd r))")
    case False
    with 3(2) obtain j where j: "findEI a (b # r) = Some j" "k = Suc j"
      by (auto split: if_split_asm)
    from 3(1) [OF False j(1)] have ih: "j + 2 \<le> length (b # r)" "drop j (b # r) = ''EI'' @ drop (j + 2) (b # r)"
      "0 < j \<longrightarrow> isWSByte ((b # r) ! (j - 1))" by auto
    have "isWSByte a" if "j = 0"
    proof -
      from j(1) that have "findEI a (b # r) = Some 0" by simp
      then show ?thesis by (cases r) (auto split: if_split_asm)
    qed
    with ih j(2) show ?thesis by (cases j) auto
  qed (use 3 in auto)
qed simp_all

lemma ws_blank: "isWSByte c \<Longrightarrow> isBlank c"
  by (auto simp: isWSByte_def isBlank_def)

lemma imageData_spec:
  assumes "findEI p s = Some k"
  shows "\<exists>delim. s = imageData s k @ delim @ ''EI'' @ drop (k + 2) s \<and> list_all isBlank delim
    \<and> imageData s k @ delim = take k s"
proof -
  from findEI_spec [OF assms] have k: "k + 2 \<le> length s" "drop k s = ''EI'' @ drop (k + 2) s"
    "0 < k \<longrightarrow> isWSByte (s ! (k - 1))" by auto
  have "\<exists>delim. imageData s k @ delim = take k s \<and> list_all isBlank delim"
  proof (cases k)
    case (Suc j)
    with k have t: "take k s = take j s @ [s ! j]" "isBlank (s ! j)" by (auto simp: take_Suc_conv_app_nth intro: ws_blank)
    show ?thesis
    proof (cases "0 < j \<and> s ! j = cLF \<and> s ! (j - 1) = cCR")
      case True
      then obtain i where i: "j = Suc i" using gr0_implies_Suc by blast
      with True Suc k(1) have "take j s = take i s @ [cCR]" by (simp add: take_Suc_conv_app_nth)
      with True t Suc i show ?thesis
        by (intro exI [of _ "[cCR, cLF]"]) (simp add: imageData_def Let_def isBlank_def)
    next
      case False
      with t Suc show ?thesis by (intro exI [of _ "[s ! j]"]) (auto simp: imageData_def Let_def)
    qed
  qed (simp add: imageData_def)
  then obtain delim where d: "imageData s k @ delim = take k s" "list_all isBlank delim" by blast
  have "s = take k s @ drop k s" by simp
  with k(2) d show ?thesis by (metis append.assoc)
qed

lemma skipAfterID_spec:
  assumes "skipAfterID s l c = (p, body, l', c')"
  shows "\<exists>g. s = g @ body \<and> list_all isBlank g \<and> advance g l c = (l', c')
     \<and> (g = [] \<or> joinOK g body)"
proof (cases s)
  case (Cons d r)
  consider "d = cLF" | "d = cCR" "r \<noteq> [] \<and> hd r = cLF" | "d = cCR" "\<not> (r \<noteq> [] \<and> hd r = cLF)" 
    | "d \<noteq> cLF" "d \<noteq> cCR" "d = CHR '' '' \<or> d = cTAB" | "d \<noteq> cLF" "d \<noteq> cCR" "\<not> (d = CHR '' '' \<or> d = cTAB)" by blast
  then show ?thesis
  proof cases
    case 2
    then obtain r' where "r = cLF # r'" by (cases r) auto
    with 2 Cons assms show ?thesis
      by (intro exI [of _ "[cCR, cLF]"]) (auto simp: skipAfterID_def isBlank_def joinOK_def)
  next
    case 5
    with Cons assms show ?thesis by (intro exI [of _ "[]"]) (auto simp: skipAfterID_def)
  qed (use Cons assms in \<open>intro exI [of _ "[d]"], auto simp: skipAfterID_def isBlank_def joinOK_def\<close>)
qed (use assms in \<open>auto simp: skipAfterID_def\<close>)

subsection \<open>The scan\<close>

text \<open>The statement both properties come from: with \<open>b\<close>, positions are asked for as well.\<close>

fun placed :: "bool \<Rightarrow> string \<Rightarrow> string \<Rightarrow> token list \<Rightarrow> bool" where
  "placed b before s [] \<longleftrightarrow> list_all isBlank s"
| "placed b before s (t # ts) \<longleftrightarrow>
     (\<exists>g rest. s = g @ tokValue t @ rest \<and> list_all isBlank g
        \<and> (b \<longrightarrow> advance (before @ g) 1 1 = (tokLine t, tokCol t))
        \<and> placed b (before @ g @ tokValue t) rest ts)"

lemma placed_located: "placed True before s ts = located before s ts"
  by (induction ts arbitrary: before s) simp_all

lemma placed_tiles: "placed False before s ts \<Longrightarrow> tiles s (map tokValue ts)"
  by (induction ts arbitrary: before s) (simp, fastforce)

lemma placed_ConsI:
  "s = g @ tokValue t @ rest \<Longrightarrow> list_all isBlank g \<Longrightarrow> (b \<Longrightarrow> advance (before @ g) 1 1 = (tokLine t, tokCol t)) \<Longrightarrow>
    placed b (before @ g @ tokValue t) rest ts \<Longrightarrow> placed b before s (t # ts)"
  by auto

lemma placed_gap: "list_all isBlank g \<Longrightarrow> placed b (before @ g) s ts \<Longrightarrow> placed b before (g @ s) ts"
proof (cases ts)
  case (Cons t ts')
  assume g: "list_all isBlank g" and p: "placed b (before @ g) s ts"
  from p Cons obtain h rest where "s = h @ tokValue t @ rest" "list_all isBlank h"
    "b \<longrightarrow> advance (before @ g @ h) 1 1 = (tokLine t, tokCol t)"
    "placed b (before @ g @ h @ tokValue t) rest ts'" by auto
  with g show ?thesis unfolding Cons by (intro placed_ConsI [of _ "g @ h" _ rest]) simp_all
qed simp

text \<open>\<open>at b before s l c\<close>: the scan stands after \<open>before\<close>, with \<open>s\<close> unread, at line \<open>l\<close> and column \<open>c\<close>.\<close>

definition scanAt :: "bool \<Rightarrow> string \<Rightarrow> string \<Rightarrow> nat \<Rightarrow> nat \<Rightarrow> bool" where
  "scanAt b before s l c \<longleftrightarrow> (b \<longrightarrow> advance before 1 1 = (l, c) \<and> joinOK before s)"

lemma joinOK_last: "x \<noteq> [] \<Longrightarrow> last x \<noteq> cCR \<Longrightarrow> joinOK x y" "joinOK x []" "joinOK [] y"
  by (auto simp: joinOK_def)

lemma joinOK_append: "v \<noteq> [] \<Longrightarrow> joinOK v s \<Longrightarrow> joinOK (x @ v) s"
  by (auto simp: joinOK_def)

lemma joinOK_prefix: "joinOK x (v @ s) \<Longrightarrow> joinOK x v"
  by (cases v) (auto simp: joinOK_def)

lemma scanAt_step:
  assumes "scanAt b before (v @ s) l c" "v \<noteq> []" "b \<Longrightarrow> joinOK v s" "b \<Longrightarrow> advance v l c = (l', c')"
  shows "scanAt b (before @ v) s l' c'"
  using assms advance_append [of before v 1 1] joinOK_append [of v s before] joinOK_prefix [of before v s]
  by (auto simp: scanAt_def)

lemma oneLine_last: "oneLine v \<Longrightarrow> v \<noteq> [] \<Longrightarrow> last v \<noteq> cCR"
  using last_in_set [of v] by (auto simp: oneLine_def list_all_iff notEOL_def)

lemma scanAt_oneLine:
  assumes "scanAt b before (v @ s) l c" "v \<noteq> []" "oneLine v"
  shows "scanAt b (before @ v) s l (c + length v)"
  by (rule scanAt_step [OF assms(1,2)])
    (simp_all add: joinOK_last(1) [OF assms(2) oneLine_last [OF assms(3,2)]] advance_oneLine [OF assms(3)])

lemma placed_token:
  assumes "scanAt b before (v @ rest) l c" "tokValue t = v" "tokLine t = l" "tokCol t = c"
    "placed b (before @ v) rest ts"
  shows "placed b before (v @ rest) (t # ts)"
  using assms by (intro placed_ConsI [of _ "[]" _ rest]) (simp_all add: scanAt_def)

lemma placed_data:
  assumes "scanAt b before (d @ rest) l c" "placed b (before @ d) rest ts"
  shows "placed b before (d @ rest) (dataToken d l c @ ts)"
proof (cases "d = []")
  case False
  then have "dataToken d l c = [\<lparr> tokType = StringTok, tokValue = d, tokLine = l, tokCol = c \<rparr>]"
    by (simp add: dataToken_def)
  then show ?thesis unfolding append.append_Cons append_Nil
    by (simp only: append.append_Cons append_Nil) (rule placed_token [OF assms(1) _ _ _ assms(2)]; simp)
qed (use assms in \<open>simp add: dataToken_def\<close>)

lemma placed_image:
  assumes "inlineImage rest l c = (ts, s', l', c')" "scanAt b before rest l c"
  shows "\<exists>w. rest = w @ s' \<and> (s' = [] \<or> scanAt b (before @ w) s' l' c')
    \<and> (\<forall>us. placed b (before @ w) s' us \<longrightarrow> placed b before rest (ts @ us))"
proof -
  obtain p body dl dc where sk: "skipAfterID rest l c = (p, body, dl, dc)" by (metis prod_cases4)
  from skipAfterID_spec [OF sk] obtain g where g: "rest = g @ body" "list_all isBlank g" "advance g l c = (dl, dc)"
    "g = [] \<or> joinOK g body" by blast
  have at: "scanAt b (before @ g) body dl dc"
  proof (cases "g = []")
    case False
    with g assms(2) show ?thesis by (intro scanAt_step) auto
  qed (use g assms(2) in simp)
  show ?thesis
  proof (cases "findEI p body")
    case None
    with assms(1) sk have r: "ts = dataToken body dl dc" "s' = []" by (auto simp: inlineImage_def)
    have "placed b before rest (ts @ us)" if "placed b (before @ rest) [] us" for us
    proof -
      have "placed b (before @ g) (body @ []) (dataToken body dl dc @ us)"
        by (rule placed_data) (use at that g(1) in simp_all)
      from placed_gap [OF g(2) this] show ?thesis unfolding g(1) r(1) by simp
    qed
    with r show ?thesis by (intro exI [of _ rest]) simp
  next
    case (Some k)
    obtain el ec where ad: "advance (take k body) dl dc = (el, ec)" by fastforce
    define ei where "ei = \<lparr> tokType = OperatorTok, tokValue = ''EI'', tokLine = el, tokCol = ec \<rparr>"
    from assms(1) sk Some ad have r: "ts = dataToken (imageData body k) dl dc @ [ei]" "s' = drop (k + 2) body"
      "l' = el" "c' = ec + 2" by (auto simp: inlineImage_def ei_def)
    from imageData_spec [OF Some] obtain delim where d: "body = imageData body k @ delim @ ''EI'' @ s'"
      "list_all isBlank delim" "imageData body k @ delim = take k body" unfolding r by blast
    define data where "data = imageData body k"
    note d' = d [folded data_def]
    have at2: "scanAt b (before @ g @ data @ delim) (''EI'' @ s') el ec"
    proof (cases "take k body = []")
      case True
      with d' at ad show ?thesis by auto
    next
      case False
      have "body = take k body @ ''EI'' @ s'" using d'(1,3) by (metis append.assoc)
      with at have "scanAt b (before @ g) (take k body @ ''EI'' @ s') dl dc" by simp
      then have "scanAt b ((before @ g) @ take k body) (''EI'' @ s') el ec"
        by (rule scanAt_step [OF _ False _ ad]) (simp add: joinOK_def)
      with d'(3) show ?thesis by simp
    qed
    have at3: "scanAt b (before @ g @ data @ delim @ ''EI'') s' l' c'"
      using scanAt_oneLine [OF at2] r by (simp add: oneLine_def notEOL_def)
    have "placed b before rest (ts @ us)" if "placed b (before @ g @ data @ delim @ ''EI'') s' us" for us
    proof -
      have "placed b (before @ g @ data @ delim) (''EI'' @ s') (ei # us)"
        by (rule placed_token [OF at2]) (use that in \<open>simp_all add: ei_def\<close>)
      then have "placed b ((before @ g @ data) @ delim) (''EI'' @ s') (ei # us)"
        by (simp only: append.assoc)
      from placed_gap [OF d'(2) this]
      have "placed b (before @ g @ data) (delim @ ''EI'' @ s') (ei # us)" .
      then have "placed b (before @ g) (data @ delim @ ''EI'' @ s') (dataToken data dl dc @ ei # us)"
        using placed_data [of b "before @ g" data "delim @ ''EI'' @ s'" dl dc "ei # us"] at d'(1)
        by (simp only: append.assoc)
      from placed_gap [OF g(2) this] show ?thesis
        unfolding g(1) r(1) data_def [symmetric] using d'(1) by simp
    qed
    with at3 g d'(1) show ?thesis by (intro exI [of _ "g @ data @ delim @ ''EI''"]) auto
  qed
qed

lemma placed_scan:
  assumes "scanToken ch r l c = (ts, s', l', c')" "\<not> isBlank ch" "scanAt b before (ch # r) l c"
    "b \<Longrightarrow> \<forall>t \<in> set ts. hexString t \<longrightarrow> oneLine (tokValue t)"
  shows "\<exists>w. ch # r = w @ s' \<and> (s' = [] \<or> scanAt b (before @ w) s' l' c')
    \<and> (\<forall>us. placed b (before @ w) s' us \<longrightarrow> placed b before (ch # r) (ts @ us))"
proof -
  obtain kind val where lx: "lexeme ch r = (kind, val)" by fastforce
  define rest where "rest = drop (length val) (ch # r)"
  define tok where "tok = \<lparr> tokType = lexType kind, tokValue = val, tokLine = l, tokCol = c \<rparr>"
  from lexeme_ok [OF assms(2), of r] lx have ok: "val = take (length val) (ch # r)"
    "kind \<noteq> Literal \<Longrightarrow> kind \<noteq> HexString \<Longrightarrow> oneLine val" "kind = HexString \<Longrightarrow> take 1 val = ''<''"
    by (auto simp: lexOK_def)
  have s: "ch # r = val @ rest" unfolding rest_def by (metis ok(1) append_take_drop_id)
  from lexeme_nonempty [OF lx] have ne: "val \<noteq> []" by auto
  have at: "scanAt b before (val @ rest) l c" using assms(3) s by simp
  note first = placed_token [OF at, of tok]
  show ?thesis
  proof (cases "kind = Word \<and> val = ''ID''")
    case True
    obtain ts2 where im: "inlineImage rest l (c + 2) = (ts2, s', l', c')" "ts = tok # ts2"
      using assms(1) True by (auto simp: scanToken_def lx Let_def rest_def tok_def split: prod.split_asm)
    have "scanAt b (before @ val) rest l (c + length val)"
      by (rule scanAt_oneLine [OF at ne]) (use True ok in simp)
    with True have "scanAt b (before @ val) rest l (c + 2)" by simp
    from placed_image [OF im(1) this] obtain w where w: "rest = w @ s'" "s' = [] \<or> scanAt b ((before @ val) @ w) s' l' c'"
      "\<And>us. placed b ((before @ val) @ w) s' us \<Longrightarrow> placed b (before @ val) rest (ts2 @ us)" by blast
    have "placed b before (ch # r) (ts @ us)" if "placed b (before @ val @ w) s' us" for us
      using first [of "ts2 @ us"] w(3) [of us] that im(2) s by (simp add: tok_def)
    with s w show ?thesis by (intro exI [of _ "val @ w"]) simp
  next
    case nid: False
    have r: "ts = [tok] \<and> s' = rest \<and> scanAt b (before @ val) rest l' c' \<or> ts = [tok] \<and> s' = rest \<and> rest = []"
    proof (cases "kind = Literal")
      case True
      obtain l1 c1 where ad: "advance val l c = (l1, c1)" by fastforce
      with assms(1) True have e: "ts = [tok]" "s' = rest" "l' = l1" "c' = c1"
        by (auto simp: scanToken_def lx Let_def rest_def tok_def)
      have "scanAt b (before @ val) rest l1 c1" if "rest \<noteq> []"
        by (rule scanAt_step [OF at ne])
          (use literal_close [of ch r val] lx True that ad in \<open>auto simp: joinOK_def rest_def\<close>)
      with e show ?thesis by blast
    next
      case False
      with assms(1) nid have e: "ts = [tok]" "s' = rest" "l' = l" "c' = c + length val"
        by (auto simp: scanToken_def lx Let_def rest_def tok_def)
      have "oneLine val" if b
      proof (cases "kind = HexString")
        case True
        with ok(3) have "hexString tok" by (simp add: hexString_def tok_def)
        with assms(4) that e(1) show ?thesis by (simp add: tok_def)
      qed (use ok False in simp)
      then have "scanAt b (before @ val) rest l (c + length val)"
        using scanAt_oneLine [OF at ne] by (cases b) (auto simp: scanAt_def)
      with e show ?thesis by simp
    qed
    with s show ?thesis
      by (intro exI [of _ val]) (use first in \<open>auto simp: tok_def\<close>)
  qed
qed

lemma placed_tokenize:
  "scanAt b before s l c \<Longrightarrow> (b \<Longrightarrow> \<forall>t \<in> set (tokenizeFrom s l c). hexString t \<longrightarrow> oneLine (tokValue t)) \<Longrightarrow>
    placed b before s (tokenizeFrom s l c)"
proof (induction s l c arbitrary: before rule: tokenizeFrom.induct)
  case (2 ch r l c)
  show ?case
  proof (cases "isBlank ch")
    case True
    consider "ch = cLF" | "ch = cCR" "r \<noteq> [] \<and> hd r = cLF" | "ch = cCR" "\<not> (r \<noteq> [] \<and> hd r = cLF)"
      | "ch \<noteq> cLF" "ch \<noteq> cCR" by blast
    then obtain g s' l' c' where g: "ch # r = g @ s'" "g \<noteq> []" "list_all isBlank g" "joinOK g s'" "advance g l c = (l', c')"
      "tokenizeFrom (ch # r) l c = tokenizeFrom s' l' c'" "\<And>bf. scanAt b bf s' l' c' \<Longrightarrow>
        (b \<Longrightarrow> \<forall>t \<in> set (tokenizeFrom s' l' c'). hexString t \<longrightarrow> oneLine (tokValue t)) \<Longrightarrow>
        placed b bf s' (tokenizeFrom s' l' c')"
    proof cases
      case 1
      show ?thesis by (rule that [of "[ch]" r "l + 1" 1]) (use 1 True 2(1) in \<open>auto simp: joinOK_def\<close>)
    next
      case c: 2
      then obtain r' where "r = cLF # r'" by (cases r) auto
      with c True "2.IH"(2) show ?thesis
        by (intro that [of "[cCR, cLF]" r' "l + 1" 1]) (auto simp: joinOK_def isBlank_def)
    next
      case 3
      show ?thesis by (rule that [of "[ch]" r "l + 1" 1]) (use 3 True "2.IH"(2) in \<open>auto simp: joinOK_def\<close>)
    next
      case 4
      show ?thesis by (rule that [of "[ch]" r l "c + 1"]) (use 4 True "2.IH"(3) in \<open>auto simp: joinOK_def\<close>)
    qed
    have "scanAt b (before @ g) s' l' c'"
      using scanAt_step [of b before g s' l c l' c'] "2.prems"(1) g by simp
    from placed_gap [OF g(3) g(7) [OF this]] "2.prems"(2) show ?thesis unfolding g(6) unfolding g(1) by simp
  next
    case False
    obtain ts s' l' c' where st: "scanToken ch r l c = (ts, s', l', c')" by (metis prod_cases4)
    with False have tk: "tokenizeFrom (ch # r) l c = ts @ tokenizeFrom s' l' c'" by simp
    have hx: "b \<Longrightarrow> \<forall>t \<in> set ts. hexString t \<longrightarrow> oneLine (tokValue t)"
      using "2.prems"(2) unfolding tk by simp
    from placed_scan [OF st False "2.prems"(1) hx] obtain w where w: "ch # r = w @ s'"
      "s' = [] \<or> scanAt b (before @ w) s' l' c'"
      "\<And>us. placed b (before @ w) s' us \<Longrightarrow> placed b before (ch # r) (ts @ us)" by blast
    have "placed b (before @ w) s' (tokenizeFrom s' l' c')"
    proof (cases "s' = []")
      case nonempty: False
      with w(2) have at: "scanAt b (before @ w) s' l' c'" by simp
      show ?thesis by (rule "2.IH"(4) [OF False st [symmetric] refl refl at]) (use "2.prems"(2) tk in auto)
    qed simp
    then show ?thesis unfolding tk by (rule w(3))
  qed
qed simp

section \<open>Properties\<close>

text \<open>
  Claim C12. The scanner returns on every input and loses nothing: the values of its tokens stand in the
  stream one after the other, and every byte outside them is blank.
\<close>

theorem tokens_tile: "tiles raw (map tokValue (tokenizeContentStream raw))"
  unfolding tokenizeContentStream_def
  by (rule placed_tiles, rule placed_tokenize) (simp_all add: scanAt_def)

text \<open>
  When no hexadecimal string of the stream spans lines, every token carries the line and column
  of its first byte, counting CR LF as one line end.
\<close>

theorem token_positions:
  assumes "\<forall>t \<in> set (tokenizeContentStream raw). hexString t \<longrightarrow> oneLine (tokValue t)"
  shows "located [] raw (tokenizeContentStream raw)"
  using assms unfolding tokenizeContentStream_def placed_located [symmetric]
  by (intro placed_tokenize) (simp_all add: scanAt_def joinOK_def)

definition samplePage :: string where
  "samplePage = ''q'' @ [cCR, cLF] @ ''(a'' @ [cLF] @ ''b) Tj <41>'' @ [cLF] @ ''Q''"

lemma samplePage_tokens: "map (\<lambda>t. (tokValue t, tokLine t, tokCol t)) (tokenizeContentStream samplePage) =
  [(''q'', 1, 1), (''(a'' @ [cLF] @ ''b)'', 2, 1), (''Tj'', 3, 4), (''<41>'', 3, 7), (''Q'', 4, 1)]"
  by code_simp

theorem token_positions_witness: "located [] samplePage (tokenizeContentStream samplePage)"
  by (rule token_positions) code_simp

definition laggingStream :: string where
  "laggingStream = ''<41'' @ [cLF] @ ''42> Tj''"

lemma laggingStream_tokens: "tokenizeContentStream laggingStream =
  [\<lparr> tokType = StringTok, tokValue = ''<41'' @ [cLF] @ ''42>'', tokLine = 1, tokCol = 1 \<rparr>,
   \<lparr> tokType = OperatorTok, tokValue = ''Tj'', tokLine = 1, tokCol = 9 \<rparr>]"
  by code_simp

lemma laggingStream_misplaced: "\<not> located [] laggingStream (tokenizeContentStream laggingStream)"
proof
  assume "located [] laggingStream (tokenizeContentStream laggingStream)"
  then obtain g rest h rest' where
    g: "laggingStream = g @ (''<41'' @ [cLF] @ ''42>'') @ rest" "list_all isBlank g" and
    h: "rest = h @ ''Tj'' @ rest'" "list_all isBlank h" "advance (g @ (''<41'' @ [cLF] @ ''42>'') @ h) 1 1 = (1, 9)"
    unfolding laggingStream_tokens by auto
  from g have "g = []" by (cases g) (auto simp: laggingStream_def isBlank_def)
  with g have "rest = '' Tj''" by (simp add: laggingStream_def)
  with h(1) have e: "'' Tj'' = h @ ''Tj'' @ rest'" by simp
  have "h = '' ''"
  proof (cases h)
    case (Cons a h')
    with e h(2) show ?thesis by (cases h') (auto simp: isBlank_def)
  qed (use e in simp)
  with h(3) \<open>g = []\<close> show False by simp
qed

text \<open>
  A hexadecimal string that spans lines leaves the line count behind: the token after it is
  reported on the line where the string began.
\<close>

theorem hex_string_line_lag:
  "map (\<lambda>t. (tokValue t, tokLine t)) (tokenizeContentStream laggingStream)
      = [(''<41'' @ [cLF] @ ''42>'', 1), (''Tj'', 1)] \<and>
   \<not> located [] laggingStream (tokenizeContentStream laggingStream)"
  using laggingStream_misplaced by (simp add: laggingStream_tokens)

end
