(* ===== verification/Format.thy ===== *)
theory Format
  imports ContentStream
begin

text \<open>
  The formatted view of a content stream (\<^verbatim>\<open>internal/pdfcore/format.go\<close>): one line per operation,
  indented by the nesting of graphics-state, text and marked-content blocks. The loop over token
  indexes is a recursion on the tokens not yet read, with the code's indent, delimiter depth and
  pending operands as arguments.
\<close>

section \<open>Lines\<close>

record formattedLine =
  flTokens :: "token list"
  flIndent :: nat
  flOperator :: string
  flStart :: nat
  flEnd :: nat

definition isOpenOp :: "string \<Rightarrow> bool" where
  "isOpenOp op \<longleftrightarrow> op = ''q'' \<or> op = ''BT'' \<or> op = ''BMC'' \<or> op = ''BDC''"

definition isCloseOp :: "string \<Rightarrow> bool" where
  "isCloseOp op \<longleftrightarrow> op = ''Q'' \<or> op = ''ET'' \<or> op = ''EMC''"

fun lineMinMax :: "token list \<Rightarrow> bool \<Rightarrow> nat" where
  "lineMinMax [] wantMin = 0"
| "lineMinMax (t # ts) wantMin =
     foldl (\<lambda>v u. if wantMin \<and> tokLine u < v then tokLine u
                   else if \<not> wantMin \<and> v < tokLine u then tokLine u else v) (tokLine t) ts"

definition mkLine :: "token list \<Rightarrow> nat \<Rightarrow> string \<Rightarrow> formattedLine" where
  "mkLine row indent op = \<lparr> flTokens = row, flIndent = indent, flOperator = op,
     flStart = lineMinMax row True, flEnd = lineMinMax row False \<rparr>"

definition dangling :: "token list \<Rightarrow> nat \<Rightarrow> formattedLine" where
  "dangling toks indent = mkLine toks indent ''''"

definition danglings :: "token list \<Rightarrow> nat \<Rightarrow> formattedLine list" where
  "danglings pending indent = (if pending = [] then [] else [dangling pending indent])"

definition commentLine :: "token \<Rightarrow> nat \<Rightarrow> formattedLine" where
  "commentLine tk indent = \<lparr> flTokens = [tk], flIndent = indent, flOperator = '''',
     flStart = tokLine tk, flEnd = tokLine tk \<rparr>"

definition isOp :: "string \<Rightarrow> token \<Rightarrow> bool" where
  "isOp v t \<longleftrightarrow> tokType t = OperatorTok \<and> tokValue t = v"

text \<open>The tokens of an inline image after its \<open>BI\<close>: through the first \<open>EI\<close>, or all when there is none.\<close>

fun imageBlock :: "token list \<Rightarrow> token list" where
  "imageBlock [] = []"
| "imageBlock (t # ts) = (if isOp ''EI'' t then [t] else t # imageBlock ts)"

section \<open>The loop\<close>

function formatFrom :: "token list \<Rightarrow> nat \<Rightarrow> nat \<Rightarrow> token list \<Rightarrow> formattedLine list" where
  "formatFrom [] indent delimDepth pending = danglings pending indent"
| "formatFrom (tk # ts) indent delimDepth pending =
     (if tokType tk = CommentTok then
        danglings pending indent @ commentLine tk indent # formatFrom ts indent delimDepth []
      else if tokType tk \<noteq> OperatorTok then formatFrom ts indent delimDepth (pending @ [tk])
      else if tokValue tk = ''['' \<or> tokValue tk = ''<<'' then formatFrom ts indent (delimDepth + 1) (pending @ [tk])
      else if tokValue tk = '']'' \<or> tokValue tk = ''>>'' then
        formatFrom ts indent (if 0 < delimDepth then delimDepth - 1 else delimDepth) (pending @ [tk])
      else if 0 < delimDepth then formatFrom ts indent delimDepth (pending @ [tk])
      else if tokValue tk = ''BI'' then
        (let block = pending @ tk # imageBlock ts in
         mkLine block indent ''BI'' # formatFrom (drop (length (imageBlock ts)) ts) indent delimDepth [])
      else
        (let indent' = (if isCloseOp (tokValue tk) \<and> 0 < indent then indent - 1 else indent) in
         mkLine (pending @ [tk]) indent' (tokValue tk)
         # formatFrom ts (if isOpenOp (tokValue tk) then indent' + 1 else indent') delimDepth []))"
  by pat_completeness auto
termination formatFrom by (relation "measure (\<lambda>(ts, _, _, _). length ts)") auto

definition Format :: "token list \<Rightarrow> formattedLine list" where
  "Format tokens = (if tokens = [] then [] else formatFrom tokens 0 0 [])"

section \<open>What the lines must be\<close>

text \<open>The indents of a list of operators, by the block structure alone.\<close>

fun indents :: "nat \<Rightarrow> string list \<Rightarrow> nat list" where
  "indents depth [] = []"
| "indents depth (op # ops) =
     (let depth' = (if op \<in> {''Q'', ''ET'', ''EMC''} then depth - 1 else depth) in
      depth' # indents (if op \<in> {''q'', ''BT'', ''BMC'', ''BDC''} then depth' + 1 else depth') ops)"

lemma indents_op:
  "indents depth (op # ops) =
     (let depth' = (if isCloseOp op then depth - 1 else depth) in
      depth' # indents (if isOpenOp op then depth' + 1 else depth') ops)"
  by (simp add: isOpenOp_def isCloseOp_def)

declare indents.simps(2) [simp del]
declare indents_op [simp]

definition lineOK :: "formattedLine \<Rightarrow> bool" where
  "lineOK ln \<longleftrightarrow> flTokens ln \<noteq> []
     \<and> flStart ln = Min (tokLine ` set (flTokens ln)) \<and> flEnd ln = Max (tokLine ` set (flTokens ln))
     \<and> (flOperator ln = '''' \<or> (\<exists>t \<in> set (flTokens ln). isOp (flOperator ln) t))"

lemma foldl_min:
  "foldl (\<lambda>v u. if tokLine u < v then tokLine u else v) a ts \<in> insert a (tokLine ` set ts)
   \<and> (\<forall>x \<in> insert a (tokLine ` set ts). foldl (\<lambda>v u. if tokLine u < v then tokLine u else v) a ts \<le> x)"
proof (induction ts arbitrary: a)
  case (Cons t ts)
  from Cons [of "if tokLine t < a then tokLine t else a"] show ?case by (auto split: if_split_asm)
qed simp

lemma foldl_max:
  "foldl (\<lambda>v u. if v < tokLine u then tokLine u else v) a ts \<in> insert a (tokLine ` set ts)
   \<and> (\<forall>x \<in> insert a (tokLine ` set ts). x \<le> foldl (\<lambda>v u. if v < tokLine u then tokLine u else v) a ts)"
proof (induction ts arbitrary: a)
  case (Cons t ts)
  from Cons [of "if a < tokLine t then tokLine t else a"] show ?case by (auto split: if_split_asm)
qed simp

lemma lineMinMax_spec:
  assumes "ts \<noteq> []"
  shows "lineMinMax ts True = Min (tokLine ` set ts)" "lineMinMax ts False = Max (tokLine ` set ts)"
proof -
  obtain t us where ts: "ts = t # us" using assms by (cases ts) auto
  have img: "tokLine ` set ts = insert (tokLine t) (tokLine ` set us)" by (simp add: ts)
  have "lineMinMax ts True = foldl (\<lambda>v u. if tokLine u < v then tokLine u else v) (tokLine t) us"
    by (simp only: ts lineMinMax.simps simp_thms if_True if_False cong: if_cong)
  then show "lineMinMax ts True = Min (tokLine ` set ts)"
    unfolding img using foldl_min [of "tokLine t" us] by (intro Min_eqI [symmetric]) auto
  have "lineMinMax ts False = foldl (\<lambda>v u. if v < tokLine u then tokLine u else v) (tokLine t) us"
    by (simp only: ts lineMinMax.simps simp_thms if_True if_False cong: if_cong)
  then show "lineMinMax ts False = Max (tokLine ` set ts)"
    unfolding img using foldl_max [of "tokLine t" us] by (intro Max_eqI [symmetric]) auto
qed

lemma mkLine_ok: "row \<noteq> [] \<Longrightarrow> op = '''' \<or> (\<exists>t \<in> set row. isOp op t) \<Longrightarrow> lineOK (mkLine row indent op)"
  by (simp add: mkLine_def lineOK_def lineMinMax_spec)

lemma commentLine_ok: "lineOK (commentLine tk indent)"
  by (simp add: commentLine_def lineOK_def)

lemma danglings_simps:
  "concat (map flTokens (danglings pending indent)) = pending"
  "\<forall>ln \<in> set (danglings pending indent). lineOK ln"
  "map flOperator (danglings pending indent) = replicate (length (danglings pending indent)) ''''"
  "map flIndent (danglings pending indent) = replicate (length (danglings pending indent)) indent"
  using mkLine_ok [of pending "''''" indent] by (simp_all add: danglings_def dangling_def) (simp_all add: mkLine_def)

lemma indents_blank: "indents d (replicate n '''' @ ops) = replicate n d @ indents d ops"
  by (induction n) (simp_all add: isCloseOp_def isOpenOp_def)

lemma imageBlock_take: "imageBlock ts @ drop (length (imageBlock ts)) ts = ts"
  by (induction ts) auto

lemma formatFrom_spec:
  "concat (map flTokens (formatFrom ts indent d pending)) = pending @ ts
   \<and> (\<forall>ln \<in> set (formatFrom ts indent d pending). lineOK ln)
   \<and> map flIndent (formatFrom ts indent d pending) = indents indent (map flOperator (formatFrom ts indent d pending))"
proof (induction ts indent d pending rule: formatFrom.induct)
  case (1 indent d pending)
  show ?case
    using danglings_simps [of pending indent] indents_blank [of indent "length (danglings pending indent)" "[]"] by simp
next
  case (2 tk ts indent d pending)
  let ?I = "\<lambda>i e p. concat (map flTokens (formatFrom ts i e p)) = p @ ts
   \<and> (\<forall>ln \<in> set (formatFrom ts i e p). lineOK ln)
   \<and> map flIndent (formatFrom ts i e p) = indents i (map flOperator (formatFrom ts i e p))"
  consider (comment) "tokType tk = CommentTok"
    | (pend) e where "formatFrom (tk # ts) indent d pending = formatFrom ts indent e (pending @ [tk])"
        "?I indent e (pending @ [tk])"
    | (image) "tokType tk = OperatorTok" "tokValue tk = ''BI''" "\<not> 0 < d"
    | (oper) "tokType tk = OperatorTok" "tokValue tk \<notin> {''['', ''<<'', '']'', ''>>'', ''BI''}" "\<not> 0 < d"
  proof -
    note ih = "2.IH"
    consider "tokType tk = CommentTok" | "tokType tk \<noteq> CommentTok" "tokType tk \<noteq> OperatorTok"
      | "tokType tk = OperatorTok" "tokValue tk = ''['' \<or> tokValue tk = ''<<''"
      | "tokType tk = OperatorTok" "\<not> (tokValue tk = ''['' \<or> tokValue tk = ''<<'')" "tokValue tk = '']'' \<or> tokValue tk = ''>>''"
      | "tokType tk = OperatorTok" "\<not> (tokValue tk = ''['' \<or> tokValue tk = ''<<'')" "\<not> (tokValue tk = '']'' \<or> tokValue tk = ''>>'')" "0 < d"
      | "tokType tk = OperatorTok" "\<not> (tokValue tk = ''['' \<or> tokValue tk = ''<<'')" "\<not> (tokValue tk = '']'' \<or> tokValue tk = ''>>'')" "\<not> 0 < d"
      by blast
    then show ?thesis
    proof cases
      case 1
      then show ?thesis by (rule comment)
    next
      case 2
      with ih(2) show ?thesis by (intro pend [of d]) simp_all
    next
      case 3
      with ih(3) show ?thesis by (intro pend [of "d + 1"]) simp_all
    next
      case 4
      with ih(4) show ?thesis by (intro pend [of "if 0 < d then d - 1 else d"]) (simp_all split del: if_split)
    next
      case 5
      with ih(5) show ?thesis by (intro pend [of d]) simp_all
    next
      case 6
      then show ?thesis by (cases "tokValue tk = ''BI''") (auto intro: image oper)
    qed
  qed
  then show ?case
  proof cases
    case comment
    with "2.IH"(1) danglings_simps [of pending indent] commentLine_ok [of tk indent]
      indents_blank [of indent "length (danglings pending indent)"]
    show ?thesis by (simp add: commentLine_def isCloseOp_def isOpenOp_def ball_Un)
  next
    case pend
    then show ?thesis by simp
  next
    case image
    let ?b = "pending @ tk # imageBlock ts" and ?r = "drop (length (imageBlock ts)) ts"
    from image have e: "formatFrom (tk # ts) indent d pending = mkLine ?b indent ''BI'' # formatFrom ?r indent d []"
      by (simp add: Let_def)
    have "concat (map flTokens (formatFrom ?r indent d [])) = ?r \<and> (\<forall>ln \<in> set (formatFrom ?r indent d []). lineOK ln)
      \<and> map flIndent (formatFrom ?r indent d []) = indents indent (map flOperator (formatFrom ?r indent d []))"
      using "2.IH"(6) image by simp
    moreover have "lineOK (mkLine ?b indent ''BI'')" using image by (intro mkLine_ok) (auto simp: isOp_def)
    ultimately show ?thesis unfolding e
      using imageBlock_take [of ts] by (simp add: mkLine_def isCloseOp_def isOpenOp_def)
  next
    case oper
    define i where "i = (if isCloseOp (tokValue tk) then indent - 1 else indent)"
    define i' where "i' = (if isOpenOp (tokValue tk) then i + 1 else i)"
    have ii: "(if isCloseOp (tokValue tk) \<and> 0 < indent then indent - 1 else indent) = i" by (simp add: i_def)
    from oper have e: "formatFrom (tk # ts) indent d pending = mkLine (pending @ [tk]) i (tokValue tk) # formatFrom ts i' d []"
      by (simp add: Let_def ii i'_def)
    have "?I i' d []" using "2.IH"(7) oper by (simp add: ii i'_def)
    moreover have "lineOK (mkLine (pending @ [tk]) i (tokValue tk))" using oper by (intro mkLine_ok) (auto simp: isOp_def)
    ultimately show ?thesis unfolding e by (simp add: mkLine_def Let_def i_def [symmetric] i'_def [symmetric])
  qed
qed

section \<open>Properties\<close>

lemma Format_spec:
  "concat (map flTokens (Format tokens)) = tokens
   \<and> list_all lineOK (Format tokens)
   \<and> map flIndent (Format tokens) = indents 0 (map flOperator (Format tokens))"
  using formatFrom_spec [of tokens 0 0 "[]"] by (simp add: Format_def list_all_iff)

section \<open>The grammar of lines\<close>

text \<open>
  What a line of a content stream is, without the formatter's loop. A delimiter opens or closes an
  array or a dictionary; operands are any tokens but comments in which every other operator stands
  inside an open delimiter.
\<close>

definition opensDelim :: "token \<Rightarrow> bool" where
  "opensDelim t \<longleftrightarrow> isOp ''['' t \<or> isOp ''<<'' t"

definition closesDelim :: "token \<Rightarrow> bool" where
  "closesDelim t \<longleftrightarrow> isOp '']'' t \<or> isOp ''>>'' t"

fun delimsOpen :: "nat \<Rightarrow> token list \<Rightarrow> nat" where
  "delimsOpen d [] = d"
| "delimsOpen d (t # ts) =
     delimsOpen (if opensDelim t then d + 1 else if closesDelim t then d - 1 else d) ts"

fun lineOperands :: "nat \<Rightarrow> token list \<Rightarrow> bool" where
  "lineOperands d [] \<longleftrightarrow> True"
| "lineOperands d (t # ts) \<longleftrightarrow> tokType t \<noteq> CommentTok
     \<and> (tokType t = OperatorTok \<longrightarrow> opensDelim t \<or> closesDelim t \<or> 0 < d) \<and> lineOperands (delimsOpen d [t]) ts"

text \<open>
  The lines of a token list that starts at a delimiter depth: a comment alone; operands and the
  operator that ends them outside every delimiter; operands and an inline image through the first
  \<open>EI\<close>, or to the end of the stream when there is none; and operands that no operator ends, before a
  comment or at the end.
\<close>

inductive grouped :: "nat \<Rightarrow> token list \<Rightarrow> (token list \<times> string) list \<Rightarrow> bool" where
  no_tokens: "grouped d [] []"
| comment: "tokType c = CommentTok \<Longrightarrow> grouped d ts gs \<Longrightarrow> grouped d (c # ts) (([c], '''') # gs)"
| loose: "ps \<noteq> [] \<Longrightarrow> lineOperands d ps \<Longrightarrow> ts = [] \<or> tokType (hd ts) = CommentTok \<Longrightarrow>
    grouped (delimsOpen d ps) ts gs \<Longrightarrow> grouped d (ps @ ts) ((ps, '''') # gs)"
| operation: "lineOperands d ps \<Longrightarrow> delimsOpen d ps = 0 \<Longrightarrow> tokType oper = OperatorTok \<Longrightarrow>
    tokValue oper \<notin> {''['', '']'', ''<<'', ''>>'', ''BI''} \<Longrightarrow> grouped 0 ts gs \<Longrightarrow>
    grouped d (ps @ oper # ts) ((ps @ [oper], tokValue oper) # gs)"
| image: "lineOperands d ps \<Longrightarrow> delimsOpen d ps = 0 \<Longrightarrow> isOp ''BI'' bi \<Longrightarrow>
    \<forall>t \<in> set body. \<not> isOp ''EI'' t \<Longrightarrow> isOp ''EI'' ei \<Longrightarrow> grouped 0 ts gs \<Longrightarrow>
    grouped d (ps @ bi # body @ ei # ts) ((ps @ bi # body @ [ei], ''BI'') # gs)"
| open_image: "lineOperands d ps \<Longrightarrow> delimsOpen d ps = 0 \<Longrightarrow> isOp ''BI'' bi \<Longrightarrow>
    \<forall>t \<in> set body. \<not> isOp ''EI'' t \<Longrightarrow> grouped d (ps @ bi # body) [(ps @ bi # body, ''BI'')]"

definition lineKey :: "formattedLine \<Rightarrow> token list \<times> string" where
  "lineKey ln = (flTokens ln, flOperator ln)"

lemma lineKey_mk [simp]:
  "lineKey (mkLine row indent op) = (row, op)" "lineKey (commentLine tk indent) = ([tk], '''')"
  by (simp_all add: lineKey_def mkLine_def commentLine_def)

lemma danglings_key: "map lineKey (danglings ps i) = (if ps = [] then [] else [(ps, '''')])"
  by (simp add: danglings_def dangling_def)

lemma delimsOpen_append [simp]: "delimsOpen d (ps @ qs) = delimsOpen (delimsOpen d ps) qs"
  by (induction ps arbitrary: d) simp_all

lemma operands_append [simp]: "lineOperands d (ps @ qs) \<longleftrightarrow> lineOperands d ps \<and> lineOperands (delimsOpen d ps) qs"
  by (induction ps arbitrary: d) simp_all

lemma operand_step:
  assumes "lineOperands d [t]"
  shows "formatFrom (t # ts) i d pend = formatFrom ts i (delimsOpen d [t]) (pend @ [t])"
  using assms by (auto simp: opensDelim_def closesDelim_def isOp_def)

lemma operands_run:
  "lineOperands d ps \<Longrightarrow> formatFrom (ps @ ts) i d pend = formatFrom ts i (delimsOpen d ps) (pend @ ps)"
proof (induction ps arbitrary: d pend)
  case (Cons t ps)
  then have "lineOperands d [t]" "lineOperands (delimsOpen d [t]) ps" by simp_all
  with Cons.IH [of "delimsOpen d [t]" "pend @ [t]"] show ?case
    by (simp add: operand_step del: formatFrom.simps)
qed simp

lemma imageBlock_closed:
  "\<forall>t \<in> set body. \<not> isOp ''EI'' t \<Longrightarrow> isOp ''EI'' ei \<Longrightarrow> imageBlock (body @ ei # ts) = body @ [ei]"
  by (induction body) auto

lemma imageBlock_open: "\<forall>t \<in> set body. \<not> isOp ''EI'' t \<Longrightarrow> imageBlock body = body"
  by (induction body) auto

lemma image_step:
  "isOp ''BI'' bi \<Longrightarrow> formatFrom (bi # ts) i 0 pend =
     mkLine (pend @ bi # imageBlock ts) i ''BI'' # formatFrom (drop (length (imageBlock ts)) ts) i 0 []"
  by (simp add: isOp_def Let_def)

lemma grouped_formatFrom:
  "grouped d ts gs \<Longrightarrow> map lineKey (formatFrom ts i d []) = gs"
proof (induction arbitrary: i rule: grouped.induct)
  case (loose ps d ts gs)
  show ?case
  proof (cases ts)
    case Nil
    then show ?thesis using loose.hyps loose.IH [of i] operands_run [OF loose.hyps(2), of "[]" i "[]"]
      by (auto simp: danglings_key)
  next
    case (Cons c us)
    then show ?thesis using loose.hyps loose.IH [of i] operands_run [OF loose.hyps(2), of ts i "[]"]
      by (auto simp: danglings_key)
  qed
next
  case (operation d ps oper ts gs)
  have "map lineKey (formatFrom (oper # ts) i 0 ps) = (ps @ [oper], tokValue oper) # gs"
    using operation.hyps operation.IH by (simp add: Let_def)
  then show ?case using operands_run [OF operation.hyps(1), of "oper # ts" i "[]"] operation.hyps(2)
    by (simp del: formatFrom.simps)
next
  case (image d ps bi body ei ts gs)
  have "map lineKey (formatFrom (bi # body @ ei # ts) i 0 ps) = (ps @ bi # body @ [ei], ''BI'') # gs"
    using image.hyps image.IH [of i]
    by (simp add: image_step imageBlock_closed del: formatFrom.simps)
  then show ?case using operands_run [OF image.hyps(1), of "bi # body @ ei # ts" i "[]"] image.hyps(2)
    by (simp del: formatFrom.simps)
next
  case (open_image d ps bi body)
  have "map lineKey (formatFrom (bi # body) i 0 ps) = [(ps @ bi # body, ''BI'')]"
    using open_image.hyps
    by (simp add: image_step imageBlock_open danglings_def del: formatFrom.simps(2))
  then show ?case using operands_run [OF open_image.hyps(1), of "bi # body" i "[]"] open_image.hyps(2)
    by (simp del: formatFrom.simps)
qed (simp_all add: danglings_def)

lemma operation_starts:
  assumes "tokType tk = OperatorTok" "tokValue tk \<notin> {''['', '']'', ''<<'', ''>>''}" "lineOperands d ps"
    "delimsOpen d ps = 0" "tokValue tk \<noteq> ''BI'' \<Longrightarrow> \<exists>gs. grouped 0 ts gs"
    "tokValue tk = ''BI'' \<Longrightarrow> \<exists>gs. grouped 0 (drop (length (imageBlock ts)) ts) gs"
  shows "\<exists>gs. grouped d (ps @ tk # ts) gs"
proof (cases "tokValue tk = ''BI''")
  case True
  then have bi: "isOp ''BI'' tk" using assms(1) by (simp add: isOp_def)
  show ?thesis
  proof (cases "\<exists>t \<in> set ts. isOp ''EI'' t")
    case False
    then show ?thesis using open_image [OF assms(3,4) bi, of ts] by blast
  next
    case ex: True
    then obtain body ei us where ts: "ts = body @ ei # us" "isOp ''EI'' ei" "\<forall>t \<in> set body. \<not> isOp ''EI'' t"
      using split_list_first_prop [of ts "isOp ''EI''"] by blast
    then have "\<exists>gs. grouped 0 us gs" using assms(6) True by (simp add: imageBlock_closed)
    then show ?thesis using image [OF assms(3,4) bi ts(3,2)] ts(1) by auto
  qed
next
  case False
  then show ?thesis using assms operation [OF assms(3,4,1)] by auto
qed

lemma grouped_exists: "lineOperands d ps \<Longrightarrow> \<exists>gs. grouped d (ps @ ts) gs"
proof (induction ts arbitrary: d ps rule: length_induct)
  case (1 ts)
  then have ih: "length us < length ts \<Longrightarrow> lineOperands e qs \<Longrightarrow> \<exists>gs. grouped e (qs @ us) gs" for us e qs
    by blast
  show ?case
  proof (cases ts)
    case Nil
    then show ?thesis using loose [of ps d "[]" "[]"] no_tokens "1.prems" by (cases "ps = []") auto
  next
    case (Cons tk us)
    consider (com) "tokType tk = CommentTok" | (arg) "lineOperands (delimsOpen d ps) [tk]"
      | (op) "tokType tk = OperatorTok" "tokValue tk \<notin> {''['', '']'', ''<<'', ''>>''}" "delimsOpen d ps = 0"
      by (auto simp: opensDelim_def closesDelim_def isOp_def)
    then show ?thesis
    proof cases
      case com
      obtain gs where "grouped (delimsOpen d ps) us gs"
        using ih [of us "delimsOpen d ps" "[]"] Cons by auto
      then have "grouped (delimsOpen d ps) ts (([tk], '''') # gs)" unfolding Cons using com by (rule_tac comment)
      then show ?thesis using loose [of ps d ts] Cons com "1.prems" by (cases "ps = []") auto
    next
      case arg
      then show ?thesis using ih [of us d "ps @ [tk]"] Cons "1.prems" by simp
    next
      case op
      have "length (drop (length (imageBlock us)) us) < length ts" by (simp add: Cons)
      then show ?thesis unfolding Cons
        using operation_starts [OF op(1,2) "1.prems" op(3), of us] ih [of _ 0 "[]"] Cons by auto
    qed
  qed
qed

lemma grouped_iff: "grouped 0 tokens gs \<longleftrightarrow> map (\<lambda>ln. (flTokens ln, flOperator ln)) (Format tokens) = gs"
proof -
  have k: "(\<lambda>ln. (flTokens ln, flOperator ln)) = lineKey" by (rule ext) (simp add: lineKey_def)
  have f: "Format tokens = formatFrom tokens 0 0 []" by (simp add: Format_def danglings_def)
  obtain hs where "grouped 0 tokens hs" using grouped_exists [of 0 "[]" tokens] by auto
  then show ?thesis unfolding k f using grouped_formatFrom [of 0 tokens _ 0] by auto
qed

text \<open>
  Claim C13. The formatted lines are the lines of the stream and no other grouping: comments alone,
  every operation with its operands and its operator's name, an inline image in one line through its
  \<open>EI\<close>, operands without an operator where a comment or the end cuts them off. They hold the tokens
  of the stream, each once and in order; each line covers exactly the source lines of its tokens, and
  is indented by the blocks open around it.
\<close>

theorem format_lines_faithful:
  "(grouped 0 tokens gs \<longleftrightarrow> map (\<lambda>ln. (flTokens ln, flOperator ln)) (Format tokens) = gs)
   \<and> concat (map flTokens (Format tokens)) = tokens
   \<and> list_all lineOK (Format tokens)
   \<and> map flIndent (Format tokens) = indents 0 (map flOperator (Format tokens))"
  by (rule conjI [OF grouped_iff Format_spec])

end
