(* ===== verification/NodeIds.thy ===== *)
theory NodeIds
  imports PdfObject
begin

text \<open>
  Node IDs, the addresses the front end and the command line use for objects: their parsing and their
  resolution (\<^verbatim>\<open>parseNodeID\<close> and \<^verbatim>\<open>resolveNodeObject\<close> of \<^verbatim>\<open>internal/pdfcore/tree.go\<close>).
\<close>

section \<open>Parsing\<close>

definition notColon :: "char \<Rightarrow> bool" where
  "notColon c \<longleftrightarrow> c \<noteq> CHR '':''"

text \<open>What stands before and after the first colon; \<open>None\<close> without one.\<close>

definition cutFirstColon :: "string \<Rightarrow> (string \<times> string) option" where
  "cutFirstColon s =
     (let a = takeWhile notColon s in if length a = length s then None else Some (a, drop (length a + 1) s))"

text \<open>What stands before and after the last colon.\<close>

definition cutLastColon :: "string \<Rightarrow> (string \<times> string) option" where
  "cutLastColon s =
     (let b = rev (takeWhile notColon (rev s)) in
      if length b = length s then None else Some (take (length s - length b - 1) s, b))"

definition parseNodeID :: "string \<Rightarrow> string \<times> string \<times> string" where
  "parseNodeID nodeID =
     (if nodeID = ''root'' then (''root'', [], [])
      else (case cutFirstColon nodeID of
              None \<Rightarrow> (nodeID, [], [])
            | Some (kind, rest) \<Rightarrow>
                if kind = ''obj'' then
                  (case cutFirstColon rest of Some (g, n) \<Rightarrow> (kind, g, n) | None \<Rightarrow> (kind, rest, []))
                else if kind = ''dict'' \<or> kind = ''arr'' then
                  (case cutLastColon rest of Some (parent, key) \<Rightarrow> (kind, parent, key) | None \<Rightarrow> (kind, [], rest))
                else (kind, [], rest)))"

section \<open>Resolution\<close>

text \<open>The errors by the message they carry; a library error keeps its text.\<close>

datatype nodeError =
    NestingTooDeep
  | CatalogFailed string
  | BadGeneration string
  | BadObjectNumber string
  | DerefFailed string
  | ParentNotDict string
  | KeyNotFound string string
  | ParentNotArray string
  | BadArrayIndex string
  | IndexOutOfRange int nat
  | UnknownKind string

text \<open>A library panic goes through to the caller's \<^verbatim>\<open>safeCall\<close>.\<close>

datatype nodeAnswer = NodeObj pdfObj | NodeErr nodeError | NodePanic string

definition maxNodeIDDepth :: nat where "maxNodeIDDepth = 64"

fun nodeDeref :: "derefAnswer \<Rightarrow> nodeAnswer" where
  "nodeDeref (DObj v) = NodeObj v"
| "nodeDeref (DErr e) = NodeErr (DerefFailed e)"
| "nodeDeref (DPanic p) = NodePanic p"

text \<open>An entry of a container, dereferenced once when it is a reference.\<close>

definition entryObject :: "pdfDoc \<Rightarrow> pdfObj \<Rightarrow> nodeAnswer" where
  "entryObject doc v = (if isRef v then nodeDeref (dereference doc v) else NodeObj v)"

definition resolveRoot :: "pdfDoc \<Rightarrow> nodeAnswer" where
  "resolveRoot doc = (case docCatalog doc of
     DObj c \<Rightarrow> NodeObj c | DErr e \<Rightarrow> NodeErr (CatalogFailed e) | DPanic p \<Rightarrow> NodePanic p)"

definition resolveObj :: "pdfDoc \<Rightarrow> string \<Rightarrow> string \<Rightarrow> nodeAnswer" where
  "resolveObj doc genText numText =
     (case atoi genText of
        None \<Rightarrow> NodeErr (BadGeneration genText)
      | Some g \<Rightarrow> (case atoi numText of
            None \<Rightarrow> NodeErr (BadObjectNumber numText)
          | Some n \<Rightarrow> nodeDeref (dereference doc (PRef n g))))"

definition resolveDictEntry :: "pdfDoc \<Rightarrow> string \<Rightarrow> pdfObj \<Rightarrow> string \<Rightarrow> nodeAnswer" where
  "resolveDictEntry doc parentID parent key =
     (case asDict parent of
        None \<Rightarrow> NodeErr (ParentNotDict parentID)
      | Some d \<Rightarrow> (case dictFind d key of
            None \<Rightarrow> NodeErr (KeyNotFound key parentID)
          | Some v \<Rightarrow> entryObject doc v))"

definition resolveArrayEntry :: "pdfDoc \<Rightarrow> string \<Rightarrow> pdfObj \<Rightarrow> string \<Rightarrow> nodeAnswer" where
  "resolveArrayEntry doc parentID parent idxText =
     (case parent of
        PArray xs \<Rightarrow>
          (case atoi idxText of
             None \<Rightarrow> NodeErr (BadArrayIndex idxText)
           | Some i \<Rightarrow>
               if i < 0 \<or> int (length xs) \<le> i then NodeErr (IndexOutOfRange i (length xs))
               else entryObject doc (xs ! nat i))
      | _ \<Rightarrow> NodeErr (ParentNotArray parentID))"

function resolveNodeObjectDepth :: "pdfDoc \<Rightarrow> string \<Rightarrow> nat \<Rightarrow> nodeAnswer" where
  "resolveNodeObjectDepth doc nodeID depth =
     (if maxNodeIDDepth < depth then NodeErr NestingTooDeep
      else (case parseNodeID nodeID of (kind, parentID, lastPart) \<Rightarrow>
        if kind = ''root'' then resolveRoot doc
        else if kind = ''obj'' then resolveObj doc parentID lastPart
        else if kind = ''dict'' then
          (case resolveNodeObjectDepth doc parentID (depth + 1) of
             NodeObj parent \<Rightarrow> resolveDictEntry doc parentID parent lastPart
           | r \<Rightarrow> r)
        else if kind = ''arr'' then
          (case resolveNodeObjectDepth doc parentID (depth + 1) of
             NodeObj parent \<Rightarrow> resolveArrayEntry doc parentID parent lastPart
           | r \<Rightarrow> r)
        else NodeErr (UnknownKind kind)))"
  by pat_completeness auto
termination resolveNodeObjectDepth
  by (relation "measure (\<lambda>(_, _, depth). Suc maxNodeIDDepth - depth)") auto

declare resolveNodeObjectDepth.simps [simp del]

definition resolveNodeObject :: "pdfDoc \<Rightarrow> string \<Rightarrow> nodeAnswer" where
  "resolveNodeObject doc nodeID = resolveNodeObjectDepth doc nodeID 0"

text \<open>\<^verbatim>\<open>objectRefFromNodeID\<close> of \<^verbatim>\<open>inspector.go\<close>\<close>

definition objectRefFromNodeID :: "string \<Rightarrow> string" where
  "objectRefFromNodeID nodeID =
     (if \<not> hasPrefix nodeID ''obj:'' then []
      else (case parseNodeID nodeID of (kind, g, n) \<Rightarrow> if kind \<noteq> ''obj'' then [] else n @ '' '' @ g @ '' R''))"

section \<open>Reading the IDs the program writes\<close>

lemma takeWhile_colon: "list_all notColon s \<Longrightarrow> takeWhile notColon (s @ CHR '':'' # t) = s"
  by (induction s) (simp_all add: notColon_def)

lemma cutFirstColon_cons: "list_all notColon s \<Longrightarrow> cutFirstColon (s @ CHR '':'' # t) = Some (s, t)"
  by (simp add: cutFirstColon_def takeWhile_colon Let_def)

lemma takeWhile_noColon [simp]: "\<forall>c \<in> set s. notColon c \<Longrightarrow> takeWhile notColon s = s"
  by (simp add: takeWhile_eq_all_conv)

lemma cutFirstColon_none: "list_all notColon s \<Longrightarrow> cutFirstColon s = None"
  by (simp add: cutFirstColon_def Let_def list_all_iff)

lemma cutLastColon_snoc: "list_all notColon t \<Longrightarrow> cutLastColon (s @ CHR '':'' # t) = Some (s, t)"
proof -
  assume t: "list_all notColon t"
  have "takeWhile notColon (rev t @ CHR '':'' # rev s) = rev t"
    by (rule takeWhile_colon) (use t in \<open>simp add: list_all_iff\<close>)
  then show ?thesis by (simp add: cutLastColon_def Let_def)
qed

lemma showInt_noColon: "list_all notColon (showInt i)"
  using showInt_chars [of "CHR '':''" i] sign_not_digit(3) by (auto simp: list_all_iff notColon_def)

lemma notColon_kind: "list_all notColon ''obj''" "list_all notColon ''dict''" "list_all notColon ''arr''"
  by (simp_all add: notColon_def)

lemma parse_nodeIDForRef: "parseNodeID (nodeIDForRef n g) = (''obj'', showInt g, showInt n)"
proof -
  have "cutFirstColon (''obj'' @ CHR '':'' # showInt g @ CHR '':'' # showInt n) = Some (''obj'', showInt g @ CHR '':'' # showInt n)"
    by (rule cutFirstColon_cons [OF notColon_kind(1)])
  moreover have "nodeIDForRef n g = ''obj'' @ CHR '':'' # showInt g @ CHR '':'' # showInt n"
    by (simp add: nodeIDForRef_def)
  ultimately show ?thesis using cutFirstColon_cons [OF showInt_noColon, of g "showInt n"]
    by (simp add: parseNodeID_def)
qed

lemma parse_child:
  assumes "list_all notColon key" "kind = ''dict'' \<or> kind = ''arr''"
  shows "parseNodeID (kind @ '':'' @ parent @ '':'' @ key) = (kind, parent, key)"
proof -
  have "list_all notColon kind" using assms(2) notColon_kind by auto
  from cutFirstColon_cons [OF this] have "cutFirstColon (kind @ CHR '':'' # parent @ CHR '':'' # key)
    = Some (kind, parent @ CHR '':'' # key)" .
  then show ?thesis using assms cutLastColon_snoc [OF assms(1), of parent]
    by (auto simp: parseNodeID_def)
qed

lemma resolve_ref:
  assumes "inInt64 n" "inInt64 g"
  shows "resolveNodeObject doc (nodeIDForRef n g) = nodeDeref (lookupRef doc n g)"
  using assms by (simp add: resolveNodeObject_def resolveNodeObjectDepth.simps parse_nodeIDForRef resolveObj_def
      atoi_showInt maxNodeIDDepth_def)

lemma resolve_dict_child:
  assumes "list_all notColon key" "resolveNodeObjectDepth doc parent 1 = NodeObj v"
  shows "resolveNodeObject doc (''dict:'' @ parent @ '':'' @ key) = resolveDictEntry doc parent v key"
  using parse_child [OF assms(1), of "''dict''" parent] assms(2)
  by (simp add: resolveNodeObject_def resolveNodeObjectDepth.simps [of _ "_ # _"] maxNodeIDDepth_def)

lemma resolve_array_child:
  assumes "list_all notColon key" "resolveNodeObjectDepth doc parent 1 = NodeObj v"
  shows "resolveNodeObject doc (''arr:'' @ parent @ '':'' @ key) = resolveArrayEntry doc parent v key"
  using parse_child [OF assms(1), of "''arr''" parent] assms(2)
  by (simp add: resolveNodeObject_def resolveNodeObjectDepth.simps [of _ "_ # _"] maxNodeIDDepth_def)

lemma cutFirstColon_len: "cutFirstColon s = Some (a, b) \<Longrightarrow> length a + length b < length s"
proof -
  assume "cutFirstColon s = Some (a, b)"
  then have "a = takeWhile notColon s" "b = drop (length a + 1) s" "length a \<noteq> length s"
    by (auto simp: cutFirstColon_def Let_def split: if_split_asm)
  moreover from this have "length a \<le> length s" by (simp add: length_takeWhile_le)
  ultimately show ?thesis by simp
qed

lemma cutLastColon_len: "cutLastColon s = Some (a, b) \<Longrightarrow> length a < length s"
proof -
  assume "cutLastColon s = Some (a, b)"
  then have "a = take (length s - length b - 1) s" "length (takeWhile notColon (rev s)) \<noteq> length s"
    by (auto simp: cutLastColon_def Let_def split: if_split_asm)
  moreover have "length (takeWhile notColon (rev s)) \<le> length s" using length_takeWhile_le [of notColon "rev s"] by simp
  ultimately show ?thesis by auto
qed

lemma parse_parent_shorter:
  assumes "parseNodeID nodeID = (kind, parent, key)" "kind = ''dict'' \<or> kind = ''arr''"
  shows "length parent < length nodeID"
proof (cases "cutFirstColon nodeID")
  case None
  with assms show ?thesis by (auto simp: parseNodeID_def split: if_split_asm)
next
  case (Some p)
  obtain k rest where p: "p = (k, rest)" by fastforce
  with Some assms have "parent = [] \<or> (\<exists>b. cutLastColon rest = Some (parent, b))"
    by (auto simp: parseNodeID_def split: if_split_asm option.split_asm)
  moreover have "length rest < length nodeID" using cutFirstColon_len Some p by fastforce
  ultimately show ?thesis using cutLastColon_len [of rest parent] by (cases nodeID) (auto intro: less_trans)
qed

end
