(* ===== verification/Utf8.thy ===== *)
theory Utf8
  imports Main
begin

text \<open>
  Go strings as sequences of runes: what \<^verbatim>\<open>for _, r := range s\<close>, \<^verbatim>\<open>utf8.ValidString\<close> and \<^verbatim>\<open>string(r)\<close> do.
  A string is its bytes; a byte that starts no well-formed sequence reads as U+FFFD, one byte wide.
\<close>

type_synonym rune = nat

definition runeError :: rune where "runeError = 65533"

definition byteOf :: "char \<Rightarrow> nat" where
  "byteOf c = of_char c"

definition charOf :: "nat \<Rightarrow> char" where
  "charOf n = char_of n"

lemma byteOf_charOf [simp]: "n < 256 \<Longrightarrow> byteOf (charOf n) = n"
  by (simp add: byteOf_def charOf_def)

lemma charOf_byteOf [simp]: "charOf (byteOf c) = c"
  by (simp add: byteOf_def charOf_def)

lemma byteOf_less [simp]: "byteOf c < 256"
  unfolding byteOf_def by (rule nat_of_char_less_256)

section \<open>Encoding\<close>

definition scalarRune :: "rune \<Rightarrow> bool" where
  "scalarRune r \<longleftrightarrow> r < 55296 \<or> (57343 < r \<and> r < 1114112)"

definition encodeRune :: "rune \<Rightarrow> string" where
  "encodeRune r0 =
     (let r = (if scalarRune r0 then r0 else runeError) in
      if r < 128 then [charOf r]
      else if r < 2048 then [charOf (192 + r div 64), charOf (128 + r mod 64)]
      else if r < 65536 then [charOf (224 + r div 4096), charOf (128 + r div 64 mod 64), charOf (128 + r mod 64)]
      else [charOf (240 + r div 262144), charOf (128 + r div 4096 mod 64), charOf (128 + r div 64 mod 64),
            charOf (128 + r mod 64)])"

definition encodeRunes :: "rune list \<Rightarrow> string" where
  "encodeRunes rs = concat (map encodeRune rs)"

section \<open>Decoding\<close>

text \<open>The length of the sequence a byte starts and the range its second byte must be in.\<close>

definition leadByte :: "nat \<Rightarrow> (nat \<times> nat \<times> nat) option" where
  "leadByte b =
     (if 194 \<le> b \<and> b \<le> 223 then Some (2, 128, 191)
      else if b = 224 then Some (3, 160, 191)
      else if b = 237 then Some (3, 128, 159)
      else if 225 \<le> b \<and> b \<le> 239 then Some (3, 128, 191)
      else if b = 240 then Some (4, 144, 191)
      else if 241 \<le> b \<and> b \<le> 243 then Some (4, 128, 191)
      else if b = 244 then Some (4, 128, 143)
      else None)"

definition contByte :: "nat \<Rightarrow> bool" where
  "contByte b \<longleftrightarrow> 128 \<le> b \<and> b \<le> 191"

text \<open>The rune at the front of a string and its width; \<open>None\<close> where the front is not well-formed.\<close>

fun decodeFront :: "nat list \<Rightarrow> (rune \<times> nat) option" where
  "decodeFront [] = None"
| "decodeFront (b # bs) =
     (if b < 128 then Some (b, 1)
      else (case leadByte b of
              None \<Rightarrow> None
            | Some (n, lo, hi) \<Rightarrow>
                (case bs of
                   [] \<Rightarrow> None
                 | c # cs \<Rightarrow>
                     if \<not> (lo \<le> c \<and> c \<le> hi) then None
                     else if n = 2 then Some ((b - 192) * 64 + (c - 128), 2)
                     else (case cs of
                             [] \<Rightarrow> None
                           | d # ds \<Rightarrow>
                               if \<not> contByte d then None
                               else if n = 3 then Some ((b - 224) * 4096 + (c - 128) * 64 + (d - 128), 3)
                               else (case ds of
                                       [] \<Rightarrow> None
                                     | e # es \<Rightarrow>
                                         if \<not> contByte e then None
                                         else Some ((b - 240) * 262144 + (c - 128) * 4096 + (d - 128) * 64 + (e - 128), 4))))))"

function runes :: "string \<Rightarrow> rune list" where
  "runes [] = []"
| "runes (c # s) =
     (case decodeFront (map byteOf (c # s)) of
        None \<Rightarrow> runeError # runes s
      | Some (r, n) \<Rightarrow> r # runes (drop (n - 1) s))"
  by pat_completeness auto
termination runes by (relation "measure length") auto

function validString :: "string \<Rightarrow> bool" where
  "validString [] \<longleftrightarrow> True"
| "validString (c # s) \<longleftrightarrow>
     (case decodeFront (map byteOf (c # s)) of
        None \<Rightarrow> False
      | Some (r, n) \<Rightarrow> validString (drop (n - 1) s))"
  by pat_completeness auto
termination validString by (relation "measure length") auto

section \<open>Round trips\<close>

lemma split64: "(x * 64 + y) div 64 = x" "(x * 64 + y) mod 64 = y" if "y < 64" for x y :: nat
  using that by simp_all

lemma div_4096: "r div 4096 = r div 64 div 64" "r div 262144 = r div 4096 div 64" for r :: nat
  by (simp_all add: div_mult2_eq [symmetric])

lemma digits64:
  fixes x y z w :: nat
  assumes "y < 64" "z < 64" "w < 64"
  shows "(x * 64 + y) div 64 = x" "(x * 64 + y) mod 64 = y"
    "(x * 4096 + y * 64 + z) div 4096 = x" "(x * 4096 + y * 64 + z) div 64 mod 64 = y" "(x * 4096 + y * 64 + z) mod 64 = z"
    "(x * 262144 + y * 4096 + z * 64 + w) div 262144 = x" "(x * 262144 + y * 4096 + z * 64 + w) div 4096 mod 64 = y"
    "(x * 262144 + y * 4096 + z * 64 + w) div 64 mod 64 = z" "(x * 262144 + y * 4096 + z * 64 + w) mod 64 = w"
proof -
  have 3: "x * 4096 + y * 64 + z = (x * 64 + y) * 64 + z"
    and 4: "x * 262144 + y * 4096 + z * 64 + w = ((x * 64 + y) * 64 + z) * 64 + w" by simp_all
  note s = split64 [OF assms(1)] split64 [OF assms(2)] split64 [OF assms(3)]
  show "(x * 64 + y) div 64 = x" "(x * 64 + y) mod 64 = y" by (simp_all only: s)
  show "(x * 4096 + y * 64 + z) div 4096 = x" "(x * 4096 + y * 64 + z) div 64 mod 64 = y" "(x * 4096 + y * 64 + z) mod 64 = z"
    unfolding 3 by (simp_all only: div_4096 s)
  show "(x * 262144 + y * 4096 + z * 64 + w) div 262144 = x" "(x * 262144 + y * 4096 + z * 64 + w) div 4096 mod 64 = y"
    "(x * 262144 + y * 4096 + z * 64 + w) div 64 mod 64 = z" "(x * 262144 + y * 4096 + z * 64 + w) mod 64 = w"
    unfolding 4 by (simp_all only: div_4096 s)
qed

lemma rejoin64: "r = r div 4096 * 4096 + r div 64 mod 64 * 64 + r mod 64"
  "r = r div 262144 * 262144 + r div 4096 mod 64 * 4096 + r div 64 mod 64 * 64 + r mod 64" for r :: nat
proof -
  have a: "r = r div 64 * 64 + r mod 64" by simp
  have b: "r div 64 = r div 4096 * 64 + r div 64 mod 64" unfolding div_4096(1) by simp
  have c: "r div 4096 = r div 262144 * 64 + r div 4096 mod 64" unfolding div_4096(2) by simp
  show "r = r div 4096 * 4096 + r div 64 mod 64 * 64 + r mod 64" using a b by linarith
  show "r = r div 262144 * 262144 + r div 4096 mod 64 * 4096 + r div 64 mod 64 * 64 + r mod 64" using a b c by linarith
qed

lemma leadByte_cases:
  assumes "leadByte b = Some (n, lo, hi)"
  obtains "n = 2" "194 \<le> b" "b \<le> 223" "lo = 128" "hi = 191"
  | "n = 3" "b = 224" "lo = 160" "hi = 191"
  | "n = 3" "b = 237" "lo = 128" "hi = 159"
  | "n = 3" "225 \<le> b" "b \<le> 239" "b \<noteq> 237" "lo = 128" "hi = 191"
  | "n = 4" "b = 240" "lo = 144" "hi = 191"
  | "n = 4" "241 \<le> b" "b \<le> 243" "lo = 128" "hi = 191"
  | "n = 4" "b = 244" "lo = 128" "hi = 143"
  using assms by (auto simp: leadByte_def split: if_split_asm)

lemma leadByte_size: "leadByte b = Some (n, lo, hi) \<Longrightarrow> n = 2 \<or> n = 3 \<or> n = 4"
  by (elim leadByte_cases) auto

text \<open>The four shapes a decoded front has.\<close>

lemma decodeFront_cases:
  assumes "decodeFront bs = Some (r, n)"
  obtains (one) b rest where "bs = b # rest" "b < 128" "r = b" "n = 1"
  | (two) b c rest where "bs = b # c # rest" "194 \<le> b" "b \<le> 223" "contByte c" "n = 2"
      "r = (b - 192) * 64 + (c - 128)"
  | (three) b c d rest lo hi where "bs = b # c # d # rest" "leadByte b = Some (3, lo, hi)" "lo \<le> c" "c \<le> hi" "contByte d"
      "n = 3" "r = (b - 224) * 4096 + (c - 128) * 64 + (d - 128)"
  | (four) b c d e rest lo hi where "bs = b # c # d # e # rest" "leadByte b = Some (4, lo, hi)" "lo \<le> c" "c \<le> hi"
      "contByte d" "contByte e" "n = 4" "r = (b - 240) * 262144 + (c - 128) * 4096 + (d - 128) * 64 + (e - 128)"
proof (cases bs)
  case (Cons b bs1)
  show ?thesis
  proof (cases "b < 128")
    case False
    with assms Cons obtain k lo hi c cs where lb: "leadByte b = Some (k, lo, hi)" "bs1 = c # cs" "lo \<le> c" "c \<le> hi"
      by (auto split: option.split_asm list.split_asm if_split_asm)
    from leadByte_size [OF lb(1)] consider "k = 2" | "k = 3" | "k = 4" by blast
    then show ?thesis
    proof cases
      case 1
      with lb have "194 \<le> b" "b \<le> 223" "contByte c" by (auto elim: leadByte_cases simp: contByte_def)
      with assms Cons False lb 1 show ?thesis by (intro two [of b c cs]) auto
    next
      case 2
      with assms Cons False lb obtain d ds where "cs = d # ds" "contByte d" by (auto split: list.split_asm if_split_asm)
      with assms Cons False lb 2 show ?thesis by (intro three [of b c d ds lo hi]) auto
    next
      case 3
      with assms Cons False lb obtain d ds where d: "cs = d # ds" "contByte d" by (auto split: list.split_asm if_split_asm)
      with assms Cons False lb 3 obtain e es where "ds = e # es" "contByte e" by (auto split: list.split_asm if_split_asm)
      with assms Cons False lb 3 d show ?thesis by (intro four [of b c d e es lo hi]) auto
    qed
  qed (use assms Cons one in auto)
qed (use assms in simp)

lemma decodeFront_runeE:
  assumes "decodeFront bs = Some (r, n)"
  shows "scalarRune r" "1 \<le> n" "encodeRune r = map charOf (take n bs)"
proof -
  from assms have "scalarRune r \<and> 1 \<le> n \<and> encodeRune r = map charOf (take n bs)"
  proof (cases rule: decodeFront_cases)
    case one
    then show ?thesis by (simp add: scalarRune_def encodeRune_def)
  next
    case (two b c rest)
    obtain x y where xy: "b = 192 + x" "c = 128 + y" "2 \<le> x" "x < 32" "y < 64"
      using two that [of "b - 192" "c - 128"] by (auto simp: contByte_def)
    with two have r: "r = x * 64 + y" by simp
    with xy have "128 \<le> r" "r < 2048" by auto
    then show ?thesis using two xy digits64(1,2) [of y 0 0 x] r by (simp add: scalarRune_def encodeRune_def)
  next
    case (three b c d rest lo hi)
    then have bd: "224 \<le> b" "b \<le> 239" "128 \<le> c" "c \<le> 191" "b = 224 \<Longrightarrow> 160 \<le> c" "b = 237 \<Longrightarrow> c \<le> 159" "128 \<le> d" "d \<le> 191"
      by (auto elim!: leadByte_cases simp: contByte_def)
    obtain x y z where xyz: "b = 224 + x" "c = 128 + y" "d = 128 + z" "x < 16" "y < 64" "z < 64"
      using bd that [of "b - 224" "c - 128" "d - 128"] by auto
    with three have r: "r = x * 4096 + y * 64 + z" by simp
    have lim: "2048 \<le> r" "r < 65536" "r < 55296 \<or> 57343 < r"
    proof -
      have "x = 0 \<or> 1 \<le> x" "x \<le> 12 \<or> x = 13 \<or> 14 \<le> x" by linarith+
      moreover have "x = 0 \<Longrightarrow> 32 \<le> y" "x = 13 \<Longrightarrow> y \<le> 31" using bd(5,6) xyz by auto
      ultimately show "2048 \<le> r" "r < 65536" "r < 55296 \<or> 57343 < r" using r xyz(4-6) by (elim disjE; linarith)+
    qed
    then have "scalarRune r" by (auto simp: scalarRune_def)
    moreover have "\<not> r < 128" "\<not> r < 2048" using lim by auto
    ultimately show ?thesis using three(1,6) xyz digits64(3-5) [of y z 0 x] r lim(2) by (simp add: encodeRune_def)
  next
    case (four b c d e rest lo hi)
    then have bd: "240 \<le> b" "b \<le> 244" "128 \<le> c" "c \<le> 191" "b = 240 \<Longrightarrow> 144 \<le> c" "b = 244 \<Longrightarrow> c \<le> 143"
      "128 \<le> d" "d \<le> 191" "128 \<le> e" "e \<le> 191"
      by (auto elim!: leadByte_cases simp: contByte_def)
    obtain x y z w where xyz: "b = 240 + x" "c = 128 + y" "d = 128 + z" "e = 128 + w" "x < 5" "y < 64" "z < 64" "w < 64"
      using bd that [of "b - 240" "c - 128" "d - 128" "e - 128"] by auto
    with four have r: "r = x * 262144 + y * 4096 + z * 64 + w" by simp
    have lim: "65536 \<le> r" "r < 1114112"
    proof -
      have "x = 0 \<or> 1 \<le> x" "x \<le> 3 \<or> x = 4" using xyz(5) by linarith+
      moreover have "x = 0 \<Longrightarrow> 16 \<le> y" "x = 4 \<Longrightarrow> y \<le> 15" using bd(5,6) xyz by auto
      ultimately show "65536 \<le> r" "r < 1114112" using r xyz(6-8) by (elim disjE; linarith)+
    qed
    then have "scalarRune r" by (auto simp: scalarRune_def)
    moreover have "\<not> r < 128" "\<not> r < 2048" "\<not> r < 65536" using lim by auto
    ultimately show ?thesis using four(1,7) xyz digits64(6-9) [of y z w x] r by (simp add: encodeRune_def)
  qed
  then show "scalarRune r" "1 \<le> n" "encodeRune r = map charOf (take n bs)" by auto
qed

lemma decodeFront_encode:
  assumes "scalarRune r"
  shows "decodeFront (map byteOf (encodeRune r @ s)) = Some (r, length (encodeRune r))"
proof -
  have r4: "r < 1114112" using assms by (auto simp: scalarRune_def)
  consider "r < 128" | "128 \<le> r" "r < 2048" | "2048 \<le> r" "r < 65536" | "65536 \<le> r" by linarith
  then show ?thesis
  proof cases
    case 1
    with assms show ?thesis by (simp add: encodeRune_def)
  next
    case 2
    define x y where xy: "x = r div 64" "y = r mod 64"
    have b: "y < 64" "r = x * 64 + y" unfolding xy by simp_all
    with 2 have "2 \<le> x" "x < 32" by auto
    with b 2 assms show ?thesis by (simp add: encodeRune_def xy [symmetric] leadByte_def)
  next
    case 3
    define x y z where xyz: "x = r div 4096" "y = r div 64 mod 64" "z = r mod 64"
    have b: "y < 64" "z < 64" "r = x * 4096 + y * 64 + z" unfolding xyz using rejoin64(1) [of r] by simp_all
    with 3 have x: "x < 16" "x = 0 \<Longrightarrow> 32 \<le> y" by linarith+
    have "x = 13 \<Longrightarrow> y < 32" using assms b by (auto simp: scalarRune_def)
    then obtain lo hi where "leadByte (224 + x) = Some (3, lo, hi)" "lo \<le> 128 + y" "128 + y \<le> hi"
    proof -
      have e: "leadByte (224 + x) = Some (3, if x = 0 then 160 else 128, if x = 13 then 159 else 191)"
        using x(1) by (simp add: leadByte_def)
      show ?thesis by (rule that [OF e]) (use x b \<open>x = 13 \<Longrightarrow> y < 32\<close> in auto)
    qed
    moreover have "encodeRune r = [charOf (224 + x), charOf (128 + y), charOf (128 + z)]"
      using 3 assms by (simp add: encodeRune_def xyz)
    ultimately show ?thesis using b(1,2) x(1) by (simp add: contByte_def) (rule b(3) [symmetric])
  next
    case 4
    define x y z w where xyz: "x = r div 262144" "y = r div 4096 mod 64" "z = r div 64 mod 64" "w = r mod 64"
    have b: "y < 64" "z < 64" "w < 64" "r = x * 262144 + y * 4096 + z * 64 + w" unfolding xyz
      using rejoin64(2) [of r] by simp_all
    with 4 r4 have x: "x < 5" "x = 0 \<Longrightarrow> 16 \<le> y" "x = 4 \<Longrightarrow> y < 16" by linarith+
    then obtain lo hi where "leadByte (240 + x) = Some (4, lo, hi)" "lo \<le> 128 + y" "128 + y \<le> hi"
    proof -
      have e: "leadByte (240 + x) = Some (4, if x = 0 then 144 else 128, if x = 4 then 143 else 191)"
        using x(1) by (simp add: leadByte_def)
      show ?thesis by (rule that [OF e]) (use x b in auto)
    qed
    moreover have "encodeRune r = [charOf (240 + x), charOf (128 + y), charOf (128 + z), charOf (128 + w)]"
      using 4 assms by (simp add: encodeRune_def xyz)
    ultimately show ?thesis using b(1-3) x(1) by (simp add: contByte_def) (rule b(4) [symmetric])
  qed
qed

lemma encodeRune_ne: "encodeRune r \<noteq> []"
  by (simp add: encodeRune_def Let_def)

lemma runes_encode: "scalarRune r \<Longrightarrow> runes (encodeRune r @ s) = r # runes s"
proof -
  assume r: "scalarRune r"
  obtain c w where w: "encodeRune r = c # w" using encodeRune_ne [of r] by (cases "encodeRune r") auto
  show ?thesis using decodeFront_encode [OF r, of s] unfolding w by simp
qed

lemma runes_encodeRunes: "list_all scalarRune rs \<Longrightarrow> runes (encodeRunes rs) = rs"
  by (induction rs) (simp_all add: encodeRunes_def runes_encode)

lemma encodeRunes_inject:
  "list_all scalarRune rs \<Longrightarrow> list_all scalarRune qs \<Longrightarrow> encodeRunes rs = encodeRunes qs \<longleftrightarrow> rs = qs"
  by (metis runes_encodeRunes)

lemma runes_scalar: "list_all scalarRune (runes s)"
proof (induction s rule: runes.induct)
  case (2 c s)
  then show ?case using decodeFront_runeE(1) [of "map byteOf (c # s)"]
    by (auto simp: scalarRune_def runeError_def split: option.split)
qed simp

lemma encodeRunes_runes: "validString s \<Longrightarrow> encodeRunes (runes s) = s"
proof (induction s rule: validString.induct)
  case (2 c s)
  from 2(2) obtain r n where d: "decodeFront (map byteOf (c # s)) = Some (r, n)" and v: "validString (drop (n - 1) s)"
    by (auto split: option.split_asm)
  from decodeFront_runeE [OF d] have n: "1 \<le> n" "encodeRune r = map charOf (take n (map byteOf (c # s)))" by auto
  then have "encodeRune r = take n (c # s)" by (simp add: take_map comp_def del: list.map take_Cons)
  moreover have "take n (c # s) @ drop (n - 1) s = c # s" using n(1) by (cases n) auto
  ultimately show ?case using 2(1) [OF d refl v] d by (simp add: encodeRunes_def)
qed (simp add: encodeRunes_def)

end
