(* ===== verification/ScalarRender.thy ===== *)
theory ScalarRender
  imports PdfObject Utf8
begin

text \<open>
  What a reader sees of a PDF scalar: \<^verbatim>\<open>internal/pdfcore/scalarrender.go\<close>, with the text-string decoding of
  \<^verbatim>\<open>textstring.go\<close> it rests on. The PDF library's decoders, and Go's shortest decimal form of a float,
  are parameters: the record \<open>textLib\<close> holds them.
\<close>

section \<open>The library's decoders\<close>

text \<open>
  \<open>libText\<close> is \<^verbatim>\<open>StringOrHexLiteral\<close> (\<open>None\<close>: an error or nil), \<open>libUnescape\<close> is \<^verbatim>\<open>Unescape\<close>,
  \<open>libHexBytes\<close> is \<^verbatim>\<open>HexLiteral.Bytes\<close> and \<open>libFloat\<close> is \<^verbatim>\<open>strconv.FormatFloat(v, 'f', -1, 64)\<close>.
\<close>

record textLib =
  libText :: "pdfObj \<Rightarrow> string option"
  libUnescape :: "string \<Rightarrow> string option"
  libHexBytes :: "string \<Rightarrow> string option"
  libFloat :: "pdfReal \<Rightarrow> string"

section \<open>Stored form\<close>

definition hexDigit :: "nat \<Rightarrow> char" where
  "hexDigit d = (if d < 10 then charOf (48 + d) else charOf (55 + d))"

definition hexByte :: "nat \<Rightarrow> string" where
  "hexByte n = [hexDigit (n div 16 mod 16), hexDigit (n mod 16)]"

definition upperHex :: "string \<Rightarrow> string" where
  "upperHex s = concat (map (\<lambda>c. hexByte (byteOf c)) s)"

definition utf8Safe :: "string \<Rightarrow> string" where
  "utf8Safe s = (if validString s then s else upperHex s)"

fun scalarRaw :: "textLib \<Rightarrow> pdfObj \<Rightarrow> string" where
  "scalarRaw lib (PName n) = utf8Safe (''/'' @ n)"
| "scalarRaw lib (PString s) = utf8Safe (''('' @ s @ '')'')"
| "scalarRaw lib (PHex s) = utf8Safe (''<'' @ s @ ''>'')"
| "scalarRaw lib (PInt i) = showInt i"
| "scalarRaw lib (PReal r) = libFloat lib r"
| "scalarRaw lib (PBool b) = (if b then ''true'' else ''false'')"
| "scalarRaw lib PNull = ''null''"
| "scalarRaw lib _ = ''Unknown''"

section \<open>Text strings\<close>

fun isStringObject :: "pdfObj \<Rightarrow> bool" where
  "isStringObject (PString s) \<longleftrightarrow> True"
| "isStringObject (PHex s) \<longleftrightarrow> True"
| "isStringObject _ \<longleftrightarrow> False"

fun stringValue :: "pdfObj \<Rightarrow> string" where
  "stringValue (PString s) = s"
| "stringValue (PHex s) = s"
| "stringValue _ = []"

definition decodeTextStringOK :: "textLib \<Rightarrow> pdfObj \<Rightarrow> string \<times> bool" where
  "decodeTextStringOK lib v =
     (if isStringObject v then (case libText lib v of Some s \<Rightarrow> (s, True) | None \<Rightarrow> ([], False)) else ([], False))"

definition decodeTextString :: "textLib \<Rightarrow> pdfObj \<Rightarrow> string" where
  "decodeTextString lib v = fst (decodeTextStringOK lib v)"

definition textStringOrRaw :: "textLib \<Rightarrow> pdfObj \<Rightarrow> string" where
  "textStringOrRaw lib v =
     (case decodeTextStringOK lib v of (s, ok) \<Rightarrow>
        if ok \<and> validString s then s
        else if \<not> validString (stringValue v) then upperHex (stringValue v)
        else stringValue v)"

definition scalarText :: "textLib \<Rightarrow> pdfObj \<Rightarrow> string" where
  "scalarText lib v =
     (if isStringObject v \<and> textStringOrRaw lib v \<noteq> [] then textStringOrRaw lib v else scalarRaw lib v)"

definition rawCounterpartNeeded :: "textLib \<Rightarrow> pdfObj \<Rightarrow> string \<Rightarrow> bool" where
  "rawCounterpartNeeded lib v val \<longleftrightarrow> scalarRaw lib v \<noteq> val \<and> scalarRaw lib v \<noteq> ''('' @ val @ '')''"

section \<open>Strings that carry binary data\<close>

fun binaryPayloadLen :: "textLib \<Rightarrow> pdfObj \<Rightarrow> nat" where
  "binaryPayloadLen lib (PHex s) = (case libHexBytes lib s of Some b \<Rightarrow> length b | None \<Rightarrow> length s div 2)"
| "binaryPayloadLen lib (PString s) = (case libUnescape lib s of Some b \<Rightarrow> length b | None \<Rightarrow> length s)"
| "binaryPayloadLen lib _ = 0"

definition binaryStringSummary :: "textLib \<Rightarrow> pdfObj \<Rightarrow> string" where
  "binaryStringSummary lib v = ''<binary, '' @ showNat (binaryPayloadLen lib v) @ '' bytes>''"

definition isSignatureDict :: "pdfDict option \<Rightarrow> bool" where
  "isSignatureDict md = (case md of None \<Rightarrow> False
     | Some d \<Rightarrow>
         (case dictFind d ''Type'' of Some (PName n) \<Rightarrow> n = ''Sig'' \<or> n = ''DocTimeStamp'' | _ \<Rightarrow> False)
         \<or> dictFind d ''ByteRange'' \<noteq> None)"

definition binaryStringKey :: "pdfDict option \<Rightarrow> string \<Rightarrow> bool" where
  "binaryStringKey parent bareKey =
     (if bareKey = ''CheckSum'' then True
      else if bareKey = ''Contents'' \<or> bareKey = ''Cert'' then isSignatureDict parent
      else False)"

section \<open>Escaping and clamping\<close>

definition isControl :: "rune \<Rightarrow> bool" where
  "isControl r \<longleftrightarrow> r < 32 \<or> r = 127 \<or> (128 \<le> r \<and> r \<le> 159)"

definition escapeRune :: "rune \<Rightarrow> string" where
  "escapeRune r =
     (if r = 10 then [CHR 0x5C, CHR ''n'']
      else if r = 13 then [CHR 0x5C, CHR ''r'']
      else if r = 9 then [CHR 0x5C, CHR ''t'']
      else if r = 92 then [CHR 0x5C, CHR 0x5C]
      else if isControl r then [CHR 0x5C, CHR ''x''] @ hexByte r
      else encodeRune r)"

definition EscapeDisplayValue :: "string \<Rightarrow> string" where
  "EscapeDisplayValue s = concat (map escapeRune (runes s))"

definition runeCount :: "string \<Rightarrow> nat" where
  "runeCount s = length (runes s)"

fun clampLoop :: "nat \<Rightarrow> rune list \<Rightarrow> string \<Rightarrow> nat \<Rightarrow> nat \<Rightarrow> bool \<Rightarrow> string \<times> nat \<times> nat \<times> bool" where
  "clampLoop limit [] b emitted seen stop = (b, emitted, seen, stop)"
| "clampLoop limit (r # rs) b emitted seen stop =
     (let u = escapeRune r; n = runeCount u in
      if stop \<or> limit < emitted + n then clampLoop limit rs b emitted (seen + n) True
      else clampLoop limit rs (b @ u) (emitted + n) (seen + n) stop)"

definition ClampDisplayValue :: "string \<Rightarrow> nat \<Rightarrow> string" where
  "ClampDisplayValue s limit =
     (case clampLoop limit (runes s) [] 0 0 False of (b, emitted, seen, stop) \<Rightarrow>
        if \<not> stop then b
        else b @ '' [truncated: '' @ showNat emitted @ '' of '' @ showNat seen @ '']'')"

definition TreeValueCap :: nat where "TreeValueCap = 80"

section \<open>Display units\<close>

text \<open>The runes one display unit shows.\<close>

definition hexRunes :: "nat \<Rightarrow> rune list" where
  "hexRunes n = map byteOf (hexByte n)"

definition unitRunes :: "rune \<Rightarrow> rune list" where
  "unitRunes r =
     (if r = 10 then [92, 110] else if r = 13 then [92, 114] else if r = 9 then [92, 116] else if r = 92 then [92, 92]
      else if isControl r then [92, 120] @ hexRunes r
      else [r])"

lemma hexDigit_code: "d < 16 \<Longrightarrow> byteOf (hexDigit d) = (if d < 10 then 48 + d else 55 + d)"
  by (simp add: hexDigit_def)

lemma hexDigit_range: "d < 16 \<Longrightarrow> 48 \<le> byteOf (hexDigit d) \<and> byteOf (hexDigit d) \<le> 70"
  by (simp add: hexDigit_code)

lemma hexDigit_inject:
  assumes "d < 16" "e < 16" "hexDigit d = hexDigit e"
  shows "d = e"
proof -
  have "(if d < 10 then 48 + d else 55 + d) = (if e < 10 then 48 + e else 55 + e)"
    using assms hexDigit_code by metis
  then show ?thesis by (simp split: if_split_asm)
qed

lemma hexByte_inject:
  assumes "m < 256" "n < 256" "hexByte m = hexByte n"
  shows "m = n"
proof -
  have "m div 16 mod 16 = n div 16 mod 16" "m mod 16 = n mod 16"
    using assms(3) by (auto simp: hexByte_def intro: hexDigit_inject)
  moreover have "m div 16 < 16" "n div 16 < 16" using assms(1,2) by auto
  ultimately show ?thesis by (metis div_mult_mod_eq mod_less)
qed

lemma hexRunes_range: "hexRunes n = [x, y] \<Longrightarrow> 48 \<le> x \<and> x \<le> 70 \<and> 48 \<le> y \<and> y \<le> 70"
  using hexDigit_range [of "n div 16 mod 16"] hexDigit_range [of "n mod 16"]
  by (auto simp: hexRunes_def hexByte_def)

lemma hexRunes_two: "\<exists>x y. hexRunes n = [x, y] \<and> 48 \<le> x \<and> x \<le> 70 \<and> 48 \<le> y \<and> y \<le> 70"
  using hexRunes_range [of n] by (simp add: hexRunes_def hexByte_def)

lemma ascii_encode: "list_all (\<lambda>c. byteOf c < 128) s \<Longrightarrow> s = encodeRunes (map byteOf s)"
  by (induction s) (simp_all add: encodeRunes_def encodeRune_def scalarRune_def)

lemma hexRunes_plain: "list_all (\<lambda>r. scalarRune r \<and> \<not> isControl r) (hexRunes n)"
  using hexRunes_two [of n] by (auto simp: scalarRune_def isControl_def)

lemma escape_pair: "byteOf c < 128 \<Longrightarrow> [CHR 0x5C, c] = encodeRunes [92, byteOf c]"
  using ascii_encode [of "[CHR 0x5C, c]"] by (simp add: byteOf_def)

lemma escape_hex: "[CHR 0x5C, CHR ''x''] @ hexByte r = encodeRunes ([92, 120] @ hexRunes r)"
proof -
  have "list_all (\<lambda>c. byteOf c < 128) (hexByte r)"
    using hexRunes_two [of r] by (auto simp: hexRunes_def hexByte_def)
  then have "list_all (\<lambda>c. byteOf c < 128) ([CHR 0x5C, CHR ''x''] @ hexByte r)" by (simp add: byteOf_def)
  from ascii_encode [OF this] show ?thesis by (simp only: hexRunes_def map_append) (simp add: byteOf_def)
qed

lemma escapeRune_units: "escapeRune r = encodeRunes (unitRunes r)"
proof -
  note p = escape_pair [of "CHR ''n''"] escape_pair [of "CHR ''r''"] escape_pair [of "CHR ''t''"] escape_pair [of "CHR 0x5C"]
  have q: "[CHR 0x5C, CHR ''n''] = encodeRunes [92, 110]" "[CHR 0x5C, CHR ''r''] = encodeRunes [92, 114]"
    "[CHR 0x5C, CHR ''t''] = encodeRunes [92, 116]" "[CHR 0x5C, CHR 0x5C] = encodeRunes [92, 92]"
    using p by (simp_all add: byteOf_def)
  have "encodeRune r = encodeRunes [r]" by (simp add: encodeRunes_def)
  then show ?thesis unfolding escapeRune_def unitRunes_def q escape_hex by (simp only: if_distrib [of encodeRunes])
qed

lemma unitRunes_plain: "scalarRune r \<Longrightarrow> list_all (\<lambda>q. scalarRune q \<and> \<not> isControl q) (unitRunes r)"
  using hexRunes_plain [of r] by (auto simp: unitRunes_def scalarRune_def isControl_def list_all_iff)

lemma unitRunes_scalar: "scalarRune r \<Longrightarrow> list_all scalarRune (unitRunes r)"
  using unitRunes_plain [of r] by (auto simp: list_all_iff)

lemma encodeRunes_concat: "encodeRunes (concat xss) = concat (map encodeRunes xss)"
  by (induction xss) (simp_all add: encodeRunes_def)

lemma escape_runes: "EscapeDisplayValue s = encodeRunes (concat (map unitRunes (runes s)))"
  by (simp add: EscapeDisplayValue_def escapeRune_units [abs_def] encodeRunes_concat comp_def)

text \<open>Units read back: no unit starts another one.\<close>

lemma unitRunes_split:
  assumes "unitRunes r @ a = unitRunes q @ b" "scalarRune r" "scalarRune q"
  shows "r = q \<and> a = b"
proof -
  have hx: "r = q \<and> a = b" if "isControl r" "isControl q" "hexRunes r @ a = hexRunes q @ b"
  proof -
    have l: "length (hexRunes r) = length (hexRunes q)" by (simp add: hexRunes_def hexByte_def)
    with that(3) have e: "hexRunes r = hexRunes q" "a = b" by auto
    have "inj byteOf" by (metis charOf_byteOf injI)
    with e(1) have "hexByte r = hexByte q" unfolding hexRunes_def by (metis map_injective)
    with that(1,2) hexByte_inject [of r q] e(2) show ?thesis by (auto simp: isControl_def)
  qed
  consider "r = 10" | "r = 13" | "r = 9" | "r = 92" | "r \<notin> {10, 13, 9, 92}" "isControl r"
    | "r \<notin> {10, 13, 9, 92}" "\<not> isControl r" by blast
  then show ?thesis
  proof cases
    case 5
    with assms(1) hx show ?thesis by (auto simp: unitRunes_def split: if_split_asm)
  qed (use assms(1) in \<open>auto simp: unitRunes_def split: if_split_asm\<close>)
qed

lemma units_inject:
  "list_all scalarRune rs \<Longrightarrow> list_all scalarRune qs \<Longrightarrow>
    concat (map unitRunes rs) = concat (map unitRunes qs) \<Longrightarrow> rs = qs"
proof (induction rs arbitrary: qs)
  case Nil
  then show ?case by (cases qs) (auto simp: unitRunes_def split: if_split_asm)
next
  case (Cons r rs)
  then obtain q qs' where qs: "qs = q # qs'" by (cases qs) (auto simp: unitRunes_def split: if_split_asm)
  with Cons.prems unitRunes_split [of r "concat (map unitRunes rs)" q "concat (map unitRunes qs')"]
  have "r = q" "concat (map unitRunes rs) = concat (map unitRunes qs')" by auto
  with Cons qs show ?case by simp
qed

section \<open>The clamp\<close>

definition unitsCount :: "rune list \<Rightarrow> nat" where
  "unitsCount rs = sum_list (map (\<lambda>r. runeCount (escapeRune r)) rs)"

lemma unitsCount_simps [simp]: "unitsCount [] = 0" "unitsCount (r # rs) = runeCount (escapeRune r) + unitsCount rs"
  by (simp_all add: unitsCount_def)

lemma runeCount_unit: "scalarRune r \<Longrightarrow> runeCount (escapeRune r) = length (unitRunes r)"
  by (simp add: runeCount_def escapeRune_units runes_encodeRunes unitRunes_scalar)

lemma units_scalar: "list_all scalarRune rs \<Longrightarrow> list_all scalarRune (concat (map unitRunes rs))"
  using unitRunes_scalar by (induction rs) auto

lemma runeCount_units: "list_all scalarRune rs \<Longrightarrow> runeCount (concat (map escapeRune rs)) = unitsCount rs"
proof -
  assume s: "list_all scalarRune rs"
  have "concat (map escapeRune rs) = encodeRunes (concat (map unitRunes rs))"
    by (simp add: escapeRune_units [abs_def] encodeRunes_concat comp_def)
  then have "runeCount (concat (map escapeRune rs)) = length (concat (map unitRunes rs))"
    using units_scalar [OF s] by (simp add: runeCount_def runes_encodeRunes)
  also have "\<dots> = unitsCount rs"
    using s by (induction rs) (simp_all add: runeCount_unit)
  finally show ?thesis .
qed

lemma clampLoop_stopped: "clampLoop limit rs b emitted seen True = (b, emitted, seen + unitsCount rs, True)"
  by (induction rs arbitrary: seen) (simp_all add: Let_def)

lemma clampLoop_spec:
  assumes "emitted \<le> limit"
  shows "\<exists>k. clampLoop limit rs b emitted seen False =
      (b @ concat (map escapeRune (take k rs)), emitted + unitsCount (take k rs), seen + unitsCount rs, k < length rs)
    \<and> k \<le> length rs \<and> emitted + unitsCount (take k rs) \<le> limit
    \<and> (k = length rs \<or> limit < emitted + unitsCount (take (Suc k) rs))"
  using assms
proof (induction rs arbitrary: b emitted seen)
  case (Cons r rs)
  show ?case
  proof (cases "limit < emitted + runeCount (escapeRune r)")
    case True
    with Cons.prems show ?thesis by (intro exI [of _ 0]) (simp add: Let_def clampLoop_stopped add.assoc)
  next
    case False
    then have "emitted + runeCount (escapeRune r) \<le> limit" by simp
    from Cons.IH [OF this, of "b @ escapeRune r" "seen + runeCount (escapeRune r)"] obtain k where
      k: "clampLoop limit rs (b @ escapeRune r) (emitted + runeCount (escapeRune r)) (seen + runeCount (escapeRune r)) False
        = ((b @ escapeRune r) @ concat (map escapeRune (take k rs)),
           emitted + runeCount (escapeRune r) + unitsCount (take k rs), seen + runeCount (escapeRune r) + unitsCount rs, k < length rs)"
      "k \<le> length rs" "emitted + runeCount (escapeRune r) + unitsCount (take k rs) \<le> limit"
      "k = length rs \<or> limit < emitted + runeCount (escapeRune r) + unitsCount (take (Suc k) rs)" by blast
    with False show ?thesis by (intro exI [of _ "Suc k"]) (auto simp: Let_def add.assoc)
  qed
qed simp

lemma runes_take_scalar: "list_all scalarRune (take k (runes s))"
  using runes_scalar [of s] by (auto simp: list_all_iff dest: in_set_takeD)

section \<open>Properties\<close>

text \<open>
  Claim C14. Escaping is reversible on text: two valid strings are displayed alike only when they are
  equal, and what is displayed holds no control character, so one value is one output line.
\<close>

theorem escape_reversible:
  assumes "validString s" "validString t"
  shows "(EscapeDisplayValue s = EscapeDisplayValue t \<longleftrightarrow> s = t)
    \<and> list_all (\<lambda>r. \<not> isControl r) (runes (EscapeDisplayValue s))"
proof -
  have u: "list_all scalarRune (concat (map unitRunes (runes s)))" for s
    by (rule units_scalar [OF runes_scalar])
  have "EscapeDisplayValue s = EscapeDisplayValue t \<longleftrightarrow> runes s = runes t"
    unfolding escape_runes encodeRunes_inject [OF u u] using units_inject [OF runes_scalar runes_scalar, of s t] by metis
  also have "\<dots> \<longleftrightarrow> s = t" using assms encodeRunes_runes by metis
  finally have "EscapeDisplayValue s = EscapeDisplayValue t \<longleftrightarrow> s = t" .
  moreover have "runes (EscapeDisplayValue s) = concat (map unitRunes (runes s))"
    unfolding escape_runes by (rule runes_encodeRunes [OF u])
  moreover have "list_all (\<lambda>r. \<not> isControl r) (concat (map unitRunes (runes s)))"
    using runes_scalar [of s] unitRunes_plain by (fastforce simp: list_all_iff)
  ultimately show ?thesis by simp
qed

theorem escape_reversible_witness:
  "EscapeDisplayValue [CHR ''a'', CHR 0x0A] \<noteq> EscapeDisplayValue [CHR ''a'', CHR 0x5C, CHR ''n'']"
proof -
  have "validString [CHR ''a'', CHR 0x0A]" "validString [CHR ''a'', CHR 0x5C, CHR ''n'']"
    by (simp_all add: byteOf_def)
  from escape_reversible [OF this] show ?thesis by simp
qed

text \<open>
  A clamped value shows whole display units only: all of them when they fit the limit, and
  otherwise the longest run of units that fits, with its rune count and that of the whole value.
\<close>

theorem clamp_whole_units:
  "\<exists>k. let shown = concat (map escapeRune (take k (runes s))) in
     k \<le> length (runes s) \<and> runeCount shown \<le> limit \<and>
     (k = length (runes s) \<and> ClampDisplayValue s limit = EscapeDisplayValue s
      \<or> k < length (runes s) \<and> limit < runeCount (concat (map escapeRune (take (Suc k) (runes s))))
        \<and> ClampDisplayValue s limit = shown @ '' [truncated: '' @ showNat (runeCount shown) @ '' of ''
            @ showNat (runeCount (EscapeDisplayValue s)) @ '']'')"
proof -
  obtain k where k: "clampLoop limit (runes s) [] 0 0 False =
      ([] @ concat (map escapeRune (take k (runes s))), 0 + unitsCount (take k (runes s)), 0 + unitsCount (runes s), k < length (runes s))"
    "k \<le> length (runes s)" "0 + unitsCount (take k (runes s)) \<le> limit"
    "k = length (runes s) \<or> limit < 0 + unitsCount (take (Suc k) (runes s))"
    using clampLoop_spec [of 0 limit "runes s" "[]" 0] by auto
  have c: "runeCount (concat (map escapeRune (take j (runes s)))) = unitsCount (take j (runes s))" for j
    by (rule runeCount_units [OF runes_take_scalar])
  have "runeCount (EscapeDisplayValue s) = unitsCount (runes s)"
    unfolding EscapeDisplayValue_def by (rule runeCount_units [OF runes_scalar])
  with k c show ?thesis
    by (intro exI [of _ k]) (auto simp: Let_def ClampDisplayValue_def EscapeDisplayValue_def)
qed

end
