(* ===== verification/TreeNodes.thy ===== *)
theory TreeNodes
  imports NodeIds ScalarRender
begin

text \<open>
  The object tree (\<^verbatim>\<open>internal/pdfcore/tree.go\<close>): its root, the children of a node, their labels and
  icons, and the node IDs the children are opened by.
\<close>

section \<open>Nodes\<close>

record treeNode =
  tnID :: string
  tnLabel :: string
  tnRawKey :: string
  tnNodeType :: string
  tnValueType :: string
  tnHasChildren :: bool
  tnChildCount :: int
  tnIconHint :: string
  tnError :: string
  tnObjectRef :: string
  tnTypeName :: string
  tnValue :: string
  tnValueRaw :: string

fun classifyObject :: "pdfObj \<Rightarrow> string \<times> string \<times> bool \<times> int" where
  "classifyObject (PDict d) = (''dict'', [], True, int (dictLen d))"
| "classifyObject (PStream sk d) = (''stream'', [], True, int (dictLen d))"
| "classifyObject (PArray xs) = (''array'', [], True, int (length xs))"
| "classifyObject (PRef n g) = (''ref'', ''reference'', True, -1)"
| "classifyObject (PName n) = (''scalar'', ''name'', False, 0)"
| "classifyObject (PString s) = (''scalar'', ''string'', False, 0)"
| "classifyObject (PHex s) = (''scalar'', ''string'', False, 0)"
| "classifyObject (PInt i) = (''scalar'', ''number'', False, 0)"
| "classifyObject (PReal r) = (''scalar'', ''number'', False, 0)"
| "classifyObject (PBool b) = (''scalar'', ''boolean'', False, 0)"
| "classifyObject PNull = (''scalar'', ''null'', False, 0)"

text \<open>A name entry of an object's dictionary, and what the labels look up in it.\<close>

definition nameEntry :: "pdfObj \<Rightarrow> string \<Rightarrow> string option" where
  "nameEntry v key = (case asDict v of None \<Rightarrow> None
     | Some d \<Rightarrow> (case dictFind d key of Some (PName n) \<Rightarrow> Some n | _ \<Rightarrow> None))"

definition fontLabel :: "pdfObj \<Rightarrow> string" where
  "fontLabel v = (case nameEntry v ''BaseFont'' of Some n \<Rightarrow> ''Font: '' @ n | None \<Rightarrow> ''Font'')"

definition boxKeys :: "string list" where
  "boxKeys = [''MediaBox'', ''CropBox'', ''BleedBox'', ''TrimBox'', ''ArtBox'']"

definition plainLabel :: "textLib \<Rightarrow> string \<Rightarrow> pdfObj \<Rightarrow> string" where
  "plainLabel lib bareKey v =
     (if bareKey \<noteq> [] then bareKey
      else if isContainer v then []
      else ClampDisplayValue (scalarText lib v) TreeValueCap)"

definition subtypeLabel :: "textLib \<Rightarrow> string \<Rightarrow> pdfObj \<Rightarrow> string" where
  "subtypeLabel lib bareKey v =
     (if nameEntry v ''Subtype'' = Some ''Image'' then ''Image''
      else if nameEntry v ''Subtype'' = Some ''Form'' then ''Form XObject''
      else plainLabel lib bareKey v)"

definition semanticLabel :: "textLib \<Rightarrow> string \<Rightarrow> pdfObj \<Rightarrow> string" where
  "semanticLabel lib bareKey v =
     (if bareKey \<in> set [''Pages'', ''Page'', ''Resources'', ''Contents'', ''XObject''] then bareKey
      else if bareKey \<in> set boxKeys then bareKey
      else if bareKey = ''Font'' then fontLabel v
      else (case nameEntry v ''Type'' of
              Some t \<Rightarrow>
                if t = ''Pages'' \<or> t = ''Page'' \<or> t = ''Catalog'' then t
                else if t = ''Font'' then fontLabel v
                else subtypeLabel lib bareKey v
            | None \<Rightarrow> subtypeLabel lib bareKey v))"

definition iconHint :: "string \<Rightarrow> string \<Rightarrow> pdfObj \<Rightarrow> string" where
  "iconHint bareKey nodeType v =
     (if bareKey = ''Pages'' then ''pages''
      else if bareKey = ''Page'' then ''page''
      else if bareKey = ''Font'' then ''font''
      else if bareKey = ''Contents'' then ''stream''
      else if nameEntry v ''Type'' = Some ''Pages'' then ''pages''
      else if nameEntry v ''Type'' = Some ''Page'' then ''page''
      else if nameEntry v ''Type'' = Some ''Font'' then ''font''
      else if nameEntry v ''Subtype'' = Some ''Image'' then ''image''
      else if nodeType = ''stream'' then ''stream''
      else ''default'')"

definition scalarNodeValue :: "textLib \<Rightarrow> pdfObj \<Rightarrow> bool \<Rightarrow> string \<times> string" where
  "scalarNodeValue lib v binary =
     (if binary \<and> isStringObject v then (binaryStringSummary lib v, [])
      else (scalarText lib v,
            if rawCounterpartNeeded lib v (scalarText lib v) then scalarRaw lib v else []))"

definition buildTreeNode :: "textLib \<Rightarrow> string \<Rightarrow> string \<Rightarrow> string \<Rightarrow> pdfObj \<Rightarrow> bool \<Rightarrow> treeNode" where
  "buildTreeNode lib nid rawKey bareKey v binary =
     (case classifyObject v of (nodeType, valueType, hasChildren, childCount) \<Rightarrow>
        let label = (if binary \<and> bareKey = [] \<and> isStringObject v then binaryStringSummary lib v
                     else semanticLabel lib bareKey v);
            val = (if nodeType = ''scalar'' then scalarNodeValue lib v binary else ([], [])) in
        \<lparr> tnID = nid, tnLabel = (if label = [] then rawKey else label), tnRawKey = rawKey, tnNodeType = nodeType,
          tnValueType = valueType, tnHasChildren = hasChildren, tnChildCount = childCount,
          tnIconHint = iconHint bareKey nodeType v, tnError = [], tnObjectRef = [], tnTypeName = [],
          tnValue = fst val, tnValueRaw = snd val \<rparr>)"

definition makeErrorNode :: "string \<Rightarrow> string \<Rightarrow> string \<Rightarrow> treeNode" where
  "makeErrorNode nid rawKey err =
     \<lparr> tnID = nid, tnLabel = ''Error: '' @ err, tnRawKey = rawKey, tnNodeType = ''scalar'', tnValueType = [],
       tnHasChildren = False, tnChildCount = 0, tnIconHint = ''default'', tnError = err, tnObjectRef = [],
       tnTypeName = [], tnValue = [], tnValueRaw = [] \<rparr>"

section \<open>Children\<close>

text \<open>\<^verbatim>\<open>resolveRefInfo\<close>: the target of a reference, null when it cannot be read, and how the row shows it.\<close>

definition resolveRefInfo ::
  "textLib \<Rightarrow> pdfDoc \<Rightarrow> int \<Rightarrow> int \<Rightarrow> string \<Rightarrow> pdfObj \<times> string \<times> string \<times> string \<times> bool \<times> int" where
  "resolveRefInfo lib doc n g bareKey =
     (case lookupRef doc n g of
        DObj v \<Rightarrow>
          if v = PNull then (PNull, [], ''ref'', ''reference'', True, -1)
          else (case classifyObject v of (nodeType, valueType, hasChildren, childCount) \<Rightarrow>
                 (v, semanticLabel lib bareKey v, nodeType, valueType, hasChildren, childCount))
      | _ \<Rightarrow> (PNull, [], ''ref'', ''reference'', True, -1))"

definition refNode :: "textLib \<Rightarrow> pdfDoc \<Rightarrow> int \<Rightarrow> int \<Rightarrow> string \<Rightarrow> string \<Rightarrow> (pdfObj \<Rightarrow> string) \<Rightarrow> treeNode" where
  "refNode lib doc n g bareKey rawKey fallback =
     (case resolveRefInfo lib doc n g bareKey of (v, label, nodeType, valueType, hasChildren, childCount) \<Rightarrow>
        \<lparr> tnID = nodeIDForRef n g, tnLabel = (if label = [] then fallback v else label), tnRawKey = rawKey,
          tnNodeType = nodeType, tnValueType = valueType, tnHasChildren = hasChildren, tnChildCount = childCount,
          tnIconHint = iconHint bareKey nodeType v, tnError = [], tnObjectRef = refString n g,
          tnTypeName = extractTypeName v, tnValue = [], tnValueRaw = [] \<rparr>)"

fun buildChildFromDictEntry ::
  "textLib \<Rightarrow> pdfDoc \<Rightarrow> string \<Rightarrow> string \<Rightarrow> pdfObj \<Rightarrow> pdfDict \<Rightarrow> treeNode" where
  "buildChildFromDictEntry lib doc parentID bareKey (PRef n g) parent =
     refNode lib doc n g bareKey (''/'' @ bareKey) (semanticLabel lib bareKey)"
| "buildChildFromDictEntry lib doc parentID bareKey v parent =
     (buildTreeNode lib (''dict:'' @ parentID @ '':'' @ bareKey) (''/'' @ bareKey) bareKey v
        (binaryStringKey (Some parent) bareKey)) \<lparr> tnTypeName := extractTypeName v \<rparr>"

text \<open>
  The library is only called inside \<^verbatim>\<open>resolveRefInfo\<close>, under its own recovery, so the recovery around a
  child never fires.
\<close>

definition buildDictChildren :: "textLib \<Rightarrow> pdfDoc \<Rightarrow> string \<Rightarrow> pdfDict \<Rightarrow> treeNode list" where
  "buildDictChildren lib doc parentID d =
     map (\<lambda>k. buildChildFromDictEntry lib doc parentID k (dictGet d k) d) (dictKeys d)"

definition indexKey :: "nat \<Rightarrow> string" where
  "indexKey i = ''['' @ showNat i @ '']''"

fun buildChildFromElement :: "textLib \<Rightarrow> pdfDoc \<Rightarrow> string \<Rightarrow> bool \<Rightarrow> nat \<Rightarrow> pdfObj \<Rightarrow> treeNode" where
  "buildChildFromElement lib doc parentID binary i (PRef n g) =
     refNode lib doc n g [] (indexKey i) (\<lambda>v. indexKey i)"
| "buildChildFromElement lib doc parentID binary i v =
     (buildTreeNode lib (''arr:'' @ parentID @ '':'' @ showNat i) (indexKey i) [] v binary) \<lparr> tnTypeName := extractTypeName v \<rparr>"

definition buildArrayChildren :: "textLib \<Rightarrow> pdfDoc \<Rightarrow> string \<Rightarrow> pdfObj list \<Rightarrow> bool \<Rightarrow> treeNode list" where
  "buildArrayChildren lib doc parentID xs binary =
     map (\<lambda>(i, v). buildChildFromElement lib doc parentID binary i v) (enumerate 0 xs)"

text \<open>
  \<^verbatim>\<open>inheritsBinaryCarveOut\<close>: whether the strings of a node are binary by the dictionary key they hang from.
\<close>

function inheritsBinaryCarveOut :: "pdfDoc \<Rightarrow> string \<Rightarrow> bool" where
  "inheritsBinaryCarveOut doc nodeID =
     (case parseNodeID nodeID of (kind, parentID, lastPart) \<Rightarrow>
        if kind = ''arr'' then inheritsBinaryCarveOut doc parentID
        else if kind \<noteq> ''dict'' then False
        else if lastPart = ''CheckSum'' then True
        else if lastPart \<noteq> ''Contents'' \<and> lastPart \<noteq> ''Cert'' then False
        else (case resolveNodeObject doc parentID of
                NodeObj parent \<Rightarrow> isSignatureDict (asDict parent)
              | _ \<Rightarrow> False))"
  by pat_completeness auto
termination inheritsBinaryCarveOut
  by (relation "measure (\<lambda>(_, nodeID). length nodeID)") (auto dest!: parse_parent_shorter [OF sym])

declare inheritsBinaryCarveOut.simps [simp del]

definition maxRefDepth :: nat where "maxRefDepth = 32"

function buildChildrenDepth :: "textLib \<Rightarrow> pdfDoc \<Rightarrow> string \<Rightarrow> pdfObj \<Rightarrow> nat \<Rightarrow> treeNode list" where
  "buildChildrenDepth lib doc parentID v depth =
     (case v of
        PDict d \<Rightarrow> buildDictChildren lib doc parentID d
      | PStream sk d \<Rightarrow> buildDictChildren lib doc parentID d
      | PArray xs \<Rightarrow> buildArrayChildren lib doc parentID xs (inheritsBinaryCarveOut doc parentID)
      | PRef n g \<Rightarrow>
          if maxRefDepth \<le> depth then
            [makeErrorNode (''error:'' @ parentID @ '':depth'') []
               (''circular reference detected (depth '' @ showNat depth @ '')'')]
          else (case lookupRef doc n g of
                  DErr e \<Rightarrow> [makeErrorNode (''error:'' @ parentID @ '':deref'') [] e]
                | DPanic p \<Rightarrow> [makeErrorNode (''error:'' @ parentID @ '':deref'') [] (''pdf parsing panic: '' @ p)]
                | DObj w \<Rightarrow>
                    if w = PNull then
                      [makeErrorNode (''error:'' @ parentID @ '':null'') []
                         (''dangling indirect reference obj:'' @ showInt n @ '':'' @ showInt g)]
                    else buildChildrenDepth lib doc parentID w (depth + 1))
      | _ \<Rightarrow> [])"
  by pat_completeness auto
termination buildChildrenDepth
  by (relation "measure (\<lambda>(_, _, _, _, depth). maxRefDepth - depth)") auto

declare buildChildrenDepth.simps [simp del]

definition buildChildren :: "textLib \<Rightarrow> pdfDoc \<Rightarrow> string \<Rightarrow> pdfObj \<Rightarrow> treeNode list" where
  "buildChildren lib doc parentID v = buildChildrenDepth lib doc parentID v 0"

section \<open>The calls\<close>

text \<open>A failed call keeps what it failed with; the texts the wrapping adds are left out.\<close>

definition GetChildren :: "textLib \<Rightarrow> pdfDoc \<Rightarrow> string \<Rightarrow> nodeAnswer + treeNode list" where
  "GetChildren lib doc nodeID =
     (case resolveNodeObject doc nodeID of
        NodeObj v \<Rightarrow> Inr (buildChildren lib doc nodeID v)
      | err \<Rightarrow> Inl err)"

definition GetTreeRoot :: "pdfDoc \<Rightarrow> derefAnswer + treeNode" where
  "GetTreeRoot doc =
     (case docCatalog doc of
        DObj (PDict d) \<Rightarrow>
          Inr \<lparr> tnID = ''root'', tnLabel = ''Catalog'', tnRawKey = [], tnNodeType = ''dict'', tnValueType = [],
                tnHasChildren = (0 < dictLen d), tnChildCount = int (dictLen d), tnIconHint = ''catalog'', tnError = [],
                tnObjectRef = (case catalogIndirectRef doc of Some (n, g) \<Rightarrow> refString n g | None \<Rightarrow> []),
                tnTypeName = extractTypeName (PDict d), tnValue = [], tnValueRaw = [] \<rparr>
      | DObj _ \<Rightarrow> Inl (DErr ''catalog dictionary is nil'')
      | err \<Rightarrow> Inl err)"

section \<open>Children and their IDs\<close>

text \<open>The entries of an object in the order its children are listed.\<close>

fun childValues :: "pdfObj \<Rightarrow> pdfObj list" where
  "childValues (PDict d) = map (dictGet d) (dictKeys d)"
| "childValues (PStream sk d) = map (dictGet d) (dictKeys d)"
| "childValues (PArray xs) = xs"
| "childValues _ = []"

text \<open>
  The objects whose entries a node ID can name: no key holds a colon, and references and indexes are
  64-bit integers.
\<close>

definition childKeys :: "pdfObj \<Rightarrow> string list" where
  "childKeys v = (case asDict v of Some d \<Rightarrow> dictKeys d | None \<Rightarrow> [])"

fun refInRange :: "pdfObj \<Rightarrow> bool" where
  "refInRange (PRef n g) \<longleftrightarrow> inInt64 n \<and> inInt64 g"
| "refInRange _ \<longleftrightarrow> True"

definition addressable :: "pdfObj \<Rightarrow> bool" where
  "addressable v \<longleftrightarrow> list_all (list_all notColon) (childKeys v) \<and> list_all refInRange (childValues v)
     \<and> int (length (childValues v)) \<le> maxInt64"

lemma tnID_simps [simp]:
  "tnID (buildTreeNode lib nid rawKey bareKey v binary) = nid"
  "tnID (refNode lib doc n g bareKey rawKey fallback) = nodeIDForRef n g"
  by (simp_all add: buildTreeNode_def refNode_def Let_def split: prod.split)

lemma dict_child_ID:
  "tnID (buildChildFromDictEntry lib doc p k v d) =
    (case v of PRef n g \<Rightarrow> nodeIDForRef n g | _ \<Rightarrow> ''dict:'' @ p @ '':'' @ k)"
  by (cases v) simp_all

lemma array_child_ID:
  "tnID (buildChildFromElement lib doc p b i v) =
    (case v of PRef n g \<Rightarrow> nodeIDForRef n g | _ \<Rightarrow> ''arr:'' @ p @ '':'' @ showNat i)"
  by (cases v) simp_all

lemma showNat_showInt: "showNat i = showInt (int i)"
  by (simp add: showInt_def)

lemma showNat_noColon: "list_all notColon (showNat i)"
  unfolding showNat_showInt by (rule showInt_noColon)

lemma ref_child_resolves:
  "refInRange (PRef n g) \<Longrightarrow> resolveNodeObject doc (nodeIDForRef n g) = entryObject doc (PRef n g)"
  by (simp add: resolve_ref entryObject_def)

lemma dict_child_resolves:
  assumes "resolveNodeObjectDepth doc p 1 = NodeObj v" "asDict v = Some d" "k \<in> set (dictKeys d)"
    "list_all notColon k" "refInRange (dictGet d k)"
  shows "resolveNodeObject doc (tnID (buildChildFromDictEntry lib doc p k (dictGet d k) d)) = entryObject doc (dictGet d k)"
proof -
  from assms(3) obtain w where w: "dictFind d k = Some w" using dictKeys_find by blast
  have "resolveNodeObject doc (''dict:'' @ p @ '':'' @ k) = entryObject doc (dictGet d k)"
    using resolve_dict_child [OF assms(4,1)] assms(2) w dictGet_find [OF w] by (simp add: resolveDictEntry_def)
  then show ?thesis using assms(5) ref_child_resolves unfolding dict_child_ID by (cases "dictGet d k") auto
qed

lemma array_child_resolves:
  assumes "resolveNodeObjectDepth doc p 1 = NodeObj (PArray xs)" "i < length xs" "int (length xs) \<le> maxInt64"
    "refInRange (xs ! i)"
  shows "resolveNodeObject doc (tnID (buildChildFromElement lib doc p b i (xs ! i))) = entryObject doc (xs ! i)"
proof -
  have "inInt64 (int i)" using assms(2,3) by (simp add: inInt64_def minInt64_def)
  then have "atoi (showNat i) = Some (int i)" by (simp add: showNat_showInt atoi_showInt)
  then have "resolveNodeObject doc (''arr:'' @ p @ '':'' @ showNat i) = entryObject doc (xs ! i)"
    using resolve_array_child [OF showNat_noColon assms(1)] assms(2) by (simp add: resolveArrayEntry_def)
  then show ?thesis using assms(4) ref_child_resolves unfolding array_child_ID by (cases "xs ! i") auto
qed

lemma dict_children_resolve:
  assumes "resolveNodeObjectDepth doc p 1 = NodeObj v" "asDict v = Some d"
    "list_all (list_all notColon) (dictKeys d)" "list_all refInRange (map (dictGet d) (dictKeys d))"
  shows "list_all2 (\<lambda>c w. resolveNodeObject doc (tnID c) = entryObject doc w)
    (buildDictChildren lib doc p d) (map (dictGet d) (dictKeys d))"
  unfolding buildDictChildren_def list.rel_map list_all2_same
  by (intro ballI dict_child_resolves [OF assms(1,2)]) (use assms(3,4) in \<open>auto simp: list_all_iff\<close>)

section \<open>Properties\<close>

text \<open>
  Claim C15. Every row of the tree opens what it shows: the node ID of a child resolves to the entry the
  child was built from, dereferenced when it is a reference, for every object whose keys hold no colon and whose
  own node ID resolves with one level to spare: a row below 64 nested IDs is out of the resolver's reach.
\<close>

theorem child_ids_resolve:
  assumes "resolveNodeObjectDepth doc p 1 = NodeObj v" "\<not> isRef v" "addressable v"
  shows "list_all2 (\<lambda>c w. resolveNodeObject doc (tnID c) = entryObject doc w)
    (buildChildren lib doc p v) (childValues v)"
proof (cases v)
  case (PArray xs)
  have "list_all2 (\<lambda>c w. resolveNodeObject doc (tnID c) = entryObject doc w) (buildArrayChildren lib doc p xs b) xs" for b
    using assms PArray
    by (auto simp: buildArrayChildren_def list_all2_conv_all_nth nth_enumerate_eq addressable_def list_all_length
        intro!: array_child_resolves)
  with PArray show ?thesis by (simp add: buildChildren_def buildChildrenDepth.simps)
next
  case (PDict d)
  with assms dict_children_resolve [OF assms(1), of d lib] show ?thesis
    by (simp add: buildChildren_def buildChildrenDepth.simps addressable_def childKeys_def)
next
  case (PStream sk d)
  with assms dict_children_resolve [OF assms(1), of d lib] show ?thesis
    by (simp add: buildChildren_def buildChildrenDepth.simps addressable_def childKeys_def)
qed (use assms(2) in \<open>simp_all add: buildChildren_def buildChildrenDepth.simps\<close>)

definition colonDoc :: pdfDoc where
  "colonDoc = \<lparr> xrefNums = [], xrefLookup = (\<lambda>n g. DObj PNull), docRoot = None,
     docCatalog = DObj (PDict [(''A:B'', PDict [(''X'', PInt 1)]), (''B'', PDict [(''Y'', PInt 2)])]) \<rparr>"

definition plainLib :: textLib where
  "plainLib = \<lparr> libText = (\<lambda>v. None), libUnescape = (\<lambda>s. None), libHexBytes = (\<lambda>s. None), libFloat = (\<lambda>r. ''0'') \<rparr>"

theorem child_ids_resolve_witness:
  "list_all2 (\<lambda>c w. resolveNodeObject colonDoc (tnID c) = entryObject colonDoc w)
    (buildChildren plainLib colonDoc ''dict:root:B'' (PDict [(''Y'', PInt 2)])) [PInt 2]"
proof -
  have "resolveNodeObjectDepth colonDoc ''dict:root:B'' 1 = NodeObj (PDict [(''Y'', PInt 2)])" by code_simp
  moreover have "addressable (PDict [(''Y'', PInt 2)])" by code_simp
  moreover have "childValues (PDict [(''Y'', PInt 2)]) = [PInt 2]" by code_simp
  ultimately show ?thesis using child_ids_resolve [of colonDoc "''dict:root:B''" "PDict [(''Y'', PInt 2)]" plainLib] by simp
qed

text \<open>
  A dictionary key with a colon breaks this: the row of \<open>/A:B\<close> under the catalog carries a node
  ID that opens \<open>/B\<close> instead.
\<close>

theorem colon_key_opens_other:
  "map tnID (buildChildren plainLib colonDoc ''root'' (PDict [(''A:B'', PDict [(''X'', PInt 1)]), (''B'', PDict [(''Y'', PInt 2)])]))
     = [''dict:root:A:B'', ''dict:root:B''] \<and>
   resolveNodeObject colonDoc ''dict:root:A:B'' = NodeObj (PDict [(''Y'', PInt 2)])"
  by (rule conjI; code_simp)

end
