(* ===== verification/ObjectDetail.thy ===== *)
theory ObjectDetail
  imports TreeNodes
begin

text \<open>
  The detail view of an object: \<^verbatim>\<open>GetObjectDetail\<close> of \<^verbatim>\<open>internal/pdfcore/inspector.go\<close> and the entries it
  is made of.
\<close>

section \<open>Entries\<close>

record valueEntry =
  veType :: string
  veDisplay :: string
  veRaw :: string
  veRefTarget :: string

fun valueEntryType :: "pdfObj \<Rightarrow> string" where
  "valueEntryType (PName n) = ''name''"
| "valueEntryType (PString s) = ''string''"
| "valueEntryType (PHex s) = ''string''"
| "valueEntryType (PInt i) = ''number''"
| "valueEntryType (PReal r) = ''number''"
| "valueEntryType (PBool b) = ''boolean''"
| "valueEntryType PNull = ''null''"
| "valueEntryType _ = ''unknown''"

definition scalarEntry :: "textLib \<Rightarrow> pdfObj \<Rightarrow> bool \<Rightarrow> valueEntry" where
  "scalarEntry lib v binary =
     \<lparr> veType = valueEntryType v,
       veDisplay = (if binary \<and> isStringObject v then binaryStringSummary lib v else scalarText lib v),
       veRaw = scalarRaw lib v, veRefTarget = [] \<rparr>"

fun valueEntryFromObject :: "textLib \<Rightarrow> pdfObj \<Rightarrow> bool \<Rightarrow> valueEntry" where
  "valueEntryFromObject lib (PRef n g) binary =
     \<lparr> veType = ''reference'', veDisplay = refString n g, veRaw = refString n g, veRefTarget = nodeIDForRef n g \<rparr>"
| "valueEntryFromObject lib (PDict d) binary =
     \<lparr> veType = ''dict'', veDisplay = ''<< ... >>'', veRaw = ''<< ... >>'', veRefTarget = [] \<rparr>"
| "valueEntryFromObject lib (PArray xs) binary =
     \<lparr> veType = ''array'', veDisplay = ''[...]'', veRaw = ''[...]'', veRefTarget = [] \<rparr>"
| "valueEntryFromObject lib v binary = scalarEntry lib v binary"

text \<open>The entries are sorted by their keys, all of which begin with a slash: the order of the keys.\<close>

definition buildPropertyEntries :: "textLib \<Rightarrow> pdfDict \<Rightarrow> (string \<times> valueEntry) list" where
  "buildPropertyEntries lib d =
     map (\<lambda>k. (''/'' @ k, valueEntryFromObject lib (dictGet d k) (binaryStringKey (Some d) k))) (dictKeys d)"

definition buildArrayEntries :: "textLib \<Rightarrow> pdfObj list \<Rightarrow> bool \<Rightarrow> valueEntry list" where
  "buildArrayEntries lib xs binary = map (\<lambda>v. valueEntryFromObject lib v binary) xs"

section \<open>Streams\<close>

text \<open>What the library recorded about a stream when it read it: its length, if any, and its filters.\<close>

type_synonym streamFacts = "pdfObj \<Rightarrow> int option \<times> string list"

definition extractStreamInfo :: "streamFacts \<Rightarrow> pdfDoc \<Rightarrow> pdfObj \<Rightarrow> pdfDict \<Rightarrow> int \<times> string list" where
  "extractStreamInfo facts doc v d =
     (case facts v of (len, filters) \<Rightarrow>
        ((case len of
            Some n \<Rightarrow> n
          | None \<Rightarrow>
              (case dictFind d ''Length'' of
                 Some (PInt n) \<Rightarrow> n
               | Some (PRef n g) \<Rightarrow> (case safeDeref doc (PRef n g) of PInt m \<Rightarrow> m | _ \<Rightarrow> 0)
               | _ \<Rightarrow> 0)),
         filters))"

section \<open>The call\<close>

record objectDetail =
  odNodeID :: string
  odObjectRef :: string
  odType :: string
  odProperties :: "(string \<times> valueEntry) list"
  odElements :: "valueEntry list"
  odScalar :: "valueEntry option"
  odStream :: "(int \<times> string list) option"

definition emptyDetail :: "string \<Rightarrow> string \<Rightarrow> objectDetail" where
  "emptyDetail nodeID ref = \<lparr> odNodeID = nodeID, odObjectRef = ref, odType = [], odProperties = [], odElements = [],
     odScalar = None, odStream = None \<rparr>"

definition detailOf :: "textLib \<Rightarrow> streamFacts \<Rightarrow> pdfDoc \<Rightarrow> string \<Rightarrow> pdfObj \<Rightarrow> objectDetail" where
  "detailOf lib facts doc nodeID v =
     (let detail = emptyDetail nodeID (objectRefFromNodeID nodeID) in
      case v of
        PNull \<Rightarrow> detail \<lparr> odType := ''scalar'',
            odScalar := Some \<lparr> veType = ''null'', veDisplay = ''null'', veRaw = ''null'', veRefTarget = [] \<rparr> \<rparr>
      | PStream sk d \<Rightarrow> detail \<lparr> odType := ''stream'', odProperties := buildPropertyEntries lib d,
            odStream := Some (extractStreamInfo facts doc v d) \<rparr>
      | PDict d \<Rightarrow> detail \<lparr> odType := ''dict'', odProperties := buildPropertyEntries lib d \<rparr>
      | PArray xs \<Rightarrow> detail \<lparr> odType := ''array'',
            odElements := buildArrayEntries lib xs (inheritsBinaryCarveOut doc nodeID) \<rparr>
      | _ \<Rightarrow> detail \<lparr> odType := ''scalar'',
            odScalar := Some (valueEntryFromObject lib v (inheritsBinaryCarveOut doc nodeID)) \<rparr>)"

datatype detailAnswer = Detail objectDetail | NoNodeID | DetailErr nodeAnswer

definition GetObjectDetail :: "textLib \<Rightarrow> streamFacts \<Rightarrow> pdfDoc \<Rightarrow> string \<Rightarrow> detailAnswer" where
  "GetObjectDetail lib facts doc nodeID =
     (if nodeID = [] then NoNodeID
      else if hasPrefix nodeID ''error:'' then
        Detail ((emptyDetail nodeID []) \<lparr> odType := ''scalar'',
          odScalar := Some \<lparr> veType = ''string'', veDisplay = ''Parse error on this object'', veRaw = nodeID, veRefTarget = [] \<rparr> \<rparr>)
      else (case resolveNodeObject doc nodeID of
              NodeObj v \<Rightarrow> Detail (detailOf lib facts doc nodeID v)
            | err \<Rightarrow> DetailErr err))"

section \<open>The two views of a scalar\<close>

fun isScalar :: "pdfObj \<Rightarrow> bool" where
  "isScalar (PDict d) \<longleftrightarrow> False"
| "isScalar (PArray xs) \<longleftrightarrow> False"
| "isScalar (PStream sk d) \<longleftrightarrow> False"
| "isScalar (PRef n g) \<longleftrightarrow> False"
| "isScalar _ \<longleftrightarrow> True"

lemma tree_value:
  "isScalar v \<Longrightarrow> tnValue (buildTreeNode lib nid rawKey bareKey v binary)
    = (if binary \<and> isStringObject v then binaryStringSummary lib v else scalarText lib v)"
  by (cases v) (simp_all add: buildTreeNode_def scalarNodeValue_def Let_def)

lemma detail_value:
  "isScalar v \<Longrightarrow> \<exists>e. odScalar (detailOf lib facts doc nodeID v) = Some e
    \<and> veDisplay e = (if inheritsBinaryCarveOut doc nodeID \<and> isStringObject v then binaryStringSummary lib v else scalarText lib v)"
  by (cases v) (simp_all add: detailOf_def emptyDetail_def scalarEntry_def Let_def scalarText_def)

text \<open>An ID that resolves below a number of levels resolves the same way above it.\<close>

lemma resolve_shallower:
  "resolveNodeObjectDepth doc nodeID (Suc depth) = NodeObj v \<Longrightarrow> resolveNodeObjectDepth doc nodeID depth = NodeObj v"
proof (induction "length nodeID" arbitrary: nodeID depth v rule: less_induct)
  case less
  obtain kind parent key where p: "parseNodeID nodeID = (kind, parent, key)" by (metis prod_cases3)
  show ?case
  proof (cases "kind = ''dict'' \<or> kind = ''arr''")
    case True
    let ?step = "\<lambda>q. if kind = ''dict'' then resolveDictEntry doc parent q key else resolveArrayEntry doc parent q key"
    have eq: "resolveNodeObjectDepth doc nodeID e = (if maxNodeIDDepth < e then NodeErr NestingTooDeep
      else (case resolveNodeObjectDepth doc parent (e + 1) of NodeObj q \<Rightarrow> ?step q | r \<Rightarrow> r))" for e
      using True by (subst resolveNodeObjectDepth.simps, cases "resolveNodeObjectDepth doc parent (Suc e)"; elim disjE; simp add: p)
    have d: "\<not> maxNodeIDDepth < Suc depth"
      using less.prems unfolding eq [of "Suc depth"] by (simp split: if_split_asm)
    then obtain w where w: "resolveNodeObjectDepth doc parent (Suc (Suc depth)) = NodeObj w" "?step w = NodeObj v"
      using less.prems unfolding eq [of "Suc depth"] by (cases "resolveNodeObjectDepth doc parent (Suc (Suc depth))") simp_all
    have "resolveNodeObjectDepth doc parent (Suc depth) = NodeObj w"
      by (rule less.hyps [OF parse_parent_shorter [OF p True] w(1)])
    with d w(2) show ?thesis unfolding eq [of depth] by simp
  next
    case False
    then have eq: "resolveNodeObjectDepth doc nodeID e = (if maxNodeIDDepth < e then NodeErr NestingTooDeep
      else if kind = ''root'' then resolveRoot doc
      else if kind = ''obj'' then resolveObj doc parent key else NodeErr (UnknownKind kind))" for e
      by (subst resolveNodeObjectDepth.simps) (simp add: p)
    from less.prems show ?thesis unfolding eq by (simp split: if_split_asm)
  qed
qed

lemma carveOut_dict_child:
  assumes "resolveNodeObject doc p = NodeObj v" "list_all notColon k"
  shows "inheritsBinaryCarveOut doc (''dict:'' @ p @ '':'' @ k) = binaryStringKey (asDict v) k"
  using parse_child [OF assms(2), of "''dict''" p] assms(1)
  by (simp add: inheritsBinaryCarveOut.simps [of _ "_ # _"] binaryStringKey_def)

lemma carveOut_array_child:
  "inheritsBinaryCarveOut doc (''arr:'' @ p @ '':'' @ showNat i) = inheritsBinaryCarveOut doc p"
  using parse_child [OF showNat_noColon, of "''arr''" p]
  by (simp add: inheritsBinaryCarveOut.simps [of _ "_ # _"])

text \<open>What opening a row shows is what the row showed.\<close>

definition sameValue :: "textLib \<Rightarrow> streamFacts \<Rightarrow> pdfDoc \<Rightarrow> treeNode \<Rightarrow> pdfObj \<Rightarrow> bool" where
  "sameValue lib facts doc c w \<longleftrightarrow> \<not> isScalar w \<or>
     (case GetObjectDetail lib facts doc (tnID c) of
        Detail od \<Rightarrow> odType od = ''scalar'' \<and> map_option veDisplay (odScalar od) = Some (tnValue c)
      | _ \<Rightarrow> False)"

lemma opened_child:
  assumes "tnID c = nid" "nid = ''dict:'' @ s \<or> nid = ''arr:'' @ s" "resolveNodeObject doc nid = NodeObj w" "isScalar w"
    "tnValue c = (if inheritsBinaryCarveOut doc nid \<and> isStringObject w then binaryStringSummary lib w else scalarText lib w)"
  shows "sameValue lib facts doc c w"
proof -
  have "GetObjectDetail lib facts doc nid = Detail (detailOf lib facts doc nid w)"
    using assms(2,3) by (auto simp: GetObjectDetail_def hasPrefix_def)
  moreover have "odType (detailOf lib facts doc nid w) = ''scalar''"
    using assms(4) by (cases w) (simp_all add: detailOf_def Let_def)
  ultimately show ?thesis using detail_value [OF assms(4), of lib facts doc nid] assms(1,5)
    by (auto simp: sameValue_def)
qed

section \<open>Properties\<close>

text \<open>
  The tree and the detail view agree on every scalar: opening the row of a scalar entry shows
  the value the row carries, the carve-out of binary strings included.
\<close>

theorem detail_shows_tree_value:
  assumes "resolveNodeObjectDepth doc p 1 = NodeObj v" "\<not> isRef v" "addressable v"
  shows "list_all2 (sameValue lib facts doc) (buildChildren lib doc p v) (childValues v)"
proof -
  have p0: "resolveNodeObject doc p = NodeObj v"
    unfolding resolveNodeObject_def by (rule resolve_shallower) (use assms(1) in simp)
  have dict: "list_all2 (sameValue lib facts doc) (buildDictChildren lib doc p d) (map (dictGet d) (dictKeys d))"
    if d: "asDict v = Some d" "list_all (list_all notColon) (dictKeys d)" "list_all refInRange (map (dictGet d) (dictKeys d))" for d
    unfolding buildDictChildren_def list.rel_map list_all2_same
  proof
    fix k
    assume k: "k \<in> set (dictKeys d)"
    let ?w = "dictGet d k" and ?c = "buildChildFromDictEntry lib doc p k (dictGet d k) d"
    have nk: "list_all notColon k" "refInRange ?w" using d(2,3) k by (auto simp: list_all_iff)
    show "sameValue lib facts doc ?c ?w"
    proof (cases "isScalar ?w")
      case True
      then have nid: "tnID ?c = ''dict:'' @ p @ '':'' @ k" unfolding dict_child_ID by (cases ?w) auto
      have "resolveNodeObject doc (tnID ?c) = entryObject doc ?w"
        by (rule dict_child_resolves [OF assms(1) d(1) k nk])
      with True nid have "resolveNodeObject doc (''dict:'' @ p @ '':'' @ k) = NodeObj ?w" by (cases ?w) (auto simp: entryObject_def)
      moreover have "tnValue ?c = (if binaryStringKey (Some d) k \<and> isStringObject ?w then binaryStringSummary lib ?w else scalarText lib ?w)"
        using True tree_value [OF True] by (cases ?w) simp_all
      ultimately show ?thesis using True nid carveOut_dict_child [OF p0 nk(1)] d(1)
        by (intro opened_child [of _ "''dict:'' @ p @ '':'' @ k" "p @ '':'' @ k"]) auto
    qed (simp add: sameValue_def)
  qed
  show ?thesis
  proof (cases v)
    case (PArray xs)
    have "sameValue lib facts doc (buildChildFromElement lib doc p (inheritsBinaryCarveOut doc p) i (xs ! i)) (xs ! i)"
      if i: "i < length xs" for i
    proof (cases "isScalar (xs ! i)")
      case True
      let ?b = "inheritsBinaryCarveOut doc p"
      let ?c = "buildChildFromElement lib doc p ?b i (xs ! i)"
      have nid: "tnID ?c = ''arr:'' @ p @ '':'' @ showNat i" using True unfolding array_child_ID by (cases "xs ! i") auto
      have "int (length xs) \<le> maxInt64" "refInRange (xs ! i)"
        using assms(3) PArray i by (auto simp: addressable_def list_all_length)
      from array_child_resolves [OF assms(1)[unfolded PArray] i this, of lib ?b]
      have "resolveNodeObject doc (''arr:'' @ p @ '':'' @ showNat i) = NodeObj (xs ! i)"
        using True nid by (cases "xs ! i") (auto simp: entryObject_def)
      moreover have "tnValue ?c = (if ?b \<and> isStringObject (xs ! i) then binaryStringSummary lib (xs ! i) else scalarText lib (xs ! i))"
        using True tree_value [OF True] by (cases "xs ! i") simp_all
      ultimately show ?thesis using True nid carveOut_array_child [of doc p i]
        by (intro opened_child [of _ "''arr:'' @ p @ '':'' @ showNat i" "p @ '':'' @ showNat i"]) auto
    qed (simp add: sameValue_def)
    then have "list_all2 (sameValue lib facts doc) (buildArrayChildren lib doc p xs (inheritsBinaryCarveOut doc p)) xs"
      by (auto simp: buildArrayChildren_def list_all2_conv_all_nth nth_enumerate_eq)
    with PArray show ?thesis by (simp add: buildChildren_def buildChildrenDepth.simps)
  next
    case (PDict d)
    with assms dict [of d] show ?thesis
      by (simp add: buildChildren_def buildChildrenDepth.simps addressable_def childKeys_def)
  next
    case (PStream sk d)
    with assms dict [of d] show ?thesis
      by (simp add: buildChildren_def buildChildrenDepth.simps addressable_def childKeys_def)
  qed (use assms(2) in \<open>simp_all add: buildChildren_def buildChildrenDepth.simps\<close>)
qed

theorem detail_shows_tree_value_witness:
  "list_all2 (sameValue plainLib (\<lambda>v. (None, [])) colonDoc)
    (buildChildren plainLib colonDoc ''dict:root:B'' (PDict [(''Y'', PInt 2)])) (childValues (PDict [(''Y'', PInt 2)]))"
proof -
  have "resolveNodeObjectDepth colonDoc ''dict:root:B'' 1 = NodeObj (PDict [(''Y'', PInt 2)])" by code_simp
  moreover have "addressable (PDict [(''Y'', PInt 2)])" by code_simp
  ultimately show ?thesis by (intro detail_shows_tree_value) simp_all
qed

end
