(* ===== verification/Resolve.thy ===== *)
theory Resolve
  imports TreeNodes
begin

text \<open>
  Inline resolution of references (\<^verbatim>\<open>internal/pdfcore/resolve.go\<close>): the tree \<^verbatim>\<open>ResolveRef\<close> unfolds below an
  object, bounded by a depth and cut at cycles. The code's visited set is scoped to the current path: a
  key is set before a target is entered and removed when it has been left, and a key that is already set
  is never entered. So the set a call sees is the set of its ancestors, and it is passed as an argument.
\<close>

section \<open>The tree\<close>

datatype resolvedNode = RNode
  (rnKey: string) (rnRef: string) (rnType: string) (rnValue: pdfObj)
  (rnChildren: "resolvedNode list") (rnTruncated: bool) (rnCyclic: bool)

fun resolvedNodeType :: "pdfObj \<Rightarrow> string" where
  "resolvedNodeType (PDict d) = ''dict''"
| "resolvedNodeType (PStream sk d) = ''stream''"
| "resolvedNodeType (PArray xs) = ''array''"
| "resolvedNodeType (PRef n g) = ''ref''"
| "resolvedNodeType _ = ''scalar''"

definition visitedKey :: "int \<Rightarrow> int \<Rightarrow> string" where
  "visitedKey n g = showInt n @ '':'' @ showInt g"

definition maxResolveDepth :: nat where "maxResolveDepth = 32"

text \<open>A read that fails or answers null leaves the reference unfollowed.\<close>

fun unreadable :: "pdfDoc \<Rightarrow> pdfObj \<Rightarrow> bool" where
  "unreadable doc (PRef n g) \<longleftrightarrow> (case lookupRef doc n g of DObj v \<Rightarrow> v = PNull | _ \<Rightarrow> True)"
| "unreadable doc _ \<longleftrightarrow> False"

lemma dictGet_size: "asDict v = Some d \<Longrightarrow> k \<in> set (dictKeys d) \<Longrightarrow> size (dictGet d k) < size v"
proof -
  assume v: "asDict v = Some d" and k: "k \<in> set (dictKeys d)"
  from dict_size [OF dictGet_mem [OF k], of 0] show ?thesis using v by (auto simp: asDict_Some)
qed

lemma element_size: "(i, e) \<in> set (enumerate n xs) \<Longrightarrow> size e < size (PArray xs)"
proof -
  assume "(i, e) \<in> set (enumerate n xs)"
  then have "e \<in> set xs" by (auto simp: in_set_enumerate_eq)
  from size_list_estimation' [OF this le_refl, of size] show ?thesis by simp
qed

function
  resolveValue :: "pdfDoc \<Rightarrow> string \<Rightarrow> pdfObj \<Rightarrow> nat \<Rightarrow> nat \<Rightarrow> string list \<Rightarrow> resolvedNode" and
  resolveChildren :: "pdfDoc \<Rightarrow> pdfObj \<Rightarrow> nat \<Rightarrow> nat \<Rightarrow> string list \<Rightarrow> resolvedNode list" where
  "resolveValue doc key val depth maxDepth visited =
     (case asRef val of
        Some (n, g) \<Rightarrow>
          if visitedKey n g \<in> set visited then RNode key (refString n g) ''ref'' val [] False True
          else if maxDepth \<le> depth then RNode key (refString n g) ''ref'' val [] True False
          else if unreadable doc val then RNode key (refString n g) ''ref'' val [] True False
          else (let v = safeDeref doc val in
                RNode key (refString n g) (resolvedNodeType v) v
                  (resolveChildren doc v (depth + 1) maxDepth (visitedKey n g # visited)) False False)
      | None \<Rightarrow>
          RNode key [] (resolvedNodeType val) val
            (if isContainer val then resolveChildren doc val depth maxDepth visited else []) False False)"
| "resolveChildren doc val depth maxDepth visited =
     (case asDict val of
        Some d \<Rightarrow> map (\<lambda>k. resolveValue doc k (dictGet d k) depth maxDepth visited) (dictKeys d)
      | None \<Rightarrow>
          (case asArray val of
             Some xs \<Rightarrow> map (\<lambda>(i, e). resolveValue doc (indexKey i) e depth maxDepth visited) (enumerate 0 xs)
           | None \<Rightarrow> []))"
  by pat_completeness auto
termination resolveValue
  by (relation "measures [\<lambda>x. case x of Inl (doc, key, v, depth, maxDepth, visited) \<Rightarrow> maxDepth - depth
        | Inr (doc, v, depth, maxDepth, visited) \<Rightarrow> maxDepth - depth,
      \<lambda>x. case x of Inl (doc, key, v, depth, maxDepth, visited) \<Rightarrow> 2 * size v + 1
        | Inr (doc, v, depth, maxDepth, visited) \<Rightarrow> 2 * size v]")
    (auto dest: dictGet_size element_size simp del: set_dictKeys)

declare resolveValue.simps [simp del] resolveChildren.simps [simp del]

section \<open>The call\<close>

definition objNodeIDKey :: "string \<Rightarrow> string" where
  "objNodeIDKey nodeID = (case parseNodeID nodeID of (kind, g, n) \<Rightarrow> if kind \<noteq> ''obj'' then [] else n @ '':'' @ g)"

datatype resolveAnswer = Resolved resolvedNode | EmptyNodeID | ResolveErr nodeAnswer

definition effectiveDepth :: "int \<Rightarrow> nat" where
  "effectiveDepth maxDepth = (let d = (if maxDepth < 0 then 0 else nat maxDepth) in
     if maxResolveDepth < d then maxResolveDepth else d)"

definition ResolveRef :: "pdfDoc \<Rightarrow> string \<Rightarrow> int \<Rightarrow> resolveAnswer" where
  "ResolveRef doc nodeID maxDepth =
     (if nodeID = [] then EmptyNodeID
      else (case resolveNodeObject doc nodeID of
              NodeObj v \<Rightarrow>
                Resolved (RNode [] (objectRefFromNodeID nodeID) (resolvedNodeType v) v
                  (resolveChildren doc v 0 (effectiveDepth maxDepth)
                     (if objNodeIDKey nodeID \<noteq> [] then [objNodeIDKey nodeID] else [])) False False)
            | err \<Rightarrow> ResolveErr err))"

section \<open>Form XObjects and images by name\<close>

text \<open>\<^verbatim>\<open>derefDictEntry\<close>: null for an absent key and for a target that cannot be read.\<close>

definition derefDictEntry :: "pdfDoc \<Rightarrow> pdfDict \<Rightarrow> string \<Rightarrow> pdfObj" where
  "derefDictEntry doc d key = (case dictFind d key of None \<Rightarrow> PNull
     | Some v \<Rightarrow> (if isRef v then safeDeref doc v else v))"

record xobjectInfo =
  xiName :: string
  xiObjectRef :: string
  xiNodeID :: string
  xiSubtype :: string

fun xobjectEntry :: "pdfDoc \<Rightarrow> string \<Rightarrow> pdfObj \<Rightarrow> xobjectInfo" where
  "xobjectEntry doc name (PRef n g) =
     \<lparr> xiName = name, xiObjectRef = refString n g, xiNodeID = nodeIDForRef n g,
       xiSubtype = (case nameEntry (safeDeref doc (PRef n g)) ''Subtype'' of Some s \<Rightarrow> s | None \<Rightarrow> []) \<rparr>"
| "xobjectEntry doc name v = \<lparr> xiName = name, xiObjectRef = [], xiNodeID = [], xiSubtype = [] \<rparr>"

text \<open>\<open>Inl None\<close> refuses an empty node ID.\<close>

definition GetXObjectResources :: "pdfDoc \<Rightarrow> string \<Rightarrow> nodeAnswer option + (string \<times> xobjectInfo) list" where
  "GetXObjectResources doc nodeID =
     (if nodeID = [] then Inl None
      else (case resolveNodeObject doc nodeID of
              NodeObj v \<Rightarrow>
                Inr (case asDict v of None \<Rightarrow> []
                   | Some d \<Rightarrow> (case asDict (derefDictEntry doc d ''Resources'') of None \<Rightarrow> []
                        | Some res \<Rightarrow> (case asDict (derefDictEntry doc res ''XObject'') of None \<Rightarrow> []
                             | Some xobj \<Rightarrow> map (\<lambda>k. (k, xobjectEntry doc k (dictGet xobj k))) (dictKeys xobj))))
            | err \<Rightarrow> Inl (Some err)))"

section \<open>What the tree shows\<close>

text \<open>
  The tree a document unfolds to, without the walk. An entry of an object is a named value; the references
  followed on the way to it stand in \<open>anc\<close>, the addressed object last. A reference back to one of them is
  marked cyclic; any other one is marked truncated when \<open>cap\<close> are on the way already or nothing can be read
  behind it, and else shows the object behind it with all its entries. A direct value shows itself.
\<close>

fun entriesOf :: "pdfObj \<Rightarrow> (string \<times> pdfObj) list" where
  "entriesOf (PDict d) = map (\<lambda>k. (k, dictGet d k)) (dictKeys d)"
| "entriesOf (PStream sk d) = map (\<lambda>k. (k, dictGet d k)) (dictKeys d)"
| "entriesOf (PArray xs) = map (\<lambda>i. (''['' @ showNat i @ '']'', xs ! i)) [0..<length xs]"
| "entriesOf _ = []"

definition kindName :: "pdfObj \<Rightarrow> string" where
  "kindName v = (case v of PDict d \<Rightarrow> ''dict'' | PStream sk d \<Rightarrow> ''stream'' | PArray xs \<Rightarrow> ''array''
     | PRef n g \<Rightarrow> ''ref'' | _ \<Rightarrow> ''scalar'')"

definition readsAs :: "pdfDoc \<Rightarrow> int \<times> int \<Rightarrow> pdfObj \<Rightarrow> bool" where
  "readsAs doc r v \<longleftrightarrow> lookupRef doc (fst r) (snd r) = DObj v \<and> v \<noteq> PNull"

inductive unfolds :: "pdfDoc \<Rightarrow> nat \<Rightarrow> (int \<times> int) list \<Rightarrow> string \<times> pdfObj \<Rightarrow> resolvedNode \<Rightarrow> bool"
  for doc :: pdfDoc and cap :: nat where
  cyclic: "(n, g) \<in> set anc \<Longrightarrow>
    unfolds doc cap anc (k, PRef n g) (RNode k (refString n g) ''ref'' (PRef n g) [] False True)"
| truncated: "(n, g) \<notin> set anc \<Longrightarrow> cap \<le> length anc \<or> (\<nexists>v. readsAs doc (n, g) v) \<Longrightarrow>
    unfolds doc cap anc (k, PRef n g) (RNode k (refString n g) ''ref'' (PRef n g) [] True False)"
| followed: "(n, g) \<notin> set anc \<Longrightarrow> length anc < cap \<Longrightarrow> readsAs doc (n, g) v \<Longrightarrow>
    list_all2 (unfolds doc cap ((n, g) # anc)) (entriesOf v) kids \<Longrightarrow>
    unfolds doc cap anc (k, PRef n g) (RNode k (refString n g) (kindName v) v kids False False)"
| direct: "\<nexists>n g. v = PRef n g \<Longrightarrow> list_all2 (unfolds doc cap anc) (entriesOf v) kids \<Longrightarrow>
    unfolds doc cap anc (k, v) (RNode k [] (kindName v) v kids False False)"

inductive_cases unfolds_RefE: "unfolds doc cap anc (k, PRef n g) m"

definition pathOf :: "string list \<Rightarrow> (int \<times> int) list \<Rightarrow> bool" where
  "pathOf visited anc \<longleftrightarrow> (\<forall>n g. visitedKey n g \<in> set visited \<longleftrightarrow> (n, g) \<in> set anc)"

lemma visitedKey_inject [simp]: "visitedKey n g = visitedKey m h \<longleftrightarrow> n = m \<and> g = h"
proof
  assume a: "visitedKey n g = visitedKey m h"
  have c: "r = [] \<or> \<not> numChar (hd r)" if "r = '':'' @ s" for r s
    using that by (simp add: numChar_def sign_not_digit)
  have e: "showInt n @ '':'' @ showInt g = showInt m @ '':'' @ showInt h" using a by (simp add: visitedKey_def)
  have "n = m" by (rule showInt_append_inject(1) [OF e]) (rule c, rule refl)+
  with e show "n = m \<and> g = h" by simp
qed simp

lemma pathOf_Cons: "pathOf visited anc \<Longrightarrow> pathOf (visitedKey n g # visited) ((n, g) # anc)"
  by (auto simp: pathOf_def)

lemma kindName_model: "kindName v = resolvedNodeType v"
  by (cases v) (simp_all add: kindName_def)

lemma readsAs_model: "unreadable doc (PRef n g) \<longleftrightarrow> (\<nexists>v. readsAs doc (n, g) v)"
  "readsAs doc (n, g) v \<Longrightarrow> safeDeref doc (PRef n g) = v"
  by (auto simp: readsAs_def safeDeref_def split: derefAnswer.split)

lemma entries_children:
  "resolveChildren doc v depth cap visited
     = map (\<lambda>(k, e). resolveValue doc k e depth cap visited) (entriesOf v)"
proof (cases v)
  case (PArray xs)
  have "enumerate 0 xs = map (\<lambda>i. (i, xs ! i)) [0..<length xs]"
    by (rule nth_equalityI) (simp_all add: nth_enumerate_eq)
  then show ?thesis by (simp add: PArray resolveChildren.simps indexKey_def comp_def)
qed (simp_all add: resolveChildren.simps comp_def)

lemma scalar_entries: "\<not> isContainer v \<Longrightarrow> entriesOf v = []"
  by (cases v) simp_all

lemma list_all2_map_self: "list_all2 P xs (map f xs) \<longleftrightarrow> (\<forall>x \<in> set xs. P x (f x))"
  by (induction xs) auto

text \<open>The walk unfolds the document, and nothing else unfolds it.\<close>

lemma resolve_unfolds:
  "pathOf visited anc \<Longrightarrow> length anc = depth + b \<Longrightarrow> depth \<le> cap \<Longrightarrow>
     unfolds doc (cap + b) anc (key, v) (resolveValue doc key v depth cap visited)"
  "pathOf visited anc \<Longrightarrow> length anc = depth + b \<Longrightarrow> depth \<le> cap \<Longrightarrow>
     list_all2 (unfolds doc (cap + b) anc) (entriesOf v) (resolveChildren doc v depth cap visited)"
proof (induction doc key v depth cap visited and doc v depth cap visited arbitrary: anc and anc
    rule: resolveValue_resolveChildren.induct)
  case (1 doc key v depth cap visited)
  show ?case
  proof (cases "asRef v")
    case None
    then have "\<nexists>n g. v = PRef n g" by auto
    moreover have "list_all2 (unfolds doc (cap + b) anc) (entriesOf v)
        (if isContainer v then resolveChildren doc v depth cap visited else [])"
      using "1.IH"(1) [OF None] "1.prems" by (simp add: scalar_entries)
    ultimately show ?thesis
      using unfolds.direct [of v doc "cap + b" anc _ key] None by (simp add: resolveValue.simps kindName_model)
  next
    case (Some p)
    obtain n g where p: "p = (n, g)" by fastforce
    with Some have v: "v = PRef n g" by simp
    have cyc: "visitedKey n g \<in> set visited \<longleftrightarrow> (n, g) \<in> set anc" using "1.prems"(1) by (simp add: pathOf_def)
    consider (cyc) "(n, g) \<in> set anc" | (cut) "(n, g) \<notin> set anc" "cap \<le> depth \<or> unreadable doc v"
      | (go) "(n, g) \<notin> set anc" "\<not> cap \<le> depth" "\<not> unreadable doc v" by blast
    then show ?thesis
    proof cases
      case cyc
      then show ?thesis using cyc unfolds.cyclic [of n g anc doc "cap + b" key] \<open>visitedKey n g \<in> set visited \<longleftrightarrow> _\<close>
        by (simp add: v resolveValue.simps)
    next
      case cut
      then have "cap + b \<le> length anc \<or> (\<nexists>w. readsAs doc (n, g) w)" using "1.prems"(2) unfolding v readsAs_model(1) by auto
      then show ?thesis using cut cyc unfolds.truncated [of n g anc "cap + b" doc key]
        by (auto simp: v resolveValue.simps)
    next
      case go
      from go(3) obtain w where w: "readsAs doc (n, g) w" unfolding v readsAs_model(1) by blast
      note d = readsAs_model(2) [OF w]
      have "list_all2 (unfolds doc (cap + b) ((n, g) # anc)) (entriesOf (safeDeref doc v))
          (resolveChildren doc (safeDeref doc v) (depth + 1) cap (visitedKey n g # visited))"
        using "1.prems" go cyc
        by (intro "1.IH"(2) [OF Some p [symmetric] _ _ _ refl] pathOf_Cons) auto
      then show ?thesis using go cyc w "1.prems"(2,3) d
          unfolds.followed [of n g anc "cap + b" doc w _ key]
        by (simp add: v resolveValue.simps kindName_model Let_def del: unreadable.simps)
    qed
  qed
next
  case (2 doc v depth cap visited)
  have "unfolds doc (cap + b) anc e (resolveValue doc (fst e) (snd e) depth cap visited)"
    if "e \<in> set (entriesOf v)" for e
  proof (cases "asDict v")
    case (Some d)
    with that have "fst e \<in> set (dictKeys d)" "snd e = dictGet d (fst e)" by (cases v; force)+
    with "2.IH"(2) [OF Some, of "fst e"] "2.prems" show ?thesis by (metis prod.collapse)
  next
    case None
    with that obtain xs i where xs: "v = PArray xs" "i < length xs" "e = (indexKey i, xs ! i)"
      by (cases v) (auto simp: indexKey_def)
    have "(i, xs ! i) \<in> set (enumerate 0 xs)" using xs(2) by (simp add: in_set_enumerate_eq)
    with "2.IH"(1) [OF None, of xs "(i, xs ! i)" i "xs ! i"] "2.prems" xs show ?thesis by simp
  qed
  then show ?case unfolding entries_children by (simp add: list_all2_map_self split_beta)
qed

lemma list_all2_unique:
  "list_all2 (\<lambda>x y. P x y \<and> (\<forall>z. Q x z \<longrightarrow> z = y)) xs ys \<Longrightarrow> list_all2 Q xs zs \<Longrightarrow> zs = ys"
proof (induction xs ys arbitrary: zs rule: list_all2_induct)
  case (Cons x xs y ys)
  then show ?case by (cases zs) auto
qed simp

lemma unfolds_unique: "unfolds doc cap anc e m \<Longrightarrow> unfolds doc cap anc e m' \<Longrightarrow> m' = m"
proof (induction arbitrary: m' rule: unfolds.induct)
  case (cyclic n g anc k)
  from cyclic(2) show ?case by (cases rule: unfolds_RefE) (use cyclic(1) in auto)
next
  case (truncated n g anc k)
  from truncated(3) show ?case
    by (cases rule: unfolds_RefE) (use truncated(1,2) in auto)
next
  case (followed n g anc v kids k)
  note eq = list_all2_unique [OF followed.IH]
  obtain w kids' where w: "readsAs doc (n, g) w" "m' = RNode k (refString n g) (kindName w) w kids' False False"
    "list_all2 (unfolds doc cap ((n, g) # anc)) (entriesOf w) kids'"
    using followed.prems followed.hyps by (auto elim!: unfolds_RefE)
  have "w = v" using followed.hyps(3) w(1) by (simp add: readsAs_def)
  then show ?case using w(2,3) eq by simp
next
  case (direct v anc kids k)
  note eq = list_all2_unique [OF direct.IH]
  from direct.prems show ?case
    by (cases rule: unfolds.cases) (use direct.hyps eq in auto)
qed

lemma unfolds_kids_unique:
  assumes "list_all2 (unfolds doc cap anc) es ms" "list_all2 (unfolds doc cap anc) es ms'"
  shows "ms' = ms"
proof (rule list_all2_unique [OF _ assms(2)])
  show "list_all2 (\<lambda>x y. unfolds doc cap anc x y \<and> (\<forall>z. unfolds doc cap anc x z \<longrightarrow> z = y)) es ms"
    using assms(1) by (rule list_all2_mono) (use unfolds_unique in blast)
qed

section \<open>Properties\<close>

text \<open>
  Claim C16. The tree \<^verbatim>\<open>ResolveRef\<close> answers for an object is the one the document unfolds to, with as many
  references on a way as were asked for and never more than 32, and there is an answer exactly when
  the object can be read. Its top shows the object; every entry of every object shown is there, in order,
  with its key; a direct value shows itself and a reference the object behind it, of its kind; a cyclic mark
  stands exactly where a reference re-enters an object on its own way; and a truncated mark exactly where a
  reference that does not is at the depth limit or has nothing to read behind it.
\<close>

theorem resolve_bounded_truthful:
  assumes "inInt64 n" "inInt64 g"
  shows "ResolveRef doc (nodeIDForRef n g) maxDepth = Resolved tree \<longleftrightarrow>
    (\<exists>v kids. lookupRef doc n g = DObj v \<and> tree = RNode [] (refString n g) (kindName v) v kids False False
       \<and> list_all2 (unfolds doc (nat (min 32 (max 0 maxDepth)) + 1) [(n, g)]) (entriesOf v) kids)"
proof -
  let ?d = "nat (min 32 (max 0 maxDepth))" and ?vis = "[visitedKey n g]"
  have pre: "hasPrefix (nodeIDForRef n g) ''obj:''" by (simp add: hasPrefix_def nodeIDForRef_def)
  have k: "objNodeIDKey (nodeIDForRef n g) = visitedKey n g" "objectRefFromNodeID (nodeIDForRef n g) = refString n g"
    using pre by (simp_all add: objNodeIDKey_def objectRefFromNodeID_def parse_nodeIDForRef visitedKey_def refString_def)
  have ne: "visitedKey n g \<noteq> []" "nodeIDForRef n g \<noteq> []" by (simp_all add: visitedKey_def nodeIDForRef_def)
  have d: "effectiveDepth maxDepth = ?d"
    by (auto simp: effectiveDepth_def maxResolveDepth_def Let_def)
  have r: "ResolveRef doc (nodeIDForRef n g) maxDepth = Resolved tree \<longleftrightarrow> (\<exists>v. lookupRef doc n g = DObj v
      \<and> tree = RNode [] (refString n g) (kindName v) v (resolveChildren doc v 0 ?d ?vis) False False)"
    using ne by (cases "lookupRef doc n g") (auto simp: ResolveRef_def k d resolve_ref [OF assms] kindName_model)
  have "pathOf ?vis [(n, g)]" by (simp add: pathOf_def)
  from resolve_unfolds(2) [OF this, of 0 1 ?d doc]
  have u: "list_all2 (unfolds doc (?d + 1) [(n, g)]) (entriesOf v) kids \<longleftrightarrow> kids = resolveChildren doc v 0 ?d ?vis" for v kids
    by (auto intro: unfolds_kids_unique)
  show ?thesis unfolding r u by auto
qed

definition loopObjects :: "int \<Rightarrow> pdfObj" where
  "loopObjects n = (if n = 1 then PDict [(''Next'', PRef 2 0)] else if n = 2 then PDict [(''Next'', PRef 1 0)] else PNull)"

definition loopDoc :: pdfDoc where
  "loopDoc = \<lparr> xrefNums = [1, 2], xrefLookup = (\<lambda>n g. DObj (loopObjects n)), docRoot = None, docCatalog = DObj PNull \<rparr>"

lemma loopDoc_tree: "ResolveRef loopDoc (nodeIDForRef 1 0) 5 = Resolved
  (RNode [] ''1 0 R'' ''dict'' (PDict [(''Next'', PRef 2 0)])
    [RNode ''Next'' ''2 0 R'' ''dict'' (PDict [(''Next'', PRef 1 0)])
      [RNode ''Next'' ''1 0 R'' ''ref'' (PRef 1 0) [] False True] False False] False False)"
  by code_simp

theorem resolve_bounded_truthful_witness:
  "unfolds loopDoc 6 [(1, 0)] (''Next'', PRef 2 0)
    (RNode ''Next'' ''2 0 R'' ''dict'' (PDict [(''Next'', PRef 1 0)])
      [RNode ''Next'' ''1 0 R'' ''ref'' (PRef 1 0) [] False True] False False)"
proof -
  have i: "inInt64 1" "inInt64 0" by (simp_all add: inInt64_def minInt64_def maxInt64_def)
  have e: "entriesOf (PDict [(''Next'', PRef 2 0)]) = [(''Next'', PRef 2 0)]" by code_simp
  have "list_all2 (unfolds loopDoc 6 [(1, 0)]) (entriesOf (PDict [(''Next'', PRef 2 0)]))
      [RNode ''Next'' ''2 0 R'' ''dict'' (PDict [(''Next'', PRef 1 0)])
        [RNode ''Next'' ''1 0 R'' ''ref'' (PRef 1 0) [] False True] False False]"
    using resolve_bounded_truthful [OF i, THEN iffD1, OF loopDoc_tree] by (auto simp del: entriesOf.simps)
  then show ?thesis unfolding e by simp
qed

end
