(* ===== verification/PdfErrors.thy ===== *)
theory PdfErrors
  imports Strconv
begin

text \<open>
  Failures of the PDF library (\<^verbatim>\<open>internal/pdfcore/errors.go\<close>): the text of a recovered panic, and the class
  an error is put in. A Go runtime error is not recovered anywhere and is not modelled.
\<close>

text \<open>The text \<^verbatim>\<open>safeCall\<close> turns a panic into.\<close>

definition panicText :: "string \<Rightarrow> string" where
  "panicText p = ''pdf parsing panic: '' @ p"

text \<open>\<^verbatim>\<open>strings.Contains\<close>\<close>

fun strContains :: "string \<Rightarrow> string \<Rightarrow> bool" where
  "strContains [] sub \<longleftrightarrow> sub = []"
| "strContains (c # s) sub \<longleftrightarrow> hasPrefix (c # s) sub \<or> strContains s sub"

text \<open>The two sentinels an error of the library is wrapped in, by their texts.\<close>

definition errMalformedPDF :: string where "errMalformedPDF = ''malformed PDF''"
definition errEncryptedPDF :: string where "errEncryptedPDF = ''encrypted PDF: password required''"

definition wrapPDFError :: "string \<Rightarrow> string" where
  "wrapPDFError msg =
     (if hasPrefix msg ''pdf parsing panic:'' then errMalformedPDF @ '': '' @ msg
      else if strContains msg ''password'' then errEncryptedPDF @ '': '' @ msg
      else errMalformedPDF @ '': '' @ msg)"

text \<open>A recovered panic is always reported as a malformed file, whatever it says.\<close>

lemma wrap_panic [simp]: "wrapPDFError (panicText p) = errMalformedPDF @ '': '' @ panicText p"
  by (simp add: wrapPDFError_def panicText_def hasPrefix_def)

end
