(* ===== verification/Metadata.thy ===== *)
theory Metadata
  imports ScalarRender PdfErrors
begin

text \<open>
  Document metadata (\<^verbatim>\<open>internal/pdfcore/metadata.go\<close>): the fields of the trailer's \<open>/Info\<close> dictionary and
  the XMP packet of the catalog's \<open>/Metadata\<close> stream. What the trailer says and what a stream decodes to
  are the library's answers, collected in the record \<open>docFacts\<close>.
\<close>

section \<open>What the library answers\<close>

text \<open>\<open>xsDecode\<close> is the result of \<^verbatim>\<open>Decode\<close> under \<^verbatim>\<open>safeCall\<close>: an error text, or the decoded content.\<close>

record xmpStream =
  xsFilters :: nat
  xsDecode :: "string + string"
  xsRaw :: "string option"
  xsContent :: string

record docFacts =
  dfPageCount :: int
  dfInfo :: "(int \<times> int) option"
  dfEncrypted :: bool
  dfStream :: "pdfObj \<Rightarrow> xmpStream"

section \<open>Collection\<close>

definition infoFields :: "string list" where
  "infoFields = [''Title'', ''Author'', ''Subject'', ''Keywords'', ''Creator'', ''Producer'', ''CreationDate'', ''ModDate'']"

definition infoTextFields :: "string list" where
  "infoTextFields = [''Title'', ''Author'', ''Subject'', ''Keywords'', ''Creator'', ''Producer'']"

text \<open>\<^verbatim>\<open>md.Info\<close> in the order its keys are set: each field is set at most once.\<close>

record metadata =
  mdInfo :: "(string \<times> string) list"
  mdXMP :: string
  mdWarning :: string

definition noMetadata :: metadata where
  "noMetadata = \<lparr> mdInfo = [], mdXMP = [], mdWarning = [] \<rparr>"

definition infoValue :: "textLib \<Rightarrow> pdfDict \<Rightarrow> string \<Rightarrow> string" where
  "infoValue lib info key =
     (if key \<in> set infoTextFields then textStringOrRaw lib (dictGet info key) else stringValue (dictGet info key))"

definition infoEntries :: "textLib \<Rightarrow> pdfDict \<Rightarrow> (string \<times> string) list" where
  "infoEntries lib info = filter (\<lambda>(k, v). v \<noteq> []) (map (\<lambda>key. (key, infoValue lib info key)) infoFields)"

text \<open>\<^verbatim>\<open>Inl\<close> is the text of a panic, which passes through to the caller's \<^verbatim>\<open>safeCall\<close>.\<close>

definition collectInfoFields :: "textLib \<Rightarrow> pdfDoc \<Rightarrow> docFacts \<Rightarrow> metadata \<Rightarrow> string + metadata" where
  "collectInfoFields lib doc facts md =
     (case dfInfo facts of
        None \<Rightarrow> Inr md
      | Some (n, g) \<Rightarrow>
          (case lookupRef doc n g of
             DPanic p \<Rightarrow> Inl p
           | DErr e \<Rightarrow> Inr md
           | DObj v \<Rightarrow> (case asDict v of
                 None \<Rightarrow> Inr md
               | Some info \<Rightarrow> Inr (md\<lparr>mdInfo := mdInfo md @ infoEntries lib info\<rparr>))))"

definition decodeXMPStream :: "xmpStream \<Rightarrow> string \<times> string" where
  "decodeXMPStream s =
     (if 0 < xsFilters s then
        (case xsDecode s of
           Inl e \<Rightarrow> ([], ''metadata stream could not be decoded: '' @ e)
         | Inr content \<Rightarrow> (content, []))
      else (case xsRaw s of Some r \<Rightarrow> (r, []) | None \<Rightarrow> (xsContent s, [])))"

fun isPlainStream :: "pdfObj \<Rightarrow> bool" where
  "isPlainStream (PStream PlainStream d) \<longleftrightarrow> True"
| "isPlainStream _ \<longleftrightarrow> False"

definition collectXMP :: "pdfDoc \<Rightarrow> docFacts \<Rightarrow> metadata \<Rightarrow> string + metadata" where
  "collectXMP doc facts md =
     (case docCatalog doc of
        DPanic p \<Rightarrow> Inl p
      | DErr e \<Rightarrow> Inr md
      | DObj c \<Rightarrow>
          (case dictFind (case asDict c of Some d \<Rightarrow> d | None \<Rightarrow> []) ''Metadata'' of
             None \<Rightarrow> Inr md
           | Some metaObj \<Rightarrow>
               (case derefIn doc metaObj of
                  Inl p \<Rightarrow> Inl p
                | Inr v \<Rightarrow>
                    if isPlainStream v then
                      Inr (md\<lparr>mdXMP := fst (decodeXMPStream (dfStream facts v)), mdWarning := snd (decodeXMPStream (dfStream facts v))\<rparr>)
                    else Inr md)))"

text \<open>
  Both collectors under one \<^verbatim>\<open>safeCall\<close>: the first panic ends the collection and what was collected
  before it stays.
\<close>

definition collectMetadata :: "textLib \<Rightarrow> pdfDoc \<Rightarrow> docFacts \<Rightarrow> metadata \<times> string option" where
  "collectMetadata lib doc facts =
     (case collectInfoFields lib doc facts noMetadata of
        Inl p \<Rightarrow> (noMetadata, Some p)
      | Inr md \<Rightarrow> (case collectXMP doc facts md of Inl p \<Rightarrow> (md, Some p) | Inr md' \<Rightarrow> (md', None)))"

definition GetDocumentMetadata :: "textLib \<Rightarrow> pdfDoc \<Rightarrow> docFacts \<Rightarrow> string + metadata" where
  "GetDocumentMetadata lib doc facts =
     (case collectMetadata lib doc facts of
        (md, Some p) \<Rightarrow> Inl (wrapPDFError (panicText p))
      | (md, None) \<Rightarrow> Inr md)"

section \<open>Lemmas\<close>

text \<open>Only fields that are present with a value appear, each once, in the order of the field list.\<close>

lemma infoEntries_keys:
  "map fst (infoEntries lib info) = filter (\<lambda>k. infoValue lib info k \<noteq> []) infoFields"
  by (simp add: infoEntries_def infoFields_def)

lemma infoEntries_distinct: "distinct (map fst (infoEntries lib info))"
proof -
  have "distinct infoFields" by (simp add: infoFields_def)
  then show ?thesis unfolding infoEntries_keys by simp
qed

lemma map_of_infoEntries:
  "map_of (infoEntries lib info) k = (if k \<in> set infoFields \<and> infoValue lib info k \<noteq> [] then Some (infoValue lib info k) else None)"
proof -
  have "map_of (filter (\<lambda>(k, v). v \<noteq> []) (map (\<lambda>key. (key, f key)) ks)) k
      = (if k \<in> set ks \<and> f k \<noteq> [] then Some (f k) else None)" for f :: "string \<Rightarrow> string" and ks
    by (induction ks) auto
  then show ?thesis by (simp add: infoEntries_def)
qed

text \<open>Metadata that cannot be read never carries a packet together with a warning.\<close>

lemma xmp_or_warning: "fst (decodeXMPStream s) = [] \<or> snd (decodeXMPStream s) = []"
  by (auto simp: decodeXMPStream_def split: sum.split option.split)

end
