(* ===== verification/Diff.thy ===== *)
theory Diff
  imports Resolve Metadata
begin

text \<open>
  The structural comparison of two documents (\<^verbatim>\<open>internal/pdfcore/diff.go\<close>): both object graphs are walked
  from their catalogs, aligned by path and never by object number. The walk is cut at references back to an
  object on the current path, at references to a pair of objects it has already entered, and at a depth.

  The code's two path-scoped visited sets hold the targets entered on the current path: a key is set when
  a target is entered and deleted when it has been left, and a key that is set is never entered. They are
  passed as arguments. The set of entered pairs is never cleared and is part of the walk's state.
\<close>

section \<open>Summaries\<close>

text \<open>\<^verbatim>\<open>dereferenceIfRef\<close>: a reference that cannot be read stays a reference.\<close>

fun dereferenceIfRef :: "pdfDoc \<Rightarrow> pdfObj \<Rightarrow> pdfObj" where
  "dereferenceIfRef doc (PRef n g) =
     (case lookupRef doc n g of DObj w \<Rightarrow> if w = PNull then PRef n g else w | _ \<Rightarrow> PRef n g)"
| "dereferenceIfRef doc v = v"

type_synonym scalarRenderer = "pdfObj \<Rightarrow> bool \<Rightarrow> string"

fun shallowValue :: "scalarRenderer \<Rightarrow> pdfObj \<Rightarrow> bool \<Rightarrow> string" where
  "shallowValue render (PDict d) binary = ''<<...>>''"
| "shallowValue render (PStream sk d) binary = ''<<...>>''"
| "shallowValue render (PArray xs) binary = ''[...]''"
| "shallowValue render (PRef n g) binary = ''<ref>''"
| "shallowValue render v binary = render v binary"

definition dictSummary :: "scalarRenderer \<Rightarrow> pdfDict \<Rightarrow> string" where
  "dictSummary render d =
     ''<<'' @ concat (map (\<lambda>k. '' /'' @ k @ '' '' @ shallowValue render (dictGet d k) (binaryStringKey (Some d) k)) (dictKeys d)) @ '' >>''"

definition arraySummary :: "scalarRenderer \<Rightarrow> pdfObj list \<Rightarrow> bool \<Rightarrow> string" where
  "arraySummary render xs binary = ''['' @ concat (map (\<lambda>e. '' '' @ shallowValue render e binary) xs) @ '' ]''"

fun summarizeWith :: "scalarRenderer \<Rightarrow> pdfObj \<Rightarrow> bool \<Rightarrow> string" where
  "summarizeWith render (PDict d) binary = dictSummary render d"
| "summarizeWith render (PStream sk d) binary = dictSummary render d @ '' stream''"
| "summarizeWith render (PArray xs) binary = arraySummary render xs binary"
| "summarizeWith render (PRef n g) binary = ''<ref>''"
| "summarizeWith render v binary = render v binary"

definition diffDisplayScalar :: "textLib \<Rightarrow> scalarRenderer" where
  "diffDisplayScalar lib v binary = (if binary \<and> isStringObject v then binaryStringSummary lib v else scalarText lib v)"

definition diffCompareScalar :: "textLib \<Rightarrow> scalarRenderer" where
  "diffCompareScalar lib v binary = scalarRaw lib v"

definition diffFallbackScalar :: "textLib \<Rightarrow> scalarRenderer" where
  "diffFallbackScalar lib v binary = (if binary \<and> isStringObject v then binaryStringSummary lib v else scalarRaw lib v)"

definition diffSummarize :: "textLib \<Rightarrow> pdfObj \<Rightarrow> bool \<Rightarrow> string" where
  "diffSummarize lib = summarizeWith (diffDisplayScalar lib)"

definition diffCompare :: "textLib \<Rightarrow> pdfObj \<Rightarrow> string" where
  "diffCompare lib v = summarizeWith (diffCompareScalar lib) v False"

section \<open>The delta tree\<close>

datatype diffNode = DNode
  (dnPath: string) (dnStatus: string) (dnKind: string) (dnChangedKeys: "string list")
  (dnLeft: string) (dnRight: string) (dnChildren: "diffNode list") (dnTruncated: bool) (dnCapPair: string)

definition scalarLeaf :: "textLib \<Rightarrow> string \<Rightarrow> string \<Rightarrow> pdfObj \<Rightarrow> pdfObj \<Rightarrow> bool \<Rightarrow> diffNode" where
  "scalarLeaf lib path kind left right binary =
     (let ls = diffSummarize lib left binary; rs = diffSummarize lib right binary in
      if diffCompare lib left = diffCompare lib right then DNode path ''unchanged'' kind [] ls rs [] False []
      else if ls = rs then
        DNode path ''changed'' kind [] (summarizeWith (diffFallbackScalar lib) left binary)
          (summarizeWith (diffFallbackScalar lib) right binary) [] False []
      else DNode path ''changed'' kind [] ls rs [] False [])"

definition kindLeaf :: "textLib \<Rightarrow> string \<Rightarrow> pdfObj \<Rightarrow> pdfObj \<Rightarrow> bool \<Rightarrow> diffNode" where
  "kindLeaf lib path left right binary =
     DNode path ''changed'' (resolvedNodeType right) [] (diffSummarize lib left binary) (diffSummarize lib right binary) [] False []"

definition singleSided :: "textLib \<Rightarrow> pdfDoc \<Rightarrow> string \<Rightarrow> pdfObj \<Rightarrow> bool \<Rightarrow> string \<Rightarrow> diffNode" where
  "singleSided lib doc path val binary status =
     (let resolved = dereferenceIfRef doc val; summary = diffSummarize lib resolved binary in
      if status = ''added'' then DNode path status (resolvedNodeType resolved) [] [] summary [] False []
      else DNode path status (resolvedNodeType resolved) [] summary [] [] False [])"

definition markTruncated :: "string \<Rightarrow> diffNode \<Rightarrow> diffNode" where
  "markTruncated pair n = DNode (dnPath n) (dnStatus n) (dnKind n) (dnChangedKeys n) (dnLeft n) (dnRight n) (dnChildren n) True pair"

text \<open>The node of a dictionary or of an array, from its children; a dictionary names its changed keys.\<close>

definition dictNode :: "string \<Rightarrow> string \<Rightarrow> string list \<Rightarrow> diffNode list \<Rightarrow> diffNode" where
  "dictNode path kind keys children =
     (let changed = map fst (filter (\<lambda>(k, c). dnStatus c \<noteq> ''unchanged'') (zip keys children)) in
      DNode path (if changed = [] then ''unchanged'' else ''changed'') kind changed [] [] children False [])"

definition arrayNode :: "string \<Rightarrow> diffNode list \<Rightarrow> diffNode" where
  "arrayNode path children =
     DNode path (if list_all (\<lambda>c. dnStatus c = ''unchanged'') children then ''unchanged'' else ''changed'') ''array'' [] [] [] children False []"

section \<open>The walk\<close>

text \<open>
  The two documents, and the check that sees one of them closed: \<open>dcCloseAt = Some k\<close> when the close is
  visible from check number \<open>k\<close> on, \<open>None\<close> when neither is closed. A close is never undone.
\<close>

record diffContext =
  dcLib :: textLib
  dcLeftDoc :: pdfDoc
  dcRightDoc :: pdfDoc
  dcCloseAt :: "nat option"

record diffState =
  dsPairs :: "string list"
  dsChecks :: nat

definition stopped :: "diffContext \<Rightarrow> diffState \<Rightarrow> bool \<times> diffState" where
  "stopped dc st = ((case dcCloseAt dc of None \<Rightarrow> False | Some k \<Rightarrow> k \<le> dsChecks st), st\<lparr>dsChecks := dsChecks st + 1\<rparr>)"

text \<open>\<^verbatim>\<open>refVisitKeyOf\<close>, with \<open>None\<close> for the empty key of a value that is not a reference.\<close>

definition refVisitKeyOf :: "pdfObj \<Rightarrow> string option" where
  "refVisitKeyOf v = (case asRef v of None \<Rightarrow> None | Some (n, g) \<Rightarrow> Some (visitedKey n g))"

definition onPath :: "string option \<Rightarrow> string list \<Rightarrow> bool" where
  "onPath k visited \<longleftrightarrow> (case k of None \<Rightarrow> False | Some s \<Rightarrow> s \<in> set visited)"

definition pushKey :: "string option \<Rightarrow> string list \<Rightarrow> string list" where
  "pushKey k visited = (case k of None \<Rightarrow> visited | Some s \<Rightarrow> s # visited)"

text \<open>The key of a pair of references, empty unless both sides are references.\<close>

definition capPair :: "string option \<Rightarrow> string option \<Rightarrow> string" where
  "capPair l r = (case (l, r) of (Some a, Some b) \<Rightarrow> a @ ''|'' @ b | _ \<Rightarrow> [])"

definition enterPair :: "string \<Rightarrow> diffState \<Rightarrow> diffState" where
  "enterPair pair st = (if pair \<noteq> [] then st\<lparr>dsPairs := pair # dsPairs st\<rparr> else st)"

text \<open>What one turn of the loops over keys and over indices works on.\<close>

datatype sides = BothSides pdfObj pdfObj | LeftOnly pdfObj | RightOnly pdfObj

type_synonym diffItem = "string \<times> bool \<times> sides"

definition unionKeys :: "pdfDict \<Rightarrow> pdfDict \<Rightarrow> string list" where
  "unionKeys ld rd = sort (remdups (map fst ld @ map fst rd))"

definition dictItem :: "string \<Rightarrow> pdfDict \<Rightarrow> pdfDict \<Rightarrow> string \<Rightarrow> diffItem" where
  "dictItem path ld rd k =
     (path @ ''/'' @ k,
      binaryStringKey (Some ld) k \<or> binaryStringKey (Some rd) k,
      (case (dictFind ld k, dictFind rd k) of
         (Some l, Some r) \<Rightarrow> BothSides l r
       | (Some l, None) \<Rightarrow> LeftOnly l
       | (None, _) \<Rightarrow> RightOnly (dictGet rd k)))"

definition arrayItem :: "string \<Rightarrow> pdfObj list \<Rightarrow> pdfObj list \<Rightarrow> bool \<Rightarrow> nat \<Rightarrow> diffItem" where
  "arrayItem path la ra binary i =
     (path @ ''['' @ showNat i @ '']'', binary,
      (if i < length la \<and> i < length ra then BothSides (la ! i) (ra ! i)
       else if i < length la then LeftOnly (la ! i)
       else RightOnly (ra ! i)))"

definition diffIndexes :: "pdfObj list \<Rightarrow> pdfObj list \<Rightarrow> nat list" where
  "diffIndexes la ra = [0..<max (length la) (length ra)]"

function
  diffPresent :: "diffContext \<Rightarrow> string \<Rightarrow> pdfObj \<Rightarrow> pdfObj \<Rightarrow> bool \<Rightarrow> nat \<Rightarrow> string list \<Rightarrow> string list \<Rightarrow> diffState \<Rightarrow> diffNode \<times> diffState" and
  diffItems :: "diffContext \<Rightarrow> diffItem list \<Rightarrow> nat \<Rightarrow> string list \<Rightarrow> string list \<Rightarrow> diffState \<Rightarrow> diffNode list \<times> diffState" and
  diffChild :: "diffContext \<Rightarrow> string \<Rightarrow> pdfObj \<Rightarrow> pdfObj \<Rightarrow> bool \<Rightarrow> nat \<Rightarrow> string list \<Rightarrow> string list \<Rightarrow> diffState \<Rightarrow> diffNode \<times> diffState" where
  "diffPresent dc path left right binary depth lvis rvis st =
     (if resolvedNodeType left \<noteq> resolvedNodeType right then (kindLeaf (dcLib dc) path left right binary, st)
      else (case (asDict left, asDict right) of
              (Some ld, Some rd) \<Rightarrow>
                (case diffItems dc (map (dictItem path ld rd) (unionKeys ld rd)) depth lvis rvis st of (cs, st') \<Rightarrow>
                   (dictNode path (resolvedNodeType left) (unionKeys ld rd) cs, st'))
            | _ \<Rightarrow>
                (case (asArray left, asArray right) of
                   (Some la, Some ra) \<Rightarrow>
                     (case diffItems dc (map (arrayItem path la ra binary) (diffIndexes la ra)) depth lvis rvis st of (cs, st') \<Rightarrow>
                        (arrayNode path cs, st'))
                 | _ \<Rightarrow> (scalarLeaf (dcLib dc) path (resolvedNodeType left) left right binary, st))))"
| "diffItems dc [] depth lvis rvis st = ([], st)"
| "diffItems dc ((path, binary, s) # items) depth lvis rvis st =
     (case stopped dc st of (stop, st1) \<Rightarrow>
        if stop then ([], st1)
        else (case (case s of
                      BothSides l r \<Rightarrow> diffChild dc path l r binary depth lvis rvis st1
                    | LeftOnly l \<Rightarrow> (singleSided (dcLib dc) (dcLeftDoc dc) path l binary ''removed'', st1)
                    | RightOnly r \<Rightarrow> (singleSided (dcLib dc) (dcRightDoc dc) path r binary ''added'', st1)) of (c, st2) \<Rightarrow>
                (case diffItems dc items depth lvis rvis st2 of (cs, st3) \<Rightarrow> (c # cs, st3))))"
| "diffChild dc path lv rv binary depth lvis rvis st =
     (let lk = refVisitKeyOf lv; rk = refVisitKeyOf rv;
          lres = dereferenceIfRef (dcLeftDoc dc) lv; rres = dereferenceIfRef (dcRightDoc dc) rv
      in if onPath lk lvis \<or> onPath rk rvis then (scalarLeaf (dcLib dc) path ''ref'' lres rres binary, st)
         else if maxResolveDepth < depth + 1 then
           (markTruncated (capPair lk rk) (scalarLeaf (dcLib dc) path ''ref'' lres rres binary), st)
         else if capPair lk rk \<noteq> [] \<and> capPair lk rk \<in> set (dsPairs st) then
           (scalarLeaf (dcLib dc) path ''ref'' lres rres binary, st)
         else diffPresent dc path lres rres binary (depth + 1) (pushKey lk lvis) (pushKey rk rvis)
                (enterPair (capPair lk rk) st))"
  by pat_completeness auto
termination diffPresent
  by (relation "measures [\<lambda>x. case x of Inl (dc, p, l, r, b, depth, _) \<Rightarrow> maxResolveDepth + 1 - depth
        | Inr (Inl (dc, items, depth, _)) \<Rightarrow> maxResolveDepth + 1 - depth
        | Inr (Inr (dc, p, l, r, b, depth, _)) \<Rightarrow> maxResolveDepth + 1 - depth,
      \<lambda>x. case x of Inl _ \<Rightarrow> 1 | Inr y \<Rightarrow> 0,
      \<lambda>x. case x of Inr (Inl (dc, items, _)) \<Rightarrow> length items | _ \<Rightarrow> 0]")
    auto

declare diffPresent.simps [simp del] diffItems.simps(2) [simp del] diffChild.simps [simp del]

text \<open>One turn of a loop, and the induction over the walk that the proofs use.\<close>

fun diffTurn :: "diffContext \<Rightarrow> diffItem \<Rightarrow> nat \<Rightarrow> string list \<Rightarrow> string list \<Rightarrow> diffState \<Rightarrow> diffNode \<times> diffState" where
  "diffTurn dc (path, binary, s) depth lvis rvis st =
     (case s of
        BothSides l r \<Rightarrow> diffChild dc path l r binary depth lvis rvis st
      | LeftOnly l \<Rightarrow> (singleSided (dcLib dc) (dcLeftDoc dc) path l binary ''removed'', st)
      | RightOnly r \<Rightarrow> (singleSided (dcLib dc) (dcRightDoc dc) path r binary ''added'', st))"

lemma diffItems_Cons:
  "diffItems dc (it # items) depth lvis rvis st =
     (if fst (stopped dc st) then ([], snd (stopped dc st))
      else (fst (diffTurn dc it depth lvis rvis (snd (stopped dc st))) #
              fst (diffItems dc items depth lvis rvis (snd (diffTurn dc it depth lvis rvis (snd (stopped dc st))))),
            snd (diffItems dc items depth lvis rvis (snd (diffTurn dc it depth lvis rvis (snd (stopped dc st)))))))"
  by (cases it) (simp add: diffItems.simps case_prod_beta)

lemma diff_induct [case_names present nil cons child]:
  assumes "\<And>path left right binary depth lvis rvis st.
      (\<And>ld rd. resolvedNodeType left = resolvedNodeType right \<Longrightarrow> asDict left = Some ld \<Longrightarrow> asDict right = Some rd \<Longrightarrow>
         Q (map (dictItem path ld rd) (unionKeys ld rd)) depth lvis rvis st) \<Longrightarrow>
      (\<And>la ra. asArray left = Some la \<Longrightarrow> asArray right = Some ra \<Longrightarrow>
         Q (map (arrayItem path la ra binary) (diffIndexes la ra)) depth lvis rvis st) \<Longrightarrow>
      P path left right binary depth lvis rvis st"
    and "\<And>depth lvis rvis st. Q [] depth lvis rvis st"
    and "\<And>path binary s items depth lvis rvis st.
      (\<And>l r. \<not> fst (stopped dc st) \<Longrightarrow> s = BothSides l r \<Longrightarrow> R path l r binary depth lvis rvis (snd (stopped dc st))) \<Longrightarrow>
      (\<not> fst (stopped dc st) \<Longrightarrow> Q items depth lvis rvis (snd (diffTurn dc (path, binary, s) depth lvis rvis (snd (stopped dc st))))) \<Longrightarrow>
      Q ((path, binary, s) # items) depth lvis rvis st"
    and "\<And>path lv rv binary depth lvis rvis st.
      (\<not> (onPath (refVisitKeyOf lv) lvis \<or> onPath (refVisitKeyOf rv) rvis) \<Longrightarrow> depth + 1 \<le> maxResolveDepth \<Longrightarrow>
       \<not> (capPair (refVisitKeyOf lv) (refVisitKeyOf rv) \<noteq> [] \<and> capPair (refVisitKeyOf lv) (refVisitKeyOf rv) \<in> set (dsPairs st)) \<Longrightarrow>
       P path (dereferenceIfRef (dcLeftDoc dc) lv) (dereferenceIfRef (dcRightDoc dc) rv) binary (depth + 1)
         (pushKey (refVisitKeyOf lv) lvis) (pushKey (refVisitKeyOf rv) rvis) (enterPair (capPair (refVisitKeyOf lv) (refVisitKeyOf rv)) st)) \<Longrightarrow>
      R path lv rv binary depth lvis rvis st"
  shows "P path left right binary depth lvis rvis st" "Q items depth lvis rvis st" "R path lv rv binary depth lvis rvis st"
proof -
  have "dc1 = dc \<Longrightarrow> P path left right binary depth lvis rvis st" and "dc2 = dc \<Longrightarrow> Q items depth lvis rvis st"
    and "dc3 = dc \<Longrightarrow> R path lv rv binary depth lvis rvis st" for dc1 dc2 dc3
  proof (induction dc1 path left right binary depth lvis rvis st and dc2 items depth lvis rvis st
      and dc3 path lv rv binary depth lvis rvis st rule: diffPresent_diffItems_diffChild.induct)
    case (1 dc' path left right binary depth lvis rvis st)
    then have d: "dc' = dc" by simp
    show ?case
    proof (rule assms(1))
        fix ld rd assume "resolvedNodeType left = resolvedNodeType right" "asDict left = Some ld" "asDict right = Some rd"
        with "1.IH"(3) [of "Some ld" "Some rd" ld rd] d
        show "Q (map (dictItem path ld rd) (unionKeys ld rd)) depth lvis rvis st" by simp
      next
        fix la ra assume a: "asArray left = Some la" "asArray right = Some ra"
        then have "asDict left = None" "resolvedNodeType left = resolvedNodeType right" by auto
        with "1.IH"(1) [of "asDict left" "asDict right" "Some la" "Some ra" la ra] d a
        show "Q (map (arrayItem path la ra binary) (diffIndexes la ra)) depth lvis rvis st" by simp
    qed
  next
    case (3 dc'' path b s items depth lvis rvis st)
    then have d: "dc'' = dc" by simp
    show ?case
    proof (rule assms(3))
        fix l r assume "\<not> fst (stopped dc st)" "s = BothSides l r"
        with "3.IH"(1) [unfolded d, OF surjective_pairing [symmetric]]
        show "R path l r b depth lvis rvis (snd (stopped dc st))" by blast
      next
        let ?t = "diffTurn dc (path, b, s) depth lvis rvis (snd (stopped dc st))"
        assume "\<not> fst (stopped dc st)"
        with "3.IH"(2) [unfolded d, OF surjective_pairing [symmetric], of "fst ?t" "snd ?t"]
        show "Q items depth lvis rvis (snd ?t)" by simp
    qed
  next
    case (4 dc3 path lv rv binary depth lvis rvis st)
    then show ?case using assms(4) by (auto simp: not_less)
  qed (use assms(2) in simp)
  then show "P path left right binary depth lvis rvis st" "Q items depth lvis rvis st" "R path lv rv binary depth lvis rvis st"
    by blast+
qed

section \<open>The summary\<close>

fun reconcileTruncation :: "string list \<Rightarrow> diffNode \<Rightarrow> diffNode" where
  "reconcileTruncation entered (DNode path status kind ck l r cs trunc cap) =
     DNode path status kind ck l r (map (reconcileTruncation entered) cs)
       (trunc \<and> \<not> (cap \<noteq> [] \<and> cap \<in> set entered)) cap"

record diffSummary =
  sumAdded :: nat
  sumRemoved :: nat
  sumChanged :: nat
  sumPagesLeft :: int
  sumPagesRight :: int
  sumVersion :: bool
  sumEncryption :: bool
  sumInfo :: bool
  sumXMP :: bool
  sumTruncated :: nat

definition emptySummary :: diffSummary where
  "emptySummary = \<lparr> sumAdded = 0, sumRemoved = 0, sumChanged = 0, sumPagesLeft = 0, sumPagesRight = 0,
     sumVersion = False, sumEncryption = False, sumInfo = False, sumXMP = False, sumTruncated = 0 \<rparr>"

definition countNode :: "diffNode \<Rightarrow> diffSummary \<Rightarrow> diffSummary" where
  "countNode n s =
     (let s1 = (if dnTruncated n then s\<lparr>sumTruncated := sumTruncated s + 1\<rparr> else s) in
      if dnStatus n = ''added'' then s1\<lparr>sumAdded := sumAdded s1 + 1\<rparr>
      else if dnStatus n = ''removed'' then s1\<lparr>sumRemoved := sumRemoved s1 + 1\<rparr>
      else if dnStatus n = ''changed'' \<and> dnChildren n = [] then s1\<lparr>sumChanged := sumChanged s1 + 1\<rparr>
      else s1)"

fun countDelta :: "diffNode \<Rightarrow> diffSummary \<Rightarrow> diffSummary" where
  "countDelta (DNode path status kind ck l r cs trunc cap) s =
     fold countDelta cs (countNode (DNode path status kind ck l r cs trunc cap) s)"

definition catalogVersion :: "pdfDict \<Rightarrow> string" where
  "catalogVersion cat = nameOf (dictGet cat ''Version'')"

text \<open>Two field maps: as many fields, and every field of the first with its value in the second.\<close>

definition infoEqual :: "(string \<times> string) list \<Rightarrow> (string \<times> string) list \<Rightarrow> bool" where
  "infoEqual a b \<longleftrightarrow> length a = length b
     \<and> list_all (\<lambda>(k, v). (case map_of b k of None \<Rightarrow> [] | Some w \<Rightarrow> w) = v) a"

definition fillSummary :: "diffContext \<Rightarrow> docFacts \<Rightarrow> docFacts \<Rightarrow> pdfDict \<Rightarrow> pdfDict \<Rightarrow> diffSummary \<Rightarrow> diffSummary" where
  "fillSummary dc lf rf lcat rcat s =
     (let lmd = fst (collectMetadata (dcLib dc) (dcLeftDoc dc) lf); rmd = fst (collectMetadata (dcLib dc) (dcRightDoc dc) rf) in
      s\<lparr>sumPagesLeft := dfPageCount lf, sumPagesRight := dfPageCount rf,
        sumVersion := (catalogVersion lcat \<noteq> catalogVersion rcat),
        sumEncryption := (dfEncrypted lf \<noteq> dfEncrypted rf),
        sumInfo := (\<not> infoEqual (mdInfo lmd) (mdInfo rmd)),
        sumXMP := (mdXMP lmd \<noteq> mdXMP rmd)\<rparr>)"

section \<open>The call\<close>

datatype diffAnswer = DiffErr string | DiffCanceled | DiffDone diffNode diffSummary

definition catalogDict :: "pdfDoc \<Rightarrow> string + pdfDict" where
  "catalogDict doc = (case docCatalog doc of
       DErr e \<Rightarrow> Inl e
     | DPanic p \<Rightarrow> Inl (''pdf parsing panic: '' @ p)
     | DObj c \<Rightarrow> Inr (case asDict c of Some d \<Rightarrow> d | None \<Rightarrow> []))"

definition rootVisited :: "pdfDoc \<Rightarrow> string list" where
  "rootVisited doc = (case catalogIndirectRef doc of None \<Rightarrow> [] | Some (n, g) \<Rightarrow> [visitedKey n g])"

definition diffWalk :: "diffContext \<Rightarrow> pdfDict \<Rightarrow> pdfDict \<Rightarrow> diffState \<Rightarrow> diffNode \<times> diffState" where
  "diffWalk dc lcat rcat st =
     diffPresent dc ''/Root'' (PDict lcat) (PDict rcat) False 0 (rootVisited (dcLeftDoc dc)) (rootVisited (dcRightDoc dc)) st"

definition DiffDocuments :: "diffContext \<Rightarrow> docFacts \<Rightarrow> docFacts \<Rightarrow> diffAnswer" where
  "DiffDocuments dc lf rf =
     (case catalogDict (dcLeftDoc dc) of Inl e \<Rightarrow> DiffErr e
      | Inr lcat \<Rightarrow>
     (case catalogDict (dcRightDoc dc) of Inl e \<Rightarrow> DiffErr e
      | Inr rcat \<Rightarrow>
     (case stopped dc \<lparr> dsPairs = [], dsChecks = 0 \<rparr> of (stop0, st0) \<Rightarrow>
        if stop0 then DiffCanceled
        else (case diffWalk dc lcat rcat st0 of (tree, st1) \<Rightarrow>
                if fst (stopped dc st1) then DiffCanceled
                else (let tree' = reconcileTruncation (dsPairs st1) tree in
                      DiffDone tree' (fillSummary dc lf rf lcat rcat (countDelta tree' emptySummary)))))))"

end
