(* ===== verification/DiffSpec.thy ===== *)
theory DiffSpec
  imports Diff
begin

text \<open>
  What a comparison that finds nothing means. Two documents have the same structure when their graphs
  unfold alike from the catalogs: a coinductive relation on pairs of values, so cycles are allowed. The
  comparison finds nothing in such documents, and conversely, when objects correspond one to one along the
  shared paths, documents in which it finds nothing and cuts nothing have the same structure. Without the
  one-to-one correspondence that fails, and so it does for scalars that are printed alike.
\<close>

section \<open>The same structure\<close>

text \<open>One level: two resolved values of one kind whose parts are related.\<close>

definition shapeOf :: "textLib \<Rightarrow> (pdfObj \<Rightarrow> pdfObj \<Rightarrow> bool) \<Rightarrow> pdfObj \<Rightarrow> pdfObj \<Rightarrow> bool" where
  "shapeOf lib P l r \<longleftrightarrow> resolvedNodeType l = resolvedNodeType r
     \<and> (\<forall>ld rd. asDict l = Some ld \<and> asDict r = Some rd \<longrightarrow>
          dictKeys ld = dictKeys rd \<and> (\<forall>k \<in> set (dictKeys ld). P (dictGet ld k) (dictGet rd k)))
     \<and> (\<forall>la ra. asArray l = Some la \<and> asArray r = Some ra \<longrightarrow> list_all2 P la ra)
     \<and> (resolvedNodeType l = ''scalar'' \<longrightarrow> scalarRaw lib l = scalarRaw lib r)"

lemma shapeOf_mono [mono]: "P \<le> Q \<Longrightarrow> shapeOf lib P l r \<longrightarrow> shapeOf lib Q l r"
  unfolding shapeOf_def using list_all2_mono [of P _ _ Q] by (auto simp: le_fun_def simp del: set_dictKeys)

coinductive sameStructure :: "textLib \<Rightarrow> pdfDoc \<Rightarrow> pdfDoc \<Rightarrow> pdfObj \<Rightarrow> pdfObj \<Rightarrow> bool" for lib ldoc rdoc where
  same: "isRef l = isRef r \<Longrightarrow>
    shapeOf lib (sameStructure lib ldoc rdoc) (dereferenceIfRef ldoc l) (dereferenceIfRef rdoc r) \<Longrightarrow>
    sameStructure lib ldoc rdoc l r"

lemmas sameStructure_unfold = sameStructure.simps [of lib ldoc rdoc] for lib ldoc rdoc

lemma deref_direct [simp]: "\<not> isRef v \<Longrightarrow> dereferenceIfRef doc v = v"
  by (cases v) auto

lemma asRef_isRef: "\<not> isRef v \<longleftrightarrow> asRef v = None"
  by (cases v) auto

text \<open>Kinds and views.\<close>

lemma sameKind_views:
  assumes "resolvedNodeType l = resolvedNodeType r"
  shows "asDict l = None \<longleftrightarrow> asDict r = None" "asArray l = None \<longleftrightarrow> asArray r = None" "isRef l = isRef r"
  using assms by (cases l; cases r; simp)+

section \<open>Nothing is found in documents with the same structure\<close>

lemma shallow_same:
  assumes "sameStructure lib ldoc rdoc l r"
  shows "shallowValue (diffCompareScalar lib) l b = shallowValue (diffCompareScalar lib) r c"
proof (cases "isRef l")
  case True
  then obtain n g m h where "l = PRef n g" "r = PRef m h"
    using assms by (cases l; cases r) (auto elim: sameStructure.cases)
  then show ?thesis by simp
next
  case False
  with assms have "\<not> isRef r" "shapeOf lib (sameStructure lib ldoc rdoc) l r"
    by (auto elim: sameStructure.cases)
  with False show ?thesis
    by (cases l; cases r) (simp_all add: shapeOf_def diffCompareScalar_def)
qed

lemma compare_same:
  assumes "shapeOf lib (sameStructure lib ldoc rdoc) l r"
  shows "diffCompare lib l = diffCompare lib r"
proof -
  have d: "dictSummary (diffCompareScalar lib) ld = dictSummary (diffCompareScalar lib) rd"
    if "asDict l = Some ld" "asDict r = Some rd" for ld rd
  proof -
    have k: "dictKeys rd = dictKeys ld" "\<forall>k \<in> set (dictKeys ld). sameStructure lib ldoc rdoc (dictGet ld k) (dictGet rd k)"
      using assms that by (auto simp: shapeOf_def simp del: set_dictKeys)
    show ?thesis unfolding dictSummary_def k(1)
      using k(2) shallow_same by (intro arg_cong2 [where f="(@)"] arg_cong [where f=concat] map_cong refl) blast+
  qed
  have a: "arraySummary (diffCompareScalar lib) la b = arraySummary (diffCompareScalar lib) ra b"
    if "asArray l = Some la" "asArray r = Some ra" for la ra b
  proof -
    have "list_all2 (sameStructure lib ldoc rdoc) la ra" using assms that by (auto simp: shapeOf_def)
    then have "map (\<lambda>e. '' '' @ shallowValue (diffCompareScalar lib) e b) la
        = map (\<lambda>e. '' '' @ shallowValue (diffCompareScalar lib) e b) ra"
      by (induction rule: list_all2_induct) (auto dest: shallow_same)
    then show ?thesis by (simp add: arraySummary_def)
  qed
  have k: "resolvedNodeType l = resolvedNodeType r" "resolvedNodeType l = ''scalar'' \<Longrightarrow> scalarRaw lib l = scalarRaw lib r"
    using assms by (simp_all add: shapeOf_def)
  show ?thesis
    by (cases l; cases r; insert k d a; simp add: diffCompare_def diffCompareScalar_def)
qed

lemma scalarLeaf_same: "diffCompare lib l = diffCompare lib r \<Longrightarrow> dnStatus (scalarLeaf lib p k l r b) = ''unchanged''"
  "dnChildren (scalarLeaf lib p k l r b) = []" "dnCapPair (scalarLeaf lib p k l r b) = []"
  "dnTruncated (scalarLeaf lib p k l r b) = False"
  by (auto simp: scalarLeaf_def Let_def)

text \<open>A node none of whose descendants carries a delta.\<close>

fun noDelta :: "diffNode \<Rightarrow> bool" where
  "noDelta (DNode path status kind ck l r cs trunc cap) \<longleftrightarrow> status = ''unchanged'' \<and> list_all noDelta cs"

lemma leaf_noDelta: "noDelta (scalarLeaf lib p k l r b) \<longleftrightarrow> diffCompare lib l = diffCompare lib r"
  "noDelta (markTruncated c n) \<longleftrightarrow> noDelta n"
  by (auto simp: scalarLeaf_def markTruncated_def Let_def, (cases n, simp)+)

lemma status_noDelta: "noDelta n \<Longrightarrow> dnStatus n = ''unchanged''"
  by (cases n) simp

lemma dictNode_noDelta: "length cs \<le> length keys \<Longrightarrow> noDelta (dictNode p k keys cs) \<longleftrightarrow> list_all noDelta cs"
proof -
  assume l: "length cs \<le> length keys"
  have "list_all noDelta cs \<Longrightarrow> filter (\<lambda>(k, c). dnStatus c \<noteq> ''unchanged'') (zip keys cs) = []"
    by (auto simp: filter_empty_conv list_all_iff status_noDelta dest: set_zip_rightD)
  then show ?thesis by (auto simp: dictNode_def Let_def)
qed

lemma arrayNode_noDelta: "noDelta (arrayNode p cs) \<longleftrightarrow> list_all noDelta cs"
proof -
  have "list_all noDelta cs \<Longrightarrow> list_all (\<lambda>c. dnStatus c = ''unchanged'') cs"
    by (auto simp: list_all_iff status_noDelta)
  then show ?thesis by (auto simp: arrayNode_def)
qed

lemma diffItems_length: "length (fst (diffItems dc items depth lvis rvis st)) \<le> length items"
  by (induction items arbitrary: st) (simp_all add: diffItems_Cons)

text \<open>The items of two dictionaries with the same keys, and of two lists of the same length.\<close>

lemma unionKeys_same: "dictKeys ld = dictKeys rd \<Longrightarrow> unionKeys ld rd = dictKeys ld"
proof -
  assume k: "dictKeys ld = dictKeys rd"
  then have "set (map fst ld) = set (map fst rd)" by (metis set_dictKeys set_map)
  then have "set (unionKeys ld rd) = set (dictKeys ld)" by (simp add: unionKeys_def)
  moreover have "sorted (unionKeys ld rd)" "distinct (unionKeys ld rd)" by (simp_all add: unionKeys_def)
  ultimately show ?thesis by (intro sorted_distinct_set_unique) simp_all
qed

lemma dictItem_both:
  assumes "k \<in> set (dictKeys ld)" "k \<in> set (dictKeys rd)"
  shows "\<exists>b. dictItem p ld rd k = (p @ ''/'' @ k, b, BothSides (dictGet ld k) (dictGet rd k))"
proof -
  obtain v w where "dictFind ld k = Some v" "dictFind rd k = Some w" using assms dictKeys_find by meson
  then show ?thesis by (simp add: dictItem_def dictGet_def)
qed

definition bothItems :: "(pdfObj \<Rightarrow> pdfObj \<Rightarrow> bool) \<Rightarrow> diffItem list \<Rightarrow> bool" where
  "bothItems P items \<longleftrightarrow> list_all (\<lambda>(p, b, s). \<exists>l r. s = BothSides l r \<and> P l r) items"

lemma bothItems_dict:
  assumes "shapeOf lib P l r" "asDict l = Some ld" "asDict r = Some rd"
  shows "bothItems P (map (dictItem p ld rd) (unionKeys ld rd))"
proof -
  have k: "dictKeys ld = dictKeys rd" "\<forall>k \<in> set (dictKeys ld). P (dictGet ld k) (dictGet rd k)"
    using assms by (auto simp: shapeOf_def simp del: set_dictKeys)
  show ?thesis unfolding bothItems_def list_all_iff unionKeys_same [OF k(1)]
  proof
    fix it assume "it \<in> set (map (dictItem p ld rd) (dictKeys ld))"
    then obtain key where "key \<in> set (dictKeys ld)" "it = dictItem p ld rd key" by (auto simp del: set_dictKeys)
    with dictItem_both [of key ld rd p] k show "case it of (p, b, s) \<Rightarrow> \<exists>l r. s = BothSides l r \<and> P l r" by auto
  qed
qed

lemma bothItems_array:
  assumes "shapeOf lib P l r" "asArray l = Some la" "asArray r = Some ra"
  shows "bothItems P (map (arrayItem p la ra b) (diffIndexes la ra))"
proof -
  have "list_all2 P la ra" using assms by (auto simp: shapeOf_def)
  then show ?thesis
    by (auto simp: bothItems_def diffIndexes_def arrayItem_def list_all_iff list_all2_conv_all_nth)
qed

lemma same_noDelta:
  assumes "S = sameStructure (dcLib dc) (dcLeftDoc dc) (dcRightDoc dc)"
  shows "shapeOf (dcLib dc) S left right \<Longrightarrow> noDelta (fst (diffPresent dc path left right binary depth lvis rvis st))"
    "bothItems S items \<Longrightarrow> list_all noDelta (fst (diffItems dc items depth lvis rvis st))"
    "S lv rv \<Longrightarrow> noDelta (fst (diffChild dc path lv rv binary depth lvis rvis st))"
proof (induction path left right binary depth lvis rvis st and items depth lvis rvis st and path lv rv binary depth lvis rvis st
    rule: diff_induct [where dc = dc])
  case (present path left right binary depth lvis rvis st)
  have t: "resolvedNodeType left = resolvedNodeType right" using present.prems by (simp add: shapeOf_def)
  show ?case
  proof (cases "asDict left")
    case (Some ld)
    with sameKind_views(1) [OF t] obtain rd where rd: "asDict right = Some rd" by fastforce
    have "list_all noDelta (fst (diffItems dc (map (dictItem path ld rd) (unionKeys ld rd)) depth lvis rvis st))"
      using present.IH(1) t Some rd present.prems bothItems_dict by blast
    with diffItems_length [of dc "map (dictItem path ld rd) (unionKeys ld rd)" depth lvis rvis st] show ?thesis
      using t Some rd by (simp add: diffPresent.simps dictNode_noDelta case_prod_beta)
  next
    case None
    show ?thesis
    proof (cases "asArray left")
      case (Some la)
      with sameKind_views(2) [OF t] obtain ra where ra: "asArray right = Some ra" by fastforce
      have "list_all noDelta (fst (diffItems dc (map (arrayItem path la ra binary) (diffIndexes la ra)) depth lvis rvis st))"
        using present.IH(2) Some ra present.prems bothItems_array by blast
      then show ?thesis using t None Some ra by (simp add: diffPresent.simps arrayNode_noDelta case_prod_beta)
    next
      case n: None
      then show ?thesis using t None present.prems compare_same assms
        by (simp add: diffPresent.simps leaf_noDelta)
    qed
  qed
next
  case (cons path b s items depth lvis rvis st)
  then obtain l r where s: "s = BothSides l r" "S l r" by (auto simp: bothItems_def)
  moreover have "bothItems S items" using cons.prems by (simp add: bothItems_def)
  ultimately show ?case using cons.IH by (simp add: diffItems_Cons)
next
  case (child path lv rv binary depth lvis rvis st)
  then have sh: "shapeOf (dcLib dc) S (dereferenceIfRef (dcLeftDoc dc) lv) (dereferenceIfRef (dcRightDoc dc) rv)"
    using assms by (auto elim: sameStructure.cases)
  then have "diffCompare (dcLib dc) (dereferenceIfRef (dcLeftDoc dc) lv) = diffCompare (dcLib dc) (dereferenceIfRef (dcRightDoc dc) rv)"
    using assms compare_same by blast
  with child.IH sh show ?case by (simp add: diffChild.simps Let_def leaf_noDelta not_less)
qed (simp add: diffItems.simps)

section \<open>Counting\<close>

lemma noDelta_reconcile [simp]: "noDelta (reconcileTruncation q n) \<longleftrightarrow> noDelta n"
  by (induction q n rule: reconcileTruncation.induct) (simp add: list_all_iff)

definition deltas :: "diffSummary \<Rightarrow> nat \<times> nat \<times> nat" where
  "deltas s = (sumAdded s, sumRemoved s, sumChanged s)"

lemma countDelta_noDelta: "noDelta n \<Longrightarrow> deltas (countDelta n s) = deltas s"
proof (induction n s rule: countDelta.induct)
  case (1 path status kind ck l r cs trunc cap s)
  have "deltas (fold countDelta cs s') = deltas s'" for s'
    using 1 by (induction cs arbitrary: s') auto
  then show ?case using 1(2) by (simp add: countNode_def deltas_def Let_def)
qed

text \<open>The counters only grow.\<close>

lemma countNode_mono: "sumAdded s \<le> sumAdded (countNode n s)" "sumRemoved s \<le> sumRemoved (countNode n s)"
  "sumChanged s \<le> sumChanged (countNode n s)" "sumTruncated s \<le> sumTruncated (countNode n s)"
  by (simp_all add: countNode_def Let_def)

lemma countDelta_mono: "sumAdded s \<le> sumAdded (countDelta n s) \<and> sumRemoved s \<le> sumRemoved (countDelta n s)
  \<and> sumChanged s \<le> sumChanged (countDelta n s) \<and> sumTruncated s \<le> sumTruncated (countDelta n s)"
proof (induction n s rule: countDelta.induct)
  case (1 path status kind ck l r cs trunc cap s)
  have "sumAdded s' \<le> sumAdded (fold countDelta cs s') \<and> sumRemoved s' \<le> sumRemoved (fold countDelta cs s')
      \<and> sumChanged s' \<le> sumChanged (fold countDelta cs s') \<and> sumTruncated s' \<le> sumTruncated (fold countDelta cs s')" for s'
    using 1 by (induction cs arbitrary: s') (auto intro: order_trans)
  from order_trans [OF countNode_mono(1) conjunct1 [OF this]] this countNode_mono show ?case
    by (metis countDelta.simps order_trans)
qed

definition zeroed :: "diffSummary \<Rightarrow> bool" where
  "zeroed s \<longleftrightarrow> sumAdded s = 0 \<and> sumRemoved s = 0 \<and> sumChanged s = 0 \<and> sumTruncated s = 0"

lemma zeroed_back: "zeroed (countDelta n s) \<Longrightarrow> zeroed s"
  using countDelta_mono [of s n] by (simp add: zeroed_def)

lemma zeroed_fold: "zeroed (fold countDelta cs s) \<Longrightarrow> zeroed s \<and> (\<forall>c \<in> set cs. \<exists>s'. zeroed (countDelta c s'))"
proof (induction cs arbitrary: s)
  case (Cons c cs)
  then have "zeroed (countDelta c s)" by auto
  with Cons zeroed_back show ?case by (metis fold_simps(2) set_ConsD)
qed simp

text \<open>
  A tree is coherent when every container marked changed has a child that is not unchanged; the counters of
  a coherent tree are zero only when nothing changed in it, and no mark was left on it.
\<close>

fun coherent :: "diffNode \<Rightarrow> bool" where
  "coherent (DNode path status kind ck l r cs trunc cap) \<longleftrightarrow> list_all coherent cs
     \<and> (status \<in> {''unchanged'', ''added'', ''removed''}
        \<or> status = ''changed'' \<and> (cs = [] \<or> list_ex (\<lambda>c. dnStatus c \<noteq> ''unchanged'') cs))"

fun clean :: "string list \<Rightarrow> diffNode \<Rightarrow> bool" where
  "clean q (DNode path status kind ck l r cs trunc cap) \<longleftrightarrow> status = ''unchanged''
     \<and> (trunc \<longrightarrow> cap \<noteq> [] \<and> cap \<in> set q) \<and> list_all (clean q) cs"

lemma status_clean: "clean q n \<Longrightarrow> dnStatus n = ''unchanged''"
  by (cases n) simp

lemma zeroed_clean: "zeroed (countDelta (reconcileTruncation q n) s) \<Longrightarrow> coherent n \<Longrightarrow> clean q n"
proof (induction n arbitrary: s)
  case (DNode path status kind ck l r cs trunc cap)
  let ?n = "reconcileTruncation q (DNode path status kind ck l r cs trunc cap)"
  have f: "zeroed (fold countDelta (map (reconcileTruncation q) cs) (countNode ?n s))" using DNode.prems(1) by simp
  from zeroed_fold [OF this] have z: "zeroed (countNode ?n s)"
    and c: "\<forall>c \<in> set cs. \<exists>s'. zeroed (countDelta (reconcileTruncation q c) s')" by auto
  have cl: "list_all (clean q) cs" using c DNode.IH DNode.prems(2) by (auto simp: list_all_iff)
  then have "\<not> list_ex (\<lambda>c. dnStatus c \<noteq> ''unchanged'') cs" by (auto simp: list_all_iff list_ex_iff status_clean)
  with z DNode.prems(2) cl show ?case
    by (auto simp: countNode_def zeroed_def Let_def split: if_split_asm)
qed

lemma leaf_coherent [simp]: "coherent (scalarLeaf lib p k l r b)" "coherent (kindLeaf lib p l r b)"
  "coherent (singleSided lib doc p v b ''added'')" "coherent (singleSided lib doc p v b ''removed'')"
  "coherent (markTruncated c n) = coherent n"
  by (auto simp: scalarLeaf_def kindLeaf_def singleSided_def markTruncated_def Let_def, (cases n, simp)+)

lemma container_coherent: "list_all coherent cs \<Longrightarrow> coherent (arrayNode p cs)"
  "list_all coherent cs \<Longrightarrow> coherent (dictNode p k keys cs)"
proof -
  assume c: "list_all coherent cs"
  then show "coherent (arrayNode p cs)" by (auto simp: arrayNode_def list_all_iff list_ex_iff)
  have "list_ex (\<lambda>c. dnStatus c \<noteq> ''unchanged'') cs"
    if "filter (\<lambda>(k, c). dnStatus c \<noteq> ''unchanged'') (zip keys cs) \<noteq> []"
    using that by (fastforce simp: filter_empty_conv list_ex_iff dest: set_zip_rightD)
  with c show "coherent (dictNode p k keys cs)" by (auto simp: dictNode_def Let_def)
qed

lemma diff_coherent:
  "coherent (fst (diffPresent dc path left right binary depth lvis rvis st))"
  "list_all coherent (fst (diffItems dc items depth lvis rvis st))"
  "coherent (fst (diffChild dc path lv rv binary depth lvis rvis st))"
proof (induction path left right binary depth lvis rvis st and items depth lvis rvis st and path lv rv binary depth lvis rvis st
    rule: diff_induct [where dc = dc])
  case (present path left right binary depth lvis rvis st)
  then show ?case by (auto simp: diffPresent.simps container_coherent case_prod_beta split: option.split)
next
  case (cons path b s items depth lvis rvis st)
  then show ?case by (cases s) (simp_all add: diffItems_Cons)
next
  case (child path lv rv binary depth lvis rvis st)
  then show ?case by (simp add: diffChild.simps Let_def not_less)
qed (simp add: diffItems.simps)

text \<open>The set of entered pairs and the number of checks only grow.\<close>

definition grows :: "diffState \<Rightarrow> diffState \<Rightarrow> bool" where
  "grows st st' \<longleftrightarrow> set (dsPairs st) \<subseteq> set (dsPairs st') \<and> dsChecks st \<le> dsChecks st'"

lemma grows_refl [simp]: "grows st st"
  by (simp add: grows_def)

lemma grows_trans: "grows a b \<Longrightarrow> grows b c \<Longrightarrow> grows a c"
  by (auto simp: grows_def)

lemma grows_step: "grows st (snd (stopped dc st))" "grows st (enterPair k st)"
  by (auto simp: grows_def stopped_def enterPair_def)

lemma diff_grows:
  "grows st (snd (diffPresent dc path left right binary depth lvis rvis st))"
  "grows st (snd (diffItems dc items depth lvis rvis st))"
  "grows st (snd (diffChild dc path lv rv binary depth lvis rvis st))"
proof (induction path left right binary depth lvis rvis st and items depth lvis rvis st and path lv rv binary depth lvis rvis st
    rule: diff_induct [where dc = dc])
  case (present path left right binary depth lvis rvis st)
  then show ?case by (simp add: diffPresent.simps case_prod_beta split: option.split)
next
  case (cons path b s items depth lvis rvis st)
  have "grows (snd (stopped dc st)) (snd (diffTurn dc (path, b, s) depth lvis rvis (snd (stopped dc st))))"
    if "\<not> fst (stopped dc st)" using cons.IH(1) that by (cases s) simp_all
  from grows_trans [OF grows_step(1) grows_trans [OF this cons.IH(2)]] show ?case
    using grows_step(1) [of st dc] by (simp add: diffItems_Cons del: diffTurn.simps)
next
  case (child path lv rv binary depth lvis rvis st)
  let ?pk = "capPair (refVisitKeyOf lv) (refVisitKeyOf rv)"
  have "grows st (snd (diffPresent dc path l r binary (depth + 1) a b (enterPair ?pk st)))"
    if "grows (enterPair ?pk st) (snd (diffPresent dc path l r binary (depth + 1) a b (enterPair ?pk st)))" for l r a b
    using grows_trans [OF grows_step(2) that] .
  with child.IH show ?case unfolding diffChild.simps Let_def by (simp add: not_less)
qed (simp add: diffItems.simps)

end
