(* ===== verification/DiffSound.thy ===== *)
theory DiffSound
  imports DiffSpec
begin

text \<open>
  The converse direction for the comparison of documents: what a comparison that finds nothing shows, the
  condition it needs, and two ways in which documents that differ are reported alike without it.
\<close>

section \<open>Objects that correspond\<close>

text \<open>The pairs of values that stand at one path of both documents.\<close>

inductive meets :: "pdfDoc \<Rightarrow> pdfDoc \<Rightarrow> pdfDict \<Rightarrow> pdfDict \<Rightarrow> pdfObj \<Rightarrow> pdfObj \<Rightarrow> bool" for ldoc rdoc lcat rcat where
  meets_catalog: "meets ldoc rdoc lcat rcat (PDict lcat) (PDict rcat)"
| meets_entry: "meets ldoc rdoc lcat rcat l r \<Longrightarrow> asDict (dereferenceIfRef ldoc l) = Some ld \<Longrightarrow>
    asDict (dereferenceIfRef rdoc r) = Some rd \<Longrightarrow> k \<in> set (dictKeys ld) \<Longrightarrow> k \<in> set (dictKeys rd) \<Longrightarrow>
    meets ldoc rdoc lcat rcat (dictGet ld k) (dictGet rd k)"
| meets_element: "meets ldoc rdoc lcat rcat l r \<Longrightarrow> asArray (dereferenceIfRef ldoc l) = Some la \<Longrightarrow>
    asArray (dereferenceIfRef rdoc r) = Some ra \<Longrightarrow> i < length la \<Longrightarrow> i < length ra \<Longrightarrow>
    meets ldoc rdoc lcat rcat (la ! i) (ra ! i)"

text \<open>
  References meet references only, an object of one side meets one object of the other, and the two
  catalogs, when they have a number, meet each other only and are what their numbers name.
\<close>

definition oneToOne :: "pdfDoc \<Rightarrow> pdfDoc \<Rightarrow> pdfDict \<Rightarrow> pdfDict \<Rightarrow> bool" where
  "oneToOne ldoc rdoc lcat rcat \<longleftrightarrow>
     (\<forall>l r. meets ldoc rdoc lcat rcat l r \<longrightarrow> isRef l = isRef r)
     \<and> (\<forall>n g m h n' g' m' h'. meets ldoc rdoc lcat rcat (PRef n g) (PRef m h) \<and> meets ldoc rdoc lcat rcat (PRef n' g') (PRef m' h')
          \<longrightarrow> (n = n' \<and> g = g') = (m = m' \<and> h = h'))
     \<and> (\<forall>n g m h. meets ldoc rdoc lcat rcat (PRef n g) (PRef m h) \<longrightarrow> (docRoot ldoc = Some (n, g)) = (docRoot rdoc = Some (m, h)))
     \<and> (\<forall>n g. docRoot ldoc = Some (n, g) \<longrightarrow> dereferenceIfRef ldoc (PRef n g) = PDict lcat)
     \<and> (\<forall>m h. docRoot rdoc = Some (m, h) \<longrightarrow> dereferenceIfRef rdoc (PRef m h) = PDict rcat)"

lemma oneToOneD:
  assumes "oneToOne ldoc rdoc lcat rcat"
  shows "meets ldoc rdoc lcat rcat l r \<Longrightarrow> isRef l = isRef r"
    "meets ldoc rdoc lcat rcat (PRef n g) (PRef m h) \<Longrightarrow> meets ldoc rdoc lcat rcat (PRef n' g') (PRef m' h') \<Longrightarrow>
      (n = n' \<and> g = g') = (m = m' \<and> h = h')"
    "meets ldoc rdoc lcat rcat (PRef n g) (PRef m h) \<Longrightarrow> (docRoot ldoc = Some (n, g)) = (docRoot rdoc = Some (m, h))"
    "docRoot ldoc = Some (n, g) \<Longrightarrow> dereferenceIfRef ldoc (PRef n g) = PDict lcat"
    "docRoot rdoc = Some (m, h) \<Longrightarrow> dereferenceIfRef rdoc (PRef m h) = PDict rcat"
  using assms unfolding oneToOne_def by blast+

section \<open>Pairs the walk has accounted for\<close>

definition pairKey :: "int \<Rightarrow> int \<Rightarrow> int \<Rightarrow> int \<Rightarrow> string" where
  "pairKey n g m h = visitedKey n g @ ''|'' @ visitedKey m h"

lemma pairKey_inject [simp]: "pairKey n g m h = pairKey n' g' m' h' \<longleftrightarrow> n = n' \<and> g = g' \<and> m = m' \<and> h = h'"
proof
  assume "pairKey n g m h = pairKey n' g' m' h'"
  then have e: "showInt n @ '':'' @ showInt g @ ''|'' @ visitedKey m h = showInt n' @ '':'' @ showInt g' @ ''|'' @ visitedKey m' h'"
    by (simp add: pairKey_def visitedKey_def)
  have bar: "\<not> numChar (CHR ''|'')" "\<not> numChar (CHR '':'')" by (simp_all add: numChar_def isDigit_def)
  have n: "n = n'" by (rule showInt_append_inject(1) [OF e]) (simp_all add: bar)
  with e have e2: "showInt g @ ''|'' @ visitedKey m h = showInt g' @ ''|'' @ visitedKey m' h'" by simp
  have g: "g = g'" by (rule showInt_append_inject(1) [OF e2]) (simp_all add: bar)
  with e2 have "visitedKey m h = visitedKey m' h'" by simp
  with n g show "n = n' \<and> g = g' \<and> m = m' \<and> h = h'" by simp
qed simp

lemma capPair_refs [simp]: "capPair (refVisitKeyOf (PRef n g)) (refVisitKeyOf (PRef m h)) = pairKey n g m h"
  "pairKey n g m h \<noteq> []"
  by (simp_all add: capPair_def refVisitKeyOf_def pairKey_def)

lemma direct_key [simp]: "\<not> isRef v \<Longrightarrow> refVisitKeyOf v = None"
  by (simp add: refVisitKeyOf_def asRef_isRef)

inductive accounted :: "textLib \<Rightarrow> pdfDoc \<Rightarrow> pdfDoc \<Rightarrow> string list \<Rightarrow> pdfObj \<Rightarrow> pdfObj \<Rightarrow> bool" for lib ldoc rdoc q where
  acc_pair: "pairKey n g m h \<in> set q \<Longrightarrow> accounted lib ldoc rdoc q (PRef n g) (PRef m h)"
| acc_root: "docRoot ldoc = Some (n, g) \<Longrightarrow> docRoot rdoc = Some (m, h) \<Longrightarrow> accounted lib ldoc rdoc q (PRef n g) (PRef m h)"
| acc_direct: "\<not> isRef l \<Longrightarrow> \<not> isRef r \<Longrightarrow> shapeOf lib (accounted lib ldoc rdoc q) l r \<Longrightarrow> accounted lib ldoc rdoc q l r"

text \<open>The entered pairs that a call adds have been compared one level deep.\<close>

definition newClosed :: "textLib \<Rightarrow> pdfDoc \<Rightarrow> pdfDoc \<Rightarrow> string list \<Rightarrow> diffState \<Rightarrow> diffState \<Rightarrow> bool" where
  "newClosed lib ldoc rdoc q st st' \<longleftrightarrow>
     (\<forall>n g m h. pairKey n g m h \<in> set (dsPairs st') \<longrightarrow> pairKey n g m h \<notin> set (dsPairs st) \<longrightarrow>
        shapeOf lib (accounted lib ldoc rdoc q) (dereferenceIfRef ldoc (PRef n g)) (dereferenceIfRef rdoc (PRef m h)))"

lemma newClosed_refl [simp]: "newClosed lib ldoc rdoc q st st"
  by (simp add: newClosed_def)

lemma newClosed_trans: "newClosed lib ldoc rdoc q a b \<Longrightarrow> newClosed lib ldoc rdoc q b c \<Longrightarrow> newClosed lib ldoc rdoc q a c"
  unfolding newClosed_def by blast

lemma newClosed_stopped [simp]: "newClosed lib ldoc rdoc q (snd (stopped dc st)) b = newClosed lib ldoc rdoc q st b"
  by (simp add: newClosed_def stopped_def)

text \<open>An object on the current path has been entered together with its counterpart.\<close>

definition pathEntered :: "pdfDoc \<Rightarrow> pdfDoc \<Rightarrow> pdfDict \<Rightarrow> pdfDict \<Rightarrow> string list \<Rightarrow> string list \<Rightarrow> diffState \<Rightarrow> bool" where
  "pathEntered ldoc rdoc lcat rcat lvis rvis st \<longleftrightarrow>
     (\<forall>n g m h. meets ldoc rdoc lcat rcat (PRef n g) (PRef m h) \<longrightarrow>
        visitedKey n g \<in> set lvis \<or> visitedKey m h \<in> set rvis \<longrightarrow>
        pairKey n g m h \<in> set (dsPairs st) \<or> docRoot ldoc = Some (n, g))"

lemma pathEntered_grows: "pathEntered ldoc rdoc lcat rcat lvis rvis st \<Longrightarrow> grows st st' \<Longrightarrow> pathEntered ldoc rdoc lcat rcat lvis rvis st'"
  unfolding pathEntered_def grows_def by blast

lemma pathEntered_push:
  assumes "oneToOne ldoc rdoc lcat rcat" "meets ldoc rdoc lcat rcat (PRef n g) (PRef m h)" "pathEntered ldoc rdoc lcat rcat lvis rvis st"
  shows "pathEntered ldoc rdoc lcat rcat (visitedKey n g # lvis) (visitedKey m h # rvis) (enterPair (pairKey n g m h) st)"
proof -
  have e: "pairKey n' g' m' h' = pairKey n g m h"
    if "meets ldoc rdoc lcat rcat (PRef n' g') (PRef m' h')" "visitedKey n' g' = visitedKey n g \<or> visitedKey m' h' = visitedKey m h"
    for n' g' m' h'
    using oneToOneD(2) [OF assms(1,2) that(1)] that(2) by auto
  show ?thesis unfolding pathEntered_def
  proof (intro allI impI)
    fix n' g' m' h'
    assume mt: "meets ldoc rdoc lcat rcat (PRef n' g') (PRef m' h')"
      and v: "visitedKey n' g' \<in> set (visitedKey n g # lvis) \<or> visitedKey m' h' \<in> set (visitedKey m h # rvis)"
    show "pairKey n' g' m' h' \<in> set (dsPairs (enterPair (pairKey n g m h) st)) \<or> docRoot ldoc = Some (n', g')"
    proof (cases "visitedKey n' g' = visitedKey n g \<or> visitedKey m' h' = visitedKey m h")
      case True
      from e [OF mt this] show ?thesis by (simp add: enterPair_def)
    next
      case False
      with v assms(3) mt show ?thesis unfolding pathEntered_def by (auto simp: enterPair_def)
    qed
  qed
qed

text \<open>A check that is not the last one was not stopped.\<close>

definition live :: "diffContext \<Rightarrow> diffState \<Rightarrow> bool" where
  "live dc st \<longleftrightarrow> (case dcCloseAt dc of None \<Rightarrow> True | Some k \<Rightarrow> dsChecks st \<le> k)"

lemma live_grows: "live dc st' \<Longrightarrow> grows st st' \<Longrightarrow> live dc st"
  by (auto simp: live_def grows_def split: option.splits)

lemma live_stopped: "live dc (snd (stopped dc st)) \<Longrightarrow> \<not> fst (stopped dc st)" "\<not> fst (stopped dc st) \<Longrightarrow> live dc st"
  by (auto simp: live_def stopped_def split: option.splits)

section \<open>The shape of two containers whose items are all on both sides\<close>

lemma both_keys:
  assumes "bothItems P (map (dictItem path ld rd) (unionKeys ld rd))"
  shows "dictKeys ld = dictKeys rd" "\<forall>k \<in> set (dictKeys ld). P (dictGet ld k) (dictGet rd k)"
proof -
  have b: "\<exists>v w. dictFind ld k = Some v \<and> dictFind rd k = Some w \<and> P v w" if "k \<in> set (unionKeys ld rd)" for k
    using assms that by (auto simp: bothItems_def dictItem_def list_all_iff split: option.split_asm) fastforce+
  have u: "set (unionKeys ld rd) = set (dictKeys ld) \<union> set (dictKeys rd)" by (simp add: unionKeys_def)
  have "set (dictKeys ld) = set (dictKeys rd)" using b dictKeys_find unfolding u by blast
  then show e: "dictKeys ld = dictKeys rd" by (intro sorted_distinct_set_unique) simp_all
  show "\<forall>k \<in> set (dictKeys ld). P (dictGet ld k) (dictGet rd k)"
    using b u dictGet_find by (metis UnI1)
qed

lemma both_elements:
  assumes "bothItems P (map (arrayItem path la ra b) (diffIndexes la ra))"
  shows "list_all2 P la ra"
proof -
  have i: "i < length la \<and> i < length ra \<and> P (la ! i) (ra ! i)" if "i < max (length la) (length ra)" for i
  proof -
    have "arrayItem path la ra b i \<in> set (map (arrayItem path la ra b) (diffIndexes la ra))"
      using that by (simp add: diffIndexes_def)
    with assms have "\<exists>l r. snd (snd (arrayItem path la ra b i)) = BothSides l r \<and> P l r"
      unfolding bothItems_def list_all_iff by (auto simp: case_prod_beta)
    then show ?thesis by (simp add: arrayItem_def split: if_split_asm)
  qed
  have "length la = length ra" using i [of "length la"] i [of "length ra"] by (cases "length la" "length ra" rule: linorder_cases) auto
  with i show ?thesis by (simp add: list_all2_conv_all_nth)
qed

section \<open>The walk accounts for what it calls unchanged\<close>

lemma clean_leaf: "clean q (scalarLeaf lib p k l r b) \<Longrightarrow> diffCompare lib l = diffCompare lib r"
  "\<not> clean q (kindLeaf lib p l r b)" "\<not> clean q (singleSided lib doc p v b ''added'')" "\<not> clean q (singleSided lib doc p v b ''removed'')"
  "clean q (markTruncated c n) \<Longrightarrow> c \<noteq> [] \<and> c \<in> set q"
  by (auto simp: scalarLeaf_def kindLeaf_def singleSided_def markTruncated_def Let_def split: if_split_asm)

lemma clean_container: "clean q (dictNode p k keys cs) \<Longrightarrow> list_all (clean q) cs" "clean q (arrayNode p cs) \<Longrightarrow> list_all (clean q) cs"
  by (auto simp: dictNode_def arrayNode_def Let_def)

lemma meets_items:
  assumes "meets ldoc rdoc lcat rcat l r"
  shows "asDict (dereferenceIfRef ldoc l) = Some ld \<Longrightarrow> asDict (dereferenceIfRef rdoc r) = Some rd \<Longrightarrow>
      (p, b, BothSides v w) \<in> set (map (dictItem path ld rd) (unionKeys ld rd)) \<Longrightarrow> meets ldoc rdoc lcat rcat v w"
    "asArray (dereferenceIfRef ldoc l) = Some la \<Longrightarrow> asArray (dereferenceIfRef rdoc r) = Some ra \<Longrightarrow>
      (p, b, BothSides v w) \<in> set (map (arrayItem path la ra binary) (diffIndexes la ra)) \<Longrightarrow> meets ldoc rdoc lcat rcat v w"
proof -
  assume d: "asDict (dereferenceIfRef ldoc l) = Some ld" "asDict (dereferenceIfRef rdoc r) = Some rd"
    and "(p, b, BothSides v w) \<in> set (map (dictItem path ld rd) (unionKeys ld rd))"
  then obtain k where k: "dictFind ld k = Some v" "dictFind rd k = Some w"
    by (fastforce simp: dictItem_def split: option.split_asm)
  then have "k \<in> set (dictKeys ld)" "k \<in> set (dictKeys rd)" using dictKeys_find by blast+
  from meets_entry [OF assms d this] k show "meets ldoc rdoc lcat rcat v w" by (simp add: dictGet_find)
next
  assume a: "asArray (dereferenceIfRef ldoc l) = Some la" "asArray (dereferenceIfRef rdoc r) = Some ra"
    and "(p, b, BothSides v w) \<in> set (map (arrayItem path la ra binary) (diffIndexes la ra))"
  then obtain i where "i < length la" "i < length ra" "v = la ! i" "w = ra ! i"
    by (auto simp: arrayItem_def split: if_split_asm)
  with meets_element [OF assms a] show "meets ldoc rdoc lcat rcat v w" by simp
qed

lemma shape_dict:
  assumes "resolvedNodeType l = resolvedNodeType r" "asDict l = Some ld" "asDict r = Some rd"
    "dictKeys ld = dictKeys rd" "\<forall>k \<in> set (dictKeys ld). P (dictGet ld k) (dictGet rd k)"
  shows "shapeOf lib P l r"
  unfolding shapeOf_def using assms by (cases l; cases r) (simp_all del: set_dictKeys)

lemma leaf_shape:
  assumes "resolvedNodeType l = resolvedNodeType r" "asDict l = None" "asArray l = None" "diffCompare lib l = diffCompare lib r"
  shows "shapeOf lib P l r"
proof -
  have "resolvedNodeType l = ''scalar'' \<Longrightarrow> scalarRaw lib l = scalarRaw lib r"
    using assms(4) assms(1) by (cases l; cases r) (simp_all add: diffCompare_def diffCompareScalar_def)
  with assms(1-3) show ?thesis by (simp add: shapeOf_def)
qed

lemma walk_accounts:
  assumes o: "oneToOne (dcLeftDoc dc) (dcRightDoc dc) lcat rcat"
    and M: "M = meets (dcLeftDoc dc) (dcRightDoc dc) lcat rcat"
    and A: "A = accounted (dcLib dc) (dcLeftDoc dc) (dcRightDoc dc) q"
    and N: "N = newClosed (dcLib dc) (dcLeftDoc dc) (dcRightDoc dc) q"
    and E: "E = pathEntered (dcLeftDoc dc) (dcRightDoc dc) lcat rcat"
    and K: "K = (\<lambda>st'. live dc st' \<and> set (dsPairs st') \<subseteq> set q)"
  shows "(\<exists>l r. M l r \<and> left = dereferenceIfRef (dcLeftDoc dc) l \<and> right = dereferenceIfRef (dcRightDoc dc) r) \<Longrightarrow> E lvis rvis st \<Longrightarrow>
      K (snd (diffPresent dc path left right binary depth lvis rvis st)) \<Longrightarrow> clean q (fst (diffPresent dc path left right binary depth lvis rvis st)) \<Longrightarrow>
      shapeOf (dcLib dc) A left right \<and> N st (snd (diffPresent dc path left right binary depth lvis rvis st))"
    "(\<forall>p b v w. (p, b, BothSides v w) \<in> set items \<longrightarrow> M v w) \<Longrightarrow> E lvis rvis st \<Longrightarrow>
      K (snd (diffItems dc items depth lvis rvis st)) \<Longrightarrow> list_all (clean q) (fst (diffItems dc items depth lvis rvis st)) \<Longrightarrow>
      bothItems A items \<and> N st (snd (diffItems dc items depth lvis rvis st))"
    "M lv rv \<Longrightarrow> E lvis rvis st \<Longrightarrow>
      K (snd (diffChild dc path lv rv binary depth lvis rvis st)) \<Longrightarrow> clean q (fst (diffChild dc path lv rv binary depth lvis rvis st)) \<Longrightarrow>
      A lv rv \<and> N st (snd (diffChild dc path lv rv binary depth lvis rvis st))"
proof (induction path left right binary depth lvis rvis st and items depth lvis rvis st and path lv rv binary depth lvis rvis st
    rule: diff_induct [where dc = dc])
  case (present path left right binary depth lvis rvis st)
  then obtain l r where lr: "M l r" "left = dereferenceIfRef (dcLeftDoc dc) l" "right = dereferenceIfRef (dcRightDoc dc) r" by blast
  have t: "resolvedNodeType left = resolvedNodeType right"
    using present.prems(4) clean_leaf(2) by (auto simp: diffPresent.simps split: if_split_asm)
  show ?case
  proof (cases "asDict left")
    case (Some ld)
    with sameKind_views(1) [OF t] obtain rd where rd: "asDict right = Some rd" by fastforce
    let ?items = "map (dictItem path ld rd) (unionKeys ld rd)"
    have eq: "diffPresent dc path left right binary depth lvis rvis st
        = (dictNode path (resolvedNodeType left) (unionKeys ld rd) (fst (diffItems dc ?items depth lvis rvis st)), snd (diffItems dc ?items depth lvis rvis st))"
      using t Some rd by (simp add: diffPresent.simps case_prod_beta)
    have m: "\<forall>p b v w. (p, b, BothSides v w) \<in> set ?items \<longrightarrow> M v w"
      using meets_items(1) [OF lr(1) [unfolded M]] Some rd lr(2,3) M by blast
    have "bothItems A ?items \<and> N st (snd (diffItems dc ?items depth lvis rvis st))"
      by (rule present.IH(1) [OF t Some rd m present.prems(2)]) (use present.prems(3,4) eq clean_container(1) in auto)
    with shape_dict [OF t Some rd] both_keys [of A path ld rd] eq show ?thesis by (simp del: set_dictKeys)
  next
    case None
    show ?thesis
    proof (cases "asArray left")
      case (Some la)
      with sameKind_views(2) [OF t] obtain ra where ra: "asArray right = Some ra" by fastforce
      let ?items = "map (arrayItem path la ra binary) (diffIndexes la ra)"
      have eq: "diffPresent dc path left right binary depth lvis rvis st
          = (arrayNode path (fst (diffItems dc ?items depth lvis rvis st)), snd (diffItems dc ?items depth lvis rvis st))"
        using t None Some ra by (simp add: diffPresent.simps case_prod_beta)
      have m: "\<forall>p b v w. (p, b, BothSides v w) \<in> set ?items \<longrightarrow> M v w"
        using meets_items(2) [OF lr(1) [unfolded M]] Some ra lr(2,3) M by blast
      have "bothItems A ?items \<and> N st (snd (diffItems dc ?items depth lvis rvis st))"
        by (rule present.IH(2) [OF Some ra m present.prems(2)]) (use present.prems(3,4) eq clean_container(2) in auto)
      with both_elements [of A path la ra binary] eq t None Some ra show ?thesis by (simp add: shapeOf_def)
    next
      case n: None
      then have eq: "diffPresent dc path left right binary depth lvis rvis st
          = (scalarLeaf (dcLib dc) path (resolvedNodeType left) left right binary, st)"
        using t None by (simp add: diffPresent.simps)
      with present.prems(4) clean_leaf(1) have "diffCompare (dcLib dc) left = diffCompare (dcLib dc) right" by auto
      from leaf_shape [OF t None n this] eq show ?thesis by (simp add: N)
    qed
  qed
next
  case (cons path b s items depth lvis rvis st)
  let ?st1 = "snd (stopped dc st)" and ?t = "diffTurn dc (path, b, s) depth lvis rvis (snd (stopped dc st))"
  have go: "\<not> fst (stopped dc st)"
  proof
    assume stop: "fst (stopped dc st)"
    with cons.prems(3) have "live dc ?st1" by (simp add: diffItems_Cons K)
    with live_stopped(1) stop show False by blast
  qed
  have eq: "diffItems dc ((path, b, s) # items) depth lvis rvis st
      = (fst ?t # fst (diffItems dc items depth lvis rvis (snd ?t)), snd (diffItems dc items depth lvis rvis (snd ?t)))"
    using go by (simp add: diffItems_Cons)
  have c: "clean q (fst ?t)" "list_all (clean q) (fst (diffItems dc items depth lvis rvis (snd ?t)))"
    and k2: "K (snd (diffItems dc items depth lvis rvis (snd ?t)))" using cons.prems(3,4) unfolding eq by simp_all
  have g: "grows (snd ?t) (snd (diffItems dc items depth lvis rvis (snd ?t)))" by (rule diff_grows(2))
  have k1: "K (snd ?t)" using k2 live_grows [OF _ g] g unfolding K grows_def by blast
  obtain l r where s: "s = BothSides l r" using c(1) clean_leaf(3,4) by (cases s) auto
  have e1: "E lvis rvis ?st1" using cons.prems(2) pathEntered_grows [OF _ grows_step(1)] unfolding E by blast
  have a: "A l r \<and> N ?st1 (snd ?t)"
    using cons.IH(1) [OF go s _ e1] cons.prems(1) k1 c(1) s by simp
  have "E lvis rvis (snd ?t)"
    using e1 pathEntered_grows diff_grows(3) [of ?st1 dc path l r b depth lvis rvis] unfolding E s by simp
  then have "bothItems A items \<and> N (snd ?t) (snd (diffItems dc items depth lvis rvis (snd ?t)))"
    using cons.IH(2) [OF go] cons.prems(1) k2 c(2) by simp
  with a s show ?case unfolding eq snd_conv using newClosed_trans by (auto simp: bothItems_def N)
next
  case (child path lv rv binary depth lvis rvis st)
  have i: "isRef lv = isRef rv" using oneToOneD(1) [OF o] child.prems(1) M by blast
  show ?case
  proof (cases "isRef lv")
    case False
    with i have f: "\<not> isRef rv" by simp
    have d: "diffChild dc path lv rv binary depth lvis rvis st = diffPresent dc path lv rv binary (depth + 1) lvis rvis st \<and> depth + 1 \<le> maxResolveDepth"
      using child.prems(4) clean_leaf(5) False f
      by (auto simp: diffChild.simps Let_def onPath_def capPair_def pushKey_def enterPair_def split: if_split_asm)
    have "shapeOf (dcLib dc) A lv rv \<and> N st (snd (diffPresent dc path lv rv binary (depth + 1) lvis rvis st))"
      using child.IH False f d child.prems M
      by (simp add: onPath_def capPair_def pushKey_def enterPair_def) (metis deref_direct)
    with acc_direct [OF False f] d show ?thesis by (simp add: A)
  next
    case True
    with i obtain n g m h where v: "lv = PRef n g" "rv = PRef m h" by (cases lv; cases rv) auto
    have mt: "meets (dcLeftDoc dc) (dcRightDoc dc) lcat rcat (PRef n g) (PRef m h)" using child.prems(1) v M by simp
    let ?pk = "pairKey n g m h"
    let ?cyc = "onPath (refVisitKeyOf lv) lvis \<or> onPath (refVisitKeyOf rv) rvis"
    have seen: "A lv rv" if "?pk \<in> set q" using that acc_pair v by (simp add: A)
    consider (cycle) ?cyc | (deep) "\<not> ?cyc" "maxResolveDepth < depth + 1"
      | (entered) "\<not> ?cyc" "\<not> maxResolveDepth < depth + 1" "?pk \<in> set (dsPairs st)"
      | (enter) "\<not> ?cyc" "depth + 1 \<le> maxResolveDepth" "?pk \<notin> set (dsPairs st)" by linarith
    then show ?thesis
    proof cases
      case cycle
      then have c: "visitedKey n g \<in> set lvis \<or> visitedKey m h \<in> set rvis" using v by (simp add: onPath_def refVisitKeyOf_def)
      have st: "snd (diffChild dc path lv rv binary depth lvis rvis st) = st" using cycle by (auto simp: diffChild.simps Let_def)
      have "?pk \<in> set (dsPairs st) \<or> docRoot (dcLeftDoc dc) = Some (n, g)"
        using child.prems(2) c mt unfolding E pathEntered_def by blast
      then show ?thesis
      proof
        assume "?pk \<in> set (dsPairs st)"
        then show ?thesis using seen child.prems(3) st by (auto simp: K N)
      next
        assume "docRoot (dcLeftDoc dc) = Some (n, g)"
        then show ?thesis using oneToOneD(3) [OF o mt] acc_root v st by (simp add: A N)
      qed
    next
      case deep
      then have "?pk \<in> set q" using child.prems(4) clean_leaf(5) v by (auto simp: diffChild.simps Let_def)
      with seen deep show ?thesis by (simp add: diffChild.simps Let_def N)
    next
      case entered
      then have "?pk \<in> set q \<and> snd (diffChild dc path lv rv binary depth lvis rvis st) = st"
        using child.prems(3) v by (auto simp: diffChild.simps Let_def K)
      with seen show ?thesis by (simp add: N)
    next
      case enter
      let ?l = "dereferenceIfRef (dcLeftDoc dc) lv" and ?r = "dereferenceIfRef (dcRightDoc dc) rv"
      let ?lv = "visitedKey n g # lvis" and ?rv = "visitedKey m h # rvis" and ?st = "enterPair ?pk st"
      have keys: "pushKey (refVisitKeyOf lv) lvis = ?lv" "pushKey (refVisitKeyOf rv) rvis = ?rv"
        "capPair (refVisitKeyOf lv) (refVisitKeyOf rv) = ?pk" using v by (simp_all add: pushKey_def refVisitKeyOf_def capPair_def pairKey_def)
      have d: "diffChild dc path lv rv binary depth lvis rvis st = diffPresent dc path ?l ?r binary (depth + 1) ?lv ?rv ?st"
        using enter by (simp add: diffChild.simps Let_def keys)
      have "E ?lv ?rv ?st" using pathEntered_push [OF o mt] child.prems(2) by (simp add: E)
      then have sh: "shapeOf (dcLib dc) A ?l ?r \<and> N ?st (snd (diffPresent dc path ?l ?r binary (depth + 1) ?lv ?rv ?st))"
        using child.IH [unfolded keys] enter child.prems d by auto
      have "?pk \<in> set (dsPairs (snd (diffPresent dc path ?l ?r binary (depth + 1) ?lv ?rv ?st)))"
        using diff_grows(1) [of ?st dc path ?l ?r binary "depth + 1" ?lv ?rv] by (auto simp: grows_def enterPair_def)
      then have "A lv rv" using seen child.prems(3) d by (auto simp: K)
      moreover have "N st (snd (diffPresent dc path ?l ?r binary (depth + 1) ?lv ?rv ?st))"
        using sh v unfolding N newClosed_def A by (auto simp: enterPair_def)
      ultimately show ?thesis using d by simp
    qed
  qed
qed (simp add: bothItems_def N diffItems.simps)

section \<open>What the call finds\<close>

lemma diffDone_walk:
  assumes "DiffDocuments dc lf rf = DiffDone tree s"
  obtains lcat rcat st0 st1 tree0 where "catalogDict (dcLeftDoc dc) = Inr lcat" "catalogDict (dcRightDoc dc) = Inr rcat"
    "dsPairs st0 = []" "diffWalk dc lcat rcat st0 = (tree0, st1)" "live dc st1"
    "tree = reconcileTruncation (dsPairs st1) tree0"
    "deltas s = deltas (countDelta tree emptySummary)" "sumTruncated s = sumTruncated (countDelta tree emptySummary)"
proof -
  obtain lcat rcat where c: "catalogDict (dcLeftDoc dc) = Inr lcat" "catalogDict (dcRightDoc dc) = Inr rcat"
    using assms by (auto simp: DiffDocuments_def split: sum.split_asm)
  let ?st0 = "snd (stopped dc \<lparr> dsPairs = [], dsChecks = 0 \<rparr>)"
  obtain tree0 st1 where w: "diffWalk dc lcat rcat ?st0 = (tree0, st1)" by fastforce
  have l: "\<not> fst (stopped dc st1)" and t: "tree = reconcileTruncation (dsPairs st1) tree0"
    and s: "s = fillSummary dc lf rf lcat rcat (countDelta tree emptySummary)"
    using assms c w by (auto simp: DiffDocuments_def case_prod_beta Let_def split: if_split_asm)
  have "dsPairs ?st0 = []" by (simp add: stopped_def)
  from that [OF c this w live_stopped(2) [OF l] t] s show thesis by (simp add: fillSummary_def deltas_def Let_def)
qed

lemma no_delta_complete:
  assumes "catalogDict (dcLeftDoc dc) = Inr lcat" "catalogDict (dcRightDoc dc) = Inr rcat"
    and "sameStructure (dcLib dc) (dcLeftDoc dc) (dcRightDoc dc) (PDict lcat) (PDict rcat)"
    and "DiffDocuments dc lf rf = DiffDone tree s"
  shows "noDelta tree \<and> sumAdded s = 0 \<and> sumRemoved s = 0 \<and> sumChanged s = 0"
proof -
  obtain st0 st1 tree0 where w: "diffWalk dc lcat rcat st0 = (tree0, st1)"
    "tree = reconcileTruncation (dsPairs st1) tree0" "deltas s = deltas (countDelta tree emptySummary)"
    by (rule diffDone_walk [OF assms(4)]) (use assms(1,2) in simp)
  have "shapeOf (dcLib dc) (sameStructure (dcLib dc) (dcLeftDoc dc) (dcRightDoc dc)) (PDict lcat) (PDict rcat)"
    using assms(3) by (auto elim: sameStructure.cases)
  from same_noDelta(1) [OF refl this] w have n: "noDelta tree" by (simp add: diffWalk_def) (metis fst_conv)
  from countDelta_noDelta [OF this, of emptySummary] w(3) n show ?thesis by (simp add: deltas_def emptySummary_def)
qed

lemma closed_same:
  assumes "\<And>n g m h. pairKey n g m h \<in> set q \<Longrightarrow>
      shapeOf lib (accounted lib ldoc rdoc q) (dereferenceIfRef ldoc (PRef n g)) (dereferenceIfRef rdoc (PRef m h))"
    and "shapeOf lib (accounted lib ldoc rdoc q) (PDict lcat) (PDict rcat)"
    and "\<And>n g. docRoot ldoc = Some (n, g) \<Longrightarrow> dereferenceIfRef ldoc (PRef n g) = PDict lcat"
    and "\<And>m h. docRoot rdoc = Some (m, h) \<Longrightarrow> dereferenceIfRef rdoc (PRef m h) = PDict rcat"
    and "accounted lib ldoc rdoc q l r"
  shows "sameStructure lib ldoc rdoc l r"
  using assms(5)
proof (coinduction arbitrary: l r rule: sameStructure.coinduct)
  case sameStructure
  have "isRef l = isRef r \<and> shapeOf lib (accounted lib ldoc rdoc q) (dereferenceIfRef ldoc l) (dereferenceIfRef rdoc r)"
    using sameStructure
  proof cases
    case (acc_root n g m h)
    with assms(2-4) show ?thesis by (simp del: dereferenceIfRef.simps)
  qed (use assms(1) in \<open>auto simp del: dereferenceIfRef.simps\<close>)
  moreover have "shapeOf lib (accounted lib ldoc rdoc q) v w \<longrightarrow>
      shapeOf lib (\<lambda>x y. accounted lib ldoc rdoc q x y \<or> sameStructure lib ldoc rdoc x y) v w" for v w
    by (rule shapeOf_mono) auto
  ultimately show ?case by simp
qed

lemma no_delta_sound:
  assumes c: "catalogDict (dcLeftDoc dc) = Inr lcat" "catalogDict (dcRightDoc dc) = Inr rcat"
    and o: "oneToOne (dcLeftDoc dc) (dcRightDoc dc) lcat rcat"
    and d: "DiffDocuments dc lf rf = DiffDone tree s"
    and z: "sumAdded s = 0" "sumRemoved s = 0" "sumChanged s = 0" "sumTruncated s = 0"
  shows "sameStructure (dcLib dc) (dcLeftDoc dc) (dcRightDoc dc) (PDict lcat) (PDict rcat)"
proof -
  obtain st0 st1 tree0 where w: "diffWalk dc lcat rcat st0 = (tree0, st1)" "dsPairs st0 = []" "live dc st1"
    "tree = reconcileTruncation (dsPairs st1) tree0" "deltas s = deltas (countDelta tree emptySummary)"
    "sumTruncated s = sumTruncated (countDelta tree emptySummary)"
    by (rule diffDone_walk [OF d]) (use c in simp)
  let ?q = "dsPairs st1" and ?ldoc = "dcLeftDoc dc" and ?rdoc = "dcRightDoc dc" and ?lib = "dcLib dc"
  have t: "tree0 = fst (diffWalk dc lcat rcat st0)" and s1: "st1 = snd (diffWalk dc lcat rcat st0)" using w(1) by simp_all
  have "zeroed (countDelta tree emptySummary)" using z w(5,6) by (simp add: zeroed_def deltas_def)
  then have cl: "clean ?q tree0" using zeroed_clean diff_coherent(1) unfolding w(4) t diffWalk_def by blast
  have p: "pathEntered ?ldoc ?rdoc lcat rcat (rootVisited ?ldoc) (rootVisited ?rdoc) st0"
    unfolding pathEntered_def
  proof (intro allI impI)
    fix n g m h
    assume mt: "meets ?ldoc ?rdoc lcat rcat (PRef n g) (PRef m h)"
      and "visitedKey n g \<in> set (rootVisited ?ldoc) \<or> visitedKey m h \<in> set (rootVisited ?rdoc)"
    then have "docRoot ?ldoc = Some (n, g) \<or> docRoot ?rdoc = Some (m, h)"
      by (auto simp: rootVisited_def catalogIndirectRef_def split: option.split_asm)
    with oneToOneD(3) [OF o mt] show "pairKey n g m h \<in> set (dsPairs st0) \<or> docRoot ?ldoc = Some (n, g)" by blast
  qed
  have m: "\<exists>l r. meets ?ldoc ?rdoc lcat rcat l r \<and> PDict lcat = dereferenceIfRef ?ldoc l \<and> PDict rcat = dereferenceIfRef ?rdoc r"
    using meets_catalog by fastforce
  have walk: "shapeOf ?lib (accounted ?lib ?ldoc ?rdoc ?q) (PDict lcat) (PDict rcat) \<and> newClosed ?lib ?ldoc ?rdoc ?q st0 st1"
    using walk_accounts(1) [OF o refl refl refl refl refl m p, where q = ?q] cl w(3) t s1 unfolding diffWalk_def by auto
  have pairs: "shapeOf ?lib (accounted ?lib ?ldoc ?rdoc ?q) (dereferenceIfRef ?ldoc (PRef n g)) (dereferenceIfRef ?rdoc (PRef m h))"
    if "pairKey n g m h \<in> set ?q" for n g m h
    using walk that w(2) unfolding newClosed_def by simp
  have "accounted ?lib ?ldoc ?rdoc ?q (PDict lcat) (PDict rcat)" using walk by (intro acc_direct) simp_all
  from closed_same [OF pairs conjunct1 [OF walk] oneToOneD(4) [OF o] oneToOneD(5) [OF o] this] show ?thesis by blast
qed

section \<open>Example documents\<close>

text \<open>A one-page document whose page refers back to its parent, and the same document renumbered.\<close>

definition pageDoc :: "int \<Rightarrow> pdfDoc" where
  "pageDoc k = \<lparr> xrefNums = [k, 2 * k, 3 * k],
     xrefLookup = (\<lambda>n g. DObj (if n = k then PDict [(''Pages'', PRef (2 * k) 0)]
        else if n = 2 * k then PDict [(''Kids'', PArray [PRef (3 * k) 0])]
        else if n = 3 * k then PDict [(''Parent'', PRef (2 * k) 0)] else PNull)),
     docRoot = Some (k, 0), docCatalog = DObj (PDict [(''Pages'', PRef (2 * k) 0)]) \<rparr>"

definition noFacts :: docFacts where
  "noFacts = \<lparr> dfPageCount = 0, dfInfo = None, dfEncrypted = False,
     dfStream = (\<lambda>v. \<lparr> xsFilters = 0, xsDecode = Inr [], xsRaw = None, xsContent = [] \<rparr>) \<rparr>"

definition pageContext :: diffContext where
  "pageContext = \<lparr> dcLib = plainLib, dcLeftDoc = pageDoc 1, dcRightDoc = pageDoc 10, dcCloseAt = None \<rparr>"

definition sameTree :: diffNode where
  "sameTree = DNode ''/Root'' ''unchanged'' ''dict'' [] [] []
     [DNode ''/Root/Pages'' ''unchanged'' ''dict'' [] [] []
       [DNode ''/Root/Pages/Kids'' ''unchanged'' ''array'' [] [] []
         [DNode ''/Root/Pages/Kids[0]'' ''unchanged'' ''dict'' [] [] []
           [DNode ''/Root/Pages/Kids[0]/Parent'' ''unchanged'' ''ref'' [] ''<< /Kids [...] >>'' ''<< /Kids [...] >>'' [] False []] False []] False []] False []] False []"

lemma page_diff: "DiffDocuments pageContext noFacts noFacts = DiffDone sameTree emptySummary"
  by code_simp

text \<open>Every pair of values that meet in the two numberings.\<close>

lemma page_meets:
  assumes "meets (pageDoc 1) (pageDoc 10) [(''Pages'', PRef 2 0)] [(''Pages'', PRef 20 0)] l r"
  shows "(l, r) \<in> {(PDict [(''Pages'', PRef 2 0)], PDict [(''Pages'', PRef 20 0)]), (PRef 2 0, PRef 20 0),
     (PArray [PRef 3 0], PArray [PRef 30 0]), (PRef 3 0, PRef 30 0)}"
  using assms
proof (induction rule: meets.induct)
  case (meets_entry l r ld rd k)
  then show ?case by (auto simp: pageDoc_def lookupRef_def dictGet_def dictFind_def)
next
  case (meets_element l r la ra i)
  then show ?case by (auto simp: pageDoc_def lookupRef_def)
qed simp

lemma page_oneToOne: "oneToOne (pageDoc 1) (pageDoc 10) [(''Pages'', PRef 2 0)] [(''Pages'', PRef 20 0)]"
  unfolding oneToOne_def
proof (intro conjI allI impI)
  show "isRef l = isRef r" if "meets (pageDoc 1) (pageDoc 10) [(''Pages'', PRef 2 0)] [(''Pages'', PRef 20 0)] l r" for l r
    using page_meets [OF that] by auto
next
  fix n g m h n' g' m' h'
  assume "meets (pageDoc 1) (pageDoc 10) [(''Pages'', PRef 2 0)] [(''Pages'', PRef 20 0)] (PRef n g) (PRef m h)
    \<and> meets (pageDoc 1) (pageDoc 10) [(''Pages'', PRef 2 0)] [(''Pages'', PRef 20 0)] (PRef n' g') (PRef m' h')"
  then show "(n = n' \<and> g = g') = (m = m' \<and> h = h')" using page_meets [of "PRef n g" "PRef m h"] page_meets [of "PRef n' g'" "PRef m' h'"] by auto
next
  fix n g m h
  assume "meets (pageDoc 1) (pageDoc 10) [(''Pages'', PRef 2 0)] [(''Pages'', PRef 20 0)] (PRef n g) (PRef m h)"
  then show "(docRoot (pageDoc 1) = Some (n, g)) = (docRoot (pageDoc 10) = Some (m, h))"
    using page_meets by (fastforce simp: pageDoc_def)
qed (auto simp: pageDoc_def lookupRef_def)

lemma page_same: "sameStructure plainLib (pageDoc 1) (pageDoc 10) (PDict [(''Pages'', PRef 2 0)]) (PDict [(''Pages'', PRef 20 0)])"
proof -
  have c: "catalogDict (dcLeftDoc pageContext) = Inr [(''Pages'', PRef 2 0)]" "catalogDict (dcRightDoc pageContext) = Inr [(''Pages'', PRef 20 0)]"
    by (simp_all add: pageContext_def catalogDict_def pageDoc_def)
  from no_delta_sound [OF c _ page_diff] page_oneToOne show ?thesis by (simp add: pageContext_def emptySummary_def)
qed

text \<open>
  A document whose second object refers to itself, against one where the chain goes on: the fourth object
  holds an entry the first document has nowhere.
\<close>

definition chainDoc :: "(int \<Rightarrow> pdfObj) \<Rightarrow> pdfDoc" where
  "chainDoc objs = \<lparr> xrefNums = [1, 2, 3, 4], xrefLookup = (\<lambda>n g. DObj (objs n)), docRoot = Some (1, 0), docCatalog = DObj (objs 1) \<rparr>"

definition loopContext :: diffContext where
  "loopContext = \<lparr> dcLib = plainLib,
     dcLeftDoc = chainDoc (\<lambda>n. PDict [(''Next'', PRef 2 0)]),
     dcRightDoc = chainDoc (\<lambda>n. if n = 4 then PDict [(''Hidden'', PInt 5)] else PDict [(''Next'', PRef (n + 1) 0)]),
     dcCloseAt = None \<rparr>"

definition loopTree :: diffNode where
  "loopTree = DNode ''/Root'' ''unchanged'' ''dict'' [] [] []
     [DNode ''/Root/Next'' ''unchanged'' ''dict'' [] [] []
       [DNode ''/Root/Next/Next'' ''unchanged'' ''ref'' [] ''<< /Next <ref> >>'' ''<< /Next <ref> >>'' [] False []] False []] False []"

lemma loop_diff: "DiffDocuments loopContext noFacts noFacts = DiffDone loopTree emptySummary"
  by code_simp

lemma loop_objects:
  "dereferenceIfRef (dcLeftDoc loopContext) (PRef 2 0) = PDict [(''Next'', PRef 2 0)]"
  "dereferenceIfRef (dcRightDoc loopContext) (PRef 2 0) = PDict [(''Next'', PRef 3 0)]"
  "dereferenceIfRef (dcRightDoc loopContext) (PRef 3 0) = PDict [(''Next'', PRef 4 0)]"
  "dereferenceIfRef (dcRightDoc loopContext) (PRef 4 0) = PDict [(''Hidden'', PInt 5)]"
  by (simp_all add: loopContext_def chainDoc_def lookupRef_def)

lemma loop_next: "shapeOf lib P (PDict [(''Next'', v)]) (PDict [(''Next'', w)]) \<longleftrightarrow> P v w"
  by (simp add: shapeOf_def dictGet_def dictFind_def dictKeys_def)

section \<open>Properties\<close>

text \<open>
  Claim C17. Two documents whose object graphs unfold alike from their catalogs, whatever the numbers of
  their objects and through any cycles, are compared without a delta: every node of the tree is unchanged
  and nothing is counted as added, removed or changed.
\<close>

theorem diff_identical_complete:
  assumes "catalogDict (dcLeftDoc dc) = Inr lcat" "catalogDict (dcRightDoc dc) = Inr rcat"
    and "sameStructure (dcLib dc) (dcLeftDoc dc) (dcRightDoc dc) (PDict lcat) (PDict rcat)"
    and "DiffDocuments dc lf rf = DiffDone tree s"
  shows "noDelta tree \<and> sumAdded s = 0 \<and> sumRemoved s = 0 \<and> sumChanged s = 0"
  by (rule no_delta_complete [OF assms])

theorem diff_identical_complete_witness:
  "noDelta sameTree \<and> sumAdded emptySummary = 0 \<and> sumRemoved emptySummary = 0 \<and> sumChanged emptySummary = 0"
proof (rule diff_identical_complete [OF _ _ _ page_diff])
  show "catalogDict (dcLeftDoc pageContext) = Inr [(''Pages'', PRef 2 0)]" "catalogDict (dcRightDoc pageContext) = Inr [(''Pages'', PRef 20 0)]"
    by (simp_all add: pageContext_def catalogDict_def pageDoc_def)
  show "sameStructure (dcLib pageContext) (dcLeftDoc pageContext) (dcRightDoc pageContext) (PDict [(''Pages'', PRef 2 0)]) (PDict [(''Pages'', PRef 20 0)])"
    using page_same by (simp add: pageContext_def)
qed

text \<open>
  Claim C18. When objects of the two documents correspond one to one along their shared paths, a comparison
  that counts no delta and no truncated subtree proves that the two graphs unfold alike: the cuts at cycles,
  at pairs compared elsewhere and at the depth hide nothing.
\<close>

theorem diff_identical_sound:
  assumes "catalogDict (dcLeftDoc dc) = Inr lcat" "catalogDict (dcRightDoc dc) = Inr rcat"
    and "oneToOne (dcLeftDoc dc) (dcRightDoc dc) lcat rcat"
    and "DiffDocuments dc lf rf = DiffDone tree s"
    and "sumAdded s = 0" "sumRemoved s = 0" "sumChanged s = 0" "sumTruncated s = 0"
  shows "sameStructure (dcLib dc) (dcLeftDoc dc) (dcRightDoc dc) (PDict lcat) (PDict rcat)"
  by (rule no_delta_sound [OF assms])

theorem diff_identical_sound_witness:
  "sameStructure plainLib (pageDoc 1) (pageDoc 10) (PDict [(''Pages'', PRef 2 0)]) (PDict [(''Pages'', PRef 20 0)])"
proof -
  have "catalogDict (dcLeftDoc pageContext) = Inr [(''Pages'', PRef 2 0)]" "catalogDict (dcRightDoc pageContext) = Inr [(''Pages'', PRef 20 0)]"
    by (simp_all add: pageContext_def catalogDict_def pageDoc_def)
  from diff_identical_sound [OF this _ page_diff] page_oneToOne show ?thesis by (simp add: pageContext_def emptySummary_def)
qed

text \<open>
  Without that correspondence a cut at a cycle of one side hides a difference: the comparison
  reports no delta and no truncated subtree, and the documents differ.
\<close>

theorem diff_back_edge_hides:
  "DiffDocuments loopContext noFacts noFacts = DiffDone loopTree emptySummary
   \<and> \<not> sameStructure plainLib (dcLeftDoc loopContext) (dcRightDoc loopContext) (PDict [(''Next'', PRef 2 0)]) (PDict [(''Next'', PRef 2 0)])"
proof
  show "DiffDocuments loopContext noFacts noFacts = DiffDone loopTree emptySummary" by (rule loop_diff)
  let ?S = "sameStructure plainLib (dcLeftDoc loopContext) (dcRightDoc loopContext)"
  have shape: "shapeOf plainLib ?S (dereferenceIfRef (dcLeftDoc loopContext) v) (dereferenceIfRef (dcRightDoc loopContext) w)" if "?S v w" for v w
    using that by (auto elim: sameStructure.cases)
  show "\<not> ?S (PDict [(''Next'', PRef 2 0)]) (PDict [(''Next'', PRef 2 0)])"
  proof
    assume "?S (PDict [(''Next'', PRef 2 0)]) (PDict [(''Next'', PRef 2 0)])"
    from shape [OF this] have "?S (PRef 2 0) (PRef 2 0)" by (simp add: loop_next)
    from shape [OF this] have "?S (PRef 2 0) (PRef 3 0)" by (simp add: loop_objects loop_next del: dereferenceIfRef.simps)
    from shape [OF this] have "?S (PRef 2 0) (PRef 4 0)" by (simp add: loop_objects loop_next del: dereferenceIfRef.simps)
    from shape [OF this] show False by (simp add: loop_objects shapeOf_def dictKeys_def del: dereferenceIfRef.simps)
  qed
qed

text \<open>
  Scalars of different types that print alike are reported unchanged: a string that is no UTF-8 is printed
  as the digits of its bytes, and an integer can have those digits.
\<close>

theorem diff_prints_alike:
  "dnStatus (scalarLeaf lib path kind (PString [CHR 0x80]) (PInt 288029) binary) = ''unchanged''"
proof -
  have "showInt 288029 = map digitChar [2, 8, 8, 0, 2, 9]" by (simp add: showInt_def showNat.simps)
  moreover have "map digitChar [2, 8, 8, 0, 2, 9] = ''288029''" by code_simp
  moreover have "utf8Safe (''('' @ [CHR 0x80] @ '')'') = ''288029''" by code_simp
  ultimately show ?thesis by (simp add: scalarLeaf_same diffCompare_def diffCompareScalar_def)
qed

end
