(* ===== verification/PageAttrs.thy ===== *)
theory PageAttrs
  imports PdfObject
begin

text \<open>
  The attributes of a page (\<^verbatim>\<open>internal/pdfcore/pageindex.go\<close>): inheritance down the page tree, and the row
  of the page index that a page dictionary gives. A read can panic; what a function has written before the
  panic stays, so the functions that fill a row return the row together with the panic.
\<close>

section \<open>What the library and the platform answer\<close>

text \<open>
  \<open>plRefString\<close> is the library's \<^verbatim>\<open>IndirectRef.String\<close>; \<open>plWideInt\<close> is what Go's conversion of a float
  outside the range of \<^verbatim>\<open>int\<close> gives, which the language leaves to the platform.
\<close>

record pageLib =
  plRefString :: "int \<Rightarrow> int \<Rightarrow> string"
  plWideInt :: "int \<Rightarrow> int"

type_synonym pdfRef = "int \<times> int"

section \<open>Rows\<close>

text \<open>
  \<open>peMediaBox\<close> holds the four numbers as read, \<open>None\<close> for the zero box of a missing or malformed entry;
  the conversion of an integer to a float is left out.
\<close>

record pageEntry =
  pePageNum :: int
  peObjNum :: int
  peGen :: int
  peNodeID :: string
  peContentNodeID :: string
  peMediaBox :: "pdfObj list option"
  peRotate :: int
  peInherited :: "8 word"
  peAnnotCount :: int
  peContentLen :: int
  peErr :: string

definition emptyEntry :: pageEntry where
  "emptyEntry = \<lparr> pePageNum = 0, peObjNum = 0, peGen = 0, peNodeID = [], peContentNodeID = [], peMediaBox = None,
     peRotate = 0, peInherited = 0, peAnnotCount = 0, peContentLen = 0, peErr = [] \<rparr>"

definition setRef :: "pdfRef \<Rightarrow> pageEntry \<Rightarrow> pageEntry" where
  "setRef r e = e\<lparr>peObjNum := fst r, peGen := snd r, peNodeID := nodeIDForRef (fst r) (snd r)\<rparr>"

definition setRefOpt :: "pdfRef option \<Rightarrow> pageEntry \<Rightarrow> pageEntry" where
  "setRefOpt mr e = (case mr of None \<Rightarrow> e | Some r \<Rightarrow> setRef r e)"

definition errorRow :: "pdfRef option \<Rightarrow> string \<Rightarrow> pageEntry" where
  "errorRow mr msg = setRefOpt mr (emptyEntry\<lparr>peErr := msg\<rparr>)"

definition nodeLabel :: "pdfRef option \<Rightarrow> string" where
  "nodeLabel mr = (case mr of None \<Rightarrow> ''a direct dictionary'' | Some (n, g) \<Rightarrow> refString n g)"

text \<open>\<^verbatim>\<open>nameOf\<close> is \<open>PdfObject.nameOf\<close>; a \<open>/Type\<close> value in a message.\<close>

fun typeValueLabel :: "pdfObj \<Rightarrow> string" where
  "typeValueLabel (PName n) = ''/'' @ n"
| "typeValueLabel v = typeLabel v"

definition ownEntry :: "pdfDict \<Rightarrow> string \<Rightarrow> pdfObj" where
  "ownEntry d key = dictGet d key"

section \<open>Inheritance\<close>

definition InheritedResources :: "8 word" where "InheritedResources = 1"
definition InheritedMediaBox :: "8 word" where "InheritedMediaBox = 2"
definition InheritedCropBox :: "8 word" where "InheritedCropBox = 4"
definition InheritedRotate :: "8 word" where "InheritedRotate = 8"

definition attrResources :: nat where "attrResources = 0"
definition attrMediaBox :: nat where "attrMediaBox = 1"
definition attrCropBox :: nat where "attrCropBox = 2"
definition attrRotate :: nat where "attrRotate = 3"

definition inheritableAttrs :: "(string \<times> 8 word) list" where
  "inheritableAttrs = [(''Resources'', InheritedResources), (''MediaBox'', InheritedMediaBox),
     (''CropBox'', InheritedCropBox), (''Rotate'', InheritedRotate)]"

text \<open>
  \<^verbatim>\<open>attrError\<close>: the label and the number of the node and the error. The code identifies a direct dictionary
  by its address; here it is \<open>None\<close>.
\<close>

record attrError =
  aeNode :: string
  aeNum :: "int option"
  aeErr :: string

text \<open>The four values in the order of \<open>inheritableAttrs\<close>, null when there is none.\<close>

record pageAttrs =
  paValues :: "pdfObj list"
  paUnresolvedAt :: "string list"
  paResourcesErr :: "attrError option"

definition noAttrs :: pageAttrs where
  "noAttrs = \<lparr> paValues = [PNull, PNull, PNull, PNull], paUnresolvedAt = [[], [], [], []], paResourcesErr = None \<rparr>"

text \<open>The results of \<^verbatim>\<open>effectiveAttrs\<close> while its four calls of \<^verbatim>\<open>pick\<close> run.\<close>

record effect =
  efAttrs :: pageAttrs
  efBits :: "8 word"
  efOwn :: "8 word"

definition takeOwn :: "nat \<Rightarrow> pdfObj \<Rightarrow> effect \<Rightarrow> effect" where
  "takeOwn i r ef = ef\<lparr>efAttrs := (efAttrs ef)
     \<lparr>paValues := (paValues (efAttrs ef))[i := r], paUnresolvedAt := (paUnresolvedAt (efAttrs ef))[i := []],
      paResourcesErr := (if i = attrResources then None else paResourcesErr (efAttrs ef))\<rparr>\<rparr>"

definition loseOwn :: "nat \<Rightarrow> pdfRef option \<Rightarrow> string option \<Rightarrow> effect \<Rightarrow> effect" where
  "loseOwn i mr err ef = ef
     \<lparr>efOwn := efOwn ef OR snd (inheritableAttrs ! i),
      efAttrs := (efAttrs ef)
        \<lparr>paUnresolvedAt := (paUnresolvedAt (efAttrs ef))[i := nodeLabel mr],
         paResourcesErr := (case err of
             Some e \<Rightarrow> if i = attrResources then Some \<lparr>aeNode = nodeLabel mr, aeNum = map_option fst mr, aeErr = e\<rparr>
                       else paResourcesErr (efAttrs ef)
           | None \<Rightarrow> paResourcesErr (efAttrs ef))\<rparr>\<rparr>"

text \<open>The ancestor's value stays in place; it counts as inherited when there is one.\<close>

definition inheritValue :: "nat \<Rightarrow> effect \<Rightarrow> effect" where
  "inheritValue i ef =
     (if paValues (efAttrs ef) ! i \<noteq> PNull then ef\<lparr>efBits := efBits ef OR snd (inheritableAttrs ! i)\<rparr> else ef)"

definition pickAttr :: "pdfDoc \<Rightarrow> pdfDict \<Rightarrow> pdfRef option \<Rightarrow> nat \<Rightarrow> effect \<Rightarrow> string + effect" where
  "pickAttr doc d mr i ef =
     (let v = ownEntry d (fst (inheritableAttrs ! i)) in
      if v = PNull then Inr (inheritValue i ef)
      else (case dereference doc v of
              DPanic p \<Rightarrow> Inl p
            | DErr e \<Rightarrow> Inr (inheritValue i (loseOwn i mr (Some e) ef))
            | DObj r \<Rightarrow> if r = PNull then Inr (inheritValue i (loseOwn i mr None ef)) else Inr (takeOwn i r ef)))"

fun pickAttrs :: "pdfDoc \<Rightarrow> pdfDict \<Rightarrow> pdfRef option \<Rightarrow> nat list \<Rightarrow> effect \<Rightarrow> string + effect" where
  "pickAttrs doc d mr [] ef = Inr ef"
| "pickAttrs doc d mr (i # js) ef =
     (case pickAttr doc d mr i ef of Inl p \<Rightarrow> Inl p | Inr ef' \<Rightarrow> pickAttrs doc d mr js ef')"

definition effectiveAttrs :: "pdfDoc \<Rightarrow> pdfDict \<Rightarrow> pdfRef option \<Rightarrow> pageAttrs \<Rightarrow> string + effect" where
  "effectiveAttrs doc d mr inherited =
     pickAttrs doc d mr [attrResources, attrMediaBox, attrCropBox, attrRotate] \<lparr> efAttrs = inherited, efBits = 0, efOwn = 0 \<rparr>"

section \<open>Boxes, rotation and contents\<close>

text \<open>
  \<^verbatim>\<open>readRect\<close>: \<open>Inr None\<close> is a value that is not a rectangle. The elements are read in order, and the first
  that is not a finite number ends the reading.
\<close>

fun readRectElems :: "pdfDoc \<Rightarrow> pdfObj list \<Rightarrow> string + pdfObj list option" where
  "readRectElems doc [] = Inr (Some [])"
| "readRectElems doc (el # els) =
     (case derefIn doc el of
        Inl p \<Rightarrow> Inl p
      | Inr v \<Rightarrow>
          (case v of
             PInt i \<Rightarrow> (case readRectElems doc els of Inl p \<Rightarrow> Inl p | Inr r \<Rightarrow> Inr (map_option ((#) v) r))
           | PReal (Finite q) \<Rightarrow> (case readRectElems doc els of Inl p \<Rightarrow> Inl p | Inr r \<Rightarrow> Inr (map_option ((#) v) r))
           | _ \<Rightarrow> Inr None))"

definition readRect :: "pdfDoc \<Rightarrow> pdfObj \<Rightarrow> string + pdfObj list option" where
  "readRect doc v =
     (case derefIn doc v of
        Inl p \<Rightarrow> Inl p
      | Inr w \<Rightarrow> (case asArray w of
            None \<Rightarrow> Inr None
          | Some xs \<Rightarrow> if length xs \<noteq> 4 then Inr None else readRectElems doc xs))"

text \<open>\<^verbatim>\<open>math.Round\<close>: the nearest integer, halves away from zero.\<close>

definition roundAway :: "rat \<Rightarrow> int" where
  "roundAway q = (if q < 0 then - \<lfloor>- q + 1 / 2\<rfloor> else \<lfloor>q + 1 / 2\<rfloor>)"

definition floatInt :: "pageLib \<Rightarrow> rat \<Rightarrow> int" where
  "floatInt lib q = (if inInt64 (roundAway q) then roundAway q else plWideInt lib (roundAway q))"

datatype rotation = NoNumber | WholeDegrees int | RoundedDegrees int

definition readRotation :: "pageLib \<Rightarrow> pdfDoc \<Rightarrow> pdfObj \<Rightarrow> string + rotation" where
  "readRotation lib doc v =
     (case derefIn doc v of
        Inl p \<Rightarrow> Inl p
      | Inr w \<Rightarrow> (case w of
            PInt i \<Rightarrow> Inr (WholeDegrees i)
          | PReal (Finite q) \<Rightarrow> Inr (RoundedDegrees (floatInt lib q))
          | _ \<Rightarrow> Inr NoNumber))"

definition streamLength :: "pdfDoc \<Rightarrow> pdfDict \<Rightarrow> string + int" where
  "streamLength doc sd =
     (case dictFind sd ''Length'' of
        None \<Rightarrow> Inr (- 1)
      | Some v \<Rightarrow> (case derefIn doc v of
            Inl p \<Rightarrow> Inl p
          | Inr (PInt n) \<Rightarrow> Inr (if n < 0 then - 1 else n)
          | Inr w \<Rightarrow> Inr (- 1)))"

fun asPlainStream :: "pdfObj \<Rightarrow> pdfDict option" where
  "asPlainStream (PStream PlainStream d) = Some d"
| "asPlainStream _ = None"

text \<open>
  The elements of an array \<open>/Contents\<close>, with the messages, the sum of the lengths and whether every length
  was readable so far. A panic keeps the row as it is then.
\<close>

fun contentElems :: "pageLib \<Rightarrow> pdfDoc \<Rightarrow> nat \<Rightarrow> pdfObj list \<Rightarrow> string list \<Rightarrow> int \<Rightarrow> bool \<Rightarrow> pageEntry \<Rightarrow>
    pageEntry \<times> (string + (string list \<times> int \<times> bool))" where
  "contentElems lib doc i [] errs acc ok e = (e, Inr (errs, acc, ok))"
| "contentElems lib doc i (el # els) errs acc ok e =
     (if el = PNull then contentElems lib doc (i + 1) els errs acc ok e
      else (case asRef el of
              None \<Rightarrow> contentElems lib doc (i + 1) els
                (errs @ [''/Contents element '' @ showNat i @ '' is not an indirect reference: '' @ typeLabel el]) acc ok e
            | Some (n, g) \<Rightarrow>
                (case derefIn doc el of
                   Inl p \<Rightarrow> (e, Inl p)
                 | Inr w \<Rightarrow>
                     (case asPlainStream w of
                        None \<Rightarrow> contentElems lib doc (i + 1) els
                          (errs @ [''/Contents element '' @ showNat i @ '' ('' @ plRefString lib n g @ '') is not a stream'']) acc ok e
                      | Some sd \<Rightarrow>
                          (let e' = (if peContentNodeID e = [] then e\<lparr>peContentNodeID := nodeIDForRef n g\<rparr> else e) in
                           case streamLength doc sd of
                             Inl p \<Rightarrow> (e', Inl p)
                           | Inr len \<Rightarrow>
                               if 0 \<le> len \<and> acc \<le> maxInt64 - len then contentElems lib doc (i + 1) els errs (acc + len) ok e'
                               else contentElems lib doc (i + 1) els errs acc False e')))))"

definition contentsOfArray :: "pageLib \<Rightarrow> pdfDoc \<Rightarrow> pdfObj list \<Rightarrow> pageEntry \<Rightarrow> pageEntry \<times> (string + string list)" where
  "contentsOfArray lib doc elems e =
     (case contentElems lib doc 0 elems [] 0 True e of
        (e', Inl p) \<Rightarrow> (e', Inl p)
      | (e', Inr (errs, acc, ok)) \<Rightarrow> (e'\<lparr>peContentLen := (if errs \<noteq> [] \<or> \<not> ok then - 1 else acc)\<rparr>, Inr errs))"

definition pageContents :: "pageLib \<Rightarrow> pdfDoc \<Rightarrow> pdfObj \<Rightarrow> pageEntry \<Rightarrow> pageEntry \<times> (string + string list)" where
  "pageContents lib doc v e =
     (case v of
        PNull \<Rightarrow> (e, Inr [])
      | PRef n g \<Rightarrow>
          (case derefIn doc v of
             Inl p \<Rightarrow> (e, Inl p)
           | Inr r \<Rightarrow>
               (case asPlainStream r of
                  Some sd \<Rightarrow>
                    (let e' = e\<lparr>peContentNodeID := nodeIDForRef n g\<rparr> in
                     case streamLength doc sd of Inl p \<Rightarrow> (e', Inl p) | Inr len \<Rightarrow> (e'\<lparr>peContentLen := len\<rparr>, Inr []))
                | None \<Rightarrow>
                    (case asArray r of
                       Some elems \<Rightarrow> contentsOfArray lib doc elems e
                     | None \<Rightarrow> (e\<lparr>peContentLen := - 1\<rparr>,
                         Inr [''/Contents '' @ plRefString lib n g @ '' is not a stream: '' @ typeLabel r]))))
      | PArray elems \<Rightarrow> contentsOfArray lib doc elems e
      | _ \<Rightarrow> (e\<lparr>peContentLen := - 1\<rparr>, Inr [''/Contents is not a stream reference or array: '' @ typeLabel v]))"

end
