(* ===== verification/PageIndex.thy ===== *)
theory PageIndex
  imports PageAttrs PdfErrors
begin

text \<open>
  The page index (\<^verbatim>\<open>internal/pdfcore/pageindex.go\<close>): one walk of the page tree that numbers the pages and
  gives every entry that is not a page an unnumbered row. The walker's path-scoped state is passed as
  arguments: the depth, which a deferred call takes back, and the object numbers of the intermediate nodes
  on the current path, of which one is set only when its node was not walked before and deleted when the
  node has been left.
\<close>

section \<open>The walker\<close>

record pageLeaf =
  lfDict :: pdfDict
  lfRef :: "pdfRef option"
  lfAttrs :: pageAttrs
  lfErr :: "string option"

record pageWalker =
  pwEntries :: "pageEntry list"
  pwWalked :: "int list"
  pwFirstPage :: "(int \<times> int) list"
  pwNext :: int
  pwLeaves :: "pageLeaf list"
  pwSkipped :: string

definition maxPageTreeDepth :: nat where "maxPageTreeDepth = 1024"

definition newPageWalker :: pageWalker where
  "newPageWalker = \<lparr> pwEntries = [], pwWalked = [], pwFirstPage = [], pwNext = 0, pwLeaves = [], pwSkipped = [] \<rparr>"

definition addRow :: "pageEntry \<Rightarrow> pageWalker \<Rightarrow> pageWalker" where
  "addRow e w = w\<lparr>pwEntries := pwEntries w @ [e]\<rparr>"

definition skipNode :: "pdfRef option \<Rightarrow> string \<Rightarrow> pageWalker \<Rightarrow> pageWalker" where
  "skipNode mr msg w = (addRow (errorRow mr msg) w)\<lparr>pwSkipped := (if pwSkipped w = [] then msg else pwSkipped w)\<rparr>"

fun joinWith :: "string \<Rightarrow> string list \<Rightarrow> string" where
  "joinWith sep [] = []"
| "joinWith sep [s] = s"
| "joinWith sep (s # t # ss) = s @ sep @ joinWith sep (t # ss)"

section \<open>A page's row\<close>

text \<open>The page's number in the walk, and whether its object was listed before.\<close>

definition firstListing :: "pdfRef option \<Rightarrow> int \<Rightarrow> pageWalker \<Rightarrow> pageWalker \<times> string list" where
  "firstListing mr num w =
     (case mr of
        None \<Rightarrow> (w, [''page is a direct dictionary, not an indirect reference''])
      | Some (n, g) \<Rightarrow> (case map_of (pwFirstPage w) n of
            Some first \<Rightarrow> (w, [''page object also listed as page '' @ showInt first])
          | None \<Rightarrow> (w\<lparr>pwFirstPage := (n, num) # pwFirstPage w\<rparr>, [])))"

definition typeErrs :: "pdfDoc \<Rightarrow> pdfDict \<Rightarrow> string + string list" where
  "typeErrs doc d =
     (case derefIn doc (dictGet d ''Type'') of
        Inl p \<Rightarrow> Inl p
      | Inr t \<Rightarrow> Inr
          ((if t = PNull then [''page has no /Type'']
            else if nameOf t \<noteq> ''Page'' then [''page has /Type '' @ typeValueLabel t @ '', want /Page'']
            else [])
           @ (if dictFind d ''Kids'' \<noteq> None then [''page has a /Kids entry; its kids are not walked''] else [])))"

definition unresolvedErr :: "effect \<Rightarrow> nat \<Rightarrow> string list" where
  "unresolvedErr ef i =
     (let site = paUnresolvedAt (efAttrs ef) ! i; key = fst (inheritableAttrs ! i); b = snd (inheritableAttrs ! i) in
      if site = [] then []
      else [(if efOwn ef AND b \<noteq> 0 then ''/'' @ key @ '' resolves to nothing'' else ''/'' @ key @ '' on '' @ site @ '' resolves to nothing'')
            @ (if efBits ef AND b \<noteq> 0 then ''; inherited value used'' else [])])"

definition boxStep :: "pdfDoc \<Rightarrow> effect \<Rightarrow> pageEntry \<Rightarrow> string + (pageEntry \<times> string list)" where
  "boxStep doc ef e =
     (let box = paValues (efAttrs ef) ! attrMediaBox in
      if box = PNull then Inr (e, if paUnresolvedAt (efAttrs ef) ! attrMediaBox = [] then [''no /MediaBox, own or inherited''] else [])
      else (case readRect doc box of
              Inl p \<Rightarrow> Inl p
            | Inr (Some xs) \<Rightarrow> Inr (e\<lparr>peMediaBox := Some xs\<rparr>, [])
            | Inr None \<Rightarrow> Inr (e, [''/MediaBox is not an array of four numbers''])))"

definition rotateStep :: "pageLib \<Rightarrow> pdfDoc \<Rightarrow> effect \<Rightarrow> pageEntry \<Rightarrow> string + (pageEntry \<times> string list)" where
  "rotateStep lib doc ef e =
     (let rot = paValues (efAttrs ef) ! attrRotate in
      if rot = PNull then Inr (e, [])
      else (case readRotation lib doc rot of
              Inl p \<Rightarrow> Inl p
            | Inr NoNumber \<Rightarrow> Inr (e, [''/Rotate is not a number''])
            | Inr (RoundedDegrees n) \<Rightarrow> Inr (e\<lparr>peRotate := n\<rparr>, [''/Rotate is not an integer; read as '' @ showInt n])
            | Inr (WholeDegrees n) \<Rightarrow> Inr (e\<lparr>peRotate := n\<rparr>, [])))"

definition annotStep :: "pdfDoc \<Rightarrow> pdfDict \<Rightarrow> pageEntry \<Rightarrow> string + pageEntry" where
  "annotStep doc d e =
     (case derefIn doc (ownEntry d ''Annots'') of
        Inl p \<Rightarrow> Inl p
      | Inr v \<Rightarrow> Inr (case asArray v of Some xs \<Rightarrow> e\<lparr>peAnnotCount := int (length xs)\<rparr> | None \<Rightarrow> e))"

text \<open>The rest of \<^verbatim>\<open>fillLeaf\<close> after the attributes and the listing: each step keeps what the row holds when it panics.\<close>

definition fillRow :: "pageLib \<Rightarrow> pdfDoc \<Rightarrow> pdfDict \<Rightarrow> effect \<Rightarrow> string list \<Rightarrow> pageEntry \<Rightarrow> pageEntry \<times> string option" where
  "fillRow lib doc d ef errs e =
     (case typeErrs doc d of Inl p \<Rightarrow> (e, Some p)
      | Inr t \<Rightarrow>
     (case boxStep doc ef e of Inl p \<Rightarrow> (e, Some p)
      | Inr (e2, b) \<Rightarrow>
     (case rotateStep lib doc ef e2 of Inl p \<Rightarrow> (e2, Some p)
      | Inr (e3, r) \<Rightarrow>
     (case annotStep doc d e3 of Inl p \<Rightarrow> (e3, Some p)
      | Inr e4 \<Rightarrow>
     (case pageContents lib doc (ownEntry d ''Contents'') e4 of
        (e5, Inl p) \<Rightarrow> (e5, Some p)
      | (e5, Inr c) \<Rightarrow>
          (e5\<lparr>peErr := joinWith ''; '' (errs @ t @ concat (map (unresolvedErr ef) [attrResources, attrMediaBox, attrCropBox, attrRotate])
                @ b @ r @ c)\<rparr>, None))))))"

definition fillLeaf ::
  "pageLib \<Rightarrow> pdfDoc \<Rightarrow> pdfDict \<Rightarrow> pdfRef option \<Rightarrow> pageAttrs \<Rightarrow> pageEntry \<Rightarrow> pageLeaf \<Rightarrow> pageWalker \<Rightarrow>
     pageWalker \<times> pageEntry \<times> pageLeaf \<times> string option" where
  "fillLeaf lib doc d mr inherited e leaf w =
     (case effectiveAttrs doc d mr inherited of
        Inl p \<Rightarrow> (w, e, leaf, Some p)
      | Inr ef \<Rightarrow>
          (case firstListing mr (pePageNum e) w of (w1, errs) \<Rightarrow>
           (case fillRow lib doc d ef errs (e\<lparr>peInherited := efBits ef\<rparr>) of (e1, pan) \<Rightarrow>
              (w1, e1, leaf\<lparr>lfAttrs := efAttrs ef\<rparr>, pan))))"

definition visitLeaf :: "pageLib \<Rightarrow> pdfDoc \<Rightarrow> pdfDict \<Rightarrow> pdfRef option \<Rightarrow> pageAttrs \<Rightarrow> pageWalker \<Rightarrow> pageWalker" where
  "visitLeaf lib doc d mr inherited w =
     (let num = pwNext w + 1;
          w0 = w\<lparr>pwNext := num\<rparr>;
          e = setRefOpt mr (emptyEntry\<lparr>pePageNum := num\<rparr>);
          leaf = \<lparr> lfDict = d, lfRef = mr, lfAttrs = noAttrs, lfErr = None \<rparr>
      in case fillLeaf lib doc d mr inherited e leaf w0 of (w1, e1, leaf1, pan) \<Rightarrow>
           (let (e2, leaf2) = (case pan of
                None \<Rightarrow> (e1, leaf1)
              | Some p \<Rightarrow> (e1\<lparr>peErr := ''page could not be read: '' @ panicText p\<rparr>,
                  leaf1\<lparr>lfErr := Some (''page '' @ showInt num @ '' could not be read: '' @ panicText p)\<rparr>))
            in w1\<lparr>pwLeaves := pwLeaves w1 @ [leaf2], pwEntries := pwEntries w1 @ [e2]\<rparr>))"

section \<open>The walk\<close>

function
  visitNode :: "pageLib \<Rightarrow> pdfDoc \<Rightarrow> pdfDict \<Rightarrow> pdfRef option \<Rightarrow> pageAttrs \<Rightarrow> nat \<Rightarrow> int list \<Rightarrow> pageWalker \<Rightarrow> pageWalker \<times> string option" and
  visitIntermediate :: "pageLib \<Rightarrow> pdfDoc \<Rightarrow> pdfDict \<Rightarrow> pdfRef option \<Rightarrow> pdfObj \<Rightarrow> pageAttrs \<Rightarrow> nat \<Rightarrow> int list \<Rightarrow> pageWalker \<Rightarrow> pageWalker \<times> string option" and
  visitKids :: "pageLib \<Rightarrow> pdfDoc \<Rightarrow> nat \<Rightarrow> pdfObj list \<Rightarrow> pageAttrs \<Rightarrow> nat \<Rightarrow> int list \<Rightarrow> pageWalker \<Rightarrow> pageWalker" and
  visitKid :: "pageLib \<Rightarrow> pdfDoc \<Rightarrow> nat \<Rightarrow> pdfObj \<Rightarrow> pageAttrs \<Rightarrow> nat \<Rightarrow> int list \<Rightarrow> pageWalker \<Rightarrow> pageWalker \<times> string option" where
  "visitNode lib doc d mr inherited depth path w =
     (case derefIn doc (dictGet d ''Type'') of
        Inl p \<Rightarrow> (w, Some p)
      | Inr t \<Rightarrow>
          if nameOf t = ''Page'' then (visitLeaf lib doc d mr inherited w, None)
          else (case dictFind d ''Kids'' of
                  Some kids \<Rightarrow> visitIntermediate lib doc d mr kids inherited depth path w
                | None \<Rightarrow> if nameOf t = ''Pages'' then (addRow (errorRow mr ''/Pages node has no /Kids'') w, None)
                    else (visitLeaf lib doc d mr inherited w, None)))"
| "visitIntermediate lib doc d mr kidsObj inherited depth path w =
     (if maxPageTreeDepth \<le> depth then
        (skipNode mr (''page tree deeper than '' @ showNat maxPageTreeDepth @ '' levels; subtree not walked'') w, None)
      else if (case mr of Some (n, g) \<Rightarrow> n \<in> set (pwWalked w) | None \<Rightarrow> False) then
        (addRow (errorRow mr ''page tree node also reached from another parent'') w, None)
      else (let w1 = (case mr of Some (n, g) \<Rightarrow> w\<lparr>pwWalked := n # pwWalked w\<rparr> | None \<Rightarrow> w);
                path1 = (case mr of Some (n, g) \<Rightarrow> n # path | None \<Rightarrow> path)
            in case derefIn doc kidsObj of
                 Inl p \<Rightarrow> (w1, Some p)
               | Inr ko \<Rightarrow>
                   (case asArray ko of
                      None \<Rightarrow> (addRow (errorRow mr (''/Kids is not an array: '' @ typeLabel ko)) w1, None)
                    | Some kids \<Rightarrow>
                        (case effectiveAttrs doc d mr inherited of
                           Inl p \<Rightarrow> (w1, Some p)
                         | Inr ef \<Rightarrow> (visitKids lib doc 0 kids (efAttrs ef) (depth + 1) path1 w1, None)))))"
| "visitKids lib doc i [] frame depth path w = w"
| "visitKids lib doc i (kid # kids) frame depth path w =
     (case visitKid lib doc i kid frame depth path w of (w', pan) \<Rightarrow>
        visitKids lib doc (i + 1) kids frame depth path
          (case pan of None \<Rightarrow> w'
           | Some p \<Rightarrow> skipNode (asRef kid) (''/Kids entry '' @ showNat i @ '' could not be read: '' @ panicText p) w'))"
| "visitKid lib doc i kid inherited depth path w =
     (case asRef kid of
        None \<Rightarrow>
          (case kid of
             PNull \<Rightarrow> (addRow (errorRow None (''/Kids entry '' @ showNat i @ '' is null'')) w, None)
           | PDict d \<Rightarrow> visitNode lib doc d None inherited depth path w
           | _ \<Rightarrow> (addRow (errorRow None (''/Kids entry '' @ showNat i @ '' is not a dictionary: '' @ typeLabel kid)) w, None))
      | Some (n, g) \<Rightarrow>
          if n \<in> set path then
            (addRow (errorRow (Some (n, g)) (''/Kids entry '' @ showNat i @ '' ('' @ plRefString lib n g @ '') points at an ancestor: page tree cycle'')) w, None)
          else (case derefIn doc kid of
                  Inl p \<Rightarrow> (w, Some p)
                | Inr r \<Rightarrow>
                    (case r of
                       PNull \<Rightarrow> (addRow (errorRow (Some (n, g)) (''/Kids entry '' @ showNat i @ '' ('' @ plRefString lib n g @ '') is a dangling reference'')) w, None)
                     | PDict d \<Rightarrow> visitNode lib doc d (Some (n, g)) inherited depth path w
                     | _ \<Rightarrow> (addRow (errorRow (Some (n, g)) (''/Kids entry '' @ showNat i @ '' ('' @ plRefString lib n g @ '') is not a dictionary: '' @ typeLabel r)) w, None))))"
  by pat_completeness auto
termination visitNode
  by (relation "measures [\<lambda>x. case x of
          Inl (Inl (lib, doc, d, mr, inh, depth, _)) \<Rightarrow> maxPageTreeDepth - depth
        | Inl (Inr (lib, doc, d, mr, k, inh, depth, _)) \<Rightarrow> maxPageTreeDepth - depth
        | Inr (Inl (lib, doc, i, kids, inh, depth, _)) \<Rightarrow> maxPageTreeDepth - depth
        | Inr (Inr (lib, doc, i, kid, inh, depth, _)) \<Rightarrow> maxPageTreeDepth - depth,
      \<lambda>x. case x of Inl (Inl _) \<Rightarrow> 1 | Inl (Inr _) \<Rightarrow> 0 | Inr (Inl _) \<Rightarrow> 3 | Inr (Inr _) \<Rightarrow> 2,
      \<lambda>x. case x of Inr (Inl (lib, doc, i, kids, _)) \<Rightarrow> length kids | _ \<Rightarrow> 0]")
    auto

declare visitNode.simps [simp del] visitIntermediate.simps [simp del] visitKids.simps [simp del] visitKid.simps [simp del]

text \<open>\<^verbatim>\<open>walk\<close>: a panic outside every node ends it.\<close>

definition pageWalk :: "pageLib \<Rightarrow> pdfDoc \<Rightarrow> pageWalker \<times> string option" where
  "pageWalk lib doc =
     (case docCatalog doc of
        DPanic p \<Rightarrow> (newPageWalker, Some p)
      | DErr e \<Rightarrow> (newPageWalker, None)
      | DObj c \<Rightarrow>
          (let rootObj = (case asDict c of Some cat \<Rightarrow> dictGet cat ''Pages'' | None \<Rightarrow> PNull) in
           if rootObj = PNull then (newPageWalker, None)
           else (case derefIn doc rootObj of
                   Inl p \<Rightarrow> (newPageWalker, Some p)
                 | Inr (PDict rootDict) \<Rightarrow>
                     (case visitNode lib doc rootDict (asRef rootObj) noAttrs 0 [] newPageWalker of
                        (w, None) \<Rightarrow> (w, None)
                      | (w, Some p) \<Rightarrow> (skipNode (asRef rootObj) (''the page tree could not be read: '' @ panicText p) w, None))
                 | Inr v \<Rightarrow> (newPageWalker, None))))"

section \<open>The index and the lookup by number\<close>

text \<open>\<^verbatim>\<open>pageTree\<close>: the error of a walk that failed outside every node travels in the value.\<close>

record pageTree =
  ptEntries :: "pageEntry list"
  ptLeaves :: "pageLeaf list"
  ptErr :: "string option"
  ptSkipped :: string

definition buildPageTree :: "pageLib \<Rightarrow> pdfDoc \<Rightarrow> pageTree" where
  "buildPageTree lib doc =
     (case pageWalk lib doc of (w, pan) \<Rightarrow>
        \<lparr> ptEntries = pwEntries w, ptLeaves = pwLeaves w, ptErr = map_option (\<lambda>p. wrapPDFError (panicText p)) pan, ptSkipped = pwSkipped w \<rparr>)"

definition GetPageIndex :: "pageLib \<Rightarrow> pdfDoc \<Rightarrow> string + pageEntry list" where
  "GetPageIndex lib doc =
     (let t = buildPageTree lib doc in case ptErr t of Some e \<Rightarrow> Inl e | None \<Rightarrow> Inr (ptEntries t))"

text \<open>\<^verbatim>\<open>findPage\<close>: no page of that number is \<open>Inr None\<close>.\<close>

definition findPage :: "pageLib \<Rightarrow> pdfDoc \<Rightarrow> int \<Rightarrow> string + pageLeaf option" where
  "findPage lib doc pageNum =
     (if pageNum < 1 then Inr None
      else (let t = buildPageTree lib doc in
            if pageNum \<le> int (length (ptLeaves t)) then
              (let leaf = ptLeaves t ! nat (pageNum - 1) in
               case lfErr leaf of Some e \<Rightarrow> Inl e | None \<Rightarrow> Inr (Some leaf))
            else (case ptErr t of Some e \<Rightarrow> Inl e | None \<Rightarrow> Inr None)))"

text \<open>\<^verbatim>\<open>inheritedPageAttrs\<close>: the attributes of a page that was found, read for the library.\<close>

record libAttrs =
  laResources :: "pdfDict option"
  laMediaBox :: "pdfObj list option"
  laCropBox :: "pdfObj list option"
  laRotate :: int

datatype attrAnswer = AttrPanic string | AttrErr string | AttrOK libAttrs

definition boxOf :: "pdfDoc \<Rightarrow> string \<Rightarrow> pdfObj \<Rightarrow> string + (string + pdfObj list option)" where
  "boxOf doc name v =
     (if v = PNull then Inr (Inr None)
      else (case readRect doc v of
              Inl p \<Rightarrow> Inl p
            | Inr None \<Rightarrow> Inr (Inl (''/'' @ name @ '' is not an array of four numbers''))
            | Inr (Some xs) \<Rightarrow> Inr (Inr (Some xs))))"

definition rotateOf :: "pageLib \<Rightarrow> pdfDoc \<Rightarrow> pdfObj \<Rightarrow> string + (string + int)" where
  "rotateOf lib doc v =
     (if v = PNull then Inr (Inr 0)
      else (case readRotation lib doc v of
              Inl p \<Rightarrow> Inl p
            | Inr NoNumber \<Rightarrow> Inr (Inl ''/Rotate is not a number'')
            | Inr (WholeDegrees n) \<Rightarrow> Inr (Inr n)
            | Inr (RoundedDegrees n) \<Rightarrow> Inr (Inr n)))"

definition inheritedPageAttrs :: "pageLib \<Rightarrow> pdfDoc \<Rightarrow> pageLeaf \<Rightarrow> attrAnswer" where
  "inheritedPageAttrs lib doc leaf =
     (let vs = paValues (lfAttrs leaf) in
      case derefIn doc (vs ! attrResources) of
        Inl p \<Rightarrow> AttrPanic p
      | Inr r \<Rightarrow>
          if r \<noteq> PNull \<and> (case r of PDict d \<Rightarrow> False | _ \<Rightarrow> True) then AttrErr ''/Resources is not a dictionary''
          else (case boxOf doc ''MediaBox'' (vs ! attrMediaBox) of
                  Inl p \<Rightarrow> AttrPanic p
                | Inr (Inl e) \<Rightarrow> AttrErr e
                | Inr (Inr mb) \<Rightarrow>
                    (case boxOf doc ''CropBox'' (vs ! attrCropBox) of
                       Inl p \<Rightarrow> AttrPanic p
                     | Inr (Inl e) \<Rightarrow> AttrErr e
                     | Inr (Inr cb) \<Rightarrow>
                         (case rotateOf lib doc (vs ! attrRotate) of
                            Inl p \<Rightarrow> AttrPanic p
                          | Inr (Inl e) \<Rightarrow> AttrErr e
                          | Inr (Inr n) \<Rightarrow> AttrOK \<lparr> laResources = (case r of PDict d \<Rightarrow> Some d | _ \<Rightarrow> None),
                              laMediaBox = mb, laCropBox = cb, laRotate = n \<rparr>))))"

end
