(* ===== verification/PageNumbers.thy ===== *)
theory PageNumbers
  imports PageIndex
begin

text \<open>
  What the page index promises: pages are numbered consecutively in the order of their rows, every other row
  carries an error, and a lookup by number finds the page of that row. On a page tree without sharing the
  walk lists exactly the tree's leaves, each with the attributes of its nearest ancestor that has them.
\<close>

section \<open>A row keeps its page number and its object\<close>

definition rowId :: "pageEntry \<Rightarrow> int \<times> int \<times> int \<times> string" where
  "rowId e = (pePageNum e, peObjNum e, peGen e, peNodeID e)"

named_theorems row_keeps \<open>steps that fill a row keep its number and its object\<close>

lemma rowId_update [row_keeps]:
  "rowId (e\<lparr>peMediaBox := b\<rparr>) = rowId e" "rowId (e\<lparr>peRotate := n\<rparr>) = rowId e" "rowId (e\<lparr>peInherited := i\<rparr>) = rowId e"
  "rowId (e\<lparr>peAnnotCount := a\<rparr>) = rowId e" "rowId (e\<lparr>peContentLen := c\<rparr>) = rowId e" "rowId (e\<lparr>peErr := s\<rparr>) = rowId e"
  "rowId (e\<lparr>peContentNodeID := s\<rparr>) = rowId e"
  by (simp_all add: rowId_def)

lemma contentElems_keeps [row_keeps]: "rowId (fst (contentElems lib doc i els errs acc ok e)) = rowId e"
  by (induction lib doc i els errs acc ok e rule: contentElems.induct)
    (auto simp: Let_def row_keeps split: option.split sum.split)

lemma contentsOfArray_keeps [row_keeps]: "rowId (fst (contentsOfArray lib doc els e)) = rowId e"
  using contentElems_keeps [of lib doc 0 els "[]" 0 True e]
  by (cases "contentElems lib doc 0 els [] 0 True e") (auto simp: contentsOfArray_def row_keeps split: sum.split)

lemma pageContents_keeps [row_keeps]: "rowId (fst (pageContents lib doc v e)) = rowId e"
  by (auto simp: pageContents_def Let_def row_keeps split: pdfObj.split sum.split option.split)

lemma boxStep_keeps: "boxStep doc ef e = Inr (e', m) \<Longrightarrow> rowId e' = rowId e"
  by (auto simp: boxStep_def Let_def row_keeps split: if_split_asm sum.split_asm option.split_asm)

lemma rotateStep_keeps: "rotateStep lib doc ef e = Inr (e', m) \<Longrightarrow> rowId e' = rowId e"
  by (auto simp: rotateStep_def Let_def row_keeps split: if_split_asm sum.split_asm rotation.split_asm)

lemma annotStep_keeps: "annotStep doc d e = Inr e' \<Longrightarrow> rowId e' = rowId e"
  by (auto simp: annotStep_def row_keeps split: sum.split_asm option.split_asm)

lemma fillRow_keeps [row_keeps]: "rowId (fst (fillRow lib doc d ef errs e)) = rowId e"
proof -
  have c: "pageContents lib doc v e4 = (e5, r) \<Longrightarrow> rowId e5 = rowId e4" for v e4 e5 r
    using pageContents_keeps [of lib doc v e4] by simp
  show ?thesis
    by (auto simp: fillRow_def row_keeps split: sum.split prod.split dest!: boxStep_keeps rotateStep_keeps annotStep_keeps c)
qed

lemma firstListing_keeps: "firstListing mr num w = (w', errs) \<Longrightarrow>
  pwEntries w' = pwEntries w \<and> pwLeaves w' = pwLeaves w \<and> pwNext w' = pwNext w \<and> pwWalked w' = pwWalked w \<and> pwSkipped w' = pwSkipped w"
  by (auto simp: firstListing_def split: option.split_asm)

section \<open>The numbering\<close>

definition numberedRows :: "pageEntry list \<Rightarrow> pageEntry list" where
  "numberedRows es = filter (\<lambda>e. pePageNum e \<noteq> 0) es"

definition sameRef :: "pageEntry \<Rightarrow> pdfRef option \<Rightarrow> bool" where
  "sameRef e mr \<longleftrightarrow> (case mr of None \<Rightarrow> peObjNum e = 0 \<and> peGen e = 0 \<and> peNodeID e = []
     | Some (n, g) \<Rightarrow> peObjNum e = n \<and> peGen e = g \<and> peNodeID e = nodeIDForRef n g)"

definition rowOf :: "pageEntry \<Rightarrow> pageLeaf \<Rightarrow> bool" where
  "rowOf e l \<longleftrightarrow> sameRef e (lfRef l) \<and> (lfErr l = None \<or> peErr e \<noteq> [])"

definition pageInv :: "pageWalker \<Rightarrow> bool" where
  "pageInv w \<longleftrightarrow> pwNext w = int (length (pwLeaves w))
     \<and> map pePageNum (numberedRows (pwEntries w)) = map int [1..<length (pwLeaves w) + 1]
     \<and> list_all2 rowOf (numberedRows (pwEntries w)) (pwLeaves w)
     \<and> (\<forall>e \<in> set (pwEntries w). pePageNum e = 0 \<longrightarrow> peErr e \<noteq> [])"

lemma pageInv_new: "pageInv newPageWalker"
  by (simp add: pageInv_def newPageWalker_def numberedRows_def)

lemma errorRow_plain: "pePageNum (errorRow mr msg) = 0" "peErr (errorRow mr msg) = msg"
  by (simp_all add: errorRow_def setRefOpt_def setRef_def emptyEntry_def split: option.split)

lemma addRow_inv: "pageInv w \<Longrightarrow> msg \<noteq> [] \<Longrightarrow> pageInv (addRow (errorRow mr msg) w)"
  by (auto simp: pageInv_def addRow_def numberedRows_def errorRow_plain)

lemma skipNode_inv: "pageInv w \<Longrightarrow> msg \<noteq> [] \<Longrightarrow> pageInv (skipNode mr msg w)"
  using addRow_inv [of w msg mr] by (simp add: skipNode_def pageInv_def)

lemma walked_inv [simp]: "pageInv (w\<lparr>pwWalked := ns\<rparr>) = pageInv w"
  by (simp add: pageInv_def)

text \<open>What a page adds to the walker.\<close>

lemma visitLeaf_adds:
  obtains e l where "pwEntries (visitLeaf lib doc d mr inh w) = pwEntries w @ [e]"
    "pwLeaves (visitLeaf lib doc d mr inh w) = pwLeaves w @ [l]"
    "pwNext (visitLeaf lib doc d mr inh w) = pwNext w + 1" "pwWalked (visitLeaf lib doc d mr inh w) = pwWalked w"
    "pwSkipped (visitLeaf lib doc d mr inh w) = pwSkipped w"
    "rowOf e l" "pePageNum e = pwNext w + 1" "lfDict l = d" "lfRef l = mr"
    "\<And>ef. effectiveAttrs doc d mr inh = Inr ef \<Longrightarrow> lfAttrs l = efAttrs ef"
proof -
  let ?num = "pwNext w + 1" and ?w0 = "w\<lparr>pwNext := pwNext w + 1\<rparr>"
  let ?e = "setRefOpt mr (emptyEntry\<lparr>pePageNum := ?num\<rparr>)" and ?l = "\<lparr> lfDict = d, lfRef = mr, lfAttrs = noAttrs, lfErr = None \<rparr>"
  have start: "sameRef ?e mr" "pePageNum ?e = ?num"
    by (auto simp: sameRef_def setRefOpt_def setRef_def emptyEntry_def split: option.split)
  have same: "sameRef e mr = sameRef e' mr" "pePageNum e = pePageNum e'" if "rowId e = rowId e'" for e e'
    using that by (auto simp: rowId_def sameRef_def split: option.split)
  obtain w1 e1 l1 pan where f: "fillLeaf lib doc d mr inh ?e ?l ?w0 = (w1, e1, l1, pan)" by (cases "fillLeaf lib doc d mr inh ?e ?l ?w0") auto
  have k: "rowId e1 = rowId ?e \<and> pwEntries w1 = pwEntries w \<and> pwLeaves w1 = pwLeaves w \<and> pwNext w1 = ?num \<and> pwWalked w1 = pwWalked w
      \<and> pwSkipped w1 = pwSkipped w \<and> lfDict l1 = d \<and> lfRef l1 = mr \<and> lfErr l1 = None
      \<and> (\<forall>ef. effectiveAttrs doc d mr inh = Inr ef \<longrightarrow> lfAttrs l1 = efAttrs ef)"
  proof (cases "effectiveAttrs doc d mr inh")
    case (Inl p)
    with f show ?thesis by (auto simp: fillLeaf_def)
  next
    case (Inr ef)
    obtain w2 errs where fl: "firstListing mr (pePageNum ?e) ?w0 = (w2, errs)" by fastforce
    obtain e2 pan2 where fr: "fillRow lib doc d ef errs (?e\<lparr>peInherited := efBits ef\<rparr>) = (e2, pan2)" by fastforce
    have "rowId e2 = rowId ?e" using fillRow_keeps [of lib doc d ef errs "?e\<lparr>peInherited := efBits ef\<rparr>"] fr by (simp add: row_keeps)
    with f Inr fl fr firstListing_keeps [OF fl] show ?thesis by (auto simp: fillLeaf_def)
  qed
  let ?e2 = "case pan of None \<Rightarrow> e1 | Some p \<Rightarrow> e1\<lparr>peErr := ''page could not be read: '' @ panicText p\<rparr>"
  let ?l2 = "case pan of None \<Rightarrow> l1 | Some p \<Rightarrow> l1\<lparr>lfErr := Some (''page '' @ showInt ?num @ '' could not be read: '' @ panicText p)\<rparr>"
  have v: "visitLeaf lib doc d mr inh w = w1\<lparr>pwLeaves := pwLeaves w1 @ [?l2], pwEntries := pwEntries w1 @ [?e2]\<rparr>"
    using f by (simp add: visitLeaf_def Let_def split: option.split)
  have e2: "rowId ?e2 = rowId ?e" using k by (simp add: row_keeps split: option.split)
  show thesis
  proof (rule that [of ?e2 ?l2])
    show "rowOf ?e2 ?l2" using same(1) [OF e2] start(1) k by (auto simp: rowOf_def split: option.split)
    show "pePageNum ?e2 = ?num" using same(2) [OF e2] start(2) by simp
  qed (use v k in \<open>auto split: option.split\<close>)
qed

lemma visitLeaf_inv:
  assumes "pageInv w"
  shows "pageInv (visitLeaf lib doc d mr inh w)"
proof -
  obtain e l where a: "pwEntries (visitLeaf lib doc d mr inh w) = pwEntries w @ [e]"
    "pwLeaves (visitLeaf lib doc d mr inh w) = pwLeaves w @ [l]"
    "pwNext (visitLeaf lib doc d mr inh w) = pwNext w + 1" "rowOf e l" "pePageNum e = pwNext w + 1"
    by (rule visitLeaf_adds)
  have n: "pwNext w = int (length (pwLeaves w))" using assms by (simp add: pageInv_def)
  with a(5) have "pePageNum e \<noteq> 0" by simp
  then show ?thesis using assms a n by (auto simp: pageInv_def numberedRows_def list_all2_appendI)
qed

lemma walk_inv:
  "pageInv w \<Longrightarrow> pageInv (fst (visitNode lib doc d mr inh depth path w))"
  "pageInv w \<Longrightarrow> pageInv (fst (visitIntermediate lib doc d mr kidsObj inh depth path w))"
  "pageInv w \<Longrightarrow> pageInv (visitKids lib doc i kids inh depth path w)"
  "pageInv w \<Longrightarrow> pageInv (fst (visitKid lib doc i kid inh depth path w))"
proof (induction lib doc d mr inh depth path w and lib doc d mr kidsObj inh depth path w and lib doc i kids inh depth path w
    and lib doc i kid inh depth path w rule: visitNode_visitIntermediate_visitKids_visitKid.induct)
  case (1 lib doc d mr inh depth path w)
  then show ?case by (auto simp: visitNode.simps intro: visitLeaf_inv addRow_inv split: sum.split option.split)
next
  case (2 lib doc d mr kidsObj inh depth path w)
  then show ?case
    by (auto simp: visitIntermediate.simps Let_def intro: addRow_inv skipNode_inv split: sum.split option.split)
next
  case (4 lib doc i kid kids frame depth path w)
  obtain w' pan where v: "visitKid lib doc i kid frame depth path w = (w', pan)" by fastforce
  let ?w = "case pan of None \<Rightarrow> w'
    | Some p \<Rightarrow> skipNode (asRef kid) (''/Kids entry '' @ showNat i @ '' could not be read: '' @ panicText p) w'"
  have "pageInv w'" using "4.IH"(1) "4.prems" v by simp
  then have "pageInv ?w" by (cases pan) (auto intro: skipNode_inv)
  from "4.IH"(2) [OF v [symmetric] this] v show ?case by (simp add: visitKids.simps)
next
  case (5 lib doc i kid inh depth path w)
  then show ?case
    by (auto simp: visitKid.simps intro: addRow_inv split: sum.split option.split pdfObj.split)
qed (simp add: visitKids.simps)

end
