(* ===== verification/PageExact.thy ===== *)
theory PageExact
  imports PageNumbers
begin

text \<open>
  The page index against a description of page trees: an abstract tree of dictionaries, when a document
  represents it, its leaves in document order, and for each leaf the inherited attributes.
\<close>

section \<open>Page trees\<close>

datatype ptree = PageLeaf pdfDict "pdfRef option" | PageNode pdfDict "pdfRef option" "ptree list"

fun treeDict :: "ptree \<Rightarrow> pdfDict" where
  "treeDict (PageLeaf d mr) = d"
| "treeDict (PageNode d mr kids) = d"

fun treeRef :: "ptree \<Rightarrow> pdfRef option" where
  "treeRef (PageLeaf d mr) = mr"
| "treeRef (PageNode d mr kids) = mr"

text \<open>How an entry of \<open>/Kids\<close>, or the catalog's \<open>/Pages\<close>, holds a node: by reference or directly.\<close>

definition holdsNode :: "pdfDoc \<Rightarrow> pdfObj \<Rightarrow> ptree \<Rightarrow> bool" where
  "holdsNode doc x t \<longleftrightarrow> asRef x = treeRef t \<and> safeDeref doc x = PDict (treeDict t)"

definition nodeTypeName :: "pdfDoc \<Rightarrow> pdfDict \<Rightarrow> string" where
  "nodeTypeName doc d = nameOf (safeDeref doc (dictGet d ''Type''))"

definition kidsOf :: "pdfDoc \<Rightarrow> pdfDict \<Rightarrow> pdfObj list option" where
  "kidsOf doc d = (case dictFind d ''Kids'' of None \<Rightarrow> None | Some v \<Rightarrow> asArray (safeDeref doc v))"

fun represents :: "pdfDoc \<Rightarrow> ptree \<Rightarrow> bool" where
  "represents doc (PageLeaf d mr) \<longleftrightarrow>
     nodeTypeName doc d = ''Page'' \<or> (dictFind d ''Kids'' = None \<and> nodeTypeName doc d \<noteq> ''Pages'')"
| "represents doc (PageNode d mr kids) \<longleftrightarrow> nodeTypeName doc d \<noteq> ''Page''
     \<and> (case kidsOf doc d of None \<Rightarrow> False | Some xs \<Rightarrow> list_all2 (holdsNode doc) xs kids)
     \<and> list_all (represents doc) kids"

fun treeHeight :: "ptree \<Rightarrow> nat" where
  "treeHeight (PageLeaf d mr) = 0"
| "treeHeight (PageNode d mr kids) = 1 + foldr max (map treeHeight kids) 0"

definition refNums :: "pdfRef option \<Rightarrow> int list" where
  "refNums mr = (case mr of None \<Rightarrow> [] | Some r \<Rightarrow> [fst r])"

fun innerNums :: "ptree \<Rightarrow> int list" where
  "innerNums (PageLeaf d mr) = []"
| "innerNums (PageNode d mr kids) = refNums mr @ concat (map innerNums kids)"

fun leafNums :: "ptree \<Rightarrow> int list" where
  "leafNums (PageLeaf d mr) = refNums mr"
| "leafNums (PageNode d mr kids) = concat (map leafNums kids)"

text \<open>The value of an attribute in effect: that of the nearest dictionary, from the page upwards, that has one.\<close>

fun nearest :: "pdfDoc \<Rightarrow> pdfDict list \<Rightarrow> string \<Rightarrow> pdfObj" where
  "nearest doc [] key = PNull"
| "nearest doc (d # ds) key = (let r = safeDeref doc (dictGet d key) in if r \<noteq> PNull then r else nearest doc ds key)"

definition attrsOf :: "pdfDoc \<Rightarrow> pdfDict list \<Rightarrow> pdfObj list" where
  "attrsOf doc chain = map (nearest doc chain) [''Resources'', ''MediaBox'', ''CropBox'', ''Rotate'']"

fun pageList :: "pdfDoc \<Rightarrow> pdfDict list \<Rightarrow> ptree \<Rightarrow> (pdfDict \<times> pdfRef option \<times> pdfObj list) list" where
  "pageList doc chain (PageLeaf d mr) = [(d, mr, attrsOf doc (d # chain))]"
| "pageList doc chain (PageNode d mr kids) = concat (map (pageList doc (d # chain)) kids)"

section \<open>Inheritance\<close>

lemma pickAttr_value:
  assumes "quietDoc doc" "i < length (paValues (efAttrs ef))"
  obtains ef' where "pickAttr doc d mr i ef = Inr ef'"
    "paValues (efAttrs ef') = (paValues (efAttrs ef))
       [i := (let r = safeDeref doc (dictGet d (fst (inheritableAttrs ! i))) in if r \<noteq> PNull then r else paValues (efAttrs ef) ! i)]"
proof -
  let ?v = "dictGet d (fst (inheritableAttrs ! i))"
  have null: "safeDeref doc PNull = PNull" by (simp add: safeDeref_def)
  have "\<exists>ef'. pickAttr doc d mr i ef = Inr ef' \<and> paValues (efAttrs ef') = (paValues (efAttrs ef))
       [i := (let r = safeDeref doc ?v in if r \<noteq> PNull then r else paValues (efAttrs ef) ! i)]"
    using quiet_deref [OF assms(1), of ?v] null
    by (auto simp: pickAttr_def ownEntry_def Let_def inheritValue_def takeOwn_def loseOwn_def safeDeref_def split: derefAnswer.split)
      (metis list_update_id)+
  with that show thesis by blast
qed

lemma effectiveAttrs_value:
  assumes "quietDoc doc" "paValues inh = attrsOf doc chain"
  obtains ef where "effectiveAttrs doc d mr inh = Inr ef" "paValues (efAttrs ef) = attrsOf doc (d # chain)"
proof -
  let ?new = "\<lambda>key. let r = safeDeref doc (dictGet d key) in if r \<noteq> PNull then r else nearest doc chain key"
  let ?e0 = "\<lparr> efAttrs = inh, efBits = 0, efOwn = 0 \<rparr>"
  have l: "length (attrsOf doc chain) = 4" by (simp add: attrsOf_def)
  note ix = attrResources_def attrMediaBox_def attrCropBox_def attrRotate_def
  obtain e1 where e1: "pickAttr doc d mr attrResources ?e0 = Inr e1"
    "paValues (efAttrs e1) = [?new ''Resources'', nearest doc chain ''MediaBox'', nearest doc chain ''CropBox'', nearest doc chain ''Rotate'']"
    by (rule pickAttr_value [OF assms(1), of attrResources ?e0 d mr]) (use assms(2) l in \<open>simp_all add: ix attrsOf_def inheritableAttrs_def Let_def\<close>)
  obtain e2 where e2: "pickAttr doc d mr attrMediaBox e1 = Inr e2"
    "paValues (efAttrs e2) = [?new ''Resources'', ?new ''MediaBox'', nearest doc chain ''CropBox'', nearest doc chain ''Rotate'']"
    by (rule pickAttr_value [OF assms(1), of attrMediaBox e1 d mr]) (use e1(2) in \<open>simp_all add: ix inheritableAttrs_def Let_def\<close>)
  obtain e3 where e3: "pickAttr doc d mr attrCropBox e2 = Inr e3"
    "paValues (efAttrs e3) = [?new ''Resources'', ?new ''MediaBox'', ?new ''CropBox'', nearest doc chain ''Rotate'']"
    by (rule pickAttr_value [OF assms(1), of attrCropBox e2 d mr]) (use e2(2) in \<open>simp_all add: ix inheritableAttrs_def Let_def\<close>)
  obtain e4 where e4: "pickAttr doc d mr attrRotate e3 = Inr e4"
    "paValues (efAttrs e4) = [?new ''Resources'', ?new ''MediaBox'', ?new ''CropBox'', ?new ''Rotate'']"
    by (rule pickAttr_value [OF assms(1), of attrRotate e3 d mr]) (use e3(2) in \<open>simp_all add: ix inheritableAttrs_def Let_def\<close>)
  show thesis
  proof (rule that [of e4])
    show "effectiveAttrs doc d mr inh = Inr e4" using e1(1) e2(1) e3(1) e4(1) by (simp add: effectiveAttrs_def)
    show "paValues (efAttrs e4) = attrsOf doc (d # chain)" using e4(2) by (simp add: attrsOf_def Let_def)
  qed
qed

section \<open>The walk of a page tree\<close>

definition leavesShown :: "pageWalker \<Rightarrow> (pdfDict \<times> pdfRef option \<times> pdfObj list) list" where
  "leavesShown w = map (\<lambda>l. (lfDict l, lfRef l, paValues (lfAttrs l))) (pwLeaves w)"

text \<open>The walker after a tree: its leaves in order, a row for each, its intermediate nodes walked, nothing skipped.\<close>

definition walkedTrees :: "pdfDoc \<Rightarrow> pdfDict list \<Rightarrow> ptree list \<Rightarrow> pageWalker \<Rightarrow> pageWalker \<Rightarrow> bool" where
  "walkedTrees doc chain ts w w' \<longleftrightarrow>
     leavesShown w' = leavesShown w @ concat (map (pageList doc chain) ts)
     \<and> length (pwEntries w') = length (pwEntries w) + length (concat (map (pageList doc chain) ts))
     \<and> set (pwWalked w') = set (pwWalked w) \<union> set (concat (map innerNums ts))
     \<and> pwSkipped w' = pwSkipped w"

definition fits :: "ptree list \<Rightarrow> nat \<Rightarrow> int list \<Rightarrow> pageWalker \<Rightarrow> bool" where
  "fits ts depth path w \<longleftrightarrow> list_all (\<lambda>t. depth + treeHeight t \<le> maxPageTreeDepth) ts
     \<and> distinct (concat (map innerNums ts)) \<and> set (concat (map innerNums ts)) \<inter> set (pwWalked w) = {}
     \<and> set (concat (map leafNums ts)) \<inter> set path = {} \<and> set path \<subseteq> set (pwWalked w)
     \<and> set (concat (map leafNums ts)) \<inter> set (concat (map innerNums ts)) = {}"

lemma walkedTrees_Nil [simp]: "walkedTrees doc chain [] w w"
  by (simp add: walkedTrees_def)

lemma walkedTrees_Cons:
  "walkedTrees doc chain [t] w w1 \<Longrightarrow> walkedTrees doc chain ts w1 w2 \<Longrightarrow> walkedTrees doc chain (t # ts) w w2"
  by (auto simp: walkedTrees_def)

lemma fits_Cons: "fits (t # ts) depth path w \<Longrightarrow> fits [t] depth path w"
  by (auto simp: fits_def)

lemma fits_rest: "fits (t # ts) depth path w \<Longrightarrow> walkedTrees doc chain [t] w w1 \<Longrightarrow> fits ts depth path w1"
  by (auto simp: fits_def walkedTrees_def)

lemma kid_height: "k \<in> set kids \<Longrightarrow> treeHeight k \<le> foldr max (map treeHeight kids) 0"
  by (induction kids) auto

lemma fits_kids:
  assumes "fits [PageNode d mr kids] depth path w"
  shows "fits kids (depth + 1) (refNums mr @ path) (w\<lparr>pwWalked := refNums mr @ pwWalked w\<rparr>)" "depth < maxPageTreeDepth"
    "set (refNums mr) \<inter> set (pwWalked w) = {}"
proof -
  show "fits kids (depth + 1) (refNums mr @ path) (w\<lparr>pwWalked := refNums mr @ pwWalked w\<rparr>)"
    using assms kid_height [of _ kids] by (fastforce simp: fits_def list_all_iff)
qed (use assms in \<open>auto simp: fits_def\<close>)

lemma visitLeaf_walked:
  assumes "quietDoc doc" "paValues inh = attrsOf doc chain"
  shows "walkedTrees doc chain [PageLeaf d mr] w (visitLeaf lib doc d mr inh w)"
proof -
  obtain ef where ef: "effectiveAttrs doc d mr inh = Inr ef" "paValues (efAttrs ef) = attrsOf doc (d # chain)"
    by (rule effectiveAttrs_value [OF assms])
  obtain e l where a: "pwEntries (visitLeaf lib doc d mr inh w) = pwEntries w @ [e]"
    "pwLeaves (visitLeaf lib doc d mr inh w) = pwLeaves w @ [l]" "pwWalked (visitLeaf lib doc d mr inh w) = pwWalked w"
    "pwSkipped (visitLeaf lib doc d mr inh w) = pwSkipped w" "lfDict l = d" "lfRef l = mr" "lfAttrs l = efAttrs ef"
    by (rule visitLeaf_adds [of lib doc d mr inh w]) (use ef(1) in blast)
  then show ?thesis using ef(2) by (simp add: walkedTrees_def leavesShown_def)
qed

lemma refNums_path: "(case mr of Some (n, g) \<Rightarrow> n # path | None \<Rightarrow> path) = refNums mr @ path"
  "(case mr of Some (n, g) \<Rightarrow> w\<lparr>pwWalked := n # pwWalked w\<rparr> | None \<Rightarrow> w) = w\<lparr>pwWalked := refNums mr @ pwWalked w\<rparr>"
  "(case mr of Some (n, g) \<Rightarrow> n \<in> set ns | None \<Rightarrow> False) \<longleftrightarrow> set (refNums mr) \<inter> set ns \<noteq> {}"
  by (auto simp: refNums_def split: option.split)

lemma holds_visitKid:
  assumes "quietDoc doc" "holdsNode doc x t" "set (refNums (treeRef t)) \<inter> set path = {}"
  shows "visitKid lib doc i x inh depth path w = visitNode lib doc (treeDict t) (treeRef t) inh depth path w"
proof (cases "asRef x")
  case None
  then have "safeDeref doc x = x" by (cases x) (simp_all add: safeDeref_def)
  with assms(2) None have "x = PDict (treeDict t)" "treeRef t = None" by (auto simp: holdsNode_def)
  then show ?thesis by (simp add: visitKid.simps)
next
  case (Some r)
  obtain n g where r: "r = (n, g)" by (cases r)
  with assms Some have "treeRef t = Some (n, g)" "n \<notin> set path" "derefIn doc x = Inr (PDict (treeDict t))"
    by (auto simp: holdsNode_def refNums_def quiet_derefIn)
  with Some r show ?thesis by (simp add: visitKid.simps)
qed

text \<open>The number of a node that fits is not on the path.\<close>

lemma fits_offPath: "fits [t] depth path w \<Longrightarrow> set (refNums (treeRef t)) \<inter> set path = {}"
  by (cases t) (auto simp: fits_def)

lemma walk_tree:
  assumes "quietDoc doc"
  shows "represents doc t \<Longrightarrow> fits [t] depth path w \<Longrightarrow> paValues inh = attrsOf doc chain \<Longrightarrow>
    \<exists>w'. visitNode lib doc (treeDict t) (treeRef t) inh depth path w = (w', None) \<and> walkedTrees doc chain [t] w w'"
proof (induction t arbitrary: inh depth path w chain)
  case (PageLeaf d mr)
  then have "visitNode lib doc d mr inh depth path w = (visitLeaf lib doc d mr inh w, None)"
    by (auto simp: visitNode.simps quiet_derefIn [OF assms] nodeTypeName_def split: option.split)
  with visitLeaf_walked [OF assms PageLeaf.prems(3)] show ?case by simp
next
  case (PageNode d mr kids)
  let ?w1 = "w\<lparr>pwWalked := refNums mr @ pwWalked w\<rparr>" and ?path = "refNums mr @ path"
  obtain kv xs where k: "dictFind d ''Kids'' = Some kv" "asArray (safeDeref doc kv) = Some xs" "list_all2 (holdsNode doc) xs kids"
    "list_all (represents doc) kids" "nodeTypeName doc d \<noteq> ''Page''"
    using PageNode.prems(1) by (auto simp: kidsOf_def split: option.split_asm)
  obtain ef where ef: "effectiveAttrs doc d mr inh = Inr ef" "paValues (efAttrs ef) = attrsOf doc (d # chain)"
    by (rule effectiveAttrs_value [OF assms PageNode.prems(3)])
  note fk = fits_kids [OF PageNode.prems(2)]
  have node: "visitNode lib doc d mr inh depth path w = (visitKids lib doc 0 xs (efAttrs ef) (depth + 1) ?path ?w1, None)"
    using k(1,2,5) fk(2,3) ef(1)
    by (simp add: visitNode.simps visitIntermediate.simps quiet_derefIn [OF assms] nodeTypeName_def Let_def refNums_path)
  have "walkedTrees doc (d # chain) ts v (visitKids lib doc i xs' (efAttrs ef) (depth + 1) ?path v)"
    if "list_all2 (holdsNode doc) xs' ts" "set ts \<subseteq> set kids" "fits ts (depth + 1) ?path v" for xs' ts v i
    using that
  proof (induction xs' ts arbitrary: v i rule: list_all2_induct)
    case Nil
    then show ?case by (simp add: visitKids.simps)
  next
    case (Cons x xs' t ts)
    have t: "represents doc t" using Cons.prems(1) k(4) by (auto simp: list_all_iff)
    note f1 = fits_Cons [OF Cons.prems(2)]
    obtain v' where v': "visitNode lib doc (treeDict t) (treeRef t) (efAttrs ef) (depth + 1) ?path v = (v', None)"
      "walkedTrees doc (d # chain) [t] v v'"
      using PageNode.IH [OF _ t f1 ef(2)] Cons.prems(1) by auto
    have "visitKids lib doc i (x # xs') (efAttrs ef) (depth + 1) ?path v
        = visitKids lib doc (i + 1) xs' (efAttrs ef) (depth + 1) ?path v'"
      using holds_visitKid [OF assms Cons.hyps(1) fits_offPath [OF f1]] v'(1) by (simp add: visitKids.simps)
    moreover have "walkedTrees doc (d # chain) ts v' (visitKids lib doc (i + 1) xs' (efAttrs ef) (depth + 1) ?path v')"
      using Cons.IH Cons.prems(1) fits_rest [OF Cons.prems(2) v'(2)] by simp
    ultimately show ?case using walkedTrees_Cons [OF v'(2)] by simp
  qed
  from this [OF k(3) order_refl fk(1)] node show ?case
    by (auto simp: walkedTrees_def leavesShown_def)
qed

section \<open>The index\<close>

lemma pageWalk_inv: "pageInv (fst (pageWalk lib doc))"
proof -
  have v: "pageInv w" if "visitNode lib doc d mr noAttrs 0 [] newPageWalker = (w, pan)" for d mr w pan
    using walk_inv(1) [OF pageInv_new, of lib doc d mr noAttrs 0 "[]"] that by simp
  show ?thesis
    by (auto simp: pageWalk_def pageInv_new Let_def intro: v skipNode_inv dest: v
        split: derefAnswer.split sum.split pdfObj.split prod.split option.split)
qed

lemma index_numbers:
  assumes "GetPageIndex lib doc = Inr rows"
  shows "map pePageNum (numberedRows rows) = map int [1..<length (numberedRows rows) + 1]"
    and "list_all (\<lambda>e. pePageNum e \<noteq> 0 \<or> peErr e \<noteq> []) rows"
    and "list_all2 rowOf (numberedRows rows) (ptLeaves (buildPageTree lib doc))"
    and "ptErr (buildPageTree lib doc) = None"
proof -
  obtain w pan where w: "pageWalk lib doc = (w, pan)" by fastforce
  with assms have r: "rows = pwEntries w" "pan = None" "ptLeaves (buildPageTree lib doc) = pwLeaves w" "ptErr (buildPageTree lib doc) = None"
    by (auto simp: GetPageIndex_def buildPageTree_def Let_def split: option.split_asm)
  have i: "pageInv w" using pageWalk_inv [of lib doc] w by simp
  then have "length (numberedRows rows) = length (pwLeaves w)" by (auto simp: pageInv_def r dest: list_all2_lengthD)
  with i r show "map pePageNum (numberedRows rows) = map int [1..<length (numberedRows rows) + 1]"
    "list_all (\<lambda>e. pePageNum e \<noteq> 0 \<or> peErr e \<noteq> []) rows"
    "list_all2 rowOf (numberedRows rows) (ptLeaves (buildPageTree lib doc))" "ptErr (buildPageTree lib doc) = None"
    by (auto simp: pageInv_def list_all_iff)
qed

text \<open>What a lookup by the number of a row answers.\<close>

definition lookupAgrees :: "pageLib \<Rightarrow> pdfDoc \<Rightarrow> pageEntry \<Rightarrow> bool" where
  "lookupAgrees lib doc e \<longleftrightarrow>
     (case findPage lib doc (pePageNum e) of
        Inl msg \<Rightarrow> peErr e \<noteq> []
      | Inr None \<Rightarrow> False
      | Inr (Some l) \<Rightarrow> sameRef e (lfRef l))"

lemma index_lookup:
  assumes "GetPageIndex lib doc = Inr rows" "i < length (numberedRows rows)"
  shows "lookupAgrees lib doc (numberedRows rows ! i)"
proof -
  let ?rs = "numberedRows rows" and ?ls = "ptLeaves (buildPageTree lib doc)"
  have "map pePageNum ?rs ! i = map int [1..<length ?rs + 1] ! i" using index_numbers(1) [OF assms(1)] by simp
  then have n: "pePageNum (?rs ! i) = int i + 1" using assms(2) by (simp del: upt_Suc)
  have r: "rowOf (?rs ! i) (?ls ! i)" "length ?rs = length ?ls"
    using index_numbers(3) [OF assms(1)] assms(2) by (auto simp: list_all2_conv_all_nth)
  have "nat (pePageNum (?rs ! i) - 1) = i" using n by simp
  with n r assms(2) show ?thesis
    by (auto simp: lookupAgrees_def findPage_def Let_def rowOf_def split: option.split)
qed

lemma tree_walk:
  assumes "quietDoc doc" "docCatalog doc = DObj (PDict cat)" "holdsNode doc (dictGet cat ''Pages'') t" "represents doc t"
    and "fits [t] 0 [] newPageWalker"
  shows "\<exists>w. pageWalk lib doc = (w, None) \<and> walkedTrees doc [] [t] newPageWalker w"
proof -
  let ?x = "dictGet cat ''Pages''"
  have x: "derefIn doc ?x = Inr (PDict (treeDict t))" "asRef ?x = treeRef t"
    using assms(3) by (simp_all add: holdsNode_def quiet_derefIn [OF assms(1)])
  then have "?x \<noteq> PNull" by (auto simp: derefIn_def)
  moreover obtain w where "visitNode lib doc (treeDict t) (treeRef t) noAttrs 0 [] newPageWalker = (w, None)" "walkedTrees doc [] [t] newPageWalker w"
    using walk_tree [OF assms(1,4,5), of noAttrs "[]" lib] by (auto simp: noAttrs_def attrsOf_def)
  ultimately show ?thesis using assms(2) x by (simp add: pageWalk_def)
qed

section \<open>Example\<close>

text \<open>Two pages below two intermediate nodes; the second page takes its box from the root of the tree.\<close>

definition boxObj :: "int \<Rightarrow> pdfObj" where
  "boxObj k = PArray [PInt 0, PInt 0, PInt k, PInt k]"

definition bookObjects :: "int \<Rightarrow> pdfObj" where
  "bookObjects n =
     (if n = 1 then PDict [(''Pages'', PRef 2 0)]
      else if n = 2 then PDict [(''Kids'', PArray [PRef 3 0, PRef 4 0]), (''MediaBox'', boxObj 9)]
      else if n = 3 then PDict [(''Type'', PName ''Page''), (''MediaBox'', boxObj 5), (''Parent'', PRef 2 0)]
      else if n = 4 then PDict [(''Kids'', PArray [PRef 5 0])]
      else if n = 5 then PDict [(''Type'', PName ''Page'')] else PNull)"

definition bookDoc :: pdfDoc where
  "bookDoc = \<lparr> xrefNums = [1, 2, 3, 4, 5], xrefLookup = (\<lambda>n g. DObj (bookObjects n)), docRoot = Some (1, 0), docCatalog = DObj (bookObjects 1) \<rparr>"

definition bookDict :: "int \<Rightarrow> pdfDict" where
  "bookDict n = (case asDict (bookObjects n) of Some d \<Rightarrow> d | None \<Rightarrow> [])"

definition bookTree :: ptree where
  "bookTree = PageNode (bookDict 2) (Some (2, 0))
     [PageLeaf (bookDict 3) (Some (3, 0)), PageNode (bookDict 4) (Some (4, 0)) [PageLeaf (bookDict 5) (Some (5, 0))]]"

definition plainPageLib :: pageLib where
  "plainPageLib = \<lparr> plRefString = refString, plWideInt = (\<lambda>i. 0) \<rparr>"

lemma book_quiet: "quietDoc bookDoc"
  by (simp add: quietDoc_def lookupRef_def bookDoc_def)

lemma book_tree: "docCatalog bookDoc = DObj (PDict [(''Pages'', PRef 2 0)])" "holdsNode bookDoc (dictGet [(''Pages'', PRef 2 0)] ''Pages'') bookTree"
  "represents bookDoc bookTree" "treeHeight bookTree \<le> maxPageTreeDepth" "distinct (innerNums bookTree)" "set (leafNums bookTree) \<inter> set (innerNums bookTree) = {}"
  by code_simp+

lemma book_index: "ptErr (buildPageTree plainPageLib bookDoc) = None" "length (numberedRows (ptEntries (buildPageTree plainPageLib bookDoc))) = 2"
  by code_simp+

section \<open>Properties\<close>

text \<open>
  The rows of the page index that are pages are numbered 1, 2, 3, ... in order; every other row
  carries an error. Looking up the number of a row finds a page with that row's object reference, or an error
  when the row carries one, and no other number finds anything: on every document, however malformed.
\<close>

theorem page_numbers_agree:
  assumes "GetPageIndex lib doc = Inr rows"
  shows "map pePageNum (numberedRows rows) = map int [1..<length (numberedRows rows) + 1]
    \<and> list_all (\<lambda>e. pePageNum e \<noteq> 0 \<or> peErr e \<noteq> []) rows
    \<and> list_all (lookupAgrees lib doc) (numberedRows rows)
    \<and> ((1 \<le> k \<and> k \<le> int (length (numberedRows rows))) \<or> findPage lib doc k = Inr None)"
proof -
  have "list_all (lookupAgrees lib doc) (numberedRows rows)"
    using index_lookup [OF assms] by (simp add: list_all_length)
  moreover have "(1 \<le> k \<and> k \<le> int (length (numberedRows rows))) \<or> findPage lib doc k = Inr None"
    using index_numbers(3,4) [OF assms] by (auto simp: findPage_def Let_def dest: list_all2_lengthD)
  ultimately show ?thesis using index_numbers(1,2) [OF assms] by blast
qed

theorem page_numbers_agree_witness:
  "map pePageNum (numberedRows (ptEntries (buildPageTree plainPageLib bookDoc))) = [1, 2] \<and> findPage plainPageLib bookDoc 3 = Inr None"
proof -
  let ?rows = "ptEntries (buildPageTree plainPageLib bookDoc)"
  have i: "GetPageIndex plainPageLib bookDoc = Inr ?rows" by (simp add: GetPageIndex_def book_index Let_def)
  from page_numbers_agree [OF i, of 3] show ?thesis by (simp add: book_index upt_rec)
qed

text \<open>
  Claim C19. On a document whose catalog holds a page tree, no intermediate node of which is shared, not
  deeper than the cap, the walk finds exactly the leaves of the tree in document order, each with the
  attributes of the nearest dictionary above it that has them; every row is a page and nothing is skipped.
\<close>

theorem page_tree_exact:
  assumes "quietDoc doc" "docCatalog doc = DObj (PDict cat)" "holdsNode doc (dictGet cat ''Pages'') t" "represents doc t"
    and "treeHeight t \<le> maxPageTreeDepth" "distinct (innerNums t)" "set (leafNums t) \<inter> set (innerNums t) = {}"
  shows "map (\<lambda>l. (lfDict l, lfRef l, paValues (lfAttrs l))) (ptLeaves (buildPageTree lib doc)) = pageList doc [] t
    \<and> length (ptEntries (buildPageTree lib doc)) = length (pageList doc [] t)
    \<and> ptErr (buildPageTree lib doc) = None \<and> ptSkipped (buildPageTree lib doc) = []"
proof -
  have "fits [t] 0 [] newPageWalker" using assms(5-7) by (simp add: fits_def newPageWalker_def)
  from tree_walk [OF assms(1-4) this, of lib] show ?thesis
    by (auto simp: buildPageTree_def walkedTrees_def leavesShown_def newPageWalker_def)
qed

theorem page_tree_exact_witness:
  "map (\<lambda>l. (lfDict l, lfRef l, paValues (lfAttrs l))) (ptLeaves (buildPageTree plainPageLib bookDoc)) =
     [(bookDict 3, Some (3, 0), [PNull, boxObj 5, PNull, PNull]), (bookDict 5, Some (5, 0), [PNull, boxObj 9, PNull, PNull])]"
proof -
  have "pageList bookDoc [] bookTree = [(bookDict 3, Some (3, 0), [PNull, boxObj 5, PNull, PNull]), (bookDict 5, Some (5, 0), [PNull, boxObj 9, PNull, PNull])]"
    by code_simp
  with page_tree_exact [OF book_quiet book_tree, of plainPageLib] show ?thesis by simp
qed

end
