(* ===== verification/NumberTree.thy ===== *)
theory NumberTree
  imports PageIndex
begin

text \<open>
  Number trees (\<^verbatim>\<open>internal/pdfcore/numbertree.go\<close>): one walk that reads every key with its value, reports
  malformed nodes and goes on. A node is read under its own \<^verbatim>\<open>guard\<close>: a panic ends the node, keeps what was
  recorded before it, and marks the walk incomplete.
\<close>

section \<open>The walker\<close>

definition maxNumberTreeDepth :: nat where "maxNumberTreeDepth = 64"

text \<open>\<open>nwWhere\<close> is the prefix of every problem location. The maps are association lists, newest first.\<close>

record numberTreeWalker =
  nwWhere :: string
  nwEntries :: "(int \<times> pdfObj) list"
  nwKeyNode :: "(int \<times> string) list"
  nwVisited :: "int list"
  nwProblems :: "(string \<times> string) list"
  nwIncomplete :: string

definition ntNodeLabel :: "pdfObj \<Rightarrow> string" where
  "ntNodeLabel v = (case asRef v of Some (n, g) \<Rightarrow> refString n g | None \<Rightarrow> ''(direct)'')"

definition problem :: "string \<Rightarrow> string \<Rightarrow> numberTreeWalker \<Rightarrow> numberTreeWalker" where
  "problem label msg w = w\<lparr>nwProblems := nwProblems w @ [(nwWhere w @ '', node '' @ label, msg)]\<rparr>"

definition lost :: "string \<Rightarrow> string \<Rightarrow> numberTreeWalker \<Rightarrow> numberTreeWalker" where
  "lost label msg w = (problem label msg w)\<lparr>nwIncomplete := (if nwIncomplete w = [] then msg else nwIncomplete w)\<rparr>"

definition objKind :: "pdfObj \<Rightarrow> string" where
  "objKind v = (let l = typeLabel v in
     if v = PNull then l else if l ! 0 \<in> set ''aeiou'' then ''an '' @ l else ''a '' @ l)"

section \<open>One node\<close>

text \<open>\<^verbatim>\<open>limits\<close>: the two bounds of a node that has usable ones.\<close>

definition limits :: "pdfDoc \<Rightarrow> pdfDict \<Rightarrow> string \<Rightarrow> bool \<Rightarrow> numberTreeWalker \<Rightarrow> numberTreeWalker \<times> (string + (int \<times> int) option)" where
  "limits doc d label isRoot w =
     (if isRoot then (w, Inr None)
      else (case dictFind d ''Limits'' of
              None \<Rightarrow> (problem label ''non-root node has no /Limits'' w, Inr None)
            | Some v \<Rightarrow>
                (case derefIn doc v of
                   Inl p \<Rightarrow> (w, Inl p)
                 | Inr lv \<Rightarrow>
                     (case asArray lv of
                        None \<Rightarrow> (problem label ''/Limits is not an array of two integers'' w, Inr None)
                      | Some arr \<Rightarrow>
                          if length arr \<noteq> 2 then (problem label ''/Limits is not an array of two integers'' w, Inr None)
                          else (case derefIn doc (arr ! 0) of
                                  Inl p \<Rightarrow> (w, Inl p)
                                | Inr x \<Rightarrow>
                                    (case derefIn doc (arr ! 1) of
                                       Inl p \<Rightarrow> (w, Inl p)
                                     | Inr y \<Rightarrow>
                                         (case (asInt x, asInt y) of
                                            (Some a, Some b) \<Rightarrow>
                                              if b < a then (problem label (''/Limits ['' @ showInt a @ '' '' @ showInt b @ ''] is not ascending'') w, Inr None)
                                              else (w, Inr (Some (a, b)))
                                          | _ \<Rightarrow> (problem label ''/Limits is not an array of two integers'' w, Inr None))))))))"

text \<open>The checks and the record of one key of a leaf.\<close>

definition recordKey :: "string \<Rightarrow> (int \<times> int) option \<Rightarrow> int option \<Rightarrow> int \<Rightarrow> pdfObj \<Rightarrow> numberTreeWalker \<Rightarrow> numberTreeWalker" where
  "recordKey label bounds prev key val w =
     (let w1 = (case bounds of
            Some (lo, hi) \<Rightarrow> if key < lo \<or> hi < key then
                problem label (''key '' @ showInt key @ '' outside /Limits ['' @ showInt lo @ '' '' @ showInt hi @ '']'') w else w
          | None \<Rightarrow> w);
          w2 = (case prev of
            Some p \<Rightarrow> if key < p then
                problem label (''key '' @ showInt key @ '' after key '' @ showInt p @ '': keys not in ascending order'') w1 else w1
          | None \<Rightarrow> w1)
      in case map_of (nwKeyNode w2) key of
           Some first \<Rightarrow> problem label (''key '' @ showInt key @ '' already in node '' @ first @ ''; first value kept'') w2
         | None \<Rightarrow> w2\<lparr>nwKeyNode := (key, label) # nwKeyNode w2, nwEntries := (key, val) # nwEntries w2\<rparr>)"

text \<open>The loop over the pairs of \<open>/Nums\<close>, with the index of the pair and the key before it.\<close>

fun readPairs :: "pdfDoc \<Rightarrow> string \<Rightarrow> (int \<times> int) option \<Rightarrow> nat \<Rightarrow> int option \<Rightarrow> pdfObj list \<Rightarrow> numberTreeWalker \<Rightarrow> numberTreeWalker \<times> string option" where
  "readPairs doc label bounds i prev (ko # val # nums) w =
     (case derefIn doc ko of
        Inl p \<Rightarrow> (w, Some p)
      | Inr k \<Rightarrow>
          (case asInt k of
             Some key \<Rightarrow> readPairs doc label bounds (i + 2) (Some key) nums (recordKey label bounds prev key val w)
           | None \<Rightarrow> readPairs doc label bounds (i + 2) prev nums
               (lost label (''/Nums entry '' @ showNat i @ '': key is '' @ objKind k @ '', not an integer'') w)))"
| "readPairs doc label bounds i prev _ w = (w, None)"

definition readNums :: "pdfDoc \<Rightarrow> pdfObj list \<Rightarrow> string \<Rightarrow> (int \<times> int) option \<Rightarrow> numberTreeWalker \<Rightarrow> numberTreeWalker \<times> string option" where
  "readNums doc nums label bounds w =
     readPairs doc label bounds 0 None nums
       (if length nums mod 2 \<noteq> 0 then lost label (''/Nums has odd length '' @ showNat (length nums) @ ''; the last entry has no value'') w else w)"

definition readNumsEntry :: "pdfDoc \<Rightarrow> pdfDict \<Rightarrow> string \<Rightarrow> (int \<times> int) option \<Rightarrow> numberTreeWalker \<Rightarrow> numberTreeWalker \<times> string option" where
  "readNumsEntry doc d label bounds w =
     (case dictFind d ''Nums'' of
        None \<Rightarrow> (w, None)
      | Some v \<Rightarrow>
          (case derefIn doc v of
             Inl p \<Rightarrow> (w, Some p)
           | Inr nv \<Rightarrow>
               (case asArray nv of
                  None \<Rightarrow> (lost label (''/Nums is '' @ objKind nv @ '', not an array'') w, None)
                | Some nums \<Rightarrow> readNums doc nums label bounds w)))"

section \<open>The walk\<close>

function
  ntVisit :: "pdfDoc \<Rightarrow> pdfObj \<Rightarrow> bool \<Rightarrow> nat \<Rightarrow> numberTreeWalker \<Rightarrow> numberTreeWalker" and
  ntRead :: "pdfDoc \<Rightarrow> pdfObj \<Rightarrow> string \<Rightarrow> bool \<Rightarrow> nat \<Rightarrow> numberTreeWalker \<Rightarrow> numberTreeWalker \<times> string option" and
  ntVisitKids :: "pdfDoc \<Rightarrow> pdfObj list \<Rightarrow> nat \<Rightarrow> numberTreeWalker \<Rightarrow> numberTreeWalker" where
  "ntVisit doc node isRoot depth w =
     (let label = ntNodeLabel node in
      if maxNumberTreeDepth < depth then
        lost label (''number tree deeper than '' @ showNat maxNumberTreeDepth @ '' levels; node not walked'') w
      else if (case asRef node of Some (n, g) \<Rightarrow> n \<in> set (nwVisited w) | None \<Rightarrow> False) then
        problem label ''node reached twice; not walked again'' w
      else (case ntRead doc node label isRoot depth
                   (case asRef node of Some (n, g) \<Rightarrow> w\<lparr>nwVisited := n # nwVisited w\<rparr> | None \<Rightarrow> w) of
              (w', None) \<Rightarrow> w'
            | (w', Some p) \<Rightarrow> lost label (''node could not be read: '' @ panicText p) w'))"
| "ntRead doc node label isRoot depth w =
     (case derefIn doc node of
        Inl p \<Rightarrow> (w, Some p)
      | Inr v \<Rightarrow>
          if v = PNull then
            (if isRef node then lost label ''node does not resolve to an object'' w else problem label ''node is null'' w, None)
          else (case plainDict v of
                  Some d \<Rightarrow>
                    (case limits doc d label isRoot w of
                       (w1, Inl p) \<Rightarrow> (w1, Some p)
                     | (w1, Inr bounds) \<Rightarrow>
                         if dictFind d ''Kids'' = None \<and> dictFind d ''Nums'' = None then
                           (lost label ''node has neither /Kids nor /Nums'' w1, None)
                         else (case dictFind d ''Kids'' of
                                 None \<Rightarrow> readNumsEntry doc d label bounds w1
                               | Some kv \<Rightarrow>
                                   (case derefIn doc kv of
                                      Inl p \<Rightarrow> (w1, Some p)
                                    | Inr ko \<Rightarrow>
                                        (case asArray ko of
                                           None \<Rightarrow> readNumsEntry doc d label bounds (lost label (''/Kids is '' @ objKind ko @ '', not an array'') w1)
                                         | Some kids \<Rightarrow> readNumsEntry doc d label bounds (ntVisitKids doc kids (depth + 1) w1)))))
                | None \<Rightarrow> (lost label (''node is '' @ objKind v @ '', not a dictionary'') w, None)))"
| "ntVisitKids doc [] depth w = w"
| "ntVisitKids doc (kid # kids) depth w = ntVisitKids doc kids depth (ntVisit doc kid False depth w)"
  by pat_completeness auto
termination ntVisit
  by (relation "measures [\<lambda>x. case x of Inl (doc, node, r, depth, w) \<Rightarrow> 2 * (maxNumberTreeDepth + 1 - depth)
        | Inr (Inl (doc, node, l, r, depth, w)) \<Rightarrow> 2 * (maxNumberTreeDepth + 1 - depth) - 1
        | Inr (Inr (doc, kids, depth, w)) \<Rightarrow> 2 * (maxNumberTreeDepth + 1 - depth),
      \<lambda>x. case x of Inl _ \<Rightarrow> 0 | Inr (Inl _) \<Rightarrow> 2 | Inr (Inr _) \<Rightarrow> 1,
      \<lambda>x. case x of Inr (Inr (doc, kids, _)) \<Rightarrow> length kids | _ \<Rightarrow> 0]")
    auto

declare ntVisit.simps [simp del] ntRead.simps [simp del]

definition newNumberTreeWalker :: "string \<Rightarrow> numberTreeWalker" where
  "newNumberTreeWalker loc = \<lparr> nwWhere = loc, nwEntries = [], nwKeyNode = [], nwVisited = [], nwProblems = [], nwIncomplete = [] \<rparr>"

definition walkNumberTree :: "pdfDoc \<Rightarrow> pdfObj \<Rightarrow> string \<Rightarrow> (int \<times> pdfObj) list \<times> (string \<times> string) list \<times> string" where
  "walkNumberTree doc rootObj loc =
     (let w = ntVisit doc rootObj True 1 (newNumberTreeWalker loc) in (nwEntries w, nwProblems w, nwIncomplete w))"

section \<open>What the tree holds\<close>

text \<open>The nodes of the tree as they are stored, and the pairs in their \<open>/Nums\<close>.\<close>

definition dictEntryArray :: "pdfDoc \<Rightarrow> pdfDict \<Rightarrow> string \<Rightarrow> pdfObj list" where
  "dictEntryArray doc d key = (case dictFind d key of None \<Rightarrow> []
     | Some v \<Rightarrow> (case asArray (safeDeref doc v) of Some xs \<Rightarrow> xs | None \<Rightarrow> []))"

inductive ntNode :: "pdfDoc \<Rightarrow> pdfObj \<Rightarrow> pdfObj \<Rightarrow> bool" for doc rootObj where
  nt_root: "ntNode doc rootObj rootObj"
| nt_kid: "ntNode doc rootObj x \<Longrightarrow> safeDeref doc x = PDict d \<Longrightarrow> y \<in> set (dictEntryArray doc d ''Kids'') \<Longrightarrow> ntNode doc rootObj y"

fun pairsOf :: "pdfDoc \<Rightarrow> pdfObj list \<Rightarrow> (int \<times> pdfObj) list" where
  "pairsOf doc (ko # val # nums) = (case asInt (safeDeref doc ko) of Some k \<Rightarrow> (k, val) # pairsOf doc nums | None \<Rightarrow> pairsOf doc nums)"
| "pairsOf doc _ = []"

definition ntPair :: "pdfDoc \<Rightarrow> pdfObj \<Rightarrow> int \<Rightarrow> pdfObj \<Rightarrow> bool" where
  "ntPair doc rootObj k v \<longleftrightarrow> (\<exists>x d. ntNode doc rootObj x \<and> safeDeref doc x = PDict d \<and> (k, v) \<in> set (pairsOf doc (dictEntryArray doc d ''Nums'')))"

end
