(* ===== verification/NumberTreeSpec.thy ===== *)
theory NumberTreeSpec
  imports NumberTree
begin

text \<open>
  What the walk of a number tree reads: only pairs that the tree holds, each key once, and when it is not
  marked incomplete, every key.
\<close>

section \<open>The walker grows\<close>

definition keysOf :: "numberTreeWalker \<Rightarrow> int set" where
  "keysOf w = fst ` set (nwEntries w)"

definition ntGrows :: "numberTreeWalker \<Rightarrow> numberTreeWalker \<Rightarrow> bool" where
  "ntGrows w w' \<longleftrightarrow> set (nwVisited w) \<subseteq> set (nwVisited w') \<and> keysOf w \<subseteq> keysOf w'
     \<and> (nwIncomplete w' = [] \<longrightarrow> nwIncomplete w = [])"

lemma ntGrows_refl [simp]: "ntGrows w w"
  by (simp add: ntGrows_def)

lemma ntGrows_trans: "ntGrows a b \<Longrightarrow> ntGrows b c \<Longrightarrow> ntGrows a c"
  by (auto simp: ntGrows_def)

lemma problem_same [simp]: "nwVisited (problem l m w) = nwVisited w" "nwEntries (problem l m w) = nwEntries w"
  "nwKeyNode (problem l m w) = nwKeyNode w" "nwIncomplete (problem l m w) = nwIncomplete w" "keysOf (problem l m w) = keysOf w"
  by (simp_all add: problem_def keysOf_def)

lemma lost_same [simp]: "nwVisited (lost l m w) = nwVisited w" "nwEntries (lost l m w) = nwEntries w"
  "nwKeyNode (lost l m w) = nwKeyNode w" "keysOf (lost l m w) = keysOf w" "nwIncomplete (lost l (c # m) w) \<noteq> []"
  by (simp_all add: lost_def keysOf_def problem_def)

lemma problem_grows [simp]: "ntGrows w (problem l m w)" "ntGrows (problem l m w) w' = ntGrows w w'"
  by (simp_all add: ntGrows_def)

lemma lost_grows [simp]: "ntGrows w (lost l m w)"
  by (simp add: ntGrows_def lost_def problem_def keysOf_def)

lemma lost_from: "ntGrows (lost l m w) w' \<Longrightarrow> ntGrows w w'"
  using ntGrows_trans lost_grows by blast

lemma mark_grows [simp]: "ntGrows w (case r of Some (n, g) \<Rightarrow> w\<lparr>nwVisited := n # nwVisited w\<rparr> | None \<Rightarrow> w)"
  by (auto simp: ntGrows_def keysOf_def split: option.split)

lemma limits_grows: "ntGrows w (fst (limits doc d l r w))"
  "nwEntries (fst (limits doc d l r w)) = nwEntries w" "nwKeyNode (fst (limits doc d l r w)) = nwKeyNode w"
  "nwVisited (fst (limits doc d l r w)) = nwVisited w"
  by (auto simp: limits_def split: option.split sum.split pdfObj.split)

lemma recordKey_grows: "ntGrows w (recordKey l b p k v w)"
  by (auto simp: recordKey_def Let_def ntGrows_def keysOf_def problem_def split: option.split)

lemma readPairs_grows: "ntGrows w (fst (readPairs doc l b i p ns w))"
proof (induction doc l b i p ns w rule: readPairs.induct)
  case (1 doc l b i p ko val ns w)
  show ?case
  proof (cases "derefIn doc ko")
    case (Inr k)
    then show ?thesis
      using ntGrows_trans [OF lost_grows "1.IH"(1) [OF Inr]] ntGrows_trans [OF recordKey_grows "1.IH"(2) [OF Inr]]
      by (cases "asInt k") simp_all
  qed simp
qed simp_all

lemma readNums_grows: "ntGrows w (fst (readNums doc ns l b w))"
proof (cases "length ns mod 2 \<noteq> 0")
  case True
  from lost_from [OF readPairs_grows] True show ?thesis unfolding readNums_def by (simp only: if_True simp_thms)
next
  case False
  from readPairs_grows False show ?thesis unfolding readNums_def by (simp only: if_False simp_thms)
qed

lemma readNumsEntry_grows: "ntGrows w (fst (readNumsEntry doc d l b w))"
  using readNums_grows by (auto simp: readNumsEntry_def split: option.split sum.split)

lemma walk_grows:
  "ntGrows w (ntVisit doc node isRoot depth w)"
  "ntGrows w (fst (ntRead doc node label isRoot depth w))"
  "ntGrows w (ntVisitKids doc kids depth w)"
proof (induction doc node isRoot depth w and doc node label isRoot depth w and doc kids depth w
    rule: ntVisit_ntRead_ntVisitKids.induct)
  case (1 doc node isRoot depth w)
  let ?w1 = "case asRef node of Some (n, g) \<Rightarrow> w\<lparr>nwVisited := n # nwVisited w\<rparr> | None \<Rightarrow> w"
  obtain w' pan where r: "ntRead doc node (ntNodeLabel node) isRoot depth ?w1 = (w', pan)" by fastforce
  show ?case
  proof (cases "maxNumberTreeDepth < depth \<or> (case asRef node of Some (n, g) \<Rightarrow> n \<in> set (nwVisited w) | None \<Rightarrow> False)")
    case True
    then show ?thesis by (auto simp only: ntVisit.simps Let_def problem_grows lost_grows split: if_split)
  next
    case False
    have "ntGrows w w'" using ntGrows_trans [OF mark_grows [of w "asRef node"]] 1 [OF refl] False r by fastforce
    then show ?thesis using False r ntGrows_trans [OF _ lost_grows] by (cases pan) (simp_all add: ntVisit.simps Let_def)
  qed
next
  case (2 doc node label isRoot depth w)
  show ?case
  proof (cases "derefIn doc node")
    case (Inl p)
    then show ?thesis by (simp add: ntRead.simps)
  next
    case (Inr v)
    show ?thesis
    proof (cases "plainDict v")
      case None
      with Inr show ?thesis by (simp only: ntRead.simps sum.case option.case fst_conv problem_grows lost_grows if_split) simp
    next
      case (Some d)
      obtain w1 b where l: "limits doc d label isRoot w = (w1, b)" by fastforce
      have g: "ntGrows w w1" using limits_grows(1) [of w doc d label isRoot] l by simp
      note rest = ntGrows_trans [OF g ntGrows_trans [OF _ readNumsEntry_grows]]
      show ?thesis
      proof (cases b)
        case (Inl p)
        with g l Inr Some show ?thesis by (simp add: ntRead.simps)
      next
        case b: (Inr bounds)
        have k: "ntGrows w1 (ntVisitKids doc kids (depth + 1) w1)"
          if "dictFind d ''Kids'' = Some kv" "derefIn doc kv = Inr ko" "asArray ko = Some kids" for kv ko kids
          using 2 [OF Inr _ Some l [symmetric] b] that Some by auto
        from g l Inr Some b show ?thesis
          using k rest [OF ntGrows_refl] rest [OF k] rest [OF lost_grows] ntGrows_trans [OF g lost_grows]
          by (auto simp add: ntRead.simps split: option.split sum.split)
      qed
    qed
  qed
next
  case (4 doc kid kids depth w)
  from ntGrows_trans [OF "4.IH"] show ?case by simp
qed simp

section \<open>Only pairs of the tree, each key once\<close>

definition entriesOK :: "(int \<times> pdfObj \<Rightarrow> bool) \<Rightarrow> numberTreeWalker \<Rightarrow> bool" where
  "entriesOK P w \<longleftrightarrow> list_all P (nwEntries w) \<and> distinct (map fst (nwEntries w)) \<and> map fst (nwKeyNode w) = map fst (nwEntries w)"

lemma entriesOK_same: "nwEntries w = nwEntries w' \<Longrightarrow> nwKeyNode w = nwKeyNode w' \<Longrightarrow> entriesOK P w = entriesOK P w'"
  by (simp add: entriesOK_def)

lemma entriesOK_problem [simp]: "entriesOK P (problem l m w) = entriesOK P w" "entriesOK P (lost l m w) = entriesOK P w"
  "entriesOK P (case r of Some (n, g) \<Rightarrow> w\<lparr>nwVisited := n # nwVisited w\<rparr> | None \<Rightarrow> w) = entriesOK P w"
  by (simp_all add: entriesOK_def problem_def lost_def split: option.split)

lemma recordKey_OK: "entriesOK P w \<Longrightarrow> P (k, v) \<Longrightarrow> entriesOK P (recordKey l b p k v w)"
proof -
  assume e: "entriesOK P w" and v: "P (k, v)"
  let ?w1 = "case b of Some (lo, hi) \<Rightarrow> if k < lo \<or> hi < k then
      problem l (''key '' @ showInt k @ '' outside /Limits ['' @ showInt lo @ '' '' @ showInt hi @ '']'') w else w | None \<Rightarrow> w"
  let ?w2 = "case p of Some q \<Rightarrow> if k < q then
      problem l (''key '' @ showInt k @ '' after key '' @ showInt q @ '': keys not in ascending order'') ?w1 else ?w1 | None \<Rightarrow> ?w1"
  have s: "nwEntries ?w2 = nwEntries w" "nwKeyNode ?w2 = nwKeyNode w" by (simp_all split: option.split prod.split)
  show ?thesis
  proof (cases "map_of (nwKeyNode ?w2) k")
    case None
    then have "k \<notin> set (map fst (nwEntries w))" using e s by (metis entriesOK_def list.set_map map_of_eq_None_iff)
    with None e v s show ?thesis by (simp add: recordKey_def Let_def entriesOK_def)
  next
    case (Some f)
    then show ?thesis using e s by (simp add: recordKey_def Let_def entriesOK_def)
  qed
qed

lemma readPairs_OK:
  "quietDoc doc \<Longrightarrow> entriesOK P w \<Longrightarrow> list_all P (pairsOf doc ns) \<Longrightarrow> entriesOK P (fst (readPairs doc l b i p ns w))"
proof (induction doc l b i p ns w rule: readPairs.induct)
  case (1 doc l b i p ko val ns w)
  note r = quiet_derefIn [OF "1.prems"(1), of ko]
  show ?case using "1.IH" [OF r] "1.prems" r recordKey_OK by (cases "asInt (safeDeref doc ko)") simp_all
qed simp_all

lemma readNumsEntry_OK:
  "quietDoc doc \<Longrightarrow> entriesOK P w \<Longrightarrow> list_all P (pairsOf doc (dictEntryArray doc d ''Nums'')) \<Longrightarrow> entriesOK P (fst (readNumsEntry doc d l b w))"
  using quiet_derefIn [of doc] readPairs_OK [of doc P]
  by (auto simp: readNumsEntry_def readNums_def dictEntryArray_def split: option.split)

text \<open>What a quiet read of a node comes to.\<close>

lemma ntRead_quiet:
  assumes "quietDoc doc"
  obtains (null) "safeDeref doc node = PNull" "\<not> isRef node" "\<exists>m. ntRead doc node l r depth w = (problem l m w, None)"
    | (bad) "plainDict (safeDeref doc node) = None" "\<exists>c m. ntRead doc node l r depth w = (lost l (c # m) w, None)"
    | (neither) d w1 where "safeDeref doc node = PDict d" "\<exists>c m. ntRead doc node l r depth w = (lost l (c # m) w1, None)" "w1 = fst (limits doc d l r w)"
        "dictFind d ''Kids'' = None" "dictFind d ''Nums'' = None"
    | (dict) d w1 b w2 where "safeDeref doc node = PDict d" "w1 = fst (limits doc d l r w)"
        "ntRead doc node l r depth w = readNumsEntry doc d l b w2"
        "(\<exists>kv kids. dictFind d ''Kids'' = Some kv \<and> safeDeref doc kv = PArray kids \<and> kids = dictEntryArray doc d ''Kids'' \<and> w2 = ntVisitKids doc kids (depth + 1) w1)
          \<or> (dictEntryArray doc d ''Kids'' = [] \<and> (w2 = w1 \<or> (\<exists>c m. w2 = lost l (c # m) w1)))"
proof (cases "plainDict (safeDeref doc node)")
  case None
  show thesis
  proof (cases "safeDeref doc node = PNull \<and> \<not> isRef node")
    case True
    with null show thesis by (auto simp: ntRead.simps quiet_derefIn [OF assms])
  next
    case False
    then have "\<exists>c m. ntRead doc node l r depth w = (lost l (c # m) w, None)"
      using None by (cases "safeDeref doc node = PNull") (auto simp: ntRead.simps quiet_derefIn [OF assms])
    with bad None show thesis by blast
  qed
next
  case (Some d)
  obtain w1 lb where l: "limits doc d l r w = (w1, lb)" by fastforce
  then obtain b where b: "lb = Inr b"
    using quiet_derefIn [OF assms] by (auto simp: limits_def split: if_split_asm option.split_asm)
  have s: "safeDeref doc node = PDict d" using Some by simp
  have w1: "w1 = fst (limits doc d l r w)" using l by simp
  show thesis
  proof (cases "dictFind d ''Kids''")
    case None
    show thesis
    proof (cases "dictFind d ''Nums''")
      case n: None
      have "ntRead doc node l r depth w = (lost l ''node has neither /Kids nor /Nums'' w1, None)"
        using None n s l b by (simp add: ntRead.simps quiet_derefIn [OF assms])
      then show thesis using neither [OF s _ w1 None n] by blast
    next
      case (Some nv)
      have "ntRead doc node l r depth w = readNumsEntry doc d l b w1"
        using None Some s l b by (simp add: ntRead.simps quiet_derefIn [OF assms])
      from dict [OF s w1 this] None show thesis by (simp add: dictEntryArray_def)
    qed
  next
    case k: (Some kv)
    show thesis
    proof (cases "asArray (safeDeref doc kv)")
      case None
      then have "ntRead doc node l r depth w = readNumsEntry doc d l b (lost l (''/Kids is '' @ objKind (safeDeref doc kv) @ '', not an array'') w1)"
        using k s l b by (simp add: ntRead.simps quiet_derefIn [OF assms])
      from dict [OF s w1 this] None k show thesis by (auto simp: dictEntryArray_def)
    next
      case (Some kids)
      then have "ntRead doc node l r depth w = readNumsEntry doc d l b (ntVisitKids doc kids (depth + 1) w1)"
        using k s l b by (simp add: ntRead.simps quiet_derefIn [OF assms])
      from dict [OF s w1 this] Some k show thesis by (auto simp: dictEntryArray_def)
    qed
  qed
qed

lemma ntVisit_quiet:
  assumes "quietDoc doc"
  obtains (lost) "\<exists>c m. ntVisit doc node isRoot depth w = lost (ntNodeLabel node) (c # m) w"
    | (again) n g where "node = PRef n g" "n \<in> set (nwVisited w)" "\<exists>m. ntVisit doc node isRoot depth w = problem (ntNodeLabel node) m w"
    | (read) "ntVisit doc node isRoot depth w = fst (ntRead doc node (ntNodeLabel node) isRoot depth
          (case asRef node of Some (n, g) \<Rightarrow> w\<lparr>nwVisited := n # nwVisited w\<rparr> | None \<Rightarrow> w))"
        "\<not> maxNumberTreeDepth < depth" "\<not> (case asRef node of Some (n, g) \<Rightarrow> n \<in> set (nwVisited w) | None \<Rightarrow> False)"
proof (cases "maxNumberTreeDepth < depth \<or> (case asRef node of Some (n, g) \<Rightarrow> n \<in> set (nwVisited w) | None \<Rightarrow> False)")
  case True
  then show thesis using lost again by (fastforce simp: ntVisit.simps Let_def split: option.split_asm)
next
  case False
  let ?w1 = "case asRef node of Some (n, g) \<Rightarrow> w\<lparr>nwVisited := n # nwVisited w\<rparr> | None \<Rightarrow> w"
  have none: "snd (readNumsEntry doc d l b v) = None" for d l b v
  proof -
    have "snd (readPairs doc l b i p ns v) = None" for i p ns v
      using assms by (induction doc l b i p ns v rule: readPairs.induct) (simp_all add: quiet_derefIn split: option.split)
    then show ?thesis by (simp add: readNumsEntry_def readNums_def quiet_derefIn [OF assms] split: option.split)
  qed
  have "snd (ntRead doc node (ntNodeLabel node) isRoot depth ?w1) = None"
    by (rule ntRead_quiet [OF assms, of node "ntNodeLabel node" isRoot depth ?w1]) (auto simp: none)
  then have "ntVisit doc node isRoot depth w = fst (ntRead doc node (ntNodeLabel node) isRoot depth ?w1)"
    using False by (simp add: ntVisit.simps Let_def case_prod_beta split: option.split)
  with read False show thesis by blast
qed

text \<open>An induction for documents that do not panic: a visit through the read of its node and the visits of its kids.\<close>

lemma walk_OK:
  assumes q: "quietDoc doc"
    and kid: "\<And>x d y. N x \<Longrightarrow> safeDeref doc x = PDict d \<Longrightarrow> y \<in> set (dictEntryArray doc d ''Kids'') \<Longrightarrow> N y"
    and pairs: "\<And>x d. N x \<Longrightarrow> safeDeref doc x = PDict d \<Longrightarrow> list_all P (pairsOf doc (dictEntryArray doc d ''Nums''))"
  shows "doc' = doc \<Longrightarrow> N node \<Longrightarrow> entriesOK P w \<Longrightarrow> entriesOK P (ntVisit doc' node isRoot depth w)"
    "doc'' = doc \<Longrightarrow> N node' \<Longrightarrow> entriesOK P w' \<Longrightarrow> entriesOK P (fst (ntRead doc'' node' label isRoot' depth' w'))"
    "doc3 = doc \<Longrightarrow> list_all N kids \<Longrightarrow> entriesOK P w'' \<Longrightarrow> entriesOK P (ntVisitKids doc3 kids depth'' w'')"
proof (induction doc' node isRoot depth w and doc'' node' label isRoot' depth' w' and doc3 kids depth'' w''
    rule: ntVisit_ntRead_ntVisitKids.induct)
  case (1 doc' node isRoot depth w)
  then have d: "doc' = doc" by simp
  show ?case unfolding d
  proof (rule ntVisit_quiet [OF q, of node isRoot depth w])
    let ?w1 = "case asRef node of Some (n, g) \<Rightarrow> w\<lparr>nwVisited := n # nwVisited w\<rparr> | None \<Rightarrow> w"
    assume "ntVisit doc node isRoot depth w = fst (ntRead doc node (ntNodeLabel node) isRoot depth ?w1)"
      "\<not> maxNumberTreeDepth < depth" "\<not> (case asRef node of Some (n, g) \<Rightarrow> n \<in> set (nwVisited w) | None \<Rightarrow> False)"
    then show "entriesOK P (ntVisit doc node isRoot depth w)" using "1.IH" [OF refl] "1.prems" by simp
  qed (use "1.prems" in auto)
next
  case (2 doc'' node label isRoot depth w)
  then have d: "doc'' = doc" by simp
  show ?case unfolding d
  proof (rule ntRead_quiet [OF q, of node label isRoot depth w])
    fix dd w1 b w2
    assume a: "safeDeref doc node = PDict dd" "w1 = fst (limits doc dd label isRoot w)" "ntRead doc node label isRoot depth w = readNumsEntry doc dd label b w2"
      "(\<exists>kv kids. dictFind dd ''Kids'' = Some kv \<and> safeDeref doc kv = PArray kids \<and> kids = dictEntryArray doc dd ''Kids'' \<and> w2 = ntVisitKids doc kids (depth + 1) w1)
        \<or> (dictEntryArray doc dd ''Kids'' = [] \<and> (w2 = w1 \<or> (\<exists>c m. w2 = lost label (c # m) w1)))"
    have w1: "entriesOK P w1" using "2.prems"(3) limits_grows(2,3) entriesOK_same unfolding a(2) by metis
    have "list_all P (pairsOf doc (dictEntryArray doc dd ''Nums''))"
      by (rule pairs [OF "2.prems"(2) a(1)])
    moreover have "entriesOK P w2"
      using a(4)
    proof
      assume "\<exists>kv kids. dictFind dd ''Kids'' = Some kv \<and> safeDeref doc kv = PArray kids \<and> kids = dictEntryArray doc dd ''Kids'' \<and> w2 = ntVisitKids doc kids (depth + 1) w1"
      then obtain kv kids where k: "dictFind dd ''Kids'' = Some kv" "safeDeref doc kv = PArray kids" "kids = dictEntryArray doc dd ''Kids''"
        "w2 = ntVisitKids doc kids (depth + 1) w1" by blast
      obtain lb where l: "limits doc dd label isRoot w = (w1, lb)" using a(2) by (cases "limits doc dd label isRoot w") simp
      obtain bb where bb: "lb = Inr bb"
        using l quiet_derefIn [OF q] by (auto simp: limits_def split: if_split_asm option.split_asm)
      have n: "list_all N kids" using kid [OF "2.prems"(2) a(1)] k(3) by (simp add: list_all_iff)
      show ?thesis unfolding k(4)
        using "2.IH" [unfolded d, OF quiet_derefIn [OF q], of dd w1 lb bb kv "PArray kids" kids] a(1) l bb k(1,2) quiet_derefIn [OF q] n w1 by simp
    qed (use w1 in auto)
    ultimately show "entriesOK P (fst (ntRead doc node label isRoot depth w))" unfolding a(3) using readNumsEntry_OK [OF q] by blast
  next
    fix dd w1 assume "w1 = fst (limits doc dd label isRoot w)" "\<exists>c m. ntRead doc node label isRoot depth w = (lost label (c # m) w1, None)"
    then show "entriesOK P (fst (ntRead doc node label isRoot depth w))"
      using "2.prems"(3) limits_grows(2,3) entriesOK_same by (metis entriesOK_problem(2) fst_conv)
  qed (use "2.prems" in auto)
next
  case (4 doc3 kid kids depth w)
  then show ?case by simp
qed simp

lemma ntVisit_OK:
  assumes "quietDoc doc"
  shows "entriesOK (\<lambda>_. True) w \<Longrightarrow> entriesOK (\<lambda>_. True) (ntVisit doc node isRoot depth w)"
    "entriesOK (\<lambda>_. True) w \<Longrightarrow> entriesOK (\<lambda>_. True) (ntVisitKids doc kids depth w)"
  by (rule walk_OK(1) [OF assms, of "\<lambda>_. True"] walk_OK(3) [OF assms, of "\<lambda>_. True"]; simp add: list_all_iff)+

section \<open>Every key, when the walk is complete\<close>

text \<open>
  Against the final walker \<open>W\<close>: the keys of a dictionary are recorded and its kids accounted for. A
  reference is accounted for when its object was visited.
\<close>

inductive ntAcc :: "pdfDoc \<Rightarrow> numberTreeWalker \<Rightarrow> pdfObj \<Rightarrow> bool" for doc W where
  nacc_ref: "n \<in> set (nwVisited W) \<Longrightarrow> ntAcc doc W (PRef n g)"
| nacc_null: "ntAcc doc W PNull"
| nacc_dict: "fst ` set (pairsOf doc (dictEntryArray doc d ''Nums'')) \<subseteq> keysOf W \<Longrightarrow>
    list_all (ntAcc doc W) (dictEntryArray doc d ''Kids'') \<Longrightarrow> ntAcc doc W (PDict d)"

definition contentAcc :: "pdfDoc \<Rightarrow> numberTreeWalker \<Rightarrow> pdfObj \<Rightarrow> bool" where
  "contentAcc doc W v \<longleftrightarrow> (\<forall>d. v = PDict d \<longrightarrow> fst ` set (pairsOf doc (dictEntryArray doc d ''Nums'')) \<subseteq> keysOf W
     \<and> list_all (ntAcc doc W) (dictEntryArray doc d ''Kids''))"

definition newAcc :: "pdfDoc \<Rightarrow> numberTreeWalker \<Rightarrow> numberTreeWalker \<Rightarrow> numberTreeWalker \<Rightarrow> bool" where
  "newAcc doc W w w' \<longleftrightarrow> (\<forall>n g. n \<in> set (nwVisited w') - set (nwVisited w) \<longrightarrow> contentAcc doc W (safeDeref doc (PRef n g)))"

text \<open>A walker that the final one extends, nothing lost so far.\<close>

definition before :: "numberTreeWalker \<Rightarrow> numberTreeWalker \<Rightarrow> bool" where
  "before W w \<longleftrightarrow> nwIncomplete w = [] \<and> set (nwVisited w) \<subseteq> set (nwVisited W) \<and> keysOf w \<subseteq> keysOf W"

lemma before_grows: "before W w' \<Longrightarrow> ntGrows w w' \<Longrightarrow> before W w"
  by (auto simp: before_def ntGrows_def)

lemma newAcc_trans: "newAcc doc W a b \<Longrightarrow> newAcc doc W b c \<Longrightarrow> newAcc doc W a c"
  unfolding newAcc_def by blast

lemma newAcc_same: "nwVisited w' = nwVisited w \<Longrightarrow> newAcc doc W w w'"
  by (simp add: newAcc_def)

lemma before_lost [simp]: "\<not> before W (lost l (c # m) w)"
  by (simp add: before_def)

text \<open>What a leaf records.\<close>

lemma recordKey_key: "k \<in> keysOf (recordKey l b p k v w)" if "entriesOK P w"
proof (cases "map_of (nwKeyNode w) k")
  case None
  then show ?thesis by (simp add: recordKey_def Let_def keysOf_def split: option.split)
next
  case (Some f)
  then have "k \<in> fst ` set (nwKeyNode w)" by (metis map_of_SomeD image_eqI fst_conv)
  then have "k \<in> keysOf w" using that unfolding entriesOK_def keysOf_def by (metis list.set_map)
  then show ?thesis using recordKey_grows [of w l b p k v] by (auto simp: ntGrows_def)
qed

lemma anyOK: "entriesOK P w \<Longrightarrow> entriesOK (\<lambda>_. True) w"
  by (simp add: entriesOK_def list_all_iff)

lemma readPairs_visited: "nwVisited (fst (readPairs doc l b i p ns w)) = nwVisited w"
proof (induction doc l b i p ns w rule: readPairs.induct)
  case (1 doc l b i p ko val ns w)
  have "nwVisited (recordKey l b p k v w) = nwVisited w" for k v
    by (simp add: recordKey_def Let_def split: option.split)
  with 1 show ?case by (cases "derefIn doc ko") (auto split: option.split)
qed simp_all

lemma readPairs_keys:
  "quietDoc doc \<Longrightarrow> entriesOK (\<lambda>_. True) w \<Longrightarrow> nwIncomplete (fst (readPairs doc l b i p ns w)) = [] \<Longrightarrow>
    fst ` set (pairsOf doc ns) \<subseteq> keysOf (fst (readPairs doc l b i p ns w))"
proof (induction doc l b i p ns w rule: readPairs.induct)
  case (1 doc l b i p ko val ns w)
  note r = quiet_derefIn [OF "1.prems"(1), of ko]
  show ?case
  proof (cases "asInt (safeDeref doc ko)")
    case None
    have "nwIncomplete (fst (readPairs doc l b (i + 2) p ns
        (lost l (''/Nums entry '' @ showNat i @ '': key is '' @ objKind (safeDeref doc ko) @ '', not an integer'') w))) \<noteq> []"
      using readPairs_grows unfolding ntGrows_def by (metis append_Cons lost_same(5))
    with None r "1.prems"(3) show ?thesis by simp
  next
    case (Some k)
    let ?w = "recordKey l b p k val w"
    have e: "entriesOK (\<lambda>_. True) ?w" by (rule recordKey_OK [OF "1.prems"(2)]) simp
    have g: "ntGrows ?w (fst (readPairs doc l b (i + 2) (Some k) ns ?w))" by (rule readPairs_grows)
    have "k \<in> keysOf (fst (readPairs doc l b (i + 2) (Some k) ns ?w))"
      using recordKey_key [OF "1.prems"(2)] g unfolding ntGrows_def by blast
    moreover have "fst ` set (pairsOf doc ns) \<subseteq> keysOf (fst (readPairs doc l b (i + 2) (Some k) ns ?w))"
      using "1.IH"(2) [OF r Some "1.prems"(1) e] "1.prems"(3) r Some by simp
    ultimately show ?thesis using r Some by simp
  qed
qed simp_all

lemma readNumsEntry_acc:
  assumes "quietDoc doc" "entriesOK (\<lambda>_. True) w" "nwIncomplete (fst (readNumsEntry doc d l b w)) = []"
  shows "fst ` set (pairsOf doc (dictEntryArray doc d ''Nums'')) \<subseteq> keysOf (fst (readNumsEntry doc d l b w))"
    "nwVisited (fst (readNumsEntry doc d l b w)) = nwVisited w"
proof -
  show "nwVisited (fst (readNumsEntry doc d l b w)) = nwVisited w"
    by (simp add: readNumsEntry_def readNums_def quiet_derefIn [OF assms(1)] readPairs_visited split: option.split)
  show "fst ` set (pairsOf doc (dictEntryArray doc d ''Nums'')) \<subseteq> keysOf (fst (readNumsEntry doc d l b w))"
  proof (cases "dictFind d ''Nums''")
    case (Some v)
    show ?thesis
    proof (cases "asArray (safeDeref doc v)")
      case n: None
      with Some show ?thesis by (simp add: dictEntryArray_def)
    next
      case a: (Some ns)
      define w0 where "w0 = (if length ns mod 2 \<noteq> 0 then lost l (''/Nums has odd length '' @ showNat (length ns) @ ''; the last entry has no value'') w else w)"
      have w0: "readNums doc ns l b w = readPairs doc l b 0 None ns w0" "entriesOK (\<lambda>_. True) w0"
        using assms(2) by (simp_all add: readNums_def w0_def)
      have "readNumsEntry doc d l b w = readPairs doc l b 0 None ns w0" "dictEntryArray doc d ''Nums'' = ns"
        using Some a w0(1) by (simp_all add: readNumsEntry_def dictEntryArray_def quiet_derefIn [OF assms(1)])
      with readPairs_keys [OF assms(1) w0(2)] assms(3) show ?thesis by simp
    qed
  qed (simp add: dictEntryArray_def)
qed

lemma walk_acc:
  assumes q: "quietDoc doc" and gen: "\<And>n g h. lookupRef doc n g = lookupRef doc n h"
  shows "doc' = doc \<Longrightarrow> entriesOK (\<lambda>_. True) w \<Longrightarrow> before W (ntVisit doc' node isRoot depth w) \<Longrightarrow>
      ntAcc doc W node \<and> newAcc doc W w (ntVisit doc' node isRoot depth w)"
    "doc'' = doc \<Longrightarrow> entriesOK (\<lambda>_. True) w' \<Longrightarrow> before W (fst (ntRead doc'' node' label isRoot' depth' w')) \<Longrightarrow>
      (isRef node' \<or> safeDeref doc node' = PNull \<or> (\<exists>d. safeDeref doc node' = PDict d))
      \<and> contentAcc doc W (safeDeref doc node') \<and> newAcc doc W w' (fst (ntRead doc'' node' label isRoot' depth' w'))"
    "doc3 = doc \<Longrightarrow> entriesOK (\<lambda>_. True) w'' \<Longrightarrow> before W (ntVisitKids doc3 kids depth'' w'') \<Longrightarrow>
      list_all (ntAcc doc W) kids \<and> newAcc doc W w'' (ntVisitKids doc3 kids depth'' w'')"
proof (induction doc' node isRoot depth w and doc'' node' label isRoot' depth' w' and doc3 kids depth'' w''
    rule: ntVisit_ntRead_ntVisitKids.induct)
  case (1 doc' node isRoot depth w)
  then have d: "doc' = doc" by simp
  have b: "before W (ntVisit doc node isRoot depth w)" using "1.prems"(3) d by simp
  show ?case unfolding d
  proof (rule ntVisit_quiet [OF q, of node isRoot depth w])
    assume "\<exists>c m. ntVisit doc node isRoot depth w = lost (ntNodeLabel node) (c # m) w"
    with b show "ntAcc doc W node \<and> newAcc doc W w (ntVisit doc node isRoot depth w)" by auto
  next
    fix n g assume "node = PRef n g" "n \<in> set (nwVisited w)" "\<exists>m. ntVisit doc node isRoot depth w = problem (ntNodeLabel node) m w"
    with b show "ntAcc doc W node \<and> newAcc doc W w (ntVisit doc node isRoot depth w)"
      by (auto simp: before_def newAcc_def intro: nacc_ref)
  next
    let ?w1 = "case asRef node of Some (n, g) \<Rightarrow> w\<lparr>nwVisited := n # nwVisited w\<rparr> | None \<Rightarrow> w"
    let ?r = "ntRead doc node (ntNodeLabel node) isRoot depth ?w1"
    assume v: "ntVisit doc node isRoot depth w = fst ?r" "\<not> maxNumberTreeDepth < depth"
      "\<not> (case asRef node of Some (n, g) \<Rightarrow> n \<in> set (nwVisited w) | None \<Rightarrow> False)"
    have rd: "(isRef node \<or> safeDeref doc node = PNull \<or> (\<exists>d. safeDeref doc node = PDict d))
        \<and> contentAcc doc W (safeDeref doc node) \<and> newAcc doc W ?w1 (fst ?r)"
      using "1.IH" [OF refl, unfolded d] v b "1.prems"(2) by simp
    show "ntAcc doc W node \<and> newAcc doc W w (ntVisit doc node isRoot depth w)"
    proof (cases "asRef node")
      case None
      then have "safeDeref doc node = node" "\<not> isRef node" by (cases node; simp add: safeDeref_def)+
      with rd have "ntAcc doc W node" by (auto simp: contentAcc_def intro: nacc_null nacc_dict)
      with rd None v(1) show ?thesis by simp
    next
      case (Some x)
      obtain n g where x: "x = (n, g)" by (cases x)
      with Some have node: "node = PRef n g" by simp
      have "ntGrows ?w1 (fst ?r)" by (rule walk_grows(2))
      then have n: "n \<in> set (nwVisited (fst ?r))" using node by (auto simp: ntGrows_def)
      then have "ntAcc doc W node" using b v(1) node by (auto simp: before_def intro: nacc_ref)
      moreover have "newAcc doc W w (fst ?r)"
        unfolding newAcc_def
      proof (intro allI impI)
        fix m h assume m: "m \<in> set (nwVisited (fst ?r)) - set (nwVisited w)"
        show "contentAcc doc W (safeDeref doc (PRef m h))"
        proof (cases "m = n")
          case True
          have "safeDeref doc (PRef m h) = safeDeref doc node" using gen [of n h g] node True by (simp add: safeDeref_def)
          with rd show ?thesis by simp
        next
          case False
          with m node rd show ?thesis unfolding newAcc_def by simp
        qed
      qed
      ultimately show ?thesis using v(1) by simp
    qed
  qed
next
  case (2 doc'' node label isRoot depth w)
  then have d: "doc'' = doc" by simp
  let ?goal = "(isRef node \<or> safeDeref doc node = PNull \<or> (\<exists>d. safeDeref doc node = PDict d))
      \<and> contentAcc doc W (safeDeref doc node) \<and> newAcc doc W w (fst (ntRead doc node label isRoot depth w))"
  have b: "before W (fst (ntRead doc node label isRoot depth w))" using "2.prems"(3) d by simp
  show ?case unfolding d
  proof (rule ntRead_quiet [OF q, of node label isRoot depth w])
    assume "safeDeref doc node = PNull" "\<not> isRef node" "\<exists>m. ntRead doc node label isRoot depth w = (problem label m w, None)"
    then show ?goal by (auto simp: contentAcc_def newAcc_def)
  next
    fix dd w1 lb w2
    assume a: "safeDeref doc node = PDict dd" "w1 = fst (limits doc dd label isRoot w)" "ntRead doc node label isRoot depth w = readNumsEntry doc dd label lb w2"
      "(\<exists>kv kids. dictFind dd ''Kids'' = Some kv \<and> safeDeref doc kv = PArray kids \<and> kids = dictEntryArray doc dd ''Kids'' \<and> w2 = ntVisitKids doc kids (depth + 1) w1)
        \<or> (dictEntryArray doc dd ''Kids'' = [] \<and> (w2 = w1 \<or> (\<exists>c m. w2 = lost label (c # m) w1)))"
    have w1: "entriesOK (\<lambda>_. True) w1" "nwVisited w1 = nwVisited w"
      using "2.prems"(2) limits_grows(2-4) entriesOK_same unfolding a(2) by metis+
    have b2: "before W w2" using before_grows [OF _ readNumsEntry_grows] b a(3) by metis
    have kids: "list_all (ntAcc doc W) (dictEntryArray doc dd ''Kids'') \<and> newAcc doc W w1 w2 \<and> entriesOK (\<lambda>_. True) w2"
      using a(4)
    proof
      assume "\<exists>kv kids. dictFind dd ''Kids'' = Some kv \<and> safeDeref doc kv = PArray kids \<and> kids = dictEntryArray doc dd ''Kids'' \<and> w2 = ntVisitKids doc kids (depth + 1) w1"
      then obtain kv kids where k: "dictFind dd ''Kids'' = Some kv" "safeDeref doc kv = PArray kids" "kids = dictEntryArray doc dd ''Kids''"
        "w2 = ntVisitKids doc kids (depth + 1) w1" by blast
      obtain xb where l: "limits doc dd label isRoot w = (w1, xb)" using a(2) by (cases "limits doc dd label isRoot w") simp
      obtain bb where bb: "xb = Inr bb"
        using l quiet_derefIn [OF q] by (auto simp: limits_def split: if_split_asm option.split_asm)
      have "list_all (ntAcc doc W) kids \<and> newAcc doc W w1 (ntVisitKids doc kids (depth + 1) w1)"
        using "2.IH" [unfolded d, OF quiet_derefIn [OF q], of dd w1 xb bb kv "PArray kids" kids] a(1) l bb k(1,2) quiet_derefIn [OF q] w1(1) b2 k(4) by simp
      then show ?thesis using k(3,4) ntVisit_OK(2) [OF q w1(1)] by auto
    next
      assume "dictEntryArray doc dd ''Kids'' = [] \<and> (w2 = w1 \<or> (\<exists>c m. w2 = lost label (c # m) w1))"
      then show ?thesis using w1(1) b2 by (auto simp: newAcc_same)
    qed
    have inc: "nwIncomplete (fst (readNumsEntry doc dd label lb w2)) = []" using b a(3) by (simp add: before_def)
    note acc = readNumsEntry_acc [OF q _ inc]
    have "fst ` set (pairsOf doc (dictEntryArray doc dd ''Nums'')) \<subseteq> keysOf W"
      using acc(1) kids b a(3) by (auto simp: before_def)
    moreover have "newAcc doc W w (fst (ntRead doc node label isRoot depth w))"
      using kids acc(2) w1(2) unfolding a(3) newAcc_def by simp
    ultimately show ?goal using a(1) kids by (simp add: contentAcc_def)
  qed (use b in auto)
next
  case (4 doc3 kid kids depth w)
  let ?w1 = "ntVisit doc kid False depth w"
  have b: "before W (ntVisitKids doc kids depth ?w1)" using "4.prems" by simp
  have b1: "before W ?w1" by (rule before_grows [OF b walk_grows(3)])
  have "entriesOK (\<lambda>_. True) ?w1" using ntVisit_OK(1) [OF q] "4.prems"(2) by blast
  with "4.IH" "4.prems" b b1 newAcc_trans show ?case by auto
qed (simp add: newAcc_def)

section \<open>The walk is exact\<close>

lemma node_acc:
  assumes "ntNode doc rootObj x" "ntAcc doc W rootObj" "\<And>n g. n \<in> set (nwVisited W) \<Longrightarrow> contentAcc doc W (safeDeref doc (PRef n g))"
  shows "ntAcc doc W x \<and> contentAcc doc W (safeDeref doc x)"
proof -
  have content: "contentAcc doc W (safeDeref doc y)" if "ntAcc doc W y" for y
    using that by (cases rule: ntAcc.cases) (use assms(3) in \<open>auto simp: contentAcc_def safeDeref_def\<close>)
  from assms(1) have "ntAcc doc W x"
  proof (induction rule: ntNode.induct)
    case (nt_kid x d y)
    with content [OF nt_kid.IH] show ?case by (auto simp: contentAcc_def list_all_iff)
  qed (rule assms(2))
  with content show ?thesis by blast
qed

lemma number_tree_sound:
  assumes "quietDoc doc"
  shows "entriesOK (\<lambda>(k, v). ntPair doc rootObj k v) (ntVisit doc rootObj True 1 (newNumberTreeWalker loc))"
proof (rule walk_OK(1) [OF assms, where N = "ntNode doc rootObj"])
  show "list_all (\<lambda>(k, v). ntPair doc rootObj k v) (pairsOf doc (dictEntryArray doc d ''Nums''))"
    if "ntNode doc rootObj x" "safeDeref doc x = PDict d" for x d
    using that by (auto simp: list_all_iff ntPair_def)
qed (auto intro: ntNode.intros simp: entriesOK_def newNumberTreeWalker_def)

lemma number_tree_complete:
  assumes "quietDoc doc" "\<And>n g h. lookupRef doc n g = lookupRef doc n h"
    and "nwIncomplete (ntVisit doc rootObj True 1 (newNumberTreeWalker loc)) = []" "ntPair doc rootObj k v"
  shows "k \<in> keysOf (ntVisit doc rootObj True 1 (newNumberTreeWalker loc))"
proof -
  let ?W = "ntVisit doc rootObj True 1 (newNumberTreeWalker loc)"
  have "ntAcc doc ?W rootObj \<and> newAcc doc ?W (newNumberTreeWalker loc) ?W"
    using assms(3) by (intro walk_acc(1) [OF assms(1,2)]) (simp_all add: entriesOK_def newNumberTreeWalker_def before_def)
  then have a: "ntAcc doc ?W rootObj" and c: "contentAcc doc ?W (safeDeref doc (PRef n g))" if "n \<in> set (nwVisited ?W)" for n g
    using that by (auto simp: newAcc_def newNumberTreeWalker_def)
  from \<open>ntAcc doc ?W rootObj \<and> _\<close> have a: "ntAcc doc ?W rootObj" by blast
  from assms(4) obtain x d where x: "ntNode doc rootObj x" "safeDeref doc x = PDict d" "(k, v) \<in> set (pairsOf doc (dictEntryArray doc d ''Nums''))"
    unfolding ntPair_def by blast
  have "contentAcc doc ?W (PDict d)" using node_acc [OF x(1) a c] x(2) by simp
  with x(3) show ?thesis by (force simp: contentAcc_def)
qed

text \<open>
  Claim C20. On a document whose objects do not depend on the generation asked for, every entry the walk of a
  number tree returns is a key with its value as one node of the tree stores them, no key is returned twice,
  and unless the walk reports that something was lost, it returns every key of the tree.
\<close>

theorem number_tree_exact:
  assumes "quietDoc doc" "\<And>n g h. lookupRef doc n g = lookupRef doc n h"
    and "walkNumberTree doc rootObj loc = (entries, problems, incomplete)"
  shows "list_all (\<lambda>(k, v). ntPair doc rootObj k v) entries \<and> distinct (map fst entries)
    \<and> (incomplete \<noteq> [] \<or> fst ` set entries = {k. \<exists>v. ntPair doc rootObj k v})"
proof -
  let ?W = "ntVisit doc rootObj True 1 (newNumberTreeWalker loc)"
  have w: "entries = nwEntries ?W" "incomplete = nwIncomplete ?W" using assms(3) by (simp_all add: walkNumberTree_def Let_def)
  have s: "list_all (\<lambda>(k, v). ntPair doc rootObj k v) entries" "distinct (map fst entries)"
    using number_tree_sound [OF assms(1), of rootObj loc] w by (simp_all add: entriesOK_def)
  have "fst ` set entries \<subseteq> {k. \<exists>v. ntPair doc rootObj k v}" using s(1) by (force simp: list_all_iff)
  moreover have "{k. \<exists>v. ntPair doc rootObj k v} \<subseteq> fst ` set entries" if "incomplete = []"
    using number_tree_complete [OF assms(1,2), of rootObj loc] that w by (auto simp: keysOf_def)
  ultimately show ?thesis using s by blast
qed

text \<open>A root with two leaves, the second of which repeats a key of the first.\<close>

definition labelTree :: pdfDoc where
  "labelTree = \<lparr> xrefNums = [1, 2, 3],
     xrefLookup = (\<lambda>n g. DObj (PDict
       (if n = 1 then [(''Kids'', PArray [PRef 2 0, PRef 3 0])]
        else if n = 2 then [(''Limits'', PArray [PInt 0, PInt 4]), (''Nums'', PArray [PInt 0, PName ''r'', PInt 4, PName ''D''])]
        else [(''Limits'', PArray [PInt 4, PInt 9]), (''Nums'', PArray [PInt 4, PName ''A'', PInt 9, PName ''a''])]))),
     docRoot = None, docCatalog = DObj PNull \<rparr>"

theorem number_tree_exact_witness:
  "{k. \<exists>v. ntPair labelTree (PRef 1 0) k v} = {0, 4, 9} \<and> ntPair labelTree (PRef 1 0) 4 (PName ''D'')"
proof -
  have q: "quietDoc labelTree" by (simp add: quietDoc_def lookupRef_def labelTree_def)
  have g: "lookupRef labelTree n g = lookupRef labelTree n h" for n g h by (simp add: lookupRef_def labelTree_def)
  have "walkNumberTree labelTree (PRef 1 0) ''t'' =
      ([(9, PName ''a''), (4, PName ''D''), (0, PName ''r'')],
       [(''t, node 3 0 R'', ''key 4 already in node 2 0 R; first value kept'')], [])"
    by code_simp
  from number_tree_exact [OF q g this] show ?thesis by auto
qed

end
