(* ===== verification/GoLib.thy ===== *)
theory GoLib
  imports Strconv Utf8 "HOL-Library.Multiset" "HOL-Library.List_Lexorder" "HOL-Library.Char_ord"
begin

text \<open>
  Two more pieces of Go's library that several components use: \<^verbatim>\<open>slices.SortFunc\<close> with a comparison that
  answers a sign, and \<^verbatim>\<open>strings.Fields\<close>.
\<close>

section \<open>Sorting by a comparison\<close>

text \<open>
  \<^verbatim>\<open>slices.SortFunc\<close> does not say in which order it leaves elements that compare equal; this one keeps
  theirs. The components only sort by comparisons that tell different elements apart, or use the stable sort.
\<close>

fun insertCmp :: "('a \<Rightarrow> 'a \<Rightarrow> int) \<Rightarrow> 'a \<Rightarrow> 'a list \<Rightarrow> 'a list" where
  "insertCmp c x [] = [x]"
| "insertCmp c x (y # ys) = (if c x y \<le> 0 then x # y # ys else y # insertCmp c x ys)"

definition sortFunc :: "('a \<Rightarrow> 'a \<Rightarrow> int) \<Rightarrow> 'a list \<Rightarrow> 'a list" where
  "sortFunc c xs = foldr (insertCmp c) xs []"

text \<open>\<^verbatim>\<open>cmp.Compare\<close> and \<^verbatim>\<open>strings.Compare\<close>\<close>

definition goCompare :: "'a :: linorder \<Rightarrow> 'a \<Rightarrow> int" where
  "goCompare a b = (if a < b then -1 else if a = b then 0 else 1)"

lemma goCompare_sign [simp]: "goCompare a b \<le> 0 \<longleftrightarrow> a \<le> b" "goCompare a b = 0 \<longleftrightarrow> a = b" "goCompare a b < 0 \<longleftrightarrow> a < b"
  by (auto simp: goCompare_def)

lemma insertCmp_key:
  assumes "\<And>y. y \<in> set ys \<Longrightarrow> c x y \<le> 0 \<longleftrightarrow> f x \<le> f y"
  shows "insertCmp c x ys = insort_key f x ys"
  using assms by (induction ys) simp_all

lemma sortFunc_key:
  assumes "\<And>x y. x \<in> set xs \<Longrightarrow> y \<in> set xs \<Longrightarrow> c x y \<le> 0 \<longleftrightarrow> f x \<le> f y"
  shows "sortFunc c xs = sort_key f xs"
  using assms
proof (induction xs)
  case (Cons x xs)
  then have "sortFunc c xs = sort_key f xs" by simp
  moreover have "insertCmp c x (sort_key f xs) = insort_key f x (sort_key f xs)"
    by (rule insertCmp_key) (use Cons.prems in simp)
  ultimately show ?case by (simp add: sortFunc_def sort_key_def)
qed (simp add: sortFunc_def)

text \<open>Whatever the comparison, the result is a permutation; it is in order when the comparison is a total preorder.\<close>

lemma mset_insertCmp [simp]: "mset (insertCmp c x ys) = add_mset x (mset ys)"
  by (induction ys) simp_all

lemma mset_sortFunc [simp]: "mset (sortFunc c xs) = mset xs"
  by (induction xs) (simp_all add: sortFunc_def)

lemma set_sortFunc [simp]: "set (sortFunc c xs) = set xs"
  by (rule mset_eq_setD) simp

lemma sortFunc_Nil [simp]: "sortFunc c xs = [] \<longleftrightarrow> xs = []"
  by (metis mset_sortFunc mset_zero_iff)

lemma sortFunc_sorted:
  assumes total: "\<And>x y. c x y \<le> 0 \<or> c y x \<le> 0" and trans: "\<And>x y z. c x y \<le> 0 \<Longrightarrow> c y z \<le> 0 \<Longrightarrow> c x z \<le> 0"
  shows "sorted_wrt (\<lambda>x y. c x y \<le> 0) (sortFunc c xs)"
proof -
  have ins: "sorted_wrt (\<lambda>x y. c x y \<le> 0) ys \<Longrightarrow> sorted_wrt (\<lambda>x y. c x y \<le> 0) (insertCmp c x ys)" for x ys
  proof (induction ys)
    case (Cons y ys)
    have s: "set (insertCmp c x ys) = insert x (set ys)" by (metis mset_insertCmp set_mset_add_mset_insert set_mset_mset)
    show ?case
    proof (cases "c x y \<le> 0")
      case True
      with Cons.prems trans [OF True] show ?thesis by auto
    next
      case False
      with Cons total [of x y] s show ?thesis by auto
    qed
  qed simp
  show ?thesis by (induction xs) (simp_all add: sortFunc_def ins)
qed

text \<open>A comparison by a first key, then by a second.\<close>

definition thenCompare :: "int \<Rightarrow> int \<Rightarrow> int" where
  "thenCompare a b = (if a \<noteq> 0 then a else b)"

section \<open>Fields\<close>

definition isSpaceRune :: "rune \<Rightarrow> bool" where
  "isSpaceRune r \<longleftrightarrow> (9 \<le> r \<and> r \<le> 13) \<or> r = 32 \<or> r = 133 \<or> r = 160 \<or> r = 5760 \<or> (8192 \<le> r \<and> r \<le> 8202)
     \<or> r = 8232 \<or> r = 8233 \<or> r = 8239 \<or> r = 8287 \<or> r = 12288"

text \<open>The width of the white space a string starts with, 0 when it does not.\<close>

definition spaceWidth :: "string \<Rightarrow> nat" where
  "spaceWidth s = (case decodeFront (map byteOf s) of Some (r, n) \<Rightarrow> if isSpaceRune r then n else 0 | None \<Rightarrow> 0)"

function strFieldsFrom :: "string \<Rightarrow> string \<Rightarrow> string list" where
  "strFieldsFrom cur [] = (if cur = [] then [] else [cur])"
| "strFieldsFrom cur (c # s) =
     (if spaceWidth (c # s) = 0 then strFieldsFrom (cur @ [c]) s
      else (if cur = [] then [] else [cur]) @ strFieldsFrom [] (drop (spaceWidth (c # s) - 1) s))"
  by pat_completeness auto
termination strFieldsFrom by (relation "measure (\<lambda>(cur, s). length s)") auto

definition strFields :: "string \<Rightarrow> string list" where
  "strFields s = strFieldsFrom [] s"

lemma spaceWidth_numChar: "numChar c \<Longrightarrow> spaceWidth (c # s) = 0"
proof -
  assume "numChar c"
  then have "byteOf c = 45 \<or> (48 \<le> byteOf c \<and> byteOf c \<le> 57)"
    by (auto simp: numChar_def isDigit_def byteOf_def)
  then show ?thesis by (auto simp: spaceWidth_def isSpaceRune_def)
qed

lemma strFieldsFrom_number: "strFieldsFrom cur (showInt i @ s) = strFieldsFrom (cur @ showInt i) s"
proof -
  have "strFieldsFrom cur (w @ s) = strFieldsFrom (cur @ w) s" if "list_all numChar w" for w
    using that by (induction w arbitrary: cur) (simp_all add: spaceWidth_numChar)
  moreover have "list_all numChar (showInt i)"
    using showInt_chars by (auto simp: list_all_iff numChar_def)
  ultimately show ?thesis by blast
qed

lemma strFields_ref: "strFields (showInt n @ '' '' @ showInt g @ '' R'') = [showInt n, showInt g, ''R'']"
proof -
  have "spaceWidth (CHR '' '' # s) = 1" for s by (simp add: spaceWidth_def isSpaceRune_def byteOf_def)
  moreover have "spaceWidth ''R'' = 0" by (simp add: spaceWidth_def isSpaceRune_def byteOf_def)
  ultimately show ?thesis by (simp add: strFields_def strFieldsFrom_number)
qed

end
