(* ===== verification/ReverseRefs.thy ===== *)
theory ReverseRefs
  imports GoLib NodeIds
begin

text \<open>
  The index of inbound references (\<^verbatim>\<open>internal/pdfcore/reverserefs.go\<close>): one breadth-first walk from the
  catalog records, for every object, the places that refer to it. Objects are told apart by number and
  generation. The loop over the queue has no bound of its own, so it is a partial function; the logging of a
  failed build and the document lock are left out.
\<close>

section \<open>State\<close>

type_synonym refKey = "int \<times> int"

record reverseRef =
  rrParentNodeID :: string
  rrParentRef :: string
  rrParentType :: "string option"
  rrPath :: string
  rrParentPath :: string

record revBfsEntry =
  rbNum :: int
  rbGen :: int
  rbObj :: pdfObj
  rbParentRef :: string
  rbParentNodeID :: string
  rbParentType :: "string option"
  rbPathFromRoot :: string

text \<open>The map, the queue and the visited set that the code passes by reference.\<close>

type_synonym revMap = "refKey \<Rightarrow> reverseRef list"

record revState =
  rvOut :: revMap
  rvQueue :: "revBfsEntry list"
  rvVisited :: "refKey list"

section \<open>Recording\<close>

definition joinPath :: "string \<Rightarrow> string \<Rightarrow> string" where
  "joinPath prefix suffix =
     (if prefix = [] then suffix else if hasPrefix suffix ''['' then prefix @ suffix else prefix @ '' '' @ suffix)"

definition addRef :: "refKey \<Rightarrow> reverseRef \<Rightarrow> revState \<Rightarrow> revState" where
  "addRef k r st = st\<lparr>rvOut := (rvOut st)(k := rvOut st k @ [r])\<rparr>"

definition recordCatalogChildEdge :: "pdfDoc \<Rightarrow> refKey \<Rightarrow> string \<Rightarrow> string option \<Rightarrow> revState \<Rightarrow> revState" where
  "recordCatalogChildEdge doc k path parentType st =
     (case catalogIndirectRef doc of
        None \<Rightarrow> st
      | Some (rNum, rGen) \<Rightarrow>
          addRef k \<lparr> rrParentNodeID = nodeIDForRef rNum rGen, rrParentRef = refString rNum rGen,
                     rrParentType = parentType, rrPath = path, rrParentPath = [] \<rparr> st)"

text \<open>The \<^verbatim>\<open>switch\<close> on the parent: an edge of an indirect object, or of the catalog.\<close>

definition recordEdge :: "pdfDoc \<Rightarrow> revBfsEntry \<Rightarrow> refKey \<Rightarrow> string \<Rightarrow> revState \<Rightarrow> revState" where
  "recordEdge doc src k path st =
     (if rbParentRef src \<noteq> [] then
        addRef k \<lparr> rrParentNodeID = rbParentNodeID src, rrParentRef = rbParentRef src,
                   rrParentType = rbParentType src, rrPath = path, rrParentPath = rbPathFromRoot src \<rparr> st
      else if rbParentNodeID src = ''root'' then recordCatalogChildEdge doc k path (rbParentType src) st
      else st)"

definition queuedEntry :: "int \<Rightarrow> int \<Rightarrow> pdfObj \<Rightarrow> string \<Rightarrow> revBfsEntry" where
  "queuedEntry num gen resolved pathFromRoot =
     \<lparr> rbNum = num, rbGen = gen, rbObj = resolved, rbParentRef = refString num gen,
       rbParentNodeID = nodeIDForRef num gen, rbParentType = dictTypeName resolved, rbPathFromRoot = pathFromRoot \<rparr>"

text \<open>A reference: its edge, and its target put in the queue at first sight.\<close>

definition followRef :: "pdfDoc \<Rightarrow> revBfsEntry \<Rightarrow> int \<Rightarrow> int \<Rightarrow> string \<Rightarrow> revState \<Rightarrow> revState" where
  "followRef doc src num gen path st0 =
     (let st = recordEdge doc src (num, gen) path st0 in
      if (num, gen) \<in> set (rvVisited st) then st
      else (let st1 = st\<lparr>rvVisited := (num, gen) # rvVisited st\<rparr>;
                resolved = safeDeref doc (PRef num gen)
            in if resolved = PNull then st1
               else st1\<lparr>rvQueue := rvQueue st1 @ [queuedEntry num gen resolved (joinPath (rbPathFromRoot src) path)]\<rparr>))"

section \<open>Scanning\<close>

lemma dictGet_size_list: "k \<in> set (dictKeys d) \<Longrightarrow> size (dictGet d k) < Suc (size_list (size_prod (\<lambda>_. 0) size) d + n)"
  using dict_size [OF dictGet_mem, of k d n] .

lemma enumerate_size: "(i, x) \<in> set (enumerate n xs) \<Longrightarrow> size x < size_list size xs"
  by (induction xs arbitrary: n) (auto simp: less_Suc_eq trans_less_add2)

function
  scanContainerForRefs :: "pdfDoc \<Rightarrow> revBfsEntry \<Rightarrow> pdfObj \<Rightarrow> string \<Rightarrow> revState \<Rightarrow> revState" and
  handleValueForRefs :: "pdfDoc \<Rightarrow> revBfsEntry \<Rightarrow> pdfObj \<Rightarrow> string \<Rightarrow> revState \<Rightarrow> revState" where
  "scanContainerForRefs doc src v pathPrefix st =
     (case v of
        PDict d \<Rightarrow> fold (\<lambda>k. handleValueForRefs doc src (dictGet d k) (joinPath pathPrefix (''/'' @ k))) (dictKeys d) st
      | PStream sk d \<Rightarrow> fold (\<lambda>k. handleValueForRefs doc src (dictGet d k) (joinPath pathPrefix (''/'' @ k))) (dictKeys d) st
      | PArray xs \<Rightarrow> fold (\<lambda>(i, x). handleValueForRefs doc src x (joinPath pathPrefix (''['' @ showNat i @ '']''))) (enumerate 0 xs) st
      | _ \<Rightarrow> st)"
| "handleValueForRefs doc src val path st =
     (case asRef val of
        Some (num, gen) \<Rightarrow> followRef doc src num gen path st
      | None \<Rightarrow> if isContainer val then scanContainerForRefs doc src val path st else st)"
  by pat_completeness auto
termination scanContainerForRefs
  by (relation "measure (\<lambda>x. case x of Inl (_, _, v, _, _) \<Rightarrow> 2 * size v | Inr (_, _, v, _, _) \<Rightarrow> Suc (2 * size v))")
    (auto dest!: dictGet_size_list [where n = 0] enumerate_size simp del: set_dictKeys)

declare scanContainerForRefs.simps [simp del] handleValueForRefs.simps [simp del]

partial_function (option) revLoop :: "pdfDoc \<Rightarrow> revState \<Rightarrow> revState option" where
  [code]: "revLoop doc st =
     (case rvQueue st of
        [] \<Rightarrow> Some st
      | entry # queue \<Rightarrow> revLoop doc (scanContainerForRefs doc entry (rbObj entry) [] (st\<lparr>rvQueue := queue\<rparr>)))"

section \<open>Order and labels\<close>

definition parseObjGenR :: "string \<Rightarrow> (int \<times> int) option" where
  "parseObjGenR s =
     (case strFields s of
        [a, b, c] \<Rightarrow> if c \<noteq> ''R'' then None
          else (case atoi a of None \<Rightarrow> None | Some n \<Rightarrow> (case atoi b of None \<Rightarrow> None | Some g \<Rightarrow> Some (n, g)))
      | _ \<Rightarrow> None)"

definition refLess :: "string \<Rightarrow> string \<Rightarrow> int" where
  "refLess a b =
     (case (parseObjGenR a, parseObjGenR b) of
        (Some (an, ag), Some (bn, bg)) \<Rightarrow> if an \<noteq> bn then goCompare an bn else goCompare ag bg
      | _ \<Rightarrow> goCompare a b)"

definition compareRefs :: "reverseRef \<Rightarrow> reverseRef \<Rightarrow> int" where
  "compareRefs a b =
     thenCompare (refLess (rrParentRef a) (rrParentRef b))
       (thenCompare (goCompare (rrPath a) (rrPath b)) (goCompare (rrParentNodeID a) (rrParentNodeID b)))"

definition lastDictKey :: "string \<Rightarrow> string" where
  "lastDictKey path =
     (case filter (\<lambda>s. hasPrefix s ''/'') (rev (strFields path)) of [] \<Rightarrow> [] | s # _ \<Rightarrow> drop 1 s)"

definition labelByObj :: "revMap \<Rightarrow> refKey \<Rightarrow> string option" where
  "labelByObj out k =
     (case out k of [] \<Rightarrow> None | r # _ \<Rightarrow> if lastDictKey (rrPath r) = [] then None else Some (lastDictKey (rrPath r)))"

definition fallbackLabel :: "revMap \<Rightarrow> reverseRef \<Rightarrow> reverseRef" where
  "fallbackLabel out r =
     (if rrParentType r \<noteq> None then r
      else (case parseObjGenR (rrParentRef r) of
              None \<Rightarrow> r
            | Some k \<Rightarrow> (case labelByObj out k of None \<Rightarrow> r | Some l \<Rightarrow> r\<lparr>rrParentType := Some l\<rparr>)))"

definition applyParentLabelFallback :: "revMap \<Rightarrow> revMap" where
  "applyParentLabelFallback out = (\<lambda>k. map (fallbackLabel out) (out k))"

section \<open>The build\<close>

definition catalogEntry :: "pdfObj \<Rightarrow> revBfsEntry" where
  "catalogEntry rootDict =
     \<lparr> rbNum = -1, rbGen = -1, rbObj = rootDict, rbParentRef = [], rbParentNodeID = ''root'',
       rbParentType = dictTypeName rootDict, rbPathFromRoot = [] \<rparr>"

definition emptyRevMap :: revMap where "emptyRevMap = (\<lambda>k. [])"

definition initialRevState :: "pdfDoc \<Rightarrow> pdfObj \<Rightarrow> revState" where
  "initialRevState doc rootDict =
     \<lparr> rvOut = emptyRevMap, rvQueue = [catalogEntry rootDict],
       rvVisited = (case catalogIndirectRef doc of None \<Rightarrow> [] | Some k \<Rightarrow> [k]) \<rparr>"

text \<open>\<open>None\<close>: the walk does not end; \<open>Inl\<close>: a panic.\<close>

definition buildReverseRefs :: "pdfDoc \<Rightarrow> (string + revMap) option" where
  "buildReverseRefs doc =
     (case docCatalog doc of
        DPanic p \<Rightarrow> Some (Inl p)
      | DErr e \<Rightarrow> Some (Inr emptyRevMap)
      | DObj rootDict \<Rightarrow>
          if rootDict = PNull then Some (Inr emptyRevMap)
          else map_option (\<lambda>st. Inr (applyParentLabelFallback (\<lambda>k. sortFunc compareRefs (rvOut st k))))
                 (revLoop doc (initialRevState doc rootDict)))"

text \<open>The fields of the document that hold the index; the \<^verbatim>\<open>Once\<close> is \<open>riDone\<close>.\<close>

record revIndex =
  riDone :: bool
  riRefs :: revMap
  riBuildFailed :: bool

definition newRevIndex :: revIndex where
  "newRevIndex = \<lparr> riDone = False, riRefs = emptyRevMap, riBuildFailed = False \<rparr>"

definition buildReverseRefsOnce :: "pdfDoc \<Rightarrow> revIndex \<Rightarrow> revIndex option" where
  "buildReverseRefsOnce doc idx =
     (if riDone idx then Some idx
      else map_option (\<lambda>r. case r of
               Inl p \<Rightarrow> \<lparr> riDone = True, riRefs = emptyRevMap, riBuildFailed = True \<rparr>
             | Inr m \<Rightarrow> \<lparr> riDone = True, riRefs = m, riBuildFailed = riBuildFailed idx \<rparr>)
             (buildReverseRefs doc))"

datatype revError = ErrReverseRefIndexUnavailable

definition lookupReverseRefs :: "revIndex \<Rightarrow> string \<Rightarrow> revError + reverseRef list" where
  "lookupReverseRefs idx nodeID =
     (if riBuildFailed idx then Inl ErrReverseRefIndexUnavailable
      else if \<not> hasPrefix nodeID ''obj:'' then Inr []
      else (case parseNodeID nodeID of (kind, parentID, lastPart) \<Rightarrow>
        if kind \<noteq> ''obj'' then Inr []
        else (case atoi parentID of
                None \<Rightarrow> Inr []
              | Some gen \<Rightarrow> (case atoi lastPart of None \<Rightarrow> Inr [] | Some num \<Rightarrow> Inr (riRefs idx (num, gen))))))"

definition GetReverseRefs :: "pdfDoc \<Rightarrow> revIndex \<Rightarrow> string \<Rightarrow> ((revError + reverseRef list) \<times> revIndex) option" where
  "GetReverseRefs doc idx nodeID =
     map_option (\<lambda>idx'. (lookupReverseRefs idx' nodeID, idx')) (buildReverseRefsOnce doc idx)"

end
