(* ===== verification/ReverseRefsSpec.thy ===== *)
theory ReverseRefsSpec
  imports ReverseRefs ObjectGraph
begin

text \<open>
  What the index of inbound references holds: the walk ends, and the rows of an object are exactly the places
  that refer to it, in every object the catalog reaches.
\<close>

section \<open>The references of one object and where they stand\<close>

function
  refPaths :: "string \<Rightarrow> pdfObj \<Rightarrow> (string \<times> refKey) list" and
  valuePaths :: "string \<Rightarrow> pdfObj \<Rightarrow> (string \<times> refKey) list" where
  "refPaths pfx v =
     (case v of
        PDict d \<Rightarrow> concat (map (\<lambda>k. valuePaths (joinPath pfx (''/'' @ k)) (dictGet d k)) (dictKeys d))
      | PStream sk d \<Rightarrow> concat (map (\<lambda>k. valuePaths (joinPath pfx (''/'' @ k)) (dictGet d k)) (dictKeys d))
      | PArray xs \<Rightarrow> concat (map (\<lambda>(i, x). valuePaths (joinPath pfx (''['' @ showNat i @ '']'')) x) (enumerate 0 xs))
      | _ \<Rightarrow> [])"
| "valuePaths path val =
     (case asRef val of Some k \<Rightarrow> [(path, k)] | None \<Rightarrow> if isContainer val then refPaths path val else [])"
  by pat_completeness auto
termination refPaths
  by (relation "measure (\<lambda>x. case x of Inl (_, v) \<Rightarrow> 2 * size v | Inr (_, v) \<Rightarrow> Suc (2 * size v))")
    (auto dest!: dictGet_size_list [where n = 0] enumerate_size simp del: set_dictKeys)

declare refPaths.simps [simp del] valuePaths.simps [simp del]

definition followAll :: "pdfDoc \<Rightarrow> revBfsEntry \<Rightarrow> (string \<times> refKey) list \<Rightarrow> revState \<Rightarrow> revState" where
  "followAll doc src = fold (\<lambda>(p, n, g). followRef doc src n g p)"

lemma followAll_simps [simp]: "followAll doc src [] st = st"
  "followAll doc src ((p, n, g) # es) st = followAll doc src es (followRef doc src n g p st)"
  "followAll doc src (es @ fs) st = followAll doc src fs (followAll doc src es st)"
  by (simp_all add: followAll_def)

lemma fold_followAll:
  "(\<And>x st. x \<in> set xs \<Longrightarrow> h x st = followAll doc src (es x) st) \<Longrightarrow> fold h xs st = followAll doc src (concat (map es xs)) st"
  by (induction xs arbitrary: st) simp_all

text \<open>The recursion over nested containers is a loop over the references of the object.\<close>

lemma scan_followAll:
  "scanContainerForRefs doc src v pfx st = followAll doc src (refPaths pfx v) st"
  "handleValueForRefs doc src v pfx st = followAll doc src (valuePaths pfx v) st"
proof (induction doc src v pfx st and doc src v pfx st rule: scanContainerForRefs_handleValueForRefs.induct)
  case (1 doc src v pfx st)
  have d: "fold (\<lambda>k. handleValueForRefs doc src (dictGet d k) (joinPath pfx (''/'' @ k))) (dictKeys d) st
      = followAll doc src (concat (map (\<lambda>k. valuePaths (joinPath pfx (''/'' @ k)) (dictGet d k)) (dictKeys d))) st"
    if "v = PDict d \<or> (\<exists>sk. v = PStream sk d)" for d
    by (rule fold_followAll) (use 1 that in \<open>auto simp del: set_dictKeys\<close>)
  show ?case
  proof (cases v)
    case (PArray xs)
    then show ?thesis using 1(1) [OF PArray]
      by (auto simp: scanContainerForRefs.simps refPaths.simps case_prod_beta intro!: fold_followAll)
  qed (use d in \<open>simp_all add: scanContainerForRefs.simps refPaths.simps\<close>)
next
  case (2 doc src val path st)
  then show ?case
    by (cases val) (simp_all add: handleValueForRefs.simps valuePaths.simps followAll_def)
qed

section \<open>One object scanned\<close>

definition contentOf :: "pdfDoc \<Rightarrow> refKey \<Rightarrow> pdfObj" where
  "contentOf doc k = (case k of (n, g) \<Rightarrow> refContent doc n g)"

lemma contentOf_safeDeref: "safeDeref doc (PRef n g) = contentOf doc (n, g)"
  by (simp add: contentOf_def safeDeref_def refContent_def)

text \<open>The row one edge gives, when the edge is recorded.\<close>

definition edgeRow :: "pdfDoc \<Rightarrow> revBfsEntry \<Rightarrow> string \<Rightarrow> reverseRef" where
  "edgeRow doc src path =
     (if rbParentRef src \<noteq> [] then
        \<lparr> rrParentNodeID = rbParentNodeID src, rrParentRef = rbParentRef src, rrParentType = rbParentType src,
          rrPath = path, rrParentPath = rbPathFromRoot src \<rparr>
      else (case catalogIndirectRef doc of
              None \<Rightarrow> undefined
            | Some (n, g) \<Rightarrow> \<lparr> rrParentNodeID = nodeIDForRef n g, rrParentRef = refString n g,
                rrParentType = rbParentType src, rrPath = path, rrParentPath = [] \<rparr>))"

definition goodSource :: "pdfDoc \<Rightarrow> revBfsEntry \<Rightarrow> bool" where
  "goodSource doc src \<longleftrightarrow> rbParentRef src \<noteq> [] \<or> (rbParentNodeID src = ''root'' \<and> catalogIndirectRef doc \<noteq> None)"

fun newEntries :: "pdfDoc \<Rightarrow> revBfsEntry \<Rightarrow> (string \<times> refKey) list \<Rightarrow> refKey list \<Rightarrow> revBfsEntry list" where
  "newEntries doc src [] visited = []"
| "newEntries doc src ((p, n, g) # es) visited =
     (if (n, g) \<in> set visited then newEntries doc src es visited
      else (if contentOf doc (n, g) = PNull then []
            else [queuedEntry n g (contentOf doc (n, g)) (joinPath (rbPathFromRoot src) p)])
        @ newEntries doc src es ((n, g) # visited))"

lemma followRef_effect:
  assumes "goodSource doc src"
  shows "rvOut (followRef doc src n g p st) = (rvOut st)((n, g) := rvOut st (n, g) @ [edgeRow doc src p])"
    "rvVisited (followRef doc src n g p st) = (if (n, g) \<in> set (rvVisited st) then rvVisited st else (n, g) # rvVisited st)"
    "rvQueue (followRef doc src n g p st) = rvQueue st @ newEntries doc src [(p, n, g)] (rvVisited st)"
  using assms
  by (auto simp: followRef_def Let_def recordEdge_def addRef_def recordCatalogChildEdge_def edgeRow_def goodSource_def
      contentOf_safeDeref split: option.split)

lemma followAll_effect:
  assumes "goodSource doc src"
  shows "rvOut (followAll doc src es st) k = rvOut st k @ [edgeRow doc src p. (p, k') \<leftarrow> es, k' = k]"
    "set (rvVisited (followAll doc src es st)) = set (rvVisited st) \<union> snd ` set es"
    "rvQueue (followAll doc src es st) = rvQueue st @ newEntries doc src es (rvVisited st)"
proof -
  have "rvOut (followAll doc src es st) k = rvOut st k @ [edgeRow doc src p. (p, k') \<leftarrow> es, k' = k]
    \<and> set (rvVisited (followAll doc src es st)) = set (rvVisited st) \<union> snd ` set es
    \<and> rvQueue (followAll doc src es st) = rvQueue st @ newEntries doc src es (rvVisited st)"
  proof (induction es arbitrary: st)
    case (Cons e es)
    obtain p n g where e: "e = (p, n, g)" by (cases e) auto
    show ?case unfolding e by (simp add: Cons.IH followRef_effect [OF assms] insert_absorb)
  qed simp
  then show "rvOut (followAll doc src es st) k = rvOut st k @ [edgeRow doc src p. (p, k') \<leftarrow> es, k' = k]"
    "set (rvVisited (followAll doc src es st)) = set (rvVisited st) \<union> snd ` set es"
    "rvQueue (followAll doc src es st) = rvQueue st @ newEntries doc src es (rvVisited st)" by auto
qed

definition entryKey :: "pdfDoc \<Rightarrow> revBfsEntry \<Rightarrow> refKey" where
  "entryKey doc e = (if rbParentRef e = [] then the (catalogIndirectRef doc) else (rbNum e, rbGen e))"

lemma entryKey_queued [simp]: "entryKey doc (queuedEntry n g v p) = (n, g)"
  by (simp add: entryKey_def queuedEntry_def refString_def)

lemma newEntries_fresh: "entryKey doc ` set (newEntries doc src es vis) \<inter> set vis = {}"
  by (induction doc src es vis rule: newEntries.induct) auto

lemma newEntries_spec:
  "e \<in> set (newEntries doc src es vis) \<Longrightarrow> \<exists>p n g. (p, n, g) \<in> set es \<and> (n, g) \<notin> set vis \<and> contentOf doc (n, g) \<noteq> PNull
      \<and> e = queuedEntry n g (contentOf doc (n, g)) (joinPath (rbPathFromRoot src) p)"
  "distinct (map (entryKey doc) (newEntries doc src es vis))"
  "k \<in> snd ` set es \<Longrightarrow> k \<notin> set vis \<Longrightarrow> contentOf doc k \<noteq> PNull \<Longrightarrow> k \<in> entryKey doc ` set (newEntries doc src es vis)"
proof -
  show a: "e \<in> set (newEntries doc src es vis) \<Longrightarrow> \<exists>p n g. (p, n, g) \<in> set es \<and> (n, g) \<notin> set vis \<and> contentOf doc (n, g) \<noteq> PNull
      \<and> e = queuedEntry n g (contentOf doc (n, g)) (joinPath (rbPathFromRoot src) p)" for e vis
  proof (induction doc src es vis rule: newEntries.induct)
    case (2 doc src p n g es vis)
    then show ?case by (fastforce split: if_split_asm)
  qed simp
  show "distinct (map (entryKey doc) (newEntries doc src es vis))"
  proof (induction doc src es vis rule: newEntries.induct)
    case (2 doc src p n g es vis)
    then show ?case using newEntries_fresh [of doc src es "(n, g) # vis"] by auto
  qed simp
  show "k \<in> snd ` set es \<Longrightarrow> k \<notin> set vis \<Longrightarrow> contentOf doc k \<noteq> PNull \<Longrightarrow> k \<in> entryKey doc ` set (newEntries doc src es vis)"
  proof (induction doc src es vis rule: newEntries.induct)
    case (2 doc src p n g es vis)
    show ?case
    proof (cases "k = (n, g)")
      case True
      with "2.prems" show ?thesis by simp
    next
      case False
      then have "k \<in> snd ` set es" "k \<notin> set ((n, g) # vis)" using "2.prems" by auto
      with "2.IH" "2.prems"(2,3) show ?thesis by (cases "(n, g) \<in> set vis") (simp_all add: image_Un)
    qed
  qed simp
qed

section \<open>The walk\<close>

lemma newEntries_none: "snd ` set es \<subseteq> set vis \<Longrightarrow> newEntries doc src es vis = []"
  by (induction doc src es vis rule: newEntries.induct) simp_all

text \<open>The objects the catalog reaches, and the paths that lead to them.\<close>

inductive rootPath :: "pdfDoc \<Rightarrow> refKey \<Rightarrow> string \<Rightarrow> refKey \<Rightarrow> bool" for doc rk where
  rp_root: "rootPath doc rk [] rk"
| rp_step: "rootPath doc rk q s \<Longrightarrow> (p, k) \<in> set (refPaths [] (contentOf doc s)) \<Longrightarrow> rootPath doc rk (joinPath q p) k"

inductive revSource :: "pdfDoc \<Rightarrow> refKey \<Rightarrow> refKey \<Rightarrow> bool" for doc rk where
  rs_root: "revSource doc rk rk"
| rs_step: "revSource doc rk s \<Longrightarrow> (p, k) \<in> set (refPaths [] (contentOf doc s)) \<Longrightarrow> revSource doc rk k"

lemma rootPath_source: "rootPath doc rk q s \<Longrightarrow> revSource doc rk s"
  by (induction rule: rootPath.induct) (auto intro: revSource.intros)

definition rowsFor :: "pdfDoc \<Rightarrow> revBfsEntry \<Rightarrow> refKey \<Rightarrow> reverseRef list" where
  "rowsFor doc e k = [edgeRow doc e p. (p, k') \<leftarrow> refPaths [] (rbObj e), k' = k]"

definition goodEntry :: "pdfDoc \<Rightarrow> refKey \<Rightarrow> revBfsEntry \<Rightarrow> bool" where
  "goodEntry doc rk e \<longleftrightarrow> goodSource doc e \<and> rbObj e = contentOf doc (entryKey doc e)
     \<and> rootPath doc rk (rbPathFromRoot e) (entryKey doc e)
     \<and> (\<forall>p. edgeRow doc e p = \<lparr> rrParentNodeID = nodeIDForRef (fst (entryKey doc e)) (snd (entryKey doc e)),
          rrParentRef = refString (fst (entryKey doc e)) (snd (entryKey doc e)),
          rrParentType = dictTypeName (contentOf doc (entryKey doc e)), rrPath = p, rrParentPath = rbPathFromRoot e \<rparr>)"

text \<open>\<open>ps\<close> are the entries already scanned.\<close>

definition revInv :: "pdfDoc \<Rightarrow> refKey \<Rightarrow> revBfsEntry list \<Rightarrow> revState \<Rightarrow> bool" where
  "revInv doc rk ps st \<longleftrightarrow>
     list_all (goodEntry doc rk) (ps @ rvQueue st) \<and> distinct (map (entryKey doc) (ps @ rvQueue st))
     \<and> (\<forall>k. rvOut st k = concat (map (\<lambda>e. rowsFor doc e k) ps))
     \<and> set (rvVisited st) = insert rk (\<Union>e \<in> set ps. snd ` set (refPaths [] (rbObj e)))
     \<and> (\<forall>k \<in> set (rvVisited st). contentOf doc k = PNull \<or> k \<in> entryKey doc ` set (ps @ rvQueue st))
     \<and> entryKey doc ` set (ps @ rvQueue st) \<subseteq> set (rvVisited st)"

definition revSetting :: "pdfDoc \<Rightarrow> refKey \<Rightarrow> pdfObj \<Rightarrow> bool" where
  "revSetting doc rk c \<longleftrightarrow> plainDoc doc \<and> docCatalog doc = DObj c \<and> c \<noteq> PNull \<and> docRoot doc = Some rk"

lemma setting_root: "revSetting doc rk c \<Longrightarrow> contentOf doc rk = c" "revSetting doc rk c \<Longrightarrow> catalogIndirectRef doc = Some rk"
  by (cases rk; auto simp: revSetting_def plainDoc_def contentOf_def refContent_def catalogIndirectRef_def)+

lemma goodEntry_queued:
  assumes "rootPath doc rk q (n, g)"
  shows "goodEntry doc rk (queuedEntry n g (contentOf doc (n, g)) q)"
  using assms unfolding goodEntry_def entryKey_queued
  by (auto simp: queuedEntry_def goodSource_def edgeRow_def refString_def)

lemma goodEntry_catalog: "revSetting doc rk c \<Longrightarrow> goodEntry doc rk (catalogEntry c)"
  using setting_root [of doc rk c] rp_root [of doc rk]
  by (cases rk) (auto simp: goodEntry_def goodSource_def entryKey_def catalogEntry_def edgeRow_def)

lemma revInv_initial: "revSetting doc rk c \<Longrightarrow> revInv doc rk [] (initialRevState doc c)"
  using setting_root [of doc rk c] goodEntry_catalog [of doc rk c]
  by (simp add: revInv_def initialRevState_def emptyRevMap_def entryKey_def catalogEntry_def)

lemma revInv_key:
  "revInv doc rk ps st \<Longrightarrow> k \<in> set (rvVisited st) \<Longrightarrow> contentOf doc k \<noteq> PNull \<Longrightarrow> k \<in> entryKey doc ` set (ps @ rvQueue st)"
  unfolding revInv_def by blast

lemma revInv_step:
  assumes "revInv doc rk ps st" "rvQueue st = e # q"
  shows "revInv doc rk (ps @ [e]) (followAll doc e (refPaths [] (rbObj e)) (st\<lparr>rvQueue := q\<rparr>))"
proof -
  let ?es = "refPaths [] (rbObj e)" and ?s = "st\<lparr>rvQueue := q\<rparr>"
  let ?new = "newEntries doc e ?es (rvVisited st)"
  from assms have good: "goodEntry doc rk e" and gs: "goodSource doc e" by (auto simp: revInv_def goodEntry_def)
  note eff = followAll_effect [OF gs, of ?es ?s, simplified]
  have keys: "(ps @ [e]) @ rvQueue (followAll doc e ?es ?s) = (ps @ rvQueue st) @ ?new" by (simp add: eff assms(2))
  have new: "goodEntry doc rk x" if "x \<in> set ?new" for x
  proof -
    note w = newEntries_spec(1) [OF that]
    then obtain p n g where x: "(p, n, g) \<in> set ?es" "x = queuedEntry n g (contentOf doc (n, g)) (joinPath (rbPathFromRoot e) p)"
      by blast
    have "rootPath doc rk (joinPath (rbPathFromRoot e) p) (n, g)"
      using good x(1) by (auto simp: goodEntry_def intro: rp_step)
    with goodEntry_queued x(2) show ?thesis by blast
  qed
  have sub: "entryKey doc ` set ?new \<subseteq> snd ` set ?es" using newEntries_spec(1) [of _ doc e ?es "rvVisited st"] by force
  have keysub: "entryKey doc ` set (ps @ rvQueue st) \<subseteq> set (rvVisited st)" using assms(1) unfolding revInv_def by blast
  have fresh: "entryKey doc ` set ?new \<inter> entryKey doc ` set (ps @ rvQueue st) = {}"
    using newEntries_fresh [of doc e ?es "rvVisited st"] keysub by blast
  have cover: "contentOf doc k = PNull \<or> k \<in> entryKey doc ` set ((ps @ rvQueue st) @ ?new)"
    if "k \<in> set (rvVisited st) \<union> snd ` set ?es" for k
    using that newEntries_spec(3) [of k ?es "rvVisited st" doc e] revInv_key [OF assms(1), of k]
    unfolding set_append image_Un by blast
  show ?thesis
    unfolding revInv_def keys
  proof (intro conjI)
    show "list_all (goodEntry doc rk) ((ps @ rvQueue st) @ ?new)"
      using assms(1) new by (auto simp: revInv_def list_all_iff)
    show "distinct (map (entryKey doc) ((ps @ rvQueue st) @ ?new))"
      using assms(1) newEntries_spec(2) [of doc e ?es] fresh by (auto simp: revInv_def)
    show "\<forall>k. rvOut (followAll doc e ?es ?s) k = concat (map (\<lambda>e. rowsFor doc e k) (ps @ [e]))"
      using assms(1) by (simp add: eff revInv_def rowsFor_def)
    show "set (rvVisited (followAll doc e ?es ?s)) = insert rk (\<Union>e \<in> set (ps @ [e]). snd ` set (refPaths [] (rbObj e)))"
      using assms(1) by (simp add: eff revInv_def Un_commute)
    show "\<forall>k \<in> set (rvVisited (followAll doc e ?es ?s)). contentOf doc k = PNull \<or> k \<in> entryKey doc ` set ((ps @ rvQueue st) @ ?new)"
      using cover by (simp only: eff) blast
    show "entryKey doc ` set ((ps @ rvQueue st) @ ?new) \<subseteq> set (rvVisited (followAll doc e ?es ?s))"
      using keysub sub unfolding eff set_append image_Un by blast
  qed
qed

lemma visited_source: "revInv doc rk ps st \<Longrightarrow> k \<in> set (rvVisited st) \<Longrightarrow> revSource doc rk k"
  by (auto simp: revInv_def list_all_iff goodEntry_def intro: rs_root rs_step [OF rootPath_source])

lemma refPaths_null [simp]: "refPaths p PNull = []"
  by (simp add: refPaths.simps)

lemma finite_sources: "plainDoc doc \<Longrightarrow> finite {k. revSource doc rk k}"
proof (rule finite_subset)
  assume p: "plainDoc doc"
  show "{k. revSource doc rk k} \<subseteq> insert rk (\<Union>n \<in> set (xrefNums doc). snd ` set (refPaths [] (contentOf doc (n, 0))))"
  proof (rule subsetI)
    fix k assume "k \<in> {k. revSource doc rk k}"
    then have "revSource doc rk k" by simp
    then show "k \<in> insert rk (\<Union>n \<in> set (xrefNums doc). snd ` set (refPaths [] (contentOf doc (n, 0))))"
    proof (cases rule: revSource.cases)
      case (rs_step s q)
      obtain n g where s: "s = (n, g)" by (cases s)
      have "n \<in> set (xrefNums doc)"
      proof (rule ccontr)
        assume "n \<notin> set (xrefNums doc)"
        then have "contentOf doc s = PNull" by (simp add: s contentOf_def refContent_def lookupRef_def)
        with rs_step(2) show False by simp
      qed
      moreover have "contentOf doc s = contentOf doc (n, 0)" using refContent_gen [OF p] by (simp add: s contentOf_def)
      ultimately show ?thesis using rs_step(2) by force
    qed simp
  qed
qed simp

lemma revLoop_ends:
  assumes "plainDoc doc"
  shows "revInv doc rk ps st \<Longrightarrow> \<exists>ps' st'. revLoop doc st = Some st' \<and> revInv doc rk ps' st' \<and> rvQueue st' = []"
proof (induction st arbitrary: ps rule: wf_induct_rule
    [OF wf_measures [of "[\<lambda>st. card ({k. revSource doc rk k} - set (rvVisited st)), \<lambda>st. length (rvQueue st)]"]])
  case (1 st)
  show ?case
  proof (cases "rvQueue st")
    case Nil
    then have "revLoop doc st = Some st" by (subst revLoop.simps) (simp)
    with 1(2) Nil show ?thesis by blast
  next
    case (Cons e q)
    let ?st = "followAll doc e (refPaths [] (rbObj e)) (st\<lparr>rvQueue := q\<rparr>)"
    have inv: "revInv doc rk (ps @ [e]) ?st" by (rule revInv_step [OF 1(2) Cons])
    have gs: "goodSource doc e" using 1(2) Cons by (simp add: revInv_def goodEntry_def)
    have eff: "set (rvVisited ?st) = set (rvVisited st) \<union> snd ` set (refPaths [] (rbObj e))"
      "rvQueue ?st = q @ newEntries doc e (refPaths [] (rbObj e)) (rvVisited st)"
      using followAll_effect(2,3) [OF gs, of "refPaths [] (rbObj e)" "st\<lparr>rvQueue := q\<rparr>"] by simp_all
    have "(?st, st) \<in> measures [\<lambda>st. card ({k. revSource doc rk k} - set (rvVisited st)), \<lambda>st. length (rvQueue st)]"
    proof (cases "snd ` set (refPaths [] (rbObj e)) \<subseteq> set (rvVisited st)")
      case True
      then have "newEntries doc e (refPaths [] (rbObj e)) (rvVisited st) = []"
        by (rule newEntries_none)
      moreover have "set (rvVisited ?st) = set (rvVisited st)" using True unfolding eff(1) by (rule Un_absorb2)
      ultimately show ?thesis using eff(2) Cons by simp
    next
      case False
      then obtain k where k: "k \<in> set (rvVisited ?st)" "k \<notin> set (rvVisited st)" unfolding eff(1) by blast
      moreover have "revSource doc rk k" by (rule visited_source [OF inv k(1)])
      moreover have "set (rvVisited st) \<subseteq> set (rvVisited ?st)" unfolding eff(1) by (rule Un_upper1)
      ultimately have "{k. revSource doc rk k} - set (rvVisited ?st) \<subset> {k. revSource doc rk k} - set (rvVisited st)" by blast
      then have "card ({k. revSource doc rk k} - set (rvVisited ?st)) < card ({k. revSource doc rk k} - set (rvVisited st))"
        by (rule psubset_card_mono [OF finite_Diff [OF finite_sources [OF assms]]])
      then show ?thesis by simp
    qed
    moreover have "revLoop doc st = revLoop doc ?st" by (subst revLoop.simps) (simp add: Cons scan_followAll)
    ultimately show ?thesis using 1(1) [OF _ inv] by simp
  qed
qed

lemma revInv_done:
  assumes "revSetting doc rk c" "revInv doc rk ps st" "rvQueue st = []"
  shows "revSource doc rk k \<Longrightarrow> k \<in> set (rvVisited st)"
    "revSource doc rk s \<Longrightarrow> contentOf doc s \<noteq> PNull \<Longrightarrow> \<exists>e \<in> set ps. entryKey doc e = s"
proof -
  show v: "revSource doc rk k \<Longrightarrow> k \<in> set (rvVisited st)" for k
  proof (induction rule: revSource.induct)
    case rs_root
    from assms(2) show ?case by (simp add: revInv_def)
  next
    case (rs_step s p k)
    have "contentOf doc s \<noteq> PNull" using rs_step.hyps(2) refPaths_null by auto
    with revInv_key [OF assms(2) rs_step.IH] assms(3) obtain e where "e \<in> set ps" "s = entryKey doc e" by auto
    moreover from this have "rbObj e = contentOf doc s" using assms(2) by (auto simp: revInv_def goodEntry_def list_all_iff)
    moreover have "set (rvVisited st) = insert rk (\<Union>e \<in> set ps. snd ` set (refPaths [] (rbObj e)))"
      using assms(2) unfolding revInv_def by blast
    ultimately show ?case using rs_step.hyps(2) by force
  qed
  show "revSource doc rk s \<Longrightarrow> contentOf doc s \<noteq> PNull \<Longrightarrow> \<exists>e \<in> set ps. entryKey doc e = s"
    using revInv_key [OF assms(2) v, of s] assms(3) by (cases s) auto
qed

text \<open>
  Claim C40. The walk of the whole object graph returns on every document with a catalog, cycles and shared objects
  included: its loop ends with an empty queue, having put exactly the objects the catalog reaches on its
  visited list, of which there are finitely many.
\<close>

theorem reverse_walk_ends:
  assumes "revSetting doc rk c"
  shows "\<exists>st. revLoop doc (initialRevState doc c) = Some st \<and> rvQueue st = [] \<and>
    set (rvVisited st) = {k. revSource doc rk k} \<and> finite {k. revSource doc rk k}"
proof -
  have p: "plainDoc doc" using assms by (simp add: revSetting_def)
  from revLoop_ends [OF p revInv_initial [OF assms]] obtain ps st where
    w: "revLoop doc (initialRevState doc c) = Some st" "revInv doc rk ps st" "rvQueue st = []" by blast
  with visited_source [OF w(2)] revInv_done(1) [OF assms w(2,3)] finite_sources [OF p] show ?thesis by blast
qed

section \<open>The rows of one object\<close>

definition rowKey :: "reverseRef \<Rightarrow> (int \<times> int) \<times> string \<times> string" where
  "rowKey r = (the (parseObjGenR (rrParentRef r)), rrPath r, rrParentNodeID r)"

lemma parse_refString: "inInt64 n \<Longrightarrow> inInt64 g \<Longrightarrow> parseObjGenR (refString n g) = Some (n, g)"
  by (simp add: parseObjGenR_def refString_def strFields_ref [simplified] atoi_showInt)

lemma compareRefs_key:
  assumes "parseObjGenR (rrParentRef a) = Some k" "parseObjGenR (rrParentRef b) = Some l"
  shows "compareRefs a b \<le> 0 \<longleftrightarrow> rowKey a \<le> rowKey b"
  using assms by (cases k; cases l) (auto simp: compareRefs_def thenCompare_def refLess_def rowKey_def less_eq_prod_def goCompare_def)

lemma fallbackLabel_same [simp]: "rrParentRef (fallbackLabel m r) = rrParentRef r" "rrPath (fallbackLabel m r) = rrPath r"
  "rrParentNodeID (fallbackLabel m r) = rrParentNodeID r" "rrParentPath (fallbackLabel m r) = rrParentPath r"
  "rrParentType r \<noteq> None \<Longrightarrow> rrParentType (fallbackLabel m r) = rrParentType r"
  by (auto simp: fallbackLabel_def split: option.split)

lemma rowKey_fallback [simp]: "rowKey (fallbackLabel m r) = rowKey r"
  by (simp add: rowKey_def)

lemma sort_key_one_parent:
  assumes "\<And>r. r \<in> set rs \<Longrightarrow> rrParentRef r = a \<and> rrParentNodeID r = b"
  shows "map rrPath (sort_key rowKey rs) = sort (map rrPath rs)"
proof -
  have i: "map rrPath (insort_key rowKey r qs) = insort_key (\<lambda>x. x) (rrPath r) (map rrPath qs)"
    if "r \<in> set rs" "set qs \<subseteq> set rs" for r qs
    using that(2)
  proof (induction qs)
    case (Cons q qs)
    then have "rowKey r \<le> rowKey q \<longleftrightarrow> rrPath r \<le> rrPath q"
      using assms [OF that(1)] assms [of q] by (auto simp: rowKey_def less_eq_prod_def)
    with Cons show ?case by simp
  qed simp
  have "map rrPath (sort_key rowKey qs) = sort (map rrPath qs)" if "set qs \<subseteq> set rs" for qs
    using that
  proof (induction qs)
    case (Cons q qs)
    then show ?case using i [of q "sort_key rowKey qs"] by simp
  qed simp
  then show ?thesis by simp
qed

text \<open>Everything the entries of one walk say of an object, before it is sorted.\<close>

lemma walk_rows:
  assumes "revSetting doc rk c"
  shows "\<exists>st ps. revLoop doc (initialRevState doc c) = Some st \<and> list_all (goodEntry doc rk) ps \<and> distinct (map (entryKey doc) ps)
    \<and> (\<forall>k. rvOut st k = concat (map (\<lambda>e. rowsFor doc e k) ps))
    \<and> (\<forall>s. revSource doc rk s \<and> contentOf doc s \<noteq> PNull \<longrightarrow> (\<exists>e \<in> set ps. entryKey doc e = s))"
proof -
  have "plainDoc doc" using assms by (simp add: revSetting_def)
  from revLoop_ends [OF this revInv_initial [OF assms]] obtain ps st where
    w: "revLoop doc (initialRevState doc c) = Some st" "revInv doc rk ps st" "rvQueue st = []" by blast
  from w(2,3) have "list_all (goodEntry doc rk) ps" "distinct (map (entryKey doc) ps)" "\<forall>k. rvOut st k = concat (map (\<lambda>e. rowsFor doc e k) ps)"
    by (simp_all add: revInv_def)
  with w revInv_done(2) [OF assms w(2,3)] show ?thesis by blast
qed

lemma rowsFor_row:
  assumes "goodEntry doc rk e" "r \<in> set (rowsFor doc e k)"
  shows "rrParentNodeID r = nodeIDForRef (fst (entryKey doc e)) (snd (entryKey doc e))"
    "rrParentRef r = refString (fst (entryKey doc e)) (snd (entryKey doc e))"
    "rrParentType r = dictTypeName (contentOf doc (entryKey doc e))"
    "rootPath doc rk (rrParentPath r) (entryKey doc e)"
  using assms by (auto simp: rowsFor_def goodEntry_def)

lemma rowsFor_paths: "goodEntry doc rk e \<Longrightarrow> map rrPath (rowsFor doc e k) = [p. (p, k') \<leftarrow> refPaths [] (contentOf doc (entryKey doc e)), k' = k]"
proof -
  assume g: "goodEntry doc rk e"
  then have "rrPath (edgeRow doc e p) = p" for p by (simp add: goodEntry_def)
  then have "map rrPath [edgeRow doc e p. (p, k') \<leftarrow> es, k' = k] = [p. (p, k') \<leftarrow> es, k' = k]" for es
    by (induction es) auto
  with g show ?thesis by (simp add: rowsFor_def goodEntry_def)
qed

lemma filter_one_key:
  assumes "distinct (map key es)" "\<And>e r. e \<in> set es \<Longrightarrow> r \<in> set (rows e) \<Longrightarrow> Q r \<longleftrightarrow> key e = s"
  shows "filter Q (concat (map rows es)) = concat (map rows (filter (\<lambda>e. key e = s) es))"
  using assms(2)
proof (induction es)
  case (Cons e es)
  have "filter Q (rows e) = (if key e = s then rows e else [])" using Cons.prems [of e] by (auto intro: filter_True filter_False)
  with Cons show ?case by simp
qed simp

lemma filter_distinct_key: "distinct (map key es) \<Longrightarrow> e \<in> set es \<Longrightarrow> filter (\<lambda>x. key x = key e) es = [e]"
proof (induction es)
  case (Cons x es)
  then show ?case by (cases "x = e") (auto intro!: filter_False simp: image_iff)
qed simp

text \<open>The paths at which \<open>s\<close> refers to \<open>k\<close>.\<close>

definition pathsTo :: "pdfDoc \<Rightarrow> refKey \<Rightarrow> refKey \<Rightarrow> string list" where
  "pathsTo doc s k = [p. (p, k') \<leftarrow> refPaths [] (contentOf doc s), k' = k]"

definition smallSources :: "pdfDoc \<Rightarrow> refKey \<Rightarrow> bool" where
  "smallSources doc rk \<longleftrightarrow> (\<forall>n g. revSource doc rk (n, g) \<longrightarrow> inInt64 n \<and> inInt64 g)"

definition rowFrom :: "pdfDoc \<Rightarrow> refKey \<Rightarrow> reverseRef \<Rightarrow> refKey \<Rightarrow> bool" where
  "rowFrom doc rk r s \<longleftrightarrow> revSource doc rk s \<and> rrParentRef r = refString (fst s) (snd s)
     \<and> rrParentNodeID r = nodeIDForRef (fst s) (snd s) \<and> rootPath doc rk (rrParentPath r) s
     \<and> (dictTypeName (contentOf doc s) = None \<or> rrParentType r = dictTypeName (contentOf doc s))"

lemma sorted_rows_paths:
  assumes "list_all (goodEntry doc rk) ps" "distinct (map (entryKey doc) ps)"
    and "revSource doc rk s \<and> contentOf doc s \<noteq> PNull \<longrightarrow> (\<exists>e \<in> set ps. entryKey doc e = s)" "revSource doc rk s"
  shows "map rrPath (sort_key rowKey (filter (\<lambda>r. rrParentRef r = refString (fst s) (snd s)) (concat (map (\<lambda>e. rowsFor doc e k) ps)))) = sort (pathsTo doc s k)"
proof -
  let ?rs = "filter (\<lambda>r. rrParentRef r = refString (fst s) (snd s)) (concat (map (\<lambda>e. rowsFor doc e k) ps))"
  have m: "rrParentRef r = refString (fst s) (snd s) \<longleftrightarrow> entryKey doc e = s" if "e \<in> set ps" "r \<in> set (rowsFor doc e k)" for e r
    using that assms(1) rowsFor_row(2) [of doc rk e r k] by (auto simp: list_all_iff prod_eq_iff)
  have f: "?rs = concat (map (\<lambda>e. rowsFor doc e k) (filter (\<lambda>e. entryKey doc e = s) ps))"
    by (rule filter_one_key [OF assms(2)]) (rule m)
  have "map rrPath ?rs = pathsTo doc s k"
  proof (cases "contentOf doc s = PNull")
    case True
    have "rowsFor doc e k = []" if "e \<in> set ps" "entryKey doc e = s" for e
      using that assms(1) True by (auto simp: list_all_iff goodEntry_def rowsFor_def)
    then have "?rs = []" unfolding f by auto
    with True show ?thesis by (simp add: pathsTo_def)
  next
    case False
    with assms(3,4) obtain e where e: "e \<in> set ps" "entryKey doc e = s" by blast
    have "?rs = rowsFor doc e k" using filter_distinct_key [OF assms(2) e(1)] e(2) by (simp add: f)
    moreover have "goodEntry doc rk e" using assms(1) e(1) by (simp add: list_all_iff)
    ultimately show ?thesis using rowsFor_paths [of doc rk e k] e(2) by (simp add: pathsTo_def)
  qed
  moreover have "map rrPath (sort_key rowKey ?rs) = sort (map rrPath ?rs)"
  proof (rule sort_key_one_parent)
    fix r assume "r \<in> set ?rs"
    then obtain e where "e \<in> set ps" "r \<in> set (rowsFor doc e k)" "rrParentRef r = refString (fst s) (snd s)" by auto
    with m assms(1) rowsFor_row(1) show "rrParentRef r = refString (fst s) (snd s) \<and> rrParentNodeID r = nodeIDForRef (fst s) (snd s)"
      by (metis list_all_iff)
  qed
  ultimately show ?thesis by simp
qed

lemma reverse_refs_rows:
  assumes "revSetting doc rk c" "smallSources doc rk"
  shows "\<exists>m. buildReverseRefs doc = Some (Inr m) \<and> (\<forall>k. sorted (map rowKey (m k)) \<and> (\<forall>r \<in> set (m k). \<exists>s. rowFrom doc rk r s)
    \<and> (\<forall>s. revSource doc rk s \<longrightarrow> map rrPath (filter (\<lambda>r. rrParentRef r = refString (fst s) (snd s)) (m k)) = sort (pathsTo doc s k)))"
proof -
  obtain st ps where w: "revLoop doc (initialRevState doc c) = Some st" "list_all (goodEntry doc rk) ps" "distinct (map (entryKey doc) ps)"
    "\<And>k. rvOut st k = concat (map (\<lambda>e. rowsFor doc e k) ps)"
    "\<And>s. revSource doc rk s \<and> contentOf doc s \<noteq> PNull \<longrightarrow> (\<exists>e \<in> set ps. entryKey doc e = s)"
    using walk_rows [OF assms(1)] by blast
  let ?sorted = "\<lambda>k. sortFunc compareRefs (rvOut st k)"
  let ?m = "applyParentLabelFallback ?sorted"
  have src: "\<exists>s. revSource doc rk s \<and> rrParentRef r = refString (fst s) (snd s) \<and> rrParentNodeID r = nodeIDForRef (fst s) (snd s)
      \<and> rootPath doc rk (rrParentPath r) s \<and> rrParentType r = dictTypeName (contentOf doc s)" if "r \<in> set (rvOut st k)" for r k
  proof -
    from that w(4) obtain e where e: "e \<in> set ps" "r \<in> set (rowsFor doc e k)" by auto
    then have g: "goodEntry doc rk e" using w(2) by (simp add: list_all_iff)
    then have "revSource doc rk (entryKey doc e)" by (metis goodEntry_def rootPath_source)
    with rowsFor_row [OF g e(2)] show ?thesis by blast
  qed
  have parse: "\<exists>l. parseObjGenR (rrParentRef r) = Some l" if "r \<in> set (rvOut st k)" for r k
    using src [OF that] assms(2) parse_refString unfolding smallSources_def by (metis prod.collapse)
  have sf: "?sorted k = sort_key rowKey (rvOut st k)" for k
    by (rule sortFunc_key) (use parse compareRefs_key in blast)
  have m: "?m k = map (fallbackLabel ?sorted) (sort_key rowKey (rvOut st k))" for k
    by (simp add: applyParentLabelFallback_def sf)
  have "buildReverseRefs doc = Some (Inr ?m)"
    using assms(1) w(1) by (simp add: buildReverseRefs_def revSetting_def)
  moreover have "sorted (map rowKey (?m k))" for k by (simp add: m comp_def)
  moreover have "\<exists>s. rowFrom doc rk r s" if r: "r \<in> set (?m k)" for r k
  proof -
    obtain q where q: "q \<in> set (rvOut st k)" "r = fallbackLabel ?sorted q" using r unfolding m by auto
    obtain s where s: "revSource doc rk s" "rrParentRef q = refString (fst s) (snd s)" "rrParentNodeID q = nodeIDForRef (fst s) (snd s)"
      "rootPath doc rk (rrParentPath q) s" "rrParentType q = dictTypeName (contentOf doc s)" using src [OF q(1)] by blast
    have "dictTypeName (contentOf doc s) = None \<or> rrParentType r = dictTypeName (contentOf doc s)"
      using s(5) q(2) by (metis fallbackLabel_same(5))
    with s q(2) show ?thesis by (auto simp: rowFrom_def)
  qed
  moreover have "map rrPath (filter (\<lambda>r. rrParentRef r = refString (fst s) (snd s)) (?m k)) = sort (pathsTo doc s k)"
    if "revSource doc rk s" for s k
    using sorted_rows_paths [OF w(2,3,5) that, of k]
    unfolding m by (simp add: filter_map comp_def filter_sort w(4))
  ultimately show ?thesis by blast
qed

section \<open>Properties\<close>

text \<open>
  Claim C21. The first question for the references to an object is answered: the build ends, and of the rows
  that come back each names an object the catalog reaches and a path that leads to it, they stand in order,
  and the rows of one such object carry, in order, exactly the paths at which it refers to the one asked for.
\<close>

theorem reverse_refs_exact:
  assumes "revSetting doc rk c" "smallSources doc rk" "inInt64 n" "inInt64 g"
  shows "\<exists>rows idx. GetReverseRefs doc newRevIndex (nodeIDForRef n g) = Some (Inr rows, idx)
    \<and> sorted (map rowKey rows) \<and> (\<forall>r \<in> set rows. \<exists>s. rowFrom doc rk r s)
    \<and> (\<forall>s. revSource doc rk s \<longrightarrow>
         map rrPath (filter (\<lambda>r. rrParentRef r = refString (fst s) (snd s)) rows) = sort (pathsTo doc s (n, g)))"
proof -
  obtain m where m: "buildReverseRefs doc = Some (Inr m)" "sorted (map rowKey (m (n, g)))" "\<forall>r \<in> set (m (n, g)). \<exists>s. rowFrom doc rk r s"
    "\<forall>s. revSource doc rk s \<longrightarrow> map rrPath (filter (\<lambda>r. rrParentRef r = refString (fst s) (snd s)) (m (n, g))) = sort (pathsTo doc s (n, g))"
    using reverse_refs_rows [OF assms(1,2)] by blast
  have "hasPrefix (nodeIDForRef n g) ''obj:''" by (simp add: nodeIDForRef_def hasPrefix_def)
  with m(1) assms(3,4) have "\<exists>idx. GetReverseRefs doc newRevIndex (nodeIDForRef n g) = Some (Inr (m (n, g)), idx)"
    by (simp add: GetReverseRefs_def buildReverseRefsOnce_def newRevIndex_def lookupReverseRefs_def parse_nodeIDForRef atoi_showInt)
  with m(2-4) show ?thesis by blast
qed

lemma sample_sources: "revSource sampleDoc (1, 0) k \<Longrightarrow> k \<in> {(1, 0), (2, 0), (3, 0)}"
proof (induction rule: revSource.induct)
  case (rs_step s p k)
  have "refPaths [] (contentOf sampleDoc (1, 0)) = [(''/Pages'', (2, 0))]" "refPaths [] (contentOf sampleDoc (2, 0)) = [(''/Kids[0]'', (3, 0))]"
    "refPaths [] (contentOf sampleDoc (3, 0)) = [(''/Parent'', (2, 0))]" by code_simp+
  with rs_step show ?case by auto
qed simp
lemma sample_setting: "revSetting sampleDoc (1, 0) (sampleObjects 1)"
  using sampleDoc_plain sampleDoc_catalog by (simp add: revSetting_def sampleDoc_def sampleObjects_def)

theorem reverse_walk_ends_witness:
  "\<exists>st. revLoop sampleDoc (initialRevState sampleDoc (sampleObjects 1)) = Some st \<and>
     set (rvVisited st) \<subseteq> {(1, 0), (2, 0), (3, 0)}"
  using reverse_walk_ends [OF sample_setting] sample_sources by blast

theorem reverse_refs_exact_witness:
  "\<exists>rows idx. GetReverseRefs sampleDoc newRevIndex (nodeIDForRef 2 0) = Some (Inr rows, idx)
    \<and> map rrPath (filter (\<lambda>r. rrParentRef r = ''1 0 R'') rows) = [''/Pages'']
    \<and> map rrPath (filter (\<lambda>r. rrParentRef r = ''3 0 R'') rows) = [''/Parent'']"
proof -
  have small: "smallSources sampleDoc (1, 0)" using sample_sources by (fastforce simp: smallSources_def inInt64_def minInt64_def maxInt64_def)
  have p: "pathsTo sampleDoc (1, 0) (2, 0) = [''/Pages'']" "pathsTo sampleDoc (3, 0) (2, 0) = [''/Parent'']" by code_simp+
  have c: "refPaths [] (contentOf sampleDoc (1, 0)) = [(''/Pages'', (2, 0))]" "refPaths [] (contentOf sampleDoc (2, 0)) = [(''/Kids[0]'', (3, 0))]"
    by code_simp+
  have s1: "revSource sampleDoc (1, 0) (1, 0)" by (rule rs_root)
  have "revSource sampleDoc (1, 0) (2, 0)" by (rule rs_step [OF s1]) (simp add: c)
  then have s3: "revSource sampleDoc (1, 0) (3, 0)" by (rule rs_step) (simp add: c)
  have r: "refString 1 0 = ''1 0 R''" "refString 3 0 = ''3 0 R''" by code_simp+
  from reverse_refs_exact [OF sample_setting small, of 2 0] obtain rows idx where
    "GetReverseRefs sampleDoc newRevIndex (nodeIDForRef 2 0) = Some (Inr rows, idx)"
    "\<forall>s. revSource sampleDoc (1, 0) s \<longrightarrow>
       map rrPath (filter (\<lambda>r. rrParentRef r = refString (fst s) (snd s)) rows) = sort (pathsTo sampleDoc s (2, 0))"
    by (auto simp: inInt64_def minInt64_def maxInt64_def)
  with s1 s3 p r show ?thesis by fastforce
qed

end
