(* ===== verification/UpdateCheck.thy ===== *)
theory UpdateCheck
  imports GoLib
begin

text \<open>
  Release discovery (\<^verbatim>\<open>internal/updatecheck/updatecheck.go\<close>, and the functions on versions of \<^verbatim>\<open>cache.go\<close>).
  Two parameters stand for what is not in the repository: the semantic-version library, and the release
  server with the HTTP client in front of it, which answers a URL with a decoded page.
\<close>

section \<open>Versions\<close>

record semverLib =
  svIsValid :: "string \<Rightarrow> bool"
  svCompare :: "string \<Rightarrow> string \<Rightarrow> int"
  svPrerelease :: "string \<Rightarrow> string"

text \<open>
  What the library documents: \<open>Compare\<close> is the sign of a total preorder in which an invalid version stands
  below every valid one.
\<close>

definition semverOrder :: "semverLib \<Rightarrow> bool" where
  "semverOrder sv \<longleftrightarrow> (\<forall>a b. svCompare sv a b = - svCompare sv b a)
     \<and> (\<forall>a b c. svCompare sv a b \<le> 0 \<longrightarrow> svCompare sv b c \<le> 0 \<longrightarrow> svCompare sv a c \<le> 0)
     \<and> (\<forall>a b. \<not> svIsValid sv a \<longrightarrow> svIsValid sv b \<longrightarrow> svCompare sv a b < 0)"

definition devVersion :: string where "devVersion = ''dev''"

text \<open>\<^verbatim>\<open>strings.TrimSpace\<close>\<close>

function trimLeft :: "string \<Rightarrow> string" where
  "trimLeft s = (if spaceWidth s = 0 \<or> s = [] then s else trimLeft (drop (spaceWidth s) s))"
  by pat_completeness auto
termination trimLeft by (relation "measure length") auto

declare trimLeft.simps [simp del]

fun trimRight :: "string \<Rightarrow> string" where
  "trimRight [] = []"
| "trimRight (c # s) = (if trimLeft (c # s) = [] then [] else c # trimRight s)"

definition trimSpace :: "string \<Rightarrow> string" where
  "trimSpace s = trimRight (trimLeft s)"

definition normalizeVersion :: "string \<Rightarrow> string" where
  "normalizeVersion v0 = (let v = trimSpace v0 in
     if v = [] then v else if \<not> hasPrefix v ''v'' then ''v'' @ v else v)"

text \<open>\<open>canonicalVersion\<close>: \<open>None\<close> where the code answers not ok.\<close>

definition canonicalVersion :: "semverLib \<Rightarrow> string \<Rightarrow> string option" where
  "canonicalVersion sv v =
     (if trimSpace v = [] then Some []
      else let n = normalizeVersion v in if \<not> svIsValid sv n then None else Some n)"

definition CheckableVersion :: "semverLib \<Rightarrow> string \<Rightarrow> string option" where
  "CheckableVersion sv v =
     (if v = devVersion then None
      else (case canonicalVersion sv v of None \<Rightarrow> None | Some c \<Rightarrow> if c = [] then None else Some c))"

section \<open>Releases\<close>

record asset =
  asName :: string
  asURL :: string

record githubRelease =
  grTagName :: string
  grName :: string
  grBody :: string
  grHTMLURL :: string
  grPublishedAt :: string
  grPrerelease :: bool
  grDraft :: bool
  grAssets :: "asset list"

record releaseEntry =
  reTagName :: string
  reName :: string
  reBody :: string
  reHTMLURL :: string
  rePublishedAt :: string

record updateResult =
  urUpdateAvailable :: bool
  urInstalledVersion :: string
  urLatestVersion :: string
  urReleases :: "releaseEntry list"
  urDownloadURL :: string
  urDownloadName :: string
  urSumsURL :: string
  urLatestStable :: string

definition stableTag :: "semverLib \<Rightarrow> githubRelease \<Rightarrow> string option" where
  "stableTag sv r =
     (if grDraft r \<or> grPrerelease r then None
      else let tag = normalizeVersion (grTagName r) in
        if \<not> svIsValid sv tag \<or> svPrerelease sv tag \<noteq> [] then None else Some tag)"

definition higherTag :: "semverLib \<Rightarrow> string \<Rightarrow> string \<Rightarrow> string" where
  "higherTag sv best tag = (if best = [] \<or> svCompare sv tag best > 0 then tag else best)"

fun highestStable :: "semverLib \<Rightarrow> string \<Rightarrow> githubRelease list \<Rightarrow> string" where
  "highestStable sv best [] = best"
| "highestStable sv best (r # page) =
     highestStable sv (case stableTag sv r of None \<Rightarrow> best | Some tag \<Rightarrow> higherTag sv best tag) page"

section \<open>The server\<close>

text \<open>An answer: a failed request, or a status with the decoded body and the \<open>Link\<close> header.\<close>

datatype httpAnswer =
    HttpFailed string
  | HttpAnswer nat "string + githubRelease list" string

text \<open>The errors of a check, by the message they carry.\<close>

datatype checkError = NotSemVer string | RequestFailed string | BadStatus nat | DecodeFailed string

type_synonym releaseServer = "string \<Rightarrow> httpAnswer"

definition perPage :: nat where "perPage = 30"
definition maxPages :: nat where "maxPages = 5"

definition releasesPath :: string where
  "releasesPath = ''/repos/unidoc/pdfdebug/releases''"

definition firstPageURL :: "string \<Rightarrow> string" where
  "firstPageURL baseURL =
     rev (dropWhile (\<lambda>c. c = CHR ''/'') (rev baseURL)) @ releasesPath @ ''?per_page='' @ showNat perPage"

text \<open>
  The match of \<^verbatim>\<open><([^>]+)>\s*;\s*rel="next"\<close> that starts at a given place; the leftmost one counts.
\<close>

definition reSpace :: "char \<Rightarrow> bool" where
  "reSpace c \<longleftrightarrow> byteOf c = 32 \<or> byteOf c = 9 \<or> byteOf c = 10 \<or> byteOf c = 12 \<or> byteOf c = 13"

definition relNext :: string where "relNext = ''rel='' @ [CHR 0x22] @ ''next'' @ [CHR 0x22]"

definition linkNextAt :: "string \<Rightarrow> string option" where
  "linkNextAt s =
     (let url = takeWhile (\<lambda>c. c \<noteq> CHR ''>'') s;
          rest = dropWhile reSpace (drop 1 (dropWhile (\<lambda>c. c \<noteq> CHR ''>'') s))
      in if url = [] \<or> dropWhile (\<lambda>c. c \<noteq> CHR ''>'') s = [] then None
         else (case rest of
                 [] \<Rightarrow> None
               | c # t \<Rightarrow> if c = CHR '';'' \<and> hasPrefix (dropWhile reSpace t) relNext then Some url else None))"

fun nextPageURL :: "string \<Rightarrow> string" where
  "nextPageURL [] = []"
| "nextPageURL (c # s) =
     (case (if c = CHR ''<'' then linkNextAt s else None) of Some url \<Rightarrow> url | None \<Rightarrow> nextPageURL s)"

definition fetchPage :: "releaseServer \<Rightarrow> string \<Rightarrow> checkError + (githubRelease list \<times> string)" where
  "fetchPage server url =
     (case server url of
        HttpFailed e \<Rightarrow> Inl (RequestFailed e)
      | HttpAnswer status body link \<Rightarrow>
          if status \<noteq> 200 then Inl (BadStatus status)
          else (case body of
                  Inl e \<Rightarrow> Inl (DecodeFailed e)
                | Inr releases \<Rightarrow> Inr (releases, nextPageURL link)))"

section \<open>The check\<close>

text \<open>The loop over one page: what it keeps, and the highest stable tag.\<close>

fun collectBatch :: "semverLib \<Rightarrow> string \<Rightarrow> githubRelease list \<Rightarrow> githubRelease list \<times> string \<Rightarrow> githubRelease list \<times> string" where
  "collectBatch sv installed [] acc = acc"
| "collectBatch sv installed (r # batch) (kept, latestStable) =
     (case stableTag sv r of
        None \<Rightarrow> collectBatch sv installed batch (kept, latestStable)
      | Some tag \<Rightarrow>
          collectBatch sv installed batch
            (if svCompare sv tag installed > 0 then kept @ [r] else kept, higherTag sv latestStable tag))"

text \<open>The loop over the pages; \<open>n\<close> is what is left of \<open>maxPages\<close>.\<close>

fun collectPages :: "semverLib \<Rightarrow> releaseServer \<Rightarrow> string \<Rightarrow> nat \<Rightarrow> string \<Rightarrow> githubRelease list \<times> string
    \<Rightarrow> checkError + (githubRelease list \<times> string)" where
  "collectPages sv server installed 0 url acc = Inr acc"
| "collectPages sv server installed (Suc n) url acc =
     (if url = [] then Inr acc
      else (case fetchPage server url of
              Inl e \<Rightarrow> Inl e
            | Inr (batch, nextURL) \<Rightarrow> collectPages sv server installed n nextURL (collectBatch sv installed batch acc)))"

definition collectNewer :: "semverLib \<Rightarrow> releaseServer \<Rightarrow> string \<Rightarrow> string \<Rightarrow> checkError + (githubRelease list \<times> string)" where
  "collectNewer sv server baseURL installed =
     collectPages sv server installed maxPages (firstPageURL baseURL) ([], [])"

definition LatestStable :: "semverLib \<Rightarrow> releaseServer \<Rightarrow> string \<Rightarrow> checkError + string" where
  "LatestStable sv server baseURL =
     (case fetchPage server (firstPageURL baseURL) of
        Inl e \<Rightarrow> Inl e
      | Inr (page, _) \<Rightarrow> Inr (highestStable sv [] page))"

section \<open>Assets\<close>

definition hasSuffix :: "string \<Rightarrow> string \<Rightarrow> bool" where
  "hasSuffix s t \<longleftrightarrow> length t \<le> length s \<and> drop (length s - length t) s = t"

definition sumsName :: string where "sumsName = ''SHA256SUMS.txt''"
definition guiAssetPrefix :: string where "guiAssetPrefix = ''unidoc-pdf-debugger-''"
definition cliAssetPrefix :: string where "cliAssetPrefix = ''pdfdebug-cli-''"

definition platformSuffix :: "string \<Rightarrow> string \<Rightarrow> string option" where
  "platformSuffix goos goarch =
     (if goos = ''darwin'' \<and> goarch = ''arm64'' then Some ''-darwin-arm64.dmg''
      else if goos = ''windows'' \<and> goarch = ''amd64'' then Some ''-windows-amd64.zip''
      else if goos = ''linux'' \<and> goarch = ''amd64'' then Some ''-linux-amd64.tar.gz''
      else None)"

definition assetFor :: "string \<Rightarrow> string \<Rightarrow> asset list \<Rightarrow> string \<times> string" where
  "assetFor goos goarch assets =
     (case platformSuffix goos goarch of
        None \<Rightarrow> ([], [])
      | Some suffix \<Rightarrow>
          (case filter (\<lambda>a. \<not> hasPrefix (asName a) cliAssetPrefix \<and> hasPrefix (asName a) guiAssetPrefix \<and> hasSuffix (asName a) suffix) assets of
             [] \<Rightarrow> ([], [])
           | a # _ \<Rightarrow> (asName a, asURL a)))"

definition sumsURLFor :: "asset list \<Rightarrow> string" where
  "sumsURLFor assets = (case filter (\<lambda>a. asName a = sumsName) assets of [] \<Rightarrow> [] | a # _ \<Rightarrow> asURL a)"

section \<open>Check\<close>

text \<open>\<^verbatim>\<open>sort.SliceStable\<close> with a \<open>less\<close>.\<close>

definition sliceStable :: "('a \<Rightarrow> 'a \<Rightarrow> bool) \<Rightarrow> 'a list \<Rightarrow> 'a list" where
  "sliceStable lt = sortFunc (\<lambda>a b. if lt b a then 1 else 0)"

definition newerFirst :: "semverLib \<Rightarrow> githubRelease \<Rightarrow> githubRelease \<Rightarrow> bool" where
  "newerFirst sv a b \<longleftrightarrow> svCompare sv (normalizeVersion (grTagName a)) (normalizeVersion (grTagName b)) > 0"

definition entryOf :: "githubRelease \<Rightarrow> releaseEntry" where
  "entryOf r = \<lparr> reTagName = grTagName r, reName = grName r, reBody = grBody r, reHTMLURL = grHTMLURL r,
     rePublishedAt = grPublishedAt r \<rparr>"

definition noUpdate :: "string \<Rightarrow> updateResult" where
  "noUpdate installedVersion = \<lparr> urUpdateAvailable = False, urInstalledVersion = installedVersion, urLatestVersion = [],
     urReleases = [], urDownloadURL = [], urDownloadName = [], urSumsURL = [], urLatestStable = [] \<rparr>"

definition foundUpdate :: "string \<Rightarrow> string \<Rightarrow> githubRelease \<Rightarrow> githubRelease list \<Rightarrow> updateResult \<Rightarrow> updateResult" where
  "foundUpdate goos goarch newest releases result =
     result\<lparr> urUpdateAvailable := True, urLatestVersion := grTagName newest, urReleases := map entryOf releases,
       urDownloadName := fst (assetFor goos goarch (grAssets newest)), urDownloadURL := snd (assetFor goos goarch (grAssets newest)),
       urSumsURL := sumsURLFor (grAssets newest) \<rparr>"

text \<open>The result, and the error returned with it.\<close>

definition Check :: "semverLib \<Rightarrow> releaseServer \<Rightarrow> string \<Rightarrow> string \<Rightarrow> string \<Rightarrow> string \<Rightarrow> updateResult \<times> checkError option" where
  "Check sv server goos goarch baseURL installedVersion =
     (let result = noUpdate installedVersion; installed = normalizeVersion installedVersion in
      if installedVersion = devVersion then (result, None)
      else if \<not> svIsValid sv installed then
        (result, Some (NotSemVer installedVersion))
      else (case collectNewer sv server baseURL installed of
              Inl e \<Rightarrow> (result, Some e)
            | Inr (kept, latestStable) \<Rightarrow>
                (let result1 = result\<lparr>urLatestStable := latestStable\<rparr> in
                 case sliceStable (newerFirst sv) kept of
                   [] \<Rightarrow> (result1, None)
                 | newest # rest \<Rightarrow> (foundUpdate goos goarch newest (newest # rest) result1, None))))"

end
