(* ===== verification/UpdateCheckSpec.thy ===== *)
theory UpdateCheckSpec
  imports UpdateCheck
begin

text \<open>
  What a check answers: the releases newer than the installed one on the pages it walks, in order, with the
  highest stable tag of those pages.
\<close>

section \<open>Versions\<close>

definition plainChar :: "char \<Rightarrow> bool" where
  "plainChar c \<longleftrightarrow> 32 < byteOf c \<and> byteOf c < 127"

text \<open>
  The documented form of a valid version, \<open>vMAJOR[.MINOR[.PATCH[-PRERELEASE][+BUILD]]]\<close>: it starts with
  \<open>v\<close> and every character is a printing one of ASCII.
\<close>

definition semverForm :: "semverLib \<Rightarrow> bool" where
  "semverForm sv \<longleftrightarrow> (\<forall>v. svIsValid sv v \<longrightarrow> hasPrefix v ''v'' \<and> v \<noteq> [] \<and> list_all plainChar v)"

lemma spaceWidth_plain: "plainChar c \<Longrightarrow> spaceWidth (c # s) = 0"
  by (auto simp: plainChar_def spaceWidth_def isSpaceRune_def)

lemma trimSpace_plain: "list_all plainChar s \<Longrightarrow> trimSpace s = s"
proof -
  have l: "trimLeft s = s" if "list_all plainChar s" for s
    using that by (cases s) (simp_all add: trimLeft.simps spaceWidth_plain)
  have "trimRight s = s" if "list_all plainChar s" for s
    using that
  proof (induction s)
    case (Cons c s)
    with l [of "c # s"] show ?case by simp
  qed simp
  then show "list_all plainChar s \<Longrightarrow> trimSpace s = s" by (simp add: trimSpace_def l)
qed

lemma canonical_valid:
  assumes "semverForm sv" "svIsValid sv v"
  shows "canonicalVersion sv v = Some v" "normalizeVersion v = v" "v \<noteq> []"
proof -
  have v: "hasPrefix v ''v''" "v \<noteq> []" "list_all plainChar v" using assms by (auto simp: semverForm_def)
  then show "v \<noteq> []" "normalizeVersion v = v" by (simp_all add: normalizeVersion_def trimSpace_plain Let_def)
  with v assms(2) show "canonicalVersion sv v = Some v" by (simp add: canonicalVersion_def trimSpace_plain Let_def)
qed

lemma semver_sign:
  assumes "semverOrder sv"
  shows "svCompare sv a b > 0 \<longleftrightarrow> svCompare sv b a < 0" "svCompare sv a a = 0"
proof -
  have n: "svCompare sv a b = - svCompare sv b a" for a b using assms unfolding semverOrder_def by blast
  show "svCompare sv a b > 0 \<longleftrightarrow> svCompare sv b a < 0" unfolding n [of a b] by simp
  from n [of a a] show "svCompare sv a a = 0" by linarith
qed

lemma semver_trans: "semverOrder sv \<Longrightarrow> svCompare sv a b \<le> 0 \<Longrightarrow> svCompare sv b c \<le> 0 \<Longrightarrow> svCompare sv a c \<le> 0"
  unfolding semverOrder_def by blast

section \<open>The highest tag\<close>

definition stableTags :: "semverLib \<Rightarrow> githubRelease list \<Rightarrow> string list" where
  "stableTags sv rs = List.map_filter (stableTag sv) rs"

lemma stableTags_Cons: "stableTags sv (r # rs) = (case stableTag sv r of None \<Rightarrow> stableTags sv rs | Some t \<Rightarrow> t # stableTags sv rs)"
  by (simp add: stableTags_def List.map_filter_simps split: option.split)

lemma stableTags_append: "stableTags sv (rs @ qs) = stableTags sv rs @ stableTags sv qs"
  by (induction rs) (simp_all add: stableTags_Cons stableTags_def List.map_filter_simps split: option.split)

lemma stableTag_valid: "stableTag sv r = Some t \<Longrightarrow> svIsValid sv t"
  by (auto simp: stableTag_def Let_def split: if_split_asm)

text \<open>The best of some tags, with nothing as the best of none.\<close>

definition bestTag :: "semverLib \<Rightarrow> string list \<Rightarrow> string \<Rightarrow> bool" where
  "bestTag sv ts best \<longleftrightarrow> (if ts = [] then best = [] else best \<in> set ts \<and> list_all (\<lambda>t. svCompare sv t best \<le> 0) ts)"

lemma higherTag_best:
  assumes "semverOrder sv" "bestTag sv ts best" "t \<noteq> []" "[] \<notin> set ts"
  shows "bestTag sv (ts @ [t]) (higherTag sv best t)"
proof (cases "ts = []")
  case True
  with assms show ?thesis by (simp add: bestTag_def higherTag_def semver_sign)
next
  case False
  with assms(2,4) have b: "best \<in> set ts" "list_all (\<lambda>t. svCompare sv t best \<le> 0) ts" "best \<noteq> []" by (auto simp: bestTag_def)
  show ?thesis
  proof (cases "svCompare sv t best > 0")
    case True
    then have "svCompare sv best t \<le> 0" using semver_sign(1) [OF assms(1), of t best] by simp
    with b semver_trans [OF assms(1) _ this] True show ?thesis
      by (auto simp: bestTag_def higherTag_def list_all_iff semver_sign(2) [OF assms(1)])
  next
    case f: False
    with b show ?thesis by (simp add: bestTag_def higherTag_def)
  qed
qed

section \<open>The pages\<close>

text \<open>All the releases on the pages a check walks; \<open>None\<close> when one cannot be had.\<close>

fun walkedReleases :: "releaseServer \<Rightarrow> nat \<Rightarrow> string \<Rightarrow> githubRelease list option" where
  "walkedReleases server 0 url = Some []"
| "walkedReleases server (Suc n) url =
     (if url = [] then Some []
      else (case fetchPage server url of
              Inl e \<Rightarrow> None
            | Inr (batch, nextURL) \<Rightarrow> map_option (\<lambda>rs. batch @ rs) (walkedReleases server n nextURL)))"

definition newerThan :: "semverLib \<Rightarrow> string \<Rightarrow> githubRelease \<Rightarrow> bool" where
  "newerThan sv installed r \<longleftrightarrow> (case stableTag sv r of None \<Rightarrow> False | Some t \<Rightarrow> svCompare sv t installed > 0)"

lemma collectBatch_spec:
  "collectBatch sv installed batch (kept, best) =
     (kept @ filter (newerThan sv installed) batch, fold (\<lambda>t b. higherTag sv b t) (stableTags sv batch) best)"
  by (induction batch arbitrary: kept best) (simp_all add: stableTags_Cons newerThan_def stableTags_def List.map_filter_simps split: option.split)

lemma collectPages_spec:
  "walkedReleases server n url = Some rs \<Longrightarrow> collectPages sv server installed n url (kept, best) =
     Inr (kept @ filter (newerThan sv installed) rs, fold (\<lambda>t b. higherTag sv b t) (stableTags sv rs) best)"
proof (induction n arbitrary: url kept best rs)
  case (Suc n)
  show ?case
  proof (cases "url = []")
    case False
    with Suc.prems obtain batch nextURL qs where p: "fetchPage server url = Inr (batch, nextURL)"
      "walkedReleases server n nextURL = Some qs" "rs = batch @ qs"
      by (auto split: sum.split_asm)
    with False Suc.IH [OF p(2)] show ?thesis by (simp add: collectBatch_spec stableTags_append)
  qed (use Suc.prems in \<open>simp add: stableTags_def List.map_filter_simps\<close>)
qed (simp add: stableTags_def List.map_filter_simps)

lemma fold_best:
  assumes "semverOrder sv"
  shows "bestTag sv ts best \<Longrightarrow> [] \<notin> set ts \<Longrightarrow> [] \<notin> set us \<Longrightarrow> bestTag sv (ts @ us) (fold (\<lambda>t b. higherTag sv b t) us best)"
proof (induction us arbitrary: ts best)
  case (Cons u us)
  then have "bestTag sv (ts @ [u]) (higherTag sv best u)" using higherTag_best [OF assms Cons.prems(1), of u] by auto
  from Cons.IH [OF this] Cons.prems show ?case by simp
qed simp

lemma stableTags_ne: "semverForm sv \<Longrightarrow> [] \<notin> set (stableTags sv rs)"
  using stableTag_valid canonical_valid(3) by (force simp: stableTags_def List.map_filter_def)

lemma collectNewer_ok:
  assumes "semverOrder sv" "semverForm sv" "walkedReleases server maxPages (firstPageURL baseURL) = Some rs"
  shows "\<exists>best. collectNewer sv server baseURL installed = Inr (filter (newerThan sv installed) rs, best) \<and> bestTag sv (stableTags sv rs) best"
proof -
  have "bestTag sv [] []" by (simp add: bestTag_def)
  from fold_best [OF assms(1) this _ stableTags_ne [OF assms(2)], of rs]
  have "bestTag sv (stableTags sv rs) (fold (\<lambda>t b. higherTag sv b t) (stableTags sv rs) [])" by simp
  moreover have "collectNewer sv server baseURL installed
      = Inr (filter (newerThan sv installed) rs, fold (\<lambda>t b. higherTag sv b t) (stableTags sv rs) [])"
    using collectPages_spec [OF assms(3), of sv installed "[]" "[]"] by (simp add: collectNewer_def)
  ultimately show ?thesis by blast
qed

lemma highestStable_fold: "highestStable sv best page = fold (\<lambda>t b. higherTag sv b t) (stableTags sv page) best"
  by (induction page arbitrary: best) (simp_all add: stableTags_Cons stableTags_def List.map_filter_simps split: option.split)

section \<open>The check\<close>

lemma newer_sorted:
  assumes "semverOrder sv"
  shows "sorted_wrt (\<lambda>a b. \<not> newerFirst sv b a) (sliceStable (newerFirst sv) rs)"
proof -
  let ?c = "\<lambda>a b. if newerFirst sv b a then 1 else 0 :: int"
  have "sorted_wrt (\<lambda>x y. ?c x y \<le> 0) (sortFunc ?c rs)"
  proof (rule sortFunc_sorted)
    fix x y z
    show "?c x y \<le> 0 \<or> ?c y x \<le> 0" using semver_sign(1) [OF assms, of "normalizeVersion (grTagName x)" "normalizeVersion (grTagName y)"]
      by (simp add: newerFirst_def)
    assume "?c x y \<le> 0" "?c y z \<le> 0"
    then show "?c x z \<le> 0" using semver_trans [OF assms] by (auto simp: newerFirst_def not_less split: if_split_asm)
  qed
  moreover have "(\<lambda>x y. ?c x y \<le> 0) = (\<lambda>x y. \<not> newerFirst sv y x)" by (intro ext) simp
  ultimately show ?thesis unfolding sliceStable_def by (simp only:)
qed

lemma check_ok:
  assumes "semverOrder sv" "semverForm sv" "installedVersion \<noteq> devVersion" "svIsValid sv (normalizeVersion installedVersion)"
    "walkedReleases server maxPages (firstPageURL baseURL) = Some rs"
  defines "newer \<equiv> filter (newerThan sv (normalizeVersion installedVersion)) rs"
  shows "\<exists>res. Check sv server goos goarch baseURL installedVersion = (res, None)
    \<and> bestTag sv (stableTags sv rs) (urLatestStable res) \<and> urUpdateAvailable res = (newer \<noteq> [])
    \<and> urReleases res = map entryOf (sliceStable (newerFirst sv) newer)
    \<and> urLatestVersion res = (if newer = [] then [] else reTagName (hd (urReleases res)))"
proof -
  obtain best where b: "collectNewer sv server baseURL (normalizeVersion installedVersion) = Inr (newer, best)"
    "bestTag sv (stableTags sv rs) best"
    using collectNewer_ok [OF assms(1,2,5)] unfolding newer_def by blast
  show ?thesis
  proof (cases "sliceStable (newerFirst sv) newer")
    case Nil
    moreover from this have "newer = []" by (simp add: sliceStable_def)
    ultimately show ?thesis using b assms(3,4) by (simp add: Check_def noUpdate_def)
  next
    case (Cons n ns)
    then have "newer \<noteq> []" by (auto simp: sliceStable_def sortFunc_def)
    with Cons b assms(3,4) show ?thesis by (simp add: Check_def noUpdate_def foundUpdate_def entryOf_def)
  qed
qed

lemma check_stable:
  assumes "installedVersion \<noteq> devVersion" "svIsValid sv (normalizeVersion installedVersion)"
    "walkedReleases server maxPages (firstPageURL baseURL) = Some rs"
  shows "urLatestStable (fst (Check sv server goos goarch baseURL installedVersion))
    = fold (\<lambda>t b. higherTag sv b t) (stableTags sv rs) []"
  using assms(1,2) collectPages_spec [OF assms(3), of sv "normalizeVersion installedVersion" "[]" "[]"]
  by (simp add: Check_def collectNewer_def noUpdate_def foundUpdate_def Let_def split: list.split)

lemma stableTag_iff:
  "stableTag sv r = Some t \<longleftrightarrow> t = normalizeVersion (grTagName r) \<and> \<not> grDraft r \<and> \<not> grPrerelease r
     \<and> svIsValid sv t \<and> svPrerelease sv t = []"
  by (auto simp: stableTag_def Let_def)

lemma stableTag_none:
  "stableTag sv r = None \<longleftrightarrow> \<not> (\<not> grDraft r \<and> \<not> grPrerelease r
     \<and> svIsValid sv (normalizeVersion (grTagName r)) \<and> svPrerelease sv (normalizeVersion (grTagName r)) = [])"
  by (auto simp: stableTag_def Let_def)

lemma check_installed: "urInstalledVersion (fst (Check sv server goos goarch baseURL installedVersion)) = installedVersion"
  by (simp add: Check_def noUpdate_def foundUpdate_def Let_def split: sum.split list.split prod.split)

end
