(* ===== verification/UpdateCache.thy ===== *)
theory UpdateCache
  imports UpdateCheckSpec AtomicFile Paths
begin

text \<open>
  The update-check records (\<^verbatim>\<open>internal/updatecheck/cache.go\<close>): one file per surface, read by both, written by
  its owner through the atomic writer. Instants are nanoseconds since Go's zero time; the JSON coding is a
  parameter; the mutex makes each operation one step.
\<close>

section \<open>Records\<close>

type_synonym surface = string

definition SurfaceApp :: surface where "SurfaceApp = ''app''"
definition SurfaceCLI :: surface where "SurfaceCLI = ''cli''"

definition peerSurface :: "surface \<Rightarrow> surface" where
  "peerSurface s = (if s = SurfaceApp then SurfaceCLI else SurfaceApp)"

definition recordFileName :: "surface \<Rightarrow> string" where
  "recordFileName s = ''updatecheck-'' @ s @ ''.json''"

definition CacheTTL :: int where "CacheTTL = 24 * 60 * 60 * 1000000000"
definition cacheSchema :: int where "cacheSchema = 1"
definition cacheDirName :: string where "cacheDirName = ''pdfdebug''"

record snapshot =
  snSchema :: int
  snCheckedAt :: int
  snSucceededAt :: int
  snLatestVersion :: string

definition zeroSnapshot :: snapshot where
  "zeroSnapshot = \<lparr> snSchema = 0, snCheckedAt = 0, snSucceededAt = 0, snLatestVersion = [] \<rparr>"

text \<open>\<^verbatim>\<open>Time.Sub\<close> stops at the ends of the 64-bit range.\<close>

definition timeSub :: "int \<Rightarrow> int \<Rightarrow> int" where
  "timeSub a b = max minInt64 (min maxInt64 (a - b))"

definition within :: "int \<Rightarrow> int \<Rightarrow> int \<Rightarrow> bool" where
  "within t now ttl = (if t = 0 \<or> now < t then False else timeSub now t < ttl)"

definition Fresh :: "snapshot \<Rightarrow> int \<Rightarrow> int \<Rightarrow> bool" where
  "Fresh s now ttl = within (snCheckedAt s) now ttl"

definition Confirmed :: "snapshot \<Rightarrow> int \<Rightarrow> int \<Rightarrow> bool" where
  "Confirmed s now ttl = within (snSucceededAt s) now ttl"

text \<open>The version to show, when it is newer than the installed one.\<close>

definition Notice :: "semverLib \<Rightarrow> snapshot \<Rightarrow> string \<Rightarrow> string option" where
  "Notice sv s installedVersion =
     (case CheckableVersion sv installedVersion of
        None \<Rightarrow> None
      | Some installed \<Rightarrow>
          (case canonicalVersion sv (snLatestVersion s) of
             None \<Rightarrow> None
           | Some target \<Rightarrow>
               if target = [] \<or> svCompare sv target installed \<le> 0 then None
               else Some (if hasPrefix target ''v'' then drop 1 target else target)))"

definition Newer :: "semverLib \<Rightarrow> snapshot \<Rightarrow> snapshot \<Rightarrow> snapshot" where
  "Newer sv a b =
     (let av = (case canonicalVersion sv (snLatestVersion a) of Some v \<Rightarrow> v | None \<Rightarrow> []);
          bv = (case canonicalVersion sv (snLatestVersion b) of Some v \<Rightarrow> v | None \<Rightarrow> [])
      in if bv \<noteq> [] \<and> (av = [] \<or> svCompare sv bv av > 0) then b else a)"

section \<open>The cache\<close>

text \<open>
  What the operations rely on: the version library, the JSON coding (\<open>None\<close> on an error), the platform, and
  the paths that cannot be read.
\<close>

record cacheEnv =
  ceSemver :: semverLib
  ceMarshal :: "snapshot \<Rightarrow> byte list option"
  ceUnmarshal :: "byte list \<Rightarrow> snapshot option"
  ceWindows :: bool
  ceReadFails :: "string \<Rightarrow> bool"

record cacheHandle =
  chPath :: string
  chPeerPath :: string

datatype 'e cacheError = DirNotAbsolute string | UnknownSurface string | BadLatestVersion string | MarshalFailed | WriteFailed 'e

definition DefaultDir :: "string \<Rightarrow> 'e cacheError + string" where
  "DefaultDir cacheHome =
     (if cacheHome = [] \<or> \<not> isAbs cacheHome then Inl (DirNotAbsolute cacheHome) else Inr (pathJoin [cacheHome, cacheDirName]))"

definition openCache :: "string \<Rightarrow> surface \<Rightarrow> 'e cacheError + cacheHandle" where
  "openCache dir own =
     (if dir = [] \<or> \<not> isAbs dir then Inl (DirNotAbsolute dir)
      else if own \<noteq> SurfaceApp \<and> own \<noteq> SurfaceCLI then Inl (UnknownSurface own)
      else Inr \<lparr> chPath = pathJoin [dir, recordFileName own], chPeerPath = pathJoin [dir, recordFileName (peerSurface own)] \<rparr>)"

definition loadRecord :: "cacheEnv \<Rightarrow> string \<Rightarrow> fileSystem \<Rightarrow> snapshot option" where
  "loadRecord env path fs =
     (case fs path of
        None \<Rightarrow> None
      | Some f \<Rightarrow>
          if fileIsDir f \<or> ceReadFails env path then None
          else (case ceUnmarshal env (fileData f) of
                  None \<Rightarrow> None
                | Some s \<Rightarrow>
                    if snSchema s \<noteq> cacheSchema then None
                    else map_option (\<lambda>latest. s\<lparr>snLatestVersion := latest\<rparr>) (canonicalVersion (ceSemver env) (snLatestVersion s))))"

definition cacheLoad :: "cacheEnv \<Rightarrow> cacheHandle \<Rightarrow> fileSystem \<Rightarrow> snapshot option" where
  "cacheLoad env c fs = loadRecord env (chPath c) fs"

definition cacheLoadPeer :: "cacheEnv \<Rightarrow> cacheHandle \<Rightarrow> fileSystem \<Rightarrow> snapshot option" where
  "cacheLoadPeer env c fs = loadRecord env (chPeerPath c) fs"

text \<open>\<open>write\<close> and \<open>store\<close>: the error, and the files afterwards.\<close>

definition writeRecord :: "cacheEnv \<Rightarrow> 'e writeEnv \<Rightarrow> string \<Rightarrow> snapshot \<Rightarrow> fileSystem \<Rightarrow> 'e cacheError option \<times> fileSystem" where
  "writeRecord env we path s fs =
     (case ceMarshal env s of
        None \<Rightarrow> (Some MarshalFailed, fs)
      | Some data \<Rightarrow>
          (case atomicWrite we (ceWindows env) (int (DefaultAttempts (ceWindows env))) path data fs of
             (err, states) \<Rightarrow> (map_option WriteFailed err, last states)))"

definition storeRecord :: "cacheEnv \<Rightarrow> 'e writeEnv \<Rightarrow> string \<Rightarrow> snapshot \<Rightarrow> fileSystem \<Rightarrow> 'e cacheError option \<times> fileSystem" where
  "storeRecord env we path s fs =
     (case canonicalVersion (ceSemver env) (snLatestVersion s) of
        None \<Rightarrow> (Some (BadLatestVersion (snLatestVersion s)), fs)
      | Some latest \<Rightarrow> writeRecord env we path (s\<lparr>snSchema := cacheSchema, snLatestVersion := latest\<rparr>) fs)"

definition cacheStore :: "cacheEnv \<Rightarrow> 'e writeEnv \<Rightarrow> cacheHandle \<Rightarrow> snapshot \<Rightarrow> fileSystem \<Rightarrow> 'e cacheError option \<times> fileSystem" where
  "cacheStore env we c s fs = storeRecord env we (chPath c) s fs"

definition loadedOrZero :: "cacheEnv \<Rightarrow> string \<Rightarrow> fileSystem \<Rightarrow> snapshot" where
  "loadedOrZero env path fs = (case loadRecord env path fs of None \<Rightarrow> zeroSnapshot | Some s \<Rightarrow> s)"

text \<open>The record that is returned, the error, and the files.\<close>

definition RecordAttempt :: "cacheEnv \<Rightarrow> 'e writeEnv \<Rightarrow> cacheHandle \<Rightarrow> int \<Rightarrow> fileSystem
    \<Rightarrow> snapshot \<times> 'e cacheError option \<times> fileSystem" where
  "RecordAttempt env we c now fs =
     (let s = (loadedOrZero env (chPath c) fs)\<lparr>snCheckedAt := now\<rparr> in (s, storeRecord env we (chPath c) s fs))"

definition RecordSuccess :: "cacheEnv \<Rightarrow> 'e writeEnv \<Rightarrow> cacheHandle \<Rightarrow> int \<Rightarrow> string \<Rightarrow> fileSystem
    \<Rightarrow> snapshot \<times> 'e cacheError option \<times> fileSystem" where
  "RecordSuccess env we c now latest fs =
     (let s0 = (loadedOrZero env (chPath c) fs)\<lparr>snCheckedAt := now, snSucceededAt := now\<rparr>;
          s = (if latest \<noteq> [] then s0\<lparr>snLatestVersion := latest\<rparr> else s0)
      in (s, storeRecord env we (chPath c) s fs))"

section \<open>A write and the next read\<close>

text \<open>
  The surroundings of a write to \<open>path\<close>: what the coding writes it reads back, the file can be read, the
  temp file is another one, and \<open>path\<close> and \<open>q\<close> do not look like stale temp files.
\<close>

definition soundWrite :: "cacheEnv \<Rightarrow> 'e writeEnv \<Rightarrow> string \<Rightarrow> bool" where
  "soundWrite env we q \<longleftrightarrow> semverForm (ceSemver env) \<and> (\<forall>s d. ceMarshal env s = Some d \<longrightarrow> ceUnmarshal env d = Some s)
     \<and> \<not> ceReadFails env q \<and> \<not> weMatches we q \<and> (\<forall>tmp. weTemp we = Inr tmp \<longrightarrow> tmp \<noteq> q)"

lemma soundWrite_kept: "soundWrite env we q \<Longrightarrow> keptFile we fs q"
  by (simp add: soundWrite_def keptFile_def)

lemma canonicalVersion_idem: "semverForm sv \<Longrightarrow> canonicalVersion sv v = Some c \<Longrightarrow> canonicalVersion sv c = Some c"
proof -
  assume f: "semverForm sv" and c: "canonicalVersion sv v = Some c"
  show "canonicalVersion sv c = Some c"
  proof (cases "c = []")
    case True
    have "trimSpace [] = []" by (simp add: trimSpace_def trimLeft.simps)
    then show ?thesis by (simp add: True canonicalVersion_def)
  next
    case False
    with c have "svIsValid sv c" by (auto simp: canonicalVersion_def Let_def split: if_split_asm)
    from canonical_valid(1) [OF f this] show ?thesis .
  qed
qed

text \<open>The record a store leaves, and that it leaves every other record alone.\<close>

definition canonicalRecord :: "semverLib \<Rightarrow> snapshot \<Rightarrow> snapshot option" where
  "canonicalRecord sv s = map_option (\<lambda>latest. s\<lparr>snSchema := cacheSchema, snLatestVersion := latest\<rparr>) (canonicalVersion sv (snLatestVersion s))"

lemma atomicWrite_other:
  assumes "soundWrite env we q" "q \<noteq> path" "atomicWrite we windows n path data fs = (err, states)"
  shows "last states q = fs q"
proof -
  have "last states \<in> set (snd (atomicWrite we windows n path data fs))"
    using atomicWrite_last(1) [of we windows n path data fs] assms(3) by simp
  from atomicWrite_states [OF soundWrite_kept [OF assms(1)] _ this] assms(1,2)
  show ?thesis by (auto simp: soundWrite_def)
qed

lemma storeRecord_other:
  assumes "soundWrite env we q" "q \<noteq> path"
  shows "loadRecord env q (snd (storeRecord env we path s fs)) = loadRecord env q fs"
proof -
  have "snd (storeRecord env we path s fs) q = fs q"
    using atomicWrite_other [OF assms] 
    by (auto simp: storeRecord_def writeRecord_def split: option.split prod.split)
  then show ?thesis by (simp add: loadRecord_def)
qed

lemma storeRecord_own:
  assumes "soundWrite env we path" "storeRecord env we path s fs = (err, fs')"
  shows "loadRecord env path fs' = (if err = None then canonicalRecord (ceSemver env) s else loadRecord env path fs)"
proof (cases "canonicalVersion (ceSemver env) (snLatestVersion s)")
  case None
  with assms(2) show ?thesis by (auto simp: storeRecord_def)
next
  case (Some latest)
  let ?s = "s\<lparr>snSchema := cacheSchema, snLatestVersion := latest\<rparr>"
  show ?thesis
  proof (cases "ceMarshal env ?s")
    case None
    with Some assms(2) show ?thesis by (auto simp: storeRecord_def writeRecord_def)
  next
    case d: (Some data)
    obtain e states where w: "atomicWrite we (ceWindows env) (int (DefaultAttempts (ceWindows env))) path data fs = (e, states)"
      by fastforce
    have fs': "fs' = last states" "err = map_option WriteFailed e"
      using assms(2) Some d w by (auto simp: storeRecord_def writeRecord_def)
    have l: "last states path = (if e = None then Some (tempFile data we) else fs path)"
      by (rule write_final [OF soundWrite_kept [OF assms(1)] _ w]) (use assms(1) in \<open>simp add: soundWrite_def\<close>)
    have "semverForm (ceSemver env)" "ceUnmarshal env data = Some ?s" "\<not> ceReadFails env path"
      using assms(1) d by (auto simp: soundWrite_def)
    with l Some fs' canonicalVersion_idem [OF _ Some] show ?thesis
      by (simp add: loadRecord_def tempFile_def canonicalRecord_def)
  qed
qed

end
