(* ===== verification/UpdateNotice.thy ===== *)
theory UpdateNotice
  imports UpdateCache
begin

text \<open>
  The two users of the update records: the command line's notice (\<^verbatim>\<open>cmd/cli/update_notice.go\<close>) and the
  desktop app's check service (\<^verbatim>\<open>internal/updateservice/service.go\<close>).
\<close>

section \<open>When the command line may ask\<close>

definition optOutVars :: "string list" where
  "optOutVars = [''PDFDEBUG_NO_UPDATE_CHECK'', ''NO_UPDATE_NOTIFIER'']"

text \<open>\<open>neHasEnv\<close>: which environment variables are set. \<open>neLatest\<close>: what asking the server comes to.\<close>

datatype askAnswer = AskTag string | AskError | AskPanic

record noticeEnv =
  neVersion :: string
  neHasEnv :: "string \<Rightarrow> bool"
  neStdoutTTY :: bool
  neStderrTTY :: bool
  neWidth :: int
  neNow :: int
  neCache :: "cacheHandle option"
  neLatest :: askAnswer

definition optedOut :: "noticeEnv \<Rightarrow> bool" where
  "optedOut e = list_ex (neHasEnv e) optOutVars"

definition interactive :: "noticeEnv \<Rightarrow> bool" where
  "interactive e = (if neHasEnv e ''CI'' then False else neStdoutTTY e \<and> neStderrTTY e)"

definition ParseBool :: "string \<Rightarrow> bool option" where
  "ParseBool s =
     (if s \<in> {''1'', ''t'', ''T'', ''true'', ''TRUE'', ''True''} then Some True
      else if s \<in> {''0'', ''f'', ''F'', ''false'', ''FALSE'', ''False''} then Some False else None)"

definition trimPrefix :: "string \<Rightarrow> string \<Rightarrow> string" where
  "trimPrefix s p = (if hasPrefix s p then drop (length p) s else s)"

text \<open>One argument: its name, and its value when it has one.\<close>

definition cutEquals :: "string \<Rightarrow> string \<times> string option" where
  "cutEquals s = (let n = takeWhile (\<lambda>c. c \<noteq> CHR ''='') s in
     (n, if length n = length s then None else Some (drop (length n + 1) s)))"

definition machineArg :: "bool \<Rightarrow> string \<Rightarrow> bool" where
  "machineArg embedded a =
     (if \<not> hasPrefix a ''-'' then False
      else (case cutEquals (trimPrefix (drop 1 a) ''-'') of (name, val) \<Rightarrow>
        if name = ''json'' \<or> name = ''ops'' \<or> name = ''raw'' then
          (case val of None \<Rightarrow> True | Some v \<Rightarrow> (case ParseBool v of None \<Rightarrow> True | Some b \<Rightarrow> b))
        else if name = ''ref'' \<or> name = ''name'' then embedded
        else False))"

fun machineArgs :: "bool \<Rightarrow> string list \<Rightarrow> bool" where
  "machineArgs embedded [] = False"
| "machineArgs embedded (a # args) =
     (if a = ''--'' then False else if machineArg embedded a then True else machineArgs embedded args)"

definition machineFormat :: "string list \<Rightarrow> bool" where
  "machineFormat args =
     (let dump = (2 \<le> length args \<and> args ! 0 = ''dump'') in
      if dump \<and> (args ! 1 = ''bytes'' \<or> args ! 1 = ''plaintext'') then True
      else machineArgs (dump \<and> args ! 1 = ''embedded'') args)"

definition eligible :: "semverLib \<Rightarrow> noticeEnv \<Rightarrow> string list \<Rightarrow> bool" where
  "eligible sv e args =
     (if CheckableVersion sv (neVersion e) = None then False
      else if \<not> interactive e \<or> optedOut e then False
      else \<not> machineFormat args \<and> neCache e \<noteq> None)"

section \<open>The refresh\<close>

definition confirmedPeer :: "cacheEnv \<Rightarrow> cacheHandle \<Rightarrow> int \<Rightarrow> fileSystem \<Rightarrow> snapshot" where
  "confirmedPeer env c now fs =
     (case cacheLoadPeer env c fs of
        None \<Rightarrow> zeroSnapshot
      | Some peer \<Rightarrow> if Confirmed peer now CacheTTL then peer else zeroSnapshot)"

text \<open>A panic while asking is an error.\<close>

definition askLatest :: "askAnswer \<Rightarrow> string option" where
  "askLatest a = (case a of AskTag tag \<Rightarrow> Some tag | _ \<Rightarrow> None)"

text \<open>\<open>we1\<close> and \<open>we2\<close> answer the two writes. The result: the record, whether there was an answer, the files.\<close>

definition refreshSnapshot :: "cacheEnv \<Rightarrow> 'e writeEnv \<Rightarrow> 'e writeEnv \<Rightarrow> cacheHandle \<Rightarrow> askAnswer \<Rightarrow> int \<Rightarrow> fileSystem
    \<Rightarrow> snapshot \<times> bool \<times> fileSystem" where
  "refreshSnapshot env we1 we2 c latest now fs =
     (case RecordAttempt env we1 c now fs of
        (snap, Some e, fs1) \<Rightarrow> (snap, False, fs1)
      | (snap, None, fs1) \<Rightarrow>
          (case askLatest latest of
             None \<Rightarrow> (snap, False, fs1)
           | Some tag \<Rightarrow> (case RecordSuccess env we2 c now tag fs1 of (snap2, _, fs2) \<Rightarrow> (snap2, True, fs2))))"

text \<open>\<open>pnRefresh\<close>: what the refresh in the background delivers, with the files it leaves; \<open>None\<close> when none was started.\<close>

record pendingNotice =
  pnSnap :: snapshot
  pnPeer :: snapshot
  pnRefresh :: "(snapshot \<times> fileSystem) option"

definition startNotice :: "cacheEnv \<Rightarrow> 'e writeEnv \<Rightarrow> 'e writeEnv \<Rightarrow> noticeEnv \<Rightarrow> string list \<Rightarrow> fileSystem \<Rightarrow> pendingNotice" where
  "startNotice env we1 we2 e args fs =
     (case (if eligible (ceSemver env) e args then neCache e else None) of
        None \<Rightarrow> \<lparr> pnSnap = zeroSnapshot, pnPeer = zeroSnapshot, pnRefresh = None \<rparr>
      | Some c \<Rightarrow>
          (let own = loadedOrZero env (chPath c) fs; now = neNow e; peer = confirmedPeer env c now fs;
               p = \<lparr> pnSnap = Newer (ceSemver env) own peer, pnPeer = peer, pnRefresh = None \<rparr>
           in if Fresh own now CacheTTL \<or> Confirmed peer now CacheTTL then p
              else (case refreshSnapshot env we1 we2 c (neLatest e) now fs of
                      (result, _, fs') \<Rightarrow> p\<lparr>pnRefresh := Some (Newer (ceSemver env) result peer, fs')\<rparr>)))"

text \<open>How the wait for the refresh ends: it delivers in time, it is past the deadline with the server's answer in, or without.\<close>

datatype refreshWait = InTime | LateAnswered | Unanswered

section \<open>What is printed\<close>

definition releasesURL :: string where "releasesURL = ''https://github.com/unidoc/pdfdebug/releases''"

definition newline :: string where "newline = [CHR 0x0A]"

definition boxLine :: "nat \<Rightarrow> string \<Rightarrow> string" where
  "boxLine longest l = ''|  '' @ l @ replicate (longest - length l) CHR '' '' @ ''  |'' @ newline"

definition noticeBox :: "string list \<Rightarrow> int \<Rightarrow> string" where
  "noticeBox ls width =
     (let longest = fold (\<lambda>l m. max m (length l)) ls 0;
          inner = longest + 4;
          border = ''+'' @ replicate inner CHR ''-'' @ ''+'' @ newline
      in if width > 0 \<and> int (inner + 2) \<ge> width then concat (map (\<lambda>l. l @ newline) ls)
         else border @ concat (map (boxLine longest) ls) @ border)"

definition writeNotice :: "string \<Rightarrow> string \<Rightarrow> int \<Rightarrow> bool \<Rightarrow> string" where
  "writeNotice installed latest width leadingBlank =
     (if leadingBlank then newline else [])
     @ noticeBox [''Update available: '' @ trimPrefix installed ''v'' @ '' -> '' @ trimPrefix latest ''v'', releasesURL] width"

text \<open>\<open>finish\<close>: the record it reads, and what it prints on standard error.\<close>

definition finishSnap :: "pendingNotice \<Rightarrow> refreshWait \<Rightarrow> snapshot" where
  "finishSnap p w = (case pnRefresh p of None \<Rightarrow> pnSnap p
     | Some (s, _) \<Rightarrow> (case w of Unanswered \<Rightarrow> pnSnap p | _ \<Rightarrow> s))"

definition finishNotice :: "semverLib \<Rightarrow> noticeEnv \<Rightarrow> pendingNotice \<Rightarrow> refreshWait \<Rightarrow> string" where
  "finishNotice sv e p w =
     (case Notice sv (finishSnap p w) (neVersion e) of
        None \<Rightarrow> []
      | Some latest \<Rightarrow> writeNotice (neVersion e) latest (neWidth e) True)"

text \<open>\<^verbatim>\<open>--version\<close>: a message or a version to box, and the files.\<close>

definition versionOutcome :: "cacheEnv \<Rightarrow> 'e writeEnv \<Rightarrow> 'e writeEnv \<Rightarrow> noticeEnv \<Rightarrow> fileSystem \<Rightarrow> string \<times> string \<times> fileSystem" where
  "versionOutcome env we1 we2 e fs =
     (if \<not> interactive e then ([], [], fs)
      else if CheckableVersion (ceSemver env) (neVersion e) = None then (''update checks are skipped for development builds'', [], fs)
      else if optedOut e then (''update check disabled (PDFDEBUG_NO_UPDATE_CHECK or NO_UPDATE_NOTIFIER is set)'', [], fs)
      else
        (let now = neNow e;
             (own, peer, fs1) = (case neCache e of
                 None \<Rightarrow> (zeroSnapshot, zeroSnapshot, fs)
               | Some c \<Rightarrow> (case RecordAttempt env we1 c now fs of (s, _, fs1) \<Rightarrow> (s, confirmedPeer env c now fs1, fs1)));
             (own', fs') = (case askLatest (neLatest e) of
                 None \<Rightarrow> (own, fs1)
               | Some tag \<Rightarrow>
                   (case neCache e of
                      Some c \<Rightarrow> (case RecordSuccess env we2 c now tag fs1 of (s, _, fs2) \<Rightarrow> (s, fs2))
                    | None \<Rightarrow> (if tag \<noteq> [] then own\<lparr>snLatestVersion := tag\<rparr> else own, fs1)));
             checked = (askLatest (neLatest e) \<noteq> None \<or> Confirmed own' now CacheTTL \<or> Confirmed peer now CacheTTL)
         in if \<not> checked then (''could not check for updates'', [], fs')
            else (case Notice (ceSemver env) (Newer (ceSemver env) own' peer) (neVersion e) of
                    Some latest \<Rightarrow> ([], latest, fs')
                  | None \<Rightarrow> (''no newer release is available'', [], fs'))))"

text \<open>\<open>runVersion\<close>: standard output, standard error, the exit code.\<close>

definition runVersion :: "cacheEnv \<Rightarrow> 'e writeEnv \<Rightarrow> 'e writeEnv \<Rightarrow> noticeEnv \<Rightarrow> fileSystem \<Rightarrow> string \<times> string \<times> nat \<times> fileSystem" where
  "runVersion env we1 we2 e fs =
     (case versionOutcome env we1 we2 e fs of (message, box, fs') \<Rightarrow>
        (''pdfdebug version '' @ neVersion e @ newline,
         (if box \<noteq> [] then writeNotice (neVersion e) box (neWidth e) False else [])
           @ (if message \<noteq> [] then ''pdfdebug: '' @ message @ newline else []),
         0, fs'))"

section \<open>The app's service\<close>

record updateService =
  usVersion :: string
  usCache :: "cacheHandle option"

definition newService :: "string \<Rightarrow> string \<Rightarrow> updateService" where
  "newService version cacheDir =
     \<lparr> usVersion = version, usCache = (case openCache cacheDir SurfaceApp :: unit cacheError + cacheHandle of Inl e \<Rightarrow> None | Inr c \<Rightarrow> Some c) \<rparr>"

definition recordCheck :: "cacheEnv \<Rightarrow> 'e writeEnv \<Rightarrow> updateService \<Rightarrow> int \<Rightarrow> updateResult \<Rightarrow> checkError option \<Rightarrow> fileSystem \<Rightarrow> fileSystem" where
  "recordCheck env we s now res err fs =
     (case usCache s of
        None \<Rightarrow> fs
      | Some c \<Rightarrow>
          if err \<noteq> None \<or> CheckableVersion (ceSemver env) (usVersion s) = None then fs
          else (case RecordSuccess env we c now (urLatestStable res) fs of (_, _, fs') \<Rightarrow> fs'))"

text \<open>The parameters of a live check.\<close>

record liveCheck =
  lcServer :: releaseServer
  lcGoos :: string
  lcGoarch :: string
  lcBaseURL :: string

definition CheckForUpdate :: "cacheEnv \<Rightarrow> 'e writeEnv \<Rightarrow> liveCheck \<Rightarrow> updateService \<Rightarrow> int \<Rightarrow> fileSystem
    \<Rightarrow> (updateResult \<times> checkError option) \<times> fileSystem" where
  "CheckForUpdate env we lc s now fs =
     (case Check (ceSemver env) (lcServer lc) (lcGoos lc) (lcGoarch lc) (lcBaseURL lc) (usVersion s) of
        (res, err) \<Rightarrow> ((res, err), recordCheck env we s now res err fs))"

text \<open>Whether the launch check answers from the record.\<close>

definition answersFromRecord :: "cacheEnv \<Rightarrow> updateService \<Rightarrow> int \<Rightarrow> fileSystem \<Rightarrow> bool" where
  "answersFromRecord env s now fs =
     (case (if CheckableVersion (ceSemver env) (usVersion s) \<noteq> None then usCache s else None) of
        None \<Rightarrow> False
      | Some c \<Rightarrow>
          (case cacheLoad env c fs of
             None \<Rightarrow> False
           | Some snap \<Rightarrow> Confirmed snap now CacheTTL \<and> Notice (ceSemver env) snap (usVersion s) = None))"

definition CheckForUpdateAtStartup :: "cacheEnv \<Rightarrow> 'e writeEnv \<Rightarrow> liveCheck \<Rightarrow> updateService \<Rightarrow> int \<Rightarrow> fileSystem
    \<Rightarrow> (updateResult \<times> checkError option) \<times> fileSystem" where
  "CheckForUpdateAtStartup env we lc s now fs =
     (if answersFromRecord env s now fs then ((noUpdate (usVersion s), None), fs)
      else CheckForUpdate env we lc s now fs)"

end
