(* ===== verification/UpdateSpec.thy ===== *)
theory UpdateSpec
  imports UpdateNotice
begin

text \<open>
  The update check as a whole: the answer of a live check, the records the two binaries keep, and what each
  reads of the other's.
\<close>

section \<open>Records on disk\<close>

text \<open>
  What the users of the records rely on: an operation on one file that reports success has its effect on
  that file's record, one that fails has none, and no other record changes.
\<close>

locale record_files =
  fixes load :: "'p \<Rightarrow> 'f \<Rightarrow> 'r option"
    and step :: "'w \<Rightarrow> 'p \<Rightarrow> 'o \<Rightarrow> 'f \<Rightarrow> bool \<times> 'f"
    and effect :: "'o \<Rightarrow> 'r option \<Rightarrow> 'r option"
    and sound :: "'w \<Rightarrow> 'p \<Rightarrow> bool"
  assumes own: "sound w p \<Longrightarrow> step w p op fs = (ok, fs') \<Longrightarrow>
      load p fs' = (if ok then effect op (load p fs) else load p fs) \<and> (ok \<longrightarrow> effect op (load p fs) \<noteq> None)"
    and other: "sound w q \<Longrightarrow> q \<noteq> p \<Longrightarrow> load q (snd (step w p op fs)) = load q fs"
begin

lemma load_after: "sound w q \<Longrightarrow> load q (snd (step w p op fs)) = load q fs
    \<or> (p = q \<and> load q (snd (step w p op fs)) = effect op (load q fs) \<and> effect op (load q fs) \<noteq> None)"
  using own [of w p op fs "fst (step w p op fs)" "snd (step w p op fs)"] other [of w q p op fs]
  by (cases "p = q"; cases "fst (step w p op fs)") auto

text \<open>An invariant of one record that its own operations keep survives any run of operations on all of them.\<close>

lemma run_invariant:
  assumes "\<And>w p op. (w, p, op) \<in> set run \<Longrightarrow> sound w q"
    and "\<And>w op r. (w, q, op) \<in> set run \<Longrightarrow> P r \<Longrightarrow> effect op r \<noteq> None \<Longrightarrow> P (effect op r)" and "P (load q fs)"
  shows "P (load q (fold (\<lambda>(w, p, op) fs. snd (step w p op fs)) run fs))"
  using assms
proof (induction run arbitrary: fs)
  case (Cons x run)
  obtain w p op where x: "x = (w, p, op)" by (cases x)
  have "P (load q (snd (step w p op fs)))"
    using load_after [of w q p op fs] Cons.prems(1) [of w p op] Cons.prems(2) [of w op "load q fs"] Cons.prems(3) x by auto
  moreover have "sound w' q" if "(w', p', op') \<in> set run" for w' p' op' using Cons.prems(1) that by auto
  moreover have "P (effect op' r)" if "(w', q, op') \<in> set run" "P r" "effect op' r \<noteq> None" for w' op' r
    using Cons.prems(2) [of w' op' r] that by simp
  ultimately show ?case using Cons.IH x by simp
qed simp

end

datatype recordOp = OpAttempt int | OpSuccess int string | OpStore snapshot

definition opRecord :: "recordOp \<Rightarrow> snapshot option \<Rightarrow> snapshot" where
  "opRecord op r = (let s = (case r of None \<Rightarrow> zeroSnapshot | Some s \<Rightarrow> s) in
     case op of
       OpAttempt now \<Rightarrow> s\<lparr>snCheckedAt := now\<rparr>
     | OpSuccess now latest \<Rightarrow>
         (let s1 = s\<lparr>snCheckedAt := now, snSucceededAt := now\<rparr> in if latest \<noteq> [] then s1\<lparr>snLatestVersion := latest\<rparr> else s1)
     | OpStore s' \<Rightarrow> s')"

definition recordStep :: "cacheEnv \<Rightarrow> 'e writeEnv \<Rightarrow> string \<Rightarrow> recordOp \<Rightarrow> fileSystem \<Rightarrow> bool \<times> fileSystem" where
  "recordStep env we path op fs =
     (let c = \<lparr> chPath = path, chPeerPath = [] \<rparr>;
          r = (case op of
                 OpAttempt now \<Rightarrow> snd (RecordAttempt env we c now fs)
               | OpSuccess now latest \<Rightarrow> snd (RecordSuccess env we c now latest fs)
               | OpStore s \<Rightarrow> cacheStore env we c s fs)
      in (fst r = None, snd r))"

lemma recordStep_store:
  "recordStep env we path op fs = (let r = storeRecord env we path (opRecord op (loadRecord env path fs)) fs in (fst r = None, snd r))"
  by (cases op) (simp_all add: recordStep_def opRecord_def RecordAttempt_def RecordSuccess_def cacheStore_def loadedOrZero_def Let_def)

lemma storeRecord_success: "fst (storeRecord env we path s fs) = None \<Longrightarrow> canonicalRecord (ceSemver env) s \<noteq> None"
  by (auto simp: storeRecord_def canonicalRecord_def split: option.split_asm)

interpretation records: record_files "loadRecord env" "recordStep env :: 'e writeEnv \<Rightarrow> _"
    "\<lambda>op r. canonicalRecord (ceSemver env) (opRecord op r)" "soundWrite env" for env
proof unfold_locales
  fix we :: "'e writeEnv" and p q op fs ok fs'
  show "soundWrite env we q \<Longrightarrow> q \<noteq> p \<Longrightarrow> loadRecord env q (snd (recordStep env we p op fs)) = loadRecord env q fs"
    by (simp add: recordStep_store Let_def storeRecord_other)
  assume a: "soundWrite env we p" "recordStep env we p op fs = (ok, fs')"
  let ?s = "opRecord op (loadRecord env p fs)"
  obtain err fs1 where s: "storeRecord env we p ?s fs = (err, fs1)" by fastforce
  with a(2) have "ok = (err = None)" "fs' = fs1" by (simp_all add: recordStep_store)
  with storeRecord_own [OF a(1) s] storeRecord_success [of env we p ?s fs] s
  show "loadRecord env p fs' = (if ok then canonicalRecord (ceSemver env) ?s else loadRecord env p fs)
      \<and> (ok \<longrightarrow> canonicalRecord (ceSemver env) ?s \<noteq> None)" by simp
qed

text \<open>A record that names a version, with times a run can give it.\<close>

definition goodRecord :: "semverLib \<Rightarrow> int set \<Rightarrow> snapshot option \<Rightarrow> bool" where
  "goodRecord sv ts r \<longleftrightarrow> (\<exists>s. r = Some s \<and> svIsValid sv (snLatestVersion s) \<and> snSucceededAt s \<in> ts)"

fun successTimes :: "('w \<times> string \<times> recordOp) list \<Rightarrow> string \<Rightarrow> int set" where
  "successTimes [] q = {}"
| "successTimes ((w, p, OpSuccess now latest) # run) q = (if p = q then insert now (successTimes run q) else successTimes run q)"
| "successTimes (x # run) q = successTimes run q"

lemma successTimes_mem: "(w, q, OpSuccess now latest) \<in> set run \<Longrightarrow> now \<in> successTimes run q"
  by (induction run q rule: successTimes.induct) auto

text \<open>What a refresh does: an attempt, or an answer that names a valid version or none.\<close>

fun refreshOp :: "semverLib \<Rightarrow> recordOp \<Rightarrow> bool" where
  "refreshOp sv (OpAttempt now) = True"
| "refreshOp sv (OpSuccess now latest) = (latest = [] \<or> svIsValid sv latest)"
| "refreshOp sv (OpStore s) = False"

lemma goodRecord_effect:
  assumes "semverForm sv" "goodRecord sv ts r" "refreshOp sv op" "\<And>now latest. op = OpSuccess now latest \<Longrightarrow> now \<in> ts"
  shows "goodRecord sv ts (canonicalRecord sv (opRecord op r))"
proof -
  from assms(2) obtain s where s: "r = Some s" "svIsValid sv (snLatestVersion s)" "snSucceededAt s \<in> ts" by (auto simp: goodRecord_def)
  note v = canonical_valid(1) [OF assms(1)]
  show ?thesis using assms(3,4) s
    by (cases op) (auto simp: goodRecord_def canonicalRecord_def opRecord_def Let_def v [OF s(2)] v)
qed

lemma record_survives:
  assumes "semverForm (ceSemver env)" "loadRecord env q fs = Some s" "svIsValid (ceSemver env) (snLatestVersion s)"
    and "list_all (\<lambda>(w, p, op). soundWrite env w q \<and> refreshOp (ceSemver env) op) run"
  shows "\<exists>s'. loadRecord env q (fold (\<lambda>(w, p, op) fs. snd (recordStep env w p op fs)) run fs) = Some s'
    \<and> svIsValid (ceSemver env) (snLatestVersion s') \<and> snSucceededAt s' \<in> insert (snSucceededAt s) (successTimes run q)"
proof -
  let ?ts = "insert (snSucceededAt s) (successTimes run q)"
  have "goodRecord (ceSemver env) ?ts (loadRecord env q (fold (\<lambda>(w, p, op) fs. snd (recordStep env w p op fs)) run fs))"
  proof (rule records.run_invariant)
    show "soundWrite env w q" if "(w, p, op) \<in> set run" for w p op using assms(4) that by (auto simp: list_all_iff)
    show "goodRecord (ceSemver env) ?ts (canonicalRecord (ceSemver env) (opRecord op r))"
      if "(w, q, op) \<in> set run" "goodRecord (ceSemver env) ?ts r" for w op r
    proof (rule goodRecord_effect [OF assms(1) that(2)])
      show "refreshOp (ceSemver env) op" using assms(4) that(1) by (auto simp: list_all_iff)
      show "now \<in> ?ts" if "op = OpSuccess now latest" for now latest
        using successTimes_mem [of w q now latest run] \<open>(w, q, op) \<in> set run\<close> that by simp
    qed
    show "goodRecord (ceSemver env) ?ts (loadRecord env q fs)" using assms(2,3) by (simp add: goodRecord_def)
  qed
  then show ?thesis by (auto simp: goodRecord_def)
qed

lemma record_untouched:
  assumes "list_all (\<lambda>(w, p, op). soundWrite env w q \<and> p \<noteq> q) run"
  shows "loadRecord env q (fold (\<lambda>(w, p, op) fs. snd (recordStep env w p op fs)) run fs) = loadRecord env q fs"
proof (rule records.run_invariant [where P = "\<lambda>r. r = loadRecord env q fs"])
qed (use assms in \<open>auto simp: list_all_iff\<close>)

section \<open>What the record says and what the server would say\<close>

lemma checkable:
  assumes "semverForm sv" "CheckableVersion sv v = Some i"
  shows "v \<noteq> devVersion" "i = normalizeVersion v" "svIsValid sv i" 
  using assms(2) by (auto simp: CheckableVersion_def canonicalVersion_def Let_def split: if_split_asm option.split_asm)

lemma stableTags_mem: "t \<in> set (stableTags sv rs) \<longleftrightarrow> (\<exists>r \<in> set rs. stableTag sv r = Some t)"
  by (induction rs) (auto simp: stableTags_Cons stableTags_def List.map_filter_simps split: option.split)

text \<open>A record that names the best tag of some releases announces an update exactly when one of them is newer.\<close>

lemma notice_newer:
  assumes "semverOrder sv" "semverForm sv" "CheckableVersion sv v = Some i"
    and "bestTag sv (stableTags sv rs) (snLatestVersion s)" "stableTags sv rs \<noteq> []"
  shows "Notice sv s v \<noteq> None \<longleftrightarrow> filter (newerThan sv i) rs \<noteq> []"
proof -
  let ?b = "snLatestVersion s"
  have mem: "t \<in> set (stableTags sv rs) \<longleftrightarrow> (\<exists>r \<in> set rs. stableTag sv r = Some t)" for t
    by (rule stableTags_mem)
  have b: "?b \<in> set (stableTags sv rs)" "\<And>t. t \<in> set (stableTags sv rs) \<Longrightarrow> svCompare sv t ?b \<le> 0"
    using assms(4,5) by (auto simp: bestTag_def list_all_iff)
  then have "svIsValid sv ?b" using mem stableTag_valid by blast
  note c = canonical_valid [OF assms(2) this]
  have "Notice sv s v \<noteq> None \<longleftrightarrow> svCompare sv ?b i > 0"
    using assms(3) c(1,3) by (simp add: Notice_def not_le)
  also have "\<dots> \<longleftrightarrow> (\<exists>t \<in> set (stableTags sv rs). svCompare sv t i > 0)"
  proof
    show "\<exists>t \<in> set (stableTags sv rs). svCompare sv t i > 0" if "svCompare sv ?b i > 0" using that b(1) by blast
    assume "\<exists>t \<in> set (stableTags sv rs). svCompare sv t i > 0"
    then obtain t where t: "t \<in> set (stableTags sv rs)" "svCompare sv t i > 0" by blast
    show "svCompare sv ?b i > 0"
    proof (rule ccontr)
      assume "\<not> svCompare sv ?b i > 0"
      then have "svCompare sv t i \<le> 0" using semver_trans [OF assms(1) b(2) [OF t(1)], of i] by simp
      with t(2) show False by simp
    qed
  qed
  also have "\<dots> \<longleftrightarrow> filter (newerThan sv i) rs \<noteq> []"
    unfolding filter_empty_conv Bex_def mem by (force simp: newerThan_def split: option.splits)
  finally show ?thesis .
qed

section \<open>Properties\<close>

text \<open>
  A release counts as stable when it is neither a draft nor flagged as a prerelease, and its tag is a
  valid version with no prerelease part.
\<close>

definition stableRelease :: "semverLib \<Rightarrow> githubRelease \<Rightarrow> bool" where
  "stableRelease sv r \<longleftrightarrow> \<not> grDraft r \<and> \<not> grPrerelease r
     \<and> svIsValid sv (normalizeVersion (grTagName r)) \<and> svPrerelease sv (normalizeVersion (grTagName r)) = []"

lemma stableTag_release:
  "stableTag sv r = (if stableRelease sv r then Some (normalizeVersion (grTagName r)) else None)"
  using stableTag_iff [of sv r "normalizeVersion (grTagName r)"] stableTag_none [of sv r]
  unfolding stableRelease_def by argo

lemma newerThan_release:
  "newerThan sv i = (\<lambda>r. stableRelease sv r \<and> 0 < svCompare sv (normalizeVersion (grTagName r)) i)"
  by (rule ext) (simp add: newerThan_def stableTag_release)

lemma bestTag_release:
  assumes "bestTag sv (stableTags sv rs) b"
  shows "if \<exists>r \<in> set rs. stableRelease sv r
    then (\<exists>r \<in> set rs. stableRelease sv r \<and> b = normalizeVersion (grTagName r))
      \<and> (\<forall>r \<in> set rs. stableRelease sv r \<longrightarrow> svCompare sv (normalizeVersion (grTagName r)) b \<le> 0)
    else b = []"
proof -
  have m: "t \<in> set (stableTags sv rs) \<longleftrightarrow> (\<exists>r \<in> set rs. stableRelease sv r \<and> t = normalizeVersion (grTagName r))" for t
    unfolding stableTags_mem by (auto simp: stableTag_release)
  have "stableTags sv rs = [] \<longleftrightarrow> \<not> (\<exists>r \<in> set rs. stableRelease sv r)"
    using m by (metis last_in_set list.set_cases list.discI)
  then show ?thesis using assms m unfolding bestTag_def list_all_iff by (cases "stableTags sv rs = []") auto
qed

text \<open>
  Claim C22. A check of a released build against pages that can be fetched answers without an error. It
  reports exactly the stable releases on those pages whose version is greater than the installed one,
  each with its tag, name, notes, page and date, in order of falling version; there is an update exactly
  when there is one such release; the latest version is the tag of the first, so of the greatest; and
  \<open>LatestStable\<close> is the greatest version of the stable releases of the pages, newer or not, or nothing
  when there is none.
\<close>

theorem check_exact:
  assumes "semverOrder sv" "semverForm sv" "installedVersion \<noteq> devVersion" "svIsValid sv (normalizeVersion installedVersion)"
    and "walkedReleases server maxPages (firstPageURL baseURL) = Some rs"
  shows "\<exists>res kept. Check sv server goos goarch baseURL installedVersion = (res, None)
    \<and> urReleases res = map (\<lambda>r. \<lparr> reTagName = grTagName r, reName = grName r, reBody = grBody r,
          reHTMLURL = grHTMLURL r, rePublishedAt = grPublishedAt r \<rparr>) kept
    \<and> mset kept = {# r \<in># mset rs. \<not> grDraft r \<and> \<not> grPrerelease r
          \<and> svIsValid sv (normalizeVersion (grTagName r)) \<and> svPrerelease sv (normalizeVersion (grTagName r)) = []
          \<and> 0 < svCompare sv (normalizeVersion (grTagName r)) (normalizeVersion installedVersion) #}
    \<and> sorted_wrt (\<lambda>a b. 0 \<le> svCompare sv (normalizeVersion (grTagName a)) (normalizeVersion (grTagName b))) kept
    \<and> urInstalledVersion res = installedVersion
    \<and> urUpdateAvailable res = (kept \<noteq> []) \<and> urLatestVersion res = (if kept = [] then [] else grTagName (hd kept))
    \<and> (if \<exists>r \<in> set rs. stableRelease sv r
       then (\<exists>r \<in> set rs. stableRelease sv r \<and> urLatestStable res = normalizeVersion (grTagName r))
         \<and> (\<forall>r \<in> set rs. stableRelease sv r \<longrightarrow> svCompare sv (normalizeVersion (grTagName r)) (urLatestStable res) \<le> 0)
       else urLatestStable res = [])"
proof -
  let ?new = "filter (newerThan sv (normalizeVersion installedVersion)) rs"
  let ?kept = "sliceStable (newerFirst sv) ?new"
  obtain res where c: "Check sv server goos goarch baseURL installedVersion = (res, None)" "bestTag sv (stableTags sv rs) (urLatestStable res)"
    "urUpdateAvailable res = (?new \<noteq> [])" "urReleases res = map entryOf ?kept"
    "urLatestVersion res = (if ?new = [] then [] else reTagName (hd (urReleases res)))"
    using check_ok [OF assms] by blast
  have k: "?kept = [] \<longleftrightarrow> ?new = []" unfolding sliceStable_def by simp
  have l: "urLatestVersion res = (if ?kept = [] then [] else grTagName (hd ?kept))"
    using c(4,5) k by (cases ?kept) (simp_all add: entryOf_def)
  have m: "mset ?kept = {# r \<in># mset rs. \<not> grDraft r \<and> \<not> grPrerelease r
          \<and> svIsValid sv (normalizeVersion (grTagName r)) \<and> svPrerelease sv (normalizeVersion (grTagName r)) = []
          \<and> 0 < svCompare sv (normalizeVersion (grTagName r)) (normalizeVersion installedVersion) #}"
    by (simp add: sliceStable_def newerThan_release stableRelease_def conj_assoc mset_filter)
  have o: "(\<lambda>a b. \<not> newerFirst sv b a)
      = (\<lambda>a b. 0 \<le> svCompare sv (normalizeVersion (grTagName a)) (normalizeVersion (grTagName b)))"
    using semver_sign(1) [OF assms(1)] by (intro ext) (auto simp: newerFirst_def not_less not_le)
  have e: "entryOf = (\<lambda>r. \<lparr> reTagName = grTagName r, reName = grName r, reBody = grBody r,
          reHTMLURL = grHTMLURL r, rePublishedAt = grPublishedAt r \<rparr>)"
    by (rule ext) (simp add: entryOf_def)
  have i: "urInstalledVersion res = installedVersion" using check_installed c(1) by (metis fst_conv)
  show ?thesis
    by (intro exI [of _ res] exI [of _ ?kept] conjI c(1) m i l)
       (use c(3,4) k e newer_sorted [OF assms(1)] o bestTag_release [OF c(2)] in simp_all)
qed

text \<open>
  Claim C24. However the app and the command line interleave their attempts and answers, and whichever of the
  writes fail, a surface that has a record naming a version keeps one: it always loads, its version is
  valid, its time of success is an earlier one or that of one of its own answers; and while only the other
  surface writes, it does not change at all.
\<close>

theorem records_do_not_interfere:
  assumes "semverForm (ceSemver env)" "loadRecord env q fs = Some s" "svIsValid (ceSemver env) (snLatestVersion s)"
    and "list_all (\<lambda>(w, p, op). soundWrite env w q \<and> refreshOp (ceSemver env) op) run"
  defines "fs' \<equiv> fold (\<lambda>(w, p, op) fs. snd (recordStep env w p op fs)) run fs"
  shows "\<exists>s'. loadRecord env q fs' = Some s' \<and> svIsValid (ceSemver env) (snLatestVersion s')
    \<and> snSucceededAt s' \<in> insert (snSucceededAt s) (successTimes run q)
    \<and> (list_ex (\<lambda>(w, p, op). p = q) run \<or> s' = s)"
proof -
  obtain s' where s': "loadRecord env q fs' = Some s'" "svIsValid (ceSemver env) (snLatestVersion s')"
    "snSucceededAt s' \<in> insert (snSucceededAt s) (successTimes run q)"
    using record_survives [OF assms(1-4)] unfolding fs'_def by blast
  have "s' = s" if "\<not> list_ex (\<lambda>(w, p, op). p = q) run"
  proof -
    have "list_all (\<lambda>(w, p, op). soundWrite env w q \<and> p \<noteq> q) run"
      using assms(4) that by (induction run) auto
    from record_untouched [OF this, of fs] assms(2) s'(1) show ?thesis by (simp add: fs'_def)
  qed
  with s' show ?thesis by blast
qed

lemma attempt_fresh:
  assumes "soundWrite env we (chPath c)" "RecordAttempt env we c now fs = (s, None, fs')"
  shows "\<exists>r. loadRecord env (chPath c) fs' = Some r \<and> snCheckedAt r = now"
proof -
  let ?s = "(loadedOrZero env (chPath c) fs)\<lparr>snCheckedAt := now\<rparr>"
  have st: "storeRecord env we (chPath c) ?s fs = (None, fs')" using assms(2) by (auto simp: RecordAttempt_def Let_def)
  then obtain r where r: "canonicalRecord (ceSemver env) ?s = Some r" using storeRecord_success [of env we "chPath c" ?s fs] by auto
  moreover from r have "snCheckedAt r = now" by (auto simp: canonicalRecord_def)
  ultimately show ?thesis using storeRecord_own [OF assms(1) st] by simp
qed

lemma success_fresh:
  assumes "soundWrite env we (chPath c)" "RecordSuccess env we c now latest fs = (s, err, fs')"
    "\<exists>r. loadRecord env (chPath c) fs = Some r \<and> snCheckedAt r = now"
  shows "\<exists>r. loadRecord env (chPath c) fs' = Some r \<and> snCheckedAt r = now"
proof -
  let ?s0 = "(loadedOrZero env (chPath c) fs)\<lparr>snCheckedAt := now, snSucceededAt := now\<rparr>"
  let ?s = "if latest \<noteq> [] then ?s0\<lparr>snLatestVersion := latest\<rparr> else ?s0"
  have st: "storeRecord env we (chPath c) ?s fs = (err, fs')" using assms(2) by (auto simp: RecordSuccess_def Let_def)
  show ?thesis
  proof (cases "err = None")
    case True
    then obtain r where r: "canonicalRecord (ceSemver env) ?s = Some r" using st storeRecord_success [of env we "chPath c" ?s fs] by auto
    moreover from r have "snCheckedAt r = now" by (auto simp: canonicalRecord_def split: if_split_asm)
    ultimately show ?thesis using storeRecord_own [OF assms(1) st] True by simp
  next
    case False
    with storeRecord_own [OF assms(1) st] assms(3) show ?thesis by simp
  qed
qed

lemma within_ttl: "t \<noteq> 0 \<Longrightarrow> t \<le> now \<Longrightarrow> now < t + CacheTTL \<Longrightarrow> within t now CacheTTL"
  by (auto simp: within_def timeSub_def CacheTTL_def minInt64_def maxInt64_def)

text \<open>
  The command line asks the server at most once in the time a record stays fresh: once a command
  has written its attempt, then whether or not the server answered, and whether or not the answer could be
  written, no command run within that time asks again.
\<close>

theorem refresh_throttled:
  assumes "neCache e = Some c" "pnRefresh (startNotice env we1 we2 e args fs) = Some (s, fs')"
    and "fst (snd (RecordAttempt env we1 c (neNow e) fs)) = None"
    and "soundWrite env we1 (chPath c)" "soundWrite env we2 (chPath c)"
    and "neCache e' = Some c" "neNow e \<noteq> 0" "neNow e \<le> neNow e'" "neNow e' < neNow e + CacheTTL"
  shows "pnRefresh (startNotice env we3 we4 e' args' fs') = None"
proof -
  obtain s1 fs1 where a: "RecordAttempt env we1 c (neNow e) fs = (s1, None, fs1)"
    using assms(3) by (cases "RecordAttempt env we1 c (neNow e) fs") auto
  have fresh: "\<exists>r. loadRecord env (chPath c) fs1 = Some r \<and> snCheckedAt r = neNow e"
    by (rule attempt_fresh [OF assms(4) a])
  have "\<exists>r. loadRecord env (chPath c) fs' = Some r \<and> snCheckedAt r = neNow e"
  proof (cases "askLatest (neLatest e)")
    case None
    with a assms(1,2) have "fs' = fs1"
      by (auto simp: startNotice_def refreshSnapshot_def Let_def split: if_split_asm prod.split_asm)
    with fresh show ?thesis by simp
  next
    case (Some tag)
    obtain s2 err fs2 where r: "RecordSuccess env we2 c (neNow e) tag fs1 = (s2, err, fs2)" by (cases "RecordSuccess env we2 c (neNow e) tag fs1")
    with a Some assms(1,2) have "fs' = fs2"
      by (auto simp: startNotice_def refreshSnapshot_def Let_def split: if_split_asm prod.split_asm)
    with success_fresh [OF assms(5) r fresh] show ?thesis by simp
  qed
  then have "Fresh (loadedOrZero env (chPath c) fs') (neNow e') CacheTTL"
    using within_ttl [OF assms(7-9)] by (auto simp: loadedOrZero_def Fresh_def)
  with assms(6) show ?thesis by (simp add: startNotice_def Let_def)
qed

text \<open>The two surfaces of one directory.\<close>

lemma openCache_pair:
  assumes "openCache dir SurfaceApp = (Inr ca :: 'e cacheError + cacheHandle)" "openCache dir SurfaceCLI = (Inr cc :: 'f cacheError + cacheHandle)"
  shows "chPeerPath cc = chPath ca" "chPeerPath ca = chPath cc"
  using assms by (auto simp: openCache_def peerSurface_def SurfaceApp_def SurfaceCLI_def split: if_split_asm)

lemma recordCheck_other:
  assumes "soundWrite env we q" "usCache svc = Some c" "q \<noteq> chPath c"
  shows "loadRecord env q (recordCheck env we svc now res err fs) = loadRecord env q fs"
proof -
  have "snd (snd (RecordSuccess env we c now l fs)) = snd (storeRecord env we (chPath c) (fst (RecordSuccess env we c now l fs)) fs)" for l
    by (simp add: RecordSuccess_def Let_def)
  then show ?thesis using storeRecord_other [OF assms(1,3)] assms(2) by (simp add: recordCheck_def case_prod_beta)
qed

lemma recorded_check:
  assumes "semverOrder (ceSemver env)" "semverForm (ceSemver env)" "CheckableVersion (ceSemver env) (usVersion svc) = Some i"
    and "walkedReleases (lcServer lc) maxPages (firstPageURL (lcBaseURL lc)) = Some rs" "stableTags (ceSemver env) rs \<noteq> []"
    and "usCache svc = Some c" "soundWrite env we (chPath c)"
    and "CheckForUpdate env we lc svc now fs = ((res, err), fs')" "fst (snd (RecordSuccess env we c now (urLatestStable res) fs)) = None"
  shows "\<exists>s. loadRecord env (chPath c) fs' = Some s \<and> snSucceededAt s = now \<and> bestTag (ceSemver env) (stableTags (ceSemver env) rs) (snLatestVersion s)
    \<and> snLatestVersion s = fold (\<lambda>t b. higherTag (ceSemver env) b t) (stableTags (ceSemver env) rs) []"
proof -
  let ?sv = "ceSemver env"
  note ch = checkable [OF assms(2,3)]
  obtain r where r: "Check ?sv (lcServer lc) (lcGoos lc) (lcGoarch lc) (lcBaseURL lc) (usVersion svc) = (r, None)"
    "bestTag ?sv (stableTags ?sv rs) (urLatestStable r)"
    using check_ok [OF assms(1,2) ch(1) _ assms(4)] ch(2,3) by blast
  let ?b = "urLatestStable r"
  have "?b \<in> set (stableTags ?sv rs)" using r(2) assms(5) by (simp add: bestTag_def)
  then have "svIsValid ?sv ?b" using stableTags_mem stableTag_valid by blast
  note b = canonical_valid [OF assms(2) this]
  have f: "res = r" "snd (snd (RecordSuccess env we c now ?b fs)) = fs'"
    using assms(3,6,8) r(1) by (auto simp: CheckForUpdate_def recordCheck_def split: prod.split_asm)
  let ?s = "(loadedOrZero env (chPath c) fs)\<lparr>snCheckedAt := now, snSucceededAt := now, snLatestVersion := ?b\<rparr>"
  have st: "storeRecord env we (chPath c) ?s fs = (None, fs')"
    using assms(9) f b(3) by (cases "storeRecord env we (chPath c) ?s fs") (simp add: RecordSuccess_def Let_def)
  have "?b = fold (\<lambda>t b. higherTag ?sv b t) (stableTags ?sv rs) []"
    using check_stable [OF ch(1) _ assms(4), of ?sv "lcGoos lc" "lcGoarch lc"] ch(2,3) r(1) by simp
  with storeRecord_own [OF assms(7) st] b(1) r(2) show ?thesis by (auto simp: canonicalRecord_def)
qed

text \<open>When an update is reported, the greatest stable version ranks with the first release reported.\<close>

lemma latest_ranks:
  assumes "semverOrder sv" "semverForm sv" "installedVersion \<noteq> devVersion" "svIsValid sv (normalizeVersion installedVersion)"
    "walkedReleases server maxPages (firstPageURL baseURL) = Some rs"
    "Check sv server goos goarch baseURL installedVersion = (res, None)" "urUpdateAvailable res"
  shows "svCompare sv (urLatestStable res) (normalizeVersion (urLatestVersion res)) = 0
    \<and> 0 < svCompare sv (urLatestStable res) (normalizeVersion installedVersion)"
proof -
  let ?i = "normalizeVersion installedVersion" and ?v = "\<lambda>r. normalizeVersion (grTagName r)"
  let ?new = "filter (newerThan sv ?i) rs"
  let ?kept = "sliceStable (newerFirst sv) ?new"
  have c: "bestTag sv (stableTags sv rs) (urLatestStable res)" "?new \<noteq> []" "urReleases res = map entryOf ?kept"
    "urLatestVersion res = reTagName (hd (urReleases res))"
    using check_ok [OF assms(1-5), of goos goarch] assms(6,7) by auto
  obtain n ns where k: "?kept = n # ns" using c(2) by (cases ?kept) (auto simp: sliceStable_def)
  then have l: "urLatestVersion res = grTagName n" using c(3,4) by (simp add: entryOf_def)
  have set: "set ?kept = set ?new" by (simp add: sliceStable_def)
  then have "n \<in> set ?new" using k by (metis list.set_intros(1))
  then have n: "n \<in> set rs" "stableRelease sv n" "0 < svCompare sv (?v n) ?i" by (simp_all add: newerThan_release)
  note b = bestTag_release [OF c(1)]
  then have nb: "svCompare sv (?v n) (urLatestStable res) \<le> 0" using n by (meson)
  obtain r where r: "r \<in> set rs" "stableRelease sv r" "urLatestStable res = ?v r" using b n by (meson)
  have gt: "0 < svCompare sv (?v r) ?i"
  proof (rule ccontr)
    assume "\<not> 0 < svCompare sv (?v r) ?i"
    then have "svCompare sv (?v n) ?i \<le> 0" using semver_trans [OF assms(1) nb [unfolded r(3)]] by simp
    with n(3) show False by simp
  qed
  then have "r \<in> set (n # ns)" using r set k by (simp add: newerThan_release)
  moreover have "sorted_wrt (\<lambda>a b. \<not> newerFirst sv b a) (n # ns)" using newer_sorted [OF assms(1)] k by metis
  ultimately have "\<not> newerFirst sv r n" using semver_sign(2) [OF assms(1)] by (auto simp: newerFirst_def)
  then have "svCompare sv (?v r) (?v n) \<le> 0" by (simp add: newerFirst_def)
  moreover have "\<not> svCompare sv (?v r) (?v n) < 0" using semver_sign(1) [OF assms(1), of "?v n" "?v r"] nb r(3) by simp
  ultimately show ?thesis using l r(3) gt by simp
qed

text \<open>
  Claim C23. What the app learns reaches the command line: after a live check of the app whose answer was
  recorded, a command run while that record is confirmed and with no record of its own asks the server
  nothing, and what it prints is what a live check for its own version against the same pages would
  report: nothing when that check reports no update, and otherwise the notice that names the installed
  version and that check's greatest stable version, which ranks with the newest release it reports.
\<close>

theorem app_check_reaches_notice:
  assumes "semverOrder (ceSemver env)" "semverForm (ceSemver env)" "CheckableVersion (ceSemver env) (usVersion svc) = Some i"
    and "walkedReleases (lcServer lc) maxPages (firstPageURL (lcBaseURL lc)) = Some rs" "stableTags (ceSemver env) rs \<noteq> []"
    and "openCache dir SurfaceApp = (Inr ca :: 'e cacheError + cacheHandle)" "openCache dir SurfaceCLI = (Inr cc :: 'e cacheError + cacheHandle)"
    and "usCache svc = Some ca" "soundWrite env we (chPath ca)" "soundWrite env we (chPath cc)" "chPath ca \<noteq> chPath cc"
    and "CheckForUpdate env we lc svc now fs = ((res, err), fs')" "fst (snd (RecordSuccess env we ca now (urLatestStable res) fs)) = None"
    and "loadRecord env (chPath cc) fs = None" "neCache e = Some cc" "eligible (ceSemver env) e args"
    and "now \<noteq> 0" "now \<le> neNow e" "neNow e < now + CacheTTL"
  shows "pnRefresh (startNotice env we1 we2 e args fs') = None
    \<and> (let live = fst (Check (ceSemver env) (lcServer lc) (lcGoos lc) (lcGoarch lc) (lcBaseURL lc) (neVersion e)) in
         finishNotice (ceSemver env) e (startNotice env we1 we2 e args fs') w
           = (if urUpdateAvailable live
              then newline @ noticeBox [''Update available: '' @ trimPrefix (neVersion e) ''v'' @ '' -> ''
                       @ trimPrefix (drop 1 (urLatestStable live)) ''v'',
                     ''https://github.com/unidoc/pdfdebug/releases''] (neWidth e)
              else [])
         \<and> (urUpdateAvailable live \<longrightarrow>
              svCompare (ceSemver env) (urLatestStable live) (normalizeVersion (urLatestVersion live)) = 0
              \<and> 0 < svCompare (ceSemver env) (urLatestStable live) (normalizeVersion (neVersion e))))"
proof -
  let ?sv = "ceSemver env"
  obtain s where s: "loadRecord env (chPath ca) fs' = Some s" "snSucceededAt s = now" "bestTag ?sv (stableTags ?sv rs) (snLatestVersion s)"
    "snLatestVersion s = fold (\<lambda>t b. higherTag ?sv b t) (stableTags ?sv rs) []"
    using recorded_check [OF assms(1-5,8,9,12,13)] by blast
  have own: "loadRecord env (chPath cc) fs' = None"
  proof -
    have "loadRecord env (chPath cc) fs' = loadRecord env (chPath cc) fs"
      using recordCheck_other [OF assms(10) assms(8), of now] assms(11,12)
      by (auto simp: CheckForUpdate_def split: prod.split_asm)
    with assms(14) show ?thesis by simp
  qed
  have conf: "Confirmed s (neNow e) CacheTTL" using within_ttl [OF assms(17-19)] s(2) by (simp add: Confirmed_def)
  have peer: "confirmedPeer env cc (neNow e) fs' = s"
    using s(1) conf openCache_pair(1) [OF assms(6,7)] by (simp add: confirmedPeer_def cacheLoadPeer_def)
  have b: "snLatestVersion s \<in> set (stableTags ?sv rs)" using s(3) assms(5) by (simp add: bestTag_def)
  then have "svIsValid ?sv (snLatestVersion s)" using stableTags_mem stableTag_valid by blast
  note bv = canonical_valid [OF assms(2) this]
  have pre: "hasPrefix (snLatestVersion s) ''v''" using assms(2) \<open>svIsValid ?sv (snLatestVersion s)\<close> by (simp add: semverForm_def)
  have z: "canonicalVersion ?sv [] = Some []" by (simp add: canonicalVersion_def trimSpace_def trimLeft.simps)
  have newer: "Newer ?sv zeroSnapshot s = s" using bv(1,3) z by (simp add: Newer_def zeroSnapshot_def)
  have p: "startNotice env we1 we2 e args fs' = \<lparr> pnSnap = s, pnPeer = s, pnRefresh = None \<rparr>"
    using assms(15,16) own peer newer conf by (simp add: startNotice_def Let_def loadedOrZero_def)
  obtain j where j: "CheckableVersion ?sv (neVersion e) = Some j" using assms(16) by (auto simp: eligible_def split: if_split_asm)
  note ch = checkable [OF assms(2) j]
  obtain r where r: "Check ?sv (lcServer lc) (lcGoos lc) (lcGoarch lc) (lcBaseURL lc) (neVersion e) = (r, None)"
    "urUpdateAvailable r = (filter (newerThan ?sv (normalizeVersion (neVersion e))) rs \<noteq> [])"
    using check_ok [OF assms(1,2) ch(1) _ assms(4)] ch(2,3) by blast
  have st: "snLatestVersion s = urLatestStable r"
    using check_stable [OF ch(1) _ assms(4), of ?sv "lcGoos lc" "lcGoarch lc"] ch(2,3) r(1) s(4) by simp
  have shown: "Notice ?sv s (neVersion e) = (if urUpdateAvailable r then Some (drop 1 (urLatestStable r)) else None)"
  proof (cases "Notice ?sv s (neVersion e)")
    case None
    then show ?thesis using notice_newer [OF assms(1,2) j s(3) assms(5)] ch(2) r(2) by simp
  next
    case (Some v)
    then have "v = drop 1 (snLatestVersion s)" using j bv(1) pre by (simp add: Notice_def split: if_split_asm)
    with Some show ?thesis using notice_newer [OF assms(1,2) j s(3) assms(5)] ch(2) r(2) st by simp
  qed
  have rank: "urUpdateAvailable r \<longrightarrow> svCompare ?sv (urLatestStable r) (normalizeVersion (urLatestVersion r)) = 0
      \<and> 0 < svCompare ?sv (urLatestStable r) (normalizeVersion (neVersion e))"
    using latest_ranks [OF assms(1,2) ch(1) _ assms(4) r(1)] ch(2,3) by blast
  have snap: "finishSnap (startNotice env we1 we2 e args fs') w = s" by (simp add: p finishSnap_def)
  show ?thesis
    unfolding r(1) fst_conv Let_def finishNotice_def snap shown
    using rank p by (simp add: writeNotice_def releasesURL_def)
qed

section \<open>A sample\<close>

text \<open>Three versions, a server with a beta between two releases, and a disk that takes every write.\<close>

definition demoVersions :: "string list" where "demoVersions = [''v1.0.0'', ''v1.1.0'', ''v2.0.0'']"

definition demoRank :: "string \<Rightarrow> int" where
  "demoRank v = (if v = ''v1.0.0'' then 0 else if v = ''v1.1.0'' then 1 else if v = ''v2.0.0'' then 2 else -1)"

definition demoSemver :: semverLib where
  "demoSemver = \<lparr> svIsValid = (\<lambda>v. v \<in> set demoVersions), svCompare = (\<lambda>a b. goCompare (demoRank a) (demoRank b)), svPrerelease = (\<lambda>v. []) \<rparr>"

definition demoRelease :: "string \<Rightarrow> bool \<Rightarrow> githubRelease" where
  "demoRelease tag pre = \<lparr> grTagName = tag, grName = tag, grBody = [], grHTMLURL = [], grPublishedAt = [], grPrerelease = pre, grDraft = False, grAssets = [] \<rparr>"

definition demoReleases :: "githubRelease list" where
  "demoReleases = [demoRelease ''1.1.0'' False, demoRelease ''v3.0.0-beta'' True, demoRelease ''v2.0.0'' False, demoRelease ''v1.0.0'' False]"

definition demoServer :: releaseServer where
  "demoServer url = HttpAnswer 200 (Inr demoReleases) []"

definition demoCheck :: liveCheck where
  "demoCheck = \<lparr> lcServer = demoServer, lcGoos = ''linux'', lcGoarch = ''amd64'', lcBaseURL = ''https://api.github.com/'' \<rparr>"

lemma demoRank_valid: "svIsValid demoSemver v \<longleftrightarrow> demoRank v \<noteq> -1"
  by (simp add: demoSemver_def demoRank_def demoVersions_def)

lemma demo_order: "semverOrder demoSemver"
proof -
  have "demoRank v \<ge> -1" for v by (simp add: demoRank_def)
  then have "goCompare (demoRank a) (demoRank b) < 0" if "\<not> svIsValid demoSemver a" "svIsValid demoSemver b" for a b
    using that by (fastforce simp: demoRank_valid order.strict_iff_order)
  moreover have "goCompare x y = - goCompare y x" for x y :: int by (auto simp: goCompare_def)
  moreover have "goCompare x y \<le> 0 \<Longrightarrow> goCompare y z \<le> 0 \<Longrightarrow> goCompare x z \<le> 0" for x y z :: int by simp
  moreover have "svCompare demoSemver a b = goCompare (demoRank a) (demoRank b)" for a b by (simp add: demoSemver_def)
  ultimately show ?thesis unfolding semverOrder_def by metis
qed

lemma demo_form: "semverForm demoSemver"
  by (auto simp: semverForm_def demoSemver_def demoVersions_def hasPrefix_def plainChar_def byteOf_def)

lemma demo_walked: "walkedReleases demoServer maxPages (firstPageURL ''https://api.github.com/'') = Some demoReleases"
proof -
  have m: "maxPages = Suc 4" "walkedReleases demoServer 4 [] = Some []" by (simp_all add: maxPages_def eval_nat_numeral)
  have f: "fetchPage demoServer u = Inr (demoReleases, [])" for u by (simp add: fetchPage_def demoServer_def)
  have u: "firstPageURL ''https://api.github.com/'' \<noteq> []" by (simp add: firstPageURL_def releasesPath_def)
  show ?thesis unfolding m(1) walkedReleases.simps(2) f using u m(2) by simp
qed

lemma demo_normal: "normalizeVersion ''1.0.0'' = ''v1.0.0''" "normalizeVersion ''1.1.0'' = ''v1.1.0''"
  "normalizeVersion ''v2.0.0'' = ''v2.0.0''" "normalizeVersion ''v1.0.0'' = ''v1.0.0''"
proof -
  have "trimSpace ''1.0.0'' = ''1.0.0''" "trimSpace ''1.1.0'' = ''1.1.0''" "trimSpace ''v2.0.0'' = ''v2.0.0''" "trimSpace ''v1.0.0'' = ''v1.0.0''"
    by (rule trimSpace_plain, simp add: plainChar_def byteOf_def)+
  then show "normalizeVersion ''1.0.0'' = ''v1.0.0''" "normalizeVersion ''1.1.0'' = ''v1.1.0''"
    "normalizeVersion ''v2.0.0'' = ''v2.0.0''" "normalizeVersion ''v1.0.0'' = ''v1.0.0''"
    by (simp_all add: normalizeVersion_def hasPrefix_def)
qed

lemmas demo_defs = demoReleases_def demoRelease_def demoSemver_def demoVersions_def demoRank_def stableTag_def demo_normal goCompare_def

lemma demo_newer: "filter (newerThan demoSemver ''v1.0.0'') demoReleases = [demoRelease ''1.1.0'' False, demoRelease ''v2.0.0'' False]"
  by (simp add: demo_defs newerThan_def)

lemma demo_tags: "stableTags demoSemver demoReleases = [''v1.1.0'', ''v2.0.0'', ''v1.0.0'']"
  by (simp add: stableTags_def List.map_filter_simps demo_defs)

theorem check_exact_witness:
  "\<exists>res. Check demoSemver demoServer ''linux'' ''amd64'' ''https://api.github.com/'' ''1.0.0'' = (res, None)
    \<and> urUpdateAvailable res \<and> length (urReleases res) = 2"
proof -
  have v: "''1.0.0'' \<noteq> devVersion" "svIsValid demoSemver (normalizeVersion ''1.0.0'')" by (simp_all add: devVersion_def demo_defs)
  have k: "length (filter (newerThan demoSemver (normalizeVersion ''1.0.0'')) demoReleases) = 2" by (simp add: demo_newer demo_normal)
  obtain res kept where c: "Check demoSemver demoServer ''linux'' ''amd64'' ''https://api.github.com/'' ''1.0.0'' = (res, None)"
    "length (urReleases res) = length kept"
    "mset kept = {# r \<in># mset demoReleases. \<not> grDraft r \<and> \<not> grPrerelease r
          \<and> svIsValid demoSemver (normalizeVersion (grTagName r)) \<and> svPrerelease demoSemver (normalizeVersion (grTagName r)) = []
          \<and> 0 < svCompare demoSemver (normalizeVersion (grTagName r)) (normalizeVersion ''1.0.0'') #}"
    "urUpdateAvailable res = (kept \<noteq> [])"
    using check_exact [OF demo_order demo_form v demo_walked, of "''linux''" "''amd64''"] by (metis (lifting) length_map)
  have "mset kept = mset (filter (newerThan demoSemver (normalizeVersion ''1.0.0'')) demoReleases)"
    unfolding c(3) by (simp add: newerThan_release stableRelease_def conj_assoc mset_filter)
  with k have "length kept = 2" by (metis size_mset)
  with c show ?thesis by auto
qed

definition demoSnapshot :: snapshot where
  "demoSnapshot = \<lparr> snSchema = 1, snCheckedAt = 7, snSucceededAt = 7, snLatestVersion = ''v2.0.0'' \<rparr>"

text \<open>A coding of a few records that decodes what it encodes.\<close>

definition demoCodes :: "(snapshot \<times> byte list) list" where
  "demoCodes = [(demoSnapshot, [1]), (demoSnapshot\<lparr>snCheckedAt := 9\<rparr>, [2]),
     (\<lparr> snSchema = 1, snCheckedAt = 7, snSucceededAt = 0, snLatestVersion = [] \<rparr>, [3])]"

definition demoCache :: cacheEnv where
  "demoCache = \<lparr> ceSemver = demoSemver, ceMarshal = map_of demoCodes,
     ceUnmarshal = map_of (map (\<lambda>(s, d). (d, s)) demoCodes), ceWindows = False, ceReadFails = (\<lambda>p. False) \<rparr>"

definition demoWrite :: "unit writeEnv" where
  "demoWrite = \<lparr> weMkdir = None, weEntries = [], weMatches = (\<lambda>p. False), weInfoFails = (\<lambda>p. False), weTemp = Inr ''/c/t'',
     weWrite = None, weClose = None, weRename = (\<lambda>i. None), weRemoveFails = (\<lambda>p. False), weNow = 7 \<rparr>"

lemma demo_sound: "q \<noteq> ''/c/t'' \<Longrightarrow> soundWrite demoCache demoWrite q"
  using demo_form by (auto simp: soundWrite_def demoCache_def demoWrite_def demoCodes_def demoSnapshot_def split: if_split_asm)

definition demoFile :: "byte list \<Rightarrow> fileSystem" where
  "demoFile d = [''/c/a'' \<mapsto> \<lparr> fileData = d, fileModTime = 0, fileIsDir = False \<rparr>]"

lemma demo_load: "loadRecord demoCache ''/c/a'' (demoFile [1]) = Some demoSnapshot"
proof -
  have "canonicalVersion demoSemver ''v2.0.0'' = Some ''v2.0.0''" by (rule canonical_valid [OF demo_form]) (simp add: demoSemver_def demoVersions_def)
  then show ?thesis by (simp add: loadRecord_def demoFile_def demoCache_def demoCodes_def demoSnapshot_def cacheSchema_def)
qed

text \<open>The app attempts a check at 9; the command line's attempt on its own file follows.\<close>

theorem records_do_not_interfere_witness:
  "\<exists>s. loadRecord demoCache ''/c/a'' (fold (\<lambda>(w, p, op) fs. snd (recordStep demoCache w p op fs))
      [(demoWrite, ''/c/a'', OpAttempt 9), (demoWrite, ''/c/b'', OpAttempt 7)] (demoFile [1])) = Some s \<and> snSucceededAt s = 7"
proof -
  have v: "svIsValid (ceSemver demoCache) (snLatestVersion demoSnapshot)" by (simp add: demoCache_def demoSemver_def demoVersions_def demoSnapshot_def)
  have f: "semverForm (ceSemver demoCache)" using demo_form by (simp add: demoCache_def)
  have l: "list_all (\<lambda>(w, p, op). soundWrite demoCache w ''/c/a'' \<and> refreshOp (ceSemver demoCache) op)
      [(demoWrite, ''/c/a'', OpAttempt 9), (demoWrite, ''/c/b'', OpAttempt 7)]" using demo_sound by simp
  show ?thesis using records_do_not_interfere [OF f demo_load v l] by (auto simp: demoSnapshot_def)
qed

definition demoHandle :: cacheHandle where "demoHandle = \<lparr> chPath = ''/c/b'', chPeerPath = ''/c/a'' \<rparr>"

definition demoNotice :: "int \<Rightarrow> noticeEnv" where
  "demoNotice now = \<lparr> neVersion = ''1.0.0'', neHasEnv = (\<lambda>v. False), neStdoutTTY = True, neStderrTTY = True, neWidth = 80,
     neNow = now, neCache = Some demoHandle, neLatest = AskError \<rparr>"

lemma demo_checkable: "CheckableVersion demoSemver ''1.0.0'' = Some ''v1.0.0''" "CheckableVersion demoSemver ''v2.0.0'' = Some ''v2.0.0''"
proof -
  have "trimSpace ''1.0.0'' = ''1.0.0''" "trimSpace ''v2.0.0'' = ''v2.0.0''"
    by (rule trimSpace_plain, simp add: plainChar_def byteOf_def)+
  then show "CheckableVersion demoSemver ''1.0.0'' = Some ''v1.0.0''" "CheckableVersion demoSemver ''v2.0.0'' = Some ''v2.0.0''"
    by (simp_all add: CheckableVersion_def devVersion_def canonicalVersion_def demo_defs)
qed

lemma demo_eligible: "eligible demoSemver (demoNotice now) [''info'']"
proof -
  have "machineFormat [''info''] = False" by code_simp
  then show ?thesis by (simp add: eligible_def demo_checkable demoNotice_def interactive_def optedOut_def optOutVars_def)
qed

lemma demo_attempt: "fst (snd (RecordAttempt demoCache demoWrite demoHandle 7 Map.empty)) = None"
proof -
  have "canonicalVersion demoSemver [] = Some []" by (simp add: canonicalVersion_def trimSpace_def trimLeft.simps)
  then show ?thesis
    by (simp add: RecordAttempt_def loadedOrZero_def loadRecord_def storeRecord_def writeRecord_def atomicWrite_def Let_def demoCache_def demoCodes_def
        demoWrite_def demoHandle_def zeroSnapshot_def demoSnapshot_def cacheSchema_def renameLoop.simps)
qed

theorem refresh_throttled_witness:
  "\<exists>s fs'. pnRefresh (startNotice demoCache demoWrite demoWrite (demoNotice 7) [''info''] Map.empty) = Some (s, fs')
    \<and> pnRefresh (startNotice demoCache demoWrite demoWrite (demoNotice 8) [''info''] fs') = None"
proof -
  have el: "eligible (ceSemver demoCache) (demoNotice 7) [''info'']" using demo_eligible by (simp add: demoCache_def)
  have f: "\<not> within 0 now CacheTTL" for now by (simp add: within_def)
  have n: "pnRefresh (startNotice demoCache demoWrite demoWrite (demoNotice 7) [''info''] Map.empty) \<noteq> None"
    using el f by (simp add: startNotice_def demoNotice_def Let_def loadedOrZero_def loadRecord_def confirmedPeer_def cacheLoadPeer_def
        Fresh_def Confirmed_def zeroSnapshot_def split: prod.split)
  then obtain s fs' where s: "pnRefresh (startNotice demoCache demoWrite demoWrite (demoNotice 7) [''info''] Map.empty) = Some (s, fs')"
    by (metis not_None_eq surj_pair)
  have c: "neCache (demoNotice k) = Some demoHandle" "neNow (demoNotice k) = k" for k by (simp_all add: demoNotice_def)
  have w: "soundWrite demoCache demoWrite (chPath demoHandle)" by (rule demo_sound) (simp add: demoHandle_def)
  from refresh_throttled [OF c(1) s _ w w c(1), of 8 demoWrite demoWrite "[''info'']"] s demo_attempt
  show ?thesis by (auto simp: c(2) CacheTTL_def)
qed

text \<open>The two surfaces in one directory, and the app's live check recorded at 7.\<close>

definition appHandle :: cacheHandle where "appHandle = \<lparr> chPath = ''/c/updatecheck-app.json'', chPeerPath = ''/c/updatecheck-cli.json'' \<rparr>"
definition cliHandle :: cacheHandle where "cliHandle = \<lparr> chPath = ''/c/updatecheck-cli.json'', chPeerPath = ''/c/updatecheck-app.json'' \<rparr>"

lemma demo_open: "openCache ''/c'' SurfaceApp = (Inr appHandle :: unit cacheError + cacheHandle)"
  "openCache ''/c'' SurfaceCLI = (Inr cliHandle :: unit cacheError + cacheHandle)"
  by code_simp+

definition demoService :: updateService where "demoService = \<lparr> usVersion = ''v2.0.0'', usCache = Some appHandle \<rparr>"

theorem app_check_reaches_notice_witness:
  "\<exists>res err fs'. CheckForUpdate demoCache demoWrite demoCheck demoService 7 Map.empty = ((res, err), fs')
    \<and> finishNotice demoSemver ((demoNotice 8)\<lparr>neCache := Some cliHandle\<rparr>)
         (startNotice demoCache demoWrite demoWrite ((demoNotice 8)\<lparr>neCache := Some cliHandle\<rparr>) [''info''] fs') Unanswered \<noteq> []"
proof -
  let ?e = "(demoNotice 8)\<lparr>neCache := Some cliHandle\<rparr>"
  have sv: "ceSemver demoCache = demoSemver" by (simp add: demoCache_def)
  have o: "semverOrder (ceSemver demoCache)" "semverForm (ceSemver demoCache)" using demo_order demo_form by (simp_all add: sv)
  have i: "CheckableVersion (ceSemver demoCache) (usVersion demoService) = Some ''v2.0.0''"
    by (simp add: sv demo_checkable demoService_def)
  have w: "walkedReleases (lcServer demoCheck) maxPages (firstPageURL (lcBaseURL demoCheck)) = Some demoReleases"
    using demo_walked by (simp add: demoCheck_def)
  have t: "stableTags (ceSemver demoCache) demoReleases \<noteq> []" by (simp add: sv demo_tags)
  have s: "usCache demoService = Some appHandle" "soundWrite demoCache demoWrite (chPath appHandle)" "soundWrite demoCache demoWrite (chPath cliHandle)"
    "chPath appHandle \<noteq> chPath cliHandle"
    by (simp_all add: demoService_def demo_sound appHandle_def cliHandle_def)
  obtain res err fs' where c: "CheckForUpdate demoCache demoWrite demoCheck demoService 7 Map.empty = ((res, err), fs')" by (metis surj_pair)
  have l: "urLatestStable res = ''v2.0.0''"
  proof -
    have "bestTag demoSemver (stableTags demoSemver demoReleases) (urLatestStable res)"
      using check_ok [OF demo_order demo_form _ _ demo_walked, of "''v2.0.0''" "''linux''" "''amd64''"] c
      by (auto simp: CheckForUpdate_def demoCheck_def demoService_def sv devVersion_def demo_defs split: prod.split_asm)
    then have "urLatestStable res \<in> {''v1.1.0'', ''v2.0.0'', ''v1.0.0''}" "svCompare demoSemver ''v2.0.0'' (urLatestStable res) \<le> 0"
      by (auto simp: bestTag_def demo_tags)
    then show ?thesis by (auto simp: demo_defs)
  qed
  have ok: "fst (snd (RecordSuccess demoCache demoWrite appHandle 7 (urLatestStable res) Map.empty)) = None"
  proof -
    have "canonicalVersion demoSemver ''v2.0.0'' = Some ''v2.0.0''" by (rule canonical_valid [OF demo_form]) (simp add: demo_defs)
    then show ?thesis
      by (simp add: l RecordSuccess_def loadedOrZero_def loadRecord_def storeRecord_def writeRecord_def atomicWrite_def Let_def demoCache_def demoCodes_def
          demoWrite_def zeroSnapshot_def demoSnapshot_def cacheSchema_def renameLoop.simps)
  qed
  have e: "loadRecord demoCache (chPath cliHandle) Map.empty = None" "neCache ?e = Some cliHandle" by (simp_all add: loadRecord_def)
  have el: "eligible (ceSemver demoCache) ?e [''info'']" using demo_eligible [of 8] by (simp add: sv eligible_def demoNotice_def interactive_def optedOut_def optOutVars_def demo_checkable)
  have "urUpdateAvailable (fst (Check demoSemver demoServer ''linux'' ''amd64'' ''https://api.github.com/'' ''1.0.0''))"
    using check_ok [OF demo_order demo_form _ _ demo_walked, of "''1.0.0''" "''linux''" "''amd64''"] demo_newer
    by (auto simp: devVersion_def demo_defs)
  with app_check_reaches_notice [OF o i w t demo_open s c ok e el, of demoWrite demoWrite Unanswered] c
  show ?thesis by (auto simp: demoNotice_def demoCheck_def sv CacheTTL_def newline_def Let_def)
qed

end
