(* ===== verification/UpdateDownload.thy ===== *)
theory UpdateDownload
  imports UpdateCheck AtomicFile Paths
begin

text \<open>
  The verified download (\<^verbatim>\<open>DownloadAndVerify\<close> of \<^verbatim>\<open>internal/updatecheck/updatecheck.go\<close>). The network and the
  operating system are a record of answers; the hash function is a parameter. The result is the saved path or
  an error, the progress reports, and the states the file system goes through (one for the whole of the
  writing to the temp file).
\<close>

section \<open>Answers\<close>

text \<open>One read of a response body: some bytes; the last bytes; bytes and an error.\<close>

datatype 'e readAnswer = ReadMore "byte list" | ReadEnd "byte list" | ReadFail "byte list" 'e

datatype 'e bodyAnswer = GetFailed 'e | GetAnswer nat int "'e readAnswer list"

datatype 'e sumsAnswer = SumsFailed 'e | SumsAnswer nat "'e + string"

text \<open>
  \<open>deWait\<close> answers the pause hook before each read, \<open>deWrite\<close> each write to the temp file (on an error, with
  the bytes that made it), \<open>deCopy\<close> the copy of a file that could not be renamed; \<open>deNotExist\<close> is the error of
  a path that is not there.
\<close>

record 'e downloadEnv =
  deTemp :: "'e + string"
  deAsset :: "'e bodyAnswer"
  deWait :: "nat \<Rightarrow> 'e option"
  deWrite :: "nat \<Rightarrow> (nat \<times> 'e) option"
  deClose :: "'e option"
  deSums :: "'e sumsAnswer"
  deStatFails :: "string \<Rightarrow> 'e option"
  deRename :: "'e option"
  deOpenFails :: "'e option"
  deNotExist :: 'e
  deCreateFails :: "'e option"
  deCopy :: "(nat \<times> 'e) option"
  deCloseOut :: "'e option"
  deRemoveFails :: "string \<Rightarrow> bool"
  deNow :: int

datatype 'e downloadError =
    ErrChecksumVerify | ErrChecksumMissing | DownloadStatus nat | EscapesDest | NoFreeName string | SystemError 'e

datatype phase = PhaseDownloading | PhaseVerifying | PhaseSaving

record progress =
  pgPhase :: phase
  pgReceived :: int
  pgTotal :: int

definition progressEmitBytes :: int where "progressEmitBytes = 512 * 1024"

definition phaseOnly :: "phase \<Rightarrow> progress" where
  "phaseOnly p = \<lparr> pgPhase = p, pgReceived = 0, pgTotal = 0 \<rparr>"

definition received :: "int \<Rightarrow> int \<Rightarrow> progress" where
  "received n total' = \<lparr> pgPhase = PhaseDownloading, pgReceived = n, pgTotal = total' \<rparr>"

section \<open>The transfer\<close>

text \<open>What has been written, the count at the last report, and the reports.\<close>

record transfer =
  trData :: "byte list"
  trReceived :: int
  trLastEmit :: int
  trReports :: "progress list"

definition takeChunk :: "'e downloadEnv \<Rightarrow> int \<Rightarrow> nat \<Rightarrow> byte list \<Rightarrow> transfer \<Rightarrow> transfer \<times> 'e option" where
  "takeChunk env total' i chunk tr =
     (if chunk = [] then (tr, None)
      else (case deWrite env i of
              Some (n, e) \<Rightarrow> (tr\<lparr>trData := trData tr @ take n chunk\<rparr>, Some e)
            | None \<Rightarrow>
                (let tr1 = tr\<lparr>trData := trData tr @ chunk, trReceived := trReceived tr + int (length chunk)\<rparr> in
                 (if trReceived tr1 - trLastEmit tr1 \<ge> progressEmitBytes
                  then tr1\<lparr>trLastEmit := trReceived tr1, trReports := trReports tr1 @ [received (trReceived tr1) total']\<rparr>
                  else tr1, None))))"

fun readBody :: "'e downloadEnv \<Rightarrow> int \<Rightarrow> nat \<Rightarrow> 'e readAnswer list \<Rightarrow> transfer \<Rightarrow> transfer \<times> 'e option" where
  "readBody env total' i reads tr =
     (case deWait env i of
        Some e \<Rightarrow> (tr, Some e)
      | None \<Rightarrow>
          (case reads of
             [] \<Rightarrow> (tr, None)
           | ReadEnd chunk # _ \<Rightarrow> takeChunk env total' i chunk tr
           | ReadFail chunk e # _ \<Rightarrow>
               (case takeChunk env total' i chunk tr of (tr1, Some e1) \<Rightarrow> (tr1, Some e1) | (tr1, None) \<Rightarrow> (tr1, Some e))
           | ReadMore chunk # rest \<Rightarrow>
               (case takeChunk env total' i chunk tr of
                  (tr1, Some e1) \<Rightarrow> (tr1, Some e1)
                | (tr1, None) \<Rightarrow> readBody env total' (i + 1) rest tr1)))"

declare readBody.simps [simp del]

definition downloadTo :: "'e downloadEnv \<Rightarrow> transfer \<times> 'e downloadError option" where
  "downloadTo env =
     (let tr0 = \<lparr> trData = [], trReceived = 0, trLastEmit = 0, trReports = [] \<rparr> in
      case deAsset env of
        GetFailed e \<Rightarrow> (tr0, Some (SystemError e))
      | GetAnswer status contentLength reads \<Rightarrow>
          if status \<noteq> 200 then (tr0, Some (DownloadStatus status))
          else (case readBody env contentLength 0 reads (tr0\<lparr>trReports := [received 0 contentLength]\<rparr>) of
                  (tr, Some e) \<Rightarrow> (tr, Some (SystemError e))
                | (tr, None) \<Rightarrow> (tr\<lparr>trReports := trReports tr @ [received (trReceived tr) contentLength]\<rparr>, None)))"

section \<open>The checksum\<close>

definition hexDigit :: "nat \<Rightarrow> char" where
  "hexDigit d = (if d < 10 then charOf (48 + d) else charOf (87 + d))"

definition hexEncode :: "byte list \<Rightarrow> string" where
  "hexEncode bs = concat (map (\<lambda>b. [hexDigit (unat b div 16), hexDigit (unat b mod 16)]) bs)"

text \<open>
  \<^verbatim>\<open>strings.ToLower\<close>, on the ASCII letters: the result is only compared with hexadecimal digits, to which
  no other letter lowers.
\<close>

definition asciiLower :: "string \<Rightarrow> string" where
  "asciiLower s = map (\<lambda>c. if 65 \<le> byteOf c \<and> byteOf c \<le> 90 then charOf (byteOf c + 32) else c) s"

fun splitNewline :: "string \<Rightarrow> string list" where
  "splitNewline [] = [[]]"
| "splitNewline (c # s) =
     (if c = CHR 0x0A then [] # splitNewline s
      else (case splitNewline s of [] \<Rightarrow> [[c]] | l # ls \<Rightarrow> (c # l) # ls))"

definition sumLine :: "string \<Rightarrow> string \<Rightarrow> string option" where
  "sumLine assetName line =
     (case strFields line of
        [digest, name] \<Rightarrow>
          if (if hasPrefix name ''*'' then drop 1 name else name) = assetName then Some (asciiLower digest) else None
      | _ \<Rightarrow> None)"

definition sumsLimit :: nat where "sumsLimit = 2 ^ 20"

definition expectedSum :: "'e downloadEnv \<Rightarrow> string \<Rightarrow> 'e downloadError + string" where
  "expectedSum env assetName =
     (case deSums env of
        SumsFailed e \<Rightarrow> Inl (SystemError e)
      | SumsAnswer status body \<Rightarrow>
          if status \<noteq> 200 then Inl ErrChecksumMissing
          else (case body of
                  Inl e \<Rightarrow> Inl (SystemError e)
                | Inr text' \<Rightarrow>
                    (case List.map_filter (sumLine assetName) (splitNewline (take sumsLimit text')) of
                       [] \<Rightarrow> Inl ErrChecksumMissing
                     | digest # _ \<Rightarrow> Inr digest)))"

section \<open>The name\<close>

definition maxNameCollisions :: nat where "maxNameCollisions = 1000"

text \<open>\<^verbatim>\<open>filepath.Ext\<close> of a name.\<close>

definition pathExt :: "string \<Rightarrow> string" where
  "pathExt p =
     (let t = rev (takeWhile (\<lambda>c. c \<noteq> CHR ''.'' \<and> c \<noteq> sep) (rev p)); before = rev (drop (length t) (rev p))
      in if before \<noteq> [] \<and> last before = CHR ''.'' then CHR ''.'' # t else [])"

definition nameFree :: "'e downloadEnv \<Rightarrow> string \<Rightarrow> fileSystem \<Rightarrow> string \<Rightarrow> 'e + bool" where
  "nameFree env destDir fs candidate =
     (let p = pathJoin [destDir, candidate] in
      case deStatFails env p of Some e \<Rightarrow> Inl e | None \<Rightarrow> Inr (fs p = None))"

text \<open>Base and extension, with \<^verbatim>\<open>.tar.gz\<close> kept whole.\<close>

definition splitName :: "string \<Rightarrow> string \<times> string" where
  "splitName name =
     (let ext = pathExt name; base = take (length name - length ext) name in
      if hasSuffix base ''.tar'' then (take (length base - 4) base, ''.tar'' @ ext) else (base, ext))"

definition numberedName :: "string \<Rightarrow> string \<Rightarrow> nat \<Rightarrow> string" where
  "numberedName base ext n = base @ '' ('' @ showNat n @ '')'' @ ext"

fun tryNames :: "'e downloadEnv \<Rightarrow> string \<Rightarrow> fileSystem \<Rightarrow> string \<Rightarrow> string \<Rightarrow> nat list \<Rightarrow> 'e downloadError + string" where
  "tryNames env destDir fs base ext [] = Inl (NoFreeName (base @ ext))"
| "tryNames env destDir fs base ext (n # ns) =
     (case nameFree env destDir fs (numberedName base ext n) of
        Inl e \<Rightarrow> Inl (SystemError e)
      | Inr free \<Rightarrow> if free then Inr (numberedName base ext n) else tryNames env destDir fs base ext ns)"

definition availableName :: "'e downloadEnv \<Rightarrow> string \<Rightarrow> fileSystem \<Rightarrow> string \<Rightarrow> 'e downloadError + string" where
  "availableName env destDir fs name =
     (case nameFree env destDir fs name of
        Inl e \<Rightarrow> Inl (SystemError e)
      | Inr free \<Rightarrow>
          if free then Inr name
          else (case splitName name of (base, ext) \<Rightarrow> tryNames env destDir fs base ext [1..<maxNameCollisions + 1]))"

section \<open>The move\<close>

definition removeFile :: "'e downloadEnv \<Rightarrow> string \<Rightarrow> fileSystem \<Rightarrow> fileSystem" where
  "removeFile env p fs = (if deRemoveFails env p then fs else fs(p := None))"

definition plainFile :: "'e downloadEnv \<Rightarrow> byte list \<Rightarrow> fileEntry" where
  "plainFile env d = \<lparr> fileData = d, fileModTime = deNow env, fileIsDir = False \<rparr>"

text \<open>\<open>moveFile\<close>: the error, and the states it goes through.\<close>

definition moveFile :: "'e downloadEnv \<Rightarrow> string \<Rightarrow> string \<Rightarrow> fileSystem \<Rightarrow> 'e option \<times> fileSystem list" where
  "moveFile env src dst fs =
     (case deRename env of
        None \<Rightarrow> (None, [osRename src dst fs])
      | Some _ \<Rightarrow>
          (case (deOpenFails env, fs src) of
             (Some e, _) \<Rightarrow> (Some e, [])
           | (None, None) \<Rightarrow> (Some (deNotExist env), [])
           | (None, Some f) \<Rightarrow>
               (case deCreateFails env of
                  Some e \<Rightarrow> (Some e, [])
                | None \<Rightarrow>
                    (let fs1 = fs(dst \<mapsto> plainFile env []) in
                     case deCopy env of
                       Some (n, e) \<Rightarrow>
                         (let fs2 = fs1(dst \<mapsto> plainFile env (take n (fileData f))) in (Some e, [fs1, fs2, removeFile env dst fs2]))
                     | None \<Rightarrow>
                         (let fs2 = fs1(dst \<mapsto> plainFile env (fileData f)) in
                          case deCloseOut env of
                            Some e \<Rightarrow> (Some e, [fs1, fs2, removeFile env dst fs2])
                          | None \<Rightarrow> (None, [fs1, fs2, removeFile env src fs2]))))))"

section \<open>The download\<close>

text \<open>What the deferred clean-up does on every path that did not move the file.\<close>

definition cleanUp :: "'e downloadEnv \<Rightarrow> string \<Rightarrow> 'r \<Rightarrow> progress list \<Rightarrow> fileSystem list \<Rightarrow> 'r \<times> progress list \<times> fileSystem list" where
  "cleanUp env tmp r reports states = (r, reports, states @ [removeFile env tmp (last states)])"

definition DownloadAndVerify ::
  "'e downloadEnv \<Rightarrow> (byte list \<Rightarrow> byte list) \<Rightarrow> string \<Rightarrow> string \<Rightarrow> string \<Rightarrow> fileSystem
     \<Rightarrow> ('e downloadError + string) \<times> progress list \<times> fileSystem list" where
  "DownloadAndVerify env sha256 assetName0 sumsURL destDir fs =
     (if sumsURL = [] then (Inl ErrChecksumMissing, [], [fs])
      else let assetName = pathBase assetName0 in
        case deTemp env of
          Inl e \<Rightarrow> (Inl (SystemError e), [], [fs])
        | Inr tmp \<Rightarrow>
            (case downloadTo env of (tr, failed) \<Rightarrow>
              (let fs1 = fs(tmp \<mapsto> plainFile env []); fs2 = fs1(tmp \<mapsto> plainFile env (trData tr)); sofar = [fs, fs1, fs2] in
               case failed of
                 Some e \<Rightarrow> cleanUp env tmp (Inl e) (trReports tr) sofar
               | None \<Rightarrow>
                   (case deClose env of
                      Some e \<Rightarrow> cleanUp env tmp (Inl (SystemError e)) (trReports tr) sofar
                    | None \<Rightarrow>
                        (let reports = trReports tr @ [phaseOnly PhaseVerifying] in
                         case expectedSum env assetName of
                           Inl e \<Rightarrow> cleanUp env tmp (Inl e) reports sofar
                         | Inr expected \<Rightarrow>
                             if hexEncode (sha256 (trData tr)) \<noteq> expected then cleanUp env tmp (Inl ErrChecksumVerify) reports sofar
                             else (let reports1 = reports @ [phaseOnly PhaseSaving] in
                                   case availableName env destDir fs2 assetName of
                                     Inl e \<Rightarrow> cleanUp env tmp (Inl e) reports1 sofar
                                   | Inr name \<Rightarrow>
                                       (let dest = pathJoin [destDir, name] in
                                        if \<not> hasPrefix dest (pathClean destDir @ [sep]) then cleanUp env tmp (Inl EscapesDest) reports1 sofar
                                        else (case moveFile env tmp dest fs2 of
                                                (Some e, states) \<Rightarrow> cleanUp env tmp (Inl (SystemError e)) reports1 (sofar @ states)
                                              | (None, states) \<Rightarrow> (Inr dest, reports1, sofar @ states)))))))))"

end
