(* ===== verification/UpdateDownloadSpec.thy ===== *)
theory UpdateDownloadSpec
  imports UpdateDownload "HOL-Library.Sublist"
begin

text \<open>
  What a download does to the files: nothing that was there is touched, and what reaches the destination is
  a file whose checksum is the published one.
\<close>

section \<open>Moving\<close>

text \<open>Nothing, or the beginning of some bytes.\<close>

definition copying :: "byte list \<Rightarrow> fileEntry option \<Rightarrow> bool" where
  "copying d v \<longleftrightarrow> (case v of None \<Rightarrow> True | Some g \<Rightarrow> prefix (fileData g) d)"

lemma copying_simps [simp]: "copying d None" "copying d (Some g) = prefix (fileData g) d"
  by (simp_all add: copying_def)

lemma copying_plain [simp]: "copying (fileData f) (Some (plainFile env (take n (fileData f))))"
  "copying (fileData f) (Some (plainFile env (fileData f)))" "copying (fileData f) (Some (plainFile env []))"
  by (simp_all add: plainFile_def take_is_prefix)

lemma moveFile_states:
  assumes "fs src = Some f" "src \<noteq> dst" "moveFile env src dst fs = (err, states)" "st \<in> set states"
  shows "q \<noteq> src \<Longrightarrow> q \<noteq> dst \<Longrightarrow> st q = fs q" "copying (fileData f) (st dst)"
proof -
  show "q \<noteq> src \<Longrightarrow> q \<noteq> dst \<Longrightarrow> st q = fs q"
    using assms by (auto simp: moveFile_def osRename_def removeFile_def Let_def split: option.split_asm)
  show "copying (fileData f) (st dst)"
    using assms by (auto simp: moveFile_def osRename_def removeFile_def Let_def simp del: copying_simps split: option.split_asm)
      (simp_all)
qed

lemma moveFile_ok:
  assumes "fs src = Some f" "src \<noteq> dst" "moveFile env src dst fs = (None, states)" "\<not> deRemoveFails env src"
  shows "states \<noteq> []" "last states src = None" "\<exists>g. last states dst = Some g \<and> fileData g = fileData f"
  using assms by (auto simp: moveFile_def osRename_def removeFile_def plainFile_def Let_def split: option.split_asm)

lemma moveFile_failed:
  assumes "fs src = Some f" "src \<noteq> dst" "moveFile env src dst fs = (Some e, states)" "\<not> deRemoveFails env dst" "fs dst = None"
  shows "states = [] \<or> last states = fs"
  using assms by (auto simp: moveFile_def removeFile_def Let_def fun_eq_iff split: option.split_asm)

section \<open>The name\<close>

lemma nameFree_none: "nameFree env destDir fs c = Inr True \<Longrightarrow> fs (pathJoin [destDir, c]) = None"
  by (auto simp: nameFree_def Let_def split: option.split_asm)

lemma tryNames_free: "tryNames env destDir fs base ext ns = Inr name \<Longrightarrow> fs (pathJoin [destDir, name]) = None"
  by (induction ns) (auto split: sum.split_asm if_split_asm dest: nameFree_none)

lemma availableName_free: "availableName env destDir fs name0 = Inr name \<Longrightarrow> fs (pathJoin [destDir, name]) = None"
  by (auto simp: availableName_def split: sum.split_asm if_split_asm prod.split_asm dest: nameFree_none tryNames_free)

section \<open>The download\<close>

text \<open>How a call ends: without a saved file, or with one.\<close>

lemma download_cases:
  assumes "DownloadAndVerify env sha256 assetName sumsURL destDir fs = (r, reports, states)"
  obtains (early) "isl r" "states = [fs]"
  | (failed) tmp d where "deTemp env = Inr tmp" "isl r"
      "states = [fs, fs(tmp \<mapsto> plainFile env []), fs(tmp \<mapsto> plainFile env d), removeFile env tmp (fs(tmp \<mapsto> plainFile env d))]"
  | (moved) tmp d name sts err where "deTemp env = Inr tmp" "expectedSum env (pathBase assetName) = Inr (hexEncode (sha256 d))"
      "(fs(tmp \<mapsto> plainFile env d)) (pathJoin [destDir, name]) = None" "hasPrefix (pathJoin [destDir, name]) (pathClean destDir @ [sep])"
      "moveFile env tmp (pathJoin [destDir, name]) (fs(tmp \<mapsto> plainFile env d)) = (err, sts)"
      "r = (case err of None \<Rightarrow> Inr (pathJoin [destDir, name]) | Some e \<Rightarrow> Inl (SystemError e))"
      "states = [fs, fs(tmp \<mapsto> plainFile env []), fs(tmp \<mapsto> plainFile env d)] @ sts
         @ (if err = None then [] else [removeFile env tmp (last ([fs, fs(tmp \<mapsto> plainFile env []), fs(tmp \<mapsto> plainFile env d)] @ sts))])"
proof (cases "sumsURL = []")
  case True
  with assms early show thesis by (auto simp: DownloadAndVerify_def)
next
  case s: False
  show thesis
  proof (cases "deTemp env")
    case (Inl e)
    with s assms early show thesis by (auto simp: DownloadAndVerify_def Let_def)
  next
    case tmp: (Inr tmp)
    obtain tr fl where d: "downloadTo env = (tr, fl)" by fastforce
    note failed = failed [OF tmp, of "trData tr"]
    note unf = DownloadAndVerify_def Let_def cleanUp_def tmp d s
    show thesis
    proof (cases fl)
      case (Some e)
      show thesis by (rule failed) (use assms Some  in \<open>auto simp: unf\<close>)
    next
      case fl: None
      show thesis
      proof (cases "deClose env")
        case (Some e)
        show thesis by (rule failed) (use assms Some fl in \<open>auto simp: unf\<close>)
      next
        case cl: None
        show thesis
        proof (cases "expectedSum env (pathBase assetName)")
          case (Inl e)
          show thesis by (rule failed) (use assms Inl fl cl in \<open>auto simp: unf isl_def intro: sym\<close>)
        next
          case ex: (Inr expected)
          show thesis
          proof (cases "hexEncode (sha256 (trData tr)) = expected")
            case False
            show thesis by (rule failed) (use assms False fl cl ex in \<open>auto simp: unf\<close>)
          next
            case sum: True
            show thesis
            proof (cases "availableName env destDir (fs(tmp \<mapsto> plainFile env (trData tr))) (pathBase assetName)")
              case (Inl e)
              show thesis by (rule failed) (use assms Inl fl cl ex sum in \<open>auto simp: unf isl_def intro: sym\<close>)
            next
              case nm: (Inr name)
              show thesis
              proof (cases "hasPrefix (pathJoin [destDir, name]) (pathClean destDir @ [sep])")
                case False
                show thesis by (rule failed) (use assms False fl cl ex sum nm in \<open>auto simp: unf\<close>)
              next
                case pre: True
                obtain err sts where mv: "moveFile env tmp (pathJoin [destDir, name]) (fs(tmp \<mapsto> plainFile env (trData tr))) = (err, sts)"
                  by fastforce
                show thesis
                proof (rule moved [OF tmp _ availableName_free [OF nm] pre mv])
                  show "expectedSum env (pathBase assetName) = Inr (hexEncode (sha256 (trData tr)))" using ex sum by simp
                  show "r = (case err of None \<Rightarrow> Inr (pathJoin [destDir, name]) | Some e \<Rightarrow> Inl (SystemError e))"
                    using assms fl cl ex sum nm pre mv by (cases err) (simp_all add: unf)
                  show "states = [fs, fs(tmp \<mapsto> plainFile env []), fs(tmp \<mapsto> plainFile env (trData tr))] @ sts
                     @ (if err = None then [] else [removeFile env tmp (last ([fs, fs(tmp \<mapsto> plainFile env []), fs(tmp \<mapsto> plainFile env (trData tr))] @ sts))])"
                    using assms fl cl ex sum nm pre mv by (cases err) (simp_all add: unf)
                qed
              qed
            qed
          qed
        qed
      qed
    qed
  qed
qed

text \<open>The published digest of the asset, and bytes that have it.\<close>

definition verified :: "'e downloadEnv \<Rightarrow> (byte list \<Rightarrow> byte list) \<Rightarrow> string \<Rightarrow> byte list \<Rightarrow> bool" where
  "verified env sha256 assetName d \<longleftrightarrow> expectedSum env (pathBase assetName) = Inr (hexEncode (sha256 d))"

text \<open>
  Claim C25. An unverified download never reaches the destination and nothing is overwritten: at every moment
  a path other than the temp file's that differs from before was free, lies inside the destination directory
  and holds the beginning of bytes with the published checksum, the one \<open>expectedSum\<close> finds in the list; at the end, if the temp file was new and the
  system removes what it is asked to, the temp file is gone, a path is returned exactly when a file was saved,
  whole, and on every error the files are as they were.
\<close>

theorem download_verified:
  assumes "DownloadAndVerify env sha256 assetName sumsURL destDir fs = (r, reports, states)"
    and "\<And>tmp. deTemp env = Inr tmp \<Longrightarrow> fs tmp = None" "\<And>p. \<not> deRemoveFails env p"
  shows "list_all (\<lambda>st. \<forall>q. st q = fs q \<or> deTemp env = Inr q \<or> (fs q = None \<and> hasPrefix q (pathClean destDir @ [sep])
      \<and> (\<exists>f d. st q = Some f \<and> prefix (fileData f) d \<and> verified env sha256 assetName d))) states
    \<and> (case r of
         Inl e \<Rightarrow> last states = fs
       | Inr dest \<Rightarrow> \<exists>f d. last states = fs(dest \<mapsto> f) \<and> fs dest = None \<and> fileData f = d \<and> verified env sha256 assetName d)"
  using assms(1)
proof (cases rule: download_cases)
  case (failed tmp d)
  with assms(2) [OF failed(1)] assms(3) show ?thesis by (cases r) (auto simp: removeFile_def fun_eq_iff)
next
  case (moved tmp d name sts err)
  let ?dest = "pathJoin [destDir, name]" and ?fs = "fs(tmp \<mapsto> plainFile env d)"
  have src: "?fs tmp = Some (plainFile env d)" "tmp \<noteq> ?dest" "fs ?dest = None"
    using moved(3) by (auto split: if_split_asm)
  have v: "verified env sha256 assetName d" using moved(2) by (simp add: verified_def)
  have mid: "st q = fs q \<or> deTemp env = Inr q \<or> (fs q = None \<and> hasPrefix q (pathClean destDir @ [sep])
      \<and> (\<exists>f d. st q = Some f \<and> prefix (fileData f) d \<and> verified env sha256 assetName d))" if "st \<in> set sts" for st q
  proof (cases "q = tmp \<or> q \<noteq> ?dest")
    case True
    with moveFile_states(1) [OF src(1,2) moved(5) that, of q] moved(1) show ?thesis by auto
  next
    case False
    with moveFile_states(2) [OF src(1,2) moved(5) that] src v moved(4)
    show ?thesis by (auto simp: plainFile_def)
  qed
  have frame: "last states q = fs q" if "q \<noteq> tmp" "q \<noteq> ?dest" for q
  proof -
    have "st q = fs q" if "st \<in> set sts" for st
      using moveFile_states(1) [OF src(1,2) moved(5) that] \<open>q \<noteq> tmp\<close> \<open>q \<noteq> ?dest\<close> by simp
    with that show ?thesis using moved(7) by (cases "sts = []"; cases "err = None") (auto simp: removeFile_def)
  qed
  show ?thesis
  proof (cases err)
    case None
    note ok = moveFile_ok [OF src(1,2) moved(5) [unfolded None] assms(3)]
    have l: "last states = last sts" using moved(7) ok(1) None by simp
    obtain g where g: "last sts ?dest = Some g" "fileData g = d" using ok(3) by (auto simp: plainFile_def)
    have "last states = fs(?dest \<mapsto> g)"
    proof (rule ext)
      fix x show "last states x = (fs(?dest \<mapsto> g)) x"
        using frame [of x] ok(2) g(1) l assms(2) [OF moved(1)] src(2) by (cases "x = tmp"; cases "x = ?dest") simp_all
    qed
    then show ?thesis using moved(6,7) None mid src(3) v g(2) moved(1) by (auto simp: list_all_iff)
  next
    case (Some e)
    note bad = moveFile_failed [OF src(1,2) moved(5) [unfolded Some] assms(3) moved(3)]
    have "last states = removeFile env tmp ?fs" using bad moved(7) Some by (auto simp: fun_upd_def)
    then have "last states = fs" using assms(2) [OF moved(1)] assms(3) by (auto simp: removeFile_def fun_eq_iff)
    moreover from this have "list_all (\<lambda>st. \<forall>q. st q = fs q \<or> deTemp env = Inr q \<or> (fs q = None \<and> hasPrefix q (pathClean destDir @ [sep])
      \<and> (\<exists>f d. st q = Some f \<and> prefix (fileData f) d \<and> verified env sha256 assetName d))) states"
      using moved(1,7) Some mid by (auto simp: list_all_iff removeFile_def)
    ultimately show ?thesis using moved(6) Some by simp
  qed
next
  case early
  then show ?thesis by (cases r) simp_all
qed

text \<open>A download to a directory that has a file of the name, moved by copying.\<close>

definition demoSum :: "byte list \<Rightarrow> byte list" where "demoSum d = [sum_list d]"

definition demoDownload :: "string downloadEnv" where
  "demoDownload = \<lparr> deTemp = Inr ''/t/x'', deAsset = GetAnswer 200 3 [ReadMore [1, 2], ReadEnd [3]], deWait = (\<lambda>i. None), deWrite = (\<lambda>i. None),
     deClose = None, deSums = SumsAnswer 200 (Inr ''06 *a.zip''), deStatFails = (\<lambda>p. None), deRename = Some ''cross-device link'',
     deOpenFails = None, deNotExist = ''no such file'', deCreateFails = None, deCopy = None, deCloseOut = None,
     deRemoveFails = (\<lambda>p. False), deNow = 5 \<rparr>"

definition demoDir :: fileSystem where
  "demoDir = [''/d/a.zip'' \<mapsto> plainFile demoDownload [9]]"

theorem download_verified_witness:
  "last (snd (snd (DownloadAndVerify demoDownload demoSum ''a.zip'' ''u'' ''/d'' demoDir))) ''/d/a.zip'' = Some (plainFile demoDownload [9])"
proof -
  obtain r reports states where d: "DownloadAndVerify demoDownload demoSum ''a.zip'' ''u'' ''/d'' demoDir = (r, reports, states)"
    by (metis surj_pair)
  have new: "demoDir tmp = None" if "deTemp demoDownload = Inr tmp" for tmp using that by (auto simp: demoDownload_def demoDir_def)
  have rm: "\<not> deRemoveFails demoDownload p" for p by (simp add: demoDownload_def)
  have a: "demoDir ''/d/a.zip'' = Some (plainFile demoDownload [9])" by (simp add: demoDir_def)
  from conjunct2 [OF download_verified [OF d new rm]] a d show ?thesis by (cases r) auto
qed

end
