(* ===== verification/StructureTree.thy ===== *)
theory StructureTree
  imports NumberTree ScalarRender
begin

text \<open>
  The structure tree of a tagged document (\<^verbatim>\<open>internal/pdfcore/structure.go\<close>): the walk of \<open>/K\<close> from the structure
  tree root, with the elements, marked-content and object references it finds and the claims of elements on
  the marked content of pages. A read can panic; the panic ends the read of the innermost element, which
  keeps what it holds by then.
\<close>

section \<open>The report's parts\<close>

record kidInfo =
  kiKind :: string
  kiMCID :: "int option"
  kiPage :: int
  kiInherited :: bool
  kiStmRef :: string
  kiObjRef :: string
  kiObjType :: string
  kiErr :: string
  kiIndex :: nat

record elemInfo =
  eiRef :: string
  eiNodeID :: string
  eiS :: string
  eiMappedS :: string
  eiPgRef :: string
  eiPage :: int
  eiInherited :: bool
  eiTitle :: string
  eiLang :: string
  eiAlt :: "string option"
  eiActualText :: "string option"
  eiE :: "string option"
  eiErr :: string
  eiSErr :: string
  eiReadErr :: string

text \<open>A kid carries an element exactly when its kind is \<open>element\<close>.\<close>

datatype structKid = StructKid (skInfo: kidInfo) (skElement: "structElem option")
  and structElem = StructElem (seInfo: elemInfo) (seKids: "structKid list")

record structCounts =
  ctElements :: nat
  ctMCIDKids :: nat
  ctMCRKids :: nat
  ctOBJRKids :: nat
  ctErrorKids :: nat
  ctContentMCIDs :: nat

text \<open>
  The part of \<^verbatim>\<open>structureWalker\<close> the walk reads and writes. \<open>swPageNums\<close> and \<open>swRoleMap\<close> are fixed before it;
  \<open>swClaims\<close> lists page, MCID and owner of every claim in the order they were made.
\<close>

record structWalker =
  swPageNums :: "(int \<times> int) list"
  swRoleMap :: "(string \<times> string) list"
  swVisited :: "int list"
  swClaims :: "(int \<times> int \<times> string) list"
  swCounts :: structCounts

definition maxStructTreeDepth :: nat where "maxStructTreeDepth = 256"

definition noPageMsg :: string where
  "noPageMsg = ''no page: the nearest /Pg (on the kid, its element or an ancestor) is absent or not a page; MCID not attributed to a page''"

definition rootMCIDMsg :: string where
  "rootMCIDMsg = ''MCID directly under the structure tree root, with no element to own it; not aligned''"

definition directElement :: string where "directElement = ''(direct)''"

section \<open>Messages\<close>

definition appendErr :: "string list \<Rightarrow> string \<Rightarrow> string list" where
  "appendErr errs msg = (if msg = [] then errs else errs @ [msg])"

definition joinErr :: "string \<Rightarrow> string \<Rightarrow> string" where
  "joinErr a b = (if a = [] then b else a @ ''; '' @ b)"

definition joinErrs :: "string list \<Rightarrow> string" where
  "joinErrs errs = joinWith ''; '' errs"

section \<open>Counting and claiming\<close>

definition plainKid :: "string \<Rightarrow> kidInfo" where
  "plainKid kind = \<lparr> kiKind = kind, kiMCID = None, kiPage = 0, kiInherited = False, kiStmRef = [], kiObjRef = [],
     kiObjType = [], kiErr = [], kiIndex = 0 \<rparr>"

definition onCounts :: "(structCounts \<Rightarrow> structCounts) \<Rightarrow> structWalker \<Rightarrow> structWalker" where
  "onCounts f w = w\<lparr>swCounts := f (swCounts w)\<rparr>"

definition errorKid :: "string \<Rightarrow> structWalker \<Rightarrow> structWalker \<times> structKid" where
  "errorKid msg w = (onCounts (\<lambda>c. c\<lparr>ctErrorKids := ctErrorKids c + 1\<rparr>) w,
     StructKid ((plainKid ''error'')\<lparr>kiErr := msg\<rparr>) None)"

definition claim :: "string \<Rightarrow> int \<Rightarrow> int \<Rightarrow> structWalker \<Rightarrow> structWalker" where
  "claim owner page mcid w =
     (if owner = [] \<or> page = 0 then w else w\<lparr>swClaims := swClaims w @ [(page, mcid, owner)]\<rparr>)"

section \<open>Pages\<close>

text \<open>\<^verbatim>\<open>pageOf\<close>: the page number, the reference and the message; a panic is \<open>Inl\<close>.\<close>

definition pageOf :: "pdfDoc \<Rightarrow> structWalker \<Rightarrow> pdfObj \<Rightarrow> string + int \<times> string \<times> string" where
  "pageOf doc w pg =
     (case asRef pg of
        None \<Rightarrow> Inr (0, directElement, ''/Pg is '' @ objKind pg @ '', not a reference to a page'')
      | Some (n, g) \<Rightarrow>
          (let pgRef = refString n g in
           case map_of (swPageNums w) n of
             Some page \<Rightarrow> Inr (page, pgRef, [])
           | None \<Rightarrow>
               (case derefIn doc pg of
                  Inl p \<Rightarrow> Inl p
                | Inr target \<Rightarrow>
                    if target = PNull then Inr (0, pgRef, ''/Pg '' @ pgRef @ '' does not resolve to an object'')
                    else Inr (0, pgRef, ''/Pg '' @ pgRef @ '' is '' @ objKind target @ '' that is not a page in the page tree''))))"

definition kidPage :: "pdfDoc \<Rightarrow> structWalker \<Rightarrow> pdfDict \<Rightarrow> int \<Rightarrow> string + int \<times> bool \<times> string" where
  "kidPage doc w d page =
     (case dictFind d ''Pg'' of
        None \<Rightarrow> Inr (page, page \<noteq> 0, [])
      | Some pg \<Rightarrow> (case pageOf doc w pg of Inl p \<Rightarrow> Inl p | Inr (n, r, msg) \<Rightarrow> Inr (n, False, msg)))"

section \<open>Marked-content and object references\<close>

text \<open>\<open>/Stm\<close>: the reference shown, and a message.\<close>

definition stmEntry :: "pdfDoc \<Rightarrow> pdfDict \<Rightarrow> string + string \<times> string list" where
  "stmEntry doc d =
     (case dictFind d ''Stm'' of
        None \<Rightarrow> Inr ([], [])
      | Some stm \<Rightarrow>
          (case asRef stm of
             None \<Rightarrow> Inr (directElement, [''/Stm is '' @ objKind stm @ '', not a reference to a stream''])
           | Some (n, g) \<Rightarrow>
               (case derefIn doc stm of
                  Inl p \<Rightarrow> Inl p
                | Inr v \<Rightarrow> Inr (refString n g, if asPlainStream v \<noteq> None then []
                    else [''/Stm '' @ refString n g @ '' is '' @ objKind v @ '', not a stream'']))))"

text \<open>The kid and, when its MCID is claimed for the owner, that MCID.\<close>

definition mcrKid :: "pdfDoc \<Rightarrow> structWalker \<Rightarrow> pdfDict \<Rightarrow> string \<Rightarrow> int \<Rightarrow> string + kidInfo \<times> int option" where
  "mcrKid doc w d owner page =
     (case kidPage doc w d page of Inl p \<Rightarrow> Inl p
      | Inr (kp, inherited, msg) \<Rightarrow>
     (case stmEntry doc d of Inl p \<Rightarrow> Inl p
      | Inr (stmRef, stmErrs) \<Rightarrow>
     (case derefIn doc (dictGet d ''MCID'') of Inl p \<Rightarrow> Inl p
      | Inr v \<Rightarrow>
          (let k = (plainKid ''mcr'')\<lparr>kiPage := kp, kiInherited := inherited, kiStmRef := stmRef\<rparr>;
               errs = appendErr [] msg @ stmErrs;
               bad = (\<lambda>e. Inr (k\<lparr>kiErr := joinErrs (errs @ [e])\<rparr>, None))
           in if dictFind d ''MCID'' = None then bad ''MCR has no /MCID''
              else (case asInt v of
                      None \<Rightarrow> bad (''MCR /MCID is '' @ objKind v @ '', not an integer'')
                    | Some n \<Rightarrow>
                        if n < 0 then bad (''MCR /MCID '' @ showInt n @ '' is negative'')
                        else if stmRef \<noteq> [] then Inr (k\<lparr>kiMCID := Some n, kiErr := joinErrs errs\<rparr>, None)
                        else if owner = [] then Inr (k\<lparr>kiMCID := Some n, kiErr := joinErrs (errs @ [rootMCIDMsg])\<rparr>, None)
                        else Inr (k\<lparr>kiMCID := Some n,
                               kiErr := joinErrs (if kp = 0 \<and> msg = [] then errs @ [noPageMsg] else errs)\<rparr>, Some n))))))"

definition targetDict :: "string \<Rightarrow> pdfObj \<Rightarrow> pdfDict option \<times> string list" where
  "targetDict objRef target =
     (case target of
        PDict d \<Rightarrow> (Some d, [])
      | PStream PlainStream d \<Rightarrow> (Some d, [])
      | PNull \<Rightarrow> (None, [''OBJR /Obj '' @ objRef @ '' does not resolve to an object''])
      | _ \<Rightarrow> (None, [''OBJR /Obj '' @ objRef @ '' is '' @ objKind target @ '', not a dictionary or stream'']))"

definition objTypeOf :: "pdfDoc \<Rightarrow> pdfDict \<Rightarrow> string + string" where
  "objTypeOf doc td =
     (case derefIn doc (dictGet td ''Type'') of Inl p \<Rightarrow> Inl p
      | Inr t \<Rightarrow>
     (case derefIn doc (dictGet td ''Subtype'') of Inl p \<Rightarrow> Inl p
      | Inr s \<Rightarrow> Inr (joinWith ''/'' (filter (\<lambda>x. x \<noteq> []) [nameOf t, nameOf s]))))"

definition objrKid :: "pdfDoc \<Rightarrow> structWalker \<Rightarrow> pdfDict \<Rightarrow> int \<Rightarrow> string + kidInfo" where
  "objrKid doc w d page =
     (case kidPage doc w d page of Inl p \<Rightarrow> Inl p
      | Inr (kp, inherited, msg) \<Rightarrow>
          (let k = (plainKid ''objr'')\<lparr>kiPage := kp, kiInherited := inherited\<rparr>;
               errs = appendErr [] msg;
               objRaw = dictGet d ''Obj''
           in if dictFind d ''Obj'' = None then Inr (k\<lparr>kiErr := joinErrs (errs @ [''OBJR has no /Obj''])\<rparr>)
              else (case asRef objRaw of
                      None \<Rightarrow> Inr (k\<lparr>kiErr := joinErrs (errs @ [''OBJR /Obj is '' @ objKind objRaw @ '', not a reference''])\<rparr>)
                    | Some (n, g) \<Rightarrow>
                        (case derefIn doc objRaw of Inl p \<Rightarrow> Inl p
                         | Inr target \<Rightarrow>
                             (case targetDict (refString n g) target of (td, e) \<Rightarrow>
                               (case (case td of None \<Rightarrow> Inr [] | Some t \<Rightarrow> objTypeOf doc t) of Inl p \<Rightarrow> Inl p
                                | Inr ty \<Rightarrow> Inr (k\<lparr>kiObjRef := refString n g, kiObjType := ty, kiErr := joinErrs (errs @ e)\<rparr>)))))))"

section \<open>Role names\<close>

text \<open>The walk through \<open>/RoleMap\<close>: the names seen so far, and the path for the message.\<close>

function mapRoleFrom :: "(string \<times> string) list \<Rightarrow> string \<Rightarrow> string list \<Rightarrow> string + string" where
  "mapRoleFrom roles cur path =
     (case map_of roles cur of
        None \<Rightarrow> Inr cur
      | Some to \<Rightarrow>
          if to = [] then Inl (''/RoleMap maps /'' @ cur @ '' to an empty name'')
          else if to \<in> set path then Inl (''/RoleMap cycle: '' @ joinWith '' -> '' (path @ [to]))
          else mapRoleFrom roles to (path @ [to]))"
  by pat_completeness auto
termination mapRoleFrom
proof (relation "measure (\<lambda>(roles, cur, path). card (snd ` set roles - set path))", simp)
  fix roles :: "(string \<times> string) list" and cur path to
  assume "map_of roles cur = Some to" "to \<notin> set path"
  then have "to \<in> snd ` set roles - set path" using map_of_SomeD by force
  then have "snd ` set roles - set (path @ [to]) \<subset> snd ` set roles - set path" by auto
  then show "((roles, to, path @ [to]), roles, cur, path) \<in> measure (\<lambda>(roles, cur, path). card (snd ` set roles - set path))"
    by (simp add: psubset_card_mono)
qed

declare mapRoleFrom.simps [simp del]

text \<open>The mapped name and the message.\<close>

definition mapRole :: "(string \<times> string) list \<Rightarrow> string \<Rightarrow> string \<times> string" where
  "mapRole roles s =
     (case mapRoleFrom roles s [s] of Inl msg \<Rightarrow> ([], msg) | Inr cur \<Rightarrow> (if cur = s then [] else cur, []))"

section \<open>The entries of an element\<close>

text \<open>
  Each step writes the element and adds messages; a panic stops the steps and keeps the element as it is, and
  the messages are lost, because they are joined at the end.
\<close>

type_synonym elemStep = "elemInfo \<times> string list \<Rightarrow> (elemInfo \<times> string list) \<times> string option"

fun runSteps :: "elemStep list \<Rightarrow> elemStep" where
  "runSteps [] x = (x, None)"
| "runSteps (f # fs) x = (case f x of (y, Some p) \<Rightarrow> (y, Some p) | (y, None) \<Rightarrow> runSteps fs y)"

definition sStep :: "pdfDoc \<Rightarrow> pdfDict \<Rightarrow> elemStep" where
  "sStep doc d x =
     (case x of (e, errs) \<Rightarrow>
       (case derefIn doc (dictGet d ''S'') of
          Inl p \<Rightarrow> (x, Some p)
        | Inr sv \<Rightarrow>
            (let e' = (if sv = PNull then e\<lparr>eiSErr := ''no /S''\<rparr>
                       else (case sv of
                               PName n \<Rightarrow> if n = [] then e\<lparr>eiSErr := ''/S is an empty name''\<rparr> else e\<lparr>eiS := n\<rparr>
                             | _ \<Rightarrow> e\<lparr>eiSErr := ''/S is '' @ objKind sv @ '', not a name''\<rparr>))
             in ((e', appendErr errs (eiSErr e')), None))))"

definition typeStep :: "pdfDoc \<Rightarrow> pdfDict \<Rightarrow> elemStep" where
  "typeStep doc d x =
     (case x of (e, errs) \<Rightarrow>
       (case derefIn doc (dictGet d ''Type'') of
          Inl p \<Rightarrow> (x, Some p)
        | Inr t \<Rightarrow>
            ((e, if nameOf t \<noteq> [] \<and> nameOf t \<noteq> ''StructElem'' then errs @ [''/Type /'' @ nameOf t @ '' is not StructElem''] else errs), None)))"

definition roleStep :: "structWalker \<Rightarrow> elemStep" where
  "roleStep w x =
     (case x of (e, errs) \<Rightarrow>
        if eiS e = [] then (x, None)
        else (case mapRole (swRoleMap w) (eiS e) of (mapped, msg) \<Rightarrow> ((e\<lparr>eiMappedS := mapped\<rparr>, appendErr errs msg), None)))"

definition pgStep :: "pdfDoc \<Rightarrow> structWalker \<Rightarrow> pdfDict \<Rightarrow> int \<Rightarrow> elemStep" where
  "pgStep doc w d parentPage x =
     (case x of (e, errs) \<Rightarrow>
       (case dictFind d ''Pg'' of
          None \<Rightarrow> ((e\<lparr>eiPage := parentPage, eiInherited := parentPage \<noteq> 0\<rparr>, errs), None)
        | Some pg \<Rightarrow>
            (case pageOf doc w pg of
               Inl p \<Rightarrow> (x, Some p)
             | Inr (page, pgRef, msg) \<Rightarrow> ((e\<lparr>eiPage := page, eiPgRef := pgRef\<rparr>, appendErr errs msg), None))))"

definition textField :: "textLib \<Rightarrow> pdfDoc \<Rightarrow> string \<Rightarrow> pdfObj \<Rightarrow> string + string \<times> string" where
  "textField tlib doc key v =
     (case derefIn doc v of
        Inl p \<Rightarrow> Inl p
      | Inr x \<Rightarrow>
          (case decodeTextStringOK tlib x of (s, ok) \<Rightarrow>
             if ok \<and> validString s then Inr (s, [])
             else Inr (textStringOrRaw tlib x, ''/'' @ key @ '' is '' @ objKind x @ '' that does not decode as a text string'')))"

definition textStep :: "textLib \<Rightarrow> pdfDoc \<Rightarrow> pdfDict \<Rightarrow> string \<Rightarrow> (string \<Rightarrow> elemInfo \<Rightarrow> elemInfo) \<Rightarrow> elemStep" where
  "textStep tlib doc d key put x =
     (case x of (e, errs) \<Rightarrow>
       (case dictFind d key of
          None \<Rightarrow> (x, None)
        | Some v \<Rightarrow>
            (case textField tlib doc key v of
               Inl p \<Rightarrow> (x, Some p)
             | Inr (s, msg) \<Rightarrow> ((put s e, appendErr errs msg), None))))"

definition elementSteps :: "textLib \<Rightarrow> pdfDoc \<Rightarrow> structWalker \<Rightarrow> pdfDict \<Rightarrow> int \<Rightarrow> elemStep list" where
  "elementSteps tlib doc w d parentPage =
     [sStep doc d, typeStep doc d, roleStep w, pgStep doc w d parentPage,
      textStep tlib doc d ''Alt'' (\<lambda>s e. e\<lparr>eiAlt := Some s\<rparr>),
      textStep tlib doc d ''ActualText'' (\<lambda>s e. e\<lparr>eiActualText := Some s\<rparr>),
      textStep tlib doc d ''E'' (\<lambda>s e. e\<lparr>eiE := Some s\<rparr>),
      textStep tlib doc d ''T'' (\<lambda>s e. e\<lparr>eiTitle := s\<rparr>),
      textStep tlib doc d ''Lang'' (\<lambda>s e. e\<lparr>eiLang := s\<rparr>)]"

definition readEntries :: "textLib \<Rightarrow> pdfDoc \<Rightarrow> structWalker \<Rightarrow> pdfDict \<Rightarrow> int \<Rightarrow> elemInfo \<Rightarrow> elemInfo \<times> string option" where
  "readEntries tlib doc w d parentPage e =
     (case runSteps (elementSteps tlib doc w d parentPage) (e, []) of
        ((e', errs), None) \<Rightarrow> (e'\<lparr>eiErr := joinErrs errs\<rparr>, None)
      | ((e', errs), Some p) \<Rightarrow> (e', Some p))"

definition newElem :: elemInfo where
  "newElem = \<lparr> eiRef = [], eiNodeID = [], eiS = [], eiMappedS = [], eiPgRef = [], eiPage = 0, eiInherited = False, eiTitle = [],
     eiLang = [], eiAlt = None, eiActualText = None, eiE = None, eiErr = [], eiSErr = [], eiReadErr = [] \<rparr>"

definition elemUnread :: "string \<Rightarrow> elemInfo \<Rightarrow> elemInfo" where
  "elemUnread p e = e\<lparr>eiReadErr := panicText p, eiErr := joinErr (eiErr e) (''element could not be read: '' @ panicText p)\<rparr>"

definition elementKidOf :: "elemInfo \<Rightarrow> structKid list \<Rightarrow> structKid" where
  "elementKidOf e kids = StructKid ((plainKid ''element'')\<lparr>kiPage := eiPage e, kiInherited := eiInherited e\<rparr>) (Some (StructElem e kids))"

section \<open>The walk\<close>

definition setIndex :: "nat \<Rightarrow> structKid \<Rightarrow> structKid" where
  "setIndex i k = StructKid ((skInfo k)\<lparr>kiIndex := i\<rparr>) (skElement k)"

definition seen :: "(int \<times> int) option \<Rightarrow> structWalker \<Rightarrow> bool" where
  "seen mr w = (case mr of Some (n, g) \<Rightarrow> n \<in> set (swVisited w) | None \<Rightarrow> False)"

definition markSeen :: "(int \<times> int) option \<Rightarrow> structWalker \<Rightarrow> structWalker" where
  "markSeen mr w = (case mr of Some (n, g) \<Rightarrow> w\<lparr>swVisited := n # swVisited w\<rparr> | None \<Rightarrow> w)"

definition refText :: "(int \<times> int) option \<Rightarrow> string" where
  "refText mr = (case mr of Some (n, g) \<Rightarrow> refString n g | None \<Rightarrow> [])"

definition newElemOf :: "(int \<times> int) option \<Rightarrow> elemInfo" where
  "newElemOf mr = newElem\<lparr>eiRef := refText mr, eiNodeID := (case mr of Some (n, g) \<Rightarrow> nodeIDForRef n g | None \<Rightarrow> [])\<rparr>"

definition ownerID :: "(int \<times> int) option \<Rightarrow> string" where
  "ownerID mr = (if mr = None then directElement else refText mr)"

text \<open>An MCID listed as an integer.\<close>

definition mcidKid :: "int \<Rightarrow> string \<Rightarrow> int \<Rightarrow> structWalker \<Rightarrow> structWalker \<times> structKid" where
  "mcidKid v owner page w =
     (if v < 0 then errorKid (''MCID '' @ showInt v @ '' is negative'') w
      else (claim owner page v (onCounts (\<lambda>c. c\<lparr>ctMCIDKids := ctMCIDKids c + 1\<rparr>) w),
            StructKid ((plainKid ''mcid'')\<lparr>kiMCID := Some v, kiPage := page, kiInherited := page \<noteq> 0,
               kiErr := (if owner = [] then rootMCIDMsg else if page = 0 then noPageMsg else [])\<rparr>) None))"

definition mcrStep :: "pdfDoc \<Rightarrow> pdfDict \<Rightarrow> string \<Rightarrow> int \<Rightarrow> structWalker \<Rightarrow> structWalker \<times> (string + structKid)" where
  "mcrStep doc d owner page w =
     (let w1 = onCounts (\<lambda>c. c\<lparr>ctMCRKids := ctMCRKids c + 1\<rparr>) w in
      case mcrKid doc w1 d owner page of
        Inl p \<Rightarrow> (w1, Inl p)
      | Inr (k, None) \<Rightarrow> (w1, Inr (StructKid k None))
      | Inr (k, Some n) \<Rightarrow> (claim owner (kiPage k) n w1, Inr (StructKid k None)))"

definition objrStep :: "pdfDoc \<Rightarrow> pdfDict \<Rightarrow> int \<Rightarrow> structWalker \<Rightarrow> structWalker \<times> (string + structKid)" where
  "objrStep doc d page w =
     (let w1 = onCounts (\<lambda>c. c\<lparr>ctOBJRKids := ctOBJRKids c + 1\<rparr>) w in
      case objrKid doc w1 d page of Inl p \<Rightarrow> (w1, Inl p) | Inr k \<Rightarrow> (w1, Inr (StructKid k None)))"

definition noPanic :: "structWalker \<times> 'a \<Rightarrow> structWalker \<times> (string + 'a)" where
  "noPanic r = (fst r, Inr (snd r))"

text \<open>
  \<^verbatim>\<open>walkK\<close>: what its value lists, and the walker when an indirect array is entered; \<open>Inl\<close> of the inner sum is
  the array reached again, of the outer one a panic.
\<close>

definition kItems :: "pdfDoc \<Rightarrow> pdfObj \<Rightarrow> structWalker \<Rightarrow> string + (structWalker \<times> string + structWalker \<times> pdfObj list)" where
  "kItems doc k w =
     (case k of
        PArray xs \<Rightarrow> Inr (Inr (w, xs))
      | PRef n g \<Rightarrow>
          (case derefIn doc k of
             Inl p \<Rightarrow> Inl p
           | Inr v \<Rightarrow>
               (case asArray v of
                  None \<Rightarrow> Inr (Inr (w, [k]))
                | Some xs \<Rightarrow>
                    if seen (Some (n, g)) w then Inr (Inl (w, ''/K array '' @ refString n g @ '' already listed; not walked again''))
                    else Inr (Inr (markSeen (Some (n, g)) w, xs))))
      | _ \<Rightarrow> Inr (Inr (w, [k])))"

function
  walkK :: "textLib \<Rightarrow> pdfDoc \<Rightarrow> pdfObj \<Rightarrow> string \<Rightarrow> int \<Rightarrow> nat \<Rightarrow> structWalker \<Rightarrow> structWalker \<times> (string + structKid list)" and
  walkItems :: "textLib \<Rightarrow> pdfDoc \<Rightarrow> nat \<Rightarrow> pdfObj list \<Rightarrow> string \<Rightarrow> int \<Rightarrow> nat \<Rightarrow> structKid list \<Rightarrow> structWalker \<Rightarrow> structWalker \<times> (string + structKid list)" and
  kidOf :: "textLib \<Rightarrow> pdfDoc \<Rightarrow> pdfObj \<Rightarrow> string \<Rightarrow> int \<Rightarrow> nat \<Rightarrow> structWalker \<Rightarrow> structWalker \<times> (string + structKid)" and
  elementKid :: "textLib \<Rightarrow> pdfDoc \<Rightarrow> pdfDict \<Rightarrow> (int \<times> int) option \<Rightarrow> int \<Rightarrow> nat \<Rightarrow> structWalker \<Rightarrow> structWalker \<times> structKid" where
  "walkK tlib doc k owner page depth w =
     (if k = PNull then (w, Inr [])
      else (case kItems doc k w of
              Inl p \<Rightarrow> (w, Inl p)
            | Inr (Inl (w1, msg)) \<Rightarrow> (case errorKid msg w1 of (w2, kid) \<Rightarrow> (w2, Inr [kid]))
            | Inr (Inr (w1, items)) \<Rightarrow> walkItems tlib doc 0 items owner page depth [] w1))"
| "walkItems tlib doc i [] owner page depth kids w = (w, Inr kids)"
| "walkItems tlib doc i (item # items) owner page depth kids w =
     (if item = PNull then walkItems tlib doc (i + 1) items owner page depth kids w
      else (case kidOf tlib doc item owner page depth w of
              (w1, Inl p) \<Rightarrow> (w1, Inl p)
            | (w1, Inr kid) \<Rightarrow> walkItems tlib doc (i + 1) items owner page depth (kids @ [setIndex i kid]) w1))"
| "kidOf tlib doc raw owner page depth w =
     (case derefIn doc raw of
        Inl p \<Rightarrow> (w, Inl p)
      | Inr obj \<Rightarrow>
          (case obj of
             PNull \<Rightarrow>
               (if isRef raw then noPanic (errorKid (refText (asRef raw) @ '' does not resolve to an object'') w)
                else noPanic (errorKid (''kid is '' @ objKind obj @ '', not an element, MCID, MCR or OBJR'') w))
           | PInt v \<Rightarrow> noPanic (mcidKid v owner page w)
           | PDict d \<Rightarrow>
               (case derefIn doc (dictGet d ''Type'') of
                  Inl p \<Rightarrow> (w, Inl p)
                | Inr t \<Rightarrow>
                    if nameOf t = ''MCR'' then mcrStep doc d owner page w
                    else if nameOf t = ''OBJR'' then objrStep doc d page w
                    else noPanic (elementKid tlib doc d (asRef raw) page (depth + 1) w))
           | _ \<Rightarrow> noPanic (errorKid (''kid is '' @ objKind obj @ '', not an element, MCID, MCR or OBJR'') w)))"
| "elementKid tlib doc d mr parentPage depth w =
     (if maxStructTreeDepth < depth then
        errorKid (''structure tree deeper than '' @ showNat maxStructTreeDepth @ '' levels; subtree not walked'') w
      else if seen mr w then errorKid (''element '' @ refText mr @ '' already listed; not walked again'') w
      else (let w1 = onCounts (\<lambda>c. c\<lparr>ctElements := ctElements c + 1\<rparr>) (markSeen mr w) in
            case readEntries tlib doc w1 d parentPage (newElemOf mr) of
              (e, Some p) \<Rightarrow> (w1, elementKidOf (elemUnread p e) [])
            | (e, None) \<Rightarrow>
                (case walkK tlib doc (dictGet d ''K'') (ownerID mr) (eiPage e) depth w1 of
                   (w2, Inl p) \<Rightarrow> (w2, elementKidOf (elemUnread p e) [])
                 | (w2, Inr kids) \<Rightarrow> (w2, elementKidOf e kids))))"
  by pat_completeness auto
termination walkK
  by (relation "measures [\<lambda>x. case x of
          Inl (Inl (tlib, doc, k, owner, page, depth, w)) \<Rightarrow> 2 * (maxStructTreeDepth - depth)
        | Inl (Inr (tlib, doc, i, items, owner, page, depth, _)) \<Rightarrow> 2 * (maxStructTreeDepth - depth)
        | Inr (Inl (tlib, doc, raw, owner, page, depth, w)) \<Rightarrow> 2 * (maxStructTreeDepth - depth)
        | Inr (Inr (tlib, doc, d, mr, page, depth, w)) \<Rightarrow> 2 * (maxStructTreeDepth + 1 - depth) - 1,
      \<lambda>x. case x of Inl (Inl _) \<Rightarrow> 3 | Inl (Inr _) \<Rightarrow> 2 | Inr (Inl _) \<Rightarrow> 1 | Inr (Inr _) \<Rightarrow> 0,
      \<lambda>x. case x of Inl (Inr (tlib, doc, i, items, _)) \<Rightarrow> length items | _ \<Rightarrow> 0]")
    (auto simp: maxStructTreeDepth_def)

declare walkK.simps [simp del] walkItems.simps [simp del] kidOf.simps [simp del] elementKid.simps [simp del]

end
