(* ===== verification/StructureTreeSpec.thy ===== *)
theory StructureTreeSpec
  imports StructureTree
begin

text \<open>
  What the walk of the structure tree reports: a tree that mirrors the document's, in which an element is
  listed once and no path is deeper than the limit, with the claims and the counts of the kids it lists.
\<close>

section \<open>What a tree of kids says\<close>

text \<open>The owner an element is for its kids, and the claims of a kid in the order of the walk.\<close>

definition ownerOf :: "elemInfo \<Rightarrow> string" where
  "ownerOf e = (if eiRef e = [] then directElement else eiRef e)"

definition ownClaim :: "string \<Rightarrow> kidInfo \<Rightarrow> (int \<times> int \<times> string) list" where
  "ownClaim owner k =
     (case kiMCID k of None \<Rightarrow> []
      | Some m \<Rightarrow> if owner = [] \<or> kiPage k = 0 \<or> kiStmRef k \<noteq> [] then [] else [(kiPage k, m, owner)])"

fun kidClaims :: "string \<Rightarrow> structKid \<Rightarrow> (int \<times> int \<times> string) list" where
  "kidClaims owner (StructKid k None) = ownClaim owner k"
| "kidClaims owner (StructKid k (Some (StructElem e kids))) = concat (map (kidClaims (ownerOf e)) kids)"

fun kidKinds :: "structKid \<Rightarrow> string list" where
  "kidKinds (StructKid k None) = [kiKind k]"
| "kidKinds (StructKid k (Some (StructElem e kids))) = kiKind k # concat (map kidKinds kids)"

text \<open>The references of the elements, those without one left out.\<close>

fun elementRefs :: "structKid \<Rightarrow> string list" where
  "elementRefs (StructKid k None) = []"
| "elementRefs (StructKid k (Some (StructElem e kids))) = (if eiRef e = [] then [] else [eiRef e]) @ concat (map elementRefs kids)"

fun kidHeight :: "structKid \<Rightarrow> nat" where
  "kidHeight (StructKid k None) = 0"
| "kidHeight (StructKid k (Some (StructElem e kids))) = Suc (fold max (map kidHeight kids) 0)"

definition typeOf :: "pdfDoc \<Rightarrow> pdfDict \<Rightarrow> string" where
  "typeOf doc d = nameOf (safeDeref doc (dictGet d ''Type''))"

text \<open>
  What the document says of an entry. Its page is that of its own \<open>/Pg\<close>, when that names a page, and its
  parent's when it has none; the integer a marked-content reference names, its stream, and the object of an
  object reference.
\<close>

definition entryPage :: "(int \<times> int) list \<Rightarrow> pdfDict \<Rightarrow> int \<Rightarrow> int" where
  "entryPage pages d parentPage =
     (case dictFind d ''Pg'' of
        None \<Rightarrow> parentPage
      | Some (PRef n g) \<Rightarrow> (case map_of pages n of Some page \<Rightarrow> page | None \<Rightarrow> 0)
      | Some _ \<Rightarrow> 0)"

definition entryMCID :: "pdfDoc \<Rightarrow> pdfDict \<Rightarrow> int option" where
  "entryMCID doc d = (case safeDeref doc (dictGet d ''MCID'') of PInt n \<Rightarrow> if n < 0 then None else Some n | _ \<Rightarrow> None)"

definition entryRef :: "pdfDict \<Rightarrow> string \<Rightarrow> string \<Rightarrow> string" where
  "entryRef d key direct = (case dictFind d key of None \<Rightarrow> [] | Some (PRef n g) \<Rightarrow> refString n g | Some _ \<Rightarrow> direct)"

text \<open>The object number of an entry that is a reference.\<close>

fun refNumber :: "pdfObj \<Rightarrow> int set" where
  "refNumber (PRef n g) = {n}"
| "refNumber _ = {}"

definition isElement :: "pdfDoc \<Rightarrow> pdfObj \<Rightarrow> pdfDict \<Rightarrow> bool" where
  "isElement doc raw d \<longleftrightarrow> safeDeref doc raw = PDict d \<and> typeOf doc d \<noteq> ''MCR'' \<and> typeOf doc d \<noteq> ''OBJR''"

definition reports :: "kidInfo \<Rightarrow> string \<Rightarrow> bool" where
  "reports k msg \<longleftrightarrow> kiKind k = ''error'' \<and> kiErr k = msg \<and> kiMCID k = None"

text \<open>
  A kid mirrors an entry of the document below \<open>depth\<close> elements, on a page, when the indirect elements and
  arrays listed before it have the object numbers of the first set, and those listed after it and all
  below it of the second. An error stands only for an entry that cannot be read, that is of no kind a kid
  has, that is a negative integer, that is an element deeper than the limit, or an element listed before.
  Any other entry shows what it is; an element carries the entry's reference, its \<open>/S\<close>, its page, and kids that
  mirror its \<open>/K\<close>: the entries that are not null, in order, with their positions, unless \<open>/K\<close> refers to an
  array that was listed before.
\<close>

inductive
  mirrors :: "pdfDoc \<Rightarrow> (int \<times> int) list \<Rightarrow> nat \<Rightarrow> int \<Rightarrow> int set \<Rightarrow> pdfObj \<Rightarrow> structKid \<Rightarrow> int set \<Rightarrow> bool" and
  mirrorsAll :: "pdfDoc \<Rightarrow> (int \<times> int) list \<Rightarrow> nat \<Rightarrow> int \<Rightarrow> int set \<Rightarrow> (nat \<times> pdfObj) list \<Rightarrow> structKid list \<Rightarrow> int set \<Rightarrow> bool" and
  mirrorsK :: "pdfDoc \<Rightarrow> (int \<times> int) list \<Rightarrow> nat \<Rightarrow> int \<Rightarrow> int set \<Rightarrow> pdfObj \<Rightarrow> structKid list \<Rightarrow> int set \<Rightarrow> bool"
  for doc :: pdfDoc and pages :: "(int \<times> int) list" where
  m_missing: "raw = PRef n g \<Longrightarrow> safeDeref doc raw = PNull \<Longrightarrow> reports k (refString n g @ '' does not resolve to an object'')
    \<Longrightarrow> mirrors doc pages depth page vis raw (StructKid k None) vis"
| m_other: "\<nexists>v. safeDeref doc raw = PInt v \<Longrightarrow> \<nexists>d. safeDeref doc raw = PDict d \<Longrightarrow> safeDeref doc raw \<noteq> PNull \<or> \<not> isRef raw
    \<Longrightarrow> reports k (''kid is '' @ objKind (safeDeref doc raw) @ '', not an element, MCID, MCR or OBJR'')
    \<Longrightarrow> mirrors doc pages depth page vis raw (StructKid k None) vis"
| m_negative: "safeDeref doc raw = PInt v \<Longrightarrow> v < 0 \<Longrightarrow> reports k (''MCID '' @ showInt v @ '' is negative'')
    \<Longrightarrow> mirrors doc pages depth page vis raw (StructKid k None) vis"
| m_deep: "isElement doc raw d \<Longrightarrow> 256 \<le> depth \<Longrightarrow> reports k ''structure tree deeper than 256 levels; subtree not walked''
    \<Longrightarrow> mirrors doc pages depth page vis raw (StructKid k None) vis"
| m_again: "isElement doc raw d \<Longrightarrow> depth < 256 \<Longrightarrow> raw = PRef n g \<Longrightarrow> n \<in> vis
    \<Longrightarrow> reports k (''element '' @ refString n g @ '' already listed; not walked again'')
    \<Longrightarrow> mirrors doc pages depth page vis raw (StructKid k None) vis"
| m_mcid: "safeDeref doc raw = PInt v \<Longrightarrow> 0 \<le> v \<Longrightarrow> kiKind k = ''mcid'' \<Longrightarrow> kiMCID k = Some v \<Longrightarrow> kiPage k = page
    \<Longrightarrow> kiStmRef k = [] \<Longrightarrow> mirrors doc pages depth page vis raw (StructKid k None) vis"
| m_mcr: "safeDeref doc raw = PDict d \<Longrightarrow> typeOf doc d = ''MCR'' \<Longrightarrow> kiKind k = ''mcr'' \<Longrightarrow> kiPage k = entryPage pages d page
    \<Longrightarrow> kiMCID k = entryMCID doc d \<Longrightarrow> kiStmRef k = entryRef d ''Stm'' ''(direct)''
    \<Longrightarrow> mirrors doc pages depth page vis raw (StructKid k None) vis"
| m_objr: "safeDeref doc raw = PDict d \<Longrightarrow> typeOf doc d = ''OBJR'' \<Longrightarrow> kiKind k = ''objr'' \<Longrightarrow> kiPage k = entryPage pages d page
    \<Longrightarrow> kiMCID k = None \<Longrightarrow> kiObjRef k = entryRef d ''Obj'' [] \<Longrightarrow> mirrors doc pages depth page vis raw (StructKid k None) vis"
| m_elem: "isElement doc raw d \<Longrightarrow> depth < 256 \<Longrightarrow> refNumber raw \<inter> vis = {} \<Longrightarrow> kiKind k = ''element''
    \<Longrightarrow> eiRef e = refText (asRef raw) \<Longrightarrow> eiS e = nameOf (safeDeref doc (dictGet d ''S''))
    \<Longrightarrow> eiPage e = entryPage pages d page
    \<Longrightarrow> mirrorsK doc pages (depth + 1) (eiPage e) (refNumber raw \<union> vis) (dictGet d ''K'') kids vis'
    \<Longrightarrow> mirrors doc pages depth page vis raw (StructKid k (Some (StructElem e kids))) vis'"
| m_nil: "mirrorsAll doc pages depth page vis [] [] vis"
| m_cons: "mirrors doc pages depth page vis raw kid vis1 \<Longrightarrow> kiIndex (skInfo kid) = i
    \<Longrightarrow> mirrorsAll doc pages depth page vis1 entries kids vis2
    \<Longrightarrow> mirrorsAll doc pages depth page vis ((i, raw) # entries) (kid # kids) vis2"
| m_array: "mirrorsAll doc pages depth page vis (filter (\<lambda>(i, x). x \<noteq> PNull) (enumerate 0 xs)) kids vis'
    \<Longrightarrow> mirrorsK doc pages depth page vis (PArray xs) kids vis'"
| m_arrayRef: "safeDeref doc (PRef n g) = PArray xs \<Longrightarrow> n \<notin> vis
    \<Longrightarrow> mirrorsAll doc pages depth page (insert n vis) (filter (\<lambda>(i, x). x \<noteq> PNull) (enumerate 0 xs)) kids vis'
    \<Longrightarrow> mirrorsK doc pages depth page vis (PRef n g) kids vis'"
| m_arrayAgain: "safeDeref doc (PRef n g) = PArray xs \<Longrightarrow> n \<in> vis
    \<Longrightarrow> reports k (''/K array '' @ refString n g @ '' already listed; not walked again'')
    \<Longrightarrow> mirrorsK doc pages depth page vis (PRef n g) [StructKid k None] vis"
| m_single: "\<nexists>xs. v = PArray xs \<Longrightarrow> \<not> (isRef v \<and> (\<exists>xs. safeDeref doc v = PArray xs))
    \<Longrightarrow> mirrorsAll doc pages depth page vis (filter (\<lambda>(i, x). x \<noteq> PNull) [(0, v)]) kids vis'
    \<Longrightarrow> mirrorsK doc pages depth page vis v kids vis'"

inductive_cases mirrorsE: "mirrors doc pages depth page vis raw kid vis'"

section \<open>What a walk adds\<close>

definition tallied :: "structCounts \<Rightarrow> structCounts \<Rightarrow> string list \<Rightarrow> bool" where
  "tallied c c' ks \<longleftrightarrow> ctElements c' = ctElements c + count_list ks ''element''
     \<and> ctMCIDKids c' = ctMCIDKids c + count_list ks ''mcid'' \<and> ctMCRKids c' = ctMCRKids c + count_list ks ''mcr''
     \<and> ctOBJRKids c' = ctOBJRKids c + count_list ks ''objr'' \<and> ctErrorKids c' = ctErrorKids c + count_list ks ''error''
     \<and> ctContentMCIDs c' = ctContentMCIDs c"

definition listedNow :: "structWalker \<Rightarrow> structWalker \<Rightarrow> string list \<Rightarrow> bool" where
  "listedNow w w' refs \<longleftrightarrow> (\<exists>ps. refs = map (\<lambda>(n, g). refString n g) ps \<and> distinct (map fst ps)
     \<and> set (map fst ps) \<inter> set (swVisited w) = {} \<and> set (map fst ps) \<union> set (swVisited w) \<subseteq> set (swVisited w'))"

definition grew :: "string \<Rightarrow> structWalker \<Rightarrow> structWalker \<Rightarrow> structKid list \<Rightarrow> bool" where
  "grew owner w w' kids \<longleftrightarrow> swPageNums w' = swPageNums w \<and> swRoleMap w' = swRoleMap w
     \<and> swClaims w' = swClaims w @ concat (map (kidClaims owner) kids)
     \<and> tallied (swCounts w) (swCounts w') (concat (map kidKinds kids))
     \<and> listedNow w w' (concat (map elementRefs kids))"

lemma tallied_simps [simp]: "tallied c c []"
  by (simp add: tallied_def)

lemma tallied_trans: "tallied a b x \<Longrightarrow> tallied b c y \<Longrightarrow> tallied a c (x @ y)"
  by (auto simp: tallied_def)

lemma listedNow_trans: "listedNow a b x \<Longrightarrow> listedNow b c y \<Longrightarrow> listedNow a c (x @ y)"
proof -
  assume "listedNow a b x" "listedNow b c y"
  then obtain ps qs where p: "x = map (\<lambda>(n, g). refString n g) ps" "distinct (map fst ps)" "set (map fst ps) \<inter> set (swVisited a) = {}"
      "set (map fst ps) \<union> set (swVisited a) \<subseteq> set (swVisited b)"
    and q: "y = map (\<lambda>(n, g). refString n g) qs" "distinct (map fst qs)" "set (map fst qs) \<inter> set (swVisited b) = {}"
      "set (map fst qs) \<union> set (swVisited b) \<subseteq> set (swVisited c)"
    unfolding listedNow_def by blast
  show ?thesis unfolding listedNow_def
  proof (intro exI conjI)
    show "x @ y = map (\<lambda>(n, g). refString n g) (ps @ qs)" by (simp add: p q)
    have "set (map fst ps) \<inter> set (map fst qs) = {}" using p(4) q(3) by blast
    then show "distinct (map fst (ps @ qs))" using p(2) q(2) by (simp only: map_append distinct_append)
    have s: "set (map fst (ps @ qs)) = set (map fst ps) \<union> set (map fst qs)" by simp
    show "set (map fst (ps @ qs)) \<inter> set (swVisited a) = {}" unfolding s using p(3,4) q(3) by blast
    show "set (map fst (ps @ qs)) \<union> set (swVisited a) \<subseteq> set (swVisited c)" unfolding s using p(4) q(4) by blast
  qed
qed

lemma listedNow_none [simp]: "listedNow w w []"
  by (simp add: listedNow_def)

lemma listedNow_visits: "set (swVisited w) \<subseteq> set (swVisited w') \<Longrightarrow> listedNow w w' []"
  by (auto simp: listedNow_def)

lemma grew_none [simp]: "grew owner w w []"
  by (simp add: grew_def)

lemma grew_trans: "grew owner a b x \<Longrightarrow> grew owner b c y \<Longrightarrow> grew owner a c (x @ y)"
  using tallied_trans listedNow_trans by (simp add: grew_def) blast

lemma setIndex_simps [simp]: "kidClaims owner (setIndex i k) = kidClaims owner k" "kidKinds (setIndex i k) = kidKinds k"
    "elementRefs (setIndex i k) = elementRefs k" "kidHeight (setIndex i k) = kidHeight k"
proof -
  obtain s me where k: "k = StructKid s me" by (cases k)
  obtain e kids where me: "me = None \<or> me = Some (StructElem e kids)" by (metis option.exhaust structElem.exhaust)
  then show "kidClaims owner (setIndex i k) = kidClaims owner k" "kidKinds (setIndex i k) = kidKinds k"
      "elementRefs (setIndex i k) = elementRefs k" "kidHeight (setIndex i k) = kidHeight k"
    by (auto simp: k setIndex_def ownClaim_def split: option.split)
qed

lemma grew_setIndex [simp]: "grew owner w w' [setIndex i k] = grew owner w w' [k]"
  by (simp add: grew_def)

lemma setIndex_reports [simp]: "reports (k\<lparr>kiIndex := i\<rparr>) msg = reports k msg"
  by (simp add: reports_def)

lemma mirrors_setIndex:
  "mirrors doc pages depth page vis raw k vis' \<Longrightarrow> mirrors doc pages depth page vis raw (setIndex i k) vis'"
  by (erule mirrorsE) (simp_all add: setIndex_def mirrors_mirrorsAll_mirrorsK.intros del: reports_def)

lemma kiIndex_setIndex [simp]: "kiIndex (skInfo (setIndex i k)) = i"
  by (simp add: setIndex_def)

section \<open>The steps\<close>

lemma errorKid_grew:
  "errorKid msg w = (w', k) \<Longrightarrow> grew owner w w' [k] \<and> swVisited w' = swVisited w \<and> kidHeight k = 0
     \<and> (\<exists>i. k = StructKid i None \<and> reports i msg)"
  by (auto simp: errorKid_def grew_def onCounts_def plainKid_def ownClaim_def tallied_def listedNow_def reports_def)

lemma mcidKid_grew:
  assumes "mcidKid v owner page w = (w', k)" "safeDeref doc raw = PInt v"
  shows "grew owner w w' [k] \<and> swVisited w' = swVisited w \<and> kidHeight k = 0
    \<and> mirrors doc pages depth page vis raw k vis"
proof (cases "v < 0")
  case True
  then have "errorKid (''MCID '' @ showInt v @ '' is negative'') w = (w', k)" using assms(1) by (simp add: mcidKid_def)
  from errorKid_grew [OF this, of owner] show ?thesis using m_negative [OF assms(2) True] by blast
next
  case False
  with assms show ?thesis
    by (auto simp: mcidKid_def grew_def claim_def onCounts_def plainKid_def ownClaim_def tallied_def listedNow_def intro!: m_mcid)
qed

lemma pageOf_page:
  "quietDoc doc \<Longrightarrow> pageOf doc w pg = Inr (page, r, msg) \<Longrightarrow>
     page = (case pg of PRef n g \<Rightarrow> (case map_of (swPageNums w) n of Some p \<Rightarrow> p | None \<Rightarrow> 0) | _ \<Rightarrow> 0)"
  by (cases pg) (auto simp: pageOf_def quiet_derefIn Let_def split: option.split_asm if_split_asm)

lemma kidPage_page:
  "quietDoc doc \<Longrightarrow> kidPage doc w d page = Inr (kp, inh, msg) \<Longrightarrow> kp = entryPage (swPageNums w) d page"
  by (auto simp: kidPage_def entryPage_def dest: pageOf_page split: option.split_asm sum.split_asm prod.split_asm pdfObj.split)

lemma stmEntry_ref: "stmEntry doc d = Inr (stm, errs) \<Longrightarrow> stm = entryRef d ''Stm'' ''(direct)''"
  by (auto simp: stmEntry_def entryRef_def directElement_def split: option.split_asm sum.split_asm pdfObj.split)

lemma mcrKid_shape:
  assumes "quietDoc doc" "mcrKid doc w d owner page = Inr (k, mm)"
  shows "kiKind k = ''mcr'' \<and> kiPage k = entryPage (swPageNums w) d page \<and> kiMCID k = entryMCID doc d
    \<and> kiStmRef k = entryRef d ''Stm'' ''(direct)''
    \<and> ownClaim owner k = (case mm of None \<Rightarrow> [] | Some n \<Rightarrow> if owner = [] \<or> kiPage k = 0 then [] else [(kiPage k, n, owner)])"
proof -
  obtain kp inh msg where kp: "kidPage doc w d page = Inr (kp, inh, msg)"
    using assms(2) by (auto simp: mcrKid_def split: sum.split_asm)
  obtain stm errs where stm: "stmEntry doc d = Inr (stm, errs)"
    using assms(2) kp by (auto simp: mcrKid_def split: sum.split_asm)
  have g: "dictFind d ''MCID'' = None \<Longrightarrow> safeDeref doc (dictGet d ''MCID'') = PNull"
    by (simp add: dictGet_def safeDeref_def)
  show ?thesis
    using assms(2) g kidPage_page [OF assms(1) kp] stmEntry_ref [OF stm]
    by (auto simp: mcrKid_def kp stm quiet_derefIn [OF assms(1)] ownClaim_def plainKid_def entryMCID_def Let_def
        split: option.split_asm if_split_asm pdfObj.split)
qed

lemma mcrStep_grew:
  assumes "quietDoc doc" "mcrStep doc d owner page w = (w', Inr k)" "safeDeref doc raw = PDict d" "typeOf doc d = ''MCR''"
  shows "grew owner w w' [k] \<and> swVisited w' = swVisited w \<and> kidHeight k = 0
    \<and> mirrors doc (swPageNums w) depth page vis raw k vis"
proof -
  let ?w1 = "onCounts (\<lambda>c. c\<lparr>ctMCRKids := ctMCRKids c + 1\<rparr>) w"
  from assms(2) obtain i mm where i: "mcrKid doc ?w1 d owner page = Inr (i, mm)"
    and k: "k = StructKid i None" and w: "w' = (case mm of None \<Rightarrow> ?w1 | Some n \<Rightarrow> claim owner (kiPage i) n ?w1)"
    by (auto simp: mcrStep_def Let_def split: sum.split_asm prod.split_asm option.split_asm)
  have p: "swPageNums ?w1 = swPageNums w" by (simp add: onCounts_def)
  note sh = mcrKid_shape [OF assms(1) i, unfolded p]
  have "grew owner w w' [k] \<and> swVisited w' = swVisited w"
    using sh k w by (auto simp: grew_def onCounts_def claim_def tallied_def listedNow_def split: option.split)
  then show ?thesis unfolding k using sh m_mcr [OF assms(3,4)] by simp
qed

lemma objrKid_shape:
  assumes "quietDoc doc" "objrKid doc w d page = Inr k"
  shows "kiKind k = ''objr'' \<and> kiMCID k = None \<and> kiPage k = entryPage (swPageNums w) d page \<and> kiObjRef k = entryRef d ''Obj'' []"
proof -
  obtain kp inh msg where kp: "kidPage doc w d page = Inr (kp, inh, msg)"
    using assms(2) by (auto simp: objrKid_def split: sum.split_asm)
  show ?thesis
  proof (cases "dictFind d ''Obj''")
    case None
    then show ?thesis using assms(2) kidPage_page [OF assms(1) kp]
      by (auto simp: objrKid_def kp plainKid_def entryRef_def Let_def)
  next
    case (Some v)
    then have "dictGet d ''Obj'' = v" by (rule dictGet_find)
    then show ?thesis using assms(2) Some kidPage_page [OF assms(1) kp]
      by (cases v) (auto simp: objrKid_def kp plainKid_def entryRef_def Let_def split: sum.split_asm prod.split_asm)
  qed
qed

lemma objrStep_grew:
  assumes "quietDoc doc" "objrStep doc d page w = (w', Inr k)" "safeDeref doc raw = PDict d" "typeOf doc d = ''OBJR''"
  shows "grew owner w w' [k] \<and> swVisited w' = swVisited w \<and> kidHeight k = 0
    \<and> mirrors doc (swPageNums w) depth page vis raw k vis"
proof -
  let ?w1 = "onCounts (\<lambda>c. c\<lparr>ctOBJRKids := ctOBJRKids c + 1\<rparr>) w"
  from assms(2) obtain i where i: "objrKid doc ?w1 d page = Inr i" and k: "k = StructKid i None" and w: "w' = ?w1"
    by (auto simp: objrStep_def Let_def split: sum.split_asm)
  have p: "swPageNums ?w1 = swPageNums w" by (simp add: onCounts_def)
  note sh = objrKid_shape [OF assms(1) i, unfolded p]
  have "grew owner w w' [k] \<and> swVisited w' = swVisited w"
    using sh k w by (auto simp: grew_def onCounts_def ownClaim_def tallied_def listedNow_def)
  then show ?thesis unfolding k using sh m_objr [OF assms(3,4)] by simp
qed

section \<open>The entries of an element\<close>

text \<open>Steps that cannot fail and keep what is selected of the element.\<close>

definition steady :: "(elemInfo \<Rightarrow> 'a) \<Rightarrow> elemStep \<Rightarrow> bool" where
  "steady sel f \<longleftrightarrow> (\<forall>x. snd (f x) = None \<and> sel (fst (fst (f x))) = sel (fst x))"

lemma steadyD: "steady sel f \<Longrightarrow> snd (f x) = None \<and> sel (fst (fst (f x))) = sel (fst x)"
  unfolding steady_def by blast

lemma runSteps_append:
  "runSteps (fs @ gs) x = (case runSteps fs x of (y, Some p) \<Rightarrow> (y, Some p) | (y, None) \<Rightarrow> runSteps gs y)"
  by (induction fs arbitrary: x) (auto split: prod.splits option.splits)

lemma runSteps_steady: "list_all (steady sel) fs \<Longrightarrow> steady sel (runSteps fs)"
proof (induction fs)
  case (Cons f fs)
  show ?case unfolding steady_def
  proof
    fix x
    have f: "snd (f x) = None" "sel (fst (fst (f x))) = sel (fst x)" using Cons.prems steadyD [of sel f x] by simp_all
    then have e: "f x = (fst (f x), None)" by (metis prod.collapse)
    have "runSteps (f # fs) x = runSteps fs (fst (f x))" by (subst runSteps.simps, subst e) simp
    with steadyD [OF Cons.IH, of "fst (f x)"] Cons.prems f
    show "snd (runSteps (f # fs) x) = None \<and> sel (fst (fst (runSteps (f # fs) x))) = sel (fst x)" by simp
  qed
qed (simp add: steady_def)

lemma pageOf_quiet: "quietDoc doc \<Longrightarrow> \<exists>r. pageOf doc w pg = Inr r"
  by (auto simp: pageOf_def quiet_derefIn Let_def split: option.split)

lemma textField_quiet: "quietDoc doc \<Longrightarrow> \<exists>r. textField tlib doc key v = Inr r"
  by (auto simp: textField_def quiet_derefIn split: prod.split)

lemma textStep_steady:
  assumes "quietDoc doc" "\<And>s e. sel (put s e) = sel e"
  shows "steady sel (textStep tlib doc d key put)"
  unfolding steady_def
proof
  fix x :: "elemInfo \<times> string list"
  obtain e errs where x: "x = (e, errs)" by fastforce
  show "snd (textStep tlib doc d key put x) = None \<and> sel (fst (fst (textStep tlib doc d key put x))) = sel (fst x)"
  proof (cases "dictFind d key")
    case (Some v)
    from textField_quiet [OF assms(1)] obtain s m where "textField tlib doc key v = Inr (s, m)" by fastforce
    with Some assms(2) show ?thesis by (simp add: textStep_def x)
  qed (simp add: textStep_def x)
qed

lemma pgStep_quiet:
  assumes "quietDoc doc"
  obtains y errs' where "pgStep doc w d parentPage (e, errs) = ((y, errs'), None)" "eiRef y = eiRef e" "eiS y = eiS e"
    "eiPage y = entryPage (swPageNums w) d parentPage"
proof (cases "dictFind d ''Pg''")
  case None
  then show ?thesis
    by (intro that [of "e\<lparr>eiPage := parentPage, eiInherited := parentPage \<noteq> 0\<rparr>" errs]) (simp_all add: pgStep_def entryPage_def)
next
  case (Some pg)
  from pageOf_quiet [OF assms] obtain n r m where p: "pageOf doc w pg = Inr (n, r, m)" by (metis prod_cases3)
  from pageOf_page [OF assms p] Some p show ?thesis
    by (intro that [of "e\<lparr>eiPage := n, eiPgRef := r\<rparr>" "appendErr errs m"]) (auto simp: pgStep_def entryPage_def split: pdfObj.split)
qed

text \<open>The steps after \<open>/S\<close> keep the reference and the name, and those after \<open>/Pg\<close> also the page.\<close>

definition textSteps :: "textLib \<Rightarrow> pdfDoc \<Rightarrow> pdfDict \<Rightarrow> elemStep list" where
  "textSteps tlib doc d =
     [textStep tlib doc d ''Alt'' (\<lambda>s e. e\<lparr>eiAlt := Some s\<rparr>),
      textStep tlib doc d ''ActualText'' (\<lambda>s e. e\<lparr>eiActualText := Some s\<rparr>),
      textStep tlib doc d ''E'' (\<lambda>s e. e\<lparr>eiE := Some s\<rparr>),
      textStep tlib doc d ''T'' (\<lambda>s e. e\<lparr>eiTitle := s\<rparr>),
      textStep tlib doc d ''Lang'' (\<lambda>s e. e\<lparr>eiLang := s\<rparr>)]"

lemma elementSteps_split:
  "elementSteps tlib doc w d parentPage = [sStep doc d] @ [typeStep doc d, roleStep w] @ [pgStep doc w d parentPage] @ textSteps tlib doc d"
  by (simp add: elementSteps_def textSteps_def)

lemma steps_steady:
  assumes "quietDoc doc"
  shows "steady (\<lambda>e. (eiRef e, eiS e, eiPage e)) (runSteps (textSteps tlib doc d))"
    "steady (\<lambda>e. (eiRef e, eiS e)) (runSteps [typeStep doc d, roleStep w])"
proof -
  show "steady (\<lambda>e. (eiRef e, eiS e, eiPage e)) (runSteps (textSteps tlib doc d))"
    by (intro runSteps_steady) (simp add: textSteps_def textStep_steady [OF assms])
  have "steady (\<lambda>e. (eiRef e, eiS e)) (typeStep doc d)" "steady (\<lambda>e. (eiRef e, eiS e)) (roleStep w)"
    by (auto simp: steady_def typeStep_def roleStep_def quiet_derefIn [OF assms] split: prod.split)
  then show "steady (\<lambda>e. (eiRef e, eiS e)) (runSteps [typeStep doc d, roleStep w])"
    by (intro runSteps_steady) simp
qed

lemma readEntries_quiet:
  assumes "quietDoc doc" "readEntries tlib doc w d parentPage e0 = (e, pan)" "eiS e0 = []"
  shows "pan = None \<and> eiRef e = eiRef e0 \<and> eiS e = nameOf (safeDeref doc (dictGet d ''S''))
    \<and> eiPage e = entryPage (swPageNums w) d parentPage"
proof -
  have s: "snd (sStep doc d (e0, [])) = None" "eiRef (fst (fst (sStep doc d (e0, [])))) = eiRef e0"
      "eiS (fst (fst (sStep doc d (e0, [])))) = nameOf (safeDeref doc (dictGet d ''S''))"
    using assms(3) by (auto simp: sStep_def quiet_derefIn [OF assms(1)] Let_def split: pdfObj.split)
  obtain x where x: "sStep doc d (e0, []) = (x, None)" using s(1) by (metis prod.collapse)
  obtain y pan1 where y: "runSteps [typeStep doc d, roleStep w] x = (y, pan1)" by fastforce
  note ys = steadyD [OF steps_steady(2) [OF assms(1), of d w], of x, unfolded y]
  obtain z zs where z: "pgStep doc w d parentPage y = ((z, zs), None)" "eiRef z = eiRef (fst y)" "eiS z = eiS (fst y)"
    "eiPage z = entryPage (swPageNums w) d parentPage"
    by (rule pgStep_quiet [OF assms(1), of w d parentPage "fst y" "snd y"]) simp
  obtain u pan2 where u: "runSteps (textSteps tlib doc d) (z, zs) = (u, pan2)" by fastforce
  note us = steadyD [OF steps_steady(1) [OF assms(1), of tlib d], of "(z, zs)", unfolded u]
  have "runSteps (elementSteps tlib doc w d parentPage) (e0, []) = (u, pan2)"
    unfolding elementSteps_split runSteps_append using x y ys z(1) u by simp
  then show ?thesis using assms(2) s x ys z us by (cases u) (auto simp: readEntries_def)
qed

section \<open>The walk\<close>

definition withinLimit :: "nat \<Rightarrow> structKid list \<Rightarrow> bool" where
  "withinLimit depth kids \<longleftrightarrow> list_all (\<lambda>k. kidHeight k + depth \<le> maxStructTreeDepth) kids"

lemma fold_max_le: "list_all (\<lambda>x. x \<le> b) xs \<Longrightarrow> a \<le> b \<Longrightarrow> fold max xs a \<le> (b :: nat)"
  by (induction xs arbitrary: a) auto

text \<open>An array that was listed before, or the entries to walk.\<close>

lemma kItems_quiet:
  assumes "quietDoc doc" "k \<noteq> PNull"
  obtains (again) n g xs where "k = PRef n g" "safeDeref doc k = PArray xs" "n \<in> set (swVisited w)"
      "kItems doc k w = Inr (Inl (w, ''/K array '' @ refString n g @ '' already listed; not walked again''))"
  | (items) w1 items where "kItems doc k w = Inr (Inr (w1, items))" "swPageNums w1 = swPageNums w"
      "swRoleMap w1 = swRoleMap w" "swClaims w1 = swClaims w" "swCounts w1 = swCounts w"
      "set (swVisited w) \<subseteq> set (swVisited w1)"
      "\<And>pages depth page kids vis'. mirrorsAll doc pages depth page (set (swVisited w1))
          (filter (\<lambda>(i, x). x \<noteq> PNull) (enumerate 0 items)) kids vis'
        \<Longrightarrow> mirrorsK doc pages depth page (set (swVisited w)) k kids vis'"
proof (cases k)
  case (PRef n g)
  show thesis
  proof (cases "asArray (safeDeref doc k)")
    case None
    then have "\<nexists>xs. safeDeref doc k = PArray xs" by auto
    with None PRef show thesis
      by (intro items [of w "[k]"]) (auto simp: kItems_def quiet_derefIn [OF assms(1)] intro: m_single)
  next
    case (Some xs)
    then have x: "safeDeref doc (PRef n g) = PArray xs" by (simp add: PRef)
    show thesis
    proof (cases "n \<in> set (swVisited w)")
      case True
      with x PRef show thesis
        by (intro again [of n g xs]) (simp_all add: kItems_def quiet_derefIn [OF assms(1)] seen_def)
    next
      case False
      with x PRef show thesis
        by (intro items [of "markSeen (Some (n, g)) w" xs])
          (auto simp: kItems_def quiet_derefIn [OF assms(1)] seen_def markSeen_def intro: m_arrayRef)
    qed
  qed
next
  case (PArray xs)
  then show thesis by (intro items [of w xs]) (auto simp: kItems_def intro: m_array)
qed (use assms(2) in \<open>(intro items [of w "[k]"]; auto simp: kItems_def intro: m_single)+\<close>)

lemma refText_Some [simp]: "refText (Some (n, g)) = refString n g" "refText None = []" "refString n g \<noteq> []"
  by (simp_all add: refText_def refString_def)

lemma owner_of_element: "eiRef e = refText mr \<Longrightarrow> ownerOf e = ownerID mr"
  by (cases mr) (auto simp: ownerOf_def ownerID_def)

lemma element_grew:
  assumes q: "grew (ownerID mr) (onCounts (\<lambda>c. c\<lparr>ctElements := ctElements c + 1\<rparr>) (markSeen mr w)) w' kids"
    and "eiRef e = refText mr" "\<not> seen mr w"
  shows "grew owner w w' [elementKidOf e kids]"
proof -
  let ?w1 = "onCounts (\<lambda>c. c\<lparr>ctElements := ctElements c + 1\<rparr>) (markSeen mr w)"
  have b: "swPageNums ?w1 = swPageNums w" "swRoleMap ?w1 = swRoleMap w" "swClaims ?w1 = swClaims w"
      "swCounts ?w1 = (swCounts w)\<lparr>ctElements := ctElements (swCounts w) + 1\<rparr>"
      "swVisited ?w1 = (case mr of Some (n, g) \<Rightarrow> n # swVisited w | None \<Rightarrow> swVisited w)"
    by (auto simp: markSeen_def onCounts_def split: option.split)
  have l: "listedNow w ?w1 (if eiRef e = [] then [] else [eiRef e])"
  proof (cases mr)
    case None
    with b assms(2) show ?thesis by (auto intro: listedNow_visits)
  next
    case (Some p)
    obtain n g where p: "p = (n, g)" by fastforce
    with Some assms(3) have "n \<notin> set (swVisited w)" by (simp add: seen_def)
    then have "listedNow w ?w1 [refString n g]"
      unfolding listedNow_def by (intro exI [of _ "[(n, g)]"]) (simp add: onCounts_def markSeen_def Some p subset_insertI)
    then show ?thesis using Some p assms(2) by simp
  qed
  from q have n: "swPageNums w' = swPageNums w" "swRoleMap w' = swRoleMap w"
      "swClaims w' = swClaims w @ concat (map (kidClaims (ownerID mr)) kids)"
      "tallied ((swCounts w)\<lparr>ctElements := ctElements (swCounts w) + 1\<rparr>) (swCounts w') (concat (map kidKinds kids))"
      "listedNow ?w1 w' (concat (map elementRefs kids))"
    unfolding grew_def b by simp_all
  have t: "tallied (swCounts w) (swCounts w') (''element'' # concat (map kidKinds kids))"
    using n(4) by (simp add: tallied_def)
  from listedNow_trans [OF l n(5)] n(1-3) t show ?thesis
    by (simp add: grew_def elementKidOf_def plainKid_def owner_of_element [OF assms(2)])
qed

lemma element_mirrors:
  assumes "isElement doc raw d" "depth < 256" "\<not> seen (asRef raw) w" "eiRef e = refText (asRef raw)"
    "eiS e = nameOf (safeDeref doc (dictGet d ''S''))" "eiPage e = entryPage pages d page"
    "mirrorsK doc pages (depth + 1) (eiPage e) (set (swVisited (markSeen (asRef raw) w))) (dictGet d ''K'') kids vis'"
  shows "mirrors doc pages depth page (set (swVisited w)) raw (elementKidOf e kids) vis'"
proof -
  have v: "set (swVisited (markSeen (asRef raw) w)) = refNumber raw \<union> set (swVisited w)" "refNumber raw \<inter> set (swVisited w) = {}"
    using assms(3) by (cases raw; simp add: markSeen_def seen_def)+
  show ?thesis unfolding elementKidOf_def
    by (rule m_elem [OF assms(1,2) v(2) _ assms(4-6) assms(7) [unfolded v(1)]]) (simp add: plainKid_def)
qed

lemma element_height:
  assumes "withinLimit depth kids" "depth \<le> maxStructTreeDepth"
  shows "kidHeight (elementKidOf e kids) + depth \<le> maxStructTreeDepth + 1"
proof -
  have "fold max (map kidHeight kids) 0 \<le> maxStructTreeDepth - depth"
    by (rule fold_max_le) (use assms in \<open>auto simp: withinLimit_def list_all_iff\<close>)
  with assms(2) show ?thesis by (simp add: elementKidOf_def)
qed

lemma mcrStep_quiet: "quietDoc doc \<Longrightarrow> mcrStep doc d owner page w = (w', r) \<Longrightarrow> \<exists>k. r = Inr k"
  using pageOf_quiet [of doc]
  by (auto simp: mcrStep_def mcrKid_def kidPage_def stmEntry_def quiet_derefIn Let_def
      split: sum.split_asm option.split_asm prod.split_asm if_split_asm) (metis sum.distinct(1))+

lemma objrStep_quiet: "quietDoc doc \<Longrightarrow> objrStep doc d page w = (w', r) \<Longrightarrow> \<exists>k. r = Inr k"
  using pageOf_quiet [of doc]
  by (auto simp: objrStep_def objrKid_def kidPage_def objTypeOf_def quiet_derefIn Let_def
      split: sum.split_asm option.split_asm prod.split_asm if_split_asm) (metis sum.distinct(1))+

lemma walk_quiet:
  fixes tlib doc
  assumes q: "quietDoc doc"
  shows "depth \<le> maxStructTreeDepth \<Longrightarrow> walkK tlib doc k owner page depth w = (wk, rk) \<Longrightarrow>
      \<exists>kids. rk = Inr kids \<and> grew owner w wk kids \<and> withinLimit depth kids
        \<and> mirrorsK doc (swPageNums w) depth page (set (swVisited w)) k kids (set (swVisited wk))"
    and "depth \<le> maxStructTreeDepth \<Longrightarrow> walkItems tlib doc i items owner page depth acc w = (wk, rk) \<Longrightarrow>
      \<exists>new. rk = Inr (acc @ new) \<and> grew owner w wk new \<and> withinLimit depth new
        \<and> mirrorsAll doc (swPageNums w) depth page (set (swVisited w)) (filter (\<lambda>(i, x). x \<noteq> PNull) (enumerate i items)) new (set (swVisited wk))"
    and "depth \<le> maxStructTreeDepth \<Longrightarrow> kidOf tlib doc raw owner page depth w = (wk, ri) \<Longrightarrow>
      \<exists>kid. ri = Inr kid \<and> grew owner w wk [kid] \<and> withinLimit depth [kid]
        \<and> mirrors doc (swPageNums w) depth page (set (swVisited w)) raw kid (set (swVisited wk))"
    and "elementKid tlib doc d mr page depth w = (wk, kid) \<Longrightarrow>
      (\<forall>owner. grew owner w wk [kid]) \<and> (depth \<le> maxStructTreeDepth + 1 \<longrightarrow> kidHeight kid + depth \<le> maxStructTreeDepth + 1)
      \<and> (\<forall>raw up. isElement doc raw d \<and> asRef raw = mr \<and> depth = up + 1 \<longrightarrow>
           mirrors doc (swPageNums w) up page (set (swVisited w)) raw kid (set (swVisited wk)))"
  using q
proof (induction tlib doc k owner page depth w and tlib doc i items owner page depth acc w
    and tlib doc raw owner page depth w and tlib doc d mr page depth w
    arbitrary: wk rk and wk rk and wk ri and wk kid
    rule: walkK_walkItems_kidOf_elementKid.induct)
  case (1 tlib doc k owner page depth w)
  note step = walkK.simps [of tlib doc k owner page depth w]
  show ?case
  proof (cases "k = PNull")
    case True
    have "mirrorsK doc (swPageNums w) depth page (set (swVisited w)) PNull [] (set (swVisited w))"
      by (rule m_single) (simp_all add: m_nil)
    then show ?thesis using True "1.prems" step by (simp add: withinLimit_def)
  next
    case False
    from "1.prems"(3) False show ?thesis
    proof (cases rule: kItems_quiet [of doc k w])
      case (again n g xs)
      obtain w2 kid where e: "errorKid (''/K array '' @ refString n g @ '' already listed; not walked again'') w = (w2, kid)" by fastforce
      with again False "1.prems" step have "rk = Inr [kid]" "wk = w2" by simp_all
      with errorKid_grew [OF e, of owner] again m_arrayAgain [of doc n g xs "set (swVisited w)"] show ?thesis
        using "1.prems"(1) by (auto simp: withinLimit_def)
    next
      case (items w1 items)
      have g: "grew owner w w1 []" using items by (simp add: grew_def listedNow_visits)
      from "1.prems" False items(1) step have "walkItems tlib doc 0 items owner page depth [] w1 = (wk, rk)" by simp
      from "1.IH" [OF False items(1) refl refl "1.prems"(1) this "1.prems"(3)] obtain new where
        "rk = Inr new" "grew owner w1 wk new" "withinLimit depth new"
        "mirrorsAll doc (swPageNums w1) depth page (set (swVisited w1)) (filter (\<lambda>(i, x). x \<noteq> PNull) (enumerate 0 items)) new (set (swVisited wk))"
        by auto
      then show ?thesis using grew_trans [OF g, of wk new] items(2,7) by auto
    qed
  qed
next
  case (2 tlib doc i owner page depth kids w)
  then have "rk = Inr (kids @ [])" "wk = w" by (simp_all add: walkItems.simps(1))
  moreover have "withinLimit depth []" by (simp add: withinLimit_def)
  moreover have "mirrorsAll doc (swPageNums w) depth page (set (swVisited w)) (filter (\<lambda>(i, x). x \<noteq> PNull) (enumerate i [])) [] (set (swVisited w))"
    by (simp add: m_nil)
  ultimately show ?case using grew_none by blast
next
  case (3 tlib doc i item items owner page depth kids w)
  note step = walkItems.simps(2) [of tlib doc i item items owner page depth kids w]
  show ?case
  proof (cases "item = PNull")
    case True
    with 3 step show ?thesis by simp
  next
    case False
    obtain w1 r where k: "kidOf tlib doc item owner page depth w = (w1, r)" by fastforce
    from "3.IH"(2) [OF False "3.prems"(1) k "3.prems"(3)] obtain kid where
      r: "r = Inr kid" and kid: "grew owner w w1 [kid]" "withinLimit depth [kid]"
        "mirrors doc (swPageNums w) depth page (set (swVisited w)) item kid (set (swVisited w1))" by blast
    from "3.prems" step False k r have e: "walkItems tlib doc (i + 1) items owner page depth (kids @ [setIndex i kid]) w1 = (wk, rk)"
      by simp
    from "3.IH"(3) [OF False k [symmetric] r "3.prems"(1) e "3.prems"(3)] obtain new where
      n: "rk = Inr ((kids @ [setIndex i kid]) @ new)" "grew owner w1 wk new" "withinLimit depth new"
         "mirrorsAll doc (swPageNums w1) depth page (set (swVisited w1)) (filter (\<lambda>(i, x). x \<noteq> PNull) (enumerate (i + 1) items)) new (set (swVisited wk))"
      by blast
    have p: "swPageNums w1 = swPageNums w" using kid(1) by (simp add: grew_def)
    show ?thesis
    proof (intro exI conjI)
      show "rk = Inr (kids @ setIndex i kid # new)" using n(1) by simp
      show "grew owner w wk (setIndex i kid # new)"
        using grew_trans [OF _ n(2), of w "[setIndex i kid]"] kid(1) by simp
      show "mirrorsAll doc (swPageNums w) depth page (set (swVisited w)) (filter (\<lambda>(i, x). x \<noteq> PNull) (enumerate i (item # items)))
          (setIndex i kid # new) (set (swVisited wk))"
        using False m_cons [OF mirrors_setIndex [OF kid(3)] kiIndex_setIndex n(4) [unfolded p]] by simp
      show "withinLimit depth (setIndex i kid # new)" using n(3) kid(2) by (simp add: withinLimit_def)
    qed
  qed
next
  case (4 tlib doc raw owner page depth w)
  note step = kidOf.simps [of tlib doc raw owner page depth w]
  note quiet = quiet_derefIn [OF "4.prems"(3)]
  let ?m = "\<lambda>kid. mirrors doc (swPageNums w) depth page (set (swVisited w)) raw kid"
  have leaf: "ri = Inr kid \<Longrightarrow> grew owner w wk [kid] \<and> swVisited wk = swVisited w \<and> kidHeight kid = 0 \<and> ?m kid (set (swVisited w)) \<Longrightarrow> ?case" for kid
    using "4.prems"(1) by (auto simp: withinLimit_def)
  have err: "(wk, ri) = noPanic (errorKid msg w) \<Longrightarrow>
      (\<And>i. reports i msg \<Longrightarrow> ?m (StructKid i None) (set (swVisited w))) \<Longrightarrow> ?case" for msg
  proof -
    assume a: "(wk, ri) = noPanic (errorKid msg w)" "\<And>i. reports i msg \<Longrightarrow> ?m (StructKid i None) (set (swVisited w))"
    obtain w2 kid where e: "errorKid msg w = (w2, kid)" by fastforce
    from a(1) have "wk = w2" "ri = Inr kid" by (simp_all add: e noPanic_def)
    with errorKid_grew [OF e, of owner] a(2) leaf show ?case by blast
  qed
  have other: ?case if no: "\<nexists>v. safeDeref doc raw = PInt v" "\<nexists>d. safeDeref doc raw = PDict d" "safeDeref doc raw \<noteq> PNull \<or> \<not> isRef raw"
  proof -
    have "(wk, ri) = noPanic (errorKid (''kid is '' @ objKind (safeDeref doc raw) @ '', not an element, MCID, MCR or OBJR'') w)"
      using no "4.prems"(2) step quiet by (cases "safeDeref doc raw") simp_all
    then show ?case by (rule err) (rule m_other [OF no])
  qed
  show ?case
  proof (cases "safeDeref doc raw")
    case (PDict d)
    consider "typeOf doc d = ''MCR''" | "typeOf doc d = ''OBJR''" | "typeOf doc d \<noteq> ''MCR''" "typeOf doc d \<noteq> ''OBJR''" by blast
    then show ?thesis
    proof cases
      case 1
      with "4.prems"(2) step PDict quiet have m: "mcrStep doc d owner page w = (wk, ri)" by (simp add: typeOf_def)
      then obtain k where "ri = Inr k" using mcrStep_quiet [OF "4.prems"(3)] by blast
      with m mcrStep_grew [OF "4.prems"(3), of d owner page w wk k raw] PDict 1 leaf show ?thesis by blast
    next
      case 2
      with "4.prems"(2) step PDict quiet have m: "objrStep doc d page w = (wk, ri)" by (simp add: typeOf_def)
      then obtain k where "ri = Inr k" using objrStep_quiet [OF "4.prems"(3)] by blast
      with m objrStep_grew [OF "4.prems"(3), of d page w wk k raw owner] PDict 2 leaf show ?thesis by blast
    next
      case 3
      obtain w2 kid where e: "elementKid tlib doc d (asRef raw) page (depth + 1) w = (w2, kid)" by fastforce
      have r: "wk = w2" "ri = Inr kid" using "4.prems"(2) step PDict quiet 3 e by (simp_all add: typeOf_def noPanic_def)
      have t: "derefIn doc (dictGet d ''Type'') = Inr (safeDeref doc (dictGet d ''Type''))" "derefIn doc raw = Inr (PDict d)"
        using quiet PDict by simp_all
      have "isElement doc raw d" using PDict 3 by (simp add: isElement_def)
      with "4.IH" [OF t(2) refl t(1) _ _ e "4.prems"(3)] 3 have "grew owner w w2 [kid]" "?m kid (set (swVisited w2))"
          "kidHeight kid + (depth + 1) \<le> maxStructTreeDepth + 1"
        using "4.prems"(1) by (simp_all add: typeOf_def)
      then show ?thesis unfolding r by (intro exI conjI refl) (simp_all add: withinLimit_def)
    qed
  next
    case (PInt v)
    obtain w2 kid where e: "mcidKid v owner page w = (w2, kid)" by fastforce
    with "4.prems"(2) step PInt quiet have "wk = w2" "ri = Inr kid" by (simp_all add: noPanic_def)
    with mcidKid_grew [OF e PInt] leaf show ?thesis by blast
  next
    case PNull
    show ?thesis
    proof (cases "isRef raw")
      case True
      then obtain n g where n: "raw = PRef n g" by (cases raw) auto
      with PNull "4.prems"(2) step quiet m_missing [OF n PNull] show ?thesis by (intro err) auto
    next
      case False
      with PNull show ?thesis by (intro other) simp_all
    qed
  qed (rule other; simp)+
next
  case (5 tlib doc d mr parentPage depth w)
  note step = elementKid.simps [of tlib doc d mr parentPage depth w]
  consider (deep) "maxStructTreeDepth < depth" | (again) "\<not> maxStructTreeDepth < depth" "seen mr w"
    | (new) "\<not> maxStructTreeDepth < depth" "\<not> seen mr w" by blast
  then show ?case
  proof cases
    case deep
    then have e: "errorKid (''structure tree deeper than '' @ showNat maxStructTreeDepth @ '' levels; subtree not walked'') w = (wk, kid)"
      using "5.prems" step by simp
    have t: "showNat maxStructTreeDepth = ''256''" by code_simp
    from errorKid_grew [OF e] show ?thesis unfolding t
      using deep m_deep by (fastforce simp: maxStructTreeDepth_def)
  next
    case again
    then have e: "errorKid (''element '' @ refText mr @ '' already listed; not walked again'') w = (wk, kid)"
      using "5.prems" step by simp
    from again(2) obtain n g where mr: "mr = Some (n, g)" "n \<in> set (swVisited w)"
      by (auto simp: seen_def split: option.split_asm)
    from errorKid_grew [OF e] show ?thesis
      using again(1) mr m_again by (fastforce simp: maxStructTreeDepth_def refText_def)
  next
    case new
    let ?w1 = "onCounts (\<lambda>c. c\<lparr>ctElements := ctElements c + 1\<rparr>) (markSeen mr w)"
    obtain e pan where e: "readEntries tlib doc ?w1 d parentPage (newElemOf mr) = (e, pan)" by fastforce
    have "eiS (newElemOf mr) = []" "eiRef (newElemOf mr) = refText mr" by (simp_all add: newElemOf_def newElem_def)
    moreover have p: "swPageNums ?w1 = swPageNums w" "swVisited ?w1 = swVisited (markSeen mr w)"
      by (simp_all add: onCounts_def markSeen_def split: option.split)
    ultimately have e2: "pan = None" "eiRef e = refText mr" "eiS e = nameOf (safeDeref doc (dictGet d ''S''))"
        "eiPage e = entryPage (swPageNums w) d parentPage"
      using readEntries_quiet [OF "5.prems"(2) e] by simp_all
    obtain w2 r where k: "walkK tlib doc (dictGet d ''K'') (ownerID mr) (eiPage e) depth ?w1 = (w2, r)" by fastforce
    have d: "depth \<le> maxStructTreeDepth" using new(1) by simp
    from "5.IH" [OF new refl e [symmetric] e2(1) d k "5.prems"(2)] obtain kids where
      kids: "r = Inr kids" "grew (ownerID mr) ?w1 w2 kids" "withinLimit depth kids"
        "mirrorsK doc (swPageNums w) depth (eiPage e) (set (swVisited (markSeen mr w))) (dictGet d ''K'') kids (set (swVisited w2))"
      unfolding p by blast
    have w: "wk = w2" "kid = elementKidOf e kids"
      using "5.prems"(1) step new e e2(1) k kids(1) by (simp_all add: Let_def)
    have "mirrors doc (swPageNums w) up parentPage (set (swVisited w)) raw (elementKidOf e kids) (set (swVisited w2))"
      if "isElement doc raw d" "asRef raw = mr" "depth = up + 1" for raw up
      using element_mirrors [OF that(1), of up w e "swPageNums w" parentPage kids] that(2,3) new(2) d e2(2-4) kids(4)
      by (simp add: maxStructTreeDepth_def)
    then show ?thesis unfolding w
      using element_grew [OF kids(2) e2(2) new(2)] element_height [OF kids(3) d, of e] by blast
  qed
qed

section \<open>The tree of a document\<close>

text \<open>The kids a walk from the root reports; \<open>Inl\<close> is a panic.\<close>

definition freshTree :: "structWalker \<Rightarrow> bool" where
  "freshTree w \<longleftrightarrow> swVisited w = [] \<and> swClaims w = []
     \<and> swCounts w = \<lparr> ctElements = 0, ctMCIDKids = 0, ctMCRKids = 0, ctOBJRKids = 0, ctErrorKids = 0, ctContentMCIDs = 0 \<rparr>"

definition kindsIn :: "structKid list \<Rightarrow> string list" where
  "kindsIn kids = concat (map kidKinds kids)"

lemma refString_inj: "inj_on (\<lambda>(n, g). refString n g) A"
  by (auto simp: inj_on_def)

lemma listed_distinct: "listedNow w w' refs \<Longrightarrow> distinct refs"
  by (auto simp: listedNow_def distinct_map refString_inj)

text \<open>
  Claim C29. On every document no read of which panics, the walk of the structure tree ends without one and
  reports the tree of the document: for each entry that is not null, in order and with its position, what
  the entry is, with the reference, \<open>/S\<close> and page of an element, the MCID, page and stream of a marked-content
  kid and the object of an object reference; an error stands only where an entry cannot be read or is of no
  such kind, for a negative MCID, for an element below 256 others, and for an element or an array of kids
  listed before in the walk. No element is listed twice, no path is deeper than the limit, the claims on
  marked content are those of the MCID kids in the tree, in its order, and the counts are those of its kids.
\<close>

theorem structure_tree_mirrors:
  assumes "quietDoc doc" "freshTree w"
  shows "\<exists>w' kids vis. walkK tlib doc k [] 0 0 w = (w', Inr kids) \<and> mirrorsK doc (swPageNums w) 0 0 {} k kids vis
    \<and> distinct (concat (map elementRefs kids)) \<and> withinLimit 0 kids \<and> swClaims w' = concat (map (kidClaims []) kids)
    \<and> ctElements (swCounts w') = count_list (kindsIn kids) ''element'' \<and> ctMCIDKids (swCounts w') = count_list (kindsIn kids) ''mcid''
    \<and> ctMCRKids (swCounts w') = count_list (kindsIn kids) ''mcr'' \<and> ctOBJRKids (swCounts w') = count_list (kindsIn kids) ''objr''
    \<and> ctErrorKids (swCounts w') = count_list (kindsIn kids) ''error''"
proof -
  obtain w' r where e: "walkK tlib doc k [] 0 0 w = (w', r)" by fastforce
  have v: "set (swVisited w) = {}" using assms(2) by (simp add: freshTree_def)
  from walk_quiet(1) [OF assms(1) _ e] obtain kids where
    "r = Inr kids" "grew [] w w' kids" "mirrorsK doc (swPageNums w) 0 0 {} k kids (set (swVisited w'))" "withinLimit 0 kids"
    unfolding v by auto
  with assms(2) listed_distinct e show ?thesis
    by (intro exI [of _ w'] exI [of _ kids] exI [of _ "set (swVisited w')"]) (auto simp: grew_def tallied_def freshTree_def kindsIn_def)
qed

text \<open>An element with an MCID and a kid that refers back to it.\<close>

definition taggedDoc :: pdfDoc where
  "taggedDoc = \<lparr> xrefNums = [7], xrefLookup = (\<lambda>n g. DObj (PDict [(''S'', PName ''P''), (''K'', PArray [PInt 0, PRef 7 0])])),
     docRoot = None, docCatalog = DErr [] \<rparr>"

definition plainTexts :: textLib where
  "plainTexts = \<lparr> libText = (\<lambda>v. None), libUnescape = (\<lambda>s. None), libHexBytes = (\<lambda>s. None), libFloat = (\<lambda>r. ''0'') \<rparr>"

definition taggedTree :: structWalker where
  "taggedTree = \<lparr> swPageNums = [], swRoleMap = [], swVisited = [], swClaims = [],
     swCounts = \<lparr> ctElements = 0, ctMCIDKids = 0, ctMCRKids = 0, ctOBJRKids = 0, ctErrorKids = 0, ctContentMCIDs = 0 \<rparr> \<rparr>"

lemma tagged_quiet: "quietDoc taggedDoc"
  by (simp add: quietDoc_def lookupRef_def taggedDoc_def)

theorem structure_tree_mirrors_witness:
  "\<exists>w' kids. walkK plainTexts taggedDoc (PRef 7 0) [] 0 0 taggedTree = (w', Inr kids) \<and> distinct (concat (map elementRefs kids))"
  using structure_tree_mirrors [OF tagged_quiet, of taggedTree plainTexts "PRef 7 0"]
  by (auto simp: freshTree_def taggedTree_def)

end
