(* ===== verification/StreamCalls.thy ===== *)
theory StreamCalls
  imports Format TreeNodes PageIndex
begin

text \<open>
  The calls of \<^verbatim>\<open>internal/pdfcore/stream.go\<close> that fetch a content stream: the streams of a page, the decoding
  of one stream behind the per-document cache, and the content of a whole page. The locks make each call one
  step; the cache is passed in and returned.
\<close>

section \<open>The streams of a page\<close>

text \<open>Go's \<^verbatim>\<open>%T\<close> for the library's objects\<close>

fun goType :: "pdfObj \<Rightarrow> string" where
  "goType PNull = ''<nil>''"
| "goType (PBool b) = ''types.Boolean''"
| "goType (PInt i) = ''types.Integer''"
| "goType (PReal q) = ''types.Float''"
| "goType (PName n) = ''types.Name''"
| "goType (PString s) = ''types.StringLiteral''"
| "goType (PHex s) = ''types.HexLiteral''"
| "goType (PRef n g) = ''types.IndirectRef''"
| "goType (PArray xs) = ''types.Array''"
| "goType (PDict d) = ''types.Dict''"
| "goType (PStream k d) = (case k of PlainStream \<Rightarrow> ''types.StreamDict'' | ObjectStream \<Rightarrow> ''types.ObjectStreamDict''
     | XRefStream \<Rightarrow> ''types.XRefStreamDict'')"

text \<open>The elements of an array: null ones are skipped, anything else that is no reference is an error.\<close>

fun arrayRefs :: "nat \<Rightarrow> pdfObj list \<Rightarrow> string + pdfRef list" where
  "arrayRefs i [] = Inr []"
| "arrayRefs i (e # es) =
     (if e = PNull then arrayRefs (i + 1) es
      else (case asRef e of
              None \<Rightarrow> Inl (''contents array element '' @ showNat i @ '' is not an indirect reference: '' @ goType e)
            | Some r \<Rightarrow> (case arrayRefs (i + 1) es of Inl err \<Rightarrow> Inl err | Inr rs \<Rightarrow> Inr (r # rs))))"

text \<open>A read can panic, the call can fail, or it answers the references.\<close>

datatype 'a read = ReadPanic string | ReadErr string | ReadOK 'a

definition contentStreamRefs :: "pdfDoc \<Rightarrow> pdfDict \<Rightarrow> pdfRef list read" where
  "contentStreamRefs doc pageDict =
     (let contents = dictGet pageDict ''Contents'' in
      if contents = PNull then ReadOK []
      else (case (if isRef contents then derefIn doc contents else Inr PNull) of
              Inl p \<Rightarrow> ReadPanic p
            | Inr target \<Rightarrow>
                (case asArray target of
                   Some xs \<Rightarrow> (case arrayRefs 0 xs of Inl e \<Rightarrow> ReadErr e | Inr rs \<Rightarrow> ReadOK rs)
                 | None \<Rightarrow>
                     (case contents of
                        PRef n g \<Rightarrow> ReadOK [(n, g)]
                      | PArray xs \<Rightarrow> (case arrayRefs 0 xs of Inl e \<Rightarrow> ReadErr e | Inr rs \<Rightarrow> ReadOK rs)
                      | _ \<Rightarrow> ReadErr (''unexpected Contents type: '' @ goType contents)))))"

definition refID :: "pdfRef \<Rightarrow> string" where
  "refID r = nodeIDForRef (fst r) (snd r)"

definition contentStreamIDs :: "pdfDoc \<Rightarrow> pdfDict \<Rightarrow> string list read" where
  "contentStreamIDs doc pageDict =
     (case contentStreamRefs doc pageDict of
        ReadOK rs \<Rightarrow> ReadOK (map refID rs) | ReadPanic p \<Rightarrow> ReadPanic p | ReadErr e \<Rightarrow> ReadErr e)"

text \<open>\<^verbatim>\<open>findPage\<close> with the two errors its callers make of it\<close>

definition numberedPage :: "pageLib \<Rightarrow> pdfDoc \<Rightarrow> int \<Rightarrow> string + pageLeaf" where
  "numberedPage lib doc pageNum =
     (case findPage lib doc pageNum of
        Inl e \<Rightarrow> Inl (''page '' @ showInt pageNum @ '': '' @ e)
      | Inr None \<Rightarrow> Inl (''page '' @ showInt pageNum @ '' not found'')
      | Inr (Some leaf) \<Rightarrow> Inr leaf)"

definition pageContentStreamNodeIDs :: "pageLib \<Rightarrow> pdfDoc \<Rightarrow> int \<Rightarrow> string list read" where
  "pageContentStreamNodeIDs lib doc pageNum =
     (case numberedPage lib doc pageNum of Inl e \<Rightarrow> ReadErr e | Inr leaf \<Rightarrow> contentStreamIDs doc (lfDict leaf))"

definition GetPageContentStreamNodeID :: "pageLib \<Rightarrow> pdfDoc \<Rightarrow> int \<Rightarrow> string read" where
  "GetPageContentStreamNodeID lib doc pageNum =
     (case pageContentStreamNodeIDs lib doc pageNum of
        ReadOK ids \<Rightarrow> ReadOK (if ids = [] then [] else hd ids) | ReadPanic p \<Rightarrow> ReadPanic p | ReadErr e \<Rightarrow> ReadErr e)"

text \<open>\<^verbatim>\<open>GetPageNode\<close>\<close>

definition GetPageNode :: "textLib \<Rightarrow> pageLib \<Rightarrow> pdfDoc \<Rightarrow> int \<Rightarrow> string + treeNode" where
  "GetPageNode tlib lib doc pageNum =
     (case numberedPage lib doc pageNum of
        Inl e \<Rightarrow> Inl e
      | Inr leaf \<Rightarrow>
          (case lfRef leaf of
             None \<Rightarrow> Inl (''page '' @ showInt pageNum @ '' not found: the page is a direct dictionary with no object reference'')
           | Some (n, g) \<Rightarrow>
               (let v = PDict (lfDict leaf) in
                case classifyObject v of (nodeType, valueType, hasChildren, childCount) \<Rightarrow>
                  Inr \<lparr> tnID = nodeIDForRef n g, tnLabel = semanticLabel tlib [] v, tnRawKey = [], tnNodeType = nodeType,
                     tnValueType = valueType, tnHasChildren = hasChildren, tnChildCount = childCount,
                     tnIconHint = iconHint [] nodeType v, tnError = [], tnObjectRef = refString n g,
                     tnTypeName = extractTypeName v, tnValue = [], tnValueRaw = [] \<rparr>)))"

section \<open>One stream\<close>

text \<open>
  What the library answers for the stream a node ID leads to: the error of \<^verbatim>\<open>Decode\<close>, a panic's text included,
  or the content, and the undecoded bytes when there is no content.
\<close>

record streamLib =
  slDecode :: "string \<Rightarrow> string + string option"
  slRaw :: "string \<Rightarrow> string"

datatype streamFailure = OnErrorNode | NotAStream | DecodeFailed string | Unresolved nodeAnswer

text \<open>The result of \<^verbatim>\<open>decodeContentStreamLocked\<close>: a resolve failure is \<open>Unresolved\<close>, anything else belongs in the result.\<close>

definition decodeContentStreamLocked :: "streamLib \<Rightarrow> pdfDoc \<Rightarrow> string \<Rightarrow> streamFailure + string" where
  "decodeContentStreamLocked slib doc nodeID =
     (case resolveNodeObject doc nodeID of
        NodeObj (PStream k d) \<Rightarrow>
          (case slDecode slib nodeID of
             Inl e \<Rightarrow> Inl (DecodeFailed e)
           | Inr (Some content) \<Rightarrow> Inr content
           | Inr None \<Rightarrow> Inr (slRaw slib nodeID))
      | NodeObj v \<Rightarrow> Inl NotAStream
      | r \<Rightarrow> Inl (Unresolved r))"

record contentStreamData =
  csNodeID :: string
  csRaw :: string
  csTokenized :: "token list"
  csFormatted :: "formattedLine list"
  csError :: "streamFailure option"

definition failedStream :: "string \<Rightarrow> streamFailure \<Rightarrow> contentStreamData" where
  "failedStream nodeID e = \<lparr> csNodeID = nodeID, csRaw = [], csTokenized = [], csFormatted = [], csError = Some e \<rparr>"

definition decodedData :: "string \<Rightarrow> string \<Rightarrow> contentStreamData" where
  "decodedData nodeID raw =
     (let tokens = (if raw = [] then [] else tokenizeContentStream raw)
      in \<lparr> csNodeID = nodeID, csRaw = raw, csTokenized = tokens, csFormatted = (if raw = [] then [] else Format tokens), csError = None \<rparr>)"

type_synonym streamCache = "string \<rightharpoonup> contentStreamData"

datatype streamAnswer = NoNodeID | ResolveFailed nodeAnswer | Stream contentStreamData

definition GetContentStream :: "streamLib \<Rightarrow> pdfDoc \<Rightarrow> string \<Rightarrow> streamCache \<Rightarrow> streamAnswer \<times> streamCache" where
  "GetContentStream slib doc nodeID cache =
     (if nodeID = [] then (NoNodeID, cache)
      else if hasPrefix nodeID ''error:'' then (Stream (failedStream nodeID OnErrorNode), cache)
      else (case cache nodeID of
              Some cached \<Rightarrow> (Stream cached, cache)
            | None \<Rightarrow>
                (case decodeContentStreamLocked slib doc nodeID of
                   Inl (Unresolved r) \<Rightarrow> (ResolveFailed r, cache)
                 | Inl e \<Rightarrow> (let result = failedStream nodeID e in (Stream result, cache(nodeID \<mapsto> result)))
                 | Inr raw \<Rightarrow> (let result = decodedData nodeID raw in (Stream result, cache(nodeID \<mapsto> result))))))"

section \<open>A whole page\<close>

text \<open>The loop over the page's streams: it ends at the first that cannot be resolved or decoded.\<close>

fun fetchAll :: "streamLib \<Rightarrow> pdfDoc \<Rightarrow> string list \<Rightarrow> string list \<Rightarrow> streamCache \<Rightarrow> (streamAnswer + string list) \<times> streamCache" where
  "fetchAll slib doc [] raws cache = (Inr raws, cache)"
| "fetchAll slib doc (nid # ids) raws cache =
     (case GetContentStream slib doc nid cache of
        (Stream cs, cache') \<Rightarrow>
          (case csError cs of
             Some e \<Rightarrow> (Inl (Stream (failedStream nid e)), cache')
           | None \<Rightarrow> fetchAll slib doc ids (raws @ [csRaw cs]) cache')
      | (r, cache') \<Rightarrow> (Inl r, cache'))"

datatype pageStreamAnswer = PageRead "contentStreamData option read" | StreamUnread streamAnswer

definition GetPageContentStream :: "pageLib \<Rightarrow> streamLib \<Rightarrow> pdfDoc \<Rightarrow> int \<Rightarrow> streamCache \<Rightarrow> pageStreamAnswer \<times> streamCache" where
  "GetPageContentStream lib slib doc pageNum cache =
     (case pageContentStreamNodeIDs lib doc pageNum of
        ReadPanic p \<Rightarrow> (PageRead (ReadPanic p), cache)
      | ReadErr e \<Rightarrow> (PageRead (ReadErr e), cache)
      | ReadOK ids \<Rightarrow>
          if ids = [] then (PageRead (ReadOK None), cache)
          else (case fetchAll slib doc ids [] cache of
                  (Inl (Stream cs), cache') \<Rightarrow> (PageRead (ReadOK (Some cs)), cache')
                | (Inl r, cache') \<Rightarrow> (StreamUnread r, cache')
                | (Inr raws, cache') \<Rightarrow> (PageRead (ReadOK (Some (decodedData (hd ids) (joinWith [cLF] raws)))), cache')))"

section \<open>Calls that remember their answers\<close>

text \<open>
  The contract of a call that keeps answers for later: whatever it remembers, it answers what it would have
  worked out afresh. Then so does every sequence of calls.
\<close>

fun callAll :: "('k \<Rightarrow> 's \<Rightarrow> 'v \<times> 's) \<Rightarrow> 'k list \<Rightarrow> 's \<Rightarrow> 'v list \<times> 's" where
  "callAll call [] s = ([], s)"
| "callAll call (k # ks) s = (case call k s of (v, s1) \<Rightarrow> case callAll call ks s1 of (vs, s2) \<Rightarrow> (v # vs, s2))"

locale remembering =
  fixes call :: "'k \<Rightarrow> 's \<Rightarrow> 'v \<times> 's" and fresh :: "'k \<Rightarrow> 'v" and faithful :: "'s \<Rightarrow> bool"
  assumes answers: "faithful s \<Longrightarrow> fst (call k s) = fresh k"
    and keeps: "faithful s \<Longrightarrow> faithful (snd (call k s))"
begin

lemma call_eq: "faithful s \<Longrightarrow> call k s = (fresh k, snd (call k s))"
  using answers [of s k] by (cases "call k s") simp

lemma all_answers: "faithful s \<Longrightarrow> fst (callAll call ks s) = map fresh ks \<and> faithful (snd (callAll call ks s))"
proof (induction ks arbitrary: s)
  case (Cons k ks)
  from Cons.IH [OF keeps [OF Cons.prems, of k]] answers [OF Cons.prems, of k] show ?case
    by (cases "call k s") (auto simp: split_beta)
qed simp

end

section \<open>The cache never shows\<close>

definition freshStream :: "streamLib \<Rightarrow> pdfDoc \<Rightarrow> string \<Rightarrow> streamAnswer" where
  "freshStream slib doc nodeID = fst (GetContentStream slib doc nodeID Map.empty)"

definition cacheFaithful :: "streamLib \<Rightarrow> pdfDoc \<Rightarrow> streamCache \<Rightarrow> bool" where
  "cacheFaithful slib doc cache \<longleftrightarrow> (\<forall>nid cs. cache nid = Some cs \<longrightarrow> freshStream slib doc nid = Stream cs)"

lemma cacheFaithful_update:
  "cacheFaithful slib doc cache \<Longrightarrow> freshStream slib doc nid = Stream cs \<Longrightarrow> cacheFaithful slib doc (cache(nid \<mapsto> cs))"
  by (simp add: cacheFaithful_def)

lemma GetContentStream_fresh:
  assumes "cacheFaithful slib doc cache"
  shows "fst (GetContentStream slib doc nid cache) = freshStream slib doc nid"
    "cacheFaithful slib doc (snd (GetContentStream slib doc nid cache))"
proof -
  have f: "freshStream slib doc nid = (if nid = [] then NoNodeID else if hasPrefix nid ''error:'' then Stream (failedStream nid OnErrorNode)
      else (case decodeContentStreamLocked slib doc nid of Inl (Unresolved r) \<Rightarrow> ResolveFailed r
        | Inl e \<Rightarrow> Stream (failedStream nid e) | Inr raw \<Rightarrow> Stream (decodedData nid raw)))"
    by (simp add: freshStream_def GetContentStream_def Let_def split: sum.split streamFailure.split)
  show "fst (GetContentStream slib doc nid cache) = freshStream slib doc nid"
  proof (cases "cache nid")
    case None
    then show ?thesis unfolding f by (simp add: GetContentStream_def Let_def split: sum.split streamFailure.split)
  next
    case (Some cs)
    with assms have "freshStream slib doc nid = Stream cs" by (simp add: cacheFaithful_def)
    moreover from this f have "nid \<noteq> []" by auto
    ultimately show ?thesis using Some f by (auto simp: GetContentStream_def)
  qed
  show "cacheFaithful slib doc (snd (GetContentStream slib doc nid cache))"
    using assms cacheFaithful_update [OF assms, of nid] f
    by (auto simp: GetContentStream_def Let_def split: option.split sum.split streamFailure.split)
qed

interpretation streams: remembering "GetContentStream slib doc" "freshStream slib doc" "cacheFaithful slib doc" for slib doc
  by unfold_locales (rule GetContentStream_fresh, assumption)+

text \<open>A page's content from its streams' contents, without a cache.\<close>

fun firstFailure :: "streamLib \<Rightarrow> pdfDoc \<Rightarrow> string list \<Rightarrow> (string \<times> streamFailure) option" where
  "firstFailure slib doc [] = None"
| "firstFailure slib doc (nid # ids) =
     (case decodeContentStreamLocked slib doc nid of Inl e \<Rightarrow> Some (nid, e) | Inr raw \<Rightarrow> firstFailure slib doc ids)"

definition streamContent :: "streamLib \<Rightarrow> pdfDoc \<Rightarrow> string \<Rightarrow> string" where
  "streamContent slib doc nid = (case decodeContentStreamLocked slib doc nid of Inr raw \<Rightarrow> raw | Inl e \<Rightarrow> [])"

definition pageContent :: "streamLib \<Rightarrow> pdfDoc \<Rightarrow> string list \<Rightarrow> pageStreamAnswer" where
  "pageContent slib doc ids =
     (case firstFailure slib doc ids of
        Some (nid, Unresolved r) \<Rightarrow> StreamUnread (ResolveFailed r)
      | Some (nid, e) \<Rightarrow> PageRead (ReadOK (Some (failedStream nid e)))
      | None \<Rightarrow> PageRead (ReadOK (Some (decodedData (hd ids) (joinWith [cLF] (map (streamContent slib doc) ids))))))"

definition objectID :: "string \<Rightarrow> bool" where
  "objectID nid \<longleftrightarrow> hasPrefix nid ''obj:''"

lemma objectID_fresh:
  assumes "objectID nid"
  shows "freshStream slib doc nid = (case decodeContentStreamLocked slib doc nid of Inl (Unresolved r) \<Rightarrow> ResolveFailed r
        | Inl e \<Rightarrow> Stream (failedStream nid e) | Inr raw \<Rightarrow> Stream (decodedData nid raw))"
proof -
  from assms obtain t where "nid = ''obj:'' @ t"
    by (metis append_take_drop_id hasPrefix_def objectID_def)
  then have "nid \<noteq> []" "\<not> hasPrefix nid ''error:''" by (auto simp: hasPrefix_def)
  then show ?thesis by (simp add: freshStream_def GetContentStream_def Let_def split: sum.split streamFailure.split)
qed

lemma fetchAll_content:
  assumes "cacheFaithful slib doc cache" "list_all objectID ids"
  shows "fst (fetchAll slib doc ids raws cache) =
      (case firstFailure slib doc ids of
         Some (nid, Unresolved r) \<Rightarrow> Inl (ResolveFailed r)
       | Some (nid, e) \<Rightarrow> Inl (Stream (failedStream nid e))
       | None \<Rightarrow> Inr (raws @ map (streamContent slib doc) ids))
    \<and> cacheFaithful slib doc (snd (fetchAll slib doc ids raws cache))"
  using assms
proof (induction ids arbitrary: raws cache)
  case (Cons nid ids)
  let ?r = "GetContentStream slib doc nid cache"
  have k: "cacheFaithful slib doc (snd ?r)" using Cons.prems(1) by (rule streams.keeps)
  obtain c where e: "?r = (freshStream slib doc nid, c)" using Cons.prems(1) streams.call_eq by fast
  have f: "freshStream slib doc nid = (case decodeContentStreamLocked slib doc nid of Inl (Unresolved r) \<Rightarrow> ResolveFailed r
        | Inl e \<Rightarrow> Stream (failedStream nid e) | Inr raw \<Rightarrow> Stream (decodedData nid raw))"
    using Cons.prems(2) by (intro objectID_fresh) simp
  show ?case
  proof (cases "decodeContentStreamLocked slib doc nid")
    case (Inl x)
    with f e k show ?thesis by (cases x) (simp_all add: failedStream_def)
  next
    case (Inr raw)
    with f e have "?r = (Stream (decodedData nid raw), c)" by simp
    moreover have "csError (decodedData nid raw) = None" "csRaw (decodedData nid raw) = raw"
      by (simp_all add: decodedData_def Let_def)
    ultimately have "fetchAll slib doc (nid # ids) raws cache = fetchAll slib doc ids (raws @ [raw]) c" "snd ?r = c"
      by simp_all
    with Cons.IH [of c "raws @ [raw]"] k Cons.prems(2) Inr show ?thesis
      by (simp add: streamContent_def split: option.split)
  qed
qed simp

lemma page_ids_objects: "pageContentStreamNodeIDs lib doc pageNum = ReadOK ids \<Longrightarrow> list_all objectID ids"
  by (auto simp: pageContentStreamNodeIDs_def contentStreamIDs_def refID_def objectID_def nodeIDForRef_def hasPrefix_def list_all_iff
      split: sum.split_asm read.split_asm)

text \<open>
  The content of a page is that of its streams in order, joined by line feeds and read as one
  program, or the first failure among them; the cache of decoded streams never shows in the answer, and stays
  faithful to what decoding gives.
\<close>

theorem page_content_exact:
  assumes "cacheFaithful slib doc cache" "pageContentStreamNodeIDs lib doc pageNum = ReadOK ids" "ids \<noteq> []"
  shows "fst (GetPageContentStream lib slib doc pageNum cache) = pageContent slib doc ids
    \<and> cacheFaithful slib doc (snd (GetPageContentStream lib slib doc pageNum cache))"
proof -
  have f: "fst (fetchAll slib doc ids [] cache) = (case firstFailure slib doc ids of
         Some (nid, Unresolved r) \<Rightarrow> Inl (ResolveFailed r)
       | Some (nid, e) \<Rightarrow> Inl (Stream (failedStream nid e))
       | None \<Rightarrow> Inr (map (streamContent slib doc) ids))" "cacheFaithful slib doc (snd (fetchAll slib doc ids [] cache))"
    using fetchAll_content [OF assms(1) page_ids_objects [OF assms(2)], of "[]", unfolded append_Nil] by blast+
  obtain r c where r: "fetchAll slib doc ids [] cache = (r, c)" by fastforce
  from f r assms(2, 3) show ?thesis
    by (auto simp: GetPageContentStream_def pageContent_def split: option.split streamFailure.split)
qed

definition twoStreamDoc :: pdfDoc where
  "twoStreamDoc = \<lparr> xrefNums = [1, 2, 3, 4, 5],
     xrefLookup = (\<lambda>n g. DObj (if n = 2 then PDict [(''Type'', PName ''Pages''), (''Kids'', PArray [PRef 3 0])]
        else if n = 3 then PDict [(''Type'', PName ''Page''), (''Contents'', PArray [PRef 4 0, PNull, PRef 5 0])]
        else PStream PlainStream [])),
     docRoot = Some (1, 0), docCatalog = DObj (PDict [(''Pages'', PRef 2 0)]) \<rparr>"

definition twoStreamPages :: pageLib where
  "twoStreamPages = \<lparr> plRefString = refString, plWideInt = (\<lambda>i. 0) \<rparr>"

definition twoStreamLib :: streamLib where
  "twoStreamLib = \<lparr> slDecode = (\<lambda>nid. if nid = ''obj:0:4'' then Inr (Some ''q'') else Inr None), slRaw = (\<lambda>nid. ''Q'') \<rparr>"

lemma twoStream_ids: "pageContentStreamNodeIDs twoStreamPages twoStreamDoc 1 = ReadOK [''obj:0:4'', ''obj:0:5'']"
  by code_simp

lemma twoStream_content: "pageContent twoStreamLib twoStreamDoc [''obj:0:4'', ''obj:0:5''] =
    PageRead (ReadOK (Some (decodedData ''obj:0:4'' (''q'' @ [cLF] @ ''Q''))))"
  by code_simp

theorem page_content_exact_witness:
  "fst (GetPageContentStream twoStreamPages twoStreamLib twoStreamDoc 1 Map.empty) =
    PageRead (ReadOK (Some (decodedData ''obj:0:4'' (''q'' @ [cLF] @ ''Q''))))"
  using page_content_exact [OF _ twoStream_ids, of twoStreamLib Map.empty] twoStream_content
  by (simp add: cacheFaithful_def)

end
