(* ===== verification/MarkedContent.thy ===== *)
theory MarkedContent
  imports StreamCalls NumberTree
begin

text \<open>
  Marked content (\<^verbatim>\<open>internal/pdfcore/markedcontent.go\<close>): the scan of a content stream's tokens for BMC, BDC and
  EMC, with the row of every BDC that carries an MCID. The open sequences and the pending operands are
  carried from one stream of a page to the next. The library's decoding of names and the page's property
  lists are arguments; a read of a property list can panic, which ends the scan.
\<close>

section \<open>Rows\<close>

text \<open>The errors of a row by the message they carry.\<close>

datatype mcError =
    NoOperands
  | OneOperand
  | TagNotAName string
  | NotAnInteger string
  | NegativeMCID int
  | DictionaryNotClosed
  | NameUndecodable string string
  | PropertyListErr string
  | NamedNotAnInteger string string
  | NotAPropertyList string

record contentMCID =
  cmMCID :: int
  cmTag :: string
  cmStream :: nat
  cmLine :: nat
  cmCol :: nat
  cmDepth :: nat
  cmParentMCID :: "int option"
  cmErr :: "mcError option"

record markedStream =
  msRef :: string
  msNodeID :: string
  msOpens :: nat
  msCloses :: nat
  msDepthAtEnd :: int
  msMinDepth :: int
  msErr :: "streamFailure option"

text \<open>An open sequence is its MCID, when it has one; the stack holds the innermost first.\<close>

type_synonym mcOpen = "int option"

record mcState =
  mcStack :: "mcOpen list"
  mcOperands :: "(token \<times> nat) list"

record mcEnv =
  meDecodeName :: "string \<Rightarrow> string + string"
  meProps :: "string \<Rightarrow> pdfObj read"

section \<open>Operands\<close>

definition isOp :: "token \<Rightarrow> string \<Rightarrow> bool" where
  "isOp t v \<longleftrightarrow> tokType t = OperatorTok \<and> tokValue t = v"

definition opensBracket :: "token \<Rightarrow> bool" where
  "opensBracket t \<longleftrightarrow> isOp t ''<<'' \<or> isOp t ''[''"

definition closesBracket :: "token \<Rightarrow> bool" where
  "closesBracket t \<longleftrightarrow> isOp t ''>>'' \<or> isOp t '']''"

text \<open>The scan back from the last token of an operand object to its first.\<close>

fun operandStartFrom :: "token list \<Rightarrow> nat \<Rightarrow> int \<Rightarrow> nat" where
  "operandStartFrom toks i depth =
     (let d = (if closesBracket (toks ! i) then depth + 1 else if opensBracket (toks ! i) then depth - 1 else depth) in
      if d \<le> 0 then i else (case i of 0 \<Rightarrow> 0 | Suc j \<Rightarrow> operandStartFrom toks j d))"

definition operandStart :: "token list \<Rightarrow> nat \<Rightarrow> nat" where
  "operandStart toks lastTok = operandStartFrom toks lastTok 0"

text \<open>The indexes of the delimiters still open at the end, the innermost first.\<close>

fun openMarks :: "nat \<Rightarrow> token list \<Rightarrow> nat list \<Rightarrow> nat list" where
  "openMarks i [] opened = opened"
| "openMarks i (t # ts) opened =
     openMarks (i + 1) ts (if opensBracket t then i # opened else if closesBracket t then (case opened of [] \<Rightarrow> [] | o1 # os \<Rightarrow> os) else opened)"

definition unclosedDictStart :: "token list \<Rightarrow> nat option" where
  "unclosedDictStart toks = List.find (\<lambda>i. tokValue (toks ! i) = ''<<'') (rev (openMarks 0 toks []))"

text \<open>The loop of \<^verbatim>\<open>inlineMCID\<close>; \<open>Inr\<close> is an answer, \<open>None\<close> when the dictionary has no such key.\<close>

fun inlineMCIDFrom :: "token list \<Rightarrow> nat \<Rightarrow> bool \<Rightarrow> string \<Rightarrow> token option" where
  "inlineMCIDFrom [] depth expectKey key = None"
| "inlineMCIDFrom (t # ts) depth expectKey key =
     (if depth = 0 then inlineMCIDFrom ts (if opensBracket t then 1 else 0) expectKey key
      else if depth = 1 then
        (if closesBracket t then None
         else if expectKey then
           (if tokType t = NameTok then inlineMCIDFrom ts 1 False (tokValue t) else inlineMCIDFrom ts 1 True key)
         else if key = ''/MCID'' then Some t
         else if opensBracket t then inlineMCIDFrom ts 2 False key
         else inlineMCIDFrom ts 1 True key)
      else if opensBracket t then inlineMCIDFrom ts (depth + 1) expectKey key
      else if closesBracket t then inlineMCIDFrom ts (depth - 1) (if depth - 1 = 1 then True else expectKey) key
      else inlineMCIDFrom ts depth expectKey key)"

definition inlineMCID :: "token list \<Rightarrow> token option" where
  "inlineMCID toks = inlineMCIDFrom toks 0 True []"

section \<open>The row of a BDC\<close>

definition setMCID :: "int \<Rightarrow> contentMCID \<Rightarrow> contentMCID" where
  "setMCID n row = (if n < 0 then row\<lparr>cmErr := Some (NegativeMCID n)\<rparr> else row\<lparr>cmMCID := n\<rparr>)"

definition rowError :: "mcError \<Rightarrow> contentMCID \<Rightarrow> contentMCID" where
  "rowError e row = row\<lparr>cmErr := Some e\<rparr>"

definition rowAt :: "token \<times> nat \<Rightarrow> contentMCID \<Rightarrow> contentMCID" where
  "rowAt p row = row\<lparr>cmStream := snd p, cmLine := tokLine (fst p), cmCol := tokCol (fst p)\<rparr>"

definition trimSlash :: "string \<Rightarrow> string" where
  "trimSlash s = (if hasPrefix s ''/'' then drop 1 s else s)"

text \<open>An inline dictionary.\<close>

definition inlineRow :: "token list \<Rightarrow> contentMCID \<Rightarrow> contentMCID \<times> bool" where
  "inlineRow prop row =
     (case inlineMCID prop of
        None \<Rightarrow> (row, False)
      | Some val \<Rightarrow>
          (case (if tokType val = NumberTok then atoi (tokValue val) else None) of
             None \<Rightarrow> (rowError (NotAnInteger (tokValue val)) row, True)
           | Some n \<Rightarrow>
               (let r = setMCID n row in
                (if cmErr r = None \<and> unclosedDictStart prop = Some 0 then rowError DictionaryNotClosed r else r, True))))"

text \<open>A property list named in the page's resources.\<close>

definition namedRow :: "mcEnv \<Rightarrow> string \<Rightarrow> contentMCID \<Rightarrow> string + contentMCID \<times> bool" where
  "namedRow env val row =
     (case meDecodeName env (trimSlash val) of
        Inl e \<Rightarrow> Inr (rowError (NameUndecodable val e) row, True)
      | Inr name \<Rightarrow>
          (case meProps env name of
             ReadPanic p \<Rightarrow> Inl p
           | ReadErr e \<Rightarrow> Inr (rowError (PropertyListErr e) row, True)
           | ReadOK v \<Rightarrow>
               if v = PNull then Inr (row, False)
               else (case asInt v of
                       Some n \<Rightarrow> Inr (setMCID n row, True)
                     | None \<Rightarrow> Inr (rowError (NamedNotAnInteger name (objKind v)) row, True))))"

text \<open>Where the property list starts: the last operand object, or a dictionary that is still open.\<close>

definition propListStart :: "token list \<Rightarrow> nat" where
  "propListStart toks =
     (let s = operandStart toks (length toks - 1) in
      if tokValue (toks ! s) \<noteq> ''<<'' then (case unclosedDictStart toks of Some u \<Rightarrow> u | None \<Rightarrow> s) else s)"

text \<open>\<open>Inl\<close> is a panic; the flag is \<^verbatim>\<open>ok\<close>.\<close>

definition bdcRow :: "mcEnv \<Rightarrow> (token \<times> nat) list \<Rightarrow> token \<Rightarrow> nat \<Rightarrow> string + contentMCID \<times> bool" where
  "bdcRow env operands opTok opStream =
     (let toks = map fst operands;
          row0 = \<lparr> cmMCID = -1, cmTag = [], cmStream = opStream, cmLine = tokLine opTok, cmCol = tokCol opTok, cmDepth = 0,
                   cmParentMCID = None, cmErr = None \<rparr>;
          propStart = propListStart toks
      in if operands = [] then Inr (rowError NoOperands row0, True)
         else if propStart = 0 then
           (let row1 = rowAt (operands ! 0) row0;
                row2 = (if length operands = 1 \<and> tokType (toks ! 0) = NameTok then row1\<lparr>cmTag := trimSlash (tokValue (toks ! 0))\<rparr> else row1)
            in Inr (rowError OneOperand row2, True))
         else
           (let tagStart = operandStart toks (propStart - 1);
                row1 = rowAt (operands ! tagStart) row0;
                prop = drop propStart toks
            in if tagStart \<noteq> propStart - 1 \<or> tokType (toks ! tagStart) \<noteq> NameTok
               then Inr (rowError (TagNotAName (tokValue (toks ! tagStart))) row1, True)
               else
                 (let row2 = row1\<lparr>cmTag := trimSlash (tokValue (toks ! tagStart))\<rparr>
                  in if isOp (prop ! 0) ''<<'' then Inr (inlineRow prop row2)
                     else if length prop = 1 \<and> tokType (prop ! 0) = NameTok then namedRow env (tokValue (prop ! 0)) row2
                     else Inr (rowError (NotAPropertyList (tokValue (prop ! 0))) row2, True))))"

section \<open>The scan\<close>

definition innermostMCID :: "mcOpen list \<Rightarrow> int option" where
  "innermostMCID stack = (case List.find (\<lambda>m. m \<noteq> None) stack of Some m \<Rightarrow> m | None \<Rightarrow> None)"

definition pushOperand :: "token \<Rightarrow> nat \<Rightarrow> mcState \<Rightarrow> mcState" where
  "pushOperand t i st = st\<lparr>mcOperands := mcOperands st @ [(t, i)]\<rparr>"

definition clearOperands :: "mcState \<Rightarrow> mcState" where
  "clearOperands st = st\<lparr>mcOperands := []\<rparr>"

definition pushOpen :: "mcOpen \<Rightarrow> mcState \<Rightarrow> mcState" where
  "pushOpen m st = st\<lparr>mcStack := m # mcStack st\<rparr>"

definition depthOf :: "mcState \<Rightarrow> int" where
  "depthOf st = int (length (mcStack st))"

text \<open>Values the tokenizer types as operators that are operands here.\<close>

definition operandWords :: "string list" where
  "operandWords = [''<<'', ''>>'', ''['', '']'', ''true'', ''false'', ''null'']"

record mcScan =
  scState :: mcState
  scStream :: markedStream
  scRows :: "contentMCID list"

definition isOperand :: "token \<Rightarrow> bool" where
  "isOperand t \<longleftrightarrow> tokType t \<noteq> OperatorTok \<or> tokValue t \<in> set operandWords"

definition openBDC :: "mcEnv \<Rightarrow> nat \<Rightarrow> token \<Rightarrow> mcScan \<Rightarrow> string + mcScan" where
  "openBDC env i t sc =
     (let st = scState sc in
      case bdcRow env (mcOperands st) t i of
        Inl p \<Rightarrow> Inl p
      | Inr (row, ok) \<Rightarrow>
          (let st' = pushOpen (if ok \<and> 0 \<le> cmMCID row then Some (cmMCID row) else None) st;
               row' = row\<lparr>cmParentMCID := innermostMCID (mcStack st), cmDepth := length (mcStack st')\<rparr>
           in Inr (sc\<lparr>scState := st', scRows := scRows sc @ (if ok then [row'] else [])\<rparr>)))"

definition closeEMC :: "mcScan \<Rightarrow> mcScan" where
  "closeEMC sc =
     (let st = scState sc; ms = scStream sc in
      case mcStack st of
        [] \<Rightarrow> sc\<lparr>scStream := ms\<lparr>msMinDepth := min (msMinDepth ms) (-1)\<rparr>\<rparr>
      | m # rest \<Rightarrow> sc\<lparr>scState := st\<lparr>mcStack := rest\<rparr>, scStream := ms\<lparr>msMinDepth := min (msMinDepth ms) (int (length rest))\<rparr>\<rparr>)"

definition countOpen :: "mcScan \<Rightarrow> mcScan" where
  "countOpen sc = sc\<lparr>scStream := (scStream sc)\<lparr>msOpens := msOpens (scStream sc) + 1\<rparr>\<rparr>"

definition countClose :: "mcScan \<Rightarrow> mcScan" where
  "countClose sc = sc\<lparr>scStream := (scStream sc)\<lparr>msCloses := msCloses (scStream sc) + 1\<rparr>\<rparr>"

definition onState :: "(mcState \<Rightarrow> mcState) \<Rightarrow> mcScan \<Rightarrow> mcScan" where
  "onState f sc = sc\<lparr>scState := f (scState sc)\<rparr>"

definition runOperator :: "mcEnv \<Rightarrow> nat \<Rightarrow> token \<Rightarrow> mcScan \<Rightarrow> string + mcScan" where
  "runOperator env i t sc =
     (if tokValue t = ''BMC'' then Inr (onState (pushOpen None) (countOpen sc))
      else if tokValue t = ''BDC'' then openBDC env i t (countOpen sc)
      else if tokValue t = ''EMC'' then Inr (closeEMC (countClose sc))
      else Inr sc)"

definition scanStep :: "mcEnv \<Rightarrow> nat \<Rightarrow> token \<Rightarrow> mcScan \<Rightarrow> string + mcScan" where
  "scanStep env i t sc =
     (if tokType t = CommentTok then Inr sc
      else if isOperand t then Inr (onState (pushOperand t i) sc)
      else (case runOperator env i t sc of Inl p \<Rightarrow> Inl p | Inr sc' \<Rightarrow> Inr (onState clearOperands sc')))"

fun scanTokens :: "mcEnv \<Rightarrow> nat \<Rightarrow> token list \<Rightarrow> mcScan \<Rightarrow> string + mcScan" where
  "scanTokens env i [] sc = Inr sc"
| "scanTokens env i (t # ts) sc = (case scanStep env i t sc of Inl p \<Rightarrow> Inl p | Inr sc' \<Rightarrow> scanTokens env i ts sc')"

definition startScan :: "mcState \<Rightarrow> markedStream \<Rightarrow> mcScan" where
  "startScan st ms = \<lparr> scState = st, scStream = ms\<lparr>msMinDepth := depthOf st\<rparr>, scRows = [] \<rparr>"

definition scanMarkedContent ::
  "mcEnv \<Rightarrow> token list \<Rightarrow> nat \<Rightarrow> mcState \<Rightarrow> markedStream \<Rightarrow> string + contentMCID list \<times> mcState \<times> markedStream" where
  "scanMarkedContent env tokens i st ms =
     (case scanTokens env i tokens (startScan st ms) of
        Inl p \<Rightarrow> Inl p
      | Inr sc \<Rightarrow> Inr (scRows sc, scState sc, (scStream sc)\<lparr>msDepthAtEnd := depthOf (scState sc)\<rparr>))"

end
