(* ===== verification/MarkedContentSpec.thy ===== *)
theory MarkedContentSpec
  imports MarkedContent
begin

text \<open>
  What the marked-content scan computes: scanning the streams of a page one after the other is scanning
  their concatenation, and the depths it reports are those of the word of BMC, BDC and EMC operators.
\<close>

section \<open>The stream index does not matter\<close>

text \<open>Rows and operands without the stream they come from.\<close>

definition anyRow :: "contentMCID \<Rightarrow> contentMCID" where
  "anyRow row = row\<lparr>cmStream := 0\<rparr>"

definition anyOperands :: "(token \<times> nat) list \<Rightarrow> (token \<times> nat) list" where
  "anyOperands ops = map (\<lambda>p. (fst p, 0)) ops"

lemma anyOperands_simps [simp]: "map fst (anyOperands ops) = map fst ops" "anyOperands ops = [] \<longleftrightarrow> ops = []"
    "length (anyOperands ops) = length ops" "anyOperands (ops @ [p]) = anyOperands ops @ [(fst p, 0)]" "anyOperands [] = []"
  by (simp_all add: anyOperands_def comp_def)

lemma anyOperands_nth: "i < length ops \<Longrightarrow> anyOperands ops ! i = (fst (ops ! i), 0)"
  by (simp add: anyOperands_def)

declare operandStartFrom.simps [simp del]

lemma operandStartFrom_le: "operandStartFrom toks i d \<le> i"
proof (induction i arbitrary: d)
  case 0
  show ?case by (simp add: operandStartFrom.simps [of _ 0] Let_def)
next
  case (Suc i)
  have "operandStartFrom toks i d' \<le> Suc i" for d' using Suc.IH [of d'] by simp
  then show ?case by (simp add: operandStartFrom.simps [of _ "Suc i"] Let_def)
qed

lemma operandStart_le: "operandStart toks i \<le> i"
  by (simp add: operandStart_def operandStartFrom_le)

lemma openMarks_bound: "list_all (\<lambda>j. j < i) opened \<Longrightarrow> list_all (\<lambda>j. j < i + length toks) (openMarks i toks opened)"
proof (induction toks arbitrary: i opened)
  case (Cons t ts)
  have "list_all (\<lambda>j. j < i + 1) (if opensBracket t then i # opened else if closesBracket t then (case opened of [] \<Rightarrow> [] | o1 # os \<Rightarrow> os) else opened)"
    using Cons.prems by (auto simp: list_all_iff less_SucI split: list.split)
  from Cons.IH [OF this] show ?case by simp
qed simp

lemma find_mem: "List.find P xs = Some x \<Longrightarrow> x \<in> set xs \<and> P x"
  by (auto simp: find_Some_iff)

lemma unclosed_lt: "unclosedDictStart toks = Some u \<Longrightarrow> u < length toks"
  using openMarks_bound [of 0 "[]" toks] find_mem by (fastforce simp: unclosedDictStart_def list_all_iff)

lemma propListStart_lt: "toks \<noteq> [] \<Longrightarrow> propListStart toks < length toks"
  using operandStart_le [of toks "length toks - 1"] unclosed_lt [of toks]
  by (auto simp: propListStart_def Let_def length_greater_0_conv [symmetric] simp del: length_greater_0_conv split: option.split)

lemma anyRow_simps [simp]: "anyRow (setMCID n row) = setMCID n (anyRow row)" "anyRow (rowError e row) = rowError e (anyRow row)"
    "anyRow (row\<lparr>cmTag := t\<rparr>) = (anyRow row)\<lparr>cmTag := t\<rparr>" "cmErr (anyRow row) = cmErr row" "cmMCID (anyRow row) = cmMCID row"
    "anyRow (row\<lparr>cmParentMCID := m, cmDepth := k\<rparr>) = (anyRow row)\<lparr>cmParentMCID := m, cmDepth := k\<rparr>"
  by (simp_all add: anyRow_def setMCID_def rowError_def)

lemma anyRow_at: "anyRow (rowAt p row) = rowAt (fst p, 0) (anyRow row)"
  by (simp add: anyRow_def rowAt_def)

abbreviation anyResult :: "string + contentMCID \<times> bool \<Rightarrow> string + contentMCID \<times> bool" where
  "anyResult \<equiv> map_sum id (map_prod anyRow id)"

lemma setMCID_err [simp]: "cmErr (setMCID n row) = (if n < 0 then Some (NegativeMCID n) else cmErr row)"
  by (simp add: setMCID_def)

lemma inlineRow_any: "inlineRow prop (anyRow row) = map_prod anyRow id (inlineRow prop row)"
  by (auto simp: inlineRow_def Let_def split: option.split)

lemma namedRow_any: "namedRow env val (anyRow row) = anyResult (namedRow env val row)"
  by (auto simp: namedRow_def split: sum.split read.split option.split)

lemma bdcRow_any: "bdcRow env (anyOperands ops) t 0 = anyResult (bdcRow env ops t i)"
proof -
  let ?row = "\<lambda>j. \<lparr> cmMCID = -1, cmTag = [], cmStream = j, cmLine = tokLine t, cmCol = tokCol t, cmDepth = 0, cmParentMCID = None, cmErr = None \<rparr>"
  have row: "?row 0 = anyRow (?row i)" by (simp add: anyRow_def)
  have at: "rowAt (anyOperands ops ! j) (?row 0) = anyRow (rowAt (ops ! j) (?row i))" if "j < length ops" for j
    using that by (simp add: anyOperands_nth anyRow_at row)
  show ?thesis
  proof (cases "ops = []")
    case True
    then show ?thesis by (simp add: bdcRow_def row)
  next
    case False
    then have "0 < length ops" "propListStart (map fst ops) < length ops" "operandStart (map fst ops) (propListStart (map fst ops) - 1) < length ops"
      using propListStart_lt [of "map fst ops"] operandStart_le [of "map fst ops" "propListStart (map fst ops) - 1"] by auto
    with False show ?thesis
      by (simp add: bdcRow_def Let_def at inlineRow_any [symmetric] namedRow_any [symmetric])
  qed
qed

lemma anyRow_eq:
  assumes "anyRow a = anyRow b"
  shows "cmMCID a = cmMCID b" "anyRow (a\<lparr>cmParentMCID := m, cmDepth := k\<rparr>) = anyRow (b\<lparr>cmParentMCID := m, cmDepth := k\<rparr>)"
  using assms by (metis anyRow_simps(5), metis anyRow_simps(6))

text \<open>Two scans that differ in the streams only.\<close>

definition sameScan :: "mcScan \<Rightarrow> mcScan \<Rightarrow> bool" where
  "sameScan a b \<longleftrightarrow> mcStack (scState a) = mcStack (scState b)
     \<and> anyOperands (mcOperands (scState a)) = anyOperands (mcOperands (scState b)) \<and> map anyRow (scRows a) = map anyRow (scRows b)"

fun sameResult :: "string + mcScan \<Rightarrow> string + mcScan \<Rightarrow> bool" where
  "sameResult (Inl p) (Inl q) \<longleftrightarrow> p = q"
| "sameResult (Inr a) (Inr b) \<longleftrightarrow> sameScan a b"
| "sameResult _ _ \<longleftrightarrow> False"

lemma scanStep_same: "sameScan a b \<Longrightarrow> sameResult (scanStep env i t a) (scanStep env j t b)"
proof -
  assume s: "sameScan a b"
  then have ops: "anyResult (bdcRow env (mcOperands (scState a)) t i) = anyResult (bdcRow env (mcOperands (scState b)) t j)"
    by (simp add: sameScan_def bdcRow_any [symmetric])
  have o: "sameResult (openBDC env i t (countOpen a)) (openBDC env j t (countOpen b))"
    using ops s by (cases "bdcRow env (mcOperands (scState a)) t i"; cases "bdcRow env (mcOperands (scState b)) t j")
      (auto simp: openBDC_def countOpen_def sameScan_def pushOpen_def Let_def simp del: anyRow_simps intro!: anyRow_eq(2), (metis anyRow_eq(1))+)
  have r: "sameResult (runOperator env i t a) (runOperator env j t b)"
    using s o by (auto simp: runOperator_def onState_def pushOpen_def countOpen_def countClose_def closeEMC_def sameScan_def Let_def split: list.split)
  have c: "sameResult x y \<Longrightarrow> sameResult (map_sum id (onState clearOperands) x) (map_sum id (onState clearOperands) y)" for x y
    by (cases x; cases y) (auto simp: sameScan_def onState_def clearOperands_def)
  have e: "(case z of Inl p \<Rightarrow> Inl p | Inr sc \<Rightarrow> Inr (onState clearOperands sc)) = map_sum id (onState clearOperands) z" for z :: "string + mcScan"
    by (cases z) auto
  show ?thesis
    using s c [OF r] by (auto simp: scanStep_def e onState_def pushOperand_def sameScan_def)
qed

lemma scanTokens_same: "sameScan a b \<Longrightarrow> sameResult (scanTokens env i ts a) (scanTokens env j ts b)"
proof (induction ts arbitrary: a b)
  case (Cons t ts)
  from scanStep_same [OF Cons.prems, of env i t j] Cons.IH show ?case
    by (cases "scanStep env i t a"; cases "scanStep env j t b") auto
qed simp

lemma scanTokens_append:
  "scanTokens env i (ts @ us) sc = (case scanTokens env i ts sc of Inl p \<Rightarrow> Inl p | Inr sc' \<Rightarrow> scanTokens env i us sc')"
  by (induction ts arbitrary: sc) (auto split: sum.split)

text \<open>What was gathered before does not change a scan.\<close>

definition withRows :: "contentMCID list \<Rightarrow> mcScan \<Rightarrow> mcScan" where
  "withRows rows sc = sc\<lparr>scRows := rows @ scRows sc\<rparr>"

lemma scanStep_rows: "scanStep env i t (withRows rows sc) = map_sum id (withRows rows) (scanStep env i t sc)"
  by (auto simp: scanStep_def runOperator_def openBDC_def closeEMC_def countOpen_def countClose_def onState_def withRows_def Let_def
      split: sum.split list.split)

lemma scanTokens_rows: "scanTokens env i ts (withRows rows sc) = map_sum id (withRows rows) (scanTokens env i ts sc)"
  by (induction ts arbitrary: sc) (auto simp: scanStep_rows split: sum.split)

section \<open>The operators as a word of brackets\<close>

definition markOf :: "token \<Rightarrow> bool list" where
  "markOf t = (if tokType t \<noteq> OperatorTok then []
     else if tokValue t = ''BMC'' \<or> tokValue t = ''BDC'' then [True] else if tokValue t = ''EMC'' then [False] else [])"

definition marks :: "token list \<Rightarrow> bool list" where
  "marks ts = concat (map markOf ts)"

lemma marks_simps [simp]: "marks [] = []" "marks (t # ts) = markOf t @ marks ts" "marks (ts @ us) = marks ts @ marks us"
  by (simp_all add: marks_def)

text \<open>The depth after a word, and whether a close found nothing open.\<close>

fun depthAfter :: "bool list \<Rightarrow> nat \<Rightarrow> nat" where
  "depthAfter [] d = d"
| "depthAfter (True # w) d = depthAfter w (Suc d)"
| "depthAfter (False # w) d = depthAfter w (d - 1)"

fun underflows :: "bool list \<Rightarrow> nat \<Rightarrow> bool" where
  "underflows [] d \<longleftrightarrow> False"
| "underflows (True # w) d \<longleftrightarrow> underflows w (Suc d)"
| "underflows (False # w) d \<longleftrightarrow> d = 0 \<or> underflows w (d - 1)"

lemma depthAfter_append [simp]: "depthAfter (u @ v) d = depthAfter v (depthAfter u d)"
  by (induction u d rule: depthAfter.induct) simp_all

lemma underflows_append [simp]: "underflows (u @ v) d \<longleftrightarrow> underflows u d \<or> underflows v (depthAfter u d)"
  by (induction u d rule: underflows.induct) auto

text \<open>Well-bracketed words.\<close>

inductive wellBracketed :: "bool list \<Rightarrow> bool" where
  wb_empty: "wellBracketed []"
| wb_nest: "wellBracketed w \<Longrightarrow> wellBracketed (True # w @ [False])"
| wb_join: "wellBracketed u \<Longrightarrow> wellBracketed v \<Longrightarrow> wellBracketed (u @ v)"

lemma wellBracketed_run: "wellBracketed w \<Longrightarrow> \<not> underflows w d \<and> depthAfter w d = d"
  by (induction arbitrary: d rule: wellBracketed.induct) auto

lemma wellBracketed_pair: "wellBracketed [True, False]"
  using wb_nest [OF wb_empty] by simp

lemma wellBracketed_insert: "wellBracketed w \<Longrightarrow> w = u @ v \<Longrightarrow> wellBracketed (u @ [True, False] @ v)"
proof (induction arbitrary: u v rule: wellBracketed.induct)
  case wb_empty
  then show ?case using wellBracketed_pair by simp
next
  case (wb_nest w)
  have w: "wellBracketed (True # w @ [False])" using wb_nest.hyps by (rule wellBracketed.wb_nest)
  show ?case
  proof (cases u)
    case Nil
    with wb_nest.prems wb_join [OF wellBracketed_pair w] show ?thesis by simp
  next
    case (Cons c u2)
    show ?thesis
    proof (cases v rule: rev_cases)
      case Nil
      with wb_nest.prems wb_join [OF w wellBracketed_pair] show ?thesis by simp
    next
      case (snoc v2 e)
      with Cons wb_nest.prems have "c = True" "e = False" "w = u2 @ v2" by auto
      with wb_nest.IH [of u2 v2] have "wellBracketed (True # (u2 @ [True, False] @ v2) @ [False])"
        by (intro wellBracketed.wb_nest) simp
      then show ?thesis using Cons snoc \<open>c = True\<close> \<open>e = False\<close> by simp
    qed
  qed
next
  case (wb_join x y)
  from wb_join.prems consider s where "u = x @ s" "y = s @ v" | s where "x = u @ s" "v = s @ y"
    by (auto simp: append_eq_append_conv2)
  then show ?case
  proof cases
    case 1
    with wellBracketed.wb_join [OF wb_join.hyps(1) wb_join.IH(2)] show ?thesis by simp
  next
    case 2
    with wellBracketed.wb_join [OF wb_join.IH(1) wb_join.hyps(2)] show ?thesis by simp
  qed
qed

lemma run_wellBracketed: "\<not> underflows w d \<Longrightarrow> depthAfter w d = 0 \<Longrightarrow> wellBracketed (replicate d True @ w)"
proof (induction w d rule: depthAfter.induct)
  case (1 d)
  then show ?case by (simp add: wb_empty)
next
  case (2 w d)
  then show ?case by (simp add: replicate_app_Cons_same)
next
  case (3 w d)
  then obtain k where d: "d = Suc k" by (cases d) auto
  with 3 have "wellBracketed (replicate k True @ w)" by simp
  from wellBracketed_insert [OF this refl] show ?case
    by (simp add: d replicate_app_Cons_same)
qed

theorem wellBracketed_iff: "wellBracketed w \<longleftrightarrow> \<not> underflows w 0 \<and> depthAfter w 0 = 0"
  using run_wellBracketed [of w 0] wellBracketed_run [of w 0] by auto

section \<open>The depths the scan reports\<close>

lemma scanStep_depth:
  assumes "scanStep env i t sc = Inr sc'"
  shows "length (mcStack (scState sc')) = depthAfter (markOf t) (length (mcStack (scState sc)))
    \<and> (msMinDepth (scStream sc') < 0 \<longleftrightarrow> msMinDepth (scStream sc) < 0 \<or> underflows (markOf t) (length (mcStack (scState sc))))"
  using assms
  by (auto simp: scanStep_def isOperand_def operandWords_def markOf_def runOperator_def openBDC_def closeEMC_def countOpen_def
      countClose_def onState_def pushOperand_def clearOperands_def pushOpen_def Let_def split: if_split_asm sum.split_asm list.split_asm)

lemma scanTokens_depth:
  assumes "scanTokens env i ts sc = Inr sc'"
  shows "length (mcStack (scState sc')) = depthAfter (marks ts) (length (mcStack (scState sc)))
    \<and> (msMinDepth (scStream sc') < 0 \<longleftrightarrow> msMinDepth (scStream sc) < 0 \<or> underflows (marks ts) (length (mcStack (scState sc))))"
  using assms
proof (induction ts arbitrary: sc)
  case (Cons t ts)
  then obtain s1 where "scanStep env i t sc = Inr s1" "scanTokens env i ts s1 = Inr sc'"
    by (auto split: sum.split_asm)
  with Cons.IH scanStep_depth show ?case by fastforce
qed simp

lemma scanMarkedContent_depth:
  assumes "scanMarkedContent env ts i st ms = Inr (rows, st', ms')"
  shows "length (mcStack st') = depthAfter (marks ts) (length (mcStack st))"
    "msMinDepth ms' < 0 \<longleftrightarrow> underflows (marks ts) (length (mcStack st))"
    "msDepthAtEnd ms' = int (length (mcStack st'))" "msErr ms' = msErr ms"
proof -
  from assms obtain sc where sc: "scanTokens env i ts (startScan st ms) = Inr sc"
      "rows = scRows sc" "st' = scState sc" "ms' = (scStream sc)\<lparr>msDepthAtEnd := depthOf (scState sc)\<rparr>"
    by (auto simp: scanMarkedContent_def split: sum.split_asm)
  have "scanStep env i t s = Inr s' \<Longrightarrow> msErr (scStream s') = msErr (scStream s)" for t s s'
    by (auto simp: scanStep_def runOperator_def openBDC_def closeEMC_def countOpen_def countClose_def onState_def Let_def
        split: if_split_asm sum.split_asm list.split_asm)
  then have "scanTokens env i us s = Inr s' \<Longrightarrow> msErr (scStream s') = msErr (scStream s)" for us s s'
    by (induction us arbitrary: s) (auto split: sum.split_asm)
  from this [OF sc(1)] show "msErr ms' = msErr ms" by (simp add: sc startScan_def)
  from scanTokens_depth [OF sc(1)] sc show "length (mcStack st') = depthAfter (marks ts) (length (mcStack st))"
    "msMinDepth ms' < 0 \<longleftrightarrow> underflows (marks ts) (length (mcStack st))" "msDepthAtEnd ms' = int (length (mcStack st'))"
    by (auto simp: startScan_def depthOf_def)
qed

end
