(* ===== verification/StructureReport.thy ===== *)
theory StructureReport
  imports StructureTree MarkedContent
begin

text \<open>
  The tagged-structure report (\<^verbatim>\<open>GetStructure\<close> of \<^verbatim>\<open>internal/pdfcore/structure.go\<close>): the catalog's entries, the
  structure tree, the ParentTree, and for each page the marked content of its streams and the alignment of
  the three. The lock around each phase makes it one step; a close of the document is the page number at
  which it is seen.
\<close>

section \<open>Rows\<close>

record parentTreeSlot =
  psMCID :: nat
  psElementRef :: string
  psS :: string
  psErr :: string

record mcidAlignment =
  maMCID :: int
  maContentCount :: nat
  maParentTreeElement :: string
  maParentTreeS :: string
  maTreeElements :: "string list"
  maConsistent :: bool

record structPage =
  spPageNum :: nat
  spRef :: string
  spNodeID :: string
  spStructParents :: "int option"
  spParentTree :: "parentTreeSlot list"
  spParentTreeErr :: string
  spStreams :: "markedStream list"
  spContentMCIDs :: "contentMCID list"
  spAlignment :: "mcidAlignment list"
  spErr :: string

record parentTreeEntry =
  pteKey :: int
  pteElementRef :: string
  pteS :: string
  pteNote :: string
  pteErr :: string

record structReport =
  srHasStructTree :: bool
  srRootRef :: string
  srHasParentTree :: bool
  srParentTreeRef :: string
  srMarked :: "bool option"
  srDocLang :: string
  srNextKey :: "int option"
  srRoleMap :: "(string \<times> string) list"
  srElements :: "structKid list"
  srPages :: "structPage list"
  srOther :: "parentTreeEntry list"
  srProblems :: "(string \<times> string) list"
  srCounts :: structCounts
  srPagesIncomplete :: string
  srRootNotDict :: string
  srRootReadFailed :: string
  srParentTreeIncomplete :: string

text \<open>One stream's tokens, or the failure that stopped its decoding.\<close>

type_synonym decodedStream = "streamFailure + token list"

text \<open>
  The whole walker: \<open>rwTree\<close> is the part the walk of \<open>/K\<close> uses, with the report's counts, which the
  report gets at the end; \<open>rwParentTree\<close> holds the ParentTree's entries.
\<close>

record reportWalker =
  rwTree :: structWalker
  rwReport :: structReport
  rwParentTree :: "(int \<times> pdfObj) list"
  rwStreamUses :: "string \<Rightarrow> int"
  rwStreamMemo :: "string \<rightharpoonup> decodedStream"
  rwDecodes :: nat

definition noCounts :: structCounts where
  "noCounts = \<lparr> ctElements = 0, ctMCIDKids = 0, ctMCRKids = 0, ctOBJRKids = 0, ctErrorKids = 0, ctContentMCIDs = 0 \<rparr>"

definition newStructureWalker :: reportWalker where
  "newStructureWalker =
     \<lparr> rwTree = \<lparr> swPageNums = [], swRoleMap = [], swVisited = [], swClaims = [], swCounts = noCounts \<rparr>,
       rwReport = \<lparr> srHasStructTree = False, srRootRef = [], srHasParentTree = False, srParentTreeRef = [], srMarked = None,
         srDocLang = [], srNextKey = None, srRoleMap = [], srElements = [], srPages = [], srOther = [], srProblems = [],
         srCounts = noCounts, srPagesIncomplete = [], srRootNotDict = [], srRootReadFailed = [], srParentTreeIncomplete = [] \<rparr>,
       rwParentTree = [], rwStreamUses = (\<lambda>_. 0), rwStreamMemo = Map.empty, rwDecodes = 0 \<rparr>"

definition onReport :: "(structReport \<Rightarrow> structReport) \<Rightarrow> reportWalker \<Rightarrow> reportWalker" where
  "onReport f w = w\<lparr>rwReport := f (rwReport w)\<rparr>"

definition onTree :: "(structWalker \<Rightarrow> structWalker) \<Rightarrow> reportWalker \<Rightarrow> reportWalker" where
  "onTree f w = w\<lparr>rwTree := f (rwTree w)\<rparr>"

definition structProblem :: "string \<Rightarrow> string \<Rightarrow> reportWalker \<Rightarrow> reportWalker" where
  "structProblem loc msg w = onReport (\<lambda>r. r\<lparr>srProblems := srProblems r @ [(loc, msg)]\<rparr>) w"

text \<open>A step that can panic returns what the walker is then.\<close>

type_synonym reportStep = "reportWalker \<Rightarrow> reportWalker \<times> string option"

definition andThen :: "reportStep \<Rightarrow> reportStep \<Rightarrow> reportStep" where
  "andThen f g w = (case f w of (w', Some p) \<Rightarrow> (w', Some p) | (w', None) \<Rightarrow> g w')"

text \<open>A read followed by a step on what was read.\<close>

definition reading :: "pdfDoc \<Rightarrow> pdfObj \<Rightarrow> (pdfObj \<Rightarrow> reportStep) \<Rightarrow> reportStep" where
  "reading doc v f w = (case derefIn doc v of Inl p \<Rightarrow> (w, Some p) | Inr x \<Rightarrow> f x w)"

definition always :: "(reportWalker \<Rightarrow> reportWalker) \<Rightarrow> reportStep" where
  "always f w = (f w, None)"

section \<open>The catalog\<close>

definition readLang :: "textLib \<Rightarrow> pdfDoc \<Rightarrow> pdfDict \<Rightarrow> reportStep" where
  "readLang tlib doc catalog =
     (case dictFind catalog ''Lang'' of
        None \<Rightarrow> always id
      | Some v \<Rightarrow> reading doc v (\<lambda>x.
          (case decodeTextStringOK tlib x of (s, ok) \<Rightarrow>
             if ok \<and> validString s then always (onReport (\<lambda>r. r\<lparr>srDocLang := s\<rparr>))
             else always (\<lambda>w. onReport (\<lambda>r. r\<lparr>srDocLang := textStringOrRaw tlib x\<rparr>)
                    (structProblem ''catalog'' (''/Lang is '' @ objKind x @ '' that does not decode as a text string'') w)))))"

definition readMarkInfo :: "pdfDoc \<Rightarrow> pdfDict \<Rightarrow> reportStep" where
  "readMarkInfo doc catalog =
     (case dictFind catalog ''MarkInfo'' of
        None \<Rightarrow> always id
      | Some v \<Rightarrow> reading doc v (\<lambda>x.
          (case plainDict x of
             None \<Rightarrow> always (structProblem ''catalog'' (''/MarkInfo is '' @ objKind x @ '', not a dictionary''))
           | Some mi \<Rightarrow>
               (case dictFind mi ''Marked'' of
                  None \<Rightarrow> always id
                | Some mo \<Rightarrow> reading doc mo (\<lambda>b.
                    (case b of
                       PBool q \<Rightarrow> always (onReport (\<lambda>r. r\<lparr>srMarked := Some q\<rparr>))
                     | _ \<Rightarrow> always (structProblem ''catalog'' (''/MarkInfo /Marked is '' @ objKind b @ '', not a boolean'')))))))) "

text \<open>The entries of \<open>/RoleMap\<close> in key order: one that is no name is shown as the empty name and not used.\<close>

fun roleEntries :: "pdfDoc \<Rightarrow> string \<Rightarrow> pdfDict \<Rightarrow> string list \<Rightarrow> reportStep" where
  "roleEntries doc loc rm [] = always id"
| "roleEntries doc loc rm (k # ks) =
     andThen (reading doc (dictGet rm k) (\<lambda>v.
        always (\<lambda>w. onReport (\<lambda>r. r\<lparr>srRoleMap := srRoleMap r @ [(k, nameOf v)]\<rparr>)
          (case v of
             PName n \<Rightarrow> onTree (\<lambda>t. t\<lparr>swRoleMap := swRoleMap t @ [(k, n)]\<rparr>) w
           | _ \<Rightarrow> structProblem loc (''/RoleMap /'' @ k @ '' maps to '' @ objKind v @ '', not a name'') w))))
       (roleEntries doc loc rm ks)"

definition readRoleMap :: "pdfDoc \<Rightarrow> pdfDict \<Rightarrow> string \<Rightarrow> reportStep" where
  "readRoleMap doc rootDict loc =
     (case dictFind rootDict ''RoleMap'' of
        None \<Rightarrow> always id
      | Some v \<Rightarrow> reading doc v (\<lambda>x.
          (case plainDict x of
             Some rm \<Rightarrow> roleEntries doc loc rm (dictKeys rm)
           | None \<Rightarrow> always (structProblem loc (''/RoleMap is '' @ objKind x @ '', not a dictionary'')))))"

definition readNextKey :: "pdfDoc \<Rightarrow> pdfDict \<Rightarrow> string \<Rightarrow> reportStep" where
  "readNextKey doc rootDict loc =
     (case dictFind rootDict ''ParentTreeNextKey'' of
        None \<Rightarrow> always id
      | Some v \<Rightarrow> reading doc v (\<lambda>x.
          (case asInt x of
             Some n \<Rightarrow> always (onReport (\<lambda>r. r\<lparr>srNextKey := Some n\<rparr>))
           | None \<Rightarrow> always (structProblem loc (''/ParentTreeNextKey is '' @ objKind x @ '', not an integer'')))))"

definition readParentTree :: "pdfDoc \<Rightarrow> pdfDict \<Rightarrow> reportStep" where
  "readParentTree doc rootDict =
     (let v = dictGet rootDict ''ParentTree'' in
      if v = PNull then always id
      else always (\<lambda>w.
        (let ptRef = refText (asRef v);
             loc = (if isRef v then ''ParentTree '' @ ptRef else ''ParentTree'')
         in case walkNumberTree doc v loc of (entries, problems, incomplete) \<Rightarrow>
              onReport (\<lambda>r. r\<lparr>srHasParentTree := True, srParentTreeRef := ptRef, srProblems := srProblems r @ problems,
                 srParentTreeIncomplete := incomplete\<rparr>) (w\<lparr>rwParentTree := entries\<rparr>))))"

definition walkRootK :: "textLib \<Rightarrow> pdfDoc \<Rightarrow> pdfDict \<Rightarrow> reportStep" where
  "walkRootK tlib doc rootDict w =
     (case walkK tlib doc (dictGet rootDict ''K'') [] 0 0 (rwTree w) of
        (t, Inl p) \<Rightarrow> (w\<lparr>rwTree := t\<rparr>, Some p)
      | (t, Inr kids) \<Rightarrow> (onReport (\<lambda>r. r\<lparr>srElements := kids\<rparr>) (w\<lparr>rwTree := t\<rparr>), None))"

definition readRoot :: "textLib \<Rightarrow> pdfDoc \<Rightarrow> pdfDict \<Rightarrow> string \<Rightarrow> reportStep" where
  "readRoot tlib doc rootDict loc =
     andThen (readRoleMap doc rootDict loc)
       (andThen (readNextKey doc rootDict loc) (andThen (readParentTree doc rootDict) (walkRootK tlib doc rootDict)))"

text \<open>The root itself: absent, dangling, not a dictionary, or read under a guard.\<close>

definition guardedRoot :: "textLib \<Rightarrow> pdfDoc \<Rightarrow> pdfDict \<Rightarrow> string \<Rightarrow> reportStep" where
  "guardedRoot tlib doc rootDict loc w =
     (case readRoot tlib doc rootDict loc w of
        (w', None) \<Rightarrow> (w', None)
      | (w', Some p) \<Rightarrow>
          (let msg = ''the structure tree root could not be read: '' @ panicText p in
           (onReport (\<lambda>r. r\<lparr>srRootReadFailed := msg\<rparr>) (structProblem loc msg w'), None)))"

definition readStructTreeRoot :: "textLib \<Rightarrow> pdfDoc \<Rightarrow> pdfDict \<Rightarrow> reportStep" where
  "readStructTreeRoot tlib doc catalog =
     (let rootObj = dictGet catalog ''StructTreeRoot''; rootRef = refText (asRef rootObj) in
      if rootObj = PNull then always id
      else reading doc rootObj (\<lambda>v.
        if isRef rootObj \<and> v = PNull then
          always (structProblem ''catalog'' (''/StructTreeRoot '' @ rootRef @ '' does not resolve to an object; treated as absent''))
        else
          (let loc = (if isRef rootObj then ''StructTreeRoot '' @ rootRef else ''StructTreeRoot'') in
           andThen (always (onReport (\<lambda>r. r\<lparr>srHasStructTree := True, srRootRef := rootRef\<rparr>)))
             (case plainDict v of
                None \<Rightarrow> (let msg = ''/StructTreeRoot is '' @ objKind v @ '', not a dictionary'' in
                          always (\<lambda>w. onReport (\<lambda>r. r\<lparr>srRootNotDict := msg\<rparr>) (structProblem loc msg w)))
              | Some rootDict \<Rightarrow> guardedRoot tlib doc rootDict loc))))"

definition readCatalog :: "textLib \<Rightarrow> pdfDoc \<Rightarrow> pdfDict \<Rightarrow> reportStep" where
  "readCatalog tlib doc catalog =
     andThen (readLang tlib doc catalog) (andThen (readMarkInfo doc catalog) (readStructTreeRoot tlib doc catalog))"

section \<open>The ParentTree of a page\<close>

text \<open>\<^verbatim>\<open>elementRefOf\<close>: reference, \<open>/S\<close> and message.\<close>

definition elementRefOf :: "pdfDoc \<Rightarrow> pdfObj \<Rightarrow> string + string \<times> string \<times> string" where
  "elementRefOf doc v =
     (case asRef v of
        None \<Rightarrow> Inr ([], [], ''value is '' @ objKind v @ '', not a reference to an element'')
      | Some (n, g) \<Rightarrow>
          (case derefIn doc v of
             Inl p \<Rightarrow> Inl p
           | Inr target \<Rightarrow>
               (case plainDict target of
                  None \<Rightarrow> if target = PNull then Inr (refString n g, [], refString n g @ '' does not resolve to an object'')
                    else Inr (refString n g, [], refString n g @ '' is '' @ objKind target @ '', not an element'')
                | Some d \<Rightarrow> (case derefIn doc (dictGet d ''S'') of Inl p \<Rightarrow> Inl p | Inr s \<Rightarrow> Inr (refString n g, nameOf s, [])))))"

text \<open>The slots of the array at the page's key; a panic keeps the ones before it.\<close>

fun readSlots :: "pdfDoc \<Rightarrow> nat \<Rightarrow> pdfObj list \<Rightarrow> parentTreeSlot list \<times> string option" where
  "readSlots doc i [] = ([], None)"
| "readSlots doc i (slot # slots) =
     (case (if slot = PNull then Inr ([], [], []) else elementRefOf doc slot) of
        Inl p \<Rightarrow> ([], Some p)
      | Inr (ref, s, msg) \<Rightarrow>
          (case readSlots doc (i + 1) slots of (rest, pan) \<Rightarrow>
             (\<lparr> psMCID = i, psElementRef = ref, psS = s, psErr = msg \<rparr> # rest, pan)))"

definition readPageParentTree :: "pdfDoc \<Rightarrow> reportWalker \<Rightarrow> pdfDict \<Rightarrow> structPage \<Rightarrow> structPage \<times> string option" where
  "readPageParentTree doc w d sp =
     (case dictFind d ''StructParents'' of
        None \<Rightarrow> (sp, None)
      | Some v \<Rightarrow>
          (case derefIn doc v of
             Inl p \<Rightarrow> (sp, Some p)
           | Inr x \<Rightarrow>
               (case asInt x of
                  None \<Rightarrow> (sp\<lparr>spParentTreeErr := ''/StructParents is '' @ objKind x @ '', not an integer''\<rparr>, None)
                | Some key \<Rightarrow>
                    (let sp1 = sp\<lparr>spStructParents := Some key\<rparr> in
                     if \<not> srHasParentTree (rwReport w) then
                       (sp1\<lparr>spParentTreeErr := ''/StructParents '' @ showInt key @ '' but the document has no ParentTree''\<rparr>, None)
                     else (case map_of (rwParentTree w) key of
                             None \<Rightarrow> (sp1\<lparr>spParentTreeErr := ''ParentTree has no key '' @ showInt key\<rparr>, None)
                           | Some pv \<Rightarrow>
                               (case derefIn doc pv of
                                  Inl p \<Rightarrow> (sp1, Some p)
                                | Inr a \<Rightarrow>
                                    (case asArray a of
                                       None \<Rightarrow> (sp1\<lparr>spParentTreeErr := ''ParentTree key '' @ showInt key @ '' is '' @ objKind a @ '', not an array''\<rparr>, None)
                                     | Some arr \<Rightarrow>
                                         (case readSlots doc 0 arr of (slots, pan) \<Rightarrow> (sp1\<lparr>spParentTree := slots\<rparr>, pan)))))))))"

definition newStructPage :: "nat \<Rightarrow> pageLeaf \<Rightarrow> structPage" where
  "newStructPage i leaf =
     \<lparr> spPageNum = i + 1, spRef = refText (lfRef leaf),
       spNodeID = (case lfRef leaf of Some (n, g) \<Rightarrow> nodeIDForRef n g | None \<Rightarrow> []),
       spStructParents = None, spParentTree = [], spParentTreeErr = [], spStreams = [], spContentMCIDs = [], spAlignment = [],
       spErr = (case lfErr leaf of Some e \<Rightarrow> e | None \<Rightarrow> []) \<rparr>"

definition readPage :: "pdfDoc \<Rightarrow> reportWalker \<Rightarrow> nat \<Rightarrow> pageLeaf \<Rightarrow> structPage" where
  "readPage doc w i leaf =
     (if lfErr leaf \<noteq> None then newStructPage i leaf
      else (case readPageParentTree doc w (lfDict leaf) (newStructPage i leaf) of
              (sp, None) \<Rightarrow> sp
            | (sp, Some p) \<Rightarrow> sp\<lparr>spParentTreeErr := ''the ParentTree entry could not be read: '' @ panicText p\<rparr>))"

text \<open>
  The loop over the pages: \<open>named\<close> gives for each key the first page that has it. A page whose dictionary
  could not be read names no key.
\<close>

fun readPages :: "pdfDoc \<Rightarrow> nat \<Rightarrow> pageLeaf list \<Rightarrow> (int \<times> nat) list \<Rightarrow> reportWalker \<Rightarrow> reportWalker \<times> (int \<times> nat) list" where
  "readPages doc i [] named w = (w, named)"
| "readPages doc i (leaf # leaves) named w =
     (let sp = readPage doc w i leaf;
          w1 = onReport (\<lambda>r. r\<lparr>srPages := srPages r @ [sp]\<rparr>) w
      in case spStructParents sp of
           None \<Rightarrow> readPages doc (i + 1) leaves named w1
         | Some key \<Rightarrow>
             (case map_of named key of
                Some first \<Rightarrow> readPages doc (i + 1) leaves named
                  (structProblem (''page '' @ showNat (spPageNum sp))
                     (''/StructParents '' @ showInt key @ '' is also the key of page '' @ showNat first @ ''; both pages bind to the same ParentTree entry'') w1)
              | None \<Rightarrow> readPages doc (i + 1) leaves ((key, spPageNum sp) # named) w1))"

definition formXObjectNote :: string where
  "formXObjectNote = ''array value no page's /StructParents names; may belong to a Form XObject's /StructParents''"

definition otherEntry :: "pdfDoc \<Rightarrow> int \<Rightarrow> pdfObj \<Rightarrow> string + parentTreeEntry" where
  "otherEntry doc key v =
     (case derefIn doc v of
        Inl p \<Rightarrow> Inl p
      | Inr x \<Rightarrow>
          if asArray x \<noteq> None then
            Inr \<lparr> pteKey = key, pteElementRef = [], pteS = [], pteNote = formXObjectNote, pteErr = [] \<rparr>
          else (case elementRefOf doc v of
                  Inl p \<Rightarrow> Inl p
                | Inr (ref, s, msg) \<Rightarrow> Inr \<lparr> pteKey = key, pteElementRef = ref, pteS = s, pteNote = [], pteErr = msg \<rparr>))"

fun otherEntries :: "pdfDoc \<Rightarrow> int list \<Rightarrow> reportStep" where
  "otherEntries doc [] = always id"
| "otherEntries doc (k # ks) =
     andThen (\<lambda>w. case otherEntry doc k (case map_of (rwParentTree w) k of Some v \<Rightarrow> v | None \<Rightarrow> PNull) of
                Inl p \<Rightarrow> (w, Some p)
              | Inr e \<Rightarrow> (onReport (\<lambda>r. r\<lparr>srOther := srOther r @ [e]\<rparr>) w, None))
       (otherEntries doc ks)"

definition readOtherParentTree :: "pdfDoc \<Rightarrow> (int \<times> nat) list \<Rightarrow> reportStep" where
  "readOtherParentTree doc named w =
     otherEntries doc (filter (\<lambda>k. map_of named k = None) (sort (remdups (map fst (rwParentTree w))))) w"

section \<open>Phase one\<close>

fun pageNumbers :: "nat \<Rightarrow> pageLeaf list \<Rightarrow> (int \<times> int) list \<Rightarrow> (int \<times> int) list" where
  "pageNumbers i [] nums = nums"
| "pageNumbers i (leaf # leaves) nums =
     pageNumbers (i + 1) leaves
       (case lfRef leaf of
          Some (n, g) \<Rightarrow> (if map_of nums n = None then (n, int i + 1) # nums else nums)
        | None \<Rightarrow> nums)"

definition catalogStep :: "textLib \<Rightarrow> pdfDoc \<Rightarrow> reportStep" where
  "catalogStep tlib doc =
     (case docCatalog doc of
        DPanic p \<Rightarrow> (\<lambda>w. (w, Some p))
      | DErr e \<Rightarrow> always (structProblem ''catalog'' ''the catalog could not be read'')
      | DObj c \<Rightarrow>
          (case asDict c of
             None \<Rightarrow> always (structProblem ''catalog'' ''the catalog could not be read'')
           | Some catalog \<Rightarrow> readCatalog tlib doc catalog))"

definition readTree :: "textLib \<Rightarrow> pdfDoc \<Rightarrow> pageLeaf list \<Rightarrow> reportStep" where
  "readTree tlib doc leaves =
     andThen (always (onTree (\<lambda>t. t\<lparr>swPageNums := pageNumbers 0 leaves (swPageNums t)\<rparr>)))
       (andThen (catalogStep tlib doc)
         (\<lambda>w. case readPages doc 0 leaves [] w of (w', named) \<Rightarrow> readOtherParentTree doc named w'))"

text \<open>\<^verbatim>\<open>countStreamUses\<close>: a page whose \<open>/Contents\<close> is malformed reads no stream.\<close>

fun countStreamUses :: "pdfDoc \<Rightarrow> pageLeaf list \<Rightarrow> reportStep" where
  "countStreamUses doc [] = always id"
| "countStreamUses doc (leaf # leaves) =
     andThen (\<lambda>w. if lfErr leaf \<noteq> None then (w, None)
                else (case contentStreamRefs doc (lfDict leaf) of
                        ReadPanic p \<Rightarrow> (w, Some p)
                      | ReadErr e \<Rightarrow> (w, None)
                      | ReadOK rs \<Rightarrow>
                          (w\<lparr>rwStreamUses := foldl (\<lambda>u r. u(refID r := u (refID r) + 1)) (rwStreamUses w) rs\<rparr>, None)))
       (countStreamUses doc leaves)"

definition pageTreeProblem :: "pageTree \<Rightarrow> reportWalker \<Rightarrow> reportWalker" where
  "pageTreeProblem pt w =
     (let note = (\<lambda>msg. onReport (\<lambda>r. r\<lparr>srPagesIncomplete := msg\<rparr>) (structProblem ''page tree'' msg w)) in
      case ptErr pt of
        Some e \<Rightarrow> note (''page-tree walk stopped after '' @ showNat (length (ptLeaves pt)) @ '' pages: '' @ e @ ''; later pages not listed'')
      | None \<Rightarrow> if ptSkipped pt \<noteq> [] then note (''page-tree subtree not walked: '' @ ptSkipped pt @ ''; its pages not listed'') else w)"

definition structurePhase1 :: "textLib \<Rightarrow> pageLib \<Rightarrow> pdfDoc \<Rightarrow> string + reportWalker \<times> pageLeaf list" where
  "structurePhase1 tlib lib doc =
     (let pt = buildPageTree lib doc; leaves = ptLeaves pt in
      case andThen (readTree tlib doc leaves) (andThen (countStreamUses doc leaves) (always (pageTreeProblem pt))) newStructureWalker of
        (w, None) \<Rightarrow> Inr (w, leaves)
      | (w, Some p) \<Rightarrow> Inl (wrapPDFError (panicText p)))"

section \<open>The content of a page\<close>

text \<open>The page's named property lists: the dictionaries above them are read once.\<close>

definition pageProperties :: "pdfDoc \<Rightarrow> pageLeaf \<Rightarrow> string + pdfDict" where
  "pageProperties doc leaf =
     (case derefIn doc (paValues (lfAttrs leaf) ! attrResources) of
        Inl p \<Rightarrow> Inl p
      | Inr res \<Rightarrow>
          (case plainDict res of
             None \<Rightarrow> Inr []
           | Some d \<Rightarrow>
               (case derefIn doc (dictGet d ''Properties'') of
                  Inl p \<Rightarrow> Inl p
                | Inr props \<Rightarrow> Inr (case plainDict props of Some pd \<Rightarrow> pd | None \<Rightarrow> []))))"

definition propertyLookup :: "pdfDoc \<Rightarrow> pdfDict \<Rightarrow> string \<Rightarrow> pdfObj read" where
  "propertyLookup doc props name =
     (case dictFind props name of
        None \<Rightarrow> ReadErr (''property list /'' @ name @ '' not found in /Resources /Properties'')
      | Some entry \<Rightarrow>
          (case derefIn doc entry of
             Inl p \<Rightarrow> ReadPanic p
           | Inr v \<Rightarrow>
               (case plainDict v of
                  None \<Rightarrow> ReadErr (''property list /'' @ name @ '' is '' @ objKind v @ '', not a dictionary'')
                | Some pl \<Rightarrow>
                    (case dictFind pl ''MCID'' of
                       None \<Rightarrow> ReadOK PNull
                     | Some m \<Rightarrow>
                         (case derefIn doc m of
                            Inl p \<Rightarrow> ReadPanic p
                          | Inr x \<Rightarrow> if x = PNull then ReadErr (''/MCID in property list /'' @ name @ '' does not resolve to an object'')
                              else ReadOK x)))))"

definition decodeFresh :: "streamLib \<Rightarrow> pdfDoc \<Rightarrow> string \<Rightarrow> decodedStream" where
  "decodeFresh slib doc nid =
     (case decodeContentStreamLocked slib doc nid of Inl e \<Rightarrow> Inl e | Inr raw \<Rightarrow> Inr (tokenizeContentStream raw))"

definition fromCache :: "contentStreamData \<Rightarrow> decodedStream" where
  "fromCache cs = (case csError cs of Some e \<Rightarrow> Inl e | None \<Rightarrow> Inr (csTokenized cs))"

text \<open>The bookkeeping of the uses still to come: the last one drops the kept tokens.\<close>

definition useStream :: "string \<Rightarrow> decodedStream \<Rightarrow> reportWalker \<Rightarrow> reportWalker" where
  "useStream nid ds w =
     (let left = rwStreamUses w nid - 1 in
      if 0 < left then w\<lparr>rwStreamUses := (rwStreamUses w)(nid := left), rwStreamMemo := (rwStreamMemo w)(nid \<mapsto> ds)\<rparr>
      else w\<lparr>rwStreamUses := (rwStreamUses w)(nid := 0), rwStreamMemo := (rwStreamMemo w)(nid := None)\<rparr>)"

definition decodeStream :: "streamLib \<Rightarrow> pdfDoc \<Rightarrow> streamCache \<Rightarrow> string \<Rightarrow> reportWalker \<Rightarrow> decodedStream \<times> reportWalker" where
  "decodeStream slib doc cache nid w =
     (case rwStreamMemo w nid of
        Some ds \<Rightarrow> (ds, useStream nid ds w)
      | None \<Rightarrow>
          (case cache nid of
             Some cs \<Rightarrow> (fromCache cs, useStream nid (fromCache cs) w)
           | None \<Rightarrow>
               (let ds = decodeFresh slib doc nid in (ds, useStream nid ds (w\<lparr>rwDecodes := rwDecodes w + 1\<rparr>)))))"

definition newMarkedStream :: "pdfRef \<Rightarrow> markedStream" where
  "newMarkedStream r = \<lparr> msRef = refText (Some r), msNodeID = refID r, msOpens = 0, msCloses = 0, msDepthAtEnd = 0, msMinDepth = 0, msErr = None \<rparr>"

text \<open>One stream of the page: its row, the rows of its content and the state for the next one.\<close>

definition scanStream :: "mcEnv \<Rightarrow> nat \<Rightarrow> pdfRef \<Rightarrow> decodedStream \<Rightarrow> mcState \<Rightarrow> string + contentMCID list \<times> mcState \<times> markedStream" where
  "scanStream env i r ds st =
     (case ds of
        Inl e \<Rightarrow> Inr ([], clearOperands st, (newMarkedStream r)\<lparr>msErr := Some e, msDepthAtEnd := depthOf st, msMinDepth := depthOf st\<rparr>)
      | Inr tokens \<Rightarrow> scanMarkedContent env tokens i st (newMarkedStream r))"

definition addStream :: "markedStream \<Rightarrow> contentMCID list \<Rightarrow> structPage \<Rightarrow> structPage" where
  "addStream ms rows sp = sp\<lparr>spStreams := spStreams sp @ [ms], spContentMCIDs := spContentMCIDs sp @ rows\<rparr>"

fun scanStreams :: "streamLib \<Rightarrow> pdfDoc \<Rightarrow> streamCache \<Rightarrow> mcEnv \<Rightarrow> nat \<Rightarrow> pdfRef list \<Rightarrow> mcState \<Rightarrow> structPage \<Rightarrow> reportWalker
     \<Rightarrow> reportWalker \<times> structPage \<times> string option" where
  "scanStreams slib doc cache env i [] st sp w = (w, sp, None)"
| "scanStreams slib doc cache env i (r # rs) st sp w =
     (case decodeStream slib doc cache (refID r) w of (ds, w1) \<Rightarrow>
        (case scanStream env i r ds st of
           Inl p \<Rightarrow> (w1, sp, Some p)
         | Inr (rows, st', ms) \<Rightarrow> scanStreams slib doc cache env (i + 1) rs st' (addStream ms rows sp) w1))"

definition emptyScan :: mcState where "emptyScan = \<lparr> mcStack = [], mcOperands = [] \<rparr>"

definition readableMCIDs :: "structPage \<Rightarrow> int list" where
  "readableMCIDs sp = filter (\<lambda>m. 0 \<le> m) (map cmMCID (spContentMCIDs sp))"

definition countContent :: "structPage \<Rightarrow> reportWalker \<Rightarrow> reportWalker" where
  "countContent sp w = onTree (onCounts (\<lambda>c. c\<lparr>ctContentMCIDs := ctContentMCIDs c + length (readableMCIDs sp)\<rparr>)) w"

definition scanPage :: "streamLib \<Rightarrow> (string \<Rightarrow> string + string) \<Rightarrow> pdfDoc \<Rightarrow> streamCache \<Rightarrow> pageLeaf \<Rightarrow> structPage \<Rightarrow> reportWalker
     \<Rightarrow> reportWalker \<times> structPage \<times> string option" where
  "scanPage slib decodeName doc cache leaf sp w =
     (if lfErr leaf \<noteq> None then (w, sp, None)
      else (case contentStreamRefs doc (lfDict leaf) of
              ReadPanic p \<Rightarrow> (w, sp, Some p)
            | ReadErr e \<Rightarrow> (w, sp\<lparr>spErr := joinErr (spErr sp) e\<rparr>, None)
            | ReadOK rs \<Rightarrow>
                (case pageProperties doc leaf of
                   Inl p \<Rightarrow> (w, sp, Some p)
                 | Inr props \<Rightarrow>
                     (case scanStreams slib doc cache \<lparr> meDecodeName = decodeName, meProps = propertyLookup doc props \<rparr> 0 rs emptyScan sp w of
                        (w1, sp1, Some p) \<Rightarrow> (w1, sp1, Some p)
                      | (w1, sp1, None) \<Rightarrow> (countContent sp1 w1, sp1, None)))))"

definition scanPageLocked :: "streamLib \<Rightarrow> (string \<Rightarrow> string + string) \<Rightarrow> pdfDoc \<Rightarrow> streamCache \<Rightarrow> pageLeaf \<Rightarrow> structPage \<Rightarrow> reportWalker
     \<Rightarrow> reportWalker \<times> structPage" where
  "scanPageLocked slib decodeName doc cache leaf sp w =
     (case scanPage slib decodeName doc cache leaf sp w of
        (w1, sp1, None) \<Rightarrow> (w1, sp1)
      | (w1, sp1, Some p) \<Rightarrow> (w1, sp1\<lparr>spErr := joinErr (spErr sp1) (''page could not be read: '' @ panicText p)\<rparr>))"

section \<open>The alignment\<close>

text \<open>The map of rows by MCID as a list of rows, each MCID once.\<close>

definition newAlignment :: "int \<Rightarrow> mcidAlignment" where
  "newAlignment m = \<lparr> maMCID = m, maContentCount = 0, maParentTreeElement = [], maParentTreeS = [], maTreeElements = [], maConsistent = False \<rparr>"

fun onRow :: "int \<Rightarrow> (mcidAlignment \<Rightarrow> mcidAlignment) \<Rightarrow> mcidAlignment list \<Rightarrow> mcidAlignment list" where
  "onRow m f [] = [f (newAlignment m)]"
| "onRow m f (a # rows) = (if maMCID a = m then f a # rows else a # onRow m f rows)"

definition alignContent :: "structPage \<Rightarrow> mcidAlignment list \<Rightarrow> mcidAlignment list" where
  "alignContent sp rows = fold (\<lambda>m. onRow m (\<lambda>a. a\<lparr>maContentCount := maContentCount a + 1\<rparr>)) (readableMCIDs sp) rows"

definition alignSlot :: "parentTreeSlot \<Rightarrow> mcidAlignment list \<Rightarrow> mcidAlignment list" where
  "alignSlot s rows =
     (if psElementRef s = [] \<and> psErr s = [] then rows
      else onRow (int (psMCID s))
        (\<lambda>a. if psErr s = [] then a\<lparr>maParentTreeElement := psElementRef s, maParentTreeS := psS s\<rparr> else a) rows)"

definition claimsOn :: "structWalker \<Rightarrow> int \<Rightarrow> (int \<times> string) list" where
  "claimsOn w page = map snd (filter (\<lambda>c. fst c = page) (swClaims w))"

definition claimants :: "structWalker \<Rightarrow> int \<Rightarrow> int \<Rightarrow> string list" where
  "claimants w page m = map snd (filter (\<lambda>c. fst c = m) (claimsOn w page))"

definition alignClaims :: "structWalker \<Rightarrow> int \<Rightarrow> mcidAlignment list \<Rightarrow> mcidAlignment list" where
  "alignClaims w page rows =
     fold (\<lambda>m. onRow m (\<lambda>a. a\<lparr>maTreeElements := claimants w page m\<rparr>)) (remdups (map fst (claimsOn w page))) rows"

definition consistentRow :: "mcidAlignment \<Rightarrow> bool" where
  "consistentRow a \<longleftrightarrow> maContentCount a = 1 \<and> maParentTreeElement a \<noteq> [] \<and> maTreeElements a = [maParentTreeElement a]"

definition align :: "structWalker \<Rightarrow> structPage \<Rightarrow> mcidAlignment list" where
  "align w sp =
     sort_key maMCID (map (\<lambda>a. a\<lparr>maConsistent := consistentRow a\<rparr>)
       (alignClaims w (int (spPageNum sp)) (fold alignSlot (spParentTree sp) (alignContent sp []))))"

section \<open>The whole report\<close>

datatype structAnswer = Canceled | Unreadable string | Report structReport

text \<open>The loop of phase two; \<open>closedAt\<close> says at which page the document is found closed.\<close>

fun scanPages :: "streamLib \<Rightarrow> (string \<Rightarrow> string + string) \<Rightarrow> pdfDoc \<Rightarrow> streamCache \<Rightarrow> (nat \<Rightarrow> bool) \<Rightarrow> nat \<Rightarrow> pageLeaf list \<Rightarrow> reportWalker
     \<Rightarrow> reportWalker option" where
  "scanPages slib decodeName doc cache closedAt i [] w = Some w"
| "scanPages slib decodeName doc cache closedAt i (leaf # leaves) w =
     (if closedAt (i + 1) then None
      else (case scanPageLocked slib decodeName doc cache leaf (srPages (rwReport w) ! i) w of
              (w1, sp) \<Rightarrow> scanPages slib decodeName doc cache closedAt (i + 1) leaves
                (onReport (\<lambda>r. r\<lparr>srPages := (srPages r)[i := sp\<lparr>spAlignment := align (rwTree w1) sp\<rparr>]\<rparr>) w1)))"

definition buildStructure ::
  "textLib \<Rightarrow> pageLib \<Rightarrow> streamLib \<Rightarrow> (string \<Rightarrow> string + string) \<Rightarrow> pdfDoc \<Rightarrow> streamCache \<Rightarrow> (nat \<Rightarrow> bool) \<Rightarrow> structAnswer" where
  "buildStructure tlib lib slib decodeName doc cache closedAt =
     (if closedAt 0 then Canceled
      else (case structurePhase1 tlib lib doc of
              Inl e \<Rightarrow> Unreadable e
            | Inr (w, leaves) \<Rightarrow>
                (case scanPages slib decodeName doc cache closedAt 0 leaves w of
                   None \<Rightarrow> Canceled
                 | Some w1 \<Rightarrow> Report ((rwReport w1)\<lparr>srCounts := swCounts (rwTree w1)\<rparr>))))"

end
