(* ===== verification/StructureRules.thy ===== *)
theory StructureRules
  imports StructureReport GoLib
begin

text \<open>
  The PDF/UA-1 rules that read the structure report (\<^verbatim>\<open>internal/pdfcore/validate_structure.go\<close>): balance of
  marked content, uniqueness and nesting of MCIDs, their elements in the ParentTree, and the structure types.
  A rule answers why it was not evaluated or what it found; a finding's message is a constructor with what
  the message is made of.
\<close>

section \<open>Text from the file in messages\<close>

definition lowerHex :: "nat \<Rightarrow> char" where
  "lowerHex d = (if d < 10 then charOf (48 + d) else charOf (87 + d))"

fun hexDigits :: "nat \<Rightarrow> nat \<Rightarrow> string" where
  "hexDigits 0 n = []"
| "hexDigits (Suc k) n = hexDigits k (n div 16) @ [lowerHex (n mod 16)]"

text \<open>One rune as \<^verbatim>\<open>strconv.QuoteToASCII\<close> writes it.\<close>

definition quoteRune :: "rune \<Rightarrow> string" where
  "quoteRune r =
     (if r = 34 then [CHR 0x5C, CHR 0x22] else if r = 92 then [CHR 0x5C, CHR 0x5C]
      else if 32 \<le> r \<and> r < 127 then [charOf r]
      else if r = 7 then [CHR 0x5C, CHR ''a''] else if r = 8 then [CHR 0x5C, CHR ''b''] else if r = 12 then [CHR 0x5C, CHR ''f'']
      else if r = 10 then [CHR 0x5C, CHR ''n''] else if r = 13 then [CHR 0x5C, CHR ''r''] else if r = 9 then [CHR 0x5C, CHR ''t'']
      else if r = 11 then [CHR 0x5C, CHR ''v'']
      else if r < 32 \<or> r = 127 then [CHR 0x5C, CHR ''x''] @ hexDigits 2 r
      else if r < 65536 then [CHR 0x5C, CHR ''u''] @ hexDigits 4 r
      else [CHR 0x5C, CHR ''U''] @ hexDigits 8 r)"

text \<open>A byte that starts no valid rune is written by its value.\<close>

function quoteBody :: "string \<Rightarrow> string" where
  "quoteBody [] = []"
| "quoteBody (c # s) =
     (case decodeFront (map byteOf (c # s)) of
        None \<Rightarrow> [CHR 0x5C, CHR ''x''] @ hexDigits 2 (byteOf c) @ quoteBody s
      | Some (r, n) \<Rightarrow> quoteRune r @ quoteBody (drop (n - 1) s))"
  by pat_completeness auto
termination quoteBody by (relation "measure length") auto

definition quoteToASCII :: "string \<Rightarrow> string" where
  "quoteToASCII s = [CHR 0x22] @ quoteBody s @ [CHR 0x22]"

definition asciiText :: "string \<Rightarrow> string" where
  "asciiText s = (if list_all (\<lambda>c. 32 \<le> byteOf c \<and> byteOf c \<le> 126) s then s else quoteToASCII s)"

section \<open>Findings\<close>

datatype structFinding =
    PageContentUnread nat string
  | StreamUndecoded string nat streamFailure
  | StrayEMC nat string
  | LeftOpen nat int
  | RepeatedMCID nat int "string list"
  | PageMCIDsUnread nat string
  | StreamMCIDsUnread string nat streamFailure
  | UnreachableMCIDs nat "int list" string
  | UnreadableMCID nat string "mcError option"
  | NoStructElement nat int "string list" int string
  | NestedMCID nat int string int
  | UnusableS string string
  | SNotChecked string string

record ruleHit =
  rhObjRef :: string
  rhNodeID :: string
  rhFinding :: structFinding

definition objHit :: "string \<Rightarrow> string \<Rightarrow> structFinding \<Rightarrow> ruleHit" where
  "objHit ref nid msg = (if nid = [] then \<lparr> rhObjRef = [], rhNodeID = [], rhFinding = msg \<rparr>
     else \<lparr> rhObjRef = ref, rhNodeID = nid, rhFinding = msg \<rparr>)"

definition pageHit :: "structPage \<Rightarrow> structFinding \<Rightarrow> ruleHit" where
  "pageHit sp msg = objHit (spRef sp) (spNodeID sp) msg"

definition streamHit :: "markedStream \<Rightarrow> structFinding \<Rightarrow> ruleHit" where
  "streamHit ms msg = objHit (msRef ms) (msNodeID ms) msg"

definition pagesComplete :: "structReport \<Rightarrow> string option" where
  "pagesComplete rep = (if srPagesIncomplete rep \<noteq> [] then Some (''could not read every page: '' @ asciiText (srPagesIncomplete rep)) else None)"

fun firstUndecoded :: "markedStream list \<Rightarrow> nat" where
  "firstUndecoded [] = 0"
| "firstUndecoded (ms # streams) = (if msErr ms \<noteq> None then 0 else Suc (firstUndecoded streams))"

definition firstUndecodedStream :: "structPage \<Rightarrow> nat" where
  "firstUndecodedStream sp = firstUndecoded (spStreams sp)"

definition mcidLoc :: "structPage \<Rightarrow> contentMCID \<Rightarrow> string" where
  "mcidLoc sp c = ''stream '' @ (if cmStream c < length (spStreams sp) then msRef (spStreams sp ! cmStream c) else ''?'')
     @ '' line '' @ showNat (cmLine c) @ '' col '' @ showNat (cmCol c)"

text \<open>The readable MCIDs in the order of their first occurrence, and the locations of one.\<close>

fun firstOccurrences :: "int list \<Rightarrow> int list \<Rightarrow> int list" where
  "firstOccurrences found [] = found"
| "firstOccurrences found (m # ms) = firstOccurrences (if m \<in> set found then found else found @ [m]) ms"

definition mcidsOf :: "structPage \<Rightarrow> int list" where
  "mcidsOf sp = firstOccurrences [] (readableMCIDs sp)"

definition locsOf :: "structPage \<Rightarrow> int \<Rightarrow> string list" where
  "locsOf sp m = map (mcidLoc sp) (filter (\<lambda>c. 0 \<le> cmMCID c \<and> cmMCID c = m) (spContentMCIDs sp))"

section \<open>The rules\<close>

text \<open>The findings of a rule that only needs every page listed.\<close>

definition perPage :: "(structPage \<Rightarrow> ruleHit list) \<Rightarrow> structReport \<Rightarrow> string + ruleHit list" where
  "perPage hits rep = (case pagesComplete rep of Some e \<Rightarrow> Inl e | None \<Rightarrow> Inr (concat (map hits (srPages rep))))"

definition streamBalance :: "structPage \<Rightarrow> nat \<times> markedStream \<Rightarrow> ruleHit list" where
  "streamBalance sp p =
     (case p of (i, ms) \<Rightarrow>
        (case msErr ms of
           Some e \<Rightarrow> [streamHit ms (StreamUndecoded (msRef ms) (spPageNum sp) e)]
         | None \<Rightarrow> if i < firstUndecodedStream sp \<and> msMinDepth ms < 0 then [pageHit sp (StrayEMC (spPageNum sp) (msRef ms))] else []))"

definition pageBalance :: "structPage \<Rightarrow> ruleHit list" where
  "pageBalance sp =
     (if spErr sp \<noteq> [] then [pageHit sp (PageContentUnread (spPageNum sp) (asciiText (spErr sp)))] else [])
     @ concat (map (streamBalance sp) (enumerate 0 (spStreams sp)))
     @ (if spErr sp = [] \<and> firstUndecodedStream sp = length (spStreams sp) \<and> spStreams sp \<noteq> []
           \<and> 0 < msDepthAtEnd (last (spStreams sp))
        then [pageHit sp (LeftOpen (spPageNum sp) (msDepthAtEnd (last (spStreams sp))))] else [])"

definition checkMarkedContentBalance :: "structReport \<Rightarrow> string + ruleHit list" where
  "checkMarkedContentBalance rep = perPage pageBalance rep"

definition pageUnique :: "structPage \<Rightarrow> ruleHit list" where
  "pageUnique sp =
     concat (map (\<lambda>m. if 1 < length (locsOf sp m) then [pageHit sp (RepeatedMCID (spPageNum sp) m (locsOf sp m))] else []) (mcidsOf sp))"

definition checkMCIDUnique :: "structReport \<Rightarrow> string + ruleHit list" where
  "checkMCIDUnique rep = perPage pageUnique rep"

text \<open>Why no MCID of the page can be looked up.\<close>

definition pageCause :: "structPage \<Rightarrow> string" where
  "pageCause sp = (if spParentTreeErr sp \<noteq> [] then asciiText (spParentTreeErr sp)
     else if spStructParents sp = None then ''page has no /StructParents'' else [])"

definition slotOf :: "structPage \<Rightarrow> int \<Rightarrow> parentTreeSlot" where
  "slotOf sp m = (if m < int (length (spParentTree sp)) then spParentTree sp ! nat m
     else \<lparr> psMCID = 0, psElementRef = [], psS = [], psErr = [] \<rparr>)"

definition hasElement :: "structPage \<Rightarrow> int \<Rightarrow> bool" where
  "hasElement sp m \<longleftrightarrow> psElementRef (slotOf sp m) \<noteq> [] \<and> psErr (slotOf sp m) = []"

text \<open>The loop over the rows: an MCID is looked up at its first occurrence.\<close>

fun rowFindings :: "structPage \<Rightarrow> int list \<Rightarrow> contentMCID list \<Rightarrow> ruleHit list" where
  "rowFindings sp reported [] = []"
| "rowFindings sp reported (c # rows) =
     (if cmMCID c < 0 then
        pageHit sp (UnreadableMCID (spPageNum sp) (mcidLoc sp c) (cmErr c)) # rowFindings sp reported rows
      else if pageCause sp \<noteq> [] \<or> cmMCID c \<in> set reported then rowFindings sp reported rows
      else (if hasElement sp (cmMCID c) then []
            else [pageHit sp (NoStructElement (spPageNum sp) (cmMCID c) (locsOf sp (cmMCID c))
                    (case spStructParents sp of Some k \<Rightarrow> k | None \<Rightarrow> 0) (asciiText (psErr (slotOf sp (cmMCID c)))))])
           @ rowFindings sp (cmMCID c # reported) rows)"

definition pageInParentTree :: "structPage \<Rightarrow> ruleHit list" where
  "pageInParentTree sp =
     (if spErr sp \<noteq> [] then [pageHit sp (PageMCIDsUnread (spPageNum sp) (asciiText (spErr sp)))] else [])
     @ concat (map (\<lambda>ms. case msErr ms of Some e \<Rightarrow> [streamHit ms (StreamMCIDsUnread (msRef ms) (spPageNum sp) e)] | None \<Rightarrow> []) (spStreams sp))
     @ (if mcidsOf sp \<noteq> [] \<and> pageCause sp \<noteq> [] then [pageHit sp (UnreachableMCIDs (spPageNum sp) (sort (mcidsOf sp)) (pageCause sp))] else [])
     @ rowFindings sp [] (spContentMCIDs sp)"

definition checkMCIDInParentTree :: "structReport \<Rightarrow> string + ruleHit list" where
  "checkMCIDInParentTree rep =
     (case pagesComplete rep of
        Some e \<Rightarrow> Inl e
      | None \<Rightarrow>
          if srRootReadFailed rep \<noteq> [] then
            Inl (''structure tree root could not be read, so the ParentTree is unknown: '' @ asciiText (srRootReadFailed rep))
          else if srParentTreeIncomplete rep \<noteq> [] then
            Inl (''the ParentTree could not be read in full, so its entries are unknown: '' @ asciiText (srParentTreeIncomplete rep))
          else Inr (concat (map pageInParentTree (srPages rep))))"

definition pageNotNested :: "structPage \<Rightarrow> ruleHit list" where
  "pageNotNested sp =
     concat (map (\<lambda>c. case cmParentMCID c of
                None \<Rightarrow> []
              | Some m \<Rightarrow> if cmMCID c < 0 \<or> firstUndecodedStream sp \<le> cmStream c then []
                  else [pageHit sp (NestedMCID (spPageNum sp) (cmMCID c) (mcidLoc sp c) m)])
       (spContentMCIDs sp))"

definition checkMCIDNotNested :: "structReport \<Rightarrow> string + ruleHit list" where
  "checkMCIDNotNested rep = perPage pageNotNested rep"

text \<open>The walk over the kids; an element is named by its reference or by its place.\<close>

definition kidPlace :: "kidInfo \<Rightarrow> string \<Rightarrow> string" where
  "kidPlace k owner = ''/K index '' @ showNat (kiIndex k) @ '' of '' @ owner"

definition elemName :: "elemInfo \<Rightarrow> kidInfo \<Rightarrow> string \<Rightarrow> string" where
  "elemName e k owner = (if eiRef e \<noteq> [] then ''structure element '' @ eiRef e else ''direct structure element at '' @ kidPlace k owner)"

definition elemFindings :: "elemInfo \<Rightarrow> kidInfo \<Rightarrow> string \<Rightarrow> ruleHit list" where
  "elemFindings e k owner =
     (if eiSErr e \<noteq> [] then [objHit (eiRef e) (eiNodeID e) (UnusableS (elemName e k owner) (eiSErr e))]
      else if eiS e = [] \<and> eiReadErr e \<noteq> [] then [objHit (eiRef e) (eiNodeID e) (SNotChecked (elemName e k owner) (asciiText (eiReadErr e)))]
      else [])"

fun kidFindings :: "string \<Rightarrow> structKid \<Rightarrow> ruleHit list" where
  "kidFindings owner (StructKid k None) = []"
| "kidFindings owner (StructKid k (Some (StructElem e kids))) =
     (if kiKind k \<noteq> ''element'' then []
      else elemFindings e k owner @ concat (map (kidFindings (if eiRef e = [] then kidPlace k owner else eiRef e)) kids))"

definition checkStructElemType :: "structReport \<Rightarrow> string + ruleHit list" where
  "checkStructElemType rep =
     (let msg = (if srRootNotDict rep \<noteq> [] then srRootNotDict rep else srRootReadFailed rep) in
      if msg \<noteq> [] then Inl (''structure tree root could not be read: '' @ asciiText msg)
      else Inr (concat (map (kidFindings ''the structure tree root'') (srElements rep))))"

end
