(* ===== verification/StructureSpec.thy ===== *)
theory StructureSpec
  imports StructureTreeSpec MarkedContentSpec StructureRules
begin

text \<open>
  What the tagged-structure report says of a document: the streams of a page are read as one, the balance rule
  is silent exactly on well-bracketed content, and the alignment rows are the three sources side by side.
\<close>

section \<open>Decoding once\<close>

text \<open>The tokens kept for later pages, and the cache, are what decoding gives.\<close>

definition memoFaithful :: "streamLib \<Rightarrow> pdfDoc \<Rightarrow> streamCache \<Rightarrow> reportWalker \<Rightarrow> bool" where
  "memoFaithful slib doc cache w \<longleftrightarrow> cacheFaithful slib doc cache
     \<and> (\<forall>r ds. rwStreamMemo w (refID r) = Some ds \<longrightarrow> ds = decodeFresh slib doc (refID r))"

lemma fromCache_fresh:
  assumes "cacheFaithful slib doc cache" "cache (refID r) = Some cs"
  shows "fromCache cs = decodeFresh slib doc (refID r)"
proof -
  have "objectID (refID r)" by (simp add: refID_def objectID_def nodeIDForRef_def hasPrefix_def)
  from objectID_fresh [OF this, of slib doc] assms show ?thesis
    by (auto simp: cacheFaithful_def decodeFresh_def fromCache_def failedStream_def decodedData_def Let_def tokenizeContentStream_def
        split: sum.split_asm streamFailure.split_asm if_split_asm)
qed

lemma useStream_memo: "rwStreamMemo (useStream nid ds w) = (if 0 < rwStreamUses w nid - 1 then (rwStreamMemo w)(nid \<mapsto> ds) else (rwStreamMemo w)(nid := None))"
  by (simp add: useStream_def Let_def)

lemma refID_inject [simp]: "refID r = refID s \<longleftrightarrow> r = s"
  by (auto simp: refID_def prod_eq_iff)

lemma decodeStream_fresh:
  assumes "memoFaithful slib doc cache w"
  shows "fst (decodeStream slib doc cache (refID r) w) = decodeFresh slib doc (refID r)"
    "memoFaithful slib doc cache (snd (decodeStream slib doc cache (refID r) w))"
proof -
  show f: "fst (decodeStream slib doc cache (refID r) w) = decodeFresh slib doc (refID r)"
    using assms fromCache_fresh [of slib doc cache r]
    by (auto simp: decodeStream_def memoFaithful_def Let_def simp del: split_paired_All split: option.split)
  have "rwStreamMemo (snd (decodeStream slib doc cache (refID r) w)) (refID s) \<noteq> None \<Longrightarrow>
      rwStreamMemo (snd (decodeStream slib doc cache (refID r) w)) (refID s)
        = (if s = r then Some (fst (decodeStream slib doc cache (refID r) w)) else rwStreamMemo w (refID s))" for s
    by (auto simp: decodeStream_def useStream_memo Let_def split: option.split if_split_asm)
  with f assms show "memoFaithful slib doc cache (snd (decodeStream slib doc cache (refID r) w))"
    unfolding memoFaithful_def by (metis option.distinct(1) option.inject)
qed

interpretation memo: remembering "\<lambda>r. decodeStream slib doc cache (refID r)" "\<lambda>r. decodeFresh slib doc (refID r)" "memoFaithful slib doc cache"
  for slib doc cache
  by unfold_locales (rule decodeStream_fresh, assumption)+

section \<open>The streams of a page as one\<close>

definition decodes :: "streamLib \<Rightarrow> pdfDoc \<Rightarrow> pdfRef \<Rightarrow> bool" where
  "decodes slib doc r \<longleftrightarrow> (case decodeFresh slib doc (refID r) of Inr ts \<Rightarrow> True | Inl e \<Rightarrow> False)"

definition tokensOf :: "streamLib \<Rightarrow> pdfDoc \<Rightarrow> pdfRef \<Rightarrow> token list" where
  "tokensOf slib doc r = (case decodeFresh slib doc (refID r) of Inr ts \<Rightarrow> ts | Inl e \<Rightarrow> [])"

definition pageTokens :: "streamLib \<Rightarrow> pdfDoc \<Rightarrow> pdfRef list \<Rightarrow> token list" where
  "pageTokens slib doc rs = concat (map (tokensOf slib doc) rs)"

lemma pageTokens_simps [simp]: "pageTokens slib doc [] = []"
    "pageTokens slib doc (r # rs) = tokensOf slib doc r @ pageTokens slib doc rs"
  by (simp_all add: pageTokens_def)

lemma decodes_fresh: "decodes slib doc r \<Longrightarrow> decodeFresh slib doc (refID r) = Inr (tokensOf slib doc r)"
  by (simp add: decodes_def tokensOf_def split: sum.split_asm)

text \<open>One step of the loop over the streams when the stream decodes.\<close>

lemma scanStreams_step:
  assumes "memoFaithful slib doc cache w" "decodes slib doc r"
  obtains w1 where "memoFaithful slib doc cache w1"
    "scanStreams slib doc cache env i (r # rs) st sp w =
       (case scanMarkedContent env (tokensOf slib doc r) i st (newMarkedStream r) of
          Inl p \<Rightarrow> (w1, sp, Some p)
        | Inr (rows, st', ms) \<Rightarrow> scanStreams slib doc cache env (i + 1) rs st' (addStream ms rows sp) w1)"
proof -
  obtain w1 where "decodeStream slib doc cache (refID r) w = (decodeFresh slib doc (refID r), w1)" "memoFaithful slib doc cache w1"
    using memo.call_eq [OF assms(1), of r] memo.keeps [OF assms(1), of r] by (metis snd_conv)
  with decodes_fresh [OF assms(2)] that show ?thesis by (simp add: scanStream_def)
qed

definition sameState :: "mcState \<Rightarrow> mcScan \<Rightarrow> bool" where
  "sameState st sc \<longleftrightarrow> mcStack st = mcStack (scState sc) \<and> anyOperands (mcOperands st) = anyOperands (mcOperands (scState sc))"

lemma scan_continues:
  assumes "sameState st sc"
  shows "case scanMarkedContent env ts i st ms of
      Inl p \<Rightarrow> scanTokens env 0 ts sc = Inl p
    | Inr (rows, st', ms') \<Rightarrow> (\<exists>sc'. scanTokens env 0 ts sc = Inr sc' \<and> sameState st' sc'
        \<and> map anyRow (scRows sc') = map anyRow (scRows sc) @ map anyRow rows)"
proof -
  let ?sc = "sc\<lparr>scRows := []\<rparr>"
  have sc: "sc = withRows (scRows sc) ?sc" by (simp add: withRows_def)
  have "sameScan (startScan st ms) ?sc" using assms by (simp add: sameScan_def sameState_def startScan_def)
  from scanTokens_same [OF this, of env i ts 0]
  have r: "sameResult (scanTokens env i ts (startScan st ms)) (scanTokens env 0 ts ?sc)" .
  have w: "scanTokens env 0 ts sc = map_sum id (withRows (scRows sc)) (scanTokens env 0 ts ?sc)"
    by (subst sc) (rule scanTokens_rows)
  show ?thesis
    using r unfolding scanMarkedContent_def w
    by (cases "scanTokens env i ts (startScan st ms)"; cases "scanTokens env 0 ts ?sc")
      (auto simp: sameScan_def sameState_def withRows_def)
qed

lemma scanStreams_one:
  assumes "memoFaithful slib doc cache w" "list_all (decodes slib doc) rs" "sameState st sc"
  shows "case scanTokens env 0 (pageTokens slib doc rs) sc of
      Inl p \<Rightarrow> snd (snd (scanStreams slib doc cache env i rs st sp w)) = Some p
    | Inr sc' \<Rightarrow> snd (snd (scanStreams slib doc cache env i rs st sp w)) = None
        \<and> (\<exists>new. map anyRow (spContentMCIDs (fst (snd (scanStreams slib doc cache env i rs st sp w)))) = map anyRow (spContentMCIDs sp) @ new
          \<and> map anyRow (scRows sc') = map anyRow (scRows sc) @ new)"
  using assms
proof (induction rs arbitrary: i st sp w sc)
  case (Cons r rs)
  from Cons.prems have d: "decodes slib doc r" "list_all (decodes slib doc) rs" by simp_all
  from scanStreams_step [OF Cons.prems(1) d(1)] obtain w1 where w1: "memoFaithful slib doc cache w1"
    and step: "scanStreams slib doc cache env i (r # rs) st sp w =
       (case scanMarkedContent env (tokensOf slib doc r) i st (newMarkedStream r) of
          Inl p \<Rightarrow> (w1, sp, Some p)
        | Inr (rows, st', ms) \<Rightarrow> scanStreams slib doc cache env (i + 1) rs st' (addStream ms rows sp) w1)"
    by metis
  show ?case
  proof (cases "scanMarkedContent env (tokensOf slib doc r) i st (newMarkedStream r)")
    case (Inl p)
    with scan_continues [OF Cons.prems(3), of env "tokensOf slib doc r" i "newMarkedStream r"] step
    show ?thesis by (simp add: scanTokens_append)
  next
    case (Inr x)
    obtain rows st' ms where x: "x = (rows, st', ms)" by (metis prod_cases3)
    from scan_continues [OF Cons.prems(3), of env "tokensOf slib doc r" i "newMarkedStream r"] Inr x
    obtain sc' where sc': "scanTokens env 0 (tokensOf slib doc r) sc = Inr sc'" "sameState st' sc'"
        "map anyRow (scRows sc') = map anyRow (scRows sc) @ map anyRow rows" by auto
    from Cons.IH [OF w1 d(2) sc'(2), of "i + 1" "addStream ms rows sp"] sc'(3)
    have "case scanTokens env 0 (pageTokens slib doc rs) sc' of
        Inl p \<Rightarrow> snd (snd (scanStreams slib doc cache env (i + 1) rs st' (addStream ms rows sp) w1)) = Some p
      | Inr sc2 \<Rightarrow> snd (snd (scanStreams slib doc cache env (i + 1) rs st' (addStream ms rows sp) w1)) = None
        \<and> (\<exists>new. map anyRow (spContentMCIDs (fst (snd (scanStreams slib doc cache env (i + 1) rs st' (addStream ms rows sp) w1))))
            = map anyRow (spContentMCIDs sp) @ map anyRow rows @ new
          \<and> map anyRow (scRows sc2) = map anyRow (scRows sc) @ map anyRow rows @ new)"
      by (auto simp: addStream_def split: sum.split_asm)
    moreover have "scanStreams slib doc cache env i (r # rs) st sp w = scanStreams slib doc cache env (i + 1) rs st' (addStream ms rows sp) w1"
      using step Inr x by simp
    moreover have "scanTokens env 0 (pageTokens slib doc (r # rs)) sc = scanTokens env 0 (pageTokens slib doc rs) sc'"
      using sc'(1) by (simp add: scanTokens_append)
    ultimately show ?thesis by (cases "scanTokens env 0 (pageTokens slib doc rs) sc'") (auto simp del: scanStreams.simps)
  qed
qed (simp add: scanTokens.simps)

text \<open>The depths of the streams of a page.\<close>

lemma scanStreams_depths:
  assumes "memoFaithful slib doc cache w" "list_all (decodes slib doc) rs" "scanStreams slib doc cache env i rs st sp w = (w', sp', None)"
  shows "\<exists>mss. spStreams sp' = spStreams sp @ mss \<and> length mss = length rs \<and> list_all (\<lambda>ms. msErr ms = None) mss
    \<and> (list_ex (\<lambda>ms. msMinDepth ms < 0) mss \<longleftrightarrow> underflows (marks (pageTokens slib doc rs)) (length (mcStack st)))
    \<and> (mss \<noteq> [] \<longrightarrow> msDepthAtEnd (last mss) = int (depthAfter (marks (pageTokens slib doc rs)) (length (mcStack st))))
    \<and> spErr sp' = spErr sp \<and> spPageNum sp' = spPageNum sp"
  using assms
proof (induction rs arbitrary: i st sp w)
  case (Cons r rs)
  from Cons.prems have d: "decodes slib doc r" "list_all (decodes slib doc) rs" by simp_all
  from scanStreams_step [OF Cons.prems(1) d(1)] obtain w1 where w1: "memoFaithful slib doc cache w1"
    and step: "scanStreams slib doc cache env i (r # rs) st sp w =
       (case scanMarkedContent env (tokensOf slib doc r) i st (newMarkedStream r) of
          Inl p \<Rightarrow> (w1, sp, Some p)
        | Inr (rows, st', ms) \<Rightarrow> scanStreams slib doc cache env (i + 1) rs st' (addStream ms rows sp) w1)"
    by metis
  then obtain rows st' ms where m: "scanMarkedContent env (tokensOf slib doc r) i st (newMarkedStream r) = Inr (rows, st', ms)"
    and rest: "scanStreams slib doc cache env (i + 1) rs st' (addStream ms rows sp) w1 = (w', sp', None)"
    using Cons.prems(3) by (auto split: sum.split_asm)
  note dep = scanMarkedContent_depth [OF m]
  from Cons.IH [OF w1 d(2) rest] obtain mss where
    "spStreams sp' = spStreams (addStream ms rows sp) @ mss" "length mss = length rs" "list_all (\<lambda>ms. msErr ms = None) mss"
    "list_ex (\<lambda>ms. msMinDepth ms < 0) mss \<longleftrightarrow> underflows (marks (pageTokens slib doc rs)) (length (mcStack st'))"
    "mss \<noteq> [] \<longrightarrow> msDepthAtEnd (last mss) = int (depthAfter (marks (pageTokens slib doc rs)) (length (mcStack st')))"
    "spErr sp' = spErr sp" "spPageNum sp' = spPageNum sp" by (auto simp: addStream_def)
  moreover from this(2) have "mss = [] \<Longrightarrow> rs = []" by simp
  ultimately show ?case
    using dep by (intro exI [of _ "ms # mss"]) (auto simp: addStream_def newMarkedStream_def)
qed simp

section \<open>Rows\<close>

definition wellFormedRow :: "nat \<Rightarrow> contentMCID \<Rightarrow> bool" where
  "wellFormedRow n c \<longleftrightarrow> cmStream c < n \<and> 1 \<le> cmDepth c \<and> -1 \<le> cmMCID c \<and> (cmMCID c = -1 \<longrightarrow> cmErr c \<noteq> None)"

lemma wellFormedRow_mono: "wellFormedRow m c \<Longrightarrow> m \<le> n \<Longrightarrow> wellFormedRow n c"
  by (auto simp: wellFormedRow_def)

definition soundRow :: "nat \<Rightarrow> contentMCID \<Rightarrow> bool" where
  "soundRow i c \<longleftrightarrow> cmStream c \<le> i \<and> -1 \<le> cmMCID c \<and> (cmMCID c = -1 \<longrightarrow> cmErr c \<noteq> None)"

lemma soundRow_error [simp]: "soundRow i (rowError e c) \<longleftrightarrow> cmStream c \<le> i \<and> -1 \<le> cmMCID c"
  by (simp add: soundRow_def rowError_def)

lemma soundRow_set [simp]: "soundRow i (setMCID n c) \<longleftrightarrow> cmStream c \<le> i \<and> (n < 0 \<longrightarrow> -1 \<le> cmMCID c)"
  by (auto simp: soundRow_def setMCID_def)

lemma inlineRow_sound: "inlineRow prop c = (row, True) \<Longrightarrow> cmStream c \<le> i \<Longrightarrow> -1 \<le> cmMCID c \<Longrightarrow> soundRow i row"
  by (auto simp: inlineRow_def Let_def setMCID_def soundRow_def rowError_def split: option.split_asm if_split_asm)

lemma namedRow_sound: "namedRow env val c = Inr (row, True) \<Longrightarrow> cmStream c \<le> i \<Longrightarrow> -1 \<le> cmMCID c \<Longrightarrow> soundRow i row"
  by (auto simp: namedRow_def split: sum.split_asm read.split_asm option.split_asm if_split_asm)

lemma bdcRow_sound:
  assumes "bdcRow env ops t i = Inr (row, True)" "list_all (\<lambda>p. snd p \<le> i) ops"
  shows "soundRow i row"
proof (cases "ops = []")
  case True
  with assms(1) show ?thesis by (auto simp: bdcRow_def)
next
  case False
  let ?row = "\<lparr> cmMCID = -1, cmTag = [], cmStream = i, cmLine = tokLine t, cmCol = tokCol t, cmDepth = 0, cmParentMCID = None, cmErr = None \<rparr>"
  have at: "cmStream (rowAt (ops ! j) ?row) \<le> i \<and> cmMCID (rowAt (ops ! j) ?row) = -1" if "j < length ops" for j
    using assms(2) that by (simp add: rowAt_def list_all_length)
  have "0 < length ops" "operandStart (map fst ops) (propListStart (map fst ops) - 1) < length ops"
    using False propListStart_lt [of "map fst ops"] operandStart_le [of "map fst ops" "propListStart (map fst ops) - 1"] by auto
  with assms(1) False at show ?thesis
    by (auto simp: bdcRow_def Let_def split: if_split_asm elim!: inlineRow_sound [OF sym] namedRow_sound intro: inlineRow_sound namedRow_sound)
qed

definition operandsUpTo :: "nat \<Rightarrow> mcState \<Rightarrow> bool" where
  "operandsUpTo i st \<longleftrightarrow> list_all (\<lambda>p. snd p \<le> i) (mcOperands st)"

lemma scanStep_wellFormed:
  assumes "scanStep env i t sc = Inr sc'" "operandsUpTo i (scState sc)" "list_all (wellFormedRow (i + 1)) (scRows sc)"
  shows "operandsUpTo i (scState sc') \<and> list_all (wellFormedRow (i + 1)) (scRows sc')"
proof -
  have b: "openBDC env i t (countOpen sc) = Inr s \<Longrightarrow> list_all (wellFormedRow (i + 1)) (scRows s)" for s
    using assms(2, 3) bdcRow_sound [of env "mcOperands (scState sc)" t i]
    by (auto simp: openBDC_def countOpen_def pushOpen_def Let_def operandsUpTo_def wellFormedRow_def soundRow_def split: sum.split_asm if_split_asm)
  have "runOperator env i t sc = Inr s \<Longrightarrow> list_all (wellFormedRow (i + 1)) (scRows s)" for s
    using assms(3) b by (auto simp: runOperator_def onState_def countOpen_def countClose_def closeEMC_def Let_def split: if_split_asm list.split_asm)
  with assms show ?thesis
    by (auto simp: scanStep_def operandsUpTo_def onState_def pushOperand_def clearOperands_def split: if_split_asm sum.split_asm)
qed

lemma scanTokens_wellFormed:
  "scanTokens env i ts sc = Inr sc' \<Longrightarrow> operandsUpTo i (scState sc) \<Longrightarrow> list_all (wellFormedRow (i + 1)) (scRows sc)
    \<Longrightarrow> operandsUpTo i (scState sc') \<and> list_all (wellFormedRow (i + 1)) (scRows sc')"
proof (induction ts arbitrary: sc)
  case (Cons t ts)
  then obtain s1 where "scanStep env i t sc = Inr s1" "scanTokens env i ts s1 = Inr sc'" by (auto split: sum.split_asm)
  with scanStep_wellFormed [OF this(1) Cons.prems(2,3)] Cons.IH show ?case by blast
qed simp

lemma scanStream_wellFormed:
  assumes "scanStream env i r ds st = Inr (rows, st', ms)" "operandsUpTo i st"
  shows "operandsUpTo i st' \<and> list_all (wellFormedRow (i + 1)) rows"
  using assms scanTokens_wellFormed [of env i _ "startScan st (newMarkedStream r)"]
  by (auto simp: scanStream_def scanMarkedContent_def clearOperands_def operandsUpTo_def startScan_def split: sum.split_asm)

lemma scanStreams_wellFormed:
  assumes "operandsUpTo i st" "i = length (spStreams sp)" "list_all (wellFormedRow (length (spStreams sp))) (spContentMCIDs sp)"
    "scanStreams slib doc cache env i rs st sp w = (w', sp', pan)"
  shows "list_all (wellFormedRow (length (spStreams sp'))) (spContentMCIDs sp')"
  using assms
proof (induction rs arbitrary: i st sp w)
  case (Cons r rs)
  obtain ds w1 where d: "decodeStream slib doc cache (refID r) w = (ds, w1)" by fastforce
  show ?case
  proof (cases "scanStream env i r ds st")
    case (Inl p)
    with Cons.prems d show ?thesis by simp
  next
    case (Inr x)
    obtain rows st' ms where x: "x = (rows, st', ms)" by (metis prod_cases3)
    from scanStream_wellFormed [OF Inr [unfolded x] Cons.prems(1)]
    have f: "operandsUpTo (i + 1) st'" "list_all (wellFormedRow (i + 1)) rows"
      by (auto simp: operandsUpTo_def list_all_iff)
    have "list_all (wellFormedRow (length (spStreams (addStream ms rows sp)))) (spContentMCIDs (addStream ms rows sp))"
      using Cons.prems(2,3) f(2) wellFormedRow_mono [of "length (spStreams sp)" _ "Suc (length (spStreams sp))"]
      by (auto simp: addStream_def list_all_iff)
    with Cons.IH [of "i + 1" st' "addStream ms rows sp" w1] Cons.prems(2,4) f(1) d Inr x show ?thesis
      by (simp add: addStream_def)
  qed
qed simp

section \<open>The alignment of a page\<close>

definition rowFor :: "mcidAlignment list \<Rightarrow> int \<Rightarrow> mcidAlignment" where
  "rowFor rows m = (case List.find (\<lambda>a. maMCID a = m) rows of Some a \<Rightarrow> a | None \<Rightarrow> newAlignment m)"

definition rowKeys :: "mcidAlignment list \<Rightarrow> int list" where
  "rowKeys rows = map maMCID rows"

lemma rowKeys_onRow:
  assumes "\<And>a. maMCID (f a) = maMCID a"
  shows "set (rowKeys (onRow m f rows)) = insert m (set (rowKeys rows))" "distinct (rowKeys rows) \<Longrightarrow> distinct (rowKeys (onRow m f rows))"
proof -
  show s: "set (rowKeys (onRow m f rows)) = insert m (set (rowKeys rows))"
    by (induction rows) (auto simp: rowKeys_def assms newAlignment_def)
  show "distinct (rowKeys rows) \<Longrightarrow> distinct (rowKeys (onRow m f rows))"
  proof (induction rows)
    case (Cons a rows)
    have "set (rowKeys (onRow m f rows)) = insert m (set (rowKeys rows))"
      by (induction rows) (auto simp: rowKeys_def assms newAlignment_def)
    with Cons show ?case by (auto simp: rowKeys_def assms)
  qed (simp add: rowKeys_def)
qed

lemma rowFor_onRow:
  assumes "\<And>a. maMCID (f a) = maMCID a"
  shows "rowFor (onRow m f rows) m' = (if m' = m then f (rowFor rows m) else rowFor rows m')"
  by (induction rows) (auto simp: rowFor_def assms newAlignment_def)

lemma alignContent_rows:
  "rowFor (alignContent sp rows) m = (rowFor rows m)\<lparr>maContentCount := maContentCount (rowFor rows m) + count_list (readableMCIDs sp) m\<rparr>"
  "set (rowKeys (alignContent sp rows)) = set (readableMCIDs sp) \<union> set (rowKeys rows)"
  "distinct (rowKeys rows) \<Longrightarrow> distinct (rowKeys (alignContent sp rows))"
proof -
  let ?f = "\<lambda>a. a\<lparr>maContentCount := maContentCount a + 1\<rparr>"
  have "rowFor (fold (\<lambda>m. onRow m ?f) ms rows) m = (rowFor rows m)\<lparr>maContentCount := maContentCount (rowFor rows m) + count_list ms m\<rparr>
    \<and> set (rowKeys (fold (\<lambda>m. onRow m ?f) ms rows)) = set ms \<union> set (rowKeys rows)
    \<and> (distinct (rowKeys rows) \<longrightarrow> distinct (rowKeys (fold (\<lambda>m. onRow m ?f) ms rows)))" for ms
    by (induction ms arbitrary: rows) (auto simp: rowFor_onRow rowKeys_onRow)
  then show "rowFor (alignContent sp rows) m = (rowFor rows m)\<lparr>maContentCount := maContentCount (rowFor rows m) + count_list (readableMCIDs sp) m\<rparr>"
    "set (rowKeys (alignContent sp rows)) = set (readableMCIDs sp) \<union> set (rowKeys rows)"
    "distinct (rowKeys rows) \<Longrightarrow> distinct (rowKeys (alignContent sp rows))"
    unfolding alignContent_def by blast+
qed

text \<open>The slots that count: one with a reference or an error.\<close>

definition slotFilled :: "parentTreeSlot \<Rightarrow> bool" where
  "slotFilled s \<longleftrightarrow> psElementRef s \<noteq> [] \<or> psErr s \<noteq> []"

definition slotGood :: "parentTreeSlot \<Rightarrow> bool" where
  "slotGood s \<longleftrightarrow> psElementRef s \<noteq> [] \<and> psErr s = []"

definition slotIn :: "parentTreeSlot list \<Rightarrow> int \<Rightarrow> parentTreeSlot option" where
  "slotIn slots m = List.find (\<lambda>s. int (psMCID s) = m \<and> slotGood s) slots"

lemma alignSlot_row:
  "rowFor (alignSlot s rows) m = (if int (psMCID s) = m \<and> slotGood s then (rowFor rows m)\<lparr>maParentTreeElement := psElementRef s, maParentTreeS := psS s\<rparr>
     else rowFor rows m)"
  "set (rowKeys (alignSlot s rows)) = (if slotFilled s then {int (psMCID s)} else {}) \<union> set (rowKeys rows)"
  "distinct (rowKeys rows) \<Longrightarrow> distinct (rowKeys (alignSlot s rows))"
  by (auto simp: alignSlot_def rowFor_onRow rowKeys_onRow slotGood_def slotFilled_def)

lemma alignSlots_rows:
  assumes "distinct (map psMCID slots)"
  shows "rowFor (fold alignSlot slots rows) m = (case slotIn slots m of
      Some s \<Rightarrow> (rowFor rows m)\<lparr>maParentTreeElement := psElementRef s, maParentTreeS := psS s\<rparr> | None \<Rightarrow> rowFor rows m)"
    "set (rowKeys (fold alignSlot slots rows)) = {int (psMCID s) | s. s \<in> set slots \<and> slotFilled s} \<union> set (rowKeys rows)"
    "distinct (rowKeys rows) \<Longrightarrow> distinct (rowKeys (fold alignSlot slots rows))"
proof -
  have n: "psMCID s \<notin> set (map psMCID ss) \<Longrightarrow> slotIn ss (int (psMCID s)) = None" for s ss
    by (force simp: slotIn_def find_None_iff)
  show "rowFor (fold alignSlot slots rows) m = (case slotIn slots m of
      Some s \<Rightarrow> (rowFor rows m)\<lparr>maParentTreeElement := psElementRef s, maParentTreeS := psS s\<rparr> | None \<Rightarrow> rowFor rows m)"
    using assms
  proof (induction slots arbitrary: rows)
    case (Cons s ss)
    show ?case
    proof (cases "int (psMCID s) = m \<and> slotGood s")
      case True
      with n [of s ss] Cons.prems have "slotIn ss m = None" by auto
      with True Cons show ?thesis by (simp add: alignSlot_row) (simp add: slotIn_def)
    next
      case False
      then have "rowFor (alignSlot s rows) m = rowFor rows m" "slotIn (s # ss) m = slotIn ss m"
        by (auto simp: alignSlot_row slotIn_def)
      with Cons show ?thesis by (simp split: option.split)
    qed
  qed (simp add: slotIn_def)
  show "set (rowKeys (fold alignSlot slots rows)) = {int (psMCID s) | s. s \<in> set slots \<and> slotFilled s} \<union> set (rowKeys rows)"
    by (induction slots arbitrary: rows) (auto simp: alignSlot_row)
  show "distinct (rowKeys rows) \<Longrightarrow> distinct (rowKeys (fold alignSlot slots rows))"
    by (induction slots arbitrary: rows) (simp_all add: alignSlot_row)
qed

lemma alignClaims_rows:
  "rowFor (alignClaims t page rows) m = (if m \<in> fst ` set (claimsOn t page) then (rowFor rows m)\<lparr>maTreeElements := claimants t page m\<rparr> else rowFor rows m)"
  "set (rowKeys (alignClaims t page rows)) = fst ` set (claimsOn t page) \<union> set (rowKeys rows)"
  "distinct (rowKeys rows) \<Longrightarrow> distinct (rowKeys (alignClaims t page rows))"
proof -
  let ?f = "\<lambda>m a. a\<lparr>maTreeElements := claimants t page m\<rparr>"
  have "rowFor (fold (\<lambda>m. onRow m (?f m)) ms rows) m = (if m \<in> set ms then ?f m (rowFor rows m) else rowFor rows m)
    \<and> set (rowKeys (fold (\<lambda>m. onRow m (?f m)) ms rows)) = set ms \<union> set (rowKeys rows)
    \<and> (distinct (rowKeys rows) \<longrightarrow> distinct (rowKeys (fold (\<lambda>m. onRow m (?f m)) ms rows)))" for ms
    by (induction ms arbitrary: rows) (auto simp: rowFor_onRow rowKeys_onRow)
  then show "rowFor (alignClaims t page rows) m = (if m \<in> fst ` set (claimsOn t page) then (rowFor rows m)\<lparr>maTreeElements := claimants t page m\<rparr> else rowFor rows m)"
    "set (rowKeys (alignClaims t page rows)) = fst ` set (claimsOn t page) \<union> set (rowKeys rows)"
    "distinct (rowKeys rows) \<Longrightarrow> distinct (rowKeys (alignClaims t page rows))"
    unfolding alignClaims_def by auto
qed

text \<open>The rows a page must have, and what each must say.\<close>

definition alignedMCIDs :: "structWalker \<Rightarrow> structPage \<Rightarrow> int set" where
  "alignedMCIDs t sp = set (readableMCIDs sp) \<union> {int (psMCID s) | s. s \<in> set (spParentTree sp) \<and> slotFilled s}
     \<union> fst ` set (claimsOn t (int (spPageNum sp)))"

definition alignedRow :: "structWalker \<Rightarrow> structPage \<Rightarrow> int \<Rightarrow> mcidAlignment" where
  "alignedRow t sp m =
     (let count = count_list (readableMCIDs sp) m; slot = slotIn (spParentTree sp) m; owners = claimants t (int (spPageNum sp)) m
      in \<lparr> maMCID = m, maContentCount = count,
           maParentTreeElement = (case slot of Some s \<Rightarrow> psElementRef s | None \<Rightarrow> []),
           maParentTreeS = (case slot of Some s \<Rightarrow> psS s | None \<Rightarrow> []), maTreeElements = owners,
           maConsistent = (count = 1 \<and> (case slot of Some s \<Rightarrow> owners = [psElementRef s] | None \<Rightarrow> False)) \<rparr>)"

lemma slotIn_ref: "slotIn slots m = Some s \<Longrightarrow> psElementRef s \<noteq> []"
  using find_mem by (fastforce simp: slotIn_def slotGood_def)

lemma no_claimants: "m \<notin> fst ` set (claimsOn t page) \<Longrightarrow> claimants t page m = []"
  by (auto simp: claimants_def filter_empty_conv)

lemma distinct_keys_rows: "distinct (rowKeys rows) \<Longrightarrow> a \<in> set rows \<Longrightarrow> a = rowFor rows (maMCID a)"
  by (induction rows) (auto simp: rowKeys_def rowFor_def image_iff)

lemma map_key_sort: "map f (sort_key f xs) = sort (map f xs)"
  by (rule properties_for_sort [symmetric]) (simp_all add: mset_map)

lemma align_rows:
  assumes "distinct (map psMCID (spParentTree sp))"
  shows "align t sp = map (alignedRow t sp) (sorted_list_of_set (alignedMCIDs t sp))"
proof -
  let ?rows = "alignClaims t (int (spPageNum sp)) (fold alignSlot (spParentTree sp) (alignContent sp []))"
  let ?done = "\<lambda>a. a\<lparr>maConsistent := consistentRow a\<rparr>"
  let ?out = "sort_key maMCID (map ?done ?rows)"
  have d: "distinct (rowKeys ?rows)"
    by (intro alignClaims_rows alignSlots_rows(3) [OF assms] alignContent_rows) (simp add: rowKeys_def)
  have keys: "set (rowKeys ?rows) = alignedMCIDs t sp"
    by (auto simp: alignClaims_rows alignSlots_rows(2) [OF assms] alignContent_rows alignedMCIDs_def) (simp_all add: rowKeys_def)
  have start: "rowFor [] m = newAlignment m" for m by (simp add: rowFor_def)
  have row: "?done (rowFor ?rows m) = alignedRow t sp m" for m
    using slotIn_ref [of "spParentTree sp" m] no_claimants [of m t "int (spPageNum sp)"]
    by (auto simp: alignClaims_rows alignSlots_rows(1) [OF assms] alignContent_rows start newAlignment_def alignedRow_def consistentRow_def Let_def
        split: option.split)
  have "map maMCID ?out = sort (rowKeys ?rows)"
    by (simp add: map_key_sort rowKeys_def comp_def)
  also have "\<dots> = sorted_list_of_set (alignedMCIDs t sp)"
    using d by (simp add: keys [symmetric] sorted_list_of_set_sort_remdups distinct_remdups_id)
  finally have k: "map maMCID ?out = sorted_list_of_set (alignedMCIDs t sp)" .
  have "alignedRow t sp (maMCID a) = a" if "a \<in> set ?out" for a
  proof -
    from that obtain b where b: "b \<in> set ?rows" "a = ?done b" by auto
    then have "a = ?done (rowFor ?rows (maMCID a))" using distinct_keys_rows [OF d b(1)] by simp
    then show ?thesis by (simp only: row)
  qed
  then have "map (\<lambda>a. alignedRow t sp (maMCID a)) ?out = ?out" by (rule map_idI)
  then have "?out = map (alignedRow t sp) (map maMCID ?out)" by (simp only: map_map comp_def)
  with k show ?thesis by (simp add: align_def)
qed

section \<open>Properties\<close>

text \<open>
  The content streams of a page that decode are scanned as one program: the rows, and a panic when
  one occurs, are those of a scan of the concatenated tokens, but for the stream each row is placed in.
\<close>

theorem streams_scan_as_one:
  assumes "memoFaithful slib doc cache w" "list_all (decodes slib doc) rs"
  shows "(case scanMarkedContent env (pageTokens slib doc rs) 0 emptyScan ms of
      Inl p \<Rightarrow> snd (snd (scanStreams slib doc cache env 0 rs emptyScan sp w)) = Some p
    | Inr (rows, st, ms') \<Rightarrow> snd (snd (scanStreams slib doc cache env 0 rs emptyScan sp w)) = None
        \<and> map anyRow (spContentMCIDs (fst (snd (scanStreams slib doc cache env 0 rs emptyScan sp w))))
          = map anyRow (spContentMCIDs sp) @ map anyRow rows)"
proof -
  have "sameState emptyScan (startScan emptyScan ms)" by (simp add: sameState_def startScan_def)
  from scanStreams_one [OF assms this, of env 0 sp] show ?thesis
    by (cases "scanTokens env 0 (pageTokens slib doc rs) (startScan emptyScan ms)")
      (auto simp: scanMarkedContent_def startScan_def)
qed

text \<open>
  Claim C26. On a page whose content streams all decode, the balance rule finds nothing exactly when the
  sequence of its BMC, BDC and EMC operators is well-bracketed.
\<close>

theorem balance_rule_exact:
  assumes "memoFaithful slib doc cache w" "list_all (decodes slib doc) rs"
    and "scanStreams slib doc cache env 0 rs emptyScan sp w = (w', sp', None)" "spErr sp = []" "spStreams sp = []"
  shows "pageBalance sp' = [] \<longleftrightarrow> wellBracketed (marks (pageTokens slib doc rs))"
proof -
  from scanStreams_depths [OF assms(1-3)] assms(4,5) obtain mss where mss: "spStreams sp' = mss" "spErr sp' = []"
      "list_all (\<lambda>ms. msErr ms = None) mss" "length mss = length rs"
    and u: "list_ex (\<lambda>ms. msMinDepth ms < 0) mss \<longleftrightarrow> underflows (marks (pageTokens slib doc rs)) 0"
    and d: "mss \<noteq> [] \<longrightarrow> msDepthAtEnd (last mss) = int (depthAfter (marks (pageTokens slib doc rs)) 0)"
    by (auto simp: emptyScan_def)
  have f: "firstUndecoded xs = length xs" if "list_all (\<lambda>ms. msErr ms = None) xs" for xs using that by (induction xs) auto
  have b: "streamBalance sp' (i, ms) = [] \<longleftrightarrow> \<not> msMinDepth ms < 0" if "i < length mss" "ms \<in> set mss" for i ms
    using that mss(3) f [OF mss(3)] by (simp add: streamBalance_def firstUndecodedStream_def mss(1) list_all_iff)
  have "concat (map (streamBalance sp') (enumerate 0 mss)) = [] \<longleftrightarrow> (\<forall>i < length mss. streamBalance sp' (i, mss ! i) = [])"
    by (auto simp: in_set_enumerate_eq)
  also have "\<dots> \<longleftrightarrow> \<not> list_ex (\<lambda>ms. msMinDepth ms < 0) mss"
    using b by (auto simp: list_ex_length)
  finally have "concat (map (streamBalance sp') (enumerate 0 mss)) = [] \<longleftrightarrow> \<not> list_ex (\<lambda>ms. msMinDepth ms < 0) mss" .
  moreover have "rs = [] \<Longrightarrow> depthAfter (marks (pageTokens slib doc rs)) 0 = 0" by simp
  ultimately show ?thesis
    using u d mss f [OF mss(3)] by (auto simp: pageBalance_def wellBracketed_iff firstUndecodedStream_def)
qed

text \<open>
  Claim C28. Every row of a page's marked content is well-formed: it is placed in one of the page's streams,
  its depth counts itself, and its MCID is not negative or is the marker of an unreadable one, which always
  comes with an error; this holds when the scan of a later stream panics, too.
\<close>

theorem content_rows_well_formed:
  assumes "spStreams sp = []" "spContentMCIDs sp = []"
  shows "list_all (wellFormedRow (length (spStreams (snd (scanPageLocked slib decodeName doc cache leaf sp w)))))
    (spContentMCIDs (snd (scanPageLocked slib decodeName doc cache leaf sp w)))"
proof -
  have s: "list_all (wellFormedRow (length (spStreams sp'))) (spContentMCIDs sp')"
    if "scanStreams slib doc cache env 0 rs emptyScan sp w = (w', sp', pan)" for env rs w' sp' pan
    by (rule scanStreams_wellFormed [OF _ _ _ that]) (use assms in \<open>simp_all add: operandsUpTo_def emptyScan_def\<close>)
  show ?thesis using assms
    by (auto simp: scanPageLocked_def scanPage_def split: read.split sum.split prod.split option.split dest!: s)
qed

text \<open>
  Claim C27. The alignment of a page has exactly one row for every MCID its content, its ParentTree array or the
  structure tree names, in ascending order, and the row holds what the three say of it: the number of marked
  sequences, the element of the slot, and the claiming elements in walk order. A row is consistent exactly
  when the content marks it once and the slot's element is its only claimant.
\<close>

theorem alignment_exact:
  assumes "distinct (map psMCID (spParentTree sp))"
  shows "align t sp = map (alignedRow t sp) (sorted_list_of_set (alignedMCIDs t sp))"
  using assms by (rule align_rows)

section \<open>Examples\<close>

text \<open>A page of two streams: a sequence opened in the first is closed in the second.\<close>

definition taggedLib :: streamLib where
  "taggedLib = \<lparr> slDecode = (\<lambda>nid. Inr (Some (if nid = ''obj:0:4'' then ''/P <</MCID 0>> BDC'' else ''EMC''))), slRaw = (\<lambda>nid. []) \<rparr>"

definition taggedEnv :: mcEnv where
  "taggedEnv = \<lparr> meDecodeName = (\<lambda>s. Inr s), meProps = (\<lambda>s. ReadErr s) \<rparr>"

definition taggedLeaf :: pageLeaf where
  "taggedLeaf = \<lparr> lfDict = [(''Contents'', PArray [PRef 4 0, PRef 5 0])], lfRef = Some (3, 0), lfAttrs = noAttrs, lfErr = None \<rparr>"

definition taggedPage :: structPage where
  "taggedPage = newStructPage 0 taggedLeaf"

lemma tagged_memo: "memoFaithful slib doc Map.empty newStructureWalker"
  by (simp add: memoFaithful_def cacheFaithful_def newStructureWalker_def)

lemma tagged_decodes: "list_all (decodes taggedLib twoStreamDoc) [(4, 0), (5, 0)]"
  by code_simp

lemma tagged_marks: "marks (pageTokens taggedLib twoStreamDoc [(4, 0), (5, 0)]) = [True, False]"
  by code_simp

lemma tagged_scan: "snd (snd (scanStreams taggedLib twoStreamDoc Map.empty taggedEnv 0 [(4, 0), (5, 0)] emptyScan taggedPage newStructureWalker)) = None"
  by code_simp

lemma tagged_rows: "map_sum id (\<lambda>(rows, st, ms). map (\<lambda>c. (cmMCID c, cmTag c, cmDepth c)) rows)
    (scanMarkedContent taggedEnv (pageTokens taggedLib twoStreamDoc [(4, 0), (5, 0)]) 0 emptyScan (newMarkedStream (4, 0))) = Inr [(0, ''P'', 1)]"
  by code_simp

theorem streams_scan_as_one_witness:
  "snd (snd (scanStreams taggedLib twoStreamDoc Map.empty taggedEnv 0 [(4, 0), (5, 0)] emptyScan taggedPage newStructureWalker)) = None
    \<and> map cmMCID (spContentMCIDs (fst (snd (scanStreams taggedLib twoStreamDoc Map.empty taggedEnv 0 [(4, 0), (5, 0)] emptyScan taggedPage newStructureWalker)))) = [0]"
proof -
  let ?r = "scanMarkedContent taggedEnv (pageTokens taggedLib twoStreamDoc [(4, 0), (5, 0)]) 0 emptyScan (newMarkedStream (4, 0))"
  obtain rows st ms where r: "?r = Inr (rows, st, ms)" "map (\<lambda>c. (cmMCID c, cmTag c, cmDepth c)) rows = [(0, ''P'', 1)]"
    using tagged_rows by (cases ?r) auto
  from arg_cong [OF r(2), of "map fst"] have m: "map cmMCID rows = [0]" by (simp add: comp_def)
  have k: "map cmMCID xs = map cmMCID (map anyRow xs)" for xs by (simp add: comp_def)
  from streams_scan_as_one [OF tagged_memo tagged_decodes, of taggedEnv taggedPage "newMarkedStream (4, 0)"] r(1)
  have "map anyRow (spContentMCIDs (fst (snd (scanStreams taggedLib twoStreamDoc Map.empty taggedEnv 0 [(4, 0), (5, 0)] emptyScan taggedPage newStructureWalker))))
      = map anyRow rows" "snd (snd (scanStreams taggedLib twoStreamDoc Map.empty taggedEnv 0 [(4, 0), (5, 0)] emptyScan taggedPage newStructureWalker)) = None"
    by (simp_all add: taggedPage_def newStructPage_def)
  then show ?thesis using m by (subst k) (simp add: comp_def)
qed

theorem balance_rule_exact_witness:
  "pageBalance (fst (snd (scanStreams taggedLib twoStreamDoc Map.empty taggedEnv 0 [(4, 0), (5, 0)] emptyScan taggedPage newStructureWalker))) = []"
proof -
  have s: "scanStreams taggedLib twoStreamDoc Map.empty taggedEnv 0 [(4, 0), (5, 0)] emptyScan taggedPage newStructureWalker
      = (fst (scanStreams taggedLib twoStreamDoc Map.empty taggedEnv 0 [(4, 0), (5, 0)] emptyScan taggedPage newStructureWalker),
         fst (snd (scanStreams taggedLib twoStreamDoc Map.empty taggedEnv 0 [(4, 0), (5, 0)] emptyScan taggedPage newStructureWalker)), None)"
    using tagged_scan by (simp only: prod_eq_iff fst_conv snd_conv)
  have "spErr taggedPage = []" "spStreams taggedPage = []" by (simp_all add: taggedPage_def newStructPage_def taggedLeaf_def)
  from balance_rule_exact [OF tagged_memo tagged_decodes s this] show ?thesis
    unfolding tagged_marks by (simp only: wellBracketed_pair)
qed

theorem content_rows_well_formed_witness:
  "list_all (wellFormedRow (length (spStreams (snd (scanPageLocked taggedLib Inr twoStreamDoc Map.empty taggedLeaf taggedPage newStructureWalker)))))
    (spContentMCIDs (snd (scanPageLocked taggedLib Inr twoStreamDoc Map.empty taggedLeaf taggedPage newStructureWalker)))"
  by (rule content_rows_well_formed) (simp_all add: taggedPage_def newStructPage_def)

definition claimedPage :: structPage where
  "claimedPage = taggedPage\<lparr>spParentTree := [\<lparr> psMCID = 0, psElementRef = ''7 0 R'', psS = ''P'', psErr = [] \<rparr>],
     spContentMCIDs := [\<lparr> cmMCID = 0, cmTag = ''P'', cmStream = 0, cmLine = 1, cmCol = 1, cmDepth = 1, cmParentMCID = None, cmErr = None \<rparr>]\<rparr>"

definition claimingTree :: structWalker where
  "claimingTree = (rwTree newStructureWalker)\<lparr>swClaims := [(1, 0, ''7 0 R'')]\<rparr>"

theorem alignment_exact_witness: "align claimingTree claimedPage = [alignedRow claimingTree claimedPage 0]"
proof -
  have "alignedMCIDs claimingTree claimedPage = {0}"
    by (auto simp: alignedMCIDs_def readableMCIDs_def claimedPage_def claimingTree_def claimsOn_def taggedPage_def newStructPage_def slotFilled_def)
  then show ?thesis
    using alignment_exact [of claimedPage claimingTree] by (simp add: claimedPage_def)
qed

end
