(* ===== verification/StreamFilters.thy ===== *)
theory StreamFilters
  imports PdfObject
begin

text \<open>
  The size of a decoded stream, measured before anything is decoded: the readers of
  \<^verbatim>\<open>internal/pdfcore/streamcount.go\<close> and the chain it builds of them, with the parameter checks of
  \<^verbatim>\<open>boundeddecode.go\<close> they share. The code copies each stage to its end, so a reader is the bytes it yields by
  then. One reader yields bytes that depend on how it is asked for them: the hexadecimal one, which looks
  at its end only between two reads. The sizes of the reads, which the consumer's buffers choose, are a
  parameter, and so are the decompressors.
\<close>

section \<open>Streams and filters\<close>

text \<open>A filter with its parameters, and what the library keeps of a stream; \<open>None\<close> is a nil slice.\<close>

record pdfFilter =
  flName :: string
  flParms :: pdfDict

record streamDict =
  sdDict :: pdfDict
  sdRaw :: "byte list option"
  sdContent :: "byte list option"
  sdPipeline :: "pdfFilter list option"
  sdComponents :: int

definition bytesOf :: "byte list option \<Rightarrow> byte list" where
  "bytesOf b = (case b of None \<Rightarrow> [] | Some xs \<Rightarrow> xs)"

definition pipelineOf :: "streamDict \<Rightarrow> pdfFilter list" where
  "pipelineOf sd = (case sdPipeline sd of None \<Rightarrow> [] | Some fs \<Rightarrow> fs)"

text \<open>
  \<open>cdInflate\<close> is a zlib reader (\<open>None\<close>: it refuses the header), \<open>cdLzw\<close> the LZW reader with its early-change
  flag, \<open>cdAscii85\<close> Go's ASCII85 decoder: the bytes they yield before their end or first error.
  \<open>cdDecode\<close> is what the library's own \<^verbatim>\<open>Decode\<close> makes of a stream, a panic's text as its error.
  \<open>cdReads k i\<close> is the size of the \<open>i\<close>th read asked of the stage that \<open>k\<close> filters follow, by the buffered
  reader of the next stage or the copy that drains the chain.
\<close>

record codecs =
  cdInflate :: "byte list \<Rightarrow> byte list option"
  cdLzw :: "bool \<Rightarrow> byte list \<Rightarrow> byte list"
  cdAscii85 :: "byte list \<Rightarrow> byte list"
  cdDecode :: "streamDict \<Rightarrow> string + byte list option"
  cdReads :: "nat \<Rightarrow> nat \<Rightarrow> nat"

section \<open>Decode parameters\<close>

fun predictorParmValue :: "pdfObj \<Rightarrow> int option" where
  "predictorParmValue (PInt n) = Some n"
| "predictorParmValue (PBool b) = Some (if b then 1 else 0)"
| "predictorParmValue _ = None"

definition parmInt :: "pdfDict \<Rightarrow> string \<Rightarrow> int option" where
  "parmInt parms key = (case dictFind parms key of None \<Rightarrow> None | Some v \<Rightarrow> predictorParmValue v)"

definition parmOr :: "pdfDict \<Rightarrow> string \<Rightarrow> int \<Rightarrow> int" where
  "parmOr parms key dflt = (case parmInt parms key of None \<Rightarrow> dflt | Some n \<Rightarrow> n)"

definition predictorValue :: "pdfDict \<Rightarrow> int" where
  "predictorValue parms = parmOr parms ''Predictor'' 1"

definition hasPredictor :: "pdfDict \<Rightarrow> bool" where
  "hasPredictor parms \<longleftrightarrow> predictorValue parms > 1"

definition earlyChange :: "pdfDict \<Rightarrow> bool" where
  "earlyChange parms = (case parmInt parms ''EarlyChange'' of None \<Rightarrow> True | Some n \<Rightarrow> n = 1)"

definition predictorTIFF :: int where "predictorTIFF = 2"

section \<open>The simple readers\<close>

text \<open>\<^verbatim>\<open>ascii85Body\<close>: everything before the first tilde.\<close>

definition ascii85Body :: "byte list \<Rightarrow> byte list" where
  "ascii85Body xs = takeWhile (\<lambda>b. b \<noteq> 0x7E) xs"

text \<open>
  \<^verbatim>\<open>hexDigit\<close>: the value of the next digit, \<open>None\<close> when the reader is marked done, and what is left to
  read. The byte that ends the stream is consumed, and what stands after it stays readable.
\<close>

definition hexValue :: "byte \<Rightarrow> byte option" where
  "hexValue c = (if 0x30 \<le> c \<and> c \<le> 0x39 then Some (c - 0x30)
     else if 0x61 \<le> c \<and> c \<le> 0x66 then Some (c - 0x61 + 10)
     else if 0x41 \<le> c \<and> c \<le> 0x46 then Some (c - 0x41 + 10) else None)"

fun hexDigitAt :: "byte list \<Rightarrow> byte option \<times> byte list" where
  "hexDigitAt [] = (None, [])"
| "hexDigitAt (c # cs) =
     (if c = 0x3E then (None, cs)
      else if c = 0x09 \<or> c = 0x0A \<or> c = 0x0C \<or> c = 0x0D \<or> c = 0x20 then hexDigitAt cs
      else (hexValue c, cs))"

text \<open>
  \<^verbatim>\<open>hexByte\<close>: a byte of two digits, of which a missing second one is 0; what is left; and whether the reader
  was marked done on the way.
\<close>

definition hexByte :: "byte list \<Rightarrow> byte option \<times> byte list \<times> bool" where
  "hexByte xs =
     (case hexDigitAt xs of
        (None, r1) \<Rightarrow> (None, r1, True)
      | (Some hi, r1) \<Rightarrow>
          (case hexDigitAt r1 of
             (None, r2) \<Rightarrow> (Some (push_bit 4 hi), r2, True)
           | (Some lo, r2) \<Rightarrow> (Some (push_bit 4 hi OR lo), r2, False)))"

text \<open>
  The loop of one \<^verbatim>\<open>Read\<close> of at most \<open>n\<close> bytes. It stops where a first digit is missing, and not where a
  second one is: the bytes, what is left, and whether the reader is marked done.
\<close>

fun hexRead :: "nat \<Rightarrow> byte list \<Rightarrow> bool \<Rightarrow> byte list \<times> byte list \<times> bool" where
  "hexRead 0 xs ended = ([], xs, ended)"
| "hexRead (Suc n) xs ended =
     (case hexByte xs of
        (None, r, d) \<Rightarrow> ([], r, True)
      | (Some b, r, d) \<Rightarrow> (case hexRead n r (ended \<or> d) of (bs, r', d') \<Rightarrow> (b # bs, r', d')))"

lemma hexDigitAt_shorter: "hexDigitAt xs = (Some v, r) \<Longrightarrow> length r < length xs"
  by (induction xs rule: hexDigitAt.induct) (fastforce split: if_splits)+

lemma hexDigitAt_rest: "length (snd (hexDigitAt xs)) \<le> length xs"
  by (induction xs rule: hexDigitAt.induct) (auto split: if_splits)

lemma hexByte_shorter: "hexByte xs = (Some b, r, d) \<Longrightarrow> length r < length xs"
  using hexDigitAt_shorter [of xs] hexDigitAt_rest
  by (fastforce simp: hexByte_def split: prod.splits option.splits dest: le_less_trans)

lemma hexRead_ended: "hexRead n xs True = (bs, r, d) \<Longrightarrow> d"
  by (induction n arbitrary: xs bs) (auto split: prod.splits option.splits)

lemma hexRead_rest: "hexRead n xs ended = (bs, r, d) \<Longrightarrow> length r + length bs \<le> length xs \<or> d"
proof (induction n xs ended arbitrary: bs r d rule: hexRead.induct)
  case (2 n xs ended)
  then show ?case
    using hexByte_shorter by (fastforce split: prod.splits option.splits)
qed simp

lemma hexRead_progress: "hexRead n xs False = (bs, r, False) \<Longrightarrow> 0 < n \<Longrightarrow> length r < length xs"
proof (cases n)
  case (Suc m)
  assume h: "hexRead n xs False = (bs, r, False)"
  then obtain b r' d cs where b: "hexByte xs = (Some b, r', d)" "hexRead m r' d = (cs, r, False)"
    using Suc by (auto split: prod.splits option.splits)
  then have "\<not> d" using hexRead_ended [of m r' cs r False] by auto
  with b(2) have "length r \<le> length r'" using hexRead_rest by fastforce
  then show ?thesis using hexByte_shorter [OF b(1)] by simp
qed simp

text \<open>
  \<^verbatim>\<open>asciiHexReader\<close> drained by reads of the given sizes, from the \<open>i\<close>th on: a read of size 0 and a read after
  the reader was marked done find the end.
\<close>

function asciiHexBytes :: "(nat \<Rightarrow> nat) \<Rightarrow> nat \<Rightarrow> byte list \<Rightarrow> byte list" where
  "asciiHexBytes reads i xs =
     (if reads i = 0 then []
      else (case hexRead (reads i) xs False of
              (bs, r, ended) \<Rightarrow> bs @ (if ended then [] else asciiHexBytes reads (i + 1) r)))"
  by pat_completeness auto
termination asciiHexBytes
  by (relation "measure (\<lambda>(_, _, xs). length xs)") (auto dest: hexRead_progress [OF sym])

declare asciiHexBytes.simps [simp del]

text \<open>
  The limit of a stage shortens the last read it passes on. A shorter read hands out the start of what a
  longer one would, so the cut of the bytes of the whole reads is what the stage yields under its limit.
\<close>

lemma hexRead_take: "fst (hexRead (min m n) xs ended) = take m (fst (hexRead n xs ended))"
proof (induction n arbitrary: m xs ended)
  case (Suc n)
  show ?case
  proof (cases m)
    case (Suc k)
    show ?thesis
      using Suc.IH [of k] unfolding Suc by (auto split: prod.splits option.splits) (metis fst_conv)+
  qed simp
qed simp

text \<open>
  The comment on the reader says that \<^verbatim>\<open>>\<close> ends the stream. It does at the first digit of a byte. After a lone
  digit the same read goes on past it: how many bytes a stream yields depends on the sizes of the reads.
\<close>

lemma hex_reads_past_terminator:
  "asciiHexBytes (\<lambda>i. 2) 0 [0x34, 0x3E, 0x34, 0x31] = [0x40, 0x41]"
  "asciiHexBytes (\<lambda>i. 1) 0 [0x34, 0x3E, 0x34, 0x31] = [0x40]"
  by code_simp+

text \<open>\<^verbatim>\<open>runLengthReader\<close>: the bytes, and whether the input ran out inside a run.\<close>

function runLengthBytes :: "byte list \<Rightarrow> byte list \<times> bool" where
  "runLengthBytes [] = ([], False)"
| "runLengthBytes (b # r) =
     (if b = 0x80 then ([], False)
      else if b < 0x80 then
        (let n = unat b + 1 in
         if length r < n then (r, True)
         else (case runLengthBytes (drop n r) of (out, truncated) \<Rightarrow> (take n r @ out, truncated)))
      else (case r of
              [] \<Rightarrow> ([], True)
            | v # r' \<Rightarrow> (case runLengthBytes r' of (out, truncated) \<Rightarrow> (replicate (257 - unat b) v @ out, truncated))))"
  by pat_completeness auto
termination runLengthBytes
  by (relation "measure length") auto

section \<open>The predictor\<close>

text \<open>Whole rows of \<open>readSize\<close> bytes, of each the first \<open>rowSize\<close>; a partial row ends the stream.\<close>

function predictorRowBytes :: "nat \<Rightarrow> nat \<Rightarrow> byte list \<Rightarrow> byte list" where
  "predictorRowBytes readSize rowSize xs =
     (if readSize = 0 \<or> length xs < readSize then []
      else take rowSize (take readSize xs) @ predictorRowBytes readSize rowSize (drop readSize xs))"
  by pat_completeness auto
termination predictorRowBytes
  by (relation "measure (\<lambda>(_, _, xs). length xs)") auto

declare predictorRowBytes.simps [simp del]

text \<open>The width of a row in bytes, in Go's \<^verbatim>\<open>int\<close> arithmetic.\<close>

definition rowSizeOf :: "int \<Rightarrow> int \<Rightarrow> int \<Rightarrow> int" where
  "rowSizeOf bitsPerComponent colors columns = goDiv (wrap64 (bitsPerComponent * colors * columns + 7)) 8"

definition predictorRows :: "byte list \<Rightarrow> pdfDict \<Rightarrow> byte list" where
  "predictorRows r parms =
     (let rowSize = rowSizeOf (parmOr parms ''BitsPerComponent'' 8) (parmOr parms ''Colors'' 1) (parmOr parms ''Columns'' 1) in
      if rowSize < 1 then []
      else let readSize = (if predictorValue parms \<noteq> predictorTIFF then rowSize + 1 else rowSize)
           in predictorRowBytes (nat readSize) (nat rowSize) r)"

section \<open>CCITT fax\<close>

text \<open>
  The size of the bitmap from its geometry, with the products in 64 bits. \<open>None\<close>: it cannot be told.
\<close>

definition maxDim :: int where "maxDim = 2 ^ 31"

definition ccittDecodedSize :: "pdfDict \<Rightarrow> int \<Rightarrow> int option" where
  "ccittDecodedSize parms height =
     (let columns = parmOr parms ''Columns'' 1728;
          rows = parmOr parms ''Rows'' height in
      if rows < 0 then Some maxInt64
      else if columns \<le> 0 then None
      else if rows = 0 then None
      else if columns > maxDim \<or> rows > maxDim then Some maxInt64
      else Some (wrap64 (goDiv (wrap64 (columns + 7)) 8 * rows)))"

section \<open>Which filters run\<close>

text \<open>\<^verbatim>\<open>stopsDecoding\<close>, \<^verbatim>\<open>stopIndex\<close>, \<^verbatim>\<open>runnableFilters\<close>, \<^verbatim>\<open>isPassthroughStream\<close>\<close>

definition stopsDecoding :: "pdfFilter \<Rightarrow> int \<Rightarrow> bool" where
  "stopsDecoding f csComponents \<longleftrightarrow>
     flName f = ''JPXDecode'' \<or> (flName f = ''DCTDecode'' \<and> csComponents \<noteq> 4)"

fun stopIndexFrom :: "nat \<Rightarrow> pdfFilter list \<Rightarrow> int \<Rightarrow> nat option" where
  "stopIndexFrom i [] cs = None"
| "stopIndexFrom i (f # fs) cs = (if stopsDecoding f cs then Some i else stopIndexFrom (i + 1) fs cs)"

definition stopIndex :: "streamDict \<Rightarrow> nat option" where
  "stopIndex sd = stopIndexFrom 0 (pipelineOf sd) (sdComponents sd)"

definition runnableFilters :: "streamDict \<Rightarrow> pdfFilter list" where
  "runnableFilters sd = (case stopIndex sd of Some i \<Rightarrow> take i (pipelineOf sd) | None \<Rightarrow> pipelineOf sd)"

definition isPassthroughStream :: "streamDict \<Rightarrow> bool" where
  "isPassthroughStream sd \<longleftrightarrow>
     pipelineOf sd = [] \<or> (length (pipelineOf sd) = 1 \<and> stopsDecoding (pipelineOf sd ! 0) (sdComponents sd))"

section \<open>The chain of stages\<close>

text \<open>\<^verbatim>\<open>filterModelled\<close>: a name the map does not hold reads as false.\<close>

definition filterModelled :: "string \<Rightarrow> bool" where
  "filterModelled name \<longleftrightarrow>
     name \<in> {''ASCII85Decode'', ''ASCIIHexDecode'', ''RunLengthDecode'', ''LZWDecode'', ''FlateDecode'', ''CCITTFaxDecode''}"

text \<open>A stage's reader: the bytes it yields, whether it would fault the decoder, and a size known without reading.\<close>

record stageReader =
  rdBytes :: "byte list"
  rdFaults :: bool
  rdKnown :: "int option"

definition plainReader :: "byte list \<Rightarrow> stageReader" where
  "plainReader xs = \<lparr> rdBytes = xs, rdFaults = False, rdKnown = None \<rparr>"

text \<open>
  \<^verbatim>\<open>filterReader\<close>: the reader over a filter's output (\<open>None\<close>: not modelled), drained by reads of the given
  sizes, and whether the chain goes on.
\<close>

definition filterReader :: "codecs \<Rightarrow> (nat \<Rightarrow> nat) \<Rightarrow> byte list \<Rightarrow> pdfFilter \<Rightarrow> bool \<Rightarrow> int \<Rightarrow> stageReader option \<times> bool" where
  "filterReader cd reads r f lastOne height =
     (if \<not> filterModelled (flName f) then (None, False)
      else if flName f = ''FlateDecode'' then
        (case cdInflate cd r of
           None \<Rightarrow> (Some (plainReader []), True)
         | Some zr \<Rightarrow>
             if \<not> hasPredictor (flParms f) then (Some (plainReader zr), True)
             else if \<not> lastOne then (Some (plainReader zr), False)
             else (Some (plainReader (predictorRows zr (flParms f))), True))
      else if flName f = ''LZWDecode'' then
        (if predictorValue (flParms f) > 1 then (Some (plainReader []), True)
         else (Some (plainReader (cdLzw cd (earlyChange (flParms f)) r)), True))
      else if flName f = ''ASCII85Decode'' then (Some (plainReader (cdAscii85 cd (ascii85Body r))), True)
      else if flName f = ''ASCIIHexDecode'' then (Some (plainReader (asciiHexBytes reads 0 r)), True)
      else if flName f = ''RunLengthDecode'' then
        (case runLengthBytes r of (out, truncated) \<Rightarrow> (Some ((plainReader out)\<lparr>rdFaults := truncated\<rparr>), True))
      else if flName f = ''CCITTFaxDecode'' then
        (case ccittDecodedSize (flParms f) height of
           None \<Rightarrow> (None, False)
         | Some n \<Rightarrow> (Some ((plainReader [])\<lparr>rdKnown := Some n\<rparr>), False))
      else (None, False))"

text \<open>
  A counter at the end of its drain: the count, and whether its source faults. The source is cut one byte past
  the ceiling (\<^verbatim>\<open>io.LimitReader\<close>), so the next stage reads at most that much; \<open>hexRead_take\<close> is why a cut of
  whole reads stands for the shortened last read.
\<close>

record stageCounter =
  scCount :: int
  scSourceFaults :: bool

definition cutAt :: "int \<Rightarrow> byte list \<Rightarrow> byte list" where
  "cutAt maxBytes xs = take (nat (wrap64 (maxBytes + 1))) xs"

definition counterOf :: "int \<Rightarrow> stageReader \<Rightarrow> stageCounter" where
  "counterOf maxBytes rd =
     \<lparr> scCount = (case rdKnown rd of Some n \<Rightarrow> min n (wrap64 (maxBytes + 1)) | None \<Rightarrow> int (length (cutAt maxBytes (rdBytes rd)))),
       scSourceFaults = rdFaults rd \<rparr>"

text \<open>The loop of \<^verbatim>\<open>stageCounters\<close> from one stage on, and the first filter left unmeasured.\<close>

fun countersFrom :: "codecs \<Rightarrow> int \<Rightarrow> int \<Rightarrow> pdfFilter list \<Rightarrow> byte list \<Rightarrow> stageCounter list \<times> string" where
  "countersFrom cd maxBytes height [] r = ([], [])"
| "countersFrom cd maxBytes height (f # fs) r =
     (case filterReader cd (cdReads cd (length fs)) r f (fs = []) height of
        (None, _) \<Rightarrow> ([], flName f)
      | (Some rd, chainContinues) \<Rightarrow>
          let c = counterOf maxBytes rd in
          if \<not> chainContinues then ([c], if fs \<noteq> [] then flName (hd fs) else [])
          else (case countersFrom cd maxBytes height fs (cutAt maxBytes (rdBytes rd)) of (cs, gap) \<Rightarrow> (c # cs, gap)))"

definition heightEntry :: "streamDict \<Rightarrow> int" where
  "heightEntry sd = (case dictFind (sdDict sd) ''Height'' of Some (PInt n) \<Rightarrow> n | _ \<Rightarrow> 0)"

definition stageCounters :: "codecs \<Rightarrow> streamDict \<Rightarrow> int \<Rightarrow> stageCounter list \<times> string" where
  "stageCounters cd sd maxBytes = countersFrom cd maxBytes (heightEntry sd) (runnableFilters sd) (bytesOf (sdRaw sd))"

section \<open>The verdict\<close>

datatype decodeError =
    DecodedCeiling int
  | RawCeiling int
  | StoppingFilterLeads string
  | PredictorParm string int int int
  | PredictorTwoRows int int
  | TruncatedRun
  | PipelineUnmeasured string
  | DecoderFailed string

text \<open>\<^verbatim>\<open>errors.Is(err, ErrUnsupportedPDF)\<close>\<close>

fun isUnsupported :: "decodeError \<Rightarrow> bool" where
  "isUnsupported (DecodedCeiling n) \<longleftrightarrow> True"
| "isUnsupported (RawCeiling n) \<longleftrightarrow> True"
| "isUnsupported _ \<longleftrightarrow> False"

record pipelineMeasurement =
  pmMeasured :: bool
  pmFirstUnmeasured :: string

fun judgeCounters :: "int \<Rightarrow> stageCounter list \<Rightarrow> decodeError option" where
  "judgeCounters maxBytes [] = None"
| "judgeCounters maxBytes (c # cs) =
     (if scCount c > maxBytes then Some (DecodedCeiling maxBytes)
      else if scSourceFaults c then Some TruncatedRun
      else judgeCounters maxBytes cs)"

definition countStages :: "codecs \<Rightarrow> streamDict \<Rightarrow> int \<Rightarrow> pipelineMeasurement \<times> decodeError option" where
  "countStages cd sd maxBytes =
     (case stageCounters cd sd maxBytes of (counters, firstUnmeasured) \<Rightarrow>
        (\<lparr> pmMeasured = (firstUnmeasured = []), pmFirstUnmeasured = firstUnmeasured \<rparr>, judgeCounters maxBytes counters))"

end
