(* ===== verification/BoundedDecode.thy ===== *)
theory BoundedDecode
  imports StreamFilters ScalarRender
begin

text \<open>
  Decoding under a ceiling (\<^verbatim>\<open>decodeBounded\<close> of \<^verbatim>\<open>internal/pdfcore/boundeddecode.go\<close>), the ceilings of
  \<^verbatim>\<open>imagelimits.go\<close> and \<^verbatim>\<open>image.go\<close> it is called with. The library's decoder is a parameter.
\<close>

section \<open>Predictor parameters\<close>

definition maxPredictorColumns :: int where "maxPredictorColumns = 2 ^ 20"
definition maxPredictorColors :: int where "maxPredictorColors = 32"
definition maxPredictorBitsPerComponent :: int where "maxPredictorBitsPerComponent = 16"

definition predictorBounds :: "(string \<times> int \<times> int) list" where
  "predictorBounds = [(''Columns'', 1, maxPredictorColumns), (''Colors'', 1, maxPredictorColors),
     (''BitsPerComponent'', 1, maxPredictorBitsPerComponent)]"

text \<open>The first bound an entry breaks; an entry that is absent or of another type breaks none.\<close>

fun brokenBound :: "pdfDict \<Rightarrow> (string \<times> int \<times> int) list \<Rightarrow> decodeError option" where
  "brokenBound parms [] = None"
| "brokenBound parms ((key, lo, hi) # bs) =
     (case parmInt parms key of
        None \<Rightarrow> brokenBound parms bs
      | Some n \<Rightarrow> if n < lo \<or> n > hi then Some (PredictorParm key n lo hi) else brokenBound parms bs)"

definition checkPredictorParms :: "pdfDict \<Rightarrow> int \<Rightarrow> decodeError option" where
  "checkPredictorParms parms maxBytes =
     (case brokenBound parms predictorBounds of
        Some e \<Rightarrow> Some e
      | None \<Rightarrow>
          (let rowBytes = rowSizeOf (parmOr parms ''BitsPerComponent'' 8) (parmOr parms ''Colors'' 1) (parmOr parms ''Columns'' 1)
           in if wrap64 (2 * rowBytes) > maxBytes then Some (PredictorTwoRows rowBytes maxBytes) else None))"

text \<open>The loop over the filters that run: only a FlateDecode with a predictor is checked.\<close>

fun badPredictor :: "int \<Rightarrow> pdfFilter list \<Rightarrow> decodeError option" where
  "badPredictor maxBytes [] = None"
| "badPredictor maxBytes (f # fs) =
     (if flName f \<noteq> ''FlateDecode'' \<or> \<not> hasPredictor (flParms f) then badPredictor maxBytes fs
      else (case checkPredictorParms (flParms f) maxBytes of Some e \<Rightarrow> Some e | None \<Rightarrow> badPredictor maxBytes fs))"

section \<open>The bounded decode\<close>

text \<open>
  What is decided before the library is called: an error, an answer that needs no decoding, or to decode.
  The stream is returned as it then is.
\<close>

datatype decodePlan = Refuse decodeError | Answered "byte list option" | RunDecoder

definition planDecode :: "codecs \<Rightarrow> streamDict \<Rightarrow> int \<Rightarrow> bool \<Rightarrow> decodePlan" where
  "planDecode cd sd maxBytes refuseUnmeasured =
     (case sdContent sd of
        Some content \<Rightarrow> if int (length content) > maxBytes then Refuse (DecodedCeiling maxBytes) else Answered (Some content)
      | None \<Rightarrow>
          if int (length (bytesOf (sdRaw sd))) > maxBytes then Refuse (RawCeiling maxBytes)
          else if isPassthroughStream sd then Answered (sdRaw sd)
          else if stopsDecoding (hd (pipelineOf sd)) (sdComponents sd) then Refuse (StoppingFilterLeads (flName (hd (pipelineOf sd))))
          else (case badPredictor maxBytes (runnableFilters sd) of
                  Some e \<Rightarrow> Refuse e
                | None \<Rightarrow>
                    (case countStages cd sd maxBytes of
                       (m, Some e) \<Rightarrow> Refuse e
                     | (m, None) \<Rightarrow>
                         if \<not> pmMeasured m \<and> refuseUnmeasured then Refuse (PipelineUnmeasured (pmFirstUnmeasured m)) else RunDecoder)))"

definition decodeBounded :: "codecs \<Rightarrow> streamDict \<Rightarrow> int \<Rightarrow> bool \<Rightarrow> (decodeError + byte list option) \<times> streamDict" where
  "decodeBounded cd sd maxBytes refuseUnmeasured =
     (case planDecode cd sd maxBytes refuseUnmeasured of
        Refuse e \<Rightarrow> (Inl e, sd)
      | Answered content \<Rightarrow> (Inr content, sd\<lparr>sdContent := content\<rparr>)
      | RunDecoder \<Rightarrow>
          (case cdDecode cd sd of
             Inl e \<Rightarrow> (Inl (DecoderFailed e), sd)
           | Inr content \<Rightarrow>
               (if int (length (bytesOf content)) > maxBytes then Inl (DecodedCeiling maxBytes) else Inr content,
                sd\<lparr>sdContent := content\<rparr>)))"

section \<open>The ceilings\<close>

definition maxImageBytes :: int where "maxImageBytes = 50 * 1024 * 1024"
definition maxImageDecodeBytes :: int where "maxImageDecodeBytes = 512 * 1024 * 1024"
definition maxBitsPerComponent :: int where "maxBitsPerComponent = 16"
definition maxComponents :: int where "maxComponents = 32"
definition imageDecodeHeadroom :: int where "imageDecodeHeadroom = 1024 * 1024"
definition maxImageDimension :: int where "maxImageDimension = 2 ^ 20"

definition imageDecodeCeiling :: "int \<Rightarrow> int \<Rightarrow> int \<Rightarrow> int \<Rightarrow> int" where
  "imageDecodeCeiling width height bitsPerComponent components =
     (if width \<le> 0 \<or> height \<le> 0 \<or> bitsPerComponent \<le> 0 \<or> bitsPerComponent > maxBitsPerComponent \<or>
         components \<le> 0 \<or> components > maxComponents then maxImageBytes
      else if width > maxImageDimension \<or> height > maxImageDimension then maxImageBytes
      else let bitsPerPixel = wrap64 (bitsPerComponent * components);
               rowBytes = goDiv (wrap64 (wrap64 (width * bitsPerPixel) + 7)) 8;
               declared = wrap64 (rowBytes * height);
               ceiling = wrap64 (wrap64 (declared * 2) + imageDecodeHeadroom)
           in if ceiling < maxImageBytes then maxImageBytes
              else if ceiling > maxImageDecodeBytes then maxImageDecodeBytes else ceiling)"

definition sizeEstimateComponents :: "string \<Rightarrow> bool \<Rightarrow> int \<Rightarrow> int" where
  "sizeEstimateComponents colorSpace imageMask resolved =
     (if imageMask \<or> colorSpace = ''Indexed'' then 1 else if resolved \<le> 0 then 0 else resolved)"

definition estimatedDecodedBytes :: "int \<Rightarrow> int \<Rightarrow> int \<Rightarrow> int \<Rightarrow> int" where
  "estimatedDecodedBytes width height bitsPerComponent components =
     (if width \<le> 0 \<or> height \<le> 0 \<or> bitsPerComponent \<le> 0 \<or> bitsPerComponent > maxBitsPerComponent \<or>
         components \<le> 0 \<or> components > maxComponents \<or> width > maxImageDimension \<or> height > maxImageDimension then 0
      else let bitsPerPixel = wrap64 (bitsPerComponent * components);
               rowBytes = goDiv (wrap64 (wrap64 (width * bitsPerPixel) + 7)) 8
           in wrap64 (rowBytes * height))"

end
