(* ===== verification/Embedded.thy ===== *)
theory Embedded
  imports BoundedDecode NodeIds PdfErrors
begin

text \<open>
  Embedded files (\<^verbatim>\<open>internal/pdfcore/embedded.go\<close>): the list of attachments from the catalog's \<open>/AF\<close> array
  and the \<open>/Names/EmbeddedFiles\<close> name tree, and the bytes of one. Reads that panic are \<open>Inl\<close>; the length
  the library recorded for a stream, its name decoder, and the stream behind a node ID are parameters.
\<close>

record embeddedFile =
  efName :: string
  efFilespecRef :: string
  efEmbeddedFileRef :: string
  efEmbeddedFileNodeID :: string
  efAFRelationship :: string
  efSubtype :: string
  efSize :: int
  efCheckSum :: string
  efModDate :: string
  efWarning :: string

record embeddedLib =
  elText :: textLib
  elStreamLength :: "pdfObj \<Rightarrow> int option"
  elDecodeName :: "string \<Rightarrow> string option"

definition emptyFile :: "string \<Rightarrow> embeddedFile" where
  "emptyFile fsRef = \<lparr> efName = [], efFilespecRef = fsRef, efEmbeddedFileRef = [], efEmbeddedFileNodeID = [],
     efAFRelationship = [], efSubtype = [], efSize = 0, efCheckSum = [], efModDate = [], efWarning = [] \<rparr>"

section \<open>Reading through the document\<close>

definition derefDict :: "pdfDoc \<Rightarrow> pdfObj \<Rightarrow> string + pdfDict option" where
  "derefDict doc v = (case derefIn doc v of Inl p \<Rightarrow> Inl p | Inr w \<Rightarrow> Inr (asDict w))"

definition dereferenceArray :: "pdfDoc \<Rightarrow> pdfObj \<Rightarrow> string + pdfObj list" where
  "dereferenceArray doc v =
     (case derefIn doc v of Inl p \<Rightarrow> Inl p | Inr w \<Rightarrow> Inr (case asArray w of Some xs \<Rightarrow> xs | None \<Rightarrow> []))"

section \<open>One file specification\<close>

text \<open>The stream's reference: \<open>/F\<close> before \<open>/UF\<close>, each only when it is a reference.\<close>

definition embeddedFileStreamRef :: "pdfDoc \<Rightarrow> pdfDict \<Rightarrow> string + (int \<times> int) option" where
  "embeddedFileStreamRef doc fs =
     (case dictFind fs ''EF'' of
        None \<Rightarrow> Inr None
      | Some efObj \<Rightarrow>
          (case derefDict doc efObj of
             Inl p \<Rightarrow> Inl p
           | Inr None \<Rightarrow> Inr None
           | Inr (Some efDict) \<Rightarrow>
               Inr (case asRef (dictGet efDict ''F'') of Some r \<Rightarrow> Some r | None \<Rightarrow> asRef (dictGet efDict ''UF''))))"

definition subtypeText :: "embeddedLib \<Rightarrow> pdfDict \<Rightarrow> string" where
  "subtypeText lib sd =
     (case dictFind sd ''Subtype'' of
        Some (PName n) \<Rightarrow> (case elDecodeName lib n of Some s \<Rightarrow> s | None \<Rightarrow> n)
      | _ \<Rightarrow> [])"

definition withParams :: "pdfDoc \<Rightarrow> pdfDict \<Rightarrow> embeddedFile \<Rightarrow> string + embeddedFile" where
  "withParams doc sd ef =
     (case dictFind sd ''Params'' of
        None \<Rightarrow> Inr ef
      | Some paramsObj \<Rightarrow>
          (case derefDict doc paramsObj of
             Inl p \<Rightarrow> Inl p
           | Inr None \<Rightarrow> Inr ef
           | Inr (Some params) \<Rightarrow>
               Inr (ef\<lparr> efSize := (case dictFind params ''Size'' of Some (PInt n) \<Rightarrow> if n \<ge> 0 then n else efSize ef | _ \<Rightarrow> efSize ef),
                        efCheckSum := stringValue (dictGet params ''CheckSum''),
                        efModDate := stringValue (dictGet params ''ModDate'') \<rparr>)))"

definition withLength :: "embeddedLib \<Rightarrow> pdfObj \<Rightarrow> pdfDict \<Rightarrow> embeddedFile \<Rightarrow> embeddedFile" where
  "withLength lib streamObj sd ef =
     (if efSize ef \<noteq> 0 then ef
      else (case elStreamLength lib streamObj of
              Some n \<Rightarrow> ef\<lparr>efSize := n\<rparr>
            | None \<Rightarrow> (case dictFind sd ''Length'' of Some (PInt n) \<Rightarrow> if n \<ge> 0 then ef\<lparr>efSize := n\<rparr> else ef | _ \<Rightarrow> ef)))"

definition displayName :: "textLib \<Rightarrow> pdfDict \<Rightarrow> string" where
  "displayName tlib fs =
     (let uf = textStringOrRaw tlib (dictGet fs ''UF'') in if uf \<noteq> [] then uf else textStringOrRaw tlib (dictGet fs ''F''))"

definition embeddedFileFromFilespec :: "embeddedLib \<Rightarrow> pdfDoc \<Rightarrow> pdfDict \<Rightarrow> string \<Rightarrow> string + embeddedFile" where
  "embeddedFileFromFilespec lib doc fs fsRef =
     (let ef = (emptyFile fsRef)\<lparr> efName := displayName (elText lib) fs, efAFRelationship := nameOf (dictGet fs ''AFRelationship'') \<rparr> in
      case embeddedFileStreamRef doc fs of
        Inl p \<Rightarrow> Inl p
      | Inr None \<Rightarrow> Inr (ef\<lparr>efWarning := ''filespec has no /EF embedded-file stream''\<rparr>)
      | Inr (Some (n, g)) \<Rightarrow>
          (let ef1 = ef\<lparr>efEmbeddedFileRef := refString n g, efEmbeddedFileNodeID := nodeIDForRef n g\<rparr> in
           case derefIn doc (PRef n g) of
             Inl p \<Rightarrow> Inl p
           | Inr PNull \<Rightarrow> Inr (ef1\<lparr>efWarning := ''embedded-file stream could not be resolved''\<rparr>)
           | Inr (PStream PlainStream sd) \<Rightarrow>
               (case withParams doc sd (ef1\<lparr>efSubtype := subtypeText lib sd\<rparr>) of
                  Inl p \<Rightarrow> Inl p
                | Inr ef2 \<Rightarrow> Inr (withLength lib (PStream PlainStream sd) sd ef2))
           | Inr _ \<Rightarrow> Inr (ef1\<lparr>efWarning := ''embedded-file target is not a stream''\<rparr>)))"

section \<open>The list\<close>

text \<open>The files so far and the references already listed; \<^verbatim>\<open>add\<close> is the closure both sources call.\<close>

record collection =
  clFiles :: "embeddedFile list"
  clSeen :: "string list"

definition addFile :: "embeddedLib \<Rightarrow> pdfDoc \<Rightarrow> pdfObj \<Rightarrow> string \<Rightarrow> collection \<Rightarrow> string + collection" where
  "addFile lib doc fsObj fsRef c =
     (if fsRef \<noteq> [] \<and> fsRef \<in> set (clSeen c) then Inr c
      else let c1 = (if fsRef \<noteq> [] then c\<lparr>clSeen := fsRef # clSeen c\<rparr> else c) in
           case asDict fsObj of
             None \<Rightarrow> Inr c1
           | Some d \<Rightarrow>
               (case embeddedFileFromFilespec lib doc d fsRef of
                  Inl p \<Rightarrow> Inl p
                | Inr ef \<Rightarrow> Inr (c1\<lparr>clFiles := clFiles c1 @ [ef]\<rparr>)))"

text \<open>
  One element of \<open>/AF\<close> or one value of a name-tree leaf: a reference is resolved and keeps its name, a
  direct dictionary has none, anything else is skipped.
\<close>

definition visitFilespec :: "pdfDoc \<Rightarrow> (pdfObj \<Rightarrow> string \<Rightarrow> 's \<Rightarrow> string + 's) \<Rightarrow> pdfObj \<Rightarrow> 's \<Rightarrow> string + 's" where
  "visitFilespec doc visit elem s =
     (case elem of
        PRef n g \<Rightarrow>
          (case derefIn doc elem of
             Inl p \<Rightarrow> Inl p
           | Inr resolved \<Rightarrow> if resolved = PNull then Inr s else visit resolved (refString n g) s)
      | _ \<Rightarrow> if asDict elem \<noteq> None then visit elem [] s else Inr s)"

text \<open>The values of a leaf: the elements at odd indices.\<close>

fun oddElements :: "'a list \<Rightarrow> 'a list" where
  "oddElements (k # v # r) = v # oddElements r"
| "oddElements _ = []"

definition entryArray :: "pdfDoc \<Rightarrow> pdfDict \<Rightarrow> string \<Rightarrow> string + pdfObj list" where
  "entryArray doc d key = (case dictFind d key of None \<Rightarrow> Inr [] | Some v \<Rightarrow> dereferenceArray doc v)"

function walkNameTree :: "pdfDoc \<Rightarrow> pdfObj \<Rightarrow> nat \<Rightarrow> (pdfObj \<Rightarrow> string \<Rightarrow> 's \<Rightarrow> string + 's) \<Rightarrow> 's \<Rightarrow> string + 's" where
  "walkNameTree doc node depth visit s =
     (if depth > maxNodeIDDepth then Inr s
      else (case derefDict doc node of
              Inl p \<Rightarrow> Inl p
            | Inr None \<Rightarrow> Inr s
            | Inr (Some d) \<Rightarrow>
                (case entryArray doc d ''Names'' of
                   Inl p \<Rightarrow> Inl p
                 | Inr arr \<Rightarrow>
                     (case foldSum (visitFilespec doc visit) (oddElements arr) s of
                        Inl p \<Rightarrow> Inl p
                      | Inr s1 \<Rightarrow>
                          (case entryArray doc d ''Kids'' of
                             Inl p \<Rightarrow> Inl p
                           | Inr kids \<Rightarrow> foldSum (\<lambda>kid s2. walkNameTree doc kid (depth + 1) visit s2) kids s1)))))"
  by pat_completeness auto
termination walkNameTree
  by (relation "measure (\<lambda>(_, _, depth, _, _). Suc maxNodeIDDepth - depth)") auto

declare walkNameTree.simps [simp del]

definition embeddedNamesRoot :: "pdfDoc \<Rightarrow> pdfDict \<Rightarrow> string + pdfObj option" where
  "embeddedNamesRoot doc cat =
     (case dictFind cat ''Names'' of
        None \<Rightarrow> Inr None
      | Some namesObj \<Rightarrow>
          (case derefDict doc namesObj of
             Inl p \<Rightarrow> Inl p
           | Inr None \<Rightarrow> Inr None
           | Inr (Some names) \<Rightarrow> Inr (dictFind names ''EmbeddedFiles'')))"

definition collectEmbeddedFiles :: "embeddedLib \<Rightarrow> pdfDoc \<Rightarrow> string + embeddedFile list" where
  "collectEmbeddedFiles lib doc =
     (case docCatalog doc of
        DPanic p \<Rightarrow> Inl p
      | DErr e \<Rightarrow> Inr []
      | DObj catObj \<Rightarrow>
          (let cat = (case asDict catObj of Some d \<Rightarrow> d | None \<Rightarrow> []) in
           case entryArray doc cat ''AF'' of
             Inl p \<Rightarrow> Inl p
           | Inr afArr \<Rightarrow>
               (case foldSum (visitFilespec doc (addFile lib doc)) afArr \<lparr> clFiles = [], clSeen = [] \<rparr> of
                  Inl p \<Rightarrow> Inl p
                | Inr c \<Rightarrow>
                    (case embeddedNamesRoot doc cat of
                       Inl p \<Rightarrow> Inl p
                     | Inr None \<Rightarrow> Inr (clFiles c)
                     | Inr (Some efObj) \<Rightarrow>
                         (case walkNameTree doc efObj 0 (addFile lib doc) c of Inl p \<Rightarrow> Inl p | Inr c1 \<Rightarrow> Inr (clFiles c1))))))"

text \<open>\<^verbatim>\<open>GetEmbeddedFiles\<close>\<close>

definition GetEmbeddedFiles :: "embeddedLib \<Rightarrow> pdfDoc \<Rightarrow> string + embeddedFile list" where
  "GetEmbeddedFiles lib doc =
     (case collectEmbeddedFiles lib doc of Inl p \<Rightarrow> Inl (wrapPDFError (panicText p)) | Inr files \<Rightarrow> Inr files)"

section \<open>The bytes of one file\<close>

datatype bytesError = EmptyNodeID | NodeUnresolved nodeAnswer | NotEmbeddedStream | OverCeiling | EmbeddedDecodeFailed decodeError | NoContent

definition GetEmbeddedFileBytes :: "codecs \<Rightarrow> (pdfObj \<Rightarrow> streamDict) \<Rightarrow> pdfDoc \<Rightarrow> string \<Rightarrow> bytesError + byte list" where
  "GetEmbeddedFileBytes cd held doc nodeID =
     (if nodeID = [] then Inl EmptyNodeID
      else (case resolveNodeObject doc nodeID of
              NodeObj (PStream PlainStream d) \<Rightarrow>
                (let sd = held (PStream PlainStream d) in
                 if int (length (bytesOf (sdRaw sd))) > maxImageBytes then Inl OverCeiling
                 else (case (if pipelineOf sd \<noteq> [] then
                               (case fst (decodeBounded cd sd maxImageBytes True) of
                                  Inl e \<Rightarrow> Inl (if isUnsupported e then OverCeiling else EmbeddedDecodeFailed e)
                                | Inr out \<Rightarrow> Inr (bytesOf out))
                             else (case (if sdRaw sd = None then sdContent sd else sdRaw sd) of
                                     None \<Rightarrow> Inl NoContent | Some out \<Rightarrow> Inr out)) of
                         Inl e \<Rightarrow> Inl e
                       | Inr out \<Rightarrow> if int (length out) > maxImageBytes then Inl OverCeiling else Inr out))
            | NodeObj v \<Rightarrow> Inl NotEmbeddedStream
            | r \<Rightarrow> Inl (NodeUnresolved r)))"

end
