(* ===== verification/DecodeSpec.thy ===== *)
theory DecodeSpec
  imports BoundedDecode
begin

text \<open>
  What the ceiling on decoded streams guarantees: the cut-off count answers as the full count would, the
  sizes computed from declared geometry are exact although the arithmetic is 64 bits wide, and the library's
  decoder runs only on a stream whose measured stages all fit.
\<close>

section \<open>Counting without a cut\<close>

text \<open>
  The stages of a pipeline with the whole output of each, as the decoder would buffer them: sizes, faults,
  and the first filter that cannot be measured.
\<close>

definition fullCounter :: "stageReader \<Rightarrow> stageCounter" where
  "fullCounter rd =
     \<lparr> scCount = (case rdKnown rd of Some n \<Rightarrow> n | None \<Rightarrow> int (length (rdBytes rd))), scSourceFaults = rdFaults rd \<rparr>"

fun fullStages :: "codecs \<Rightarrow> int \<Rightarrow> pdfFilter list \<Rightarrow> byte list \<Rightarrow> stageCounter list \<times> string" where
  "fullStages cd height [] r = ([], [])"
| "fullStages cd height (f # fs) r =
     (case filterReader cd (cdReads cd (length fs)) r f (fs = []) height of
        (None, _) \<Rightarrow> ([], flName f)
      | (Some rd, chainContinues) \<Rightarrow>
          if \<not> chainContinues then ([fullCounter rd], if fs \<noteq> [] then flName (hd fs) else [])
          else (case fullStages cd height fs (rdBytes rd) of (cs, gap) \<Rightarrow> (fullCounter rd # cs, gap)))"

definition pipelineStages :: "codecs \<Rightarrow> streamDict \<Rightarrow> stageCounter list \<times> string" where
  "pipelineStages cd sd = fullStages cd (heightEntry sd) (runnableFilters sd) (bytesOf (sdRaw sd))"

definition saneLimit :: "int \<Rightarrow> bool" where
  "saneLimit n \<longleftrightarrow> 0 \<le> n \<and> n < maxInt64"

lemma saneLimit_wrap: "saneLimit n \<Longrightarrow> wrap64 (n + 1) = n + 1"
  by (rule wrap64_nonneg) (auto simp: saneLimit_def)

lemma counter_over:
  assumes "saneLimit n"
  shows "scCount (counterOf n rd) > n \<longleftrightarrow> scCount (fullCounter rd) > n"
  using assms by (auto simp: counterOf_def fullCounter_def cutAt_def saneLimit_wrap saneLimit_def split: option.split)

lemma counter_faults [simp]: "scSourceFaults (counterOf n rd) = scSourceFaults (fullCounter rd)"
  by (simp add: counterOf_def fullCounter_def)

text \<open>A stage within the ceiling is passed on uncut; one whose size is known passes nothing on.\<close>

lemma cut_within:
  assumes "saneLimit n" "\<not> scCount (fullCounter rd) > n" "rdKnown rd = None"
  shows "cutAt n (rdBytes rd) = rdBytes rd"
  using assms by (simp add: fullCounter_def cutAt_def saneLimit_wrap saneLimit_def)

lemma known_ends_chain: "filterReader cd reads r f l h = (Some rd, True) \<Longrightarrow> rdKnown rd = None"
  by (auto simp: filterReader_def plainReader_def split: if_splits option.splits prod.splits)

lemma count_agrees:
  assumes n: "saneLimit n"
  shows "judgeCounters n (fst (countersFrom cd n h fs r)) = judgeCounters n (fst (fullStages cd h fs r)) \<and>
    (judgeCounters n (fst (fullStages cd h fs r)) = None \<longrightarrow> snd (countersFrom cd n h fs r) = snd (fullStages cd h fs r))"
proof (induction fs arbitrary: r)
  case (Cons f fs)
  obtain o1 c where fr: "filterReader cd (cdReads cd (length fs)) r f (fs = []) h = (o1, c)" by fastforce
  show ?case
  proof (cases o1)
    case None
    with fr show ?thesis by simp
  next
    case (Some rd)
    note over = counter_over [OF n, of rd]
    show ?thesis
    proof (cases c)
      case False
      with fr Some over show ?thesis by (simp add: Let_def)
    next
      case True
      with fr Some have k: "rdKnown rd = None" by (simp add: known_ends_chain)
      show ?thesis
      proof (cases "scCount (fullCounter rd) > n")
        case True
        with fr Some \<open>c\<close> over show ?thesis by (simp add: Let_def split: prod.splits)
      next
        case False
        with cut_within [OF n False k] fr Some \<open>c\<close> over Cons.IH [of "rdBytes rd"] show ?thesis
          by (auto simp: Let_def split: prod.splits)
      qed
    qed
  qed
qed simp


text \<open>A hexadecimal run-length stream that expands to six bytes, under a ceiling of five.\<close>

definition exampleCodecs :: codecs where
  "exampleCodecs = \<lparr> cdInflate = Some, cdLzw = (\<lambda>e xs. xs), cdAscii85 = (\<lambda>xs. xs), cdDecode = (\<lambda>sd. Inr (sdRaw sd)),
     cdReads = (\<lambda>k i. 4096) \<rparr>"

definition exampleStream :: streamDict where
  "exampleStream = \<lparr> sdDict = [], sdRaw = Some [0x46, 0x42, 0x20, 0x34, 0x31, 0x3E], sdContent = None,
     sdPipeline = Some [\<lparr> flName = ''ASCIIHexDecode'', flParms = [] \<rparr>, \<lparr> flName = ''RunLengthDecode'', flParms = [] \<rparr>],
     sdComponents = 0 \<rparr>"



section \<open>Sizes from declared geometry\<close>

lemma goDiv8: "0 \<le> a \<Longrightarrow> goDiv a 8 = a div 8"
  by (simp add: goDiv_nonneg)

lemma brokenBound_None:
  "brokenBound parms bs = None \<longleftrightarrow> (\<forall>(k, lo, hi) \<in> set bs. \<forall>n. parmInt parms k = Some n \<longrightarrow> lo \<le> n \<and> n \<le> hi)"
proof (induction bs)
  case (Cons b bs)
  obtain k lo hi where b: "b = (k, lo, hi)" by (cases b)
  show ?case
  proof (cases "parmInt parms k")
    case None
    with Cons b show ?thesis by simp
  next
    case (Some n)
    with Cons b show ?thesis by auto
  qed
qed simp

text \<open>The parameters of an accepted predictor, and its exact row width.\<close>

lemma accepted_predictor:
  assumes "checkPredictorParms parms n = None"
  defines "b \<equiv> parmOr parms ''BitsPerComponent'' 8" and "c \<equiv> parmOr parms ''Colors'' 1" and "w \<equiv> parmOr parms ''Columns'' 1"
  shows "1 \<le> b \<and> b \<le> 16 \<and> 1 \<le> c \<and> c \<le> 32 \<and> 1 \<le> w \<and> w \<le> 2 ^ 20"
    and "rowSizeOf b c w = (b * c * w + 7) div 8" and "1 \<le> rowSizeOf b c w" and "2 * rowSizeOf b c w \<le> n"
proof -
  have bounds: "brokenBound parms predictorBounds = None" and two: "wrap64 (2 * rowSizeOf b c w) \<le> n"
    using assms by (auto simp: checkPredictorParms_def Let_def split: option.splits if_splits)
  show r: "1 \<le> b \<and> b \<le> 16 \<and> 1 \<le> c \<and> c \<le> 32 \<and> 1 \<le> w \<and> w \<le> 2 ^ 20"
    using bounds unfolding brokenBound_None predictorBounds_def b_def c_def w_def parmOr_def
    by (auto simp: maxPredictorColumns_def maxPredictorColors_def maxPredictorBitsPerComponent_def split: option.splits)
  have "b * c \<le> 16 * 32" using r by (intro mult_mono) auto
  moreover have pos: "1 \<le> b * c" using r by (simp add: int_one_le_iff_zero_less)
  ultimately have hi: "b * c * w \<le> 16 * 32 * 2 ^ 20" using r by (intro mult_mono) auto
  have lo: "1 \<le> b * c * w" using pos r by (simp add: int_one_le_iff_zero_less)
  have small: "wrap64 (b * c * w + 7) = b * c * w + 7" using lo hi by (intro wrap64_nonneg) (auto simp: maxInt64_def)
  show e: "rowSizeOf b c w = (b * c * w + 7) div 8" using lo by (simp add: rowSizeOf_def small goDiv8)
  show "1 \<le> rowSizeOf b c w" using lo unfolding e by simp
  have "rowSizeOf b c w \<le> 16 * 32 * 2 ^ 20" using lo hi unfolding e by simp
  then have "wrap64 (2 * rowSizeOf b c w) = 2 * rowSizeOf b c w"
    using \<open>1 \<le> rowSizeOf b c w\<close> by (intro wrap64_nonneg) (auto simp: maxInt64_def)
  with two show "2 * rowSizeOf b c w \<le> n" by simp
qed

lemma length_predictorRowBytes:
  assumes "0 < k" "m \<le> k"
  shows "length (predictorRowBytes k m xs) = m * (length xs div k)"
proof (induction xs rule: length_induct)
  case (1 xs)
  show ?case
  proof (cases "length xs < k")
    case False
    then have "length xs div k = Suc ((length xs - k) div k)" using assms by (simp add: le_div_geq)
    with False assms 1 show ?thesis by (subst predictorRowBytes.simps) simp
  qed (simp add: predictorRowBytes.simps)
qed

text \<open>The bitmap's size: in 64 bits it is what it is in the integers, and it saturates instead of wrapping.\<close>

definition idealCcitt :: "int \<Rightarrow> int \<Rightarrow> int option" where
  "idealCcitt columns rows =
     (if rows < 0 then Some (2 ^ 63 - 1) else if columns \<le> 0 \<or> rows = 0 then None
      else if columns > 2 ^ 31 \<or> rows > 2 ^ 31 then Some (2 ^ 63 - 1) else Some ((columns + 7) div 8 * rows))"

lemma ccitt_exact: "ccittDecodedSize parms h = idealCcitt (parmOr parms ''Columns'' 1728) (parmOr parms ''Rows'' h)"
proof -
  have "wrap64 (goDiv (wrap64 (c + 7)) 8 * r) = (c + 7) div 8 * r" if "0 < c" "c \<le> 2 ^ 31" "0 < r" "r \<le> 2 ^ 31" for c r :: int
  proof -
    have w: "wrap64 (c + 7) = c + 7" using that by (intro wrap64_nonneg) (auto simp: maxInt64_def)
    have "(c + 7) div 8 \<le> 2 ^ 29" using that by simp
    then have "(c + 7) div 8 * r \<le> 2 ^ 29 * 2 ^ 31" using that by (intro mult_mono) auto
    then have "wrap64 ((c + 7) div 8 * r) = (c + 7) div 8 * r"
      using that by (intro wrap64_nonneg) (auto simp: maxInt64_def)
    with w that show ?thesis by (simp add: goDiv8)
  qed
  then show ?thesis by (auto simp: ccittDecodedSize_def idealCcitt_def maxDim_def maxInt64_def Let_def)
qed

definition idealCeiling :: "int \<Rightarrow> int" where
  "idealCeiling declared = max maxImageBytes (min maxImageDecodeBytes (2 * declared + imageDecodeHeadroom))"

lemma image_products:
  assumes "0 < w" "w \<le> 2 ^ 20" "0 < h" "h \<le> 2 ^ 20" "0 < b" "b \<le> 16" "0 < c" "c \<le> (32 :: int)"
  defines "d \<equiv> (w * (b * c) + 7) div 8 * h"
  shows "wrap64 (b * c) = b * c" "wrap64 (wrap64 (w * (b * c)) + 7) = w * (b * c) + 7" "0 < w * (b * c) + 7"
    "wrap64 d = d" "wrap64 (wrap64 (d * 2) + 1048576) = d * 2 + 1048576"
proof -
  have bc: "0 < b * c" "b * c \<le> 16 * 32" using assms by (simp, intro mult_mono) auto
  have wbc: "0 < w * (b * c)" "w * (b * c) \<le> 2 ^ 20 * (16 * 32)" using assms bc by (simp, intro mult_mono) auto
  show "wrap64 (b * c) = b * c" using bc by (intro wrap64_nonneg) (auto simp: maxInt64_def)
  have "wrap64 (w * (b * c)) = w * (b * c)" using wbc by (intro wrap64_nonneg) (auto simp: maxInt64_def)
  then show "wrap64 (wrap64 (w * (b * c)) + 7) = w * (b * c) + 7" using wbc
    by (simp only:) (intro wrap64_nonneg, auto simp: maxInt64_def)
  show "0 < w * (b * c) + 7" using wbc by simp
  have "(w * (b * c) + 7) div 8 \<le> 2 ^ 27" "0 \<le> (w * (b * c) + 7) div 8" using wbc by simp_all
  then have d: "0 \<le> d" "d \<le> 2 ^ 27 * 2 ^ 20" unfolding d_def using assms by (simp, intro mult_mono) auto
  show "wrap64 d = d" using d by (intro wrap64_nonneg) (auto simp: maxInt64_def)
  have "wrap64 (d * 2) = d * 2" using d by (intro wrap64_nonneg) (auto simp: maxInt64_def)
  then show "wrap64 (wrap64 (d * 2) + 1048576) = d * 2 + 1048576" using d
    by (simp only:) (intro wrap64_nonneg, auto simp: maxInt64_def)
qed

lemma image_ceiling_exact:
  "imageDecodeCeiling w h b c = idealCeiling (estimatedDecodedBytes w h b c)"
proof (cases "0 < w \<and> w \<le> 2 ^ 20 \<and> 0 < h \<and> h \<le> 2 ^ 20 \<and> 0 < b \<and> b \<le> 16 \<and> 0 < c \<and> c \<le> 32")
  case True
  then show ?thesis using image_products [of w h b c]
    by (simp add: imageDecodeCeiling_def estimatedDecodedBytes_def idealCeiling_def maxBitsPerComponent_def maxComponents_def
        maxImageDimension_def imageDecodeHeadroom_def maxImageBytes_def maxImageDecodeBytes_def Let_def goDiv8 mult.commute [of 2])
next
  case False
  then show ?thesis
    by (auto simp: imageDecodeCeiling_def estimatedDecodedBytes_def idealCeiling_def maxBitsPerComponent_def maxComponents_def
        maxImageDimension_def imageDecodeHeadroom_def maxImageBytes_def maxImageDecodeBytes_def)
qed

lemma estimate_exact:
  assumes "0 < w" "w \<le> 2 ^ 20" "0 < h" "h \<le> 2 ^ 20" "0 < b" "b \<le> 16" "0 < c" "c \<le> 32"
  shows "estimatedDecodedBytes w h b c = (w * (b * c) + 7) div 8 * h"
  using assms image_products [of w h b c]
  by (simp add: estimatedDecodedBytes_def maxBitsPerComponent_def maxComponents_def maxImageDimension_def Let_def goDiv8)

text \<open>
  The bytes an image of a geometry decodes to, in the integers: whole bytes for every row of pixels. A
  geometry out of bounds has no size.
\<close>

definition geometryBytes :: "int \<Rightarrow> int \<Rightarrow> int \<Rightarrow> int \<Rightarrow> int" where
  "geometryBytes w ht b c =
     (if w \<in> {1..1048576} \<and> ht \<in> {1..1048576} \<and> b \<in> {1..16} \<and> c \<in> {1..32}
      then (w * b * c + 7) div 8 * ht else 0)"

lemma estimate_geometry: "estimatedDecodedBytes w ht b c = geometryBytes w ht b c"
proof (cases "w \<in> {1..1048576} \<and> ht \<in> {1..1048576} \<and> b \<in> {1..16} \<and> c \<in> {1..32}")
  case True
  then show ?thesis using estimate_exact [of w ht b c] by (simp add: geometryBytes_def mult.assoc)
next
  case False
  then show ?thesis
    by (auto simp: estimatedDecodedBytes_def geometryBytes_def maxBitsPerComponent_def maxComponents_def maxImageDimension_def)
qed

lemma ceiling_geometry:
  "imageDecodeCeiling w ht b c = max 52428800 (min 536870912 (2 * geometryBytes w ht b c + 1048576))"
  by (simp add: image_ceiling_exact idealCeiling_def estimate_geometry maxImageBytes_def maxImageDecodeBytes_def imageDecodeHeadroom_def)

text \<open>
  Claim C31. No declared geometry wraps: the size of a fax bitmap is its exact integer value or saturates; the
  size estimated for an image is its rows of whole bytes, in the integers, and its ceiling is twice that
  plus one MiB, kept between 50 and 512 MiB; and a predictor
  is accepted only with a row of at least one byte of which two fit the ceiling, so that the row reader
  makes progress and yields exactly the row width for every whole row.
\<close>

theorem decode_sizes_exact:
  "ccittDecodedSize parms h = idealCcitt (parmOr parms ''Columns'' 1728) (parmOr parms ''Rows'' h) \<and>
   estimatedDecodedBytes w ht b c = geometryBytes w ht b c \<and>
   imageDecodeCeiling w ht b c = max 52428800 (min 536870912 (2 * geometryBytes w ht b c + 1048576)) \<and>
   (checkPredictorParms parms n = None \<longrightarrow>
     (let row = (parmOr parms ''BitsPerComponent'' 8 * parmOr parms ''Colors'' 1 * parmOr parms ''Columns'' 1 + 7) div 8;
          readSize = (if predictorValue parms \<noteq> 2 then row + 1 else row)
      in 1 \<le> row \<and> 2 * row \<le> n \<and> int (length (predictorRows xs parms)) = row * (int (length xs) div readSize)))"
proof (rule conjI [OF _ conjI [OF _ conjI [OF _ impI]]])
  show "ccittDecodedSize parms h = idealCcitt (parmOr parms ''Columns'' 1728) (parmOr parms ''Rows'' h)" by (rule ccitt_exact)
  show "estimatedDecodedBytes w ht b c = geometryBytes w ht b c" by (rule estimate_geometry)
  show "imageDecodeCeiling w ht b c = max 52428800 (min 536870912 (2 * geometryBytes w ht b c + 1048576))"
    by (rule ceiling_geometry)
  assume ok: "checkPredictorParms parms n = None"
  define row where "row = rowSizeOf (parmOr parms ''BitsPerComponent'' 8) (parmOr parms ''Colors'' 1) (parmOr parms ''Columns'' 1)"
  define k where "k = (if predictorValue parms \<noteq> 2 then row + 1 else row)"
  note acc = accepted_predictor [OF ok, folded row_def]
  have "0 < nat k" "nat row \<le> nat k" using acc(3) by (auto simp: k_def)
  then have "length (predictorRows xs parms) = nat row * (length xs div nat k)"
    using acc(3) by (simp add: predictorRows_def Let_def row_def [symmetric] k_def predictorTIFF_def length_predictorRowBytes)
  then have "int (length (predictorRows xs parms)) = row * (int (length xs) div k)"
    using acc(3) by (simp add: k_def zdiv_int)
  with acc show "let row = (parmOr parms ''BitsPerComponent'' 8 * parmOr parms ''Colors'' 1 * parmOr parms ''Columns'' 1 + 7) div 8;
          readSize = (if predictorValue parms \<noteq> 2 then row + 1 else row)
      in 1 \<le> row \<and> 2 * row \<le> n \<and> int (length (predictorRows xs parms)) = row * (int (length xs) div readSize)"
    by (simp add: Let_def k_def)
qed

theorem decode_sizes_exact_witness:
  "let parms = [(''Columns'', PInt 2), (''Predictor'', PInt 12)] in
     checkPredictorParms parms 100 = None \<and> length (predictorRows [0, 1, 2, 0, 3, 4, 0] parms) = 4"
proof -
  have ok: "checkPredictorParms [(''Columns'', PInt 2), (''Predictor'', PInt 12)] 100 = None" by code_simp
  have "int (length (predictorRows [0, 1, 2, 0, 3, 4, 0] [(''Columns'', PInt 2), (''Predictor'', PInt 12)])) = 4"
    using decode_sizes_exact [THEN conjunct2, THEN conjunct2, THEN conjunct2, THEN mp, OF ok, of "[0, 1, 2, 0, 3, 4, 0]"]
    by (simp add: parmOr_def parmInt_def dictFind_def predictorValue_def)
  with ok show ?thesis by (simp add: Let_def)
qed

section \<open>The library's decoder runs only on what fits\<close>

lemma judgeCounters_None:
  "judgeCounters n cs = None \<longleftrightarrow> (\<forall>c \<in> set cs. scCount c \<le> n \<and> \<not> scSourceFaults c)"
  by (induction cs) auto

lemma judgeCounters_Ceiling:
  "judgeCounters n cs = Some e \<Longrightarrow> isUnsupported e \<Longrightarrow> \<exists>c \<in> set cs. scCount c > n"
  by (induction cs) (auto split: if_splits)

lemma badPredictor_None:
  "badPredictor n fs = None \<longleftrightarrow>
     (\<forall>f \<in> set fs. flName f = ''FlateDecode'' \<and> hasPredictor (flParms f) \<longrightarrow> checkPredictorParms (flParms f) n = None)"
  by (induction fs) (auto split: option.split)

lemma brokenBound_supported: "brokenBound parms bs = Some e \<Longrightarrow> \<not> isUnsupported e"
  by (induction bs) (auto split: option.splits if_splits)

lemma badPredictor_supported: "badPredictor n fs = Some e \<Longrightarrow> \<not> isUnsupported e"
  by (induction fs) (auto simp: checkPredictorParms_def Let_def brokenBound_supported split: if_splits option.splits)

lemma fullStages_complete:
  assumes "snd (fullStages cd h fs r) = []" "\<forall>f \<in> set fs. flName f \<noteq> []"
  shows "length (fst (fullStages cd h fs r)) = length fs"
  using assms
proof (induction fs arbitrary: r)
  case (Cons f fs)
  then have f: "flName f \<noteq> []" and g: "fs \<noteq> [] \<Longrightarrow> flName (hd fs) \<noteq> []" by auto
  obtain o1 c where fr: "filterReader cd (cdReads cd (length fs)) r f (fs = []) h = (o1, c)" by fastforce
  show ?case
  proof (cases o1)
    case None
    with f fr Cons.prems show ?thesis by simp
  next
    case (Some rd)
    show ?thesis
    proof (cases c)
      case True
      with Some fr Cons.IH [of "rdBytes rd"] Cons.prems show ?thesis by (auto split: prod.splits)
    next
      case False
      with Some fr g Cons.prems show ?thesis by (auto split: if_splits)
    qed
  qed
qed simp

text \<open>When the stages of a stream all fit, none faults, and (for a caller that insists) all were measured.\<close>

definition stagesFit :: "codecs \<Rightarrow> streamDict \<Rightarrow> int \<Rightarrow> bool" where
  "stagesFit cd sd n \<longleftrightarrow> (\<forall>c \<in> set (fst (pipelineStages cd sd)). scCount c \<le> n \<and> \<not> scSourceFaults c)"

definition predictorsFit :: "streamDict \<Rightarrow> int \<Rightarrow> bool" where
  "predictorsFit sd n \<longleftrightarrow> (\<forall>f \<in> set (runnableFilters sd). flName f = ''FlateDecode'' \<and> hasPredictor (flParms f) \<longrightarrow>
     checkPredictorParms (flParms f) n = None)"

definition runnable :: "streamDict \<Rightarrow> bool" where
  "runnable sd \<longleftrightarrow> pipelineOf sd \<noteq> [] \<and> \<not> stopsDecoding (hd (pipelineOf sd)) (sdComponents sd)"

lemma plan_runs:
  assumes n: "saneLimit n"
  shows "planDecode cd sd n refuse = RunDecoder \<longleftrightarrow>
    sdContent sd = None \<and> int (length (bytesOf (sdRaw sd))) \<le> n \<and> runnable sd \<and> predictorsFit sd n \<and> stagesFit cd sd n \<and>
    (refuse \<longrightarrow> snd (pipelineStages cd sd) = [])"
proof -
  note agree = count_agrees [OF n, of cd "heightEntry sd" "runnableFilters sd" "bytesOf (sdRaw sd)"]
  obtain m v where cs: "countStages cd sd n = (m, v)" by fastforce
  have v: "v = judgeCounters n (fst (pipelineStages cd sd))" and
    g: "v = None \<Longrightarrow> pmMeasured m \<longleftrightarrow> snd (pipelineStages cd sd) = []"
    using agree cs by (auto simp: countStages_def stageCounters_def pipelineStages_def split: prod.splits)
  have fit: "v = None \<longleftrightarrow> stagesFit cd sd n" unfolding v stagesFit_def by (rule judgeCounters_None)
  have pass: "isPassthroughStream sd \<and> runnable sd \<longleftrightarrow> False"
    by (auto simp: isPassthroughStream_def runnable_def hd_conv_nth)
  show ?thesis
    using pass g fit cs
    by (auto simp: planDecode_def predictorsFit_def badPredictor_None [symmetric] runnable_def isPassthroughStream_def
        split: option.splits if_splits)
qed

text \<open>
  Claim C32. A bounded decode never runs the library's decoder on a stream it could blow up on: when it runs, the
  encoded bytes, every row buffer the predictor parameters ask for and the whole output of every measured
  stage are within the ceiling, no stage faults, the first filter is one that runs, and for a caller that
  refuses unmeasured pipelines every runnable filter was measured. What is returned is within the ceiling,
  and a stream is refused for its size only when something of it is over.
\<close>

theorem decode_within_ceiling:
  assumes n: "saneLimit n"
  shows "(planDecode cd sd n refuse = RunDecoder \<longrightarrow>
      int (length (bytesOf (sdRaw sd))) \<le> n \<and> runnable sd \<and> predictorsFit sd n \<and> stagesFit cd sd n \<and>
      (refuse \<and> [] \<notin> flName ` set (runnableFilters sd) \<longrightarrow>
         length (fst (pipelineStages cd sd)) = length (runnableFilters sd))) \<and>
    (fst (decodeBounded cd sd n refuse) = Inr out \<longrightarrow> int (length (bytesOf out)) \<le> n) \<and>
    (fst (decodeBounded cd sd n refuse) = Inl e \<longrightarrow> isUnsupported e \<longrightarrow>
      int (length (bytesOf (sdContent sd))) > n \<or> int (length (bytesOf (sdRaw sd))) > n \<or>
      (\<exists>c \<in> set (fst (pipelineStages cd sd)). scCount c > n) \<or>
      (\<exists>content. cdDecode cd sd = Inr content \<and> int (length (bytesOf content)) > n))"
proof (rule conjI [OF impI conjI [OF impI impI [OF impI]]])
  assume "planDecode cd sd n refuse = RunDecoder"
  then have p: "int (length (bytesOf (sdRaw sd))) \<le> n \<and> runnable sd \<and> predictorsFit sd n \<and> stagesFit cd sd n"
    "refuse \<Longrightarrow> snd (pipelineStages cd sd) = []" by (simp_all add: plan_runs [OF n])
  have "length (fst (pipelineStages cd sd)) = length (runnableFilters sd)"
    if "refuse" "[] \<notin> flName ` set (runnableFilters sd)"
    using p(2) [OF that(1)] that(2) unfolding pipelineStages_def by (intro fullStages_complete) (auto simp: image_iff)
  with p(1) show "int (length (bytesOf (sdRaw sd))) \<le> n \<and> runnable sd \<and> predictorsFit sd n \<and> stagesFit cd sd n \<and>
      (refuse \<and> [] \<notin> flName ` set (runnableFilters sd) \<longrightarrow>
         length (fst (pipelineStages cd sd)) = length (runnableFilters sd))" by blast
next
  assume "fst (decodeBounded cd sd n refuse) = Inr out"
  then show "int (length (bytesOf out)) \<le> n" using n
    by (auto simp: decodeBounded_def planDecode_def bytesOf_def saneLimit_def
        split: decodePlan.splits sum.splits option.splits if_splits prod.splits)
next
  assume e: "fst (decodeBounded cd sd n refuse) = Inl e" "isUnsupported e"
  have over: "\<exists>c \<in> set (fst (pipelineStages cd sd)). scCount c > n"
    if "countStages cd sd n = (m, Some e)" for m
    using count_agrees [OF n, of cd "heightEntry sd" "runnableFilters sd" "bytesOf (sdRaw sd)"] that e(2)
    by (intro judgeCounters_Ceiling [of n _ e]) (auto simp: countStages_def stageCounters_def pipelineStages_def split: prod.splits)
  show "int (length (bytesOf (sdContent sd))) > n \<or> int (length (bytesOf (sdRaw sd))) > n \<or>
      (\<exists>c \<in> set (fst (pipelineStages cd sd)). scCount c > n) \<or>
      (\<exists>content. cdDecode cd sd = Inr content \<and> int (length (bytesOf content)) > n)"
    using e over badPredictor_supported
    by (fastforce simp: decodeBounded_def planDecode_def bytesOf_def
        split: decodePlan.splits sum.splits option.splits if_splits prod.splits)
qed

theorem decode_within_ceiling_witness:
  "saneLimit 10 \<and> planDecode exampleCodecs exampleStream 10 True = RunDecoder \<and>
   int (length (bytesOf (sdRaw exampleStream))) \<le> 10 \<and> stagesFit exampleCodecs exampleStream 10 \<and>
   fst (decodeBounded exampleCodecs exampleStream 5 True) = Inl (RawCeiling 5)"
proof -
  have n: "saneLimit 10" by (simp add: saneLimit_def maxInt64_def)
  have p: "planDecode exampleCodecs exampleStream 10 True = RunDecoder" by code_simp
  have r: "fst (decodeBounded exampleCodecs exampleStream 5 True) = Inl (RawCeiling 5)" by code_simp
  from n p r decode_within_ceiling [OF n, THEN conjunct1, THEN mp, OF p] show ?thesis by blast
qed

end
