(* ===== verification/EmbeddedSpec.thy ===== *)
theory EmbeddedSpec
  imports Embedded DecodeSpec
begin

text \<open>
  What the list of embedded files holds, against the file specifications a document refers to, and the bound on
  the bytes of one.
\<close>

section \<open>The list of embedded files\<close>

text \<open>
  The file specifications a document holds, in the order they are met: what an element of \<open>/AF\<close> or of a leaf
  comes to, and the values below a node of the name tree down to the nesting limit.
\<close>

definition specItem :: "pdfDoc \<Rightarrow> pdfObj \<Rightarrow> (pdfObj \<times> string) list" where
  "specItem doc elem =
     (case elem of
        PRef n g \<Rightarrow> (let w = safeDeref doc elem in if w = PNull then [] else [(w, refString n g)])
      | _ \<Rightarrow> if asDict elem \<noteq> None then [(elem, [])] else [])"

definition quietArray :: "pdfDoc \<Rightarrow> pdfDict \<Rightarrow> string \<Rightarrow> pdfObj list" where
  "quietArray doc d key =
     (case dictFind d key of None \<Rightarrow> [] | Some v \<Rightarrow> (case asArray (safeDeref doc v) of Some xs \<Rightarrow> xs | None \<Rightarrow> []))"

function treeItems :: "pdfDoc \<Rightarrow> pdfObj \<Rightarrow> nat \<Rightarrow> (pdfObj \<times> string) list" where
  "treeItems doc node depth =
     (if depth > maxNodeIDDepth then []
      else (case asDict (safeDeref doc node) of
              None \<Rightarrow> []
            | Some d \<Rightarrow>
                concat (map (specItem doc) (oddElements (quietArray doc d ''Names''))) @
                concat (map (\<lambda>kid. treeItems doc kid (depth + 1)) (quietArray doc d ''Kids''))))"
  by pat_completeness auto
termination treeItems
  by (relation "measure (\<lambda>(_, _, depth). Suc maxNodeIDDepth - depth)") auto

declare treeItems.simps [simp del]

definition namesRoot :: "pdfDoc \<Rightarrow> pdfDict \<Rightarrow> pdfObj option" where
  "namesRoot doc cat =
     (case dictFind cat ''Names'' of
        None \<Rightarrow> None
      | Some v \<Rightarrow> (case asDict (safeDeref doc v) of None \<Rightarrow> None | Some names \<Rightarrow> dictFind names ''EmbeddedFiles''))"

definition filespecs :: "pdfDoc \<Rightarrow> pdfDict \<Rightarrow> (pdfObj \<times> string) list" where
  "filespecs doc cat = concat (map (specItem doc) (quietArray doc cat ''AF'')) @
     (case namesRoot doc cat of None \<Rightarrow> [] | Some node \<Rightarrow> treeItems doc node 0)"

text \<open>The entry of a specification: what \<open>embeddedFileFromFilespec\<close> makes of it.\<close>

definition fileOf :: "embeddedLib \<Rightarrow> pdfDoc \<Rightarrow> pdfObj \<times> string \<Rightarrow> embeddedFile" where
  "fileOf lib doc item =
     (case asDict (fst item) of
        None \<Rightarrow> emptyFile (snd item)
      | Some d \<Rightarrow> (case embeddedFileFromFilespec lib doc d (snd item) of Inr f \<Rightarrow> f | Inl p \<Rightarrow> emptyFile (snd item)))"

text \<open>The dictionaries of the list, each reference once, the first time it is met.\<close>

fun firstOfEach :: "string list \<Rightarrow> (pdfObj \<times> string) list \<Rightarrow> (pdfObj \<times> string) list" where
  "firstOfEach seen [] = []"
| "firstOfEach seen (it # its) =
     (if snd it \<noteq> [] \<and> snd it \<in> set seen then firstOfEach seen its
      else (if asDict (fst it) = None then [] else [it]) @ firstOfEach (if snd it \<noteq> [] then snd it # seen else seen) its)"

lemma quiet_dict: "quietDoc doc \<Longrightarrow> derefDict doc v = Inr (asDict (safeDeref doc v))"
  by (simp add: derefDict_def quiet_derefIn)

lemma quiet_array: "quietDoc doc \<Longrightarrow> entryArray doc d key = Inr (quietArray doc d key)"
  by (simp add: entryArray_def quietArray_def dereferenceArray_def quiet_derefIn split: option.split)

lemma visit_items: "quietDoc doc \<Longrightarrow> visitFilespec doc visit e s = foldSum (\<lambda>it. visit (fst it) (snd it)) (specItem doc e) s"
  by (cases e) (auto simp: visitFilespec_def specItem_def quiet_derefIn Let_def split: sum.split)

lemma fold_items:
  "quietDoc doc \<Longrightarrow> foldSum (visitFilespec doc visit) es s =
     foldSum (\<lambda>it. visit (fst it) (snd it)) (concat (map (specItem doc) es)) s"
  by (induction es arbitrary: s) (auto simp: visit_items foldSum_append split: sum.split)

lemma fold_concat: "foldSum f (concat (map g xs)) s = foldSum (\<lambda>x u. foldSum f (g x) u) xs s"
  by (induction xs arbitrary: s) (auto simp: foldSum_append split: sum.split)

lemma walk_items:
  assumes "quietDoc doc"
  shows "walkNameTree doc node depth visit s = foldSum (\<lambda>it. visit (fst it) (snd it)) (treeItems doc node depth) s"
  using assms
proof (induction doc node depth arbitrary: s rule: treeItems.induct)
  case (1 doc node depth)
  note q = \<open>quietDoc doc\<close>
  show ?case
  proof (cases "depth > maxNodeIDDepth")
    case False
    show ?thesis
    proof (cases "asDict (safeDeref doc node)")
      case (Some d)
      have kids: "foldSum (\<lambda>kid u. walkNameTree doc kid (depth + 1) visit u) (quietArray doc d ''Kids'') t =
          foldSum (\<lambda>kid u. foldSum (\<lambda>it. visit (fst it) (snd it)) (treeItems doc kid (depth + 1)) u) (quietArray doc d ''Kids'') t" for t
        by (rule foldSum_cong) (use 1 False Some in auto)
      with False Some q show ?thesis
        by (subst walkNameTree.simps, subst treeItems.simps)
          (auto simp: quiet_dict quiet_array fold_items foldSum_append fold_concat split: sum.split)
    qed (use False q in \<open>simp add: walkNameTree.simps treeItems.simps quiet_dict\<close>)
  qed (simp add: walkNameTree.simps treeItems.simps)
qed

text \<open>Building an entry reads the document and nothing else can fail.\<close>

lemma fileOf_quiet:
  assumes "quietDoc doc" "asDict v = Some d"
  shows "embeddedFileFromFilespec lib doc d r = Inr (fileOf lib doc (v, r))"
proof -
  have "\<exists>f. embeddedFileFromFilespec lib doc d r = Inr f"
    using assms(1) by (auto simp: embeddedFileFromFilespec_def embeddedFileStreamRef_def withParams_def quiet_dict quiet_derefIn Let_def
        split: option.splits pdfObj.splits streamKind.splits)
  with assms(2) show ?thesis by (auto simp: fileOf_def)
qed

lemma add_items:
  assumes "quietDoc doc"
  shows "\<exists>c'. foldSum (\<lambda>it. addFile lib doc (fst it) (snd it)) its c = Inr c' \<and>
    clFiles c' = clFiles c @ map (fileOf lib doc) (firstOfEach (clSeen c) its)"
proof (induction its arbitrary: c)
  case (Cons it its)
  obtain v r where it: "it = (v, r)" by (cases it)
  define c1 where "c1 = (if r \<noteq> [] then c\<lparr>clSeen := r # clSeen c\<rparr> else c)"
  show ?case
  proof (cases "r \<noteq> [] \<and> r \<in> set (clSeen c)")
    case True
    with Cons it show ?thesis by (auto simp: addFile_def)
  next
    case False
    show ?thesis
    proof (cases "asDict v")
      case None
      with False Cons [of c1] it show ?thesis by (auto simp: addFile_def c1_def Let_def)
    next
      case (Some d)
      with False Cons [of "c1\<lparr>clFiles := clFiles c1 @ [fileOf lib doc (v, r)]\<rparr>"] it show ?thesis
        using fileOf_quiet [OF assms Some] by (auto simp: addFile_def c1_def Let_def)
    qed
  qed
qed simp

text \<open>A reference stands for one object, so dropping its repetitions loses no specification.\<close>

definition itemGood :: "pdfDoc \<Rightarrow> pdfObj \<times> string \<Rightarrow> bool" where
  "itemGood doc it \<longleftrightarrow> snd it = [] \<or> (\<exists>n g. snd it = refString n g \<and> fst it = safeDeref doc (PRef n g))"

lemma specItem_good: "it \<in> set (specItem doc e) \<Longrightarrow> itemGood doc it"
  by (cases e) (auto simp: specItem_def itemGood_def Let_def split: if_splits)

lemma treeItems_good: "it \<in> set (treeItems doc node depth) \<Longrightarrow> itemGood doc it"
proof (induction doc node depth rule: treeItems.induct)
  case (1 doc node depth)
  have lim: "\<not> depth > maxNodeIDDepth"
    by (rule notI) (use 1(2) in \<open>simp add: treeItems.simps\<close>)
  have "asDict (safeDeref doc node) \<noteq> None"
    by (rule notI) (use lim 1(2) in \<open>simp add: treeItems.simps\<close>)
  with lim obtain d where d: "\<not> depth > maxNodeIDDepth" "asDict (safeDeref doc node) = Some d" by blast
  with 1(2) have "(\<exists>e. it \<in> set (specItem doc e)) \<or>
      (\<exists>kid \<in> set (quietArray doc d ''Kids''). it \<in> set (treeItems doc kid (depth + 1)))"
    by (subst (asm) treeItems.simps) auto
  then show ?case using specItem_good 1(1) [OF d] by blast
qed

lemma filespecs_good: "it \<in> set (filespecs doc cat) \<Longrightarrow> itemGood doc it"
  by (auto simp: filespecs_def dest: specItem_good treeItems_good split: option.splits)

lemma firstOfEach_sub: "set (firstOfEach seen its) \<subseteq> set its"
proof (induction its arbitrary: seen)
  case (Cons it its)
  then show ?case by (auto simp: subset_iff)
qed simp

lemma firstOfEach_unseen: "it \<in> set (firstOfEach seen its) \<Longrightarrow> snd it \<noteq> [] \<Longrightarrow> snd it \<notin> set seen"
  by (induction its arbitrary: seen) (auto split: if_splits, fastforce+)

lemma firstOfEach_distinct: "distinct (filter (\<lambda>r. r \<noteq> []) (map snd (firstOfEach seen its)))"
proof (induction its arbitrary: seen)
  case (Cons it its)
  show ?case using Cons firstOfEach_unseen [of _ "snd it # seen" its] by (auto split: if_splits) fastforce+
qed simp

lemma firstOfEach_covers:
  assumes "it \<in> set its" "asDict (fst it) \<noteq> None" "snd it = [] \<or> snd it \<notin> set seen"
    "\<forall>a \<in> set its. \<forall>b \<in> set its. snd a \<noteq> [] \<and> snd a = snd b \<longrightarrow> a = b"
  shows "it \<in> set (firstOfEach seen its)"
  using assms
proof (induction its arbitrary: seen)
  case (Cons a its)
  show ?case
  proof (cases "it = a")
    case True
    with Cons.prems show ?thesis by auto
  next
    case False
    then have in_tl: "it \<in> set its" and ne: "snd it = [] \<or> snd it \<noteq> snd a" using Cons.prems by auto
    have rest: "\<forall>x \<in> set its. \<forall>y \<in> set its. snd x \<noteq> [] \<and> snd x = snd y \<longrightarrow> x = y" using Cons.prems(4) by auto
    have "it \<in> set (firstOfEach s its)" if "snd it = [] \<or> snd it \<notin> set s" for s
      by (rule Cons.IH [OF in_tl Cons.prems(2) that rest])
    with Cons.prems(3) ne show ?thesis by auto
  qed
qed simp

lemma fileOf_ref [simp]: "efFilespecRef (fileOf lib doc it) = snd it"
  by (auto simp: fileOf_def emptyFile_def embeddedFileFromFilespec_def withParams_def withLength_def Let_def
      split: option.splits sum.splits pdfObj.splits streamKind.splits)

lemma embedded_list:
  assumes q: "quietDoc doc" and cat: "docCatalog doc = DObj (PDict cat)"
  shows "GetEmbeddedFiles lib doc = Inr (map (fileOf lib doc) (firstOfEach [] (filespecs doc cat)))"
proof -
  let ?af = "concat (map (specItem doc) (quietArray doc cat ''AF''))"
  let ?c0 = "\<lparr> clFiles = [], clSeen = [] \<rparr>"
  let ?add = "\<lambda>it. addFile lib doc (fst it) (snd it)"
  have root: "embeddedNamesRoot doc cat = Inr (namesRoot doc cat)"
    by (simp add: embeddedNamesRoot_def namesRoot_def quiet_dict [OF q] split: option.split)
  obtain c' where c': "foldSum ?add (filespecs doc cat) ?c0 = Inr c'"
    "clFiles c' = map (fileOf lib doc) (firstOfEach [] (filespecs doc cat))"
    using add_items [OF q, of lib "filespecs doc cat" ?c0] by auto
  obtain c where c: "foldSum ?add ?af ?c0 = Inr c" using add_items [OF q, of lib ?af ?c0] by auto
  have "collectEmbeddedFiles lib doc = Inr (clFiles c')"
    using c' c unfolding filespecs_def foldSum_append
    by (auto simp: collectEmbeddedFiles_def cat quiet_array [OF q] fold_items [OF q] root walk_items [OF q] split: option.splits)
  then show ?thesis by (simp add: GetEmbeddedFiles_def c')
qed

text \<open>
  Claim C33. The list of embedded files is exact: reading the catalog's \<open>/AF\<close> array and then the name tree,
  every file specification that is a dictionary is listed with the entry made of it alone, in the order
  it is met; a specification met again by its reference is listed once, a direct one every time. The name tree is
  read down to the code's limit of 64 levels, in a document no read of which panics.
\<close>

theorem embedded_files_exact:
  assumes q: "quietDoc doc" and cat: "docCatalog doc = DObj (PDict cat)"
  shows "\<exists>files. GetEmbeddedFiles lib doc = Inr files \<and>
    files = map (fileOf lib doc) (firstOfEach [] (filespecs doc cat)) \<and>
    distinct (filter (\<lambda>r. r \<noteq> []) (map efFilespecRef files)) \<and>
    set files = fileOf lib doc ` {it \<in> set (filespecs doc cat). asDict (fst it) \<noteq> None}"
proof -
  note get = embedded_list [OF q cat, of lib]
  have "it \<in> set (firstOfEach [] (filespecs doc cat))" if "it \<in> set (filespecs doc cat)" "asDict (fst it) \<noteq> None" for it
  proof (rule firstOfEach_covers [OF that])
    have "a = b" if "a \<in> set (filespecs doc cat)" "b \<in> set (filespecs doc cat)" "snd a \<noteq> []" "snd a = snd b" for a b
      using filespecs_good [OF that(1)] filespecs_good [OF that(2)] that(3,4) by (cases a, cases b) (auto simp: itemGood_def)
    then show "\<forall>a \<in> set (filespecs doc cat). \<forall>b \<in> set (filespecs doc cat). snd a \<noteq> [] \<and> snd a = snd b \<longrightarrow> a = b"
      by blast
  qed simp
  moreover have "asDict (fst it) \<noteq> None" if "it \<in> set (firstOfEach seen its)" for it seen its
    using that by (induction its arbitrary: seen) (auto split: if_splits)
  ultimately have "set (firstOfEach [] (filespecs doc cat)) = {it \<in> set (filespecs doc cat). asDict (fst it) \<noteq> None}"
    using firstOfEach_sub [of "[]" "filespecs doc cat"] by auto
  with get firstOfEach_distinct [of "[]" "filespecs doc cat"] show ?thesis by (auto simp: comp_def)
qed

definition exampleAttachment :: pdfDict where
  "exampleAttachment = [(''F'', PString ''a.xml''), (''EF'', PDict [(''F'', PRef 8 0)])]"

definition exampleAttachments :: pdfDoc where
  "exampleAttachments = \<lparr> xrefNums = [7, 8],
     xrefLookup = (\<lambda>n g. if n = 7 then DObj (PDict exampleAttachment) else if n = 8 then DObj (PStream PlainStream [(''Length'', PInt 3)]) else DObj PNull),
     docRoot = None, docCatalog = DObj (PDict [(''AF'', PArray [PRef 7 0, PRef 7 0]),
       (''Names'', PDict [(''EmbeddedFiles'', PDict [(''Names'', PArray [PString ''a'', PRef 7 0])])])]) \<rparr>"

definition exampleCatalog :: pdfDict where
  "exampleCatalog = [(''AF'', PArray [PRef 7 0, PRef 7 0]),
     (''Names'', PDict [(''EmbeddedFiles'', PDict [(''Names'', PArray [PString ''a'', PRef 7 0])])])]"

definition exampleEmbeddedLib :: embeddedLib where
  "exampleEmbeddedLib = \<lparr> elText = \<lparr> libText = (\<lambda>v. None), libUnescape = (\<lambda>s. None), libHexBytes = (\<lambda>s. None), libFloat = (\<lambda>r. []) \<rparr>,
     elStreamLength = (\<lambda>v. None), elDecodeName = Some \<rparr>"

theorem embedded_files_exact_witness:
  "\<exists>f. GetEmbeddedFiles exampleEmbeddedLib exampleAttachments = Inr [f] \<and> efFilespecRef f = ''7 0 R''"
proof -
  have q: "quietDoc exampleAttachments" by (simp add: quietDoc_def lookupRef_def exampleAttachments_def)
  have cat: "docCatalog exampleAttachments = DObj (PDict exampleCatalog)"
    by (simp add: exampleAttachments_def exampleCatalog_def)
  have items: "firstOfEach [] (filespecs exampleAttachments exampleCatalog) = [(PDict exampleAttachment, ''7 0 R'')]" by code_simp
  from embedded_files_exact [OF q cat, of exampleEmbeddedLib] show ?thesis unfolding items by auto
qed

section \<open>The cost of a cyclic tree\<close>

text \<open>A node of the name tree that holds one direct file specification and is twice its own kid.\<close>

definition loopNode :: pdfDict where
  "loopNode = [(''Names'', PArray [PString ''a'', PDict []]), (''Kids'', PArray [PRef 1 0, PRef 1 0])]"

definition loopTree :: pdfDoc where
  "loopTree = \<lparr> xrefNums = [1], xrefLookup = (\<lambda>n g. DObj (PDict loopNode)), docRoot = None,
     docCatalog = DObj (PDict [(''Names'', PDict [(''EmbeddedFiles'', PRef 1 0)])]) \<rparr>"

lemma loop_reads:
  "quietDoc loopTree" "asDict (safeDeref loopTree (PRef 1 0)) = Some loopNode"
  "quietArray loopTree loopNode ''Names'' = [PString ''a'', PDict []]"
  "quietArray loopTree loopNode ''Kids'' = [PRef 1 0, PRef 1 0]"
  by (simp_all add: quietDoc_def safeDeref_def lookupRef_def quietArray_def loopTree_def loopNode_def dictFind_def)

lemma loop_items:
  "length (treeItems loopTree (PRef 1 0) depth) = 2 ^ (Suc maxNodeIDDepth - depth) - 1 \<and>
   set (treeItems loopTree (PRef 1 0) depth) \<subseteq> {(PDict [], [])}"
proof (induction "Suc maxNodeIDDepth - depth" arbitrary: depth)
  case 0
  then show ?case by (simp add: treeItems.simps)
next
  case (Suc n)
  then have n: "n = Suc maxNodeIDDepth - (depth + 1)" "\<not> depth > maxNodeIDDepth" by auto
  from Suc(1) [OF n(1)] n have
    "length (treeItems loopTree (PRef 1 0) (depth + 1)) = 2 ^ n - 1"
    "set (treeItems loopTree (PRef 1 0) (depth + 1)) \<subseteq> {(PDict [], [])}" by auto
  moreover have "treeItems loopTree (PRef 1 0) depth =
      (PDict [], []) # treeItems loopTree (PRef 1 0) (depth + 1) @ treeItems loopTree (PRef 1 0) (depth + 1)"
    using n(2) by (subst treeItems.simps) (simp add: loop_reads specItem_def)
  moreover obtain m where "(2::nat) ^ n = Suc m" using not0_implies_Suc [of "2 ^ n"] by auto
  ultimately show ?case unfolding Suc(2) [symmetric] by simp
qed

lemma firstOfEach_direct: "set its \<subseteq> {(PDict d, [])} \<Longrightarrow> firstOfEach seen its = its"
  by (induction its arbitrary: seen) auto

text \<open>
  Claim C39. The nesting limit bounds the depth of the walk and not its work: on a name tree of one node that is twice
  its own kid, the list has \<open>2 ^ 65 - 1\<close> entries, one for each path of at most 64 steps. Nothing remembers that
  the node was visited.
\<close>

theorem cyclic_name_tree_explodes:
  "\<exists>files. GetEmbeddedFiles lib loopTree = Inr files \<and> length files = 2 ^ 65 - 1"
proof -
  let ?cat = "[(''Names'', PDict [(''EmbeddedFiles'', PRef 1 0)])]"
  have "filespecs loopTree ?cat = treeItems loopTree (PRef 1 0) 0"
    by (simp add: filespecs_def namesRoot_def quietArray_def dictFind_def safeDeref_def)
  moreover have "length (treeItems loopTree (PRef 1 0) 0) = 2 ^ 65 - 1"
    using loop_items [of 0] by (simp add: maxNodeIDDepth_def)
  moreover have "firstOfEach [] (treeItems loopTree (PRef 1 0) 0) = treeItems loopTree (PRef 1 0) 0"
    by (rule firstOfEach_direct) (use loop_items in blast)
  ultimately have "length (firstOfEach [] (filespecs loopTree ?cat)) = 2 ^ 65 - 1" by simp
  moreover have "docCatalog loopTree = DObj (PDict ?cat)" by (simp add: loopTree_def)
  ultimately show ?thesis using embedded_list [OF loop_reads(1), of ?cat lib] by simp
qed

section \<open>The bytes of one file\<close>

text \<open>What is extracted never exceeds the ceiling, whichever way it was produced.\<close>

lemma embedded_bytes_bounded: "GetEmbeddedFileBytes cd held doc nodeID = Inr out \<Longrightarrow> int (length out) \<le> maxImageBytes"
  by (auto simp: GetEmbeddedFileBytes_def Let_def
      split: if_splits nodeAnswer.splits pdfObj.splits streamKind.splits sum.splits option.splits)

end
