(* ===== verification/ObjectSource.thy ===== *)
theory ObjectSource
  imports ObjectDetail
begin

text \<open>
  The source view of an object (\<^verbatim>\<open>internal/pdfcore/objectsource.go\<close>): PDF syntax written back from the parsed
  value into a buffer with a byte cap. Past the cap no content is written, and a writer that sees that happen
  takes the entry it was writing back out, so the text ends between two entries.
\<close>

definition objectSourceByteCap :: nat where "objectSourceByteCap = 256 * 1024"
definition shortArrayElemThreshold :: nat where "shortArrayElemThreshold = 4"

section \<open>The writer\<close>

record sourceWriter =
  swBuf :: string
  swCap :: nat
  swTruncated :: bool

definition writeString :: "string \<Rightarrow> sourceWriter \<Rightarrow> sourceWriter" where
  "writeString s w =
     (if swTruncated w then w
      else if length (swBuf w) + length s > swCap w then w\<lparr>swTruncated := True\<rparr>
      else w\<lparr>swBuf := swBuf w @ s\<rparr>)"

definition writeAlways :: "string \<Rightarrow> sourceWriter \<Rightarrow> sourceWriter" where
  "writeAlways s w = w\<lparr>swBuf := swBuf w @ s\<rparr>"

definition snapshot :: "sourceWriter \<Rightarrow> nat" where
  "snapshot w = length (swBuf w)"

definition rollback :: "nat \<Rightarrow> sourceWriter \<Rightarrow> sourceWriter" where
  "rollback mark w = w\<lparr>swBuf := take mark (swBuf w)\<rparr>"

definition indentBy :: "nat \<Rightarrow> string" where
  "indentBy depth = concat (replicate depth ''    '')"

section \<open>Values\<close>

fun writeScalar :: "textLib \<Rightarrow> pdfObj \<Rightarrow> sourceWriter \<Rightarrow> sourceWriter" where
  "writeScalar lib (PName n) w = writeString n (writeString ''/'' w)"
| "writeScalar lib (PString s) w = writeString '')'' (writeString s (writeString ''('' w))"
| "writeScalar lib (PHex s) w = writeString ''>'' (writeString s (writeString ''<'' w))"
| "writeScalar lib (PInt i) w = writeString (showInt i) w"
| "writeScalar lib (PReal r) w = writeString (libFloat lib r) w"
| "writeScalar lib (PBool b) w = writeString (if b then ''true'' else ''false'') w"
| "writeScalar lib PNull w = writeString ''null'' w"
| "writeScalar lib _ w = writeString ''Unknown'' w"

definition isShortSimpleArray :: "pdfObj list \<Rightarrow> bool" where
  "isShortSimpleArray arr \<longleftrightarrow> length arr \<le> shortArrayElemThreshold \<and> \<not> (\<exists>e \<in> set arr. isContainer e)"

text \<open>
  The two loops over entries. The long form stops before an entry when the writer is already cut, and takes
  an entry that got cut back out; it answers how many were written and whether it stopped. The short form
  only takes the cut element out.
\<close>

fun writeEntries :: "('x \<Rightarrow> sourceWriter \<Rightarrow> sourceWriter) \<Rightarrow> 'x list \<Rightarrow> nat \<Rightarrow> sourceWriter \<Rightarrow> sourceWriter \<times> nat \<times> bool" where
  "writeEntries entry [] emitted w = (w, emitted, False)"
| "writeEntries entry (x # xs) emitted w =
     (if swTruncated w then (w, emitted, True)
      else let w1 = entry x w in
           if swTruncated w1 then (rollback (snapshot w) w1, emitted, True)
           else writeEntries entry xs (emitted + 1) w1)"

fun writeShort :: "('x \<Rightarrow> sourceWriter \<Rightarrow> sourceWriter) \<Rightarrow> 'x list \<Rightarrow> sourceWriter \<Rightarrow> sourceWriter" where
  "writeShort elem [] w = w"
| "writeShort elem (x # xs) w =
     (let w1 = elem x w in if swTruncated w1 then rollback (snapshot w) w1 else writeShort elem xs w1)"

lemma writeEntries_cong [fundef_cong]:
  assumes "xs = ys" "i = j" "w = v" "\<And>x u. x \<in> set ys \<Longrightarrow> f x u = g x u"
  shows "writeEntries f xs i w = writeEntries g ys j v"
  unfolding assms(1-3) using assms(4) by (induction ys arbitrary: j v) (auto simp: Let_def)

lemma writeShort_cong [fundef_cong]:
  assumes "xs = ys" "w = v" "\<And>x u. x \<in> set ys \<Longrightarrow> f x u = g x u"
  shows "writeShort f xs w = writeShort g ys v"
  unfolding assms(1,2) using assms(3) by (induction ys arbitrary: v) (auto simp: Let_def)

definition truncationMark :: "string \<Rightarrow> nat \<Rightarrow> string" where
  "truncationMark inner n = inner @ ''... [truncated, '' @ showNat n @ '' more entries]'' @ [CHR 0x0A]"

text \<open>The end of a long form: the mark when entries are missing, the indent and the bracket.\<close>

definition endEntries :: "string \<Rightarrow> nat \<Rightarrow> nat \<Rightarrow> sourceWriter \<times> nat \<times> bool \<Rightarrow> sourceWriter" where
  "endEntries bracket depth n r =
     (case r of (w, emitted, truncatedAt) \<Rightarrow>
        writeAlways bracket (writeAlways (indentBy depth)
          (if truncatedAt then writeAlways (truncationMark (indentBy (depth + 1)) (n - emitted)) w else w)))"

lemma dict_entry_size:
  assumes "asDict v = Some d" "k \<in> set (dictKeys d)"
  shows "size (dictGet d k) < size v"
  using dict_size [OF dictGet_mem [OF assms(2)], of 0] assms(1) by (auto simp: asDict_Some)

text \<open>\<^verbatim>\<open>writeValue\<close> with \<^verbatim>\<open>writeDict\<close> and \<^verbatim>\<open>writeArray\<close>, which call it back, as its branches.\<close>

function writeValue :: "textLib \<Rightarrow> pdfObj \<Rightarrow> nat \<Rightarrow> sourceWriter \<Rightarrow> sourceWriter" where
  "writeValue lib v depth w =
     (case asDict v of
        Some d \<Rightarrow>
          endEntries ''>>'' depth (dictLen d)
            (writeEntries (\<lambda>k u. writeString [CHR 0x0A] (writeValue lib (dictGet d k) (depth + 1)
                (writeString '' '' (writeString k (writeString ''/'' (writeString (indentBy (depth + 1)) u))))))
              (dictKeys d) 0 (writeAlways (''<<'' @ [CHR 0x0A]) w))
      | None \<Rightarrow>
          (case v of
             PArray arr \<Rightarrow>
               if isShortSimpleArray arr then
                 writeAlways '' ]'' (writeShort (\<lambda>e u. writeValue lib e depth (writeString '' '' u)) arr (writeAlways ''['' w))
               else
                 endEntries '']'' depth (length arr)
                   (writeEntries (\<lambda>e u. writeString [CHR 0x0A] (writeValue lib e (depth + 1) (writeString (indentBy (depth + 1)) u)))
                     arr 0 (writeAlways (''['' @ [CHR 0x0A]) w))
           | PRef n g \<Rightarrow> writeString (refString n g) w
           | _ \<Rightarrow> writeScalar lib v w))"
  by pat_completeness auto
termination writeValue
  by (relation "measure (\<lambda>(_, v, _, _). size v)")
    (simp_all add: dict_entry_size less_Suc_eq_le size_list_estimation' del: set_dictKeys)

declare writeValue.simps [simp del]

definition writeDict :: "textLib \<Rightarrow> pdfDict \<Rightarrow> nat \<Rightarrow> sourceWriter \<Rightarrow> sourceWriter" where
  "writeDict lib d depth w = writeValue lib (PDict d) depth w"

section \<open>Thousands separators\<close>

fun groupsOfThree :: "string \<Rightarrow> string" where
  "groupsOfThree (a # b # c # d # r) = [a, b, c, CHR '',''] @ groupsOfThree (d # r)"
| "groupsOfThree r = r"

definition formatIntWithCommas :: "int \<Rightarrow> string" where
  "formatIntWithCommas n =
     (let s = showInt n; negative = hasPrefix s ''-''; digits = (if negative then tl s else s) in
      if length digits \<le> 3 then s
      else let first = length digits mod 3 in
           (if negative then ''-'' else []) @
           (if first > 0 then take first digits @ '','' else []) @ groupsOfThree (List.drop first digits))"

section \<open>The call\<close>

definition streamLengthForSource :: "streamFacts \<Rightarrow> pdfObj \<Rightarrow> pdfDict \<Rightarrow> int" where
  "streamLengthForSource facts v d =
     (case fst (facts v) of Some n \<Rightarrow> n | None \<Rightarrow> (case dictFind d ''Length'' of Some (PInt n) \<Rightarrow> n | _ \<Rightarrow> 0))"

text \<open>The zero-width space, in UTF-8, and an exclamation mark.\<close>

definition streamPlaceholderMarker :: string where
  "streamPlaceholderMarker = [CHR 0xE2, CHR 0x80, CHR 0x8B, CHR ''!'']"

definition streamPlaceholder :: "int \<Rightarrow> string" where
  "streamPlaceholder len = ''['' @ formatIntWithCommas len @ '' bytes -- see Content Stream tab for decoded view]'' @ [CHR 0x0A]"

definition writeStreamObject :: "textLib \<Rightarrow> pdfDict \<Rightarrow> int \<Rightarrow> sourceWriter \<Rightarrow> sourceWriter" where
  "writeStreamObject lib d len w =
     writeAlways ''endstream'' (writeAlways (streamPlaceholder len)
       (writeAlways streamPlaceholderMarker (writeAlways ([CHR 0x0A] @ ''stream'' @ [CHR 0x0A]) (writeDict lib d 0 w))))"

definition writeTop :: "textLib \<Rightarrow> streamFacts \<Rightarrow> pdfObj \<Rightarrow> sourceWriter \<Rightarrow> sourceWriter" where
  "writeTop lib facts v w =
     (case v of
        PStream sk d \<Rightarrow> writeStreamObject lib d (streamLengthForSource facts v d) w
      | PDict d \<Rightarrow> writeDict lib d 0 w
      | PArray arr \<Rightarrow> writeValue lib v 0 w
      | _ \<Rightarrow> writeScalar lib v w)"

definition objHeader :: "int \<Rightarrow> int \<Rightarrow> string" where
  "objHeader n g = showInt n @ '' '' @ showInt g @ '' obj'' @ [CHR 0x0A]"

definition newWriter :: sourceWriter where
  "newWriter = \<lparr> swBuf = [], swCap = objectSourceByteCap, swTruncated = False \<rparr>"

definition sourceText :: "textLib \<Rightarrow> streamFacts \<Rightarrow> int \<Rightarrow> int \<Rightarrow> pdfObj \<Rightarrow> string" where
  "sourceText lib facts n g v =
     (if v = PNull then objHeader n g @ ''null'' @ [CHR 0x0A] @ ''endobj''
      else swBuf (writeAlways ([CHR 0x0A] @ ''endobj'') (writeTop lib facts v (writeString (objHeader n g) newWriter))))"

datatype sourceAnswer = Source string | SourceNoNode | SourceBadGeneration string | SourceBadNumber string | SourceUnresolved nodeAnswer

text \<open>The object a node ID means: the catalog for \<open>root\<close>, nothing for an inline node.\<close>

definition sourceTarget :: "pdfDoc \<Rightarrow> string \<Rightarrow> (sourceAnswer + int \<times> int \<times> string)" where
  "sourceTarget doc nodeID =
     (if nodeID = ''root'' then
        (case docRoot doc of None \<Rightarrow> Inl (Source []) | Some (n, g) \<Rightarrow> Inr (n, g, nodeIDForRef n g))
      else if \<not> hasPrefix nodeID ''obj:'' then Inl (Source [])
      else (case parseNodeID nodeID of (kind, parentID, lastPart) \<Rightarrow>
              if kind \<noteq> ''obj'' then Inl (Source [])
              else (case atoi parentID of
                      None \<Rightarrow> Inl (SourceBadGeneration nodeID)
                    | Some g \<Rightarrow> (case atoi lastPart of None \<Rightarrow> Inl (SourceBadNumber nodeID) | Some n \<Rightarrow> Inr (n, g, nodeID)))))"

definition GetObjectSource :: "textLib \<Rightarrow> streamFacts \<Rightarrow> pdfDoc \<Rightarrow> string \<Rightarrow> sourceAnswer" where
  "GetObjectSource lib facts doc nodeID =
     (if nodeID = [] then SourceNoNode
      else if hasPrefix nodeID ''error:'' then Source []
      else (case sourceTarget doc nodeID of
              Inl answer \<Rightarrow> answer
            | Inr (n, g, resolveID) \<Rightarrow>
                (case resolveNodeObject doc resolveID of
                   NodeObj v \<Rightarrow> Source (sourceText lib facts n g v)
                 | r \<Rightarrow> SourceUnresolved r)))"

end
