(* ===== verification/ObjectSourceSpec.thy ===== *)
theory ObjectSourceSpec
  imports ObjectSource
begin

text \<open>
  What the source view shows: the whole text of the object when it fits the cap, and otherwise the whole text
  of as many entries as fit, with the number of those left out.
\<close>

section \<open>The text without a cap\<close>

fun scalarSource :: "textLib \<Rightarrow> pdfObj \<Rightarrow> string" where
  "scalarSource lib (PName n) = ''/'' @ n"
| "scalarSource lib (PString s) = ''('' @ s @ '')''"
| "scalarSource lib (PHex s) = ''<'' @ s @ ''>''"
| "scalarSource lib (PInt i) = showInt i"
| "scalarSource lib (PReal r) = libFloat lib r"
| "scalarSource lib (PBool b) = (if b then ''true'' else ''false'')"
| "scalarSource lib PNull = ''null''"
| "scalarSource lib _ = ''Unknown''"

definition linesOf :: "nat \<Rightarrow> string \<Rightarrow> string list \<Rightarrow> string \<Rightarrow> string" where
  "linesOf depth open_text es close_text = open_text @ [CHR 0x0A] @ concat es @ indentBy depth @ close_text"

function plainValue :: "textLib \<Rightarrow> pdfObj \<Rightarrow> nat \<Rightarrow> string" where
  "plainValue lib v depth =
     (case asDict v of
        Some d \<Rightarrow> linesOf depth ''<<''
          (map (\<lambda>k. indentBy (depth + 1) @ ''/'' @ k @ '' '' @ plainValue lib (dictGet d k) (depth + 1) @ [CHR 0x0A]) (dictKeys d)) ''>>''
      | None \<Rightarrow>
          (case v of
             PArray arr \<Rightarrow>
               if isShortSimpleArray arr then ''['' @ concat (map (\<lambda>e. '' '' @ plainValue lib e depth) arr) @ '' ]''
               else linesOf depth ''['' (map (\<lambda>e. indentBy (depth + 1) @ plainValue lib e (depth + 1) @ [CHR 0x0A]) arr) '']''
           | PRef n g \<Rightarrow> refString n g
           | _ \<Rightarrow> scalarSource lib v))"
  by pat_completeness auto
termination plainValue
  by (relation "measure (\<lambda>(_, v, _). size v)")
    (simp_all add: dict_entry_size less_Suc_eq_le size_list_estimation' del: set_dictKeys)

declare plainValue.simps [simp del]

section \<open>A writer that advances\<close>

text \<open>
  Writing a text: the cap stays, a cut writer stays cut, what was there stays, an uncut writer has the text
  after it, and a text that fits does not cut.
\<close>

definition advances :: "string \<Rightarrow> sourceWriter \<Rightarrow> sourceWriter \<Rightarrow> bool" where
  "advances s w w' \<longleftrightarrow> swCap w' = swCap w \<and> (swTruncated w \<longrightarrow> swTruncated w') \<and>
     take (length (swBuf w)) (swBuf w') = swBuf w \<and> length (swBuf w) \<le> length (swBuf w') \<and>
     (\<not> swTruncated w' \<longrightarrow> swBuf w' = swBuf w @ s) \<and>
     (\<not> swTruncated w \<and> length (swBuf w) + length s \<le> swCap w \<longrightarrow> \<not> swTruncated w')"

lemma advances_string: "advances s w (writeString s w)"
  by (simp add: advances_def writeString_def)

lemma advances_always: "advances s w (writeAlways s w)"
  by (simp add: advances_def writeAlways_def)

lemma advances_trans:
  assumes "advances s w w1" "advances t w1 w2"
  shows "advances (s @ t) w w2"
proof -
  have "take (length (swBuf w)) (swBuf w2) = take (length (swBuf w)) (take (length (swBuf w1)) (swBuf w2))"
    using assms(1) by (simp add: advances_def min_def)
  with assms show ?thesis by (auto simp: advances_def)
qed

lemma advances_nil [simp]: "advances [] w w"
  by (simp add: advances_def)

lemma advances_then: "advances s w w1 \<Longrightarrow> advances (s @ t) w (writeString t w1)" "advances s w w1 \<Longrightarrow> advances (s @ t) w (writeAlways t w1)"
  by (blast intro: advances_trans advances_string advances_always)+

text \<open>A cut writer that is taken back to where it was.\<close>

lemma advances_rollback:
  "advances s w w1 \<Longrightarrow> swTruncated w1 \<Longrightarrow> swBuf (rollback (snapshot w) w1) = swBuf w \<and>
     swTruncated (rollback (snapshot w) w1) \<and> swCap (rollback (snapshot w) w1) = swCap w"
  by (simp add: advances_def rollback_def snapshot_def)

lemma advances_cut: "swBuf w' = swBuf w \<Longrightarrow> swCap w' = swCap w \<Longrightarrow> swTruncated w' \<Longrightarrow>
    (swTruncated w \<or> length (swBuf w) + length s > swCap w) \<Longrightarrow> advances s w w'"
  by (auto simp: advances_def)

lemma advances_over: "advances s w w1 \<Longrightarrow> swTruncated w1 \<Longrightarrow> swTruncated w \<or> length (swBuf w) + length s > swCap w"
  by (auto simp: advances_def)

lemma advances_longer: "advances s w w1 \<Longrightarrow> swTruncated w1 \<Longrightarrow> advances (s @ t) w w1"
  by (auto simp: advances_def)

text \<open>The two loops.\<close>

lemma entries_advance:
  assumes "\<And>x u. x \<in> set xs \<Longrightarrow> advances (txt x) u (f x u)" "writeEntries f xs i w = (w', m, b)"
  shows "advances (concat (map txt xs)) w w' \<and> (b \<longrightarrow> swTruncated w')"
  using assms
proof (induction xs arbitrary: i w)
  case (Cons x xs)
  have a: "advances (txt x) w (f x w)" using Cons.prems(1) by simp
  show ?case
  proof (cases "swTruncated w")
    case True
    with Cons.prems(2) show ?thesis by (auto simp: advances_def)
  next
    case ok: False
    show ?thesis
    proof (cases "swTruncated (f x w)")
      case True
      with ok Cons.prems(2) have "w' = rollback (snapshot w) (f x w)" "b" by (auto simp: Let_def)
      with advances_rollback [OF a True] advances_over [OF a True] ok show ?thesis by (auto intro!: advances_cut)
    next
      case False
      with ok Cons.prems(2) have "writeEntries f xs (i + 1) (f x w) = (w', m, b)" by (simp add: Let_def)
      with Cons.IH [of "i + 1" "f x w"] Cons.prems(1) advances_trans [OF a] show ?thesis by simp
    qed
  qed
qed auto

lemma short_advance:
  assumes "\<And>x u. x \<in> set xs \<Longrightarrow> advances (txt x) u (f x u)"
  shows "advances (concat (map txt xs)) w (writeShort f xs w)"
  using assms
proof (induction xs arbitrary: w)
  case (Cons x xs)
  have a: "advances (txt x) w (f x w)" using Cons.prems by simp
  show ?case
  proof (cases "swTruncated (f x w)")
    case True
    with advances_rollback [OF a True] advances_over [OF a True] show ?thesis
      by (auto simp: Let_def intro!: advances_cut)
  next
    case False
    with advances_trans [OF a Cons.IH [of "f x w"]] Cons.prems show ?thesis by (simp add: Let_def)
  qed
qed simp

lemma endEntries_advance:
  assumes "advances s w w'" "b \<longrightarrow> swTruncated w'"
  shows "advances (s @ indentBy depth @ bracket) w (endEntries bracket depth n (w', m, b))"
proof (cases b)
  case True
  then have "advances s w (writeAlways (truncationMark (indentBy (depth + 1)) (n - m)) w')"
    using assms by (auto simp: advances_def writeAlways_def)
  with True advances_then(2) [OF advances_then(2)] show ?thesis by (fastforce simp: endEntries_def)
next
  case False
  with assms advances_then(2) [OF advances_then(2)] show ?thesis by (fastforce simp: endEntries_def)
qed

lemma scalar_advance: "advances (scalarSource lib v) w (writeScalar lib v w)"
proof -
  have three: "advances (a @ b @ c) w (writeString c (writeString b (writeString a w)))" for a b c
    using advances_then(1) [OF advances_then(1) [OF advances_string]] by fastforce
  have two: "advances (a @ b) w (writeString b (writeString a w))" for a b
    using advances_then(1) [OF advances_string] by fastforce
  show ?thesis by (cases v) (auto simp: advances_string intro: two [of "''/''", simplified] three [of "''(''" _ "'')''", simplified] three [of "''<''" _ "''>''", simplified])
qed

section \<open>Any value\<close>

definition dictEntry :: "textLib \<Rightarrow> pdfDict \<Rightarrow> nat \<Rightarrow> string \<Rightarrow> sourceWriter \<Rightarrow> sourceWriter" where
  "dictEntry lib d depth k u = writeString [CHR 0x0A] (writeValue lib (dictGet d k) (depth + 1)
     (writeString '' '' (writeString k (writeString ''/'' (writeString (indentBy (depth + 1)) u)))))"

definition dictLine :: "textLib \<Rightarrow> pdfDict \<Rightarrow> nat \<Rightarrow> string \<Rightarrow> string" where
  "dictLine lib d depth k = indentBy (depth + 1) @ ''/'' @ k @ '' '' @ plainValue lib (dictGet d k) (depth + 1) @ [CHR 0x0A]"

definition arrayEntry :: "textLib \<Rightarrow> nat \<Rightarrow> pdfObj \<Rightarrow> sourceWriter \<Rightarrow> sourceWriter" where
  "arrayEntry lib depth e u = writeString [CHR 0x0A] (writeValue lib e (depth + 1) (writeString (indentBy (depth + 1)) u))"

definition arrayLine :: "textLib \<Rightarrow> nat \<Rightarrow> pdfObj \<Rightarrow> string" where
  "arrayLine lib depth e = indentBy (depth + 1) @ plainValue lib e (depth + 1) @ [CHR 0x0A]"

lemma dictEntry_body:
  assumes "\<And>u. advances (plainValue lib (dictGet d k) (depth + 1)) u (writeValue lib (dictGet d k) (depth + 1) u)"
  obtains u1 where "dictEntry lib d depth k u = writeString [CHR 0x0A] u1"
    "advances (indentBy (depth + 1) @ ''/'' @ k @ '' '' @ plainValue lib (dictGet d k) (depth + 1)) u u1"
proof -
  let ?u = "writeString '' '' (writeString k (writeString ''/'' (writeString (indentBy (depth + 1)) u)))"
  have "advances (((indentBy (depth + 1) @ ''/'') @ k) @ '' '') u ?u"
    by (intro advances_then(1) advances_string)
  from advances_trans [OF this assms] have
    "advances (indentBy (depth + 1) @ ''/'' @ k @ '' '' @ plainValue lib (dictGet d k) (depth + 1)) u
       (writeValue lib (dictGet d k) (depth + 1) ?u)" by simp
  with that show ?thesis by (auto simp: dictEntry_def)
qed

lemma arrayEntry_body:
  assumes "\<And>u. advances (plainValue lib e (depth + 1)) u (writeValue lib e (depth + 1) u)"
  obtains u1 where "arrayEntry lib depth e u = writeString [CHR 0x0A] u1"
    "advances (indentBy (depth + 1) @ plainValue lib e (depth + 1)) u u1"
  using advances_trans [OF advances_string assms] that by (auto simp: arrayEntry_def)

lemma shortEntry_body:
  assumes "\<And>u. advances (plainValue lib e depth) u (writeValue lib e depth u)"
  shows "advances ('' '' @ plainValue lib e depth) u (writeValue lib e depth (writeString '' '' u))"
  by (rule advances_trans [OF advances_string assms])

lemma long_form_advance:
  assumes "\<And>x u. x \<in> set xs \<Longrightarrow> advances (txt x) u (f x u)"
  shows "advances (linesOf depth open_text (map txt xs) bracket) w
    (endEntries bracket depth n (writeEntries f xs 0 (writeAlways (open_text @ [CHR 0x0A]) w)))"
proof -
  obtain w' m b where r: "writeEntries f xs 0 (writeAlways (open_text @ [CHR 0x0A]) w) = (w', m, b)"
    using prod_cases3 by blast
  have e: "advances (concat (map txt xs)) (writeAlways (open_text @ [CHR 0x0A]) w) w' \<and> (b \<longrightarrow> swTruncated w')"
    by (rule entries_advance [OF assms r])
  have "advances ((open_text @ [CHR 0x0A]) @ concat (map txt xs)) w w'"
    by (rule advances_trans [OF advances_always]) (use e in blast)
  from endEntries_advance [OF this conjunct2 [OF e], of depth bracket n m] show ?thesis
    by (simp add: r linesOf_def)
qed

lemma value_advance: "advances (plainValue lib v depth) w (writeValue lib v depth w)"
proof (induction lib v depth arbitrary: w rule: plainValue.induct)
  case (1 lib v depth)
  show ?case
  proof (cases "asDict v")
    case (Some d)
    have line: "advances (dictLine lib d depth k) u (dictEntry lib d depth k u)" if "k \<in> set (dictKeys d)" for k u
    proof -
      have ih: "advances (plainValue lib (dictGet d k) (depth + 1)) u (writeValue lib (dictGet d k) (depth + 1) u)" for u
        using 1(3) [OF Some that] by simp
      obtain u1 where "dictEntry lib d depth k u = writeString [CHR 0x0A] u1"
        "advances (indentBy (depth + 1) @ ''/'' @ k @ '' '' @ plainValue lib (dictGet d k) (depth + 1)) u u1"
        by (rule dictEntry_body [OF ih])
      from advances_then(1) [OF this(2), of "[CHR 0x0A]"] this(1) show ?thesis by (simp add: dictLine_def)
    qed
    from long_form_advance [of "dictKeys d" "dictLine lib d depth" "dictEntry lib d depth" depth "''<<''" "''>>''" w "dictLen d", OF line] show ?thesis
      unfolding dictEntry_def dictLine_def
      by (subst writeValue.simps, subst plainValue.simps) (simp add: Some)
  next
    case None
    show ?thesis
    proof (cases "\<exists>arr. v = PArray arr")
      case True
      then obtain arr where v: "v = PArray arr" by blast
      show ?thesis
      proof (cases "isShortSimpleArray arr")
        case True
        have elem: "advances ('' '' @ plainValue lib e depth) u (writeValue lib e depth (writeString '' '' u))" if "e \<in> set arr" for e u
          by (rule shortEntry_body) (use 1(1) [OF None v True that] in simp)
        then have "advances ((''['' @ concat (map (\<lambda>e. '' '' @ plainValue lib e depth) arr)) @ '' ]'') w
          (writeAlways '' ]'' (writeShort (\<lambda>e u. writeValue lib e depth (writeString '' '' u)) arr (writeAlways ''['' w)))"
          by (intro advances_then(2) [OF advances_trans [OF advances_always short_advance]])
        with v True show ?thesis
          by (subst writeValue.simps, subst plainValue.simps) simp
      next
        case False
        have line: "advances (arrayLine lib depth e) u (arrayEntry lib depth e u)" if "e \<in> set arr" for e u
        proof -
          have ih: "advances (plainValue lib e (depth + 1)) u (writeValue lib e (depth + 1) u)" for u
            using 1(2) [OF None v False that] by simp
          obtain u1 where "arrayEntry lib depth e u = writeString [CHR 0x0A] u1"
            "advances (indentBy (depth + 1) @ plainValue lib e (depth + 1)) u u1"
            by (rule arrayEntry_body [OF ih])
          from advances_then(1) [OF this(2), of "[CHR 0x0A]"] this(1) show ?thesis by (simp add: arrayLine_def)
        qed
        from long_form_advance [of arr "arrayLine lib depth" "arrayEntry lib depth" depth "''[''" "'']''" w "length arr", OF line] v False show ?thesis
          unfolding arrayEntry_def arrayLine_def
          by (subst writeValue.simps, subst plainValue.simps) simp
      qed
    next
      case False
      with None scalar_advance [of lib v w] advances_string show ?thesis
        by (subst writeValue.simps, subst plainValue.simps) (auto split: pdfObj.split)
    qed
  qed
qed

section \<open>Where the text is cut\<close>

text \<open>How many entries fit one after the other from a position on.\<close>

fun fitCount :: "nat \<Rightarrow> nat \<Rightarrow> string list \<Rightarrow> nat" where
  "fitCount cap pos [] = 0"
| "fitCount cap pos (e # es) = (if pos + length e \<le> cap then Suc (fitCount cap (pos + length e) es) else 0)"

lemma fitCount_le: "fitCount cap pos es \<le> length es"
  by (induction es arbitrary: pos) auto

text \<open>It is the greatest number that fits.\<close>

lemma fitCount_iff: "k \<le> length es \<Longrightarrow> k \<le> fitCount cap pos es \<longleftrightarrow> k = 0 \<or> pos + length (concat (take k es)) \<le> cap"
proof (induction es arbitrary: pos k)
  case (Cons e es)
  show ?case
  proof (cases k)
    case (Suc j)
    with Cons.IH [of j "pos + length e"] Cons.prems show ?thesis by auto
  qed simp
qed simp

text \<open>An entry whose last piece can still be refused is kept exactly when all of it fits.\<close>

definition settles :: "string \<Rightarrow> sourceWriter \<Rightarrow> sourceWriter \<Rightarrow> bool" where
  "settles s w w' \<longleftrightarrow> advances s w w' \<and> (\<not> swTruncated w \<longrightarrow> (swTruncated w' \<longleftrightarrow> length (swBuf w) + length s > swCap w))"

lemma settles_after:
  assumes "advances s w w1" "settles t w1 w2"
  shows "settles (s @ t) w w2"
  using assms advances_trans [OF assms(1), of t w2] by (cases "swTruncated w1") (auto simp: settles_def advances_def)

lemma settles_string: "advances s w w1 \<Longrightarrow> settles (s @ t) w (writeString t w1)"
  using advances_then(1) [of s w w1 t] by (auto simp: settles_def advances_def writeString_def)

lemma settles_scalar: "v \<noteq> PNull \<Longrightarrow> \<not> isContainer v \<Longrightarrow> settles (scalarSource lib v) w (writeScalar lib v w)"
proof -
  have one: "settles a w (writeString a w)" for a using settles_string [OF advances_nil] by simp
  have two: "settles (a @ b) w (writeString b (writeString a w))" for a b
    by (rule settles_string [OF advances_string])
  have three: "settles (a @ b @ c) w (writeString c (writeString b (writeString a w)))" for a b c
    using settles_string [OF advances_then(1) [OF advances_string]] by fastforce
  assume "v \<noteq> PNull" "\<not> isContainer v"
  then show ?thesis
    by (cases v) (auto simp: one intro: two [of "''/''", simplified] three [of "''(''" _ "'')''", simplified] three [of "''<''" _ "''>''", simplified])
qed

lemma settles_value: "\<not> isContainer v \<Longrightarrow> settles (plainValue lib v depth) w (writeValue lib v depth w)"
proof -
  assume v: "\<not> isContainer v"
  have one: "settles a w (writeString a w)" for a using settles_string [OF advances_nil] by simp
  show ?thesis unfolding plainValue.simps [of lib v depth] writeValue.simps [of lib v depth w]
    using v one settles_scalar [of v lib w] by (cases v) simp_all
qed

lemma entries_cut:
  assumes "\<And>x u. x \<in> set xs \<Longrightarrow> settles (txt x) u (f x u)" "\<not> swTruncated w"
  defines "k \<equiv> fitCount (swCap w) (length (swBuf w)) (map txt xs)"
  shows "\<exists>w'. writeEntries f xs i w = (w', i + k, k < length xs) \<and>
    swBuf w' = swBuf w @ concat (take k (map txt xs)) \<and> swCap w' = swCap w"
  using assms(1,2) unfolding k_def
proof (induction xs arbitrary: i w)
  case (Cons x xs)
  have a: "settles (txt x) w (f x w)" using Cons.prems(1) by simp
  show ?case
  proof (cases "swTruncated (f x w)")
    case True
    with a Cons.prems(2) advances_rollback [of "txt x" w "f x w"] show ?thesis by (auto simp: settles_def Let_def)
  next
    case False
    then have fx: "swBuf (f x w) = swBuf w @ txt x" "swCap (f x w) = swCap w" "length (swBuf w) + length (txt x) \<le> swCap w"
      using a Cons.prems(2) by (auto simp: settles_def advances_def)
    obtain w' where "writeEntries f xs (i + 1) (f x w) =
        (w', i + 1 + fitCount (swCap (f x w)) (length (swBuf (f x w))) (map txt xs),
         fitCount (swCap (f x w)) (length (swBuf (f x w))) (map txt xs) < length xs)"
      "swBuf w' = swBuf (f x w) @ concat (take (fitCount (swCap (f x w)) (length (swBuf (f x w))) (map txt xs)) (map txt xs))"
      "swCap w' = swCap (f x w)"
      using Cons.IH [of "f x w" "i + 1"] Cons.prems(1) False by auto
    with fx False Cons.prems(2) show ?thesis by (simp add: Let_def)
  qed
qed simp

lemma short_cut:
  assumes "\<And>x u. x \<in> set xs \<Longrightarrow> settles (txt x) u (f x u)" "\<not> swTruncated w"
  shows "swBuf (writeShort f xs w) = swBuf w @ concat (take (fitCount (swCap w) (length (swBuf w)) (map txt xs)) (map txt xs))"
  using assms
proof (induction xs arbitrary: w)
  case (Cons x xs)
  have a: "settles (txt x) w (f x w)" using Cons.prems(1) by simp
  show ?case
  proof (cases "swTruncated (f x w)")
    case True
    with a Cons.prems(2) advances_rollback [of "txt x" w "f x w"] show ?thesis by (auto simp: settles_def Let_def)
  next
    case False
    then have fx: "swBuf (f x w) = swBuf w @ txt x" "swCap (f x w) = swCap w" "length (swBuf w) + length (txt x) \<le> swCap w"
      using a Cons.prems(2) by (auto simp: settles_def advances_def)
    with Cons.IH [of "f x w"] Cons.prems False show ?thesis by (simp add: Let_def)
  qed
qed simp

section \<open>The whole view\<close>

text \<open>The entries of an object at the top, how they are framed, and whether a cut is marked.\<close>

definition isShort :: "pdfObj \<Rightarrow> bool" where
  "isShort v \<longleftrightarrow> (case asArray v of Some arr \<Rightarrow> isShortSimpleArray arr | None \<Rightarrow> False)"

definition topEntries :: "textLib \<Rightarrow> pdfObj \<Rightarrow> string list" where
  "topEntries lib v =
     (case asDict v of
        Some d \<Rightarrow> map (dictLine lib d 0) (dictKeys d)
      | None \<Rightarrow> (case asArray v of
                   Some arr \<Rightarrow> if isShort v then map (\<lambda>e. '' '' @ plainValue lib e 0) arr else map (arrayLine lib 0) arr
                 | None \<Rightarrow> []))"

definition topOpen :: "pdfObj \<Rightarrow> string" where
  "topOpen v = (if asDict v \<noteq> None then ''<<'' @ [CHR 0x0A] else if isShort v then ''['' else ''['' @ [CHR 0x0A])"

definition topClose :: "streamFacts \<Rightarrow> pdfObj \<Rightarrow> string" where
  "topClose facts v =
     (case v of
        PStream sk d \<Rightarrow> ''>>'' @ [CHR 0x0A] @ ''stream'' @ [CHR 0x0A] @ streamPlaceholderMarker @
          streamPlaceholder (streamLengthForSource facts v d) @ ''endstream''
      | PDict d \<Rightarrow> ''>>''
      | _ \<Rightarrow> if isShort v then '' ]'' else '']'')"

definition topMark :: "pdfObj \<Rightarrow> nat \<Rightarrow> string" where
  "topMark v missing = (if missing = 0 \<or> isShort v then [] else truncationMark (indentBy 1) missing)"

lemma line_settles:
  "settles (dictLine lib d depth k) u (dictEntry lib d depth k u)"
  "settles (arrayLine lib depth e) u (arrayEntry lib depth e u)"
proof -
  obtain u1 where "dictEntry lib d depth k u = writeString [CHR 0x0A] u1"
    "advances (indentBy (depth + 1) @ ''/'' @ k @ '' '' @ plainValue lib (dictGet d k) (depth + 1)) u u1"
    by (rule dictEntry_body [OF value_advance])
  from settles_string [OF this(2), of "[CHR 0x0A]"] this(1)
  show "settles (dictLine lib d depth k) u (dictEntry lib d depth k u)" by (simp add: dictLine_def)
  obtain u2 where "arrayEntry lib depth e u = writeString [CHR 0x0A] u2"
    "advances (indentBy (depth + 1) @ plainValue lib e (depth + 1)) u u2"
    by (rule arrayEntry_body [OF value_advance])
  from settles_string [OF this(2), of "[CHR 0x0A]"] this(1)
  show "settles (arrayLine lib depth e) u (arrayEntry lib depth e u)" by (simp add: arrayLine_def)
qed

lemma long_form_cut:
  fixes open_text bracket :: string
  assumes "\<And>x u. x \<in> set xs \<Longrightarrow> settles (txt x) u (f x u)" "\<not> swTruncated w"
  defines "k \<equiv> fitCount (swCap w) (length (swBuf w) + length open_text + 1) (map txt xs)"
  shows "swBuf (endEntries bracket 0 (length xs) (writeEntries f xs 0 (writeAlways (open_text @ [CHR 0x0A]) w))) =
    swBuf w @ open_text @ [CHR 0x0A] @ concat (take k (map txt xs)) @
    (if k < length xs then truncationMark (indentBy 1) (length xs - k) else []) @ bracket"
proof -
  let ?w = "writeAlways (open_text @ [CHR 0x0A]) w"
  have t: "\<not> swTruncated ?w" using assms(2) by (simp add: writeAlways_def)
  have k: "k = fitCount (swCap ?w) (length (swBuf ?w)) (map txt xs)" by (simp add: k_def writeAlways_def)
  obtain w' where "writeEntries f xs 0 ?w = (w', k, k < length xs)"
    "swBuf w' = swBuf ?w @ concat (take k (map txt xs))"
    using entries_cut [of xs "txt" f "writeAlways (open_text @ [CHR 0x0A]) w" 0, OF assms(1) t] unfolding k by auto
  then show ?thesis by (auto simp: endEntries_def writeAlways_def indentBy_def)
qed

lemma length_showNat: "n < 10 ^ k \<Longrightarrow> 0 < k \<Longrightarrow> length (showNat n) \<le> k"
proof (induction n arbitrary: k rule: showNat.induct)
  case (1 n)
  show ?case
  proof (cases "n < 10")
    case False
    with 1(2) have "1 < k" by (cases k; cases "k - 1") auto
    then obtain j where j: "k = Suc j" "0 < j" by (cases k) auto
    with 1(2) have "n div 10 < 10 ^ j" by (simp add: less_mult_imp_div_less mult.commute)
    with False j 1(1) [of j] show ?thesis by (subst showNat.simps) simp
  qed (use 1 in \<open>simp add: showNat.simps\<close>)
qed

lemma length_showInt:
  assumes "inInt64 i"
  shows "length (showInt i) \<le> 20"
proof -
  have "length (showNat (nat j)) \<le> 19" if "j \<le> 2 ^ 63" for j
    by (rule length_showNat) (use that in \<open>simp_all add: nat_less_iff\<close>)
  from this [of i] this [of "- i"] assms show ?thesis
    by (auto simp: inInt64_def maxInt64_def minInt64_def showInt_def)
qed

lemma header_fits: "inInt64 n \<Longrightarrow> inInt64 g \<Longrightarrow> length (objHeader n g) \<le> objectSourceByteCap"
  using length_showInt [of n] length_showInt [of g] by (simp add: objHeader_def objectSourceByteCap_def)

lemma writeTop_cut:
  fixes lib :: textLib
  assumes v: "isContainer v" and w: "\<not> swTruncated w"
  defines "k \<equiv> fitCount (swCap w) (length (swBuf w @ topOpen v)) (topEntries lib v)"
  shows "swBuf (writeTop lib facts v w) =
    swBuf w @ topOpen v @ concat (take k (topEntries lib v)) @ topMark v (length (topEntries lib v) - k) @ topClose facts v"
proof (cases "asDict v")
  case (Some d)
  have body: "swBuf (writeDict lib d 0 w) =
      swBuf w @ topOpen v @ concat (take k (topEntries lib v)) @ topMark v (length (topEntries lib v) - k) @ ''>>''"
    using long_form_cut [of "dictKeys d" "dictLine lib d 0" "dictEntry lib d 0" w "''>>''" "''<<''", OF line_settles(1) w]
      fitCount_le [of "swCap w" "length (swBuf w @ topOpen v)" "topEntries lib v"] Some
    by (auto simp: k_def writeDict_def writeValue.simps [of lib "PDict d"] topOpen_def topEntries_def topMark_def isShort_def
        dictEntry_def [abs_def] asDict_Some not_less_iff_gr_or_eq)
  from Some consider "v = PDict d" | sk where "v = PStream sk d" by (auto simp: asDict_Some)
  then show ?thesis
    by cases (use body in \<open>auto simp: writeTop_def topClose_def writeStreamObject_def writeAlways_def\<close>)
next
  case None
  with v obtain arr where arr: "v = PArray arr" by (cases v) auto
  show ?thesis
  proof (cases "isShortSimpleArray arr")
    case True
    have elem: "settles ('' '' @ plainValue lib e 0) u (writeValue lib e 0 (writeString '' '' u))" if "e \<in> set arr" for e u
      by (rule settles_after [OF advances_string settles_value]) (use that True in \<open>simp add: isShortSimpleArray_def\<close>)
    have w1: "\<not> swTruncated (writeAlways ''['' w)" using w by (simp add: writeAlways_def)
    from short_cut [of arr "\<lambda>e. '' '' @ plainValue lib e 0" "\<lambda>e u. writeValue lib e 0 (writeString '' '' u)", OF elem w1] arr True
    show ?thesis
      by (simp add: k_def writeTop_def topClose_def writeValue.simps [of lib "PArray arr"] topOpen_def topEntries_def topMark_def isShort_def
          writeAlways_def)
  next
    case False
    from long_form_cut [of arr "arrayLine lib 0" "arrayEntry lib 0" w "'']''" "''[''", OF line_settles(2) w]
      fitCount_le [of "swCap w" "length (swBuf w @ topOpen v)" "topEntries lib v"] arr False
    show ?thesis
      by (auto simp: k_def writeTop_def topClose_def writeValue.simps [of lib "PArray arr"] topOpen_def topEntries_def topMark_def isShort_def
        arrayEntry_def [abs_def] not_less_iff_gr_or_eq)
  qed
qed

lemma sourceText_container:
  fixes lib :: textLib
  assumes "isContainer v" "inInt64 n" "inInt64 g"
  defines "k \<equiv> fitCount objectSourceByteCap (length (objHeader n g @ topOpen v)) (topEntries lib v)"
  shows "sourceText lib facts n g v =
    objHeader n g @ topOpen v @ concat (take k (topEntries lib v)) @ topMark v (length (topEntries lib v) - k) @
    topClose facts v @ [CHR 0x0A] @ ''endobj''"
proof -
  define w where "w = writeString (objHeader n g) newWriter"
  have w: "swBuf w = objHeader n g" "swCap w = objectSourceByteCap" "\<not> swTruncated w"
    using header_fits [OF assms(2,3)] by (simp_all add: w_def writeString_def newWriter_def)
  have "v \<noteq> PNull" using assms(1) by (cases v) auto
  then show ?thesis using writeTop_cut [OF assms(1) w(3), of lib facts] w
    by (simp add: sourceText_def w_def [symmetric] writeAlways_def k_def)
qed

text \<open>What all the entries together make of a dictionary or an array: its text without a cap.\<close>

lemma whole_text:
  assumes "asDict v = None \<longrightarrow> (\<exists>arr. v = PArray arr)" "\<forall>sk d. v \<noteq> PStream sk d"
  shows "topOpen v @ concat (topEntries lib v) @ topClose facts v = plainValue lib v 0"
  using assms unfolding plainValue.simps [of lib v 0]
  by (cases v) (auto simp: topOpen_def topEntries_def topClose_def isShort_def linesOf_def indentBy_def
      dictLine_def [abs_def] arrayLine_def [abs_def])

text \<open>
  Claim C34. The source of an object ends between two entries, whatever the cap cuts: it is the header, the
  opening, the whole text of the first \<open>k\<close> entries, the number of those left out, and the closing, where
  \<open>k\<close> is the greatest number of entries that fit the cap together with what stands before them (a short array
  drops its entries without a note). When all fit, it is the whole text; so is that of a scalar that fits.
\<close>

theorem object_source_exact:
  assumes "inInt64 n" "inInt64 g"
  shows "(isContainer v \<longrightarrow>
      (\<exists>k \<le> length (topEntries lib v).
        sourceText lib facts n g v =
          objHeader n g @ topOpen v @ concat (take k (topEntries lib v)) @ topMark v (length (topEntries lib v) - k) @
          topClose facts v @ [CHR 0x0A] @ ''endobj'' \<and>
        (\<forall>j \<le> length (topEntries lib v). j \<le> k \<longleftrightarrow>
           j = 0 \<or> length (objHeader n g @ topOpen v @ concat (take j (topEntries lib v))) \<le> objectSourceByteCap) \<and>
        (k = length (topEntries lib v) \<and> (\<forall>sk d. v \<noteq> PStream sk d) \<longrightarrow>
           sourceText lib facts n g v = objHeader n g @ plainValue lib v 0 @ [CHR 0x0A] @ ''endobj''))) \<and>
    (\<not> isContainer v \<longrightarrow> length (objHeader n g @ scalarSource lib v) \<le> objectSourceByteCap \<longrightarrow>
      sourceText lib facts n g v = objHeader n g @ scalarSource lib v @ [CHR 0x0A] @ ''endobj'')"
proof (rule conjI [OF impI impI [OF impI]])
  assume v: "isContainer v"
  define k where "k = fitCount objectSourceByteCap (length (objHeader n g @ topOpen v)) (topEntries lib v)"
  note t = sourceText_container [OF v assms, of lib facts, folded k_def]
  have whole: "sourceText lib facts n g v = objHeader n g @ plainValue lib v 0 @ [CHR 0x0A] @ ''endobj''"
    if "k = length (topEntries lib v)" "\<forall>sk d. v \<noteq> PStream sk d"
  proof -
    have "asDict v = None \<longrightarrow> (\<exists>arr. v = PArray arr)" using v by (cases v) auto
    from whole_text [OF this that(2), of lib facts, symmetric] t that(1) show ?thesis by (simp add: topMark_def)
  qed
  show "\<exists>k \<le> length (topEntries lib v).
        sourceText lib facts n g v =
          objHeader n g @ topOpen v @ concat (take k (topEntries lib v)) @ topMark v (length (topEntries lib v) - k) @
          topClose facts v @ [CHR 0x0A] @ ''endobj'' \<and>
        (\<forall>j \<le> length (topEntries lib v). j \<le> k \<longleftrightarrow>
           j = 0 \<or> length (objHeader n g @ topOpen v @ concat (take j (topEntries lib v))) \<le> objectSourceByteCap) \<and>
        (k = length (topEntries lib v) \<and> (\<forall>sk d. v \<noteq> PStream sk d) \<longrightarrow>
           sourceText lib facts n g v = objHeader n g @ plainValue lib v 0 @ [CHR 0x0A] @ ''endobj'')"
    by (rule exI [of _ k]) (use t whole fitCount_le fitCount_iff in \<open>simp add: k_def add.assoc\<close>)
next
  assume v: "\<not> isContainer v" and fits: "length (objHeader n g @ scalarSource lib v) \<le> objectSourceByteCap"
  define w where "w = writeString (objHeader n g) newWriter"
  have w: "swBuf w = objHeader n g" "swCap w = objectSourceByteCap" "\<not> swTruncated w"
    using header_fits [OF assms] by (simp_all add: w_def writeString_def newWriter_def)
  have "writeTop lib facts v w = writeScalar lib v w" using v by (cases v) (simp_all add: writeTop_def)
  moreover have "swBuf (writeScalar lib v w) = objHeader n g @ scalarSource lib v"
    using scalar_advance [of lib v w] w fits by (simp add: advances_def)
  ultimately show "sourceText lib facts n g v = objHeader n g @ scalarSource lib v @ [CHR 0x0A] @ ''endobj''"
    by (auto simp: sourceText_def w_def [symmetric] writeAlways_def)
qed

definition plainText :: textLib where
  "plainText = \<lparr> libText = (\<lambda>v. None), libUnescape = (\<lambda>s. None), libHexBytes = (\<lambda>s. None), libFloat = (\<lambda>r. []) \<rparr>"

theorem object_source_exact_witness:
  "sourceText plainText (\<lambda>v. (None, [])) 12 0 (PInt 7) = ''12 0 obj'' @ [CHR 0x0A] @ ''7'' @ [CHR 0x0A] @ ''endobj'' \<and>
   (\<exists>k \<le> 1. sourceText plainText (\<lambda>v. (None, [])) 12 0 (PArray [PRef 3 0]) = ''12 0 obj'' @ [CHR 0x0A] @ ''['' @
      concat (take k ['' 3 0 R'']) @ '' ]'' @ [CHR 0x0A] @ ''endobj'')"
proof -
  have n: "inInt64 12" "inInt64 0" by (simp_all add: inInt64_def maxInt64_def minInt64_def)
  have h: "objHeader 12 0 = ''12 0 obj'' @ [CHR 0x0A]" by code_simp
  have s: "scalarSource plainText (PInt 7) = ''7''" by code_simp
  have e: "topEntries plainText (PArray [PRef 3 0]) = ['' 3 0 R'']" "topOpen (PArray [PRef 3 0]) = ''[''"
    "topClose (\<lambda>v. (None, [])) (PArray [PRef 3 0]) = '' ]''" "isShort (PArray [PRef 3 0])" by code_simp+
  have "sourceText plainText (\<lambda>v. (None, [])) 12 0 (PInt 7) = objHeader 12 0 @ scalarSource plainText (PInt 7) @ [CHR 0x0A] @ ''endobj''"
    by (rule object_source_exact [OF n, THEN conjunct2, THEN mp, THEN mp]) (simp, unfold h s, simp add: objectSourceByteCap_def)
  moreover from object_source_exact [OF n, of "PArray [PRef 3 0]" plainText "\<lambda>v. (None, [])"]
  have "\<exists>k \<le> 1. sourceText plainText (\<lambda>v. (None, [])) 12 0 (PArray [PRef 3 0]) = objHeader 12 0 @ ''['' @
      concat (take k ['' 3 0 R'']) @ '' ]'' @ [CHR 0x0A] @ ''endobj''"
    unfolding e topMark_def using e(4) by auto
  ultimately show ?thesis unfolding h s by simp
qed

text \<open>
  A scalar beyond the cap is not well-formed: of a string whose characters do not fit, the opening parenthesis
  is left and the closing one is refused.
\<close>

lemma long_string_unclosed:
  assumes "inInt64 n" "inInt64 g" "length s > objectSourceByteCap"
  shows "sourceText lib facts n g (PString s) = objHeader n g @ ''('' @ [CHR 0x0A] @ ''endobj''"
proof -
  have "length (objHeader n g) + 1 \<le> objectSourceByteCap"
    using length_showInt [OF assms(1)] length_showInt [OF assms(2)] by (simp add: objHeader_def objectSourceByteCap_def)
  with assms(3) show ?thesis
    by (simp add: sourceText_def writeTop_def writeString_def newWriter_def writeAlways_def)
qed

end
