(* ===== verification/FileChange.thy ===== *)
theory FileChange
  imports Utf8 PdfErrors
begin

text \<open>
  The identity of the opened file (\<^verbatim>\<open>internal/pdfcore/filechange.go\<close>) and the reads of the file that check it:
  a span for the signature check (\<^verbatim>\<open>readFileSpan\<close> of \<^verbatim>\<open>signature.go\<close>), a copy of the file, and the text view
  (\<^verbatim>\<open>plaintext.go\<close>). What the operating system answers is a parameter of each call.
\<close>

section \<open>The fingerprint\<close>

text \<open>What a stat answers; two answers are of the same file when their identities are equal.\<close>

record fileInfo =
  fiSize :: int
  fiModTime :: int
  fiIdentity :: nat

record fingerprint =
  fpSize :: int
  fpModTime :: int
  fpInfo :: "fileInfo option"

definition newFileFingerprint :: "fileInfo \<Rightarrow> fingerprint" where
  "newFileFingerprint fi = \<lparr> fpSize = fiSize fi, fpModTime = fiModTime fi, fpInfo = Some fi \<rparr>"

definition fpMatches :: "fingerprint \<Rightarrow> fileInfo option \<Rightarrow> bool" where
  "fpMatches fp fi =
     (case (fpInfo fp, fi) of
        (Some known, Some now) \<Rightarrow> fiSize now = fpSize fp \<and> fiModTime now = fpModTime fp \<and> fiIdentity known = fiIdentity now
      | _ \<Rightarrow> False)"

section \<open>Errors\<close>

datatype osError = NotExist | SharingViolation | LockViolation | OsError string

text \<open>\<^verbatim>\<open>isFileBusy\<close> as the Windows build has it; elsewhere no call answers either violation.\<close>

definition isFileBusy :: "osError \<Rightarrow> bool" where
  "isFileBusy e \<longleftrightarrow> e = SharingViolation \<or> e = LockViolation"

datatype fileError = FileChanged | FileBusy | FileOs osError

section \<open>Checked handles\<close>

definition verifyHandle :: "osError + fileInfo \<Rightarrow> fingerprint \<Rightarrow> fileError option" where
  "verifyHandle stat fp =
     (case stat of
        Inl e \<Rightarrow> Some (FileOs e)
      | Inr fi \<Rightarrow> if \<not> fpMatches fp (Some fi) then Some FileChanged else None)"

definition openVerified :: "osError option \<Rightarrow> osError + fileInfo \<Rightarrow> fingerprint \<Rightarrow> fileError option" where
  "openVerified opened stat fp =
     (case opened of
        Some e \<Rightarrow> if e = NotExist then Some FileChanged else if isFileBusy e then Some FileBusy else Some (FileOs e)
      | None \<Rightarrow> verifyHandle stat fp)"

text \<open>
  One opening of the file: how the open ended, the stat before the first read and after the last, what a read
  at an offset answers, and the sequential reads (bytes, and the error that came with them; \<open>None\<close> in it is
  the end of the file). After the listed reads the file has nothing more to give.
\<close>

record fileSession =
  fsOpen :: "osError option"
  fsBefore :: "osError + fileInfo"
  fsAfter :: "osError + fileInfo"
  fsReadAt :: "int \<Rightarrow> int \<Rightarrow> osError + byte list"
  fsReads :: "(byte list \<times> osError option option) list"

text \<open>\<^verbatim>\<open>readFileSpan\<close>: the bytes from the first offset up to the second.\<close>

definition readFileSpan :: "fileSession \<Rightarrow> fingerprint \<Rightarrow> int \<Rightarrow> int \<Rightarrow> fileError + byte list" where
  "readFileSpan s fp a b =
     (case openVerified (fsOpen s) (fsBefore s) fp of
        Some e \<Rightarrow> Inl e
      | None \<Rightarrow>
          (case fsReadAt s (b - a) a of
             Inl e \<Rightarrow> Inl (if isFileBusy e then FileBusy else FileOs e)
           | Inr buf \<Rightarrow> (case verifyHandle (fsAfter s) fp of Some e \<Rightarrow> Inl e | None \<Rightarrow> Inr buf)))"

section \<open>The state on disk\<close>

datatype diskState = DiskCurrent | DiskChanged | DiskMissing

record diskStatus =
  dsState :: diskState
  dsLoadedModTime :: int
  dsDiskModTime :: int
  dsDiskSize :: int

text \<open>Times are nanoseconds; \<^verbatim>\<open>UnixMilli\<close> rounds down.\<close>

definition unixMilli :: "int \<Rightarrow> int" where
  "unixMilli t = t div 1000000"

definition DiskStatus :: "osError + fileInfo \<Rightarrow> fingerprint \<Rightarrow> osError + diskStatus" where
  "DiskStatus stat fp =
     (let st = \<lparr> dsState = DiskMissing, dsLoadedModTime = unixMilli (fpModTime fp), dsDiskModTime = 0, dsDiskSize = 0 \<rparr> in
      case stat of
        Inl e \<Rightarrow> if e = NotExist then Inr st else Inl e
      | Inr fi \<Rightarrow> Inr (st\<lparr> dsState := (if fpMatches fp (Some fi) then DiskCurrent else DiskChanged),
                        dsDiskModTime := unixMilli (fiModTime fi), dsDiskSize := fiSize fi \<rparr>))"

section \<open>Copying the file\<close>

text \<open>
  \<^verbatim>\<open>io.Copy\<close> from the handle: each read is written, then its error ends the copy. The writer answers an error
  to the write of a given number. The result is the error, if any, and what was written.
\<close>

fun copyReads :: "(nat \<Rightarrow> string option) \<Rightarrow> nat \<Rightarrow> (byte list \<times> osError option option) list \<Rightarrow> byte list \<Rightarrow> (string + fileError) option \<times> byte list" where
  "copyReads wr k [] done_bytes = (None, done_bytes)"
| "copyReads wr k ((chunk, e) # rs) done_bytes =
     (case (if chunk = [] then None else wr k) of
        Some we \<Rightarrow> (Some (Inl we), done_bytes)
      | None \<Rightarrow>
          (let written = done_bytes @ chunk in
           case e of
             None \<Rightarrow> copyReads wr (k + 1) rs written
           | Some None \<Rightarrow> (None, written)
           | Some (Some oe) \<Rightarrow> (Some (Inr (if isFileBusy oe then FileBusy else FileOs oe)), written)))"

definition CopyDocumentFile :: "fileSession \<Rightarrow> fingerprint \<Rightarrow> (nat \<Rightarrow> string option) \<Rightarrow> (string + fileError) option \<times> byte list" where
  "CopyDocumentFile s fp wr =
     (case openVerified (fsOpen s) (fsBefore s) fp of
        Some e \<Rightarrow> (Some (Inr e), [])
      | None \<Rightarrow>
          (case copyReads wr 0 (fsReads s) [] of
             (Some e, out) \<Rightarrow> (Some e, out)
           | (None, out) \<Rightarrow> (map_option Inr (verifyHandle (fsAfter s) fp), out)))"

section \<open>The text view\<close>

definition maxPlainTextAlloc :: int where "maxPlainTextAlloc = 4 * 2 ^ 30"

text \<open>The rune shown for a byte: the byte itself, but for control characters.\<close>

definition latin1Rune :: "byte \<Rightarrow> rune" where
  "latin1Rune c =
     (if c = 0x09 \<or> c = 0x0A \<or> c = 0x0D then unat c
      else if c \<ge> 0x20 \<and> c \<noteq> 0x7F then unat c
      else runeError)"

definition latin1Decode :: "byte list \<Rightarrow> string" where
  "latin1Decode b = encodeRunes (map latin1Rune b)"

datatype cancelled = Canceled | DeadlineExceeded

datatype plainError = PlainCancelled cancelled | PlainTooLarge int | PlainFile fileError

record plainTextDocument =
  ptContent :: string
  ptTotalBytes :: int

text \<open>
  The read loop: the request is checked before each read (\<open>ctx\<close> answers the check of a given number). It
  ends at the end of the file, at an error, or at a read that gives neither bytes nor an error.
\<close>

fun readChunks :: "(nat \<Rightarrow> cancelled option) \<Rightarrow> nat \<Rightarrow> (byte list \<times> osError option option) list \<Rightarrow> byte list \<Rightarrow> plainError + (byte list \<times> nat)" where
  "readChunks ctx k [] buf = (case ctx k of Some c \<Rightarrow> Inl (PlainCancelled c) | None \<Rightarrow> Inr (buf, k + 1))"
| "readChunks ctx k ((chunk, e) # rs) buf =
     (case ctx k of
        Some c \<Rightarrow> Inl (PlainCancelled c)
      | None \<Rightarrow>
          (let buf1 = buf @ chunk in
           case e of
             Some None \<Rightarrow> Inr (buf1, k + 1)
           | Some (Some oe) \<Rightarrow> Inl (PlainFile (if isFileBusy oe then FileBusy else FileOs oe))
           | None \<Rightarrow> if chunk = [] then Inr (buf1, k + 1) else readChunks ctx (k + 1) rs buf1))"

definition readPlainText :: "(nat \<Rightarrow> cancelled option) \<Rightarrow> fileSession \<Rightarrow> int \<Rightarrow> fingerprint \<Rightarrow> plainError + plainTextDocument" where
  "readPlainText ctx s size_at_open fp =
     (if size_at_open > maxPlainTextAlloc then Inl (PlainTooLarge size_at_open)
      else let totalBytes = (if size_at_open < 0 then 0 else size_at_open) in
        case openVerified (fsOpen s) (fsBefore s) fp of
          Some e \<Rightarrow> Inl (PlainFile e)
        | None \<Rightarrow>
            (case readChunks ctx 0 (fsReads s) [] of
               Inl e \<Rightarrow> Inl e
             | Inr (buf, k) \<Rightarrow>
                 (case verifyHandle (fsAfter s) fp of
                    Some e \<Rightarrow> Inl (PlainFile e)
                  | None \<Rightarrow>
                      (case ctx k of
                         Some c \<Rightarrow> Inl (PlainCancelled c)
                       | None \<Rightarrow>
                           (let content = latin1Decode buf in
                            case ctx (k + 1) of
                              Some c \<Rightarrow> Inl (PlainCancelled c)
                            | None \<Rightarrow> Inr \<lparr> ptContent = content, ptTotalBytes = totalBytes \<rparr>)))))"

text \<open>
  \<^verbatim>\<open>GetPlainText\<close>: a caller who gave up gets nothing, a remembered text is answered, and only a finished read
  is remembered. \<open>PlainCancelled\<close>, the size limit and the two file sentinels are handed on as they are; any
  other error is wrapped.
\<close>

datatype plainAnswer = PlainText plainTextDocument | PlainRefused plainError | PlainWrapped osError

definition GetPlainText ::
    "cancelled option \<Rightarrow> (nat \<Rightarrow> cancelled option) \<Rightarrow> fileSession \<Rightarrow> int \<Rightarrow> fingerprint \<Rightarrow> plainTextDocument option
      \<Rightarrow> plainAnswer \<times> plainTextDocument option" where
  "GetPlainText before ctx s size_at_open fp cache =
     (case before of
        Some c \<Rightarrow> (PlainRefused (PlainCancelled c), cache)
      | None \<Rightarrow>
          (case cache of
             Some doc \<Rightarrow> (PlainText doc, cache)
           | None \<Rightarrow>
               (case readPlainText ctx s size_at_open fp of
                  Inr doc \<Rightarrow> (PlainText doc, Some doc)
                | Inl (PlainFile (FileOs e)) \<Rightarrow> (PlainWrapped e, None)
                | Inl e \<Rightarrow> (PlainRefused e, None))))"

section \<open>What a read returns\<close>

text \<open>The bytes the listed reads give, up to and with the one that ends the file.\<close>

fun delivered :: "(byte list \<times> osError option option) list \<Rightarrow> byte list" where
  "delivered [] = []"
| "delivered ((chunk, e) # rs) = chunk @ (case e of None \<Rightarrow> delivered rs | Some x \<Rightarrow> [])"

text \<open>The same file, with the size and the time it was opened with, at both ends of a session.\<close>

definition unchangedSession :: "fileSession \<Rightarrow> fingerprint \<Rightarrow> bool" where
  "unchangedSession s fp \<longleftrightarrow> fsOpen s = None \<and>
     (\<exists>known a b. fpInfo fp = Some known \<and> fsBefore s = Inr a \<and> fsAfter s = Inr b \<and>
        fiIdentity a = fiIdentity known \<and> fiIdentity b = fiIdentity known \<and>
        fiSize a = fpSize fp \<and> fiSize b = fpSize fp \<and> fiModTime a = fpModTime fp \<and> fiModTime b = fpModTime fp)"

lemma verifyHandle_None:
  "verifyHandle stat fp = None \<longleftrightarrow> (\<exists>fi known. stat = Inr fi \<and> fpInfo fp = Some known \<and> fiSize fi = fpSize fp \<and>
     fiModTime fi = fpModTime fp \<and> fiIdentity known = fiIdentity fi)"
  by (auto simp: verifyHandle_def fpMatches_def split: sum.splits option.splits)

lemma openVerified_None: "openVerified opened stat fp = None \<longleftrightarrow> opened = None \<and> verifyHandle stat fp = None"
  by (auto simp: openVerified_def split: option.splits)

lemma session_unchanged:
  "openVerified (fsOpen s) (fsBefore s) fp = None \<Longrightarrow> verifyHandle (fsAfter s) fp = None \<Longrightarrow> unchangedSession s fp"
  by (auto simp: openVerified_None verifyHandle_None unchangedSession_def)

lemma span_verified: "readFileSpan s fp a b = Inr buf \<Longrightarrow> unchangedSession s fp \<and> fsReadAt s (b - a) a = Inr buf"
  by (auto simp: readFileSpan_def session_unchanged split: option.splits sum.splits)

lemma copyReads_done:
  "copyReads wr k rs out = (None, out') \<Longrightarrow> out' = out @ delivered rs"
  by (induction wr k rs out rule: copyReads.induct) (auto simp: Let_def split: option.splits if_splits)

lemma readChunks_done:
  assumes "readChunks ctx k rs buf = Inr (out, m)" "\<forall>(chunk, e) \<in> set rs. chunk = [] \<longrightarrow> e \<noteq> None"
  shows "out = buf @ delivered rs \<and> k < m \<and> (\<forall>i. k \<le> i \<and> i < m \<longrightarrow> ctx i = None)"
  using assms
proof (induction ctx k rs buf rule: readChunks.induct)
  case (2 ctx k chunk e rs buf)
  show ?case
  proof (cases "ctx k")
    case None
    show ?thesis
    proof (cases e)
      case e: None
      with 2(3) have "chunk \<noteq> []" by auto
      with 2 None e have o: "out = (buf @ chunk) @ delivered rs" "k + 1 < m" and c: "\<forall>i. k + 1 \<le> i \<and> i < m \<longrightarrow> ctx i = None"
        by (auto simp: Let_def)
      have "ctx i = None" if "k \<le> i" "i < m" for i
        using None c that by (cases "i = k") auto
      with o e show ?thesis by simp
    qed (use 2 None in \<open>auto simp: Let_def less_Suc_eq split: option.splits\<close>)
  qed (use 2 in auto)
qed (auto simp: less_Suc_eq split: option.splits)

lemma latin1Rune_scalar: "scalarRune (latin1Rune c)"
  using unat_byte [of c] by (simp add: latin1Rune_def scalarRune_def runeError_def)

lemma runes_latin1: "runes (latin1Decode b) = map latin1Rune b"
  unfolding latin1Decode_def by (rule runes_encodeRunes) (simp add: list_all_iff latin1Rune_scalar)

text \<open>
  Claim C35. No byte of a changed file is ever shown or copied as the document's: a span, a copy and the text
  view succeed only when the handle had the opened file's identity, size and time before the first byte and
  after the last, and then hold exactly the bytes read. A copy of a file that changed before it began
  writes nothing. The text has one rune for every byte: the byte itself, or U+FFFD for a control character
  that is neither a tab nor a line end; and no check of the request was answered with a cancellation. What the text
  view remembers of an earlier reading is not spoken of.
\<close>

theorem file_reads_verified:
  "(readFileSpan s fp a b = Inr buf \<longrightarrow> unchangedSession s fp \<and> fsReadAt s (b - a) a = Inr buf) \<and>
   (CopyDocumentFile s fp wr = (None, out) \<longrightarrow> unchangedSession s fp \<and> out = delivered (fsReads s)) \<and>
   (openVerified (fsOpen s) (fsBefore s) fp \<noteq> None \<longrightarrow> snd (CopyDocumentFile s fp wr) = []) \<and>
   (readPlainText ctx s n fp = Inr doc \<longrightarrow> (\<forall>(chunk, e) \<in> set (fsReads s). chunk = [] \<longrightarrow> e \<noteq> None) \<longrightarrow>
      unchangedSession s fp \<and> runes (ptContent doc) = map latin1Rune (delivered (fsReads s)) \<and>
      ptTotalBytes doc = max 0 n \<and> n \<le> maxPlainTextAlloc \<and> ctx 0 = None)"
proof (rule conjI [OF impI conjI [OF impI conjI [OF impI impI [OF impI]]]])
  show "readFileSpan s fp a b = Inr buf \<Longrightarrow> unchangedSession s fp \<and> fsReadAt s (b - a) a = Inr buf"
    by (rule span_verified)
  show "CopyDocumentFile s fp wr = (None, out) \<Longrightarrow> unchangedSession s fp \<and> out = delivered (fsReads s)"
    using copyReads_done [of wr 0 "fsReads s" "[]" out]
    by (auto simp: CopyDocumentFile_def session_unchanged split: option.splits prod.splits)
  show "openVerified (fsOpen s) (fsBefore s) fp \<noteq> None \<Longrightarrow> snd (CopyDocumentFile s fp wr) = []"
    by (auto simp: CopyDocumentFile_def)
  assume doc: "readPlainText ctx s n fp = Inr doc" and prompt: "\<forall>(chunk, e) \<in> set (fsReads s). chunk = [] \<longrightarrow> e \<noteq> None"
  from doc obtain buf k where "openVerified (fsOpen s) (fsBefore s) fp = None" "verifyHandle (fsAfter s) fp = None"
    and r: "readChunks ctx 0 (fsReads s) [] = Inr (buf, k)" and d: "ptContent doc = latin1Decode buf" "ptTotalBytes doc = max 0 n"
    "n \<le> maxPlainTextAlloc"
    by (auto simp: readPlainText_def Let_def not_less split: if_splits option.splits sum.splits prod.splits)
  then have "unchangedSession s fp" by (simp add: session_unchanged)
  with readChunks_done [OF r prompt] d runes_latin1
  show "unchangedSession s fp \<and> runes (ptContent doc) = map latin1Rune (delivered (fsReads s)) \<and>
      ptTotalBytes doc = max 0 n \<and> n \<le> maxPlainTextAlloc \<and> ctx 0 = None" by simp
qed

definition exampleInfo :: fileInfo where
  "exampleInfo = \<lparr> fiSize = 3, fiModTime = 5, fiIdentity = 1 \<rparr>"

definition exampleSession :: fileSession where
  "exampleSession = \<lparr> fsOpen = None, fsBefore = Inr exampleInfo, fsAfter = Inr exampleInfo,
     fsReadAt = (\<lambda>n a. Inr [65]), fsReads = [([65, 0], None), ([66], Some None)] \<rparr>"

theorem file_reads_verified_witness:
  "readFileSpan exampleSession (newFileFingerprint exampleInfo) 0 1 = Inr [65] \<and>
   unchangedSession exampleSession (newFileFingerprint exampleInfo) \<and>
   CopyDocumentFile exampleSession (newFileFingerprint exampleInfo) (\<lambda>k. None) = (None, [65, 0, 66]) \<and>
   (\<exists>doc. readPlainText (\<lambda>k. None) exampleSession 3 (newFileFingerprint exampleInfo) = Inr doc \<and>
      runes (ptContent doc) = [65, runeError, 66])"
proof -
  let ?fp = "newFileFingerprint exampleInfo"
  note ex = newFileFingerprint_def exampleInfo_def exampleSession_def openVerified_def verifyHandle_def fpMatches_def
  have span: "readFileSpan exampleSession ?fp 0 1 = Inr [65]" by (simp add: readFileSpan_def ex)
  have copy: "CopyDocumentFile exampleSession ?fp (\<lambda>k. None) = (None, [65, 0, 66])" by (simp add: CopyDocumentFile_def ex)
  obtain doc where doc: "readPlainText (\<lambda>k. None) exampleSession 3 ?fp = Inr doc"
    by (simp add: readPlainText_def ex maxPlainTextAlloc_def Let_def)
  have "\<forall>(chunk, e) \<in> set (fsReads exampleSession). chunk = [] \<longrightarrow> e \<noteq> None" by (simp add: exampleSession_def)
  from file_reads_verified [THEN conjunct2, THEN conjunct2, THEN conjunct2, THEN mp, OF doc, THEN mp, OF this] have "runes (ptContent doc) = [65, runeError, 66]"
    by (simp add: exampleSession_def latin1Rune_def)
  with span copy doc file_reads_verified [THEN conjunct1, THEN mp, OF span]
    file_reads_verified [THEN conjunct2, THEN conjunct1, THEN mp, OF copy] show ?thesis by blast
qed

end
