(* ===== verification/Signatures.thy ===== *)
theory Signatures
  imports FileChange ScalarRender Embedded Ber
begin

text \<open>
  Signature fields (\<^verbatim>\<open>internal/pdfcore/signature.go\<close>, \<^verbatim>\<open>signature_cert.go\<close>): the walk over the form's fields, the
  facts of one signature, the measurement of its \<open>/ByteRange\<close> with the check of the hole on disk, and the
  decomposition of the certificates. ASN.1 and X.509 parsing, the string decoders and the date parser of the
  PDF library are parameters; the BER normalizer before them is the model of theory \<open>Ber\<close>.
\<close>

section \<open>Certificates\<close>

text \<open>What the X.509 parser gives of a certificate; distinguished names and times already as text.\<close>

record certificate =
  ctSubject :: string
  ctIssuer :: string
  ctSerial :: int
  ctNotBefore :: string
  ctNotAfter :: string
  ctExtensions :: "(string \<times> byte list) list"
  ctKeyUsage :: nat
  ctCRLDistributionPoints :: "string list"
  ctOCSPServer :: "string list"
  ctIssuingCertificateURL :: "string list"
  ctRaw :: "byte list"
  ctRawIssuer :: "byte list"
  ctSubjectKeyId :: "byte list"

record certInfo =
  ciSubject :: string
  ciIssuer :: string
  ciSerial :: string
  ciNotBefore :: string
  ciNotAfter :: string
  ciKeyUsage :: "string list option"
  ciExtKeyUsage :: "(string \<times> string) list option"
  ciCRLDistributionPoints :: "string list option"
  ciOCSPServers :: "string list option"
  ciCAIssuers :: "string list option"

definition keyUsageNames :: "string list" where
  "keyUsageNames = [''digitalSignature'', ''nonRepudiation'', ''keyEncipherment'', ''dataEncipherment'', ''keyAgreement'',
     ''keyCertSign'', ''cRLSign'', ''encipherOnly'', ''decipherOnly'']"

definition extKeyUsageNames :: "(string \<times> string) list" where
  "extKeyUsageNames = [(''2.5.29.37.0'', ''anyExtendedKeyUsage''), (''1.3.6.1.5.5.7.3.1'', ''serverAuth''),
     (''1.3.6.1.5.5.7.3.2'', ''clientAuth''), (''1.3.6.1.5.5.7.3.3'', ''codeSigning''),
     (''1.3.6.1.5.5.7.3.4'', ''emailProtection''), (''1.3.6.1.5.5.7.3.5'', ''ipsecEndSystem''),
     (''1.3.6.1.5.5.7.3.6'', ''ipsecTunnel''), (''1.3.6.1.5.5.7.3.7'', ''ipsecUser''),
     (''1.3.6.1.5.5.7.3.8'', ''timeStamping''), (''1.3.6.1.5.5.7.3.9'', ''OCSPSigning''),
     (''1.3.6.1.5.5.7.3.36'', ''documentSigning''), (''1.2.840.113583.1.1.5'', ''adobeAuthenticDocumentsTrust'')]"

definition oidCertKeyUsage :: string where "oidCertKeyUsage = ''2.5.29.15''"
definition oidCertExtKeyUsage :: string where "oidCertExtKeyUsage = ''2.5.29.37''"
definition oidCertCRLDP :: string where "oidCertCRLDP = ''2.5.29.31''"
definition oidCertAIA :: string where "oidCertAIA = ''1.3.6.1.5.5.7.1.1''"

text \<open>The names of the bits that are set, in bit order.\<close>

definition keyUsageBits :: "nat \<Rightarrow> string list" where
  "keyUsageBits usage = map snd (filter (\<lambda>(i, _). odd (usage div 2 ^ i)) (enumerate 0 keyUsageNames))"

definition extKeyUsageName :: "string \<Rightarrow> string" where
  "extKeyUsageName oid = (case map_of extKeyUsageNames oid of None \<Rightarrow> [] | Some n \<Rightarrow> n)"

text \<open>One extension; \<open>oids\<close> is the parse of a sequence of object identifiers.\<close>

definition withExtension :: "(byte list \<Rightarrow> string list option) \<Rightarrow> certificate \<Rightarrow> string \<times> byte list \<Rightarrow> certInfo \<Rightarrow> certInfo" where
  "withExtension oids c ext ci =
     (if fst ext = oidCertKeyUsage then ci\<lparr>ciKeyUsage := Some (keyUsageBits (ctKeyUsage c))\<rparr>
      else if fst ext = oidCertExtKeyUsage then
        ci\<lparr>ciExtKeyUsage := Some (case oids (snd ext) of None \<Rightarrow> [] | Some os \<Rightarrow> map (\<lambda>oid. (oid, extKeyUsageName oid)) os)\<rparr>
      else if fst ext = oidCertCRLDP then ci\<lparr>ciCRLDistributionPoints := Some (ctCRLDistributionPoints c)\<rparr>
      else if fst ext = oidCertAIA then
        ci\<lparr>ciOCSPServers := Some (ctOCSPServer c), ciCAIssuers := Some (ctIssuingCertificateURL c)\<rparr>
      else ci)"

definition certInfoFrom :: "(byte list \<Rightarrow> string list option) \<Rightarrow> certificate \<Rightarrow> certInfo" where
  "certInfoFrom oids c =
     fold (withExtension oids c) (ctExtensions c)
       \<lparr> ciSubject = ctSubject c, ciIssuer = ctIssuer c, ciSerial = showInt (ctSerial c), ciNotBefore = ctNotBefore c,
         ciNotAfter = ctNotAfter c, ciKeyUsage = None, ciExtKeyUsage = None, ciCRLDistributionPoints = None,
         ciOCSPServers = None, ciCAIssuers = None \<rparr>"

section \<open>The parsers\<close>

text \<open>The class and tag of a signer identifier, its whole encoding and its content.\<close>

record rawValue =
  rvClass :: nat
  rvTag :: nat
  rvFullBytes :: "byte list"
  rvBytes :: "byte list"

record signerInfo =
  siSID :: rawValue
  siDigestAlgorithm :: string
  siSignatureAlgorithm :: string

record signedData =
  sdCertificates :: "byte list"
  sdSignerInfos :: "signerInfo list"

text \<open>
  \<open>clContentInfo\<close> gives the content type and the content, \<open>clSignedData\<close> the structure and how many bytes follow
  it, \<open>clIssuerSerial\<close> an issuer's encoding and a serial number, \<open>clRawValue\<close> the first element's encoding;
  \<open>clHexBytes\<close>, \<open>clUnescape\<close> and \<open>clDateTime\<close> are the PDF library's. An error is its text.
\<close>

record cmsLib =
  clContentInfo :: "byte list \<Rightarrow> string + string \<times> byte list"
  clSignedData :: "byte list \<Rightarrow> string + signedData \<times> nat"
  clIssuerSerial :: "byte list \<Rightarrow> (byte list \<times> int option) option"
  clRawValue :: "byte list \<Rightarrow> byte list option"
  clCertificates :: "byte list \<Rightarrow> string + certificate list"
  clCertificate :: "byte list \<Rightarrow> certificate option"
  clOids :: "byte list \<Rightarrow> string list option"
  clHexBytes :: "string \<Rightarrow> string + byte list"
  clUnescape :: "string \<Rightarrow> string + byte list"
  clDateTime :: "string \<Rightarrow> string option"
  clFoldUnicode :: "string \<Rightarrow> string \<Rightarrow> bool"

text \<open>What a walk works on: the document, the file as it was opened, and its openings one after the other.\<close>

record sigEnv =
  seText :: textLib
  seCms :: cmsLib
  seDoc :: pdfDoc
  seFileSize :: int
  seFingerprint :: fingerprint
  seSessions :: "nat \<Rightarrow> fileSession"

section \<open>One field\<close>

datatype cmsError = EmptyPayload | NormalizeFailed berError | BadASN1 string | NotSignedData string | NoCMSContent

datatype decomposeError = ContentsUnreadable string | CMSParseFailed cmsError | CertificateSetFailed string | NoCertificateReadable

datatype coverageError =
    ByteRangeMissing | ByteRangeNotArray | ByteRangeNonInteger | ByteRangeOdd nat | ByteRangeCount nat
  | ByteRangeNegative | ByteRangeBeyondFile | ByteRangePastEnd | ByteRangeOverlap

datatype sigNote = TrustNote | NotDecomposed | InnerBytes nat | NoSignerInfo | SignerNotPresent | CertsFromCert

record sigField =
  sfFieldName :: string
  sfFieldNodeID :: string
  sfSigned :: bool
  sfSignatureRef :: string
  sfSignatureNodeID :: string
  sfSubFilter :: string
  sfType :: string
  sfSigningTimeRaw :: string
  sfSigningTime :: string
  sfName :: string
  sfReason :: string
  sfLocation :: string
  sfContactInfo :: string
  sfDigestAlgorithm :: string
  sfSignatureAlgorithm :: string
  sfSigner :: "certInfo option"
  sfSignerIdentified :: bool
  sfCertificates :: "certInfo list"
  sfNotes :: "sigNote list"
  sfDecomposeError :: "decomposeError option"
  sfByteRange :: "int list option"
  sfCoversWholeFile :: bool
  sfTrailingGap :: int
  sfHoleMatchesContents :: bool
  sfCoverageError :: "coverageError option"
  sfHoleCheckError :: "fileError option"
  sfCMSEncoding :: string
  sfCMSTrailingBytes :: "(nat \<times> nat) option"

definition emptyField :: "string \<Rightarrow> string \<Rightarrow> sigField" where
  "emptyField name nodeID = \<lparr> sfFieldName = name, sfFieldNodeID = nodeID, sfSigned = False, sfSignatureRef = [],
     sfSignatureNodeID = [], sfSubFilter = [], sfType = [], sfSigningTimeRaw = [], sfSigningTime = [], sfName = [],
     sfReason = [], sfLocation = [], sfContactInfo = [], sfDigestAlgorithm = [], sfSignatureAlgorithm = [],
     sfSigner = None, sfSignerIdentified = False, sfCertificates = [], sfNotes = [], sfDecomposeError = None,
     sfByteRange = None, sfCoversWholeFile = False, sfTrailingGap = 0, sfHoleMatchesContents = False,
     sfCoverageError = None, sfHoleCheckError = None, sfCMSEncoding = [], sfCMSTrailingBytes = None \<rparr>"

text \<open>The bytes a field can export.\<close>

record sigBytes =
  sbCMS :: "byte list option"
  sbCMSUndelimited :: "cmsError option"
  sbCertificates :: "byte list list"

definition noBytes :: sigBytes where
  "noBytes = \<lparr> sbCMS = None, sbCMSUndelimited = None, sbCertificates = [] \<rparr>"

text \<open>\<^verbatim>\<open>holeRead\<close>: the refusal that later holes repeat; the count of openings says which one comes next.\<close>

record holeRead =
  hrRefused :: "fileError option"
  hrOpened :: nat

section \<open>Strings as bytes\<close>

definition stringBytes :: "string \<Rightarrow> byte list" where
  "stringBytes s = map (\<lambda>c. word_of_nat (byteOf c)) s"

definition bytesString :: "byte list \<Rightarrow> string" where
  "bytesString b = map (\<lambda>x. charOf (unat x)) b"

text \<open>The two \<^verbatim>\<open>ReplaceAll\<close> calls: CRLF, then CR, become LF.\<close>

fun replaceCRLF :: "string \<Rightarrow> string" where
  "replaceCRLF (a # b # s) = (if a = CHR 0x0D \<and> b = CHR 0x0A then CHR 0x0A # replaceCRLF s else a # replaceCRLF (b # s))"
| "replaceCRLF s = s"

definition replaceCR :: "string \<Rightarrow> string" where
  "replaceCR s = map (\<lambda>c. if c = CHR 0x0D then CHR 0x0A else c) s"

text \<open>A read that panics is the outer \<open>Inl\<close>; the inner one is the call's error.\<close>

definition pdfStringBytes :: "cmsLib \<Rightarrow> pdfDoc \<Rightarrow> pdfObj \<Rightarrow> string + (string + byte list)" where
  "pdfStringBytes cl doc v =
     (case derefIn doc v of
        Inl p \<Rightarrow> Inl p
      | Inr (PHex s) \<Rightarrow> Inr (clHexBytes cl s)
      | Inr (PString s) \<Rightarrow> Inr (clUnescape cl (replaceCR (replaceCRLF s)))
      | Inr PNull \<Rightarrow> Inr (Inl ''entry missing'')
      | Inr _ \<Rightarrow> Inr (Inl ''entry is not a string''))"

definition pdfWhitespace :: "rune \<Rightarrow> bool" where
  "pdfWhitespace r \<longleftrightarrow> r \<in> {0, 9, 10, 12, 13, 32}"

definition stripPDFWhitespace :: "string \<Rightarrow> string" where
  "stripPDFWhitespace s = encodeRunes (filter (\<lambda>r. \<not> pdfWhitespace r) (runes s))"

text \<open>\<^verbatim>\<open>strings.EqualFold\<close>: Unicode's case folding is a parameter, used only when a character is not ASCII.\<close>

definition asciiLower :: "char \<Rightarrow> char" where
  "asciiLower c = (if 65 \<le> byteOf c \<and> byteOf c \<le> 90 then charOf (byteOf c + 32) else c)"

definition isASCIIString :: "string \<Rightarrow> bool" where
  "isASCIIString s \<longleftrightarrow> list_all (\<lambda>c. byteOf c < 128) s"

definition equalFold :: "(string \<Rightarrow> string \<Rightarrow> bool) \<Rightarrow> string \<Rightarrow> string \<Rightarrow> bool" where
  "equalFold uni a b = (if isASCIIString a \<and> isASCIIString b then map asciiLower a = map asciiLower b else uni a b)"

section \<open>The hole on disk\<close>

definition maxHoleProbeBytes :: int where "maxHoleProbeBytes = 4 * 1024 * 1024"

text \<open>What the bytes of the excluded span must be for a match.\<close>

definition spanMatches :: "cmsLib \<Rightarrow> string \<Rightarrow> byte list \<Rightarrow> bool" where
  "spanMatches cl hx sp \<longleftrightarrow>
     2 \<le> length sp \<and> hd sp = 0x3C \<and> last sp = 0x3E \<and>
     equalFold (clFoldUnicode cl) (stripPDFWhitespace (bytesString (butlast (tl sp)))) (stripPDFWhitespace hx)"

definition holeMatchesContents ::
    "sigEnv \<Rightarrow> holeRead \<Rightarrow> pdfDict \<Rightarrow> int \<Rightarrow> int \<Rightarrow> string + (bool \<times> fileError option) \<times> holeRead" where
  "holeMatchesContents env hr sig holeStart holeEnd =
     (case derefIn (seDoc env) (dictGet sig ''Contents'') of
        Inl p \<Rightarrow> Inl p
      | Inr (PHex hx) \<Rightarrow>
          Inr (if holeEnd \<le> holeStart \<or> wrap64 (holeEnd - holeStart) > maxHoleProbeBytes then ((False, None), hr)
               else if hrRefused hr \<noteq> None then ((False, hrRefused hr), hr)
               else let hr1 = hr\<lparr>hrOpened := hrOpened hr + 1\<rparr> in
                 case readFileSpan (seSessions env (hrOpened hr)) (seFingerprint env) holeStart holeEnd of
                   Inl FileChanged \<Rightarrow> ((False, Some FileChanged), hr1\<lparr>hrRefused := Some FileChanged\<rparr>)
                 | Inl FileBusy \<Rightarrow> ((False, Some FileBusy), hr1\<lparr>hrRefused := Some FileBusy\<rparr>)
                 | Inl (FileOs e) \<Rightarrow> ((False, None), hr1)
                 | Inr sp \<Rightarrow> ((spanMatches (seCms env) hx sp, None), hr1))
      | Inr _ \<Rightarrow> Inr ((False, None), hr))"

section \<open>The byte range\<close>

text \<open>The entries as integers: a read that panics, an entry that is none, or all of them.\<close>

fun rangeInts :: "pdfDoc \<Rightarrow> pdfObj list \<Rightarrow> string + int list option" where
  "rangeInts doc [] = Inr (Some [])"
| "rangeInts doc (e # es) =
     (case derefIn doc e of
        Inl p \<Rightarrow> Inl p
      | Inr (PInt n) \<Rightarrow> (case rangeInts doc es of Inl p \<Rightarrow> Inl p | Inr None \<Rightarrow> Inr None | Inr (Some ns) \<Rightarrow> Inr (Some (n # ns)))
      | Inr _ \<Rightarrow> Inr None)"

text \<open>The checks on the entries, in the order of the loop.\<close>

fun boundedInts :: "int \<Rightarrow> int list \<Rightarrow> coverageError option" where
  "boundedInts size_of_file [] = None"
| "boundedInts size_of_file (n # ns) =
     (if n < 0 then Some ByteRangeNegative else if n > size_of_file then Some ByteRangeBeyondFile else boundedInts size_of_file ns)"

datatype rangeCheck = RangeBad coverageError | RangeOK int int int int

definition checkRange :: "int \<Rightarrow> int list \<Rightarrow> rangeCheck" where
  "checkRange size_of_file ints =
     (if length ints mod 2 = 1 then RangeBad (ByteRangeOdd (length ints))
      else case ints of
        [start1, len1, start2, len2] \<Rightarrow>
          (case boundedInts size_of_file ints of
             Some e \<Rightarrow> RangeBad e
           | None \<Rightarrow>
               if wrap64 (start1 + len1) > size_of_file \<or> wrap64 (start2 + len2) > size_of_file then RangeBad ByteRangePastEnd
               else if start2 < wrap64 (start1 + len1) then RangeBad ByteRangeOverlap
               else RangeOK start1 (wrap64 (start1 + len1)) start2 (wrap64 (start2 + len2)))
      | _ \<Rightarrow> RangeBad (ByteRangeCount (length ints)))"

definition computeByteRangeCoverage :: "sigEnv \<Rightarrow> holeRead \<Rightarrow> pdfDict \<Rightarrow> sigField \<Rightarrow> string + sigField \<times> holeRead" where
  "computeByteRangeCoverage env hr sig f =
     (case dictFind sig ''ByteRange'' of
        None \<Rightarrow> Inr (f\<lparr>sfCoverageError := Some ByteRangeMissing\<rparr>, hr)
      | Some brObj \<Rightarrow>
          (case derefIn (seDoc env) brObj of
             Inl p \<Rightarrow> Inl p
           | Inr (PArray arr) \<Rightarrow>
               (case rangeInts (seDoc env) arr of
                  Inl p \<Rightarrow> Inl p
                | Inr None \<Rightarrow> Inr (f\<lparr>sfCoverageError := Some ByteRangeNonInteger\<rparr>, hr)
                | Inr (Some ints) \<Rightarrow>
                    (let f1 = f\<lparr>sfByteRange := Some ints\<rparr> in
                     case checkRange (seFileSize env) ints of
                       RangeBad e \<Rightarrow> Inr (f1\<lparr>sfCoverageError := Some e\<rparr>, hr)
                     | RangeOK start1 holeStart start2 end2 \<Rightarrow>
                         (let gap = wrap64 (seFileSize env - end2);
                              f2 = f1\<lparr>sfTrailingGap := gap, sfCoversWholeFile := (start1 = 0 \<and> gap = 0)\<rparr> in
                          case holeMatchesContents env hr sig holeStart start2 of
                            Inl p \<Rightarrow> Inl p
                          | Inr ((match, err), hr1) \<Rightarrow>
                              Inr (f2\<lparr>sfHoleMatchesContents := match, sfHoleCheckError := err\<rparr>, hr1))))
           | Inr _ \<Rightarrow> Inr (f\<lparr>sfCoverageError := Some ByteRangeNotArray\<rparr>, hr)))"

section \<open>Decomposing a CMS payload\<close>

definition oidCMSSignedData :: string where "oidCMSSignedData = ''1.2.840.113549.1.7.2''"

definition cmsAlgorithmNames :: "(string \<times> string) list" where
  "cmsAlgorithmNames = [(''1.3.14.3.2.26'', ''SHA-1''), (''2.16.840.1.101.3.4.2.1'', ''SHA-256''),
     (''2.16.840.1.101.3.4.2.2'', ''SHA-384''), (''2.16.840.1.101.3.4.2.3'', ''SHA-512''),
     (''1.2.840.113549.1.1.1'', ''RSA''), (''1.2.840.113549.1.1.5'', ''RSA with SHA-1''),
     (''1.2.840.113549.1.1.10'', ''RSA-PSS''), (''1.2.840.113549.1.1.11'', ''RSA with SHA-256''),
     (''1.2.840.113549.1.1.12'', ''RSA with SHA-384''), (''1.2.840.113549.1.1.13'', ''RSA with SHA-512''),
     (''1.2.840.10045.2.1'', ''ECDSA''), (''1.2.840.10045.4.3.2'', ''ECDSA with SHA-256''),
     (''1.2.840.10045.4.3.3'', ''ECDSA with SHA-384''), (''1.2.840.10045.4.3.4'', ''ECDSA with SHA-512''),
     (''1.2.840.113549.1.1.2.1'', ''SHA-1''), (''1.2.840.113549.2.5'', ''MD5'')]"

definition algorithmName :: "string \<Rightarrow> string" where
  "algorithmName oid = (case map_of cmsAlgorithmNames oid of Some n \<Rightarrow> n | None \<Rightarrow> oid)"

text \<open>\<^verbatim>\<open>unmarshalCMS\<close>: the structure and how many bytes follow it inside the wrapper.\<close>

definition unmarshalCMS :: "cmsLib \<Rightarrow> byte list \<Rightarrow> cmsError + signedData \<times> nat" where
  "unmarshalCMS cl der =
     (case clContentInfo cl der of
        Inl e \<Rightarrow> Inl (BadASN1 e)
      | Inr (contentType, content) \<Rightarrow>
          if contentType \<noteq> oidCMSSignedData then Inl (NotSignedData contentType)
          else if content = [] then Inl NoCMSContent
          else (case clSignedData cl content of Inl e \<Rightarrow> Inl (BadASN1 e) | Inr r \<Rightarrow> Inr r))"

record cmsParse =
  cpEncoding :: string
  cpEnd :: nat
  cpTail :: berTail
  cpInnerRest :: nat

definition emptyParse :: cmsParse where
  "emptyParse = \<lparr> cpEncoding = [], cpEnd = 0, cpTail = \<lparr>tailOffset = 0, tailCount = 0\<rparr>, cpInnerRest = 0 \<rparr>"

text \<open>\<^verbatim>\<open>parseCMSSignedData\<close>: what was read is filled in as far as it got, with the structure or the error.\<close>

definition parseCMSSignedData :: "cmsLib \<Rightarrow> byte list \<Rightarrow> cmsParse \<times> (cmsError + signedData)" where
  "parseCMSSignedData cl raw =
     (if raw = [] then (emptyParse, Inl EmptyPayload)
      else (case normalizeBER raw of
              Inl e \<Rightarrow> (emptyParse, Inl (NormalizeFailed e))
            | Inr (der, isBER, fin, rest) \<Rightarrow>
                (let res = \<lparr> cpEncoding = (if isBER then ''BER'' else ''DER''), cpEnd = fin, cpTail = rest, cpInnerRest = 0 \<rparr> in
                 case unmarshalCMS cl der of
                   Inl e \<Rightarrow> (res, Inl e)
                 | Inr (sd, innerRest) \<Rightarrow> (res\<lparr>cpInnerRest := innerRest\<rparr>, Inr sd))))"

text \<open>\<^verbatim>\<open>matchSignerCert\<close>: the first certificate the signer's identifier names.\<close>

definition matchSignerCert :: "cmsLib \<Rightarrow> signerInfo \<Rightarrow> certificate list \<Rightarrow> certificate option" where
  "matchSignerCert cl si certs =
     (let sid = siSID si in
      if rvClass sid = 0 \<and> rvTag sid = 16 then
        (case clIssuerSerial cl (rvFullBytes sid) of
           Some (issuer, Some serial) \<Rightarrow> find (\<lambda>c. ctSerial c = serial \<and> ctRawIssuer c = issuer) certs
         | _ \<Rightarrow> None)
      else if rvClass sid = 2 \<and> rvTag sid = 0 then
        find (\<lambda>c. ctSubjectKeyId c \<noteq> [] \<and> ctSubjectKeyId c = rvBytes sid) certs
      else None)"

definition addNote :: "sigNote \<Rightarrow> sigField \<Rightarrow> sigField" where
  "addNote n f = f\<lparr>sfNotes := sfNotes f @ [n]\<rparr>"

text \<open>The signer and the algorithms of the first SignerInfo.\<close>

definition describeSigner :: "cmsLib \<Rightarrow> signedData \<Rightarrow> certificate list \<Rightarrow> sigField \<Rightarrow> sigField" where
  "describeSigner cl sd certs f =
     (case sdSignerInfos sd of
        [] \<Rightarrow> addNote NoSignerInfo f
      | si # _ \<Rightarrow>
          (let f1 = f\<lparr>sfDigestAlgorithm := algorithmName (siDigestAlgorithm si),
                     sfSignatureAlgorithm := algorithmName (siSignatureAlgorithm si)\<rparr> in
           case matchSignerCert cl si certs of
             Some signer \<Rightarrow> f1\<lparr>sfSigner := Some (certInfoFrom (clOids cl) signer), sfSignerIdentified := True\<rparr>
           | None \<Rightarrow> addNote SignerNotPresent f1))"

text \<open>The bytes exported for a payload: what was delimited, or everything with the error.\<close>

definition exportCMS :: "byte list \<Rightarrow> cmsParse \<times> (cmsError + signedData) \<Rightarrow> sigBytes \<Rightarrow> sigBytes" where
  "exportCMS raw res sb =
     (if cpEncoding (fst res) = [] then
        sb\<lparr>sbCMS := Some raw, sbCMSUndelimited := (case snd res of Inl e \<Rightarrow> Some e | Inr _ \<Rightarrow> None)\<rparr>
      else sb\<lparr>sbCMS := Some (take (cpEnd (fst res)) raw)\<rparr>)"

definition decomposeCMS :: "sigEnv \<Rightarrow> pdfDict \<Rightarrow> sigField \<Rightarrow> sigBytes option \<Rightarrow> string + sigField \<times> sigBytes option" where
  "decomposeCMS env sig f sb =
     (let cl = seCms env in
      case pdfStringBytes cl (seDoc env) (dictGet sig ''Contents'') of
        Inl p \<Rightarrow> Inl p
      | Inr (Inl e) \<Rightarrow> Inr (f\<lparr>sfDecomposeError := Some (ContentsUnreadable e)\<rparr>, sb)
      | Inr (Inr raw) \<Rightarrow>
          (let res = parseCMSSignedData cl raw;
               sb1 = map_option (exportCMS raw res) sb;
               f1 = f\<lparr>sfCMSEncoding := cpEncoding (fst res)\<rparr>;
               f2 = (if tailCount (cpTail (fst res)) > 0
                     then f1\<lparr>sfCMSTrailingBytes := Some (tailOffset (cpTail (fst res)), tailCount (cpTail (fst res)))\<rparr> else f1);
               f3 = (if cpInnerRest (fst res) > 0 then addNote (InnerBytes (cpInnerRest (fst res))) f2 else f2)
           in case snd res of
                Inl e \<Rightarrow> Inr (f3\<lparr>sfDecomposeError := Some (CMSParseFailed e)\<rparr>, sb1)
              | Inr sd \<Rightarrow>
                  (case clCertificates cl (sdCertificates sd) of
                     Inl e \<Rightarrow> Inr (f3\<lparr>sfDecomposeError := Some (CertificateSetFailed e)\<rparr>, sb1)
                   | Inr certs \<Rightarrow>
                       Inr (describeSigner cl sd certs (f3\<lparr>sfCertificates := sfCertificates f3 @ map (certInfoFrom (clOids cl)) certs\<rparr>),
                            map_option (\<lambda>b. b\<lparr>sbCertificates := sbCertificates b @ map ctRaw certs\<rparr>) sb1))))"

section \<open>Certificates of the \<open>/Cert\<close> entry\<close>

text \<open>One string of the entry: its certificate with its exact encoding, when it holds one.\<close>

definition certOfString :: "cmsLib \<Rightarrow> pdfDoc \<Rightarrow> pdfObj \<Rightarrow> string + (certificate \<times> byte list) option" where
  "certOfString cl doc b =
     (case pdfStringBytes cl doc b of
        Inl p \<Rightarrow> Inl p
      | Inr (Inl e) \<Rightarrow> Inr None
      | Inr (Inr der) \<Rightarrow>
          Inr (case clRawValue cl der of
                 None \<Rightarrow> None
               | Some full \<Rightarrow> map_option (\<lambda>c. (c, full)) (clCertificate cl full)))"

definition addCert :: "cmsLib \<Rightarrow> pdfDoc \<Rightarrow> pdfObj \<Rightarrow> sigField \<times> sigBytes option \<Rightarrow> string + sigField \<times> sigBytes option" where
  "addCert cl doc b st =
     (case certOfString cl doc b of
        Inl p \<Rightarrow> Inl p
      | Inr None \<Rightarrow> Inr st
      | Inr (Some (c, full)) \<Rightarrow>
          Inr ((fst st)\<lparr>sfCertificates := sfCertificates (fst st) @ [certInfoFrom (clOids cl) c]\<rparr>,
               map_option (\<lambda>s. s\<lparr>sbCertificates := sbCertificates s @ [full]\<rparr>) (snd st)))"

definition decomposeCertEntry :: "sigEnv \<Rightarrow> pdfDict \<Rightarrow> sigField \<Rightarrow> sigBytes option \<Rightarrow> string + sigField \<times> sigBytes option" where
  "decomposeCertEntry env sig f sb =
     (case derefIn (seDoc env) (dictGet sig ''Cert'') of
        Inl p \<Rightarrow> Inl p
      | Inr certObj \<Rightarrow>
          (let blobs = (case asArray certObj of Some arr \<Rightarrow> arr | None \<Rightarrow> if certObj \<noteq> PNull then [certObj] else []) in
           case foldSum (addCert (seCms env) (seDoc env)) blobs (addNote CertsFromCert f, sb) of
             Inl p \<Rightarrow> Inl p
           | Inr (f1, sb1) \<Rightarrow>
               (case sfCertificates f1 of
                  [] \<Rightarrow> Inr (f1\<lparr>sfDecomposeError := Some NoCertificateReadable\<rparr>, sb1)
                | signer # _ \<Rightarrow> Inr (f1\<lparr>sfSigner := Some signer, sfSignerIdentified := True\<rparr>, sb1))))"

section \<open>One signature field\<close>

definition IsCMSSubFilter :: "string \<Rightarrow> bool" where
  "IsCMSSubFilter sub \<longleftrightarrow> hasPrefix sub ''adbe.pkcs7.'' \<or> hasPrefix sub ''ETSI.CAdES'' \<or> sub = ''ETSI.RFC3161''"

text \<open>The signature dictionary of a field with the reference it is reached by; \<open>None\<close>: there is none.\<close>

definition signatureDict :: "pdfDoc \<Rightarrow> pdfDict \<Rightarrow> string + (pdfDict \<times> (int \<times> int) option) option" where
  "signatureDict doc field =
     (case dictFind field ''V'' of
        None \<Rightarrow> Inr None
      | Some vObj \<Rightarrow>
          (case asRef vObj of
             Some r \<Rightarrow> (case derefDict doc vObj of Inl p \<Rightarrow> Inl p | Inr d \<Rightarrow> Inr (map_option (\<lambda>s. (s, Some r)) d))
           | None \<Rightarrow> Inr (map_option (\<lambda>s. (s, None)) (asDict vObj))))"

definition textEntry :: "sigEnv \<Rightarrow> pdfDict \<Rightarrow> string \<Rightarrow> string + string" where
  "textEntry env sig key =
     (case derefIn (seDoc env) (dictGet sig key) of Inl p \<Rightarrow> Inl p | Inr v \<Rightarrow> Inr (textStringOrRaw (seText env) v))"

text \<open>The dictionary's own entries, in the order they are read.\<close>

definition describeEntries :: "sigEnv \<Rightarrow> pdfDict \<Rightarrow> sigField \<Rightarrow> string + sigField" where
  "describeEntries env sig f =
     bindSum (derefIn (seDoc env) (dictGet sig ''SubFilter'')) (\<lambda>sub.
     bindSum (textEntry env sig ''M'') (\<lambda>raw.
     bindSum (textEntry env sig ''Name'') (\<lambda>nm.
     bindSum (textEntry env sig ''Reason'') (\<lambda>reason.
     bindSum (textEntry env sig ''Location'') (\<lambda>loc.
     bindSum (textEntry env sig ''ContactInfo'') (\<lambda>contact.
       Inr (f\<lparr> sfSubFilter := nameOf sub, sfSigningTimeRaw := raw,
              sfSigningTime := (if raw = [] then [] else case clDateTime (seCms env) raw of Some t \<Rightarrow> t | None \<Rightarrow> []),
              sfName := nm, sfReason := reason, sfLocation := loc, sfContactInfo := contact \<rparr>)))))))"

definition decomposeBy :: "sigEnv \<Rightarrow> pdfDict \<Rightarrow> sigField \<Rightarrow> sigBytes option \<Rightarrow> string + sigField \<times> sigBytes option" where
  "decomposeBy env sig f sb =
     (if IsCMSSubFilter (sfSubFilter f) then
        decomposeCMS env sig (if sfSubFilter f = ''ETSI.RFC3161'' then f\<lparr>sfType := ''document-timestamp''\<rparr> else f) sb
      else if sfSubFilter f = ''adbe.x509.rsa_sha1'' then decomposeCertEntry env sig f sb
      else Inr (addNote NotDecomposed f, sb))"

definition buildSignatureField ::
    "sigEnv \<Rightarrow> holeRead \<Rightarrow> pdfDict \<Rightarrow> string \<Rightarrow> string \<Rightarrow> sigBytes option \<Rightarrow> string + sigField \<times> sigBytes option \<times> holeRead" where
  "buildSignatureField env hr field name nodeID sb =
     (let f = emptyField name nodeID in
      case signatureDict (seDoc env) field of
        Inl p \<Rightarrow> Inl p
      | Inr None \<Rightarrow> Inr (f, sb, hr)
      | Inr (Some (sig, r)) \<Rightarrow>
          (let f1 = f\<lparr> sfSignatureRef := (case r of Some (n, g) \<Rightarrow> refString n g | None \<Rightarrow> []),
                      sfSignatureNodeID := (case r of Some (n, g) \<Rightarrow> nodeIDForRef n g | None \<Rightarrow> []),
                      sfSigned := True, sfType := ''signature'', sfNotes := [TrustNote] \<rparr> in
           case describeEntries env sig f1 of
             Inl p \<Rightarrow> Inl p
           | Inr f2 \<Rightarrow>
               (case computeByteRangeCoverage env hr sig f2 of
                  Inl p \<Rightarrow> Inl p
                | Inr (f3, hr1) \<Rightarrow>
                    (case decomposeBy env sig f3 sb of Inl p \<Rightarrow> Inl p | Inr (f4, sb1) \<Rightarrow> Inr (f4, sb1, hr1)))))"

section \<open>The walk\<close>

text \<open>The list so far, the exported bytes of the same fields when they are wanted, and the hole state.\<close>

record sigWalk =
  swFields :: "sigField list"
  swSink :: "sigBytes list option"
  swHole :: holeRead

definition fieldName :: "sigEnv \<Rightarrow> pdfDict \<Rightarrow> string \<Rightarrow> string + string" where
  "fieldName env d parentName =
     (case textEntry env d ''T'' of
        Inl p \<Rightarrow> Inl p
      | Inr t \<Rightarrow> Inr (if t = [] then parentName else if parentName = [] then t else parentName @ ''.'' @ t))"

definition fieldType :: "sigEnv \<Rightarrow> pdfDict \<Rightarrow> string \<Rightarrow> string + string" where
  "fieldType env d inheritedFT =
     (case derefIn (seDoc env) (dictGet d ''FT'') of
        Inl p \<Rightarrow> Inl p
      | Inr (PName n) \<Rightarrow> Inr n
      | Inr _ \<Rightarrow> Inr inheritedFT)"

definition fieldNodeID :: "pdfObj \<Rightarrow> string" where
  "fieldNodeID v = (case asRef v of Some (n, g) \<Rightarrow> nodeIDForRef n g | None \<Rightarrow> [])"

text \<open>A terminal field is listed when its effective type is a signature.\<close>

definition listField :: "sigEnv \<Rightarrow> pdfObj \<Rightarrow> pdfDict \<Rightarrow> string \<Rightarrow> string \<Rightarrow> sigWalk \<Rightarrow> string + sigWalk" where
  "listField env v d name ft w =
     (if ft \<noteq> ''Sig'' then Inr w
      else (case buildSignatureField env (swHole w) d name (fieldNodeID v) (map_option (\<lambda>_. noBytes) (swSink w)) of
              Inl p \<Rightarrow> Inl p
            | Inr (f, sb, hr) \<Rightarrow>
                Inr \<lparr> swFields = swFields w @ [f],
                      swSink = (case (swSink w, sb) of (Some bs, Some b) \<Rightarrow> Some (bs @ [b]) | (s, _) \<Rightarrow> s), swHole = hr \<rparr>))"

text \<open>The kids: those with a \<open>/T\<close> of their own are fields to walk, and any of them makes the field an inner one.\<close>

definition visitKid :: "sigEnv \<Rightarrow> (pdfObj \<Rightarrow> sigWalk \<Rightarrow> string + sigWalk) \<Rightarrow> pdfObj \<Rightarrow> sigWalk \<times> bool \<Rightarrow> string + sigWalk \<times> bool" where
  "visitKid env walk kid st =
     (case derefDict (seDoc env) kid of
        Inl p \<Rightarrow> Inl p
      | Inr None \<Rightarrow> Inr st
      | Inr (Some kd) \<Rightarrow>
          if dictFind kd ''T'' = None then Inr st
          else (case walk kid (fst st) of Inl p \<Rightarrow> Inl p | Inr w \<Rightarrow> Inr (w, True)))"

function walkSignatureField :: "sigEnv \<Rightarrow> pdfObj \<Rightarrow> string \<Rightarrow> string \<Rightarrow> nat \<Rightarrow> sigWalk \<Rightarrow> string + sigWalk" where
  "walkSignatureField env v parentName inheritedFT depth w =
     (if depth > maxNodeIDDepth then Inr w
      else (case derefDict (seDoc env) v of
              Inl p \<Rightarrow> Inl p
            | Inr None \<Rightarrow> Inr w
            | Inr (Some d) \<Rightarrow>
                (case fieldName env d parentName of
                   Inl p \<Rightarrow> Inl p
                 | Inr name \<Rightarrow>
                     (case fieldType env d inheritedFT of
                        Inl p \<Rightarrow> Inl p
                      | Inr ft \<Rightarrow>
                          (case dereferenceArray (seDoc env) (dictGet d ''Kids'') of
                             Inl p \<Rightarrow> Inl p
                           | Inr kids \<Rightarrow>
                               (case foldSum (visitKid env (\<lambda>kid u. walkSignatureField env kid name ft (depth + 1) u)) kids (w, False) of
                                  Inl p \<Rightarrow> Inl p
                                | Inr (w1, recursed) \<Rightarrow> if recursed then Inr w1 else listField env v d name ft w1))))))"
  by pat_completeness auto
termination walkSignatureField
  by (relation "measure (\<lambda>(_, _, _, _, depth, _). Suc maxNodeIDDepth - depth)") auto

declare walkSignatureField.simps [simp del]

definition collectSignatures :: "sigEnv \<Rightarrow> bool \<Rightarrow> string + sigField list \<times> sigBytes list option" where
  "collectSignatures env exporting =
     (let w = \<lparr> swFields = [], swSink = (if exporting then Some [] else None), swHole = \<lparr> hrRefused = None, hrOpened = 0 \<rparr> \<rparr> in
      case docCatalog (seDoc env) of
        DPanic p \<Rightarrow> Inl p
      | DErr e \<Rightarrow> Inr (swFields w, swSink w)
      | DObj catObj \<Rightarrow>
          (let cat = (case asDict catObj of Some d \<Rightarrow> d | None \<Rightarrow> []) in
           case derefDict (seDoc env) (dictGet cat ''AcroForm'') of
             Inl p \<Rightarrow> Inl p
           | Inr None \<Rightarrow> Inr (swFields w, swSink w)
           | Inr (Some acro) \<Rightarrow>
               (case dereferenceArray (seDoc env) (dictGet acro ''Fields'') of
                  Inl p \<Rightarrow> Inl p
                | Inr elems \<Rightarrow>
                    (case foldSum (\<lambda>e u. walkSignatureField env e [] [] 0 u) elems w of
                       Inl p \<Rightarrow> Inl p
                     | Inr w1 \<Rightarrow> Inr (swFields w1, swSink w1)))))"

text \<open>\<^verbatim>\<open>GetSignatures\<close> and \<^verbatim>\<open>GetSignatureBytes\<close>\<close>

definition GetSignatures :: "sigEnv \<Rightarrow> string + sigField list" where
  "GetSignatures env =
     (case collectSignatures env False of Inl p \<Rightarrow> Inl (wrapPDFError (panicText p)) | Inr (fs, _) \<Rightarrow> Inr fs)"

definition GetSignatureBytes :: "sigEnv \<Rightarrow> string + sigField list \<times> sigBytes list" where
  "GetSignatureBytes env =
     (case collectSignatures env True of
        Inl p \<Rightarrow> Inl (wrapPDFError (panicText p))
      | Inr (fs, bs) \<Rightarrow> Inr (fs, case bs of Some b \<Rightarrow> b | None \<Rightarrow> []))"

end
