(* ===== verification/SignatureFields.thy ===== *)
theory SignatureFields
  imports Signatures
begin

text \<open>
  The signature fields of a form without the walk that finds them: which fields are listed, in which order and
  under which names, and the signature dictionary of each. The walk of theory \<open>Signatures\<close> lists exactly these.
\<close>

section \<open>The fields of a form\<close>

lemma derefIn_safe: "derefIn doc v = Inr w \<Longrightarrow> safeDeref doc v = w"
  by (auto simp: derefIn_def safeDeref_def split: derefAnswer.splits)

lemma derefDict_safe: "derefDict doc v = Inr d \<Longrightarrow> asDict (safeDeref doc v) = d"
  by (auto simp: derefDict_def dest: derefIn_safe split: sum.splits)

text \<open>A listed field: the value it stands for in the form, its dictionary and its qualified name.\<close>

type_synonym formField = "pdfObj \<times> pdfDict \<times> string"

definition nameAt :: "textLib \<Rightarrow> pdfDoc \<Rightarrow> pdfDict \<Rightarrow> string \<Rightarrow> string" where
  "nameAt tlib doc d parentName =
     (let t = textStringOrRaw tlib (safeDeref doc (dictGet d ''T'')) in
      if t = [] then parentName else if parentName = [] then t else parentName @ ''.'' @ t)"

definition typeAt :: "pdfDoc \<Rightarrow> pdfDict \<Rightarrow> string \<Rightarrow> string" where
  "typeAt doc d inherited = (case safeDeref doc (dictGet d ''FT'') of PName n \<Rightarrow> n | _ \<Rightarrow> inherited)"

definition arrayAt :: "pdfDoc \<Rightarrow> pdfDict \<Rightarrow> string \<Rightarrow> pdfObj list" where
  "arrayAt doc d key = (case safeDeref doc (dictGet d key) of PArray xs \<Rightarrow> xs | _ \<Rightarrow> [])"

text \<open>A kid with a \<open>/T\<close> of its own is a field.\<close>

definition isField :: "pdfDoc \<Rightarrow> pdfObj \<Rightarrow> bool" where
  "isField doc v \<longleftrightarrow> (case asDict (safeDeref doc v) of None \<Rightarrow> False | Some d \<Rightarrow> dictFind d ''T'' \<noteq> None)"

text \<open>
  The signature fields at a value of the form: none below 64 levels or where there is no dictionary; those of
  the kids that are fields, in order, when there is one; and otherwise the field itself, when its own or
  inherited type is a signature's.
\<close>

inductive
  sigFields :: "textLib \<Rightarrow> pdfDoc \<Rightarrow> nat \<Rightarrow> string \<Rightarrow> string \<Rightarrow> pdfObj \<Rightarrow> formField list \<Rightarrow> bool" and
  sigFieldsAll :: "textLib \<Rightarrow> pdfDoc \<Rightarrow> nat \<Rightarrow> string \<Rightarrow> string \<Rightarrow> pdfObj list \<Rightarrow> formField list \<Rightarrow> bool"
  for tlib :: textLib and doc :: pdfDoc where
  below: "64 < depth \<Longrightarrow> sigFields tlib doc depth pn ft v []"
| no_dict: "depth \<le> 64 \<Longrightarrow> asDict (safeDeref doc v) = None \<Longrightarrow> sigFields tlib doc depth pn ft v []"
| terminal: "depth \<le> 64 \<Longrightarrow> asDict (safeDeref doc v) = Some d \<Longrightarrow> \<not> list_ex (isField doc) (arrayAt doc d ''Kids'') \<Longrightarrow>
    es = (if typeAt doc d ft = ''Sig'' then [(v, d, nameAt tlib doc d pn)] else []) \<Longrightarrow> sigFields tlib doc depth pn ft v es"
| inner: "depth \<le> 64 \<Longrightarrow> asDict (safeDeref doc v) = Some d \<Longrightarrow> list_ex (isField doc) (arrayAt doc d ''Kids'') \<Longrightarrow>
    sigFieldsAll tlib doc (depth + 1) (nameAt tlib doc d pn) (typeAt doc d ft) (filter (isField doc) (arrayAt doc d ''Kids'')) es \<Longrightarrow>
    sigFields tlib doc depth pn ft v es"
| none: "sigFieldsAll tlib doc depth pn ft [] []"
| some: "sigFields tlib doc depth pn ft v es \<Longrightarrow> sigFieldsAll tlib doc depth pn ft vs fs \<Longrightarrow>
    sigFieldsAll tlib doc depth pn ft (v # vs) (es @ fs)"

text \<open>The fields of the document's form.\<close>

definition formValues :: "pdfDoc \<Rightarrow> pdfObj list" where
  "formValues doc =
     (case docCatalog doc of
        DObj c \<Rightarrow>
          (case asDict c of None \<Rightarrow> []
           | Some cat \<Rightarrow> (case asDict (safeDeref doc (dictGet cat ''AcroForm'')) of None \<Rightarrow> []
              | Some acro \<Rightarrow> arrayAt doc acro ''Fields''))
      | _ \<Rightarrow> [])"

definition formFields :: "sigEnv \<Rightarrow> formField list \<Rightarrow> bool" where
  "formFields env es \<longleftrightarrow> sigFieldsAll (seText env) (seDoc env) 0 [] [] (formValues (seDoc env)) es"

section \<open>The walk lists them\<close>

definition listEntry :: "sigEnv \<Rightarrow> formField \<Rightarrow> sigWalk \<Rightarrow> string + sigWalk" where
  "listEntry env e w = (case e of (v, d, name) \<Rightarrow> listField env v d name ''Sig'' w)"

lemma textEntry_safe: "textEntry env d k = Inr t \<Longrightarrow> t = textStringOrRaw (seText env) (safeDeref (seDoc env) (dictGet d k))"
  by (auto simp: textEntry_def dest: derefIn_safe split: sum.splits)

lemma fieldName_safe: "fieldName env d pn = Inr name \<Longrightarrow> name = nameAt (seText env) (seDoc env) d pn"
  by (auto simp: fieldName_def nameAt_def Let_def dest!: textEntry_safe split: sum.splits)

lemma fieldType_safe: "fieldType env d ft = Inr ft' \<Longrightarrow> ft' = typeAt (seDoc env) d ft"
  by (auto simp: fieldType_def typeAt_def dest!: derefIn_safe split: sum.splits pdfObj.splits)

lemma dereferenceArray_safe: "dereferenceArray doc (dictGet d key) = Inr xs \<Longrightarrow> xs = arrayAt doc d key"
  by (auto simp: dereferenceArray_def arrayAt_def dest!: derefIn_safe split: sum.splits option.splits pdfObj.splits)

text \<open>The fold over the kids, given what the walk of each lists.\<close>

lemma kids_list:
  assumes walk: "\<And>kid u u'. kid \<in> set kids \<Longrightarrow> walk kid u = Inr u' \<Longrightarrow>
      \<exists>es. sigFields tlib (seDoc env) depth pn ft kid es \<and> foldSum (listEntry env) es u = Inr u'"
  shows "foldSum (visitKid env walk) kids (w, r0) = Inr (w1, rec) \<Longrightarrow>
    \<exists>es. sigFieldsAll tlib (seDoc env) depth pn ft (filter (isField (seDoc env)) kids) es \<and>
      foldSum (listEntry env) es w = Inr w1 \<and> (rec \<longleftrightarrow> r0 \<or> list_ex (isField (seDoc env)) kids)"
  using walk
proof (induction kids arbitrary: w r0)
  case Nil
  then show ?case by (auto intro: none)
next
  case (Cons kid kids)
  then obtain w2 r2 where s: "visitKid env walk kid (w, r0) = Inr (w2, r2)" and
    f: "foldSum (visitKid env walk) kids (w2, r2) = Inr (w1, rec)"
    by (auto split: sum.splits)
  obtain es where es: "sigFieldsAll tlib (seDoc env) depth pn ft (filter (isField (seDoc env)) kids) es"
    "foldSum (listEntry env) es w2 = Inr w1" "rec \<longleftrightarrow> r2 \<or> list_ex (isField (seDoc env)) kids"
    using Cons.IH [OF f] Cons.prems(2) by (metis list.set_intros(2))
  obtain dk where dk: "derefDict (seDoc env) kid = Inr dk" using s by (auto simp: visitKid_def split: sum.splits)
  then have isF: "isField (seDoc env) kid \<longleftrightarrow> (case dk of None \<Rightarrow> False | Some d \<Rightarrow> dictFind d ''T'' \<noteq> None)"
    by (simp add: isField_def derefDict_safe)
  show ?case
  proof (cases "isField (seDoc env) kid")
    case False
    then have "w2 = w" "r2 = r0" using s dk isF by (auto simp: visitKid_def split: option.splits)
    with es False show ?thesis by auto
  next
    case True
    then have k: "walk kid w = Inr w2" "r2" using s dk isF by (auto simp: visitKid_def split: option.splits sum.splits if_splits)
    from Cons.prems(2) [OF _ k(1)] obtain ks where
      "sigFields tlib (seDoc env) depth pn ft kid ks" "foldSum (listEntry env) ks w = Inr w2" by auto
    with es k True show ?thesis
      by (intro exI [of _ "ks @ es"]) (auto simp: foldSum_append intro: some)
  qed
qed

lemma walk_lists:
  "walkSignatureField env v pn ift depth w = Inr w' \<Longrightarrow>
     \<exists>es. sigFields (seText env) (seDoc env) depth pn ift v es \<and> foldSum (listEntry env) es w = Inr w'"
proof (induction env v pn ift depth w arbitrary: w' rule: walkSignatureField.induct)
  case (1 env v pn ift depth w)
  note def = walkSignatureField.simps [of env v pn ift depth w]
  show ?case
  proof (cases "depth > maxNodeIDDepth")
    case True
    then show ?thesis using "1.prems" def by (intro exI [of _ "[]"]) (auto simp: maxNodeIDDepth_def intro: below)
  next
    case lim: False
    then have d64: "depth \<le> 64" by (simp add: maxNodeIDDepth_def)
    obtain dd where dd: "derefDict (seDoc env) v = Inr dd" using "1.prems" lim def by (auto split: sum.splits)
    show ?thesis
    proof (cases dd)
      case None
      then show ?thesis using "1.prems" lim dd def no_dict [OF d64, of "seDoc env" v] derefDict_safe [OF dd]
        by (intro exI [of _ "[]"]) auto
    next
      case (Some d)
      note d = dd [unfolded Some]
      from "1.prems" lim d obtain name ft kids w1 rec where name: "fieldName env d pn = Inr name" and
        ft: "fieldType env d ift = Inr ft" and kids: "dereferenceArray (seDoc env) (dictGet d ''Kids'') = Inr kids" and
        fold: "foldSum (visitKid env (\<lambda>kid u. walkSignatureField env kid name ft (depth + 1) u)) kids (w, False) = Inr (w1, rec)" and
        fin: "if rec then w' = w1 else listField env v d name ft w1 = Inr w'"
        unfolding def by (auto split: sum.splits if_splits)
      obtain es where es: "sigFieldsAll (seText env) (seDoc env) (depth + 1) name ft (filter (isField (seDoc env)) kids) es"
        "foldSum (listEntry env) es w = Inr w1" "rec \<longleftrightarrow> list_ex (isField (seDoc env)) kids"
      proof -
        have "\<exists>es. sigFields (seText env) (seDoc env) (depth + 1) name ft kid es \<and> foldSum (listEntry env) es u = Inr u'"
          if "kid \<in> set kids" "walkSignatureField env kid name ft (depth + 1) u = Inr u'" for kid u u'
          by (rule "1.IH" [OF lim d refl name ft kids that])
        from kids_list [OF this fold] show thesis using that by auto
      qed
      note at = fieldName_safe [OF name] fieldType_safe [OF ft] dereferenceArray_safe [OF kids]
      show ?thesis
      proof (cases rec)
        case True
        then show ?thesis using fin es inner [OF d64 derefDict_safe [OF d], of "seText env" pn ift es] at by auto
      next
        case False
        then have "filter (isField (seDoc env)) kids = []" using es(3) by (auto simp: list_ex_iff filter_empty_conv)
        then have "es = []" using es(1) by (auto elim: sigFieldsAll.cases)
        then have "w1 = w" using es(2) by simp
        with fin False have l: "listField env v d name ft w = Inr w'" by simp
        let ?es = "if typeAt (seDoc env) d ift = ''Sig'' then [(v, d, nameAt (seText env) (seDoc env) d pn)] else []"
        have "sigFields (seText env) (seDoc env) depth pn ift v ?es"
          by (rule terminal [OF d64 derefDict_safe [OF d] _ refl]) (use False es(3) at in simp)
        moreover have "foldSum (listEntry env) ?es w = Inr w'"
          using l at by (auto simp: listEntry_def listField_def)
        ultimately show ?thesis by blast
      qed
    qed
  qed
qed

lemma collect_lists:
  assumes c: "collectSignatures env exporting = Inr (fs, bs)"
  obtains es w where "formFields env es" "swFields w = fs" "swSink w = bs"
    "foldSum (listEntry env) es \<lparr> swFields = [], swSink = (if exporting then Some [] else None), swHole = \<lparr> hrRefused = None, hrOpened = 0 \<rparr> \<rparr> = Inr w"
proof -
  let ?w = "\<lparr> swFields = [], swSink = (if exporting then Some [] else None), swHole = \<lparr> hrRefused = None, hrOpened = 0 \<rparr> \<rparr>"
  have all: "foldSum (\<lambda>e u. walkSignatureField env e [] [] 0 u) vs u = Inr u' \<Longrightarrow>
      \<exists>es. sigFieldsAll (seText env) (seDoc env) 0 [] [] vs es \<and> foldSum (listEntry env) es u = Inr u'" for vs u u'
  proof (induction vs arbitrary: u)
    case Nil
    then show ?case by (auto intro: none)
  next
    case (Cons v vs)
    then obtain u2 where v: "walkSignatureField env v [] [] 0 u = Inr u2" and
      vs: "foldSum (\<lambda>e u. walkSignatureField env e [] [] 0 u) vs u2 = Inr u'" by (auto split: sum.splits)
    from walk_lists [OF v] Cons.IH [OF vs] show ?case
      by (auto simp: foldSum_append intro: exI [of _ "_ @ _"] some)
  qed
  show thesis
  proof (cases "formValues (seDoc env) = [] \<and> fs = [] \<and> bs = swSink ?w")
    case True
    then show thesis by (intro that [of "[]" ?w]) (auto simp: formFields_def intro: none)
  next
    case False
    with c obtain cv acro elems w1 where cv: "docCatalog (seDoc env) = DObj cv"
      "derefDict (seDoc env) (dictGet (case asDict cv of Some d \<Rightarrow> d | None \<Rightarrow> []) ''AcroForm'') = Inr (Some acro)"
      "dereferenceArray (seDoc env) (dictGet acro ''Fields'') = Inr elems"
      "foldSum (\<lambda>e u. walkSignatureField env e [] [] 0 u) elems ?w = Inr w1" "fs = swFields w1" "bs = swSink w1"
      by (auto simp: collectSignatures_def formValues_def Let_def dest!: derefDict_safe
          split: derefAnswer.splits sum.splits option.splits)
    have "asDict cv \<noteq> None"
      using cv(2) by (auto simp: derefDict_def derefIn_def dictGet_def dictFind_def split: option.splits)
    then have "formValues (seDoc env) = elems"
      using cv(1) derefDict_safe [OF cv(2)] dereferenceArray_safe [OF cv(3)] by (auto simp: formValues_def)
    with all [OF cv(4)] show thesis using that cv(5,6) by (auto simp: formFields_def)
  qed
qed

section \<open>The signature of a field\<close>

text \<open>The dictionary of \<open>/V\<close>, with the reference when it is one.\<close>

definition sigDictOf :: "pdfDoc \<Rightarrow> pdfDict \<Rightarrow> (pdfDict \<times> (int \<times> int) option) option" where
  "sigDictOf doc d =
     (case dictFind d ''V'' of None \<Rightarrow> None | Some v \<Rightarrow> map_option (\<lambda>sig. (sig, asRef v)) (asDict (safeDeref doc v)))"

lemma signatureDict_safe: "signatureDict doc d = Inr r \<Longrightarrow> sigDictOf doc d = r"
proof -
  assume a: "signatureDict doc d = Inr r"
  show ?thesis
  proof (cases "dictFind d ''V''")
    case (Some v)
    have "asRef v = None \<Longrightarrow> safeDeref doc v = v" by (cases v) (simp_all add: safeDeref_def)
    then show ?thesis using a Some
      by (auto simp: signatureDict_def sigDictOf_def dest!: derefDict_safe split: option.splits sum.splits)
  qed (use a in \<open>simp add: signatureDict_def sigDictOf_def\<close>)
qed

definition startField :: "string \<Rightarrow> string \<Rightarrow> (int \<times> int) option \<Rightarrow> sigField" where
  "startField name nodeID r = (emptyField name nodeID)\<lparr>
     sfSignatureRef := (case r of Some (n, g) \<Rightarrow> refString n g | None \<Rightarrow> []),
     sfSignatureNodeID := (case r of Some (n, g) \<Rightarrow> nodeIDForRef n g | None \<Rightarrow> []),
     sfSigned := True, sfType := ''signature'', sfNotes := [TrustNote] \<rparr>"

text \<open>The parts a field is built of.\<close>

lemma build_parts:
  assumes "buildSignatureField env hr d name nid sb = Inr (f, sb', hr')"
  obtains (unsigned) "sigDictOf (seDoc env) d = None" "f = emptyField name nid" "sb' = sb" "hr' = hr"
  | (signed) sig r f2 f3 where "sigDictOf (seDoc env) d = Some (sig, r)"
      "describeEntries env sig (startField name nid r) = Inr f2"
      "computeByteRangeCoverage env hr sig f2 = Inr (f3, hr')" "decomposeBy env sig f3 sb = Inr (f, sb')"
proof -
  obtain o1 where o1: "signatureDict (seDoc env) d = Inr o1" using assms by (auto simp: buildSignatureField_def Let_def split: sum.splits)
  note safe = signatureDict_safe [OF o1]
  show thesis
  proof (cases o1)
    case None
    then show thesis using assms o1 safe by (intro unsigned) (auto simp: buildSignatureField_def Let_def)
  next
    case (Some p)
    obtain sig r where p: "p = (sig, r)" by fastforce
    from assms o1 Some p obtain f2 f3 where "describeEntries env sig (startField name nid r) = Inr f2"
      "computeByteRangeCoverage env hr sig f2 = Inr (f3, hr')" "decomposeBy env sig f3 sb = Inr (f, sb')"
      by (auto simp: buildSignatureField_def startField_def Let_def split: sum.splits)
    with safe Some p show thesis by (intro signed) auto
  qed
qed

text \<open>A property of a list of fields that each next one keeps.\<close>

lemma foldSum_history:
  assumes "foldSum f xs s = Inr t" "P [] s"
    "\<And>ys x u v. P ys u \<Longrightarrow> f x u = Inr v \<Longrightarrow> P (ys @ [x]) v"
  shows "P xs t"
  using assms(1)
proof (induction xs arbitrary: t rule: rev_induct)
  case Nil
  with assms(2) show ?case by simp
next
  case (snoc x xs)
  then obtain u where "foldSum f xs s = Inr u" "f x u = Inr t" by (auto simp: foldSum_append split: sum.splits)
  with snoc.IH assms(3) show ?case by blast
qed

end
