(* ===== verification/SignatureSpec.thy ===== *)
theory SignatureSpec
  imports SignatureFields
begin

text \<open>
  What the signature view measures and exports: the byte range against the file's bytes, the hole against the
  disk, and the exported bytes against the listed fields.
\<close>

section \<open>The byte range\<close>

definition modestSize :: "int \<Rightarrow> bool" where
  "modestSize n \<longleftrightarrow> 0 \<le> n \<and> n < 2 ^ 62"

lemma boundedInts_None: "boundedInts n ns = None \<longleftrightarrow> (\<forall>i \<in> set ns. 0 \<le> i \<and> i \<le> n)"
  by (induction ns) auto

lemma small_sum: "modestSize n \<Longrightarrow> 0 \<le> a \<Longrightarrow> a \<le> n \<Longrightarrow> 0 \<le> b \<Longrightarrow> b \<le> n \<Longrightarrow> wrap64 (a + b) = a + b"
  by (rule wrap64_nonneg) (auto simp: modestSize_def maxInt64_def)

text \<open>The accepted ranges, with the sums as they are in the integers.\<close>

lemma checkRange_OK:
  assumes n: "modestSize n"
  shows "checkRange n ints = RangeOK a h b e \<longleftrightarrow>
    ints = [a, h - a, b, e - b] \<and> 0 \<le> a \<and> a \<le> h \<and> h \<le> b \<and> b \<le> e \<and> e \<le> n"
proof -
  have split: "(\<exists>w x y z. ints = [w, x, y, z]) \<or> (\<forall>w x y z. ints \<noteq> [w, x, y, z])" by blast
  then show ?thesis
  proof
    assume "\<exists>w x y z. ints = [w, x, y, z]"
    then obtain w x y z where i: "ints = [w, x, y, z]" by blast
    show ?thesis
    proof (cases "boundedInts n ints")
      case (Some err)
      then have "\<not> (\<forall>j \<in> set ints. 0 \<le> j \<and> j \<le> n)" using boundedInts_None [of n ints] by simp
      moreover have "checkRange n ints = RangeBad err" using i Some by (simp add: checkRange_def)
      ultimately show ?thesis using i by auto
    next
      case None
      then have b: "0 \<le> w \<and> w \<le> n" "0 \<le> x \<and> x \<le> n" "0 \<le> y \<and> y \<le> n" "0 \<le> z \<and> z \<le> n"
        using boundedInts_None [of n ints] i by auto
      have s: "wrap64 (w + x) = w + x" "wrap64 (y + z) = y + z" using b small_sum [OF n] by auto
      show ?thesis using i None b s by (auto simp: checkRange_def)
    qed
  next
    assume none: "\<forall>w x y z. ints \<noteq> [w, x, y, z]"
    then have "checkRange n ints \<noteq> RangeOK a h b e"
      by (auto simp: checkRange_def split: list.splits if_splits)
    with none show ?thesis by auto
  qed
qed

text \<open>The bytes of a file that two ranges leave out, and when only the gap between them is left.\<close>

definition fileBytes :: "int \<Rightarrow> int set" where
  "fileBytes n = {0..<n}"

lemma uncovered_is_gap:
  assumes "0 \<le> a" "a \<le> h" "h \<le> b" "b \<le> e" "e \<le> n"
  shows "fileBytes n - ({a..<h} \<union> {b..<e}) = {h..<b} \<longleftrightarrow> a = 0 \<and> e = n"
proof
  assume eq: "fileBytes n - ({a..<h} \<union> {b..<e}) = {h..<b}"
  have "a = 0"
  proof (rule ccontr)
    assume "a \<noteq> 0"
    with assms have "0 \<in> fileBytes n - ({a..<h} \<union> {b..<e})" "0 \<notin> {h..<b}" by (auto simp: fileBytes_def)
    with eq show False by blast
  qed
  moreover have "e = n"
  proof (rule ccontr)
    assume "e \<noteq> n"
    with assms have "n - 1 \<in> fileBytes n - ({a..<h} \<union> {b..<e})" "n - 1 \<notin> {h..<b}" by (auto simp: fileBytes_def)
    with eq show False by blast
  qed
  ultimately show "a = 0 \<and> e = n" ..
qed (use assms in \<open>auto simp: fileBytes_def\<close>)

text \<open>A file of ten bytes whose signature leaves out the four of \<open><41>\<close>.\<close>

definition exampleSig :: pdfDict where
  "exampleSig = [(''SubFilter'', PName ''other''), (''Contents'', PHex ''41''),
     (''ByteRange'', PArray [PInt 0, PInt 4, PInt 8, PInt 2])]"

definition exampleField :: pdfDict where
  "exampleField = [(''FT'', PName ''Sig''), (''V'', PDict exampleSig)]"

definition exampleForm :: pdfDoc where
  "exampleForm = \<lparr> xrefNums = [], xrefLookup = (\<lambda>n g. DObj PNull), docRoot = None,
     docCatalog = DObj (PDict [(''AcroForm'', PDict [(''Fields'', PArray
       [PDict exampleField])])]) \<rparr>"

definition exampleCms :: cmsLib where
  "exampleCms = \<lparr> clContentInfo = (\<lambda>b. Inl []), clSignedData = (\<lambda>b. Inl []), clIssuerSerial = (\<lambda>b. None),
     clRawValue = (\<lambda>b. None), clCertificates = (\<lambda>b. Inl []), clCertificate = (\<lambda>b. None), clOids = (\<lambda>b. None),
     clHexBytes = (\<lambda>s. Inl []), clUnescape = (\<lambda>s. Inl []), clDateTime = (\<lambda>s. None), clFoldUnicode = (\<lambda>a b. a = b) \<rparr>"

definition exampleEnv :: sigEnv where
  "exampleEnv = \<lparr> seText = \<lparr> libText = (\<lambda>v. None), libUnescape = (\<lambda>s. None), libHexBytes = (\<lambda>s. None), libFloat = (\<lambda>r. []) \<rparr>,
     seCms = exampleCms, seDoc = exampleForm, seFileSize = 10, seFingerprint = newFileFingerprint exampleInfo,
     seSessions = (\<lambda>k. exampleSession\<lparr>fsReadAt := (\<lambda>n a. Inr [0x3C, 0x34, 0x31, 0x3E])\<rparr>) \<rparr>"

definition freshHole :: holeRead where
  "freshHole = \<lparr> hrRefused = None, hrOpened = 0 \<rparr>"

lemma example_match: "spanMatches exampleCms ''41'' [0x3C, 0x34, 0x31, 0x3E]"
proof -
  have "bytesString [0x34, 0x31] = ''41''" by code_simp
  then show ?thesis by (simp add: spanMatches_def exampleCms_def equalFold_def)
qed

lemma example_read: "readFileSpan (seSessions exampleEnv k) (seFingerprint exampleEnv) 4 8 = Inr [0x3C, 0x34, 0x31, 0x3E]"
  by (simp add: exampleEnv_def readFileSpan_def newFileFingerprint_def exampleInfo_def exampleSession_def openVerified_def verifyHandle_def fpMatches_def)

lemma example_hole:
  "holeMatchesContents exampleEnv (\<lparr> hrRefused = None, hrOpened = k \<rparr>) exampleSig 4 8 =
     Inr ((True, None), \<lparr> hrRefused = None, hrOpened = k + 1 \<rparr>)"
proof -
  have "derefIn (seDoc exampleEnv) (dictGet exampleSig ''Contents'') = Inr (PHex ''41'')" by code_simp
  moreover have "wrap64 4 = 4" by (simp add: wrap64_def)
  moreover have "seCms exampleEnv = exampleCms" by (simp add: exampleEnv_def)
  ultimately show ?thesis using example_read [of k] example_match by (simp add: holeMatchesContents_def maxHoleProbeBytes_def)
qed

lemma example_check: "checkRange (seFileSize exampleEnv) [0, 4, 8, 2] = RangeOK 0 4 8 10"
  by (simp add: checkRange_OK modestSize_def exampleEnv_def)

lemma example_ints: "derefIn (seDoc exampleEnv) (PArray [PInt 0, PInt 4, PInt 8, PInt 2]) = Inr (PArray [PInt 0, PInt 4, PInt 8, PInt 2])"
   "rangeInts (seDoc exampleEnv) [PInt 0, PInt 4, PInt 8, PInt 2] = Inr (Some [0, 4, 8, 2])"
   "dictFind exampleSig ''ByteRange'' = Some (PArray [PInt 0, PInt 4, PInt 8, PInt 2])"
  by code_simp+

lemma example_cov: "computeByteRangeCoverage exampleEnv freshHole exampleSig f =
  Inr (f\<lparr>sfByteRange := Some [0, 4, 8, 2], sfTrailingGap := 0, sfCoversWholeFile := True, sfHoleMatchesContents := True, sfHoleCheckError := None\<rparr>, \<lparr> hrRefused = None, hrOpened = 1 \<rparr>)"
proof -
  have "wrap64 0 = 0" "seFileSize exampleEnv = 10" by (simp_all add: wrap64_def exampleEnv_def)
  then show ?thesis using example_hole [of 0] example_check by (simp add: computeByteRangeCoverage_def example_ints freshHole_def Let_def del: rangeInts.simps)
qed


lemma example_text: "textEntry exampleEnv d k = Inr []" if "dictGet d k = PNull"
  using that by (simp add: textEntry_def derefIn_def textStringOrRaw_def decodeTextStringOK_def exampleEnv_def)

lemma example_null: "dictGet exampleSig ''M'' = PNull" "dictGet exampleSig ''Name'' = PNull" "dictGet exampleSig ''Reason'' = PNull"
   "dictGet exampleSig ''Location'' = PNull" "dictGet exampleSig ''ContactInfo'' = PNull"
   "derefIn (seDoc exampleEnv) (dictGet exampleSig ''SubFilter'') = Inr (PName ''other'')"
  by code_simp+

lemma example_desc: "describeEntries exampleEnv exampleSig f = Inr (f\<lparr>sfSubFilter := ''other'', sfSigningTimeRaw := [],
  sfSigningTime := [], sfName := [], sfReason := [], sfLocation := [], sfContactInfo := []\<rparr>)"
  by (simp add: describeEntries_def example_null example_text)

lemma example_sig: "signatureDict (seDoc exampleEnv) exampleField = Inr (Some (exampleSig, None))" by code_simp
lemma example_sub: "\<not> IsCMSSubFilter ''other''" by code_simp

lemma example_build: "\<exists>f. buildSignatureField exampleEnv freshHole exampleField name nid sb = Inr (f, sb, \<lparr> hrRefused = None, hrOpened = 1 \<rparr>)"
  by (simp add: buildSignatureField_def example_sig example_desc example_cov decomposeBy_def example_sub Let_def)

lemma example_field:
   "derefDict (seDoc exampleEnv) (PDict exampleField) = Inr (Some exampleField)"
   "dictGet exampleField ''T'' = PNull"
   "derefIn (seDoc exampleEnv) (dictGet exampleField ''FT'') = Inr (PName ''Sig'')"
   "dereferenceArray (seDoc exampleEnv) (dictGet exampleField ''Kids'') = Inr []"
  by code_simp+

lemma example_walk:
  "\<exists>f. walkSignatureField exampleEnv (PDict exampleField) [] [] 0 \<lparr> swFields = [], swSink = sk, swHole = freshHole \<rparr> =
     Inr \<lparr> swFields = [f], swSink = map_option (\<lambda>bs. bs @ [noBytes]) sk, swHole = \<lparr> hrRefused = None, hrOpened = 1 \<rparr> \<rparr>"
proof -
  obtain f where "buildSignatureField exampleEnv freshHole exampleField [] (fieldNodeID (PDict exampleField)) (map_option (\<lambda>_. noBytes) sk) = Inr (f, map_option (\<lambda>_. noBytes) sk, \<lparr> hrRefused = None, hrOpened = 1 \<rparr>)"
    using example_build by blast
  then show ?thesis
   by (simp add: walkSignatureField.simps [of _ _ _ _ 0] example_field fieldName_def fieldType_def example_text listField_def split: option.split)
qed

lemma example_form:
  "docCatalog (seDoc exampleEnv) = DObj (PDict [(''AcroForm'', PDict [(''Fields'', PArray [PDict exampleField])])])"
  by (simp add: exampleEnv_def exampleForm_def)

lemma example_collect: "\<exists>f. collectSignatures exampleEnv b = Inr ([f], if b then Some [noBytes] else None)"
proof -
  let ?sk = "if b then Some [] else None"
  obtain f where "walkSignatureField exampleEnv (PDict exampleField) [] [] 0 \<lparr> swFields = [], swSink = ?sk, swHole = freshHole \<rparr> =
    Inr \<lparr> swFields = [f], swSink = map_option (\<lambda>bs. bs @ [noBytes]) ?sk, swHole = \<lparr> hrRefused = None, hrOpened = 1 \<rparr> \<rparr>"
    using example_walk by blast
  then show ?thesis
    by (auto simp: collectSignatures_def example_form derefDict_def derefIn_def dereferenceArray_def dictGet_def dictFind_def freshHole_def [symmetric])
qed

text \<open>The integers a dictionary's \<open>/ByteRange\<close> comes to.\<close>

definition rangeOf :: "pdfDoc \<Rightarrow> pdfDict \<Rightarrow> int list option" where
  "rangeOf doc sig =
     (case dictFind sig ''ByteRange'' of
        None \<Rightarrow> None
      | Some v \<Rightarrow> (case derefIn doc v of
                    Inr (PArray arr) \<Rightarrow> (case rangeInts doc arr of Inr r \<Rightarrow> r | Inl p \<Rightarrow> None)
                  | _ \<Rightarrow> None))"

lemma coverage_cases:
  assumes c: "computeByteRangeCoverage env hr sig f = Inr (f', hr')" and f: "sfCoverageError f = None"
  shows "(sfCoverageError f' \<noteq> None \<and> hr' = hr \<and> sfHoleCheckError f' = sfHoleCheckError f \<and> sfHoleMatchesContents f' = sfHoleMatchesContents f \<and>
      (\<forall>ints a h b e. rangeOf (seDoc env) sig = Some ints \<longrightarrow> checkRange (seFileSize env) ints \<noteq> RangeOK a h b e)) \<or>
    (sfCoverageError f' = None \<and> (\<exists>ints a h b e. rangeOf (seDoc env) sig = Some ints \<and>
       checkRange (seFileSize env) ints = RangeOK a h b e \<and> sfByteRange f' = Some ints \<and>
       sfTrailingGap f' = wrap64 (seFileSize env - e) \<and>
       (sfCoversWholeFile f' \<longleftrightarrow> a = 0 \<and> wrap64 (seFileSize env - e) = 0) \<and>
       holeMatchesContents env hr sig h b = Inr ((sfHoleMatchesContents f', sfHoleCheckError f'), hr')))"
  using assms
  by (auto simp: computeByteRangeCoverage_def rangeOf_def Let_def
      split: option.splits sum.splits pdfObj.splits rangeCheck.splits)

text \<open>
  Claim C36. The measured coverage is what it says about the file's bytes: no sum wraps whatever the array holds, a
  range is accepted exactly when it is two ordered ranges inside the file, the trailing gap counts the bytes
  after the second, and the whole file is covered exactly when the only bytes left out are those between them.
\<close>

theorem byte_range_exact:
  assumes n: "modestSize (seFileSize env)" and f: "sfCoverageError f = None"
    and c: "computeByteRangeCoverage env hr sig f = Inr (f', hr')"
  shows "(sfCoverageError f' = None \<longleftrightarrow>
      (\<exists>a l1 b l2. rangeOf (seDoc env) sig = Some [a, l1, b, l2] \<and> 0 \<le> a \<and> 0 \<le> l1 \<and> a + l1 \<le> b \<and> 0 \<le> l2 \<and>
         b + l2 \<le> seFileSize env)) \<and>
    (\<forall>a l1 b l2. sfCoverageError f' = None \<and> sfByteRange f' = Some [a, l1, b, l2] \<longrightarrow>
       sfTrailingGap f' = seFileSize env - (b + l2) \<and> 0 \<le> sfTrailingGap f' \<and>
       (sfCoversWholeFile f' \<longleftrightarrow> fileBytes (seFileSize env) - ({a..<a + l1} \<union> {b..<b + l2}) = {a + l1..<b}))"
proof -
  let ?n = "seFileSize env"
  from coverage_cases [OF c f] show ?thesis
  proof
    assume bad: "sfCoverageError f' \<noteq> None \<and> hr' = hr \<and> sfHoleCheckError f' = sfHoleCheckError f \<and>
      sfHoleMatchesContents f' = sfHoleMatchesContents f \<and>
      (\<forall>ints a h b e. rangeOf (seDoc env) sig = Some ints \<longrightarrow> checkRange ?n ints \<noteq> RangeOK a h b e)"
    have False if r: "rangeOf (seDoc env) sig = Some [a, l1, b, l2]" and
      ok: "0 \<le> a" "0 \<le> l1" "a + l1 \<le> b" "0 \<le> l2" "b + l2 \<le> ?n" for a l1 b l2
    proof -
      have "checkRange ?n [a, l1, b, l2] = RangeOK a (a + l1) b (b + l2)"
        using ok by (simp add: checkRange_OK [OF n])
      with bad r show False by blast
    qed
    with bad show ?thesis by blast
  next
    assume ok: "sfCoverageError f' = None \<and> (\<exists>ints a h b e. rangeOf (seDoc env) sig = Some ints \<and>
       checkRange ?n ints = RangeOK a h b e \<and> sfByteRange f' = Some ints \<and>
       sfTrailingGap f' = wrap64 (?n - e) \<and> (sfCoversWholeFile f' \<longleftrightarrow> a = 0 \<and> wrap64 (?n - e) = 0) \<and>
       holeMatchesContents env hr sig h b = Inr ((sfHoleMatchesContents f', sfHoleCheckError f'), hr'))"
    then obtain ints a h b e where r: "rangeOf (seDoc env) sig = Some ints" "checkRange ?n ints = RangeOK a h b e"
      "sfByteRange f' = Some ints" "sfTrailingGap f' = wrap64 (?n - e)"
      "sfCoversWholeFile f' \<longleftrightarrow> a = 0 \<and> wrap64 (?n - e) = 0" by blast
    from r(2) have i: "ints = [a, h - a, b, e - b]" and o: "0 \<le> a" "a \<le> h" "h \<le> b" "b \<le> e" "e \<le> ?n"
      by (simp_all add: checkRange_OK [OF n])
    have g: "wrap64 (?n - e) = ?n - e" using o n by (intro wrap64_nonneg) (auto simp: modestSize_def maxInt64_def)
    have "sfCoversWholeFile f' \<longleftrightarrow> fileBytes ?n - ({a..<h} \<union> {b..<e}) = {h..<b}"
      using r(5) uncovered_is_gap [OF o] g by auto
    moreover have "\<exists>a l1 b l2. rangeOf (seDoc env) sig = Some [a, l1, b, l2] \<and> 0 \<le> a \<and> 0 \<le> l1 \<and> a + l1 \<le> b \<and> 0 \<le> l2 \<and>
         b + l2 \<le> ?n" using r(1) i o by force
    ultimately show ?thesis using r(3,4) i o g ok by auto
  qed
qed

theorem byte_range_exact_witness:
  "\<exists>f' hr'. computeByteRangeCoverage exampleEnv freshHole exampleSig (emptyField [] []) = Inr (f', hr') \<and>
     sfCoverageError f' = None \<and> sfTrailingGap f' = 0 \<and> sfCoversWholeFile f'"
proof -
  note c = example_cov [of "emptyField [] []"]
  have n: "modestSize (seFileSize exampleEnv)" by (simp add: modestSize_def exampleEnv_def)
  have f: "sfCoverageError (emptyField [] []) = None" by (simp add: emptyField_def)
  have "fileBytes 10 - ({0..<4} \<union> {8..<10}) = {4..<8}" by (auto simp: fileBytes_def)
  with byte_range_exact [OF n f c] f show ?thesis unfolding c by (auto simp: exampleEnv_def)
qed

section \<open>What a field's later steps keep\<close>

definition holeFacts :: "sigField \<Rightarrow> bool \<times> fileError option \<times> coverageError option" where
  "holeFacts f = (sfHoleMatchesContents f, sfHoleCheckError f, sfCoverageError f)"

lemma holeFacts_note [simp]: "holeFacts (addNote n f) = holeFacts f"
  by (simp add: holeFacts_def addNote_def)

lemma holeFacts_signer [simp]: "holeFacts (describeSigner cl sd certs f) = holeFacts f"
  by (auto simp: describeSigner_def Let_def holeFacts_def addNote_def split: list.split option.split)

lemma holeFacts_cms: "decomposeCMS env sig f sb = Inr (f', sb') \<Longrightarrow> holeFacts f' = holeFacts f"
  by (auto simp: decomposeCMS_def Let_def holeFacts_def addNote_def split: sum.splits if_splits)
    (use holeFacts_signer in \<open>fastforce simp: holeFacts_def\<close>)+

lemma addCert_facts:
  "addCert cl doc b st = Inr st' \<Longrightarrow> holeFacts (fst st') = holeFacts (fst st)"
  by (auto simp: addCert_def holeFacts_def split: sum.splits option.splits)

lemma holeFacts_cert:
  assumes "decomposeCertEntry env sig f sb = Inr (f', sb')"
  shows "holeFacts f' = holeFacts f"
proof -
  obtain blobs f1 sb1 where r: "foldSum (addCert (seCms env) (seDoc env)) blobs (addNote CertsFromCert f, sb) = Inr (f1, sb1)"
    and f': "holeFacts f' = holeFacts f1"
    using assms by (auto simp: decomposeCertEntry_def Let_def holeFacts_def split: sum.splits list.splits)
  have "holeFacts (fst (f1, sb1)) = holeFacts f"
    by (rule foldSum_invariant [OF r]) (auto dest: addCert_facts)
  with f' show ?thesis by simp
qed

lemma holeFacts_decompose: "decomposeBy env sig f sb = Inr (f', sb') \<Longrightarrow> holeFacts f' = holeFacts f"
  using holeFacts_cms [of env sig "f\<lparr>sfType := ''document-timestamp''\<rparr>" sb f' sb'] holeFacts_cms [of env sig f sb f' sb']
  by (auto simp: decomposeBy_def dest: holeFacts_cert split: if_splits) (auto simp: holeFacts_def)

lemma holeFacts_entries: "describeEntries env sig f = Inr f' \<Longrightarrow> holeFacts f' = holeFacts f"
  by (auto simp: describeEntries_def bindSum_Inr holeFacts_def)

section \<open>The hole of a signature\<close>

text \<open>
  The span a signature's \<open>/ByteRange\<close> leaves out and the hexadecimal string that should fill it, when there is
  one to read: the range holds four integers, two ordered ranges inside the file with up to four megabytes
  between them, and \<open>/Contents\<close> is a hexadecimal string.
\<close>

definition holeOf :: "pdfDoc \<Rightarrow> int \<Rightarrow> pdfDict \<Rightarrow> (int \<times> int \<times> string) option" where
  "holeOf doc n d =
     (case sigDictOf doc d of
        None \<Rightarrow> None
      | Some (sig, r) \<Rightarrow>
          (case (rangeOf doc sig, safeDeref doc (dictGet sig ''Contents'')) of
             (Some [a, l1, b, l2], PHex hx) \<Rightarrow>
               (if 0 \<le> a \<and> 0 \<le> l1 \<and> a + l1 < b \<and> 0 \<le> l2 \<and> b + l2 \<le> n \<and> b - (a + l1) \<le> 4194304
                then Some (a + l1, b, hx) else None)
           | _ \<Rightarrow> None))"

text \<open>Two hexadecimal strings that are the same up to case and white space.\<close>

definition blackLower :: "string \<Rightarrow> nat list" where
  "blackLower s = map (\<lambda>n. if 65 \<le> n \<and> n \<le> 90 then n + 32 else n) (filter (\<lambda>n. n \<notin> {0, 9, 10, 12, 13, 32}) (map byteOf s))"

definition sameHex :: "(string \<Rightarrow> string \<Rightarrow> bool) \<Rightarrow> string \<Rightarrow> string \<Rightarrow> bool" where
  "sameHex uni x y \<longleftrightarrow>
     (if isASCIIString (x @ y) then blackLower x = blackLower y
      else equalFold uni (stripPDFWhitespace x) (stripPDFWhitespace y))"

text \<open>
  What the list says of the hole of a field, given the refusal among the fields before it and how many times the
  file was opened for them: nothing of a field without a hole; the earlier refusal; or what this reading of the
  span comes to.
\<close>

definition holeRow :: "sigEnv \<Rightarrow> fileError option \<Rightarrow> nat \<Rightarrow> pdfDict \<Rightarrow> sigField \<Rightarrow> bool" where
  "holeRow env refused k d f \<longleftrightarrow>
     (case holeOf (seDoc env) (seFileSize env) d of
        None \<Rightarrow> \<not> sfHoleMatchesContents f \<and> sfHoleCheckError f = None
      | Some (h, b, hx) \<Rightarrow>
          (if refused \<noteq> None then \<not> sfHoleMatchesContents f \<and> sfHoleCheckError f = refused
           else case readFileSpan (seSessions env k) (seFingerprint env) h b of
             Inl (FileOs e) \<Rightarrow> \<not> sfHoleMatchesContents f \<and> sfHoleCheckError f = None
           | Inl e \<Rightarrow> \<not> sfHoleMatchesContents f \<and> sfHoleCheckError f = Some e
           | Inr sp \<Rightarrow> sfHoleCheckError f = None \<and>
               unchangedSession (seSessions env k) (seFingerprint env) \<and> fsReadAt (seSessions env k) (b - h) h = Inr sp \<and>
               (sfHoleMatchesContents f \<longleftrightarrow>
                  (\<exists>body. sp = [0x3C] @ body @ [0x3E] \<and> sameHex (clFoldUnicode (seCms env)) (bytesString body) hx))))"

fun firstRefusal :: "sigField list \<Rightarrow> fileError option" where
  "firstRefusal [] = None"
| "firstRefusal (f # fs) = (case sfHoleCheckError f of Some e \<Rightarrow> Some e | None \<Rightarrow> firstRefusal fs)"

definition holesIn :: "sigEnv \<Rightarrow> formField list \<Rightarrow> nat" where
  "holesIn env es = length (filter (\<lambda>(v, d, name). holeOf (seDoc env) (seFileSize env) d \<noteq> None) es)"

lemma firstRefusal_snoc: "firstRefusal (fs @ [f]) = (case firstRefusal fs of Some e \<Rightarrow> Some e | None \<Rightarrow> sfHoleCheckError f)"
  by (induction fs) (auto split: option.split)

lemma ascii_strip:
  assumes "isASCIIString s"
  shows "stripPDFWhitespace s = filter (\<lambda>c. \<not> pdfWhitespace (byteOf c)) s"
proof -
  have e: "encodeRunes (map byteOf s) = s" using ascii_encode assms by (simp add: isASCIIString_def)
  have "list_all scalarRune (map byteOf s)" using assms by (auto simp: isASCIIString_def list_all_iff scalarRune_def)
  from runes_encodeRunes [OF this] have "runes s = map byteOf s" by (simp add: e)
  then have "stripPDFWhitespace s = encodeRunes (map byteOf (filter (\<lambda>c. \<not> pdfWhitespace (byteOf c)) s))"
    by (simp add: stripPDFWhitespace_def filter_map o_def)
  also have "\<dots> = filter (\<lambda>c. \<not> pdfWhitespace (byteOf c)) s"
    using assms by (intro ascii_encode [symmetric]) (auto simp: isASCIIString_def list_all_iff)
  finally show ?thesis .
qed

lemma blackLower_lower:
  "blackLower s = map byteOf (map asciiLower (filter (\<lambda>c. \<not> pdfWhitespace (byteOf c)) s))"
proof -
  have "byteOf (asciiLower c) = (if 65 \<le> byteOf c \<and> byteOf c \<le> 90 then byteOf c + 32 else byteOf c)" for c
    by (simp add: asciiLower_def)
  then show ?thesis by (simp add: blackLower_def filter_map o_def pdfWhitespace_def)
qed

lemma sameHex_fold: "sameHex uni x y \<longleftrightarrow> equalFold uni (stripPDFWhitespace x) (stripPDFWhitespace y)"
proof (cases "isASCIIString (x @ y)")
  case True
  then have a: "isASCIIString x" "isASCIIString y" by (simp_all add: isASCIIString_def)
  then have "isASCIIString (stripPDFWhitespace x)" "isASCIIString (stripPDFWhitespace y)"
    by (auto simp: ascii_strip) (auto simp: isASCIIString_def list_all_iff)
  then show ?thesis using True a
    by (simp add: sameHex_def equalFold_def blackLower_lower ascii_strip inj_map_eq_map [OF inj_on_inverseI [of UNIV charOf byteOf]] del: map_map)
qed (simp add: sameHex_def)

lemma spanMatches_body:
  "spanMatches cl hx sp \<longleftrightarrow> (\<exists>body. sp = [0x3C] @ body @ [0x3E] \<and> sameHex (clFoldUnicode cl) (bytesString body) hx)"
proof
  assume m: "spanMatches cl hx sp"
  then obtain x xs where sp: "sp = x # xs" "xs \<noteq> []" by (cases sp) (fastforce simp: spanMatches_def)+
  with m have "sp = [0x3C] @ butlast xs @ [0x3E]"
    using append_butlast_last_id [of xs] by (simp add: spanMatches_def)
  with m sp show "\<exists>body. sp = [0x3C] @ body @ [0x3E] \<and> sameHex (clFoldUnicode cl) (bytesString body) hx"
    by (intro exI [of _ "butlast xs"]) (auto simp: spanMatches_def sameHex_fold)
qed (auto simp: spanMatches_def sameHex_fold butlast_append)

text \<open>One check of a hole.\<close>

lemma rangeOf_hole:
  assumes n: "modestSize (seFileSize env)" and d: "sigDictOf (seDoc env) d = Some (sig, r)"
    and ints: "rangeOf (seDoc env) sig = Some ints" "checkRange (seFileSize env) ints = RangeOK a h b e"
  shows "holeOf (seDoc env) (seFileSize env) d =
    (case safeDeref (seDoc env) (dictGet sig ''Contents'') of
       PHex hx \<Rightarrow> if h < b \<and> wrap64 (b - h) \<le> maxHoleProbeBytes then Some (h, b, hx) else None | _ \<Rightarrow> None)"
proof -
  from ints(2) have i: "ints = [a, h - a, b, e - b]" and o: "0 \<le> a" "a \<le> h" "h \<le> b" "b \<le> e" "e \<le> seFileSize env"
    by (simp_all add: checkRange_OK [OF n])
  have "wrap64 (b - h) = b - h" using o n by (intro wrap64_nonneg) (auto simp: modestSize_def maxInt64_def)
  with d ints(1) i o show ?thesis by (simp add: holeOf_def maxHoleProbeBytes_def split: pdfObj.split)
qed

lemma hole_none:
  assumes n: "modestSize (seFileSize env)" and d: "sigDictOf (seDoc env) d = Some (sig, r)"
    and bad: "\<forall>ints a h b e. rangeOf (seDoc env) sig = Some ints \<longrightarrow> checkRange (seFileSize env) ints \<noteq> RangeOK a h b e"
  shows "holeOf (seDoc env) (seFileSize env) d = None"
proof (rule ccontr)
  assume "holeOf (seDoc env) (seFileSize env) d \<noteq> None"
  with d obtain a l1 b l2 where r: "rangeOf (seDoc env) sig = Some [a, l1, b, l2]" and
    o: "0 \<le> a" "0 \<le> l1" "a + l1 < b" "0 \<le> l2" "b + l2 \<le> seFileSize env"
    by (auto simp: holeOf_def split: option.splits list.splits pdfObj.splits if_splits)
  have "checkRange (seFileSize env) [a, l1, b, l2] = RangeOK a (a + l1) b (b + l2)"
    using o by (simp add: checkRange_OK [OF n])
  with bad r show False by blast
qed

definition holeAfter :: "sigEnv \<Rightarrow> holeRead \<Rightarrow> pdfDict \<Rightarrow> sigField \<Rightarrow> holeRead \<Rightarrow> bool" where
  "holeAfter env hr d f hr' \<longleftrightarrow>
     holeRow env (hrRefused hr) (hrOpened hr) d f \<and>
     hrRefused hr' = (case hrRefused hr of Some e \<Rightarrow> Some e | None \<Rightarrow> sfHoleCheckError f) \<and>
     (hrRefused hr = None \<longrightarrow>
        hrOpened hr' = hrOpened hr + (if holeOf (seDoc env) (seFileSize env) d = None then 0 else 1))"

lemma hole_checked:
  assumes n: "modestSize (seFileSize env)" and d: "sigDictOf (seDoc env) d = Some (sig, r)"
    and ints: "rangeOf (seDoc env) sig = Some ints" "checkRange (seFileSize env) ints = RangeOK a h b e"
    and m: "holeMatchesContents env hr sig h b = Inr ((sfHoleMatchesContents f, sfHoleCheckError f), hr')"
  shows "holeAfter env hr d f hr'"
proof -
  note hole = rangeOf_hole [OF n d ints]
  obtain v where v: "derefIn (seDoc env) (dictGet sig ''Contents'') = Inr v" "safeDeref (seDoc env) (dictGet sig ''Contents'') = v"
    using m by (auto simp: holeMatchesContents_def dest: derefIn_safe split: sum.splits)
  show ?thesis
  proof (cases "\<exists>hx. v = PHex hx \<and> h < b \<and> wrap64 (b - h) \<le> maxHoleProbeBytes")
    case False
    then have "holeOf (seDoc env) (seFileSize env) d = None" using hole v by (auto split: pdfObj.split)
    moreover have "sfHoleMatchesContents f = False \<and> sfHoleCheckError f = None \<and> hr' = hr"
      using m v False by (auto simp: holeMatchesContents_def split: pdfObj.splits if_splits)
    ultimately show ?thesis by (auto simp: holeAfter_def holeRow_def split: option.split)
  next
    case True
    then obtain hx where hx: "v = PHex hx" "h < b" "wrap64 (b - h) \<le> maxHoleProbeBytes" by blast
    then have some: "holeOf (seDoc env) (seFileSize env) d = Some (h, b, hx)" using hole v by simp
    show ?thesis
    proof (cases "hrRefused hr")
      case (Some err)
      then have "\<not> sfHoleMatchesContents f \<and> sfHoleCheckError f = Some err \<and> hr' = hr"
        using m v hx by (simp add: holeMatchesContents_def)
      with Some some show ?thesis by (simp add: holeAfter_def holeRow_def)
    next
      case None
      show ?thesis
      proof (cases "readFileSpan (seSessions env (hrOpened hr)) (seFingerprint env) h b")
        case (Inl err)
        then show ?thesis using m v hx some None
          by (cases err) (auto simp: holeMatchesContents_def holeAfter_def holeRow_def Let_def)
      next
        case (Inr sp)
        then show ?thesis using m v hx some None span_verified [OF Inr]
          by (auto simp: holeMatchesContents_def holeAfter_def holeRow_def Let_def spanMatches_body)
      qed
    qed
  qed
qed

lemma holeAfter_facts: "holeFacts f = holeFacts g \<Longrightarrow> holeAfter env hr d f hr' \<longleftrightarrow> holeAfter env hr d g hr'"
  by (simp only: holeAfter_def holeRow_def holeFacts_def prod.inject)

lemma unsigned_hole: "sigDictOf (seDoc env) d = None \<Longrightarrow> holeAfter env hr d (emptyField name nid) hr"
  by (auto simp: holeAfter_def holeRow_def holeOf_def emptyField_def split: option.split)

lemma build_hole:
  assumes n: "modestSize (seFileSize env)" and b: "buildSignatureField env hr d name nid sb = Inr (f, sb', hr')"
  shows "holeAfter env hr d f hr'"
  using b
proof (cases rule: build_parts)
  case unsigned
  then show ?thesis by (simp add: unsigned_hole)
next
  case (signed sig r f2 f3)
  have e2: "holeFacts f2 = (False, None, None)"
    using holeFacts_entries [OF signed(2)] by (simp add: startField_def emptyField_def holeFacts_def)
  then have c2: "sfCoverageError f2 = None" by (simp add: holeFacts_def)
  have "holeAfter env hr d f3 hr'"
    using coverage_cases [OF signed(3) c2]
  proof (elim disjE conjE exE)
    fix ints a h b e
    assume "rangeOf (seDoc env) sig = Some ints" "checkRange (seFileSize env) ints = RangeOK a h b e"
      "holeMatchesContents env hr sig h b = Inr ((sfHoleMatchesContents f3, sfHoleCheckError f3), hr')"
    then show ?thesis by (rule hole_checked [OF n signed(1)])
  next
    assume "\<forall>ints a h b e. rangeOf (seDoc env) sig = Some ints \<longrightarrow> checkRange (seFileSize env) ints \<noteq> RangeOK a h b e"
      and "hr' = hr" "sfHoleCheckError f3 = sfHoleCheckError f2" "sfHoleMatchesContents f3 = sfHoleMatchesContents f2"
    then show ?thesis using hole_none [OF n signed(1)] e2
      by (auto simp: holeAfter_def holeRow_def holeFacts_def split: option.split)
  qed
  with holeAfter_facts [OF holeFacts_decompose [OF signed(4)]] show ?thesis by blast
qed

text \<open>The list so far: every row as it should be, the refusal the first one, and one opening for each hole before it.\<close>

definition holeRows :: "sigEnv \<Rightarrow> formField list \<Rightarrow> sigField list \<Rightarrow> bool" where
  "holeRows env es fs \<longleftrightarrow> length es = length fs \<and>
     (\<forall>j < length fs. holeRow env (firstRefusal (take j fs)) (holesIn env (take j es)) (fst (snd (es ! j))) (fs ! j))"

lemma list_hole:
  assumes n: "modestSize (seFileSize env)" and l: "listEntry env e w = Inr w'"
    and inv: "holeRows env es (swFields w)" "hrRefused (swHole w) = firstRefusal (swFields w)"
      "hrRefused (swHole w) = None \<longrightarrow> hrOpened (swHole w) = holesIn env es"
  shows "holeRows env (es @ [e]) (swFields w') \<and> hrRefused (swHole w') = firstRefusal (swFields w') \<and>
    (hrRefused (swHole w') = None \<longrightarrow> hrOpened (swHole w') = holesIn env (es @ [e]))"
proof -
  obtain v d name where e: "e = (v, d, name)" by (cases e)
  with l obtain f sb hr where b: "buildSignatureField env (swHole w) d name (fieldNodeID v) (map_option (\<lambda>_. noBytes) (swSink w)) = Inr (f, sb, hr)"
    and w': "swFields w' = swFields w @ [f]" "swHole w' = hr"
    by (auto simp: listEntry_def listField_def split: sum.splits)
  note a = build_hole [OF n b, unfolded holeAfter_def inv(2)]
  have row: "holeRow env (firstRefusal (swFields w)) (holesIn env es) d f"
  proof (cases "firstRefusal (swFields w)")
    case None
    with a inv show ?thesis by simp
  next
    case (Some x)
    with a show ?thesis by (auto simp: holeRow_def split: option.split)
  qed
  have "holeRows env (es @ [e]) (swFields w @ [f])"
    using inv(1) row by (auto simp: holeRows_def nth_append less_Suc_eq e)
  moreover have "holesIn env (es @ [e]) = holesIn env es + (if holeOf (seDoc env) (seFileSize env) d = None then 0 else 1)"
    by (simp add: holesIn_def e)
  ultimately show ?thesis using a inv(2,3) w' by (auto simp: firstRefusal_snoc split: option.splits)
qed

text \<open>
  Claim C37. The hole check can be trusted and fails as one. In the list of the form's signature fields, each field with
  a hole to read either carries the first refusal of the fields before it and no match, or tells what this
  reading of exactly the excluded bytes came to: a refusal, when the file changed or is locked; nothing, when it
  cannot be read; and otherwise, with the file unchanged around the read, a match exactly when those bytes are
  the \<open>/Contents\<close> hexadecimal string in its brackets, up to case and white space. A field without a hole to read
  carries neither.
\<close>

theorem hole_check_sound:
  assumes n: "modestSize (seFileSize env)" and fs: "GetSignatures env = Inr fs"
  shows "\<exists>es. formFields env es \<and> length es = length fs \<and>
    (\<forall>j < length fs. holeRow env (firstRefusal (take j fs)) (holesIn env (take j es)) (fst (snd (es ! j))) (fs ! j))"
proof -
  obtain bs where "collectSignatures env False = Inr (fs, bs)" using fs by (auto simp: GetSignatures_def split: sum.splits prod.splits)
  then obtain es w where es: "formFields env es" "swFields w = fs" and
    fold: "foldSum (listEntry env) es \<lparr> swFields = [], swSink = None, swHole = \<lparr> hrRefused = None, hrOpened = 0 \<rparr> \<rparr> = Inr w"
    by (rule collect_lists) auto
  let ?P = "\<lambda>es w. holeRows env es (swFields w) \<and> hrRefused (swHole w) = firstRefusal (swFields w) \<and>
      (hrRefused (swHole w) = None \<longrightarrow> hrOpened (swHole w) = holesIn env es)"
  have "?P es w"
  proof (rule foldSum_history [where P = ?P, OF fold])
    fix ys x u v
    assume "?P ys u" and s: "listEntry env x u = Inr v"
    then show "?P (ys @ [x]) v" by (intro list_hole [OF n s]) simp_all
  qed (simp add: holeRows_def holesIn_def)
  with es show ?thesis by (auto simp: holeRows_def)
qed

theorem hole_check_sound_witness:
  "\<exists>es f. formFields exampleEnv es \<and> GetSignatures exampleEnv = Inr [f] \<and>
     holeRow exampleEnv None 0 (fst (snd (es ! 0))) f"
proof -
  obtain f where "collectSignatures exampleEnv False = Inr ([f], None)" using example_collect [of False] by auto
  then have g: "GetSignatures exampleEnv = Inr [f]" by (simp add: GetSignatures_def)
  have "modestSize (seFileSize exampleEnv)" by (simp add: modestSize_def exampleEnv_def)
  from hole_check_sound [OF this g] g show ?thesis by (auto simp: holesIn_def)
qed

section \<open>Exports\<close>

text \<open>Without the bytes the walk does the same: they are only ever written.\<close>

definition noSink :: "sigField \<times> sigBytes option \<Rightarrow> sigField \<times> sigBytes option" where
  "noSink st = (fst st, None)"

lemma cms_sink: "decomposeCMS env sig f None = map_sum id noSink (decomposeCMS env sig f sb)"
  by (simp add: decomposeCMS_def Let_def noSink_def split: sum.split)

lemma certs_sink: "decomposeCertEntry env sig f None = map_sum id noSink (decomposeCertEntry env sig f sb)"
proof -
  have one: "addCert cl doc b (noSink st) = map_sum id noSink (addCert cl doc b st)" for cl doc b st
    by (cases st) (simp add: addCert_def noSink_def split: sum.split option.split)
  have many: "foldSum (addCert cl doc) bs (g, None) = map_sum id noSink (foldSum (addCert cl doc) bs (g, sb))" for cl doc bs g
    using foldSum_map [of bs "addCert cl doc" noSink "addCert cl doc" "(g, sb)", OF one] by (simp add: noSink_def)
  show ?thesis
    by (auto simp: decomposeCertEntry_def Let_def many noSink_def split: sum.split list.split)
qed

lemma decompose_sink: "decomposeBy env sig f None = map_sum id noSink (decomposeBy env sig f sb)"
  using cms_sink [of env sig _ sb] certs_sink [of env sig _ sb]
  by (auto simp: decomposeBy_def noSink_def)

lemma build_sink:
  "buildSignatureField env hr field name nid None =
     map_sum id (\<lambda>(f, b, h). (f, None, h)) (buildSignatureField env hr field name nid sb)"
  using decompose_sink [of env _ _ sb]
  by (auto simp: buildSignatureField_def Let_def noSink_def split: sum.split option.split)

definition dropSink :: "sigWalk \<Rightarrow> sigWalk" where
  "dropSink w = w\<lparr>swSink := None\<rparr>"

lemma list_sink: "listField env v d name ft (dropSink w) = map_sum id dropSink (listField env v d name ft w)"
  using build_sink [of env "swHole w" d name "fieldNodeID v" "map_option (\<lambda>_. noBytes) (swSink w)"]
  by (auto simp: listField_def dropSink_def split: sum.split)

lemma walk_sink: "walkSignatureField env v pn ift depth (dropSink w) = map_sum id dropSink (walkSignatureField env v pn ift depth w)"
proof (induction env v pn ift depth w rule: walkSignatureField.induct)
  case (1 env v pn ift depth w)
  have kids: "foldSum (visitKid env (\<lambda>kid u. walkSignatureField env kid name ft (Suc depth) u)) kids (dropSink w, False) =
      map_sum id (map_prod dropSink id) (foldSum (visitKid env (\<lambda>kid u. walkSignatureField env kid name ft (Suc depth) u)) kids (w, False))"
    if "\<not> depth > maxNodeIDDepth" "derefDict (seDoc env) v = Inr (Some d)" "fieldName env d pn = Inr name"
      "fieldType env d ift = Inr ft" "dereferenceArray (seDoc env) (dictGet d ''Kids'') = Inr kids" for d name ft kids
  proof -
    let ?v = "visitKid env (\<lambda>kid u. walkSignatureField env kid name ft (Suc depth) u)"
    have "?v kid (map_prod dropSink id st) = map_sum id (map_prod dropSink id) (?v kid st)" if "kid \<in> set kids" for kid st
      using 1 [OF \<open>\<not> depth > maxNodeIDDepth\<close> \<open>derefDict (seDoc env) v = Inr (Some d)\<close> refl
          \<open>fieldName env d pn = Inr name\<close> \<open>fieldType env d ift = Inr ft\<close> \<open>dereferenceArray (seDoc env) (dictGet d ''Kids'') = Inr kids\<close> that]
      by (cases st) (auto simp: visitKid_def split: sum.split option.split)
    from foldSum_map [of kids ?v "map_prod dropSink id" ?v "(w, False)", OF this] show ?thesis by simp
  qed
  show ?case
    by (subst walkSignatureField.simps, subst walkSignatureField.simps)
      (auto simp: kids list_sink split: sum.split option.split if_splits)
qed

text \<open>The certificate a signer's identifier names: by issuer and serial number, or by key identifier.\<close>

definition namesCert :: "cmsLib \<Rightarrow> signerInfo \<Rightarrow> certificate \<Rightarrow> bool" where
  "namesCert cl si c \<longleftrightarrow>
     (rvClass (siSID si) = 0 \<and> rvTag (siSID si) = 16 \<and>
        clIssuerSerial cl (rvFullBytes (siSID si)) = Some (ctRawIssuer c, Some (ctSerial c))) \<or>
     (rvClass (siSID si) = 2 \<and> rvTag (siSID si) = 0 \<and> rvBytes (siSID si) \<noteq> [] \<and> ctSubjectKeyId c = rvBytes (siSID si))"

lemma match_names: "matchSignerCert cl si certs = find (namesCert cl si) certs"
proof -
  have c: "(\<And>c. P c \<longleftrightarrow> Q c) \<Longrightarrow> find P certs = find Q certs" for P Q :: "certificate \<Rightarrow> bool" by (metis ext)
  have n: "(\<And>c. \<not> P c) \<Longrightarrow> find P certs = None" for P :: "certificate \<Rightarrow> bool" by (simp add: find_None_iff)
  show ?thesis
    by (auto simp: matchSignerCert_def Let_def split: option.split intro!: c n sym [OF n]) (auto simp: namesCert_def)
qed

text \<open>The bytes of a string of the document; a string in parentheses has its line ends normalised first.\<close>

definition payloadOf :: "cmsLib \<Rightarrow> pdfDoc \<Rightarrow> pdfObj \<Rightarrow> byte list option" where
  "payloadOf cl doc v =
     (case safeDeref doc v of
        PHex s \<Rightarrow> (case clHexBytes cl s of Inr b \<Rightarrow> Some b | Inl e \<Rightarrow> None)
      | PString s \<Rightarrow> (case clUnescape cl (replaceCR (replaceCRLF s)) of Inr b \<Rightarrow> Some b | Inl e \<Rightarrow> None)
      | _ \<Rightarrow> None)"

lemma payload_bytes: "pdfStringBytes cl doc v = Inr r \<Longrightarrow> payloadOf cl doc v = (case r of Inr b \<Rightarrow> Some b | Inl e \<Rightarrow> None)"
  by (auto simp: pdfStringBytes_def payloadOf_def dest!: derefIn_safe split: sum.splits pdfObj.splits)

text \<open>The certificates and the SignerInfos of a payload in DER, when it is a SignedData that can be read.\<close>

definition signedCerts :: "cmsLib \<Rightarrow> byte list \<Rightarrow> (certificate list \<times> signerInfo list) option" where
  "signedCerts cl der =
     (case clContentInfo cl der of
        Inl e \<Rightarrow> None
      | Inr (oid, content) \<Rightarrow>
          if oid \<noteq> ''1.2.840.113549.1.7.2'' \<or> content = [] then None
          else (case clSignedData cl content of
                  Inl e \<Rightarrow> None
                | Inr (sd, n) \<Rightarrow>
                    (case clCertificates cl (sdCertificates sd) of Inl e \<Rightarrow> None | Inr certs \<Rightarrow> Some (certs, sdSignerInfos sd))))"

definition noExport :: "sigField \<Rightarrow> sigBytes \<Rightarrow> bool" where
  "noExport f b \<longleftrightarrow> sbCMS b = None \<and> sbCMSUndelimited b = None \<and> sbCertificates b = [] \<and>
     sfCertificates f = [] \<and> sfSigner f = None \<and> \<not> sfSignerIdentified f"

text \<open>
  The row of a CMS payload: the first BER element as it stands, or everything with the reason; the encoding of each
  certificate that is listed; and as the signer the first certificate the first SignerInfo names.
\<close>

definition cmsRow :: "cmsLib \<Rightarrow> byte list \<Rightarrow> sigField \<Rightarrow> sigBytes \<Rightarrow> bool" where
  "cmsRow cl raw f b \<longleftrightarrow>
     (case (if raw = [] then Inl EmptyPayload else case normalizeBER raw of Inl e \<Rightarrow> Inl (NormalizeFailed e) | Inr r \<Rightarrow> Inr r) of
        Inl e \<Rightarrow> sbCMS b = Some raw \<and> sbCMSUndelimited b = Some e \<and> sfCMSEncoding f = [] \<and>
          sbCertificates b = [] \<and> sfCertificates f = [] \<and> sfSigner f = None \<and> \<not> sfSignerIdentified f
      | Inr (der, isBER, fin, rest) \<Rightarrow>
          sbCMS b = Some (take fin raw) \<and> sbCMSUndelimited b = None \<and> sfCMSEncoding f = (if isBER then ''BER'' else ''DER'') \<and>
          (sfSignerIdentified f \<longleftrightarrow> sfSigner f \<noteq> None) \<and>
          (case signedCerts cl der of
             None \<Rightarrow> sbCertificates b = [] \<and> sfCertificates f = [] \<and> sfSigner f = None
           | Some (certs, infos) \<Rightarrow>
               sbCertificates b = map ctRaw certs \<and> sfCertificates f = map (certInfoFrom (clOids cl)) certs \<and>
               sfSigner f = (case infos of [] \<Rightarrow> None | si # _ \<Rightarrow> map_option (certInfoFrom (clOids cl)) (find (namesCert cl si) certs))))"

text \<open>The certificates a \<open>/Cert\<close> entry holds, each with the bytes it is read from.\<close>

definition certAt :: "cmsLib \<Rightarrow> pdfDoc \<Rightarrow> pdfObj \<Rightarrow> (certificate \<times> byte list) list" where
  "certAt cl doc v =
     (case payloadOf cl doc v of
        None \<Rightarrow> []
      | Some der \<Rightarrow> (case clRawValue cl der of None \<Rightarrow> []
          | Some full \<Rightarrow> (case clCertificate cl full of None \<Rightarrow> [] | Some c \<Rightarrow> [(c, full)])))"

definition certsOf :: "cmsLib \<Rightarrow> pdfDoc \<Rightarrow> pdfDict \<Rightarrow> (certificate \<times> byte list) list" where
  "certsOf cl doc sig =
     (case safeDeref doc (dictGet sig ''Cert'') of
        PNull \<Rightarrow> []
      | PArray vs \<Rightarrow> concat (map (certAt cl doc) vs)
      | v \<Rightarrow> certAt cl doc v)"

definition cmsSub :: "string \<Rightarrow> bool" where
  "cmsSub s \<longleftrightarrow> (\<exists>r. s = ''adbe.pkcs7.'' @ r) \<or> (\<exists>r. s = ''ETSI.CAdES'' @ r) \<or> s = ''ETSI.RFC3161''"

text \<open>What is listed and exported for a field of the form.\<close>

definition exportRow :: "sigEnv \<Rightarrow> formField \<Rightarrow> sigField \<Rightarrow> sigBytes \<Rightarrow> bool" where
  "exportRow env e f b \<longleftrightarrow>
     (case e of (v, d, name) \<Rightarrow>
        sfFieldName f = name \<and> sfFieldNodeID f = fieldNodeID v \<and>
        (case sigDictOf (seDoc env) d of
           None \<Rightarrow> \<not> sfSigned f \<and> noExport f b
         | Some (sig, r) \<Rightarrow>
             sfSigned f \<and>
             (let sub = nameOf (safeDeref (seDoc env) (dictGet sig ''SubFilter'')) in
              if cmsSub sub then
                (case payloadOf (seCms env) (seDoc env) (dictGet sig ''Contents'') of
                   None \<Rightarrow> noExport f b | Some raw \<Rightarrow> cmsRow (seCms env) raw f b)
              else if sub = ''adbe.x509.rsa_sha1'' then
                (let certs = certsOf (seCms env) (seDoc env) sig in
                 sbCMS b = None \<and> sbCMSUndelimited b = None \<and> sbCertificates b = map snd certs \<and>
                 sfCertificates f = map (\<lambda>(c, full). certInfoFrom (clOids (seCms env)) c) certs \<and>
                 sfSigner f = (case certs of [] \<Rightarrow> None | (c, full) # _ \<Rightarrow> Some (certInfoFrom (clOids (seCms env)) c)) \<and>
                 (sfSignerIdentified f \<longleftrightarrow> certs \<noteq> []))
              else noExport f b)))"

lemma cmsSub_code: "cmsSub s \<longleftrightarrow> IsCMSSubFilter s"
proof -
  have "hasPrefix s p \<longleftrightarrow> (\<exists>r. s = p @ r)" for p
    by (auto simp: hasPrefix_def) (metis append_take_drop_id)
  then show ?thesis by (simp add: cmsSub_def IsCMSSubFilter_def)
qed

text \<open>A field before its payload is decomposed, and what every step keeps of it.\<close>

definition fresh :: "sigField \<Rightarrow> bool" where
  "fresh f \<longleftrightarrow> sfCertificates f = [] \<and> sfSigner f = None \<and> \<not> sfSignerIdentified f \<and> sfCMSEncoding f = []"

definition labels :: "sigField \<Rightarrow> string \<times> string \<times> bool" where
  "labels f = (sfFieldName f, sfFieldNodeID f, sfSigned f)"

lemma fresh_entries: "describeEntries env sig f = Inr f' \<Longrightarrow>
    (fresh f \<longrightarrow> fresh f') \<and> labels f' = labels f \<and> sfSubFilter f' = nameOf (safeDeref (seDoc env) (dictGet sig ''SubFilter''))"
  by (auto simp: describeEntries_def bindSum_Inr fresh_def labels_def dest: derefIn_safe)

lemma fresh_coverage: "computeByteRangeCoverage env hr sig f = Inr (f', hr') \<Longrightarrow>
    (fresh f \<longrightarrow> fresh f') \<and> labels f' = labels f \<and> sfSubFilter f' = sfSubFilter f"
  by (auto simp: computeByteRangeCoverage_def fresh_def labels_def Let_def
      split: option.splits sum.splits pdfObj.splits rangeCheck.splits)

text \<open>Describing the signer adds the signer and notes.\<close>

lemma note_facts [simp]:
  "sfCertificates (addNote n f) = sfCertificates f" "sfCMSEncoding (addNote n f) = sfCMSEncoding f" "labels (addNote n f) = labels f"
  "sfSigner (addNote n f) = sfSigner f" "sfSignerIdentified (addNote n f) = sfSignerIdentified f"
  by (simp_all add: addNote_def labels_def)

lemma describe_facts:
  "sfCertificates (describeSigner cl sd certs f) = sfCertificates f" "sfCMSEncoding (describeSigner cl sd certs f) = sfCMSEncoding f"
  "labels (describeSigner cl sd certs f) = labels f"
  by (auto simp: describeSigner_def addNote_def labels_def Let_def split: list.split option.split)

lemma describe_signer:
  assumes "sfSigner f = None" "\<not> sfSignerIdentified f"
  shows "sfSigner (describeSigner cl sd certs f) =
      (case sdSignerInfos sd of [] \<Rightarrow> None | si # _ \<Rightarrow> map_option (certInfoFrom (clOids cl)) (find (namesCert cl si) certs)) \<and>
    (sfSignerIdentified (describeSigner cl sd certs f) \<longleftrightarrow> sfSigner (describeSigner cl sd certs f) \<noteq> None)"
  using assms by (auto simp: describeSigner_def match_names Let_def split: list.split option.split)

lemma signedCerts_code:
  "(\<exists>e. unmarshalCMS cl der = Inl e) \<Longrightarrow> signedCerts cl der = None"
  "unmarshalCMS cl der = Inr (sd, n) \<Longrightarrow>
     signedCerts cl der = (case clCertificates cl (sdCertificates sd) of Inl e \<Rightarrow> None | Inr certs \<Rightarrow> Some (certs, sdSignerInfos sd))"
  by (auto simp: unmarshalCMS_def signedCerts_def oidCMSSignedData_def split: sum.splits if_splits)

text \<open>The field a payload leaves, before its structure is looked at.\<close>

definition cmsHead :: "cmsParse \<Rightarrow> sigField \<Rightarrow> sigField" where
  "cmsHead cp f =
     (let f1 = f\<lparr>sfCMSEncoding := cpEncoding cp\<rparr>;
          f2 = (if tailCount (cpTail cp) > 0 then f1\<lparr>sfCMSTrailingBytes := Some (tailOffset (cpTail cp), tailCount (cpTail cp))\<rparr> else f1)
      in if cpInnerRest cp > 0 then addNote (InnerBytes (cpInnerRest cp)) f2 else f2)"

lemma cmsHead_facts:
  "sfCertificates (cmsHead cp f) = sfCertificates f" "sfCMSEncoding (cmsHead cp f) = cpEncoding cp" "labels (cmsHead cp f) = labels f"
  "sfSigner (cmsHead cp f) = sfSigner f" "sfSignerIdentified (cmsHead cp f) = sfSignerIdentified f"
  by (simp_all add: cmsHead_def Let_def labels_def addNote_def)

lemma cms_result:
  assumes "decomposeCMS env sig f (Some noBytes) = Inr (f', sb')" "fresh f"
    "pdfStringBytes (seCms env) (seDoc env) (dictGet sig ''Contents'') = Inr (Inr raw)"
    "parseCMSSignedData (seCms env) raw = (cp, res)"
  shows "case res of
      Inl e \<Rightarrow> f' = (cmsHead cp f)\<lparr>sfDecomposeError := Some (CMSParseFailed e)\<rparr> \<and> sb' = Some (exportCMS raw (cp, res) noBytes)
    | Inr sd \<Rightarrow> (case clCertificates (seCms env) (sdCertificates sd) of
        Inl e \<Rightarrow> f' = (cmsHead cp f)\<lparr>sfDecomposeError := Some (CertificateSetFailed e)\<rparr> \<and> sb' = Some (exportCMS raw (cp, res) noBytes)
      | Inr certs \<Rightarrow> f' = describeSigner (seCms env) sd certs ((cmsHead cp f)\<lparr>sfCertificates := map (certInfoFrom (clOids (seCms env))) certs\<rparr>) \<and>
          sb' = Some ((exportCMS raw (cp, res) noBytes)\<lparr>sbCertificates := map ctRaw certs\<rparr>))"
proof -
  have "sfCertificates f = []" "sbCertificates (exportCMS raw (cp, res) noBytes) = []"
    using assms(2) by (simp_all add: fresh_def exportCMS_def noBytes_def)
  then show ?thesis using assms(1,3,4)
    by (auto simp: decomposeCMS_def Let_def cmsHead_def split: sum.splits)
qed

lemma cms_row:
  assumes d: "decomposeCMS env sig f (Some noBytes) = Inr (f', sb')" and f: "fresh f"
    and p: "pdfStringBytes (seCms env) (seDoc env) (dictGet sig ''Contents'') = Inr (Inr raw)"
  shows "labels f' = labels f \<and> (\<exists>b. sb' = Some b \<and> cmsRow (seCms env) raw f' b)"
proof -
  let ?cl = "seCms env"
  obtain cp res where pr: "parseCMSSignedData ?cl raw = (cp, res)" by (cases "parseCMSSignedData ?cl raw")
  note r = cms_result [OF d f p pr]
  show ?thesis
  proof (cases "raw = [] \<or> (\<exists>e. normalizeBER raw = Inl e)")
    case True
    then obtain e where "cp = emptyParse" "res = Inl e" and
      "(if raw = [] then Inl EmptyPayload else case normalizeBER raw of Inl e \<Rightarrow> Inl (NormalizeFailed e) | Inr r \<Rightarrow> Inr r) = Inl e"
      using pr by (auto simp: parseCMSSignedData_def split: if_splits)
    with r f show ?thesis
      by (simp add: cmsRow_def cmsHead_facts exportCMS_def noBytes_def emptyParse_def fresh_def)
        (simp add: labels_def cmsHead_def Let_def)
  next
    case False
    then obtain der isBER fin rest where nb: "raw \<noteq> []" "normalizeBER raw = Inr (der, isBER, fin, rest)"
      by (metis surj_pair sum.exhaust)
    have cp: "cpEncoding cp = (if isBER then ''BER'' else ''DER'')" "cpEnd cp = fin"
      and res: "res = map_sum id fst (unmarshalCMS ?cl der)"
      using pr nb by (auto simp: parseCMSSignedData_def Let_def split: sum.splits)
    have ex: "exportCMS raw (cp, res) noBytes = noBytes\<lparr>sbCMS := Some (take fin raw)\<rparr>"
      by (simp add: exportCMS_def cp)
    have l: "labels (g\<lparr>sfDecomposeError := x\<rparr>) = labels g" "labels (g\<lparr>sfCertificates := cs\<rparr>) = labels g" for g x cs
      by (simp_all add: labels_def)
    show ?thesis
    proof (cases "unmarshalCMS ?cl der")
      case (Inl e)
      with r res signedCerts_code(1) [of ?cl der] nb f ex show ?thesis
        by (simp add: cmsRow_def cmsHead_facts noBytes_def fresh_def cp l)
    next
      case (Inr q)
      then obtain sd n where u: "unmarshalCMS ?cl der = Inr (sd, n)" by (cases q) auto
      show ?thesis
      proof (cases "clCertificates ?cl (sdCertificates sd)")
        case (Inl e)
        with r res u signedCerts_code(2) [OF u] nb f ex show ?thesis
          by (simp add: cmsRow_def cmsHead_facts noBytes_def fresh_def cp l)
      next
        case (Inr certs)
        let ?g = "(cmsHead cp f)\<lparr>sfCertificates := map (certInfoFrom (clOids ?cl)) certs\<rparr>"
        have "sfSigner ?g = None" "\<not> sfSignerIdentified ?g" using f by (simp_all add: cmsHead_facts fresh_def)
        from describe_signer [OF this, of ?cl sd certs] r res u Inr signedCerts_code(2) [OF u] nb ex show ?thesis
          by (simp add: cmsRow_def cmsHead_facts describe_facts noBytes_def cp l)
      qed
    qed
  qed
qed

text \<open>The certificates of the entry, one string after the other.\<close>

lemma certOf_at: "certOfString cl doc v = Inr r \<Longrightarrow> certAt cl doc v = (case r of None \<Rightarrow> [] | Some q \<Rightarrow> [q])"
  by (auto simp: certOfString_def certAt_def dest!: payload_bytes split: sum.splits option.splits)

lemma certs_fold:
  "foldSum (addCert cl doc) vs (g, Some b) = Inr (g', sb') \<Longrightarrow>
     \<exists>b'. sb' = Some b' \<and> sbCMS b' = sbCMS b \<and> sbCMSUndelimited b' = sbCMSUndelimited b \<and>
       sbCertificates b' = sbCertificates b @ map snd (concat (map (certAt cl doc) vs)) \<and>
       sfCertificates g' = sfCertificates g @ map (\<lambda>(c, full). certInfoFrom (clOids cl) c) (concat (map (certAt cl doc) vs)) \<and>
       labels g' = labels g \<and> sfSigner g' = sfSigner g \<and> sfSignerIdentified g' = sfSignerIdentified g"
proof (induction vs arbitrary: g b)
  case (Cons v vs)
  then obtain st where st: "addCert cl doc v (g, Some b) = Inr st" "foldSum (addCert cl doc) vs st = Inr (g', sb')"
    by (auto split: sum.splits)
  from st(1) obtain q where q: "certOfString cl doc v = Inr q" by (auto simp: addCert_def split: sum.splits)
  note at = certOf_at [OF q]
  show ?case
  proof (cases q)
    case None
    with st(1) q have "st = (g, Some b)" by (simp add: addCert_def)
    with st(2) Cons.IH [of g b] at None show ?thesis by simp
  next
    case (Some p)
    obtain c full where p: "p = (c, full)" by (cases p)
    let ?g = "g\<lparr>sfCertificates := sfCertificates g @ [certInfoFrom (clOids cl) c]\<rparr>" and ?b = "b\<lparr>sbCertificates := sbCertificates b @ [full]\<rparr>"
    have "st = (?g, Some ?b)" using st(1) q Some p by (simp add: addCert_def)
    with st(2) Cons.IH [of ?g ?b] at Some p show ?thesis by (simp add: labels_def)
  qed
qed auto

lemma cert_row:
  assumes d: "decomposeCertEntry env sig f (Some noBytes) = Inr (f', sb')" and f: "fresh f"
  defines "certs \<equiv> certsOf (seCms env) (seDoc env) sig"
  shows "labels f' = labels f \<and> (\<exists>b. sb' = Some b \<and> sbCMS b = None \<and> sbCMSUndelimited b = None \<and> sbCertificates b = map snd certs \<and>
    sfCertificates f' = map (\<lambda>(c, full). certInfoFrom (clOids (seCms env)) c) certs \<and>
    sfSigner f' = (case certs of [] \<Rightarrow> None | (c, full) # _ \<Rightarrow> Some (certInfoFrom (clOids (seCms env)) c)) \<and>
    (sfSignerIdentified f' \<longleftrightarrow> certs \<noteq> []))"
proof -
  obtain v where v: "derefIn (seDoc env) (dictGet sig ''Cert'') = Inr v"
    using d by (auto simp: decomposeCertEntry_def split: sum.splits)
  let ?vs = "case asArray v of Some arr \<Rightarrow> arr | None \<Rightarrow> if v \<noteq> PNull then [v] else []"
  have c: "certs = concat (map (certAt (seCms env) (seDoc env)) ?vs)"
    using derefIn_safe [OF v] by (cases v) (simp_all add: certs_def certsOf_def)
  obtain f1 sb1 where r: "foldSum (addCert (seCms env) (seDoc env)) ?vs (addNote CertsFromCert f, Some noBytes) = Inr (f1, sb1)"
    and f': "(sfCertificates f1 = [] \<and> f' = f1\<lparr>sfDecomposeError := Some NoCertificateReadable\<rparr> \<and> sb' = sb1) \<or>
      (\<exists>signer cs. sfCertificates f1 = signer # cs \<and> f' = f1\<lparr>sfSigner := Some signer, sfSignerIdentified := True\<rparr> \<and> sb' = sb1)"
    using d v by (auto simp: decomposeCertEntry_def Let_def split: sum.splits list.splits)
  from certs_fold [OF r, folded c] f obtain b where b: "sb1 = Some b" "sbCMS b = None" "sbCMSUndelimited b = None" "sbCertificates b = map snd certs"
    and g: "sfCertificates f1 = map (\<lambda>(c, full). certInfoFrom (clOids (seCms env)) c) certs" "labels f1 = labels f" "sfSigner f1 = None" "\<not> sfSignerIdentified f1"
    by (auto simp: noBytes_def fresh_def)
  show ?thesis
  proof (cases certs)
    case Nil
    with b g f' show ?thesis by (auto simp: labels_def)
  next
    case (Cons q qs)
    with b g f' show ?thesis by (auto simp: labels_def split: prod.splits)
  qed
qed

lemma build_row:
  assumes b: "buildSignatureField env hr d name (fieldNodeID v) (Some noBytes) = Inr (f, sb', hr')"
  shows "\<exists>b. sb' = Some b \<and> exportRow env (v, d, name) f b"
  using b
proof (cases rule: build_parts)
  case unsigned
  then show ?thesis by (simp add: exportRow_def noExport_def emptyField_def noBytes_def)
next
  case (signed sig r f2 f3)
  have "fresh (startField name (fieldNodeID v) r)" "labels (startField name (fieldNodeID v) r) = (name, fieldNodeID v, True)"
    by (simp_all add: fresh_def labels_def startField_def emptyField_def)
  with fresh_entries [OF signed(2)] fresh_coverage [OF signed(3)] have f3: "fresh f3" "labels f3 = (name, fieldNodeID v, True)" and
    sub: "sfSubFilter f3 = nameOf (safeDeref (seDoc env) (dictGet sig ''SubFilter''))" by auto
  have lab: "exportRow env (v, d, name) f b \<longleftrightarrow> (if IsCMSSubFilter (sfSubFilter f3) then
        (case payloadOf (seCms env) (seDoc env) (dictGet sig ''Contents'') of None \<Rightarrow> noExport f b | Some raw \<Rightarrow> cmsRow (seCms env) raw f b)
      else if sfSubFilter f3 = ''adbe.x509.rsa_sha1'' then
        sbCMS b = None \<and> sbCMSUndelimited b = None \<and> sbCertificates b = map snd (certsOf (seCms env) (seDoc env) sig) \<and>
        sfCertificates f = map (\<lambda>(c, full). certInfoFrom (clOids (seCms env)) c) (certsOf (seCms env) (seDoc env) sig) \<and>
        sfSigner f = (case certsOf (seCms env) (seDoc env) sig of [] \<Rightarrow> None | (c, full) # _ \<Rightarrow> Some (certInfoFrom (clOids (seCms env)) c)) \<and>
        (sfSignerIdentified f \<longleftrightarrow> certsOf (seCms env) (seDoc env) sig \<noteq> [])
      else noExport f b)" if "labels f = labels f3" for b
    using that f3(2) signed(1) by (simp add: exportRow_def cmsSub_code sub [symmetric] labels_def Let_def)
  let ?g = "if sfSubFilter f3 = ''ETSI.RFC3161'' then f3\<lparr>sfType := ''document-timestamp''\<rparr> else f3"
  have g: "fresh ?g" "labels ?g = labels f3" using f3(1) by (simp_all add: fresh_def labels_def)
  consider (cms) "IsCMSSubFilter (sfSubFilter f3)" | (cert) "\<not> IsCMSSubFilter (sfSubFilter f3)" "sfSubFilter f3 = ''adbe.x509.rsa_sha1''" |
    (other) "\<not> IsCMSSubFilter (sfSubFilter f3)" "sfSubFilter f3 \<noteq> ''adbe.x509.rsa_sha1''" by blast
  then show ?thesis
  proof cases
    case cms
    with signed(4) have d: "decomposeCMS env sig ?g (Some noBytes) = Inr (f, sb')" by (simp add: decomposeBy_def)
    then obtain rd where rd: "pdfStringBytes (seCms env) (seDoc env) (dictGet sig ''Contents'') = Inr rd"
      by (auto simp: decomposeCMS_def Let_def split: sum.splits)
    show ?thesis
    proof (cases rd)
      case (Inl e)
      with d rd have "f = ?g\<lparr>sfDecomposeError := Some (ContentsUnreadable e)\<rparr>" "sb' = Some noBytes"
        by (simp_all add: decomposeCMS_def Let_def)
      with g payload_bytes [OF rd] Inl cms lab show ?thesis by (simp add: noExport_def fresh_def noBytes_def labels_def)
    next
      case (Inr raw)
      from cms_row [OF d g(1) rd [unfolded Inr]] g(2) payload_bytes [OF rd] Inr cms lab show ?thesis by auto
    qed
  next
    case cert
    with signed(4) have "decomposeCertEntry env sig f3 (Some noBytes) = Inr (f, sb')" by (simp add: decomposeBy_def)
    from cert_row [OF this f3(1)] cert lab show ?thesis by auto
  next
    case other
    with signed(4) have "f = addNote NotDecomposed f3" "sb' = Some noBytes" by (simp_all add: decomposeBy_def)
    with f3(1) lab other show ?thesis by (simp add: noExport_def fresh_def noBytes_def)
  qed
qed

definition exportRows :: "sigEnv \<Rightarrow> formField list \<Rightarrow> sigField list \<Rightarrow> sigBytes list \<Rightarrow> bool" where
  "exportRows env es fs bs \<longleftrightarrow> length es = length fs \<and> length bs = length fs \<and>
     (\<forall>j < length fs. exportRow env (es ! j) (fs ! j) (bs ! j))"

lemma list_row:
  assumes l: "listEntry env e w = Inr w'" and inv: "swSink w = Some bs" "exportRows env es (swFields w) bs"
  shows "\<exists>bs'. swSink w' = Some bs' \<and> exportRows env (es @ [e]) (swFields w') bs'"
proof -
  obtain v d name where e: "e = (v, d, name)" by (cases e)
  with l inv(1) obtain f sb hr where b: "buildSignatureField env (swHole w) d name (fieldNodeID v) (Some noBytes) = Inr (f, sb, hr)"
    and w': "swFields w' = swFields w @ [f]" "swSink w' = (case sb of Some b \<Rightarrow> Some (bs @ [b]) | None \<Rightarrow> Some bs)"
    by (auto simp: listEntry_def listField_def split: sum.splits option.splits)
  from build_row [OF b] obtain x where "sb = Some x" "exportRow env (v, d, name) f x" by blast
  with w' inv(2) e show ?thesis by (auto simp: exportRows_def nth_append less_Suc_eq)
qed

lemma collect_sink: "collectSignatures env False = map_sum id (\<lambda>(fs, bs). (fs, None)) (collectSignatures env True)"
proof -
  let ?w = "\<lambda>s. \<lparr> swFields = [], swSink = s, swHole = \<lparr> hrRefused = None, hrOpened = 0 \<rparr> \<rparr>"
  have d: "?w None = dropSink (?w (Some []))" by (simp add: dropSink_def)
  have f: "foldSum (\<lambda>e u. walkSignatureField env e [] [] 0 u) elems (?w None) =
      map_sum id dropSink (foldSum (\<lambda>e u. walkSignatureField env e [] [] 0 u) elems (?w (Some [])))" for elems
    unfolding d by (rule foldSum_map) (rule walk_sink)
  show ?thesis
    by (auto simp: collectSignatures_def Let_def f dropSink_def split: derefAnswer.split sum.split option.split)
qed

text \<open>
  Claim C38. Exporting changes nothing and mixes nothing up: the call that also returns bytes lists the same
  fields as the one that does not, one after the other the signature fields of the form, each with its own bytes. Of a
  CMS payload that is the first BER element as it stands, or all of it with the reason, and the encoding of each listed
  certificate, in order; the signer is the first of them that the first SignerInfo names, by issuer and
  serial number or by key identifier, and nobody when it names none. Of a \<open>/Cert\<close> entry it is the encoding of each
  certificate, the first of which is the signer; and of anything else there is nothing.
\<close>

theorem signature_exports_align:
  "(GetSignatureBytes env = Inr (fs, bs) \<longrightarrow>
      GetSignatures env = Inr fs \<and>
      (\<exists>es. formFields env es \<and> length es = length fs \<and> length bs = length fs \<and>
         (\<forall>j < length fs. exportRow env (es ! j) (fs ! j) (bs ! j)))) \<and>
   (GetSignatureBytes env = Inl e \<longleftrightarrow> GetSignatures env = Inl e)"
proof (rule conjI [OF impI])
  assume "GetSignatureBytes env = Inr (fs, bs)"
  then obtain o1 where c: "collectSignatures env True = Inr (fs, o1)" and bs: "bs = (case o1 of Some b \<Rightarrow> b | None \<Rightarrow> [])"
    by (auto simp: GetSignatureBytes_def split: sum.splits prod.splits)
  from c obtain es w where es: "formFields env es" "swFields w = fs" "swSink w = o1" and
    fold: "foldSum (listEntry env) es \<lparr> swFields = [], swSink = Some [], swHole = \<lparr> hrRefused = None, hrOpened = 0 \<rparr> \<rparr> = Inr w"
    by (rule collect_lists) auto
  let ?P = "\<lambda>es w. \<exists>bs. swSink w = Some bs \<and> exportRows env es (swFields w) bs"
  have "?P es w"
  proof (rule foldSum_history [where P = ?P, OF fold])
    fix ys x u v
    assume "?P ys u" and s: "listEntry env x u = Inr v"
    then show "?P (ys @ [x]) v" by (elim exE conjE) (rule list_row [OF s])
  qed (simp add: exportRows_def)
  moreover have "GetSignatures env = Inr fs" using c by (simp add: GetSignatures_def collect_sink)
  ultimately show "GetSignatures env = Inr fs \<and> (\<exists>es. formFields env es \<and> length es = length fs \<and> length bs = length fs \<and>
      (\<forall>j < length fs. exportRow env (es ! j) (fs ! j) (bs ! j)))"
    using bs es by (auto simp: exportRows_def)
next
  show "GetSignatureBytes env = Inl e \<longleftrightarrow> GetSignatures env = Inl e"
    by (auto simp: GetSignatureBytes_def GetSignatures_def collect_sink split: sum.split prod.split)
qed

theorem signature_exports_align_witness:
  "\<exists>f b es. GetSignatureBytes exampleEnv = Inr ([f], [b]) \<and> GetSignatures exampleEnv = Inr [f] \<and>
     formFields exampleEnv es \<and> exportRow exampleEnv (es ! 0) f b"
proof -
  obtain f where "collectSignatures exampleEnv True = Inr ([f], Some [noBytes])" using example_collect [of True] by auto
  then have g: "GetSignatureBytes exampleEnv = Inr ([f], [noBytes])" by (simp add: GetSignatureBytes_def)
  from g signature_exports_align [THEN conjunct1, THEN mp, OF g] show ?thesis by auto
qed

end
