(* ===== verification/Spec2Isabelle.thy ===== *)
theory Spec2Isabelle
  imports BerRoundtrip Jpeg FileWatch PendingOpen LazyCache RecentFiles RecentFlush ObjectIndex Format ObjectDetail Resolve DiffSound PageExact NumberTreeSpec ReverseRefsSpec UpdateSpec UpdateDownloadSpec StructureSpec EmbeddedSpec ObjectSourceSpec SignatureSpec
begin

text \<open>
  \<^bold>\<open>The program.\<close> PDF debugger is a viewer for the inside of PDF files: a desktop application
  (\<^verbatim>\<open>main.go\<close>, \<^verbatim>\<open>recentflush.go\<close>, \<^verbatim>\<open>internal/pdfservice\<close>, a web front end) and a command line
  (\<^verbatim>\<open>cmd/cli\<close>), both over the inspector (\<^verbatim>\<open>internal/pdfcore\<close>), which reads documents through the
  pdfcpu library. Beside them stand a file watcher (\<^verbatim>\<open>internal/filewatch\<close>), the Open Recent list
  (\<^verbatim>\<open>internal/recentfiles\<close>), the queue of files to open (\<^verbatim>\<open>internal/pendingopen\<close>), atomic file
  replacement (\<^verbatim>\<open>internal/atomicfile\<close>) and the update check (\<^verbatim>\<open>internal/updatecheck\<close>,
  \<^verbatim>\<open>internal/updateservice\<close>, \<^verbatim>\<open>cmd/cli/update_notice.go\<close>). The development models the Go code that
  decides something; what only moves its results to a screen, a terminal or the network is listed
  under \<^emph>\<open>Not modelled\<close> below.

  \<^bold>\<open>Conventions.\<close> A Go function is a HOL function of the same name, a struct a record, an enumeration
  or a tagged value a datatype. Go's \<^verbatim>\<open>int\<close> and \<^verbatim>\<open>int64\<close> are integers with the wrap-around written out
  where a sum or product can leave 64 bits, and bytes are 8-bit words; a Go string is a list of its bytes as characters.
  A call that can fail returns a sum, \<open>Inl\<close> the failure. A panic of the PDF library that \<^verbatim>\<open>safeCall\<close>
  recovers is a value too (\<open>DPanic\<close> of \<open>PdfObject\<close>, then \<open>Inl\<close> of the walks); Go runtime errors,
  which the program lets crash, are not. A mutex-protected component is a step relation whose steps are
  the stretches of code between two lock operations.

  \<^bold>\<open>What stands for code outside the repository\<close> is an argument: \<open>pdfDoc\<close> (the cross-reference table and
  what a dereference answers), \<open>textLib\<close> and \<open>mcEnv\<close> (text strings, names, floats), \<open>docFacts\<close>,
  \<open>streamFacts\<close>, \<open>streamLib\<close> and \<open>pageLib\<close> (trailer, stream decoding, page boxes), \<open>writeEnv\<close>,
  \<open>fileWorld\<close>, \<open>fileSession\<close>, \<open>downloadEnv\<close>, \<open>cacheEnv\<close> and \<open>noticeEnv\<close> (operating system, network,
  clock, JSON coding, SHA-256), \<open>semverLib\<close> and \<open>releaseServer\<close>, \<open>codecs\<close> (decompressors and the library's
  decoder), \<open>embeddedLib\<close> and \<open>cmsLib\<close> (ASN.1, X.509, dates). They are unconstrained unless a theorem names what
  it relies on; each such theorem has a witness on a concrete instance.

  \<^bold>\<open>Foundations.\<close> \<open>Prelude\<close> has byte slices, results, loops that stop at the first failure and checks over
  all bytes; \<open>Strconv\<close> decimal printing and parsing and 64-bit wrap-around; \<open>Utf8\<close> runes and validity; \<open>Paths\<close> the \<^verbatim>\<open>filepath\<close> functions used; \<open>GoLib\<close>
  comparison, sorting and splitting into fields; \<open>PdfErrors\<close> the recovered panic and the error classes of \<^verbatim>\<open>errors.go\<close>;
  \<open>PdfObject\<close> PDF values and the document.

  \<^bold>\<open>Components, theory by theory.\<close>
  \<^item> \<open>Ber\<close>, \<open>BerSpec\<close>, \<open>BerRoundtrip\<close>: \<^verbatim>\<open>ber.go\<close>, three passes over one buffer (check, record, emit). A BER
    element is also read as a tree; the passes accept exactly the encodings of trees, emit the tree's DER
    encoding, and only the checking pass can fail.
  \<^item> \<open>Jpeg\<close>: \<^verbatim>\<open>jpegmarkers.go\<close>, the walk over marker segments under its two ceilings (512 segments, 20 MB).
  \<^item> \<open>FileWatch\<close>: \<^verbatim>\<open>watcher.go\<close>: the settle rule of a tab, and the scheduler, its callers and its stat
    goroutines as steps. No input is lost, and after two equal observations the receiver has heard of them.
  \<^item> \<open>PendingOpen\<close>: \<^verbatim>\<open>queue.go\<close> and the two callers of \<^verbatim>\<open>main.go\<close>, exactly-once delivery in every interleaving.
  \<^item> \<open>LazyCache\<close>: \<^verbatim>\<open>lazycache.go\<close>, at most one build.
  \<^item> \<open>AtomicFile\<close>: \<^verbatim>\<open>atomicfile.go\<close>, every intermediate state of a write.
  \<^item> \<open>RecentFiles\<close>, \<open>RecentFlush\<close>: \<^verbatim>\<open>recentfiles.go\<close> (at most ten entries, no file twice) and
    \<^verbatim>\<open>recentflush.go\<close>, the debounced save with its timer and the shutdown.
  \<^item> \<open>ObjectGraph\<close>, \<open>ObjectIndex\<close>: \<^verbatim>\<open>objectindex.go\<close>, \<^verbatim>\<open>xreftable.go\<close>: the breadth-first walk from the catalog,
    and the two tables built from it.
  \<^item> \<open>NodeIds\<close>, \<open>TreeNodes\<close>, \<open>ObjectDetail\<close>: \<^verbatim>\<open>tree.go\<close> and \<^verbatim>\<open>GetObjectDetail\<close>: rows of the object tree, the
    IDs that address them (at most 64 levels), and their resolution.
  \<^item> \<open>Resolve\<close>: \<^verbatim>\<open>resolve.go\<close>, the bounded unfolding of references (depth 32), against an inductive unfolding of
    the document that says which mark stands where.
  \<^item> \<open>ScalarRender\<close>, \<open>Metadata\<close>: \<^verbatim>\<open>scalarrender.go\<close>, \<^verbatim>\<open>textstring.go\<close>, \<^verbatim>\<open>metadata.go\<close>.
  \<^item> \<open>Diff\<close>, \<open>DiffSpec\<close>, \<open>DiffSound\<close>: \<^verbatim>\<open>diff.go\<close>, two graphs in lock step (depth 32), against a coinductive
    relation that says when two documents unfold alike.
  \<^item> \<open>ContentStream\<close>, \<open>Format\<close>, \<open>StreamCalls\<close>: \<^verbatim>\<open>stream.go\<close> and \<^verbatim>\<open>format.go\<close>: the tokenizer, the formatted
    view against an inductive grouping of the tokens, and the calls that fetch, decode and remember streams.
  \<^item> \<open>PageAttrs\<close>, \<open>PageIndex\<close>, \<open>PageNumbers\<close>, \<open>PageExact\<close>: \<^verbatim>\<open>pageindex.go\<close>, the walk of the page tree (depth
    1024) with inheritance; a page tree without sharing is described by an abstract tree.
  \<^item> \<open>NumberTree\<close>, \<open>NumberTreeSpec\<close>: \<^verbatim>\<open>numbertree.go\<close> (depth 64).
  \<^item> \<open>ReverseRefs\<close>, \<open>ReverseRefsSpec\<close>: \<^verbatim>\<open>reverserefs.go\<close>, the index of inbound references.
  \<^item> \<open>MarkedContent\<close>, \<open>MarkedContentSpec\<close>, \<open>StructureTree\<close>, \<open>StructureTreeSpec\<close>, \<open>StructureReport\<close>,
    \<open>StructureRules\<close>, \<open>StructureSpec\<close>: tagged PDF (\<^verbatim>\<open>markedcontent.go\<close>, \<^verbatim>\<open>structure.go\<close>,
    \<^verbatim>\<open>validate_structure.go\<close>): the scan of BMC, BDC and EMC, the structure tree (depth 256) against a relation that reads it off the document, the two put side
    by side with the ParentTree, and the five rules that read the result.
  \<^item> \<open>UpdateCheck\<close>, \<open>UpdateCheckSpec\<close>, \<open>UpdateCache\<close>, \<open>UpdateNotice\<close>, \<open>UpdateSpec\<close>, \<open>UpdateDownload\<close>,
    \<open>UpdateDownloadSpec\<close>: the release list (at most five pages), the records of the two binaries, the command
    line's notice, and the download with its checksum and free name (1000 tries).
  \<^item> \<open>StreamFilters\<close>, \<open>BoundedDecode\<close>, \<open>DecodeSpec\<close>: \<^verbatim>\<open>streamcount.go\<close>, \<^verbatim>\<open>boundeddecode.go\<close> and the ceilings of
    \<^verbatim>\<open>imagelimits.go\<close> and \<^verbatim>\<open>image.go\<close>: a stream's stages are counted through readers that stop one byte past the
    ceiling (50 to 512 MiB) before the library decodes it. The cut count gives the verdict of the whole outputs. The hexadecimal reader may go on past its
    terminator inside one read, so the sizes of its reads are a parameter.
  \<^item> \<open>Embedded\<close>, \<open>EmbeddedSpec\<close>: \<^verbatim>\<open>embedded.go\<close>, the attachments of \<open>/AF\<close> and the name tree (depth 64, which bounds
    the depth and not the work: a cyclic tree is walked \<open>2 ^ 65 - 1\<close> times).
  \<^item> \<open>ObjectSource\<close>, \<open>ObjectSourceSpec\<close>: \<^verbatim>\<open>objectsource.go\<close>, an object written back as text under a cap of
    256 KiB, against the text without a cap.
  \<^item> \<open>FileChange\<close>: \<^verbatim>\<open>filechange.go\<close>, \<^verbatim>\<open>plaintext.go\<close> (at most 4 GiB) and the span read of \<^verbatim>\<open>signature.go\<close>: a handle
    is checked before the first read and after the last.
  \<^item> \<open>Signatures\<close>, \<open>SignatureFields\<close>, \<open>SignatureSpec\<close>: \<^verbatim>\<open>signature.go\<close> and \<^verbatim>\<open>signature_cert.go\<close>, the fields of the form
    (depth 64) against an inductive listing, the byte range against the bytes of the file, the hole on disk (at
    most 4 MiB) with the refusals that later fields repeat, and the exported bytes.

  \<^bold>\<open>Interfaces.\<close> \<open>open_buffer\<close> (\<open>PendingOpen\<close>) is what the two clients of the queue rely on;
  \<open>remembering\<close> (\<open>StreamCalls\<close>) what a caller of a memo relies on, interpreted on the cache of decoded
  streams there and on the report's memo in \<open>StructureSpec\<close>; \<open>record_files\<close> (\<open>UpdateSpec\<close>) the record
  store, interpreted on the files of \<open>UpdateCache\<close>. The properties rest on the interpretations' facts.

  \<^bold>\<open>Bounds and fuel.\<close> The bounds above are the code's own constants. Where the code loops over a queue
  or a cursor, the model recurses on a measure or carries fuel; the fuel is the length of the input or the
  number of containers of the document, and the lemmas show that it is never used up on the
  documents the theorems speak of: the walks of \<open>ObjectGraph\<close> and \<open>ReverseRefs\<close> are shown to end.

  \<^bold>\<open>Not modelled.\<close> Rendering of pages, images and fonts to pixels and glyphs (\<^verbatim>\<open>page_render.go\<close>, the rest
  of \<^verbatim>\<open>image.go\<close>, \<^verbatim>\<open>font*.go\<close>), which is mostly the image libraries' arithmetic; the other compliance rules
  (\<^verbatim>\<open>validate.go\<close>), each a shallow test over library answers; the commands of the command line, the
  application's window, menus, events and splash screen, which call the components and print; the front end
  in TypeScript; the per-tab locks around calls, which the models state as one step per call under the
  lock.
\<close>

end
